(* ===== verification/Kapsel_Prelude.thy ===== *)
theory Kapsel_Prelude
  imports Complex_Main "HOL-Library.List_Lexorder" "HOL-Library.Char_ord" "HOL-Library.Sublist"
begin

text \<open>
  The prelude of the OpenKapsel development: the values and errors of the Python program, the
  string operations of the standard library that the modelled files use, and the generic facts
  on lists and tables that the component theories share.

  A Python string is a \<^typ>\<open>string\<close>, one \<^typ>\<open>char\<close> per code point, so the model ranges over
  strings whose code points are below 256; \<open>length\<close> then counts what Python's \<open>len\<close> counts.  A
  value the program receives from outside with type \<open>Any\<close> (a decoded JSON value) is a
  \<open>pyval\<close>.  An operation that can raise returns a value of type \<open>'a result\<close>; an operation that
  reads and writes a store has type \<open>('s, 'a) op\<close> and returns, beside its outcome, the store that
  is left behind, so that a rollback and a failure after a commit are told apart.
\<close>

section \<open>Values, errors, results\<close>

text \<open>Finite floats are exact rationals; the comparisons of the program treat NaN as Python does.\<close>

datatype pyfloat = Fin rat | PosInf | NegInf | NaN

datatype pyval =
    PNone
  | PBool bool
  | PInt int
  | PFloat pyfloat
  | PStr string
  | PList "pyval list"
  | PDict "(string \<times> pyval) list"

datatype pyerr =
    ScheduleError string
  | ValueError string
  | KeyError string
  | RuntimeError string
  | PermissionError string
  | OverflowError
  | AssertionError
  | IntegrityError
  | TypeError
  | RequestConflict string string
  | ApiError nat string string
  | OAuthError string nat
  | UploadError nat string
  | OSError

type_synonym 'a result = "pyerr + 'a"

type_synonym ('s, 'a) op = "'s \<Rightarrow> 'a result \<times> 's"

definition andThen :: "'a result \<Rightarrow> ('a \<Rightarrow> 'b result) \<Rightarrow> 'b result" where
  "andThen r f = (case r of Inl e \<Rightarrow> Inl e | Inr x \<Rightarrow> f x)"

lemma andThen_simps [simp]:
  "andThen (Inl e) f = Inl e"
  "andThen (Inr x) f = f x"
  by (simp_all add: andThen_def)

lemma andThen_eq_Inr [simp]: "andThen r f = Inr y \<longleftrightarrow> (\<exists>x. r = Inr x \<and> f x = Inr y)"
  by (cases r) auto

lemma andThen_assoc: "andThen (andThen r f) g = andThen r (\<lambda>x. andThen (f x) g)"
  by (cases r) auto

text \<open>
  The state-passing counterpart: a pure computation that can raise in front of a store operation.
  When it raises, the transaction is rolled back, so the store is the one before.
\<close>

definition attempt :: "'a result \<Rightarrow> ('a \<Rightarrow> ('s, 'b) op) \<Rightarrow> ('s, 'b) op" where
  "attempt r f s = (case r of Inl e \<Rightarrow> (Inl e, s) | Inr x \<Rightarrow> f x s)"

lemma attempt_simps [simp]:
  "attempt (Inl e) f s = (Inl e, s)"
  "attempt (Inr x) f s = f x s"
  by (simp_all add: attempt_def)

lemma attempt_cases:
  obtains (raised) e where "r = Inl e" and "attempt r f s = (Inl e, s)"
    | (ok) x where "r = Inr x" and "attempt r f s = f x s"
  by (cases r) auto

section \<open>Strings\<close>

definition is_space :: "char \<Rightarrow> bool" where
  "is_space c \<longleftrightarrow> c \<in> set [CHR 0x09, CHR 0x0A, CHR 0x0B, CHR 0x0C, CHR 0x0D, CHR 0x1C, CHR 0x1D,
     CHR 0x1E, CHR 0x1F, CHR 0x20, CHR 0x85, CHR 0xA0]"

definition lstrip :: "string \<Rightarrow> string" where
  "lstrip s = dropWhile is_space s"

definition strip :: "string \<Rightarrow> string" where
  "strip s = rev (dropWhile is_space (rev (lstrip s)))"

definition startswith :: "string \<Rightarrow> string \<Rightarrow> bool" where
  "startswith s p \<longleftrightarrow> take (length p) s = p"

definition endswith :: "string \<Rightarrow> string \<Rightarrow> bool" where
  "endswith s p \<longleftrightarrow> startswith (rev s) (rev p)"

fun contains :: "string \<Rightarrow> string \<Rightarrow> bool" where
  "contains [] p = (p = [])"
| "contains (c # s) p = (startswith (c # s) p \<or> contains s p)"

text \<open>\<open>s.split(c)\<close> with an explicit one-character separator.\<close>

fun split_on :: "char \<Rightarrow> string \<Rightarrow> string list" where
  "split_on c [] = [[]]"
| "split_on c (x # xs) =
     (if x = c then [] # split_on c xs
      else case split_on c xs of [] \<Rightarrow> [[x]] | w # ws \<Rightarrow> (x # w) # ws)"

text \<open>\<open>s.split()\<close>: maximal runs of non-space characters.\<close>

function split_ws :: "string \<Rightarrow> string list" where
  "split_ws s =
     (case lstrip s of
        [] \<Rightarrow> []
      | c # cs \<Rightarrow> (c # takeWhile (\<lambda>x. \<not> is_space x) cs) # split_ws (dropWhile (\<lambda>x. \<not> is_space x) cs))"
  by pat_completeness auto
termination
proof (relation "measure length")
  show "wf (measure length :: (char list \<times> char list) set)" by simp
next
  fix s c cs
  assume "lstrip s = c # cs"
  then have "length (c # cs) \<le> length s"
    unfolding lstrip_def by (metis length_dropWhile_le)
  moreover have "length (dropWhile (\<lambda>x. \<not> is_space x) cs) \<le> length cs"
    by (rule length_dropWhile_le)
  ultimately show "(dropWhile (\<lambda>x. \<not> is_space x) cs, s) \<in> measure length" by simp
qed

declare split_ws.simps [simp del]

text \<open>\<open>s.partition(c)\<close>: what is before the first \<open>c\<close>, whether there is one, what is after it.\<close>

definition partition_on :: "char \<Rightarrow> string \<Rightarrow> string \<times> bool \<times> string" where
  "partition_on c s =
     (takeWhile (\<lambda>x. x \<noteq> c) s, c \<in> set s, drop 1 (dropWhile (\<lambda>x. x \<noteq> c) s))"

definition ascii_digit :: "char \<Rightarrow> bool" where
  "ascii_digit c \<longleftrightarrow> c \<in> set ''0123456789''"

text \<open>
  \<open>str.isdigit\<close> also holds of the superscripts two, three and one (code points B2, B3 and B9),
  which \<open>int\<close> refuses.
\<close>

definition digit_char :: "char \<Rightarrow> bool" where
  "digit_char c \<longleftrightarrow> ascii_digit c \<or> c \<in> set [CHR 0xB2, CHR 0xB3, CHR 0xB9]"

definition isdigit :: "string \<Rightarrow> bool" where
  "isdigit s \<longleftrightarrow> s \<noteq> [] \<and> list_all digit_char s"

definition digit_value :: "char \<Rightarrow> nat" where
  "digit_value c = of_char c - 48"

definition digits_value :: "string \<Rightarrow> nat" where
  "digits_value s = foldl (\<lambda>n c. 10 * n + digit_value c) 0 s"

text \<open>
  \<open>int(s)\<close> on a string for which \<open>s.isdigit()\<close> holds: the superscripts are refused, and so are
  more than 4300 digits (the interpreter's default conversion limit).
\<close>

definition py_int :: "string \<Rightarrow> nat result" where
  "py_int s =
     (if \<not> list_all ascii_digit s then Inl (ValueError ''invalid literal for int() with base 10'')
      else if length s > 4300 then Inl (ValueError ''Exceeds the limit (4300 digits) for integer string conversion'')
      else Inr (digits_value s))"

text \<open>Decimal text of a number, as an f-string writes it.\<close>

definition digit :: "nat \<Rightarrow> char" where
  "digit k = ''0123456789'' ! k"

fun show_nat :: "nat \<Rightarrow> string" where
  "show_nat n = (if n < 10 then [digit n] else show_nat (n div 10) @ [digit (n mod 10)])"

declare show_nat.simps [simp del]

definition show_int :: "int \<Rightarrow> string" where
  "show_int i = (if i < 0 then ''-'' @ show_nat (nat (- i)) else show_nat (nat i))"

fun join :: "string \<Rightarrow> string list \<Rightarrow> string" where
  "join sep [] = []"
| "join sep [w] = w"
| "join sep (w # ws) = w @ sep @ join sep ws"

text \<open>
  \<open>str.casefold\<close> below code point 256: ASCII and Latin capital letters, and sharp s, which folds
  to \<open>ss\<close>.  (The micro sign folds to a code point above 255; no name the program compares with
  contains it, and the model leaves it alone.)
\<close>

definition casefold_char :: "char \<Rightarrow> string" where
  "casefold_char c =
     (let n = (of_char c :: nat)
      in if (65 \<le> n \<and> n \<le> 90) \<or> (192 \<le> n \<and> n \<le> 222 \<and> n \<noteq> 215) then [char_of (n + 32)]
         else if n = 223 then ''ss''
         else [c])"

definition casefold :: "string \<Rightarrow> string" where
  "casefold s = concat (map casefold_char s)"

lemma casefold_append [simp]: "casefold (s @ t) = casefold s @ casefold t"
  by (simp add: casefold_def)

lemma digit_props:
  assumes "k < 10"
  shows "ascii_digit (digit k)" "digit_value (digit k) = k" "of_char (digit k) = 48 + k"
proof -
  have "k \<in> {0, 1, 2, 3, 4, 5, 6, 7, 8, 9}" using assms by auto
  then show "ascii_digit (digit k)" "digit_value (digit k) = k" "of_char (digit k) = 48 + k"
    by (auto simp: ascii_digit_def digit_value_def digit_def)
qed

lemma show_nat_props:
  "show_nat n \<noteq> [] \<and> list_all ascii_digit (show_nat n) \<and> digits_value (show_nat n) = n"
proof (induction n rule: show_nat.induct)
  case (1 n)
  show ?case
  proof (cases "n < 10")
    case True
    then show ?thesis using digit_props [of n] by (simp add: show_nat.simps [of n] digits_value_def)
  next
    case False
    then have "digits_value (show_nat (n div 10)) = n div 10" "list_all ascii_digit (show_nat (n div 10))"
      using 1 by auto
    with False digit_props [of "n mod 10"] show ?thesis
      by (simp add: show_nat.simps [of n] digits_value_def)
  qed
qed

lemma length_show_nat_le: "length (show_nat n) \<le> Suc n"
proof (induction n rule: show_nat.induct)
  case (1 n)
  then show ?case by (cases "n < 10") (auto simp: show_nat.simps [of n])
qed

lemma dropWhile_eq_self: "(\<forall>x xs'. xs = x # xs' \<longrightarrow> \<not> P x) \<Longrightarrow> dropWhile P xs = xs"
  by (cases xs) auto

lemma strip_idem [simp]: "strip (strip s) = strip s"
proof -
  let ?r = "dropWhile is_space (rev (dropWhile is_space s))"
  have tail: "\<not> is_space (last (rev ?r))" if "?r \<noteq> []"
    using hd_dropWhile [of is_space "rev (dropWhile is_space s)"] that
    by (simp add: last_rev)
  have head: "\<not> is_space x" if "rev ?r = x # xs" for x xs
  proof -
    have "suffix ?r (rev (dropWhile is_space s))" by (rule suffix_dropWhile)
    then have "prefix (rev ?r) (dropWhile is_space s)"
      by (simp add: suffix_to_prefix)
    with that obtain ys where "dropWhile is_space s = x # ys"
      by (auto simp: prefix_def)
    then show ?thesis by (metis dropWhile_eq_Cons_conv)
  qed
  have "dropWhile is_space (rev ?r) = rev ?r"
    using head by (intro dropWhile_eq_self) blast
  moreover have "dropWhile is_space ?r = ?r" by simp
  ultimately show ?thesis by (simp add: strip_def lstrip_def)
qed

text \<open>The words of \<open>s.split()\<close>, and that joining words with a space is undone by it.\<close>

lemma split_ws_words:
  "w \<in> set (split_ws s) \<Longrightarrow> w \<noteq> [] \<and> (\<forall>c \<in> set w. \<not> is_space c)"
proof (induction s rule: split_ws.induct)
  case (1 s)
  show ?case
  proof (cases "lstrip s")
    case Nil
    with 1 show ?thesis by (simp add: split_ws.simps [of s])
  next
    case (Cons c cs)
    then have "\<not> is_space c" unfolding lstrip_def by (metis dropWhile_eq_Cons_conv)
    have "split_ws s = (c # takeWhile (\<lambda>x. \<not> is_space x) cs) # split_ws (dropWhile (\<lambda>x. \<not> is_space x) cs)"
      by (subst split_ws.simps) (simp add: Cons)
    from this "1.prems" consider "w = c # takeWhile (\<lambda>x. \<not> is_space x) cs"
      | "w \<in> set (split_ws (dropWhile (\<lambda>x. \<not> is_space x) cs))" by (simp only: set_simps) blast
    then show ?thesis
    proof cases
      case 1
      with \<open>\<not> is_space c\<close> show ?thesis by (simp, metis set_takeWhileD)
    next
      case 2
      then show ?thesis by (rule "1.IH" [OF Cons])
    qed
  qed
qed

lemma takeWhile_word: "\<forall>c \<in> set w. \<not> is_space c \<Longrightarrow> rest = [] \<or> is_space (hd rest) \<Longrightarrow>
    takeWhile (\<lambda>x. \<not> is_space x) (w @ rest) = w \<and> dropWhile (\<lambda>x. \<not> is_space x) (w @ rest) = rest"
proof (induction w)
  case Nil
  then show ?case by (cases rest) auto
qed simp

lemma split_ws_word:
  assumes "w \<noteq> []" "\<forall>c \<in> set w. \<not> is_space c" "rest = [] \<or> is_space (hd rest)"
  shows "split_ws (w @ rest) = w # split_ws rest"
proof -
  obtain c cs where w: "w = c # cs" using assms(1) by (cases w) auto
  then have "lstrip (w @ rest) = c # cs @ rest" using assms(2) by (simp add: lstrip_def)
  moreover have "takeWhile (\<lambda>x. \<not> is_space x) (cs @ rest) = cs" "dropWhile (\<lambda>x. \<not> is_space x) (cs @ rest) = rest"
    using w assms(2,3) takeWhile_word [of cs rest] by simp_all
  ultimately show ?thesis unfolding w by (subst split_ws.simps) simp
qed

lemma split_ws_space: "split_ws ('' '' @ s) = split_ws s"
proof -
  have "lstrip ('' '' @ s) = lstrip s" by (simp add: lstrip_def is_space_def)
  then show ?thesis unfolding split_ws.simps [of "'' '' @ s"] split_ws.simps [of s] by simp
qed

lemma split_ws_join:
  "\<forall>w \<in> set ws. w \<noteq> [] \<and> (\<forall>c \<in> set w. \<not> is_space c) \<Longrightarrow> split_ws (join '' '' ws) = ws"
proof (induction ws rule: induct_list012)
  case 1
  show ?case unfolding split_ws.simps [of "join '' '' []"] by (simp add: lstrip_def)
next
  case (2 w)
  then show ?case using split_ws_word [of w "[]"] unfolding split_ws.simps [of "[]"] by (simp add: lstrip_def)
next
  case (3 w v ws)
  then have "split_ws (w @ '' '' @ join '' '' (v # ws)) = w # split_ws ('' '' @ join '' '' (v # ws))"
    by (intro split_ws_word) (auto simp: is_space_def)
  with 3 show ?case by (simp only: join.simps split_ws_space) simp
qed

text \<open>Splitting at a separator undoes joining words that do not contain it.\<close>

lemma split_on_not_Nil [simp]: "split_on c s \<noteq> []"
  by (cases s) (auto split: list.splits)

lemma split_on_no_sep: "c \<notin> set w \<Longrightarrow> split_on c w = [w]"
  by (induction w) auto

lemma split_on_append: "c \<notin> set w \<Longrightarrow> split_on c (w @ c # rest) = w # split_on c rest"
  by (induction w) auto

lemma split_on_join:
  "ws \<noteq> [] \<Longrightarrow> (\<forall>w \<in> set ws. c \<notin> set w) \<Longrightarrow> split_on c (join [c] ws) = ws"
  by (induction ws rule: induct_list012) (auto simp: split_on_no_sep split_on_append)

lemma length_strip_le: "length (strip s) \<le> length s"
  unfolding strip_def lstrip_def
  by (metis length_dropWhile_le length_rev le_trans)

lemma sort_key_Nil: "sort_key f xs = [] \<longleftrightarrow> xs = []"
  by (metis length_0_conv length_sort)

lemma ball_neq_image: "\<forall>x \<in> A. f x \<noteq> y \<Longrightarrow> y \<notin> f ` A"
  by auto

section \<open>Components as state machines\<close>

text \<open>
  The interface between a store and the proofs about its lifetime: the states it can start from,
  the steps its operations make, and an invariant.  A component that provides the two laws gets the
  invariant in every state that its operations can reach.
\<close>

locale state_machine =
  fixes start :: "'s \<Rightarrow> bool" and step :: "'s \<Rightarrow> 's \<Rightarrow> bool" and inv :: "'s \<Rightarrow> bool"
  assumes start_inv: "start s \<Longrightarrow> inv s"
    and step_inv: "inv s \<Longrightarrow> step s s' \<Longrightarrow> inv s'"
begin

lemma steps_inv: "step\<^sup>*\<^sup>* s s' \<Longrightarrow> inv s \<Longrightarrow> inv s'"
  by (induction rule: rtranclp_induct) (auto intro: step_inv)

lemma reachable_inv: "start s \<Longrightarrow> step\<^sup>*\<^sup>* s s' \<Longrightarrow> inv s'"
  by (rule steps_inv) (auto intro: start_inv)

lemma reachable_imp: "start s \<Longrightarrow> step\<^sup>*\<^sup>* s s' \<Longrightarrow> (\<And>x. inv x \<Longrightarrow> P x) \<Longrightarrow> P s'"
  using reachable_inv by blast

end

text \<open>
  A store whose states are moreover ordered by what can never be undone: every step goes forward, so
  a later state is forward of every earlier one.
\<close>

locale evolving = state_machine +
  fixes later :: "'a \<Rightarrow> 'a \<Rightarrow> bool"
  assumes later_refl: "later s s"
    and later_trans: "later s t \<Longrightarrow> later t u \<Longrightarrow> later s u"
    and step_later: "inv s \<Longrightarrow> step s s' \<Longrightarrow> later s s'"
begin

lemma steps_later: "step\<^sup>*\<^sup>* s s' \<Longrightarrow> inv s \<Longrightarrow> later s s'"
proof (induction rule: rtranclp_induct)
  case (step t u)
  then have "later s t" "inv t" by (auto intro: steps_inv)
  with step.hyps(2) show ?case by (blast intro: later_trans step_later)
qed (rule later_refl)

lemma reachable_later: "start s \<Longrightarrow> step\<^sup>*\<^sup>* s t \<Longrightarrow> step\<^sup>*\<^sup>* t u \<Longrightarrow> later t u"
  by (rule steps_later) (auto intro: reachable_inv)

end

section \<open>Association lists as dictionaries\<close>

definition dict_get :: "(string \<times> pyval) list \<Rightarrow> string \<Rightarrow> pyval" where
  "dict_get d k = (case map_of d k of None \<Rightarrow> PNone | Some v \<Rightarrow> v)"

definition dict_get_default :: "(string \<times> pyval) list \<Rightarrow> string \<Rightarrow> pyval \<Rightarrow> pyval" where
  "dict_get_default d k v0 = (case map_of d k of None \<Rightarrow> v0 | Some v \<Rightarrow> v)"

definition dict_has :: "(string \<times> pyval) list \<Rightarrow> string \<Rightarrow> bool" where
  "dict_has d k \<longleftrightarrow> k \<in> fst ` set d"

lemma lookup_filtered:
  assumes "distinct (map fst rows)"
  shows "map_of (filter P rows) key = (case map_of rows key of Some x \<Rightarrow> if P (key, x) then Some x else None | None \<Rightarrow> None)"
  using assms
proof (induction rows)
  case (Cons row rows)
  obtain k0 x0 where row: "row = (k0, x0)" by force
  have "map_of (filter P rows) k0 = None" using Cons.prems row by (auto simp: map_of_eq_None_iff)
  with Cons row show ?case by (auto split: option.splits simp: map_of_eq_None_iff)
qed simp

section \<open>Tables\<close>

text \<open>
  A database table is the list of its rows in insertion order.  \<open>select\<close> is the query for the row
  with a primary key, \<open>update_where\<close> an UPDATE statement with its condition.
\<close>

definition select :: "('r \<Rightarrow> 'k) \<Rightarrow> 'k \<Rightarrow> 'r list \<Rightarrow> 'r option" where
  "select key k rows = find (\<lambda>r. key r = k) rows"

definition update_where :: "('r \<Rightarrow> bool) \<Rightarrow> ('r \<Rightarrow> 'r) \<Rightarrow> 'r list \<Rightarrow> 'r list" where
  "update_where P f rows = map (\<lambda>r. if P r then f r else r) rows"

definition delete_where :: "('r \<Rightarrow> bool) \<Rightarrow> 'r list \<Rightarrow> 'r list" where
  "delete_where P rows = filter (\<lambda>r. \<not> P r) rows"

named_theorems table_simps \<open>facts on the rows a table statement leaves\<close>

lemma select_Some: "select key k rows = Some r \<Longrightarrow> r \<in> set rows \<and> key r = k"
  unfolding select_def by (auto simp: find_Some_iff)

lemma find_Some_mem: "find P xs = Some x \<Longrightarrow> x \<in> set xs \<and> P x"
  by (auto simp: find_Some_iff)

lemma select_None: "select key k rows = None \<longleftrightarrow> k \<notin> key ` set rows"
  unfolding select_def by (auto simp: find_None_iff)

lemma select_in: "distinct (map key rows) \<Longrightarrow> r \<in> set rows \<Longrightarrow> select key (key r) rows = Some r"
  unfolding select_def by (induction rows) auto

lemma select_iff:
  assumes "distinct (map key rows)"
  shows "select key k rows = Some r \<longleftrightarrow> r \<in> set rows \<and> key r = k"
  using select_in [OF assms] select_Some by fastforce

lemma select_append:
  "select key k (rows @ [r]) = (case select key k rows of Some x \<Rightarrow> Some x | None \<Rightarrow> if key r = k then Some r else None)"
  unfolding select_def by (induction rows) auto

lemma set_update_where [table_simps]:
  "set (update_where P f rows) = (\<lambda>r. if P r then f r else r) ` set rows"
  by (simp add: update_where_def)

lemma map_update_where [table_simps]:
  "(\<And>r. P r \<Longrightarrow> key (f r) = key r) \<Longrightarrow> map key (update_where P f rows) = map key rows"
  by (auto simp: update_where_def)

lemma select_update_where [table_simps]:
  assumes "\<And>r. P r \<Longrightarrow> key (f r) = key r"
  shows "select key k (update_where P f rows) =
    map_option (\<lambda>r. if P r then f r else r) (select key k rows)"
  unfolding select_def update_where_def using assms by (induction rows) auto

lemma key_unique: "distinct (map key rows) \<Longrightarrow> x \<in> set rows \<Longrightarrow> y \<in> set rows \<Longrightarrow> key x = key y \<Longrightarrow> x = y"
  unfolding distinct_map inj_on_def by blast

text \<open>Rewriting the selected row from its old value is rewriting every row with its key.\<close>

lemma update_where_selected:
  assumes "distinct (map key rows)" "select key k rows = Some r"
  shows "update_where (\<lambda>x. key x = k) (\<lambda>_. g r) rows = update_where (\<lambda>x. key x = k) g rows"
  unfolding update_where_def
proof (rule map_cong [OF refl])
  fix x assume "x \<in> set rows"
  with select_in [OF assms(1)] assms(2) have "key x = k \<Longrightarrow> x = r" by fastforce
  then show "(if key x = k then g r else x) = (if key x = k then g x else x)" by metis
qed

lemma length_filter_update_where_eq [table_simps]:
  assumes "\<And>r. P r \<Longrightarrow> Q (f r) = Q r"
  shows "length (filter Q (update_where P f rows)) = length (filter Q rows)"
  unfolding update_where_def using assms by (induction rows) auto

lemma length_filter_update_where_le [table_simps]:
  assumes "\<And>r. P r \<Longrightarrow> Q (f r) \<Longrightarrow> Q r"
  shows "length (filter Q (update_where P f rows)) \<le> length (filter Q rows)"
  unfolding update_where_def using assms by (induction rows) auto

lemma set_delete_where [table_simps]: "set (delete_where P rows) = {r \<in> set rows. \<not> P r}"
  by (auto simp: delete_where_def)

lemma distinct_delete_where [table_simps]:
  "distinct (map key rows) \<Longrightarrow> distinct (map key (delete_where P rows))"
  unfolding delete_where_def by (rule distinct_map_filter)

lemma length_filter_delete_where [table_simps]:
  "length (filter Q (delete_where P rows)) \<le> length (filter Q rows)"
  unfolding delete_where_def by (induction rows) auto

lemma distinct_filter_le_1:
  assumes "distinct rows" and "\<And>a b. a \<in> set rows \<Longrightarrow> b \<in> set rows \<Longrightarrow> Q a \<Longrightarrow> Q b \<Longrightarrow> a = b"
  shows "length (filter Q rows) \<le> 1"
proof (cases "filter Q rows")
  case Nil
  then show ?thesis by simp
next
  case (Cons a rest)
  show ?thesis
  proof (cases rest)
    case Nil
    with Cons show ?thesis by simp
  next
    case b: (Cons b rest')
    have "distinct (filter Q rows)" using assms(1) by simp
    moreover have "set (a # b # rest') \<subseteq> {r \<in> set rows. Q r}"
      using Cons b by (metis set_filter subset_refl)
    ultimately show ?thesis using Cons b assms(2) by fastforce
  qed
qed

end
