(* ===== verification/Civil_Time.thy ===== *)
theory Civil_Time
  imports Kapsel_Prelude
begin

text \<open>
  Dates, UTC instants and their ISO 8601 text, as \<open>scheduler_store.py\<close> uses Python's
  \<open>datetime\<close>.  An instant is the number of microseconds since 0001-01-01T00:00 UTC; the range of
  \<open>datetime\<close> is the years 1 to 9999.  The store keeps instants as the text \<open>iso_utc\<close> writes and
  lets SQLite compare that text byte by byte (\<open>ORDER BY next_run_at\<close>, \<open>scheduled_at < ?\<close>);
  the main fact of this theory is that the order of the text is the order of time, so that the
  other theories may keep instants in those columns.
\<close>

section \<open>The proleptic Gregorian calendar\<close>

definition is_leap :: "int \<Rightarrow> bool" where
  "is_leap y \<longleftrightarrow> y mod 4 = 0 \<and> (y mod 100 \<noteq> 0 \<or> y mod 400 = 0)"

definition days_before_year :: "int \<Rightarrow> int" where
  "days_before_year y = (let p = y - 1 in p * 365 + p div 4 - p div 100 + p div 400)"

definition days_in_month :: "int \<Rightarrow> int \<Rightarrow> int" where
  "days_in_month y m =
     (if m = 2 then (if is_leap y then 29 else 28)
      else if m \<in> {4, 6, 9, 11} then 30 else 31)"

text \<open>The days of the year before each month, from \<open>m = 1\<close> on.\<close>

fun days_before_month :: "int \<Rightarrow> nat \<Rightarrow> int" where
  "days_before_month y 0 = 0"
| "days_before_month y (Suc k) = days_before_month y k + (if k = 0 then 0 else days_in_month y (int k))"

definition ymd2ord :: "int \<times> int \<times> int \<Rightarrow> int" where
  "ymd2ord = (\<lambda>(y, m, d). days_before_year y + days_before_month y (nat m) + d)"

definition valid_date :: "int \<times> int \<times> int \<Rightarrow> bool" where
  "valid_date = (\<lambda>(y, m, d). 1 \<le> m \<and> m \<le> 12 \<and> 1 \<le> d \<and> d \<le> days_in_month y m)"

text \<open>
  The year of an ordinal: no year has more than 366 days, so the search for the year whose last day
  is not before the ordinal starts at \<open>(n - 1) div 366 + 1\<close>.
\<close>

lemma days_before_year_step: "days_before_year y < days_before_year (y + 1)"
proof -
  have "(y - 1) div 4 \<le> y div 4" "(y - 1) div 100 \<le> y div 100 \<and> y div 100 \<le> (y - 1) div 100 + 1"
    "(y - 1) div 400 \<le> y div 400"
    using zdiv_mono1 [of y "y - 1 + 100" 100] by (simp_all add: zdiv_mono1)
  then show ?thesis by (simp add: days_before_year_def Let_def)
qed

function find_year :: "int \<Rightarrow> int \<Rightarrow> int" where
  "find_year y n = (if n \<le> days_before_year (y + 1) then y else find_year (y + 1) n)"
  by pat_completeness auto
termination
proof (relation "measure (\<lambda>(y, n). nat (n - days_before_year y))")
  fix y n :: int
  assume "\<not> n \<le> days_before_year (y + 1)"
  then show "((y + 1, n), (y, n)) \<in> measure (\<lambda>(y, n). nat (n - days_before_year y))"
    using days_before_year_step [of y] by simp
qed simp

declare find_year.simps [simp del]

definition year_of :: "int \<Rightarrow> int" where
  "year_of n = find_year ((n - 1) div 366 + 1) n"

text \<open>The month holding a day of the year (counted from 1): the first whose end is not before it.\<close>

fun month_of :: "int \<Rightarrow> nat \<Rightarrow> int \<Rightarrow> nat" where
  "month_of y 0 d = 12"
| "month_of y (Suc k) d =
     (let m = 12 - k in if d \<le> days_before_month y (Suc m) then m else month_of y k d)"

definition ord2ymd :: "int \<Rightarrow> int \<times> int \<times> int" where
  "ord2ymd n =
     (let y = year_of n; d = n - days_before_year y; m = month_of y 12 d
      in (y, int m, d - days_before_month y m))"

definition weekday :: "int \<Rightarrow> int" where
  \<comment> \<open>\<open>date.weekday\<close>: Monday is 0\<close>
  "weekday n = (n + 6) mod 7"

lemma days_in_month_pos [simp]: "28 \<le> days_in_month y m" "0 < days_in_month y m"
  "days_in_month y m \<le> 31"
  by (auto simp: days_in_month_def)

lemma days_before_month_table:
  "days_before_month y 1 = 0" "days_before_month y 2 = 31"
  "days_before_month y 3 = 59 + (if is_leap y then 1 else 0)"
  "days_before_month y 4 = 90 + (if is_leap y then 1 else 0)"
  "days_before_month y 5 = 120 + (if is_leap y then 1 else 0)"
  "days_before_month y 6 = 151 + (if is_leap y then 1 else 0)"
  "days_before_month y 7 = 181 + (if is_leap y then 1 else 0)"
  "days_before_month y 8 = 212 + (if is_leap y then 1 else 0)"
  "days_before_month y 9 = 243 + (if is_leap y then 1 else 0)"
  "days_before_month y 10 = 273 + (if is_leap y then 1 else 0)"
  "days_before_month y 11 = 304 + (if is_leap y then 1 else 0)"
  "days_before_month y 12 = 334 + (if is_leap y then 1 else 0)"
  "days_before_month y 13 = 365 + (if is_leap y then 1 else 0)"
  by (simp_all add: eval_nat_numeral days_in_month_def)

lemma div_pred:
  fixes y k :: int
  assumes "0 < k"
  shows "y div k = (y - 1) div k + (if y mod k = 0 then 1 else 0)"
proof (cases "y mod k = 0")
  case True
  then obtain q where q: "y = k * q" by (auto simp: dvd_def simp flip: dvd_eq_mod_eq_0)
  have "(y - 1) div k = (k * (q - 1) + (k - 1)) div k" unfolding q by (simp add: algebra_simps)
  also have "\<dots> = q - 1" using assms by (simp add: int_div_pos_eq)
  finally show ?thesis using True q assms by simp
next
  case False
  then have "(y - 1) div k = (k * (y div k) + (y mod k - 1)) div k" by (simp add: algebra_simps)
  also have "\<dots> = y div k"
    using assms False pos_mod_sign [OF assms, of y] pos_mod_bound [OF assms, of y]
    by (intro int_div_pos_eq [where r = "y mod k - 1"]) auto
  finally show ?thesis using False by simp
qed

lemma carry_leap_day:
  fixes a b c a' b' c' :: int
  assumes "a' = a + (if P then 1 else 0)" "b' = b + (if Q then 1 else 0)" "c' = c + (if R then 1 else 0)"
    "Q \<Longrightarrow> P" "R \<Longrightarrow> Q"
  shows "365 * y + a' - b' + c' = 365 * (y - 1) + a - b + c + 365 + (if P \<and> (\<not> Q \<or> R) then 1 else 0)"
  using assms(4,5) by (cases P; cases Q; cases R; simp add: assms(1-3))

lemma days_before_year_Suc:
  "days_before_year (y + 1) = days_before_year y + 365 + (if is_leap y then 1 else 0)"
proof -
  have dvd: "(4 :: int) dvd 100" "(100 :: int) dvd 400" by simp_all
  have m: "y mod 100 = 0 \<longrightarrow> y mod 4 = 0" "y mod 400 = 0 \<longrightarrow> y mod 100 = 0"
    using dvd by (metis dvd_eq_mod_eq_0 dvd_trans)+
  have d: "y div 4 = (y - 1) div 4 + (if y mod 4 = 0 then 1 else 0)"
    "y div 100 = (y - 1) div 100 + (if y mod 100 = 0 then 1 else 0)"
    "y div 400 = (y - 1) div 400 + (if y mod 400 = 0 then 1 else 0)"
    by (rule div_pred, simp)+
  have "days_before_year (y + 1) = 365 * y + y div 4 - y div 100 + y div 400"
    by (simp only: days_before_year_def Let_def add_diff_cancel_right' mult.commute [of _ 365])
  also have "\<dots> = 365 * (y - 1) + (y - 1) div 4 - (y - 1) div 100 + (y - 1) div 400 + 365 +
      (if y mod 4 = 0 \<and> (y mod 100 \<noteq> 0 \<or> y mod 400 = 0) then 1 else 0)"
    by (rule carry_leap_day [OF d m [rule_format]])
  finally show ?thesis
    by (simp only: days_before_year_def Let_def is_leap_def mult.commute [of _ 365])
qed

lemma days_before_year_mono: "y \<le> y' \<Longrightarrow> days_before_year y \<le> days_before_year y'"
proof (induction "nat (y' - y)" arbitrary: y')
  case (Suc k)
  then have "days_before_year y \<le> days_before_year (y' - 1)" by simp
  then show ?case using days_before_year_step [of "y' - 1"] by simp
qed simp

lemma find_year_bounds:
  "days_before_year y < n \<Longrightarrow>
   days_before_year (find_year y n) < n \<and> n \<le> days_before_year (find_year y n + 1)"
proof (induction y n rule: find_year.induct)
  case (1 y n)
  then show ?case by (cases "n \<le> days_before_year (y + 1)") (auto simp: find_year.simps [of y n])
qed

lemma year_of_bounds:
  assumes "1 \<le> n"
  shows "days_before_year (year_of n) < n" "n \<le> days_before_year (year_of n + 1)"
proof -
  let ?p = "(n - 1) div 366"
  have "0 \<le> ?p" "366 * ?p \<le> n - 1" using assms by (simp_all add: pos_imp_zdiv_nonneg_iff)
  moreover have "4 * (?p div 4) \<le> ?p" "400 * (?p div 400) \<le> ?p" "0 \<le> ?p div 100"
    using calculation by (simp_all add: pos_imp_zdiv_nonneg_iff)
  ultimately have "days_before_year (?p + 1) < n"
    by (simp add: days_before_year_def Let_def)
  then show "days_before_year (year_of n) < n" "n \<le> days_before_year (year_of n + 1)"
    using find_year_bounds unfolding year_of_def by auto
qed

lemma year_of_unique:
  assumes "days_before_year y < n" "n \<le> days_before_year (y + 1)" "1 \<le> n"
  shows "year_of n = y"
proof -
  note b = year_of_bounds [OF assms(3)]
  have "\<not> year_of n + 1 \<le> y" using days_before_year_mono b(2) assms(1) by fastforce
  moreover have "\<not> y + 1 \<le> year_of n" using days_before_year_mono b(1) assms(2) by fastforce
  ultimately show ?thesis by linarith
qed

lemma days_before_month_mono: "k \<le> l \<Longrightarrow> days_before_month y k \<le> days_before_month y l"
  by (rule lift_Suc_mono_le [of "days_before_month y"]) (auto simp: less_imp_le)

lemma month_of_bounds:
  assumes "k \<le> 12" "days_before_month y (12 - k + 1) < d" "d \<le> days_before_month y 13" "1 \<le> k"
  shows "12 - k < month_of y k d \<and> month_of y k d \<le> 12 \<and>
    days_before_month y (month_of y k d) < d \<and> d \<le> days_before_month y (Suc (month_of y k d))"
  using assms
proof (induction y k d rule: month_of.induct)
  case (2 y k d)
  show ?case
  proof (cases "d \<le> days_before_month y (Suc (12 - k))")
    case True
    moreover have "12 - Suc k + 1 = 12 - k" using 2(2) by simp
    ultimately show ?thesis using 2(2,3) by (simp add: Let_def del: days_before_month.simps)
  next
    case False
    have "k \<noteq> 0"
    proof
      assume "k = 0"
      with False 2(4) show False by (simp del: days_before_month.simps)
    qed
    with False 2 show ?thesis by (auto simp: Let_def)
  qed
qed simp

lemma month_of_valid:
  assumes "1 \<le> d" "d \<le> days_before_month y 13"
  shows "1 \<le> month_of y 12 d" "month_of y 12 d \<le> 12"
    "days_before_month y (month_of y 12 d) < d" "d \<le> days_before_month y (Suc (month_of y 12 d))"
  using month_of_bounds [of 12 y d] assms by (auto simp: days_before_month_table)

theorem ord2ymd_valid: "1 \<le> n \<Longrightarrow> valid_date (ord2ymd n)"
  and ymd2ord_ord2ymd: "1 \<le> n \<Longrightarrow> ymd2ord (ord2ymd n) = n"
proof -
  assume n: "1 \<le> n"
  let ?y = "year_of n" let ?d = "n - days_before_year ?y" let ?m = "month_of ?y 12 ?d"
  have "1 \<le> ?d" "?d \<le> days_before_month ?y 13"
    using year_of_bounds [OF n] by (auto simp: days_before_month_table days_before_year_Suc)
  note m = month_of_valid [OF this]
  then have "days_before_month ?y (Suc ?m) = days_before_month ?y ?m + days_in_month ?y (int ?m)"
    by simp
  with m show "valid_date (ord2ymd n)" by (auto simp: ord2ymd_def Let_def valid_date_def)
  show "ymd2ord (ord2ymd n) = n" by (simp add: ord2ymd_def ymd2ord_def Let_def)
qed

section \<open>Instants and their text\<close>

type_synonym instant = int

definition DAY_US :: int where
  "DAY_US = 86400000000"

definition MAX_ORDINAL :: int where
  "MAX_ORDINAL = 3652059"

definition valid_instant :: "instant \<Rightarrow> bool" where
  "valid_instant t \<longleftrightarrow> 0 \<le> t \<and> t < MAX_ORDINAL * DAY_US"

definition ordinal_of :: "instant \<Rightarrow> int" where
  "ordinal_of t = t div DAY_US + 1"

definition minutes_us :: "int \<Rightarrow> int" where
  "minutes_us k = k * 60000000"

definition seconds_us :: "int \<Rightarrow> int" where
  "seconds_us k = k * 1000000"

definition days_us :: "int \<Rightarrow> int" where
  "days_us k = k * DAY_US"

text \<open>Adding a \<open>timedelta\<close> to a \<open>datetime\<close> raises \<open>OverflowError\<close> outside the years 1 to 9999.\<close>

definition add_delta :: "instant \<Rightarrow> int \<Rightarrow> instant result" where
  "add_delta t d = (if valid_instant (t + d) then Inr (t + d) else Inl OverflowError)"

fun pad :: "nat \<Rightarrow> nat \<Rightarrow> string" where
  "pad 0 n = []"
| "pad (Suc k) n = pad k (n div 10) @ [digit (n mod 10)]"

definition three_fields :: "nat \<Rightarrow> string \<Rightarrow> nat \<Rightarrow> nat \<Rightarrow> nat \<Rightarrow> string" where
  "three_fields w sep a b c = pad w a @ sep @ pad 2 b @ sep @ pad 2 c"

definition date_text :: "int \<Rightarrow> string" where
  "date_text n = (case ord2ymd n of (y, m, d) \<Rightarrow> three_fields 4 ''-'' (nat y) (nat m) (nat d))"

definition time_text :: "nat \<Rightarrow> string" where
  "time_text s = three_fields 2 '':'' (s div 3600) (s mod 3600 div 60) (s mod 60)"

definition frac_text :: "nat \<Rightarrow> string" where
  "frac_text us = (if us = 0 then ''+00:00'' else ''.'' @ pad 6 us @ ''+00:00'')"

definition iso_utc :: "instant \<Rightarrow> string" where
  "iso_utc t =
     date_text (ordinal_of t) @ ''T'' @ time_text (nat (t mod DAY_US div 1000000)) @
     frac_text (nat (t mod 1000000))"

subsection \<open>The order of the text\<close>

lemma less_append_same_length:
  fixes xs ys :: "'a::linorder list"
  assumes "length xs = length ys"
  shows "xs @ as < ys @ bs \<longleftrightarrow> xs < ys \<or> (xs = ys \<and> as < bs)"
  using assms by (induction xs ys rule: list_induct2) auto

lemma length_pad [simp]: "length (pad k n) = k"
  by (induction k n rule: pad.induct) auto

lemma digit_less: "a < 10 \<Longrightarrow> b < 10 \<Longrightarrow> digit a < digit b \<longleftrightarrow> a < b"
  by (simp add: less_char_def digit_props)

lemma div_mod_lex: "a < b \<Longrightarrow> a div k < b div k \<or> a div k = b div k \<and> a mod k < b mod (k :: nat)"
  by (metis div_le_mono le_neq_implies_less less_imp_le_nat div_mult_mod_eq nat_add_left_cancel_less)

lemma pad_strict_mono: "a < b \<Longrightarrow> b < 10 ^ k \<Longrightarrow> pad k a < pad k b"
proof (induction k arbitrary: a b)
  case (Suc k)
  then have b: "b div 10 < 10 ^ k" by (simp add: less_mult_imp_div_less mult.commute)
  from Suc.prems consider "a div 10 < b div 10" | "a div 10 = b div 10" "a mod 10 < b mod 10"
    using div_mod_lex by blast
  then show ?case
    by cases (auto simp: less_append_same_length Suc.IH b digit_less)
qed simp

lemma three_fields_strict_mono:
  assumes "a < a' \<or> a = a' \<and> (b < b' \<or> b = b' \<and> c < c')" "a' < 10 ^ w" "b' < 100" "c' < 100"
  shows "three_fields w sep a b c < three_fields w sep a' b' c'"
proof -
  have "pad 2 b < pad 2 b'" if "b < b'" using that assms(3) by (intro pad_strict_mono) auto
  moreover have "pad 2 c < pad 2 c'" if "c < c'" using that assms(4) by (intro pad_strict_mono) auto
  moreover have "pad w a < pad w a'" if "a < a'" using that assms(2) by (rule pad_strict_mono)
  ultimately show ?thesis using assms(1)
    by (auto simp: three_fields_def less_append_same_length)
qed

lemma length_three_fields: "length sep = 1 \<Longrightarrow> length (three_fields w sep a b c) = w + 6"
  by (simp add: three_fields_def)

lemma year_of_mono:
  assumes "1 \<le> n" "n \<le> n'"
  shows "year_of n \<le> year_of n'"
proof (rule ccontr)
  assume "\<not> year_of n \<le> year_of n'"
  then have "days_before_year (year_of n' + 1) \<le> days_before_year (year_of n)"
    by (intro days_before_year_mono) simp
  with year_of_bounds(1) [of n] year_of_bounds(2) [of n'] assms show False by linarith
qed

lemma month_of_mono:
  assumes "1 \<le> d" "d \<le> d'" "d' \<le> days_before_month y 13"
  shows "month_of y 12 d \<le> month_of y 12 d'"
proof (rule ccontr)
  assume "\<not> month_of y 12 d \<le> month_of y 12 d'"
  then have "days_before_month y (Suc (month_of y 12 d')) \<le> days_before_month y (month_of y 12 d)"
    by (intro days_before_month_mono) simp
  with month_of_valid(3) [of d y] month_of_valid(4) [of d' y] assms show False by linarith
qed

lemma ord2ymd_lex:
  assumes "1 \<le> n" "n < n'" "ord2ymd n = (y, m, d)" "ord2ymd n' = (y', m', d')"
  shows "y < y' \<or> y = y' \<and> (m < m' \<or> m = m' \<and> d < d')"
proof (cases "year_of n = year_of n'")
  case True
  let ?Y = "year_of n'"
  have "1 \<le> n - days_before_year ?Y" "n' - days_before_year ?Y \<le> days_before_month ?Y 13"
    using year_of_bounds [of n] year_of_bounds [of n'] assms(1,2) True
    by (auto simp: days_before_month_table days_before_year_Suc)
  then have "month_of ?Y 12 (n - days_before_year ?Y) \<le> month_of ?Y 12 (n' - days_before_year ?Y)"
    using assms(2) by (intro month_of_mono) auto
  then show ?thesis using True assms by (auto simp: ord2ymd_def Let_def)
next
  case False
  then have "year_of n < year_of n'" using year_of_mono [of n n'] assms by simp
  then show ?thesis using assms by (auto simp: ord2ymd_def Let_def)
qed

lemma year_of_range: "1 \<le> n \<Longrightarrow> n \<le> MAX_ORDINAL \<Longrightarrow> 1 \<le> year_of n \<and> year_of n \<le> 9999"
proof -
  assume n: "1 \<le> n" "n \<le> MAX_ORDINAL"
  have "year_of 1 = 1" by (rule year_of_unique) (simp_all add: days_before_year_def)
  moreover have "year_of MAX_ORDINAL = 9999"
    by (rule year_of_unique) (simp_all add: days_before_year_def MAX_ORDINAL_def)
  ultimately show ?thesis using year_of_mono [of 1 n] year_of_mono [of n MAX_ORDINAL] n by simp
qed

lemma date_text_strict_mono:
  assumes "1 \<le> n" "n < n'" "n' \<le> MAX_ORDINAL"
  shows "date_text n < date_text n'"
proof -
  obtain y m d y' m' d' where e: "ord2ymd n = (y, m, d)" "ord2ymd n' = (y', m', d')"
    by (metis prod_cases3)
  note lex = ord2ymd_lex [OF assms(1,2) e]
  have v: "valid_date (y, m, d)" "valid_date (y', m', d')"
    using ord2ymd_valid [of n] ord2ymd_valid [of n'] assms e by auto
  have "y = year_of n" "y' = year_of n'" using e by (auto simp: ord2ymd_def Let_def)
  with year_of_range assms have yy: "1 \<le> y" "1 \<le> y'" "y' \<le> 9999" by auto
  have dd: "d' \<le> 31"
    using v(2) by (auto simp: valid_date_def intro: order_trans [OF _ days_in_month_pos(3)])
  show ?thesis
    unfolding date_text_def e prod.case
    by (rule three_fields_strict_mono) (use lex v yy dd in \<open>auto simp: valid_date_def\<close>)
qed

lemma time_text_strict_mono:
  assumes "s < s'" "s' < 86400"
  shows "time_text s < time_text s'"
proof -
  have h: "x div 3600 = x div 60 div 60" "x mod 3600 div 60 = x div 60 mod 60" for x :: nat
    using div_mult2_eq [of x 60 60] mod_mult2_eq [of x 60 60] by simp_all
  have "s div 60 < s' div 60 \<or> s div 60 = s' div 60 \<and> s mod 60 < s' mod 60"
    using assms(1) by (rule div_mod_lex)
  moreover have "s div 60 < s' div 60 \<Longrightarrow>
      s div 60 div 60 < s' div 60 div 60 \<or> s div 60 div 60 = s' div 60 div 60 \<and> s div 60 mod 60 < s' div 60 mod 60"
    by (rule div_mod_lex)
  ultimately show ?thesis
    unfolding time_text_def h
    by (intro three_fields_strict_mono) (use assms in auto)
qed

lemma frac_text_strict_mono: "us < us' \<Longrightarrow> us' < 1000000 \<Longrightarrow> frac_text us < frac_text us'"
  by (auto simp: frac_text_def less_append_same_length pad_strict_mono less_char_def)

lemma length_date_text [simp]: "length (date_text n) = 10"
  by (simp add: date_text_def length_three_fields split: prod.split)

lemma length_time_text [simp]: "length (time_text s) = 8"
  by (simp add: time_text_def length_three_fields)

lemma valid_instant_ordinal: "valid_instant t \<Longrightarrow> 1 \<le> ordinal_of t \<and> ordinal_of t \<le> MAX_ORDINAL"
  using int_div_less_self [of t] zdiv_mono1 [of t "MAX_ORDINAL * DAY_US - 1" DAY_US]
  by (auto simp: valid_instant_def ordinal_of_def DAY_US_def MAX_ORDINAL_def
      pos_imp_zdiv_nonneg_iff)

lemma int_div_mod_lex:
  fixes a b k :: int
  assumes "0 < k" "a < b"
  shows "a div k < b div k \<or> a div k = b div k \<and> a mod k < b mod k"
proof (cases "a div k = b div k")
  case True
  have "a = k * (a div k) + a mod k" "b = k * (b div k) + b mod k" by simp_all
  with assms(2) True have "a mod k < b mod k" by (metis add_less_cancel_left)
  with True show ?thesis by simp
next
  case False
  with zdiv_mono1 [of a b k] assms show ?thesis by simp
qed

lemma iso_utc_strict_mono:
  assumes "valid_instant a" "valid_instant b" "a < b"
  shows "iso_utc a < iso_utc b"
proof -
  let ?sa = "a mod DAY_US div 1000000" let ?sb = "b mod DAY_US div 1000000"
  consider (day) "ordinal_of a < ordinal_of b"
    | (sec) "ordinal_of a = ordinal_of b" "?sa < ?sb"
    | (frac) "ordinal_of a = ordinal_of b" "?sa = ?sb" "a mod 1000000 < b mod 1000000"
  proof -
    have d: "(0 :: int) < DAY_US" by (simp add: DAY_US_def)
    have m: "x mod DAY_US mod 1000000 = x mod 1000000" for x :: int
      by (rule mod_mod_cancel) (simp add: DAY_US_def)
    from int_div_mod_lex [OF d assms(3)]
      int_div_mod_lex [of 1000000 "a mod DAY_US" "b mod DAY_US"]
    show ?thesis using that unfolding ordinal_of_def m by auto
  qed
  then show ?thesis
  proof cases
    case day
    then have "date_text (ordinal_of a) < date_text (ordinal_of b)"
      using valid_instant_ordinal [OF assms(1)] valid_instant_ordinal [OF assms(2)]
      by (intro date_text_strict_mono) auto
    then show ?thesis by (simp add: iso_utc_def less_append_same_length)
  next
    case sec
    moreover have "0 \<le> ?sa" "?sb < 86400" by (simp_all add: DAY_US_def pos_imp_zdiv_nonneg_iff)
    ultimately have "time_text (nat ?sa) < time_text (nat ?sb)"
      by (intro time_text_strict_mono) auto
    with sec(1) show ?thesis by (simp add: iso_utc_def less_append_same_length)
  next
    case frac
    then have "frac_text (nat (a mod 1000000)) < frac_text (nat (b mod 1000000))"
      by (intro frac_text_strict_mono) auto
    with frac show ?thesis by (simp add: iso_utc_def less_append_same_length)
  qed
qed

lemma iso_utc_order:
  assumes "valid_instant a" "valid_instant b"
  shows "iso_utc a < iso_utc b \<longleftrightarrow> a < b" "iso_utc a = iso_utc b \<longleftrightarrow> a = b"
  using iso_utc_strict_mono [OF assms] iso_utc_strict_mono [OF assms(2,1)]
  by (metis less_irrefl linorder_less_linear order_less_trans)+

end
