(* ===== verification/Cron_Expression.thy ===== *)
theory Cron_Expression
  imports Civil_Time
begin

text \<open>
  The time expressions of \<open>openkapsel/execution/scheduler_store.py\<close>: the strict six-field cron
  syntax (\<open>_expand_cron_field\<close>, \<open>CronExpression.parse\<close>), the search for the next occurrence
  (\<open>_date_matches\<close>, \<open>_valid_utc_candidates\<close>, \<open>next_after\<close>) and the validation of a whole
  schedule request (\<open>validate_timing\<close>).

  A frozen set of field values is a \<^typ>\<open>nat set\<close>.  Time-zone data is not part of the program: a
  \<open>ZoneInfo\<close> is a record of its two conversions, and the database that finds one by name and the
  parser \<open>datetime.fromisoformat\<close> are arguments of the definitions that use them.
\<close>

section \<open>Constants\<close>

definition MIN_SCHEDULE_INTERVAL_MINUTES :: int where
  "MIN_SCHEDULE_INTERVAL_MINUTES = 3"

definition MIN_SCHEDULE_INTERVAL_SECONDS :: int where
  "MIN_SCHEDULE_INTERVAL_SECONDS = MIN_SCHEDULE_INTERVAL_MINUTES * 60"

definition MAX_SCHEDULE_LOOKAHEAD_DAYS :: nat where
  "MAX_SCHEDULE_LOOKAHEAD_DAYS = 366 * 8"

section \<open>One cron field\<close>

definition basic_cron_char :: "char \<Rightarrow> bool" where
  "basic_cron_char c \<longleftrightarrow> ascii_digit c \<or> c \<in> set ''*/,-''"

definition py_range :: "nat \<Rightarrow> nat \<Rightarrow> nat \<Rightarrow> nat list" where
  \<comment> \<open>\<open>range(start, stop, step)\<close> for a positive step\<close>
  "py_range start stop step = map (\<lambda>i. start + i * step) [0..<(stop - start + step - 1) div step]"

text \<open>One item of the comma-separated list: its start, end and step.\<close>

definition cron_item :: "string \<Rightarrow> nat \<Rightarrow> nat \<Rightarrow> string \<Rightarrow> (nat \<times> nat \<times> nat) result" where
  "cron_item item minimum maximum name =
     (if item = [] then Inl (ScheduleError (''cron '' @ name @ '' contains an empty list item''))
      else case partition_on (CHR ''/'') item of (base, separator, step_text) \<Rightarrow>
        andThen
          (if separator then
             (if \<not> isdigit step_text then Inl (ScheduleError (''cron '' @ name @ '' step must be a positive integer''))
              else andThen (py_int step_text) (\<lambda>n.
                if n < 1 then Inl (ScheduleError (''cron '' @ name @ '' step must be a positive integer''))
                else Inr n))
           else Inr 1)
          (\<lambda>step. andThen
            (if base = ''*'' then Inr (minimum, maximum)
             else if CHR ''-'' \<in> set base then
               (case partition_on (CHR ''-'') base of (start_text, range_separator, end_text) \<Rightarrow>
                  if \<not> range_separator \<or> \<not> isdigit start_text \<or> \<not> isdigit end_text
                  then Inl (ScheduleError (''cron '' @ name @ '' range is invalid''))
                  else andThen (py_int start_text) (\<lambda>start. andThen (py_int end_text) (\<lambda>end. Inr (start, end))))
             else if isdigit base then
               andThen (py_int base) (\<lambda>start. Inr (start, if separator then maximum else start))
             else Inl (ScheduleError (''cron '' @ name @ '' item is invalid'')))
            (\<lambda>(start, end).
              if start < minimum \<or> maximum < end \<or> end < start
              then Inl (ScheduleError (''cron '' @ name @ '' values must be between '' @
                show_nat minimum @ '' and '' @ show_nat maximum))
              else Inr (start, end, step))))"

fun cron_items :: "string list \<Rightarrow> nat \<Rightarrow> nat \<Rightarrow> string \<Rightarrow> nat set \<Rightarrow> nat set result" where
  "cron_items [] minimum maximum name acc = Inr acc"
| "cron_items (item # items) minimum maximum name acc =
     andThen (cron_item item minimum maximum name) (\<lambda>(start, end, step).
       cron_items items minimum maximum name (acc \<union> set (py_range start (end + 1) step)))"

text \<open>Sunday may be written 0 or 7; the flag says whether the field excludes nothing.\<close>

definition close_cron_field :: "nat \<Rightarrow> nat \<Rightarrow> bool \<Rightarrow> nat set \<Rightarrow> nat set \<times> bool" where
  "close_cron_field minimum maximum normalize_sunday raw =
     (let res = (if normalize_sunday \<and> 7 \<in> raw then insert 0 (raw - {7}) else raw);
          full = (if normalize_sunday then {0..<7} else {minimum..<maximum + 1})
      in (res, res = full))"

definition expand_cron_field ::
  "string \<Rightarrow> nat \<Rightarrow> nat \<Rightarrow> string \<Rightarrow> bool \<Rightarrow> (nat set \<times> bool) result" where
  "expand_cron_field value minimum maximum name normalize_sunday =
     (if value = [] \<or> \<not> list_all basic_cron_char value
      then Inl (ScheduleError (''cron '' @ name @ '' supports only numbers, *, ranges, lists, and steps''))
      else andThen (cron_items (split_on (CHR '','') value) minimum maximum name {})
        (\<lambda>raw. Inr (close_cron_field minimum maximum normalize_sunday raw)))"

section \<open>A cron expression\<close>

record cron =
  expression :: string
  second :: nat
  minutes :: "nat set"
  hours :: "nat set"
  days :: "nat set"
  months :: "nat set"
  weekdays :: "nat set"
  days_unrestricted :: bool
  weekdays_unrestricted :: bool
  daily_seconds :: "nat list"

definition daily_seconds_of :: "nat set \<Rightarrow> nat set \<Rightarrow> nat \<Rightarrow> nat list" where
  "daily_seconds_of hs ms sec =
     concat (map (\<lambda>h. map (\<lambda>m. h * 3600 + m * 60 + sec) (sorted_list_of_set ms)) (sorted_list_of_set hs))"

definition pairwise_gaps :: "nat list \<Rightarrow> int list" where
  "pairwise_gaps xs = map (\<lambda>(left, right). int right - int left) (zip xs (tl xs))"

text \<open>The smallest distance of two neighbouring occurrences of a day, the next day's first included.\<close>

definition minimum_gap :: "nat list \<Rightarrow> int" where
  "minimum_gap ds = Min (set (pairwise_gaps (ds @ [hd ds + 24 * 60 * 60])))"

definition cron_parse :: "pyval \<Rightarrow> cron result" where
  "cron_parse v =
     (case v of
        PStr text \<Rightarrow>
          (case split_ws text of
             [second_text, minute_text, hour_text, day_text, month_text, weekday_text] \<Rightarrow>
               andThen
                 (if \<not> isdigit second_text
                  then Inl (ScheduleError ''cron second must be one explicit integer between 0 and 59'')
                  else andThen (py_int second_text) (\<lambda>s.
                    if s \<le> 59 then Inr s
                    else Inl (ScheduleError ''cron second must be one explicit integer between 0 and 59'')))
               (\<lambda>sec. andThen (expand_cron_field minute_text 0 59 ''minute'' False)
               (\<lambda>(ms, _). andThen (expand_cron_field hour_text 0 23 ''hour'' False)
               (\<lambda>(hs, _). andThen (expand_cron_field day_text 1 31 ''day'' False)
               (\<lambda>(ds, ds_all). andThen (expand_cron_field month_text 1 12 ''month'' False)
               (\<lambda>(mos, _). andThen (expand_cron_field weekday_text 0 7 ''weekday'' True)
               (\<lambda>(wds, wds_all).
                 let daily = daily_seconds_of hs ms sec
                 in if minimum_gap daily < MIN_SCHEDULE_INTERVAL_SECONDS
                    then Inl (ScheduleError ''cron occurrences must be at least 3 minutes apart'')
                    else Inr \<lparr>expression = join '' '' [second_text, minute_text, hour_text, day_text, month_text, weekday_text],
                          second = sec, minutes = ms, hours = hs, days = ds, months = mos, weekdays = wds,
                          days_unrestricted = ds_all, weekdays_unrestricted = wds_all,
                          daily_seconds = daily\<rparr>))))))
           | _ \<Rightarrow> Inl (ScheduleError
               ''cron expression must contain exactly six fields: second minute hour day month weekday''))
      | _ \<Rightarrow> Inl (ScheduleError ''cron expression must be a string''))"

definition date_matches :: "cron \<Rightarrow> int \<Rightarrow> bool" where
  "date_matches c n =
     (case ord2ymd n of (y, m, d) \<Rightarrow>
        if nat m \<notin> months c then False
        else let day_matches = (nat d \<in> days c);
                 weekday_matches = (nat ((weekday n + 1) mod 7) \<in> weekdays c)
             in if days_unrestricted c \<and> weekdays_unrestricted c then True
                else if days_unrestricted c then weekday_matches
                else if weekdays_unrestricted c then day_matches
                else day_matches \<or> weekday_matches)"

section \<open>Time zones and the next occurrence\<close>

text \<open>
  A zone converts a UTC instant to the local wall clock (again microseconds since 0001-01-01) and
  a wall-clock time, with its fold, to UTC.  \<open>utc_zone\<close> is the zone \<open>UTC\<close>.
\<close>

record zone =
  from_utc :: "instant \<Rightarrow> int"
  to_utc :: "int \<Rightarrow> bool \<Rightarrow> instant"

definition utc_zone :: zone where
  "utc_zone = \<lparr>from_utc = (\<lambda>t. t), to_utc = (\<lambda>t _. t)\<rparr>"

definition valid_utc_candidates :: "zone \<Rightarrow> int \<Rightarrow> instant list" where
  "valid_utc_candidates z local_naive =
     (let u0 = to_utc z local_naive False; u1 = to_utc z local_naive True;
          first = (if from_utc z u0 = local_naive then [u0] else [])
      in first @ (if u1 \<notin> set first \<and> from_utc z u1 = local_naive then [u1] else []))"

definition combine :: "int \<Rightarrow> nat \<Rightarrow> int" where
  \<comment> \<open>\<open>datetime.combine(date, time(hour, minute, second))\<close> for the seconds of a day\<close>
  "combine n secs = (n - 1) * DAY_US + seconds_us (int secs)"

fun best_candidate :: "instant \<Rightarrow> instant list \<Rightarrow> instant option \<Rightarrow> instant option" where
  "best_candidate after_utc [] best = best"
| "best_candidate after_utc (c # cs) best =
     best_candidate after_utc cs
       (if after_utc < c \<and> (case best of None \<Rightarrow> True | Some b \<Rightarrow> c < b) then Some c else best)"

definition day_candidates :: "cron \<Rightarrow> zone \<Rightarrow> int \<Rightarrow> instant list" where
  "day_candidates c z n = concat (map (\<lambda>secs. valid_utc_candidates z (combine n secs)) (daily_seconds c))"

fun scan_days :: "cron \<Rightarrow> zone \<Rightarrow> instant \<Rightarrow> int \<Rightarrow> nat \<Rightarrow> instant result" where
  "scan_days c z after_utc n 0 = Inl (ScheduleError ''cron expression has no occurrence within eight years'')"
| "scan_days c z after_utc n (Suc k) =
     (if n > MAX_ORDINAL then Inl OverflowError
      else if \<not> date_matches c n then scan_days c z after_utc (n + 1) k
      else case best_candidate after_utc (day_candidates c z n) None of
             Some b \<Rightarrow> Inr b
           | None \<Rightarrow> scan_days c z after_utc (n + 1) k)"

definition next_after :: "cron \<Rightarrow> instant \<Rightarrow> zone \<Rightarrow> instant result" where
  "next_after c after_utc z =
     scan_days c z after_utc (ordinal_of (from_utc z after_utc)) (MAX_SCHEDULE_LOOKAHEAD_DAYS + 1)"

section \<open>Schedule requests\<close>

datatype sched_type = Cron | Interval | Once

record timing =
  t_type :: sched_type
  t_expression :: "string option"
  t_interval_minutes :: "int option"
  t_run_at :: "instant option"
  t_timezone :: string
  t_next_run_at :: instant

datatype zone_lookup = ZoneFound zone | ZoneNotFound | ZoneKeyInvalid

text \<open>
  What the definitions take from outside the program: the time-zone database (\<open>ZoneInfo(key)\<close>) and
  \<open>datetime.fromisoformat\<close>, which gives the wall-clock time and, when the text names one, the
  offset from UTC.
\<close>

record clock_env =
  zone_info :: "string \<Rightarrow> zone_lookup"
  fromisoformat :: "string \<Rightarrow> (int \<times> int option) option"

fun replace_Z :: "string \<Rightarrow> string" where
  "replace_Z [] = []"
| "replace_Z (c # cs) = (if c = CHR ''Z'' then ''+00:00'' @ replace_Z cs else c # replace_Z cs)"

definition parse_datetime :: "clock_env \<Rightarrow> pyval \<Rightarrow> string \<Rightarrow> instant result" where
  "parse_datetime env v field =
     (case v of
        PStr text \<Rightarrow>
          if strip text = [] then Inl (ScheduleError (field @ '' must be a non-empty ISO 8601 datetime''))
          else (case fromisoformat env (replace_Z (strip text)) of
                  None \<Rightarrow> Inl (ScheduleError (field @ '' must be a valid ISO 8601 datetime''))
                | Some (naive, None) \<Rightarrow> Inl (ScheduleError (field @ '' must include a timezone''))
                | Some (naive, Some offset) \<Rightarrow> add_delta naive (- offset))
      | _ \<Rightarrow> Inl (ScheduleError (field @ '' must be a non-empty ISO 8601 datetime'')))"

definition parse_timezone :: "clock_env \<Rightarrow> pyval \<Rightarrow> zone result" where
  "parse_timezone env v =
     (case v of
        PStr text \<Rightarrow>
          if strip text = [] then Inl (ScheduleError ''timezone must be a non-empty IANA timezone name'')
          else (case zone_info env (strip text) of
                  ZoneFound z \<Rightarrow> Inr z
                | ZoneNotFound \<Rightarrow> Inl (ScheduleError ''timezone must be a valid IANA timezone name'')
                | ZoneKeyInvalid \<Rightarrow> Inl (ValueError ''invalid ZoneInfo key''))
      | _ \<Rightarrow> Inl (ScheduleError ''timezone must be a non-empty IANA timezone name''))"

text \<open>\<open>kind not in SCHEDULE_TYPES\<close> hashes \<open>kind\<close>, which a list or a dictionary does not allow.\<close>

definition sched_type_of :: "pyval \<Rightarrow> sched_type result" where
  "sched_type_of v =
     (case v of
        PList _ \<Rightarrow> Inl TypeError
      | PDict _ \<Rightarrow> Inl TypeError
      | _ \<Rightarrow> if v = PStr ''cron'' then Inr Cron else if v = PStr ''interval'' then Inr Interval
           else if v = PStr ''once'' then Inr Once
           else Inl (ScheduleError ''schedule type must be cron, interval, or once''))"

definition text_of :: "pyval \<Rightarrow> string" where
  "text_of v = (case v of PStr s \<Rightarrow> s | _ \<Rightarrow> [])"

definition validate_timing :: "clock_env \<Rightarrow> pyval \<Rightarrow> instant \<Rightarrow> timing result" where
  "validate_timing env v now =
     (case v of
        PDict d \<Rightarrow>
          andThen (sched_type_of (dict_get d ''type'')) (\<lambda>kind.
               let tz = dict_get_default d ''timezone'' (PStr ''UTC'')
               in andThen (parse_timezone env tz) (\<lambda>z.
                 let tz_name = strip (text_of tz)
                 in case kind of
                      Cron \<Rightarrow>
                        andThen (cron_parse (dict_get d ''expression'')) (\<lambda>c.
                        andThen (next_after c now z) (\<lambda>next_run.
                          Inr \<lparr>t_type = Cron, t_expression = Some (expression c), t_interval_minutes = None,
                               t_run_at = None, t_timezone = tz_name, t_next_run_at = next_run\<rparr>))
                    | Interval \<Rightarrow>
                        (case dict_get d ''minutes'' of
                           PInt k \<Rightarrow>
                             if k < MIN_SCHEDULE_INTERVAL_MINUTES
                             then Inl (ScheduleError ''interval minutes must be at least 3'')
                             else andThen (add_delta now (minutes_us k)) (\<lambda>next_run.
                               Inr \<lparr>t_type = Interval, t_expression = None, t_interval_minutes = Some k,
                                    t_run_at = None, t_timezone = tz_name, t_next_run_at = next_run\<rparr>)
                         | _ \<Rightarrow> Inl (ScheduleError ''interval minutes must be an integer''))
                    | Once \<Rightarrow>
                        andThen (parse_datetime env (dict_get d ''run_at'') ''once run_at'') (\<lambda>run.
                        andThen (add_delta now (seconds_us MIN_SCHEDULE_INTERVAL_SECONDS)) (\<lambda>earliest.
                          if run < earliest
                          then Inl (ScheduleError ''once run_at must be at least 3 minutes in the future'')
                          else Inr \<lparr>t_type = Once, t_expression = None, t_interval_minutes = None,
                                    t_run_at = Some run, t_timezone = tz_name, t_next_run_at = run\<rparr>))))
      | _ \<Rightarrow> Inl (ScheduleError ''schedule must be a JSON object''))"

section \<open>Facts on cron fields\<close>

lemma set_py_range:
  assumes "1 \<le> step" "start \<le> end"
  shows "set (py_range start (Suc end) step) = {n. start \<le> n \<and> n \<le> end \<and> (n - start) mod step = 0}"
proof -
  have "Suc end - start + step - 1 = end - start + step" using assms by simp
  moreover have "(end - start + step) div step = (end - start) div step + 1"
    using assms(1) by (intro div_add_self2) simp
  ultimately have "(Suc end - start + step - 1) div step = (end - start) div step + 1" by metis
  then have cnt: "i < (Suc end - start + step - 1) div step \<longleftrightarrow> start + i * step \<le> end" for i
    using assms less_eq_div_iff_mult_less_eq [of step i "end - start"] by auto
  show ?thesis
  proof (intro set_eqI iffI)
    fix n assume "n \<in> set (py_range start (Suc end) step)"
    then obtain i where "i < (Suc end - start + step - 1) div step" "n = start + i * step"
      by (auto simp: py_range_def)
    then show "n \<in> {n. start \<le> n \<and> n \<le> end \<and> (n - start) mod step = 0}" using cnt [of i] by simp
  next
    fix n assume n: "n \<in> {n. start \<le> n \<and> n \<le> end \<and> (n - start) mod step = 0}"
    then have e: "n = start + ((n - start) div step) * step"
      using div_mult_mod_eq [of "n - start" step] by simp
    with n have "(n - start) div step < (Suc end - start + step - 1) div step"
      unfolding cnt by simp
    then show "n \<in> set (py_range start (Suc end) step)"
      unfolding py_range_def set_map set_upt using e by (intro image_eqI) auto
  qed
qed

lemma cron_item_bounds:
  assumes "cron_item item lo hi name = Inr (start, end, step)"
  shows "lo \<le> start \<and> start \<le> end \<and> end \<le> hi \<and> 1 \<le> step"
  using assms
  by (auto simp: cron_item_def split: if_splits prod.splits)

lemma cron_items_bounds:
  assumes "cron_items items lo hi name acc = Inr res" "acc \<subseteq> {lo..hi}"
  shows "acc \<subseteq> res \<and> res \<subseteq> {lo..hi} \<and> (items \<noteq> [] \<longrightarrow> res \<noteq> {})"
  using assms
proof (induction items arbitrary: acc)
  case (Cons item items)
  then obtain start "end" step where
    item: "cron_item item lo hi name = Inr (start, end, step)" and
    rest: "cron_items items lo hi name (acc \<union> set (py_range start (Suc end) step)) = Inr res"
    by auto
  note b = cron_item_bounds [OF item]
  have r: "set (py_range start (Suc end) step) \<subseteq> {lo..hi}" "start \<in> set (py_range start (Suc end) step)"
    using b by (auto simp: set_py_range)
  with Cons.IH [OF rest] Cons.prems(2) show ?case by blast
qed simp

text \<open>What \<open>_expand_cron_field\<close> returns: a non-empty set in range, and whether it is everything.\<close>

lemma close_cron_field_range:
  assumes "close_cron_field lo hi sunday raw = (res, full)" "raw \<subseteq> {lo..hi}" "raw \<noteq> {}"
    "sunday \<Longrightarrow> lo = 0 \<and> hi = 7"
  shows "res \<noteq> {} \<and> finite res \<and> res \<subseteq> (if sunday then {0..6} else {lo..hi}) \<and>
    (full \<longleftrightarrow> res = (if sunday then {0..6} else {lo..hi}))"
proof -
  have res: "res = (if sunday \<and> 7 \<in> raw then insert 0 (raw - {7}) else raw)"
    and full: "full \<longleftrightarrow> res = (if sunday then {0..<7} else {lo..<hi + 1})"
    using assms(1) unfolding close_cron_field_def Let_def prod.inject by blast+
  have seven: "{0..7} - {7} = {0..6 :: nat}" by auto
  have sub: "res \<subseteq> (if sunday then {0..6} else {lo..hi})"
  proof (cases sunday)
    case True
    then have "raw - {7} \<subseteq> {0..6}" using assms(2,4) seven by blast
    then show ?thesis using True unfolding res by auto
  qed (use assms(2) res in simp)
  have "{0..<7} = {0..6 :: nat}" "{lo..<hi + 1} = {lo..hi}" by auto
  moreover have "finite res" using finite_subset [OF sub] by (simp split: if_splits)
  ultimately show ?thesis using sub full assms(3) res by simp
qed

lemma expand_cron_field_range:
  assumes "expand_cron_field value lo hi name sunday = Inr (res, full)"
    "sunday \<Longrightarrow> lo = 0 \<and> hi = 7"
  shows "res \<noteq> {} \<and> finite res \<and> res \<subseteq> (if sunday then {0..6} else {lo..hi}) \<and>
    (full \<longleftrightarrow> res = (if sunday then {0..6} else {lo..hi}))"
proof -
  obtain raw where raw: "cron_items (split_on (CHR '','') value) lo hi name {} = Inr raw"
    and cl: "close_cron_field lo hi sunday raw = (res, full)"
    using assms(1) by (auto simp: expand_cron_field_def split: if_splits)
  from cron_items_bounds [OF raw] have "raw \<subseteq> {lo..hi}" "raw \<noteq> {}" by simp_all
  from close_cron_field_range [OF cl this assms(2)] show ?thesis .
qed

section \<open>Facts on parsed expressions\<close>

text \<open>What every expression that \<open>parse\<close> accepts satisfies.\<close>

definition cron_wf :: "cron \<Rightarrow> bool" where
  "cron_wf c \<longleftrightarrow>
     second c \<le> 59 \<and> minutes c \<noteq> {} \<and> minutes c \<subseteq> {0..59} \<and> hours c \<noteq> {} \<and> hours c \<subseteq> {0..23} \<and>
     days c \<noteq> {} \<and> days c \<subseteq> {1..31} \<and> months c \<noteq> {} \<and> months c \<subseteq> {1..12} \<and>
     weekdays c \<noteq> {} \<and> weekdays c \<subseteq> {0..6} \<and>
     (days_unrestricted c \<longleftrightarrow> days c = {1..31}) \<and> (weekdays_unrestricted c \<longleftrightarrow> weekdays c = {0..6}) \<and>
     daily_seconds c = daily_seconds_of (hours c) (minutes c) (second c) \<and>
     MIN_SCHEDULE_INTERVAL_SECONDS \<le> minimum_gap (daily_seconds c)"

lemma cron_parse_wf:
  assumes "cron_parse v = Inr c"
  shows "cron_wf c"
proof -
  obtain str st mt ht dt mot wt where
    v: "v = PStr str" and f: "split_ws str = [st, mt, ht, dt, mot, wt]"
    using assms by (auto simp: cron_parse_def split: pyval.splits list.splits)
  obtain sec ms ma hs ha ds da mos moa wds wda where
    sec: "sec \<le> 59" and
    ms: "expand_cron_field mt 0 59 ''minute'' False = Inr (ms, ma)" and
    hs: "expand_cron_field ht 0 23 ''hour'' False = Inr (hs, ha)" and
    ds: "expand_cron_field dt 1 31 ''day'' False = Inr (ds, da)" and
    mos: "expand_cron_field mot 1 12 ''month'' False = Inr (mos, moa)" and
    wds: "expand_cron_field wt 0 7 ''weekday'' True = Inr (wds, wda)" and
    gap: "MIN_SCHEDULE_INTERVAL_SECONDS \<le> minimum_gap (daily_seconds_of hs ms sec)" and
    c: "c = \<lparr>expression = join '' '' [st, mt, ht, dt, mot, wt], second = sec, minutes = ms, hours = hs,
        days = ds, months = mos, weekdays = wds, days_unrestricted = da, weekdays_unrestricted = wda,
        daily_seconds = daily_seconds_of hs ms sec\<rparr>"
    using assms by (auto simp: cron_parse_def v f Let_def not_less split: if_splits)
  from expand_cron_field_range [OF ms] expand_cron_field_range [OF hs] expand_cron_field_range [OF ds]
    expand_cron_field_range [OF mos] expand_cron_field_range [OF wds]
  show ?thesis using sec gap unfolding cron_wf_def c by simp
qed

text \<open>The normalised text of a parsed expression parses to the same expression.\<close>

lemma cron_parse_expression:
  assumes "cron_parse v = Inr c"
  shows "cron_parse (PStr (expression c)) = Inr c"
proof -
  obtain str st mt ht dt mot wt where
    v: "v = PStr str" and f: "split_ws str = [st, mt, ht, dt, mot, wt]"
    using assms by (auto simp: cron_parse_def split: pyval.splits list.splits)
  let ?e = "join '' '' [st, mt, ht, dt, mot, wt]"
  have e: "expression c = ?e"
    using assms by (auto simp: cron_parse_def v f Let_def split: if_splits)
  have "\<forall>w \<in> set [st, mt, ht, dt, mot, wt]. w \<noteq> [] \<and> (\<forall>c \<in> set w. \<not> is_space c)"
    unfolding f [symmetric] using split_ws_words by blast
  then have "split_ws ?e = split_ws str" unfolding f by (rule split_ws_join)
  with assms v have "cron_parse (PStr ?e) = Inr c" unfolding cron_parse_def by simp
  then show ?thesis unfolding e .
qed

lemma sorted_wrt_concat_map:
  assumes "sorted_wrt (<) xs" "\<And>x. x \<in> set xs \<Longrightarrow> sorted_wrt (<) (f x)"
    "\<And>x y a b. x \<in> set xs \<Longrightarrow> y \<in> set xs \<Longrightarrow> x < y \<Longrightarrow> a \<in> set (f x) \<Longrightarrow> b \<in> set (f y) \<Longrightarrow> a < (b :: nat)"
  shows "sorted_wrt (<) (concat (map f xs))"
  using assms
proof (induction xs)
  case (Cons x xs)
  have "sorted_wrt (<) (concat (map f xs))"
  proof (rule Cons.IH)
    show "sorted_wrt (<) xs" "\<And>y. y \<in> set xs \<Longrightarrow> sorted_wrt (<) (f y)" using Cons.prems by auto
    show "a < b" if "z \<in> set xs" "y \<in> set xs" "z < y" "a \<in> set (f z)" "b \<in> set (f y)" for z y a b
      using Cons.prems(3) [of z y a b] that by simp
  qed
  moreover have "a < b" if "a \<in> set (f x)" "y \<in> set xs" "b \<in> set (f y)" for a b y
    using Cons.prems(1) Cons.prems(3) [of x y a b] that by auto
  ultimately show ?case using Cons.prems(2) by (auto simp: sorted_wrt_append)
qed simp

lemma daily_seconds_sorted:
  assumes "cron_wf c"
  shows "sorted_wrt (<) (daily_seconds c)" "daily_seconds c \<noteq> []"
    "s \<in> set (daily_seconds c) \<longleftrightarrow>
      (\<exists>h \<in> hours c. \<exists>m \<in> minutes c. s = h * 3600 + m * 60 + second c)"
    "s \<in> set (daily_seconds c) \<Longrightarrow> s < 86400"
proof -
  have fin: "finite (hours c)" "finite (minutes c)"
    and sub: "hours c \<subseteq> {0..23}" "minutes c \<subseteq> {0..59}" "second c \<le> 59"
    using assms finite_subset unfolding cron_wf_def by (metis finite_atLeastAtMost)+
  have ds: "daily_seconds c = daily_seconds_of (hours c) (minutes c) (second c)"
    using assms by (simp add: cron_wf_def)
  show mem: "s \<in> set (daily_seconds c) \<longleftrightarrow>
      (\<exists>h \<in> hours c. \<exists>m \<in> minutes c. s = h * 3600 + m * 60 + second c)" for s
    using fin by (auto simp: ds daily_seconds_of_def)
  show "daily_seconds c \<noteq> []" using assms mem by (fastforce simp: cron_wf_def)
  show "s < 86400" if "s \<in> set (daily_seconds c)"
  proof -
    from that mem obtain h m where "h \<in> hours c" "m \<in> minutes c" "s = h * 3600 + m * 60 + second c"
      by auto
    moreover from this sub have "h \<le> 23" "m \<le> 59" by auto
    ultimately show ?thesis using sub(3) by simp
  qed
  show "sorted_wrt (<) (daily_seconds c)"
    unfolding ds daily_seconds_of_def
  proof (rule sorted_wrt_concat_map)
    show "sorted_wrt (<) (sorted_list_of_set (hours c))" by simp
    show "sorted_wrt (<) (map (\<lambda>m. h * 3600 + m * 60 + second c) (sorted_list_of_set (minutes c)))" for h
      by (simp add: sorted_wrt_map)
    fix x y a b
    assume "x < y" "a \<in> set (map (\<lambda>m. x * 3600 + m * 60 + second c) (sorted_list_of_set (minutes c)))"
      "b \<in> set (map (\<lambda>m. y * 3600 + m * 60 + second c) (sorted_list_of_set (minutes c)))"
    moreover have "m \<le> 59" if "m \<in> minutes c" for m using sub that by auto
    ultimately show "a < b" using fin by fastforce
  qed
qed

section \<open>Facts on the next occurrence\<close>

lemma best_candidate_None_gen:
  "best_candidate a cs best = None \<Longrightarrow> best = None \<and> (\<forall>x \<in> set cs. x \<le> a)"
proof (induction cs arbitrary: best)
  case (Cons c cs)
  then show ?case by (cases best; cases "a < c") (auto split: if_splits)
qed simp

lemma best_candidate_mem:
  "best_candidate a cs best = Some b \<Longrightarrow> (b \<in> set cs \<and> a < b) \<or> best = Some b"
proof (induction cs arbitrary: best)
  case (Cons c cs)
  then show ?case by (cases best; cases "a < c") (auto split: if_splits)
qed simp

lemma best_candidate_lower:
  "best_candidate a cs best = Some b \<Longrightarrow> (\<forall>b'. best = Some b' \<longrightarrow> b \<le> b') \<and> (\<forall>x \<in> set cs. a < x \<longrightarrow> b \<le> x)"
proof (induction cs arbitrary: best)
  case (Cons c cs)
  let ?upd = "a < c \<and> (case best of None \<Rightarrow> True | Some b \<Rightarrow> c < b)"
  show ?case
  proof (cases ?upd)
    case True
    with Cons.prems have "best_candidate a cs (Some c) = Some b" by simp
    from Cons.IH [OF this] True show ?thesis by (cases best) auto
  next
    case False
    with Cons.prems have "best_candidate a cs best = Some b" by (simp split: if_splits)
    from Cons.IH [OF this] False show ?thesis by (cases best) auto
  qed
qed simp

lemma best_candidate_Some:
  "best_candidate a cs None = Some b \<Longrightarrow> a < b \<and> b \<in> set cs \<and> (\<forall>x \<in> set cs. a < x \<longrightarrow> b \<le> x)"
  using best_candidate_mem [of a cs None b] best_candidate_lower [of a cs None b] by simp

lemma best_candidate_None: "best_candidate a cs None = None \<Longrightarrow> x \<in> set cs \<Longrightarrow> x \<le> a"
  using best_candidate_None_gen by blast

lemma best_candidate_found: "x \<in> set cs \<Longrightarrow> a < x \<Longrightarrow> \<exists>b. best_candidate a cs None = Some b"
  using best_candidate_None [of a cs x] by (cases "best_candidate a cs None") auto

text \<open>
  What the scan returns: the earliest candidate of the first matching day that has one after the
  given instant.
\<close>

lemma scan_days_Inr:
  assumes "scan_days c z a n k = Inr b"
  shows "\<exists>d. n \<le> d \<and> d < n + int k \<and> d \<le> MAX_ORDINAL \<and> date_matches c d \<and> a < b \<and>
    b \<in> set (day_candidates c z d) \<and> (\<forall>x \<in> set (day_candidates c z d). a < x \<longrightarrow> b \<le> x) \<and>
    (\<forall>e x. n \<le> e \<longrightarrow> e < d \<longrightarrow> date_matches c e \<longrightarrow> x \<in> set (day_candidates c z e) \<longrightarrow> x \<le> a)"
  using assms
proof (induction c z a n k rule: scan_days.induct)
  case (2 c z a n k)
  show ?case
  proof (cases "date_matches c n \<and> best_candidate a (day_candidates c z n) None \<noteq> None")
    case True
    then have "n \<le> MAX_ORDINAL" "best_candidate a (day_candidates c z n) None = Some b"
      using "2.prems" by (auto split: if_splits)
    with best_candidate_Some [OF this(2)] True show ?thesis by (intro exI [of _ n]) auto
  next
    case False
    then have le: "n \<le> MAX_ORDINAL" and rec: "scan_days c z a (n + 1) k = Inr b"
      using "2.prems" by (auto split: if_splits option.splits)
    obtain d where d: "n + 1 \<le> d" "d < n + 1 + int k" "d \<le> MAX_ORDINAL" "date_matches c d" "a < b"
      "b \<in> set (day_candidates c z d)" "\<forall>x \<in> set (day_candidates c z d). a < x \<longrightarrow> b \<le> x"
      "\<forall>e x. n + 1 \<le> e \<longrightarrow> e < d \<longrightarrow> date_matches c e \<longrightarrow> x \<in> set (day_candidates c z e) \<longrightarrow> x \<le> a"
    proof (cases "date_matches c n")
      case True
      with False have none: "best_candidate a (day_candidates c z n) None = None" by simp
      from "2.IH"(2) [OF _ _ none rec] le True that show ?thesis by auto
    next
      case nm: False
      from "2.IH"(1) [OF _ nm rec] le that show ?thesis by auto
    qed
    have "x \<le> a" if "n \<le> e" "e < d" "date_matches c e" "x \<in> set (day_candidates c z e)" for e x
    proof (cases "e = n")
      case True
      with that False best_candidate_None [of a "day_candidates c z n" x] show ?thesis by auto
    next
      case False
      with that(1) have "n + 1 \<le> e" by simp
      with that(2-4) d(8) show ?thesis by blast
    qed
    with d show ?thesis by (intro exI [of _ d]) auto
  qed
qed simp

lemma scan_days_found:
  assumes "n \<le> d" "d < n + int k" "d \<le> MAX_ORDINAL" "date_matches c d"
    "x \<in> set (day_candidates c z d)" "a < x"
  shows "\<exists>b. scan_days c z a n k = Inr b"
  using assms
proof (induction c z a n k rule: scan_days.induct)
  case (2 c z a n k)
  show ?case
  proof (cases "n = d")
    case True
    with best_candidate_found [of x "day_candidates c z d" a] 2 show ?thesis by (auto simp: not_less)
  next
    case False
    with 2 have le: "n \<le> MAX_ORDINAL" "n + 1 \<le> d" "d < n + 1 + int k" by auto
    show ?thesis
    proof (cases "date_matches c n")
      case dm: True
      show ?thesis
      proof (cases "best_candidate a (day_candidates c z n) None")
        case None
        with "2.IH"(2) [OF _ _ None] le dm 2 show ?thesis by (auto simp: not_less)
      next
        case (Some b)
        with le dm show ?thesis by (auto simp: not_less)
      qed
    next
      case nm: False
      with "2.IH"(1) le 2 show ?thesis by (auto simp: not_less)
    qed
  qed
qed simp

text \<open>Every candidate is an instant whose local wall clock shows an occurrence of the expression.\<close>

lemma valid_utc_candidates_local: "u \<in> set (valid_utc_candidates z l) \<Longrightarrow> from_utc z u = l"
  by (auto simp: valid_utc_candidates_def Let_def split: if_splits)

lemma day_candidates_local:
  "u \<in> set (day_candidates c z d) \<Longrightarrow> \<exists>s \<in> set (daily_seconds c). from_utc z u = combine d s"
  by (auto simp: day_candidates_def dest: valid_utc_candidates_local)

lemma ordinal_of_combine: "s < 86400 \<Longrightarrow> ordinal_of (combine d s) = d"
proof -
  assume "s < 86400"
  then have "0 \<le> seconds_us (int s)" "seconds_us (int s) < DAY_US"
    by (simp_all add: seconds_us_def DAY_US_def)
  then have "((d - 1) * DAY_US + seconds_us (int s)) div DAY_US = d - 1"
    by (intro int_div_pos_eq [where r = "seconds_us (int s)"]) auto
  then show ?thesis by (simp add: ordinal_of_def combine_def)
qed

text \<open>The reference: the local times at which an expression asks to run.\<close>

definition cron_occurrence :: "cron \<Rightarrow> int \<Rightarrow> bool" where
  "cron_occurrence c l \<longleftrightarrow>
     date_matches c (ordinal_of l) \<and> (\<exists>s \<in> set (daily_seconds c). l = combine (ordinal_of l) s)"

lemma day_candidates_utc: "set (day_candidates c utc_zone d) = combine d ` set (daily_seconds c)"
  by (auto simp: day_candidates_def valid_utc_candidates_def utc_zone_def Let_def)

lemma combine_less: "s < 86400 \<Longrightarrow> d < d' \<Longrightarrow> combine d s < combine d' s'"
proof -
  assume s: "s < 86400" and "d < d'"
  then have "(d - 1) * DAY_US + DAY_US \<le> (d' - 1) * DAY_US"
    using mult_right_mono [of d "d' - 1" DAY_US] by (simp add: DAY_US_def algebra_simps)
  then show ?thesis using s by (simp add: combine_def seconds_us_def DAY_US_def)
qed

lemma ordinal_of_mono: "t \<le> u \<Longrightarrow> ordinal_of t \<le> ordinal_of u"
  by (simp add: ordinal_of_def zdiv_mono1 DAY_US_def)

text \<open>In UTC the result is the least occurrence after the given instant.\<close>

lemma next_after_utc_least:
  assumes wf: "cron_wf c" and res: "next_after c a utc_zone = Inr b"
  shows "a < b" "cron_occurrence c b" "a < t \<Longrightarrow> cron_occurrence c t \<Longrightarrow> b \<le> t"
proof -
  obtain d where d: "ordinal_of a \<le> d" "date_matches c d" "a < b" "b \<in> set (day_candidates c utc_zone d)"
    "\<forall>x \<in> set (day_candidates c utc_zone d). a < x \<longrightarrow> b \<le> x"
    "\<forall>e x. ordinal_of a \<le> e \<longrightarrow> e < d \<longrightarrow> date_matches c e \<longrightarrow> x \<in> set (day_candidates c utc_zone e) \<longrightarrow> x \<le> a"
    using scan_days_Inr [OF res [unfolded next_after_def]] by (auto simp: utc_zone_def)
  from d(4) obtain s where s: "s \<in> set (daily_seconds c)" "b = combine d s"
    by (auto simp: day_candidates_utc)
  have od: "ordinal_of b = d" using s ordinal_of_combine daily_seconds_sorted(4) [OF wf] by simp
  show "a < b" by fact
  show "cron_occurrence c b" using s d(2) od by (auto simp: cron_occurrence_def)
  show "b \<le> t" if t: "a < t" "cron_occurrence c t"
  proof -
    let ?e = "ordinal_of t"
    from t obtain s' where s': "date_matches c ?e" "s' \<in> set (daily_seconds c)" "t = combine ?e s'"
      by (auto simp: cron_occurrence_def)
    then have mem: "t \<in> set (day_candidates c utc_zone ?e)" by (auto simp: day_candidates_utc)
    have "ordinal_of a \<le> ?e" using t(1) by (simp add: ordinal_of_mono)
    then consider "ordinal_of a \<le> ?e" "?e < d" | "?e = d" | "d < ?e" by linarith
    then show ?thesis
    proof cases
      case 1
      with d(6) s'(1) mem t(1) show ?thesis by fastforce
    next
      case 2
      with d(5) mem t(1) show ?thesis by simp
    next
      case 3
      have "combine d s < combine ?e s'"
        using combine_less [OF daily_seconds_sorted(4) [OF wf s(1)] 3] .
      with s(2) s'(3) show ?thesis by simp
    qed
  qed
qed

section \<open>The distance of occurrences\<close>

lemma pairwise_gaps_successively:
  "(\<forall>g \<in> set (pairwise_gaps xs). G \<le> g) \<longleftrightarrow> successively (\<lambda>l r. G \<le> int r - int l) xs"
  unfolding pairwise_gaps_def by (induction xs rule: induct_list012) auto

lemma minimum_gap_sorted_wrt:
  assumes "G \<le> minimum_gap ds" "ds \<noteq> []" "0 \<le> G"
  shows "sorted_wrt (\<lambda>l r. G \<le> int r - int l) (ds @ [hd ds + 86400])"
proof -
  let ?xs = "ds @ [hd ds + 86400]"
  have ne: "pairwise_gaps ?xs \<noteq> []" using assms(2) by (cases ds; cases "tl ds") (auto simp: pairwise_gaps_def)
  have "\<forall>g \<in> set (pairwise_gaps ?xs). G \<le> g"
    using assms(1) ne by (auto simp: minimum_gap_def intro: order_trans)
  then have "successively (\<lambda>l r. G \<le> int r - int l) ?xs" by (simp add: pairwise_gaps_successively)
  moreover have "transp (\<lambda>l r. G \<le> int r - int l)" using assms(3) by (auto intro!: transpI)
  ultimately show ?thesis by (simp add: successively_conv_sorted_wrt)
qed

lemma sorted_wrt_pick:
  "sorted_wrt P xs \<Longrightarrow> x \<in> set xs \<Longrightarrow> y \<in> set xs \<Longrightarrow> x = y \<or> P x y \<or> P y x"
  by (induction xs) auto

lemma cron_occurrence_gap:
  assumes wf: "cron_wf c" and t: "cron_occurrence c t" and u: "cron_occurrence c u" and "t < u"
  shows "seconds_us MIN_SCHEDULE_INTERVAL_SECONDS \<le> u - t"
proof -
  let ?G = "MIN_SCHEDULE_INTERVAL_SECONDS"
  note ds = daily_seconds_sorted [OF wf]
  have G: "0 \<le> ?G" by (simp add: MIN_SCHEDULE_INTERVAL_SECONDS_def MIN_SCHEDULE_INTERVAL_MINUTES_def)
  have sw: "sorted_wrt (\<lambda>l r. ?G \<le> int r - int l) (daily_seconds c @ [hd (daily_seconds c) + 86400])"
    by (rule minimum_gap_sorted_wrt [OF _ ds(2) G]) (use wf [unfolded cron_wf_def] in blast)
  obtain s where s: "s \<in> set (daily_seconds c)" "t = combine (ordinal_of t) s"
    using t by (auto simp: cron_occurrence_def)
  obtain s' where s': "s' \<in> set (daily_seconds c)" "u = combine (ordinal_of u) s'"
    using u by (auto simp: cron_occurrence_def)
  have hd_le: "hd (daily_seconds c) \<le> s'"
    using ds(1) s'(1) by (cases "daily_seconds c") (auto simp: less_imp_le)
  have "int 0 \<le> int s" by simp
  show ?thesis
  proof (cases "ordinal_of t = ordinal_of u")
    case True
    with s s' \<open>t < u\<close> have "s < s'" by (simp add: combine_def seconds_us_def)
    with sorted_wrt_pick [OF sw, of s s'] s(1) s'(1) G have "?G \<le> int s' - int s" by auto
    then have "seconds_us ?G \<le> seconds_us (int s') - seconds_us (int s)" by (simp add: seconds_us_def)
    then show ?thesis
      using s(2) [unfolded True combine_def] s'(2) [unfolded combine_def] by linarith
  next
    case False
    with ordinal_of_mono [of t u] \<open>t < u\<close> have d: "ordinal_of t + 1 \<le> ordinal_of u" by simp
    from sw s(1) have "?G \<le> int (hd (daily_seconds c) + 86400) - int s" by (simp add: sorted_wrt_append)
    with hd_le have "?G \<le> int s' + 86400 - int s" by simp
    then have "seconds_us ?G \<le> seconds_us (int s') + DAY_US - seconds_us (int s)"
      by (simp add: seconds_us_def DAY_US_def)
    moreover have "(ordinal_of t - 1) * DAY_US + DAY_US \<le> (ordinal_of u - 1) * DAY_US"
      using mult_right_mono [of "ordinal_of t" "ordinal_of u - 1" DAY_US] d
      by (simp add: DAY_US_def algebra_simps)
    ultimately show ?thesis using s(2) s'(2) unfolding combine_def by linarith
  qed
qed

section \<open>Writing a field and reading it back\<close>

lemma ascii_digit_not_sep: "ascii_digit c \<Longrightarrow> c \<noteq> CHR '','' \<and> c \<noteq> CHR ''/'' \<and> c \<noteq> CHR ''-'' \<and> c \<noteq> CHR ''*''"
  by (auto simp: ascii_digit_def)

lemma cron_item_number:
  assumes "lo \<le> n" "n \<le> hi" "n < 4300"
  shows "cron_item (show_nat n) lo hi name = Inr (n, n, 1)"
proof -
  note p = show_nat_props [of n]
  have free: "CHR ''/'' \<notin> set (show_nat n)" "CHR ''-'' \<notin> set (show_nat n)" "CHR ''*'' \<notin> set (show_nat n)"
    using p ascii_digit_not_sep by (auto simp: list_all_iff)
  then have star: "show_nat n \<noteq> ''*''" by auto
  have "partition_on (CHR ''/'') (show_nat n) = (show_nat n, False, [])"
  proof -
    have all: "\<forall>x \<in> set (show_nat n). x \<noteq> CHR ''/''" using free(1) by metis
    have dw: "dropWhile (\<lambda>x. x \<noteq> CHR ''/'') (show_nat n) = []"
      unfolding dropWhile_eq_Nil_conv by (rule all)
    have tw: "takeWhile (\<lambda>x. x \<noteq> CHR ''/'') (show_nat n) = show_nat n"
      unfolding takeWhile_eq_all_conv by (rule all)
    show ?thesis unfolding partition_on_def dw tw using free(1) by simp
  qed
  moreover have "isdigit (show_nat n)" using p by (auto simp: isdigit_def digit_char_def list_all_iff)
  moreover have "py_int (show_nat n) = Inr n"
    using p length_show_nat_le [of n] assms(3) by (simp add: py_int_def)
  ultimately show ?thesis using p free star assms(1,2) by (simp add: cron_item_def)
qed

lemma cron_items_numbers:
  assumes "\<forall>n \<in> set ns. lo \<le> n \<and> n \<le> hi" "hi < 4300"
  shows "cron_items (map show_nat ns) lo hi name acc = Inr (acc \<union> set ns)"
  using assms
proof (induction ns arbitrary: acc)
  case (Cons n ns)
  have "set (py_range n (Suc n) 1) = {n}" by (auto simp: set_py_range)
  with Cons cron_item_number [of lo n hi name] show ?case by simp
qed simp

lemma set_join: "set (join sep ws) \<subseteq> set sep \<union> (\<Union>w \<in> set ws. set w)"
  by (induction ws rule: induct_list012) auto

lemma join_eq_Nil: "ws \<noteq> [] \<Longrightarrow> (\<forall>w \<in> set ws. w \<noteq> []) \<Longrightarrow> join sep ws \<noteq> []"
  by (induction ws rule: induct_list012) auto

lemma expand_cron_field_numbers:
  assumes "ns \<noteq> []" "\<forall>n \<in> set ns. lo \<le> n \<and> n \<le> hi" "hi < 4300"
  shows "expand_cron_field (join '','' (map show_nat ns)) lo hi name sunday =
    Inr (close_cron_field lo hi sunday (set ns))"
proof -
  let ?ws = "map show_nat ns"
  have w: "\<forall>w \<in> set ?ws. CHR '','' \<notin> set w \<and> w \<noteq> [] \<and> list_all basic_cron_char w"
  proof
    fix w assume "w \<in> set ?ws"
    then obtain n where n: "w = show_nat n" by auto
    have "ascii_digit x" if "x \<in> set w" for x using show_nat_props [of n] that n by (simp add: list_all_iff)
    then show "CHR '','' \<notin> set w \<and> w \<noteq> [] \<and> list_all basic_cron_char w"
      using show_nat_props [of n] ascii_digit_not_sep [of "CHR '',''"] n
      by (auto simp only: list_all_iff basic_cron_char_def)
  qed
  have "list_all basic_cron_char (join '','' ?ws)"
    using set_join [of "'',''" ?ws] w by (auto simp: list_all_iff basic_cron_char_def)
  moreover have "join '','' ?ws \<noteq> []" using join_eq_Nil [of ?ws] assms(1) w by auto
  moreover have "split_on (CHR '','') (join '','' ?ws) = ?ws" using split_on_join assms(1) w by auto
  ultimately show ?thesis
    using cron_items_numbers [OF assms(2,3), of name "{}"] by (simp add: expand_cron_field_def)
qed

end
