(* ===== verification/Schedule_Store.thy ===== *)
theory Schedule_Store
  imports Cron_Expression
begin

text \<open>
  The persistent schedules of one workspace: \<open>ScheduleStore\<close> of
  \<open>openkapsel/execution/scheduler_store.py\<close>.  The two tables are lists of rows in insertion order;
  a text column holding a time is the \<open>instant\<close> whose \<open>iso_utc\<close> it stores (the order and the
  identity of the text are those of the instant, see \<open>Civil_Time\<close>).  The clock and the random
  identifiers are arguments: \<open>now\<close> is what \<open>utc_now()\<close> returns, one argument per call.  Every
  operation returns its outcome and the tables it leaves; where the code rolls back (or closes the
  connection with an open transaction) these are the tables it started from.
\<close>

section \<open>Rows\<close>

datatype sched_status = Active | Paused | Stopped | Completed

datatype run_status =
    Claimed | Running | Succeeded | Failed | SkippedOverlap | SkippedCapacity
  | SkippedPermission | Missed | Abandoned

record schedule =
  s_id :: string
  s_app :: string
  s_name :: string
  s_type :: sched_type
  s_expression :: "string option"
  s_interval_minutes :: "int option"
  s_run_at :: "instant option"
  s_timezone :: string
  s_command :: string
  s_cwd :: string
  s_timeout :: "pyfloat option"
  s_overlap :: string
  s_misfire :: string
  s_plan :: int
  s_taskname :: string
  s_message :: string
  s_status :: sched_status
  s_next_run_at :: "instant option"
  s_running :: "string option"
  s_created :: instant
  s_updated :: instant
  s_revision :: int

record run =
  r_id :: string
  r_schedule :: string
  r_app :: string
  r_scheduled_at :: instant
  r_started_at :: "instant option"
  r_finished_at :: "instant option"
  r_status :: run_status
  r_task :: "string option"
  r_exit :: "int option"
  r_error :: "string option"

record sched_store =
  schedules :: "schedule list"
  runs :: "run list"

definition empty_store :: sched_store where
  "empty_store = \<lparr>schedules = [], runs = []\<rparr>"

definition MAX_ACTIVE_SCHEDULES_PER_APP :: nat where
  "MAX_ACTIVE_SCHEDULES_PER_APP = 32"

definition MAX_SCHEDULE_RUNS_PER_SCHEDULE :: nat where
  "MAX_SCHEDULE_RUNS_PER_SCHEDULE = 50"

definition SCHEDULE_RUN_RETENTION_DAYS :: int where
  "SCHEDULE_RUN_RETENTION_DAYS = 30"

section \<open>Validation\<close>

definition validate_text :: "pyval \<Rightarrow> string \<Rightarrow> nat \<Rightarrow> string result" where
  "validate_text v field maximum =
     (case v of
        PStr str \<Rightarrow>
          let normalized = strip str
          in if normalized = [] \<or> length normalized > maximum
             then Inl (ScheduleError (field @ '' must contain 1 to '' @ show_nat maximum @ '' characters''))
             else Inr normalized
      | _ \<Rightarrow> Inl (ScheduleError (field @ '' must be a string'')))"

definition validate_cwd :: "pyval \<Rightarrow> string result" where
  "validate_cwd v =
     (case v of
        PStr str \<Rightarrow> if length str > 4096 then Inl (ScheduleError ''cwd cannot exceed 4096 characters'') else Inr str
      | _ \<Rightarrow> Inl (ScheduleError ''cwd cannot exceed 4096 characters''))"

text \<open>The literal \<open>0.1\<close> is the nearest binary fraction, a little more than a tenth.\<close>

definition TENTH :: rat where
  "TENTH = 3602879701896397 / 36028797018963968"

definition timeout_in_range :: "pyfloat \<Rightarrow> bool" where
  "timeout_in_range t = (case t of Fin r \<Rightarrow> TENTH \<le> r \<and> r \<le> 86400 | _ \<Rightarrow> False)"

definition TIMEOUT_ERROR :: pyerr where
  "TIMEOUT_ERROR = ScheduleError ''timeout_seconds must be null or between 0.1 and 86400''"

text \<open>\<open>float(i)\<close> raises \<open>OverflowError\<close> from the first integer that rounds beyond the largest double.\<close>

definition FLOAT_LIMIT :: int where
  "FLOAT_LIMIT = 2 ^ 1024 - 2 ^ 970"

definition validate_timeout :: "pyval \<Rightarrow> pyfloat option result" where
  \<comment> \<open>the check of \<open>update\<close>\<close>
  "validate_timeout v =
     (case v of
        PNone \<Rightarrow> Inr None
      | PInt i \<Rightarrow>
          if FLOAT_LIMIT \<le> \<bar>i\<bar> then Inl OverflowError
          else if timeout_in_range (Fin (of_int i)) then Inr (Some (Fin (of_int i))) else Inl TIMEOUT_ERROR
      | PFloat f \<Rightarrow> if timeout_in_range f then Inr (Some f) else Inl TIMEOUT_ERROR
      | _ \<Rightarrow> Inl TIMEOUT_ERROR)"

text \<open>Membership of a value in a set of strings; a list or a dictionary cannot be hashed.\<close>

definition validate_policy :: "pyval \<Rightarrow> string list \<Rightarrow> string \<Rightarrow> string result" where
  "validate_policy v allowed message =
     (case v of
        PStr str \<Rightarrow> if str \<in> set allowed then Inr str else Inl (ScheduleError message)
      | PList _ \<Rightarrow> Inl TypeError
      | PDict _ \<Rightarrow> Inl TypeError
      | _ \<Rightarrow> Inl (ScheduleError message))"

definition validate_overlap :: "pyval \<Rightarrow> string result" where
  "validate_overlap v = validate_policy v [''skip''] ''overlap_policy must be skip''"

definition validate_misfire :: "pyval \<Rightarrow> string result" where
  "validate_misfire v = validate_policy v [''skip'', ''coalesce''] ''misfire_policy must be skip or coalesce''"

definition validate_plan :: "pyval \<Rightarrow> int result" where
  "validate_plan v =
     (case v of
        PInt i \<Rightarrow> if i < 1 then Inl (ScheduleError ''plan_id must be a positive integer'') else Inr i
      | _ \<Rightarrow> Inl (ScheduleError ''plan_id must be a positive integer''))"

section \<open>Queries\<close>

definition find_schedule :: "string \<Rightarrow> string \<Rightarrow> sched_store \<Rightarrow> schedule option" where
  "find_schedule app sid st = find (\<lambda>s. s_app s = app \<and> s_id s = sid) (schedules st)"

definition counts_as_active :: "string \<Rightarrow> schedule \<Rightarrow> bool" where
  "counts_as_active app s \<longleftrightarrow> s_app s = app \<and> (s_status s = Active \<or> s_status s = Paused)"

definition active_count :: "string \<Rightarrow> sched_store \<Rightarrow> nat" where
  "active_count app st = length (filter (counts_as_active app) (schedules st))"

definition QUOTA_ERROR :: pyerr where
  "QUOTA_ERROR = ScheduleError ''an app identity cannot have more than 32 active or paused schedules''"

definition NO_SCHEDULE :: pyerr where
  "NO_SCHEDULE = KeyError ''schedule does not exist''"

definition store_get :: "string \<Rightarrow> string \<Rightarrow> (sched_store, schedule) op" where
  "store_get app sid st =
     (case find_schedule app sid st of None \<Rightarrow> (Inl NO_SCHEDULE, st) | Some s \<Rightarrow> (Inr s, st))"

definition store_list :: "string \<Rightarrow> (sched_store, schedule list) op" where
  "store_list app st =
     (Inr (sort_key (\<lambda>s. - s_created s) (filter (\<lambda>s. s_app s = app) (schedules st))), st)"

section \<open>Creating and updating\<close>

record new_schedule =
  n_name :: pyval
  n_timing :: timing
  n_command :: pyval
  n_cwd :: pyval
  n_timeout :: "pyfloat option"
  n_overlap :: pyval
  n_misfire :: pyval
  n_plan :: pyval
  n_taskname :: pyval
  n_message :: pyval

definition new_row :: "string \<Rightarrow> new_schedule \<Rightarrow> instant \<Rightarrow> string \<Rightarrow> schedule result" where
  "new_row app n now sid =
     andThen (validate_text (n_name n) ''name'' 128) (\<lambda>name.
     andThen (validate_text (n_command n) ''command'' 100000) (\<lambda>command.
     andThen (validate_cwd (n_cwd n)) (\<lambda>cwd.
     andThen (case n_timeout n of None \<Rightarrow> Inr None
              | Some t \<Rightarrow> if timeout_in_range t then Inr (Some t) else Inl TIMEOUT_ERROR) (\<lambda>timeout.
     andThen (validate_overlap (n_overlap n)) (\<lambda>overlap.
     andThen (validate_misfire (n_misfire n)) (\<lambda>misfire.
     andThen (validate_plan (n_plan n)) (\<lambda>plan.
     andThen (validate_text (n_taskname n) ''taskname'' 32) (\<lambda>taskname.
     andThen (validate_text (n_message n) ''message'' 200) (\<lambda>message.
       Inr \<lparr>s_id = sid, s_app = app, s_name = name, s_type = t_type (n_timing n),
            s_expression = t_expression (n_timing n), s_interval_minutes = t_interval_minutes (n_timing n),
            s_run_at = t_run_at (n_timing n), s_timezone = t_timezone (n_timing n), s_command = command,
            s_cwd = cwd, s_timeout = timeout, s_overlap = overlap, s_misfire = misfire, s_plan = plan,
            s_taskname = taskname, s_message = message, s_status = Active,
            s_next_run_at = Some (t_next_run_at (n_timing n)), s_running = None, s_created = now,
            s_updated = now, s_revision = 1\<rparr>)))))))))"

definition store_create ::
  "string \<Rightarrow> new_schedule \<Rightarrow> instant \<Rightarrow> string \<Rightarrow> (sched_store, schedule) op" where
  "store_create app n now sid =
     attempt (new_row app n now sid) (\<lambda>row st.
       if active_count app st \<ge> MAX_ACTIVE_SCHEDULES_PER_APP then (Inl QUOTA_ERROR, st)
       else if sid \<in> s_id ` set (schedules st) then (Inl IntegrityError, st)
       else (Inr row, st\<lparr>schedules := schedules st @ [row]\<rparr>))"

text \<open>The keyword arguments of \<open>update\<close>: \<open>None\<close> where the caller leaves one out.\<close>

record changes =
  c_name :: "pyval option"
  c_timing :: "timing option"
  c_command :: "pyval option"
  c_cwd :: "pyval option"
  c_timeout :: "pyval option"
  c_overlap :: "pyval option"
  c_misfire :: "pyval option"
  c_plan :: "pyval option"
  c_taskname :: "pyval option"
  c_message :: "pyval option"

definition set_opt :: "'v option \<Rightarrow> ('v \<Rightarrow> 'a result) \<Rightarrow> ('a \<Rightarrow> 'r \<Rightarrow> 'r) \<Rightarrow> 'r \<Rightarrow> 'r result" where
  "set_opt v check upd row =
     (case v of None \<Rightarrow> Inr row | Some x \<Rightarrow> andThen (check x) (\<lambda>y. Inr (upd y row)))"

definition set_timing :: "timing \<Rightarrow> schedule \<Rightarrow> schedule" where
  "set_timing t s = s\<lparr>s_type := t_type t, s_expression := t_expression t,
     s_interval_minutes := t_interval_minutes t, s_run_at := t_run_at t, s_timezone := t_timezone t,
     s_next_run_at := (if s_status s = Active then Some (t_next_run_at t) else None)\<rparr>"

definition apply_changes :: "changes \<Rightarrow> schedule \<Rightarrow> schedule result" where
  "apply_changes ch cur =
     andThen (set_opt (c_name ch) (\<lambda>v. validate_text v ''name'' 128) (\<lambda>x s. s\<lparr>s_name := x\<rparr>) cur) (\<lambda>s.
     andThen (set_opt (c_command ch) (\<lambda>v. validate_text v ''command'' 100000) (\<lambda>x s. s\<lparr>s_command := x\<rparr>) s) (\<lambda>s.
     andThen (set_opt (c_cwd ch) validate_cwd (\<lambda>x s. s\<lparr>s_cwd := x\<rparr>) s) (\<lambda>s.
     andThen (set_opt (c_timeout ch) validate_timeout (\<lambda>x s. s\<lparr>s_timeout := x\<rparr>) s) (\<lambda>s.
     andThen (set_opt (c_overlap ch) validate_overlap (\<lambda>x s. s\<lparr>s_overlap := x\<rparr>) s) (\<lambda>s.
     andThen (set_opt (c_misfire ch) validate_misfire (\<lambda>x s. s\<lparr>s_misfire := x\<rparr>) s) (\<lambda>s.
     andThen (set_opt (c_plan ch) validate_plan (\<lambda>x s. s\<lparr>s_plan := x\<rparr>) s) (\<lambda>s.
     andThen (set_opt (c_taskname ch) (\<lambda>v. validate_text v ''taskname'' 32) (\<lambda>x s. s\<lparr>s_taskname := x\<rparr>) s) (\<lambda>s.
     andThen (set_opt (c_message ch) (\<lambda>v. validate_text v ''message'' 200) (\<lambda>x s. s\<lparr>s_message := x\<rparr>) s) (\<lambda>s.
     set_opt (c_timing ch) Inr set_timing s)))))))))"

definition write_schedule :: "schedule \<Rightarrow> sched_store \<Rightarrow> sched_store" where
  \<comment> \<open>the UPDATE of the row with the primary key of the given one\<close>
  "write_schedule row st = st\<lparr>schedules := update_where (\<lambda>s. s_id s = s_id row) (\<lambda>_. row) (schedules st)\<rparr>"

definition store_update ::
  "string \<Rightarrow> string \<Rightarrow> int \<Rightarrow> changes \<Rightarrow> instant \<Rightarrow> (sched_store, schedule) op" where
  "store_update app sid expected_revision ch now st =
     (if expected_revision < 1 then (Inl (ScheduleError ''expected_revision must be a positive integer''), st)
      else case find_schedule app sid st of
        None \<Rightarrow> (Inl NO_SCHEDULE, st)
      | Some cur \<Rightarrow>
          if s_status cur = Completed
          then (Inl (ScheduleError ''a completed schedule cannot be updated; create a new schedule''), st)
          else if s_revision cur \<noteq> expected_revision
          then (Inl (ScheduleError ''schedule revision does not match expected_revision''), st)
          else if s_running cur \<noteq> None
          then (Inl (ScheduleError ''a running schedule cannot be updated''), st)
          else attempt (apply_changes ch cur) (\<lambda>values st.
            let row = values\<lparr>s_updated := now, s_revision := s_revision cur + 1\<rparr>
            in (Inr row, write_schedule row st)) st)"

section \<open>Pausing, resuming and ending\<close>

definition set_status :: "string \<Rightarrow> string \<Rightarrow> sched_status \<Rightarrow> instant \<Rightarrow> (sched_store, schedule) op" where
  "set_status app sid status now st =
     (case find_schedule app sid st of
        None \<Rightarrow> (Inl NO_SCHEDULE, st)
      | Some cur \<Rightarrow>
          if status = Paused \<and> s_status cur \<noteq> Active
          then (Inl (ScheduleError ''only an active schedule can be paused''), st)
          else let row = cur\<lparr>s_status := status, s_next_run_at := None, s_updated := now,
                             s_revision := s_revision cur + 1\<rparr>
               in (Inr row, write_schedule row st))"

definition store_pause :: "string \<Rightarrow> string \<Rightarrow> instant \<Rightarrow> (sched_store, schedule) op" where
  "store_pause app sid now = set_status app sid Paused now"

definition opt_val :: "('a \<Rightarrow> pyval) \<Rightarrow> 'a option \<Rightarrow> pyval" where
  "opt_val f v = (case v of None \<Rightarrow> PNone | Some x \<Rightarrow> f x)"

definition timing_payload :: "schedule \<Rightarrow> pyval" where
  "timing_payload s =
     PDict ([(''type'', PStr (case s_type s of Cron \<Rightarrow> ''cron'' | Interval \<Rightarrow> ''interval'' | Once \<Rightarrow> ''once'')),
             (''timezone'', PStr (s_timezone s))] @
            [case s_type s of
               Cron \<Rightarrow> (''expression'', opt_val PStr (s_expression s))
             | Interval \<Rightarrow> (''minutes'', opt_val PInt (s_interval_minutes s))
             | Once \<Rightarrow> (''run_at'', opt_val (\<lambda>t. PStr (iso_utc t)) (s_run_at s))])"

definition timing_for :: "clock_env \<Rightarrow> schedule \<Rightarrow> instant \<Rightarrow> timing result" where
  "timing_for env s now = validate_timing env (timing_payload s) now"

definition store_resume ::
  "clock_env \<Rightarrow> string \<Rightarrow> string \<Rightarrow> instant \<Rightarrow> instant \<Rightarrow> (sched_store, schedule) op" where
  "store_resume env app sid now now' st =
     (case find_schedule app sid st of
        None \<Rightarrow> (Inl NO_SCHEDULE, st)
      | Some cur \<Rightarrow>
          if s_status cur \<noteq> Paused \<and> s_status cur \<noteq> Stopped
          then (Inl (ScheduleError ''only a paused or stopped schedule can be resumed''), st)
          else if s_status cur = Stopped \<and> s_type cur = Once
          then (Inl (ScheduleError ''a once schedule cannot be resumed after it is stopped''), st)
          else if s_status cur = Stopped \<and> active_count app st \<ge> MAX_ACTIVE_SCHEDULES_PER_APP
          then (Inl QUOTA_ERROR, st)
          else attempt (timing_for env cur now) (\<lambda>t st.
            let row = cur\<lparr>s_status := Active, s_next_run_at := Some (t_next_run_at t), s_updated := now',
                          s_revision := s_revision cur + 1\<rparr>
            in (Inr row, write_schedule row st)) st)"

definition store_end ::
  "string \<Rightarrow> string \<Rightarrow> sched_status \<Rightarrow> instant \<Rightarrow> (sched_store, schedule) op" where
  "store_end app sid status now st =
     (if status \<noteq> Stopped \<and> status \<noteq> Completed
      then (Inl (ScheduleError ''end status must be stopped or completed''), st)
      else case find_schedule app sid st of
        None \<Rightarrow> (Inl NO_SCHEDULE, st)
      | Some cur \<Rightarrow>
          if s_type cur = Once
          then (Inl (ScheduleError ''schedule end is only valid for cron or interval schedules''), st)
          else if s_status cur = Completed \<and> status \<noteq> Completed
          then (Inl (ScheduleError ''a completed schedule cannot be restarted or stopped''), st)
          else if s_status cur = status then (Inr cur, st)
          else let row = cur\<lparr>s_status := status, s_next_run_at := None, s_updated := now,
                             s_revision := s_revision cur + 1\<rparr>
               in (Inr row, write_schedule row st))"

definition pause_app :: "string \<Rightarrow> instant \<Rightarrow> (sched_store, nat) op" where
  "pause_app app now st =
     (Inr (length (filter (\<lambda>s. s_app s = app \<and> s_status s = Active) (schedules st))),
      st\<lparr>schedules := update_where (\<lambda>s. s_app s = app \<and> s_status s = Active)
           (\<lambda>s. s\<lparr>s_status := Paused, s_next_run_at := None, s_updated := now,
                  s_revision := s_revision s + 1\<rparr>) (schedules st)\<rparr>)"

section \<open>Claiming an occurrence\<close>

definition next_due :: "(sched_store, (instant \<times> string) option) op" where
  "next_due st =
     (Inr (case sort_key (\<lambda>s. the (s_next_run_at s))
                  (filter (\<lambda>s. s_status s = Active \<and> s_next_run_at s \<noteq> None) (schedules st)) of
             [] \<Rightarrow> None
           | s # _ \<Rightarrow> Some (the (s_next_run_at s), s_id s)), st)"

definition in_flight :: "run \<Rightarrow> bool" where
  "in_flight r \<longleftrightarrow> r_status r = Claimed \<or> r_status r = Running"

definition prunable :: "string \<Rightarrow> string option \<Rightarrow> run \<Rightarrow> bool" where
  "prunable sid keep r \<longleftrightarrow> r_schedule r = sid \<and> \<not> in_flight r \<and> (case keep of None \<Rightarrow> True | Some k \<Rightarrow> r_id r \<noteq> k)"

definition prune_runs :: "string \<Rightarrow> instant \<Rightarrow> string option \<Rightarrow> sched_store \<Rightarrow> sched_store" where
  "prune_runs sid now keep st =
     (let cutoff = now - days_us SCHEDULE_RUN_RETENTION_DAYS;
          kept = delete_where (\<lambda>r. prunable sid keep r \<and> r_scheduled_at r < cutoff) (runs st);
          limit = MAX_SCHEDULE_RUNS_PER_SCHEDULE - (if keep = None then 0 else 1);
          excess = drop limit (sort_key (\<lambda>r. - r_scheduled_at r) (filter (prunable sid keep) kept))
      in st\<lparr>runs := delete_where (\<lambda>r. r_id r \<in> r_id ` set excess) kept\<rparr>)"

definition next_after_claim :: "clock_env \<Rightarrow> schedule \<Rightarrow> instant \<Rightarrow> instant option result" where
  "next_after_claim env s now =
     (case s_type s of
        Once \<Rightarrow> Inr None
      | Interval \<Rightarrow>
          (case s_interval_minutes s of
             None \<Rightarrow> Inl AssertionError
           | Some k \<Rightarrow> andThen (add_delta now (minutes_us k)) (\<lambda>t. Inr (Some t)))
      | Cron \<Rightarrow>
          (case s_expression s of
             None \<Rightarrow> Inl AssertionError
           | Some e \<Rightarrow>
               andThen (cron_parse (PStr e)) (\<lambda>c.
               andThen (parse_timezone env (PStr (s_timezone s))) (\<lambda>z.
               andThen (next_after c now z) (\<lambda>t. Inr (Some t))))))"

definition claim_marker :: "string \<Rightarrow> string" where
  "claim_marker rid = ''claim:'' @ rid"

text \<open>
  The new run of a claim and whether it is to be executed: an overlap and, for an occurrence that
  is due, a misfire beyond the grace period are recorded but not executed.
\<close>

definition claim_run ::
  "schedule \<Rightarrow> instant \<Rightarrow> instant \<Rightarrow> int \<Rightarrow> bool \<Rightarrow> string \<Rightarrow> run \<times> bool" where
  "claim_run s scheduled_at now grace force rid =
     (let overlap = (s_running s \<noteq> None);
          misfire = (\<not> overlap \<and> \<not> force \<and> s_misfire s = ''skip'' \<and> now - scheduled_at > seconds_us grace);
          execute = (\<not> overlap \<and> \<not> misfire)
      in (\<lparr>r_id = rid, r_schedule = s_id s, r_app = s_app s, r_scheduled_at = scheduled_at,
           r_started_at = None, r_finished_at = (if execute then None else Some now),
           r_status = (if overlap then SkippedOverlap else if misfire then Missed else Claimed),
           r_task = None, r_exit = None,
           r_error = (if overlap then Some ''the previous scheduled task is still running''
                      else if misfire then Some ''the scheduled occurrence exceeded the misfire grace period''
                      else None)\<rparr>, execute))"

text \<open>The schedule row after the claim, and the tables once the run is added and old runs are pruned.\<close>

definition claim_row :: "schedule \<Rightarrow> instant option \<Rightarrow> instant \<Rightarrow> bool \<Rightarrow> string \<Rightarrow> bool \<Rightarrow> schedule" where
  "claim_row s next_run now force rid execute =
     s\<lparr>s_status := (if \<not> force \<and> s_type s = Once then Completed else s_status s),
       s_next_run_at := next_run,
       s_running := (if execute then Some (claim_marker rid) else s_running s),
       s_updated := now, s_revision := s_revision s + 1\<rparr>"

definition claim_tables :: "schedule \<Rightarrow> schedule \<Rightarrow> run \<Rightarrow> instant \<Rightarrow> sched_store \<Rightarrow> sched_store" where
  "claim_tables s row r now st =
     write_schedule row (prune_runs (s_id s) now None (st\<lparr>runs := runs st @ [r]\<rparr>))"

definition commit_claim ::
  "schedule \<Rightarrow> instant option \<Rightarrow> instant \<Rightarrow> instant \<Rightarrow> int \<Rightarrow> bool \<Rightarrow> string \<Rightarrow>
   (sched_store, (schedule \<times> run \<times> bool) option) op" where
  "commit_claim s next_run scheduled_at now grace force rid st =
     (if rid \<in> r_id ` set (runs st) then (Inl IntegrityError, st)
      else case claim_run s scheduled_at now grace force rid of (r, execute) \<Rightarrow>
        let row = claim_row s next_run now force rid execute; st' = claim_tables s row r now st
        in case select r_id rid (runs st') of
             None \<Rightarrow> (Inl AssertionError, st')
           | Some r' \<Rightarrow> (Inr (Some (row, r', execute)), st'))"

definition claim_due ::
  "clock_env \<Rightarrow> string \<Rightarrow> instant \<Rightarrow> int \<Rightarrow> bool \<Rightarrow> string option \<Rightarrow> string \<Rightarrow>
   (sched_store, (schedule \<times> run \<times> bool) option) op" where
  "claim_due env sid now grace force app rid st =
     (case (case app of None \<Rightarrow> select s_id sid (schedules st) | Some a \<Rightarrow> find_schedule a sid st) of
        None \<Rightarrow> (if app \<noteq> None then (Inl NO_SCHEDULE, st) else (Inr None, st))
      | Some s \<Rightarrow>
          if force then
            if s_status s = Stopped
            then (Inl (ScheduleError ''a stopped schedule cannot run; resume it first''), st)
            else if s_status s = Completed
            then (Inl (ScheduleError ''a completed schedule cannot run; create a new schedule''), st)
            else if s_running s \<noteq> None
            then (Inl (ScheduleError ''the schedule already has a running task''), st)
            else commit_claim s (s_next_run_at s) now now grace True rid st
          else
            if s_status s \<noteq> Active then (Inr None, st)
            else case s_next_run_at s of
              None \<Rightarrow> (Inr None, st)
            | Some due \<Rightarrow>
                if due > now then (Inr None, st)
                else attempt (next_after_claim env s now) (\<lambda>next_run.
                  commit_claim s next_run due now grace False rid) st)"

section \<open>The life of a run\<close>

definition bind_task :: "string \<Rightarrow> string \<Rightarrow> instant \<Rightarrow> (sched_store, run) op" where
  "bind_task rid task now st =
     (case select r_id rid (runs st) of
        None \<Rightarrow> (Inl (ScheduleError ''schedule run is not awaiting a task''), st)
      | Some r \<Rightarrow>
          if r_status r \<noteq> Claimed then (Inl (ScheduleError ''schedule run is not awaiting a task''), st)
          else let r' = r\<lparr>r_status := Running, r_task := Some task, r_started_at := Some now\<rparr>
               in (Inr r',
                   st\<lparr>runs := update_where (\<lambda>x. r_id x = rid) (\<lambda>_. r') (runs st),
                      schedules := update_where (\<lambda>s. s_id s = r_schedule r \<and> s_running s = Some (claim_marker rid))
                        (\<lambda>s. s\<lparr>s_running := Some task\<rparr>) (schedules st)\<rparr>))"

definition marker :: "run \<Rightarrow> string" where
  \<comment> \<open>\<open>row["task_id"] or f"claim:{run_id}"\<close>\<close>
  "marker r = (case r_task r of Some t \<Rightarrow> if t = [] then claim_marker (r_id r) else t
                              | None \<Rightarrow> claim_marker (r_id r))"

definition finish_run ::
  "string \<Rightarrow> run_status \<Rightarrow> int option \<Rightarrow> string option \<Rightarrow> instant \<Rightarrow> instant \<Rightarrow> (sched_store, run) op" where
  "finish_run rid status exit_code error now now' st =
     (if status = Claimed \<or> status = Running
      then (Inl (ScheduleError ''invalid terminal schedule run status''), st)
      else case select r_id rid (runs st) of
        None \<Rightarrow> (Inl (KeyError ''schedule run does not exist''), st)
      | Some r \<Rightarrow>
          let r' = r\<lparr>r_status := status, r_finished_at := Some now, r_exit := exit_code, r_error := error\<rparr>;
              st' = prune_runs (r_schedule r) now' (Some rid)
                (st\<lparr>runs := update_where (\<lambda>x. r_id x = rid) (\<lambda>_. r') (runs st),
                    schedules := update_where (\<lambda>s. s_id s = r_schedule r \<and> s_running s = Some (marker r))
                      (\<lambda>s. s\<lparr>s_running := None, s_updated := now\<rparr>) (schedules st)\<rparr>)
          in case select r_id rid (runs st') of
               None \<Rightarrow> (Inl AssertionError, st')
             | Some x \<Rightarrow> (Inr x, st'))"

definition list_runs :: "string \<Rightarrow> string \<Rightarrow> int \<Rightarrow> (sched_store, run list) op" where
  "list_runs app sid limit st =
     (if limit < 1 \<or> limit > 200 then (Inl (ScheduleError ''run history limit must be between 1 and 200''), st)
      else case find_schedule app sid st of
        None \<Rightarrow> (Inl NO_SCHEDULE, st)
      | Some s \<Rightarrow>
          (Inr (take (nat limit) (sort_key (\<lambda>r. - r_scheduled_at r)
             (filter (\<lambda>r. r_app r = app \<and> r_schedule r = sid) (runs st)))), st))"

definition get_run :: "string \<Rightarrow> string \<Rightarrow> (sched_store, run) op" where
  "get_run app rid st =
     (case find (\<lambda>r. r_app r = app \<and> r_id r = rid) (runs st) of
        None \<Rightarrow> (Inl (KeyError ''schedule run does not exist''), st)
      | Some r \<Rightarrow> (Inr r, st))"

definition abandon_running :: "instant \<Rightarrow> (sched_store, nat) op" where
  "abandon_running now st =
     (Inr (length (filter in_flight (runs st))),
      st\<lparr>runs := update_where in_flight
           (\<lambda>r. r\<lparr>r_status := Abandoned, r_finished_at := Some now,
                  r_error := Some ''server restarted before the task completed''\<rparr>) (runs st),
         schedules := update_where (\<lambda>s. s_running s \<noteq> None) (\<lambda>s. s\<lparr>s_running := None\<rparr>) (schedules st)\<rparr>)"

text \<open>Deleting a schedule deletes its runs (\<open>ON DELETE CASCADE\<close>).\<close>

definition delete_app :: "string \<Rightarrow> (sched_store, nat) op" where
  "delete_app app st =
     (Inr (length (filter (\<lambda>s. s_app s = app) (schedules st))),
      st\<lparr>schedules := delete_where (\<lambda>s. s_app s = app) (schedules st),
         runs := delete_where (\<lambda>r. r_schedule r \<in> s_id ` {s \<in> set (schedules st). s_app s = app}) (runs st)\<rparr>)"

section \<open>The invariant\<close>

text \<open>
  What holds of the tables between operations: primary and foreign keys; at most 32 active or
  paused schedules per identity; a schedule has a next occurrence exactly while it is active; a
  task identifier belongs to one run and is never mistaken for a claim marker; and the running
  marker of a schedule is set exactly while one of its runs is in flight, to that run's marker.
\<close>

definition keys_ok :: "sched_store \<Rightarrow> bool" where
  "keys_ok st \<longleftrightarrow> distinct (map s_id (schedules st)) \<and> distinct (map r_id (runs st))"

definition links_ok :: "sched_store \<Rightarrow> bool" where
  "links_ok st \<longleftrightarrow>
     (\<forall>r \<in> set (runs st). \<exists>s \<in> set (schedules st). s_id s = r_schedule r \<and> s_app s = r_app r)"

definition quota_ok :: "sched_store \<Rightarrow> bool" where
  "quota_ok st \<longleftrightarrow> (\<forall>app. active_count app st \<le> MAX_ACTIVE_SCHEDULES_PER_APP)"

definition next_ok :: "schedule \<Rightarrow> bool" where
  "next_ok s \<longleftrightarrow> (s_status s = Active \<longleftrightarrow> s_next_run_at s \<noteq> None)"

definition task_id_ok :: "string \<Rightarrow> bool" where
  "task_id_ok t \<longleftrightarrow> t \<noteq> [] \<and> \<not> startswith t ''claim:''"

definition run_ok :: "run \<Rightarrow> bool" where
  "run_ok r \<longleftrightarrow> (r_status r = Claimed \<longrightarrow> r_task r = None) \<and> (\<forall>t. r_task r = Some t \<longrightarrow> task_id_ok t)"

definition tasks_ok :: "sched_store \<Rightarrow> bool" where
  "tasks_ok st \<longleftrightarrow>
     (\<forall>r \<in> set (runs st). \<forall>r' \<in> set (runs st). r_task r \<noteq> None \<longrightarrow> r_task r = r_task r' \<longrightarrow> r = r')"

definition lock_ok :: "sched_store \<Rightarrow> bool" where
  "lock_ok st \<longleftrightarrow>
     (\<forall>s \<in> set (schedules st). \<forall>m.
        s_running s = Some m \<longleftrightarrow>
        (\<exists>r \<in> set (runs st). in_flight r \<and> r_schedule r = s_id s \<and> marker r = m))"

definition store_inv :: "sched_store \<Rightarrow> bool" where
  "store_inv st \<longleftrightarrow> keys_ok st \<and> links_ok st \<and> quota_ok st \<and> (\<forall>s \<in> set (schedules st). next_ok s) \<and>
     (\<forall>r \<in> set (runs st). run_ok r) \<and> tasks_ok st \<and> lock_ok st"

lemmas store_inv_parts =
  store_inv_def keys_ok_def links_ok_def quota_ok_def tasks_ok_def lock_ok_def

lemma empty_store_inv: "store_inv empty_store"
  by (simp add: store_inv_parts empty_store_def active_count_def)

lemma find_schedule_Some: "find_schedule app sid st = Some s \<Longrightarrow> s \<in> set (schedules st) \<and> s_id s = sid \<and> s_app s = app"
  unfolding find_schedule_def by (auto simp: find_Some_iff)

lemma marker_cases:
  assumes "run_ok r"
  shows "marker r = (case r_task r of None \<Rightarrow> claim_marker (r_id r) | Some t \<Rightarrow> t)"
  using assms by (auto simp: marker_def run_ok_def task_id_ok_def split: option.splits)

lemma claim_marker_not_task: "task_id_ok t \<Longrightarrow> t \<noteq> claim_marker rid"
  by (auto simp: task_id_ok_def claim_marker_def startswith_def)

lemma marker_inj:
  assumes "store_inv st" "r \<in> set (runs st)" "r' \<in> set (runs st)" "marker r = marker r'"
  shows "r = r'"
proof -
  have ok: "run_ok r" "run_ok r'" and ids: "distinct (map r_id (runs st))"
    using assms(1-3) by (auto simp: store_inv_parts)
  have sep: "t \<noteq> claim_marker rid" if "r_task x = Some t" "x \<in> {r, r'}" for x t rid
    using that ok claim_marker_not_task by (auto simp: run_ok_def)
  consider (none) "r_task r = None" "r_task r' = None" | (some) t where "r_task r = Some t" "r_task r' = Some t"
    using assms(4) sep unfolding marker_cases [OF ok(1)] marker_cases [OF ok(2)]
    by (cases "r_task r"; cases "r_task r'") (simp_all, metis+)
  then show ?thesis
  proof cases
    case none
    with assms(4) have "r_id r = r_id r'"
      by (simp add: marker_cases [OF ok(1)] marker_cases [OF ok(2)] claim_marker_def)
    with ids assms(2,3) show ?thesis by (metis select_in option.inject)
  next
    case some
    with assms(1-3) show ?thesis by (auto simp: store_inv_parts)
  qed
qed

text \<open>At most one run of a schedule is in flight.\<close>

lemma in_flight_unique:
  assumes "store_inv st" "r \<in> set (runs st)" "r' \<in> set (runs st)" "in_flight r" "in_flight r'"
    "r_schedule r = r_schedule r'"
  shows "r = r'"
proof -
  obtain s where s: "s \<in> set (schedules st)" "s_id s = r_schedule r"
    using assms(1,2) by (auto simp: store_inv_parts)
  with assms have "s_running s = Some (marker r)" "s_running s = Some (marker r')"
    unfolding store_inv_def lock_ok_def by metis+
  then show ?thesis using marker_inj [OF assms(1-3)] by simp
qed

section \<open>Every operation keeps the invariant\<close>

lemma active_count_write:
  assumes "distinct (map s_id (schedules st))" "cur \<in> set (schedules st)" "s_id row = s_id cur"
  shows "active_count app (write_schedule row st) =
    active_count app st - (if counts_as_active app cur then 1 else 0) + (if counts_as_active app row then 1 else 0)"
proof -
  have "length (filter Q (update_where (\<lambda>x. s_id x = s_id cur) (\<lambda>_. row) rows)) =
      length (filter Q rows) - (if Q cur then 1 else 0) + (if Q row then 1 else 0)"
    if "distinct (map s_id rows)" "cur \<in> set rows" for Q rows
    using that
  proof (induction rows)
    case (Cons a rows)
    show ?case
    proof (cases "a = cur")
      case True
      with Cons.prems have "update_where (\<lambda>x. s_id x = s_id cur) (\<lambda>_. row) rows = rows"
        by (auto simp: update_where_def intro!: map_idI) (metis image_eqI list.set_map)
      with True show ?thesis by (simp add: update_where_def)
    next
      case False
      with Cons.prems have "s_id a \<noteq> s_id cur" "cur \<in> set rows" by force+
      moreover have "Q cur \<Longrightarrow> 0 < length (filter Q rows)"
        using \<open>cur \<in> set rows\<close> by (auto simp: filter_empty_conv)
      ultimately show ?thesis using Cons by (auto simp: update_where_def)
    qed
  qed simp
  then show ?thesis using assms by (simp add: active_count_def write_schedule_def)
qed

text \<open>Rewriting rows of the schedule table without touching keys and running markers.\<close>

lemma links_ok_map:
  assumes "links_ok st" "schedules st' = map g (schedules st)"
    and g: "\<And>s. s_id (g s) = s_id s" "\<And>s. s_app (g s) = s_app s"
    and h: "\<And>r. r \<in> set (runs st') \<Longrightarrow> \<exists>x \<in> set (runs st). r_schedule x = r_schedule r \<and> r_app x = r_app r"
  shows "links_ok st'"
  unfolding links_ok_def
proof
  fix r assume "r \<in> set (runs st')"
  with h obtain x where "x \<in> set (runs st)" "r_schedule x = r_schedule r" "r_app x = r_app r" by blast
  with assms(1) obtain s where "s \<in> set (schedules st)" "s_id s = r_schedule r" "s_app s = r_app r"
    unfolding links_ok_def by metis
  then show "\<exists>s \<in> set (schedules st'). s_id s = r_schedule r \<and> s_app s = r_app r"
    unfolding assms(2) using g by (intro bexI [of _ "g s"]) simp_all
qed

lemma map_schedules_inv:
  assumes inv: "store_inv st"
    and keep: "\<And>s. s \<in> set (schedules st) \<Longrightarrow>
      s_id (g s) = s_id s \<and> s_app (g s) = s_app s \<and> s_running (g s) = s_running s \<and> next_ok (g s)"
    and quota: "\<And>app. active_count app (st\<lparr>schedules := map g (schedules st)\<rparr>) \<le> MAX_ACTIVE_SCHEDULES_PER_APP"
  shows "store_inv (st\<lparr>schedules := map g (schedules st)\<rparr>)"
proof -
  let ?st = "st\<lparr>schedules := map g (schedules st)\<rparr>"
  have ids: "map s_id (schedules ?st) = map s_id (schedules st)" using keep by simp
  have "links_ok ?st"
    using inv keep unfolding store_inv_def links_ok_def by fastforce
  moreover have "lock_ok ?st"
    unfolding lock_ok_def
  proof (intro ballI allI)
    fix s' m assume "s' \<in> set (schedules ?st)"
    then obtain s where s: "s \<in> set (schedules st)" "s' = g s" by auto
    then show "s_running s' = Some m \<longleftrightarrow>
        (\<exists>r \<in> set (runs ?st). in_flight r \<and> r_schedule r = s_id s' \<and> marker r = m)"
      using inv keep [OF s(1)] by (simp add: store_inv_def lock_ok_def)
  qed
  moreover have "keys_ok ?st"
    unfolding keys_ok_def ids using inv by (simp add: store_inv_def keys_ok_def)
  ultimately show ?thesis
    using inv keep quota unfolding store_inv_def tasks_ok_def quota_ok_def by auto
qed

lemma write_schedule_inv:
  assumes inv: "store_inv st" and cur: "cur \<in> set (schedules st)"
    and row: "s_id row = s_id cur" "s_app row = s_app cur" "s_running row = s_running cur" "next_ok row"
    and quota: "counts_as_active (s_app cur) row \<Longrightarrow> \<not> counts_as_active (s_app cur) cur \<Longrightarrow>
      active_count (s_app cur) st < MAX_ACTIVE_SCHEDULES_PER_APP"
  shows "store_inv (write_schedule row st)"
proof -
  let ?g = "\<lambda>s. if s_id s = s_id row then row else s"
  have d: "distinct (map s_id (schedules st))" using inv by (simp add: store_inv_parts)
  have eq: "write_schedule row st = st\<lparr>schedules := map ?g (schedules st)\<rparr>"
    by (simp add: write_schedule_def update_where_def)
  have only: "s = cur" if "s \<in> set (schedules st)" "s_id s = s_id row" for s
    using select_in [OF d cur] select_in [OF d that(1)] that(2) row(1) by (metis option.inject)
  have "active_count app (write_schedule row st) \<le> MAX_ACTIVE_SCHEDULES_PER_APP" for app
  proof -
    have le: "active_count app st \<le> MAX_ACTIVE_SCHEDULES_PER_APP" using inv by (simp add: store_inv_parts)
    have pos: "counts_as_active app cur \<Longrightarrow> 0 < active_count app st"
      using cur by (auto simp: active_count_def filter_empty_conv)
    show ?thesis
    proof (cases "app = s_app cur")
      case True
      with le quota pos show ?thesis by (auto simp: active_count_write [OF d cur row(1)])
    next
      case False
      then have "\<not> counts_as_active app row" "\<not> counts_as_active app cur"
        using row(2) by (auto simp: counts_as_active_def)
      with le show ?thesis by (simp add: active_count_write [OF d cur row(1)])
    qed
  qed
  moreover have "s_id (?g s) = s_id s \<and> s_app (?g s) = s_app s \<and> s_running (?g s) = s_running s \<and> next_ok (?g s)"
    if "s \<in> set (schedules st)" for s
    using only [OF that] row inv that by (auto simp: store_inv_def)
  ultimately show ?thesis unfolding eq by (intro map_schedules_inv [OF inv]) auto
qed

lemma store_create_inv: "store_inv st \<Longrightarrow> store_inv (snd (store_create app n now sid st))"
proof (cases "new_row app n now sid")
  case (Inr row)
  assume inv: "store_inv st"
  from Inr have row: "s_id row = sid" "s_app row = app" "s_status row = Active" "s_next_run_at row \<noteq> None"
    "s_running row = None"
    by (auto simp: new_row_def)
  show ?thesis
  proof (cases "active_count app st \<ge> MAX_ACTIVE_SCHEDULES_PER_APP \<or> sid \<in> s_id ` set (schedules st)")
    case True
    with Inr inv show ?thesis by (auto simp: store_create_def)
  next
    case False
    let ?st = "st\<lparr>schedules := schedules st @ [row]\<rparr>"
    have "active_count a ?st \<le> MAX_ACTIVE_SCHEDULES_PER_APP" for a
      using inv False row by (cases "a = app") (auto simp: store_inv_parts active_count_def counts_as_active_def)
    moreover have "\<not> (\<exists>r \<in> set (runs st). r_schedule r = sid)"
      using inv False unfolding store_inv_def links_ok_def by (metis image_eqI)
    ultimately have "store_inv ?st"
      using inv False row by (auto simp: store_inv_parts next_ok_def)
    with Inr False show ?thesis by (simp add: store_create_def)
  qed
qed (simp add: store_create_def)

text \<open>The columns that \<open>update\<close> leaves alone, and the next occurrence it may replace.\<close>

definition core :: "schedule \<Rightarrow> string \<times> string \<times> string option \<times> sched_status \<times> int \<times> bool" where
  "core s = (s_id s, s_app s, s_running s, s_status s, s_revision s, next_ok s)"

lemma core_update [simp]:
  "core (s\<lparr>s_name := x1\<rparr>) = core s" "core (s\<lparr>s_command := x2\<rparr>) = core s" "core (s\<lparr>s_cwd := x3\<rparr>) = core s"
  "core (s\<lparr>s_timeout := x4\<rparr>) = core s" "core (s\<lparr>s_overlap := x5\<rparr>) = core s"
  "core (s\<lparr>s_misfire := x6\<rparr>) = core s" "core (s\<lparr>s_plan := x7\<rparr>) = core s"
  "core (s\<lparr>s_taskname := x8\<rparr>) = core s" "core (s\<lparr>s_message := x9\<rparr>) = core s"
  by (simp_all add: core_def next_ok_def)

lemma set_opt_keeps:
  assumes "set_opt v check upd row = Inr row'" "\<And>x r. f (upd x r) = f r"
  shows "f row' = f row"
  using assms by (auto simp: set_opt_def split: option.splits)

lemma apply_changes_core:
  assumes "apply_changes ch cur = Inr row" "next_ok cur"
  shows "core row = core cur"
proof -
  from assms(1) obtain s1 s2 s3 s4 s5 s6 s7 s8 s9 where
    steps: "set_opt (c_name ch) (\<lambda>v. validate_text v ''name'' 128) (\<lambda>x s. s\<lparr>s_name := x\<rparr>) cur = Inr s1"
    "set_opt (c_command ch) (\<lambda>v. validate_text v ''command'' 100000) (\<lambda>x s. s\<lparr>s_command := x\<rparr>) s1 = Inr s2"
    "set_opt (c_cwd ch) validate_cwd (\<lambda>x s. s\<lparr>s_cwd := x\<rparr>) s2 = Inr s3"
    "set_opt (c_timeout ch) validate_timeout (\<lambda>x s. s\<lparr>s_timeout := x\<rparr>) s3 = Inr s4"
    "set_opt (c_overlap ch) validate_overlap (\<lambda>x s. s\<lparr>s_overlap := x\<rparr>) s4 = Inr s5"
    "set_opt (c_misfire ch) validate_misfire (\<lambda>x s. s\<lparr>s_misfire := x\<rparr>) s5 = Inr s6"
    "set_opt (c_plan ch) validate_plan (\<lambda>x s. s\<lparr>s_plan := x\<rparr>) s6 = Inr s7"
    "set_opt (c_taskname ch) (\<lambda>v. validate_text v ''taskname'' 32) (\<lambda>x s. s\<lparr>s_taskname := x\<rparr>) s7 = Inr s8"
    "set_opt (c_message ch) (\<lambda>v. validate_text v ''message'' 200) (\<lambda>x s. s\<lparr>s_message := x\<rparr>) s8 = Inr s9"
    and last: "set_opt (c_timing ch) Inr set_timing s9 = Inr row"
    unfolding apply_changes_def andThen_eq_Inr by blast
  have "core s9 = core cur"
    using steps [THEN set_opt_keeps, of core] by simp
  moreover have "core row = core s9"
    using last \<open>core s9 = core cur\<close> assms(2)
    by (auto simp: set_opt_def set_timing_def core_def next_ok_def split: option.splits)
  ultimately show ?thesis by simp
qed

lemma store_update_inv: "store_inv st \<Longrightarrow> store_inv (snd (store_update app sid expected ch now st))"
proof -
  assume inv: "store_inv st"
  have "store_inv (write_schedule (row\<lparr>s_updated := now, s_revision := k\<rparr>) st)"
    if "find_schedule app sid st = Some cur" "apply_changes ch cur = Inr row" for cur row k
  proof (rule write_schedule_inv [OF inv])
    show cur: "cur \<in> set (schedules st)" using find_schedule_Some [OF that(1)] by simp
    with inv have "next_ok cur" by (simp add: store_inv_def)
    from apply_changes_core [OF that(2) this] this
    have keep: "s_id row = s_id cur" "s_app row = s_app cur" "s_running row = s_running cur"
      "s_status row = s_status cur" "next_ok row"
      by (simp_all add: core_def)
    then show "next_ok (row\<lparr>s_updated := now, s_revision := k\<rparr>)" by (simp add: next_ok_def)
    show "s_id (row\<lparr>s_updated := now, s_revision := k\<rparr>) = s_id cur"
      "s_app (row\<lparr>s_updated := now, s_revision := k\<rparr>) = s_app cur"
      "s_running (row\<lparr>s_updated := now, s_revision := k\<rparr>) = s_running cur"
      using keep by simp_all
    show "counts_as_active (s_app cur) (row\<lparr>s_updated := now, s_revision := k\<rparr>) \<Longrightarrow>
        \<not> counts_as_active (s_app cur) cur \<Longrightarrow> active_count (s_app cur) st < MAX_ACTIVE_SCHEDULES_PER_APP"
      using keep by (simp add: counts_as_active_def)
  qed
  with inv show ?thesis
    by (auto simp: store_update_def attempt_def Let_def split: option.splits sum.splits)
qed

lemma status_change_inv:
  assumes inv: "store_inv st" and cur: "cur \<in> set (schedules st)"
    and status: "status \<noteq> Active" "status = Paused \<longrightarrow> s_status cur = Active"
  shows "store_inv (write_schedule (cur\<lparr>s_status := status, s_next_run_at := None, s_updated := now,
    s_revision := k\<rparr>) st)"
  by (rule write_schedule_inv [OF inv cur]) (use status in \<open>auto simp: next_ok_def counts_as_active_def\<close>)

lemma store_pause_inv: "store_inv st \<Longrightarrow> store_inv (snd (store_pause app sid now st))"
  using status_change_inv [of st _ Paused] find_schedule_Some
  by (auto simp: store_pause_def set_status_def Let_def split: option.splits)

lemma store_end_inv: "store_inv st \<Longrightarrow> store_inv (snd (store_end app sid status now st))"
  using status_change_inv [of st _ status] find_schedule_Some
  by (auto simp: store_end_def Let_def split: option.splits)

lemma store_resume_inv: "store_inv st \<Longrightarrow> store_inv (snd (store_resume env app sid now now' st))"
proof -
  assume inv: "store_inv st"
  have "store_inv (write_schedule (cur\<lparr>s_status := Active, s_next_run_at := Some t, s_updated := now',
      s_revision := k\<rparr>) st)"
    if "find_schedule app sid st = Some cur" "s_status cur = Paused \<or> active_count app st < MAX_ACTIVE_SCHEDULES_PER_APP"
    for cur t k
    by (rule write_schedule_inv [OF inv])
      (use find_schedule_Some [OF that(1)] that(2) in \<open>auto simp: next_ok_def counts_as_active_def\<close>)
  with inv show ?thesis
    by (auto simp: store_resume_def attempt_def Let_def not_le split: option.splits sum.splits)
qed

lemma pause_app_inv: "store_inv st \<Longrightarrow> store_inv (snd (pause_app app now st))"
proof -
  assume inv: "store_inv st"
  let ?f = "\<lambda>s. s\<lparr>s_status := Paused, s_next_run_at := None, s_updated := now, s_revision := s_revision s + 1\<rparr>"
  let ?P = "\<lambda>s. s_app s = app \<and> s_status s = Active"
  let ?st = "st\<lparr>schedules := update_where ?P ?f (schedules st)\<rparr>"
  have "active_count a ?st = active_count a st" for a
    unfolding active_count_def
    by (simp, rule length_filter_update_where_eq) (auto simp: counts_as_active_def)
  then have "store_inv ?st"
    unfolding update_where_def
    by (intro map_schedules_inv [OF inv]) (use inv in \<open>auto simp: store_inv_def quota_ok_def next_ok_def\<close>)
  then show ?thesis by (simp add: pause_app_def)
qed

text \<open>Deleting runs that are not in flight.\<close>

lemma filter_runs_inv:
  assumes "store_inv st" "\<And>r. r \<in> set (runs st) \<Longrightarrow> in_flight r \<Longrightarrow> P r"
  shows "store_inv (st\<lparr>runs := filter P (runs st)\<rparr>)"
proof -
  let ?st = "st\<lparr>runs := filter P (runs st)\<rparr>"
  have "lock_ok ?st"
    using assms unfolding store_inv_def lock_ok_def by (simp, metis)
  moreover have "keys_ok ?st" using assms(1) by (simp add: store_inv_def keys_ok_def distinct_map_filter)
  ultimately show ?thesis
    using assms(1) unfolding store_inv_def links_ok_def tasks_ok_def quota_ok_def active_count_def by auto
qed

lemma set_drop_sort_key: "set (drop k (sort_key f xs)) \<subseteq> set xs"
  using set_drop_subset [of k "sort_key f xs"] by simp


lemma prune_runs_filter:
  assumes "distinct (map r_id (runs st))"
  obtains P where "prune_runs sid now keep st = st\<lparr>runs := filter P (runs st)\<rparr>"
    and "\<And>r. r \<in> set (runs st) \<Longrightarrow> \<not> prunable sid keep r \<Longrightarrow> P r"
proof -
  let ?cutoff = "now - days_us SCHEDULE_RUN_RETENTION_DAYS"
  let ?kept = "delete_where (\<lambda>r. prunable sid keep r \<and> r_scheduled_at r < ?cutoff) (runs st)"
  let ?excess = "drop (MAX_SCHEDULE_RUNS_PER_SCHEDULE - (if keep = None then 0 else 1))
    (sort_key (\<lambda>r. - r_scheduled_at r) (filter (prunable sid keep) ?kept))"
  let ?P = "\<lambda>r. \<not> (prunable sid keep r \<and> r_scheduled_at r < ?cutoff) \<and> \<not> r_id r \<in> r_id ` set ?excess"
  have "prune_runs sid now keep st = st\<lparr>runs := filter ?P (runs st)\<rparr>"
    unfolding prune_runs_def Let_def by (simp only: delete_where_def filter_filter)
  moreover have "?P r" if "r \<in> set (runs st)" "\<not> prunable sid keep r" for r
  proof -
    have "r_id x \<noteq> r_id r" if x: "x \<in> set ?excess" for x
    proof
      assume id: "r_id x = r_id r"
      have "prunable sid keep x" "x \<in> set (runs st)"
        using set_drop_sort_key [THEN subsetD, OF x] by (simp_all add: delete_where_def)
      with \<open>r \<in> set (runs st)\<close> id assms have "x = r" unfolding distinct_map inj_on_def by blast
      with \<open>prunable sid keep x\<close> \<open>\<not> prunable sid keep r\<close> show False by blast
    qed
    then have "\<forall>x \<in> set ?excess. r_id x \<noteq> r_id r" by (intro ballI)
    then have "r_id r \<notin> r_id ` set ?excess" by (rule ball_neq_image)
    with that(2) show ?thesis by blast
  qed
  ultimately show ?thesis by (rule that)
qed

lemma prune_runs_inv: "store_inv st \<Longrightarrow> store_inv (prune_runs sid now keep st)"
proof -
  assume inv: "store_inv st"
  then have "distinct (map r_id (runs st))" by (simp add: store_inv_parts)
  then obtain P where "prune_runs sid now keep st = st\<lparr>runs := filter P (runs st)\<rparr>"
    "\<And>r. r \<in> set (runs st) \<Longrightarrow> \<not> prunable sid keep r \<Longrightarrow> P r"
    using prune_runs_filter by metis
  with filter_runs_inv [OF inv, of P] show ?thesis by (simp add: prunable_def)
qed

lemma prune_runs_write: "prune_runs sid now keep (write_schedule row st) = write_schedule row (prune_runs sid now keep st)"
  by (simp add: prune_runs_def write_schedule_def Let_def)

text \<open>Adding a claimed run and its marker, or a skipped run, to the tables.\<close>

lemma add_run_inv:
  assumes inv: "store_inv st" and cur: "cur \<in> set (schedules st)"
    and r: "r_id r \<notin> r_id ` set (runs st)" "r_schedule r = s_id cur" "r_app r = s_app cur" "r_task r = None"
    and row: "s_id row = s_id cur" "s_app row = s_app cur" "next_ok row"
      "s_status row = s_status cur \<or> s_status row = Completed"
    and lock: "in_flight r \<Longrightarrow> s_running cur = None \<and> s_running row = Some (claim_marker (r_id r))"
      "\<not> in_flight r \<Longrightarrow> s_running row = s_running cur"
  shows "store_inv (write_schedule row (st\<lparr>runs := runs st @ [r]\<rparr>))"
proof -
  let ?row = "row\<lparr>s_running := s_running cur\<rparr>"
  have "store_inv (write_schedule ?row st)"
    by (rule write_schedule_inv [OF inv cur]) (use row in \<open>auto simp: next_ok_def counts_as_active_def\<close>)
  let ?a = "write_schedule ?row st" and ?b = "write_schedule row (st\<lparr>runs := runs st @ [r]\<rparr>)"
  have ra: "runs ?a = runs st" "runs ?b = runs st @ [r]" by (simp_all add: write_schedule_def)
  have d: "distinct (map s_id (schedules st))" using inv by (simp add: store_inv_parts)
  have sb: "set (schedules ?b) = insert row {s \<in> set (schedules st). s_id s \<noteq> s_id cur}"
    and sa: "set (schedules ?a) = insert ?row {s \<in> set (schedules st). s_id s \<noteq> s_id cur}"
    using cur row(1) by (auto simp: write_schedule_def table_simps)
  have mk: "marker r = claim_marker (r_id r)" using r(4) by (simp add: marker_def)
  have inv_a: "store_inv ?a" by fact
  have "active_count app ?b = active_count app ?a" for app
  proof -
    have "counts_as_active app row = counts_as_active app ?row" by (simp add: counts_as_active_def)
    then show ?thesis
      using active_count_write [OF d cur, of ?row app] active_count_write [of "st\<lparr>runs := runs st @ [r]\<rparr>" cur row app]
        d cur row(1) by (simp add: active_count_def)
  qed
  then have "quota_ok ?b" using inv_a by (simp add: store_inv_def quota_ok_def)
  moreover have "keys_ok ?b"
    using inv r(1) row(1) unfolding store_inv_def keys_ok_def ra
    by (simp add: write_schedule_def map_update_where)
  moreover have "links_ok ?b"
    using inv_a r(2,3) row(1,2) unfolding store_inv_def links_ok_def ra sa sb by auto
  moreover have "tasks_ok ?b"
    using inv r(4) unfolding store_inv_def tasks_ok_def ra by auto
  moreover have "lock_ok ?b"
    unfolding lock_ok_def ra
  proof (intro ballI allI)
    fix s m assume s: "s \<in> set (schedules ?b)"
    have L: "(s_running s0 = Some m) = (\<exists>x \<in> set (runs st). in_flight x \<and> r_schedule x = s_id s0 \<and> marker x = m)"
      if "s0 \<in> set (schedules st)" for s0
      using inv that by (simp add: store_inv_def lock_ok_def)
    show "(s_running s = Some m) = (\<exists>x \<in> set (runs st @ [r]). in_flight x \<and> r_schedule x = s_id s \<and> marker x = m)"
    proof (cases "s = row")
      case True
      show ?thesis
      proof (cases "in_flight r")
        case fl: True
        with lock(1) L [OF cur] have "\<not> (\<exists>x \<in> set (runs st). in_flight x \<and> r_schedule x = s_id cur \<and> marker x = m)"
          by simp
        with True fl lock(1) r(2) row(1) mk show ?thesis by auto
      next
        case fl: False
        with True lock(2) L [OF cur] row(1) show ?thesis by auto
      qed
    next
      case False
      with s sb have "s \<in> set (schedules st)" "s_id s \<noteq> s_id cur" by auto
      with L [OF this(1)] r(2) show ?thesis by auto
    qed
  qed
  ultimately show ?thesis
    using inv inv_a r(4) row(3) unfolding store_inv_def ra sa sb by (auto simp: run_ok_def)
qed

lemma claim_run_props:
  assumes "claim_run s due now grace force rid = (r, execute)"
  shows "r_id r = rid" "r_schedule r = s_id s" "r_app r = s_app s" "r_task r = None"
    "in_flight r \<longleftrightarrow> execute" "execute \<Longrightarrow> s_running s = None" "r_scheduled_at r = due"
    "r_status r \<in> {Claimed, SkippedOverlap, Missed}"
  using assms by (auto simp: claim_run_def Let_def in_flight_def split: if_splits)

lemma next_after_claim_some:
  "next_after_claim env s now = Inr t \<Longrightarrow> (t = None) = (s_type s = Once)"
  by (auto simp: next_after_claim_def split: sched_type.splits option.splits)

lemma commit_claim_inv:
  assumes inv: "store_inv st" and cur: "s \<in> set (schedules st)"
    and nxt: "if force then next_run = s_next_run_at s else s_status s = Active \<and> (next_run = None) = (s_type s = Once)"
  shows "store_inv (snd (commit_claim s next_run due now grace force rid st))"
proof (cases "rid \<in> r_id ` set (runs st)")
  case True
  with inv show ?thesis by (simp add: commit_claim_def)
next
  case False
  obtain r execute where r: "claim_run s due now grace force rid = (r, execute)" by fastforce
  note p = claim_run_props [OF r]
  let ?row = "claim_row s next_run now force rid execute"
  have "next_ok s" using inv cur by (simp add: store_inv_def)
  then have "store_inv (write_schedule ?row (st\<lparr>runs := runs st @ [r]\<rparr>))"
    using p False nxt
    by (intro add_run_inv [OF inv cur]) (auto simp: next_ok_def claim_row_def split: if_splits)
  then have "store_inv (claim_tables s ?row r now st)"
    using prune_runs_inv prune_runs_write unfolding claim_tables_def by metis
  with False r show ?thesis by (simp add: commit_claim_def Let_def split: option.splits)
qed

lemma claim_due_inv: "store_inv st \<Longrightarrow> store_inv (snd (claim_due env sid now grace force app rid st))"
proof -
  assume inv: "store_inv st"
  let ?row = "case app of None \<Rightarrow> select s_id sid (schedules st) | Some a \<Rightarrow> find_schedule a sid st"
  show ?thesis
  proof (cases ?row)
    case None
    with inv show ?thesis by (simp add: claim_due_def)
  next
    case (Some s)
    then have cur: "s \<in> set (schedules st)"
      by (auto dest: select_Some find_schedule_Some split: option.splits)
    have "store_inv (snd (commit_claim s (s_next_run_at s) now now grace True rid st))"
      by (rule commit_claim_inv [OF inv cur]) simp
    moreover have "store_inv (snd (commit_claim s t due now grace False rid st))"
      if "next_after_claim env s now = Inr t" "s_status s = Active" for t due
      by (rule commit_claim_inv [OF inv cur]) (use that next_after_claim_some in auto)
    ultimately show ?thesis
      using Some inv by (auto simp: claim_due_def attempt_def split: option.splits sum.splits)
  qed
qed

text \<open>The running marker of a run in flight.\<close>

lemma running_marker:
  assumes "store_inv st" "r \<in> set (runs st)" "in_flight r" "s \<in> set (schedules st)" "s_id s = r_schedule r"
  shows "s_running s = Some (marker r)"
  using assms unfolding store_inv_def lock_ok_def by metis

lemma marker_elsewhere:
  assumes "store_inv st" "s \<in> set (schedules st)" "s_running s = Some (marker r)" "r \<in> set (runs st)"
  shows "in_flight r \<and> r_schedule r = s_id s"
proof -
  obtain x where "x \<in> set (runs st)" "in_flight x" "r_schedule x = s_id s" "marker x = marker r"
    using assms(1-3) unfolding store_inv_def lock_ok_def by blast
  with marker_inj [OF assms(1) _ assms(4)] show ?thesis by metis
qed

text \<open>Replacing one run and the marker it accounts for.\<close>

lemma replace_run_inv:
  assumes inv: "store_inv st" and r: "r \<in> set (runs st)"
    and r': "r_id r' = r_id r" "r_schedule r' = r_schedule r" "r_app r' = r_app r" "run_ok r'"
    and fresh: "\<And>x. x \<in> set (runs st) \<Longrightarrow> x \<noteq> r \<Longrightarrow> r_task r' \<noteq> None \<Longrightarrow> r_task x \<noteq> r_task r'"
    and flight: "in_flight r' \<Longrightarrow> in_flight r"
    and f: "\<And>s. s_id (f s) = s_id s \<and> s_app (f s) = s_app s \<and> s_status (f s) = s_status s \<and>
      s_next_run_at (f s) = s_next_run_at s \<and> s_running (f s) = (if in_flight r' then Some (marker r') else None)"
  shows "store_inv (st\<lparr>runs := update_where (\<lambda>x. r_id x = r_id r) (\<lambda>_. r') (runs st),
    schedules := update_where (\<lambda>s. s_id s = r_schedule r \<and> s_running s = Some (marker r)) f (schedules st)\<rparr>)"
    (is "store_inv ?st")
proof -
  have dr: "distinct (map r_id (runs st))" using inv by (simp add: store_inv_parts)
  have only: "x = r" if "x \<in> set (runs st)" "r_id x = r_id r" for x
    using select_in [OF dr r] select_in [OF dr that(1)] that(2) by (metis option.inject)
  have rs: "set (runs ?st) = insert r' (set (runs st) - {r})"
    using r only by (auto simp: table_simps)
  let ?P = "\<lambda>s. s_id s = r_schedule r \<and> s_running s = Some (marker r)"
  let ?g = "\<lambda>s. if ?P s then f s else s"
  have ss: "schedules ?st = map ?g (schedules st)" by (simp add: update_where_def)
  have "keys_ok ?st"
    using inv r' f unfolding store_inv_def keys_ok_def
    by (simp add: map_update_where)
  moreover have "links_ok ?st"
  proof -
    have "\<exists>y \<in> set (runs st). r_schedule y = r_schedule x \<and> r_app y = r_app x" if "x \<in> set (runs ?st)" for x
      using that r r'(2,3) unfolding rs by auto
    with inv show ?thesis by (intro links_ok_map [OF _ ss]) (use f in \<open>auto simp: store_inv_def\<close>)
  qed
  moreover have "quota_ok ?st"
  proof -
    have "active_count app ?st = active_count app st" for app
      unfolding active_count_def using f
      by (simp, intro length_filter_update_where_eq) (auto simp: counts_as_active_def)
    then show ?thesis using inv by (simp add: store_inv_def quota_ok_def)
  qed
  moreover have "tasks_ok ?st"
    using inv fresh unfolding store_inv_def tasks_ok_def rs by (metis Diff_iff insert_iff)
  moreover have "\<forall>s \<in> set (schedules ?st). next_ok s"
    using inv f unfolding store_inv_def ss next_ok_def by auto
  moreover have "\<forall>x \<in> set (runs ?st). run_ok x"
    using inv r'(4) unfolding store_inv_def rs by auto
  moreover have "lock_ok ?st"
    unfolding lock_ok_def
  proof (intro ballI allI)
    fix s' m assume "s' \<in> set (schedules ?st)"
    then obtain s where s: "s \<in> set (schedules st)" "s' = ?g s" unfolding ss by auto
    have id: "s_id s' = s_id s" using f s(2) by simp
    have L: "s_running s = Some k \<longleftrightarrow> (\<exists>x \<in> set (runs st). in_flight x \<and> r_schedule x = s_id s \<and> marker x = k)" for k
      using inv s(1) by (simp add: store_inv_def lock_ok_def)
    show "s_running s' = Some m \<longleftrightarrow> (\<exists>x \<in> set (runs ?st). in_flight x \<and> r_schedule x = s_id s' \<and> marker x = m)"
    proof (cases "?P s")
      case True
      then have fl: "in_flight r" "r_schedule r = s_id s"
        using marker_elsewhere [OF inv s(1) _ r] by auto
      have "\<not> (in_flight x \<and> r_schedule x = s_id s)" if "x \<in> set (runs st)" "x \<noteq> r" for x
        using in_flight_unique [OF inv that(1) r] fl that(2) by metis
      moreover have "s_running s' = (if in_flight r' then Some (marker r') else None)" using f s(2) True by simp
      ultimately show ?thesis unfolding id rs using r'(2) fl by auto
    next
      case False
      with s(2) have s': "s' = s" by (meson)
      have "\<not> (in_flight r \<and> r_schedule r = s_id s)" using False running_marker [OF inv r _ s(1)] by metis
      with flight r'(2) have "\<not> (in_flight x \<and> r_schedule x = s_id s)" if "x \<in> {r, r'}" for x
        using that by auto
      then show ?thesis unfolding s' L rs by auto
    qed
  qed
  ultimately show ?thesis unfolding store_inv_def by blast
qed

text \<open>
  A task is bound to a run under an identifier that no run had before and that is not empty and
  does not look like a claim marker; \<open>TaskManager\<close> makes identifiers \<open>task_\<close> followed by a random
  token.
\<close>

lemma bind_task_inv:
  assumes inv: "store_inv st" and task: "task_id_ok task" "\<forall>r \<in> set (runs st). r_task r \<noteq> Some task"
  shows "store_inv (snd (bind_task rid task now st))"
proof (cases "select r_id rid (runs st)")
  case None
  with inv show ?thesis by (simp add: bind_task_def)
next
  case (Some r)
  note r = select_Some [OF Some]
  show ?thesis
  proof (cases "r_status r = Claimed")
    case True
    let ?r' = "r\<lparr>r_status := Running, r_task := Some task, r_started_at := Some now\<rparr>"
    have "r_task r = None" using True r inv by (auto simp: store_inv_def run_ok_def)
    then have mk: "marker r = claim_marker rid" using r by (simp add: marker_def)
    have mk': "marker ?r' = task" using task(1) by (simp add: marker_def task_id_ok_def)
    have "store_inv (st\<lparr>runs := update_where (\<lambda>x. r_id x = r_id r) (\<lambda>_. ?r') (runs st),
      schedules := update_where (\<lambda>s. s_id s = r_schedule r \<and> s_running s = Some (marker r))
        (\<lambda>s. s\<lparr>s_running := Some task\<rparr>) (schedules st)\<rparr>)"
      using r task True mk'
      by (intro replace_run_inv [OF inv]) (auto simp: run_ok_def in_flight_def)
    then show ?thesis using Some True r mk by (simp add: bind_task_def Let_def)
  next
    case False
    with Some inv show ?thesis by (simp add: bind_task_def)
  qed
qed

lemma finish_run_inv: "store_inv st \<Longrightarrow> store_inv (snd (finish_run rid status code err now now' st))"
proof (cases "status = Claimed \<or> status = Running \<or> select r_id rid (runs st) = None")
  case True
  then show "store_inv st \<Longrightarrow> ?thesis" by (auto simp: finish_run_def split: option.splits)
next
  case False
  assume inv: "store_inv st"
  from False obtain r where sel: "select r_id rid (runs st) = Some r" by auto
  note r = select_Some [OF sel]
  let ?r' = "r\<lparr>r_status := status, r_finished_at := Some now, r_exit := code, r_error := err\<rparr>"
  let ?st = "st\<lparr>runs := update_where (\<lambda>x. r_id x = r_id r) (\<lambda>_. ?r') (runs st),
    schedules := update_where (\<lambda>s. s_id s = r_schedule r \<and> s_running s = Some (marker r))
      (\<lambda>s. s\<lparr>s_running := None, s_updated := now\<rparr>) (schedules st)\<rparr>"
  have rok: "run_ok r" using inv r by (simp add: store_inv_def)
  have "r_task x \<noteq> r_task r" if "x \<in> set (runs st)" "x \<noteq> r" "r_task r \<noteq> None" for x
    using inv that r unfolding store_inv_def tasks_ok_def by metis
  then have "store_inv ?st"
    using r False rok
    by (intro replace_run_inv [OF inv]) (auto simp: run_ok_def in_flight_def)
  from prune_runs_inv [OF this] sel False r show ?thesis
    by (simp add: finish_run_def Let_def split: option.splits)
qed

lemma abandon_running_inv: "store_inv st \<Longrightarrow> store_inv (snd (abandon_running now st))"
proof -
  assume inv: "store_inv st"
  let ?st = "snd (abandon_running now st)"
  let ?g = "\<lambda>s. if s_running s \<noteq> None then s\<lparr>s_running := None\<rparr> else s"
  let ?h = "\<lambda>r. if in_flight r then r\<lparr>r_status := Abandoned, r_finished_at := Some now,
    r_error := Some ''server restarted before the task completed''\<rparr> else r"
  have ss: "schedules ?st = map ?g (schedules st)" and rs: "runs ?st = map ?h (runs st)"
    by (simp_all add: abandon_running_def update_where_def)
  have none: "\<not> in_flight (?h r)" "s_running (?g s) = None" for r s by (auto simp: in_flight_def)
  have "map s_id (schedules ?st) = map s_id (schedules st)" "map r_id (runs ?st) = map r_id (runs st)"
    unfolding ss rs by auto
  then have "keys_ok ?st" using inv unfolding store_inv_def keys_ok_def by metis
  moreover have "links_ok ?st"
    by (rule links_ok_map [OF _ ss]) (use inv rs in \<open>auto simp: store_inv_def\<close>)
  moreover have "active_count a ?st = active_count a st" for a
    unfolding active_count_def abandon_running_def
    by (simp, rule length_filter_update_where_eq) (auto simp: counts_as_active_def)
  then have "quota_ok ?st" using inv by (simp add: store_inv_def quota_ok_def)
  moreover have "\<forall>s \<in> set (schedules ?st). next_ok s"
    using inv unfolding store_inv_def ss next_ok_def by auto
  moreover have "\<forall>r \<in> set (runs ?st). run_ok r"
    using inv unfolding store_inv_def rs run_ok_def by auto
  moreover have "tasks_ok ?st"
    using inv unfolding store_inv_def tasks_ok_def rs set_map by (fastforce split: if_splits)
  moreover have "lock_ok ?st"
  proof -
    have "\<not> in_flight r" if "r \<in> set (runs ?st)" for r using that none(1) unfolding rs set_map by blast
    moreover have "s_running s = None" if "s \<in> set (schedules ?st)" for s
      using that none(2) unfolding ss set_map by fastforce
    ultimately show ?thesis unfolding lock_ok_def by simp
  qed
  ultimately show ?thesis unfolding store_inv_def by blast
qed

lemma delete_app_inv: "store_inv st \<Longrightarrow> store_inv (snd (delete_app app st))"
proof -
  assume inv: "store_inv st"
  let ?st = "snd (delete_app app st)"
  let ?gone = "s_id ` {s \<in> set (schedules st). s_app s = app}"
  have ss: "schedules ?st = filter (\<lambda>s. s_app s \<noteq> app) (schedules st)"
    and rs: "runs ?st = filter (\<lambda>r. r_schedule r \<notin> ?gone) (runs st)"
    by (simp_all add: delete_app_def delete_where_def)
  have d: "distinct (map s_id (schedules st))" using inv by (simp add: store_inv_parts)
  have stay: "s_id s \<notin> ?gone" if "s \<in> set (schedules ?st)" for s
    using that select_in [OF d] unfolding ss by (auto simp: image_iff) (metis option.inject)
  have "keys_ok ?st" using inv unfolding store_inv_def keys_ok_def ss rs by (simp add: distinct_map_filter)
  moreover have "links_ok ?st"
    unfolding links_ok_def
  proof
    fix r assume "r \<in> set (runs ?st)"
    then have r: "r \<in> set (runs st)" "r_schedule r \<notin> ?gone" unfolding rs by auto
    with inv obtain s where "s \<in> set (schedules st)" "s_id s = r_schedule r" "s_app s = r_app r"
      unfolding store_inv_def links_ok_def by blast
    moreover from this r(2) have "s_app s \<noteq> app" by (metis (mono_tags, lifting) image_eqI mem_Collect_eq)
    ultimately show "\<exists>s \<in> set (schedules ?st). s_id s = r_schedule r \<and> s_app s = r_app r"
      unfolding ss by auto
  qed
  moreover have "active_count a ?st \<le> active_count a st" for a
    unfolding active_count_def delete_app_def by (simp add: length_filter_delete_where)
  then have "quota_ok ?st" using inv order_trans unfolding store_inv_def quota_ok_def by blast
  moreover have "lock_ok ?st"
    unfolding lock_ok_def
  proof (intro ballI allI)
    fix s m assume s: "s \<in> set (schedules ?st)"
    then have "s_running s = Some m \<longleftrightarrow> (\<exists>x \<in> set (runs st). in_flight x \<and> r_schedule x = s_id s \<and> marker x = m)"
      using inv unfolding store_inv_def lock_ok_def ss by auto
    then show "s_running s = Some m \<longleftrightarrow> (\<exists>x \<in> set (runs ?st). in_flight x \<and> r_schedule x = s_id s \<and> marker x = m)"
      using stay [OF s] unfolding rs by (simp, metis)
  qed
  ultimately show ?thesis using inv unfolding store_inv_def tasks_ok_def ss rs by auto
qed

end
