(* ===== verification/Schedule_Lifecycle.thy ===== *)
theory Schedule_Lifecycle
  imports Schedule_Store
begin

text \<open>
  The life of a schedule store: every state that the operations of \<open>Schedule_Store\<close> can reach, in
  any order and interleaving, and what holds there.  The timing given to \<open>create\<close> and \<open>update\<close> is
  the result of \<open>validate_timing\<close>, as in \<open>openkapsel/execution/schedule_handlers.py\<close>; a task that
  is bound to a run has an identifier that no run had before.
\<close>

section \<open>Validated timing\<close>

definition timing_valid :: "clock_env \<Rightarrow> sched_type \<Rightarrow> string option \<Rightarrow> int option \<Rightarrow> string \<Rightarrow> bool" where
  "timing_valid env kind expr interval tz \<longleftrightarrow>
     (\<exists>z. parse_timezone env (PStr tz) = Inr z) \<and>
     (kind = Cron \<longrightarrow> (\<exists>e c. expr = Some e \<and> cron_parse (PStr e) = Inr c)) \<and>
     (kind = Interval \<longrightarrow> (\<exists>k. interval = Some k \<and> MIN_SCHEDULE_INTERVAL_MINUTES \<le> k))"

definition timing_ok :: "clock_env \<Rightarrow> schedule \<Rightarrow> bool" where
  "timing_ok env s \<longleftrightarrow> timing_valid env (s_type s) (s_expression s) (s_interval_minutes s) (s_timezone s)"

lemma parse_timezone_strip:
  assumes "parse_timezone env v = Inr z"
  shows "parse_timezone env (PStr (strip (text_of v))) = Inr z"
  using assms by (auto simp: parse_timezone_def text_of_def split: pyval.splits if_splits)

lemma validate_timing_valid:
  assumes "validate_timing env v now = Inr t"
  shows "timing_valid env (t_type t) (t_expression t) (t_interval_minutes t) (t_timezone t)"
proof -
  obtain d where v: "v = PDict d" using assms by (auto simp: validate_timing_def split: pyval.splits)
  let ?tz = "dict_get_default d ''timezone'' (PStr ''UTC'')"
  obtain kind z where kz: "sched_type_of (dict_get d ''type'') = Inr kind" "parse_timezone env ?tz = Inr z"
    using assms by (auto simp: validate_timing_def v Let_def)
  have tz: "t_timezone t = strip (text_of ?tz)" and
    k: "t_type t = Cron \<Longrightarrow> \<exists>c. cron_parse (dict_get d ''expression'') = Inr c \<and> t_expression t = Some (expression c)"
    "t_type t = Interval \<Longrightarrow> \<exists>k. t_interval_minutes t = Some k \<and> MIN_SCHEDULE_INTERVAL_MINUTES \<le> k"
    using assms kz by (auto simp: validate_timing_def v Let_def split: sched_type.splits pyval.splits if_splits)
  then show ?thesis
    using parse_timezone_strip [OF kz(2)] cron_parse_expression unfolding timing_valid_def tz by blast
qed

lemma validate_timing_next:
  assumes "validate_timing env v now = Inr t"
  shows "now < t_next_run_at t \<and>
    (t_type t = Interval \<longrightarrow> (\<exists>k. t_interval_minutes t = Some k \<and> 3 \<le> k \<and> t_next_run_at t = now + minutes_us k)) \<and>
    (t_type t = Once \<longrightarrow> t_run_at t = Some (t_next_run_at t) \<and> now + seconds_us 180 \<le> t_next_run_at t)"
proof -
  obtain d where v: "v = PDict d" using assms by (auto simp: validate_timing_def split: pyval.splits)
  obtain kind z where kz: "sched_type_of (dict_get d ''type'') = Inr kind"
    "parse_timezone env (dict_get_default d ''timezone'' (PStr ''UTC'')) = Inr z"
    using assms by (auto simp: validate_timing_def v Let_def)
  note step = assms [unfolded validate_timing_def v, simplified, unfolded kz Let_def, simplified]
  show ?thesis
  proof (cases kind)
    case Cron
    with step obtain c where "next_after c now z = Inr (t_next_run_at t)" "t_type t = Cron"
      by (auto simp: kz Let_def)
    then show ?thesis using scan_days_Inr unfolding next_after_def by fastforce
  next
    case Interval
    with step show ?thesis
      by (auto simp: kz Let_def add_delta_def minutes_us_def MIN_SCHEDULE_INTERVAL_MINUTES_def
          split: pyval.splits if_splits)
  next
    case Once
    with step show ?thesis
      by (auto simp: kz Let_def add_delta_def seconds_us_def MIN_SCHEDULE_INTERVAL_SECONDS_def
          MIN_SCHEDULE_INTERVAL_MINUTES_def split: if_splits)
  qed
qed

section \<open>Steps\<close>

inductive store_step :: "clock_env \<Rightarrow> sched_store \<Rightarrow> sched_store \<Rightarrow> bool" for env where
  create: "validate_timing env v now0 = Inr (n_timing n) \<Longrightarrow>
    store_step env st (snd (store_create app n now sid st))"
| update: "(\<And>t. c_timing ch = Some t \<Longrightarrow> \<exists>v now0. validate_timing env v now0 = Inr t) \<Longrightarrow>
    store_step env st (snd (store_update app sid expected ch now st))"
| pause: "store_step env st (snd (store_pause app sid now st))"
| resume: "store_step env st (snd (store_resume env app sid now now' st))"
| stop: "store_step env st (snd (store_end app sid status now st))"
| pause_all: "store_step env st (snd (pause_app app now st))"
| claim: "store_step env st (snd (claim_due env sid now grace force app_opt rid st))"
| bind: "task_id_ok task \<Longrightarrow> (\<And>r. r \<in> set (runs st) \<Longrightarrow> r_task r \<noteq> Some task) \<Longrightarrow>
    store_step env st (snd (bind_task rid task now st))"
| finish: "store_step env st (snd (finish_run rid final code err now now' st))"
| abandon: "store_step env st (snd (abandon_running now st))"
| delete: "store_step env st (snd (delete_app app st))"

inductive_cases store_stepE: "store_step env st st'"

lemma store_step_inv: "store_inv st \<Longrightarrow> store_step env st st' \<Longrightarrow> store_inv st'"
  by (erule store_stepE)
    (simp_all add: store_create_inv store_update_inv store_pause_inv store_resume_inv store_end_inv
      pause_app_inv claim_due_inv bind_task_inv finish_run_inv abandon_running_inv delete_app_inv)

interpretation sched: state_machine "\<lambda>st. st = empty_store" "store_step env" store_inv for env
  by unfold_locales (auto intro: empty_store_inv store_step_inv)

section \<open>Timing columns\<close>

definition timed :: "clock_env \<Rightarrow> sched_store \<Rightarrow> bool" where
  "timed env st \<longleftrightarrow> (\<forall>s \<in> set (schedules st). timing_ok env s)"

definition timing_cols :: "schedule \<Rightarrow> sched_type \<times> string option \<times> int option \<times> string" where
  "timing_cols s = (s_type s, s_expression s, s_interval_minutes s, s_timezone s)"

lemma timing_ok_cols: "timing_cols s = timing_cols s' \<Longrightarrow> timing_ok env s = timing_ok env s'"
  by (simp add: timing_cols_def timing_ok_def)

text \<open>Rows written by an operation carry the timing columns of a row that was there.\<close>

definition timing_kept :: "sched_store \<Rightarrow> sched_store \<Rightarrow> bool" where
  "timing_kept st st' \<longleftrightarrow>
     (\<forall>s' \<in> set (schedules st'). \<exists>s \<in> set (schedules st). timing_cols s' = timing_cols s)"

lemma timing_kept_timed: "timing_kept st st' \<Longrightarrow> timed env st \<Longrightarrow> timed env st'"
  unfolding timing_kept_def timed_def using timing_ok_cols by metis

lemma timing_kept_same: "schedules st' = schedules st \<Longrightarrow> timing_kept st st'"
  by (auto simp: timing_kept_def)

lemma timing_kept_update_where:
  "schedules st' = update_where P f (schedules st) \<Longrightarrow> (\<And>s. timing_cols (f s) = timing_cols s) \<Longrightarrow> timing_kept st st'"
  by (auto simp: timing_kept_def set_update_where)

lemma write_schedule_timed:
  "timed env st \<Longrightarrow> timing_ok env row \<Longrightarrow> timed env (write_schedule row st)"
  by (auto simp: timed_def write_schedule_def set_update_where)

lemma find_timed: "find_schedule app sid st = Some s \<Longrightarrow> timed env st \<Longrightarrow> timing_ok env s"
  using find_schedule_Some by (auto simp: timed_def)

lemma schedules_prune [simp]: "schedules (prune_runs sid now keep st) = schedules st"
  by (simp add: prune_runs_def Let_def)

lemma apply_changes_timing:
  assumes "apply_changes ch cur = Inr row"
  shows "timing_cols row = timing_cols cur \<or>
    (\<exists>t. c_timing ch = Some t \<and> timing_cols row = (t_type t, t_expression t, t_interval_minutes t, t_timezone t))"
proof -
  have keep: "timing_cols (s\<lparr>s_name := x1\<rparr>) = timing_cols s" "timing_cols (s\<lparr>s_command := x1\<rparr>) = timing_cols s"
    "timing_cols (s\<lparr>s_cwd := x1\<rparr>) = timing_cols s" "timing_cols (s\<lparr>s_timeout := x4\<rparr>) = timing_cols s"
    "timing_cols (s\<lparr>s_overlap := x1\<rparr>) = timing_cols s" "timing_cols (s\<lparr>s_misfire := x1\<rparr>) = timing_cols s"
    "timing_cols (s\<lparr>s_plan := x7\<rparr>) = timing_cols s" "timing_cols (s\<lparr>s_taskname := x1\<rparr>) = timing_cols s"
    "timing_cols (s\<lparr>s_message := x1\<rparr>) = timing_cols s" for s :: schedule and x1 x4 x7
    by (simp_all add: timing_cols_def)
  have "timing_cols s9 = timing_cols cur"
    if "set_opt (c_name ch) (\<lambda>v. validate_text v ''name'' 128) (\<lambda>x s. s\<lparr>s_name := x\<rparr>) cur = Inr s1"
    "set_opt (c_command ch) (\<lambda>v. validate_text v ''command'' 100000) (\<lambda>x s. s\<lparr>s_command := x\<rparr>) s1 = Inr s2"
    "set_opt (c_cwd ch) validate_cwd (\<lambda>x s. s\<lparr>s_cwd := x\<rparr>) s2 = Inr s3"
    "set_opt (c_timeout ch) validate_timeout (\<lambda>x s. s\<lparr>s_timeout := x\<rparr>) s3 = Inr s4"
    "set_opt (c_overlap ch) validate_overlap (\<lambda>x s. s\<lparr>s_overlap := x\<rparr>) s4 = Inr s5"
    "set_opt (c_misfire ch) validate_misfire (\<lambda>x s. s\<lparr>s_misfire := x\<rparr>) s5 = Inr s6"
    "set_opt (c_plan ch) validate_plan (\<lambda>x s. s\<lparr>s_plan := x\<rparr>) s6 = Inr s7"
    "set_opt (c_taskname ch) (\<lambda>v. validate_text v ''taskname'' 32) (\<lambda>x s. s\<lparr>s_taskname := x\<rparr>) s7 = Inr s8"
    "set_opt (c_message ch) (\<lambda>v. validate_text v ''message'' 200) (\<lambda>x s. s\<lparr>s_message := x\<rparr>) s8 = Inr s9"
    for s1 s2 s3 s4 s5 s6 s7 s8 s9
    using that [THEN set_opt_keeps, of timing_cols] by (simp add: keep)
  moreover have "timing_cols row = timing_cols s9 \<or>
    (\<exists>t. c_timing ch = Some t \<and> timing_cols row = (t_type t, t_expression t, t_interval_minutes t, t_timezone t))"
    if "set_opt (c_timing ch) Inr set_timing s9 = Inr row" for s9
    using that by (auto simp: set_opt_def set_timing_def timing_cols_def split: option.splits)
  moreover have "\<exists>s9. timing_cols s9 = timing_cols cur \<and> set_opt (c_timing ch) Inr set_timing s9 = Inr row"
    using assms calculation(1) unfolding apply_changes_def andThen_eq_Inr by metis
  ultimately show ?thesis by metis
qed


lemma store_create_timed:
  assumes "validate_timing env v now0 = Inr (n_timing n)" "timed env st"
  shows "timed env (snd (store_create app n now sid st))"
proof -
  have "timing_ok env row" if "new_row app n now sid = Inr row" for row
    using that validate_timing_valid [OF assms(1)] by (auto simp: new_row_def timing_ok_def)
  with assms(2) show ?thesis by (auto simp: store_create_def attempt_def timed_def split: sum.splits)
qed

lemma store_update_timed:
  assumes "\<And>t. c_timing ch = Some t \<Longrightarrow> \<exists>v now0. validate_timing env v now0 = Inr t" "timed env st"
  shows "timed env (snd (store_update app sid expected ch now st))"
proof -
  have "timing_ok env (row\<lparr>s_updated := now, s_revision := k\<rparr>)"
    if f: "find_schedule app sid st = Some cur" and a: "apply_changes ch cur = Inr row" for cur row k
  proof -
    have "timing_ok env row"
      using apply_changes_timing [OF a]
    proof
      assume "timing_cols row = timing_cols cur"
      then show ?thesis using timing_ok_cols find_timed [OF f assms(2)] by blast
    next
      assume "\<exists>t. c_timing ch = Some t \<and> timing_cols row = (t_type t, t_expression t, t_interval_minutes t, t_timezone t)"
      then obtain t where t: "c_timing ch = Some t"
        "timing_cols row = (t_type t, t_expression t, t_interval_minutes t, t_timezone t)" by blast
      with assms(1) obtain v now0 where "validate_timing env v now0 = Inr t" by blast
      from validate_timing_valid [OF this] t(2) show ?thesis by (simp add: timing_cols_def timing_ok_def)
    qed
    then show ?thesis by (simp add: timing_ok_def)
  qed
  with assms(2) write_schedule_timed show ?thesis
    by (auto simp: store_update_def attempt_def Let_def split: option.splits sum.splits)
qed

lemma status_row_timed:
  assumes "find_schedule app sid st = Some cur" "timed env st" "timing_cols row = timing_cols cur"
  shows "timed env (write_schedule row st)"
  using write_schedule_timed [OF assms(2)] find_timed [OF assms(1,2)] timing_ok_cols [OF assms(3)] by blast

lemma store_pause_timed: "timed env st \<Longrightarrow> timed env (snd (store_pause app sid now st))"
  by (auto simp: store_pause_def set_status_def Let_def timing_cols_def
      intro!: status_row_timed split: option.splits)

lemma store_resume_timed: "timed env st \<Longrightarrow> timed env (snd (store_resume env' app sid now now' st))"
  by (auto simp: store_resume_def attempt_def Let_def timing_cols_def
      intro!: status_row_timed split: option.splits sum.splits)

lemma store_end_timed: "timed env st \<Longrightarrow> timed env (snd (store_end app sid status now st))"
  by (auto simp: store_end_def Let_def timing_cols_def intro!: status_row_timed split: option.splits)

lemma pause_app_kept: "timing_kept st (snd (pause_app app now st))"
  unfolding pause_app_def snd_conv by (rule timing_kept_update_where, simp) (simp add: timing_cols_def)

lemma bind_task_kept: "timing_kept st (snd (bind_task rid task now st))"
proof (cases "select r_id rid (runs st)")
  case (Some r)
  show ?thesis
  proof (cases "r_status r = Claimed")
    case True
    with Some show ?thesis unfolding bind_task_def Let_def
      by (simp, intro timing_kept_update_where, simp) (simp add: timing_cols_def)
  qed (simp add: bind_task_def Some timing_kept_same)
qed (simp add: bind_task_def timing_kept_same)

lemma finish_run_kept: "timing_kept st (snd (finish_run rid final code err now now' st))"
proof (cases "final = Claimed \<or> final = Running \<or> select r_id rid (runs st) = None")
  case False
  then obtain r where "select r_id rid (runs st) = Some r" by auto
  with False have "schedules (snd (finish_run rid final code err now now' st)) =
      update_where (\<lambda>s. s_id s = r_schedule r \<and> s_running s = Some (marker r))
        (\<lambda>s. s\<lparr>s_running := None, s_updated := now\<rparr>) (schedules st)"
    by (simp add: finish_run_def Let_def split: option.splits)
  then show ?thesis by (rule timing_kept_update_where) (simp add: timing_cols_def)
qed (auto simp: finish_run_def timing_kept_same)

lemma abandon_running_kept: "timing_kept st (snd (abandon_running now st))"
  unfolding abandon_running_def snd_conv by (rule timing_kept_update_where, simp) (simp add: timing_cols_def)

lemma delete_app_kept: "timing_kept st (snd (delete_app app st))"
  by (auto simp: timing_kept_def delete_app_def set_delete_where)

lemma commit_claim_kept:
  assumes "s \<in> set (schedules st)"
  shows "timing_kept st (snd (commit_claim s nxt due now grace force rid st))"
proof (cases "rid \<in> r_id ` set (runs st)")
  case True
  then show ?thesis by (simp add: commit_claim_def timing_kept_same)
next
  case False
  obtain r execute where "claim_run s due now grace force rid = (r, execute)" by fastforce
  with False have "schedules (snd (commit_claim s nxt due now grace force rid st)) =
      schedules (write_schedule (claim_row s nxt now force rid execute) st)"
    by (simp add: commit_claim_def claim_tables_def write_schedule_def Let_def split: option.splits)
  moreover have "timing_cols (claim_row s nxt now force rid execute) = timing_cols s"
    by (simp add: claim_row_def timing_cols_def)
  ultimately show ?thesis
    using assms unfolding timing_kept_def write_schedule_def by (auto simp: set_update_where)
qed

lemma claim_due_kept: "timing_kept st (snd (claim_due env sid now grace force app rid st))"
proof -
  have "s \<in> set (schedules st)"
    if "(case app of None \<Rightarrow> select s_id sid (schedules st) | Some a \<Rightarrow> find_schedule a sid st) = Some s" for s
    using that by (auto dest: select_Some find_schedule_Some split: option.splits)
  then show ?thesis
    unfolding claim_due_def
    by (auto simp: attempt_def timing_kept_same intro: commit_claim_kept split: option.splits sum.splits)
qed

lemma store_step_timed: "timed env st \<Longrightarrow> store_step env st st' \<Longrightarrow> timed env st'"
  by (erule store_stepE)
    (simp_all add: store_create_timed store_update_timed store_pause_timed store_resume_timed store_end_timed
      timing_kept_timed [OF pause_app_kept] timing_kept_timed [OF claim_due_kept]
      timing_kept_timed [OF bind_task_kept] timing_kept_timed [OF finish_run_kept]
      timing_kept_timed [OF abandon_running_kept] timing_kept_timed [OF delete_app_kept])

interpretation sched_timed: state_machine "\<lambda>st. st = empty_store" "store_step env"
    "\<lambda>st. store_inv st \<and> timed env st" for env
proof unfold_locales
  show "store_inv s \<and> timed env s" if "s = empty_store" for s
    unfolding that using empty_store_inv by (simp add: timed_def empty_store_def)
qed (auto intro: store_step_inv store_step_timed)


section \<open>Claims\<close>

lemma next_after_claim_later:
  assumes "timing_ok env s" "next_after_claim env s now = Inr (Some t)"
  shows "now < t"
proof (cases "s_type s")
  case Cron
  with assms(2) obtain c z where "next_after c now z = Inr t"
    by (auto simp: next_after_claim_def split: option.splits)
  then show ?thesis using scan_days_Inr unfolding next_after_def by blast
next
  case Interval
  with assms show ?thesis
    by (auto simp: next_after_claim_def timing_ok_def timing_valid_def add_delta_def minutes_us_def
        MIN_SCHEDULE_INTERVAL_MINUTES_def split: if_splits)
qed (use assms in \<open>simp add: next_after_claim_def\<close>)

lemma scan_days_error:
  "scan_days c z a n k = Inl e \<Longrightarrow>
   e = OverflowError \<or> e = ScheduleError ''cron expression has no occurrence within eight years''"
  by (induction c z a n k rule: scan_days.induct) (auto split: if_splits option.splits)

lemma next_after_claim_error:
  assumes "timing_ok env s" "next_after_claim env s now = Inl e"
  shows "e = OverflowError \<or> e = ScheduleError ''cron expression has no occurrence within eight years''"
proof (cases "s_type s")
  case Cron
  with assms(1) obtain z x c where "parse_timezone env (PStr (s_timezone s)) = Inr z"
    "s_expression s = Some x" "cron_parse (PStr x) = Inr c"
    by (auto simp: timing_ok_def timing_valid_def)
  with Cron assms(2) have "next_after c now z = Inl e"
    by (cases "next_after c now z") (auto simp: next_after_claim_def)
  then show ?thesis unfolding next_after_def by (rule scan_days_error)
next
  case Interval
  with assms show ?thesis
    by (auto simp: next_after_claim_def timing_ok_def timing_valid_def add_delta_def split: if_splits)
qed (use assms in \<open>simp add: next_after_claim_def\<close>)

lemma select_write_schedule:
  assumes "select s_id sid (schedules st) = Some s" "s_id row = sid"
  shows "select s_id sid (schedules (write_schedule row st)) = Some row"
  using assms select_update_where [of "\<lambda>s. s_id s = s_id row" s_id "\<lambda>_. row"]
  by (auto simp: write_schedule_def dest: select_Some)

text \<open>A due claim that changes the tables did all of its steps.\<close>

lemma commit_claim_changed:
  assumes "commit_claim s nxt due now grace force rid st = (res, st')" "st' \<noteq> st"
  obtains r execute where "rid \<notin> r_id ` set (runs st)" "claim_run s due now grace force rid = (r, execute)"
    "st' = claim_tables s (claim_row s nxt now force rid execute) r now st"
    "res = Inl AssertionError \<or> (\<exists>r'. res = Inr (Some (claim_row s nxt now force rid execute, r', execute)))"
  using assms by (auto simp: commit_claim_def Let_def split: if_splits prod.splits option.splits)

lemma claim_due_changed:
  assumes "claim_due env sid now grace False None rid st = (res, st')" "st' \<noteq> st"
  obtains s due nxt where "select s_id sid (schedules st) = Some s" "s_status s = Active"
    "s_next_run_at s = Some due" "due \<le> now" "next_after_claim env s now = Inr nxt"
    "commit_claim s nxt due now grace False rid st = (res, st')"
  using assms
  by (auto simp: claim_due_def attempt_def not_less split: option.splits if_splits sum.splits)

lemma claim_due_advances:
  assumes "timed env st" "claim_due env sid now grace False None rid st = (res, st')" "st' \<noteq> st"
  shows "\<exists>s'. select s_id sid (schedules st') = Some s' \<and>
    (s_status s' = Active \<longrightarrow> (\<exists>t. s_next_run_at s' = Some t \<and> now < t))"
proof -
  obtain s due nxt where sel: "select s_id sid (schedules st) = Some s" and s: "s_status s = Active"
    and nxt: "next_after_claim env s now = Inr nxt" and cc: "commit_claim s nxt due now grace False rid st = (res, st')"
    using claim_due_changed [OF assms(2,3)] by metis
  obtain r execute where st': "st' = claim_tables s (claim_row s nxt now False rid execute) r now st"
    using commit_claim_changed [OF cc assms(3)] by metis
  let ?row = "claim_row s nxt now False rid execute"
  have id: "s_id s = sid" "s \<in> set (schedules st)" using select_Some [OF sel] by auto
  have tok: "timing_ok env s" using assms(1) id by (simp add: timed_def)
  have "select s_id sid (schedules st') = Some ?row"
    unfolding st' claim_tables_def
    by (rule select_write_schedule [of _ _ s]) (use sel id in \<open>simp_all add: claim_row_def\<close>)
  moreover have "\<exists>t. nxt = Some t \<and> now < t" if "s_type s \<noteq> Once"
    using next_after_claim_some [OF nxt] that next_after_claim_later [OF tok] nxt by (cases nxt) auto
  ultimately show ?thesis by (auto simp: claim_row_def)
qed


section \<open>The length of the history\<close>

definition run_count :: "string \<Rightarrow> sched_store \<Rightarrow> nat" where
  "run_count sid st = length (filter (\<lambda>r. r_schedule r = sid) (runs st))"

lemma length_filter_sort: "length (filter Q (sort_key f xs)) = length (filter Q xs)"
  by (simp add: filter_sort)


lemma length_filter_not_dropped:
  "length (filter (\<lambda>r. \<not> key r \<in> key ` set (drop k (sort_key f xs))) xs) \<le> k"
proof -
  let ?ys = "sort_key f xs"
  let ?Q = "\<lambda>r. \<not> key r \<in> key ` set (drop k ?ys)"
  have "filter ?Q (drop k ?ys) = []" by (auto simp: filter_empty_conv)
  then have "filter ?Q ?ys = filter ?Q (take k ?ys)"
    by (metis append_take_drop_id filter_append append_Nil2)
  then have "length (filter ?Q ?ys) \<le> length (take k ?ys)" by (metis length_filter_le)
  then show ?thesis by (simp add: length_filter_sort)
qed

lemma prune_runs_prunable:
  "length (filter (prunable sid keep) (runs (prune_runs sid now keep st))) \<le>
   MAX_SCHEDULE_RUNS_PER_SCHEDULE - (if keep = None then 0 else 1)"
proof -
  let ?kept = "delete_where (\<lambda>r. prunable sid keep r \<and> r_scheduled_at r < now - days_us SCHEDULE_RUN_RETENTION_DAYS)
    (runs st)"
  let ?xs = "filter (prunable sid keep) ?kept"
  let ?k = "MAX_SCHEDULE_RUNS_PER_SCHEDULE - (if keep = None then 0 else 1)"
  let ?Q = "\<lambda>r. \<not> r_id r \<in> r_id ` set (drop ?k (sort_key (\<lambda>r. - r_scheduled_at r) ?xs))"
  have "runs (prune_runs sid now keep st) = filter ?Q ?kept"
    unfolding prune_runs_def Let_def delete_where_def [of "\<lambda>r. r_id r \<in> _"] by simp
  then have "filter (prunable sid keep) (runs (prune_runs sid now keep st)) = filter ?Q ?xs"
    by (simp only: filter_filter conj_commute)
  then show ?thesis using length_filter_not_dropped [of r_id ?k "\<lambda>r. - r_scheduled_at r" ?xs] by metis
qed

lemma run_count_prune_le: "run_count sid' (prune_runs sid now keep st) \<le> run_count sid' st"
proof -
  have "run_count sid' (prune_runs sid now keep st) \<le>
      length (filter (\<lambda>r. r_schedule r = sid')
        (delete_where (\<lambda>r. prunable sid keep r \<and> r_scheduled_at r < now - days_us SCHEDULE_RUN_RETENTION_DAYS) (runs st)))"
    unfolding run_count_def prune_runs_def Let_def by (simp add: length_filter_delete_where)
  also have "\<dots> \<le> run_count sid' st" unfolding run_count_def by (rule length_filter_delete_where)
  finally show ?thesis .
qed

lemma length_filter_split:
  assumes "\<And>x. x \<in> set xs \<Longrightarrow> P x \<Longrightarrow> A x \<or> B x \<or> C x"
  shows "length (filter P xs) \<le> length (filter A xs) + length (filter B xs) + length (filter C xs)"
  using assms by (induction xs) auto

text \<open>After pruning a schedule has at most fifty finished runs and the one in flight.\<close>

lemma run_count_prune:
  assumes inv: "store_inv (prune_runs sid now keep st)"
  shows "run_count sid (prune_runs sid now keep st) \<le> Suc MAX_SCHEDULE_RUNS_PER_SCHEDULE"
proof -
  let ?rs = "runs (prune_runs sid now keep st)"
  let ?B = "\<lambda>r. r_schedule r = sid \<and> in_flight r" and ?C = "\<lambda>r. keep = Some (r_id r)"
  have d: "distinct (map r_id ?rs)" using inv by (simp add: store_inv_parts)
  then have dr: "distinct ?rs" by (simp add: distinct_map)
  have "length (filter ?B ?rs) \<le> 1"
    using in_flight_unique [OF inv] by (intro distinct_filter_le_1 [OF dr]) auto
  moreover have "length (filter ?C ?rs) \<le> (if keep = None then 0 else 1)"
  proof (cases keep)
    case (Some k)
    have "length (filter ?C ?rs) \<le> 1"
      using d by (intro distinct_filter_le_1 [OF dr]) (auto simp: distinct_map inj_on_def Some)
    with Some show ?thesis by simp
  qed simp
  moreover have "run_count sid (prune_runs sid now keep st) \<le>
      length (filter (prunable sid keep) ?rs) + length (filter ?B ?rs) + length (filter ?C ?rs)"
    unfolding run_count_def by (rule length_filter_split) (auto simp: prunable_def split: option.splits)
  ultimately show ?thesis
    using prune_runs_prunable [of sid keep now st]
    by (auto simp: MAX_SCHEDULE_RUNS_PER_SCHEDULE_def split: if_splits)
qed

definition history_ok :: "sched_store \<Rightarrow> bool" where
  "history_ok st \<longleftrightarrow> (\<forall>sid. run_count sid st \<le> Suc MAX_SCHEDULE_RUNS_PER_SCHEDULE)"

lemma history_ok_le: "history_ok st \<Longrightarrow> (\<And>sid. run_count sid st' \<le> run_count sid st) \<Longrightarrow> history_ok st'"
  unfolding history_ok_def using order_trans by blast

lemma history_ok_same: "history_ok st \<Longrightarrow> runs st' = runs st \<Longrightarrow> history_ok st'"
  by (simp add: history_ok_def run_count_def)


lemma run_count_write [simp]: "run_count sid (write_schedule row st) = run_count sid st"
  by (simp add: run_count_def write_schedule_def)

lemma commit_claim_history:
  assumes "history_ok st" "store_inv st" "s \<in> set (schedules st)"
    "if force then nxt = s_next_run_at s else s_status s = Active \<and> (nxt = None) = (s_type s = Once)"
  shows "history_ok (snd (commit_claim s nxt due now grace force rid st))"
proof -
  obtain res st' where cc: "commit_claim s nxt due now grace force rid st = (res, st')" by fastforce
  show ?thesis
  proof (cases "st' = st")
    case False
    obtain r execute where cr: "claim_run s due now grace force rid = (r, execute)"
      and st': "st' = claim_tables s (claim_row s nxt now force rid execute) r now st"
      using commit_claim_changed [OF cc False] by metis
    have inv': "store_inv st'" using commit_claim_inv [OF assms(2-4), of due now grace rid] cc by simp
    have "run_count sid st' \<le> Suc MAX_SCHEDULE_RUNS_PER_SCHEDULE" for sid
    proof (cases "sid = s_id s")
      case True
      let ?x = "write_schedule (claim_row s nxt now force rid execute) (st\<lparr>runs := runs st @ [r]\<rparr>)"
      have "st' = prune_runs sid now None ?x" unfolding st' claim_tables_def True prune_runs_write ..
      with inv' run_count_prune show ?thesis by metis
    next
      case False
      have "run_count sid st' \<le> run_count sid (st\<lparr>runs := runs st @ [r]\<rparr>)"
        unfolding st' claim_tables_def by (simp add: run_count_prune_le)
      also have "\<dots> = run_count sid st"
        using False claim_run_props(2) [OF cr] by (simp add: run_count_def)
      finally show ?thesis using assms(1) order_trans unfolding history_ok_def by blast
    qed
    then show ?thesis by (simp add: history_ok_def cc)
  qed (use assms(1) cc in simp)
qed

lemma claim_due_history:
  assumes "history_ok st" "store_inv st"
  shows "history_ok (snd (claim_due env sid now grace force app rid st))"
proof (cases "case app of None \<Rightarrow> select s_id sid (schedules st) | Some a \<Rightarrow> find_schedule a sid st")
  case None
  with assms show ?thesis by (simp add: claim_due_def)
next
  case (Some s)
  then have s: "s \<in> set (schedules st)"
    by (auto dest: select_Some find_schedule_Some split: option.splits)
  have "history_ok (snd (commit_claim s (s_next_run_at s) now now grace True rid st))"
    by (rule commit_claim_history [OF assms s]) simp
  moreover have "history_ok (snd (commit_claim s t due now grace False rid st))"
    if "next_after_claim env s now = Inr t" "s_status s = Active" for t due
    by (rule commit_claim_history [OF assms s]) (use that next_after_claim_some in auto)
  ultimately show ?thesis
    using Some assms(1) by (auto simp: claim_due_def attempt_def split: option.splits sum.splits)
qed

lemma history_ok_runs_filter:
  "history_ok st \<Longrightarrow> runs st' = delete_where P (runs st) \<Longrightarrow> history_ok st'"
  by (erule history_ok_le) (simp add: run_count_def length_filter_delete_where)

lemma history_ok_runs_update:
  assumes "history_ok st" "runs st' = update_where P f (runs st)" "\<And>r. P r \<Longrightarrow> r_schedule (f r) = r_schedule r"
  shows "history_ok st'"
  using assms(1)
proof (rule history_ok_le)
  fix sid
  show "run_count sid st' \<le> run_count sid st"
    unfolding run_count_def assms(2) by (rule length_filter_update_where_le) (use assms(3) in auto)
qed


lemma finish_run_history:
  assumes "history_ok st" "store_inv st"
  shows "history_ok (snd (finish_run rid final code err now now' st))"
proof (cases "final = Claimed \<or> final = Running \<or> select r_id rid (runs st) = None")
  case True
  with assms(1) show ?thesis by (auto simp: finish_run_def)
next
  case False
  then obtain r where sel: "select r_id rid (runs st) = Some r" by auto
  let ?g = "\<lambda>r. r\<lparr>r_status := final, r_finished_at := Some now, r_exit := code, r_error := err\<rparr>"
  let ?x = "st\<lparr>runs := update_where (\<lambda>x. r_id x = rid) ?g (runs st),
    schedules := update_where (\<lambda>s. s_id s = r_schedule r \<and> s_running s = Some (marker r))
      (\<lambda>s. s\<lparr>s_running := None, s_updated := now\<rparr>) (schedules st)\<rparr>"
  have d: "distinct (map r_id (runs st))" using assms(2) by (simp add: store_inv_parts)
  have st': "snd (finish_run rid final code err now now' st) = prune_runs (r_schedule r) now' (Some rid) ?x"
    using False sel by (simp add: finish_run_def Let_def update_where_selected [OF d sel, of ?g] split: option.splits)
  have "history_ok ?x" by (rule history_ok_runs_update [OF assms(1), of _ "\<lambda>x. r_id x = rid" ?g]) simp_all
  then show ?thesis unfolding st' by (rule history_ok_le) (rule run_count_prune_le)
qed

lemma store_step_history: "store_inv st \<Longrightarrow> history_ok st \<Longrightarrow> store_step env st st' \<Longrightarrow> history_ok st'"
proof (erule store_stepE)
  assume inv: "store_inv st" and h: "history_ok st"
  { fix v now0 n app now sid assume "st' = snd (store_create app n now sid st)"
    then show ?thesis using h
      by (auto simp: store_create_def attempt_def intro: history_ok_same split: sum.splits) }
  { fix ch app sid expected now assume "st' = snd (store_update app sid expected ch now st)"
    then show ?thesis using h
      by (auto simp: store_update_def attempt_def Let_def write_schedule_def intro: history_ok_same
          split: option.splits sum.splits) }
  { fix app sid now assume "st' = snd (store_pause app sid now st)"
    then show ?thesis using h
      by (auto simp: store_pause_def set_status_def Let_def write_schedule_def intro: history_ok_same
          split: option.splits) }
  { fix app sid now now' assume "st' = snd (store_resume env app sid now now' st)"
    then show ?thesis using h
      by (auto simp: store_resume_def attempt_def Let_def write_schedule_def intro: history_ok_same
          split: option.splits sum.splits) }
  { fix app sid status now assume "st' = snd (store_end app sid status now st)"
    then show ?thesis using h
      by (auto simp: store_end_def Let_def write_schedule_def intro: history_ok_same split: option.splits) }
  { fix app now assume "st' = snd (pause_app app now st)"
    then show ?thesis using h by (auto simp: pause_app_def intro: history_ok_same) }
  { fix sid now grace force app_opt rid assume "st' = snd (claim_due env sid now grace force app_opt rid st)"
    then show ?thesis using claim_due_history [OF h inv] by simp }
  { fix task rid now assume st': "st' = snd (bind_task rid task now st)"
    have d: "distinct (map r_id (runs st))" using inv by (simp add: store_inv_parts)
    have "runs st' = runs st \<or> (\<exists>r. select r_id rid (runs st) = Some r \<and>
        runs st' = update_where (\<lambda>x. r_id x = rid)
          (\<lambda>_. r\<lparr>r_status := Running, r_task := Some task, r_started_at := Some now\<rparr>) (runs st))"
      unfolding st' by (auto simp: bind_task_def Let_def split: option.splits)
    then show ?thesis
    proof (elim disjE exE conjE)
      fix r assume sel: "select r_id rid (runs st) = Some r"
        and "runs st' = update_where (\<lambda>x. r_id x = rid)
          (\<lambda>_. r\<lparr>r_status := Running, r_task := Some task, r_started_at := Some now\<rparr>) (runs st)"
      note this(2) [unfolded update_where_selected [OF d sel, of
        "\<lambda>r. r\<lparr>r_status := Running, r_task := Some task, r_started_at := Some now\<rparr>"]]
      with h show ?thesis by (rule history_ok_runs_update) simp
    qed (use h history_ok_same in blast) }
  { fix rid final code err now now' assume "st' = snd (finish_run rid final code err now now' st)"
    then show ?thesis using finish_run_history [OF h inv] by simp }
  { fix now assume "st' = snd (abandon_running now st)"
    then show ?thesis using h by (auto simp: abandon_running_def intro!: history_ok_runs_update [of st]) }
  { fix app assume "st' = snd (delete_app app st)"
    then show ?thesis using h by (auto simp: delete_app_def intro!: history_ok_runs_filter [of st]) }
qed

interpretation sched_history: state_machine "\<lambda>st. st = empty_store" "store_step env"
    "\<lambda>st. store_inv st \<and> history_ok st" for env
proof unfold_locales
  show "store_inv s \<and> history_ok s" if "s = empty_store" for s
    unfolding that using empty_store_inv by (simp add: history_ok_def run_count_def empty_store_def)
qed (auto intro: store_step_inv store_step_history)

section \<open>Outcomes of single operations\<close>

lemma prune_keeps:
  assumes "distinct (map r_id (runs st))" "r \<in> set (runs st)" "\<not> prunable sid keep r"
  shows "select r_id (r_id r) (runs (prune_runs sid now keep st)) = Some r"
proof -
  obtain P where "prune_runs sid now keep st = st\<lparr>runs := filter P (runs st)\<rparr>" "P r"
    using prune_runs_filter [OF assms(1)] assms(2,3) by metis
  then show ?thesis using assms(1,2) by (simp add: select_in distinct_map_filter)
qed

lemma finish_run_result:
  assumes inv: "store_inv st" and sel: "select r_id rid (runs st) = Some r"
    and "final \<noteq> Claimed" "final \<noteq> Running"
  shows "\<exists>st'. finish_run rid final code err now now' st =
      (Inr (r\<lparr>r_status := final, r_finished_at := Some now, r_exit := code, r_error := err\<rparr>), st') \<and>
    select r_id rid (runs st') =
      Some (r\<lparr>r_status := final, r_finished_at := Some now, r_exit := code, r_error := err\<rparr>) \<and>
    (in_flight r \<longrightarrow> (\<forall>s \<in> set (schedules st'). s_id s = r_schedule r \<longrightarrow> s_running s = None))"
proof -
  note r = select_Some [OF sel]
  let ?r' = "r\<lparr>r_status := final, r_finished_at := Some now, r_exit := code, r_error := err\<rparr>"
  let ?x = "st\<lparr>runs := update_where (\<lambda>x. r_id x = rid) (\<lambda>_. ?r') (runs st),
    schedules := update_where (\<lambda>s. s_id s = r_schedule r \<and> s_running s = Some (marker r))
      (\<lambda>s. s\<lparr>s_running := None, s_updated := now\<rparr>) (schedules st)\<rparr>"
  let ?st' = "prune_runs (r_schedule r) now' (Some rid) ?x"
  have d: "distinct (map r_id (runs st))" using inv by (simp add: store_inv_parts)
  have "map r_id (runs ?x) = map r_id (runs st)" using r by (simp add: map_update_where)
  with d have "distinct (map r_id (runs ?x))" by metis
  moreover have "?r' \<in> set (runs ?x)" using r by (auto simp: set_update_where intro!: image_eqI [of _ _ r])
  ultimately have s': "select r_id rid (runs ?st') = Some ?r'"
    using prune_keeps [of ?x ?r' "r_schedule r" "Some rid" now'] r by (simp add: prunable_def)
  have "s_running s = None" if "in_flight r" "s \<in> set (schedules ?st')" "s_id s = r_schedule r" for s
    using that running_marker [OF inv _ that(1)] r by (auto simp: set_update_where split: if_splits)
  with s' sel assms(3,4) show ?thesis by (simp add: finish_run_def Let_def)
qed

lemma abandon_running_rows:
  "\<exists>st'. abandon_running now st = (Inr (length (filter in_flight (runs st))), st') \<and>
    (\<forall>r \<in> set (runs st'). \<not> in_flight r) \<and> (\<forall>s \<in> set (schedules st'). s_running s = None) \<and>
    map r_id (runs st') = map r_id (runs st) \<and>
    filter (\<lambda>r. r_status r \<noteq> Abandoned) (runs st') = filter (\<lambda>r. \<not> in_flight r \<and> r_status r \<noteq> Abandoned) (runs st) \<and>
    map (\<lambda>s. s\<lparr>s_running := None\<rparr>) (schedules st') = map (\<lambda>s. s\<lparr>s_running := None\<rparr>) (schedules st)"
proof -
  define h where "h r = r\<lparr>r_status := Abandoned, r_finished_at := Some now,
    r_error := Some ''server restarted before the task completed''\<rparr>" for r :: run
  have h: "\<not> in_flight (h r)" "r_status (h r) = Abandoned" "r_id (h r) = r_id r" for r
    by (simp_all add: h_def in_flight_def)
  have "filter (\<lambda>r. r_status r \<noteq> Abandoned) (update_where in_flight h rs) =
      filter (\<lambda>r. \<not> in_flight r \<and> r_status r \<noteq> Abandoned) rs" for rs
    unfolding update_where_def by (induction rs) (auto simp: h)
  moreover have "\<forall>r \<in> set (update_where in_flight h (runs st)). \<not> in_flight r"
    by (auto simp: set_update_where h)
  moreover have "map r_id (update_where in_flight h (runs st)) = map r_id (runs st)"
    by (simp add: map_update_where h)
  moreover have "map (\<lambda>s. s\<lparr>s_running := None\<rparr>)
      (update_where (\<lambda>s. s_running s \<noteq> None) (\<lambda>s. s\<lparr>s_running := None\<rparr>) (schedules st)) =
      map (\<lambda>s. s\<lparr>s_running := None\<rparr>) (schedules st)"
    by (simp add: update_where_def)
  moreover have "\<forall>s \<in> set (update_where (\<lambda>s. s_running s \<noteq> None) (\<lambda>s. s\<lparr>s_running := None\<rparr>) (schedules st)).
      s_running s = None"
    unfolding set_update_where by (auto split: if_splits)
  ultimately show ?thesis
    unfolding abandon_running_def h_def [symmetric] by (intro exI conjI) (rule refl, simp_all)
qed

lemma commit_claim_stale:
  assumes "s_running s = None" "s_misfire s = ''skip''" "days_us 30 < now - due" "seconds_us grace < now - due"
    and "s_id s = sid" "select s_id sid (schedules st) = Some s" "rid \<notin> r_id ` set (runs st)"
  shows "\<exists>st'. commit_claim s nxt due now grace False rid st = (Inl AssertionError, st') \<and>
    select s_id sid (schedules st') = Some (claim_row s nxt now False rid False) \<and>
    rid \<notin> r_id ` set (runs st')"
proof -
  obtain r where cr: "claim_run s due now grace False rid = (r, False)"
    using assms(1,2,4) by (simp add: claim_run_def Let_def)
  have r: "r_id r = rid" "r_schedule r = sid" "r_status r = Missed" "r_scheduled_at r = due"
    using cr assms(1,2,4,5) by (auto simp: claim_run_def Let_def)
  let ?row = "claim_row s nxt now False rid False"
  let ?st' = "claim_tables s ?row r now st"
  have "prunable sid None r \<and> r_scheduled_at r < now - days_us SCHEDULE_RUN_RETENTION_DAYS"
    using r assms(3) by (simp add: prunable_def in_flight_def SCHEDULE_RUN_RETENTION_DAYS_def)
  then have "rid \<notin> r_id ` set (runs ?st')"
    using assms(5,7) r unfolding claim_tables_def prune_runs_def Let_def
    by (auto simp: write_schedule_def delete_where_def)
  moreover from this have "select r_id rid (runs ?st') = None" by (simp add: select_None)
  moreover have "select s_id sid (schedules ?st') = Some ?row"
    unfolding claim_tables_def
    by (rule select_write_schedule [of _ _ s]) (use assms(5,6) in \<open>simp_all add: claim_row_def\<close>)
  ultimately show ?thesis using assms(7) cr by (simp add: commit_claim_def Let_def)
qed

lemma find_schedule_iff:
  assumes "distinct (map s_id (schedules st))"
  shows "find_schedule app sid st = Some s \<longleftrightarrow> s \<in> set (schedules st) \<and> s_id s = sid \<and> s_app s = app"
proof
  assume s: "s \<in> set (schedules st) \<and> s_id s = sid \<and> s_app s = app"
  have "find (\<lambda>x. s_app x = app \<and> s_id x = sid) rows = Some s" if "distinct (map s_id rows)" "s \<in> set rows" for rows
    using that s by (induction rows) (auto simp: image_iff)
  with assms s show "find_schedule app sid st = Some s" by (simp add: find_schedule_def)
qed (rule find_schedule_Some)

lemma find_schedule_write:
  assumes "distinct (map s_id (schedules st))" "find_schedule app sid st = Some cur"
    "s_id row = s_id cur" "s_app row = s_app cur"
  shows "find_schedule app sid (write_schedule row st) = Some row"
proof -
  have "map s_id (schedules (write_schedule row st)) = map s_id (schedules st)"
    using assms(3) by (simp add: write_schedule_def map_update_where)
  with assms(1) have "distinct (map s_id (schedules (write_schedule row st)))" by metis
  moreover have "row \<in> set (schedules (write_schedule row st))"
    using find_schedule_Some [OF assms(2)] assms(3)
    by (auto simp: write_schedule_def set_update_where intro!: image_eqI [of _ _ cur])
  ultimately show ?thesis
    using find_schedule_Some [OF assms(2)] assms(3,4) by (simp add: find_schedule_iff)
qed

text \<open>What an update that succeeds has checked and written.\<close>

lemma store_update_ok:
  assumes "store_inv st" "store_update app sid expected ch now st = (Inr row, st')"
  obtains cur where "find_schedule app sid st = Some cur" "s_revision cur = expected" "s_running cur = None"
    "s_status cur \<noteq> Completed" "s_revision row = expected + 1" "s_id row = sid" "s_app row = app"
    "st' = write_schedule row st"
proof -
  from assms(2) obtain cur vals where f: "find_schedule app sid st = Some cur" "s_revision cur = expected"
    "s_running cur = None" "s_status cur \<noteq> Completed" "apply_changes ch cur = Inr vals"
    "row = vals\<lparr>s_updated := now, s_revision := expected + 1\<rparr>" "st' = write_schedule row st"
    by (auto simp: store_update_def attempt_def Let_def split: if_splits option.splits sum.splits)
  have "next_ok cur" using assms(1) find_schedule_Some [OF f(1)] by (simp add: store_inv_def)
  from apply_changes_core [OF f(5) this] have "s_id row = sid" "s_app row = app"
    using find_schedule_Some [OF f(1)] f(6) by (simp_all add: core_def)
  with f that show ?thesis by simp
qed

section \<open>Isolation of app identities\<close>

text \<open>What an identity sees of the store: its schedules and their runs.\<close>

definition app_view :: "string \<Rightarrow> sched_store \<Rightarrow> schedule list \<times> run list" where
  "app_view app st = (filter (\<lambda>s. s_app s = app) (schedules st), filter (\<lambda>r. r_app r = app) (runs st))"

lemma filter_update_where_other:
  "(\<And>r. r \<in> set rows \<Longrightarrow> P r \<Longrightarrow> \<not> Q r \<and> \<not> Q (f r)) \<Longrightarrow> filter Q (update_where P f rows) = filter Q rows"
  unfolding update_where_def by (induction rows) auto

lemma filter_delete_where_other:
  "(\<And>r. r \<in> set rows \<Longrightarrow> P r \<Longrightarrow> \<not> Q r) \<Longrightarrow> filter Q (delete_where P rows) = filter Q rows"
  unfolding delete_where_def by (induction rows) auto

lemma app_view_write:
  assumes "distinct (map s_id (schedules st))" "cur \<in> set (schedules st)" "s_id row = s_id cur" "s_app row = s_app cur"
    "s_app cur \<noteq> other"
  shows "app_view other (write_schedule row st) = app_view other st"
proof -
  have "s = cur" if "s \<in> set (schedules st)" "s_id s = s_id row" for s
    using assms(1-3) that by (metis select_in option.inject)
  then have "filter (\<lambda>s. s_app s = other) (schedules (write_schedule row st)) = filter (\<lambda>s. s_app s = other) (schedules st)"
    unfolding write_schedule_def using assms(4,5) by (simp, intro filter_update_where_other) auto
  then show ?thesis by (simp add: app_view_def write_schedule_def)
qed

lemma app_view_find_write:
  assumes "store_inv st" "find_schedule app sid st = Some cur" "s_id row = s_id cur" "s_app row = s_app cur" "app \<noteq> other"
  shows "app_view other (write_schedule row st) = app_view other st"
  by (rule app_view_write) (use assms find_schedule_Some [OF assms(2)] in \<open>auto simp: store_inv_parts\<close>)

lemma filter_prune_other:
  assumes "\<And>r. r \<in> set (runs st) \<Longrightarrow> r_schedule r = sid \<Longrightarrow> r_app r \<noteq> other" "distinct (map r_id (runs st))"
  shows "filter (\<lambda>r. r_app r = other) (runs (prune_runs sid now keep st)) = filter (\<lambda>r. r_app r = other) (runs st)"
proof -
  obtain P where p: "prune_runs sid now keep st = st\<lparr>runs := filter P (runs st)\<rparr>"
    "\<And>r. r \<in> set (runs st) \<Longrightarrow> \<not> prunable sid keep r \<Longrightarrow> P r"
    using prune_runs_filter [OF assms(2)] by metis
  then have "r_app r = other \<Longrightarrow> r \<in> set (runs st) \<Longrightarrow> P r" for r using assms(1) by (auto simp: prunable_def)
  then show ?thesis unfolding p(1) by (auto simp: filter_filter intro!: filter_cong)
qed

lemma claim_tables_view:
  assumes inv: "store_inv st" and s: "s \<in> set (schedules st)" "s_app s \<noteq> other"
    and r: "claim_run s due now grace force rid = (r, execute)" "rid \<notin> r_id ` set (runs st)"
  shows "app_view other (claim_tables s (claim_row s nxt now force rid execute) r now st) = app_view other st"
proof -
  note p = claim_run_props [OF r(1)]
  let ?x = "st\<lparr>runs := runs st @ [r]\<rparr>"
  let ?y = "prune_runs (s_id s) now None ?x"
  have d: "distinct (map s_id (schedules st))" "distinct (map r_id (runs st))" using inv by (simp_all add: store_inv_parts)
  have "r_app x \<noteq> other" if "x \<in> set (runs ?x)" "r_schedule x = s_id s" for x
  proof (cases "x = r")
    case False
    with that obtain t where "t \<in> set (schedules st)" "s_id t = s_id s" "s_app t = r_app x"
      using inv unfolding store_inv_def links_ok_def by auto
    with d(1) s show ?thesis by (metis select_in option.inject)
  qed (use p(3) s in simp)
  then have "filter (\<lambda>r. r_app r = other) (runs ?y) = filter (\<lambda>r. r_app r = other) (runs ?x)"
    by (rule filter_prune_other) (use d(2) r(2) p(1) in auto)
  then have "app_view other ?y = app_view other st" using p(3) s by (simp add: app_view_def)
  moreover have "app_view other (write_schedule (claim_row s nxt now force rid execute) ?y) = app_view other ?y"
    by (rule app_view_write [of _ s]) (use d s in \<open>simp_all add: claim_row_def\<close>)
  ultimately show ?thesis by (simp add: claim_tables_def)
qed

lemma commit_claim_view:
  assumes "store_inv st" "s \<in> set (schedules st)" "s_app s \<noteq> other"
  shows "app_view other (snd (commit_claim s nxt due now grace force rid st)) = app_view other st"
proof (cases "snd (commit_claim s nxt due now grace force rid st) = st")
  case False
  obtain res st' where cc: "commit_claim s nxt due now grace force rid st = (res, st')" by fastforce
  with False have "st' \<noteq> st" by simp
  from commit_claim_changed [OF cc this] show ?thesis
    using claim_tables_view [OF assms] cc by (metis snd_conv)
qed simp

lemma store_create_view:
  "app \<noteq> other \<Longrightarrow> app_view other (snd (store_create app n now sid st)) = app_view other st"
  by (auto simp: store_create_def attempt_def app_view_def new_row_def split: sum.splits)

lemma store_update_view:
  assumes "store_inv st" "app \<noteq> other"
  shows "app_view other (snd (store_update app sid expected ch now st)) = app_view other st"
proof (cases "fst (store_update app sid expected ch now st)")
  case (Inl e)
  then show ?thesis
    by (auto simp: store_update_def attempt_def Let_def split: if_splits option.splits sum.splits)
next
  case (Inr row)
  then have "store_update app sid expected ch now st = (Inr row, snd (store_update app sid expected ch now st))"
    by (metis prod.collapse)
  from store_update_ok [OF assms(1) this] obtain cur where cur: "find_schedule app sid st = Some cur"
    and row: "s_id row = sid" "s_app row = app" "snd (store_update app sid expected ch now st) = write_schedule row st" .
  show ?thesis unfolding row(3)
    by (rule app_view_find_write [OF assms(1) cur _ _ assms(2)]) (use row find_schedule_Some [OF cur] in simp_all)
qed

lemma status_views:
  assumes "store_inv st" "app \<noteq> other"
  shows "app_view other (snd (store_pause app sid now st)) = app_view other st"
    "app_view other (snd (store_resume env app sid now now' st)) = app_view other st"
    "app_view other (snd (store_end app sid status now st)) = app_view other st"
  by (auto simp: store_pause_def set_status_def store_resume_def store_end_def attempt_def Let_def
      app_view_find_write [OF assms(1) _ _ _ assms(2)] split: option.splits sum.splits)

lemma pause_app_view: "app \<noteq> other \<Longrightarrow> app_view other (snd (pause_app app now st)) = app_view other st"
  unfolding pause_app_def app_view_def by (simp, rule filter_update_where_other) auto

lemma claim_due_view:
  assumes "store_inv st" "app \<noteq> other"
  shows "app_view other (snd (claim_due env sid now grace force (Some app) rid st)) = app_view other st"
proof (cases "find_schedule app sid st")
  case (Some s)
  then have "s \<in> set (schedules st)" "s_app s \<noteq> other" using find_schedule_Some [OF Some] assms(2) by auto
  from commit_claim_view [OF assms(1) this] Some show ?thesis
    by (auto simp: claim_due_def attempt_def split: option.splits sum.splits)
qed (simp add: claim_due_def)

lemma delete_app_view:
  assumes "store_inv st" "app \<noteq> other"
  shows "app_view other (snd (delete_app app st)) = app_view other st"
proof -
  have d: "distinct (map s_id (schedules st))" using assms(1) by (simp add: store_inv_parts)
  have "r_app r \<noteq> other"
    if gone: "r \<in> set (runs st)" "r_schedule r \<in> s_id ` {s \<in> set (schedules st). s_app s = app}" for r
  proof -
    have "\<exists>t \<in> set (schedules st). s_id t = r_schedule r \<and> s_app t = r_app r"
      using gone(1) conjunct1 [OF conjunct2 [OF assms(1) [unfolded store_inv_def]]] by (simp add: links_ok_def)
    then obtain t where t: "t \<in> set (schedules st)" "s_id t = r_schedule r" "s_app t = r_app r" by blast
    obtain s where s: "s \<in> set (schedules st)" "s_app s = app" "s_id s = r_schedule r" using gone(2) by auto
    then have "s = t" using key_unique [OF d s(1) t(1)] t(2) by simp
    with s(2) t(3) assms(2) show ?thesis by metis
  qed
  then have "filter (\<lambda>r. r_app r = other)
      (delete_where (\<lambda>r. r_schedule r \<in> s_id ` {s \<in> set (schedules st). s_app s = app}) (runs st)) =
      filter (\<lambda>r. r_app r = other) (runs st)"
    by (intro filter_delete_where_other) auto
  moreover have "filter (\<lambda>s. s_app s = other) (delete_where (\<lambda>s. s_app s = app) (schedules st)) =
      filter (\<lambda>s. s_app s = other) (schedules st)"
    using assms(2) by (intro filter_delete_where_other) auto
  ultimately show ?thesis by (simp add: delete_app_def app_view_def)
qed

lemmas app_views = store_create_view store_update_view status_views pause_app_view claim_due_view delete_app_view

end
