(* ===== verification/Schedule_Properties.thy ===== *)
theory Schedule_Properties
  imports Schedule_Lifecycle
begin

text \<open>
  The properties of the schedule store and of the time expressions, each stated over the
  definitions of the model and followed, where it has hypotheses, by a concrete instance.
\<close>

section \<open>A concrete store\<close>

definition demo_env :: clock_env where
  "demo_env = \<lparr>zone_info = (\<lambda>_. ZoneFound utc_zone), fromisoformat = (\<lambda>_. None)\<rparr>"

definition demo_now :: instant where
  "demo_now = 63000000000000000"

definition demo_timing :: timing where
  "demo_timing = \<lparr>t_type = Interval, t_expression = None, t_interval_minutes = Some 5, t_run_at = None,
     t_timezone = ''UTC'', t_next_run_at = demo_now + 300000000\<rparr>"

definition demo_new :: new_schedule where
  "demo_new = \<lparr>n_name = PStr ''backup'', n_timing = demo_timing, n_command = PStr ''run'', n_cwd = PStr '''',
     n_timeout = None, n_overlap = PStr ''skip'', n_misfire = PStr ''skip'', n_plan = PInt 1,
     n_taskname = PStr ''backup'', n_message = PStr ''nightly''\<rparr>"

definition demo_created :: sched_store where
  "demo_created = snd (store_create ''app'' demo_new demo_now ''s1'' empty_store)"

definition demo_claimed :: sched_store where
  "demo_claimed = snd (claim_due demo_env ''s1'' (demo_now + 300000000) 60 False None ''r1'' demo_created)"

lemma demo_timing_valid:
  "validate_timing demo_env (PDict [(''type'', PStr ''interval''), (''minutes'', PInt 5)]) demo_now = Inr demo_timing"
  by code_simp

lemma demo_created_reachable: "(store_step demo_env)\<^sup>*\<^sup>* empty_store demo_created"
  unfolding demo_created_def
  by (rule r_into_rtranclp, rule store_step.create)
    (use demo_timing_valid in \<open>simp add: demo_new_def\<close>)

lemma demo_claimed_reachable: "(store_step demo_env)\<^sup>*\<^sup>* empty_store demo_claimed"
  unfolding demo_claimed_def
  by (rule rtranclp.rtrancl_into_rtrancl [OF demo_created_reachable], rule store_step.claim)

definition demo_row :: schedule where
  "demo_row = \<lparr>s_id = ''s1'', s_app = ''app'', s_name = ''backup'', s_type = Interval, s_expression = None,
     s_interval_minutes = Some 5, s_run_at = None, s_timezone = ''UTC'', s_command = ''run'', s_cwd = '''',
     s_timeout = None, s_overlap = ''skip'', s_misfire = ''skip'', s_plan = 1, s_taskname = ''backup'',
     s_message = ''nightly'', s_status = Active, s_next_run_at = Some (demo_now + 300000000), s_running = None,
     s_created = demo_now, s_updated = demo_now, s_revision = 1\<rparr>"

definition demo_run :: run where
  "demo_run = \<lparr>r_id = ''r1'', r_schedule = ''s1'', r_app = ''app'', r_scheduled_at = demo_now + 300000000,
     r_started_at = None, r_finished_at = None, r_status = Claimed, r_task = None, r_exit = None, r_error = None\<rparr>"

lemma demo_texts:
  "validate_text (PStr ''backup'') ''name'' 128 = Inr ''backup''"
  "validate_text (PStr ''run'') ''command'' 100000 = Inr ''run''"
  "validate_text (PStr ''backup'') ''taskname'' 32 = Inr ''backup''"
  "validate_text (PStr ''nightly'') ''message'' 200 = Inr ''nightly''"
  "validate_cwd (PStr '''') = Inr ''''"
  by (simp_all add: validate_text_def strip_def lstrip_def is_space_def Let_def validate_cwd_def)

lemma demo_new_row: "new_row ''app'' demo_new demo_now ''s1'' = Inr demo_row"
  unfolding new_row_def demo_new_def
  by (simp add: demo_texts validate_overlap_def validate_misfire_def validate_policy_def validate_plan_def
      demo_timing_def demo_row_def)

lemma demo_created_value: "demo_created = \<lparr>schedules = [demo_row], runs = []\<rparr>"
  by (simp add: demo_created_def store_create_def demo_new_row empty_store_def active_count_def
      MAX_ACTIVE_SCHEDULES_PER_APP_def)

lemma demo_claim:
  "claim_due demo_env ''s1'' (demo_now + 300000000) 60 False None ''r1'' demo_created =
   (Inr (Some (claim_row demo_row (Some (demo_now + 600000000)) (demo_now + 300000000) False ''r1'' True, demo_run, True)),
    \<lparr>schedules = [claim_row demo_row (Some (demo_now + 600000000)) (demo_now + 300000000) False ''r1'' True],
     runs = [demo_run]\<rparr>)"
proof -
  have "next_after_claim demo_env demo_row (demo_now + 300000000) = Inr (Some (demo_now + 600000000))"
    by (simp add: next_after_claim_def demo_row_def add_delta_def minutes_us_def valid_instant_def demo_now_def
        MAX_ORDINAL_def DAY_US_def)
  moreover have "claim_run demo_row (demo_now + 300000000) (demo_now + 300000000) 60 False ''r1'' = (demo_run, True)"
    by (simp add: claim_run_def demo_row_def demo_run_def seconds_us_def Let_def)
  moreover have "s_id demo_row = ''s1''" "s_status demo_row = Active" "s_next_run_at demo_row = Some (demo_now + 300000000)"
    "r_id demo_run = ''r1''" "in_flight demo_run"
    by (simp_all add: demo_row_def demo_run_def in_flight_def)
  ultimately show ?thesis
    unfolding claim_due_def commit_claim_def claim_tables_def demo_created_value
    by (simp add: select_def prune_runs_def delete_where_def prunable_def write_schedule_def update_where_def
        claim_row_def Let_def)
qed

lemma demo_claimed_value:
  "demo_claimed = \<lparr>schedules = [claim_row demo_row (Some (demo_now + 600000000)) (demo_now + 300000000) False ''r1'' True],
     runs = [demo_run]\<rparr>"
  unfolding demo_claimed_def demo_claim by simp

section \<open>Overlap, quota and markers\<close>

lemma reachable_parts:
  assumes "(store_step env)\<^sup>*\<^sup>* empty_store st"
  shows "store_inv st" "timed env st"
  using sched_timed.reachable_inv [OF refl assms] by simp_all

lemma demo_claimed_parts:
  "s_id (claim_row demo_row nxt now force rid execute) = ''s1''" "r_id demo_run = ''r1''"
  "r_schedule demo_run = ''s1''" "in_flight demo_run" "r_status demo_run = Claimed"
  by (simp_all add: demo_row_def demo_run_def in_flight_def claim_row_def)

text \<open>
  C1: In every state the store can reach, a schedule has at most one run in flight: two runs of
  one schedule that are both claimed or running are the same run, whatever the order of claims,
  forced runs, bindings, completions, pauses and restarts.
\<close>

theorem schedule_no_overlap:
  assumes "(store_step env)\<^sup>*\<^sup>* empty_store st"
    and "r \<in> set (runs st)" "r' \<in> set (runs st)" "in_flight r" "in_flight r'" "r_schedule r = r_schedule r'"
  shows "r = r'"
  using in_flight_unique [OF reachable_parts(1) [OF assms(1)] assms(2-6)] .

theorem schedule_no_overlap_witness:
  "demo_run \<in> set (runs demo_claimed) \<and> in_flight demo_run \<and> demo_run = hd (runs demo_claimed)"
proof -
  have "demo_run \<in> set (runs demo_claimed)" "hd (runs demo_claimed) \<in> set (runs demo_claimed)"
    "in_flight (hd (runs demo_claimed))" "in_flight demo_run" "r_schedule demo_run = r_schedule (hd (runs demo_claimed))"
    by (simp_all add: demo_claimed_value demo_claimed_parts)
  with schedule_no_overlap [OF demo_claimed_reachable] show ?thesis by blast
qed

text \<open>
  C2: In every reachable state the running marker of a schedule is set exactly while one of its
  runs is claimed or running, so a schedule can neither be left locked nor be claimed twice.
\<close>

theorem schedule_marker_iff_in_flight:
  assumes "(store_step env)\<^sup>*\<^sup>* empty_store st" "s \<in> set (schedules st)"
  shows "s_running s \<noteq> None \<longleftrightarrow> (\<exists>r \<in> set (runs st). in_flight r \<and> r_schedule r = s_id s)"
  using reachable_parts(1) [OF assms(1)] assms(2) unfolding store_inv_def lock_ok_def by blast

theorem schedule_marker_iff_in_flight_witness:
  "\<exists>r \<in> set (runs demo_claimed). in_flight r \<and> r_schedule r = ''s1''"
proof -
  have "hd (schedules demo_claimed) \<in> set (schedules demo_claimed)" "s_running (hd (schedules demo_claimed)) \<noteq> None"
    "s_id (hd (schedules demo_claimed)) = ''s1''"
    by (simp_all add: demo_claimed_value demo_claimed_parts) (simp add: claim_row_def)
  with schedule_marker_iff_in_flight [OF demo_claimed_reachable] show ?thesis by metis
qed

text \<open>
  No app identity ever has more than 32 active or paused schedules, and in every reachable
  state a schedule has a next occurrence exactly while it is active.
\<close>

theorem schedule_quota_and_next:
  assumes "(store_step env)\<^sup>*\<^sup>* empty_store st"
  shows "active_count app st \<le> 32 \<and> (\<forall>s \<in> set (schedules st). s_status s = Active \<longleftrightarrow> s_next_run_at s \<noteq> None)"
  using reachable_parts(1) [OF assms]
  by (auto simp: store_inv_def quota_ok_def next_ok_def MAX_ACTIVE_SCHEDULES_PER_APP_def)

theorem schedule_quota_and_next_witness:
  "active_count ''app'' demo_claimed \<le> 32 \<and> length (schedules demo_claimed) = 1"
  using schedule_quota_and_next [OF demo_claimed_reachable, of "''app''"] by (simp add: demo_claimed_value)

section \<open>Claims\<close>

text \<open>
  C3: A due occurrence is claimed at most once.  When a claim at time \<open>now\<close> changed the tables
  (also when it then failed), any further claim of that schedule up to the time \<open>now\<close> finds nothing
  due and changes nothing.
\<close>

theorem claim_due_at_most_once:
  assumes "(store_step env)\<^sup>*\<^sup>* empty_store st"
    and "claim_due env sid now grace False None rid st = (res, st')" "st' \<noteq> st" "now' \<le> now"
  shows "claim_due env sid now' grace' False None rid' st' = (Inr None, st')"
proof -
  obtain s' where "select s_id sid (schedules st') = Some s'"
    "s_status s' = Active \<longrightarrow> (\<exists>t. s_next_run_at s' = Some t \<and> now < t)"
    using claim_due_advances [OF reachable_parts(2) [OF assms(1)] assms(2,3)] by blast
  with assms(4) show ?thesis by (auto simp: claim_due_def split: option.splits)
qed

theorem claim_due_at_most_once_witness:
  "claim_due demo_env ''s1'' (demo_now + 300000000) 60 False None ''r2'' demo_claimed = (Inr None, demo_claimed)"
proof -
  have "demo_claimed \<noteq> demo_created" by (simp add: demo_claimed_value demo_created_value)
  moreover have "claim_due demo_env ''s1'' (demo_now + 300000000) 60 False None ''r1'' demo_created =
      (fst (claim_due demo_env ''s1'' (demo_now + 300000000) 60 False None ''r1'' demo_created), demo_claimed)"
    by (simp add: demo_claimed_def)
  ultimately show ?thesis
    using claim_due_at_most_once [OF demo_created_reachable] by blast
qed

text \<open>
  Computing the occurrence after a claim never trips an assertion, a parse error or a time-zone
  error on a stored schedule: in a reachable state the only ways it can fail are an instant after
  the year 9999 and a cron expression without an occurrence in the next eight years.
\<close>

theorem next_after_claim_failures:
  assumes "(store_step env)\<^sup>*\<^sup>* empty_store st" "s \<in> set (schedules st)" "next_after_claim env s now = Inl e"
  shows "e = OverflowError \<or> e = ScheduleError ''cron expression has no occurrence within eight years''"
  using next_after_claim_error assms(3) reachable_parts(2) [OF assms(1)] assms(2) unfolding timed_def by blast

theorem next_after_claim_failures_witness:
  "next_after_claim demo_env demo_row (MAX_ORDINAL * DAY_US) = Inl OverflowError"
proof -
  obtain e where e: "next_after_claim demo_env demo_row (MAX_ORDINAL * DAY_US) = Inl e"
    by (simp add: next_after_claim_def demo_row_def add_delta_def minutes_us_def valid_instant_def)
  have "demo_row \<in> set (schedules demo_created)" by (simp add: demo_created_value)
  from next_after_claim_failures [OF demo_created_reachable this e] e show ?thesis
    by (auto simp: next_after_claim_def demo_row_def add_delta_def split: if_splits)
qed

section \<open>Finishing runs and the history\<close>

text \<open>
  The run history of a schedule is bounded: in every reachable state a schedule has at most 51
  runs on record, the fifty that pruning keeps and one that is in flight or was abandoned.
\<close>

theorem schedule_history_bounded:
  assumes "(store_step env)\<^sup>*\<^sup>* empty_store st"
  shows "length (filter (\<lambda>r. r_schedule r = sid) (runs st)) \<le> 51"
proof -
  have "history_ok st" using sched_history.reachable_inv [OF refl assms] by simp
  then show ?thesis by (simp add: history_ok_def run_count_def MAX_SCHEDULE_RUNS_PER_SCHEDULE_def)
qed

theorem schedule_history_bounded_witness:
  "length (filter (\<lambda>r. r_schedule r = ''s1'') (runs demo_claimed)) \<le> 51 \<and> runs demo_claimed \<noteq> []"
  using schedule_history_bounded [OF demo_claimed_reachable] by (simp add: demo_claimed_value)

text \<open>
  Recording the outcome of a run always succeeds: with a final status and a run on record,
  \<open>finish_run\<close> returns the updated row (its closing assertion cannot fail, since pruning keeps this
  run), the row is in the table, and the schedule of a run that was in flight is unlocked.
\<close>

theorem finish_run_returns:
  assumes "(store_step env)\<^sup>*\<^sup>* empty_store st" "select r_id rid (runs st) = Some r"
    and "final \<noteq> Claimed" "final \<noteq> Running"
  shows "\<exists>st'. finish_run rid final code err now now' st =
      (Inr (r\<lparr>r_status := final, r_finished_at := Some now, r_exit := code, r_error := err\<rparr>), st') \<and>
    select r_id rid (runs st') =
      Some (r\<lparr>r_status := final, r_finished_at := Some now, r_exit := code, r_error := err\<rparr>) \<and>
    (in_flight r \<longrightarrow> (\<forall>s \<in> set (schedules st'). s_id s = r_schedule r \<longrightarrow> s_running s = None))"
  using finish_run_result [OF reachable_parts(1) [OF assms(1)] assms(2-4)] by blast

theorem finish_run_returns_witness:
  "\<exists>st'. finish_run ''r1'' Succeeded (Some 0) None demo_now demo_now demo_claimed =
      (Inr (demo_run\<lparr>r_status := Succeeded, r_finished_at := Some demo_now, r_exit := Some 0, r_error := None\<rparr>), st')"
proof -
  have "select r_id ''r1'' (runs demo_claimed) = Some demo_run"
    by (simp add: demo_claimed_value select_def demo_claimed_parts)
  from finish_run_returns [OF demo_claimed_reachable this] show ?thesis by blast
qed

text \<open>
  After a restart nothing stays locked: \<open>abandon_running\<close> reports the number of runs in flight,
  leaves no run in flight and no schedule with a marker, and keeps every other row and column.
\<close>

theorem abandon_running_unlocks:
  "\<exists>st'. abandon_running now st = (Inr (length (filter in_flight (runs st))), st') \<and>
    (\<forall>r \<in> set (runs st'). \<not> in_flight r) \<and> (\<forall>s \<in> set (schedules st'). s_running s = None) \<and>
    map r_id (runs st') = map r_id (runs st) \<and>
    filter (\<lambda>r. r_status r \<noteq> Abandoned) (runs st') = filter (\<lambda>r. \<not> in_flight r \<and> r_status r \<noteq> Abandoned) (runs st) \<and>
    map (\<lambda>s. s\<lparr>s_running := None\<rparr>) (schedules st') = map (\<lambda>s. s\<lparr>s_running := None\<rparr>) (schedules st)"
  using abandon_running_rows by blast

theorem abandon_running_unlocks_witness:
  "\<exists>st'. abandon_running demo_now demo_claimed = (Inr 1, st') \<and> (\<forall>s \<in> set (schedules st'). s_running s = None)"
proof -
  have "length (filter in_flight (runs demo_claimed)) = 1" by (simp add: demo_claimed_value demo_claimed_parts)
  with abandon_running_unlocks [of demo_now demo_claimed] show ?thesis by metis
qed

text \<open>
  An occurrence that is missed by more than the retention period is lost with an error.  The
  claim commits (the schedule advances to its next occurrence), but the record of the missed run is
  pruned in the same transaction, so the assertion that re-reads it fails after the commit.
\<close>

theorem claim_due_stale_assertion:
  assumes "select s_id sid (schedules st) = Some s" "s_status s = Active" "s_running s = None"
    and "s_misfire s = ''skip''" "s_next_run_at s = Some due"
    and "days_us 30 < now - due" "seconds_us grace < now - due"
    and "next_after_claim env s now = Inr nxt" "rid \<notin> r_id ` set (runs st)"
  shows "\<exists>st'. claim_due env sid now grace False None rid st = (Inl AssertionError, st') \<and>
    select s_id sid (schedules st') = Some (claim_row s nxt now False rid False) \<and>
    rid \<notin> r_id ` set (runs st')"
  using commit_claim_stale [OF assms(3,4,6,7) select_Some [OF assms(1), THEN conjunct2] assms(1,9)] assms
  by (simp add: claim_due_def days_us_def DAY_US_def)

theorem claim_due_stale_assertion_witness:
  "\<exists>st'. claim_due demo_env ''s1'' (demo_now + 300000000 + days_us 31) 60 False None ''r1'' demo_created =
    (Inl AssertionError, st') \<and> ''r1'' \<notin> r_id ` set (runs st')"
proof -
  have "next_after_claim demo_env demo_row (demo_now + 300000000 + days_us 31) =
      Inr (Some (demo_now + 600000000 + days_us 31))"
    by (simp add: next_after_claim_def demo_row_def add_delta_def minutes_us_def valid_instant_def demo_now_def
        MAX_ORDINAL_def DAY_US_def days_us_def)
  moreover have "select s_id ''s1'' (schedules demo_created) = Some demo_row"
    by (simp add: demo_created_value select_def demo_row_def)
  moreover have "s_status demo_row = Active" "s_running demo_row = None" "s_misfire demo_row = ''skip''"
    "s_next_run_at demo_row = Some (demo_now + 300000000)" by (simp_all add: demo_row_def)
  ultimately show ?thesis
    using claim_due_stale_assertion [of "''s1''" demo_created demo_row "demo_now + 300000000"
        "demo_now + 300000000 + days_us 31" 60 demo_env "Some (demo_now + 600000000 + days_us 31)" "''r1''"]
    by (auto simp: days_us_def DAY_US_def seconds_us_def demo_created_value)
qed

section \<open>Updates and isolation\<close>

text \<open>
  Updates are never lost.  An update succeeds only on the revision it names, on a schedule that
  is neither completed nor running; it raises the revision by one; and a second update that names
  the same revision is refused and changes nothing.
\<close>

theorem store_update_optimistic:
  assumes "(store_step env)\<^sup>*\<^sup>* empty_store st" "store_update app sid expected ch now st = (Inr row, st')"
  shows "(\<exists>cur. find_schedule app sid st = Some cur \<and> s_revision cur = expected \<and> s_running cur = None \<and>
      s_status cur \<noteq> Completed) \<and>
    find_schedule app sid st' = Some row \<and> s_revision row = expected + 1 \<and>
    (\<exists>e. store_update app sid expected ch' now' st' = (Inl (ScheduleError e), st'))"
proof -
  have inv: "store_inv st" by (rule reachable_parts(1) [OF assms(1)])
  then have d: "distinct (map s_id (schedules st))" by (simp add: store_inv_parts)
  obtain cur where cur: "find_schedule app sid st = Some cur" "s_revision cur = expected" "s_running cur = None"
    "s_status cur \<noteq> Completed" and row: "s_revision row = expected + 1" "s_id row = sid" "s_app row = app"
    "st' = write_schedule row st"
    by (rule store_update_ok [OF inv assms(2)])
  have "find_schedule app sid st' = Some row"
    unfolding row(4) by (rule find_schedule_write [OF d cur(1)]) (use row find_schedule_Some [OF cur(1)] in simp_all)
  with cur row(1) show ?thesis by (auto simp: store_update_def)
qed

definition demo_changes :: changes where
  "demo_changes = \<lparr>c_name = None, c_timing = None, c_command = None, c_cwd = None, c_timeout = None,
     c_overlap = None, c_misfire = None, c_plan = Some (PInt 7), c_taskname = None, c_message = None\<rparr>"

theorem store_update_optimistic_witness:
  "\<exists>row st' e. store_update ''app'' ''s1'' 1 demo_changes demo_now demo_created = (Inr row, st') \<and> s_plan row = 7 \<and>
    store_update ''app'' ''s1'' 1 demo_changes demo_now st' = (Inl (ScheduleError e), st')"
proof -
  have "find_schedule ''app'' ''s1'' demo_created = Some demo_row"
    by (simp add: find_schedule_def demo_created_value demo_row_def)
  then obtain row st' where "store_update ''app'' ''s1'' 1 demo_changes demo_now demo_created = (Inr row, st')" "s_plan row = 7"
    by (auto simp: store_update_def demo_row_def apply_changes_def set_opt_def demo_changes_def validate_plan_def Let_def)
  with store_update_optimistic [OF demo_created_reachable this(1), of demo_changes demo_now] show ?thesis by blast
qed

text \<open>
  C5: App identities are isolated from each other.  Whatever one identity does with its own
  schedules (create, update, pause, resume, end, run now, pause or delete all), the schedules and
  runs of every other identity are exactly what they were.
\<close>

theorem schedule_apps_isolated:
  assumes "(store_step env)\<^sup>*\<^sup>* empty_store st" "app \<noteq> other"
  shows "app_view other (snd (store_create app n now sid st)) = app_view other st \<and>
    app_view other (snd (store_update app sid expected ch now st)) = app_view other st \<and>
    app_view other (snd (store_pause app sid now st)) = app_view other st \<and>
    app_view other (snd (store_resume env app sid now now' st)) = app_view other st \<and>
    app_view other (snd (store_end app sid status now st)) = app_view other st \<and>
    app_view other (snd (pause_app app now st)) = app_view other st \<and>
    app_view other (snd (claim_due env sid now grace force (Some app) rid st)) = app_view other st \<and>
    app_view other (snd (delete_app app st)) = app_view other st"
  by (intro conjI app_views reachable_parts(1) [OF assms(1)] assms(2))

theorem schedule_apps_isolated_witness:
  "app_view ''app'' (snd (delete_app ''intruder'' demo_claimed)) = app_view ''app'' demo_claimed \<and>
   fst (app_view ''app'' demo_claimed) \<noteq> []"
proof -
  have "fst (app_view ''app'' demo_claimed) \<noteq> []"
    by (simp add: app_view_def demo_claimed_value claim_row_def demo_row_def)
  with schedule_apps_isolated [OF demo_claimed_reachable, of "''intruder''" "''app''"] show ?thesis by simp
qed

section \<open>Time expressions\<close>

definition demo_cron :: cron where
  "demo_cron = \<lparr>expression = ''0 0 0 * * *'', second = 0, minutes = {0}, hours = {0}, days = {1..31},
     months = {1..12}, weekdays = {0..6}, days_unrestricted = True, weekdays_unrestricted = True,
     daily_seconds = [0]\<rparr>"

lemma neq_by_member: "x \<in> B \<Longrightarrow> x \<notin> A \<Longrightarrow> A \<noteq> B"
  by blast

lemma expand_star:
  assumes "lo \<le> hi"
  shows "expand_cron_field ''*'' lo hi name sunday = Inr (close_cron_field lo hi sunday {lo..hi})"
proof -
  have "cron_item ''*'' lo hi name = Inr (lo, hi, 1)"
    using assms by (simp add: cron_item_def partition_on_def)
  moreover have "set (py_range lo (Suc hi) 1) = {lo..hi}"
    using set_py_range [of 1 lo hi] assms by (simp add: set_eq_iff)
  ultimately show ?thesis
    by (simp add: expand_cron_field_def basic_cron_char_def)
qed

lemma expand_zero: "expand_cron_field ''0'' 0 hi name False = Inr (close_cron_field 0 hi False {0})" if "hi < 4300"
proof -
  have "join '','' (map show_nat [0]) = ''0''" by (simp add: show_nat.simps digit_def)
  with expand_cron_field_numbers [of "[0]" 0 hi name False] that show ?thesis by simp
qed

lemma demo_cron_parse: "cron_parse (PStr ''0 0 0 * * *'') = Inr demo_cron"
proof -
  have "''0 0 0 * * *'' = join '' '' [''0'', ''0'', ''0'', ''*'', ''*'', ''*'']" by simp
  moreover have "split_ws (join '' '' [''0'', ''0'', ''0'', ''*'', ''*'', ''*'']) = [''0'', ''0'', ''0'', ''*'', ''*'', ''*'']"
    by (rule split_ws_join) (simp add: is_space_def)
  ultimately have w: "split_ws ''0 0 0 * * *'' = [''0'', ''0'', ''0'', ''*'', ''*'', ''*'']" by metis
  have sec: "isdigit ''0''" "py_int ''0'' = Inr 0"
    by (simp_all add: isdigit_def digit_char_def ascii_digit_def py_int_def digits_value_def digit_value_def)
  have daily: "daily_seconds_of {0} {0} 0 = [0]" by (simp add: daily_seconds_of_def)
  have gap: "minimum_gap [0] = 86400" by (simp add: minimum_gap_def pairwise_gaps_def)
  have sunday: "insert 0 ({0..7} - {7 :: nat}) = {0..6}" by auto
  have "{0 :: nat} \<noteq> {0..<60}" by (rule neq_by_member [of 1]) simp_all
  moreover have "{0 :: nat} \<noteq> {0..<24}" by (rule neq_by_member [of 1]) simp_all
  moreover have "{1..31 :: nat} = {1..<32}" "{1..12 :: nat} = {1..<13}" "{0..6 :: nat} = {0..<7}"
    by (simp_all add: set_eq_iff, linarith+)
  moreover note sets = calculation
  show ?thesis
    by (simp add: cron_parse_def w sec expand_zero expand_star close_cron_field_def Let_def daily gap sunday
        MIN_SCHEDULE_INTERVAL_SECONDS_def MIN_SCHEDULE_INTERVAL_MINUTES_def demo_cron_def sets del: One_nat_def)
qed

lemma demo_cron_day: "date_matches demo_cron n" if "1 \<le> n"
proof -
  obtain y m d where ymd: "ord2ymd n = (y, m, d)" by (cases "ord2ymd n")
  with ord2ymd_valid [OF that] have "1 \<le> m" "m \<le> 12" by (auto simp: valid_date_def)
  then show ?thesis by (simp add: date_matches_def ymd demo_cron_def nat_le_iff)
qed

lemma demo_cron_occurrence: "cron_occurrence demo_cron 0" "cron_occurrence demo_cron DAY_US"
proof -
  have "ordinal_of 0 = 1" "ordinal_of DAY_US = 2" by (simp_all add: ordinal_of_def DAY_US_def)
  then show "cron_occurrence demo_cron 0" "cron_occurrence demo_cron DAY_US"
    using demo_cron_day by (simp_all add: cron_occurrence_def combine_def seconds_us_def) (simp_all add: demo_cron_def)
qed

text \<open>
  C4: In UTC the next occurrence of a cron expression is the least one: it is later than the given
  instant, it is an occurrence (its day matches the date fields and its time of day the time
  fields), and no occurrence lies between the two.
\<close>

theorem cron_next_after_least:
  assumes "cron_parse v = Inr c" "next_after c a utc_zone = Inr b"
  shows "a < b \<and> cron_occurrence c b \<and> (\<forall>t. a < t \<and> cron_occurrence c t \<longrightarrow> b \<le> t)"
  using next_after_utc_least [OF cron_parse_wf [OF assms(1)] assms(2)] by blast

theorem cron_next_after_least_witness:
  "\<exists>b. next_after demo_cron 0 utc_zone = Inr b \<and> 0 < b \<and> b \<le> DAY_US"
proof -
  have "DAY_US \<in> set (day_candidates demo_cron utc_zone 2)"
    by (simp add: day_candidates_utc demo_cron_def combine_def seconds_us_def)
  moreover have "(0 :: int) < DAY_US" by (simp add: DAY_US_def)
  ultimately obtain b where b: "next_after demo_cron 0 utc_zone = Inr b"
    using scan_days_found [of 1 2 "MAX_SCHEDULE_LOOKAHEAD_DAYS + 1" demo_cron DAY_US utc_zone 0] demo_cron_day [of 2]
    by (auto simp: next_after_def utc_zone_def ordinal_of_def MAX_SCHEDULE_LOOKAHEAD_DAYS_def MAX_ORDINAL_def)
  with cron_next_after_least [OF demo_cron_parse b] demo_cron_occurrence(2) \<open>0 < DAY_US\<close> show ?thesis by blast
qed

text \<open>
  Whatever the fields of an accepted cron expression are, two different occurrences are at
  least three minutes apart, also across midnight and between days that do not follow each other.
\<close>

theorem cron_occurrences_apart:
  assumes "cron_parse v = Inr c" "cron_occurrence c t" "cron_occurrence c u" "t < u"
  shows "seconds_us 180 \<le> u - t"
  using cron_occurrence_gap [OF cron_parse_wf [OF assms(1)] assms(2-4)]
  by (simp add: MIN_SCHEDULE_INTERVAL_SECONDS_def MIN_SCHEDULE_INTERVAL_MINUTES_def)

theorem cron_occurrences_apart_witness: "seconds_us 180 \<le> DAY_US - 0"
  using cron_occurrences_apart [OF demo_cron_parse demo_cron_occurrence] by (simp add: DAY_US_def)

text \<open>
  The text stored for a cron schedule is a fixed point of the parser: parsing the normalised
  expression gives the very same expression, so a claim or a resume reads back what was validated.
\<close>

theorem cron_parse_stable:
  assumes "cron_parse v = Inr c"
  shows "cron_parse (PStr (expression c)) = Inr c"
  by (rule cron_parse_expression [OF assms])

theorem cron_parse_stable_witness: "cron_parse (PStr (expression demo_cron)) = Inr demo_cron"
  by (rule cron_parse_stable [OF demo_cron_parse])

text \<open>
  A cron field written as a comma-separated list of numbers within its range reads back as
  exactly the set of these numbers (Sunday normalised to 0).
\<close>

theorem cron_field_round_trip:
  assumes "ns \<noteq> []" "\<forall>n \<in> set ns. lo \<le> n \<and> n \<le> hi" "hi < 4300"
  shows "expand_cron_field (join '','' (map show_nat ns)) lo hi name sunday = Inr (close_cron_field lo hi sunday (set ns))"
  by (rule expand_cron_field_numbers [OF assms])

theorem cron_field_round_trip_witness:
  "expand_cron_field (join '','' (map show_nat [7, 3])) 0 7 ''weekday'' True = Inr ({0, 3}, False)"
proof -
  have "insert 0 ({7, 3} - {7}) = {0, 3 :: nat}" by auto
  moreover have "{0, 3} \<noteq> {0..<7 :: nat}" by (rule neq_by_member [of 1]) simp_all
  ultimately show ?thesis
    using cron_field_round_trip [of "[7, 3]" 0 7 "''weekday''" True] by (simp add: close_cron_field_def Let_def)
qed

text \<open>
  The text that \<open>iso_utc\<close> writes for a time orders and identifies times: for all instants of
  the years 1 to 9999, the stored texts compare exactly like the instants.  The comparisons that the
  SQL statements make on text columns are therefore comparisons of times.
\<close>

theorem iso_utc_compares:
  assumes "valid_instant a" "valid_instant b"
  shows "(iso_utc a < iso_utc b \<longleftrightarrow> a < b) \<and> (iso_utc a = iso_utc b \<longleftrightarrow> a = b)"
  using iso_utc_order [OF assms] by blast

theorem iso_utc_compares_witness: "iso_utc 999999 < iso_utc 1000000"
proof -
  have "valid_instant 999999" "valid_instant 1000000" by (simp_all add: valid_instant_def MAX_ORDINAL_def DAY_US_def)
  from iso_utc_compares [OF this] show ?thesis by simp
qed

text \<open>
  What an accepted schedule request promises: the first occurrence is later than the time of the
  request, an interval is at least three minutes, and the first occurrence of an interval or a
  one-time schedule is at least three minutes away.
\<close>

theorem validate_timing_future:
  assumes "validate_timing env v now = Inr t"
  shows "now < t_next_run_at t \<and>
    (t_type t = Interval \<longrightarrow> (\<exists>k. t_interval_minutes t = Some k \<and> 3 \<le> k \<and> t_next_run_at t = now + minutes_us k)) \<and>
    (t_type t = Once \<longrightarrow> t_run_at t = Some (t_next_run_at t) \<and> now + seconds_us 180 \<le> t_next_run_at t)"
  using validate_timing_next [OF assms] .

theorem validate_timing_future_witness: "demo_now < t_next_run_at demo_timing"
  using validate_timing_future [OF demo_timing_valid] by simp

text \<open>
  An interval is bounded only by the calendar.  A request for an interval whose first occurrence
  lies after the year 9999 passes every check of the validation and then fails with
  \<open>OverflowError\<close>, which is not the \<open>ScheduleError\<close> that the callers handle.
\<close>

theorem validate_timing_overflow:
  assumes "dict_get d ''type'' = PStr ''interval''" "dict_get d ''minutes'' = PInt k"
    "parse_timezone env (dict_get_default d ''timezone'' (PStr ''UTC'')) = Inr z"
    "0 \<le> now" "MAX_ORDINAL * DAY_US \<le> minutes_us k"
  shows "validate_timing env (PDict d) now = Inl OverflowError"
proof -
  have "\<not> valid_instant (now + minutes_us k)" using assms(4,5) by (simp add: valid_instant_def)
  moreover have "MIN_SCHEDULE_INTERVAL_MINUTES \<le> k"
    using assms(5) by (simp add: minutes_us_def MIN_SCHEDULE_INTERVAL_MINUTES_def MAX_ORDINAL_def DAY_US_def)
  ultimately show ?thesis
    using assms(1-3) by (simp add: validate_timing_def sched_type_of_def add_delta_def Let_def)
qed

theorem validate_timing_overflow_witness:
  "validate_timing demo_env (PDict [(''type'', PStr ''interval''), (''minutes'', PInt 5258964960)]) demo_now = Inl OverflowError"
proof -
  let ?d = "[(''type'', PStr ''interval''), (''minutes'', PInt 5258964960)]"
  have "parse_timezone demo_env (dict_get_default ?d ''timezone'' (PStr ''UTC'')) = Inr utc_zone"
    by (simp add: parse_timezone_def dict_get_default_def demo_env_def strip_def lstrip_def is_space_def)
  moreover have "dict_get ?d ''type'' = PStr ''interval''" "dict_get ?d ''minutes'' = PInt 5258964960"
    by (simp_all add: dict_get_def)
  ultimately show ?thesis
    using validate_timing_overflow [of ?d 5258964960 demo_env utc_zone demo_now]
    by (simp add: demo_now_def minutes_us_def MAX_ORDINAL_def DAY_US_def)
qed

end
