(* ===== verification/Path_Access.thy ===== *)
theory Path_Access
  imports Kapsel_Prelude
begin

text \<open>
  The path policy of the File and Shell interfaces, \<open>openkapsel/auth/path_access.py\<close>: which
  access (or none) a token has to a path, from the root that is exported, the rules of the token
  and the built-in rules for metadata.

  A \<open>pathlib.Path\<close> is the list of its parts, the root \<open>/\<close> first.  The file system is a parameter:
  \<open>is_dir\<close>, \<open>resolve\<close> (symbolic links followed) and \<open>abspath\<close> (lexical).
\<close>

type_synonym path = "string list"

section \<open>Paths\<close>

text \<open>\<open>Path(s)\<close>: empty components and single dots disappear; exactly two leading slashes are a root of their own.\<close>

definition path_root :: "string \<Rightarrow> string list" where
  "path_root s =
     (let n = length (takeWhile (\<lambda>c. c = CHR ''/'') s)
      in if n = 0 then [] else if n = 2 then [''//''] else [''/''])"

definition parse_path :: "string \<Rightarrow> path" where
  "parse_path s = path_root s @ filter (\<lambda>w. w \<noteq> [] \<and> w \<noteq> ''.'') (split_on (CHR ''/'') s)"

definition is_root_part :: "string \<Rightarrow> bool" where
  "is_root_part w \<longleftrightarrow> w = ''/'' \<or> w = ''//''"

definition path_name :: "path \<Rightarrow> string" where
  "path_name p = (if p = [] \<or> is_root_part (last p) then [] else last p)"

text \<open>\<open>(path, *path.parents)\<close>: the path itself first, the root last.\<close>

fun self_and_parents :: "path \<Rightarrow> path list" where
  "self_and_parents p = (if length p \<le> 1 then [p] else p # self_and_parents (butlast p))"

declare self_and_parents.simps [simp del]

definition path_parents :: "path \<Rightarrow> path list" where
  "path_parents p = tl (self_and_parents p)"

section \<open>Reserved names\<close>

definition is_private_name :: "string \<Rightarrow> bool" where
  "is_private_name name \<longleftrightarrow>
     (let folded = casefold name in folded = ''.openkapsel'' \<or> startswith folded ''.openkapsel-'')"

definition has_private_component :: "path \<Rightarrow> bool" where
  "has_private_component p \<longleftrightarrow> list_ex is_private_name p"

definition hex_char :: "char \<Rightarrow> bool" where
  "hex_char c \<longleftrightarrow> ascii_digit c \<or> c \<in> set ''abcdef''"

definition url_char :: "char \<Rightarrow> bool" where
  "url_char c \<longleftrightarrow> ascii_digit c \<or> c \<in> set ''abcdefghijklmnopqrstuvwxyzABCDEFGHIJKLMNOPQRSTUVWXYZ_-''"

text \<open>The full match of the pattern \<open>_STAGING_COMPONENT\<close>.\<close>

definition staging_component :: "string \<Rightarrow> bool" where
  "staging_component s \<longleftrightarrow>
     (startswith s ''.openkapsel-share-'' \<and> length s = 18 + 24 \<and> list_all hex_char (drop 18 s)) \<or>
     (startswith s ''.openkapsel-transfer-'' \<and> length s = 21 + 24 \<and> list_all url_char (drop 21 s))"

definition is_internal_transfer_stage :: "path \<Rightarrow> path \<Rightarrow> bool" where
  "is_internal_transfer_stage p base =
     (if has_private_component base then False
      else if take (length base) p \<noteq> base then False
      else case filter is_private_name (drop (length base) p) of
             [w] \<Rightarrow> staging_component w
           | _ \<Rightarrow> False)"

section \<open>Rules\<close>

datatype access = RW | RO | Protect | Deny

definition weight :: "access \<Rightarrow> nat" where
  "weight a = (case a of RW \<Rightarrow> 0 | RO \<Rightarrow> 1 | Protect \<Rightarrow> 2 | Deny \<Rightarrow> 3)"

record grant =
  g_path :: string
  g_access :: access
  g_strict_file :: bool
  g_legacy_directory :: bool

record fs =
  is_dir :: "path \<Rightarrow> bool"
  resolve :: "path \<Rightarrow> path"
  abspath :: "path \<Rightarrow> path"

definition has_wildcard :: "string \<Rightarrow> bool" where
  "has_wildcard s \<longleftrightarrow> CHR ''*'' \<in> set s \<or> CHR ''?'' \<in> set s \<or> CHR ''['' \<in> set s"

definition rstrip_slash :: "string \<Rightarrow> string" where
  "rstrip_slash s = rev (dropWhile (\<lambda>c. c = CHR ''/'') (rev s))"

definition rule_parts :: "string \<Rightarrow> (bool \<times> bool \<times> string) result" where
  "rule_parts raw =
     (if raw = [] \<or> CHR 0x00 \<in> set raw then Inl (ValueError ''invalid path rule'')
      else
        let any_prefix = startswith raw ''*/''; directory = endswith raw ''/'';
            target = (if any_prefix then drop 2 raw else raw)
        in if any_prefix then
             let name = (if directory then butlast target else target)
             in if name = [] \<or> name = ''.'' \<or> name = ''..'' \<or> CHR ''/'' \<in> set name \<or> CHR 0x5C \<in> set name \<or>
                  has_wildcard name
                then Inl (ValueError ''prefix-ignored rules match one literal name'')
                else Inr (True, directory, name)
           else if has_wildcard target then Inl (ValueError ''wildcards are permitted only as an initial */'')
           else
             let body = (if directory then (if rstrip_slash target = [] then ''/'' else rstrip_slash target) else target)
             in if \<not> startswith body ''/'' \<or> ''..'' \<in> set (parse_path body)
                then Inl (ValueError ''path rules must use absolute paths'')
                else Inr (False, directory, body))"

definition DEFAULT_ACCESS_RULES :: "(string \<times> access) list" where
  "DEFAULT_ACCESS_RULES =
     [(''*/.git/'', Protect), (''*/.git'', Protect), (''*/.config/'', Protect), (''*/.ssh/'', Protect),
      (''*/.openkapsel/'', Deny), (''*/.gitconfig'', Protect), (''*/.gitattributes'', Protect),
      (''*/.gitmodules'', Protect)]"

definition FOLDED_PROTECTED_NAMES :: "string list" where
  "FOLDED_PROTECTED_NAMES =
     [''.git'', ''.config'', ''.ssh'', ''.openkapsel'', ''.gitconfig'', ''.gitattributes'', ''.gitmodules'']"

definition literal_name_matches :: "string \<Rightarrow> string \<Rightarrow> bool" where
  "literal_name_matches name configured \<longleftrightarrow>
     name = configured \<or> (casefold configured \<in> set FOLDED_PROTECTED_NAMES \<and> casefold name = casefold configured)"

definition matching_anchor :: "fs \<Rightarrow> path \<Rightarrow> string \<Rightarrow> (path \<times> bool) option result" where
  "matching_anchor env p raw =
     andThen (rule_parts raw) (\<lambda>(any_prefix, directory, target).
       if any_prefix then
         (case filter (\<lambda>a. literal_name_matches (path_name a) target) (self_and_parents p) of
            [] \<Rightarrow> Inr None
          | anchor # _ \<Rightarrow>
              if \<not> directory \<and> (anchor \<noteq> p \<or> is_dir env anchor) then Inr None else Inr (Some (anchor, any_prefix)))
       else
         let anchor = parse_path target
         in if p \<noteq> anchor \<and> (\<not> directory \<or> anchor \<notin> set (path_parents p)) then Inr None
            else if \<not> directory \<and> is_dir env anchor then Inr None
            else Inr (Some (anchor, any_prefix)))"

definition normalized_explicit_rule :: "fs \<Rightarrow> grant \<Rightarrow> string" where
  "normalized_explicit_rule env g =
     (if \<not> endswith (g_path g) ''/'' \<and> \<not> startswith (g_path g) ''*/'' \<and> \<not> g_strict_file g \<and>
         (g_legacy_directory g \<or> is_dir env (parse_path (g_path g)))
      then g_path g @ ''/'' else g_path g)"

section \<open>Effective access\<close>

text \<open>The anchors of a list of rules, or the error of the first malformed one.\<close>

fun anchors_of :: "fs \<Rightarrow> path \<Rightarrow> (string \<times> access) list \<Rightarrow>
    ((string \<times> access) \<times> (path \<times> bool) option) list result" where
  "anchors_of env p [] = Inr []"
| "anchors_of env p ((raw, mode) # rules) =
     andThen (matching_anchor env p raw) (\<lambda>m.
     andThen (anchors_of env p rules) (\<lambda>rest. Inr (((raw, mode), m) # rest)))"

definition matched :: "((string \<times> access) \<times> (path \<times> bool) option) list \<Rightarrow> (access \<times> path \<times> bool) list" where
  "matched ms = concat (map (\<lambda>((raw, mode), m). case m of None \<Rightarrow> [] | Some (anchor, any_prefix) \<Rightarrow> [(mode, anchor, any_prefix)]) ms)"

definition strictest :: "access list \<Rightarrow> access" where
  \<comment> \<open>\<open>max(..., key=weight.__getitem__)\<close>: the first of the maximal ones\<close>
  "strictest xs = (case xs of [] \<Rightarrow> RW | x # rest \<Rightarrow> foldl (\<lambda>best a. if weight best < weight a then a else best) x rest)"

definition decide :: "(access \<times> path) list \<Rightarrow> access option" where
  \<comment> \<open>among the rules with the deepest anchor the strictest\<close>
  "decide ms =
     (if ms = [] then None
      else let deepest = Max (set (map (length \<circ> snd) ms))
           in Some (strictest (map fst (filter (\<lambda>m. length (snd m) = deepest) ms))))"

definition within_root :: "path \<Rightarrow> path \<Rightarrow> bool" where
  "within_root p base \<longleftrightarrow> p = base \<or> base \<in> set (path_parents p)"

text \<open>The decision once the rules are matched: explicit matches, default matches, the rest of the request.\<close>

definition access_from ::
  "path \<Rightarrow> path \<Rightarrow> bool \<Rightarrow> bool \<Rightarrow> (access \<times> path \<times> bool) list \<Rightarrow> (access \<times> path \<times> bool) list \<Rightarrow> access option" where
  "access_from p base writable internal_transfer ex default_matches =
     (let defaults = filter (\<lambda>(mode, anchor, any_prefix). anchor \<notin> set (map (fst \<circ> snd) ex)) default_matches;
          inside = within_root p base;
          private_state = list_ex (\<lambda>part. startswith (casefold part) ''.openkapsel-'') p;
          transport_stage = (internal_transfer \<and> is_internal_transfer_stage p base)
      in if \<not> inside \<and> \<not> list_ex (\<lambda>(mode, anchor, any_prefix). \<not> any_prefix) ex then None
         else if private_state \<and> \<not> transport_stage then Some Deny
         else if list_ex (\<lambda>(mode, anchor, any_prefix). \<not> any_prefix \<and> mode = Deny) ex then Some Deny
         else if transport_stage then Some (if writable then RW else RO)
         else decide (map (\<lambda>(mode, anchor, any_prefix). (mode, anchor)) (defaults @ ex) @
                (if inside then [(if writable then RW else RO, base)] else [])))"

definition norm_path :: "fs \<Rightarrow> bool \<Rightarrow> path \<Rightarrow> path" where
  "norm_path env resolve_symlinks = (if resolve_symlinks then resolve env else abspath env)"

definition effective_path_access ::
  "fs \<Rightarrow> path \<Rightarrow> path \<Rightarrow> bool \<Rightarrow> grant list \<Rightarrow> bool \<Rightarrow> bool \<Rightarrow> access option result" where
  "effective_path_access env path0 base0 writable grants resolve_symlinks internal_transfer =
     (let p = norm_path env resolve_symlinks path0; base = norm_path env resolve_symlinks base0;
          explicit = map (\<lambda>g. (normalized_explicit_rule env g, g_access g)) grants
      in andThen (anchors_of env p explicit) (\<lambda>explicit_matches.
         andThen (anchors_of env p DEFAULT_ACCESS_RULES) (\<lambda>default_matches.
           Inr (access_from p base writable internal_transfer (matched explicit_matches) (matched default_matches)))))"

section \<open>Facts\<close>

lemma weight_inj: "weight a = weight b \<Longrightarrow> a = b"
  by (cases a; cases b) (simp_all add: weight_def)

lemma strictest_props:
  assumes "xs \<noteq> []"
  shows "strictest xs \<in> set xs" "a \<in> set xs \<Longrightarrow> weight a \<le> weight (strictest xs)"
proof -
  have "foldl (\<lambda>best a. if weight best < weight a then a else best) x ys \<in> insert x (set ys) \<and>
      (\<forall>a \<in> insert x (set ys). weight a \<le> weight (foldl (\<lambda>best a. if weight best < weight a then a else best) x ys))"
    for x ys
  proof (induction ys arbitrary: x)
    case (Cons y ys)
    from Cons [of "if weight x < weight y then y else x"] show ?case by (auto split: if_splits)
  qed simp
  note fold = this
  obtain x ys where xs: "xs = x # ys" using assms by (cases xs) auto
  show "strictest xs \<in> set xs" using fold [of x ys] by (simp add: strictest_def xs)
  show "weight a \<le> weight (strictest xs)" if "a \<in> set xs"
    using fold [of x ys] that unfolding strictest_def xs list.case list.set by blast
qed

lemma strictest_cong:
  assumes "set xs = set ys" "xs \<noteq> []"
  shows "strictest xs = strictest ys"
proof -
  have "ys \<noteq> []" using assms by auto
  note x = strictest_props [OF assms(2)] and y = strictest_props [OF this]
  have "weight (strictest xs) \<le> weight (strictest ys)" using x(1) y(2) assms(1) by simp
  moreover have "weight (strictest ys) \<le> weight (strictest xs)" using y(1) x(2) assms(1) by simp
  ultimately show ?thesis by (intro weight_inj) simp
qed

lemma deepest_exists:
  assumes "ms \<noteq> []"
  shows "map fst (filter (\<lambda>m. length (snd m) = Max (set (map (length \<circ> snd) ms))) ms) \<noteq> []"
proof -
  have "Max (set (map (length \<circ> snd) ms)) \<in> set (map (length \<circ> snd) ms)" using assms by (intro Max_in) auto
  then obtain m where "m \<in> set ms" "Max (set (map (length \<circ> snd) ms)) = length (snd m)"
    unfolding set_map by (metis comp_apply imageE)
  then show ?thesis by (simp add: filter_empty_conv) (metis prod.collapse)
qed

lemma decide_cong: "set ms = set ms' \<Longrightarrow> decide ms = decide ms'"
proof (cases "ms = []")
  case False
  assume eq: "set ms = set ms'"
  let ?d = "Max (set (map (length \<circ> snd) ms))"
  have d: "Max (set (map (length \<circ> snd) ms')) = ?d" using eq by simp
  from deepest_exists [OF False] have "strictest (map fst (filter (\<lambda>m. length (snd m) = ?d) ms)) =
      strictest (map fst (filter (\<lambda>m. length (snd m) = ?d) ms'))"
    using eq by (intro strictest_cong) auto
  moreover have "ms' \<noteq> []" using False eq by auto
  ultimately show ?thesis using False d by (simp add: decide_def Let_def)
qed auto

text \<open>What \<open>decide\<close> returns: a rule at the greatest depth, none stricter at that depth.\<close>

lemma decide_Some:
  assumes "decide ms = Some a"
  shows "\<exists>p. (a, p) \<in> set ms \<and> (\<forall>(b, q) \<in> set ms. length q \<le> length p \<and> (length q = length p \<longrightarrow> weight b \<le> weight a))"
proof -
  from assms have ne: "ms \<noteq> []" by (auto simp: decide_def)
  let ?d = "Max (set (map (length \<circ> snd) ms))"
  let ?xs = "filter (\<lambda>m. length (snd m) = ?d) ms"
  note xs = deepest_exists [OF ne]
  have a: "a = strictest (map fst ?xs)" using assms ne by (simp add: decide_def Let_def)
  from strictest_props(1) [OF xs] obtain p where p: "(a, p) \<in> set ms" "length p = ?d" unfolding a by auto
  have "length q \<le> length p \<and> (length q = length p \<longrightarrow> weight b \<le> weight a)" if "(b, q) \<in> set ms" for b q
  proof
    show "length q \<le> length p" unfolding p(2) using that by (intro Max_ge) (auto intro!: image_eqI [of _ _ "(b, q)"])
    show "length q = length p \<longrightarrow> weight b \<le> weight a"
      using that p(2) strictest_props(2) [OF xs, of b] unfolding a by (force intro: image_eqI)
  qed
  with p(1) show ?thesis by blast
qed

lemma set_matched:
  "set (matched ms) = {(mode, anchor, pre) | raw mode anchor pre. ((raw, mode), Some (anchor, pre)) \<in> set ms}"
  by (force simp: matched_def split: option.splits)

lemma list_ex_cong_set: "set xs = set ys \<Longrightarrow> list_ex P xs = list_ex P ys"
  by (simp add: list_ex_iff)

lemma access_from_cong:
  assumes "set ex = set ex'"
  shows "access_from p base writable internal ex dm = access_from p base writable internal ex' dm"
proof -
  have "set (map (fst \<circ> snd) ex) = set (map (fst \<circ> snd) ex')" using assms by simp
  then have f: "filter (\<lambda>(mode, anchor, any_prefix). anchor \<notin> set (map (fst \<circ> snd) ex)) dm =
      filter (\<lambda>(mode, anchor, any_prefix). anchor \<notin> set (map (fst \<circ> snd) ex')) dm" by simp
  have d: "decide (map (\<lambda>(mode, anchor, any_prefix). (mode, anchor)) (d @ ex) @ e) =
      decide (map (\<lambda>(mode, anchor, any_prefix). (mode, anchor)) (d @ ex') @ e)" for d e
    using assms by (intro decide_cong) simp
  show ?thesis
    unfolding access_from_def Let_def f list_ex_cong_set [OF assms] d ..
qed

text \<open>Matching a list of rules succeeds exactly when every rule is well formed.\<close>

lemma anchors_of_Inr:
  "anchors_of env p rules = Inr ms \<Longrightarrow>
   set ms = {((raw, mode), m) | raw mode m. (raw, mode) \<in> set rules \<and> matching_anchor env p raw = Inr m}"
proof (induction rules arbitrary: ms)
  case (Cons r rules)
  obtain raw mode where r: "r = (raw, mode)" by (cases r)
  with Cons.prems obtain m rest where m: "matching_anchor env p raw = Inr m"
    "anchors_of env p rules = Inr rest" "ms = ((raw, mode), m) # rest" by auto
  from Cons.IH [OF m(2)] m r show ?case by auto
qed simp

lemma anchors_of_ok: "(\<exists>ms. anchors_of env p rules = Inr ms) \<longleftrightarrow> (\<forall>(raw, mode) \<in> set rules. \<exists>m. matching_anchor env p raw = Inr m)"
proof (induction rules)
  case (Cons r rules)
  obtain raw mode where "r = (raw, mode)" by (cases r)
  with Cons show ?case by auto
qed simp

lemma default_rules_ok: "\<exists>ms. anchors_of env p DEFAULT_ACCESS_RULES = Inr ms"
proof -
  have "list_all (\<lambda>(raw, mode). case rule_parts raw of Inl _ \<Rightarrow> False | Inr _ \<Rightarrow> True) DEFAULT_ACCESS_RULES"
    by code_simp
  then have "\<exists>t. rule_parts raw = Inr t" if "(raw, mode) \<in> set DEFAULT_ACCESS_RULES" for raw mode
    using that by (cases "rule_parts raw") (force simp: list_all_iff)+
  moreover have "\<exists>m. matching_anchor env p raw = Inr m" if "rule_parts raw = Inr t" for raw t
    using that by (cases t) (auto simp: matching_anchor_def Let_def split: list.splits)
  ultimately show ?thesis unfolding anchors_of_ok by blast
qed

lemma effective_Inr:
  assumes "effective_path_access env path0 base0 writable grants rs internal = Inr a"
  obtains em dm where
    "anchors_of env (norm_path env rs path0)
       (map (\<lambda>g. (normalized_explicit_rule env g, g_access g)) grants) = Inr em"
    "anchors_of env (norm_path env rs path0) DEFAULT_ACCESS_RULES = Inr dm"
    "a = access_from (norm_path env rs path0) (norm_path env rs base0)
       writable internal (matched em) (matched dm)"
  using assms by (auto simp: effective_path_access_def Let_def)

lemma self_and_parents_lengths:
  "b \<in> set (self_and_parents p) \<Longrightarrow> length b \<le> length p"
proof (induction p rule: self_and_parents.induct)
  case (1 p)
  show ?case
  proof (cases "length p \<le> 1")
    case True
    with 1 show ?thesis by (simp add: self_and_parents.simps [of p])
  next
    case False
    with "1.prems" have "b = p \<or> b \<in> set (self_and_parents (butlast p))" by (simp add: self_and_parents.simps [of p])
    with "1.IH" [OF False] show ?thesis by auto
  qed
qed

lemma self_and_parents_first:
  "filter P (self_and_parents p) = a # rest \<Longrightarrow> b \<in> set (self_and_parents p) \<Longrightarrow> P b \<Longrightarrow> length b \<le> length a"
proof (induction p rule: self_and_parents.induct)
  case (1 p)
  show ?case
  proof (cases "length p \<le> 1")
    case True
    with 1 show ?thesis by (simp add: self_and_parents.simps [of p] split: if_splits)
  next
    case False
    then have eq: "self_and_parents p = p # self_and_parents (butlast p)" by (simp add: self_and_parents.simps [of p])
    show ?thesis
    proof (cases "P p")
      case True
      with "1.prems"(1) eq have "a = p" by simp
      with self_and_parents_lengths [OF "1.prems"(2)] show ?thesis by simp
    next
      case np: False
      with "1.prems" eq have "filter P (self_and_parents (butlast p)) = a # rest" "b \<in> set (self_and_parents (butlast p))"
        by auto
      with "1.IH" [OF False] "1.prems"(3) show ?thesis by blast
    qed
  qed
qed

lemma self_and_parents_take: "0 < k \<Longrightarrow> k \<le> length p \<Longrightarrow> take k p \<in> set (self_and_parents p)"
proof (induction p rule: self_and_parents.induct)
  case (1 p)
  show ?case
  proof (cases "length p \<le> 1 \<or> k = length p")
    case True
    with "1.prems" show ?thesis by (cases "length p \<le> 1") (simp_all add: self_and_parents.simps [of p])
  next
    case False
    then have "take k p = take k (butlast p)" using "1.prems" by (simp add: take_butlast)
    moreover have "take k (butlast p) \<in> set (self_and_parents (butlast p))"
      by (rule "1.IH") (use False "1.prems" in auto)
    ultimately show ?thesis using False by (simp add: self_and_parents.simps [of p])
  qed
qed

text \<open>The built-in rule for a directory matches every path that has a component of that name.\<close>

lemma default_directory_anchor:
  assumes "k < length p" "casefold (p ! k) = ''.git''"
  shows "\<exists>anchor. matching_anchor env p ''*/.git/'' = Inr (Some (anchor, True)) \<and> k < length anchor"
proof -
  have parts: "rule_parts ''*/.git/'' = Inr (True, True, ''.git'')" by code_simp
  let ?P = "\<lambda>a. literal_name_matches (path_name a) ''.git''"
  let ?b = "take (Suc k) p"
  have last: "last ?b = p ! k" using assms(1) by (simp add: take_Suc_conv_app_nth)
  have "casefold ''/'' = ''/''" "casefold ''//'' = ''//''" by code_simp+
  then have "\<not> is_root_part (p ! k)" using assms(2) by (auto simp: is_root_part_def)
  then have name: "path_name ?b = p ! k" using assms(1) last by (auto simp: path_name_def)
  have "casefold ''.git'' = ''.git''" "''.git'' \<in> set FOLDED_PROTECTED_NAMES" by code_simp+
  then have P: "?P ?b" using assms(2) unfolding name literal_name_matches_def by simp
  have mem: "?b \<in> set (self_and_parents p)" using assms(1) by (intro self_and_parents_take) simp_all
  with P have "filter ?P (self_and_parents p) \<noteq> []" by (auto simp: filter_empty_conv)
  then obtain anchor rest where f: "filter ?P (self_and_parents p) = anchor # rest" by (cases "filter ?P (self_and_parents p)") auto
  then have "matching_anchor env p ''*/.git/'' = Inr (Some (anchor, True))" by (simp add: matching_anchor_def parts)
  moreover have "length ?b \<le> length anchor" by (rule self_and_parents_first [OF f mem P])
  then have "k < length anchor" using assms(1) by simp
  ultimately show ?thesis by blast
qed

section \<open>A concrete policy\<close>

definition demo_fs :: fs where
  "demo_fs = \<lparr>is_dir = (\<lambda>p. last p \<noteq> ''notes.txt''), resolve = id, abspath = id\<rparr>"

definition demo_grant :: "string \<Rightarrow> access \<Rightarrow> grant" where
  "demo_grant s a = \<lparr>g_path = s, g_access = a, g_strict_file = False, g_legacy_directory = False\<rparr>"

section \<open>Properties\<close>

text \<open>
  C10: The effective access does not depend on the order or the repetition of the rules of a token:
  two lists with the same rules give the same answer for every path.
\<close>

theorem path_access_order_independent:
  assumes "effective_path_access env path0 base0 writable grants rs internal = Inr a" "set grants' = set grants"
  shows "effective_path_access env path0 base0 writable grants' rs internal = Inr a"
proof -
  let ?p = "norm_path env rs path0"
  let ?e = "\<lambda>gs. map (\<lambda>g. (normalized_explicit_rule env g, g_access g)) gs"
  obtain em dm where em: "anchors_of env ?p (?e grants) = Inr em" and dm: "anchors_of env ?p DEFAULT_ACCESS_RULES = Inr dm"
    and a: "a = access_from ?p (norm_path env rs base0) writable internal (matched em) (matched dm)"
    by (rule effective_Inr [OF assms(1)])
  have same: "set (?e grants') = set (?e grants)" using assms(2) by simp
  have "\<exists>ms. anchors_of env ?p (?e grants) = Inr ms" using em by blast
  then have "\<exists>ms. anchors_of env ?p (?e grants') = Inr ms" unfolding anchors_of_ok same .
  then obtain em' where em': "anchors_of env ?p (?e grants') = Inr em'" by blast
  have "set em' = set em" unfolding anchors_of_Inr [OF em] anchors_of_Inr [OF em'] same ..
  then have "set (matched em') = set (matched em)" by (simp add: set_matched)
  note c = access_from_cong [OF this]
  show ?thesis unfolding a effective_path_access_def Let_def using em' dm by (simp add: c)
qed

theorem path_access_order_independent_witness:
  "effective_path_access demo_fs [''/'', ''srv'', ''a''] [''/'', ''srv''] True
     [demo_grant ''/srv/'' Protect, demo_grant ''/srv/a/'' RO] True False = Inr (Some RO)"
  by (rule path_access_order_independent [of demo_fs _ _ _ "[demo_grant ''/srv/a/'' RO, demo_grant ''/srv/'' Protect]"])
    code_simp+

text \<open>
  C9: An explicit absolute deny is final.  When a token has a literal (not prefix-ignoring) deny rule
  that matches the path or one of its ancestors, the answer is \<open>deny\<close>, whatever other rules the
  token has, however deep they are, and also for the internal transfer of mappings.
\<close>

theorem path_access_absolute_deny:
  assumes "effective_path_access env path0 base0 writable grants rs internal = Inr a"
    and "g \<in> set grants" "g_access g = Deny"
    and "matching_anchor env (norm_path env rs path0) (normalized_explicit_rule env g) =
      Inr (Some (anchor, False))"
  shows "a = Some Deny"
proof -
  let ?p = "norm_path env rs path0"
  obtain em dm where em: "anchors_of env ?p (map (\<lambda>g. (normalized_explicit_rule env g, g_access g)) grants) = Inr em"
    and a: "a = access_from ?p (norm_path env rs base0) writable internal (matched em) (matched dm)"
    by (rule effective_Inr [OF assms(1)])
  have "(normalized_explicit_rule env g, Deny) \<in> set (map (\<lambda>g. (normalized_explicit_rule env g, g_access g)) grants)"
    using assms(2,3) by (metis (mono_tags, lifting) image_eqI list.set_map)
  with assms(4) have "((normalized_explicit_rule env g, Deny), Some (anchor, False)) \<in> set em"
    unfolding anchors_of_Inr [OF em] by blast
  then have "(Deny, anchor, False) \<in> set (matched em)" unfolding set_matched by blast
  then have "list_ex (\<lambda>(mode, anchor, any_prefix). \<not> any_prefix) (matched em)"
    "list_ex (\<lambda>(mode, anchor, any_prefix). \<not> any_prefix \<and> mode = Deny) (matched em)"
    unfolding list_ex_iff by force+
  then show ?thesis unfolding a access_from_def Let_def by simp
qed

theorem path_access_absolute_deny_witness:
  "effective_path_access demo_fs [''/'', ''srv'', ''a'', ''b''] [''/'', ''srv''] True
     [demo_grant ''/srv/a/'' Deny, demo_grant ''/srv/a/b/'' RW] True False = Inr (Some Deny)"
proof -
  let ?gs = "[demo_grant ''/srv/a/'' Deny, demo_grant ''/srv/a/b/'' RW]"
  have "\<exists>a. effective_path_access demo_fs [''/'', ''srv'', ''a'', ''b''] [''/'', ''srv''] True ?gs True False = Inr a"
    by (rule exI [of _ "Some Deny"]) code_simp
  moreover have "matching_anchor demo_fs (norm_path demo_fs True [''/'', ''srv'', ''a'', ''b''])
      (normalized_explicit_rule demo_fs (demo_grant ''/srv/a/'' Deny)) = Inr (Some ([''/'', ''srv'', ''a''], False))"
    by code_simp
  moreover have "g_access (demo_grant ''/srv/a/'' Deny) = Deny" by (simp add: demo_grant_def)
  ultimately show ?thesis
    using path_access_absolute_deny [of demo_fs "[''/'', ''srv'', ''a'', ''b'']" "[''/'', ''srv'']" True ?gs True False _
        "demo_grant ''/srv/a/'' Deny"] by (metis list.set_intros(1))
qed

text \<open>
  Nothing outside the exported root is accessible without a literal rule for it: a path that is
  not in the root and is matched by no literal rule of the token has no access at all, however many
  prefix-ignoring rules match it.
\<close>

theorem path_access_outside_root:
  assumes "effective_path_access env path0 base0 writable grants rs internal = Inr a"
    and "\<not> within_root (norm_path env rs path0) (norm_path env rs base0)"
    and "\<forall>g \<in> set grants. \<forall>anchor.
      matching_anchor env (norm_path env rs path0) (normalized_explicit_rule env g) \<noteq>
        Inr (Some (anchor, False))"
  shows "a = None"
proof -
  let ?p = "norm_path env rs path0"
  obtain em dm where em: "anchors_of env ?p (map (\<lambda>g. (normalized_explicit_rule env g, g_access g)) grants) = Inr em"
    and a: "a = access_from ?p (norm_path env rs base0) writable internal (matched em) (matched dm)"
    by (rule effective_Inr [OF assms(1)])
  have "\<not> list_ex (\<lambda>(mode, anchor, any_prefix). \<not> any_prefix) (matched em)"
    using assms(3) unfolding list_ex_iff set_matched anchors_of_Inr [OF em] by auto
  then show ?thesis using assms(2) unfolding a access_from_def Let_def by simp
qed

theorem path_access_outside_root_witness:
  "effective_path_access demo_fs [''/'', ''etc'', ''x''] [''/'', ''srv''] True [demo_grant ''*/x/'' RW] True False = Inr None"
proof -
  let ?m = "matching_anchor demo_fs (norm_path demo_fs True [''/'', ''etc'', ''x''])
      (normalized_explicit_rule demo_fs (demo_grant ''*/x/'' RW))"
  have m: "?m = Inr (Some ([''/'', ''etc'', ''x''], True))" by code_simp
  have w: "\<not> within_root (norm_path demo_fs True [''/'', ''etc'', ''x'']) (norm_path demo_fs True [''/'', ''srv''])"
    by code_simp
  obtain a where a: "effective_path_access demo_fs [''/'', ''etc'', ''x''] [''/'', ''srv''] True [demo_grant ''*/x/'' RW] True False = Inr a"
    using default_rules_ok [of demo_fs "norm_path demo_fs True [''/'', ''etc'', ''x'']"] m
    by (auto simp: effective_path_access_def Let_def)
  from path_access_outside_root [OF this w] m a show ?thesis by simp
qed

text \<open>
  Repository metadata is protected by default.  Without explicit rules, a path below the exported
  root that has a component \<open>.git\<close> in any letter case is never readable or writable without an
  approval: the answer is \<open>protect\<close> or \<open>deny\<close>, even in a writable root.
\<close>

theorem path_access_git_protected:
  assumes "effective_path_access env path0 base0 writable [] rs False = Inr a"
    and "(norm_path env rs path0) = (norm_path env rs base0) @ rest"
    and "w \<in> set rest" "casefold w = ''.git''"
    and "within_root (norm_path env rs path0) (norm_path env rs base0)"
  shows "a = Some Protect \<or> a = Some Deny"
proof -
  let ?p = "norm_path env rs path0" and ?b = "norm_path env rs base0"
  obtain em dm where em: "anchors_of env ?p [] = Inr em" and dm: "anchors_of env ?p DEFAULT_ACCESS_RULES = Inr dm"
    and a: "a = access_from ?p ?b writable False (matched em) (matched dm)"
    using effective_Inr [OF assms(1)] by auto
  have ex: "matched em = []" using em by (simp add: matched_def)
  obtain i where "i < length rest" "rest ! i = w" using assms(3) by (auto simp: in_set_conv_nth)
  then have "length ?b + i < length ?p" "casefold (?p ! (length ?b + i)) = ''.git''"
    using assms(4) unfolding assms(2) by (simp_all add: nth_append)
  from default_directory_anchor [OF this, of env] obtain anchor where
    "matching_anchor env ?p ''*/.git/'' = Inr (Some (anchor, True))" "length ?b < length anchor" by auto
  then have git: "(Protect, anchor, True) \<in> set (matched dm)"
    unfolding set_matched anchors_of_Inr [OF dm] by (auto simp: DEFAULT_ACCESS_RULES_def)
  have modes: "m = Protect \<or> m = Deny" if "(m, q, s) \<in> set (matched dm)" for m q s
    using that unfolding set_matched anchors_of_Inr [OF dm] by (auto simp: DEFAULT_ACCESS_RULES_def)
  let ?ms = "map (\<lambda>(mode, anchor, any_prefix). (mode, anchor)) (matched dm) @ [(if writable then RW else RO, ?b)]"
  have "a = Some Deny \<or> a = decide ?ms"
    using assms(5) unfolding a ex access_from_def Let_def by simp
  moreover have "x = Protect \<or> x = Deny" if x: "decide ?ms = Some x" for x
  proof -
    obtain q where q: "(x, q) \<in> set ?ms" "\<forall>(y, r) \<in> set ?ms. length r \<le> length q"
      using decide_Some [OF x] by (auto split: prod.splits)
    have "(Protect, anchor) \<in> set ?ms" using git by force
    with q(2) have "length anchor \<le> length q" by blast
    with \<open>length ?b < length anchor\<close> q(1) modes show ?thesis by auto
  qed
  moreover have "\<exists>x. decide ?ms = Some x" by (simp add: decide_def Let_def)
  ultimately show ?thesis by auto
qed

theorem path_access_git_protected_witness:
  "effective_path_access demo_fs [''/'', ''srv'', ''.GIT'', ''config''] [''/'', ''srv''] True [] True False \<in>
     {Inr (Some Protect), Inr (Some Deny)}"
proof -
  obtain a where a: "effective_path_access demo_fs [''/'', ''srv'', ''.GIT'', ''config''] [''/'', ''srv''] True [] True False = Inr a"
    using default_rules_ok [of demo_fs "norm_path demo_fs True [''/'', ''srv'', ''.GIT'', ''config'']"]
    by (auto simp: effective_path_access_def Let_def)
  have "casefold ''.GIT'' = ''.git''" by code_simp
  moreover have "within_root (norm_path demo_fs True [''/'', ''srv'', ''.GIT'', ''config'']) (norm_path demo_fs True [''/'', ''srv''])"
    by code_simp
  ultimately show ?thesis
    using path_access_git_protected [OF a, of "[''.GIT'', ''config'']" "''.GIT''"] a
    by (simp add: norm_path_def demo_fs_def)
qed

end
