(* ===== verification/OAuth_Store.thy ===== *)
theory OAuth_Store
  imports Kapsel_Prelude
begin

text \<open>
  The OAuth store for remote clients, \<open>openkapsel/auth/oauth_store.py\<close>: connections, dynamically
  registered clients, pending authorization requests, grants and their credentials.

  Each table is the list of its rows.  Every public method runs in one transaction, so an operation
  that raises leaves the store unchanged; the one exception is the reuse of a refresh token, where the
  error is raised after the commit of the revocation.  The clock is an argument (one per reading),
  and so are the random identifiers.  SHA-256, the PKCE challenge derived from it and the URL parser
  are parameters of the operations that call them.
\<close>

type_synonym timestamp = rat

definition ACCESS_SECONDS :: timestamp where "ACCESS_SECONDS = 3600"

definition REFRESH_SECONDS :: timestamp where "REFRESH_SECONDS = 30 * 86400"

definition REQUEST_SECONDS :: timestamp where "REQUEST_SECONDS = 600"

definition SCOPE :: string where "SCOPE = ''openkapsel''"

record url =
  u_scheme :: string
  u_hostname :: "string option"
  u_username :: "string option"
  u_password :: "string option"
  u_fragment :: string
  u_port_valid :: bool

text \<open>\<open>urlsplit\<close> gives \<open>None\<close> where it raises \<open>ValueError\<close>; \<open>u_port_valid\<close> is false where reading \<open>port\<close> does.\<close>

record oauth_env =
  digest :: "string \<Rightarrow> string"
  challenge :: "string \<Rightarrow> string"
  urlsplit :: "string \<Rightarrow> url option"

section \<open>Tables\<close>

record connection =
  cn_id :: string
  cn_app :: string
  cn_workspace :: string
  cn_comment :: string
  cn_created :: timestamp
  cn_client :: "string option"
  cn_authenticated :: "timestamp option"
  cn_authorized :: "timestamp option"
  cn_used :: "timestamp option"

record client_metadata =
  md_client_id :: string
  md_name :: string
  md_redirects :: "string list"
  md_auth :: string
  md_grants :: "string list"

record client =
  cl_id :: string
  cl_connection :: string
  cl_metadata :: client_metadata
  cl_secret_hash :: "string option"
  cl_created :: timestamp

record request =
  rq_id :: string
  rq_connection :: string
  rq_client :: string
  rq_params :: "(string \<times> string) list"
  rq_expires :: timestamp
  rq_code_hash :: "string option"
  rq_app :: string
  rq_workspace :: string

record auth_grant =
  gr_id :: string
  gr_connection :: string
  gr_client :: string
  gr_expires :: timestamp
  gr_revoked :: bool

datatype cred_kind = Access | Refresh

record credential =
  cr_hash :: string
  cr_grant :: string
  cr_kind :: cred_kind
  cr_expires :: timestamp
  cr_used :: bool

record oauth_store =
  connections :: "connection list"
  clients :: "client list"
  requests :: "request list"
  grants :: "auth_grant list"
  credentials :: "credential list"

definition empty_oauth :: oauth_store where
  "empty_oauth = \<lparr>connections = [], clients = [], requests = [], grants = [], credentials = []\<rparr>"

section \<open>Helpers\<close>

definition the_connection :: "string \<Rightarrow> oauth_store \<Rightarrow> connection result" where
  "the_connection cid st =
     (case select cn_id cid (connections st) of
        None \<Rightarrow> Inl (OAuthError ''invalid_request'' 404)
      | Some c \<Rightarrow> Inr c)"

text \<open>Deleting a grant deletes its credentials (\<open>ON DELETE CASCADE\<close>).\<close>

definition delete_grants :: "(auth_grant \<Rightarrow> bool) \<Rightarrow> oauth_store \<Rightarrow> oauth_store" where
  "delete_grants P st =
     st\<lparr>grants := delete_where P (grants st),
        credentials := delete_where (\<lambda>c. \<exists>g \<in> set (grants st). P g \<and> gr_id g = cr_grant c) (credentials st)\<rparr>"

definition prune :: "timestamp \<Rightarrow> oauth_store \<Rightarrow> oauth_store" where
  "prune now st =
     (let st1 = st\<lparr>requests := delete_where (\<lambda>r. rq_expires r \<le> now) (requests st)\<rparr>;
          st2 = delete_grants (\<lambda>g. gr_expires g \<le> now) st1;
          st3 = st2\<lparr>credentials := delete_where (\<lambda>c. cr_kind c = Access \<and> cr_expires c \<le> now) (credentials st2)\<rparr>
      in st3\<lparr>clients := delete_where (\<lambda>c. cl_created c < now - 86400 \<and>
             Some (cl_id c) \<notin> cn_client ` set (connections st3)) (clients st3)\<rparr>)"

definition the_client :: "string \<Rightarrow> string \<Rightarrow> oauth_store \<Rightarrow> client result" where
  "the_client cid client_id st =
     (case find (\<lambda>c. cl_id c = client_id \<and> cl_connection c = cid) (clients st) of
        None \<Rightarrow> Inl (OAuthError ''invalid_client'' 401)
      | Some c \<Rightarrow>
          andThen (the_connection cid st) (\<lambda>conn.
            case cn_client conn of
              None \<Rightarrow> Inr c
            | Some b \<Rightarrow> if b \<noteq> [] \<and> b \<noteq> client_id then Inl (OAuthError ''unauthorized_client'' 400) else Inr c))"

section \<open>Connections\<close>

definition valid_comment :: "string \<Rightarrow> string result" where
  "valid_comment comment =
     (if strip comment = [] \<or> length (strip comment) > 200 then Inl (OAuthError ''invalid_request'' 400)
      else Inr (strip comment))"

definition oauth_create ::
  "string \<Rightarrow> string \<Rightarrow> string \<Rightarrow> string \<Rightarrow> timestamp \<Rightarrow> (oauth_store, connection) op" where
  "oauth_create app workspace comment cid now =
     attempt (valid_comment comment) (\<lambda>c st.
       if cid \<in> cn_id ` set (connections st) then (Inl IntegrityError, st)
       else let row = \<lparr>cn_id = cid, cn_app = app, cn_workspace = workspace, cn_comment = c, cn_created = now,
                       cn_client = None, cn_authenticated = None, cn_authorized = None, cn_used = None\<rparr>
            in (Inr row, st\<lparr>connections := connections st @ [row]\<rparr>))"

definition oauth_get :: "string \<Rightarrow> (oauth_store, connection) op" where
  "oauth_get cid st = (the_connection cid st, st)"

definition oauth_update ::
  "string \<Rightarrow> string \<Rightarrow> string option \<Rightarrow> string option \<Rightarrow> (oauth_store, unit) op" where
  "oauth_update cid comment app workspace =
     attempt (valid_comment comment) (\<lambda>c st.
       attempt (the_connection cid st) (\<lambda>previous st.
         let app' = (case app of None \<Rightarrow> cn_app previous | Some a \<Rightarrow> a);
             workspace' = (case workspace of None \<Rightarrow> cn_workspace previous | Some w \<Rightarrow> w);
             st1 = (if (app', workspace') \<noteq> (cn_app previous, cn_workspace previous)
                    then st\<lparr>requests := delete_where (\<lambda>r. rq_connection r = cid) (requests st)\<rparr> else st)
         in (Inr (), st1\<lparr>connections := update_where (\<lambda>x. cn_id x = cid)
               (\<lambda>x. x\<lparr>cn_comment := c, cn_app := app', cn_workspace := workspace'\<rparr>) (connections st1)\<rparr>)) st)"

definition oauth_list :: "(oauth_store, (connection \<times> client_metadata option) list) op" where
  "oauth_list st =
     (Inr (map (\<lambda>c. (c, case cn_client c of None \<Rightarrow> None
                        | Some i \<Rightarrow> map_option cl_metadata (select cl_id i (clients st))))
        (sort_key (\<lambda>c. - cn_created c) (connections st))), st)"

definition oauth_delete :: "string \<Rightarrow> (oauth_store, unit) op" where
  "oauth_delete cid st =
     attempt (the_connection cid st) (\<lambda>_ st.
       let st1 = delete_grants (\<lambda>g. gr_connection g = cid) st
       in (Inr (), st1\<lparr>connections := delete_where (\<lambda>c. cn_id c = cid) (connections st1),
             clients := delete_where (\<lambda>c. cl_connection c = cid) (clients st1),
             requests := delete_where (\<lambda>r. rq_connection r = cid) (requests st1)\<rparr>)) st"

section \<open>Registration\<close>

definition ascii_char :: "char \<Rightarrow> bool" where
  "ascii_char c \<longleftrightarrow> (of_char c :: nat) < 128"

definition host_char :: "char \<Rightarrow> bool" where
  "host_char c \<longleftrightarrow> ascii_digit c \<or> c \<in> set ''abcdefghijklmnopqrstuvwxyzABCDEFGHIJKLMNOPQRSTUVWXYZ.:-''"

definition truthy :: "string option \<Rightarrow> bool" where
  "truthy v \<longleftrightarrow> (case v of None \<Rightarrow> False | Some s \<Rightarrow> s \<noteq> [])"

definition valid_redirect :: "oauth_env \<Rightarrow> pyval \<Rightarrow> string result" where
  "valid_redirect env v =
     (case v of
        PStr uri \<Rightarrow>
          if \<not> list_all ascii_char uri \<or> CHR ''#'' \<in> set uri \<or> length uri > 2048 \<or>
             list_ex (\<lambda>c. is_space c \<or> (of_char c :: nat) < 32) uri
          then Inl (OAuthError ''invalid_redirect_uri'' 400)
          else (case urlsplit env uri of
                  None \<Rightarrow> Inl (OAuthError ''invalid_redirect_uri'' 400)
                | Some u \<Rightarrow>
                    if (u_scheme u = ''https'' \<or>
                        (u_scheme u = ''http'' \<and> (u_hostname u = Some ''127.0.0.1'' \<or> u_hostname u = Some ''::1''))) \<and>
                       truthy (u_hostname u) \<and> \<not> truthy (u_username u) \<and> \<not> truthy (u_password u) \<and>
                       u_fragment u = [] \<and>
                       (case u_hostname u of None \<Rightarrow> False | Some h \<Rightarrow> h \<noteq> [] \<and> list_all host_char h) \<and> u_port_valid u
                    then Inr uri else Inl (OAuthError ''invalid_redirect_uri'' 400))
      | _ \<Rightarrow> Inl (OAuthError ''invalid_redirect_uri'' 400))"

fun valid_redirects :: "oauth_env \<Rightarrow> pyval list \<Rightarrow> string list result" where
  "valid_redirects env [] = Inr []"
| "valid_redirects env (v # vs) =
     andThen (valid_redirect env v) (\<lambda>u. andThen (valid_redirects env vs) (\<lambda>us. Inr (u # us)))"

fun all_strings :: "pyval list \<Rightarrow> string list option" where
  "all_strings [] = Some []"
| "all_strings (PStr s # vs) = map_option ((#) s) (all_strings vs)"
| "all_strings (_ # vs) = None"

definition META_ERROR :: pyerr where
  "META_ERROR = OAuthError ''invalid_client_metadata'' 400"

definition valid_metadata :: "oauth_env \<Rightarrow> (string \<times> pyval) list \<Rightarrow> string \<Rightarrow> client_metadata result" where
  "valid_metadata env md client_id =
     andThen (case dict_get md ''redirect_uris'' of
                PList vs \<Rightarrow> if 1 \<le> length vs \<and> length vs \<le> 10 then valid_redirects env vs
                           else Inl (OAuthError ''invalid_redirect_uri'' 400)
              | _ \<Rightarrow> Inl (OAuthError ''invalid_redirect_uri'' 400)) (\<lambda>redirects.
     andThen (case dict_get_default md ''token_endpoint_auth_method'' (PStr ''client_secret_basic'') of
                PStr a \<Rightarrow> if a \<in> set [''none'', ''client_secret_post'', ''client_secret_basic''] then Inr a else Inl META_ERROR
              | _ \<Rightarrow> Inl META_ERROR) (\<lambda>auth.
     andThen (case dict_get_default md ''grant_types'' (PList [PStr ''authorization_code'', PStr ''refresh_token'']) of
                PList vs \<Rightarrow>
                  (case all_strings vs of
                     None \<Rightarrow> Inl META_ERROR
                   | Some gs \<Rightarrow> if ''authorization_code'' \<notin> set gs \<or>
                                   \<not> set gs \<subseteq> set [''authorization_code'', ''refresh_token'']
                               then Inl META_ERROR else Inr gs)
              | _ \<Rightarrow> Inl META_ERROR) (\<lambda>gs.
     if dict_get_default md ''response_types'' (PList [PStr ''code'']) \<noteq> PList [PStr ''code''] then Inl META_ERROR
     else andThen (case dict_get_default md ''client_name'' (PStr ''MCP client'') of
                     PStr n \<Rightarrow> if length n > 200 then Inl META_ERROR else Inr n
                   | _ \<Rightarrow> Inl META_ERROR) (\<lambda>name.
     if dict_get_default md ''scope'' (PStr SCOPE) \<noteq> PStr SCOPE then Inl (OAuthError ''invalid_scope'' 400)
     else Inr \<lparr>md_client_id = client_id, md_name = name, md_redirects = redirects, md_auth = auth, md_grants = gs\<rparr>))))"

definition oauth_register ::
  "oauth_env \<Rightarrow> string \<Rightarrow> (string \<times> pyval) list \<Rightarrow> string \<Rightarrow> string \<Rightarrow> timestamp \<Rightarrow> timestamp \<Rightarrow>
   (oauth_store, client_metadata \<times> string option) op" where
  "oauth_register env cid metadata client_id new_secret t0 now st =
     attempt (valid_metadata env metadata client_id) (\<lambda>md st.
       let secret = (if md_auth md \<noteq> ''none'' then Some new_secret else None); st1 = prune t0 st
       in case the_connection cid st1 of
            Inl e \<Rightarrow> (Inl e, st)
          | Inr conn \<Rightarrow>
              if truthy (cn_client conn) then (Inl META_ERROR, st)
              else if length (filter (\<lambda>c. cl_connection c = cid) (clients st1)) \<ge> 32
              then (Inl (OAuthError ''temporarily_unavailable'' 429), st)
              else if client_id \<in> cl_id ` set (clients st1) then (Inl IntegrityError, st)
              else (Inr (md, secret),
                    st1\<lparr>clients := clients st1 @ [\<lparr>cl_id = client_id, cl_connection = cid, cl_metadata = md,
                      cl_secret_hash = map_option (digest env) secret, cl_created = now\<rparr>]\<rparr>)) st"

section \<open>Authorization requests\<close>

definition field :: "(string \<times> string) list \<Rightarrow> string \<Rightarrow> string option" where
  "field d k = map_of d k"

definition field_or :: "(string \<times> string) list \<Rightarrow> string \<Rightarrow> string \<Rightarrow> string" where
  "field_or d k v = (case map_of d k of None \<Rightarrow> v | Some x \<Rightarrow> x)"

definition word_char :: "char \<Rightarrow> bool" where
  "word_char c \<longleftrightarrow> ascii_digit c \<or> c \<in> set ''abcdefghijklmnopqrstuvwxyzABCDEFGHIJKLMNOPQRSTUVWXYZ_-''"

definition verifier_char :: "char \<Rightarrow> bool" where
  "verifier_char c \<longleftrightarrow> ascii_digit c \<or> c \<in> set ''abcdefghijklmnopqrstuvwxyzABCDEFGHIJKLMNOPQRSTUVWXYZ._~-''"

definition check_params :: "client \<Rightarrow> (string \<times> string) list \<Rightarrow> string \<Rightarrow> unit result" where
  "check_params client params resource =
     (if field params ''redirect_uri'' \<notin> Some ` set (md_redirects (cl_metadata client))
      then Inl (OAuthError ''invalid_request'' 400)
      else if field params ''response_type'' \<noteq> Some ''code'' then Inl (OAuthError ''unsupported_response_type'' 400)
      else if field params ''code_challenge_method'' \<noteq> Some ''S256'' \<or>
              \<not> (length (field_or params ''code_challenge'' []) = 43 \<and>
                  list_all word_char (field_or params ''code_challenge'' []))
      then Inl (OAuthError ''invalid_request'' 400)
      else if field params ''resource'' \<noteq> Some resource then Inl (OAuthError ''invalid_target'' 400)
      else if field_or params ''scope'' SCOPE \<noteq> SCOPE then Inl (OAuthError ''invalid_scope'' 400)
      else if length (field_or params ''state'' []) > 2048 then Inl (OAuthError ''invalid_request'' 400)
      else Inr ())"

definition oauth_start ::
  "string \<Rightarrow> (string \<times> string) list \<Rightarrow> string \<Rightarrow> string \<Rightarrow> timestamp \<Rightarrow> timestamp \<Rightarrow> (oauth_store, string) op" where
  "oauth_start cid params resource rid t0 now st =
     (let st1 = prune t0 st
      in case andThen (the_client cid (field_or params ''client_id'' []) st1) (\<lambda>client.
                andThen (check_params client params resource) (\<lambda>_.
                if length (filter (\<lambda>r. rq_connection r = cid) (requests st1)) \<ge> 64
                then Inl (OAuthError ''temporarily_unavailable'' 429)
                else andThen (the_connection cid st1) (\<lambda>owner.
                if rid \<in> rq_id ` set (requests st1) then Inl IntegrityError
                else Inr \<lparr>rq_id = rid, rq_connection = cid, rq_client = field_or params ''client_id'' [], rq_params = params,
                          rq_expires = now + REQUEST_SECONDS, rq_code_hash = None, rq_app = cn_app owner,
                          rq_workspace = cn_workspace owner\<rparr>))) of
           Inl e \<Rightarrow> (Inl e, st)
         | Inr row \<Rightarrow> (Inr rid, st1\<lparr>requests := requests st1 @ [row]\<rparr>))"

definition pending_request :: "string \<Rightarrow> timestamp \<Rightarrow> oauth_store \<Rightarrow> (request \<times> connection \<times> client) result" where
  "pending_request rid now st =
     (case find (\<lambda>r. rq_id r = rid \<and> rq_expires r > now \<and> rq_code_hash r = None) (requests st) of
        None \<Rightarrow> Inl (OAuthError ''invalid_request'' 400)
      | Some r \<Rightarrow>
          andThen (the_connection (rq_connection r) st) (\<lambda>conn.
          if (rq_app r, rq_workspace r) \<noteq> (cn_app conn, cn_workspace conn) then Inl (OAuthError ''access_denied'' 403)
          else andThen (the_client (rq_connection r) (rq_client r) st) (\<lambda>client. Inr (r, conn, client))))"

definition oauth_request :: "string \<Rightarrow> timestamp \<Rightarrow> (oauth_store, request \<times> connection \<times> client) op" where
  "oauth_request rid now st = (pending_request rid now st, st)"

definition oauth_approve ::
  "oauth_env \<Rightarrow> string \<Rightarrow> (string \<times> string) option \<Rightarrow> string \<Rightarrow> timestamp \<Rightarrow> timestamp \<Rightarrow>
   (oauth_store, (string \<times> string) list \<times> string) op" where
  "oauth_approve env rid expected_binding code t0 now st =
     attempt (pending_request rid t0 st) (\<lambda>(r, conn, client) st.
       if (case expected_binding of None \<Rightarrow> False | Some b \<Rightarrow> b \<noteq> (rq_app r, rq_workspace r))
       then (Inl (OAuthError ''access_denied'' 403), st)
       else if \<exists>x \<in> set (requests st). rq_id x \<noteq> rid \<and> rq_code_hash x = Some (digest env code)
       then (Inl IntegrityError, st)
       else (Inr (rq_params r, code),
             st\<lparr>connections := update_where (\<lambda>c. cn_id c = rq_connection r)
                  (\<lambda>c. c\<lparr>cn_client := Some (rq_client r)\<rparr>) (connections st),
                requests := update_where (\<lambda>x. rq_id x = rid)
                  (\<lambda>x. x\<lparr>rq_code_hash := Some (digest env code), rq_expires := now + 120\<rparr>) (requests st)\<rparr>)) st"

definition oauth_deny :: "string \<Rightarrow> timestamp \<Rightarrow> (oauth_store, (string \<times> string) list) op" where
  "oauth_deny rid now st =
     attempt (pending_request rid now st) (\<lambda>(r, conn, client) st.
       (Inr (rq_params r), st\<lparr>requests := delete_where (\<lambda>x. rq_id x = rid) (requests st)\<rparr>)) st"

section \<open>Tokens\<close>

record issued =
  access_token :: string
  refresh_token :: string

definition issue ::
  "oauth_env \<Rightarrow> string \<Rightarrow> timestamp \<Rightarrow> string \<Rightarrow> string \<Rightarrow> timestamp \<Rightarrow> oauth_store \<Rightarrow> (issued \<times> oauth_store) result" where
  "issue env grant_id expiry acc ref now st =
     (if digest env acc \<in> cr_hash ` set (credentials st) \<or> digest env ref \<in> cr_hash ` set (credentials st) \<or>
         digest env acc = digest env ref
      then Inl IntegrityError
      else Inr (\<lparr>access_token = acc, refresh_token = ref\<rparr>,
        st\<lparr>credentials := credentials st @
          [\<lparr>cr_hash = digest env acc, cr_grant = grant_id, cr_kind = Access, cr_expires = now + ACCESS_SECONDS, cr_used = False\<rparr>,
           \<lparr>cr_hash = digest env ref, cr_grant = grant_id, cr_kind = Refresh, cr_expires = expiry, cr_used = False\<rparr>]\<rparr>))"

text \<open>The fresh values of one token exchange: grant identifier, access and refresh token.\<close>

record fresh =
  f_grant :: string
  f_access :: string
  f_refresh :: string

definition authenticate_client ::
  "oauth_env \<Rightarrow> string \<Rightarrow> (string \<times> string) list \<Rightarrow> string \<Rightarrow> string \<Rightarrow> oauth_store \<Rightarrow> client result" where
  "authenticate_client env cid form resource auth_method st =
     andThen (the_client cid (field_or form ''client_id'' []) st) (\<lambda>client.
       if auth_method \<noteq> md_auth (cl_metadata client) \<or>
          (truthy (cl_secret_hash client) \<and> cl_secret_hash client \<noteq> Some (digest env (field_or form ''client_secret'' [])))
       then Inl (OAuthError ''invalid_client'' 401)
       else if field form ''resource'' \<noteq> Some resource then Inl (OAuthError ''invalid_target'' 400)
       else Inr client)"

text \<open>Redeeming a code: the request is gone, older grants of the connection are revoked, a new one is there.\<close>

definition redeem :: "string \<Rightarrow> client \<Rightarrow> string \<Rightarrow> timestamp \<Rightarrow> request \<Rightarrow> oauth_store \<Rightarrow> oauth_store" where
  "redeem cid client gid now r st =
     st\<lparr>requests := delete_where (\<lambda>x. rq_id x = rq_id r) (requests st),
        grants := update_where (\<lambda>g. gr_connection g = cid) (\<lambda>g. g\<lparr>gr_revoked := True\<rparr>) (grants st) @
          [\<lparr>gr_id = gid, gr_connection = cid, gr_client = cl_id client, gr_expires = now + REFRESH_SECONDS,
            gr_revoked = False\<rparr>],
        connections := update_where (\<lambda>c. cn_id c = cid)
          (\<lambda>c. c\<lparr>cn_authenticated := Some (case cn_authenticated c of None \<Rightarrow> now | Some t \<Rightarrow> t),
                 cn_authorized := Some now\<rparr>) (connections st)\<rparr>"

definition exchange_code ::
  "oauth_env \<Rightarrow> string \<Rightarrow> client \<Rightarrow> (string \<times> string) list \<Rightarrow> fresh \<Rightarrow> timestamp \<Rightarrow> timestamp \<Rightarrow> oauth_store \<Rightarrow>
   (issued \<times> oauth_store) result" where
  "exchange_code env cid client form fr now t2 st =
     (let verifier = field_or form ''code_verifier'' []
      in case find (\<lambda>r. rq_code_hash r = Some (digest env (field_or form ''code'' [])) \<and> rq_connection r = cid \<and>
                        rq_client r = cl_id client \<and> rq_expires r > now) (requests st) of
           None \<Rightarrow> Inl (OAuthError ''invalid_grant'' 400)
         | Some r \<Rightarrow>
             if \<not> (43 \<le> length verifier \<and> length verifier \<le> 128 \<and> list_all verifier_char verifier)
             then Inl (OAuthError ''invalid_grant'' 400)
             else if field form ''redirect_uri'' \<noteq> field (rq_params r) ''redirect_uri'' \<or>
                     Some (challenge env verifier) \<noteq> field (rq_params r) ''code_challenge''
             then Inl (OAuthError ''invalid_grant'' 400)
             else if f_grant fr \<in> gr_id ` set (grants st) then Inl IntegrityError
             else issue env (f_grant fr) (now + REFRESH_SECONDS) (f_access fr) (f_refresh fr) t2
                    (redeem cid client (f_grant fr) now r st))"

text \<open>The second component says whether the operation commits and then raises.\<close>

definition exchange_refresh ::
  "oauth_env \<Rightarrow> string \<Rightarrow> client \<Rightarrow> (string \<times> string) list \<Rightarrow> fresh \<Rightarrow> timestamp \<Rightarrow> timestamp \<Rightarrow> oauth_store \<Rightarrow>
   (issued option \<times> oauth_store) result" where
  "exchange_refresh env cid client form fr now t2 st =
     (case find (\<lambda>c. cr_hash c = digest env (field_or form ''refresh_token'' []) \<and> cr_kind c = Refresh) (credentials st) of
        None \<Rightarrow> Inl (OAuthError ''invalid_grant'' 400)
      | Some c \<Rightarrow>
          (case select gr_id (cr_grant c) (grants st) of
             None \<Rightarrow> Inl (OAuthError ''invalid_grant'' 400)
           | Some g \<Rightarrow>
               if gr_connection g \<noteq> cid \<or> gr_client g \<noteq> cl_id client \<or> gr_revoked g \<or> cr_expires c \<le> now
               then Inl (OAuthError ''invalid_grant'' 400)
               else if cr_used c
               then Inr (None, st\<lparr>grants := update_where (\<lambda>x. gr_id x = cr_grant c) (\<lambda>x. x\<lparr>gr_revoked := True\<rparr>) (grants st)\<rparr>)
               else andThen (issue env (cr_grant c) (gr_expires g) (f_access fr) (f_refresh fr) t2
                      (st\<lparr>credentials := update_where (\<lambda>x. cr_hash x = cr_hash c) (\<lambda>x. x\<lparr>cr_used := True\<rparr>) (credentials st)\<rparr>))
                    (\<lambda>(toks, st'). Inr (Some toks, st'))))"

definition oauth_exchange ::
  "oauth_env \<Rightarrow> string \<Rightarrow> (string \<times> string) list \<Rightarrow> string \<Rightarrow> string \<Rightarrow> fresh \<Rightarrow> timestamp \<Rightarrow> timestamp \<Rightarrow> timestamp \<Rightarrow>
   (oauth_store, issued) op" where
  "oauth_exchange env cid form resource auth_method fr t0 now t2 st =
     (let st1 = prune t0 st
      in case andThen (authenticate_client env cid form resource auth_method st1) (\<lambda>client.
                if field form ''grant_type'' = Some ''authorization_code'' then
                  andThen (exchange_code env cid client form fr now t2 st1) (\<lambda>(toks, st'). Inr (Some toks, st'))
                else if field form ''grant_type'' = Some ''refresh_token'' then
                  exchange_refresh env cid client form fr now t2 st1
                else Inl (OAuthError ''unsupported_grant_type'' 400)) of
           Inl e \<Rightarrow> (Inl e, st)
         | Inr (None, st') \<Rightarrow> (Inl (OAuthError ''invalid_grant'' 400), st')
         | Inr (Some toks, st') \<Rightarrow> (Inr toks, st'))"

definition oauth_authenticate ::
  "oauth_env \<Rightarrow> string \<Rightarrow> string \<Rightarrow> timestamp \<Rightarrow> timestamp \<Rightarrow> (oauth_store, connection) op" where
  "oauth_authenticate env cid acc t1 t2 st =
     (if \<exists>c \<in> set (credentials st). \<exists>g \<in> set (grants st). gr_id g = cr_grant c \<and> cr_hash c = digest env acc \<and>
           cr_kind c = Access \<and> cr_expires c > t1 \<and> gr_expires g > t2 \<and> \<not> gr_revoked g \<and> gr_connection g = cid
      then (the_connection cid st, st)
      else (Inl (OAuthError ''invalid_token'' 401), st))"

definition oauth_touch :: "string \<Rightarrow> timestamp \<Rightarrow> timestamp \<Rightarrow> (oauth_store, unit) op" where
  "oauth_touch cid t1 t2 st =
     (Inr (), st\<lparr>connections := update_where
        (\<lambda>c. cn_id c = cid \<and> (case cn_used c of None \<Rightarrow> True | Some u \<Rightarrow> u < t2 - 60))
        (\<lambda>c. c\<lparr>cn_used := Some t1\<rparr>) (connections st)\<rparr>)"

end
