(* ===== verification/OAuth_Safety.thy ===== *)
theory OAuth_Safety
  imports OAuth_Store
begin

text \<open>
  The invariant of the OAuth store and the properties of its protocol: at most one live grant per
  connection, bounded registrations and requests, one use per authorization code, rotation of
  refresh tokens and revocation on their reuse, and what an authenticated request rests on.
\<close>

section \<open>The invariant\<close>

definition oa_keys :: "oauth_store \<Rightarrow> bool" where
  "oa_keys st \<longleftrightarrow> distinct (map cn_id (connections st)) \<and> distinct (map cl_id (clients st)) \<and>
     distinct (map rq_id (requests st)) \<and> distinct (map gr_id (grants st)) \<and> distinct (map cr_hash (credentials st))"

definition oa_refs :: "oauth_store \<Rightarrow> bool" where
  "oa_refs st \<longleftrightarrow>
     (\<forall>c \<in> set (clients st). cl_connection c \<in> cn_id ` set (connections st)) \<and>
     (\<forall>r \<in> set (requests st). \<exists>c \<in> set (connections st).
        cn_id c = rq_connection r \<and> cn_app c = rq_app r \<and> cn_workspace c = rq_workspace r) \<and>
     (\<forall>g \<in> set (grants st). gr_connection g \<in> cn_id ` set (connections st)) \<and>
     (\<forall>c \<in> set (credentials st). cr_grant c \<in> gr_id ` set (grants st))"

definition oa_live :: "oauth_store \<Rightarrow> bool" where
  "oa_live st \<longleftrightarrow>
     (\<forall>g \<in> set (grants st). \<forall>g' \<in> set (grants st).
        \<not> gr_revoked g \<longrightarrow> \<not> gr_revoked g' \<longrightarrow> gr_connection g = gr_connection g' \<longrightarrow> g = g')"

definition oa_quota :: "oauth_store \<Rightarrow> bool" where
  "oa_quota st \<longleftrightarrow>
     (\<forall>cid. length (filter (\<lambda>c. cl_connection c = cid) (clients st)) \<le> 32 \<and>
            length (filter (\<lambda>r. rq_connection r = cid) (requests st)) \<le> 64)"

definition oa_codes :: "oauth_store \<Rightarrow> bool" where
  "oa_codes st \<longleftrightarrow>
     (\<forall>r \<in> set (requests st). \<forall>r' \<in> set (requests st).
        rq_code_hash r \<noteq> None \<longrightarrow> rq_code_hash r = rq_code_hash r' \<longrightarrow> r = r')"

definition oauth_inv :: "oauth_store \<Rightarrow> bool" where
  "oauth_inv st \<longleftrightarrow> oa_keys st \<and> oa_refs st \<and> oa_live st \<and> oa_quota st \<and> oa_codes st"

lemmas oauth_inv_parts = oauth_inv_def oa_keys_def oa_live_def oa_quota_def oa_codes_def

lemma empty_oauth_inv: "oauth_inv empty_oauth"
  by (simp add: oauth_inv_parts oa_refs_def empty_oauth_def)

lemma oauth_inv_keys:
  assumes "oauth_inv st"
  shows "distinct (map cn_id (connections st))" "distinct (map cl_id (clients st))"
    "distinct (map rq_id (requests st))" "distinct (map gr_id (grants st))" "distinct (map cr_hash (credentials st))"
  using assms by (simp_all add: oauth_inv_def oa_keys_def)

text \<open>Only the tables a part of the invariant speaks about matter for it.\<close>

lemma oa_live_cong: "grants st' = grants st \<Longrightarrow> oa_live st' = oa_live st"
  by (simp add: oa_live_def)

lemma oa_codes_cong: "requests st' = requests st \<Longrightarrow> oa_codes st' = oa_codes st"
  by (simp add: oa_codes_def)

lemma oa_quota_cong: "clients st' = clients st \<Longrightarrow> requests st' = requests st \<Longrightarrow> oa_quota st' = oa_quota st"
  by (simp add: oa_quota_def)

lemma connections_inv:
  assumes "oauth_inv st" "distinct (map cn_id cs)" "oa_refs (st\<lparr>connections := cs\<rparr>)"
  shows "oauth_inv (st\<lparr>connections := cs\<rparr>)"
proof -
  let ?st = "st\<lparr>connections := cs\<rparr>"
  have "oa_live ?st = oa_live st" by (rule oa_live_cong) simp
  moreover have "oa_codes ?st = oa_codes st" by (rule oa_codes_cong) simp
  moreover have "oa_quota ?st = oa_quota st" by (rule oa_quota_cong) simp_all
  moreover have "oa_keys ?st" using assms(1,2) by (simp add: oauth_inv_def oa_keys_def)
  ultimately show ?thesis using assms(1,3) by (simp add: oauth_inv_def)
qed

section \<open>Deleting rows\<close>

lemma length_filter_filter_le: "length (filter Q (filter P xs)) \<le> length (filter Q xs)"
  by (induction xs) auto

lemma shrink_inv:
  assumes "oauth_inv st" "connections st' = filter PC (connections st)" "clients st' = filter PL (clients st)"
    "requests st' = filter PR (requests st)" "grants st' = filter PG (grants st)"
    "credentials st' = filter PK (credentials st)" "oa_refs st'"
  shows "oauth_inv st'"
proof -
  have "oa_keys st'"
    using oauth_inv_keys [OF assms(1)] unfolding oa_keys_def assms(2-6) by (simp add: distinct_map_filter)
  moreover have "oa_quota st'"
    using assms(1) unfolding oauth_inv_def oa_quota_def assms(3,4)
    by (meson length_filter_filter_le order_trans)
  moreover have "oa_live st'" "oa_codes st'"
    using assms(1) unfolding oauth_inv_def oa_live_def oa_codes_def assms(4,5) by auto
  ultimately show ?thesis using assms(7) by (simp add: oauth_inv_def)
qed

text \<open>Rewriting connections without touching their keys, and so that pending requests keep their owner.\<close>

lemma connections_update_inv:
  assumes inv: "oauth_inv st" and key: "\<And>c. cn_id (f c) = cn_id c"
    and owner: "\<And>r c. r \<in> set (requests st) \<Longrightarrow> c \<in> set (connections st) \<Longrightarrow> P c \<Longrightarrow> cn_id c = rq_connection r \<Longrightarrow>
      cn_app c = rq_app r \<Longrightarrow> cn_workspace c = rq_workspace r \<Longrightarrow> cn_app (f c) = rq_app r \<and> cn_workspace (f c) = rq_workspace r"
  shows "oauth_inv (st\<lparr>connections := update_where P f (connections st)\<rparr>)"
proof -
  let ?cs = "update_where P f (connections st)"
  let ?g = "\<lambda>c. if P c then f c else c"
  have ids: "map cn_id ?cs = map cn_id (connections st)" using key by (simp add: map_update_where)
  then have iset: "cn_id ` set ?cs = cn_id ` set (connections st)" by (metis list.set_map)
  have R: "oa_refs st" using inv by (simp add: oauth_inv_def)
  have "\<exists>c \<in> set ?cs. cn_id c = rq_connection r \<and> cn_app c = rq_app r \<and> cn_workspace c = rq_workspace r"
    if r: "r \<in> set (requests st)" for r
  proof -
    obtain c where c: "c \<in> set (connections st)" "cn_id c = rq_connection r" "cn_app c = rq_app r"
      "cn_workspace c = rq_workspace r"
      using R r unfolding oa_refs_def by blast
    have "?g c \<in> set ?cs" unfolding set_update_where using c(1) by (rule imageI)
    moreover have "cn_id (?g c) = rq_connection r \<and> cn_app (?g c) = rq_app r \<and> cn_workspace (?g c) = rq_workspace r"
      using c key owner [OF r c(1) _ c(2-4)] by auto
    ultimately show ?thesis by blast
  qed
  with R have "oa_refs (st\<lparr>connections := ?cs\<rparr>)" unfolding oa_refs_def by (simp add: iset)
  moreover have "distinct (map cn_id ?cs)" using oauth_inv_keys(1) [OF inv] ids by simp
  ultimately show ?thesis using connections_inv [OF inv] by blast
qed

lemma delete_grants_refs:
  assumes "oauth_inv st"
  shows "\<forall>c \<in> set (credentials (delete_grants P st)). cr_grant c \<in> gr_id ` set (grants (delete_grants P st))"
proof
  fix c assume c: "c \<in> set (credentials (delete_grants P st))"
  then obtain g where g: "g \<in> set (grants st)" "gr_id g = cr_grant c"
    using assms unfolding delete_grants_def oauth_inv_def oa_refs_def by (auto simp: set_delete_where)
  with c have "\<not> P g" by (auto simp: delete_grants_def set_delete_where)
  with g show "cr_grant c \<in> gr_id ` set (grants (delete_grants P st))"
    by (auto simp: delete_grants_def set_delete_where intro!: image_eqI [of _ _ g])
qed

lemma delete_grants_tables [simp]:
  "connections (delete_grants P st) = connections st" "clients (delete_grants P st) = clients st"
  "requests (delete_grants P st) = requests st" "grants (delete_grants P st) = filter (\<lambda>g. \<not> P g) (grants st)"
  by (simp_all add: delete_grants_def delete_where_def)

lemma prune_tables [simp]:
  "connections (prune now st) = connections st"
  "requests (prune now st) = filter (\<lambda>r. \<not> rq_expires r \<le> now) (requests st)"
  "grants (prune now st) = filter (\<lambda>g. \<not> gr_expires g \<le> now) (grants st)"
  "clients (prune now st) = filter (\<lambda>c. \<not> (cl_created c < now - 86400 \<and> Some (cl_id c) \<notin> cn_client ` set (connections st)))
     (clients st)"
  by (simp_all add: prune_def Let_def delete_where_def delete_grants_def)

lemma prune_credentials:
  "credentials (prune now st) = filter (\<lambda>c. \<not> (\<exists>g \<in> set (grants st). gr_expires g \<le> now \<and> gr_id g = cr_grant c) \<and>
     \<not> (cr_kind c = Access \<and> cr_expires c \<le> now)) (credentials st)"
  by (simp add: prune_def Let_def delete_where_def delete_grants_def)

lemma prune_inv: "oauth_inv st \<Longrightarrow> oauth_inv (prune now st)"
proof -
  assume inv: "oauth_inv st"
  let ?d = "delete_grants (\<lambda>g. gr_expires g \<le> now) st"
  have "set (credentials (prune now st)) \<subseteq> set (credentials ?d)"
    unfolding prune_credentials by (auto simp: delete_grants_def delete_where_def)
  moreover have "\<forall>c \<in> set (credentials ?d). cr_grant c \<in> gr_id ` set (grants (prune now st))"
    using delete_grants_refs [OF inv, of "\<lambda>g. gr_expires g \<le> now"] by simp
  ultimately have "\<forall>c \<in> set (credentials (prune now st)). cr_grant c \<in> gr_id ` set (grants (prune now st))" by blast
  then have "oa_refs (prune now st)"
    using inv unfolding oauth_inv_def oa_refs_def by simp
  then show ?thesis
    by (intro shrink_inv [OF inv, of _ "\<lambda>_. True"]) (simp_all add: prune_credentials)
qed

section \<open>Every operation keeps the invariant\<close>

lemma oauth_create_inv: "oauth_inv st \<Longrightarrow> oauth_inv (snd (oauth_create app ws comment cid now st))"
proof (cases "\<exists>c. valid_comment comment = Inr c \<and> cid \<notin> cn_id ` set (connections st)")
  case True
  assume inv: "oauth_inv st"
  from True obtain c where c: "valid_comment comment = Inr c" "cid \<notin> cn_id ` set (connections st)" by blast
  obtain row where st': "snd (oauth_create app ws comment cid now st) = st\<lparr>connections := connections st @ [row]\<rparr>"
    and row: "cn_id row = cid"
    using c by (simp add: oauth_create_def Let_def)
  have "oa_refs (st\<lparr>connections := connections st @ [row]\<rparr>)"
    using inv unfolding oauth_inv_def oa_refs_def by auto
  then show ?thesis unfolding st' using oauth_inv_keys(1) [OF inv] c(2) row by (intro connections_inv [OF inv]) simp_all
qed (auto simp: oauth_create_def attempt_def Let_def split: sum.splits)

lemma oauth_delete_inv: "oauth_inv st \<Longrightarrow> oauth_inv (snd (oauth_delete cid st))"
proof (cases "the_connection cid st")
  case (Inr c)
  assume inv: "oauth_inv st"
  let ?st = "snd (oauth_delete cid st)"
  have t: "connections ?st = filter (\<lambda>c. \<not> cn_id c = cid) (connections st)"
    "clients ?st = filter (\<lambda>c. \<not> cl_connection c = cid) (clients st)"
    "requests ?st = filter (\<lambda>r. \<not> rq_connection r = cid) (requests st)"
    "grants ?st = filter (\<lambda>g. \<not> gr_connection g = cid) (grants st)"
    "credentials ?st = credentials (delete_grants (\<lambda>g. gr_connection g = cid) st)"
    using Inr by (simp_all add: oauth_delete_def Let_def delete_where_def)
  have "oa_refs ?st"
    unfolding oa_refs_def t
  proof (intro conjI)
    have r: "oa_refs st" using inv by (simp add: oauth_inv_def)
    show "\<forall>c \<in> set (filter (\<lambda>c. \<not> cl_connection c = cid) (clients st)).
        cl_connection c \<in> cn_id ` set (filter (\<lambda>c. \<not> cn_id c = cid) (connections st))"
      using r unfolding oa_refs_def by (auto simp: image_iff)
    show "\<forall>g \<in> set (filter (\<lambda>g. \<not> gr_connection g = cid) (grants st)).
        gr_connection g \<in> cn_id ` set (filter (\<lambda>c. \<not> cn_id c = cid) (connections st))"
      using r unfolding oa_refs_def by (auto simp: image_iff)
    show "\<forall>r \<in> set (filter (\<lambda>r. \<not> rq_connection r = cid) (requests st)).
        \<exists>c \<in> set (filter (\<lambda>c. \<not> cn_id c = cid) (connections st)).
          cn_id c = rq_connection r \<and> cn_app c = rq_app r \<and> cn_workspace c = rq_workspace r"
      using r unfolding oa_refs_def by (simp, metis)
  qed (use delete_grants_refs [OF inv, of "\<lambda>g. gr_connection g = cid"] in simp)
  then show ?thesis
    by (intro shrink_inv [OF inv t(1-4)]) (auto simp: t(5) delete_grants_def delete_where_def)
qed (simp add: oauth_delete_def)

lemma the_connection_Inr: "the_connection cid st = Inr c \<Longrightarrow> c \<in> set (connections st) \<and> cn_id c = cid"
  by (auto simp: the_connection_def dest: select_Some split: option.splits)

lemma the_connection_mem: "the_connection cid st = Inr c \<Longrightarrow> cid \<in> cn_id ` set (connections st)"
  using the_connection_Inr [of cid st c] by blast

lemma requests_filter_inv:
  assumes "oauth_inv st"
  shows "oauth_inv (st\<lparr>requests := filter P (requests st)\<rparr>)"
proof -
  have "oa_refs (st\<lparr>requests := filter P (requests st)\<rparr>)"
    using assms unfolding oauth_inv_def oa_refs_def by auto
  then show ?thesis
    by (intro shrink_inv [OF assms, of _ "\<lambda>_. True" "\<lambda>_. True" P "\<lambda>_. True" "\<lambda>_. True"]) simp_all
qed

lemma oauth_update_inv: "oauth_inv st \<Longrightarrow> oauth_inv (snd (oauth_update cid comment app ws st))"
proof -
  assume inv: "oauth_inv st"
  show ?thesis
  proof (cases "\<exists>c prev. valid_comment comment = Inr c \<and> the_connection cid st = Inr prev")
    case False
    then show ?thesis using inv by (auto simp: oauth_update_def attempt_def split: sum.splits)
  next
    case True
    then obtain c prev where ok: "valid_comment comment = Inr c" "the_connection cid st = Inr prev" by blast
    define app' where "app' = (case app of None \<Rightarrow> cn_app prev | Some a \<Rightarrow> a)"
    define ws' where "ws' = (case ws of None \<Rightarrow> cn_workspace prev | Some w \<Rightarrow> w)"
    define f where "f x = x\<lparr>cn_comment := c, cn_app := app', cn_workspace := ws'\<rparr>" for x :: connection
    define st1 where "st1 = (if (app', ws') \<noteq> (cn_app prev, cn_workspace prev)
      then st\<lparr>requests := delete_where (\<lambda>r. rq_connection r = cid) (requests st)\<rparr> else st)"
    have st': "snd (oauth_update cid comment app ws st) =
        st1\<lparr>connections := update_where (\<lambda>x. cn_id x = cid) f (connections st1)\<rparr>"
      using ok by (simp add: oauth_update_def Let_def st1_def app'_def [symmetric] ws'_def [symmetric] f_def [symmetric, abs_def])
    have inv1: "oauth_inv st1"
      unfolding st1_def delete_where_def using inv requests_filter_inv by simp
    note prev = the_connection_Inr [OF ok(2)]
    have c1: "connections st1 = connections st" by (simp add: st1_def)
    have only: "x = prev" if "x \<in> set (connections st)" "cn_id x = cid" for x
      using key_unique [OF oauth_inv_keys(1) [OF inv] that(1)] prev that(2) by simp
    have same: "(app', ws') = (cn_app prev, cn_workspace prev)" if "r \<in> set (requests st1)" "rq_connection r = cid" for r
      using that by (auto simp: st1_def set_delete_where split: if_splits)
    show ?thesis unfolding st'
    proof (rule connections_update_inv [OF inv1])
      fix r x assume r: "r \<in> set (requests st1)" "x \<in> set (connections st1)" "cn_id x = cid" "cn_id x = rq_connection r"
        "cn_app x = rq_app r" "cn_workspace x = rq_workspace r"
      then have "x = prev" "(app', ws') = (cn_app prev, cn_workspace prev)" using only same c1 by auto
      with r show "cn_app (f x) = rq_app r \<and> cn_workspace (f x) = rq_workspace r" by (simp add: f_def)
    qed (simp add: f_def)
  qed
qed

lemma clients_append_inv:
  assumes "oauth_inv st" "cl_id c \<notin> cl_id ` set (clients st)" "cl_connection c \<in> cn_id ` set (connections st)"
    "length (filter (\<lambda>x. cl_connection x = cl_connection c) (clients st)) < 32"
  shows "oauth_inv (st\<lparr>clients := clients st @ [c]\<rparr>)"
proof -
  let ?st = "st\<lparr>clients := clients st @ [c]\<rparr>"
  have "oa_live ?st = oa_live st" by (rule oa_live_cong) simp
  moreover have "oa_codes ?st = oa_codes st" by (rule oa_codes_cong) simp
  moreover have "oa_quota ?st" using assms(1,4) by (auto simp: oauth_inv_def oa_quota_def)
  moreover have "oa_keys ?st" using oauth_inv_keys [OF assms(1)] assms(2) by (simp add: oa_keys_def)
  moreover have "oa_refs ?st" using assms(1,3) unfolding oauth_inv_def oa_refs_def by simp
  ultimately show ?thesis using assms(1) by (simp add: oauth_inv_def)
qed

lemma oauth_register_inv: "oauth_inv st \<Longrightarrow> oauth_inv (snd (oauth_register env cid md client_id sec t0 now st))"
proof -
  assume inv: "oauth_inv st"
  have inv1: "oauth_inv (prune t0 st)" by (rule prune_inv [OF inv])
  have "oauth_inv ((prune t0 st)\<lparr>clients := clients (prune t0 st) @ [c]\<rparr>)"
    if "the_connection cid (prune t0 st) = Inr conn" "cl_connection c = cid" "cl_id c \<notin> cl_id ` set (clients (prune t0 st))"
      "\<not> 32 \<le> length (filter (\<lambda>c. cl_connection c = cid) (clients (prune t0 st)))" for c conn
    using that the_connection_mem [OF that(1)] by (intro clients_append_inv [OF inv1]) (simp_all del: prune_tables)
  with inv show ?thesis
    by (simp add: oauth_register_def attempt_def Let_def del: prune_tables split: sum.splits)
qed

lemma requests_append_inv:
  assumes "oauth_inv st" "rq_id r \<notin> rq_id ` set (requests st)" "rq_code_hash r = None"
    "\<exists>c \<in> set (connections st). cn_id c = rq_connection r \<and> cn_app c = rq_app r \<and> cn_workspace c = rq_workspace r"
    "length (filter (\<lambda>x. rq_connection x = rq_connection r) (requests st)) < 64"
  shows "oauth_inv (st\<lparr>requests := requests st @ [r]\<rparr>)"
proof -
  let ?st = "st\<lparr>requests := requests st @ [r]\<rparr>"
  have "oa_live ?st = oa_live st" by (rule oa_live_cong) simp
  moreover have "oa_codes st" using assms(1) by (simp add: oauth_inv_def)
  then have "oa_codes ?st"
    using assms(3) unfolding oa_codes_def by (simp, metis option.distinct(1))
  moreover have "oa_quota ?st" using assms(1,5) by (auto simp: oauth_inv_def oa_quota_def)
  moreover have "oa_keys ?st" using oauth_inv_keys [OF assms(1)] assms(2) by (simp add: oa_keys_def)
  moreover have "oa_refs ?st" using assms(1,4) unfolding oauth_inv_def oa_refs_def by simp
  ultimately show ?thesis using assms(1) by (simp add: oauth_inv_def)
qed

lemma oauth_start_inv: "oauth_inv st \<Longrightarrow> oauth_inv (snd (oauth_start cid params resource rid t0 now st))"
proof -
  assume inv: "oauth_inv st"
  let ?p = "prune t0 st"
  have inv1: "oauth_inv ?p" by (rule prune_inv [OF inv])
  have "oauth_inv (?p\<lparr>requests := requests ?p @ [r]\<rparr>)"
    if "the_connection cid ?p = Inr owner" "\<not> 64 \<le> length (filter (\<lambda>r. rq_connection r = cid) (requests ?p))"
      "rid \<notin> rq_id ` set (requests ?p)" "rq_id r = rid" "rq_connection r = cid" "rq_code_hash r = None"
      "rq_app r = cn_app owner" "rq_workspace r = cn_workspace owner" for r owner
    using that the_connection_Inr [OF that(1)] by (intro requests_append_inv [OF inv1]) (auto simp del: prune_tables)
  with inv show ?thesis
    unfolding oauth_start_def Let_def by (auto simp del: prune_tables split: sum.splits if_splits)
qed

lemma requests_code_inv:
  assumes inv: "oauth_inv st" and new: "\<And>x. x \<in> set (requests st) \<Longrightarrow> rq_id x \<noteq> rid \<Longrightarrow> rq_code_hash x \<noteq> Some h"
  shows "oauth_inv (st\<lparr>requests := update_where (\<lambda>x. rq_id x = rid) (\<lambda>x. x\<lparr>rq_code_hash := Some h, rq_expires := e\<rparr>)
    (requests st)\<rparr>)"
proof -
  let ?f = "\<lambda>x. x\<lparr>rq_code_hash := Some h, rq_expires := e\<rparr>"
  let ?g = "\<lambda>x. if rq_id x = rid then ?f x else x"
  let ?st = "st\<lparr>requests := update_where (\<lambda>x. rq_id x = rid) ?f (requests st)\<rparr>"
  have "oa_live ?st = oa_live st" by (rule oa_live_cong) simp
  moreover have "oa_codes ?st"
    unfolding oa_codes_def
  proof (intro ballI impI)
    fix r r' assume r: "r \<in> set (requests ?st)" "r' \<in> set (requests ?st)" "rq_code_hash r \<noteq> None" "rq_code_hash r = rq_code_hash r'"
    then obtain x y where x: "x \<in> set (requests st)" "r = ?g x" and y: "y \<in> set (requests st)" "r' = ?g y"
      by (auto simp: set_update_where)
    consider "rq_id x = rid" "rq_id y = rid" | "rq_id x = rid" "rq_id y \<noteq> rid" | "rq_id x \<noteq> rid" "rq_id y = rid"
      | "rq_id x \<noteq> rid" "rq_id y \<noteq> rid" by blast
    then show "r = r'"
    proof cases
      case 1
      then have "x = y" using key_unique [OF oauth_inv_keys(3) [OF inv] x(1) y(1)] by simp
      with x y show ?thesis by simp
    next
      case 2
      with r(4) x y new show ?thesis by fastforce
    next
      case 3
      with r(4) x y new show ?thesis by fastforce
    next
      case 4
      have c: "oa_codes st" using inv by (simp add: oauth_inv_def)
      from 4 x y have "r = x" "r' = y" by simp_all
      with c r(3,4) x(1) y(1) show ?thesis unfolding oa_codes_def by blast
    qed
  qed
  moreover have "oa_quota ?st"
    using inv unfolding oauth_inv_def oa_quota_def by (simp add: length_filter_update_where_eq)
  moreover have "oa_keys ?st" using oauth_inv_keys [OF inv] by (simp add: oa_keys_def map_update_where)
  moreover have "oa_refs ?st" using inv unfolding oauth_inv_def oa_refs_def by (auto simp: set_update_where)
  ultimately show ?thesis using inv by (simp add: oauth_inv_def)
qed

lemma oauth_approve_inv: "oauth_inv st \<Longrightarrow> oauth_inv (snd (oauth_approve env rid expected code t0 now st))"
proof -
  assume inv: "oauth_inv st"
  have "oauth_inv (st\<lparr>connections := update_where (\<lambda>c. cn_id c = k) (\<lambda>c. c\<lparr>cn_client := v\<rparr>) (connections st),
      requests := update_where (\<lambda>x. rq_id x = rid) (\<lambda>x. x\<lparr>rq_code_hash := Some h, rq_expires := e\<rparr>) (requests st)\<rparr>)"
    if "\<forall>x \<in> set (requests st). rq_id x \<noteq> rid \<longrightarrow> rq_code_hash x \<noteq> Some h" for k v h e
  proof -
    have "oauth_inv (st\<lparr>connections := update_where (\<lambda>c. cn_id c = k) (\<lambda>c. c\<lparr>cn_client := v\<rparr>) (connections st)\<rparr>)"
      by (rule connections_update_inv [OF inv]) simp_all
    from requests_code_inv [OF this, of rid h e] that show ?thesis by simp
  qed
  note step = this
  show ?thesis
  proof (cases "pending_request rid t0 st")
    case (Inl e)
    with inv show ?thesis by (simp add: oauth_approve_def)
  next
    case (Inr t)
    obtain r conn client where "t = (r, conn, client)" by (cases t) auto
    with Inr inv step [of "digest env code" "now + 120" "rq_connection r" "Some (rq_client r)"] show ?thesis
      by (auto simp: oauth_approve_def)
  qed
qed

lemma oauth_deny_inv: "oauth_inv st \<Longrightarrow> oauth_inv (snd (oauth_deny rid now st))"
  using requests_filter_inv unfolding oauth_deny_def attempt_def delete_where_def
  by (simp split: sum.splits prod.splits)

lemma oauth_touch_inv: "oauth_inv st \<Longrightarrow> oauth_inv (snd (oauth_touch cid t1 t2 st))"
  unfolding oauth_touch_def snd_conv by (rule connections_update_inv) simp_all

lemma grants_revoke_inv:
  assumes inv: "oauth_inv st"
  shows "oauth_inv (st\<lparr>grants := update_where P (\<lambda>g. g\<lparr>gr_revoked := True\<rparr>) (grants st)\<rparr>)"
proof -
  let ?st = "st\<lparr>grants := update_where P (\<lambda>g. g\<lparr>gr_revoked := True\<rparr>) (grants st)\<rparr>"
  have old: "g \<in> set (grants st)" if "g \<in> set (grants ?st)" "\<not> gr_revoked g" for g
    using that by (auto simp: set_update_where split: if_splits)
  have "oa_live st" using inv by (simp add: oauth_inv_def)
  then have "oa_live ?st" using old unfolding oa_live_def by blast
  moreover have "oa_codes ?st = oa_codes st" by (rule oa_codes_cong) simp
  moreover have "oa_quota ?st = oa_quota st" by (rule oa_quota_cong) simp_all
  moreover have ids: "map gr_id (grants ?st) = map gr_id (grants st)" by (simp add: map_update_where)
  then have "oa_keys ?st" using oauth_inv_keys [OF inv] by (simp add: oa_keys_def)
  moreover have "gr_id ` set (grants ?st) = gr_id ` set (grants st)" using ids by (metis list.set_map)
  moreover have "\<forall>g \<in> set (grants ?st). gr_connection g \<in> cn_id ` set (connections st)"
    using inv unfolding oauth_inv_def oa_refs_def by (auto simp: set_update_where)
  ultimately show ?thesis using inv unfolding oauth_inv_def oa_refs_def by simp
qed

lemma grants_append_inv:
  assumes inv: "oauth_inv st" and g: "gr_id g \<notin> gr_id ` set (grants st)" "gr_connection g \<in> cn_id ` set (connections st)"
    and dead: "\<And>x. x \<in> set (grants st) \<Longrightarrow> gr_connection x = gr_connection g \<Longrightarrow> gr_revoked x"
  shows "oauth_inv (st\<lparr>grants := grants st @ [g]\<rparr>)"
proof -
  let ?st = "st\<lparr>grants := grants st @ [g]\<rparr>"
  have live: "oa_live st" using inv by (simp add: oauth_inv_def)
  have "oa_live ?st"
    unfolding oa_live_def
  proof (intro ballI impI)
    fix x y assume "x \<in> set (grants ?st)" "y \<in> set (grants ?st)" "\<not> gr_revoked x" "\<not> gr_revoked y"
      "gr_connection x = gr_connection y"
    then show "x = y" using live dead [of x] dead [of y] unfolding oa_live_def by auto
  qed
  moreover have "oa_codes ?st = oa_codes st" by (rule oa_codes_cong) simp
  moreover have "oa_quota ?st = oa_quota st" by (rule oa_quota_cong) simp_all
  moreover have "oa_keys ?st" using oauth_inv_keys [OF inv] g(1) by (simp add: oa_keys_def)
  moreover have "oa_refs ?st" using inv g(2) unfolding oauth_inv_def oa_refs_def by simp
  ultimately show ?thesis using inv by (simp add: oauth_inv_def)
qed

lemma credentials_inv:
  assumes "oauth_inv st" "distinct (map cr_hash cs)" "\<forall>c \<in> set cs. cr_grant c \<in> gr_id ` set (grants st)"
  shows "oauth_inv (st\<lparr>credentials := cs\<rparr>)"
proof -
  let ?st = "st\<lparr>credentials := cs\<rparr>"
  have "oa_live ?st = oa_live st" by (rule oa_live_cong) simp
  moreover have "oa_codes ?st = oa_codes st" by (rule oa_codes_cong) simp
  moreover have "oa_quota ?st = oa_quota st" by (rule oa_quota_cong) simp_all
  moreover have "oa_keys ?st" using oauth_inv_keys [OF assms(1)] assms(2) by (simp add: oa_keys_def)
  moreover have "oa_refs ?st" using assms(1,3) unfolding oauth_inv_def oa_refs_def by simp
  ultimately show ?thesis using assms(1) by (simp add: oauth_inv_def)
qed

lemma issue_inv:
  assumes "oauth_inv st" "gid \<in> gr_id ` set (grants st)" "issue env gid expiry a r now st = Inr (toks, st')"
  shows "oauth_inv st'"
proof -
  obtain c1 c2 where st': "st' = st\<lparr>credentials := credentials st @ [c1, c2]\<rparr>"
    and c: "cr_hash c1 \<notin> cr_hash ` set (credentials st)" "cr_hash c2 \<notin> cr_hash ` set (credentials st)"
    "cr_hash c1 \<noteq> cr_hash c2" "cr_grant c1 = gid" "cr_grant c2 = gid"
    using assms(3) by (auto simp: issue_def split: if_splits)
  have "\<forall>c \<in> set (credentials st). cr_grant c \<in> gr_id ` set (grants st)"
    using assms(1) by (simp add: oauth_inv_def oa_refs_def)
  then show ?thesis
    unfolding st' using oauth_inv_keys(5) [OF assms(1)] assms(2) c by (intro credentials_inv [OF assms(1)]) auto
qed

lemma the_client_mem: "the_client cid k st = Inr c \<Longrightarrow> c \<in> set (clients st) \<and> cl_id c = k \<and> cl_connection c = cid"
  by (auto simp: the_client_def dest!: find_Some_mem split: option.splits if_splits)

lemma authenticate_client_mem:
  "authenticate_client env cid form res m st = Inr c \<Longrightarrow> c \<in> set (clients st) \<and> cl_connection c = cid"
  by (auto simp: authenticate_client_def dest: the_client_mem split: if_splits)

lemma revoked_rows:
  "x \<in> set (update_where (\<lambda>g. gr_connection g = cid) (\<lambda>g. g\<lparr>gr_revoked := True\<rparr>) gs) \<Longrightarrow> gr_connection x = cid \<Longrightarrow>
   gr_revoked x"
  unfolding set_update_where by (erule imageE, rename_tac g, case_tac "gr_connection g = cid") simp_all

lemma redeem_inv:
  assumes inv: "oauth_inv st" and conn: "cid \<in> cn_id ` set (connections st)" and gid: "gid \<notin> gr_id ` set (grants st)"
  shows "oauth_inv (redeem cid client gid now r st)"
proof -
  let ?gs = "update_where (\<lambda>g. gr_connection g = cid) (\<lambda>g. g\<lparr>gr_revoked := True\<rparr>) (grants st)"
  let ?g = "\<lparr>gr_id = gid, gr_connection = cid, gr_client = cl_id client, gr_expires = now + REFRESH_SECONDS,
    gr_revoked = False\<rparr>"
  let ?a = "st\<lparr>requests := delete_where (\<lambda>x. rq_id x = rq_id r) (requests st)\<rparr>"
  let ?b = "?a\<lparr>grants := ?gs\<rparr>"
  have "oauth_inv ?a" unfolding delete_where_def by (rule requests_filter_inv [OF inv])
  from grants_revoke_inv [OF this, of "\<lambda>g. gr_connection g = cid"] have "oauth_inv ?b" by simp
  moreover have "map gr_id ?gs = map gr_id (grants st)" by (simp add: map_update_where)
  then have "gr_id ` set ?gs = gr_id ` set (grants st)" by (metis list.set_map)
  with gid have "gr_id ?g \<notin> gr_id ` set (grants ?b)" by simp
  moreover have "gr_connection ?g \<in> cn_id ` set (connections ?b)" using conn by simp
  moreover have "gr_revoked x" if "x \<in> set (grants ?b)" "gr_connection x = gr_connection ?g" for x
    using that revoked_rows by simp
  ultimately have "oauth_inv (?b\<lparr>grants := grants ?b @ [?g]\<rparr>)" by (rule grants_append_inv)
  from connections_update_inv [OF this, of "\<lambda>c. c\<lparr>cn_authenticated := Some (case cn_authenticated c of None \<Rightarrow> now | Some t \<Rightarrow> t),
      cn_authorized := Some now\<rparr>" "\<lambda>c. cn_id c = cid"]
  show ?thesis by (simp add: redeem_def)
qed

lemma exchange_code_ok:
  assumes "exchange_code env cid client form fr now t2 st = Inr (toks, st')"
  obtains r where "r \<in> set (requests st)" "rq_code_hash r = Some (digest env (field_or form ''code'' []))"
    "rq_connection r = cid" "rq_client r = cl_id client" "now < rq_expires r"
    "field form ''redirect_uri'' = field (rq_params r) ''redirect_uri''"
    "field (rq_params r) ''code_challenge'' = Some (challenge env (field_or form ''code_verifier'' []))"
    "f_grant fr \<notin> gr_id ` set (grants st)"
    "issue env (f_grant fr) (now + REFRESH_SECONDS) (f_access fr) (f_refresh fr) t2
       (redeem cid client (f_grant fr) now r st) = Inr (toks, st')"
  using assms unfolding exchange_code_def Let_def
  by (auto dest!: find_Some_mem split: option.splits if_splits)

lemma exchange_code_inv:
  assumes inv: "oauth_inv st" and conn: "cid \<in> cn_id ` set (connections st)"
    and ex: "exchange_code env cid client form fr now t2 st = Inr (toks, st')"
  shows "oauth_inv st'"
proof -
  obtain r where gid: "f_grant fr \<notin> gr_id ` set (grants st)"
    and iss: "issue env (f_grant fr) (now + REFRESH_SECONDS) (f_access fr) (f_refresh fr) t2
      (redeem cid client (f_grant fr) now r st) = Inr (toks, st')"
    by (rule exchange_code_ok [OF ex])
  show ?thesis by (rule issue_inv [OF redeem_inv [OF inv conn gid] _ iss]) (simp add: redeem_def)
qed

lemma exchange_refresh_inv:
  assumes inv: "oauth_inv st" and ex: "exchange_refresh env cid client form fr now t2 st = Inr (toks, st')"
  shows "oauth_inv st'"
proof -
  obtain c g where c: "c \<in> set (credentials st)" and g: "g \<in> set (grants st)" "gr_id g = cr_grant c"
    and cases: "st' = st\<lparr>grants := update_where (\<lambda>x. gr_id x = cr_grant c) (\<lambda>x. x\<lparr>gr_revoked := True\<rparr>) (grants st)\<rparr> \<or>
      (\<exists>t. issue env (cr_grant c) (gr_expires g) (f_access fr) (f_refresh fr) t2
         (st\<lparr>credentials := update_where (\<lambda>x. cr_hash x = cr_hash c) (\<lambda>x. x\<lparr>cr_used := True\<rparr>) (credentials st)\<rparr>) = Inr (t, st'))"
    using ex unfolding exchange_refresh_def
    by (auto dest!: select_Some find_Some_mem split: option.splits if_splits)
  let ?u = "st\<lparr>credentials := update_where (\<lambda>x. cr_hash x = cr_hash c) (\<lambda>x. x\<lparr>cr_used := True\<rparr>) (credentials st)\<rparr>"
  have "oauth_inv ?u"
  proof (rule credentials_inv [OF inv])
    show "distinct (map cr_hash (update_where (\<lambda>x. cr_hash x = cr_hash c) (\<lambda>x. x\<lparr>cr_used := True\<rparr>) (credentials st)))"
      using oauth_inv_keys(5) [OF inv] by (simp add: map_update_where)
  qed (use inv in \<open>auto simp: oauth_inv_def oa_refs_def set_update_where\<close>)
  moreover have "cr_grant c \<in> gr_id ` set (grants ?u)" using g by force
  ultimately show ?thesis using cases grants_revoke_inv [OF inv] issue_inv by blast
qed

lemma oauth_exchange_inv:
  "oauth_inv st \<Longrightarrow> oauth_inv (snd (oauth_exchange env cid form resource m fr t0 now t2 st))"
proof -
  assume inv: "oauth_inv st"
  let ?p = "prune t0 st"
  have inv1: "oauth_inv ?p" by (rule prune_inv [OF inv])
  have code: "oauth_inv st'" if "authenticate_client env cid form resource m ?p = Inr c"
    "exchange_code env cid c form fr now t2 ?p = Inr (toks, st')" for c toks st'
  proof -
    have "cid \<in> cn_id ` set (connections ?p)"
      using authenticate_client_mem [OF that(1)] inv1 unfolding oauth_inv_def oa_refs_def by blast
    from exchange_code_inv [OF inv1 this that(2)] show ?thesis .
  qed
  show ?thesis
  proof (cases "authenticate_client env cid form resource m ?p")
    case (Inl e)
    with inv show ?thesis by (simp add: oauth_exchange_def)
  next
    case (Inr c)
    show ?thesis
      using inv Inr code [OF Inr] exchange_refresh_inv [OF inv1]
      unfolding oauth_exchange_def Let_def
      by (cases "exchange_code env cid c form fr now t2 ?p"; cases "exchange_refresh env cid c form fr now t2 ?p")
        (auto split: option.splits)
  qed
qed

section \<open>Reachable states\<close>

inductive oauth_step :: "oauth_env \<Rightarrow> oauth_store \<Rightarrow> oauth_store \<Rightarrow> bool" for env where
  create: "oauth_step env st (snd (oauth_create app ws comment cid now st))"
| update: "oauth_step env st (snd (oauth_update cid comment app_opt ws_opt st))"
| delete: "oauth_step env st (snd (oauth_delete cid st))"
| register: "oauth_step env st (snd (oauth_register env cid md client_id secret t0 now st))"
| start: "oauth_step env st (snd (oauth_start cid params resource rid t0 now st))"
| approve: "oauth_step env st (snd (oauth_approve env rid expected code t0 now st))"
| deny: "oauth_step env st (snd (oauth_deny rid now st))"
| exchange: "oauth_step env st (snd (oauth_exchange env cid form resource m fr t0 now t2 st))"
| touch: "oauth_step env st (snd (oauth_touch cid t1 t2 st))"

inductive_cases oauth_stepE: "oauth_step env st st'"

lemma oauth_step_inv: "oauth_inv st \<Longrightarrow> oauth_step env st st' \<Longrightarrow> oauth_inv st'"
  by (erule oauth_stepE)
    (simp_all only: oauth_create_inv oauth_update_inv oauth_delete_inv oauth_register_inv oauth_start_inv
      oauth_approve_inv oauth_deny_inv oauth_exchange_inv oauth_touch_inv)

interpretation oauth: state_machine "\<lambda>st. st = empty_oauth" "oauth_step env" oauth_inv for env
  by unfold_locales (auto intro: empty_oauth_inv oauth_step_inv)

section \<open>The client of a connection\<close>

definition binding_kept :: "oauth_store \<Rightarrow> oauth_store \<Rightarrow> bool" where
  "binding_kept st st' \<longleftrightarrow>
     (\<forall>c' \<in> set (connections st'). \<forall>c \<in> set (connections st). cn_id c = cn_id c' \<longrightarrow> truthy (cn_client c) \<longrightarrow> cn_client c' = cn_client c)"

lemma binding_kept_from:
  assumes "oauth_inv st" "\<And>c'. c' \<in> set (connections st') \<Longrightarrow>
    (\<exists>c \<in> set (connections st). cn_id c = cn_id c' \<and> cn_client c = cn_client c') \<or> cn_id c' \<notin> cn_id ` set (connections st)"
  shows "binding_kept st st'"
  unfolding binding_kept_def
proof (intro ballI impI)
  fix c' c assume c: "c' \<in> set (connections st')" "c \<in> set (connections st)" "cn_id c = cn_id c'"
  then have "cn_id c' \<in> cn_id ` set (connections st)" by (metis imageI)
  with assms(2) [OF c(1)] obtain d where d: "d \<in> set (connections st)" "cn_id d = cn_id c'" "cn_client d = cn_client c'" by blast
  with key_unique [OF oauth_inv_keys(1) [OF assms(1)] d(1) c(2)] c(3) show "cn_client c' = cn_client c" by simp
qed

lemma binding_kept_update:
  assumes "oauth_inv st" "connections st' = update_where P f (connections st)"
    "\<And>c. cn_id (f c) = cn_id c \<and> cn_client (f c) = cn_client c"
  shows "binding_kept st st'"
proof (rule binding_kept_from [OF assms(1)])
  fix c' assume "c' \<in> set (connections st')"
  then obtain c where "c \<in> set (connections st)" "c' = (if P c then f c else c)"
    unfolding assms(2) set_update_where by blast
  with assms(3) show "(\<exists>c \<in> set (connections st). cn_id c = cn_id c' \<and> cn_client c = cn_client c') \<or>
      cn_id c' \<notin> cn_id ` set (connections st)" by (cases "P c") auto
qed

lemma binding_kept_subset:
  "oauth_inv st \<Longrightarrow> set (connections st') \<subseteq> set (connections st) \<Longrightarrow> binding_kept st st'"
  by (rule binding_kept_from) blast+

lemma issue_connections: "issue env gid e a r now st = Inr (toks, st') \<Longrightarrow> connections st' = connections st"
  by (auto simp: issue_def split: if_splits)

lemma binding_kept_exchange:
  assumes inv: "oauth_inv st"
  shows "binding_kept st (snd (oauth_exchange env cid form resource m fr t0 now t2 st))"
proof -
  let ?p = "prune t0 st" and ?st = "snd (oauth_exchange env cid form resource m fr t0 now t2 st)"
  have code: "binding_kept st st'" if ex: "exchange_code env cid c form fr now t2 ?p = Inr (toks, st')" for c toks st'
  proof -
    obtain r where "issue env (f_grant fr) (now + REFRESH_SECONDS) (f_access fr) (f_refresh fr) t2
      (redeem cid c (f_grant fr) now r ?p) = Inr (toks, st')"
      by (rule exchange_code_ok [OF ex])
    from issue_connections [OF this] show ?thesis
      by (intro binding_kept_update [OF inv], simp add: redeem_def) simp
  qed
  have refresh: "binding_kept st st'" if "exchange_refresh env cid c form fr now t2 ?p = Inr (toks, st')" for c toks st'
  proof -
    have "connections st' = connections ?p"
      using that unfolding exchange_refresh_def
      by (auto dest!: issue_connections split: option.splits if_splits)
    then show ?thesis by (intro binding_kept_subset [OF inv]) simp
  qed
  have same: "binding_kept st st" by (rule binding_kept_subset [OF inv]) simp
  show ?thesis
  proof (cases "authenticate_client env cid form resource m ?p")
    case (Inl e)
    with same show ?thesis by (simp add: oauth_exchange_def)
  next
    case (Inr c)
    show ?thesis
      using Inr code [of c] refresh [of c] same unfolding oauth_exchange_def Let_def
      by (cases "exchange_code env cid c form fr now t2 ?p"; cases "exchange_refresh env cid c form fr now t2 ?p")
        (auto split: option.splits)
  qed
qed

lemma binding_kept_approve:
  assumes inv: "oauth_inv st"
  shows "binding_kept st (snd (oauth_approve env rid expected code t0 now st))"
proof (cases "pending_request rid t0 st")
  case (Inl e)
  then show ?thesis by (simp add: oauth_approve_def binding_kept_subset [OF inv])
next
  case (Inr t)
  obtain r conn client where t: "t = (r, conn, client)" by (cases t) auto
  let ?st = "snd (oauth_approve env rid expected code t0 now st)"
  have cl: "the_client (rq_connection r) (rq_client r) st = Inr client" "the_connection (rq_connection r) st = Inr conn"
    using Inr unfolding t pending_request_def by (auto split: option.splits if_splits dest: find_Some_mem)
  have bound: "truthy (cn_client conn) \<Longrightarrow> cn_client conn = Some (rq_client r)"
    using cl by (auto simp: the_client_def truthy_def split: option.splits if_splits)
  show ?thesis
  proof (cases "connections ?st = connections st")
    case True
    then show ?thesis by (intro binding_kept_subset [OF inv]) simp
  next
    case False
    then have cs: "connections ?st = update_where (\<lambda>c. cn_id c = rq_connection r) (\<lambda>c. c\<lparr>cn_client := Some (rq_client r)\<rparr>) (connections st)"
      using Inr t by (auto simp: oauth_approve_def split: if_splits)
    show ?thesis
      unfolding binding_kept_def
    proof (intro ballI impI)
      fix c' c assume c: "c' \<in> set (connections ?st)" "c \<in> set (connections st)" "cn_id c = cn_id c'" "truthy (cn_client c)"
      obtain d where d: "d \<in> set (connections st)"
        "c' = (if cn_id d = rq_connection r then d\<lparr>cn_client := Some (rq_client r)\<rparr> else d)"
        using c(1) unfolding cs set_update_where by blast
      have "cn_id d = cn_id c" using d(2) c(3) by (cases "cn_id d = rq_connection r") simp_all
      then have dc: "d = c" by (rule key_unique [OF oauth_inv_keys(1) [OF inv] d(1) c(2)])
      show "cn_client c' = cn_client c"
      proof (cases "cn_id c = rq_connection r")
        case True
        with the_connection_Inr [OF cl(2)] key_unique [OF oauth_inv_keys(1) [OF inv] c(2)] have "c = conn" by simp
        with bound c(4) d(2) dc True show ?thesis by simp
      qed (use d(2) dc in simp)
    qed
  qed
qed

lemma binding_kept_step:
  assumes "oauth_inv st" "oauth_step env st st'"
  shows "binding_kept st st'"
  using assms(2)
proof (cases rule: oauth_step.cases)
  case (create app ws comment cid now)
  show ?thesis unfolding create
    by (rule binding_kept_from [OF assms(1)])
      (auto simp: oauth_create_def attempt_def Let_def split: sum.splits if_splits)
next
  case (update cid comment app_opt ws_opt)
  show ?thesis unfolding update oauth_update_def attempt_def Let_def
    by (auto split: sum.splits intro: binding_kept_subset [OF assms(1)] binding_kept_update [OF assms(1)])
next
  case (delete cid)
  show ?thesis unfolding delete
    by (rule binding_kept_subset [OF assms(1)]) (auto simp: oauth_delete_def attempt_def Let_def set_delete_where split: sum.splits)
next
  case (register cid md client_id secret t0 now)
  show ?thesis unfolding register
    by (rule binding_kept_subset [OF assms(1)]) (auto simp: oauth_register_def attempt_def Let_def split: sum.splits if_splits)
next
  case (start cid params resource rid t0 now)
  show ?thesis unfolding start
    by (rule binding_kept_subset [OF assms(1)]) (auto simp: oauth_start_def Let_def split: sum.splits)
next
  case (approve rid expected code t0 now)
  then show ?thesis using binding_kept_approve [OF assms(1)] by simp
next
  case (deny rid now)
  show ?thesis unfolding deny
    by (rule binding_kept_subset [OF assms(1)]) (auto simp: oauth_deny_def attempt_def split: sum.splits)
next
  case (exchange cid form resource m fr t0 now t2)
  then show ?thesis using binding_kept_exchange [OF assms(1)] by simp
next
  case (touch cid t1 t2)
  show ?thesis unfolding touch oauth_touch_def snd_conv by (rule binding_kept_update [OF assms(1)], simp) simp
qed

end
