(* ===== verification/OAuth_Properties.thy ===== *)
theory OAuth_Properties
  imports OAuth_Safety
begin

text \<open>
  The properties of the OAuth store, with a concrete run of the protocol (registration, request,
  approval, exchange of the code, refresh) on which they are instantiated.
\<close>

section \<open>A concrete run\<close>

definition demo_oauth :: oauth_env where
  "demo_oauth = \<lparr>digest = (\<lambda>s. CHR ''h'' # s), challenge = id,
     urlsplit = (\<lambda>s. Some \<lparr>u_scheme = ''https'', u_hostname = Some ''app'', u_username = None, u_password = None,
       u_fragment = '''', u_port_valid = True\<rparr>)\<rparr>"

definition key43 :: string where
  "key43 = replicate 43 (CHR ''k'')"

definition demo_md :: "(string \<times> pyval) list" where
  "demo_md = [(''redirect_uris'', PList [PStr ''https://app/cb'']), (''token_endpoint_auth_method'', PStr ''none'')]"

definition demo_params :: "(string \<times> string) list" where
  "demo_params = [(''client_id'', ''cl''), (''redirect_uri'', ''https://app/cb''), (''response_type'', ''code''),
     (''code_challenge_method'', ''S256''), (''code_challenge'', key43), (''resource'', ''res'')]"

definition demo_form :: "(string \<times> string) list" where
  "demo_form = [(''client_id'', ''cl''), (''grant_type'', ''authorization_code''), (''code'', ''code''),
     (''code_verifier'', key43), (''redirect_uri'', ''https://app/cb''), (''resource'', ''res'')]"

definition demo_fresh :: fresh where
  "demo_fresh = \<lparr>f_grant = ''g1'', f_access = ''a1'', f_refresh = ''r1''\<rparr>"

definition oa1 :: oauth_store where
  "oa1 = snd (oauth_create ''app'' ''ws'' ''mine'' ''c1'' 0 empty_oauth)"

definition oa2 :: oauth_store where
  "oa2 = snd (oauth_register demo_oauth ''c1'' demo_md ''cl'' ''s'' 0 0 oa1)"

definition oa3 :: oauth_store where
  "oa3 = snd (oauth_start ''c1'' demo_params ''res'' ''q1'' 0 0 oa2)"

definition oa4 :: oauth_store where
  "oa4 = snd (oauth_approve demo_oauth ''q1'' None ''code'' 1 1 oa3)"

definition oa5 :: oauth_store where
  "oa5 = snd (oauth_exchange demo_oauth ''c1'' demo_form ''res'' ''none'' demo_fresh 2 2 2 oa4)"

lemma oa_reachable:
  "(oauth_step demo_oauth)\<^sup>*\<^sup>* empty_oauth oa1" "(oauth_step demo_oauth)\<^sup>*\<^sup>* empty_oauth oa2"
  "(oauth_step demo_oauth)\<^sup>*\<^sup>* empty_oauth oa3" "(oauth_step demo_oauth)\<^sup>*\<^sup>* empty_oauth oa4"
  "(oauth_step demo_oauth)\<^sup>*\<^sup>* empty_oauth oa5"
proof -
  show 1: "(oauth_step demo_oauth)\<^sup>*\<^sup>* empty_oauth oa1" unfolding oa1_def by (rule r_into_rtranclp, rule oauth_step.create)
  show 2: "(oauth_step demo_oauth)\<^sup>*\<^sup>* empty_oauth oa2"
    unfolding oa2_def by (rule rtranclp.rtrancl_into_rtrancl [OF 1], rule oauth_step.register)
  show 3: "(oauth_step demo_oauth)\<^sup>*\<^sup>* empty_oauth oa3"
    unfolding oa3_def by (rule rtranclp.rtrancl_into_rtrancl [OF 2], rule oauth_step.start)
  show 4: "(oauth_step demo_oauth)\<^sup>*\<^sup>* empty_oauth oa4"
    unfolding oa4_def by (rule rtranclp.rtrancl_into_rtrancl [OF 3], rule oauth_step.approve)
  show "(oauth_step demo_oauth)\<^sup>*\<^sup>* empty_oauth oa5"
    unfolding oa5_def by (rule rtranclp.rtrancl_into_rtrancl [OF 4], rule oauth_step.exchange)
qed

definition demo_conn :: "string option \<Rightarrow> timestamp option \<Rightarrow> connection" where
  "demo_conn b t = \<lparr>cn_id = ''c1'', cn_app = ''app'', cn_workspace = ''ws'', cn_comment = ''mine'', cn_created = 0,
     cn_client = b, cn_authenticated = t, cn_authorized = t, cn_used = None\<rparr>"

definition demo_client :: client where
  "demo_client = \<lparr>cl_id = ''cl'', cl_connection = ''c1'', cl_metadata = \<lparr>md_client_id = ''cl'', md_name = ''MCP client'',
     md_redirects = [''https://app/cb''], md_auth = ''none'', md_grants = [''authorization_code'', ''refresh_token'']\<rparr>,
     cl_secret_hash = None, cl_created = 0\<rparr>"

definition demo_request :: "timestamp \<Rightarrow> string option \<Rightarrow> request" where
  "demo_request e h = \<lparr>rq_id = ''q1'', rq_connection = ''c1'', rq_client = ''cl'', rq_params = demo_params, rq_expires = e,
     rq_code_hash = h, rq_app = ''app'', rq_workspace = ''ws''\<rparr>"

lemma oa1_value: "oa1 = \<lparr>connections = [demo_conn None None], clients = [], requests = [], grants = [], credentials = []\<rparr>"
  by (simp add: oa1_def oauth_create_def valid_comment_def strip_def lstrip_def is_space_def empty_oauth_def
      demo_conn_def Let_def)

lemma demo_metadata: "valid_metadata demo_oauth demo_md ''cl'' = Inr (cl_metadata demo_client)"
  by (simp add: valid_metadata_def demo_md_def demo_oauth_def dict_get_def dict_get_default_def valid_redirect_def
      ascii_char_def is_space_def truthy_def host_char_def SCOPE_def demo_client_def)

lemmas prune_eval = prune_def delete_grants_def delete_where_def Let_def

lemma demo_fields [simp]:
  "cn_id (demo_conn b t) = ''c1''" "cn_client (demo_conn b t) = b" "cn_app (demo_conn b t) = ''app''"
  "cn_workspace (demo_conn b t) = ''ws''" "cn_authenticated (demo_conn b t) = t"
  "cl_id demo_client = ''cl''" "cl_connection demo_client = ''c1''" "cl_created demo_client = 0"
  "cl_secret_hash demo_client = None" "md_auth (cl_metadata demo_client) = ''none''"
  "md_redirects (cl_metadata demo_client) = [''https://app/cb'']"
  "rq_id (demo_request e h) = ''q1''" "rq_connection (demo_request e h) = ''c1''" "rq_client (demo_request e h) = ''cl''"
  "rq_params (demo_request e h) = demo_params" "rq_expires (demo_request e h) = e" "rq_code_hash (demo_request e h) = h"
  "rq_app (demo_request e h) = ''app''" "rq_workspace (demo_request e h) = ''ws''"
  "digest demo_oauth s = CHR ''h'' # s" "challenge demo_oauth s = s"
  by (simp_all add: demo_conn_def demo_client_def demo_request_def demo_oauth_def)

lemma oa2_value:
  "oa2 = \<lparr>connections = [demo_conn None None], clients = [demo_client], requests = [], grants = [], credentials = []\<rparr>"
  unfolding oa2_def oauth_register_def oa1_value
  by (simp add: demo_metadata prune_eval the_connection_def select_def truthy_def)

lemma demo_check: "check_params demo_client demo_params ''res'' = Inr ()"
  by (simp add: check_params_def demo_params_def field_def field_or_def key43_def word_char_def SCOPE_def list_all_iff)

lemma demo_params_fields:
  "field_or demo_params ''client_id'' [] = ''cl''" "field demo_params ''redirect_uri'' = Some ''https://app/cb''"
  "field demo_params ''code_challenge'' = Some key43"
  by (simp_all add: demo_params_def field_def field_or_def)

lemma oa3_value:
  "oa3 = \<lparr>connections = [demo_conn None None], clients = [demo_client], requests = [demo_request 600 None], grants = [],
     credentials = []\<rparr>"
  unfolding oa3_def oauth_start_def oa2_value
  by (simp add: prune_eval the_client_def the_connection_def select_def demo_check demo_params_fields)
    (simp add: demo_request_def REQUEST_SECONDS_def)

lemma oa4_value:
  "oa4 = \<lparr>connections = [demo_conn (Some ''cl'') None], clients = [demo_client],
     requests = [demo_request 121 (Some ''hcode'')], grants = [], credentials = []\<rparr>"
  unfolding oa4_def oauth_approve_def oa3_value
  by (simp add: pending_request_def the_client_def the_connection_def select_def update_where_def)
    (simp add: demo_request_def demo_conn_def)

lemma demo_form_fields:
  "field_or demo_form ''client_id'' [] = ''cl''" "field demo_form ''redirect_uri'' = Some ''https://app/cb''"
  "field_or demo_form ''code_verifier'' [] = key43" "field_or demo_form ''code'' [] = ''code''"
  "field demo_form ''resource'' = Some ''res''" "field demo_form ''grant_type'' = Some ''authorization_code''"
  by (simp_all add: demo_form_def field_def field_or_def)

definition demo_live :: auth_grant where
  "demo_live = \<lparr>gr_id = ''g1'', gr_connection = ''c1'', gr_client = ''cl'', gr_expires = 2592002, gr_revoked = False\<rparr>"

lemma demo_exchange:
  "oauth_exchange demo_oauth ''c1'' demo_form ''res'' ''none'' demo_fresh 2 2 2 oa4 =
   (Inr \<lparr>access_token = ''a1'', refresh_token = ''r1''\<rparr>,
    \<lparr>connections = [demo_conn (Some ''cl'') (Some 2)], clients = [demo_client], requests = [], grants = [demo_live],
     credentials = [\<lparr>cr_hash = ''ha1'', cr_grant = ''g1'', cr_kind = Access, cr_expires = 3602, cr_used = False\<rparr>,
       \<lparr>cr_hash = ''hr1'', cr_grant = ''g1'', cr_kind = Refresh, cr_expires = 2592002, cr_used = False\<rparr>]\<rparr>)"
proof -
  have k: "length key43 = 43" "list_all verifier_char key43" by (simp_all add: key43_def verifier_char_def list_all_iff)
  show ?thesis
    unfolding oauth_exchange_def oa4_value
    by (simp add: prune_eval authenticate_client_def the_client_def the_connection_def select_def truthy_def
        exchange_code_def demo_form_fields demo_params_fields k demo_fresh_def issue_def redeem_def
        update_where_def)
      (simp add: demo_conn_def demo_live_def REFRESH_SECONDS_def ACCESS_SECONDS_def)
qed

section \<open>Grants, codes and tokens\<close>

lemma find_unique:
  assumes "x \<in> set xs" "P x" "\<And>y. y \<in> set xs \<Longrightarrow> P y \<Longrightarrow> y = x"
  shows "find P xs = Some x"
proof (cases "find P xs")
  case None
  with assms(1,2) show ?thesis by (metis find_None_iff)
next
  case (Some y)
  with assms(3) find_Some_mem [OF Some] show ?thesis by metis
qed

lemma revoked_by_id:
  "x \<in> set (update_where (\<lambda>x. gr_id x = k) (\<lambda>x. x\<lparr>gr_revoked := True\<rparr>) gs) \<Longrightarrow> gr_id x = k \<Longrightarrow> gr_revoked x"
  unfolding set_update_where by (erule imageE, rename_tac g, case_tac "gr_id g = k") simp_all

lemma oauth_reachable_inv: "(oauth_step env)\<^sup>*\<^sup>* empty_oauth st \<Longrightarrow> oauth_inv st"
  using oauth.reachable_inv [OF refl] by blast

text \<open>
  C8: In every reachable state a connection has at most one grant that is not revoked, at most 32
  registered clients and at most 64 authorization requests.
\<close>

theorem oauth_one_live_grant:
  assumes "(oauth_step env)\<^sup>*\<^sup>* empty_oauth st"
  shows "length (filter (\<lambda>g. gr_connection g = cid \<and> \<not> gr_revoked g) (grants st)) \<le> 1 \<and>
    length (filter (\<lambda>c. cl_connection c = cid) (clients st)) \<le> 32 \<and>
    length (filter (\<lambda>r. rq_connection r = cid) (requests st)) \<le> 64"
proof -
  have inv: "oauth_inv st" by (rule oauth_reachable_inv [OF assms])
  have "distinct (grants st)" using oauth_inv_keys(4) [OF inv] by (simp add: distinct_map)
  then have "length (filter (\<lambda>g. gr_connection g = cid \<and> \<not> gr_revoked g) (grants st)) \<le> 1"
    by (rule distinct_filter_le_1) (use inv in \<open>auto simp: oauth_inv_def oa_live_def\<close>)
  with inv show ?thesis by (simp add: oauth_inv_def oa_quota_def)
qed

theorem oauth_one_live_grant_witness:
  "length (filter (\<lambda>g. gr_connection g = ''c1'' \<and> \<not> gr_revoked g) (grants oa5)) \<le> 1 \<and> grants oa5 = [demo_live]"
  using oauth_one_live_grant [OF oa_reachable(5), of "''c1''"] unfolding oa5_def demo_exchange by simp

text \<open>A code is spent when no request carries its hash; only an approval that draws the same code brings it back.\<close>

definition code_spent :: "string \<Rightarrow> oauth_store \<Rightarrow> bool" where
  "code_spent h st \<longleftrightarrow> (\<forall>r \<in> set (requests st). rq_code_hash r \<noteq> Some h)"

definition approves_with :: "oauth_env \<Rightarrow> string \<Rightarrow> oauth_store \<Rightarrow> oauth_store \<Rightarrow> bool" where
  "approves_with env h st st' \<longleftrightarrow>
     (\<exists>rid expected code t0 now v. oauth_approve env rid expected code t0 now st = (Inr v, st') \<and> digest env code = h)"

text \<open>The steps of a run in which the code is not drawn again.\<close>

definition other_step :: "oauth_env \<Rightarrow> string \<Rightarrow> oauth_store \<Rightarrow> oauth_store \<Rightarrow> bool" where
  "other_step env h st st' \<longleftrightarrow> oauth_step env st st' \<and> \<not> approves_with env h st st'"

lemma code_spent_subset: "code_spent h st \<Longrightarrow> set (requests st') \<subseteq> set (requests st) \<Longrightarrow> code_spent h st'"
  by (auto simp: code_spent_def)

lemma issue_requests: "issue env gid e a r now st = Inr (toks, st') \<Longrightarrow> requests st' = requests st"
  by (auto simp: issue_def split: if_splits)

lemma exchange_requests: "set (requests (snd (oauth_exchange env cid form resource m fr t0 now t2 st))) \<subseteq> set (requests st)"
proof -
  let ?p = "prune t0 st"
  have code: "set (requests st') \<subseteq> set (requests st)" if ex: "exchange_code env cid c form fr now t2 ?p = Inr (toks, st')" for c toks st'
  proof -
    obtain r where "issue env (f_grant fr) (now + REFRESH_SECONDS) (f_access fr) (f_refresh fr) t2 (redeem cid c (f_grant fr) now r ?p) = Inr (toks, st')"
      by (rule exchange_code_ok [OF ex])
    from issue_requests [OF this] show ?thesis by (auto simp: redeem_def delete_where_def)
  qed
  have refresh: "set (requests st') \<subseteq> set (requests st)" if ex: "exchange_refresh env cid c form fr now t2 ?p = Inr (toks, st')" for c toks st'
    using ex unfolding exchange_refresh_def by (auto dest!: issue_requests split: option.splits if_splits)
  show ?thesis
  proof (cases "authenticate_client env cid form resource m ?p")
    case (Inl e)
    then show ?thesis by (simp add: oauth_exchange_def)
  next
    case (Inr c)
    show ?thesis
      using Inr code [where c = c] refresh [where c = c] unfolding oauth_exchange_def Let_def
      by (cases "exchange_code env cid c form fr now t2 ?p"; cases "exchange_refresh env cid c form fr now t2 ?p")
        (auto split: option.splits)
  qed
qed

lemma approve_spent:
  assumes s: "code_spent h st" and n: "\<not> approves_with env h st (snd (oauth_approve env rid expected code t0 now st))"
  shows "code_spent h (snd (oauth_approve env rid expected code t0 now st))"
proof (cases "oauth_approve env rid expected code t0 now st")
  case (Pair v st')
  show ?thesis
  proof (cases v)
    case (Inl e)
    then have "st' = st" using Pair unfolding oauth_approve_def attempt_def
      by (auto split: sum.splits if_splits)
    then show ?thesis using s Pair by simp
  next
    case (Inr x)
    then have d: "digest env code \<noteq> h" using n Pair unfolding approves_with_def by (metis snd_conv)
    have "requests st' = update_where (\<lambda>x. rq_id x = rid) (\<lambda>x. x\<lparr>rq_code_hash := Some (digest env code), rq_expires := now + 120\<rparr>) (requests st)"
      using Pair Inr unfolding oauth_approve_def attempt_def by (auto split: sum.splits if_splits)
    then show ?thesis using s d Pair by (auto simp: code_spent_def set_update_where)
  qed
qed

lemma other_step_spent: "other_step env h st st' \<Longrightarrow> code_spent h st \<Longrightarrow> code_spent h st'"
proof -
  assume o: "other_step env h st st'" and s: "code_spent h st"
  from o have n: "\<not> approves_with env h st st'" and st: "oauth_step env st st'" by (simp_all add: other_step_def)
  from st show ?thesis
  proof cases
    case (create app ws comment cid now)
    then show ?thesis using s by (auto simp: oauth_create_def attempt_def Let_def intro: code_spent_subset split: sum.splits)
  next
    case (update cid comment app_opt ws_opt)
    then show ?thesis using s
      by (auto simp: oauth_update_def attempt_def Let_def delete_where_def intro!: code_spent_subset [OF s] split: sum.splits if_splits)
  next
    case (delete cid)
    then show ?thesis
      by (auto simp: oauth_delete_def attempt_def Let_def delete_where_def intro!: code_spent_subset [OF s] split: sum.splits)
  next
    case (register cid md client_id secret t0 now)
    then show ?thesis
      by (auto simp: oauth_register_def attempt_def Let_def delete_where_def intro!: code_spent_subset [OF s] split: sum.splits if_splits)
  next
    case (start cid params resource rid t0 now)
    then show ?thesis using s
      by (auto simp: oauth_start_def Let_def code_spent_def delete_where_def split: sum.splits if_splits)
  next
    case (approve rid expected code t0 now)
    then show ?thesis using approve_spent [OF s] n by simp
  next
    case (deny rid now)
    then show ?thesis
      by (auto simp: oauth_deny_def attempt_def delete_where_def intro!: code_spent_subset [OF s] split: sum.splits)
  next
    case (exchange cid form resource m fr t0 now t2)
    then show ?thesis by (simp only: code_spent_subset [OF s exchange_requests])
  next
    case (touch cid t1 t2)
    then show ?thesis using s by (simp add: oauth_touch_def code_spent_def)
  qed
qed

lemma spent_code_refused:
  assumes s: "code_spent (digest env (field_or form ''code'' [])) st" and g: "field form ''grant_type'' = Some ''authorization_code''"
  shows "\<exists>e. oauth_exchange env cid form resource m fr t0 now t2 st = (Inl e, st)"
proof -
  have none: "find (\<lambda>r. rq_code_hash r = Some (digest env (field_or form ''code'' [])) \<and> rq_connection r = cid \<and> rq_client r = cl_id c \<and>
      now < rq_expires r) (requests (prune t0 st)) = None" for c
    using s by (auto simp: find_None_iff code_spent_def)
  have refused: "exchange_code env cid c form fr now t2 (prune t0 st) = Inl (OAuthError ''invalid_grant'' 400)" for c
    unfolding exchange_code_def Let_def none by simp
  show ?thesis
    by (cases "authenticate_client env cid form resource m (prune t0 st)") (simp_all add: oauth_exchange_def g refused)
qed

text \<open>
  C6: An authorization code is good for one exchange, by its own client.  When an exchange of a code
  succeeds, there was an unexpired approved request of that connection, made by the client that now presents
  itself, whose redirect URI is the one presented and whose PKCE challenge is the challenge of the presented
  verifier.  From then on every exchange of the same code, by whomever and with whatever verifier, fails and
  changes nothing, however many other operations have been carried out in between, as long as no approval
  draws the same code again.
\<close>

theorem oauth_code_single_use:
  assumes "(oauth_step env)\<^sup>*\<^sup>* empty_oauth st"
    and "oauth_exchange env cid form resource m fr t0 now t2 st = (Inr toks, st')"
    and "field form ''grant_type'' = Some ''authorization_code''"
    and "(other_step env (digest env (field_or form ''code'' [])))\<^sup>*\<^sup>* st' st''"
    and "field form' ''grant_type'' = Some ''authorization_code''" "field_or form' ''code'' [] = field_or form ''code'' []"
  shows "(\<exists>r \<in> set (requests st). rq_connection r = cid \<and> rq_client r = field_or form ''client_id'' [] \<and> now < rq_expires r \<and>
      rq_code_hash r = Some (digest env (field_or form ''code'' [])) \<and>
      field form ''redirect_uri'' = field (rq_params r) ''redirect_uri'' \<and>
      field (rq_params r) ''code_challenge'' = Some (challenge env (field_or form ''code_verifier'' []))) \<and>
    (\<exists>e. oauth_exchange env cid' form' resource' m' fr' t0' now' t2' st'' = (Inl e, st''))"
proof -
  have inv1: "oauth_inv (prune t0 st)" by (rule prune_inv [OF oauth_reachable_inv [OF assms(1)]])
  let ?h = "digest env (field_or form ''code'' [])"
  obtain client where auth: "authenticate_client env cid form resource m (prune t0 st) = Inr client"
    and ex: "exchange_code env cid client form fr now t2 (prune t0 st) = Inr (toks, st')"
    using assms(2,3) unfolding oauth_exchange_def Let_def
    by (auto split: sum.splits prod.splits option.splits)
  have client: "cl_id client = field_or form ''client_id'' []"
    using auth by (auto simp: authenticate_client_def dest: the_client_mem split: if_splits)
  obtain r where r: "r \<in> set (requests (prune t0 st))" "rq_code_hash r = Some ?h" "rq_connection r = cid" "rq_client r = cl_id client"
    "now < rq_expires r" "field form ''redirect_uri'' = field (rq_params r) ''redirect_uri''"
    "field (rq_params r) ''code_challenge'' = Some (challenge env (field_or form ''code_verifier'' []))"
    and iss: "issue env (f_grant fr) (now + REFRESH_SECONDS) (f_access fr) (f_refresh fr) t2
      (redeem cid client (f_grant fr) now r (prune t0 st)) = Inr (toks, st')"
    by (rule exchange_code_ok [OF ex])
  have left: "requests st' = delete_where (\<lambda>x. rq_id x = rq_id r) (requests (prune t0 st))"
    using issue_requests [OF iss] by (simp add: redeem_def)
  have only: "x = r" if "x \<in> set (requests (prune t0 st))" "rq_code_hash x = Some ?h" for x
  proof -
    have "oa_codes (prune t0 st)" using inv1 by (simp add: oauth_inv_def)
    moreover have "rq_code_hash x \<noteq> None" "rq_code_hash x = rq_code_hash r" using that(2) r(2) by simp_all
    ultimately show ?thesis using that(1) r(1) unfolding oa_codes_def by blast
  qed
  have "code_spent ?h st'" using only unfolding code_spent_def left set_delete_where by blast
  with assms(4) have "code_spent ?h st''" by induction (auto intro: other_step_spent)
  then show ?thesis using r client spent_code_refused [of env form' st''] assms(5,6) by auto
qed

text \<open>In the concrete run the connection is edited between the exchange and the second attempt.\<close>

definition oa_edited :: oauth_store where
  "oa_edited = snd (oauth_update ''c1'' ''edited'' None None oa5)"

lemma oa_edited_other: "other_step demo_oauth h oa5 oa_edited"
proof -
  have "oa_edited \<noteq> snd (oauth_approve demo_oauth rid b code t0 now oa5)" for rid b code t0 now
  proof -
    have "snd (oauth_approve demo_oauth rid b code t0 now oa5) = oa5"
      by (simp add: oauth_approve_def pending_request_def oa5_def demo_exchange)
    moreover have "oa_edited \<noteq> oa5"
      unfolding oa_edited_def oa5_def demo_exchange
      by (simp add: oauth_update_def valid_comment_def strip_def lstrip_def is_space_def the_connection_def select_def Let_def
          update_where_def demo_conn_def)
    ultimately show ?thesis by simp
  qed
  then show ?thesis unfolding other_step_def approves_with_def oa_edited_def by (metis oauth_step.update snd_conv)
qed

theorem oauth_code_single_use_witness:
  "\<exists>e. oauth_exchange demo_oauth ''c1'' demo_form ''res'' ''none'' demo_fresh 3 3 3 oa_edited = (Inl e, oa_edited)"
  using oauth_code_single_use [OF oa_reachable(4), of "''c1''" demo_form "''res''" "''none''" demo_fresh 2 2 2 _ oa5 oa_edited demo_form]
    oa_edited_other by (simp add: demo_exchange demo_form_fields oa5_def r_into_rtranclp)

text \<open>
  C7: A refresh token is rotated, and its reuse kills the grant.  A refresh that succeeds marks the
  presented token as used.  When a used token of a live grant is presented again, the exchange fails
  and commits the revocation of the grant: from then on no access token of that grant authenticates.
\<close>

theorem oauth_refresh_reuse_revokes:
  assumes "(oauth_step env)\<^sup>*\<^sup>* empty_oauth st"
    and "authenticate_client env cid form resource m (prune t0 st) = Inr client"
    and "field form ''grant_type'' = Some ''refresh_token''"
    and "c \<in> set (credentials (prune t0 st))" "cr_hash c = digest env (field_or form ''refresh_token'' [])"
      "cr_kind c = Refresh" "now < cr_expires c"
    and "g \<in> set (grants (prune t0 st))" "gr_id g = cr_grant c" "gr_connection g = cid" "gr_client g = cl_id client"
      "\<not> gr_revoked g"
  shows "(\<not> cr_used c \<longrightarrow> (\<forall>toks st'. oauth_exchange env cid form resource m fr t0 now t2 st = (Inr toks, st') \<longrightarrow>
       (\<exists>c' \<in> set (credentials st'). cr_hash c' = cr_hash c \<and> cr_used c'))) \<and>
    (cr_used c \<longrightarrow> (\<exists>st'. oauth_exchange env cid form resource m fr t0 now t2 st = (Inl (OAuthError ''invalid_grant'' 400), st') \<and>
       (\<forall>a. (\<exists>k \<in> set (credentials st'). cr_hash k = digest env a \<and> cr_grant k = gr_id g) \<longrightarrow>
         oauth_authenticate env cid a t3 t4 st' = (Inl (OAuthError ''invalid_token'' 401), st'))))"
proof -
  let ?p = "prune t0 st"
  have inv1: "oauth_inv ?p" by (rule prune_inv [OF oauth_reachable_inv [OF assms(1)]])
  note keys = oauth_inv_keys [OF inv1]
  have f: "find (\<lambda>c. cr_hash c = digest env (field_or form ''refresh_token'' []) \<and> cr_kind c = Refresh) (credentials ?p) = Some c"
  proof (rule find_unique)
    fix y assume "y \<in> set (credentials ?p)" "cr_hash y = digest env (field_or form ''refresh_token'' []) \<and> cr_kind y = Refresh"
    with key_unique [OF keys(5) _ assms(4)] assms(5) show "y = c" by metis
  qed (use assms(4-6) in simp_all)
  have s: "select gr_id (cr_grant c) (grants ?p) = Some g"
    using select_in [OF keys(4) assms(8)] assms(9) by simp
  let ?r = "\<lambda>x. gr_id x = cr_grant c"
  let ?st = "?p\<lparr>grants := update_where ?r (\<lambda>x. x\<lparr>gr_revoked := True\<rparr>) (grants ?p)\<rparr>"
  have "\<exists>c' \<in> set (credentials st'). cr_hash c' = cr_hash c \<and> cr_used c'"
    if "\<not> cr_used c" "oauth_exchange env cid form resource m fr t0 now t2 st = (Inr toks, st')" for toks st'
  proof -
    have "issue env (cr_grant c) (gr_expires g) (f_access fr) (f_refresh fr) t2
        (?p\<lparr>credentials := update_where (\<lambda>x. cr_hash x = cr_hash c) (\<lambda>x. x\<lparr>cr_used := True\<rparr>) (credentials ?p)\<rparr>) = Inr (toks, st')"
      using that assms(2,3,7,10-12) f s
      by (auto simp: oauth_exchange_def exchange_refresh_def Let_def andThen_def split: sum.splits prod.splits option.splits)
    then have "set (update_where (\<lambda>x. cr_hash x = cr_hash c) (\<lambda>x. x\<lparr>cr_used := True\<rparr>) (credentials ?p)) \<subseteq> set (credentials st')"
      by (auto simp: issue_def split: if_splits)
    moreover have "c\<lparr>cr_used := True\<rparr> \<in> set (update_where (\<lambda>x. cr_hash x = cr_hash c) (\<lambda>x. x\<lparr>cr_used := True\<rparr>) (credentials ?p))"
      unfolding set_update_where using assms(4) by (intro image_eqI [of _ _ c]) simp_all
    ultimately show ?thesis by (intro bexI [of _ "c\<lparr>cr_used := True\<rparr>"]) auto
  qed
  moreover have "oauth_exchange env cid form resource m fr t0 now t2 st = (Inl (OAuthError ''invalid_grant'' 400), ?st)" if "cr_used c"
    using that assms(2,3,7,10-12) f s by (simp add: oauth_exchange_def exchange_refresh_def)
  moreover have "oauth_authenticate env cid a t3 t4 ?st = (Inl (OAuthError ''invalid_token'' 401), ?st)"
    if k: "k \<in> set (credentials ?st)" "cr_hash k = digest env a" "cr_grant k = gr_id g" for a k
  proof -
    have "gr_revoked y" if "x \<in> set (credentials ?st)" "y \<in> set (grants ?st)" "gr_id y = cr_grant x" "cr_hash x = digest env a" for x y
    proof -
      have "x = k" using key_unique [OF keys(5)] that(1,4) k by simp
      with that(3) k(3) assms(9) have "gr_id y = cr_grant c" by simp
      moreover have "y \<in> set (update_where ?r (\<lambda>x. x\<lparr>gr_revoked := True\<rparr>) (grants ?p))" using that(2) by simp
      ultimately show ?thesis using revoked_by_id by blast
    qed
    then show ?thesis unfolding oauth_authenticate_def by metis
  qed
  ultimately show ?thesis by blast
qed

definition demo_refresh :: "(string \<times> string) list" where
  "demo_refresh = [(''client_id'', ''cl''), (''grant_type'', ''refresh_token''), (''refresh_token'', ''r1''), (''resource'', ''res'')]"

definition oa6 :: oauth_store where
  "oa6 = snd (oauth_exchange demo_oauth ''c1'' demo_refresh ''res'' ''none'' \<lparr>f_grant = ''g2'', f_access = ''a2'', f_refresh = ''r2''\<rparr> 3 3 3 oa5)"

lemma oa5_value: "oa5 = \<lparr>connections = [demo_conn (Some ''cl'') (Some 2)], clients = [demo_client], requests = [], grants = [demo_live],
     credentials = [\<lparr>cr_hash = ''ha1'', cr_grant = ''g1'', cr_kind = Access, cr_expires = 3602, cr_used = False\<rparr>,
       \<lparr>cr_hash = ''hr1'', cr_grant = ''g1'', cr_kind = Refresh, cr_expires = 2592002, cr_used = False\<rparr>]\<rparr>"
  by (simp add: oa5_def demo_exchange)

lemma demo_refresh_fields:
  "field_or demo_refresh ''client_id'' [] = ''cl''" "field demo_refresh ''resource'' = Some ''res''"
  "field demo_refresh ''grant_type'' = Some ''refresh_token''" "field_or demo_refresh ''refresh_token'' [] = ''r1''"
  by (simp_all add: demo_refresh_def field_def field_or_def)

lemma demo_live_fields [simp]:
  "gr_id demo_live = ''g1''" "gr_connection demo_live = ''c1''" "gr_client demo_live = ''cl''"
  "gr_expires demo_live = 2592002" "\<not> gr_revoked demo_live"
  by (simp_all add: demo_live_def)

lemma oa6_value:
  "oa6 = \<lparr>connections = [demo_conn (Some ''cl'') (Some 2)], clients = [demo_client], requests = [], grants = [demo_live],
     credentials = [\<lparr>cr_hash = ''ha1'', cr_grant = ''g1'', cr_kind = Access, cr_expires = 3602, cr_used = False\<rparr>,
       \<lparr>cr_hash = ''hr1'', cr_grant = ''g1'', cr_kind = Refresh, cr_expires = 2592002, cr_used = True\<rparr>,
       \<lparr>cr_hash = ''ha2'', cr_grant = ''g1'', cr_kind = Access, cr_expires = 3603, cr_used = False\<rparr>,
       \<lparr>cr_hash = ''hr2'', cr_grant = ''g1'', cr_kind = Refresh, cr_expires = 2592002, cr_used = False\<rparr>]\<rparr>"
  unfolding oa6_def oauth_exchange_def oa5_value
  by (simp add: prune_eval authenticate_client_def the_client_def the_connection_def select_def truthy_def
      exchange_refresh_def demo_refresh_fields issue_def update_where_def ACCESS_SECONDS_def)

lemma oa6_reachable: "(oauth_step demo_oauth)\<^sup>*\<^sup>* empty_oauth oa6"
  unfolding oa6_def by (rule rtranclp.rtrancl_into_rtrancl [OF oa_reachable(5)], rule oauth_step.exchange)

definition oa7 :: oauth_store where
  "oa7 = snd (oauth_exchange demo_oauth ''c1'' demo_refresh ''res'' ''none'' demo_fresh 4 4 4 oa6)"

lemma oa7_credentials: "credentials oa7 = credentials oa6"
  unfolding oa7_def oauth_exchange_def oa6_value
  by (simp add: prune_eval authenticate_client_def the_client_def the_connection_def select_def truthy_def
      exchange_refresh_def demo_refresh_fields)

theorem oauth_refresh_reuse_revokes_witness:
  "oauth_authenticate demo_oauth ''c1'' ''a2'' 5 5 oa7 = (Inl (OAuthError ''invalid_token'' 401), oa7)"
proof -
  let ?c = "\<lparr>cr_hash = ''hr1'', cr_grant = ''g1'', cr_kind = Refresh, cr_expires = 2592002, cr_used = True\<rparr>"
  have p: "prune 4 oa6 = oa6" by (simp add: oa6_value prune_eval)
  have "authenticate_client demo_oauth ''c1'' demo_refresh ''res'' ''none'' (prune 4 oa6) = Inr demo_client"
    unfolding p by (simp add: oa6_value authenticate_client_def the_client_def the_connection_def select_def truthy_def demo_refresh_fields)
  moreover have "?c \<in> set (credentials (prune 4 oa6))" "demo_live \<in> set (grants (prune 4 oa6))"
    unfolding p by (simp_all add: oa6_value)
  moreover have "cr_hash ?c = digest demo_oauth (field_or demo_refresh ''refresh_token'' [])" by (simp add: demo_refresh_fields)
  ultimately have "\<exists>st'. oauth_exchange demo_oauth ''c1'' demo_refresh ''res'' ''none'' demo_fresh 4 4 4 oa6 =
      (Inl (OAuthError ''invalid_grant'' 400), st') \<and>
    (\<forall>a. (\<exists>k \<in> set (credentials st'). cr_hash k = digest demo_oauth a \<and> cr_grant k = gr_id demo_live) \<longrightarrow>
      oauth_authenticate demo_oauth ''c1'' a 5 5 st' = (Inl (OAuthError ''invalid_token'' 401), st'))"
    using oauth_refresh_reuse_revokes [OF oa6_reachable, of "''c1''" demo_refresh "''res''" "''none''" 4 demo_client ?c 4 demo_live
        demo_fresh 4 5 5] by (simp add: demo_refresh_fields)
  then have "(\<exists>k \<in> set (credentials oa7). cr_hash k = digest demo_oauth ''a2'' \<and> cr_grant k = gr_id demo_live) \<longrightarrow>
      oauth_authenticate demo_oauth ''c1'' ''a2'' 5 5 oa7 = (Inl (OAuthError ''invalid_token'' 401), oa7)"
    unfolding oa7_def by fastforce
  then show ?thesis unfolding oa7_credentials by (simp add: oa6_value)
qed

lemma oauth_authenticate_ok:
  assumes "oauth_authenticate env cid a t1 t2 st = (Inr conn, st')"
  shows "the_connection cid st = Inr conn \<and> st' = st \<and>
    (\<exists>c \<in> set (credentials st). \<exists>g \<in> set (grants st). gr_id g = cr_grant c \<and> cr_hash c = digest env a \<and>
       cr_kind c = Access \<and> cr_expires c > t1 \<and> gr_expires g > t2 \<and> \<not> gr_revoked g \<and> gr_connection g = cid)"
  using assms unfolding oauth_authenticate_def
  by (cases "\<exists>c \<in> set (credentials st). \<exists>g \<in> set (grants st). gr_id g = cr_grant c \<and> cr_hash c = digest env a \<and>
       cr_kind c = Access \<and> cr_expires c > t1 \<and> gr_expires g > t2 \<and> \<not> gr_revoked g \<and> gr_connection g = cid") auto

text \<open>
  An access token belongs to one connection.  When a token authenticates, it is the token of a
  stored, unexpired access credential of a grant that is neither revoked nor expired; and it
  authenticates for no other connection.
\<close>

theorem oauth_token_one_connection:
  assumes "(oauth_step env)\<^sup>*\<^sup>* empty_oauth st"
    and "oauth_authenticate env cid a t1 t2 st = (Inr conn, st')" "oauth_authenticate env cid' a t3 t4 st = (Inr conn', st'')"
  shows "cid = cid' \<and> conn = conn' \<and> cn_id conn = cid \<and> st' = st"
proof -
  have inv: "oauth_inv st" by (rule oauth_reachable_inv [OF assms(1)])
  note keys = oauth_inv_keys [OF inv]
  obtain c g where c: "c \<in> set (credentials st)" "g \<in> set (grants st)" "gr_id g = cr_grant c" "cr_hash c = digest env a"
    "gr_connection g = cid" and conn: "the_connection cid st = Inr conn" "st' = st"
    using oauth_authenticate_ok [OF assms(2)] by blast
  obtain c' g' where c': "c' \<in> set (credentials st)" "g' \<in> set (grants st)" "gr_id g' = cr_grant c'" "cr_hash c' = digest env a"
    "gr_connection g' = cid'" and conn': "the_connection cid' st = Inr conn'"
    using oauth_authenticate_ok [OF assms(3)] by blast
  have "c = c'" using key_unique [OF keys(5) c(1) c'(1)] c(4) c'(4) by simp
  then have "g = g'" using key_unique [OF keys(4) c(2) c'(2)] c(3) c'(3) by simp
  with c(5) c'(5) conn conn' the_connection_Inr [OF conn(1)] show ?thesis by auto
qed

theorem oauth_token_one_connection_witness:
  "\<exists>conn. oauth_authenticate demo_oauth ''c1'' ''a1'' 5 5 oa5 = (Inr conn, oa5) \<and> cn_id conn = ''c1''"
proof -
  have "oauth_authenticate demo_oauth ''c1'' ''a1'' 5 5 oa5 = (Inr (demo_conn (Some ''cl'') (Some 2)), oa5)"
    unfolding oa5_value by (simp add: oauth_authenticate_def the_connection_def select_def)
  with oauth_token_one_connection [OF oa_reachable(5) this this] show ?thesis by blast
qed

text \<open>
  A connection is bound to its client for good.  Once a client has been approved, no operation
  changes the client of the connection (only deleting the connection ends it): a later registration
  is refused and no other client can be approved.
\<close>

theorem oauth_client_binding_permanent:
  assumes "(oauth_step env)\<^sup>*\<^sup>* empty_oauth st" "oauth_step env st st'"
    and "c \<in> set (connections st)" "cn_client c = Some b" "b \<noteq> []"
    and "c' \<in> set (connections st')" "cn_id c' = cn_id c"
  shows "cn_client c' = Some b"
  using binding_kept_step [OF oauth_reachable_inv [OF assms(1)] assms(2)] assms(3-7)
  unfolding binding_kept_def truthy_def by fastforce

theorem oauth_client_binding_permanent_witness:
  "cn_client (hd (connections oa5)) = Some ''cl''"
proof -
  have c: "hd (connections oa5) \<in> set (connections oa5)" by (simp add: oa5_value)
  have step: "oauth_step demo_oauth oa4 oa5" unfolding oa5_def by (rule oauth_step.exchange)
  have d: "demo_conn (Some ''cl'') None \<in> set (connections oa4)"
    "cn_id (hd (connections oa5)) = cn_id (demo_conn (Some ''cl'') None)"
    by (simp_all add: oa4_value oa5_value)
  show ?thesis
    by (rule oauth_client_binding_permanent [OF oa_reachable(4) step d(1) _ _ c d(2)]) simp_all
qed

end
