(* ===== verification/Transactions.thy ===== *)
theory Transactions
  imports Kapsel_Prelude
begin

text \<open>
  Database transactions and the contract of a durable request ledger.  A function that runs inside
  the caller's transaction has type \<open>('s, 'a) tx\<close>: it raises, and the caller rolls back, or it
  returns its value and the tables it has written; \<open>commit\<close> closes the transaction.  The locale
  \<open>request_ledger\<close> is the interface between the operations that accept a client-chosen request id
  (plan creation, conversation creation) and the guarantee their clients rely on: a retry never
  performs the request twice.
\<close>

section \<open>Transactions\<close>

type_synonym ('s, 'a) tx = "'s \<Rightarrow> ('a \<times> 's) result"

definition commit :: "('s, 'a) tx \<Rightarrow> ('s, 'a) op" where
  "commit f s = (case f s of Inl e \<Rightarrow> (Inl e, s) | Inr (x, s') \<Rightarrow> (Inr x, s'))"

lemma commit_Inr: "commit f s = (Inr x, s') \<longleftrightarrow> f s = Inr (x, s')"
  by (auto simp: commit_def split: sum.splits)

lemma commit_Inl: "commit f s = (Inl e, s') \<longleftrightarrow> f s = Inl e \<and> s' = s"
  by (auto simp: commit_def split: sum.splits)

lemma commit_snd: "f s = Inr (x, s') \<Longrightarrow> snd (commit f s) = s'"
  by (simp add: commit_def)

lemma snd_commit: "snd (commit f s) = s \<or> (\<exists>x. f s = Inr (x, snd (commit f s)))"
  by (auto simp: commit_def split: sum.splits)

text \<open>\<open>MAX\<close> over the values of a column: no row gives NULL.\<close>

definition sql_max :: "'a::linorder list \<Rightarrow> 'a option" where
  "sql_max xs = (case xs of [] \<Rightarrow> None | x # rest \<Rightarrow> Some (fold max rest x))"

definition coalesce :: "'a option \<Rightarrow> 'a \<Rightarrow> 'a" where
  "coalesce v d = (case v of None \<Rightarrow> d | Some x \<Rightarrow> x)"

lemma coalesce_simps [simp]: "coalesce None d = d" "coalesce (Some x) d = x"
  by (simp_all add: coalesce_def)

lemma sql_max_Nil [simp]: "sql_max [] = None"
  by (simp add: sql_max_def)

lemma sql_max_snoc: "sql_max (xs @ [x]) = Some (case sql_max xs of None \<Rightarrow> x | Some m \<Rightarrow> max x m)"
  by (cases xs) (simp_all add: sql_max_def)

lemma sql_max_None [simp]: "sql_max xs = None \<longleftrightarrow> xs = []"
  by (cases xs) (simp_all add: sql_max_def)

lemma sql_max_bounds: "sql_max xs = Some m \<Longrightarrow> m \<in> set xs \<and> (\<forall>x \<in> set xs. x \<le> m)"
proof (induction xs arbitrary: m rule: rev_induct)
  case (snoc x xs)
  show ?case
  proof (cases "sql_max xs")
    case None
    with snoc.prems show ?thesis by (simp add: sql_max_snoc)
  next
    case (Some k)
    with snoc.prems have "m = max x k" by (simp add: sql_max_snoc)
    moreover note snoc.IH [OF Some]
    ultimately show ?thesis by (auto simp: max_def)
  qed
qed simp

lemma sql_max_upt: "sql_max (map int [1..<Suc n]) = (if n = 0 then None else Some (int n))"
proof (induction n)
  case (Suc n)
  have "map int [1..<Suc (Suc n)] = map int [1..<Suc n] @ [int (Suc n)]" by simp
  then show ?case using Suc by (simp only: sql_max_snoc) auto
qed simp

section \<open>Request ledgers\<close>

text \<open>
  The receipt stored for a request key (its fingerprint and the answer that was given), an
  execution of a request under a key, the fingerprint of a request, and the mark a replayed answer
  carries.  \<open>step\<close> is any operation of the store.
\<close>

locale request_ledger =
  fixes receipt :: "'s \<Rightarrow> 'k \<Rightarrow> ('f \<times> 'r) option"
    and execute :: "'k \<Rightarrow> 'q \<Rightarrow> 's \<Rightarrow> ('r \<times> 's) result"
    and fingerprint :: "'q \<Rightarrow> 'f"
    and replayed :: "'r \<Rightarrow> 'r"
    and step :: "'s \<Rightarrow> 's \<Rightarrow> bool"
  assumes executed: "receipt s k = None \<Longrightarrow> execute k q s = Inr (r, s') \<Longrightarrow> receipt s' k = Some (fingerprint q, r)"
    and kept: "receipt s k = Some v \<Longrightarrow> step s s' \<Longrightarrow> receipt s' k = Some v"
    and conflict: "receipt s k = Some (f, r0) \<Longrightarrow> f \<noteq> fingerprint q \<Longrightarrow> \<exists>e. execute k q s = Inl e"
    and replay: "receipt s k = Some (fingerprint q, r0) \<Longrightarrow> execute k q s = Inr (r, s') \<Longrightarrow> r = replayed r0 \<and> s' = s"
begin

lemma kept_steps: "step\<^sup>*\<^sup>* s s' \<Longrightarrow> receipt s k = Some v \<Longrightarrow> receipt s' k = Some v"
  by (induction rule: rtranclp_induct) (auto intro: kept)

text \<open>Whatever happens in between, a key is executed at most once.\<close>

lemma at_most_once:
  assumes "receipt s k = None" "execute k q s = Inr (r, s1)" "step\<^sup>*\<^sup>* s1 s2" "execute k q' s2 = Inr (r', s3)"
  shows "s3 = s2 \<and> r' = replayed r \<and> fingerprint q' = fingerprint q"
proof -
  have "receipt s2 k = Some (fingerprint q, r)"
    by (rule kept_steps [OF assms(3) executed [OF assms(1,2)]])
  moreover from this have "fingerprint q' = fingerprint q" using conflict [of s2 k "fingerprint q" r q'] assms(4) by fastforce
  ultimately show ?thesis using replay [OF _ assms(4), of r] by simp
qed

end

end
