(* ===== verification/Conversation_Log.thy ===== *)
theory Conversation_Log
  imports Civil_Time Transactions "HOL-Library.Product_Lexorder"
begin

text \<open>
  The conversation log of a workspace: \<open>openkapsel/context/conversation.py\<close>.  The three tables it
  owns are the fields of the record \<open>conv_db\<close>; the Context database extends that record with its
  own tables, so every operation here is stated for any extension.  A function that runs inside the
  caller's transaction has type \<open>('s, 'a) tx\<close>: it either raises, and the caller rolls back, or
  returns its value and the tables it has written.  \<open>commit\<close> closes such a transaction.  The clock
  (\<open>now\<close>), the random nonce and the digest are arguments.
\<close>

section \<open>Canonical JSON text\<close>

text \<open>
  \<open>json.dumps(\<dots>, ensure_ascii=False, sort_keys=True, separators=(",", ":"))\<close> on the values that
  the requests are made of: null, integers, strings, arrays and objects.
\<close>

datatype json =
    JNull
  | JInt int
  | JStr string
  | JArr "json list"
  | JObj "(string \<times> json) list"

definition hex_digit :: "nat \<Rightarrow> char" where
  "hex_digit k = ''0123456789abcdef'' ! k"

definition json_char :: "char \<Rightarrow> string" where
  "json_char c =
     (let n = (of_char c :: nat)
      in if c = CHR 0x22 then [CHR 0x5C, CHR 0x22]
         else if c = CHR 0x5C then [CHR 0x5C, CHR 0x5C]
         else if n = 10 then CHR 0x5C # ''n''
         else if n = 13 then CHR 0x5C # ''r''
         else if n = 9 then CHR 0x5C # ''t''
         else if n = 12 then CHR 0x5C # ''f''
         else if n = 8 then CHR 0x5C # ''b''
         else if n < 32 then CHR 0x5C # ''u00'' @ [hex_digit (n div 16), hex_digit (n mod 16)]
         else [c])"

definition json_string :: "string \<Rightarrow> string" where
  "json_string s = [CHR 0x22] @ concat (map json_char s) @ [CHR 0x22]"

fun json_text :: "json \<Rightarrow> string" where
  "json_text JNull = ''null''"
| "json_text (JInt i) = show_int i"
| "json_text (JStr s) = json_string s"
| "json_text (JArr xs) = ''['' @ join '','' (map json_text xs) @ '']''"
| "json_text (JObj kvs) =
     ''{'' @ join '','' (map snd (sort_key fst (map (\<lambda>(k, v). (k, json_string k @ '':'' @ json_text v)) kvs))) @ ''}''"

definition utf8_length :: "string \<Rightarrow> nat" where
  "utf8_length s = sum_list (map (\<lambda>c. if (of_char c :: nat) < 128 then 1 else 2) s)"

section \<open>Tables\<close>

datatype role = User | Ai | Summary

definition role_name :: "role \<Rightarrow> string" where
  "role_name r = (case r of User \<Rightarrow> ''user'' | Ai \<Rightarrow> ''ai'' | Summary \<Rightarrow> ''summary'')"

type_synonym item = "role \<times> string"

record conversation =
  cv_id :: int
  cv_created :: instant
  cv_nonce :: string

record conv_entry =
  ce_conv :: int
  ce_sub :: int
  ce_created :: instant
  ce_role :: role
  ce_content :: string

record summary_status =
  ss_count :: nat
  ss_recommended :: bool
  ss_required :: bool
  ss_start :: "int option"
  ss_end :: "int option"
  ss_instruction :: "string option"

text \<open>The answer of a creation; the fixed instruction text is left out.\<close>

record conv_receipt =
  rc_conv :: int
  rc_nonce :: string
  rc_entries :: "conv_entry list"
  rc_status :: summary_status
  rc_request :: "string option"
  rc_replayed :: "bool option"

record conv_request =
  cq_actor :: string
  cq_request :: string
  cq_fingerprint :: string
  cq_response :: conv_receipt

record conv_db =
  conversations :: "conversation list"
  conversation_entries :: "conv_entry list"
  conversation_create_requests :: "conv_request list"

definition MAX_CONVERSATION_QUERY_LIMIT :: nat where "MAX_CONVERSATION_QUERY_LIMIT = 100"
definition DEFAULT_RECENT_CONVERSATION_COUNT :: nat where "DEFAULT_RECENT_CONVERSATION_COUNT = 2"
definition MAX_RECENT_CONVERSATION_PAGES :: int where "MAX_RECENT_CONVERSATION_PAGES = 10"
definition CONVERSATION_SUMMARY_PROMPT_AFTER :: nat where "CONVERSATION_SUMMARY_PROMPT_AFTER = 40"
definition CONVERSATION_SUMMARY_REQUIRED_AFTER :: nat where "CONVERSATION_SUMMARY_REQUIRED_AFTER = 49"
definition MAX_CONVERSATION_CREATE_REQUESTS :: nat where "MAX_CONVERSATION_CREATE_REQUESTS = 100000"
definition MAX_CONVERSATION_CONTENT_CHARS :: nat where "MAX_CONVERSATION_CONTENT_CHARS = 1000"
definition MAX_CONVERSATION_SUMMARY_CHARS :: nat where "MAX_CONVERSATION_SUMMARY_CHARS = 8192"

section \<open>Validation\<close>

definition ascii_alnum :: "char \<Rightarrow> bool" where
  "ascii_alnum c \<longleftrightarrow> (let n = (of_char c :: nat) in
     48 \<le> n \<and> n \<le> 57 \<or> 65 \<le> n \<and> n \<le> 90 \<or> 97 \<le> n \<and> n \<le> 122)"

definition valid_nonce :: "string \<Rightarrow> bool" where
  "valid_nonce s \<longleftrightarrow> length s = 6 \<and> s ! 0 = CHR ''@'' \<and> s ! 5 = CHR ''@'' \<and> list_all ascii_alnum (take 4 (drop 1 s))"

definition validate_writer_nonce :: "pyval \<Rightarrow> string result" where
  "validate_writer_nonce v =
     (case v of
        PStr s \<Rightarrow> if valid_nonce s then Inr s
                  else Inl (ValueError ''writer_nonce must use exactly @xxxx@ with four ASCII letters or digits'')
      | _ \<Rightarrow> Inl (ValueError ''writer_nonce must use exactly @xxxx@ with four ASCII letters or digits''))"

definition validate_conversation_id :: "pyval \<Rightarrow> int result" where
  "validate_conversation_id v =
     (case v of
        PInt i \<Rightarrow>
          if i < 0 then Inl (ValueError ''conversation_id must be a non-negative integer'')
          else if i > 2 ^ 63 - 1 then Inl (ValueError ''conversation_id exceeds the database ID range'')
          else Inr i
      | _ \<Rightarrow> Inl (ValueError ''conversation_id must be a non-negative integer''))"

definition next_conversation_id :: "'z conv_db_scheme \<Rightarrow> int" where
  "next_conversation_id db = (case sql_max (map cv_id (conversations db)) of None \<Rightarrow> 0 | Some m \<Rightarrow> m + 1)"

text \<open>\<open>[A-Za-z0-9][A-Za-z0-9._:-]{0,k}\<close>, the pattern of request ids (k = 127) and of todo refs (k = 63).\<close>

definition key_pattern :: "nat \<Rightarrow> string \<Rightarrow> bool" where
  "key_pattern k s \<longleftrightarrow> s \<noteq> [] \<and> length s \<le> k + 1 \<and> ascii_alnum (hd s) \<and>
     list_all (\<lambda>c. ascii_alnum c \<or> c \<in> set ''._:-'') (tl s)"

definition same_keys :: "(string \<times> pyval) list \<Rightarrow> string list \<Rightarrow> bool" where
  "same_keys d ks \<longleftrightarrow> list_all (\<lambda>k. k \<in> set ks) (map fst d) \<and> list_all (dict_has d) ks"

definition role_of :: "pyval \<Rightarrow> role option" where
  "role_of v =
     (if v = PStr ''user'' then Some User
      else if v = PStr ''ai'' then Some Ai
      else if v = PStr ''summary'' then Some Summary
      else None)"

definition normalize_entry :: "nat \<Rightarrow> pyval \<Rightarrow> item result" where
  "normalize_entry index v =
     (case v of
        PDict d \<Rightarrow>
          if \<not> same_keys d [''role'', ''content'']
          then Inl (ValueError (''conversation entry '' @ show_nat index @ '' must contain only role and content''))
          else (case role_of (dict_get d ''role'') of
             None \<Rightarrow> Inl (ValueError ''conversation role must be user, ai, or summary'')
           | Some role \<Rightarrow>
               (case dict_get d ''content'' of
                  PStr content \<Rightarrow>
                    let maximum = (if role = Summary then MAX_CONVERSATION_SUMMARY_CHARS else MAX_CONVERSATION_CONTENT_CHARS)
                    in if strip content = [] then Inl (ValueError ''conversation content must be a non-empty string'')
                       else if length content > maximum
                       then Inl (ValueError (''conversation '' @ role_name role @ '' content exceeds '' @ show_nat maximum @ '' characters''))
                       else Inr (role, content)
                | _ \<Rightarrow> Inl (ValueError ''conversation content must be a non-empty string'')))
      | _ \<Rightarrow> Inl (ValueError (''conversation entry '' @ show_nat index @ '' must contain only role and content'')))"

fun normalize_items :: "nat \<Rightarrow> pyval list \<Rightarrow> item list result" where
  "normalize_items index [] = Inr []"
| "normalize_items index (v # vs) =
     andThen (normalize_entry index v) (\<lambda>x. andThen (normalize_items (index + 1) vs) (\<lambda>xs. Inr (x # xs)))"

definition initial_pair :: "item list \<Rightarrow> bool" where
  "initial_pair xs \<longleftrightarrow> length xs \<ge> 2 \<and> fst (xs ! 0) = User \<and> fst (xs ! 1) = Ai"

definition normalize_entries :: "pyval \<Rightarrow> nat \<Rightarrow> bool \<Rightarrow> bool \<Rightarrow> item list result" where
  "normalize_entries entries minimum require_initial_pair require_ai =
     (case entries of
        PList vs \<Rightarrow>
          if length vs < minimum
          then Inl (ValueError (''conversation entries must contain at least '' @ show_nat minimum @ '' item(s)''))
          else if length vs > MAX_CONVERSATION_QUERY_LIMIT
          then Inl (ValueError (''conversation entries cannot contain more than '' @ show_nat MAX_CONVERSATION_QUERY_LIMIT @ '' items''))
          else andThen (normalize_items 0 vs) (\<lambda>xs.
            if require_initial_pair \<and> \<not> initial_pair xs
            then Inl (ValueError ''conversation creation requires first entry role=user and second entry role=ai'')
            else if require_ai \<and> \<not> list_ex (\<lambda>x. fst x = Ai) xs
            then Inl (ValueError ''completing a plan requires at least one role=ai conversation entry'')
            else Inr xs)
      | _ \<Rightarrow> Inl (ValueError (''conversation entries must contain at least '' @ show_nat minimum @ '' item(s)'')))"

definition verify_writer_nonce :: "pyval \<Rightarrow> pyval \<Rightarrow> 'z conv_db_scheme \<Rightarrow> int result" where
  "verify_writer_nonce conversation_id writer_nonce db =
     andThen (validate_conversation_id conversation_id) (\<lambda>cid.
     andThen (validate_writer_nonce writer_nonce) (\<lambda>nonce.
       case select cv_id cid (conversations db) of
         None \<Rightarrow> Inl (KeyError ''conversation does not exist'')
       | Some row \<Rightarrow> if cv_nonce row \<noteq> nonce then Inl (PermissionError ''conversation writer_nonce does not match'')
                     else Inr cid))"

section \<open>Summaries\<close>

definition entries_of :: "int \<Rightarrow> 'z conv_db_scheme \<Rightarrow> conv_entry list" where
  "entries_of cid db = filter (\<lambda>e. ce_conv e = cid) (conversation_entries db)"

definition optional_int :: "int option \<Rightarrow> string" where
  "optional_int v = (case v of None \<Rightarrow> ''None'' | Some i \<Rightarrow> show_int i)"

definition conversation_summary_status :: "int \<Rightarrow> 'z conv_db_scheme \<Rightarrow> summary_status" where
  "conversation_summary_status cid db =
     (let rows = entries_of cid db;
          last_id = coalesce (sql_max (map ce_sub rows)) 0;
          latest = sql_max (map ce_sub (filter (\<lambda>e. ce_role e = Summary) rows));
          count = length (filter (\<lambda>e. ce_role e \<in> {User, Ai} \<and> ce_sub e > coalesce latest 0) rows);
          recommended = (count \<ge> CONVERSATION_SUMMARY_PROMPT_AFTER);
          required = (count \<ge> CONVERSATION_SUMMARY_REQUIRED_AFTER);
          start = (case latest of Some i \<Rightarrow> Some i | None \<Rightarrow> if last_id \<noteq> 0 then Some 1 else None);
          range = ''Compress Conversation entries sub_id '' @ optional_int start @ '' through '' @ show_int last_id @
                  '', preserving important context.''
      in \<lparr>ss_count = count, ss_recommended = recommended, ss_required = required, ss_start = start,
          ss_end = (if last_id \<noteq> 0 then Some last_id else None),
          ss_instruction =
            (if recommended
             then Some ((if required then ''A role=summary entry is required before another user/ai entry. ''
                         else ''Create a role=summary entry soon. '') @ range)
             else None)\<rparr>)"

section \<open>Appending\<close>

fun append_items ::
  "int \<Rightarrow> instant \<Rightarrow> item list \<Rightarrow> int \<Rightarrow> nat \<Rightarrow> int option \<Rightarrow> conv_entry list result" where
  "append_items cid now [] last_id count latest = Inr []"
| "append_items cid now ((role, content) # items) last_id count latest =
     (if role \<noteq> Summary \<and> count \<ge> CONVERSATION_SUMMARY_REQUIRED_AFTER
      then Inl (ValueError (''conversation summary is required before another user/ai entry after '' @
             show_nat CONVERSATION_SUMMARY_REQUIRED_AFTER @ '' user/ai entries; summarize sub_id '' @
             show_int (coalesce latest 1) @ '' through '' @ show_int last_id))
      else let sub_id = last_id + 1
           in andThen (append_items cid now items sub_id (if role = Summary then 0 else count + 1)
                         (if role = Summary then Some sub_id else latest))
                (\<lambda>rows. Inr (\<lparr>ce_conv = cid, ce_sub = sub_id, ce_created = now, ce_role = role, ce_content = content\<rparr> # rows)))"

definition append_locked :: "int \<Rightarrow> item list \<Rightarrow> instant \<Rightarrow> ('z conv_db_scheme, conv_entry list) tx" where
  "append_locked cid items now db =
     (let last_id = coalesce (sql_max (map ce_sub (entries_of cid db))) 0;
          state = conversation_summary_status cid db;
          latest = (if ss_start state \<in> {None, Some 1} then None else ss_start state)
      in andThen (append_items cid now items last_id (ss_count state) latest)
           (\<lambda>rows. Inr (rows, db\<lparr>conversation_entries := conversation_entries db @ rows\<rparr>)))"

definition append_conversation_tx ::
  "pyval \<Rightarrow> pyval \<Rightarrow> pyval \<Rightarrow> bool \<Rightarrow> instant \<Rightarrow> ('z conv_db_scheme, conv_entry list) tx" where
  "append_conversation_tx conversation_id writer_nonce entries require_ai now db =
     andThen (verify_writer_nonce conversation_id writer_nonce db) (\<lambda>cid.
     andThen (normalize_entries entries 1 False require_ai) (\<lambda>items.
       append_locked cid items now db))"

section \<open>Creation\<close>

definition create_request_json :: "int \<Rightarrow> item list \<Rightarrow> json" where
  "create_request_json cid items =
     JObj [(''conversation_id'', JInt cid),
           (''entries'', JArr (map (\<lambda>(role, content). JObj [(''role'', JStr (role_name role)), (''content'', JStr content)]) items))]"

definition request_key :: "conv_request \<Rightarrow> string \<times> string" where
  "request_key q = (cq_actor q, cq_request q)"

definition WRONG_NEXT_ID :: pyerr where
  "WRONG_NEXT_ID = ValueError
     ''conversation_id is not the current next_conversation_id. Call conversation_query to retrieve and review existing Conversation history, then use the returned next_conversation_id for conversation_create. Do not retry with a guessed id.''"

text \<open>What follows the request ledger: the two inserts and the first entries.\<close>

definition insert_conversation ::
  "int \<Rightarrow> item list \<Rightarrow> string \<Rightarrow> instant \<Rightarrow> instant \<Rightarrow> ('z conv_db_scheme, conv_receipt) tx" where
  "insert_conversation cid items nonce t1 t2 db =
     (if cid \<noteq> next_conversation_id db then Inl WRONG_NEXT_ID
      else andThen (append_locked cid items t2
             (db\<lparr>conversations := conversations db @ [\<lparr>cv_id = cid, cv_created = t1, cv_nonce = nonce\<rparr>]\<rparr>))
             (\<lambda>(created, db'). Inr (\<lparr>rc_conv = cid, rc_nonce = nonce, rc_entries = created,
                rc_status = conversation_summary_status cid db', rc_request = None, rc_replayed = None\<rparr>, db')))"

definition replay_conversation :: "int \<Rightarrow> string \<Rightarrow> conv_request \<Rightarrow> 'z conv_db_scheme \<Rightarrow> conv_receipt result" where
  "replay_conversation cid fingerprint previous db =
     (if cq_fingerprint previous \<noteq> fingerprint
      then Inl (RequestConflict ''context_request_conflict'' ''request_id was already used with a different conversation request'')
      else case select cv_id cid (conversations db) of
        None \<Rightarrow> Inl (RequestConflict ''context_request_gone'' ''original conversation is missing; request_id cannot create a replacement'')
      | Some row \<Rightarrow>
          if cv_nonce row \<noteq> rc_nonce (cq_response previous)
          then Inl (RequestConflict ''context_request_gone'' ''original conversation is missing; request_id cannot create a replacement'')
          else Inr ((cq_response previous)\<lparr>rc_replayed := Some True\<rparr>))"

definition BAD_REQUEST_ID :: pyerr where
  "BAD_REQUEST_ID = ValueError
     ''request_id must be 1-128 ASCII letters, digits, dots, underscores, colons or hyphens, starting with a letter or digit''"

definition create_keyed ::
  "string \<Rightarrow> int \<Rightarrow> item list \<Rightarrow> string \<Rightarrow> string \<Rightarrow> string \<Rightarrow> instant \<Rightarrow> instant \<Rightarrow> ('z conv_db_scheme, conv_receipt) tx" where
  "create_keyed fingerprint cid items key actor nonce t1 t2 db =
     (case select request_key (actor, key) (conversation_create_requests db) of
        Some previous \<Rightarrow> andThen (replay_conversation cid fingerprint previous db) (\<lambda>receipt. Inr (receipt, db))
      | None \<Rightarrow>
          if length (conversation_create_requests db) \<ge> MAX_CONVERSATION_CREATE_REQUESTS
          then Inl (RequestConflict ''context_request_limit'' ''workspace conversation request ledger is full'')
          else andThen (insert_conversation cid items nonce t1 t2 db) (\<lambda>(receipt, db').
            let result = receipt\<lparr>rc_request := Some key, rc_replayed := Some False\<rparr>
            in Inr (result, db'\<lparr>conversation_create_requests := conversation_create_requests db' @
                 [\<lparr>cq_actor = actor, cq_request = key, cq_fingerprint = fingerprint, cq_response = result\<rparr>]\<rparr>)))"

definition create_conversation_tx ::
  "(string \<Rightarrow> string) \<Rightarrow> pyval \<Rightarrow> pyval \<Rightarrow> pyval option \<Rightarrow> string option \<Rightarrow> string \<Rightarrow> instant \<Rightarrow> instant \<Rightarrow>
   ('z conv_db_scheme, conv_receipt) tx" where
  "create_conversation_tx sha256 conversation_id entries request_id actor_id nonce t1 t2 db =
     andThen (validate_conversation_id conversation_id) (\<lambda>cid.
     andThen (normalize_entries entries 2 True False) (\<lambda>items.
       case request_id of
         None \<Rightarrow> insert_conversation cid items nonce t1 t2 db
       | Some (PStr key) \<Rightarrow>
           if \<not> key_pattern 127 key then Inl BAD_REQUEST_ID
           else if actor_id = None \<or> actor_id = Some [] then Inl (ValueError ''request_id requires a stable actor_id'')
           else create_keyed (sha256 (json_text (create_request_json cid items))) cid items key (the actor_id) nonce t1 t2 db
       | Some _ \<Rightarrow> Inl BAD_REQUEST_ID))"

section \<open>Queries\<close>

record query_entry =
  qe_sub :: int
  qe_time :: string
  qe_role :: role
  qe_content :: string

record conv_group =
  cg_conv :: int
  cg_date :: string
  cg_entries :: "query_entry list"

definition format_query_entry :: "string \<Rightarrow> bool \<Rightarrow> conv_entry \<Rightarrow> query_entry" where
  "format_query_entry conversation_date seconds row =
     (let t = ce_created row;
          entry_date = date_text (ordinal_of t);
          clock = time_text (nat (t mod DAY_US div 1000000));
          entry_time = (if seconds then clock else take 5 clock)
      in \<lparr>qe_sub = ce_sub row,
          qe_time = (if entry_date \<noteq> conversation_date then entry_date @ '' '' @ entry_time else entry_time),
          qe_role = ce_role row, qe_content = ce_content row\<rparr>)"

definition conversation_group :: "int \<Rightarrow> instant \<Rightarrow> conv_entry list \<Rightarrow> bool \<Rightarrow> conv_group" where
  "conversation_group cid updated_at rows seconds =
     (let conversation_date = date_text (ordinal_of updated_at)
      in \<lparr>cg_conv = cid, cg_date = conversation_date,
          cg_entries = map (format_query_entry conversation_date seconds) rows\<rparr>)"

definition positive_sub_id :: "string \<Rightarrow> pyval \<Rightarrow> int option result" where
  "positive_sub_id name v =
     (case v of
        PNone \<Rightarrow> Inr None
      | PInt i \<Rightarrow> if i < 1 then Inl (ValueError (name @ '' must be a positive integer'')) else Inr (Some i)
      | _ \<Rightarrow> Inl (ValueError (name @ '' must be a positive integer'')))"

definition query_page :: "pyval \<Rightarrow> int result" where
  "query_page page =
     (case page of
        PInt i \<Rightarrow>
          if 1 \<le> i \<and> i \<le> MAX_RECENT_CONVERSATION_PAGES then Inr i
          else Inl (ValueError ''conversation page must be between 1 and 10'')
      | _ \<Rightarrow> Inl (ValueError ''conversation page must be between 1 and 10''))"

text \<open>
  The default query: the conversations that have entries, latest update first and larger id first
  among equals, two per page, each from its latest summary on.
\<close>

definition recent_conversations :: "'z conv_db_scheme \<Rightarrow> (int \<times> instant) list" where
  "recent_conversations db =
     rev (sort_key (\<lambda>(cid, updated_at). (updated_at, cid))
       (concat (map (\<lambda>c. case sql_max (map ce_created (entries_of (cv_id c) db)) of
                            None \<Rightarrow> [] | Some t \<Rightarrow> [(cv_id c, t)]) (conversations db))))"

definition recent_group :: "'z conv_db_scheme \<Rightarrow> int \<times> instant \<Rightarrow> conv_group" where
  "recent_group db x =
     (case x of (cid, updated_at) \<Rightarrow>
        let rows = entries_of cid db;
            start = coalesce (sql_max (map ce_sub (filter (\<lambda>e. ce_role e = Summary) rows))) 1
        in conversation_group cid updated_at (sort_key ce_sub (filter (\<lambda>e. ce_sub e \<ge> start) rows)) False)"

definition query_recent :: "int \<Rightarrow> 'z conv_db_scheme \<Rightarrow> conv_group list \<times> nat \<times> int" where
  "query_recent page db =
     (let recent = recent_conversations db;
          offset = nat (page - 1) * DEFAULT_RECENT_CONVERSATION_COUNT
      in (map (recent_group db) (take DEFAULT_RECENT_CONVERSATION_COUNT (drop offset recent)),
          length recent, next_conversation_id db))"

definition query_range :: "int \<Rightarrow> int option \<Rightarrow> int option \<Rightarrow> 'z conv_db_scheme \<Rightarrow> conv_group list \<times> nat \<times> int" where
  "query_range cid start_sub end_sub db =
     (let matching = filter (\<lambda>e. (case start_sub of None \<Rightarrow> True | Some i \<Rightarrow> ce_sub e \<ge> i) \<and>
                                  (case end_sub of None \<Rightarrow> True | Some i \<Rightarrow> ce_sub e \<le> i)) (entries_of cid db);
          rows = rev (take MAX_CONVERSATION_QUERY_LIMIT (rev (sort_key ce_sub matching)))
      in (case sql_max (map ce_created (entries_of cid db)) of
            None \<Rightarrow> []
          | Some updated_at \<Rightarrow> [conversation_group cid updated_at rows (start_sub \<noteq> None \<or> end_sub \<noteq> None)],
          length matching, next_conversation_id db))"

definition query_conversations ::
  "pyval \<Rightarrow> pyval \<Rightarrow> pyval \<Rightarrow> pyval \<Rightarrow> 'z conv_db_scheme \<Rightarrow> (conv_group list \<times> nat \<times> int) result" where
  "query_conversations conversation_id start_sub_id end_sub_id page db =
     andThen (query_page page) (\<lambda>p.
     andThen (if conversation_id \<noteq> PNone
              then andThen (validate_conversation_id conversation_id) (\<lambda>cid.
                     if p \<noteq> 1 then Inl (ValueError ''page is only available without conversation_id'') else Inr (Some cid))
              else if start_sub_id \<noteq> PNone \<or> end_sub_id \<noteq> PNone
              then Inl (ValueError ''sub_id ranges require conversation_id'')
              else Inr None) (\<lambda>cid.
     andThen (positive_sub_id ''start_sub_id'' start_sub_id) (\<lambda>start_sub.
     andThen (positive_sub_id ''end_sub_id'' end_sub_id) (\<lambda>end_sub.
       if (case (start_sub, end_sub) of (Some a, Some b) \<Rightarrow> a > b | _ \<Rightarrow> False)
       then Inl (ValueError ''start_sub_id cannot exceed end_sub_id'')
       else Inr (case cid of None \<Rightarrow> query_recent p db | Some c \<Rightarrow> query_range c start_sub end_sub db)))))"

end
