(* ===== verification/Conversation_Safety.thy ===== *)
theory Conversation_Safety
  imports Conversation_Log
begin

text \<open>
  The well-formedness of the conversation log and that creating and appending keep it: conversation
  ids are 0, 1, 2, ..., the entries of a conversation are numbered 1, 2, 3, ... without a gap, it
  opens with a user and an ai entry, and at most 49 user or ai entries stand after its latest
  summary.  The log is append-only.
\<close>

section \<open>The entries of one conversation\<close>

definition numbered :: "conv_entry list \<Rightarrow> bool" where
  "numbered rows \<longleftrightarrow> map ce_sub rows = map int [1..<Suc (length rows)]"

definition open_count :: "conv_entry list \<Rightarrow> nat" where
  "open_count rows = length (takeWhile (\<lambda>e. ce_role e \<noteq> Summary) (rev rows))"

lemma open_count_simps [simp]:
  "open_count [] = 0"
  "open_count (rows @ [e]) = (if ce_role e = Summary then 0 else Suc (open_count rows))"
  by (simp_all add: open_count_def)

lemma numbered_Nil [simp]: "numbered []"
  by (simp add: numbered_def)

lemma numbered_snoc: "numbered (rows @ [e]) \<longleftrightarrow> numbered rows \<and> ce_sub e = int (Suc (length rows))"
  by (simp add: numbered_def)

lemma numbered_last: "numbered rows \<Longrightarrow> coalesce (sql_max (map ce_sub rows)) 0 = int (length rows)"
  unfolding numbered_def by (simp only: sql_max_upt) simp

lemma numbered_range: "numbered rows \<Longrightarrow> e \<in> set rows \<Longrightarrow> 1 \<le> ce_sub e \<and> ce_sub e \<le> int (length rows)"
proof -
  assume n: "numbered rows" and "e \<in> set rows"
  then have "ce_sub e \<in> set (map ce_sub rows)" by simp
  with n show ?thesis unfolding numbered_def by (simp only: set_map) auto
qed

text \<open>What \<open>conversation_summary_status\<close> counts is the run of entries after the latest summary.\<close>

abbreviation latest_summary :: "conv_entry list \<Rightarrow> int option" where
  "latest_summary rows \<equiv> sql_max (map ce_sub (filter (\<lambda>e. ce_role e = Summary) rows))"

lemma latest_summary_le: "numbered rows \<Longrightarrow> coalesce (latest_summary rows) 0 \<le> int (length rows)"
proof (cases "latest_summary rows")
  case (Some m)
  assume n: "numbered rows"
  from sql_max_bounds [OF Some] obtain e where "e \<in> set rows" "ce_sub e = m" by auto
  with numbered_range [OF n] Some show ?thesis by force
qed simp

lemma count_after_summary:
  "numbered rows \<Longrightarrow>
   length (filter (\<lambda>e. ce_role e \<in> {User, Ai} \<and> ce_sub e > coalesce (latest_summary rows) 0) rows) = open_count rows"
proof (induction rows rule: rev_induct)
  case (snoc e rows)
  then have n: "numbered rows" and e: "ce_sub e = int (Suc (length rows))" by (simp_all add: numbered_snoc)
  show ?case
  proof (cases "ce_role e = Summary")
    case True
    have "coalesce (latest_summary (rows @ [e])) 0 = int (Suc (length rows))"
      using True e latest_summary_le [OF n] by (auto simp: sql_max_snoc split: option.splits)
    moreover have "ce_sub x \<le> int (length rows)" if "x \<in> set rows" for x using numbered_range [OF n that] by simp
    ultimately show ?thesis using True e by (simp add: filter_empty_conv) force
  next
    case False
    then show ?thesis using snoc.IH [OF n] e latest_summary_le [OF n] by (cases "ce_role e") simp_all
  qed
qed simp

lemma status_count: "numbered (entries_of cid db) \<Longrightarrow> ss_count (conversation_summary_status cid db) = open_count (entries_of cid db)"
  using count_after_summary [of "entries_of cid db"] by (simp add: conversation_summary_status_def Let_def)

section \<open>Appending\<close>

lemma append_items_rows:
  assumes "append_items cid now items last_id count latest = Inr rows"
  shows "(\<forall>e \<in> set rows. ce_conv e = cid \<and> ce_created e = now) \<and>
    map (\<lambda>e. (ce_role e, ce_content e)) rows = items \<and>
    map ce_sub rows = map (\<lambda>i. last_id + 1 + int i) [0..<length items]"
  using assms
proof (induction cid now items last_id count latest arbitrary: rows rule: append_items.induct)
  case (2 cid now role content items last_id count latest)
  from "2.prems" obtain rest where ok: "\<not> (role \<noteq> Summary \<and> count \<ge> CONVERSATION_SUMMARY_REQUIRED_AFTER)"
    and rest: "append_items cid now items (last_id + 1) (if role = Summary then 0 else count + 1)
        (if role = Summary then Some (last_id + 1) else latest) = Inr rest"
    and rows: "rows = \<lparr>ce_conv = cid, ce_sub = last_id + 1, ce_created = now, ce_role = role, ce_content = content\<rparr> # rest"
    by (auto simp: Let_def split: if_splits)
  from "2.IH" [OF ok refl rest] have IH: "\<forall>e \<in> set rest. ce_conv e = cid \<and> ce_created e = now"
    "map (\<lambda>e. (ce_role e, ce_content e)) rest = items"
    "map ce_sub rest = map (\<lambda>i. last_id + 1 + 1 + int i) [0..<length items]" by simp_all
  have "map (\<lambda>i. last_id + 1 + int i) [0..<length ((role, content) # items)] =
      (last_id + 1) # map (\<lambda>i. last_id + 1 + 1 + int i) [0..<length items]"
    by (simp add: upt_conv_Cons map_Suc_upt [symmetric] del: upt_Suc)
  with IH rows show ?case by simp
qed simp

lemma append_items_open:
  assumes "append_items cid now items last_id (open_count before) latest = Inr rows"
    and "open_count before \<le> CONVERSATION_SUMMARY_REQUIRED_AFTER"
  shows "open_count (before @ rows) \<le> CONVERSATION_SUMMARY_REQUIRED_AFTER"
  using assms
proof (induction items arbitrary: before last_id latest rows)
  case (Cons x items)
  obtain role content where x: "x = (role, content)" by fastforce
  let ?e = "\<lparr>ce_conv = cid, ce_sub = last_id + 1, ce_created = now, ce_role = role, ce_content = content\<rparr>"
  from Cons.prems(1) x obtain rest where ok: "role = Summary \<or> open_count before < CONVERSATION_SUMMARY_REQUIRED_AFTER"
    and rest: "append_items cid now items (last_id + 1) (open_count (before @ [?e]))
        (if role = Summary then Some (last_id + 1) else latest) = Inr rest"
    and rows: "rows = ?e # rest"
    by (auto simp: Let_def split: if_splits)
  have "open_count (before @ [?e]) \<le> CONVERSATION_SUMMARY_REQUIRED_AFTER" using ok by auto
  from Cons.IH [OF rest this] rows show ?case by simp
qed simp

lemma append_items_numbered:
  assumes "append_items cid now items (int (length before)) count latest = Inr rows" "numbered before"
  shows "numbered (before @ rows)"
proof -
  have len: "length rows = length items"
    using append_items_rows [OF assms(1)] by (metis length_map)
  have "map ce_sub rows = map (\<lambda>i. int (length before) + 1 + int i) [0..<length items]"
    using append_items_rows [OF assms(1)] by simp
  moreover have "map (\<lambda>i. int (length before) + 1 + int i) [0..<length items] =
      map int [Suc (length before)..<Suc (length before + length rows)]"
    using len by (intro nth_equalityI) (simp_all del: upt_Suc)
  moreover have "[1..<Suc (length before + length rows)] =
      [1..<Suc (length before)] @ [Suc (length before)..<Suc (length before + length rows)]"
    by (metis upt_add_eq_append le_add1 Suc_le_mono One_nat_def add_Suc le_add1 Suc_le_mono zero_le)
  ultimately show ?thesis using assms(2) unfolding numbered_def
    by (simp only: map_append length_append)
qed

section \<open>The whole log\<close>

definition conv_ids_ok :: "'z conv_db_scheme \<Rightarrow> bool" where
  "conv_ids_ok db \<longleftrightarrow> map cv_id (conversations db) = map int [0..<length (conversations db)]"

definition conv_entries_ok :: "'z conv_db_scheme \<Rightarrow> bool" where
  "conv_entries_ok db \<longleftrightarrow>
     (\<forall>cid. numbered (entries_of cid db) \<and> open_count (entries_of cid db) \<le> CONVERSATION_SUMMARY_REQUIRED_AFTER) \<and>
     (\<forall>e \<in> set (conversation_entries db). ce_conv e \<in> cv_id ` set (conversations db)) \<and>
     (\<forall>c \<in> set (conversations db). map ce_role (take 2 (entries_of (cv_id c) db)) = [User, Ai])"

definition conv_ledger_ok :: "'z conv_db_scheme \<Rightarrow> bool" where
  "conv_ledger_ok db \<longleftrightarrow> distinct (map request_key (conversation_create_requests db)) \<and>
     length (conversation_create_requests db) \<le> MAX_CONVERSATION_CREATE_REQUESTS \<and>
     (\<forall>q \<in> set (conversation_create_requests db). \<exists>c \<in> set (conversations db).
        cv_id c = rc_conv (cq_response q) \<and> cv_nonce c = rc_nonce (cq_response q))"

definition conv_wf :: "'z conv_db_scheme \<Rightarrow> bool" where
  "conv_wf db \<longleftrightarrow> conv_ids_ok db \<and> conv_entries_ok db \<and> conv_ledger_ok db"

definition log_extends :: "'z conv_db_scheme \<Rightarrow> 'z conv_db_scheme \<Rightarrow> bool" where
  "log_extends db db' \<longleftrightarrow> prefix (conversations db) (conversations db') \<and>
     prefix (conversation_entries db) (conversation_entries db') \<and>
     prefix (conversation_create_requests db) (conversation_create_requests db')"

lemma log_extends_refl [simp]: "log_extends db db"
  by (simp add: log_extends_def)

lemma log_extends_trans: "log_extends a b \<Longrightarrow> log_extends b c \<Longrightarrow> log_extends a c"
  unfolding log_extends_def by (meson prefix_order.trans)

lemma next_id_length: "conv_ids_ok db \<Longrightarrow> next_conversation_id db = int (length (conversations db))"
proof -
  assume ids: "conv_ids_ok db"
  have "sql_max (map int [0..<n]) = (if n = 0 then None else Some (int n - 1))" for n
    by (induction n) (auto simp: sql_max_snoc split: option.splits if_splits)
  then show ?thesis using ids unfolding next_conversation_id_def conv_ids_ok_def by simp
qed

lemma conv_ids_distinct: "conv_ids_ok db \<Longrightarrow> distinct (map cv_id (conversations db))"
  unfolding conv_ids_ok_def by (simp add: distinct_map inj_on_def)

lemma verify_writer_nonce_Inr:
  "verify_writer_nonce v n db = Inr cid \<Longrightarrow>
    v = PInt cid \<and> (\<exists>c \<in> set (conversations db). cv_id c = cid \<and> n = PStr (cv_nonce c) \<and> valid_nonce (cv_nonce c))"
  by (auto simp: verify_writer_nonce_def validate_conversation_id_def validate_writer_nonce_def
      split: pyval.splits if_splits option.splits dest: select_Some)

lemma append_locked_Inr:
  assumes "append_locked cid items now db = Inr (rows, db')"
  shows "db' = db\<lparr>conversation_entries := conversation_entries db @ rows\<rparr> \<and>
    (\<exists>latest. append_items cid now items (coalesce (sql_max (map ce_sub (entries_of cid db))) 0)
       (ss_count (conversation_summary_status cid db)) latest = Inr rows)"
  using assms by (auto simp: append_locked_def Let_def split: if_splits)

lemma append_locked_rows:
  assumes "append_locked cid items now db = Inr (rows, db')"
  shows "db' = db\<lparr>conversation_entries := conversation_entries db @ rows\<rparr> \<and>
    (\<forall>e \<in> set rows. ce_conv e = cid \<and> ce_created e = now) \<and> map (\<lambda>e. (ce_role e, ce_content e)) rows = items"
  using append_locked_Inr [OF assms] append_items_rows by fastforce

lemma append_locked_entries:
  assumes "append_locked cid items now db = Inr (rows, db')"
  shows "entries_of k db' = entries_of k db @ (if k = cid then rows else [])"
  using append_locked_rows [OF assms] by (auto simp: entries_of_def filter_id_conv filter_empty_conv)

lemma append_locked_numbered:
  assumes "append_locked cid items now db = Inr (rows, db')"
    and "numbered (entries_of cid db)" "open_count (entries_of cid db) \<le> CONVERSATION_SUMMARY_REQUIRED_AFTER"
  shows "numbered (entries_of cid db') \<and> open_count (entries_of cid db') \<le> CONVERSATION_SUMMARY_REQUIRED_AFTER"
proof -
  obtain latest where "append_items cid now items (int (length (entries_of cid db))) (open_count (entries_of cid db)) latest = Inr rows"
    using append_locked_Inr [OF assms(1)] numbered_last [OF assms(2)] status_count [OF assms(2)] by auto
  then show ?thesis using append_items_numbered append_items_open [OF _ assms(3)] assms(2)
    unfolding append_locked_entries [OF assms(1)] by simp
qed

text \<open>Appending to an existing conversation.\<close>

lemma append_locked_wf:
  assumes "append_locked cid items now db = Inr (rows, db')" "conv_wf db" "cid \<in> cv_id ` set (conversations db)"
  shows "conv_wf db' \<and> log_extends db db'"
proof -
  note rows = append_locked_rows [OF assms(1)] and es = append_locked_entries [OF assms(1)]
  have ok: "conv_entries_ok db" using assms(2) by (simp add: conv_wf_def)
  have "numbered (entries_of k db') \<and> open_count (entries_of k db') \<le> CONVERSATION_SUMMARY_REQUIRED_AFTER" for k
    using append_locked_numbered [OF assms(1)] ok es [of k] by (cases "k = cid") (auto simp: conv_entries_ok_def)
  moreover have "map ce_role (take 2 (entries_of (cv_id c) db')) = [User, Ai]" if "c \<in> set (conversations db)" for c
  proof -
    have two: "map ce_role (take 2 (entries_of (cv_id c) db)) = [User, Ai]" using ok that by (simp add: conv_entries_ok_def)
    then have "length (take 2 (entries_of (cv_id c) db)) = 2" by (metis length_map length_Cons list.size(3) numeral_2_eq_2)
    then have "2 \<le> length (entries_of (cv_id c) db)" by simp
    with two show ?thesis unfolding es by simp
  qed
  ultimately have "conv_entries_ok db'" using ok rows assms(3) unfolding conv_entries_ok_def by auto
  moreover have "conv_ids_ok db'" "conv_ledger_ok db'"
    using assms(2) rows by (simp_all add: conv_wf_def conv_ids_ok_def conv_ledger_ok_def)
  ultimately show ?thesis using rows by (simp add: conv_wf_def log_extends_def)
qed

lemma append_conversation_wf:
  assumes "append_conversation_tx v n es ai now db = Inr (rows, db')" "conv_wf db"
  shows "conv_wf db' \<and> log_extends db db'"
proof -
  from assms(1) obtain cid items where v: "verify_writer_nonce v n db = Inr cid"
    and a: "append_locked cid items now db = Inr (rows, db')" by (auto simp: append_conversation_tx_def)
  from verify_writer_nonce_Inr [OF v] have "cid \<in> cv_id ` set (conversations db)" by auto
  with append_locked_wf [OF a assms(2)] show ?thesis .
qed

text \<open>Creating the next conversation.\<close>

lemma normalize_items_length: "normalize_items i vs = Inr xs \<Longrightarrow> length xs = length vs"
  by (induction vs arbitrary: i xs) auto

lemma normalize_entries_Inr:
  assumes "normalize_entries es minimum pair ai = Inr items"
  shows "minimum \<le> length items \<and> length items \<le> 100 \<and> (pair \<longrightarrow> initial_pair items) \<and> (ai \<longrightarrow> list_ex (\<lambda>x. fst x = Ai) items)"
  using assms normalize_items_length
  by (fastforce simp: normalize_entries_def MAX_CONVERSATION_QUERY_LIMIT_def split: pyval.splits if_splits)

lemma initial_pair_roles: "initial_pair xs \<Longrightarrow> map fst (take 2 xs) = [User, Ai]"
  by (cases xs; cases "tl xs") (auto simp: initial_pair_def numeral_2_eq_2)

lemma insert_conversation_Inr:
  assumes "insert_conversation cid items nonce t1 t2 db = Inr (r, db')"
  obtains rows where "cid = next_conversation_id db"
    and "append_locked cid items t2
       (db\<lparr>conversations := conversations db @ [\<lparr>cv_id = cid, cv_created = t1, cv_nonce = nonce\<rparr>]\<rparr>) = Inr (rows, db')"
    and "r = \<lparr>rc_conv = cid, rc_nonce = nonce, rc_entries = rows, rc_status = conversation_summary_status cid db',
       rc_request = None, rc_replayed = None\<rparr>"
  using assms by (auto simp: insert_conversation_def split: if_splits)

lemma insert_conversation_wf:
  assumes "insert_conversation cid items nonce t1 t2 db = Inr (r, db')" "conv_wf db" "initial_pair items"
  shows "conv_wf db' \<and> log_extends db db' \<and> conversation_create_requests db' = conversation_create_requests db \<and>
    rc_nonce r = nonce \<and> rc_conv r = cid \<and> \<lparr>cv_id = cid, cv_created = t1, cv_nonce = nonce\<rparr> \<in> set (conversations db')"
proof -
  let ?c = "\<lparr>cv_id = cid, cv_created = t1, cv_nonce = nonce\<rparr>"
  let ?db = "db\<lparr>conversations := conversations db @ [?c]\<rparr>"
  obtain rows where cid: "cid = next_conversation_id db" and a: "append_locked cid items t2 ?db = Inr (rows, db')"
    and r: "r = \<lparr>rc_conv = cid, rc_nonce = nonce, rc_entries = rows, rc_status = conversation_summary_status cid db',
       rc_request = None, rc_replayed = None\<rparr>" by (rule insert_conversation_Inr [OF assms(1)])
  have ok: "conv_entries_ok db" and ids: "conv_ids_ok db" and led: "conv_ledger_ok db" using assms(2) by (simp_all add: conv_wf_def)
  have fresh: "cid \<notin> cv_id ` set (conversations db)"
  proof -
    have "cv_id ` set (conversations db) = int ` {0..<length (conversations db)}"
      using ids unfolding conv_ids_ok_def by (metis set_map set_upt)
    then show ?thesis using cid next_id_length [OF ids] by auto
  qed
  then have none: "entries_of cid db = []" using ok by (auto simp: conv_entries_ok_def entries_of_def filter_empty_conv)
  note rows = append_locked_rows [OF a]
  have es: "entries_of k db' = entries_of k db @ (if k = cid then rows else [])" for k
    using append_locked_entries [OF a, of k] by (simp add: entries_of_def)
  have new: "numbered (entries_of cid db') \<and> open_count (entries_of cid db') \<le> CONVERSATION_SUMMARY_REQUIRED_AFTER"
    by (rule append_locked_numbered [OF a]) (use none in \<open>simp_all add: entries_of_def\<close>)
  have "numbered (entries_of k db') \<and> open_count (entries_of k db') \<le> CONVERSATION_SUMMARY_REQUIRED_AFTER" for k
    using new ok es [of k] by (cases "k = cid") (auto simp: conv_entries_ok_def)
  moreover have "map ce_role (take 2 rows) = [User, Ai]"
  proof -
    have "map fst (take 2 (map (\<lambda>e. (ce_role e, ce_content e)) rows)) = [User, Ai]"
      using rows initial_pair_roles [OF assms(3)] by simp
    then show ?thesis by (simp add: take_map comp_def)
  qed
  moreover have "cv_id c \<noteq> cid" if "c \<in> set (conversations db)" for c using fresh that by auto
  ultimately have "conv_entries_ok db'"
    using ok rows es none unfolding conv_entries_ok_def by (auto simp: ball_Un)
  moreover have "conv_ids_ok db'"
    using ids rows cid next_id_length [OF ids] by (simp add: conv_ids_ok_def)
  moreover have "conv_ledger_ok db'" using led rows by (auto simp: conv_ledger_ok_def)
  ultimately show ?thesis using rows r by (simp add: conv_wf_def log_extends_def)
qed

text \<open>The outcomes of a creation: without a request id, a replay, a first execution.\<close>

lemma create_keyed_cases:
  assumes "create_keyed f cid items key actor nonce t1 t2 db = Inr (r, db')"
  obtains (replay) previous where "select request_key (actor, key) (conversation_create_requests db) = Some previous"
      "db' = db" "replay_conversation cid f previous db = Inr r"
  | (first) receipt db1 where "select request_key (actor, key) (conversation_create_requests db) = None"
      "length (conversation_create_requests db) < MAX_CONVERSATION_CREATE_REQUESTS"
      "insert_conversation cid items nonce t1 t2 db = Inr (receipt, db1)"
      "r = receipt\<lparr>rc_request := Some key, rc_replayed := Some False\<rparr>"
      "db' = db1\<lparr>conversation_create_requests := conversation_create_requests db1 @
         [\<lparr>cq_actor = actor, cq_request = key, cq_fingerprint = f, cq_response = r\<rparr>]\<rparr>"
proof (cases "select request_key (actor, key) (conversation_create_requests db)")
  case None
  with assms obtain receipt db1 where
    "length (conversation_create_requests db) < MAX_CONVERSATION_CREATE_REQUESTS"
    "insert_conversation cid items nonce t1 t2 db = Inr (receipt, db1)"
    "r = receipt\<lparr>rc_request := Some key, rc_replayed := Some False\<rparr>"
    "db' = db1\<lparr>conversation_create_requests := conversation_create_requests db1 @
       [\<lparr>cq_actor = actor, cq_request = key, cq_fingerprint = f, cq_response = r\<rparr>]\<rparr>"
    by (auto simp: create_keyed_def Let_def split: if_splits)
  with None first show ?thesis by blast
next
  case (Some previous)
  then have "db' = db" "replay_conversation cid f previous db = Inr r" using assms by (auto simp: create_keyed_def)
  with Some replay show ?thesis by blast
qed

lemma create_keyed_wf:
  assumes "create_keyed f cid items key actor nonce t1 t2 db = Inr (r, db')" "conv_wf db" "initial_pair items"
  shows "conv_wf db' \<and> log_extends db db'"
  using assms(1)
proof (cases rule: create_keyed_cases)
  case (first receipt db1)
  note i = insert_conversation_wf [OF first(3) assms(2,3)]
  have rc: "rc_conv r = cid" "rc_nonce r = nonce" using i first(4) by simp_all
  have "conv_ledger_ok db'" unfolding conv_ledger_ok_def
  proof (intro conjI ballI)
    have "(actor, key) \<notin> request_key ` set (conversation_create_requests db)" using first(1) by (simp add: select_None)
    moreover have "distinct (map request_key (conversation_create_requests db))" using assms(2) by (simp add: conv_wf_def conv_ledger_ok_def)
    ultimately show "distinct (map request_key (conversation_create_requests db'))" using i first(5) by (simp add: request_key_def)
    show "length (conversation_create_requests db') \<le> MAX_CONVERSATION_CREATE_REQUESTS" using i first(2,5) by simp
  next
    fix q assume q: "q \<in> set (conversation_create_requests db')"
    show "\<exists>c \<in> set (conversations db'). cv_id c = rc_conv (cq_response q) \<and> cv_nonce c = rc_nonce (cq_response q)"
    proof (cases "q \<in> set (conversation_create_requests db1)")
      case True
      then show ?thesis using i first(5) by (simp add: conv_wf_def conv_ledger_ok_def)
    next
      case False
      then have "cq_response q = r" using q first(5) by simp
      with rc i first(5) show ?thesis by (intro bexI [of _ "\<lparr>cv_id = cid, cv_created = t1, cv_nonce = nonce\<rparr>"]) simp_all
    qed
  qed
  moreover have "conv_ids_ok db'" "conv_entries_ok db'"
    using i first(5) by (simp_all add: conv_wf_def conv_ids_ok_def conv_entries_ok_def entries_of_def)
  moreover have "log_extends db db'" using i first(5) by (simp add: log_extends_def)
  ultimately show ?thesis by (simp add: conv_wf_def)
qed (use assms(2) in simp)

lemma create_conversation_cases:
  assumes "create_conversation_tx sha v es req actor nonce t1 t2 db = Inr (r, db')"
  obtains (plain) cid items where "v = PInt cid" "normalize_entries es 2 True False = Inr items" "req = None"
      "insert_conversation cid items nonce t1 t2 db = Inr (r, db')"
  | (keyed) cid items key a where "v = PInt cid" "normalize_entries es 2 True False = Inr items"
      "req = Some (PStr key)" "actor = Some a"
      "create_keyed (sha (json_text (create_request_json cid items))) cid items key a nonce t1 t2 db = Inr (r, db')"
proof -
  from assms obtain cid items where v: "validate_conversation_id v = Inr cid" and n: "normalize_entries es 2 True False = Inr items"
    by (auto simp: create_conversation_tx_def)
  have v': "v = PInt cid" using v by (auto simp: validate_conversation_id_def split: pyval.splits if_splits)
  show thesis
  proof (cases req)
    case None
    with assms v n show thesis by (intro plain [OF v' n]) (simp_all add: create_conversation_tx_def)
  next
    case (Some q)
    with assms v n obtain key a where q: "q = PStr key" and a: "actor = Some a"
      by (cases q; cases actor) (simp_all add: create_conversation_tx_def split: if_splits)
    with Some assms v n show thesis
      by (intro keyed [OF v' n, of key a]) (simp_all add: create_conversation_tx_def split: if_splits)
  qed
qed

lemma create_conversation_wf:
  assumes "create_conversation_tx sha v es req actor nonce t1 t2 db = Inr (r, db')" "conv_wf db"
  shows "conv_wf db' \<and> log_extends db db'"
  using assms(1)
proof (cases rule: create_conversation_cases)
  case (plain cid items)
  then show ?thesis using insert_conversation_wf [OF plain(4) assms(2)] normalize_entries_Inr [OF plain(2)] by simp
next
  case (keyed cid items key a)
  then show ?thesis using create_keyed_wf [OF keyed(5) assms(2)] normalize_entries_Inr [OF keyed(2)] by simp
qed

end
