(* ===== verification/Text_Tools.thy ===== *)
theory Text_Tools
  imports Kapsel_Prelude
begin

text \<open>
  Text operations that the Context and the Memory store share: \<open>posixpath.normpath\<close>, the LIKE
  operator of the database with the pattern the queries build, and the checks on text arguments.
\<close>

section \<open>Paths\<close>

text \<open>\<open>posixpath.normpath\<close>.\<close>

fun norm_components :: "bool \<Rightarrow> string list \<Rightarrow> string list \<Rightarrow> string list" where
  "norm_components rooted done [] = rev done"
| "norm_components rooted done (c # cs) =
     (if c = [] \<or> c = ''.'' then norm_components rooted done cs
      else if c \<noteq> ''..'' \<or> (\<not> rooted \<and> done = []) \<or> (done \<noteq> [] \<and> hd done = ''..'')
      then norm_components rooted (c # done) cs
      else norm_components rooted (tl done) cs)"

definition normpath :: "string \<Rightarrow> string" where
  "normpath path =
     (if path = [] then ''.''
      else let slashes = (if startswith path ''//'' \<and> \<not> startswith path ''///'' then ''//''
                          else if startswith path ''/'' then ''/'' else []);
               text = slashes @ join ''/'' (norm_components (slashes \<noteq> []) [] (split_on (CHR ''/'') path))
           in if text = [] then ''.'' else text)"

section \<open>Search\<close>

text \<open>
  The LIKE operator with the escape character backslash: ASCII letters match in either case.  (SQLite
  reads both operands up to a NUL character; the model is for text without one.)
\<close>

definition ascii_lower :: "char \<Rightarrow> char" where
  "ascii_lower c = (let n = (of_char c :: nat) in if 65 \<le> n \<and> n \<le> 90 then char_of (n + 32) else c)"

fun like :: "string \<Rightarrow> string \<Rightarrow> bool" where
  "like [] s = (s = [])"
| "like (c # p) s =
     (if c = CHR 0x5C
      then (case (p, s) of (d # p', x # s') \<Rightarrow> ascii_lower x = ascii_lower d \<and> like p' s' | _ \<Rightarrow> False)
      else if c = CHR ''%'' then like p s \<or> (case s of [] \<Rightarrow> False | _ # s' \<Rightarrow> like (c # p) s')
      else if c = CHR ''_'' then (case s of [] \<Rightarrow> False | _ # s' \<Rightarrow> like p s')
      else (case s of [] \<Rightarrow> False | x # s' \<Rightarrow> ascii_lower x = ascii_lower c \<and> like p s'))"

definition replace_char :: "char \<Rightarrow> string \<Rightarrow> string \<Rightarrow> string" where
  "replace_char c t s = concat (map (\<lambda>x. if x = c then t else [x]) s)"

definition like_pattern :: "string \<Rightarrow> string" where
  "like_pattern q =
     ''%'' @ replace_char (CHR ''_'') [CHR 0x5C, CHR ''_'']
       (replace_char (CHR ''%'') [CHR 0x5C, CHR ''%''] (replace_char (CHR 0x5C) [CHR 0x5C, CHR 0x5C] q)) @ ''%''"

section \<open>Numbers\<close>

text \<open>
  \<open>int\<close> of a text: surrounding space, a sign, and decimal digits with single underscores between
  them.  (Below code point 256 only the ASCII digits are decimal.)
\<close>

definition int_of_text :: "string \<Rightarrow> int option" where
  "int_of_text s =
     (let t = strip s; signed = t \<noteq> [] \<and> hd t \<in> set ''+-''; digits = (if signed then tl t else t);
          pieces = split_on (CHR ''_'') digits
      in if list_all (\<lambda>w. w \<noteq> [] \<and> list_all ascii_digit w) pieces \<and> length (concat pieces) \<le> 4300
         then Some ((if signed \<and> hd t = CHR ''-'' then - 1 else 1) * int (digits_value (concat pieces)))
         else None)"

section \<open>Arguments\<close>

definition optional :: "(pyval \<Rightarrow> 'a result) \<Rightarrow> pyval \<Rightarrow> 'a option result" where
  "optional f v = (if v = PNone then Inr None else andThen (f v) (\<lambda>x. Inr (Some x)))"

definition validate_string :: "string \<Rightarrow> nat \<Rightarrow> pyval \<Rightarrow> string result" where
  "validate_string label maximum v =
     (case v of
        PStr s \<Rightarrow>
          if strip s = [] then Inl (ValueError (label @ '' must be a non-empty string''))
          else if length (strip s) > maximum
          then Inl (ValueError (label @ '' exceeds '' @ show_nat maximum @ '' characters''))
          else Inr (strip s)
      | _ \<Rightarrow> Inl (ValueError (label @ '' must be a non-empty string'')))"

section \<open>The search finds exactly the substrings\<close>

text \<open>The escaped text of a character, and of a query.\<close>

definition escaped :: "char \<Rightarrow> string" where
  "escaped c = (if c \<in> set [CHR 0x5C, CHR ''%'', CHR ''_''] then [CHR 0x5C, c] else [c])"

lemma replace_char_append: "replace_char c t (xs @ ys) = replace_char c t xs @ replace_char c t ys"
  by (simp add: replace_char_def)

lemma like_pattern_escaped: "like_pattern q = ''%'' @ concat (map escaped q) @ ''%''"
proof -
  have "replace_char (CHR ''_'') [CHR 0x5C, CHR ''_'']
      (replace_char (CHR ''%'') [CHR 0x5C, CHR ''%''] (replace_char (CHR 0x5C) [CHR 0x5C, CHR 0x5C] q)) = concat (map escaped q)"
  proof (induction q)
    case (Cons c q)
    have "replace_char (CHR 0x5C) [CHR 0x5C, CHR 0x5C] (c # q) =
        (if c = CHR 0x5C then [CHR 0x5C, CHR 0x5C] else [c]) @ replace_char (CHR 0x5C) [CHR 0x5C, CHR 0x5C] q"
      by (simp add: replace_char_def)
    then show ?case using Cons by (simp add: replace_char_append) (simp add: replace_char_def escaped_def)
  qed (simp add: replace_char_def)
  then show ?thesis by (simp add: like_pattern_def)
qed

lemma like_any: "like (CHR ''%'' # p) s \<longleftrightarrow> (\<exists>a b. s = a @ b \<and> like p b)"
proof (induction s)
  case (Cons x s)
  have "like (CHR ''%'' # p) (x # s) \<longleftrightarrow> like p (x # s) \<or> like (CHR ''%'' # p) s" by simp
  also have "\<dots> \<longleftrightarrow> (\<exists>a b. x # s = a @ b \<and> like p b)" unfolding Cons
    by (auto simp: Cons_eq_append_conv)
  finally show ?case .
qed simp

lemma like_escaped: "like (escaped c @ p) s \<longleftrightarrow> (\<exists>x s'. s = x # s' \<and> ascii_lower x = ascii_lower c \<and> like p s')"
  by (cases s) (auto simp: escaped_def)

lemma like_literal: "like (concat (map escaped q) @ ''%'') s \<longleftrightarrow> prefix (map ascii_lower q) (map ascii_lower s)"
proof (induction q arbitrary: s)
  case Nil
  show ?case using like_any [of "[]" s] by auto
next
  case (Cons c q)
  have "like (concat (map escaped (c # q)) @ ''%'') s \<longleftrightarrow>
      (\<exists>x s'. s = x # s' \<and> ascii_lower x = ascii_lower c \<and> like (concat (map escaped q) @ ''%'') s')"
    by (simp add: like_escaped)
  then show ?case unfolding Cons by (cases s) auto
qed

lemma like_pattern_sublist: "like (like_pattern q) s \<longleftrightarrow> sublist (map ascii_lower q) (map ascii_lower s)"
proof -
  have "like (like_pattern q) s \<longleftrightarrow> (\<exists>b. suffix b s \<and> prefix (map ascii_lower q) (map ascii_lower b))"
    unfolding like_pattern_escaped using like_any [of "concat (map escaped q) @ ''%''" s] by (auto simp: like_literal suffix_def)
  also have "\<dots> \<longleftrightarrow> (\<exists>t. suffix t (map ascii_lower s) \<and> prefix (map ascii_lower q) t)"
    by (auto simp: suffix_def map_eq_append_conv)
  finally show ?thesis by (simp add: sublist_altdef')
qed

end
