(* ===== verification/Context_Store.thy ===== *)
theory Context_Store
  imports Conversation_Safety Text_Tools
begin

text \<open>
  The Context database of a workspace: \<open>ContextStore\<close> of \<open>openkapsel/context/context_store.py\<close>,
  with operations, notes and a hierarchy of plans.  The record \<open>ctx_db\<close> extends the conversation
  tables with the tables of this file.  A JSON column holds the value that \<open>json.loads\<close> gives back;
  \<open>entry_seq\<close> is the AUTOINCREMENT counter of \<open>context_entries\<close>; deleting an entry deletes the rows
  of the tables that reference it with ON DELETE CASCADE.  An argument that the code tests with
  \<open>isinstance\<close> is a \<^typ>\<open>pyval\<close>, with \<open>PNone\<close> for an omitted one.
\<close>

section \<open>Tables\<close>

datatype entry_type = Operation | Plan | Note

datatype op_status = Op_Running | Op_Succeeded | Op_Failed

datatype plan_status = In_Progress | Plan_Completed | Plan_Cancelled

definition entry_type_of :: "string \<Rightarrow> entry_type option" where
  "entry_type_of s = (if s = ''operation'' then Some Operation else if s = ''plan'' then Some Plan
     else if s = ''note'' then Some Note else None)"

definition op_status_of :: "string \<Rightarrow> op_status option" where
  "op_status_of s = (if s = ''running'' then Some Op_Running else if s = ''succeeded'' then Some Op_Succeeded
     else if s = ''failed'' then Some Op_Failed else None)"

definition plan_status_of :: "string \<Rightarrow> plan_status option" where
  "plan_status_of s = (if s = ''in_progress'' then Some In_Progress else if s = ''completed'' then Some Plan_Completed
     else if s = ''cancelled'' then Some Plan_Cancelled else None)"

definition op_status_name :: "op_status \<Rightarrow> string" where
  "op_status_name s = (case s of Op_Running \<Rightarrow> ''running'' | Op_Succeeded \<Rightarrow> ''succeeded'' | Op_Failed \<Rightarrow> ''failed'')"

definition plan_status_name :: "plan_status \<Rightarrow> string" where
  "plan_status_name s = (case s of In_Progress \<Rightarrow> ''in_progress'' | Plan_Completed \<Rightarrow> ''completed'' | Plan_Cancelled \<Rightarrow> ''cancelled'')"

record entry =
  en_id :: int
  en_created :: instant
  en_updated :: instant
  en_type :: entry_type
  en_content :: string
  en_operation :: "string option"
  en_status :: "op_status option"
  en_summary :: "string option"
  en_actor :: "string option"
  en_request :: "pyval option"
  en_result :: "pyval option"
  en_taskname :: string
  en_plan_status :: "plan_status option"
  en_plan :: "int option"
  en_conv :: "int option"
  en_revision :: int

record debrief =
  db_plan :: int
  db_created :: instant
  db_actor :: "string option"
  db_summary :: string
  db_items :: "(string \<times> string list) list"
  db_outcome :: string
  db_refs :: "pyval list"
  db_feedback :: "pyval list"
  db_conflicts :: "pyval list"

record debrief_view =
  dv_created :: instant
  dv_actor :: "string option"
  dv_items :: "(string \<times> string list) list"
  dv_outcome :: string
  dv_refs :: "pyval list"
  dv_feedback :: "pyval list"
  dv_conflicts :: "pyval list"
  dv_legacy :: "string option"

record payload =
  pl_id :: int
  pl_created :: instant
  pl_updated :: instant
  pl_type :: entry_type
  pl_taskname :: string
  pl_content :: string
  pl_operation :: "string option"
  pl_status :: "string option"
  pl_summary :: "string option"
  pl_actor :: "string option"
  pl_plan :: "int option"
  pl_conv :: "int option"
  pl_message :: "string option"
  pl_revision :: "int option"
  pl_request :: "pyval option"
  pl_result :: "pyval option"
  pl_depth :: "nat option"
  pl_debrief :: "debrief_view option"

text \<open>The stored answer of a plan creation.\<close>

record plan_child =
  pc_id :: int
  pc_plan :: "int option"
  pc_taskname :: string
  pc_status :: "string option"
  pc_revision :: "int option"
  pc_index :: nat
  pc_ref :: "string option"

record plan_receipt =
  pr_root :: payload
  pr_todos :: "plan_child list"
  pr_scope_paths :: "string list"
  pr_memory_tags :: "string list"
  pr_conv_entries :: "conv_entry list"
  pr_conv_status :: summary_status
  pr_request :: "string option"
  pr_replayed :: "bool option"

record plan_request =
  pq_actor :: string
  pq_request :: string
  pq_fingerprint :: string
  pq_created :: instant
  pq_response :: plan_receipt

record ctx_db = conv_db +
  context_entries :: "entry list"
  entry_seq :: int
  context_entry_paths :: "(int \<times> string) list"
  plan_debriefs :: "debrief list"
  context_plan_requests :: "plan_request list"

definition empty_ctx :: ctx_db where
  "empty_ctx = \<lparr>conversations = [], conversation_entries = [], conversation_create_requests = [], context_entries = [],
     entry_seq = 0, context_entry_paths = [], plan_debriefs = [], context_plan_requests = []\<rparr>"

definition MAX_CONTEXT_CONTENT_CHARS :: nat where "MAX_CONTEXT_CONTENT_CHARS = 32768"
definition MAX_CONTEXT_OPERATION_MESSAGE_CHARS :: nat where "MAX_CONTEXT_OPERATION_MESSAGE_CHARS = 200"
definition MAX_CONTEXT_TASKNAME_CHARS :: nat where "MAX_CONTEXT_TASKNAME_CHARS = 32"
definition MAX_CONTEXT_ENTRIES :: nat where "MAX_CONTEXT_ENTRIES = 100000"
definition CONTEXT_TRIM_ENTRIES :: nat where "CONTEXT_TRIM_ENTRIES = 1000"
definition MAX_CONTEXT_QUERY_LIMIT :: int where "MAX_CONTEXT_QUERY_LIMIT = 200"
definition MAX_CONTEXT_ACTOR_ID_CHARS :: nat where "MAX_CONTEXT_ACTOR_ID_CHARS = 256"
definition MAX_CONTEXT_PATH_CHARS :: nat where "MAX_CONTEXT_PATH_CHARS = 4096"
definition CONTEXT_PATH_KEYS :: "string list" where "CONTEXT_PATH_KEYS = [''path'', ''source'', ''destination'', ''cwd'']"
definition MAX_PLAN_TREE_DEPTH :: int where "MAX_PLAN_TREE_DEPTH = 32"
definition MAX_UNFINISHED_ROOT_PLAN_HINTS :: int where "MAX_UNFINISHED_ROOT_PLAN_HINTS = 20"
definition MAX_PLAN_HINT_CONTENT_CHARS :: nat where "MAX_PLAN_HINT_CONTENT_CHARS = 256"

section \<open>Validation\<close>

definition validate_content :: "pyval \<Rightarrow> string result" where
  "validate_content = validate_string ''context content'' MAX_CONTEXT_CONTENT_CHARS"

definition validate_taskname :: "pyval \<Rightarrow> string result" where
  "validate_taskname = validate_string ''context taskname'' MAX_CONTEXT_TASKNAME_CHARS"

definition validate_actor_id :: "pyval \<Rightarrow> string result" where
  "validate_actor_id = validate_string ''context actor_id'' MAX_CONTEXT_ACTOR_ID_CHARS"

definition debrief_item_error :: "nat \<Rightarrow> string \<Rightarrow> pyerr" where
  "debrief_item_error index what = ValueError (''plan debrief item '' @ show_nat index @ what)"

fun validate_tags_loop :: "nat \<Rightarrow> string list \<Rightarrow> pyval list \<Rightarrow> string list result" where
  "validate_tags_loop index done [] = Inr done"
| "validate_tags_loop index done (tag # tags) =
     (case tag of
        PStr s \<Rightarrow>
          if strip s = [] \<or> length (strip s) > 64
          then Inl (debrief_item_error index '' tags must be non-empty strings up to 64 characters'')
          else if strip s \<in> set done then Inl (debrief_item_error index '' tags must be unique'')
          else validate_tags_loop index (done @ [strip s]) tags
      | _ \<Rightarrow> Inl (debrief_item_error index '' tags must be non-empty strings up to 64 characters''))"

definition validate_debrief_item :: "nat \<Rightarrow> pyval \<Rightarrow> (string \<times> string list) result" where
  "validate_debrief_item index v =
     (case v of
        PDict d \<Rightarrow>
          (case dict_get d ''content'' of
             PStr content \<Rightarrow>
               if strip content = [] \<or> length (strip content) > 256
               then Inl (debrief_item_error index '' content must be 1-256 characters'')
               else (case dict_get d ''tags'' of
                  PList tags \<Rightarrow>
                    if tags = [] \<or> length tags > 32
                    then Inl (debrief_item_error index '' tags must contain 1-32 tags; prefer 4-16'')
                    else andThen (validate_tags_loop index [] tags) (\<lambda>ts. Inr (strip content, ts))
                | _ \<Rightarrow> Inl (debrief_item_error index '' tags must contain 1-32 tags; prefer 4-16''))
           | _ \<Rightarrow> Inl (debrief_item_error index '' content must be 1-256 characters''))
      | _ \<Rightarrow> Inl (debrief_item_error index '' must be an object''))"

fun validate_debrief_loop :: "nat \<Rightarrow> pyval list \<Rightarrow> (string \<times> string list) list result" where
  "validate_debrief_loop index [] = Inr []"
| "validate_debrief_loop index (v # vs) =
     andThen (validate_debrief_item index v) (\<lambda>x. andThen (validate_debrief_loop (index + 1) vs) (\<lambda>xs. Inr (x # xs)))"

definition validate_debrief_items :: "pyval \<Rightarrow> (string \<times> string list) list result" where
  "validate_debrief_items v =
     (case v of
        PList vs \<Rightarrow>
          if length vs > 20 then Inl (ValueError ''plan debrief items cannot contain more than 20 items'')
          else validate_debrief_loop 0 vs
      | _ \<Rightarrow> Inl (ValueError ''plan debrief items must be an array''))"

definition normalize_path :: "pyval \<Rightarrow> string result" where
  "normalize_path v =
     (case v of
        PStr s \<Rightarrow>
          if strip s = [] then Inl (ValueError ''context path must be a non-empty string'')
          else if length (normpath (strip s)) > MAX_CONTEXT_PATH_CHARS
          then Inl (ValueError (''context path exceeds '' @ show_nat MAX_CONTEXT_PATH_CHARS @ '' characters''))
          else Inr (normpath (strip s))
      | _ \<Rightarrow> Inl (ValueError ''context path must be a non-empty string''))"

text \<open>A value that is not a path or fails the normalization is skipped.\<close>

definition path_of :: "pyval \<Rightarrow> string list" where
  "path_of v = (case normalize_path v of Inl _ \<Rightarrow> [] | Inr p \<Rightarrow> [p])"

definition candidates :: "pyval \<Rightarrow> pyval list" where
  "candidates v = (case v of PList vs \<Rightarrow> vs | _ \<Rightarrow> [v])"

definition extract_paths :: "pyval \<Rightarrow> string list" where
  "extract_paths v =
     (case v of
        PDict d \<Rightarrow>
          remdups (concat (map (\<lambda>key. concat (map path_of (candidates (dict_get d key)))) CONTEXT_PATH_KEYS) @
            (case dict_get d ''items'' of
               PList items \<Rightarrow> concat (map (\<lambda>item. case item of PDict e \<Rightarrow> path_of (dict_get e ''path'') | _ \<Rightarrow> []) items)
             | _ \<Rightarrow> []))
      | _ \<Rightarrow> [])"

definition insert_paths :: "int \<Rightarrow> pyval \<Rightarrow> 'z ctx_db_scheme \<Rightarrow> 'z ctx_db_scheme" where
  "insert_paths i v db =
     db\<lparr>context_entry_paths := context_entry_paths db @
       filter (\<lambda>row. row \<notin> set (context_entry_paths db)) (map (\<lambda>p. (i, p)) (extract_paths v))\<rparr>"

definition backfill_paths :: "'z ctx_db_scheme \<Rightarrow> 'z ctx_db_scheme" where
  "backfill_paths db =
     fold (\<lambda>row d.
       insert_paths (en_id row) (case en_result row of None \<Rightarrow> PNone | Some v \<Rightarrow> v)
         (insert_paths (en_id row) (case en_request row of None \<Rightarrow> PNone | Some v \<Rightarrow> v) d))
       (filter (\<lambda>row. en_request row \<noteq> None \<or> en_result row \<noteq> None) (context_entries db)) db"

definition validate_plan_id_value :: "pyval \<Rightarrow> int result" where
  "validate_plan_id_value v =
     (case v of PInt i \<Rightarrow> if i < 1 then Inl (ValueError ''plan_id must be a positive integer'') else Inr i
      | _ \<Rightarrow> Inl (ValueError ''plan_id must be a positive integer''))"

definition validate_revision :: "pyval \<Rightarrow> int result" where
  "validate_revision v =
     (case v of PInt i \<Rightarrow> if i < 1 then Inl (ValueError ''plan expected_revision must be a positive integer'') else Inr i
      | _ \<Rightarrow> Inl (ValueError ''plan expected_revision must be a positive integer''))"

section \<open>Plans and their parents\<close>

definition status_or_default :: "entry \<Rightarrow> plan_status" where
  "status_or_default row = coalesce (en_plan_status row) In_Progress"

definition require_plan :: "pyval \<Rightarrow> 'z ctx_db_scheme \<Rightarrow> entry result" where
  "require_plan v db =
     andThen (validate_plan_id_value v) (\<lambda>i.
       case select en_id i (context_entries db) of
         None \<Rightarrow> Inl (ValueError ''plan_id does not exist'')
       | Some row \<Rightarrow> if en_type row \<noteq> Plan then Inl (ValueError ''plan_id must reference a plan'') else Inr row)"

definition require_in_progress_plan_row :: "pyval \<Rightarrow> 'z ctx_db_scheme \<Rightarrow> entry result" where
  "require_in_progress_plan_row v db =
     andThen (require_plan v db) (\<lambda>row.
       if status_or_default row \<noteq> In_Progress then Inl (ValueError ''plan_id must reference an in_progress plan'') else Inr row)"

definition require_in_progress_plan :: "pyval \<Rightarrow> ('z ctx_db_scheme, int) op" where
  "require_in_progress_plan v db =
     (andThen (validate_plan_id_value v) (\<lambda>i. andThen (require_in_progress_plan_row v db) (\<lambda>_. Inr i)), db)"

definition capability_conversation :: "pyval \<Rightarrow> pyval \<Rightarrow> ('z ctx_db_scheme, int) op" where
  "capability_conversation plan_id writer_nonce db =
     (andThen (require_in_progress_plan_row plan_id db) (\<lambda>row.
        case en_conv row of
          None \<Rightarrow> Inl (ValueError ''plan has no owning conversation'')
        | Some cid \<Rightarrow> verify_writer_nonce (PInt cid) writer_nonce db), db)"

definition plan_row :: "entry list \<Rightarrow> int \<Rightarrow> entry option" where
  "plan_row rows i = find (\<lambda>r. en_id r = i \<and> en_type r = Plan) rows"

function plan_root_loop ::
  "entry list \<Rightarrow> int option \<Rightarrow> int list \<Rightarrow> (int \<times> entry) option \<Rightarrow> int option \<Rightarrow> (int \<times> entry) option result" where
  "plan_root_loop rows child visited found current =
     (case current of
        None \<Rightarrow> Inr found
      | Some i \<Rightarrow>
          if child = Some i then Inl (ValueError ''plan parent would create a cycle'')
          else if i \<in> set visited then Inl (ValueError ''existing plan hierarchy contains a cycle'')
          else (case plan_row rows i of
             None \<Rightarrow> Inr found
           | Some row \<Rightarrow> plan_root_loop rows child (i # visited) (Some (i, row)) (en_plan row)))"
  by pat_completeness auto
termination
proof (relation "measure (\<lambda>(rows, child, visited, found, current). card (en_id ` set rows - set visited))")
  fix rows :: "entry list" and child :: "int option" and visited :: "int list" and found :: "(int \<times> entry) option"
    and current :: "int option" and i and row
  assume "i \<notin> set visited" "plan_row rows i = Some row"
  then have "i \<in> en_id ` set rows - set visited" by (auto simp: plan_row_def find_Some_iff)
  then have "card (en_id ` set rows - set visited - {i}) < card (en_id ` set rows - set visited)"
    by (intro card_Diff1_less) simp_all
  moreover have "en_id ` set rows - set (i # visited) = en_id ` set rows - set visited - {i}" by auto
  ultimately show "((rows, child, i # visited, Some (i, row), en_plan row), (rows, child, visited, found, current))
      \<in> measure (\<lambda>(rows, child, visited, found, current). card (en_id ` set rows - set visited))" by simp
qed simp

declare plan_root_loop.simps [simp del]

definition plan_root :: "pyval \<Rightarrow> int option \<Rightarrow> 'z ctx_db_scheme \<Rightarrow> (int \<times> entry) result" where
  "plan_root v child db =
     andThen (validate_plan_id_value v) (\<lambda>i.
     andThen (require_plan (PInt i) db) (\<lambda>_.
       if child = Some i then Inl (ValueError ''a plan cannot be its own parent'')
       else andThen (plan_root_loop (context_entries db) child [] None (Some i)) (\<lambda>found.
         case found of None \<Rightarrow> Inl AssertionError | Some x \<Rightarrow> Inr x)))"

definition validate_plan_parent :: "pyval \<Rightarrow> int option \<Rightarrow> bool \<Rightarrow> 'z ctx_db_scheme \<Rightarrow> int result" where
  "validate_plan_parent v child require_root_in_progress db =
     andThen (validate_plan_id_value v) (\<lambda>i.
     andThen (require_plan (PInt i) db) (\<lambda>parent_row.
       if status_or_default parent_row \<noteq> In_Progress
       then Inl (ValueError ''subplan creation requires the parent plan to be in_progress'')
       else andThen (plan_root (PInt i) child db) (\<lambda>(root_id, root_row).
         if require_root_in_progress \<and> status_or_default root_row \<noteq> In_Progress
         then Inl (ValueError ''subplan creation requires the root plan to be in_progress'')
         else Inr i)))"

section \<open>Answers\<close>

definition serialize_debrief :: "debrief \<Rightarrow> debrief_view" where
  "serialize_debrief row =
     \<lparr>dv_created = db_created row, dv_actor = db_actor row, dv_items = db_items row, dv_outcome = db_outcome row,
      dv_refs = db_refs row, dv_feedback = db_feedback row, dv_conflicts = db_conflicts row,
      dv_legacy = (if db_items row = [] \<and> db_summary row \<noteq> [] then Some (db_summary row) else None)\<rparr>"

definition serialize :: "entry \<Rightarrow> payload" where
  "serialize row =
     \<lparr>pl_id = en_id row, pl_created = en_created row, pl_updated = en_updated row, pl_type = en_type row,
      pl_taskname = en_taskname row, pl_content = en_content row, pl_operation = en_operation row,
      pl_status = (if en_type row = Plan then map_option plan_status_name (en_plan_status row)
                   else map_option op_status_name (en_status row)),
      pl_summary = en_summary row, pl_actor = en_actor row, pl_plan = en_plan row, pl_conv = en_conv row,
      pl_message = (if en_type row = Operation then Some (en_content row) else None),
      pl_revision = (if en_type row = Plan then Some (en_revision row) else None),
      pl_request = en_request row, pl_result = en_result row, pl_depth = None, pl_debrief = None\<rparr>"

definition attach_debriefs :: "'z ctx_db_scheme \<Rightarrow> payload list \<Rightarrow> payload list" where
  "attach_debriefs db entries =
     map (\<lambda>e. if pl_type e = Plan
              then (case select db_plan (pl_id e) (plan_debriefs db) of
                      None \<Rightarrow> e | Some row \<Rightarrow> e\<lparr>pl_debrief := Some (serialize_debrief row)\<rparr>)
              else e) entries"

section \<open>Inserting and trimming\<close>

text \<open>An INSERT: the new row takes the next id of the AUTOINCREMENT counter.\<close>

definition insert_entry :: "entry \<Rightarrow> 'z ctx_db_scheme \<Rightarrow> int \<times> 'z ctx_db_scheme" where
  "insert_entry row db =
     (let i = entry_seq db + 1
      in (i, db\<lparr>context_entries := context_entries db @ [row\<lparr>en_id := i\<rparr>], entry_seq := i\<rparr>))"

text \<open>A DELETE, with the cascades to the paths and the debriefs.\<close>

definition delete_entries :: "(entry \<Rightarrow> bool) \<Rightarrow> 'z ctx_db_scheme \<Rightarrow> 'z ctx_db_scheme" where
  "delete_entries P db =
     (let ids = map en_id (filter P (context_entries db))
      in db\<lparr>context_entries := delete_where P (context_entries db),
            context_entry_paths := delete_where (\<lambda>(i, p). i \<in> set ids) (context_entry_paths db),
            plan_debriefs := delete_where (\<lambda>d. db_plan d \<in> set ids) (plan_debriefs db)\<rparr>)"

definition has_dependent :: "entry list \<Rightarrow> int \<Rightarrow> bool" where
  "has_dependent rows i \<longleftrightarrow> list_ex (\<lambda>r. en_plan r = Some i) rows"

definition trim_candidate :: "int list \<Rightarrow> entry list \<Rightarrow> entry \<Rightarrow> bool" where
  "trim_candidate protected_ids rows r \<longleftrightarrow>
     (en_type r \<noteq> Plan \<or> \<not> has_dependent rows (en_id r)) \<and> en_id r \<notin> set protected_ids"

definition trimmed_ids :: "int list \<Rightarrow> entry list \<Rightarrow> int list" where
  "trimmed_ids protected_ids rows =
     take CONTEXT_TRIM_ENTRIES (sort (map en_id (filter (trim_candidate protected_ids rows) rows)))"

definition trim_if_needed :: "int list \<Rightarrow> 'z ctx_db_scheme \<Rightarrow> 'z ctx_db_scheme" where
  "trim_if_needed protected_ids db =
     (if length (context_entries db) > MAX_CONTEXT_ENTRIES
      then let ids = trimmed_ids protected_ids (context_entries db) in delete_entries (\<lambda>r. en_id r \<in> set ids) db
      else db)"

record new_entry =
  ne_type :: string
  ne_content :: pyval
  ne_taskname :: pyval
  ne_actor :: pyval
  ne_operation :: "string option"
  ne_status :: "string option"
  ne_plan_status :: "string option"
  ne_plan :: pyval
  ne_request :: pyval
  ne_require_in_progress :: bool

definition checked_new_entry :: "new_entry \<Rightarrow> instant \<Rightarrow> entry result" where
  "checked_new_entry n now =
     (case entry_type_of (ne_type n) of
        None \<Rightarrow> Inl (ValueError ''context type must be operation, plan, or note'')
      | Some ty \<Rightarrow>
          if ne_status n \<noteq> None \<and> Option.bind (ne_status n) op_status_of = None
          then Inl (ValueError ''invalid context operation status'')
          else if ty \<noteq> Operation \<and> ne_status n \<noteq> None
          then Inl (ValueError ''only operation context can have an operation status'')
          else if ty = Operation \<and> ne_plan_status n \<noteq> None
          then Inl (ValueError ''operation context cannot have a plan status'')
          else if ty = Plan \<and> ne_plan_status n \<noteq> None
          then Inl (ValueError ''plan creation does not accept status; all plans start in_progress'')
          else if ne_plan_status n \<noteq> None then Inl (ValueError ''only plan context can have a plan status'')
          else andThen (validate_content (ne_content n)) (\<lambda>content.
            if ty = Operation \<and> length content > MAX_CONTEXT_OPERATION_MESSAGE_CHARS
            then Inl (ValueError (''context operation message exceeds '' @ show_nat MAX_CONTEXT_OPERATION_MESSAGE_CHARS @ '' characters''))
            else andThen (validate_taskname (ne_taskname n)) (\<lambda>taskname.
                 andThen (optional validate_actor_id (ne_actor n)) (\<lambda>actor.
                   Inr \<lparr>en_id = 0, en_created = now, en_updated = now, en_type = ty, en_content = content,
                     en_operation = ne_operation n, en_status = Option.bind (ne_status n) op_status_of, en_summary = None,
                     en_actor = actor, en_request = (if ne_request n = PNone then None else Some (ne_request n)),
                     en_result = None, en_taskname = taskname,
                     en_plan_status = (if ty = Plan then Some In_Progress else None),
                     en_plan = None, en_conv = None, en_revision = 1\<rparr>))))"

definition checked_plan_link :: "entry_type \<Rightarrow> pyval \<Rightarrow> bool \<Rightarrow> 'z ctx_db_scheme \<Rightarrow> int option result" where
  "checked_plan_link ty plan_id require_plan_in_progress db =
     (if plan_id = PNone then Inr None
      else if ty = Plan then andThen (validate_plan_parent plan_id None True db) (\<lambda>i. Inr (Some i))
      else andThen (validate_plan_id_value plan_id) (\<lambda>i.
        if ty = Note \<or> require_plan_in_progress
        then andThen (require_in_progress_plan_row (PInt i) db) (\<lambda>_. Inr (Some i))
        else andThen (require_plan (PInt i) db) (\<lambda>_. Inr (Some i))))"

definition add_tx :: "new_entry \<Rightarrow> instant \<Rightarrow> ('z ctx_db_scheme, int) tx" where
  "add_tx n now db =
     andThen (checked_new_entry n now) (\<lambda>row.
     andThen (checked_plan_link (en_type row) (ne_plan n) (ne_require_in_progress n) db) (\<lambda>plan.
       case insert_entry (row\<lparr>en_plan := plan\<rparr>) db of
         (i, db1) \<Rightarrow> Inr (i, trim_if_needed [] (insert_paths i (ne_request n) db1))))"

definition add_entry :: "new_entry \<Rightarrow> instant \<Rightarrow> ('z ctx_db_scheme, int) op" where
  "add_entry n now = commit (add_tx n now)"

section \<open>Updating a plan\<close>

text \<open>
  The descendants of a plan, as the recursive query of \<open>update_plan\<close> collects them: the plans whose
  parent is in the frontier, without those already seen.
\<close>

definition children :: "entry list \<Rightarrow> int \<Rightarrow> int list" where
  "children rows i = map en_id (filter (\<lambda>r. en_type r = Plan \<and> en_plan r = Some i) rows)"

function descendants_from :: "entry list \<Rightarrow> int list \<Rightarrow> int list \<Rightarrow> int list" where
  "descendants_from rows seen queue =
     (case queue of
        [] \<Rightarrow> seen
      | i # rest \<Rightarrow>
          let new = filter (\<lambda>j. j \<notin> set seen) (remdups (children rows i))
          in descendants_from rows (seen @ new) (rest @ new))"
  by pat_completeness auto
termination
proof (relation "measures [\<lambda>(rows, seen, queue). card (en_id ` set rows - set seen), \<lambda>(rows, seen, queue). length queue]")
  fix rows :: "entry list" and seen queue rest new and i
  assume queue: "queue = i # rest" and new: "new = filter (\<lambda>j. j \<notin> set seen) (remdups (children rows i))"
  show "((rows, seen @ new, rest @ new), (rows, seen, queue))
      \<in> measures [\<lambda>(rows, seen, queue). card (en_id ` set rows - set seen), \<lambda>(rows, seen, queue). length queue]"
  proof (cases new)
    case Nil
    with queue show ?thesis by simp
  next
    case (Cons j js)
    have "j \<in> set new" using Cons by simp
    then have "j \<in> en_id ` set rows" "j \<notin> set seen" using new by (auto simp: children_def)
    then have "en_id ` set rows - set (seen @ new) \<subset> en_id ` set rows - set seen"
      using \<open>j \<in> set new\<close> by auto
    then show ?thesis by (simp add: psubset_card_mono)
  qed
qed simp

declare descendants_from.simps [simp del]

definition descendants :: "entry list \<Rightarrow> int \<Rightarrow> int list" where
  "descendants rows i = (let first = remdups (children rows i) in descendants_from rows first first)"

definition incomplete_descendant :: "entry list \<Rightarrow> int \<Rightarrow> entry option" where
  "incomplete_descendant rows i =
     (case sort_key en_id (filter (\<lambda>r. en_id r \<in> set (descendants rows i) \<and> status_or_default r = In_Progress) rows) of
        [] \<Rightarrow> None | r # _ \<Rightarrow> Some r)"


record plan_update =
  pu_expected :: pyval
  pu_taskname :: pyval
  pu_content :: pyval
  pu_status :: "string option"
  pu_debrief :: pyval
  pu_actor :: pyval
  pu_conv :: pyval
  pu_nonce :: pyval
  pu_entries :: pyval
  pu_require :: bool

record checked_debrief =
  cd_items :: "(string \<times> string list) list"
  cd_outcome :: string
  cd_refs :: "pyval list"
  cd_feedback :: "pyval list"
  cd_conflicts :: "pyval list"
  cd_actor :: "string option"

record checked_update =
  cu_expected :: int
  cu_taskname :: string
  cu_content :: "string option"
  cu_status :: "plan_status option"
  cu_debrief :: "checked_debrief option"
  cu_closing_only :: bool
  cu_append :: bool

definition array_field :: "(string \<times> pyval) list \<Rightarrow> string \<Rightarrow> pyval list result" where
  "array_field d name =
     (case dict_get_default d name (PList []) of
        PList vs \<Rightarrow> Inr vs
      | _ \<Rightarrow> Inl (ValueError (''plan debrief '' @ name @ '' must be an array'')))"

text \<open>The outcome is looked up in a set, so a list or an object raises \<open>TypeError\<close>.\<close>

definition debrief_outcome :: "pyval \<Rightarrow> string result" where
  "debrief_outcome v =
     (case v of
        PStr s \<Rightarrow> if s \<in> set [''succeeded'', ''partial'', ''no_change''] then Inr s
                  else Inl (ValueError ''plan debrief outcome must be succeeded, partial, or no_change'')
      | PList _ \<Rightarrow> Inl TypeError
      | PDict _ \<Rightarrow> Inl TypeError
      | _ \<Rightarrow> Inl (ValueError ''plan debrief outcome must be succeeded, partial, or no_change''))"

definition checked_debrief :: "plan_update \<Rightarrow> checked_debrief option result" where
  "checked_debrief u =
     (case pu_debrief u of
        PNone \<Rightarrow> Inr None
      | v \<Rightarrow>
          if pu_status u \<noteq> Some ''completed'' then Inl (ValueError ''plan debrief is only valid when status is completed'')
          else (case v of
             PDict d \<Rightarrow>
               andThen (validate_debrief_items (dict_get d ''items'')) (\<lambda>items.
               andThen (debrief_outcome (dict_get d ''outcome'')) (\<lambda>outcome.
               andThen (array_field d ''memory_refs'') (\<lambda>refs.
               andThen (array_field d ''memory_feedback'') (\<lambda>feedback.
               andThen (array_field d ''memory_conflicts'') (\<lambda>conflicts.
               andThen (optional validate_actor_id (pu_actor u)) (\<lambda>actor.
                 Inr (Some \<lparr>cd_items = items, cd_outcome = outcome, cd_refs = refs, cd_feedback = feedback,
                   cd_conflicts = conflicts, cd_actor = actor\<rparr>)))))))
           | _ \<Rightarrow> Inl (ValueError ''plan debrief must be an object'')))"

definition checked_update :: "plan_update \<Rightarrow> checked_update result" where
  "checked_update u =
     andThen (validate_revision (pu_expected u)) (\<lambda>expected.
     andThen (validate_taskname (pu_taskname u)) (\<lambda>taskname.
       if pu_content u = PNone \<and> pu_status u = None \<and> pu_debrief u = PNone
       then Inl (ValueError ''plan update requires content or status'')
       else andThen (optional validate_content (pu_content u)) (\<lambda>content.
         if pu_status u \<noteq> None \<and> Option.bind (pu_status u) plan_status_of = None
         then Inl (ValueError ''plan status must be in_progress, completed, or cancelled'')
         else let closing_only = (pu_status u = Some ''cancelled'' \<and> pu_content u = PNone \<and> pu_debrief u = PNone);
                  supplied = (pu_conv u \<noteq> PNone \<or> pu_nonce u \<noteq> PNone \<or> pu_entries u \<noteq> PNone);
                  append = (\<not> closing_only \<and> (pu_require u \<or> supplied))
              in if append \<and> pu_conv u = PNone then Inl (ValueError ''plan create/update requires conversation_id'')
                 else if append \<and> pu_nonce u = PNone then Inl (ValueError ''plan create/update requires writer_nonce'')
                 else if append \<and> pu_entries u = PNone then Inl (ValueError ''plan create/update requires conversation_entries'')
                 else andThen (checked_debrief u) (\<lambda>debrief.
                   Inr \<lparr>cu_expected = expected, cu_taskname = taskname, cu_content = content,
                     cu_status = Option.bind (pu_status u) plan_status_of, cu_debrief = debrief,
                     cu_closing_only = closing_only, cu_append = append\<rparr>))))"

text \<open>The conversation of the update: checked against the plan's own, then appended to.\<close>

definition update_conversation ::
  "plan_update \<Rightarrow> checked_update \<Rightarrow> entry \<Rightarrow> instant \<Rightarrow> ('z ctx_db_scheme, int option \<times> conv_entry list) tx" where
  "update_conversation u c row t db =
     (if cu_append c
      then andThen (validate_conversation_id (pu_conv u)) (\<lambda>requested.
        if en_conv row \<noteq> None \<and> en_conv row \<noteq> Some requested
        then Inl (ValueError ''plan belongs to a different conversation'')
        else andThen (append_conversation_tx (PInt requested) (pu_nonce u) (pu_entries u) (cu_status c = Some Plan_Completed) t db)
               (\<lambda>(rows, db1). Inr ((Some requested, rows), db1)))
      else Inr ((en_conv row, []), db))"

definition updated_row :: "checked_update \<Rightarrow> int option \<Rightarrow> instant \<Rightarrow> entry \<Rightarrow> entry" where
  "updated_row c conv t row =
     row\<lparr>en_updated := t, en_taskname := (if cu_closing_only c then en_taskname row else cu_taskname c),
         en_content := coalesce (cu_content c) (en_content row),
         en_plan_status := Some (coalesce (cu_status c) (status_or_default row)),
         en_conv := conv, en_revision := cu_expected c + 1\<rparr>"

definition debrief_row :: "int \<Rightarrow> instant \<Rightarrow> checked_debrief \<Rightarrow> debrief" where
  "debrief_row i t d =
     \<lparr>db_plan = i, db_created = t, db_actor = cd_actor d,
      db_summary = (case cd_items d of [] \<Rightarrow> [] | (content, tags) # _ \<Rightarrow> content),
      db_items = cd_items d, db_outcome = cd_outcome d, db_refs = cd_refs d, db_feedback = cd_feedback d,
      db_conflicts = cd_conflicts d\<rparr>"

definition revision_error :: "entry \<Rightarrow> int \<Rightarrow> pyerr" where
  "revision_error row expected = RuntimeError (''plan revision is '' @ show_int (en_revision row) @ '', not '' @ show_int expected)"

definition closed_for_good :: "entry \<Rightarrow> 'z ctx_db_scheme \<Rightarrow> bool" where
  "closed_for_good row db \<longleftrightarrow> en_plan_status row = Some Plan_Completed \<or> select db_plan (en_id row) (plan_debriefs db) \<noteq> None"

record updated_plan =
  up_entry :: payload
  up_conv_entries :: "conv_entry list"
  up_conv_status :: "summary_status option"

text \<open>The two writes of an accepted update and its answer.\<close>

definition write_update ::
  "checked_update \<Rightarrow> int \<Rightarrow> int option \<Rightarrow> conv_entry list \<Rightarrow> instant \<Rightarrow> instant \<Rightarrow> ('z ctx_db_scheme, updated_plan) tx" where
  "write_update c i conv appended t1 t2 db =
     (let P = (\<lambda>r. en_id r = i \<and> en_type r = Plan \<and> en_revision r = cu_expected c);
          db1 = db\<lparr>context_entries := update_where P (updated_row c conv t1) (context_entries db)\<rparr>;
          db2 = (case cu_debrief c of
                   None \<Rightarrow> db1 | Some d \<Rightarrow> db1\<lparr>plan_debriefs := plan_debriefs db1 @ [debrief_row i t2 d]\<rparr>)
      in if length (filter P (context_entries db)) \<noteq> 1 then Inl (RuntimeError ''plan revision changed during update'')
         else case select en_id i (context_entries db2) of
           None \<Rightarrow> Inl AssertionError
         | Some updated \<Rightarrow>
             Inr (\<lparr>up_entry = serialize updated, up_conv_entries = appended,
                   up_conv_status = (if appended = [] then None else Some (conversation_summary_status (the conv) db2))\<rparr>, db2))"

definition update_plan_apply ::
  "int \<Rightarrow> plan_update \<Rightarrow> checked_update \<Rightarrow> instant \<Rightarrow> instant \<Rightarrow> instant \<Rightarrow> ('z ctx_db_scheme, updated_plan) tx" where
  "update_plan_apply i u c t0 t1 t2 db =
     (case select en_id i (context_entries db) of
        None \<Rightarrow> Inl (KeyError ''context entry does not exist'')
      | Some row \<Rightarrow>
          if en_type row \<noteq> Plan then Inl (ValueError ''context entry is not a plan'')
          else if en_revision row \<noteq> cu_expected c then Inl (revision_error row (cu_expected c))
          else if closed_for_good row db
          then Inl (ValueError ''completed plan cannot be modified; create a new plan'')
          else case (if cu_status c = Some Plan_Completed then incomplete_descendant (context_entries db) i else None) of
            Some r \<Rightarrow> Inl (ValueError (''plan completion requires every descendant plan to be completed or cancelled; plan '' @
                 show_int (en_id r) @ '' is '' @ plan_status_name (status_or_default r)))
          | None \<Rightarrow>
              if cu_debrief c \<noteq> None \<and> select db_plan i (plan_debriefs db) \<noteq> None
              then Inl (ValueError ''plan already has a completion debrief'')
              else andThen (update_conversation u c row t0 db) (\<lambda>((conv, appended), db1).
                write_update c i conv appended t1 t2 db1))"

text \<open>
  \<open>update_plan\<close> on the connection of an open transaction (with the dry run, which rolls back to a
  savepoint) and in a transaction of its own.
\<close>

definition update_plan_tx ::
  "int \<Rightarrow> plan_update \<Rightarrow> bool \<Rightarrow> instant \<Rightarrow> instant \<Rightarrow> instant \<Rightarrow> ('z ctx_db_scheme, updated_plan) tx" where
  "update_plan_tx i u dry_run t0 t1 t2 db =
     andThen (checked_update u) (\<lambda>c.
       if dry_run then andThen (update_plan_apply i u c t0 t1 t2 db) (\<lambda>(payload, _). Inr (payload, db))
       else update_plan_apply i u c t0 t1 t2 db)"

definition update_plan ::
  "int \<Rightarrow> plan_update \<Rightarrow> instant \<Rightarrow> instant \<Rightarrow> instant \<Rightarrow> ('z ctx_db_scheme, updated_plan) op" where
  "update_plan i u t0 t1 t2 = commit (update_plan_tx i u False t0 t1 t2)"

text \<open>The completion transaction: the body runs with the write lock held and sees the plan.\<close>

definition plan_completion_transaction ::
  "int \<Rightarrow> pyval \<Rightarrow> (payload \<Rightarrow> ('z ctx_db_scheme, 'a) tx) \<Rightarrow> ('z ctx_db_scheme, 'a) op" where
  "plan_completion_transaction i expected body =
     commit (\<lambda>db. andThen (validate_revision expected) (\<lambda>rev_no.
       case select en_id i (context_entries db) of
         None \<Rightarrow> Inl (KeyError ''context entry does not exist'')
       | Some row \<Rightarrow>
           if en_type row \<noteq> Plan then Inl (ValueError ''context entry is not a plan'')
           else if en_revision row \<noteq> rev_no then Inl (revision_error row rev_no)
           else body (serialize row) db))"

definition plan_debrief :: "pyval \<Rightarrow> ('z ctx_db_scheme, debrief_view option) op" where
  "plan_debrief v db =
     (andThen (validate_plan_id_value v) (\<lambda>i. Inr (map_option serialize_debrief (select db_plan i (plan_debriefs db)))), db)"

section \<open>Notes and operations\<close>

text \<open>\<open>plan_id\<close> is \<open>None\<close> when the caller leaves the parameter unset.\<close>

definition note_plan :: "pyval option \<Rightarrow> entry \<Rightarrow> int option result" where
  "note_plan plan_id row =
     (case plan_id of
        None \<Rightarrow> Inr (en_plan row)
      | Some v \<Rightarrow> if v = PNone then Inl (ValueError ''notes must reference a plan_id'')
                  else andThen (validate_plan_id_value v) (\<lambda>p. Inr (Some p)))"

definition note_row :: "string \<Rightarrow> string \<Rightarrow> string option \<Rightarrow> int option \<Rightarrow> instant \<Rightarrow> entry" where
  "note_row taskname content actor plan now =
     \<lparr>en_id = 0, en_created = now, en_updated = now, en_type = Note, en_content = content, en_operation = None,
      en_status = None, en_summary = None, en_actor = actor, en_request = None, en_result = None, en_taskname = taskname,
      en_plan_status = None, en_plan = plan, en_conv = None, en_revision = 1\<rparr>"

definition swap_note :: "int \<Rightarrow> entry \<Rightarrow> 'z ctx_db_scheme \<Rightarrow> payload option \<times> 'z ctx_db_scheme" where
  "swap_note i row db =
     (case insert_entry row db of
        (new_id, db1) \<Rightarrow>
          let db2 = trim_if_needed [] (delete_entries (\<lambda>r. en_id r = i) db1)
          in (map_option serialize (select en_id new_id (context_entries db2)), db2))"

definition replace_note_tx ::
  "int \<Rightarrow> pyval \<Rightarrow> pyval \<Rightarrow> pyval \<Rightarrow> pyval option \<Rightarrow> instant \<Rightarrow> ('z ctx_db_scheme, payload option) tx" where
  "replace_note_tx i taskname content actor plan_id now db =
     andThen (validate_taskname taskname) (\<lambda>taskname.
     andThen (validate_content content) (\<lambda>content.
     andThen (optional validate_actor_id actor) (\<lambda>actor.
       case select en_id i (context_entries db) of
         None \<Rightarrow> Inl (KeyError ''context entry does not exist'')
       | Some row \<Rightarrow>
           if en_type row \<noteq> Note then Inl (ValueError ''context entry is not a note'')
           else andThen (note_plan plan_id row) (\<lambda>plan.
             andThen (require_in_progress_plan_row (case plan of None \<Rightarrow> PNone | Some p \<Rightarrow> PInt p) db) (\<lambda>_.
               Inr (swap_note i (note_row taskname content actor plan now) db))))))"

text \<open>The assertion that the replacement survived the trim comes after the commit.\<close>

definition replace_note ::
  "int \<Rightarrow> pyval \<Rightarrow> pyval \<Rightarrow> pyval \<Rightarrow> pyval option \<Rightarrow> instant \<Rightarrow> ('z ctx_db_scheme, payload) op" where
  "replace_note i taskname content actor plan_id now db =
     (case commit (replace_note_tx i taskname content actor plan_id now) db of
        (Inl e, db') \<Rightarrow> (Inl e, db')
      | (Inr None, db') \<Rightarrow> (Inl AssertionError, db')
      | (Inr (Some p), db') \<Rightarrow> (Inr p, db'))"


definition finish_operation_tx :: "int \<Rightarrow> bool \<Rightarrow> pyval \<Rightarrow> pyval \<Rightarrow> instant \<Rightarrow> ('z ctx_db_scheme, unit) tx" where
  "finish_operation_tx i succeeded result_summary result now db =
     andThen (validate_content result_summary) (\<lambda>summary.
       let P = (\<lambda>r. en_id r = i \<and> en_type r = Operation)
       in if length (filter P (context_entries db)) \<noteq> 1 then Inl (KeyError ''context operation does not exist'')
          else Inr ((), insert_paths i result (db\<lparr>context_entries := update_where P
             (\<lambda>r. r\<lparr>en_updated := now, en_status := Some (if succeeded then Op_Succeeded else Op_Failed), en_summary := Some summary,
                    en_result := (if result = PNone then None else Some result)\<rparr>) (context_entries db)\<rparr>)))"

definition finish_operation :: "int \<Rightarrow> bool \<Rightarrow> pyval \<Rightarrow> pyval \<Rightarrow> instant \<Rightarrow> ('z ctx_db_scheme, unit) op" where
  "finish_operation i succeeded result_summary result now = commit (finish_operation_tx i succeeded result_summary result now)"

section \<open>Conversations of the store\<close>

definition create_conversation ::
  "(string \<Rightarrow> string) \<Rightarrow> pyval \<Rightarrow> pyval \<Rightarrow> pyval option \<Rightarrow> pyval \<Rightarrow> string \<Rightarrow> instant \<Rightarrow> instant \<Rightarrow>
   ('z ctx_db_scheme, conv_receipt) op" where
  "create_conversation sha256 conversation_id entries request_id actor_id nonce t1 t2 =
     commit (\<lambda>db. andThen (optional validate_actor_id actor_id) (\<lambda>actor.
       create_conversation_tx sha256 conversation_id entries request_id actor nonce t1 t2 db))"

definition append_conversation ::
  "pyval \<Rightarrow> pyval \<Rightarrow> pyval \<Rightarrow> bool \<Rightarrow> instant \<Rightarrow> ('z ctx_db_scheme, int \<times> conv_entry list \<times> summary_status) op" where
  "append_conversation conversation_id writer_nonce entries require_ai now =
     commit (\<lambda>db. andThen (append_conversation_tx conversation_id writer_nonce entries require_ai now db) (\<lambda>(created, db1).
       andThen (validate_conversation_id conversation_id) (\<lambda>cid.
         Inr ((cid, created, conversation_summary_status cid db1), db1))))"

definition conversation_query ::
  "pyval \<Rightarrow> pyval \<Rightarrow> pyval \<Rightarrow> pyval \<Rightarrow> ('z ctx_db_scheme, conv_group list \<times> nat \<times> int) op" where
  "conversation_query conversation_id start_sub_id end_sub_id page db =
     (query_conversations conversation_id start_sub_id end_sub_id page db, db)"

section \<open>Queries\<close>

record context_query =
  cqu_id :: "int option"
  cqu_exclude :: "int option"
  cqu_query :: "string option"
  cqu_type :: "string option"
  cqu_status :: "string option"
  cqu_taskname :: pyval
  cqu_actor :: pyval
  cqu_path :: pyval
  cqu_plan :: pyval
  cqu_roots :: bool
  cqu_before :: "int option"
  cqu_limit :: int

definition positive_opt :: "string \<Rightarrow> int option \<Rightarrow> unit result" where
  "positive_opt message v = (case v of Some i \<Rightarrow> if i < 1 then Inl (ValueError message) else Inr () | None \<Rightarrow> Inr ())"

definition check_status_filter :: "string option \<Rightarrow> string option \<Rightarrow> unit result" where
  "check_status_filter ty status =
     (case status of
        None \<Rightarrow> Inr ()
      | Some s \<Rightarrow>
          if op_status_of s = None \<and> plan_status_of s = None then Inl (ValueError ''invalid context status filter'')
          else if ty = Some ''plan'' \<and> plan_status_of s = None then Inl (ValueError ''invalid plan status filter'')
          else if ty = Some ''operation'' \<and> op_status_of s = None then Inl (ValueError ''invalid operation status filter'')
          else if ty = Some ''note'' then Inl (ValueError ''note context has no status'')
          else Inr ())"

record checked_query =
  ck_taskname :: "string option"
  ck_actor :: "string option"
  ck_path :: "string option"
  ck_plan :: "int option"
  ck_query :: string

definition checked_query :: "context_query \<Rightarrow> checked_query result" where
  "checked_query q =
     (if cqu_limit q < 1 \<or> cqu_limit q > MAX_CONTEXT_QUERY_LIMIT
      then Inl (ValueError ''context limit must be between 1 and 200'')
      else andThen (positive_opt ''context id must be positive'' (cqu_id q)) (\<lambda>_.
        andThen (positive_opt ''excluded context id must be positive'' (cqu_exclude q)) (\<lambda>_.
        andThen (positive_opt ''before_id must be positive'' (cqu_before q)) (\<lambda>_.
        andThen (optional validate_plan_id_value (cqu_plan q)) (\<lambda>plan.
          if cqu_roots q \<and> plan \<noteq> None then Inl (ValueError ''root_plans and plan_id filters cannot be combined'')
          else if cqu_type q \<noteq> None \<and> Option.bind (cqu_type q) entry_type_of = None
          then Inl (ValueError ''context type must be operation, plan, or note'')
          else andThen (check_status_filter (cqu_type q) (cqu_status q)) (\<lambda>_.
            andThen (optional validate_taskname (cqu_taskname q)) (\<lambda>taskname.
            andThen (optional validate_actor_id (cqu_actor q)) (\<lambda>actor.
            andThen (optional normalize_path (cqu_path q)) (\<lambda>path.
              let query = strip (coalesce (cqu_query q) [])
              in if length query > 1000 then Inl (ValueError ''context query exceeds 1000 characters'')
                 else Inr \<lparr>ck_taskname = taskname, ck_actor = actor, ck_path = path, ck_plan = plan, ck_query = query\<rparr>)))))))))"

definition row_status :: "string option \<Rightarrow> entry \<Rightarrow> string option" where
  "row_status ty r =
     (if ty = Some ''plan'' then map_option plan_status_name (en_plan_status r)
      else if ty = Some ''operation'' then map_option op_status_name (en_status r)
      else case en_plan_status r of
        Some s \<Rightarrow> Some (plan_status_name s) | None \<Rightarrow> map_option op_status_name (en_status r))"

definition matches :: "context_query \<Rightarrow> checked_query \<Rightarrow> 'z ctx_db_scheme \<Rightarrow> entry \<Rightarrow> bool" where
  "matches q k db r \<longleftrightarrow>
     (case cqu_id q of None \<Rightarrow> True | Some i \<Rightarrow> en_id r = i) \<and>
     (case cqu_exclude q of None \<Rightarrow> True | Some i \<Rightarrow> en_id r \<noteq> i) \<and>
     (case cqu_type q of None \<Rightarrow> True | Some ty \<Rightarrow> entry_type_of ty = Some (en_type r)) \<and>
     (case cqu_status q of None \<Rightarrow> True | Some s \<Rightarrow> row_status (cqu_type q) r = Some s) \<and>
     (case ck_taskname k of None \<Rightarrow> True | Some s \<Rightarrow> en_taskname r = s) \<and>
     (case ck_actor k of None \<Rightarrow> True | Some s \<Rightarrow> en_actor r = Some s) \<and>
     (case ck_path k of None \<Rightarrow> True | Some p \<Rightarrow> (en_id r, p) \<in> set (context_entry_paths db)) \<and>
     (case ck_plan k of None \<Rightarrow> True | Some i \<Rightarrow> en_plan r = Some i) \<and>
     (cqu_roots q \<longrightarrow> en_type r = Plan \<and> en_plan r = None) \<and>
     (case cqu_before q of None \<Rightarrow> True | Some i \<Rightarrow> en_id r < i) \<and>
     (ck_query k \<noteq> [] \<longrightarrow>
        like (like_pattern (ck_query k)) (en_content r) \<or> like (like_pattern (ck_query k)) (coalesce (en_summary r) []) \<or>
        like (like_pattern (ck_query k)) (coalesce (en_operation r) []) \<or> like (like_pattern (ck_query k)) (en_taskname r))"

definition query_entries :: "context_query \<Rightarrow> ('z ctx_db_scheme, payload list \<times> nat) op" where
  "query_entries q db =
     (andThen (checked_query q) (\<lambda>k.
        let rows = filter (matches q k db) (context_entries db)
        in Inr (attach_debriefs db (map serialize (take (nat (cqu_limit q)) (rev (sort_key en_id rows)))), length rows)), db)"

record plan_hint =
  ph_id :: int
  ph_taskname :: string
  ph_preview :: string
  ph_truncated :: bool
  ph_status :: "string option"
  ph_revision :: "int option"
  ph_created :: instant
  ph_updated :: instant

definition unfinished_root_plan_hints :: "int option \<Rightarrow> ('z ctx_db_scheme, plan_hint list \<times> nat \<times> bool) op" where
  "unfinished_root_plan_hints exclude_plan_id db =
     (andThen (fst (query_entries \<lparr>cqu_id = None, cqu_exclude = exclude_plan_id, cqu_query = None, cqu_type = Some ''plan'',
          cqu_status = Some ''in_progress'', cqu_taskname = PNone, cqu_actor = PNone, cqu_path = PNone, cqu_plan = PNone,
          cqu_roots = True, cqu_before = None, cqu_limit = MAX_UNFINISHED_ROOT_PLAN_HINTS\<rparr> db)) (\<lambda>(entries, total).
        let plans = map (\<lambda>e. \<lparr>ph_id = pl_id e, ph_taskname = pl_taskname e,
              ph_preview = take MAX_PLAN_HINT_CONTENT_CHARS (pl_content e),
              ph_truncated = (length (pl_content e) > MAX_PLAN_HINT_CONTENT_CHARS), ph_status = pl_status e,
              ph_revision = pl_revision e, ph_created = pl_created e, ph_updated = pl_updated e\<rparr>) entries
        in Inr (plans, total, length plans < total)), db)"

text \<open>
  The recursive query of \<open>plan_tree\<close>, one generation after another; \<open>visited\<close> holds the ids on the
  way from the root that the text column \<open>visited\<close> spells out.
\<close>

definition next_generation :: "entry list \<Rightarrow> (entry \<times> int list) list \<Rightarrow> (entry \<times> int list) list" where
  "next_generation rows level =
     concat (map (\<lambda>(parent, visited).
       map (\<lambda>child. (child, en_id child # visited))
         (filter (\<lambda>r. en_type r = Plan \<and> en_plan r = Some (en_id parent) \<and> en_id r \<notin> set visited) rows)) level)"

fun tree_rows :: "entry list \<Rightarrow> nat \<Rightarrow> nat \<Rightarrow> (entry \<times> int list) list \<Rightarrow> (entry \<times> nat) list" where
  "tree_rows rows depth 0 level = map (\<lambda>(r, _). (r, depth)) level"
| "tree_rows rows depth (Suc k) level =
     map (\<lambda>(r, _). (r, depth)) level @ tree_rows rows (Suc depth) k (next_generation rows level)"

record plan_tree_view =
  pt_root :: int
  pt_max_depth :: int
  pt_limit :: int
  pt_plans :: "payload list"
  pt_entries :: "payload list"
  pt_plans_truncated :: bool
  pt_entries_truncated :: bool

definition plan_tree :: "pyval \<Rightarrow> int \<Rightarrow> int \<Rightarrow> ('z ctx_db_scheme, plan_tree_view) op" where
  "plan_tree v max_depth limit db =
     (andThen (validate_plan_id_value v) (\<lambda>i.
        if max_depth < 0 \<or> max_depth > MAX_PLAN_TREE_DEPTH
        then Inl (ValueError ''plan tree max_depth must be between 0 and 32'')
        else if limit < 1 \<or> limit > MAX_CONTEXT_QUERY_LIMIT
        then Inl (ValueError ''plan tree limit must be between 1 and 200'')
        else andThen (require_plan (PInt i) db) (\<lambda>root_row.
          let rows = context_entries db;
              found = take (nat limit + 1) (sort_key (\<lambda>(r, d). (d, en_id r)) (tree_rows rows 0 (nat max_depth) [(root_row, [i])]));
              selected = take (nat limit) found;
              ids = map (\<lambda>(r, d). en_id r) selected;
              linked = take (nat limit + 1) (rev (sort_key en_id
                (filter (\<lambda>r. en_type r \<noteq> Plan \<and> (case en_plan r of None \<Rightarrow> False | Some p \<Rightarrow> p \<in> set ids)) rows)))
          in Inr \<lparr>pt_root = i, pt_max_depth = max_depth, pt_limit = limit,
               pt_plans = attach_debriefs db (map (\<lambda>(r, d). (serialize r)\<lparr>pl_depth := Some d\<rparr>) selected),
               pt_entries = map serialize (take (nat limit) linked),
               pt_plans_truncated = (length found > nat limit), pt_entries_truncated = (length linked > nat limit)\<rparr>)), db)"

end
