(* ===== verification/Memory_Store.thy ===== *)
theory Memory_Store
  imports Transactions Text_Tools Civil_Time "HOL-Library.Product_Lexorder"
begin

text \<open>
  The project memory of a workspace: \<open>MemoryStore\<close> of \<open>openkapsel/context/memory_store.py\<close>.  A
  memory is a revisioned row; every change writes a row of \<open>memory_revisions\<close> with a snapshot, and
  feedback is recorded once per plan and memory.  Functions on an open connection are transactions
  (\<open>tx\<close>); without one they commit on their own.  The clock and the random ids are arguments.  The
  legacy-schema migration is not modelled.
\<close>

section \<open>Paths and text\<close>

definition MAX_MEMORY_CONTENT_CHARS :: nat where "MAX_MEMORY_CONTENT_CHARS = 256"
definition MAX_MEMORY_TAGS :: nat where "MAX_MEMORY_TAGS = 32"
definition MAX_MEMORY_SCOPE_PATHS :: nat where "MAX_MEMORY_SCOPE_PATHS = 64"
definition MAX_MEMORY_TAG_CHARS :: nat where "MAX_MEMORY_TAG_CHARS = 64"
definition MAX_MEMORY_PATH_CHARS :: nat where "MAX_MEMORY_PATH_CHARS = 4096"
definition MAX_MEMORY_CHANGE_MESSAGE_CHARS :: nat where "MAX_MEMORY_CHANGE_MESSAGE_CHARS = 200"
definition MAX_MEMORY_QUERY_LIMIT :: int where "MAX_MEMORY_QUERY_LIMIT = 200"
definition MAX_MEMORY_REVISION_LIMIT :: int where "MAX_MEMORY_REVISION_LIMIT = 200"
definition MAX_MEMORY_RELATED_CANDIDATES :: nat where "MAX_MEMORY_RELATED_CANDIDATES = 2000"
definition MAX_MEMORY_FEEDBACK_REFS :: nat where "MAX_MEMORY_FEEDBACK_REFS = 20"

definition required_text :: "string \<Rightarrow> nat \<Rightarrow> pyval \<Rightarrow> string result" where
  "required_text name maximum = validate_string (''memory '' @ name) maximum"

fun tags_loop :: "string list \<Rightarrow> pyval list \<Rightarrow> string list result" where
  "tags_loop tags [] = Inr tags"
| "tags_loop tags (item # items) =
     andThen (required_text ''tag'' MAX_MEMORY_TAG_CHARS item) (\<lambda>tag.
       tags_loop (if tag \<in> set tags then tags else tags @ [tag]) items)"

definition validate_tags :: "bool \<Rightarrow> pyval \<Rightarrow> string list result" where
  "validate_tags required v =
     (case v of
        PNone \<Rightarrow> if required then Inl (ValueError ''memory tags must contain at least one tag'') else Inr []
      | PList items \<Rightarrow>
          if length items > MAX_MEMORY_TAGS
          then Inl (ValueError (if required then ''memory tags must be an array of 1 to 32 strings''
                                else ''memory tags must be an array of at most 32 strings''))
          else andThen (tags_loop [] items) (\<lambda>tags.
            if required \<and> tags = [] then Inl (ValueError ''memory tags must contain at least one tag'') else Inr tags)
      | _ \<Rightarrow> Inl (ValueError (if required then ''memory tags must be an array of 1 to 32 strings''
                             else ''memory tags must be an array of at most 32 strings'')))"

definition lstrip_slash :: "string \<Rightarrow> string" where
  "lstrip_slash s = dropWhile (\<lambda>c. c = CHR ''/'') s"

definition drive_prefix :: "string \<Rightarrow> bool" where
  "drive_prefix s \<longleftrightarrow> length s \<ge> 3 \<and> s ! 1 = CHR '':'' \<and> s ! 2 = CHR ''/'' \<and>
     (let n = (of_char (s ! 0) :: nat) in 65 \<le> n \<and> n \<le> 90 \<or> 97 \<le> n \<and> n \<le> 122)"

text \<open>The scheme of a path: its kind, the target of a mapping or storage path, and the path proper.\<close>

definition split_scheme :: "string \<Rightarrow> (string \<times> string option \<times> string) result" where
  "split_scheme raw =
     (if startswith raw ''server:'' then Inr (''server'', None, drop 7 raw)
      else if startswith raw ''mapping:''
      then (case partition_on (CHR '':'') (drop 8 raw) of (target, found, rest) \<Rightarrow>
              if \<not> found \<or> target = [] then Inl (ValueError ''mapping memory paths require mapping:<mapping_id>:<path>'')
              else Inr (''mapping'', Some target, rest))
      else if startswith raw ''storage:''
      then (case partition_on (CHR '':'') (drop 8 raw) of (target, found, rest) \<Rightarrow>
              if \<not> found \<or> target = [] then Inl (ValueError ''storage memory paths require storage:<provider_id>:<path>'')
              else Inr (''storage'', Some target, rest))
      else Inr (''server'', None, raw))"

definition climbs :: "string \<Rightarrow> bool" where
  "climbs path \<longleftrightarrow> path = ''..'' \<or> startswith path ''../''"

definition memory_path :: "pyval \<Rightarrow> string result" where
  "memory_path v =
     (case v of
        PStr value \<Rightarrow>
          if strip value = [] then Inl (ValueError ''memory path must be a non-empty string'')
          else andThen (split_scheme (strip value)) (\<lambda>(kind, target, rest).
            let slashed = replace_char (CHR 0x5C) ''/'' rest;
                normal = normpath (if slashed = [] then ''.'' else slashed);
                path = (if kind = ''server'' then (if lstrip_slash normal = [] then ''.'' else lstrip_slash normal) else normal);
                text = kind @ '':'' @ (case target of None \<Rightarrow> [] | Some t \<Rightarrow> t @ '':'') @ path
            in if kind = ''server'' \<and> climbs path
               then Inl (ValueError ''server memory paths must stay inside the workspace root'')
               else if kind \<noteq> ''server'' \<and> \<not> startswith path ''/'' \<and> \<not> drive_prefix path \<and> climbs path
               then Inl (ValueError (kind @ '' memory paths must stay inside their target root''))
               else if length text > MAX_MEMORY_PATH_CHARS then Inl (ValueError ''memory path exceeds 4096 characters'')
               else Inr text)
      | _ \<Rightarrow> Inl (ValueError ''memory path must be a non-empty string''))"

fun scope_loop :: "string list \<Rightarrow> pyval list \<Rightarrow> string list result" where
  "scope_loop paths [] = Inr paths"
| "scope_loop paths (item # items) =
     andThen (memory_path item) (\<lambda>path. scope_loop (if path \<in> set paths then paths else paths @ [path]) items)"

definition validate_scope_paths :: "pyval \<Rightarrow> string list result" where
  "validate_scope_paths v =
     (case v of
        PNone \<Rightarrow> Inr []
      | PList items \<Rightarrow>
          if length items > MAX_MEMORY_SCOPE_PATHS
          then Inl (ValueError ''memory scope paths must be an array of at most 64 strings'')
          else scope_loop [] items
      | _ \<Rightarrow> Inl (ValueError ''memory scope paths must be an array of at most 64 strings''))"

definition memory_plan_id :: "bool \<Rightarrow> pyval \<Rightarrow> int option result" where
  "memory_plan_id required v =
     (case v of
        PNone \<Rightarrow> if required then Inl (ValueError ''memory plan_id must be a positive integer'') else Inr None
      | PInt i \<Rightarrow> if i < 1 then Inl (ValueError ''memory plan_id must be a positive integer'') else Inr (Some i)
      | _ \<Rightarrow> Inl (ValueError ''memory plan_id must be a positive integer''))"

definition memory_revision :: "pyval \<Rightarrow> int result" where
  "memory_revision v =
     (case v of
        PInt i \<Rightarrow> if i < 1 then Inl (ValueError ''memory revision must be a positive integer'') else Inr i
      | _ \<Rightarrow> Inl (ValueError ''memory revision must be a positive integer''))"

text \<open>Whether two normalized paths are in an ancestor relation.\<close>

definition path_parts :: "string \<Rightarrow> string \<times> string option \<times> string" where
  "path_parts s =
     (if startswith s ''mapping:'' \<or> startswith s ''storage:''
      then (case partition_on (CHR '':'') s of (kind, _, rest) \<Rightarrow>
            case partition_on (CHR '':'') rest of (target, _, path) \<Rightarrow> (kind, Some target, path))
      else (''server'', None, drop 7 s))"

fun map_result :: "('a \<Rightarrow> 'b result) \<Rightarrow> 'a list \<Rightarrow> 'b list result" where
  "map_result f [] = Inr []"
| "map_result f (x # xs) = andThen (f x) (\<lambda>y. andThen (map_result f xs) (\<lambda>ys. Inr (y # ys)))"

text \<open>The pattern \<open>.*$\<close> for what follows a drive stops at a newline, except a final one, which it drops.\<close>

definition path_anchor :: "string \<Rightarrow> string \<times> string list" where
  "path_anchor path =
     (let pieces = (\<lambda>s. filter (\<lambda>part. part \<noteq> []) (split_on (CHR ''/'') s));
          rest = drop 3 path;
          body = (if rest \<noteq> [] \<and> last rest = CHR 0x0A then butlast rest else rest)
      in if path = ''.'' then (''.'', [])
         else if drive_prefix path \<and> CHR 0x0A \<notin> set body then (take 2 path, pieces body)
         else if startswith path ''//'' then (''//'', pieces (drop 2 path))
         else if startswith path ''/'' then (''/'', pieces (drop 1 path))
         else ([], pieces path))"

text \<open>The common prefix of several component lists: \<open>zip\<close> stops at the shortest.\<close>

fun common_parts :: "(string \<Rightarrow> string) \<Rightarrow> string list \<Rightarrow> string list list \<Rightarrow> string list" where
  "common_parts fold_case [] rest = []"
| "common_parts fold_case (p # ps) rest =
     (if list_all (\<lambda>qs. qs \<noteq> [] \<and> fold_case (hd qs) = fold_case p) rest
      then p # common_parts fold_case ps (map tl rest) else [])"

definition common_path :: "string list \<Rightarrow> string result" where
  "common_path scopes =
     (if scopes = [] then Inr ''server:.''
      else andThen (map_result (\<lambda>s. andThen (memory_path (PStr s)) (\<lambda>p. Inr (path_parts p))) scopes) (\<lambda>parsed.
        case hd parsed of (kind, target, _) \<Rightarrow>
          if \<not> list_all (\<lambda>(k, t, _). (k, t) = (kind, target)) parsed then Inr ''server:.''
          else let label = kind @ '':'' @ (case target of None \<Rightarrow> [] | Some t \<Rightarrow> t @ '':'');
                   paths = map (\<lambda>(_, _, p). p) parsed;
                   fold_case = (if kind = ''mapping'' then casefold else id);
                   anchored = map path_anchor paths;
                   anchor = fst (hd anchored)
               in if ''.'' \<in> set paths then Inr (label @ ''.'')
                  else if \<not> list_all (\<lambda>(a, _). fold_case a = fold_case anchor) anchored then Inr (label @ ''.'')
                  else let common = common_parts fold_case (snd (hd anchored)) (map snd (tl anchored));
                           path = (if anchor = ''/'' then ''/'' @ join ''/'' common
                                   else if anchor = ''//'' then ''//'' @ join ''/'' common
                                   else if anchor \<noteq> [] then anchor @ ''/'' @ join ''/'' common
                                   else if common = [] then ''.'' else join ''/'' common)
                       in Inr (label @ path)))"

definition rstrip_slashes :: "string \<Rightarrow> string" where
  "rstrip_slashes s = rev (lstrip_slash (rev s))"

definition overlap :: "string \<Rightarrow> string \<Rightarrow> bool" where
  "overlap left right \<longleftrightarrow>
     left = ''server:.'' \<or> right = ''server:.'' \<or>
     (case (path_parts left, path_parts right) of ((kind, target, l), (kind', target', r)) \<Rightarrow>
        (kind, target) = (kind', target') \<and>
        (l = ''.'' \<or> r = ''.'' \<or>
         (let l1 = (if kind = ''mapping'' then casefold l else l); r1 = (if kind = ''mapping'' then casefold r else r)
          in l1 = r1 \<or> startswith l1 (rstrip_slashes r1 @ ''/'') \<or> startswith r1 (rstrip_slashes l1 @ ''/''))))"

definition paths_overlap :: "string \<Rightarrow> string \<Rightarrow> bool result" where
  "paths_overlap left right =
     andThen (memory_path (PStr left)) (\<lambda>l. andThen (memory_path (PStr right)) (\<lambda>r. Inr (overlap l r)))"

section \<open>Tables\<close>

record memory =
  mm_id :: string
  mm_created :: instant
  mm_updated :: instant
  mm_content :: string
  mm_tags :: "string list"
  mm_path :: string
  mm_revision :: int
  mm_source_plan :: "int option"
  mm_last_plan :: "int option"
  mm_helpful :: int
  mm_helpful_at :: "instant option"
  mm_actor :: "string option"
  mm_archived :: "instant option"

text \<open>The snapshot of a revision: the serialized row without the feedback counters.\<close>

record snapshot =
  sn_id :: string
  sn_created :: instant
  sn_updated :: instant
  sn_content :: string
  sn_tags :: "string list"
  sn_path :: string
  sn_revision :: int
  sn_source_plan :: "int option"
  sn_last_plan :: "int option"
  sn_actor :: "string option"
  sn_archived :: "instant option"

record revision =
  rv_memory :: string
  rv_revision :: int
  rv_changed :: instant
  rv_actor :: "string option"
  rv_plan :: "int option"
  rv_message :: string
  rv_snapshot :: snapshot

record feedback =
  fb_plan :: int
  fb_memory :: string
  fb_revision :: int
  fb_actor :: "string option"
  fb_created :: instant

record memory_db =
  memories :: "memory list"
  memory_tags :: "(string \<times> string) list"
  memory_revisions :: "revision list"
  memory_feedback :: "feedback list"

definition empty_memory :: memory_db where
  "empty_memory = \<lparr>memories = [], memory_tags = [], memory_revisions = [], memory_feedback = []\<rparr>"

text \<open>Serializing a row normalizes its path again, which can raise.\<close>

definition serialize_memory :: "memory \<Rightarrow> memory result" where
  "serialize_memory row = andThen (memory_path (PStr (mm_path row))) (\<lambda>p. Inr (row\<lparr>mm_path := p\<rparr>))"

definition snapshot_of :: "memory \<Rightarrow> snapshot" where
  "snapshot_of row =
     \<lparr>sn_id = mm_id row, sn_created = mm_created row, sn_updated = mm_updated row, sn_content = mm_content row,
      sn_tags = mm_tags row, sn_path = mm_path row, sn_revision = mm_revision row, sn_source_plan = mm_source_plan row,
      sn_last_plan = mm_last_plan row, sn_actor = mm_actor row, sn_archived = mm_archived row\<rparr>"

definition add_revision ::
  "memory \<Rightarrow> instant \<Rightarrow> string option \<Rightarrow> int option \<Rightarrow> string \<Rightarrow> (memory_db, memory) tx" where
  "add_revision row now actor plan message db =
     andThen (serialize_memory row) (\<lambda>view.
       Inr (view, db\<lparr>memory_revisions := memory_revisions db @
         [\<lparr>rv_memory = mm_id row, rv_revision = mm_revision row, rv_changed = now, rv_actor = actor, rv_plan = plan,
           rv_message = message, rv_snapshot = snapshot_of view\<rparr>]\<rparr>))"

section \<open>Changes\<close>

definition memory_create_tx ::
  "pyval \<Rightarrow> pyval \<Rightarrow> pyval \<Rightarrow> pyval \<Rightarrow> string option \<Rightarrow> pyval \<Rightarrow> instant \<Rightarrow> string list \<Rightarrow> (memory_db, memory) tx" where
  "memory_create_tx content tags path plan_id actor message now ids db =
     andThen (required_text ''content'' MAX_MEMORY_CONTENT_CHARS content) (\<lambda>content.
     andThen (validate_tags True tags) (\<lambda>tags.
     andThen (memory_path (if path = PNone then PStr ''server:.'' else path)) (\<lambda>path.
     andThen (memory_plan_id False plan_id) (\<lambda>plan.
     andThen (required_text ''change message'' MAX_MEMORY_CHANGE_MESSAGE_CHARS message) (\<lambda>message.
       case find (\<lambda>i. i \<notin> set (map mm_id (memories db))) (take 8 ids) of
         None \<Rightarrow> Inl (RuntimeError ''unable to allocate memory id'')
       | Some i \<Rightarrow>
           let row = \<lparr>mm_id = i, mm_created = now, mm_updated = now, mm_content = content, mm_tags = tags, mm_path = path,
                 mm_revision = 1, mm_source_plan = plan, mm_last_plan = plan, mm_helpful = 0, mm_helpful_at = None,
                 mm_actor = actor, mm_archived = None\<rparr>
           in add_revision row now actor plan message
                (db\<lparr>memories := memories db @ [row], memory_tags := memory_tags db @ map (\<lambda>t. (i, t)) tags\<rparr>))))))"

definition live_memory :: "string \<Rightarrow> memory_db \<Rightarrow> memory result" where
  "live_memory i db =
     (case select mm_id i (memories db) of
        None \<Rightarrow> Inl (KeyError ''memory does not exist'')
      | Some row \<Rightarrow> if mm_archived row \<noteq> None then Inl (KeyError ''memory does not exist'') else Inr row)"

definition memory_get :: "string \<Rightarrow> bool \<Rightarrow> (memory_db, memory) op" where
  "memory_get i include_archived db =
     (case select mm_id i (memories db) of
        None \<Rightarrow> Inl (KeyError ''memory does not exist'')
      | Some row \<Rightarrow>
          if mm_archived row \<noteq> None \<and> \<not> include_archived then Inl (KeyError ''memory does not exist'')
          else serialize_memory row, db)"

definition memory_revision_error :: "int \<Rightarrow> int \<Rightarrow> pyerr" where
  "memory_revision_error current expected =
     RuntimeError (''memory revision is '' @ show_int current @ '', not '' @ show_int expected)"

definition unknown_fields :: "string \<Rightarrow> string list \<Rightarrow> (string \<times> pyval) list \<Rightarrow> unit result" where
  "unknown_fields label allowed d =
     (let unknown = sort (filter (\<lambda>k. k \<notin> set allowed) (remdups (map fst d)))
      in if unknown \<noteq> [] then Inl (ValueError (label @ join '', '' unknown)) else Inr ())"

definition write_memory :: "string \<Rightarrow> int \<Rightarrow> (memory \<Rightarrow> memory) \<Rightarrow> memory_db \<Rightarrow> memory_db" where
  "write_memory i expected f db =
     db\<lparr>memories := update_where (\<lambda>r. mm_id r = i \<and> mm_revision r = expected \<and> mm_archived r = None) f (memories db)\<rparr>"

definition changed_content :: "(string \<times> pyval) list \<Rightarrow> memory \<Rightarrow> string result" where
  "changed_content changes row =
     (if dict_has changes ''content'' then required_text ''content'' MAX_MEMORY_CONTENT_CHARS (dict_get changes ''content'')
      else Inr (mm_content row))"

definition changed_path :: "(string \<times> pyval) list \<Rightarrow> memory \<Rightarrow> string result" where
  "changed_path changes row =
     (if dict_has changes ''path'' then memory_path (dict_get changes ''path'') else memory_path (PStr (mm_path row)))"

definition save_update ::
  "memory \<Rightarrow> int \<Rightarrow> instant \<Rightarrow> string option \<Rightarrow> int option \<Rightarrow> string \<Rightarrow> (memory_db, memory) tx" where
  "save_update updated expected now actor plan message db =
     (let i = mm_id updated; db1 = write_memory i expected (\<lambda>_. updated) db
      in add_revision updated now actor plan message
           (db1\<lparr>memory_tags := delete_where (\<lambda>(m, t). m = i) (memory_tags db1) @ map (\<lambda>t. (i, t)) (mm_tags updated)\<rparr>))"

definition memory_update_tx ::
  "string \<Rightarrow> (string \<times> pyval) list \<Rightarrow> pyval \<Rightarrow> pyval \<Rightarrow> string option \<Rightarrow> pyval \<Rightarrow> instant \<Rightarrow> (memory_db, memory) tx" where
  "memory_update_tx i changes expected_revision plan_id actor message now db =
     andThen (memory_revision expected_revision) (\<lambda>expected.
     andThen (memory_plan_id True plan_id) (\<lambda>plan.
     andThen (required_text ''change message'' MAX_MEMORY_CHANGE_MESSAGE_CHARS message) (\<lambda>message.
     andThen (unknown_fields ''unknown memory fields: '' [''content'', ''tags'', ''path''] changes) (\<lambda>_.
       if changes = [] then Inl (ValueError ''memory update requires content, tags, or path'')
       else andThen (live_memory i db) (\<lambda>row.
         if mm_revision row \<noteq> expected then Inl (memory_revision_error (mm_revision row) expected)
         else andThen (changed_content changes row) (\<lambda>content.
           andThen (validate_tags True (dict_get_default changes ''tags'' (PList (map PStr (mm_tags row))))) (\<lambda>tags.
           andThen (changed_path changes row) (\<lambda>path.
             save_update (row\<lparr>mm_updated := now, mm_content := content, mm_tags := tags, mm_path := path,
                 mm_revision := expected + 1, mm_last_plan := plan, mm_actor := actor\<rparr>)
               expected now actor plan message db))))))))"

definition memory_archive_tx ::
  "string \<Rightarrow> pyval \<Rightarrow> pyval \<Rightarrow> string option \<Rightarrow> pyval \<Rightarrow> instant \<Rightarrow> (memory_db, memory) tx" where
  "memory_archive_tx i expected_revision plan_id actor message now db =
     andThen (memory_revision expected_revision) (\<lambda>expected.
     andThen (memory_plan_id True plan_id) (\<lambda>plan.
     andThen (required_text ''change message'' MAX_MEMORY_CHANGE_MESSAGE_CHARS message) (\<lambda>message.
     andThen (live_memory i db) (\<lambda>row.
       if mm_revision row \<noteq> expected then Inl (memory_revision_error (mm_revision row) expected)
       else let archived = row\<lparr>mm_updated := now, mm_archived := Some now, mm_revision := expected + 1,
                  mm_last_plan := plan, mm_actor := actor\<rparr>
            in add_revision archived now actor plan message (write_memory i expected (\<lambda>_. archived) db)))))"


text \<open>
  The UPDATE of \<open>write_memory\<close> always changes one row, because the row with that id, revision and no
  archive time has just been read on the same connection, so the row-count checks of the code cannot
  fail.  A batch of changes of one plan completion is held in one transaction.
\<close>

definition atomic_transaction :: "(memory_db, 'a) tx \<Rightarrow> (memory_db, 'a) op" where
  "atomic_transaction body = commit body"

section \<open>Preflight of a batch\<close>

type_synonym simulation = "(string \<times> int \<times> bool) list"

definition simulated_state :: "string \<Rightarrow> simulation \<Rightarrow> memory_db \<Rightarrow> (int \<times> bool) result" where
  "simulated_state i sim db =
     (case map_of sim i of
        Some st \<Rightarrow> Inr st
      | None \<Rightarrow> andThen (live_memory i db) (\<lambda>row. Inr (mm_revision row, False)))"

definition action_changes :: "(string \<times> pyval) list \<Rightarrow> (string \<times> pyval) list" where
  "action_changes d = filter (\<lambda>(k, v). k \<notin> set [''action'', ''memory_id'', ''expected_revision'']) d"

definition check_changes :: "(string \<times> pyval) list \<Rightarrow> unit result" where
  "check_changes changes =
     (if changes = [] then Inl (ValueError ''memory update requires content, tags, or path'')
      else andThen (if dict_has changes ''content''
                    then andThen (required_text ''content'' MAX_MEMORY_CONTENT_CHARS (dict_get changes ''content'')) (\<lambda>_. Inr ())
                    else Inr ()) (\<lambda>_.
        andThen (if dict_has changes ''tags''
                 then andThen (validate_tags True (dict_get changes ''tags'')) (\<lambda>_. Inr ()) else Inr ()) (\<lambda>_.
          if dict_has changes ''path'' then andThen (memory_path (dict_get changes ''path'')) (\<lambda>_. Inr ()) else Inr ())))"

definition preflight_action :: "nat \<Rightarrow> pyval \<Rightarrow> simulation \<Rightarrow> memory_db \<Rightarrow> simulation result" where
  "preflight_action index item sim db =
     (case item of
        PDict d \<Rightarrow>
          (case dict_get d ''memory_id'' of
             PStr i \<Rightarrow>
               if i = [] then Inl (ValueError (''memory action '' @ show_nat index @ '' requires memory_id''))
               else andThen (memory_revision (dict_get d ''expected_revision'')) (\<lambda>expected.
                 andThen (simulated_state i sim db) (\<lambda>(current, archived).
                   if archived then Inl (KeyError ''memory does not exist'')
                   else if current \<noteq> expected then Inl (memory_revision_error current expected)
                   else if dict_get d ''action'' = PStr ''update''
                   then andThen (unknown_fields ''unknown memory action fields: ''
                            [''action'', ''memory_id'', ''expected_revision'', ''content'', ''tags'', ''path''] d) (\<lambda>_.
                        andThen (check_changes (action_changes d)) (\<lambda>_. Inr ((i, current + 1, False) # sim)))
                   else if dict_get d ''action'' = PStr ''archive''
                   then andThen (unknown_fields ''unknown memory action fields: ''
                            [''action'', ''memory_id'', ''expected_revision''] d) (\<lambda>_. Inr ((i, current + 1, True) # sim))
                   else Inl (ValueError ''memory action must be update or archive'')))
           | _ \<Rightarrow> Inl (ValueError (''memory action '' @ show_nat index @ '' requires memory_id'')))
      | _ \<Rightarrow> Inl (ValueError (''memory action '' @ show_nat index @ '' must be an object'')))"

fun preflight_loop :: "nat \<Rightarrow> pyval list \<Rightarrow> simulation \<Rightarrow> memory_db \<Rightarrow> simulation result" where
  "preflight_loop index [] sim db = Inr sim"
| "preflight_loop index (item # items) sim db =
     andThen (preflight_action index item sim db) (\<lambda>sim1. preflight_loop (index + 1) items sim1 db)"

definition preflight_actions :: "pyval \<Rightarrow> memory_db \<Rightarrow> unit result" where
  "preflight_actions actions db =
     (case actions of
        PList items \<Rightarrow> andThen (preflight_loop 0 items [] db) (\<lambda>_. Inr ())
      | _ \<Rightarrow> Inl (ValueError ''memory actions must be an array''))"

section \<open>Feedback\<close>

definition feedback_item :: "nat \<Rightarrow> pyval \<Rightarrow> string list \<Rightarrow> memory_db \<Rightarrow> (string \<times> int) result" where
  "feedback_item index item seen db =
     (case item of
        PDict d \<Rightarrow>
          (case dict_get d ''memory_id'' of
             PStr i \<Rightarrow>
               if i = [] then Inl (ValueError (''memory feedback '' @ show_nat index @ '' requires memory_id''))
               else andThen (memory_revision (dict_get d ''revision'')) (\<lambda>rev_no.
                 if i \<in> set seen then Inl (ValueError (''memory feedback duplicates '' @ i))
                 else andThen (live_memory i db) (\<lambda>_.
                   if \<not> list_ex (\<lambda>r. rv_memory r = i \<and> rv_revision r = rev_no) (memory_revisions db)
                   then Inl (ValueError (''memory feedback revision '' @ show_int rev_no @ '' does not exist for '' @ i))
                   else Inr (i, rev_no)))
           | _ \<Rightarrow> Inl (ValueError (''memory feedback '' @ show_nat index @ '' requires memory_id'')))
      | _ \<Rightarrow> Inl (ValueError (''memory feedback '' @ show_nat index @ '' must be an object'')))"

fun feedback_loop :: "nat \<Rightarrow> pyval list \<Rightarrow> string list \<Rightarrow> memory_db \<Rightarrow> (string \<times> int) list result" where
  "feedback_loop index [] seen db = Inr []"
| "feedback_loop index (item # items) seen db =
     andThen (feedback_item index item seen db) (\<lambda>(i, rev_no).
       andThen (feedback_loop (index + 1) items (i # seen) db) (\<lambda>rest. Inr ((i, rev_no) # rest)))"

definition validate_helpful_feedback :: "pyval \<Rightarrow> memory_db \<Rightarrow> (string \<times> int) list result" where
  "validate_helpful_feedback v db =
     (case v of
        PList items \<Rightarrow>
          if length items > MAX_MEMORY_FEEDBACK_REFS then Inl (ValueError ''memory feedback cannot contain more than 20 items'')
          else feedback_loop 0 items [] db
      | _ \<Rightarrow> Inl (ValueError ''memory feedback must be an array''))"

definition record_feedback ::
  "int \<Rightarrow> string option \<Rightarrow> instant \<Rightarrow> string \<times> int \<Rightarrow> (memory_db, string \<times> int \<times> instant) tx" where
  "record_feedback plan actor now item db =
     (case item of (i, r) \<Rightarrow>
       andThen (memory_revision (PInt r)) (\<lambda>rev_no.
         case find (\<lambda>f. fb_plan f = plan \<and> fb_memory f = i) (memory_feedback db) of
           Some existing \<Rightarrow>
             if fb_revision existing \<noteq> rev_no
             then Inl (ValueError (''plan '' @ show_int plan @ '' already recorded a different revision for '' @ i))
             else Inr ((i, rev_no, fb_created existing), db)
         | None \<Rightarrow>
             if i \<notin> set (map mm_id (memories db)) then Inl (KeyError ''memory does not exist'')
             else Inr ((i, rev_no, now),
               db\<lparr>memory_feedback := memory_feedback db @
                    [\<lparr>fb_plan = plan, fb_memory = i, fb_revision = rev_no, fb_actor = actor, fb_created = now\<rparr>],
                  memories := update_where (\<lambda>m. mm_id m = i)
                    (\<lambda>m. m\<lparr>mm_helpful := mm_helpful m + 1, mm_helpful_at := Some now\<rparr>) (memories db)\<rparr>)))"

text \<open>Each item reads the clock; \<open>clock k\<close> is what it shows at item \<open>k\<close>.\<close>

fun record_feedback_loop ::
  "int \<Rightarrow> string option \<Rightarrow> (nat \<Rightarrow> instant) \<Rightarrow> nat \<Rightarrow> (string \<times> int) list \<Rightarrow>
   (memory_db, (string \<times> int \<times> instant) list) tx" where
  "record_feedback_loop plan actor clock k [] db = Inr ([], db)"
| "record_feedback_loop plan actor clock k (item # items) db =
     andThen (record_feedback plan actor (clock k) item db) (\<lambda>(x, db1).
       andThen (record_feedback_loop plan actor clock (k + 1) items db1) (\<lambda>(xs, db2). Inr (x # xs, db2)))"

definition record_helpful_feedback_tx ::
  "pyval \<Rightarrow> (string \<times> int) list \<Rightarrow> string option \<Rightarrow> (nat \<Rightarrow> instant) \<Rightarrow>
   (memory_db, (string \<times> int \<times> instant) list) tx" where
  "record_helpful_feedback_tx plan_id items actor clock db =
     andThen (memory_plan_id True plan_id) (\<lambda>plan.
       if length items > MAX_MEMORY_FEEDBACK_REFS then Inl (ValueError ''memory feedback cannot contain more than 20 items'')
       else record_feedback_loop (the plan) actor clock 0 items db)"

section \<open>Queries\<close>

definition revision_list :: "string \<Rightarrow> int \<Rightarrow> (memory_db, revision list) op" where
  "revision_list i limit db =
     (if limit < 1 \<or> limit > MAX_MEMORY_REVISION_LIMIT then Inl (ValueError ''memory revision limit must be between 1 and 200'')
      else if i \<notin> set (map mm_id (memories db)) then Inl (KeyError ''memory does not exist'')
      else Inr (take (nat limit) (rev (sort_key rv_revision (filter (\<lambda>r. rv_memory r = i) (memory_revisions db))))), db)"

definition last_activity :: "memory \<Rightarrow> instant" where
  "last_activity m = (case mm_helpful_at m of None \<Rightarrow> mm_updated m | Some t \<Rightarrow> if t > mm_updated m then t else mm_updated m)"

definition by_activity :: "memory list \<Rightarrow> memory list" where
  "by_activity rows = sort_key (\<lambda>m. - last_activity m) rows"

fun filter_result :: "('a \<Rightarrow> bool result) \<Rightarrow> 'a list \<Rightarrow> 'a list result" where
  "filter_result p [] = Inr []"
| "filter_result p (x # xs) = andThen (p x) (\<lambda>b. andThen (filter_result p xs) (\<lambda>ys. Inr (if b then x # ys else ys)))"

fun any_result :: "('a \<Rightarrow> bool result) \<Rightarrow> 'a list \<Rightarrow> bool result" where
  "any_result p [] = Inr False"
| "any_result p (x # xs) = andThen (p x) (\<lambda>b. if b then Inr True else any_result p xs)"

definition memory_query ::
  "string \<Rightarrow> pyval \<Rightarrow> pyval \<Rightarrow> bool \<Rightarrow> int \<Rightarrow> (memory_db, memory list \<times> nat) op" where
  "memory_query text_query tag path include_archived limit db =
     (if limit < 1 \<or> limit > MAX_MEMORY_QUERY_LIMIT then Inl (ValueError ''memory limit must be between 1 and 200'')
      else if length (strip text_query) > 1000 then Inl (ValueError ''memory query exceeds 1000 characters'')
      else andThen (optional memory_path path) (\<lambda>path.
        andThen (optional (required_text ''tag'' MAX_MEMORY_TAG_CHARS) tag) (\<lambda>tag.
          let rows = filter (\<lambda>m. (include_archived \<or> mm_archived m = None) \<and>
                (case tag of None \<Rightarrow> True | Some t \<Rightarrow> (mm_id m, t) \<in> set (memory_tags db)) \<and>
                (strip text_query \<noteq> [] \<longrightarrow> like (like_pattern (strip text_query)) (mm_content m))) (memories db)
          in andThen (map_result serialize_memory (by_activity rows)) (\<lambda>items.
             andThen (case path of None \<Rightarrow> Inr items | Some p \<Rightarrow> filter_result (\<lambda>m. paths_overlap p (mm_path m)) items) (\<lambda>found.
               Inr (take (nat limit) found, length found))))), db)"

text \<open>The words of a text that count for relevance: maximal runs of at least two word characters.\<close>

definition keyword_char :: "char \<Rightarrow> bool" where
  "keyword_char c \<longleftrightarrow> (let n = (of_char c :: nat) in 97 \<le> n \<and> n \<le> 122 \<or> 48 \<le> n \<and> n \<le> 57) \<or> c \<in> set ''_.-''"

function keyword_runs :: "string \<Rightarrow> string list" where
  "keyword_runs s =
     (case dropWhile (\<lambda>c. \<not> keyword_char c) s of
        [] \<Rightarrow> []
      | c # cs \<Rightarrow> (c # takeWhile keyword_char cs) # keyword_runs (dropWhile keyword_char cs))"
  by pat_completeness auto
termination
proof (relation "measure length")
  fix s :: string and c cs
  assume "dropWhile (\<lambda>c. \<not> keyword_char c) s = c # cs"
  then have "length (c # cs) \<le> length s" by (metis length_dropWhile_le)
  moreover have "length (dropWhile keyword_char cs) \<le> length cs" by (rule length_dropWhile_le)
  ultimately show "(dropWhile keyword_char cs, s) \<in> measure length" by simp
qed simp

declare keyword_runs.simps [simp del]

text \<open>Below code point 256 lower-casing can only make ASCII word characters out of ASCII capitals.\<close>

definition memory_keywords :: "string \<Rightarrow> string list" where
  "memory_keywords s = remdups (filter (\<lambda>w. length w \<ge> 2) (keyword_runs (map ascii_lower s)))"

text \<open>The first 500 characters of a content, and whether an ellipsis follows them.\<close>

definition excerpt :: "string \<Rightarrow> string \<times> bool" where
  "excerpt content = (take 500 content, length content > 500)"

record related_memory =
  rm_memory :: memory
  rm_excerpt :: "string \<times> bool"
  rm_score :: int
  rm_path :: "string option"
  rm_tags :: "string list"

definition relevance :: "string list \<Rightarrow> string list \<Rightarrow> string list \<Rightarrow> memory \<Rightarrow> related_memory result" where
  "relevance query_words paths requested m =
     andThen (any_result (\<lambda>s. paths_overlap s (mm_path m)) paths) (\<lambda>overlapping.
       let path = (if overlapping then Some (mm_path m) else None);
           tags = sort (remdups (filter (\<lambda>t. t \<in> set requested) (mm_tags m)));
           words = filter (\<lambda>w. w \<in> set query_words) (memory_keywords (join '' '' (mm_content m # mm_tags m)));
           score = int (length words) * 2 + (if path \<noteq> None then 12 else 0) + int (length tags) * 10 + min 3 (mm_helpful m)
       in Inr \<lparr>rm_memory = m, rm_excerpt = excerpt (mm_content m), rm_score = score, rm_path = path, rm_tags = tags\<rparr>)"

definition related :: "string \<Rightarrow> pyval \<Rightarrow> pyval \<Rightarrow> nat \<Rightarrow> (memory_db, related_memory list) op" where
  "related content scope_paths tag_filter limit db =
     (andThen (validate_scope_paths scope_paths) (\<lambda>paths.
      andThen (validate_tags False tag_filter) (\<lambda>requested.
        let rows = take MAX_MEMORY_RELATED_CANDIDATES (by_activity (filter (\<lambda>m. mm_archived m = None) (memories db)))
        in andThen (map_result serialize_memory rows) (\<lambda>items.
           andThen (map_result (relevance (memory_keywords content) paths requested) items) (\<lambda>scored.
             Inr (take limit (sort_key (\<lambda>x. (- rm_score x, - last_activity (rm_memory x))) (filter (\<lambda>x. rm_score x > 0) scored))))))), db)"

definition project :: "(memory_db, (memory \<times> string \<times> bool) list \<times> nat \<times> bool) op" where
  "project db =
     (let live = filter (\<lambda>m. mm_archived m = None) (memories db);
          rows = take 50 (by_activity live)
      in andThen (map_result serialize_memory rows) (\<lambda>views.
           Inr (map (\<lambda>m. (m, excerpt (mm_content m))) views, length live, length live > length views)), db)"

end
