(* ===== verification/Context_Plans.thy ===== *)
theory Context_Plans
  imports Context_Store Memory_Store
begin

text \<open>
  Atomic creation of a plan with its direct children: \<open>openkapsel/context/context_plans.py\<close>.  The
  request is checked and normalized first, its fingerprint is the digest of its canonical JSON text,
  and the transaction consults the request ledger before it writes.  A stored answer keeps the field
  \<open>todos\<close>; the older spelling \<open>subplans\<close> of receipts written by previous versions is not modelled.
\<close>

section \<open>The request\<close>

definition MAX_TODOS :: nat where "MAX_TODOS = 64"
definition MAX_PLAN_REQUEST_BYTES :: nat where "MAX_PLAN_REQUEST_BYTES = 256 * 1024"
definition MAX_PLAN_REQUESTS :: nat where "MAX_PLAN_REQUESTS = 100000"

record plan_node =
  pn_content :: string
  pn_taskname :: string
  pn_scope :: "string list"
  pn_tags :: "string list"
  pn_ref :: "string option"

record plan_spec =
  ps_root :: plan_node
  ps_parent :: "int option"
  ps_todos :: "plan_node list"
  ps_conv :: int
  ps_entries :: "item list"
  ps_nonce :: string
  ps_request :: "string option"
  ps_fingerprint :: string
  ps_hint_paths :: "string list"
  ps_hint_tags :: "string list"
  ps_hint_content :: string

definition plain_text :: "string \<Rightarrow> string result" where
  "plain_text s = (if CHR 0x00 \<in> set s then Inl (ValueError ''plan text must not contain NUL or unpaired Unicode surrogates'') else Inr s)"

definition plan_scope_path :: "pyval \<Rightarrow> string result" where
  "plan_scope_path v =
     (case v of
        PStr s \<Rightarrow>
          let raw = replace_char (CHR 0x5C) ''/'' (strip s); path = normpath raw
          in if strip s = [] then Inl (ValueError ''scope_paths entries must be non-empty strings'')
             else if startswith raw ''/'' then Inl (ValueError ''scope_paths must be workspace-relative'')
             else if climbs path then Inl (ValueError ''scope_paths must stay inside the workspace'')
             else if length path > 4096 then Inl (ValueError ''scope_paths entry exceeds 4096 characters'')
             else Inr path
      | _ \<Rightarrow> Inl (ValueError ''scope_paths entries must be non-empty strings''))"

fun plan_scope_loop :: "string list \<Rightarrow> pyval list \<Rightarrow> string list result" where
  "plan_scope_loop paths [] = Inr paths"
| "plan_scope_loop paths (item # items) =
     andThen (plan_scope_path item) (\<lambda>path. plan_scope_loop (if path \<in> set paths then paths else paths @ [path]) items)"

definition plan_scope_paths :: "pyval \<Rightarrow> string list result" where
  "plan_scope_paths v =
     (case v of
        PNone \<Rightarrow> Inr []
      | PList items \<Rightarrow>
          if length items > MAX_MEMORY_SCOPE_PATHS then Inl (ValueError ''scope_paths must be an array of at most 64 paths'')
          else plan_scope_loop [] items
      | _ \<Rightarrow> Inl (ValueError ''scope_paths must be an array of at most 64 paths''))"

fun all_plain :: "string list \<Rightarrow> unit result" where
  "all_plain [] = Inr ()"
| "all_plain (s # ss) = andThen (plain_text s) (\<lambda>_. all_plain ss)"

definition plan_node_of :: "(string \<times> pyval) list \<Rightarrow> pyval \<Rightarrow> plan_node result" where
  "plan_node_of raw inherited_taskname =
     andThen (plan_scope_paths (dict_get raw ''scope_paths'')) (\<lambda>paths.
     andThen (validate_tags False (dict_get raw ''memory_tags'')) (\<lambda>tags.
     andThen (all_plain (paths @ tags)) (\<lambda>_.
     andThen (andThen (validate_content (dict_get raw ''content'')) plain_text) (\<lambda>content.
     andThen (andThen (validate_taskname (dict_get_default raw ''taskname'' inherited_taskname)) plain_text) (\<lambda>taskname.
       Inr \<lparr>pn_content = content, pn_taskname = taskname, pn_scope = paths, pn_tags = tags, pn_ref = None\<rparr>)))))"

definition only_keys :: "string list \<Rightarrow> (string \<times> pyval) list \<Rightarrow> bool" where
  "only_keys allowed d \<longleftrightarrow> list_all (\<lambda>k. k \<in> set allowed) (map fst d)"

definition array_or_absent :: "(string \<times> pyval) list \<Rightarrow> string \<Rightarrow> bool" where
  "array_or_absent d name \<longleftrightarrow> \<not> dict_has d name \<or> (case dict_get d name of PList _ \<Rightarrow> True | _ \<Rightarrow> False)"

definition todo_error :: "nat \<Rightarrow> string \<Rightarrow> pyerr" where
  "todo_error index what = ValueError (''todos['' @ show_nat index @ '']'' @ what)"

definition todo_ref :: "(string \<times> pyval) list \<Rightarrow> string list \<Rightarrow> string option result" where
  "todo_ref child refs =
     (if \<not> dict_has child ''ref'' then Inr None
      else case dict_get child ''ref'' of
        PStr ref \<Rightarrow>
          if \<not> key_pattern 63 ref
          then Inl (ValueError ''todo ref must contain 1-64 ASCII letters, digits, dots, underscores, colons or hyphens, starting with a letter or digit'')
          else if ref \<in> set refs then Inl (ValueError ''todo refs must be unique within this request'')
          else Inr (Some ref)
      | _ \<Rightarrow> Inl (ValueError ''todo ref must contain 1-64 ASCII letters, digits, dots, underscores, colons or hyphens, starting with a letter or digit''))"

definition todo_of :: "nat \<Rightarrow> pyval \<Rightarrow> string \<Rightarrow> string list \<Rightarrow> plan_node result" where
  "todo_of index v taskname refs =
     (case v of
        PDict child \<Rightarrow>
          if dict_has child ''status'' then Inl (todo_error index '' does not accept status; all plans start in_progress'')
          else if \<not> only_keys [''ref'', ''content'', ''taskname'', ''scope_paths'', ''memory_tags''] child
          then Inl (todo_error index '' must be a direct child object with only supported fields'')
          else if \<not> array_or_absent child ''scope_paths'' then Inl (todo_error index ''.scope_paths must be an array'')
          else if \<not> array_or_absent child ''memory_tags'' then Inl (todo_error index ''.memory_tags must be an array'')
          else andThen (plan_node_of child (PStr taskname)) (\<lambda>node.
            andThen (todo_ref child refs) (\<lambda>ref. Inr (node\<lparr>pn_ref := ref\<rparr>)))
      | _ \<Rightarrow> Inl (todo_error index '' must be a direct child object with only supported fields''))"

fun todos_loop :: "nat \<Rightarrow> pyval list \<Rightarrow> string \<Rightarrow> string list \<Rightarrow> plan_node list result" where
  "todos_loop index [] taskname refs = Inr []"
| "todos_loop index (v # vs) taskname refs =
     andThen (todo_of index v taskname refs) (\<lambda>node.
       andThen (todos_loop (index + 1) vs taskname (case pn_ref node of None \<Rightarrow> refs | Some r \<Rightarrow> r # refs))
         (\<lambda>rest. Inr (node # rest)))"

definition node_json :: "plan_node \<Rightarrow> (string \<times> json) list \<Rightarrow> json" where
  "node_json n extra =
     JObj ([(''content'', JStr (pn_content n)), (''taskname'', JStr (pn_taskname n)), (''status'', JStr ''in_progress''),
            (''scope_paths'', JArr (map JStr (pn_scope n))), (''memory_tags'', JArr (map JStr (pn_tags n)))] @ extra)"

definition plan_request_json :: "plan_node \<Rightarrow> int option \<Rightarrow> plan_node list \<Rightarrow> int \<Rightarrow> item list \<Rightarrow> json" where
  "plan_request_json main parent todos cid items =
     JObj [(''root'', node_json main [(''plan_id'', case parent of None \<Rightarrow> JNull | Some i \<Rightarrow> JInt i)]),
           (''conversation_id'', JInt cid),
           (''conversation_entries'',
             JArr (map (\<lambda>(role, content). JObj [(''role'', JStr (role_name role)), (''content'', JStr content)]) items)),
           (''subplans'', JArr (map (\<lambda>n. node_json n (case pn_ref n of None \<Rightarrow> [] | Some r \<Rightarrow> [(''ref'', JStr r)])) todos))]"

definition plan_parent :: "pyval \<Rightarrow> int option result" where
  "plan_parent v =
     (if v = PNone then Inr None
      else andThen (validate_plan_id_value v) (\<lambda>i.
        if i > 2 ^ 63 - 1 then Inl (ValueError ''plan_id exceeds the database ID range'') else Inr (Some i)))"

definition plan_todos :: "(string \<times> pyval) list \<Rightarrow> string \<Rightarrow> plan_node list result" where
  "plan_todos body taskname =
     (case dict_get_default body ''todos'' (PList []) of
        PList vs \<Rightarrow>
          if length vs > MAX_TODOS then Inl (ValueError ''todos must be an array of at most 64 direct children'')
          else todos_loop 0 vs taskname []
      | _ \<Rightarrow> Inl (ValueError ''todos must be an array of at most 64 direct children''))"

definition plan_request_id :: "(string \<times> pyval) list \<Rightarrow> string option result" where
  "plan_request_id body =
     (if \<not> dict_has body ''request_id'' then Inr None
      else case dict_get body ''request_id'' of
        PStr key \<Rightarrow>
          if key_pattern 127 key then Inr (Some key)
          else Inl (ValueError ''request_id must contain 1-128 ASCII letters, digits, dots, underscores, colons or hyphens, starting with a letter or digit'')
      | _ \<Rightarrow> Inl (ValueError ''request_id must contain 1-128 ASCII letters, digits, dots, underscores, colons or hyphens, starting with a letter or digit''))"

definition check_body :: "(string \<times> pyval) list \<Rightarrow> unit result" where
  "check_body body =
     (if dict_get_default body ''type'' (PStr ''plan'') \<noteq> PStr ''plan'' then Inl (ValueError ''batch creation requires type=plan'')
      else if dict_has body ''status'' then Inl (ValueError ''plan creation does not accept status; all plans start in_progress'')
      else if dict_has body ''subplans'' then Inl (ValueError ''subplans was renamed to todos; use todos instead'')
      else if (dict_has body ''todos'' \<or> dict_has body ''request_id'') \<and>
        \<not> only_keys [''type'', ''content'', ''taskname'', ''plan_id'', ''scope_paths'', ''memory_tags'', ''todos'', ''request_id'',
            ''message'', ''conversation_id'', ''writer_nonce'', ''conversation_entries''] body
      then Inl (ValueError ''plan creation contains unknown fields'')
      else Inr ())"

definition unique :: "'a list \<Rightarrow> 'a list" where
  "unique xs = rev (remdups (rev xs))"

definition normalize_plan_request :: "(string \<Rightarrow> string) \<Rightarrow> pyval \<Rightarrow> plan_spec result" where
  "normalize_plan_request sha256 v =
     (case v of
        PDict body \<Rightarrow>
          andThen (check_body body) (\<lambda>_.
          andThen (plan_parent (dict_get body ''plan_id'')) (\<lambda>parent.
          andThen (plan_node_of body PNone) (\<lambda>root.
            if parent = None \<and> \<not> dict_has body ''todos''
            then Inl (ValueError ''root plan creation requires todos; use [] when there are no direct child plans'')
            else andThen (plan_todos body (pn_taskname root)) (\<lambda>todos.
              andThen (validate_conversation_id (dict_get body ''conversation_id'')) (\<lambda>cid.
              andThen (validate_writer_nonce (dict_get body ''writer_nonce'')) (\<lambda>nonce.
              andThen (normalize_entries (dict_get body ''conversation_entries'') 1 False False) (\<lambda>items.
                let encoded = json_text (plan_request_json root parent todos cid items);
                    paths = unique (concat (map pn_scope (root # todos)));
                    tags = unique (concat (map pn_tags (root # todos)))
                in if utf8_length encoded > MAX_PLAN_REQUEST_BYTES
                   then Inl (ValueError ''combined plan request exceeds 262144 UTF-8 bytes'')
                   else andThen (validate_scope_paths (PList (map PStr paths))) (\<lambda>_.
                     andThen (validate_tags False (PList (map PStr tags))) (\<lambda>_.
                     andThen (plan_request_id body) (\<lambda>key.
                       Inr \<lparr>ps_root = root, ps_parent = parent, ps_todos = todos, ps_conv = cid, ps_entries = items,
                         ps_nonce = nonce, ps_request = key, ps_fingerprint = sha256 encoded, ps_hint_paths = paths,
                         ps_hint_tags = tags, ps_hint_content = join [CHR 0x0A] (map pn_content (root # todos))\<rparr>))))))))))
      | _ \<Rightarrow> Inl (ValueError ''batch creation requires type=plan''))"

section \<open>Creation\<close>

definition plan_metadata :: "plan_node \<Rightarrow> pyval option" where
  "plan_metadata n =
     (let fields = (case pn_ref n of None \<Rightarrow> [] | Some r \<Rightarrow> [(''ref'', PStr r)]) @
            (if pn_scope n = [] then [] else [(''scope_paths'', PList (map PStr (pn_scope n)))]) @
            (if pn_tags n = [] then [] else [(''memory_tags'', PList (map PStr (pn_tags n)))])
      in if fields = [] then None else Some (PDict fields))"

definition new_plan_row :: "plan_node \<Rightarrow> int option \<Rightarrow> string option \<Rightarrow> instant \<Rightarrow> int \<Rightarrow> entry" where
  "new_plan_row n parent actor now cid =
     \<lparr>en_id = 0, en_created = now, en_updated = now, en_type = Plan, en_content = pn_content n, en_operation = None,
      en_status = None, en_summary = None, en_actor = actor, en_request = plan_metadata n, en_result = None,
      en_taskname = pn_taskname n, en_plan_status = Some In_Progress, en_plan = parent, en_conv = Some cid, en_revision = 1\<rparr>"

definition insert_plan ::
  "plan_node \<Rightarrow> int option \<Rightarrow> string option \<Rightarrow> instant \<Rightarrow> int \<Rightarrow> 'z ctx_db_scheme \<Rightarrow> payload \<times> 'z ctx_db_scheme" where
  "insert_plan n parent actor now cid db =
     (case insert_entry (new_plan_row n parent actor now cid) db of
        (i, db1) \<Rightarrow> (serialize ((new_plan_row n parent actor now cid)\<lparr>en_id := i\<rparr>),
                     insert_paths i (PDict [(''path'', PList (map PStr (pn_scope n)))]) db1))"

definition plan_child_of :: "nat \<Rightarrow> plan_node \<Rightarrow> payload \<Rightarrow> plan_child" where
  "plan_child_of index n e =
     \<lparr>pc_id = pl_id e, pc_plan = pl_plan e, pc_taskname = pl_taskname e, pc_status = pl_status e,
      pc_revision = pl_revision e, pc_index = index, pc_ref = pn_ref n\<rparr>"

fun insert_children ::
  "nat \<Rightarrow> plan_node list \<Rightarrow> int \<Rightarrow> string option \<Rightarrow> instant \<Rightarrow> int \<Rightarrow> 'z ctx_db_scheme \<Rightarrow> plan_child list \<times> 'z ctx_db_scheme" where
  "insert_children index [] parent actor now cid db = ([], db)"
| "insert_children index (n # ns) parent actor now cid db =
     (case insert_plan n (Some parent) actor now cid db of
        (e, db1) \<Rightarrow> (case insert_children (index + 1) ns parent actor now cid db1 of
           (cs, db2) \<Rightarrow> (plan_child_of index n e # cs, db2)))"

definition items_value :: "item list \<Rightarrow> pyval" where
  "items_value items =
     PList (map (\<lambda>(role, content). PDict [(''role'', PStr (role_name role)), (''content'', PStr content)]) items)"

definition plan_key :: "plan_request \<Rightarrow> string \<times> string" where
  "plan_key q = (pq_actor q, pq_request q)"

definition receipt_ids :: "plan_receipt \<Rightarrow> int list" where
  "receipt_ids r = pl_id (pr_root r) # map pc_id (pr_todos r)"

definition replay_plans :: "plan_spec \<Rightarrow> plan_request \<Rightarrow> 'z ctx_db_scheme \<Rightarrow> plan_receipt result" where
  "replay_plans spec previous db =
     (if pq_fingerprint previous \<noteq> ps_fingerprint spec
      then Inl (RequestConflict ''context_request_conflict'' ''request_id was already used with a different plan request'')
      else if length (filter (\<lambda>r. en_type r = Plan \<and> en_id r \<in> set (receipt_ids (pq_response previous))) (context_entries db))
              \<noteq> length (receipt_ids (pq_response previous))
      then Inl (RequestConflict ''context_request_gone'' ''one or more original plans were pruned; this request_id cannot create replacements'')
      else Inr ((pq_response previous)\<lparr>pr_replayed := Some True\<rparr>))"

definition check_parent :: "plan_spec \<Rightarrow> int \<Rightarrow> 'z ctx_db_scheme \<Rightarrow> unit result" where
  "check_parent spec cid db =
     (case ps_parent spec of
        None \<Rightarrow> Inr ()
      | Some p \<Rightarrow>
          andThen (validate_plan_parent (PInt p) None True db) (\<lambda>_.
            case plan_row (context_entries db) p of
              None \<Rightarrow> Inr ()
            | Some row \<Rightarrow>
                if en_conv row \<noteq> None \<and> en_conv row \<noteq> Some cid
                then Inl (ValueError ''parent plan belongs to a different conversation'') else Inr ()))"

text \<open>What follows the ledger: the parent, the conversation entries, the inserts and the trim.\<close>

definition write_plans ::
  "plan_spec \<Rightarrow> int \<Rightarrow> string option \<Rightarrow> instant \<Rightarrow> instant \<Rightarrow> ('z ctx_db_scheme, plan_receipt) tx" where
  "write_plans spec cid actor t0 now db =
     andThen (check_parent spec cid db) (\<lambda>_.
     andThen (append_conversation_tx (PInt cid) (PStr (ps_nonce spec)) (items_value (ps_entries spec)) False t0 db) (\<lambda>(appended, db1).
       case insert_plan (ps_root spec) (ps_parent spec) actor now cid db1 of
         (main, db2) \<Rightarrow>
           (case insert_children 0 (ps_todos spec) (pl_id main) actor now cid db2 of
              (todos, db3) \<Rightarrow>
                Inr (\<lparr>pr_root = main, pr_todos = todos, pr_scope_paths = pn_scope (ps_root spec),
                       pr_memory_tags = pn_tags (ps_root spec), pr_conv_entries = appended,
                       pr_conv_status = conversation_summary_status cid db3, pr_request = None, pr_replayed = None\<rparr>,
                     trim_if_needed (pl_id main # map pc_id todos) db3))))"

definition create_plans_tx ::
  "plan_spec \<Rightarrow> string option \<Rightarrow> instant \<Rightarrow> instant \<Rightarrow> ('z ctx_db_scheme, plan_receipt) tx" where
  "create_plans_tx spec actor t0 now db =
     andThen (verify_writer_nonce (PInt (ps_conv spec)) (PStr (ps_nonce spec)) db) (\<lambda>cid.
       case (ps_request spec, actor) of
         (Some key, Some a) \<Rightarrow>
           (case select plan_key (a, key) (context_plan_requests db) of
              Some previous \<Rightarrow> andThen (replay_plans spec previous db) (\<lambda>receipt. Inr (receipt, db))
            | None \<Rightarrow>
                if length (context_plan_requests db) \<ge> MAX_PLAN_REQUESTS
                then Inl (RequestConflict ''context_request_limit''
                       ''workspace plan request ledger is full; existing request IDs remain replayable'')
                else andThen (write_plans spec cid actor t0 now db) (\<lambda>(receipt, db1).
                  let result = receipt\<lparr>pr_request := Some key, pr_replayed := Some False\<rparr>
                  in Inr (result, db1\<lparr>context_plan_requests := context_plan_requests db1 @
                       [\<lparr>pq_actor = a, pq_request = key, pq_fingerprint = ps_fingerprint spec, pq_created = now,
                         pq_response = result\<rparr>]\<rparr>)))
       | _ \<Rightarrow> write_plans spec cid actor t0 now db)"

definition create_plans ::
  "(string \<Rightarrow> string) \<Rightarrow> pyval \<Rightarrow> pyval \<Rightarrow> instant \<Rightarrow> instant \<Rightarrow> ('z ctx_db_scheme, plan_receipt) op" where
  "create_plans sha256 body actor_id t0 now =
     commit (\<lambda>db. andThen (normalize_plan_request sha256 body) (\<lambda>spec.
       andThen (optional validate_actor_id actor_id) (\<lambda>actor.
         if ps_request spec \<noteq> None \<and> actor = None then Inl (ValueError ''request_id requires a stable actor_id'')
         else create_plans_tx spec actor t0 now db)))"

end
