(* ===== verification/Context_Lifecycle.thy ===== *)
theory Context_Lifecycle
  imports Context_Plans
begin

text \<open>
  The lifetime of the Context database: the steps its operations make, the invariant they keep
  (ids grow, every reference to a plan names an older plan that exists, only completed plans have a
  debrief, the conversation log is well-formed) and what follows for the plan hierarchy.
\<close>

section \<open>The entry table\<close>

definition link_ok :: "entry list \<Rightarrow> entry \<Rightarrow> bool" where
  "link_ok rows r \<longleftrightarrow> (\<forall>p. en_plan r = Some p \<longrightarrow> p < en_id r \<and> (\<exists>q \<in> set rows. en_id q = p \<and> en_type q = Plan))"

definition rows_ok :: "int \<Rightarrow> entry list \<Rightarrow> bool" where
  "rows_ok n rows \<longleftrightarrow> sorted_wrt (<) (map en_id rows) \<and>
     (\<forall>r \<in> set rows. 1 \<le> en_id r \<and> en_id r \<le> n \<and> link_ok rows r \<and> (en_type r = Plan \<longleftrightarrow> en_plan_status r \<noteq> None))"

lemma rows_ok_distinct: "rows_ok n rows \<Longrightarrow> distinct (map en_id rows)"
  by (simp add: rows_ok_def strict_sorted_iff)

lemma rows_okD:
  assumes "rows_ok n rows" "r \<in> set rows"
  shows "1 \<le> en_id r" "en_id r \<le> n" "en_type r = Plan \<longleftrightarrow> en_plan_status r \<noteq> None"
  using assms by (simp_all add: rows_ok_def)

lemma rows_ok_link:
  assumes "rows_ok n rows" "r \<in> set rows" "en_plan r = Some p"
  obtains q where "q \<in> set rows" "en_id q = p" "en_type q = Plan" "p < en_id r"
  using assms unfolding rows_ok_def link_ok_def by blast

lemma rows_ok_Nil: "rows_ok 0 []"
  by (simp add: rows_ok_def)

lemma rows_ok_snoc:
  assumes "rows_ok n rows" "en_id r = n + 1" "0 \<le> n" "en_type r = Plan \<longleftrightarrow> en_plan_status r \<noteq> None"
    and "\<And>p. en_plan r = Some p \<Longrightarrow> \<exists>q \<in> set rows. en_id q = p \<and> en_type q = Plan"
  shows "rows_ok (n + 1) (rows @ [r])"
proof -
  have le: "en_id x \<le> n" if "x \<in> set rows" for x using assms(1) that by (simp add: rows_ok_def)
  have "en_id x < en_id r" if "x \<in> set rows" for x using le [OF that] assms(2) by simp
  then have "sorted_wrt (<) (map en_id (rows @ [r]))"
    using assms(1) by (auto simp: rows_ok_def sorted_wrt_append)
  moreover have "link_ok (rows @ [r]) x" if "x \<in> set rows" for x
    using assms(1) that unfolding rows_ok_def link_ok_def set_append by blast
  moreover have "link_ok (rows @ [r]) r" unfolding link_ok_def
  proof (intro allI impI)
    fix p assume "en_plan r = Some p"
    from assms(5) [OF this] obtain q where q: "q \<in> set rows" "en_id q = p" "en_type q = Plan" by blast
    with le [OF q(1)] assms(2) show "p < en_id r \<and> (\<exists>q \<in> set (rows @ [r]). en_id q = p \<and> en_type q = Plan)" by auto
  qed
  moreover have "en_id x \<le> n + 1" if "x \<in> set rows" for x using le [OF that] by simp
  ultimately show ?thesis using assms(1-4) unfolding rows_ok_def by auto
qed

text \<open>Deleting rows that are no plan, or a plan nothing refers to.\<close>

lemma rows_ok_delete:
  assumes "rows_ok n rows" "\<And>r. r \<in> set rows \<Longrightarrow> P r \<Longrightarrow> en_type r \<noteq> Plan \<or> \<not> has_dependent rows (en_id r)"
  shows "rows_ok n (delete_where P rows)"
proof -
  have "sorted_wrt (<) (map en_id (delete_where P rows))"
    using assms(1) unfolding delete_where_def rows_ok_def
    by (simp add: sorted_wrt_map sorted_wrt_filter)
  moreover have "link_ok (delete_where P rows) r" if h: "r \<in> set rows" "\<not> P r" for r
    unfolding link_ok_def
  proof (intro allI impI)
    fix p assume p: "en_plan r = Some p"
    obtain q where q: "q \<in> set rows" "en_id q = p" "en_type q = Plan" "p < en_id r"
      by (rule rows_ok_link [OF assms(1) h(1) p])
    from h(1) p q(2) have "has_dependent rows (en_id q)" by (auto simp: has_dependent_def list_ex_iff)
    with assms(2) [OF q(1)] q show "p < en_id r \<and> (\<exists>q \<in> set (delete_where P rows). en_id q = p \<and> en_type q = Plan)"
      by (auto simp: delete_where_def)
  qed
  ultimately show ?thesis using assms(1) by (auto simp: rows_ok_def delete_where_def)
qed

lemma rows_ok_update:
  assumes "rows_ok n rows"
    and "\<And>r. P r \<Longrightarrow> en_id (f r) = en_id r \<and> en_type (f r) = en_type r \<and> en_plan (f r) = en_plan r"
    and "\<And>r. r \<in> set rows \<Longrightarrow> P r \<Longrightarrow> en_type r = Plan \<longleftrightarrow> en_plan_status (f r) \<noteq> None"
  shows "rows_ok n (update_where P f rows)"
proof -
  define g where "g r = (if P r then f r else r)" for r
  have g: "en_id (g r) = en_id r" "en_type (g r) = en_type r" "en_plan (g r) = en_plan r" for r using assms(2) by (simp_all add: g_def)
  have img: "set (update_where P f rows) = g ` set rows" by (simp add: set_update_where g_def)
  have ids: "map en_id (update_where P f rows) = map en_id rows" using assms(2) by (intro map_update_where) simp
  have "link_ok (update_where P f rows) (g r)" if h: "r \<in> set rows" for r
    unfolding link_ok_def img
  proof (intro allI impI)
    fix p assume "en_plan (g r) = Some p"
    then have p: "en_plan r = Some p" by (simp add: g)
    obtain q where q: "q \<in> set rows" "en_id q = p" "en_type q = Plan" "p < en_id r"
      by (rule rows_ok_link [OF assms(1) h p])
    then show "p < en_id (g r) \<and> (\<exists>q \<in> g ` set rows. en_id q = p \<and> en_type q = Plan)" by (auto simp: g)
  qed
  moreover have "en_type (g r) = Plan \<longleftrightarrow> en_plan_status (g r) \<noteq> None" if "r \<in> set rows" for r
    using rows_okD(3) [OF assms(1) that] assms(3) [OF that] assms(2) [of r] by (cases "P r") (simp_all add: g_def)
  moreover have "sorted_wrt (<) (map en_id rows)" using assms(1) by (simp add: rows_ok_def)
  ultimately show ?thesis using rows_okD(1,2) [OF assms(1)] unfolding rows_ok_def ids img by (auto simp: g(1))
qed

section \<open>What an entry may become\<close>

text \<open>
  Later versions of an entry: a plan that has changed has a greater revision, a completed plan never
  changes again, and neither the parent of an entry nor the conversation of a plan is ever replaced.
\<close>

definition row_later :: "entry \<Rightarrow> entry \<Rightarrow> bool" where
  "row_later r r' \<longleftrightarrow> en_id r' = en_id r \<and> en_type r' = en_type r \<and> en_plan r' = en_plan r \<and> en_created r' = en_created r \<and>
     en_revision r \<le> en_revision r' \<and>
     (en_type r = Plan \<and> en_revision r' = en_revision r \<longrightarrow> r' = r) \<and>
     (en_plan_status r = Some Plan_Completed \<longrightarrow> r' = r) \<and>
     (en_conv r \<noteq> None \<longrightarrow> en_conv r' = en_conv r)"

lemma row_later_refl [simp]: "row_later r r"
  by (simp add: row_later_def)

lemma row_later_trans: "row_later a b \<Longrightarrow> row_later b c \<Longrightarrow> row_later a c"
  unfolding row_later_def by (elim conjE, intro conjI impI) (auto intro: order_trans)

definition rows_later :: "int \<Rightarrow> entry list \<Rightarrow> entry list \<Rightarrow> bool" where
  "rows_later n rows rows' \<longleftrightarrow> (\<forall>r' \<in> set rows'. en_id r' \<le> n \<longrightarrow> (\<exists>r \<in> set rows. row_later r r'))"

lemma rows_later_trans:
  assumes "rows_later n rows rows'" "rows_later m rows' rows''" "n \<le> m"
  shows "rows_later n rows rows''"
  unfolding rows_later_def
proof (intro ballI impI)
  fix c assume c: "c \<in> set rows''" "en_id c \<le> n"
  with assms(2,3) obtain b where b: "b \<in> set rows'" "row_later b c" unfolding rows_later_def by fastforce
  then have "en_id b \<le> n" using c(2) by (simp add: row_later_def)
  with assms(1) b(1) obtain a where "a \<in> set rows" "row_later a b" unfolding rows_later_def by blast
  with b(2) show "\<exists>r \<in> set rows. row_later r c" using row_later_trans by blast
qed

lemma rows_later_subset: "set rows' \<subseteq> set rows \<Longrightarrow> rows_later n rows rows'"
  unfolding rows_later_def using row_later_refl by blast

lemma rows_later_snoc: "n < en_id r \<Longrightarrow> rows_later n rows (rows @ [r])"
  unfolding rows_later_def using row_later_refl by (auto intro!: bexI)

lemma rows_later_update:
  "(\<And>r. r \<in> set rows \<Longrightarrow> P r \<Longrightarrow> row_later r (f r)) \<Longrightarrow> rows_later n rows (update_where P f rows)"
  unfolding rows_later_def set_update_where
proof (intro ballI impI)
  fix r' assume later: "\<And>r. r \<in> set rows \<Longrightarrow> P r \<Longrightarrow> row_later r (f r)" and "r' \<in> (\<lambda>r. if P r then f r else r) ` set rows"
  then obtain r where "r \<in> set rows" "r' = (if P r then f r else r)" by blast
  with later show "\<exists>r \<in> set rows. row_later r r'" by (intro bexI [of _ r]) simp_all
qed

section \<open>The invariant\<close>

definition debriefs_ok :: "'z ctx_db_scheme \<Rightarrow> bool" where
  "debriefs_ok db \<longleftrightarrow> distinct (map db_plan (plan_debriefs db)) \<and>
     (\<forall>d \<in> set (plan_debriefs db). \<exists>r \<in> set (context_entries db). en_id r = db_plan d \<and> en_plan_status r = Some Plan_Completed)"

definition conv_links_ok :: "'z ctx_db_scheme \<Rightarrow> bool" where
  "conv_links_ok db \<longleftrightarrow>
     (\<forall>r \<in> set (context_entries db). \<forall>c. en_conv r = Some c \<longrightarrow> c \<in> cv_id ` set (conversations db))"

definition plan_ledger_ok :: "'z ctx_db_scheme \<Rightarrow> bool" where
  "plan_ledger_ok db \<longleftrightarrow> distinct (map plan_key (context_plan_requests db)) \<and> length (context_plan_requests db) \<le> MAX_PLAN_REQUESTS"

definition paths_ok :: "'z ctx_db_scheme \<Rightarrow> bool" where
  "paths_ok db \<longleftrightarrow> fst ` set (context_entry_paths db) \<subseteq> en_id ` set (context_entries db) \<and> distinct (context_entry_paths db)"

definition ctx_inv :: "'z ctx_db_scheme \<Rightarrow> bool" where
  "ctx_inv db \<longleftrightarrow> 0 \<le> entry_seq db \<and> rows_ok (entry_seq db) (context_entries db) \<and> debriefs_ok db \<and> conv_links_ok db \<and>
     conv_wf db \<and> plan_ledger_ok db \<and> paths_ok db"

definition ctx_later :: "'z ctx_db_scheme \<Rightarrow> 'z ctx_db_scheme \<Rightarrow> bool" where
  "ctx_later db db' \<longleftrightarrow> entry_seq db \<le> entry_seq db' \<and>
     rows_later (entry_seq db) (context_entries db) (context_entries db') \<and>
     log_extends db db' \<and> prefix (context_plan_requests db) (context_plan_requests db')"

lemma ctx_later_refl [simp]: "ctx_later db db"
  by (simp add: ctx_later_def rows_later_subset)

lemma ctx_later_trans: "ctx_later a b \<Longrightarrow> ctx_later b c \<Longrightarrow> ctx_later a c"
  unfolding ctx_later_def
  by (elim conjE, intro conjI) (auto intro: rows_later_trans log_extends_trans prefix_order.trans)

definition ctx_moves :: "'z ctx_db_scheme \<Rightarrow> 'z ctx_db_scheme \<Rightarrow> bool" where
  "ctx_moves db db' \<longleftrightarrow> ctx_inv db' \<and> ctx_later db db'"

lemma ctx_moves_trans: "ctx_moves a b \<Longrightarrow> ctx_moves b c \<Longrightarrow> ctx_moves a c"
  unfolding ctx_moves_def using ctx_later_trans by blast

lemma ctx_invD:
  assumes "ctx_inv db"
  shows "rows_ok (entry_seq db) (context_entries db)" "debriefs_ok db" "conv_links_ok db" "conv_wf db" "plan_ledger_ok db"
    "0 \<le> entry_seq db" "distinct (map en_id (context_entries db))" "paths_ok db"
  using assms rows_ok_distinct by (auto simp: ctx_inv_def)

lemma empty_ctx_inv: "ctx_inv empty_ctx"
  by (simp add: ctx_inv_def empty_ctx_def rows_ok_Nil debriefs_ok_def conv_links_ok_def plan_ledger_ok_def conv_wf_def
      conv_ids_ok_def conv_entries_ok_def conv_ledger_ok_def entries_of_def paths_ok_def)

lemma paths_ok_cong: "context_entry_paths a = context_entry_paths b \<Longrightarrow> en_id ` set (context_entries a) = en_id ` set (context_entries b) \<Longrightarrow> paths_ok a \<longleftrightarrow> paths_ok b"
  by (simp add: paths_ok_def)

subsection \<open>Statements\<close>

lemma insert_paths_fields [simp]:
  "context_entries (insert_paths i v db) = context_entries db" "entry_seq (insert_paths i v db) = entry_seq db"
  "plan_debriefs (insert_paths i v db) = plan_debriefs db" "conversations (insert_paths i v db) = conversations db"
  "conversation_entries (insert_paths i v db) = conversation_entries db"
  "conversation_create_requests (insert_paths i v db) = conversation_create_requests db"
  "context_plan_requests (insert_paths i v db) = context_plan_requests db"
  by (simp_all add: insert_paths_def)

lemma conv_wf_cong:
  "conversations a = conversations b \<Longrightarrow> conversation_entries a = conversation_entries b \<Longrightarrow>
   conversation_create_requests a = conversation_create_requests b \<Longrightarrow> conv_wf a \<longleftrightarrow> conv_wf b"
  by (simp add: conv_wf_def conv_ids_ok_def conv_entries_ok_def conv_ledger_ok_def entries_of_def)

lemma distinct_extract_paths: "distinct (extract_paths v)"
  by (cases v) (simp_all add: extract_paths_def)

lemma insert_paths_ok: "paths_ok db \<Longrightarrow> i \<in> en_id ` set (context_entries db) \<Longrightarrow> paths_ok (insert_paths i v db)"
  using distinct_extract_paths [of v] by (auto simp: paths_ok_def insert_paths_def distinct_map inj_on_def)

lemma insert_paths_moves: "ctx_inv db \<Longrightarrow> i \<in> en_id ` set (context_entries db) \<Longrightarrow> ctx_moves db (insert_paths i v db)"
  using conv_wf_cong [of "insert_paths i v db" db] insert_paths_ok [of db i v]
  by (simp add: ctx_moves_def ctx_inv_def ctx_later_def debriefs_ok_def conv_links_ok_def plan_ledger_ok_def log_extends_def
      rows_later_subset)

lemma insert_entry_moves:
  assumes "ctx_inv db" "en_type row = Plan \<longleftrightarrow> en_plan_status row \<noteq> None"
    and "\<And>p. en_plan row = Some p \<Longrightarrow> \<exists>q \<in> set (context_entries db). en_id q = p \<and> en_type q = Plan"
    and "\<And>c. en_conv row = Some c \<Longrightarrow> c \<in> cv_id ` set (conversations db)"
  shows "ctx_moves db (snd (insert_entry row db))"
proof -
  let ?db = "snd (insert_entry row db)"
  let ?r = "row\<lparr>en_id := entry_seq db + 1\<rparr>"
  have db: "?db = db\<lparr>context_entries := context_entries db @ [?r], entry_seq := entry_seq db + 1\<rparr>"
    by (simp add: insert_entry_def Let_def)
  note inv = ctx_invD [OF assms(1)]
  have "rows_ok (entry_seq db + 1) (context_entries db @ [?r])"
    by (rule rows_ok_snoc) (use inv(1,6) assms(2,3) in simp_all)
  moreover have "rows_later (entry_seq db) (context_entries db) (context_entries db @ [?r])" by (rule rows_later_snoc) simp
  moreover have "paths_ok ?db" using inv(8) by (auto simp: paths_ok_def db)
  ultimately show ?thesis unfolding ctx_moves_def ctx_inv_def ctx_later_def db
    using inv assms(4) conv_wf_cong [of ?db db]
    by (auto simp: db debriefs_ok_def conv_links_ok_def plan_ledger_ok_def log_extends_def)
qed

lemma delete_entries_paths: "paths_ok db \<Longrightarrow> paths_ok (delete_entries P db)"
proof -
  assume ok: "paths_ok db"
  have "i \<in> en_id ` set (context_entries (delete_entries P db))" if x: "(i, p) \<in> set (context_entry_paths (delete_entries P db))" for i p
  proof -
    from x have "(i, p) \<in> set (context_entry_paths db)" "i \<notin> en_id ` set (filter P (context_entries db))"
      by (auto simp: delete_entries_def Let_def delete_where_def)
    moreover from this(1) ok obtain r where "r \<in> set (context_entries db)" "en_id r = i" by (force simp: paths_ok_def)
    ultimately show ?thesis by (auto simp: delete_entries_def Let_def delete_where_def)
  qed
  moreover have "distinct (context_entry_paths (delete_entries P db))"
    using ok by (simp add: paths_ok_def delete_entries_def Let_def delete_where_def)
  ultimately show ?thesis unfolding paths_ok_def by auto
qed

lemma delete_entries_moves:
  assumes "ctx_inv db"
    and "\<And>r. r \<in> set (context_entries db) \<Longrightarrow> P r \<Longrightarrow> en_type r \<noteq> Plan \<or> \<not> has_dependent (context_entries db) (en_id r)"
  shows "ctx_moves db (delete_entries P db)"
proof -
  let ?db = "delete_entries P db"
  note inv = ctx_invD [OF assms(1)]
  have fields: "context_entries ?db = delete_where P (context_entries db)" "entry_seq ?db = entry_seq db"
    "plan_debriefs ?db = delete_where (\<lambda>d. db_plan d \<in> en_id ` set (filter P (context_entries db))) (plan_debriefs db)"
    "conversations ?db = conversations db" "context_plan_requests ?db = context_plan_requests db"
    "conversation_entries ?db = conversation_entries db" "conversation_create_requests ?db = conversation_create_requests db"
    by (simp_all add: delete_entries_def Let_def)
  have "rows_ok (entry_seq db) (delete_where P (context_entries db))" using rows_ok_delete [OF inv(1)] assms(2) by blast
  moreover have "debriefs_ok ?db" unfolding debriefs_ok_def fields
  proof (intro conjI ballI)
    show "distinct (map db_plan (delete_where (\<lambda>d. db_plan d \<in> en_id ` set (filter P (context_entries db))) (plan_debriefs db)))"
      using inv(2) by (intro distinct_delete_where) (simp add: debriefs_ok_def)
  next
    fix d assume d: "d \<in> set (delete_where (\<lambda>d. db_plan d \<in> en_id ` set (filter P (context_entries db))) (plan_debriefs db))"
    then obtain r where r: "r \<in> set (context_entries db)" "en_id r = db_plan d" "en_plan_status r = Some Plan_Completed"
      using inv(2) by (auto simp: debriefs_ok_def delete_where_def)
    with d have "\<not> P r" by (auto simp: delete_where_def image_iff)
    with r show "\<exists>r \<in> set (delete_where P (context_entries db)). en_id r = db_plan d \<and> en_plan_status r = Some Plan_Completed"
      by (auto simp: delete_where_def)
  qed
  moreover have "conv_links_ok ?db" using inv(3) unfolding conv_links_ok_def fields by (auto simp: delete_where_def)
  moreover have "rows_later (entry_seq db) (context_entries db) (context_entries ?db)"
    by (rule rows_later_subset) (auto simp: fields delete_where_def)
  moreover have "paths_ok ?db" by (rule delete_entries_paths [OF inv(8)])
  ultimately show ?thesis
    using inv(4-6) conv_wf_cong [of ?db db]
    by (simp add: ctx_moves_def ctx_inv_def ctx_later_def plan_ledger_ok_def log_extends_def fields)
qed

lemma trim_moves:
  assumes "ctx_inv db"
  shows "ctx_moves db (trim_if_needed keep db)"
proof (cases "length (context_entries db) > MAX_CONTEXT_ENTRIES")
  case True
  let ?rows = "context_entries db"
  have "en_type r \<noteq> Plan \<or> \<not> has_dependent ?rows (en_id r)" if "r \<in> set ?rows" "en_id r \<in> set (trimmed_ids keep ?rows)" for r
  proof -
    have "en_id r \<in> en_id ` set (filter (trim_candidate keep ?rows) ?rows)"
      using that(2) unfolding trimmed_ids_def by (metis in_set_takeD set_sort set_map)
    then obtain q where "q \<in> set ?rows" "trim_candidate keep ?rows q" "en_id q = en_id r" by auto
    with key_unique [OF ctx_invD(7) [OF assms] this(1) that(1)] show ?thesis by (simp add: trim_candidate_def)
  qed
  with delete_entries_moves [OF assms, of "\<lambda>r. en_id r \<in> set (trimmed_ids keep ?rows)"] True
  show ?thesis by (simp add: trim_if_needed_def)
qed (use assms in \<open>simp add: trim_if_needed_def ctx_moves_def\<close>)

subsection \<open>Entries\<close>

lemma require_plan_Inr:
  "require_plan v db = Inr row \<Longrightarrow>
    v = PInt (en_id row) \<and> row \<in> set (context_entries db) \<and> en_type row = Plan \<and>
    select en_id (en_id row) (context_entries db) = Some row"
  by (auto simp: require_plan_def validate_plan_id_value_def split: pyval.splits if_splits option.splits dest: select_Some)

lemma require_in_progress_Inr:
  "require_in_progress_plan_row v db = Inr row \<Longrightarrow>
    v = PInt (en_id row) \<and> row \<in> set (context_entries db) \<and> en_type row = Plan \<and> status_or_default row = In_Progress"
  using require_plan_Inr by (fastforce simp: require_in_progress_plan_row_def split: if_splits)

lemma validate_plan_parent_Inr:
  assumes "validate_plan_parent v child req db = Inr i"
  obtains row where "v = PInt i" "require_plan (PInt i) db = Inr row" "en_id row = i" "row \<in> set (context_entries db)" "en_type row = Plan"
    "status_or_default row = In_Progress"
proof -
  from assms obtain row where "validate_plan_id_value v = Inr i" "require_plan (PInt i) db = Inr row" "status_or_default row = In_Progress"
    by (auto simp: validate_plan_parent_def split: if_splits)
  moreover from this(1) have "v = PInt i" by (auto simp: validate_plan_id_value_def split: pyval.splits if_splits)
  ultimately show ?thesis using require_plan_Inr that by fastforce
qed

lemma checked_plan_link_Inr:
  assumes "checked_plan_link ty v req db = Inr (Some p)"
  shows "\<exists>q \<in> set (context_entries db). en_id q = p \<and> en_type q = Plan"
proof (cases "ty = Plan")
  case True
  with assms have "validate_plan_parent v None True db = Inr p" by (auto simp: checked_plan_link_def split: if_splits)
  then show ?thesis by (rule validate_plan_parent_Inr) blast
next
  case False
  with assms consider row where "require_in_progress_plan_row (PInt p) db = Inr row" | row where "require_plan (PInt p) db = Inr row"
    by (auto simp: checked_plan_link_def split: if_splits)
  then show ?thesis
  proof cases
    case 1
    from require_in_progress_Inr [OF this] show ?thesis by auto
  next
    case 2
    from require_plan_Inr [OF this] show ?thesis by auto
  qed
qed

lemma checked_new_entry_Inr:
  "checked_new_entry n now = Inr row \<Longrightarrow>
    (en_type row = Plan \<longleftrightarrow> en_plan_status row \<noteq> None) \<and> en_conv row = None \<and> en_plan row = None \<and> en_created row = now"
  by (auto simp: checked_new_entry_def split: option.splits if_splits)

lemma add_tx_cases:
  assumes "add_tx n now db = Inr (i, db')"
  obtains row plan where "checked_new_entry n now = Inr row"
    "checked_plan_link (en_type row) (ne_plan n) (ne_require_in_progress n) db = Inr plan" "i = entry_seq db + 1"
    "db' = trim_if_needed [] (insert_paths i (ne_request n) (snd (insert_entry (row\<lparr>en_plan := plan\<rparr>) db)))"
  using assms by (auto simp: add_tx_def insert_entry_def Let_def)

lemma add_tx_moves:
  assumes "add_tx n now db = Inr (i, db')" "ctx_inv db"
  shows "ctx_moves db db'"
  using assms(1)
proof (cases rule: add_tx_cases)
  case (1 row plan)
  let ?db1 = "snd (insert_entry (row\<lparr>en_plan := plan\<rparr>) db)"
  note c = checked_new_entry_Inr [OF 1(1)]
  have "ctx_moves db ?db1"
    by (rule insert_entry_moves [OF assms(2)]) (use c 1(2) checked_plan_link_Inr in auto)
  moreover from this have "ctx_moves ?db1 (insert_paths i (ne_request n) ?db1)"
    by (intro insert_paths_moves) (simp_all add: ctx_moves_def 1(3) insert_entry_def Let_def)
  moreover from this have "ctx_moves (insert_paths i (ne_request n) ?db1) db'"
    unfolding 1(4) by (intro trim_moves) (simp add: ctx_moves_def)
  ultimately show ?thesis using ctx_moves_trans by blast
qed

lemma replace_note_tx_moves:
  assumes "replace_note_tx i taskname content actor plan_id now db = Inr (x, db')" "ctx_inv db"
  shows "ctx_moves db db'"
proof -
  obtain row where row: "select en_id i (context_entries db) = Some row" "en_type row = Note"
    using assms(1) by (cases "select en_id i (context_entries db)") (auto simp: replace_note_tx_def split: if_splits)
  with assms(1) obtain t c a plan prow where link: "require_in_progress_plan_row (case plan of None \<Rightarrow> PNone | Some p \<Rightarrow> PInt p) db = Inr prow"
    and swap: "swap_note i (note_row t c a plan now) db = (x, db')"
    by (auto simp: replace_note_tx_def)
  define new where "new = note_row t c a plan now"
  have new: "en_type new = Note" "en_plan_status new = None" "en_conv new = None" "en_plan new = plan"
    by (simp_all add: new_def note_row_def)
  have db': "db' = trim_if_needed [] (delete_entries (\<lambda>r. en_id r = i) (snd (insert_entry new db)))"
    using swap by (auto simp: swap_note_def new_def Let_def split: prod.splits)
  let ?db1 = "snd (insert_entry new db)"
  have m1: "ctx_moves db ?db1"
    by (rule insert_entry_moves [OF assms(2)]) (use new link require_in_progress_Inr [OF link] in \<open>auto split: option.splits\<close>)
  then have inv1: "ctx_inv ?db1" by (simp add: ctx_moves_def)
  have i: "row \<in> set (context_entries ?db1)" "en_id row = i" using select_Some [OF row(1)] by (auto simp: insert_entry_def Let_def)
  have m2: "ctx_moves ?db1 (delete_entries (\<lambda>r. en_id r = i) ?db1)"
  proof (rule delete_entries_moves [OF inv1])
    fix r assume "r \<in> set (context_entries ?db1)" "en_id r = i"
    with key_unique [OF ctx_invD(7) [OF inv1] this(1) i(1)] i(2) row(2) show "en_type r \<noteq> Plan \<or> \<not> has_dependent (context_entries ?db1) (en_id r)"
      by simp
  qed
  then have "ctx_moves (delete_entries (\<lambda>r. en_id r = i) ?db1) db'"
    unfolding db' by (intro trim_moves) (simp add: ctx_moves_def)
  with m1 m2 show ?thesis using ctx_moves_trans by blast
qed

text \<open>An update of entries that keeps what the invariant speaks about.\<close>

lemma update_entries_moves:
  assumes "ctx_inv db"
    and "\<And>r. P r \<Longrightarrow> en_id (f r) = en_id r \<and> en_type (f r) = en_type r \<and> en_plan (f r) = en_plan r"
    and "\<And>r. r \<in> set (context_entries db) \<Longrightarrow> P r \<Longrightarrow> en_type r = Plan \<longleftrightarrow> en_plan_status (f r) \<noteq> None"
    and "\<And>r. r \<in> set (context_entries db) \<Longrightarrow> P r \<Longrightarrow> row_later r (f r)"
    and "\<And>r c. r \<in> set (context_entries db) \<Longrightarrow> P r \<Longrightarrow> en_conv (f r) = Some c \<Longrightarrow> c \<in> cv_id ` set (conversations db)"
  shows "ctx_moves db (db\<lparr>context_entries := update_where P f (context_entries db)\<rparr>)"
proof -
  let ?db = "db\<lparr>context_entries := update_where P f (context_entries db)\<rparr>"
  note inv = ctx_invD [OF assms(1)]
  have "rows_ok (entry_seq db) (update_where P f (context_entries db))"
    using rows_ok_update [OF inv(1)] assms(2,3) by blast
  moreover have "rows_later (entry_seq db) (context_entries db) (update_where P f (context_entries db))"
    using assms(4) by (rule rows_later_update)
  moreover have "conv_links_ok ?db" using inv(3) assms(5) unfolding conv_links_ok_def by (auto simp: set_update_where)
  moreover have "debriefs_ok ?db" unfolding debriefs_ok_def
  proof (intro conjI ballI)
    show "distinct (map db_plan (plan_debriefs ?db))" using inv(2) by (simp add: debriefs_ok_def)
  next
    fix d assume "d \<in> set (plan_debriefs ?db)"
    then obtain r where r: "r \<in> set (context_entries db)" "en_id r = db_plan d" "en_plan_status r = Some Plan_Completed"
      using inv(2) by (auto simp: debriefs_ok_def)
    then have e: "(if P r then f r else r) = r" using assms(4) [OF r(1)] by (auto simp: row_later_def)
    have "r \<in> set (update_where P f (context_entries db))"
      unfolding set_update_where using imageI [OF r(1), of "\<lambda>r. if P r then f r else r"] by (simp only: e)
    with r show "\<exists>r \<in> set (context_entries ?db). en_id r = db_plan d \<and> en_plan_status r = Some Plan_Completed" by auto
  qed
  moreover have "paths_ok ?db"
  proof -
    have "map en_id (update_where P f (context_entries db)) = map en_id (context_entries db)"
      using assms(2) by (intro map_update_where) simp
    then have "en_id ` set (update_where P f (context_entries db)) = en_id ` set (context_entries db)" by (metis set_map)
    then show ?thesis using inv(8) by (simp add: paths_ok_def)
  qed
  ultimately show ?thesis using inv(4-6) conv_wf_cong [of ?db db]
    by (simp add: ctx_moves_def ctx_inv_def ctx_later_def plan_ledger_ok_def log_extends_def)
qed

lemma finish_operation_tx_moves:
  assumes "finish_operation_tx i ok summary result now db = Inr (u, db')" "ctx_inv db"
  shows "ctx_moves db db'"
proof -
  from assms(1) obtain s where db': "db' = insert_paths i result (db\<lparr>context_entries := update_where (\<lambda>r. en_id r = i \<and> en_type r = Operation)
        (\<lambda>r. r\<lparr>en_updated := now, en_status := Some (if ok then Op_Succeeded else Op_Failed), en_summary := Some s,
               en_result := (if result = PNone then None else Some result)\<rparr>) (context_entries db)\<rparr>)" (is "db' = insert_paths i result ?db")
    by (auto simp: finish_operation_tx_def Let_def split: if_splits)
  have st: "en_plan_status r = None" if "r \<in> set (context_entries db)" "en_type r = Operation" for r
    using rows_okD(3) [OF ctx_invD(1) [OF assms(2)] that(1)] that(2) by simp
  have "ctx_moves db ?db"
  proof (rule update_entries_moves [OF assms(2)])
    fix r c assume "r \<in> set (context_entries db)" "en_conv (r\<lparr>en_updated := now, en_status := Some (if ok then Op_Succeeded else Op_Failed),
        en_summary := Some s, en_result := (if result = PNone then None else Some result)\<rparr>) = Some c"
    then show "c \<in> cv_id ` set (conversations db)" using ctx_invD(3) [OF assms(2)] by (simp add: conv_links_ok_def)
  qed (use st in \<open>simp_all add: row_later_def\<close>)
  moreover from this have "ctx_moves ?db db'" unfolding db'
  proof (intro insert_paths_moves)
    have "filter (\<lambda>r. en_id r = i \<and> en_type r = Operation) (context_entries db) \<noteq> []"
      using assms(1) by (auto simp: finish_operation_tx_def Let_def split: if_splits)
    then have i: "i \<in> en_id ` set (context_entries db)" by (auto simp: filter_empty_conv)
    have "map en_id (context_entries ?db) = map en_id (context_entries db)" by (simp add: map_update_where)
    then have "en_id ` set (context_entries ?db) = en_id ` set (context_entries db)" by (metis set_map)
    with i show "i \<in> en_id ` set (context_entries ?db)" by simp
  qed (simp add: ctx_moves_def)
  ultimately show ?thesis using ctx_moves_trans by blast
qed

subsection \<open>Conversations\<close>

lemma ctx_fields_more:
  assumes "conv_db.more a = conv_db.more (b :: 'z ctx_db_scheme)"
  shows "context_entries a = context_entries b" "entry_seq a = entry_seq b" "context_entry_paths a = context_entry_paths b"
    "plan_debriefs a = plan_debriefs b" "context_plan_requests a = context_plan_requests b"
  using assms by (cases a, cases b, simp)+

lemma log_extends_conv_ids: "log_extends a b \<Longrightarrow> cv_id ` set (conversations a) \<subseteq> cv_id ` set (conversations b)"
  unfolding log_extends_def by (auto simp: prefix_def)

lemma conv_moves:
  assumes "ctx_inv db" "conv_wf db'" "log_extends db db'" "conv_db.more db' = conv_db.more db"
  shows "ctx_moves db (db' :: 'z ctx_db_scheme)"
proof -
  note f = ctx_fields_more [OF assms(4)] and inv = ctx_invD [OF assms(1)]
  have "conv_links_ok db'" using inv(3) log_extends_conv_ids [OF assms(3)] unfolding conv_links_ok_def f by blast
  with inv assms(2,3) show ?thesis
    by (simp add: ctx_moves_def ctx_inv_def ctx_later_def f debriefs_ok_def plan_ledger_ok_def paths_ok_def rows_later_subset)
qed

lemma append_conversation_more:
  assumes "append_conversation_tx v n es ai now db = Inr (rows, db')"
  shows "conv_db.more db' = conv_db.more db"
proof -
  from assms obtain cid items where a: "append_locked cid items now db = Inr (rows, db')"
    by (auto simp: append_conversation_tx_def)
  show ?thesis using append_locked_rows [OF a] by simp
qed

lemma append_conversation_moves:
  assumes "append_conversation_tx v n es ai now db = Inr (rows, db')" "ctx_inv db"
  shows "ctx_moves db db'"
  using append_conversation_wf [OF assms(1) ctx_invD(4) [OF assms(2)]]
  by (intro conv_moves [OF assms(2) _ _ append_conversation_more [OF assms(1)]]) simp_all

lemma insert_conversation_more: "insert_conversation cid items nonce t1 t2 db = Inr (r, db') \<Longrightarrow> conv_db.more db' = conv_db.more db"
  by (erule insert_conversation_Inr) (drule append_locked_rows, simp)

lemma create_conversation_more:
  assumes "create_conversation_tx sha v es req actor nonce t1 t2 db = Inr (r, db')"
  shows "conv_db.more db' = conv_db.more db"
  using assms
proof (cases rule: create_conversation_cases)
  case (keyed cid items key a)
  from keyed(5) show ?thesis by (cases rule: create_keyed_cases) (use insert_conversation_more in auto)
qed (rule insert_conversation_more)

lemma create_conversation_moves:
  assumes "create_conversation_tx sha v es req actor nonce t1 t2 db = Inr (r, db')" "ctx_inv db"
  shows "ctx_moves db db'"
  using create_conversation_wf [OF assms(1) ctx_invD(4) [OF assms(2)]]
  by (intro conv_moves [OF assms(2) _ _ create_conversation_more [OF assms(1)]]) simp_all

subsection \<open>Updating a plan\<close>

lemma checked_update_debrief: "checked_update u = Inr c \<Longrightarrow> cu_debrief c \<noteq> None \<Longrightarrow> cu_status c = Some Plan_Completed"
  by (auto simp: checked_update_def Let_def checked_debrief_def plan_status_of_def split: if_splits pyval.splits)

lemma update_plan_apply_cases:
  assumes "update_plan_apply i u c t0 t1 t2 db = Inr (p, db')"
  obtains row conv appended db1 where "select en_id i (context_entries db) = Some row" "en_type row = Plan"
    "en_revision row = cu_expected c" "\<not> closed_for_good row db"
    "cu_status c = Some Plan_Completed \<Longrightarrow> incomplete_descendant (context_entries db) i = None"
    "update_conversation u c row t0 db = Inr ((conv, appended), db1)"
    "write_update c i conv appended t1 t2 db1 = Inr (p, db')"
proof -
  obtain row where row: "select en_id i (context_entries db) = Some row"
    using assms by (cases "select en_id i (context_entries db)") (auto simp: update_plan_apply_def)
  show thesis
  proof (cases "if cu_status c = Some Plan_Completed then incomplete_descendant (context_entries db) i else None")
    case None
    with row assms obtain conv appended db1 where "en_type row = Plan" "en_revision row = cu_expected c" "\<not> closed_for_good row db"
      "update_conversation u c row t0 db = Inr ((conv, appended), db1)" "write_update c i conv appended t1 t2 db1 = Inr (p, db')"
      by (auto simp: update_plan_apply_def split: if_splits)
    moreover have "cu_status c = Some Plan_Completed \<Longrightarrow> incomplete_descendant (context_entries db) i = None" using None by simp
    ultimately show thesis using row that by blast
  next
    case (Some r)
    with row assms show thesis by (auto simp: update_plan_apply_def split: if_splits)
  qed
qed

lemma update_conversation_Inr:
  assumes "update_conversation u c row t db = Inr ((conv, appended), db1)" "ctx_inv db" "row \<in> set (context_entries db)"
  shows "ctx_moves db db1 \<and> conv_db.more db1 = conv_db.more db \<and> (en_conv row \<noteq> None \<longrightarrow> conv = en_conv row) \<and>
    (\<forall>k. conv = Some k \<longrightarrow> k \<in> cv_id ` set (conversations db1))"
proof (cases "cu_append c")
  case True
  with assms(1) obtain k where ok: "en_conv row = None \<or> en_conv row = Some k" "conv = Some k"
    and a: "append_conversation_tx (PInt k) (pu_nonce u) (pu_entries u) (cu_status c = Some Plan_Completed) t db = Inr (appended, db1)"
    by (auto simp: update_conversation_def split: if_splits)
  from a have "k \<in> cv_id ` set (conversations db)"
    using verify_writer_nonce_Inr by (fastforce simp: append_conversation_tx_def)
  moreover have "log_extends db db1" using append_conversation_moves [OF a assms(2)] by (simp add: ctx_moves_def ctx_later_def)
  ultimately have "k \<in> cv_id ` set (conversations db1)" using log_extends_conv_ids by blast
  with ok append_conversation_moves [OF a assms(2)] append_conversation_more [OF a] show ?thesis by auto
next
  case False
  with assms ctx_invD(3) [OF assms(2)] show ?thesis
    by (auto simp: update_conversation_def ctx_moves_def conv_links_ok_def)
qed

lemma write_update_Inr:
  assumes "write_update c i conv appended t1 t2 db = Inr (p, db')"
  defines "P \<equiv> \<lambda>r. en_id r = i \<and> en_type r = Plan \<and> en_revision r = cu_expected c"
  shows "db' = db\<lparr>context_entries := update_where P (updated_row c conv t1) (context_entries db),
    plan_debriefs := plan_debriefs db @ (case cu_debrief c of None \<Rightarrow> [] | Some d \<Rightarrow> [debrief_row i t2 d])\<rparr>"
  using assms(1) unfolding P_def by (auto simp: write_update_def Let_def split: if_splits option.splits)

lemma row_later_updated:
  assumes "en_revision row = cu_expected c" "en_plan_status row \<noteq> Some Plan_Completed" "en_conv row \<noteq> None \<longrightarrow> conv = en_conv row"
  shows "row_later row (updated_row c conv t row)"
  using assms by (simp add: row_later_def updated_row_def)

lemma add_debrief_moves:
  assumes "ctx_inv db" "select db_plan i (plan_debriefs db) = None"
    and "r \<in> set (context_entries db)" "en_id r = i" "en_plan_status r = Some Plan_Completed" "db_plan d = i"
  shows "ctx_moves db (db\<lparr>plan_debriefs := plan_debriefs db @ [d]\<rparr>)"
proof -
  let ?db = "db\<lparr>plan_debriefs := plan_debriefs db @ [d]\<rparr>"
  note inv = ctx_invD [OF assms(1)]
  have "debriefs_ok ?db" using inv(2) assms(2-6) by (auto simp: debriefs_ok_def select_None)
  then show ?thesis using inv conv_wf_cong [of ?db db]
    by (simp add: ctx_moves_def ctx_inv_def ctx_later_def conv_links_ok_def plan_ledger_ok_def paths_ok_def log_extends_def rows_later_subset)
qed

lemma write_update_moves:
  assumes "write_update c i conv appended t1 t2 db = Inr (p, db')" "ctx_inv db"
    and row: "row \<in> set (context_entries db)" "en_id row = i" "en_type row = Plan" "en_revision row = cu_expected c"
    and live: "en_plan_status row \<noteq> Some Plan_Completed" "select db_plan i (plan_debriefs db) = None"
    and debrief: "cu_debrief c \<noteq> None \<Longrightarrow> cu_status c = Some Plan_Completed"
    and conv: "en_conv row \<noteq> None \<longrightarrow> conv = en_conv row" "\<forall>k. conv = Some k \<longrightarrow> k \<in> cv_id ` set (conversations db)"
  shows "ctx_moves db db'"
proof -
  let ?P = "\<lambda>r. en_id r = i \<and> en_type r = Plan \<and> en_revision r = cu_expected c"
  let ?db = "db\<lparr>context_entries := update_where ?P (updated_row c conv t1) (context_entries db)\<rparr>"
  have only: "r = row" if "r \<in> set (context_entries db)" "?P r" for r
    using key_unique [OF ctx_invD(7) [OF assms(2)] that(1) row(1)] that(2) row(2) by simp
  have m: "ctx_moves db ?db"
  proof (rule update_entries_moves [OF assms(2)])
    fix r assume r: "r \<in> set (context_entries db)" "?P r"
    show "row_later r (updated_row c conv t1 r)" using only [OF r] row_later_updated [OF row(4) live(1) conv(1)] by blast
    show "(en_type r = Plan) = (en_plan_status (updated_row c conv t1 r) \<noteq> None)" using r(2) by (simp add: updated_row_def)
  next
    fix r k assume "en_conv (updated_row c conv t1 r) = Some k"
    then show "k \<in> cv_id ` set (conversations db)" using conv(2) by (simp add: updated_row_def)
  qed (simp add: updated_row_def)
  show ?thesis
  proof (cases "cu_debrief c")
    case None
    with m write_update_Inr [OF assms(1)] show ?thesis by simp
  next
    case (Some d)
    let ?r = "updated_row c conv t1 row"
    have "?r \<in> set (context_entries ?db)" using row by (auto simp: set_update_where intro!: image_eqI [of _ _ row])
    then have "ctx_moves ?db (?db\<lparr>plan_debriefs := plan_debriefs ?db @ [debrief_row i t2 d]\<rparr>)"
      by (intro add_debrief_moves [where i = i and r = ?r])
        (use m live(2) row(2) debrief Some in \<open>simp_all add: ctx_moves_def updated_row_def debrief_row_def\<close>)
    with m ctx_moves_trans write_update_Inr [OF assms(1)] Some show ?thesis by fastforce
  qed
qed

lemma update_plan_apply_moves:
  assumes "update_plan_apply i u c t0 t1 t2 db = Inr (p, db')" "checked_update u = Inr c" "ctx_inv db"
  shows "ctx_moves db db'"
  using assms(1)
proof (cases rule: update_plan_apply_cases)
  case (1 row conv appended db1)
  have row: "row \<in> set (context_entries db)" "en_id row = i" using select_Some [OF 1(1)] by simp_all
  note uc = update_conversation_Inr [OF 1(6) assms(3) row(1)]
  then have f: "context_entries db1 = context_entries db" "plan_debriefs db1 = plan_debriefs db" using ctx_fields_more by auto
  have "ctx_moves db1 db'"
    by (rule write_update_moves [OF 1(7), of row])
      (use uc f row 1(2-4) checked_update_debrief [OF assms(2)] in \<open>auto simp: ctx_moves_def closed_for_good_def\<close>)
  with uc show ?thesis using ctx_moves_trans by blast
qed

lemma update_plan_tx_moves:
  assumes "update_plan_tx i u dry t0 t1 t2 db = Inr (p, db')" "ctx_inv db"
  shows "ctx_moves db db'"
proof -
  from assms(1) obtain c where c: "checked_update u = Inr c"
    and "(dry \<and> db' = db) \<or> (\<not> dry \<and> update_plan_apply i u c t0 t1 t2 db = Inr (p, db'))"
    by (auto simp: update_plan_tx_def split: if_splits)
  with update_plan_apply_moves [OF _ c assms(2)] assms(2) show ?thesis by (auto simp: ctx_moves_def)
qed

subsection \<open>Creating plans\<close>

lemma insert_plan_snd:
  "snd (insert_plan n parent actor now cid db) =
    insert_paths (entry_seq db + 1) (PDict [(''path'', PList (map PStr (pn_scope n)))])
      (snd (insert_entry (new_plan_row n parent actor now cid) db))"
  by (simp add: insert_plan_def insert_entry_def Let_def)

lemma insert_plan_entries:
  "context_entries (snd (insert_plan n parent actor now cid db)) =
    context_entries db @ [(new_plan_row n parent actor now cid)\<lparr>en_id := entry_seq db + 1\<rparr>]"
  "entry_seq (snd (insert_plan n parent actor now cid db)) = entry_seq db + 1"
  "conversations (snd (insert_plan n parent actor now cid db)) = conversations db"
  "plan_debriefs (snd (insert_plan n parent actor now cid db)) = plan_debriefs db"
  "context_plan_requests (snd (insert_plan n parent actor now cid db)) = context_plan_requests db"
  "fst (insert_plan n parent actor now cid db) = serialize ((new_plan_row n parent actor now cid)\<lparr>en_id := entry_seq db + 1\<rparr>)"
  unfolding insert_plan_snd by (simp_all add: insert_entry_def insert_plan_def Let_def)

lemma insert_plan_moves:
  assumes "ctx_inv db" "cid \<in> cv_id ` set (conversations db)"
    and "\<And>p. parent = Some p \<Longrightarrow> \<exists>q \<in> set (context_entries db). en_id q = p \<and> en_type q = Plan"
  shows "ctx_moves db (snd (insert_plan n parent actor now cid db))"
proof -
  have m: "ctx_moves db (snd (insert_entry (new_plan_row n parent actor now cid) db))"
    by (rule insert_entry_moves [OF assms(1)]) (use assms(2,3) in \<open>simp_all add: new_plan_row_def\<close>)
  then have "ctx_inv (snd (insert_entry (new_plan_row n parent actor now cid) db))" by (simp add: ctx_moves_def)
  moreover have "entry_seq db + 1 \<in> en_id ` set (context_entries (snd (insert_entry (new_plan_row n parent actor now cid) db)))"
    by (simp add: insert_entry_def Let_def)
  ultimately show ?thesis unfolding insert_plan_snd by (rule ctx_moves_trans [OF m insert_paths_moves])
qed

text \<open>The rows of a batch of children have consecutive ids after the counter.\<close>

definition child_rows :: "plan_node list \<Rightarrow> int \<Rightarrow> string option \<Rightarrow> instant \<Rightarrow> int \<Rightarrow> int \<Rightarrow> entry list" where
  "child_rows ns parent actor now cid start =
     map (\<lambda>k. (new_plan_row (ns ! k) (Some parent) actor now cid)\<lparr>en_id := start + 1 + int k\<rparr>) [0..<length ns]"

lemma child_rows_Cons:
  "child_rows (n # ns) parent actor now cid start =
    (new_plan_row n (Some parent) actor now cid)\<lparr>en_id := start + 1\<rparr> # child_rows ns parent actor now cid (start + 1)"
  by (simp add: child_rows_def upt_conv_Cons map_Suc_upt [symmetric] algebra_simps del: upt_Suc)

lemma insert_children_entries:
  "context_entries (snd (insert_children k ns parent actor now cid db)) =
     context_entries db @ child_rows ns parent actor now cid (entry_seq db) \<and>
   entry_seq (snd (insert_children k ns parent actor now cid db)) = entry_seq db + int (length ns) \<and>
   map pc_id (fst (insert_children k ns parent actor now cid db)) = map en_id (child_rows ns parent actor now cid (entry_seq db)) \<and>
   plan_debriefs (snd (insert_children k ns parent actor now cid db)) = plan_debriefs db \<and>
   context_plan_requests (snd (insert_children k ns parent actor now cid db)) = context_plan_requests db"
proof (induction ns arbitrary: k db)
  case Nil
  then show ?case by (simp add: child_rows_def)
next
  case (Cons n ns)
  let ?db = "snd (insert_plan n (Some parent) actor now cid db)"
  have "snd (insert_children k (n # ns) parent actor now cid db) = snd (insert_children (k + 1) ns parent actor now cid ?db)"
    "fst (insert_children k (n # ns) parent actor now cid db) =
       plan_child_of k n (fst (insert_plan n (Some parent) actor now cid db)) # fst (insert_children (k + 1) ns parent actor now cid ?db)"
    by (simp_all split: prod.splits)
  with Cons.IH [of "k + 1" ?db] show ?case
    by (simp add: insert_plan_entries child_rows_Cons plan_child_of_def serialize_def)
qed

lemma insert_children_moves:
  assumes "ctx_inv db" "cid \<in> cv_id ` set (conversations db)" "\<exists>q \<in> set (context_entries db). en_id q = parent \<and> en_type q = Plan"
  shows "ctx_moves db (snd (insert_children k ns parent actor now cid db))"
  using assms
proof (induction ns arbitrary: k db)
  case Nil
  then show ?case by (simp add: ctx_moves_def)
next
  case (Cons n ns)
  let ?db = "snd (insert_plan n (Some parent) actor now cid db)"
  have m: "ctx_moves db ?db" by (rule insert_plan_moves [OF Cons.prems(1,2)]) (use Cons.prems(3) in simp)
  have "ctx_moves ?db (snd (insert_children (k + 1) ns parent actor now cid ?db))"
    by (rule Cons.IH) (use m Cons.prems(2,3) in \<open>auto simp: ctx_moves_def insert_plan_entries\<close>)
  with m ctx_moves_trans show ?case by (fastforce split: prod.splits)
qed

lemma check_parent_Inr:
  "check_parent spec cid db = Inr u \<Longrightarrow> ps_parent spec = Some p \<Longrightarrow>
    \<exists>q \<in> set (context_entries db). en_id q = p \<and> en_type q = Plan"
  by (auto simp: check_parent_def elim: validate_plan_parent_Inr)

lemma write_plans_cases:
  assumes "write_plans spec cid actor t0 now db = Inr (r, db')"
  obtains appended db1 where "check_parent spec cid db = Inr ()"
    "append_conversation_tx (PInt cid) (PStr (ps_nonce spec)) (items_value (ps_entries spec)) False t0 db = Inr (appended, db1)"
    "pr_root r = fst (insert_plan (ps_root spec) (ps_parent spec) actor now cid db1)"
    "pr_todos r = fst (insert_children 0 (ps_todos spec) (entry_seq db1 + 1) actor now cid
       (snd (insert_plan (ps_root spec) (ps_parent spec) actor now cid db1)))"
    "pr_request r = None" "pr_replayed r = None" "pr_conv_entries r = appended"
    "db' = trim_if_needed (receipt_ids r) (snd (insert_children 0 (ps_todos spec) (entry_seq db1 + 1) actor now cid
       (snd (insert_plan (ps_root spec) (ps_parent spec) actor now cid db1))))"
proof -
  from assms obtain appended db1 where c: "check_parent spec cid db = Inr ()"
    and a: "append_conversation_tx (PInt cid) (PStr (ps_nonce spec)) (items_value (ps_entries spec)) False t0 db = Inr (appended, db1)"
    by (auto simp: write_plans_def)
  have i: "pl_id (fst (insert_plan (ps_root spec) (ps_parent spec) actor now cid db1)) = entry_seq db1 + 1"
    by (simp add: insert_plan_entries serialize_def)
  show thesis by (rule that [OF c a]) (use assms c a i in \<open>auto simp: write_plans_def receipt_ids_def split: prod.splits\<close>)
qed

lemma write_plans_moves:
  assumes "write_plans spec cid actor t0 now db = Inr (r, db')" "ctx_inv db" "cid \<in> cv_id ` set (conversations db)"
  shows "ctx_moves db db' \<and> context_plan_requests db' = context_plan_requests db"
  using assms(1)
proof (cases rule: write_plans_cases)
  case (1 appended db1)
  let ?db2 = "snd (insert_plan (ps_root spec) (ps_parent spec) actor now cid db1)"
  let ?db3 = "snd (insert_children 0 (ps_todos spec) (entry_seq db1 + 1) actor now cid ?db2)"
  note a = append_conversation_moves [OF 1(2) assms(2)] and f = ctx_fields_more [OF append_conversation_more [OF 1(2)]]
  have "log_extends db db1" using a by (simp add: ctx_moves_def ctx_later_def)
  then have cid: "cid \<in> cv_id ` set (conversations db1)" using assms(3) log_extends_conv_ids by blast
  have m2: "ctx_moves db1 ?db2"
    by (rule insert_plan_moves [OF _ cid]) (use a check_parent_Inr [OF 1(1)] f in \<open>auto simp: ctx_moves_def\<close>)
  have m3: "ctx_moves ?db2 ?db3"
    by (rule insert_children_moves) (use m2 cid in \<open>auto simp: ctx_moves_def insert_plan_entries new_plan_row_def\<close>)
  then have m4: "ctx_moves ?db3 db'" unfolding 1(8) by (intro trim_moves) (simp add: ctx_moves_def)
  have "context_plan_requests db' = context_plan_requests db"
    unfolding 1(8) by (simp add: trim_if_needed_def delete_entries_def Let_def insert_children_entries insert_plan_entries f)
  with a m2 m3 m4 show ?thesis using ctx_moves_trans by blast
qed

text \<open>The outcomes of a creation: not under a key, a replay, a first execution.\<close>

lemma create_plans_tx_cases:
  assumes "create_plans_tx spec actor t0 now db = Inr (r, db')"
  obtains (plain) "ps_request spec = None \<or> actor = None" "write_plans spec (ps_conv spec) actor t0 now db = Inr (r, db')"
      "ps_conv spec \<in> cv_id ` set (conversations db)"
  | (replay) key a previous where "ps_request spec = Some key" "actor = Some a" "db' = db"
      "select plan_key (a, key) (context_plan_requests db) = Some previous" "replay_plans spec previous db = Inr r"
  | (first) key a receipt db1 where "ps_request spec = Some key" "actor = Some a"
      "select plan_key (a, key) (context_plan_requests db) = None" "length (context_plan_requests db) < MAX_PLAN_REQUESTS"
      "write_plans spec (ps_conv spec) actor t0 now db = Inr (receipt, db1)"
      "ps_conv spec \<in> cv_id ` set (conversations db)"
      "r = receipt\<lparr>pr_request := Some key, pr_replayed := Some False\<rparr>"
      "db' = db1\<lparr>context_plan_requests := context_plan_requests db1 @ [\<lparr>pq_actor = a, pq_request = key,
         pq_fingerprint = ps_fingerprint spec, pq_created = now, pq_response = r\<rparr>]\<rparr>"
proof -
  from assms obtain cid where v: "verify_writer_nonce (PInt (ps_conv spec)) (PStr (ps_nonce spec)) db = Inr cid"
    by (auto simp: create_plans_tx_def)
  from verify_writer_nonce_Inr [OF v] have cid: "cid = ps_conv spec" "ps_conv spec \<in> cv_id ` set (conversations db)"
    by (auto intro: rev_image_eqI)
  consider (no) "ps_request spec = None \<or> actor = None" | (key) key a where "ps_request spec = Some key" "actor = Some a"
    by (cases "ps_request spec"; cases actor) auto
  then show thesis
  proof cases
    case no
    have "write_plans spec (ps_conv spec) actor t0 now db = Inr (r, db')"
      using no assms v cid(1) by (cases "ps_request spec"; cases actor) (auto simp: create_plans_tx_def)
    with no cid(2) plain show thesis by blast
  next
    case (key key a)
    show thesis
    proof (cases "select plan_key (a, key) (context_plan_requests db)")
      case None
      with key assms v cid(1) obtain receipt db1 where
        "length (context_plan_requests db) < MAX_PLAN_REQUESTS" "write_plans spec (ps_conv spec) actor t0 now db = Inr (receipt, db1)"
        "r = receipt\<lparr>pr_request := Some key, pr_replayed := Some False\<rparr>"
        "db' = db1\<lparr>context_plan_requests := context_plan_requests db1 @ [\<lparr>pq_actor = a, pq_request = key,
           pq_fingerprint = ps_fingerprint spec, pq_created = now, pq_response = r\<rparr>]\<rparr>"
        by (auto simp: create_plans_tx_def Let_def split: if_splits)
      with key None cid(2) first show thesis by blast
    next
      case (Some previous)
      with key assms v have "db' = db" "replay_plans spec previous db = Inr r" by (auto simp: create_plans_tx_def)
      with key Some replay show thesis by blast
    qed
  qed
qed

lemma create_plans_tx_moves:
  assumes "create_plans_tx spec actor t0 now db = Inr (r, db')" "ctx_inv db"
  shows "ctx_moves db db'"
  using assms(1)
proof (cases rule: create_plans_tx_cases)
  case plain
  with write_plans_moves assms(2) show ?thesis by blast
next
  case (replay key a previous)
  with assms(2) show ?thesis by (simp add: ctx_moves_def)
next
  case (first key a receipt db1)
  note w = write_plans_moves [OF first(5) assms(2) first(6)]
  have "(a, key) \<notin> plan_key ` set (context_plan_requests db)" using first(3) by (simp add: select_None)
  moreover note ctx_invD(5) [OF assms(2)]
  ultimately have "plan_ledger_ok db'" using first(4) w unfolding first(8) by (simp add: plan_ledger_ok_def plan_key_def)
  moreover have "conv_wf db1" using w by (simp add: ctx_moves_def ctx_inv_def)
  then have "conv_wf db'" using conv_wf_cong [of db' db1] first(8) by simp
  ultimately show ?thesis using w unfolding first(8)
    by (simp add: ctx_moves_def ctx_inv_def ctx_later_def debriefs_ok_def conv_links_ok_def paths_ok_def log_extends_def)
qed

section \<open>Steps\<close>

text \<open>
  One step per operation that writes, whatever its outcome; \<open>reopen\<close> is the path backfill that runs
  when the database is opened.
\<close>

inductive ctx_step :: "(string \<Rightarrow> string) \<Rightarrow> ctx_db \<Rightarrow> ctx_db \<Rightarrow> bool" for sha256 where
  create_conversation: "ctx_step sha256 db (snd (create_conversation sha256 v es req actor nonce t1 t2 db))"
| append_conversation: "ctx_step sha256 db (snd (append_conversation v nonce_v es ai now db))"
| add: "ctx_step sha256 db (snd (add_entry n now db))"
| create_plans: "ctx_step sha256 db (snd (create_plans sha256 body actor_v t0 now db))"
| update_plan: "ctx_step sha256 db (snd (update_plan i u t0 t1 t2 db))"
| completion: "ctx_step sha256 db (snd (plan_completion_transaction i expected (\<lambda>_. update_plan_tx j u dry t0 t1 t2) db))"
| replace_note: "ctx_step sha256 db (snd (replace_note i taskname content actor_v plan_v now db))"
| finish_operation: "ctx_step sha256 db (snd (finish_operation i ok summary result now db))"
| reopen: "ctx_step sha256 db (backfill_paths db)"

lemma commit_moves:
  assumes "\<And>x db'. f db = Inr (x, db') \<Longrightarrow> ctx_moves db db'" "ctx_inv db"
  shows "ctx_moves db (snd (commit f db))"
  using snd_commit [of f db] assms by (auto simp: ctx_moves_def)

lemma backfill_moves:
  fixes db :: ctx_db
  assumes "ctx_inv db"
  shows "ctx_moves db (backfill_paths db)"
proof -
  have filled: "ctx_inv d \<Longrightarrow> en_id ` set rows \<subseteq> en_id ` set (context_entries d) \<Longrightarrow> ctx_moves d (fold (\<lambda>row d. insert_paths (en_id row) (h row) (insert_paths (en_id row) (g row) d)) rows d)"
    for d :: ctx_db and rows and g h :: "entry \<Rightarrow> pyval"
  proof (induction rows arbitrary: d)
    case (Cons row rows)
    let ?d1 = "insert_paths (en_id row) (g row) d" and ?d2 = "insert_paths (en_id row) (h row) (insert_paths (en_id row) (g row) d)"
    have i: "en_id row \<in> en_id ` set (context_entries d)" using Cons.prems(2) by simp
    have m: "ctx_moves d ?d1" by (rule insert_paths_moves [OF Cons.prems(1) i])
    then have m2: "ctx_moves ?d1 ?d2" using i by (intro insert_paths_moves) (simp_all add: ctx_moves_def)
    then have "ctx_inv ?d2" "en_id ` set rows \<subseteq> en_id ` set (context_entries ?d2)" using Cons.prems(2) by (simp_all add: ctx_moves_def)
    from ctx_moves_trans [OF m ctx_moves_trans [OF m2 Cons.IH [OF this]]] show ?case by simp
  qed (simp add: ctx_moves_def)
  show ?thesis unfolding backfill_paths_def by (rule filled [OF assms image_mono [OF filter_is_subset]])
qed

lemma snd_replace_note: "snd (replace_note i t c a p now db) = snd (commit (replace_note_tx i t c a p now) db)"
  by (auto simp: replace_note_def split: prod.splits sum.splits option.splits)

lemma ctx_step_moves: "ctx_step sha256 db db' \<Longrightarrow> ctx_inv db \<Longrightarrow> ctx_moves db db'"
proof (induction rule: ctx_step.induct)
  case (create_conversation db v es req actor nonce t1 t2)
  then show ?case unfolding create_conversation_def
    by (intro commit_moves) (auto intro: create_conversation_moves)
next
  case (append_conversation db v nonce_v es ai now)
  then show ?case unfolding append_conversation_def
    by (intro commit_moves) (auto intro: append_conversation_moves)
next
  case (add db n now)
  then show ?case unfolding add_entry_def by (intro commit_moves) (auto intro: add_tx_moves)
next
  case (create_plans db body actor_v t0 now)
  then show ?case unfolding create_plans_def
    by (intro commit_moves) (auto intro: create_plans_tx_moves split: if_splits)
next
  case (update_plan db i u t0 t1 t2)
  then show ?case unfolding update_plan_def by (intro commit_moves) (auto intro: update_plan_tx_moves)
next
  case (completion db i expected j u dry t0 t1 t2)
  then show ?case unfolding plan_completion_transaction_def
    by (intro commit_moves) (auto intro: update_plan_tx_moves split: option.splits if_splits)
next
  case (replace_note db i taskname content actor_v plan_v now)
  then show ?case unfolding snd_replace_note by (intro commit_moves) (auto intro: replace_note_tx_moves)
next
  case (finish_operation db i ok summary result now)
  then show ?case unfolding finish_operation_def by (intro commit_moves) (auto intro: finish_operation_tx_moves)
next
  case (reopen db)
  then show ?case by (rule backfill_moves)
qed

interpretation ctx: evolving "\<lambda>db. db = empty_ctx" "ctx_step sha256" ctx_inv ctx_later for sha256
  by unfold_locales
    (auto simp: empty_ctx_inv ctx_moves_def dest: ctx_step_moves intro: ctx_later_trans)

section \<open>The request ledgers\<close>

lemma select_prefix: "prefix xs ys \<Longrightarrow> select key k xs = Some r \<Longrightarrow> select key k ys = Some r"
proof -
  have "select key k xs = Some r \<Longrightarrow> select key k (xs @ zs) = Some r" for zs
    unfolding select_def by (induction xs) (auto split: if_splits)
  then show "prefix xs ys \<Longrightarrow> select key k xs = Some r \<Longrightarrow> select key k ys = Some r" by (auto simp: prefix_def)
qed

definition plan_receipt_of :: "ctx_db \<Rightarrow> string \<times> string \<Rightarrow> (string \<times> plan_receipt) option" where
  "plan_receipt_of db k = map_option (\<lambda>q. (pq_fingerprint q, pq_response q)) (select plan_key k (context_plan_requests db))"

definition conv_receipt_of :: "ctx_db \<Rightarrow> string \<times> string \<Rightarrow> (string \<times> conv_receipt) option" where
  "conv_receipt_of db k = map_option (\<lambda>q. (cq_fingerprint q, cq_response q)) (select request_key k (conversation_create_requests db))"

definition keyed_plans :: "string \<times> string \<Rightarrow> plan_spec \<times> instant \<times> instant \<Rightarrow> (ctx_db, plan_receipt) tx" where
  "keyed_plans k q = (case (k, q) of ((a, key), (spec, t0, now)) \<Rightarrow> create_plans_tx (spec\<lparr>ps_request := Some key\<rparr>) (Some a) t0 now)"

definition keyed_conversation ::
  "(string \<Rightarrow> string) \<Rightarrow> string \<times> string \<Rightarrow> int \<times> item list \<times> string \<times> instant \<times> instant \<Rightarrow> (ctx_db, conv_receipt) tx" where
  "keyed_conversation sha256 k q = (case (k, q) of ((a, key), (cid, items, nonce, t1, t2)) \<Rightarrow>
     create_keyed (sha256 (json_text (create_request_json cid items))) cid items key a nonce t1 t2)"

text \<open>A step of the database from a state that satisfies the invariant.\<close>

definition ctx_inv_step :: "(string \<Rightarrow> string) \<Rightarrow> ctx_db \<Rightarrow> ctx_db \<Rightarrow> bool" where
  "ctx_inv_step sha256 db db' \<longleftrightarrow> ctx_inv db \<and> ctx_step sha256 db db'"

lemma ctx_inv_step_later: "ctx_inv_step sha256 db db' \<Longrightarrow> ctx_later db db'"
  using ctx_step_moves by (auto simp: ctx_inv_step_def ctx_moves_def)

lemma ctx_inv_steps: "(ctx_step sha256)\<^sup>*\<^sup>* db db' \<Longrightarrow> ctx_inv db \<Longrightarrow> (ctx_inv_step sha256)\<^sup>*\<^sup>* db db'"
proof (induction rule: rtranclp_induct)
  case (step b c)
  have "ctx_inv b" by (rule ctx.steps_inv [OF step.hyps(1) step.prems])
  with step show ?case by (auto simp: ctx_inv_step_def intro: rtranclp.rtrancl_into_rtrancl)
qed simp

interpretation plan_ledger: request_ledger plan_receipt_of keyed_plans "\<lambda>(spec, _). ps_fingerprint spec"
  "\<lambda>r. r\<lparr>pr_replayed := Some True\<rparr>" "ctx_inv_step sha256" for sha256
proof
  fix s s' :: ctx_db and k :: "string \<times> string" and q :: "plan_spec \<times> instant \<times> instant" and r :: plan_receipt
  obtain a key spec t0 now where k: "k = (a, key)" and q: "q = (spec, t0, now)" by (metis prod_cases3 surj_pair)
  assume none: "plan_receipt_of s k = None" and "keyed_plans k q s = Inr (r, s')"
  then have "create_plans_tx (spec\<lparr>ps_request := Some key\<rparr>) (Some a) t0 now s = Inr (r, s')" by (simp add: keyed_plans_def k q)
  then show "plan_receipt_of s' k = Some ((\<lambda>(spec, _). ps_fingerprint spec) q, r)"
  proof (cases rule: create_plans_tx_cases)
    case (first key' a' receipt db1)
    from first(5) have "context_plan_requests db1 = context_plan_requests s"
      by (cases rule: write_plans_cases)
        (simp add: trim_if_needed_def delete_entries_def Let_def insert_children_entries insert_plan_entries
          ctx_fields_more [OF append_conversation_more])
    with first none show ?thesis by (auto simp: plan_receipt_of_def k q select_append plan_key_def)
  qed (use none k in \<open>simp_all add: plan_receipt_of_def\<close>)
next
  fix s s' :: ctx_db and k :: "string \<times> string" and v
  assume "plan_receipt_of s k = Some v" "ctx_inv_step sha256 s s'"
  then show "plan_receipt_of s' k = Some v"
    using ctx_inv_step_later [of sha256 s s'] select_prefix unfolding plan_receipt_of_def ctx_later_def by fastforce
next
  fix s :: ctx_db and k :: "string \<times> string" and f r0 and q :: "plan_spec \<times> instant \<times> instant"
  obtain a key spec t0 now where k: "k = (a, key)" and q: "q = (spec, t0, now)" by (metis prod_cases3 surj_pair)
  assume "plan_receipt_of s k = Some (f, r0)" "f \<noteq> (\<lambda>(spec, _). ps_fingerprint spec) q"
  then have "keyed_plans k q s \<noteq> Inr (r, s')" for r s'
    unfolding k q keyed_plans_def
    by (auto elim!: create_plans_tx_cases simp: plan_receipt_of_def replay_plans_def split: if_splits)
  then show "\<exists>e. keyed_plans k q s = Inl e" by (cases "keyed_plans k q s") auto
next
  fix s s' :: ctx_db and k :: "string \<times> string" and q :: "plan_spec \<times> instant \<times> instant" and r0 r
  obtain a key spec t0 now where k: "k = (a, key)" and q: "q = (spec, t0, now)" by (metis prod_cases3 surj_pair)
  assume "plan_receipt_of s k = Some ((\<lambda>(spec, _). ps_fingerprint spec) q, r0)" "keyed_plans k q s = Inr (r, s')"
  then show "r = r0\<lparr>pr_replayed := Some True\<rparr> \<and> s' = s"
    unfolding k q keyed_plans_def
    by (auto elim!: create_plans_tx_cases simp: plan_receipt_of_def replay_plans_def split: if_splits)
qed


interpretation conv_ledger: request_ledger conv_receipt_of "keyed_conversation sha256"
  "\<lambda>(cid, items, _). sha256 (json_text (create_request_json cid items))" "\<lambda>r. r\<lparr>rc_replayed := Some True\<rparr>"
  "ctx_inv_step sha256" for sha256
proof
  fix s s' :: ctx_db and k :: "string \<times> string" and q :: "int \<times> item list \<times> string \<times> instant \<times> instant" and r :: conv_receipt
  obtain a key cid items nonce t1 t2 where k: "k = (a, key)" and q: "q = (cid, items, nonce, t1, t2)" by (metis surj_pair)
  assume none: "conv_receipt_of s k = None" and "keyed_conversation sha256 k q s = Inr (r, s')"
  then have "create_keyed (sha256 (json_text (create_request_json cid items))) cid items key a nonce t1 t2 s = Inr (r, s')"
    by (simp add: keyed_conversation_def k q)
  then show "conv_receipt_of s' k = Some ((\<lambda>(cid, items, _). sha256 (json_text (create_request_json cid items))) q, r)"
  proof (cases rule: create_keyed_cases)
    case (first receipt db1)
    from first(3) have "conversation_create_requests db1 = conversation_create_requests s"
      by (rule insert_conversation_Inr) (drule append_locked_rows, simp)
    with first none show ?thesis by (auto simp: conv_receipt_of_def k q select_append request_key_def)
  qed (use none k in \<open>simp add: conv_receipt_of_def\<close>)
next
  fix s s' :: ctx_db and k :: "string \<times> string" and v
  assume "conv_receipt_of s k = Some v" "ctx_inv_step sha256 s s'"
  then show "conv_receipt_of s' k = Some v"
    using ctx_inv_step_later [of sha256 s s'] select_prefix unfolding conv_receipt_of_def ctx_later_def log_extends_def by fastforce
next
  fix s :: ctx_db and k :: "string \<times> string" and f r0 and q :: "int \<times> item list \<times> string \<times> instant \<times> instant"
  obtain a key cid items nonce t1 t2 where k: "k = (a, key)" and q: "q = (cid, items, nonce, t1, t2)" by (metis surj_pair)
  assume "conv_receipt_of s k = Some (f, r0)" "f \<noteq> (\<lambda>(cid, items, _). sha256 (json_text (create_request_json cid items))) q"
  then have "keyed_conversation sha256 k q s \<noteq> Inr (r, s')" for r s'
    unfolding k q keyed_conversation_def
    by (auto elim!: create_keyed_cases simp: conv_receipt_of_def replay_conversation_def split: if_splits)
  then show "\<exists>e. keyed_conversation sha256 k q s = Inl e" by (cases "keyed_conversation sha256 k q s") auto
next
  fix s s' :: ctx_db and k :: "string \<times> string" and q :: "int \<times> item list \<times> string \<times> instant \<times> instant" and r0 r
  obtain a key cid items nonce t1 t2 where k: "k = (a, key)" and q: "q = (cid, items, nonce, t1, t2)" by (metis surj_pair)
  assume "conv_receipt_of s k = Some ((\<lambda>(cid, items, _). sha256 (json_text (create_request_json cid items))) q, r0)"
    "keyed_conversation sha256 k q s = Inr (r, s')"
  then show "r = r0\<lparr>rc_replayed := Some True\<rparr> \<and> s' = s"
    unfolding k q keyed_conversation_def
    by (auto elim!: create_keyed_cases simp: conv_receipt_of_def replay_conversation_def split: if_splits option.splits)
qed

section \<open>The plan hierarchy\<close>

text \<open>\<open>child_of rows i j\<close>: plan \<open>j\<close> is a direct child of plan \<open>i\<close>.\<close>

definition child_of :: "entry list \<Rightarrow> int \<Rightarrow> int \<Rightarrow> bool" where
  "child_of rows i j \<longleftrightarrow> (\<exists>r \<in> set rows. en_id r = j \<and> en_type r = Plan \<and> en_plan r = Some i)"

lemma set_children: "set (children rows i) = {j. child_of rows i j}"
  by (auto simp: children_def child_of_def)

lemma child_of_less: "rows_ok n rows \<Longrightarrow> child_of rows i j \<Longrightarrow> i < j"
  unfolding child_of_def using rows_ok_link by metis

lemma descendant_less: "(child_of rows)\<^sup>+\<^sup>+ i j \<Longrightarrow> rows_ok n rows \<Longrightarrow> i < j"
  by (induction rule: tranclp_induct) (auto dest: child_of_less intro: less_trans)

text \<open>The recursive query finds exactly the descendants.\<close>

lemma descendants_from_closed:
  assumes "set queue \<subseteq> set seen" "\<And>i j. i \<in> set seen - set queue \<Longrightarrow> child_of rows i j \<Longrightarrow> j \<in> set seen"
    and "\<And>j. j \<in> set seen \<Longrightarrow> (child_of rows)\<^sup>+\<^sup>+ start j"
  shows "set seen \<subseteq> set (descendants_from rows seen queue) \<and>
    (\<forall>i j. i \<in> set (descendants_from rows seen queue) \<longrightarrow> child_of rows i j \<longrightarrow> j \<in> set (descendants_from rows seen queue)) \<and>
    (\<forall>j \<in> set (descendants_from rows seen queue). (child_of rows)\<^sup>+\<^sup>+ start j)"
  using assms
proof (induction rows seen queue rule: descendants_from.induct)
  case (1 rows seen queue)
  show ?case
  proof (cases queue)
    case Nil
    have "descendants_from rows seen queue = seen" unfolding Nil by (subst descendants_from.simps) simp
    with 1 Nil show ?thesis by auto
  next
    case (Cons i rest)
    let ?new = "filter (\<lambda>j. j \<notin> set seen) (remdups (children rows i))"
    have eq: "descendants_from rows seen queue = descendants_from rows (seen @ ?new) (rest @ ?new)"
      by (subst descendants_from.simps) (simp add: Cons Let_def)
    have new: "set ?new = {j. child_of rows i j \<and> j \<notin> set seen}" by (auto simp: set_children)
    have "set (seen @ ?new) \<subseteq> set (descendants_from rows (seen @ ?new) (rest @ ?new)) \<and>
      (\<forall>a b. a \<in> set (descendants_from rows (seen @ ?new) (rest @ ?new)) \<longrightarrow> child_of rows a b \<longrightarrow>
         b \<in> set (descendants_from rows (seen @ ?new) (rest @ ?new))) \<and>
      (\<forall>j \<in> set (descendants_from rows (seen @ ?new) (rest @ ?new)). (child_of rows)\<^sup>+\<^sup>+ start j)"
    proof (rule "1.IH" [OF Cons refl])
      show "set (rest @ ?new) \<subseteq> set (seen @ ?new)" using "1.prems"(1) Cons by auto
    next
      fix a b assume a: "a \<in> set (seen @ ?new) - set (rest @ ?new)" and ab: "child_of rows a b"
      show "b \<in> set (seen @ ?new)"
      proof (cases "a = i")
        case True
        with ab new show ?thesis by auto
      next
        case False
        with a ab "1.prems"(2) [of a b] Cons show ?thesis by auto
      qed
    next
      fix j assume "j \<in> set (seen @ ?new)"
      then consider "j \<in> set seen" | "child_of rows i j" using new by auto
      then show "(child_of rows)\<^sup>+\<^sup>+ start j"
      proof cases
        case 2
        moreover have "(child_of rows)\<^sup>+\<^sup>+ start i" using "1.prems"(1,3) Cons by auto
        ultimately show ?thesis by (auto intro: tranclp.trancl_into_trancl)
      qed (rule "1.prems"(3))
    qed
    then show ?thesis unfolding eq by auto
  qed
qed

lemma set_descendants: "set (descendants rows i) = {j. (child_of rows)\<^sup>+\<^sup>+ i j}"
proof -
  let ?first = "remdups (children rows i)"
  have D: "descendants rows i = descendants_from rows ?first ?first" by (simp add: descendants_def Let_def)
  have first: "set ?first = {j. child_of rows i j}" by (simp add: set_children)
  have start: "(child_of rows)\<^sup>+\<^sup>+ i j" if "j \<in> set ?first" for j using that first by blast
  have none: "j \<in> set ?first" if "a \<in> set ?first - set ?first" for a j using that by blast
  note closed = descendants_from_closed [OF subset_refl none start]
  have sub: "set ?first \<subseteq> set (descendants rows i)" unfolding D using closed by blast
  have trans: "b \<in> set (descendants rows i)" if "a \<in> set (descendants rows i)" "child_of rows a b" for a b
    using that closed unfolding D by blast
  have sound: "(child_of rows)\<^sup>+\<^sup>+ i j" if "j \<in> set (descendants rows i)" for j using that closed unfolding D by blast
  have "j \<in> set (descendants rows i)" if "(child_of rows)\<^sup>+\<^sup>+ i j" for j
    using that
  proof (induction rule: tranclp_induct)
    case (base j)
    then show ?case using sub first by blast
  qed (rule trans)
  with sound show ?thesis by blast
qed

lemma incomplete_descendant_None:
  "incomplete_descendant rows i = None \<longleftrightarrow>
    (\<forall>r \<in> set rows. (child_of rows)\<^sup>+\<^sup>+ i (en_id r) \<longrightarrow> status_or_default r \<noteq> In_Progress)"
proof -
  let ?found = "filter (\<lambda>r. en_id r \<in> set (descendants rows i) \<and> status_or_default r = In_Progress) rows"
  have "incomplete_descendant rows i = None \<longleftrightarrow> sort_key en_id ?found = []"
    by (simp add: incomplete_descendant_def split: list.splits)
  also have "\<dots> \<longleftrightarrow> ?found = []" by (rule sort_key_Nil)
  also have "\<dots> \<longleftrightarrow> (\<forall>r \<in> set rows. (child_of rows)\<^sup>+\<^sup>+ i (en_id r) \<longrightarrow> status_or_default r \<noteq> In_Progress)"
    by (auto simp: filter_empty_conv set_descendants)
  finally show ?thesis .
qed

text \<open>Walking up from a plan ends at its root.\<close>

lemma plan_row_Some: "plan_row rows i = Some r \<Longrightarrow> r \<in> set rows \<and> en_id r = i \<and> en_type r = Plan"
  by (auto simp: plan_row_def find_Some_iff)

lemma plan_row_exists:
  assumes "q \<in> set rows" "en_id q = i" "en_type q = Plan"
  shows "\<exists>r. plan_row rows i = Some r"
  using assms by (cases "plan_row rows i") (auto simp: plan_row_def find_None_iff)

lemma plan_root_loop_total:
  assumes "rows_ok n rows" "q \<in> set rows" "en_id q = i" "en_type q = Plan" "\<forall>v \<in> set visited. i < v"
  shows "\<exists>k r. plan_root_loop rows None visited found (Some i) = Inr (Some (k, r)) \<and> r \<in> set rows \<and> en_id r = k \<and> en_type r = Plan \<and>
    en_plan r = None \<and> (child_of rows)\<^sup>*\<^sup>* k i"
  using assms(2-5)
proof (induction "nat i" arbitrary: i q visited found rule: less_induct)
  case less
  obtain r where r: "plan_row rows i = Some r" using plan_row_exists [OF less.prems(1-3)] by blast
  note r' = plan_row_Some [OF r]
  have step: "plan_root_loop rows None visited found (Some i) = plan_root_loop rows None (i # visited) (Some (i, r)) (en_plan r)"
    using less.prems(4) by (subst plan_root_loop.simps) (auto simp: r)
  show ?case
  proof (cases "en_plan r")
    case None
    have "plan_root_loop rows None (i # visited) (Some (i, r)) None = Inr (Some (i, r))" by (subst plan_root_loop.simps) simp
    with step None r' show ?thesis by auto
  next
    case (Some p)
    from r' have "r \<in> set rows" by simp
    then obtain q' where q': "q' \<in> set rows" "en_id q' = p" "en_type q' = Plan" "p < en_id r"
      by (rule rows_ok_link [OF assms(1) _ Some])
    have "1 \<le> p" using rows_okD(1) [OF assms(1) q'(1)] q'(2) by simp
    then have "nat p < nat i" using q'(4) r' by simp
    moreover have "\<forall>v \<in> set (i # visited). p < v" using less.prems(4) q'(4) r' by auto
    ultimately obtain k x where x: "plan_root_loop rows None (i # visited) (Some (i, r)) (Some p) = Inr (Some (k, x))"
      "x \<in> set rows" "en_id x = k" "en_type x = Plan" "en_plan x = None" "(child_of rows)\<^sup>*\<^sup>* k p"
      using less.hyps q'(1-3) by blast
    have "child_of rows p i" using r' Some by (auto simp: child_of_def)
    with x(6) have "(child_of rows)\<^sup>*\<^sup>* k i" by (rule rtranclp.rtrancl_into_rtrancl)
    with x step Some show ?thesis by auto
  qed
qed

end
