(* ===== verification/Context_Properties.thy ===== *)
theory Context_Properties
  imports Context_Lifecycle
begin

text \<open>
  The properties of the Context database over every state its operations can reach from the empty
  database, with a small history on which each of them is applied.
\<close>

section \<open>A small history\<close>

text \<open>Two plans, the second a child of the first; the child is cancelled and the parent completed.\<close>

definition demo_plan :: "pyval \<Rightarrow> new_entry" where
  "demo_plan parent = \<lparr>ne_type = ''plan'', ne_content = PStr ''do it'', ne_taskname = PStr ''task'', ne_actor = PNone, ne_operation = None,
     ne_status = None, ne_plan_status = None, ne_plan = parent, ne_request = PNone, ne_require_in_progress = False\<rparr>"

definition demo_update :: "string \<Rightarrow> int \<Rightarrow> plan_update" where
  "demo_update status expected = \<lparr>pu_expected = PInt expected, pu_taskname = PStr ''task'', pu_content = PNone, pu_status = Some status,
     pu_debrief = PNone, pu_actor = PNone, pu_conv = PNone, pu_nonce = PNone, pu_entries = PNone, pu_require = False\<rparr>"

definition demo_row :: "int \<Rightarrow> int option \<Rightarrow> plan_status \<Rightarrow> instant \<Rightarrow> int \<Rightarrow> entry" where
  "demo_row i parent status updated rev_no = \<lparr>en_id = i, en_created = 0, en_updated = updated, en_type = Plan, en_content = ''do it'',
     en_operation = None, en_status = None, en_summary = None, en_actor = None, en_request = None, en_result = None,
     en_taskname = ''task'', en_plan_status = Some status, en_plan = parent, en_conv = None, en_revision = rev_no\<rparr>"

definition cx1 :: ctx_db where "cx1 = snd (add_entry (demo_plan PNone) 0 empty_ctx)"
definition cx2 :: ctx_db where "cx2 = snd (add_entry (demo_plan (PInt 1)) 0 cx1)"
definition cx3 :: ctx_db where "cx3 = snd (update_plan 2 (demo_update ''cancelled'' 1) 1 1 1 cx2)"
definition cx4 :: ctx_db where "cx4 = snd (update_plan 1 (demo_update ''completed'' 1) 2 2 2 cx3)"
definition cx5 :: ctx_db where "cx5 = snd (update_plan 2 (demo_update ''in_progress'' 2) 3 3 3 cx4)"

lemma cx_reachable:
  "(ctx_step sha)\<^sup>*\<^sup>* empty_ctx cx1" "(ctx_step sha)\<^sup>*\<^sup>* empty_ctx cx2" "(ctx_step sha)\<^sup>*\<^sup>* empty_ctx cx3"
  "(ctx_step sha)\<^sup>*\<^sup>* empty_ctx cx4" "(ctx_step sha)\<^sup>*\<^sup>* empty_ctx cx5" "(ctx_step sha)\<^sup>*\<^sup>* cx3 cx4" "(ctx_step sha)\<^sup>*\<^sup>* cx4 cx5"
proof -
  have s: "ctx_step sha empty_ctx cx1" "ctx_step sha cx1 cx2" "ctx_step sha cx2 cx3" "ctx_step sha cx3 cx4" "ctx_step sha cx4 cx5"
    unfolding cx1_def cx2_def cx3_def cx4_def cx5_def by (rule ctx_step.add ctx_step.update_plan)+
  show 1: "(ctx_step sha)\<^sup>*\<^sup>* empty_ctx cx1" using s(1) by blast
  show 2: "(ctx_step sha)\<^sup>*\<^sup>* empty_ctx cx2" by (rule rtranclp.rtrancl_into_rtrancl [OF 1 s(2)])
  show 3: "(ctx_step sha)\<^sup>*\<^sup>* empty_ctx cx3" by (rule rtranclp.rtrancl_into_rtrancl [OF 2 s(3)])
  show 4: "(ctx_step sha)\<^sup>*\<^sup>* empty_ctx cx4" by (rule rtranclp.rtrancl_into_rtrancl [OF 3 s(4)])
  show "(ctx_step sha)\<^sup>*\<^sup>* empty_ctx cx5" by (rule rtranclp.rtrancl_into_rtrancl [OF 4 s(5)])
  show "(ctx_step sha)\<^sup>*\<^sup>* cx3 cx4" "(ctx_step sha)\<^sup>*\<^sup>* cx4 cx5" using s(4,5) by blast+
qed

lemma demo_checked: "checked_new_entry (demo_plan p) 0 = Inr ((demo_row 0 None In_Progress 0 1))"
  by (simp add: checked_new_entry_def demo_plan_def entry_type_of_def validate_content_def validate_taskname_def validate_string_def
      strip_def lstrip_def is_space_def MAX_CONTEXT_CONTENT_CHARS_def MAX_CONTEXT_TASKNAME_CHARS_def optional_def demo_row_def)

lemma demo_row_fields [simp]:
  "en_id (demo_row i p s t r) = i" "en_type (demo_row i p s t r) = Plan" "en_plan (demo_row i p s t r) = p"
  "en_plan_status (demo_row i p s t r) = Some s" "en_revision (demo_row i p s t r) = r" "en_conv (demo_row i p s t r) = None"
  "(demo_row i p s t r)\<lparr>en_plan := p'\<rparr> = demo_row i p' s t r" "(demo_row i p s t r)\<lparr>en_id := i'\<rparr> = demo_row i' p s t r"
  "status_or_default (demo_row i p s t r) = s"
  by (simp_all add: demo_row_def status_or_default_def)

definition demo_db :: "entry list \<Rightarrow> int \<Rightarrow> ctx_db" where
  "demo_db rows n = empty_ctx\<lparr>context_entries := rows, entry_seq := n\<rparr>"

lemma demo_db_fields [simp]:
  "context_entries (demo_db rows n) = rows" "entry_seq (demo_db rows n) = n" "plan_debriefs (demo_db rows n) = []"
  "(demo_db rows n)\<lparr>context_entries := rows', entry_seq := n'\<rparr> = demo_db rows' n'"
  "(demo_db rows n)\<lparr>context_entries := rows'\<rparr> = demo_db rows' n" "(demo_db rows n)\<lparr>entry_seq := n'\<rparr> = demo_db rows n'"
  "insert_paths i PNone (demo_db rows n) = demo_db rows n"
  by (simp_all add: demo_db_def empty_ctx_def insert_paths_def extract_paths_def)

lemma cx1_value: "cx1 = demo_db [demo_row 1 None In_Progress 0 1] 1"
proof -
  have e: "empty_ctx = demo_db [] 0" by (simp add: demo_db_def empty_ctx_def)
  show ?thesis unfolding cx1_def add_entry_def commit_def add_tx_def demo_checked e
    by (simp add: checked_plan_link_def demo_plan_def insert_entry_def trim_if_needed_def MAX_CONTEXT_ENTRIES_def)
qed

lemma cx2_value: "cx2 = demo_db [demo_row 1 None In_Progress 0 1, demo_row 2 (Some 1) In_Progress 0 1] 2"
proof -
  have "plan_root (PInt 1) None cx1 = Inr (1, demo_row 1 None In_Progress 0 1)"
    by (simp add: cx1_value plan_root_def validate_plan_id_value_def require_plan_def select_def plan_root_loop.simps plan_row_def)
  then have "validate_plan_parent (PInt 1) None True cx1 = Inr 1"
    by (simp add: cx1_value validate_plan_parent_def validate_plan_id_value_def require_plan_def select_def)
  then show ?thesis unfolding cx2_def add_entry_def commit_def add_tx_def demo_checked
    by (simp add: checked_plan_link_def)
      (simp add: cx1_value demo_plan_def insert_entry_def trim_if_needed_def MAX_CONTEXT_ENTRIES_def)
qed

lemma demo_checked_update:
  assumes "status = ''cancelled'' \<or> status = ''completed'' \<or> status = ''in_progress''" "1 \<le> expected"
  shows "checked_update (demo_update status expected) = Inr \<lparr>cu_expected = expected, cu_taskname = ''task'', cu_content = None,
    cu_status = plan_status_of status, cu_debrief = None, cu_closing_only = (status = ''cancelled''), cu_append = False\<rparr>"
  using assms by (auto simp: checked_update_def demo_update_def validate_revision_def validate_taskname_def validate_string_def
      strip_def lstrip_def is_space_def MAX_CONTEXT_TASKNAME_CHARS_def optional_def checked_debrief_def plan_status_of_def Let_def)

lemmas demo_eval = update_plan_def commit_def update_plan_tx_def update_plan_apply_def update_conversation_def write_update_def
  closed_for_good_def select_def plan_status_of_def updated_row_def update_where_def

lemma cx3_value: "cx3 = demo_db [demo_row 1 None In_Progress 0 1, demo_row 2 (Some 1) Plan_Cancelled 1 2] 2"
  unfolding cx3_def by (simp add: cx2_value demo_checked_update demo_eval) (simp add: demo_row_def)

lemma cx4_value: "cx4 = demo_db [demo_row 1 None Plan_Completed 2 2, demo_row 2 (Some 1) Plan_Cancelled 1 2] 2"
proof -
  have "incomplete_descendant [demo_row 1 None In_Progress 0 1, demo_row 2 (Some 1) Plan_Cancelled 1 2] 1 = None"
    unfolding incomplete_descendant_None
    using descendant_less [of _ 1 1] ctx.reachable_inv [OF refl cx_reachable(3)] by (auto simp: cx3_value ctx_inv_def)
  then show ?thesis unfolding cx4_def by (simp add: cx3_value demo_checked_update demo_eval) (simp add: demo_row_def)
qed

lemma cx5_value: "cx5 = demo_db [demo_row 1 None Plan_Completed 2 2, demo_row 2 (Some 1) In_Progress 3 3] 2"
  unfolding cx5_def by (simp add: cx4_value demo_checked_update demo_eval) (simp add: demo_row_def)

section \<open>The plan hierarchy\<close>

lemma checked_update_fields:
  "checked_update u = Inr c \<Longrightarrow> pu_expected u = PInt (cu_expected c) \<and> cu_status c = Option.bind (pu_status u) plan_status_of"
  by (auto simp: checked_update_def Let_def validate_revision_def split: if_splits pyval.splits)

lemma ctx_reachable_inv: "(ctx_step sha)\<^sup>*\<^sup>* empty_ctx db \<Longrightarrow> ctx_inv db"
  using ctx.reachable_inv [OF refl] by blast

text \<open>
  The walk to the root on any table: what it has found is an ancestor of the start, and where it stands
  is a proper ancestor of every plan it has visited.
\<close>

definition root_outcome :: "entry list \<Rightarrow> int option \<Rightarrow> int \<Rightarrow> (int \<times> entry) option result \<Rightarrow> bool" where
  "root_outcome rows child s out \<longleftrightarrow>
     (case out of
        Inr None \<Rightarrow> plan_row rows s = None
      | Inr (Some (k, r)) \<Rightarrow> r \<in> set rows \<and> en_id r = k \<and> en_type r = Plan \<and> (child_of rows)\<^sup>*\<^sup>* k s \<and>
          (\<forall>p. en_plan r = Some p \<longrightarrow> plan_row rows p = None)
      | Inl e \<Rightarrow>
          e = ValueError ''plan parent would create a cycle'' \<and> (\<exists>c. child = Some c \<and> (child_of rows)\<^sup>*\<^sup>* c s) \<or>
          e = ValueError ''existing plan hierarchy contains a cycle'' \<and>
            (\<exists>k. (child_of rows)\<^sup>*\<^sup>* k s \<and> (child_of rows)\<^sup>+\<^sup>+ k k))"

definition walk_ok :: "entry list \<Rightarrow> int \<Rightarrow> int list \<Rightarrow> (int \<times> entry) option \<Rightarrow> int option \<Rightarrow> bool" where
  "walk_ok rows s visited found current \<longleftrightarrow>
     (\<forall>i. current = Some i \<longrightarrow> (child_of rows)\<^sup>*\<^sup>* i s \<and> (\<forall>v \<in> set visited. (child_of rows)\<^sup>+\<^sup>+ i v)) \<and>
     (case found of
        None \<Rightarrow> current = Some s
      | Some (k, r) \<Rightarrow> r \<in> set rows \<and> en_id r = k \<and> en_type r = Plan \<and> (child_of rows)\<^sup>*\<^sup>* k s \<and> en_plan r = current)"

lemma walk_ok_step:
  assumes "walk_ok rows s visited found (Some i)" "plan_row rows i = Some row"
  shows "walk_ok rows s (i # visited) (Some (i, row)) (en_plan row)"
proof -
  note r = plan_row_Some [OF assms(2)]
  have i: "(child_of rows)\<^sup>*\<^sup>* i s" "\<forall>v \<in> set visited. (child_of rows)\<^sup>+\<^sup>+ i v" using assms(1) by (simp_all add: walk_ok_def)
  have "(child_of rows)\<^sup>*\<^sup>* p s \<and> (\<forall>v \<in> set (i # visited). (child_of rows)\<^sup>+\<^sup>+ p v)" if "en_plan row = Some p" for p
  proof -
    have c: "child_of rows p i" using r that by (auto simp: child_of_def)
    then have "(child_of rows)\<^sup>*\<^sup>* p s" using i(1) by (rule converse_rtranclp_into_rtranclp)
    moreover have "(child_of rows)\<^sup>+\<^sup>+ p v" if "v \<in> set visited" for v
      using i(2) that c by (blast intro: tranclp_into_tranclp2)
    ultimately show ?thesis using c by auto
  qed
  with r i(1) show ?thesis by (simp add: walk_ok_def)
qed

lemma plan_root_loop_outcome:
  "walk_ok rows s visited found current \<Longrightarrow> root_outcome rows child s (plan_root_loop rows child visited found current)"
proof (induction rows child visited found current rule: plan_root_loop.induct)
  case (1 rows child visited found current)
  note IH = 1(1) and ok = 1(2)
  show ?case
  proof (cases current)
    case None
    then have "plan_root_loop rows child visited found current = Inr found" by (simp add: plan_root_loop.simps)
    with ok None show ?thesis by (auto simp: walk_ok_def root_outcome_def split: option.splits)
  next
    case (Some i)
    note loop = plan_root_loop.simps [of rows child visited found "Some i"]
    have i: "(child_of rows)\<^sup>*\<^sup>* i s" "\<forall>v \<in> set visited. (child_of rows)\<^sup>+\<^sup>+ i v" using ok Some by (simp_all add: walk_ok_def)
    consider (child) "child = Some i" | (cycle) "child \<noteq> Some i" "i \<in> set visited"
      | (gone) "child \<noteq> Some i" "i \<notin> set visited" "plan_row rows i = None"
      | (up) row where "child \<noteq> Some i" "i \<notin> set visited" "plan_row rows i = Some row" by (cases "plan_row rows i") auto
    then show ?thesis
    proof cases
      case child
      then have "plan_root_loop rows child visited found current = Inl (ValueError ''plan parent would create a cycle'')"
        unfolding Some by (subst loop) simp
      with child i(1) show ?thesis by (simp add: root_outcome_def)
    next
      case cycle
      then have "plan_root_loop rows child visited found current = Inl (ValueError ''existing plan hierarchy contains a cycle'')"
        unfolding Some by (subst loop) simp
      with cycle i show ?thesis by (auto simp: root_outcome_def)
    next
      case gone
      then have "plan_root_loop rows child visited found current = Inr found" unfolding Some by (subst loop) simp
      with ok Some gone show ?thesis by (auto simp: walk_ok_def root_outcome_def split: option.splits)
    next
      case (up row)
      have "walk_ok rows s (i # visited) (Some (i, row)) (en_plan row)" using walk_ok_step ok Some up(3) by blast
      from IH [OF Some up(1,2,3) this] show ?thesis unfolding Some by (subst loop) (simp add: up)
    qed
  qed
qed

text \<open>
  C26: The search for the root of a plan ends, on every table.  It ends with an ancestor of the plan that
  has no parent among the plans stored; or with the error for a plan that would be its own parent; or with the
  error for a new parent below its own child, and then the child is an ancestor of the plan or the plan
  itself; or with the error for a damaged hierarchy, and then a plan above the plan is its own
  ancestor.  In every reachable state the last error does not occur: the search from an
  existing plan, without a child to guard against, returns a root without a parent.
\<close>

theorem plan_root_total:
  assumes "require_plan v db = Inr row"
  shows "(case plan_root v child db of
      Inr (k, r) \<Rightarrow> r \<in> set (context_entries db) \<and> en_id r = k \<and> en_type r = Plan \<and>
        (child_of (context_entries db))\<^sup>*\<^sup>* k (en_id row) \<and> (\<forall>p. en_plan r = Some p \<longrightarrow> plan_row (context_entries db) p = None)
    | Inl e \<Rightarrow>
        e = ValueError ''a plan cannot be its own parent'' \<and> child = Some (en_id row) \<or>
        e = ValueError ''plan parent would create a cycle'' \<and> (\<exists>c. child = Some c \<and> (child_of (context_entries db))\<^sup>*\<^sup>* c (en_id row)) \<or>
        e = ValueError ''existing plan hierarchy contains a cycle'' \<and>
          (\<exists>k. (child_of (context_entries db))\<^sup>*\<^sup>* k (en_id row) \<and> (child_of (context_entries db))\<^sup>+\<^sup>+ k k)) \<and>
    ((ctx_step sha)\<^sup>*\<^sup>* empty_ctx db \<longrightarrow>
       (\<exists>k r. plan_root v None db = Inr (k, r) \<and> r \<in> set (context_entries db) \<and> en_id r = k \<and> en_plan r = None \<and>
          (child_of (context_entries db))\<^sup>*\<^sup>* k (en_id row)))"
proof
  let ?rows = "context_entries db" and ?i = "en_id row"
  note row = require_plan_Inr [OF assms]
  have v: "validate_plan_id_value v = Inr ?i" "require_plan (PInt ?i) db = Inr row"
    using assms row by (auto simp: require_plan_def validate_plan_id_value_def split: if_splits)
  have start: "plan_row ?rows ?i \<noteq> None" using plan_row_exists [of row ?rows ?i] row by auto
  show "case plan_root v child db of
      Inr (k, r) \<Rightarrow> r \<in> set ?rows \<and> en_id r = k \<and> en_type r = Plan \<and>
        (child_of ?rows)\<^sup>*\<^sup>* k ?i \<and> (\<forall>p. en_plan r = Some p \<longrightarrow> plan_row ?rows p = None)
    | Inl e \<Rightarrow>
        e = ValueError ''a plan cannot be its own parent'' \<and> child = Some ?i \<or>
        e = ValueError ''plan parent would create a cycle'' \<and> (\<exists>c. child = Some c \<and> (child_of ?rows)\<^sup>*\<^sup>* c ?i) \<or>
        e = ValueError ''existing plan hierarchy contains a cycle'' \<and> (\<exists>k. (child_of ?rows)\<^sup>*\<^sup>* k ?i \<and> (child_of ?rows)\<^sup>+\<^sup>+ k k)"
  proof (cases "child = Some ?i")
    case True
    then show ?thesis by (simp add: plan_root_def v)
  next
    case False
    have "root_outcome ?rows child ?i (plan_root_loop ?rows child [] None (Some ?i))"
      by (rule plan_root_loop_outcome) (simp add: walk_ok_def)
    then show ?thesis using False start
      by (cases "plan_root_loop ?rows child [] None (Some ?i)") (auto simp: plan_root_def v root_outcome_def split: option.splits)
  qed
  show "(ctx_step sha)\<^sup>*\<^sup>* empty_ctx db \<longrightarrow>
       (\<exists>k r. plan_root v None db = Inr (k, r) \<and> r \<in> set ?rows \<and> en_id r = k \<and> en_plan r = None \<and> (child_of ?rows)\<^sup>*\<^sup>* k ?i)"
  proof
    assume "(ctx_step sha)\<^sup>*\<^sup>* empty_ctx db"
    then have ok: "rows_ok (entry_seq db) ?rows" using ctx_reachable_inv by (auto simp: ctx_inv_def)
    obtain k r where loop: "plan_root_loop ?rows None [] None (Some ?i) = Inr (Some (k, r))"
      "r \<in> set ?rows" "en_id r = k" "en_plan r = None" "(child_of ?rows)\<^sup>*\<^sup>* k ?i"
      using plan_root_loop_total [OF ok, of row ?i "[]" None] row by auto
    then have "plan_root v None db = Inr (k, r)" by (simp add: plan_root_def v)
    with loop show "\<exists>k r. plan_root v None db = Inr (k, r) \<and> r \<in> set ?rows \<and> en_id r = k \<and> en_plan r = None \<and> (child_of ?rows)\<^sup>*\<^sup>* k ?i"
      by blast
  qed
qed

theorem plan_root_total_witness:
  "\<exists>k r. plan_root (PInt 2) None cx2 = Inr (k, r) \<and> r \<in> set (context_entries cx2) \<and> en_id r = k \<and> en_plan r = None \<and>
    (child_of (context_entries cx2))\<^sup>*\<^sup>* k 2"
proof -
  have "require_plan (PInt 2) cx2 = Inr (demo_row 2 (Some 1) In_Progress 0 1)"
    by (simp add: cx2_value require_plan_def validate_plan_id_value_def select_def)
  from plan_root_total [OF this] cx_reachable(2) show ?thesis by (metis demo_row_fields(1))
qed

text \<open>The other outcomes occur: a table whose two plans are each other's parent, and a parent below its own child.\<close>

lemma plan_root_cycles:
  "plan_root (PInt 2) None (demo_db [demo_row 1 (Some 2) In_Progress 0 1, demo_row 2 (Some 1) In_Progress 0 1] 2) =
     Inl (ValueError ''existing plan hierarchy contains a cycle'')"
  "plan_root (PInt 2) (Some 1) cx2 = Inl (ValueError ''plan parent would create a cycle'')"
  by (simp_all add: cx2_value plan_root_def validate_plan_id_value_def require_plan_def select_def plan_root_loop.simps plan_row_def)

text \<open>
  C27: References between entries never dangle.  In every reachable state the entries are stored under
  increasing ids, the plan an entry refers to exists, is a plan and is older than the entry, no plan
  is its own descendant, a debrief belongs to a completed plan, the conversation of an entry exists, and every
  row of the path table is a path of a stored entry, recorded once.
\<close>

theorem context_references_ok:
  assumes "(ctx_step sha)\<^sup>*\<^sup>* empty_ctx db"
  shows "sorted_wrt (<) (map en_id (context_entries db)) \<and>
    (\<forall>r \<in> set (context_entries db). \<forall>p. en_plan r = Some p \<longrightarrow>
       p < en_id r \<and> (\<exists>q \<in> set (context_entries db). en_id q = p \<and> en_type q = Plan)) \<and>
    \<not> (child_of (context_entries db))\<^sup>+\<^sup>+ i i \<and>
    (\<forall>d \<in> set (plan_debriefs db). \<exists>r \<in> set (context_entries db). en_id r = db_plan d \<and> en_plan_status r = Some Plan_Completed) \<and>
    (\<forall>r \<in> set (context_entries db). \<forall>c. en_conv r = Some c \<longrightarrow> c \<in> cv_id ` set (conversations db)) \<and>
    (\<forall>(e, path) \<in> set (context_entry_paths db). \<exists>r \<in> set (context_entries db). en_id r = e) \<and>
    distinct (context_entry_paths db)"
proof -
  note inv = ctx_invD [OF ctx_reachable_inv [OF assms]]
  have "\<not> (child_of (context_entries db))\<^sup>+\<^sup>+ i i" using descendant_less [OF _ inv(1)] by blast
  moreover have "p < en_id r \<and> (\<exists>q \<in> set (context_entries db). en_id q = p \<and> en_type q = Plan)"
    if "r \<in> set (context_entries db)" "en_plan r = Some p" for r p
    using inv(1) that unfolding rows_ok_def link_ok_def by blast
  moreover have "\<exists>r \<in> set (context_entries db). en_id r = e" if "(e, path) \<in> set (context_entry_paths db)" for e path
    using inv(8) that unfolding paths_ok_def by force
  moreover have "sorted_wrt (<) (map en_id (context_entries db))" using inv(1) unfolding rows_ok_def by blast
  moreover have "\<exists>r \<in> set (context_entries db). en_id r = db_plan d \<and> en_plan_status r = Some Plan_Completed"
    if "d \<in> set (plan_debriefs db)" for d using inv(2) that unfolding debriefs_ok_def by blast
  moreover have "c \<in> cv_id ` set (conversations db)" if "r \<in> set (context_entries db)" "en_conv r = Some c" for r c
    using inv(3) that unfolding conv_links_ok_def by blast
  moreover have "distinct (context_entry_paths db)" using inv(8) unfolding paths_ok_def by blast
  ultimately show ?thesis by (simp only: split_paired_Ball_Sigma split_beta) auto
qed

text \<open>A history with a path: an operation that read a file.\<close>

definition demo_operation :: new_entry where
  "demo_operation = \<lparr>ne_type = ''operation'', ne_content = PStr ''read'', ne_taskname = PStr ''task'', ne_actor = PNone,
     ne_operation = Some ''fs.read'', ne_status = Some ''running'', ne_plan_status = None, ne_plan = PNone,
     ne_request = PDict [(''path'', PStr ''src/a.py'')], ne_require_in_progress = False\<rparr>"

definition demo_operation_row :: entry where
  "demo_operation_row = \<lparr>en_id = 0, en_created = 0, en_updated = 0, en_type = Operation, en_content = ''read'',
     en_operation = Some ''fs.read'', en_status = Some Op_Running, en_summary = None, en_actor = None,
     en_request = Some (PDict [(''path'', PStr ''src/a.py'')]), en_result = None,
     en_taskname = ''task'', en_plan_status = None, en_plan = None, en_conv = None, en_revision = 1\<rparr>"

lemma demo_operation_checked: "checked_new_entry demo_operation 0 = Inr demo_operation_row"
  by (simp add: checked_new_entry_def demo_operation_def demo_operation_row_def entry_type_of_def op_status_of_def validate_content_def
      validate_taskname_def validate_string_def strip_def lstrip_def is_space_def MAX_CONTEXT_CONTENT_CHARS_def
      MAX_CONTEXT_TASKNAME_CHARS_def MAX_CONTEXT_OPERATION_MESSAGE_CHARS_def optional_def)

definition cx_paths :: ctx_db where "cx_paths = snd (add_entry demo_operation 0 empty_ctx)"

lemma demo_normpath: "strip ''src/a.py'' = ''src/a.py''" "normpath ''src/a.py'' = ''src/a.py''"
  by code_simp+

lemma cx_paths_value: "context_entry_paths cx_paths = [(1, ''src/a.py'')]"
  unfolding cx_paths_def add_entry_def commit_def add_tx_def demo_operation_checked
  by (simp add: checked_plan_link_def demo_operation_def insert_entry_def trim_if_needed_def MAX_CONTEXT_ENTRIES_def
      insert_paths_def extract_paths_def CONTEXT_PATH_KEYS_def dict_get_def candidates_def path_of_def empty_ctx_def normalize_path_def demo_normpath MAX_CONTEXT_PATH_CHARS_def)

theorem context_references_ok_witness:
  "\<exists>r \<in> set (context_entries cx_paths). en_id r = 1"
proof -
  have "(ctx_step id)\<^sup>*\<^sup>* empty_ctx cx_paths" unfolding cx_paths_def by (rule r_into_rtranclp, rule ctx_step.add)
  from context_references_ok [OF this, of 1] show ?thesis unfolding cx_paths_value by auto
qed

section \<open>Completion\<close>

text \<open>
  C28: Completion is final.  Once a plan is completed no operation changes its entry again: in every
  later state the entry is the same or gone (trimmed).
\<close>

theorem completed_plan_final:
  assumes "(ctx_step sha)\<^sup>*\<^sup>* empty_ctx db" "r \<in> set (context_entries db)" "en_plan_status r = Some Plan_Completed"
    and "(ctx_step sha)\<^sup>*\<^sup>* db db'" "r' \<in> set (context_entries db')" "en_id r' = en_id r"
  shows "r' = r"
proof -
  note inv = ctx_invD [OF ctx_reachable_inv [OF assms(1)]]
  have "ctx_later db db'" by (rule ctx.reachable_later [OF refl assms(1,4)])
  moreover have "en_id r' \<le> entry_seq db" using rows_okD(2) [OF inv(1) assms(2)] assms(6) by simp
  ultimately obtain q where q: "q \<in> set (context_entries db)" "row_later q r'"
    using assms(5) unfolding ctx_later_def rows_later_def by blast
  then have "en_id q = en_id r" using assms(6) by (simp add: row_later_def)
  then have "q = r" using key_unique [OF inv(7) q(1) assms(2)] by blast
  with q(2) assms(3) show ?thesis by (simp add: row_later_def)
qed

theorem completed_plan_final_witness: "hd (context_entries cx5) = hd (context_entries cx4)"
  by (rule completed_plan_final [OF cx_reachable(4) _ _ cx_reachable(7)]) (simp_all add: cx4_value cx5_value)

text \<open>
  C29: A plan is completed only when nothing below it is open.  When an update completes a plan, no
  descendant of the plan, at any depth, is in progress, and the plan itself was not completed before
  and had the expected revision.
\<close>

theorem plan_completion_closes_descendants:
  assumes "update_plan i u t0 t1 t2 db = (Inr p, db')" "pu_status u = Some ''completed''"
    and "r \<in> set (context_entries db)" "(child_of (context_entries db))\<^sup>+\<^sup>+ i (en_id r)"
  shows "status_or_default r \<noteq> In_Progress \<and>
    (\<exists>q. select en_id i (context_entries db) = Some q \<and> en_plan_status q \<noteq> Some Plan_Completed \<and> pu_expected u = PInt (en_revision q))"
proof -
  from assms(1) have "update_plan_tx i u False t0 t1 t2 db = Inr (p, db')" by (simp add: update_plan_def commit_Inr)
  then obtain c where c: "checked_update u = Inr c" and a: "update_plan_apply i u c t0 t1 t2 db = Inr (p, db')"
    by (auto simp: update_plan_tx_def)
  have st: "cu_status c = Some Plan_Completed" and e: "pu_expected u = PInt (cu_expected c)"
    using checked_update_fields [OF c] assms(2) by (simp_all add: plan_status_of_def)
  from a show ?thesis
  proof (cases rule: update_plan_apply_cases)
    case (1 row conv appended db1)
    from 1(5) [OF st] have "status_or_default r \<noteq> In_Progress" using incomplete_descendant_None assms(3,4) by blast
    with 1(1,3,4) e show ?thesis by (auto simp: closed_for_good_def)
  qed
qed

lemma cx3_child: "(child_of (context_entries cx3))\<^sup>+\<^sup>+ 1 (en_id (demo_row 2 (Some 1) Plan_Cancelled 1 2))"
  by (rule tranclp.r_into_trancl) (auto simp: child_of_def cx3_value)

theorem plan_completion_closes_descendants_witness: "status_or_default (demo_row 2 (Some 1) Plan_Cancelled 1 2) \<noteq> In_Progress"
proof -
  have "\<exists>p. update_plan 1 (demo_update ''completed'' 1) 2 2 2 cx3 = (Inr p, cx4)"
  proof -
    have "incomplete_descendant [demo_row 1 None In_Progress 0 1, demo_row 2 (Some 1) Plan_Cancelled 1 2] 1 = None"
      unfolding incomplete_descendant_None
      using descendant_less [of _ 1 1] ctx_reachable_inv [OF cx_reachable(3)] by (auto simp: cx3_value ctx_inv_def)
    then show ?thesis unfolding cx4_def by (simp add: cx3_value demo_checked_update demo_eval)
  qed
  then obtain p where "update_plan 1 (demo_update ''completed'' 1) 2 2 2 cx3 = (Inr p, cx4)" ..
  moreover have "demo_row 2 (Some 1) Plan_Cancelled 1 2 \<in> set (context_entries cx3)" by (simp add: cx3_value)
  ultimately show ?thesis
    using plan_completion_closes_descendants [OF _ _ _ cx3_child] by (simp add: demo_update_def)
qed

text \<open>
  A cancelled plan can be reopened below a completed one.  The check is made only when a plan is
  completed; a descendant that was cancelled can still be set back to in progress, after which the
  completed plan has an open descendant.
\<close>

theorem completed_plan_reopened_below:
  "\<exists>db. (ctx_step sha)\<^sup>*\<^sup>* empty_ctx db \<and>
    (\<exists>r \<in> set (context_entries db). \<exists>q \<in> set (context_entries db). en_plan_status r = Some Plan_Completed \<and>
       child_of (context_entries db) (en_id r) (en_id q) \<and> en_plan_status q = Some In_Progress)"
proof (intro exI conjI)
  show "(ctx_step sha)\<^sup>*\<^sup>* empty_ctx cx5" by (rule cx_reachable(5))
  show "\<exists>r \<in> set (context_entries cx5). \<exists>q \<in> set (context_entries cx5). en_plan_status r = Some Plan_Completed \<and>
       child_of (context_entries cx5) (en_id r) (en_id q) \<and> en_plan_status q = Some In_Progress"
    by (simp add: cx5_value child_of_def)
qed

section \<open>Revisions\<close>

text \<open>
  No update is lost.  An update of a plan names the revision it was based on.  Of all updates
  that name the same revision at most one succeeds: after a successful one, whatever happens in
  between, a second update with the same expected revision fails.
\<close>

theorem plan_update_optimistic:
  assumes "(ctx_step sha)\<^sup>*\<^sup>* empty_ctx db" "update_plan i u t0 t1 t2 db = (Inr p, db1)"
    and "(ctx_step sha)\<^sup>*\<^sup>* db1 db2" "pu_expected u' = pu_expected u"
  shows "\<exists>e. update_plan i u' t0' t1' t2' db2 = (Inl e, db2)"
proof (rule ccontr)
  assume no: "\<not> ?thesis"
  note inv = ctx_reachable_inv [OF assms(1)]
  have st: "ctx_step sha db db1" using ctx_step.update_plan [of sha db i u t0 t1 t2] assms(2) by simp
  have "(ctx_step sha)\<^sup>*\<^sup>* empty_ctx db1" using rtranclp.rtrancl_into_rtrancl [OF assms(1) st] .
  note inv1 = ctx_reachable_inv [OF this]
  from assms(2) obtain c where c: "checked_update u = Inr c" and a: "update_plan_apply i u c t0 t1 t2 db = Inr (p, db1)"
    by (auto simp: update_plan_def commit_Inr update_plan_tx_def)
  obtain r1 where r1: "r1 \<in> set (context_entries db1)" "en_id r1 = i" "en_revision r1 = cu_expected c + 1" "en_type r1 = Plan"
    using a
  proof (cases rule: update_plan_apply_cases)
    case (1 row conv appended db0)
    have row: "row \<in> set (context_entries db)" "en_id row = i" using select_Some [OF 1(1)] by simp_all
    have "context_entries db0 = context_entries db"
      using update_conversation_Inr [OF 1(6) inv row(1)] ctx_fields_more by blast
    then have "updated_row c conv t1 row \<in> set (context_entries db1)"
      using write_update_Inr [OF 1(7)] row 1(2,3) by (auto simp: set_update_where intro!: image_eqI [of _ _ row])
    with row(2) 1(2) that show thesis by (simp add: updated_row_def)
  qed
  obtain p' db3 where "update_plan i u' t0' t1' t2' db2 = (Inr p', db3)"
    using no by (cases "update_plan i u' t0' t1' t2' db2"; cases "fst (update_plan i u' t0' t1' t2' db2)")
      (auto simp: update_plan_def commit_def split: sum.splits)
  then obtain c' where c': "checked_update u' = Inr c'" and a': "update_plan_apply i u' c' t0' t1' t2' db2 = Inr (p', db3)"
    by (auto simp: update_plan_def commit_Inr update_plan_tx_def)
  have "cu_expected c' = cu_expected c"
    using checked_update_fields [OF c] checked_update_fields [OF c'] assms(4) by simp
  with a' obtain r2 where r2: "r2 \<in> set (context_entries db2)" "en_id r2 = i" "en_revision r2 = cu_expected c"
    by (cases rule: update_plan_apply_cases) (auto dest: select_Some)
  have "ctx_later db1 db2" by (rule ctx.steps_later [OF assms(3) inv1])
  moreover have "en_id r2 \<le> entry_seq db1" using rows_okD(2) [OF ctx_invD(1) [OF inv1] r1(1)] r1(2) r2(2) by simp
  ultimately obtain q where q: "q \<in> set (context_entries db1)" "row_later q r2" using r2(1) unfolding ctx_later_def rows_later_def by blast
  then have "q = r1" using key_unique [OF ctx_invD(7) [OF inv1] q(1) r1(1)] r1(2) r2(2) by (simp add: row_later_def)
  with q(2) r1(3) r2(3) show False by (simp add: row_later_def)
qed

theorem plan_update_optimistic_witness:
  "\<exists>e. update_plan 2 (demo_update ''in_progress'' 1) 9 9 9 cx5 = (Inl e, cx5)"
proof -
  have "\<exists>p. update_plan 2 (demo_update ''cancelled'' 1) 1 1 1 cx2 = (Inr p, cx3)"
    unfolding cx3_def by (simp add: cx2_value demo_checked_update demo_eval)
  then obtain p where p: "update_plan 2 (demo_update ''cancelled'' 1) 1 1 1 cx2 = (Inr p, cx3)" ..
  have "(ctx_step id)\<^sup>*\<^sup>* cx3 cx5" by (rule rtranclp_trans [OF cx_reachable(6,7)])
  from plan_update_optimistic [OF cx_reachable(2) p this, of "demo_update ''in_progress'' 1" 9 9 9]
  show ?thesis by (simp add: demo_update_def)
qed

section \<open>The conversation log\<close>

definition demo_entries :: pyval where
  "demo_entries = PList [PDict [(''role'', PStr ''user''), (''content'', PStr ''q'')], PDict [(''role'', PStr ''ai''), (''content'', PStr ''a'')]]"

definition demo_note :: pyval where
  "demo_note = PList [PDict [(''role'', PStr ''user''), (''content'', PStr ''n'')]]"

definition cc1 :: ctx_db where
  "cc1 = snd (create_conversation id (PInt 0) demo_entries (Some (PStr ''k'')) (PStr ''me'') ''@aaaa@'' 0 0 empty_ctx)"

definition cc2 :: ctx_db where
  "cc2 = snd (append_conversation (PInt 0) (PStr ''@aaaa@'') demo_note False 5 cc1)"

lemma cc_reachable:
  "(ctx_step id)\<^sup>*\<^sup>* empty_ctx cc1" "(ctx_step id)\<^sup>*\<^sup>* empty_ctx cc2" "(ctx_step id)\<^sup>*\<^sup>* cc1 cc2"
proof -
  have s: "ctx_step id empty_ctx cc1" "ctx_step id cc1 cc2"
    unfolding cc1_def cc2_def by (rule ctx_step.create_conversation ctx_step.append_conversation)+
  then show "(ctx_step id)\<^sup>*\<^sup>* empty_ctx cc1" "(ctx_step id)\<^sup>*\<^sup>* empty_ctx cc2" "(ctx_step id)\<^sup>*\<^sup>* cc1 cc2"
    by (auto intro: rtranclp.rtrancl_into_rtrancl)
qed

lemma demo_items: "normalize_entries demo_entries 2 True False = Inr [(User, ''q''), (Ai, ''a'')]"
  by (simp add: normalize_entries_def demo_entries_def normalize_entry_def same_keys_def dict_has_def dict_get_def role_of_def
      strip_def lstrip_def is_space_def MAX_CONVERSATION_CONTENT_CHARS_def MAX_CONVERSATION_QUERY_LIMIT_def initial_pair_def)

lemma demo_note_item: "normalize_entries demo_note 1 False False = Inr [(User, ''n'')]"
  by (simp add: normalize_entries_def demo_note_def normalize_entry_def same_keys_def dict_has_def dict_get_def role_of_def
      strip_def lstrip_def is_space_def MAX_CONVERSATION_CONTENT_CHARS_def MAX_CONVERSATION_QUERY_LIMIT_def)

definition demo_conv_entry :: "int \<Rightarrow> instant \<Rightarrow> role \<Rightarrow> string \<Rightarrow> conv_entry" where
  "demo_conv_entry sub_id t r s = \<lparr>ce_conv = 0, ce_sub = sub_id, ce_created = t, ce_role = r, ce_content = s\<rparr>"

lemma demo_append_first:
  "append_locked 0 [(User, ''q''), (Ai, ''a'')] 0 (empty_ctx\<lparr>conversations := [c]\<rparr>) =
    Inr ([demo_conv_entry 1 0 User ''q'', demo_conv_entry 2 0 Ai ''a''],
      empty_ctx\<lparr>conversations := [c], conversation_entries := [demo_conv_entry 1 0 User ''q'', demo_conv_entry 2 0 Ai ''a'']\<rparr>)"
  by (simp add: append_locked_def entries_of_def conversation_summary_status_def empty_ctx_def
      CONVERSATION_SUMMARY_REQUIRED_AFTER_def CONVERSATION_SUMMARY_PROMPT_AFTER_def demo_conv_entry_def)

lemma cc1_tables:
  "conversations cc1 = [\<lparr>cv_id = 0, cv_created = 0, cv_nonce = ''@aaaa@''\<rparr>]"
  "conversation_entries cc1 = [demo_conv_entry 1 0 User ''q'', demo_conv_entry 2 0 Ai ''a'']"
  "\<exists>r. create_conversation id (PInt 0) demo_entries (Some (PStr ''k'')) (PStr ''me'') ''@aaaa@'' 0 0 empty_ctx = (Inr r, cc1)"
proof -
  have actor: "optional validate_actor_id (PStr ''me'') = Inr (Some ''me'')"
    by (simp add: optional_def validate_actor_id_def validate_string_def strip_def lstrip_def is_space_def MAX_CONTEXT_ACTOR_ID_CHARS_def)
  have key: "key_pattern 127 ''k''" by (simp add: key_pattern_def ascii_alnum_def)
  have e: "conversations empty_ctx = []" "conversation_create_requests empty_ctx = []" by (simp_all add: empty_ctx_def)
  have "\<exists>r. create_conversation_tx id (PInt 0) demo_entries (Some (PStr ''k'')) (Some ''me'') ''@aaaa@'' 0 0 empty_ctx = Inr (r, cc1) \<and>
      conversations cc1 = [\<lparr>cv_id = 0, cv_created = 0, cv_nonce = ''@aaaa@''\<rparr>] \<and>
      conversation_entries cc1 = [demo_conv_entry 1 0 User ''q'', demo_conv_entry 2 0 Ai ''a'']"
    unfolding cc1_def create_conversation_def commit_def
    by (simp add: actor create_conversation_tx_def validate_conversation_id_def demo_items key create_keyed_def e select_def
        MAX_CONVERSATION_CREATE_REQUESTS_def insert_conversation_def next_conversation_id_def demo_append_first Let_def)
  then show "conversations cc1 = [\<lparr>cv_id = 0, cv_created = 0, cv_nonce = ''@aaaa@''\<rparr>]"
    "conversation_entries cc1 = [demo_conv_entry 1 0 User ''q'', demo_conv_entry 2 0 Ai ''a'']"
    "\<exists>r. create_conversation id (PInt 0) demo_entries (Some (PStr ''k'')) (PStr ''me'') ''@aaaa@'' 0 0 empty_ctx = (Inr r, cc1)"
    by (auto simp: create_conversation_def commit_def actor)
qed

lemma demo_verify: "verify_writer_nonce (PInt 0) (PStr ''@aaaa@'') cc1 = Inr 0"
  by (simp add: verify_writer_nonce_def validate_conversation_id_def validate_writer_nonce_def valid_nonce_def ascii_alnum_def
      cc1_tables select_def)

lemma demo_append:
  "append_conversation_tx (PInt 0) (PStr ''@aaaa@'') demo_note False 5 cc1 =
    Inr ([demo_conv_entry 3 5 User ''n''], cc1\<lparr>conversation_entries := conversation_entries cc1 @ [demo_conv_entry 3 5 User ''n'']\<rparr>)"
proof -
  have "append_locked 0 [(User, ''n'')] 5 cc1 =
      Inr ([demo_conv_entry 3 5 User ''n''], cc1\<lparr>conversation_entries := conversation_entries cc1 @ [demo_conv_entry 3 5 User ''n'']\<rparr>)"
    by (simp add: append_locked_def entries_of_def conversation_summary_status_def cc1_tables demo_conv_entry_def sql_max_def
        CONVERSATION_SUMMARY_REQUIRED_AFTER_def Let_def)
  then show ?thesis unfolding append_conversation_tx_def demo_verify demo_note_item andThen_simps .
qed

lemma cc2_entries: "conversation_entries cc2 = conversation_entries cc1 @ [demo_conv_entry 3 5 User ''n'']"
  unfolding cc2_def append_conversation_def commit_def demo_append by (simp add: validate_conversation_id_def)

text \<open>
  C30: Conversations are numbered without gaps.  In every reachable state the conversation ids are
  0, 1, 2, ... in order of creation, the entries of each conversation are numbered 1, 2, 3, ...
  without a gap, each conversation opens with a user entry and an ai entry, and at most 49 user or ai
  entries follow its latest summary.
\<close>

theorem conversation_log_wellformed:
  assumes "(ctx_step sha)\<^sup>*\<^sup>* empty_ctx db"
  shows "map cv_id (conversations db) = map int [0..<length (conversations db)] \<and>
    map ce_sub (entries_of cid db) = map int [1..<Suc (length (entries_of cid db))] \<and>
    ss_count (conversation_summary_status cid db) \<le> 49 \<and>
    ss_count (conversation_summary_status cid db) = open_count (entries_of cid db) \<and>
    (\<forall>c \<in> set (conversations db). map ce_role (take 2 (entries_of (cv_id c) db)) = [User, Ai])"
proof -
  have "conv_wf db" using ctx_reachable_inv [OF assms] by (simp add: ctx_inv_def)
  then have ids: "conv_ids_ok db" and es: "conv_entries_ok db" by (simp_all add: conv_wf_def)
  then have n: "numbered (entries_of cid db)" "open_count (entries_of cid db) \<le> 49"
    by (simp_all add: conv_entries_ok_def CONVERSATION_SUMMARY_REQUIRED_AFTER_def)
  with ids es status_count [OF n(1)] show ?thesis by (simp add: conv_ids_ok_def conv_entries_ok_def numbered_def)
qed

theorem conversation_log_wellformed_witness:
  "map ce_sub (entries_of 0 cc2) = map int [1..<Suc (length (entries_of 0 cc2))] \<and> length (entries_of 0 cc2) = 3"
  using conversation_log_wellformed [OF cc_reachable(2), of 0]
  by (simp add: entries_of_def cc2_entries cc1_tables demo_conv_entry_def)

text \<open>
  The log is append-only, and only the holder of the nonce appends.  A later state keeps every
  conversation and every entry in place and only adds behind them; an append succeeds only with the
  writer nonce that was issued when the conversation was created.
\<close>

theorem conversation_append_only:
  assumes "(ctx_step sha)\<^sup>*\<^sup>* empty_ctx db" "(ctx_step sha)\<^sup>*\<^sup>* db db'"
  shows "prefix (conversations db) (conversations db') \<and> prefix (conversation_entries db) (conversation_entries db') \<and>
    (\<forall>v nonce es ai now out db''. append_conversation v nonce es ai now db' = (Inr out, db'') \<longrightarrow>
       (\<exists>c \<in> set (conversations db'). v = PInt (cv_id c) \<and> nonce = PStr (cv_nonce c) \<and>
         entries_of (cv_id c) db'' = entries_of (cv_id c) db' @ fst (snd out)))"
proof (intro conjI allI impI)
  have "log_extends db db'" using ctx.reachable_later [OF refl assms] by (simp add: ctx_later_def)
  then show "prefix (conversations db) (conversations db')" "prefix (conversation_entries db) (conversation_entries db')"
    by (simp_all add: log_extends_def)
next
  fix v nonce es ai now out db''
  assume "append_conversation v nonce es ai now db' = (Inr out, db'')"
  then obtain cid items where v: "verify_writer_nonce v nonce db' = Inr cid" and a: "append_locked cid items now db' = Inr (fst (snd out), db'')"
    by (auto simp: append_conversation_def commit_Inr append_conversation_tx_def)
  from verify_writer_nonce_Inr [OF v] append_locked_entries [OF a, of cid]
  show "\<exists>c \<in> set (conversations db'). v = PInt (cv_id c) \<and> nonce = PStr (cv_nonce c) \<and>
         entries_of (cv_id c) db'' = entries_of (cv_id c) db' @ fst (snd out)" by auto
qed

theorem conversation_append_only_witness: "prefix (conversation_entries cc1) (conversation_entries cc2)"
  using conversation_append_only [OF cc_reachable(1,3)] by blast

section \<open>Retries\<close>

text \<open>
  C31: A conversation is created once per request id.  After a creation under a request id has
  succeeded, whatever happens in between, another creation by the same actor under that id either
  fails or returns the first answer, marked as replayed, and changes nothing: no second conversation
  is created, and the same request is needed.
\<close>

theorem conversation_request_at_most_once:
  assumes "(ctx_step sha)\<^sup>*\<^sup>* empty_ctx db" "conv_receipt_of db (a, key) = None" "optional validate_actor_id av = Inr (Some a)"
    and "create_conversation sha v es (Some (PStr key)) av nonce t1 t2 db = (Inr r, db1)"
    and "(ctx_step sha)\<^sup>*\<^sup>* db1 db2"
    and "create_conversation sha v' es' (Some (PStr key)) av nonce' t1' t2' db2 = (Inr r', db3)"
  shows "db3 = db2 \<and> r' = r\<lparr>rc_replayed := Some True\<rparr> \<and> rc_nonce r' = nonce"
proof -
  have st: "ctx_step sha db db1" using ctx_step.create_conversation [of sha db v es "Some (PStr key)" av nonce t1 t2] assms(4) by simp
  have inv1: "ctx_inv db1" by (rule ctx_reachable_inv [OF rtranclp.rtrancl_into_rtrancl [OF assms(1) st]])
  have key: "\<exists>cid items. keyed_conversation sha (a, key) (cid, items, n, s1, s2) s = Inr (x, s')"
    if "create_conversation sha w ws (Some (PStr key)) av n s1 s2 s = (Inr x, s')" for w ws n s1 s2 x and s s' :: ctx_db
  proof -
    from that assms(3) have "create_conversation_tx sha w ws (Some (PStr key)) (Some a) n s1 s2 s = Inr (x, s')"
      by (simp add: create_conversation_def commit_Inr)
    then show ?thesis by (cases rule: create_conversation_cases) (auto simp: keyed_conversation_def)
  qed
  obtain cid items where k: "keyed_conversation sha (a, key) (cid, items, nonce, t1, t2) db = Inr (r, db1)" using key [OF assms(4)] by blast
  obtain cid' items' where k': "keyed_conversation sha (a, key) (cid', items', nonce', t1', t2') db2 = Inr (r', db3)" using key [OF assms(6)] by blast
  have "db3 = db2 \<and> r' = r\<lparr>rc_replayed := Some True\<rparr>"
    using conv_ledger.at_most_once [OF assms(2) k ctx_inv_steps [OF assms(5) inv1] k'] by blast
  moreover have "rc_nonce r = nonce"
  proof -
    from k have "create_keyed (sha (json_text (create_request_json cid items))) cid items key a nonce t1 t2 db = Inr (r, db1)"
      by (simp add: keyed_conversation_def)
    then show ?thesis
      by (cases rule: create_keyed_cases) (use assms(2) in \<open>auto simp: conv_receipt_of_def elim: insert_conversation_Inr\<close>)
  qed
  ultimately show ?thesis by simp
qed

theorem conversation_request_at_most_once_witness:
  "\<exists>r. create_conversation id (PInt 0) demo_entries (Some (PStr ''k'')) (PStr ''me'') ''@bbbb@'' 7 7 cc2 = (Inr r, cc2) \<and>
    rc_nonce r = ''@aaaa@''"
proof -
  have actor: "optional validate_actor_id (PStr ''me'') = Inr (Some ''me'')"
    by (simp add: optional_def validate_actor_id_def validate_string_def strip_def lstrip_def is_space_def MAX_CONTEXT_ACTOR_ID_CHARS_def)
  have none: "conv_receipt_of empty_ctx (''me'', ''k'') = None" by (simp add: conv_receipt_of_def empty_ctx_def select_def)
  obtain r where r: "create_conversation id (PInt 0) demo_entries (Some (PStr ''k'')) (PStr ''me'') ''@aaaa@'' 0 0 empty_ctx = (Inr r, cc1)"
    using cc1_tables(3) by blast
  note once = conversation_request_at_most_once [OF rtranclp.rtrancl_refl none actor r cc_reachable(3)]
  have inv1: "ctx_inv cc1" by (rule ctx_reachable_inv [OF cc_reachable(1)])
  have "\<exists>x. create_conversation id (PInt 0) demo_entries (Some (PStr ''k'')) (PStr ''me'') ''@bbbb@'' 7 7 cc2 = (Inr x, cc2)"
  proof -
    from r actor have "create_conversation_tx id (PInt 0) demo_entries (Some (PStr ''k'')) (Some ''me'') ''@aaaa@'' 0 0 empty_ctx = Inr (r, cc1)"
      by (simp add: create_conversation_def commit_Inr)
    then have "create_keyed (json_text (create_request_json 0 [(User, ''q''), (Ai, ''a'')])) 0 [(User, ''q''), (Ai, ''a'')] ''k'' ''me''
        ''@aaaa@'' 0 0 empty_ctx = Inr (r, cc1)"
      by (cases rule: create_conversation_cases) (simp_all add: demo_items)
    then have "keyed_conversation id (''me'', ''k'') (0, [(User, ''q''), (Ai, ''a'')], ''@aaaa@'', 0, 0) empty_ctx = Inr (r, cc1)"
      by (simp add: keyed_conversation_def)
    then have "conv_receipt_of cc1 (''me'', ''k'') = Some (json_text (create_request_json 0 [(User, ''q''), (Ai, ''a'')]), r)"
      using conv_ledger.executed [OF none] by fastforce
    then have "conv_receipt_of cc2 (''me'', ''k'') = Some (json_text (create_request_json 0 [(User, ''q''), (Ai, ''a'')]), r)"
      using conv_ledger.kept_steps [OF ctx_inv_steps [OF cc_reachable(3) inv1]] by blast
    then obtain q where q: "select request_key (''me'', ''k'') (conversation_create_requests cc2) = Some q"
      "cq_fingerprint q = json_text (create_request_json 0 [(User, ''q''), (Ai, ''a'')])" "cq_response q = r"
      by (auto simp: conv_receipt_of_def)
    have "prefix (conversations cc1) (conversations cc2)"
      using ctx.reachable_later [OF refl cc_reachable(1,3)] by (simp add: ctx_later_def log_extends_def)
    then have c: "select cv_id 0 (conversations cc2) = Some \<lparr>cv_id = 0, cv_created = 0, cv_nonce = ''@aaaa@''\<rparr>"
      by (rule select_prefix) (simp add: cc1_tables select_def)
    have "rc_nonce r = ''@aaaa@''"
      using \<open>create_keyed (json_text (create_request_json 0 [(User, ''q''), (Ai, ''a'')])) 0 [(User, ''q''), (Ai, ''a'')] ''k'' ''me''
        ''@aaaa@'' 0 0 empty_ctx = Inr (r, cc1)\<close>
      by (cases rule: create_keyed_cases) (auto simp: select_def empty_ctx_def elim: insert_conversation_Inr)
    with q c show ?thesis
      by (simp add: create_conversation_def commit_def actor create_conversation_tx_def validate_conversation_id_def demo_items
          key_pattern_def ascii_alnum_def create_keyed_def replay_conversation_def)
  qed
  then obtain x where x: "create_conversation id (PInt 0) demo_entries (Some (PStr ''k'')) (PStr ''me'') ''@bbbb@'' 7 7 cc2 = (Inr x, cc2)" ..
  from once [OF this] x show ?thesis by blast
qed

section \<open>Creating plans\<close>

lemma length_distinct_key: "distinct (map key rows) \<Longrightarrow> length rows = card (key ` set rows)"
  by (metis distinct_card length_map set_map)

lemma trimmed_ids_candidate:
  assumes "distinct (map en_id rows)" "r \<in> set rows" "en_id r \<in> set (trimmed_ids keep rows)"
  shows "trim_candidate keep rows r"
proof -
  have "en_id r \<in> en_id ` set (filter (trim_candidate keep rows) rows)"
    using assms(3) unfolding trimmed_ids_def by (metis in_set_takeD set_sort set_map)
  then obtain q where "q \<in> set rows" "trim_candidate keep rows q" "en_id q = en_id r" by auto
  with key_unique [OF assms(1) this(1) assms(2)] show ?thesis by simp
qed

lemma trim_protects:
  assumes "distinct (map en_id (context_entries db))" "r \<in> set (context_entries db)" "en_id r \<in> set keep"
  shows "r \<in> set (context_entries (trim_if_needed keep db))"
  using trimmed_ids_candidate [OF assms(1,2), of keep] assms
  by (auto simp: trim_if_needed_def delete_entries_def delete_where_def Let_def trim_candidate_def)

definition root_row :: "plan_spec \<Rightarrow> string option \<Rightarrow> instant \<Rightarrow> int \<Rightarrow> entry" where
  "root_row spec actor now start = (new_plan_row (ps_root spec) (ps_parent spec) actor now (ps_conv spec))\<lparr>en_id := start + 1\<rparr>"

definition batch_rows :: "plan_spec \<Rightarrow> string option \<Rightarrow> instant \<Rightarrow> int \<Rightarrow> entry list" where
  "batch_rows spec actor now start =
     root_row spec actor now start # child_rows (ps_todos spec) (start + 1) actor now (ps_conv spec) (start + 1)"

lemma batch_rows_ids: "map en_id (batch_rows spec actor now start) = map (\<lambda>k. start + 1 + int k) [0..<Suc (length (ps_todos spec))]"
  by (simp add: batch_rows_def root_row_def child_rows_def upt_conv_Cons map_Suc_upt [symmetric] algebra_simps del: upt_Suc)

text \<open>The state in which a batch is trimmed: the table with the rows of the batch behind it.\<close>

lemma write_plans_trims:
  assumes "write_plans spec (ps_conv spec) actor t0 now db = Inr (r, db')" "ctx_inv db" "ps_conv spec \<in> cv_id ` set (conversations db)"
  obtains mid where "ctx_inv mid" "context_entries mid = context_entries db @ batch_rows spec actor now (entry_seq db)"
    "receipt_ids r = map en_id (batch_rows spec actor now (entry_seq db))" "db' = trim_if_needed (receipt_ids r) mid"
  using assms(1)
proof (cases rule: write_plans_cases)
  case (1 appended db1)
  let ?db2 = "snd (insert_plan (ps_root spec) (ps_parent spec) actor now (ps_conv spec) db1)"
  let ?db3 = "snd (insert_children 0 (ps_todos spec) (entry_seq db1 + 1) actor now (ps_conv spec) ?db2)"
  note f = ctx_fields_more [OF append_conversation_more [OF 1(2)]] and a = append_conversation_moves [OF 1(2) assms(2)]
  have "log_extends db db1" using a by (simp add: ctx_moves_def ctx_later_def)
  then have cid: "ps_conv spec \<in> cv_id ` set (conversations db1)" using assms(3) log_extends_conv_ids by blast
  have "ctx_moves db1 ?db2"
    by (rule insert_plan_moves [OF _ cid]) (use a check_parent_Inr [OF 1(1)] f in \<open>auto simp: ctx_moves_def\<close>)
  then have "ctx_moves ?db2 ?db3"
    by (intro insert_children_moves) (use cid in \<open>auto simp: ctx_moves_def insert_plan_entries new_plan_row_def\<close>)
  then have inv: "ctx_inv ?db3" by (simp add: ctx_moves_def)
  have ids: "receipt_ids r = map en_id (batch_rows spec actor now (entry_seq db))"
    using 1(3,4) insert_children_entries [of 0 "ps_todos spec" "entry_seq db1 + 1" actor now "ps_conv spec" ?db2]
    by (simp add: receipt_ids_def insert_plan_entries serialize_def root_row_def batch_rows_def f)
  have rows: "context_entries ?db3 = context_entries db @ batch_rows spec actor now (entry_seq db)"
    by (simp add: insert_children_entries insert_plan_entries root_row_def batch_rows_def f)
  from that [OF inv rows ids 1(8)] show thesis .
qed

lemma write_plans_rows:
  assumes "write_plans spec (ps_conv spec) actor t0 now db = Inr (r, db')" "ctx_inv db" "ps_conv spec \<in> cv_id ` set (conversations db)"
  shows "set (batch_rows spec actor now (entry_seq db)) \<subseteq> set (context_entries db') \<and>
    receipt_ids r = map (\<lambda>k. entry_seq db + 1 + int k) [0..<Suc (length (ps_todos spec))]"
proof -
  obtain mid where mid: "ctx_inv mid" "context_entries mid = context_entries db @ batch_rows spec actor now (entry_seq db)"
    "receipt_ids r = map en_id (batch_rows spec actor now (entry_seq db))" "db' = trim_if_needed (receipt_ids r) mid"
    by (rule write_plans_trims [OF assms])
  have "x \<in> set (context_entries db')" if "x \<in> set (batch_rows spec actor now (entry_seq db))" for x
    unfolding mid(4) by (rule trim_protects [OF ctx_invD(7) [OF mid(1)]]) (use that mid(2,3) in auto)
  then show ?thesis using mid(3) batch_rows_ids by auto
qed

text \<open>
  A batch of plans is created as a whole.  A creation that is not a replay writes the root plan
  under the next id and its todos under the ids that follow, all in progress, in the conversation of
  the request and with the root as their parent; the answer lists exactly these ids, and none of
  the new plans is lost to the trim that ends the transaction.
\<close>

theorem create_plans_batch:
  assumes "(ctx_step sha)\<^sup>*\<^sup>* empty_ctx db" "create_plans_tx spec actor t0 now db = Inr (r, db')" "pr_replayed r \<noteq> Some True"
  shows "set (batch_rows spec actor now (entry_seq db)) \<subseteq> set (context_entries db') \<and>
    receipt_ids r = map (\<lambda>k. entry_seq db + 1 + int k) [0..<Suc (length (ps_todos spec))]"
proof -
  note inv = ctx_reachable_inv [OF assms(1)]
  from assms(2) show ?thesis
  proof (cases rule: create_plans_tx_cases)
    case plain
    then show ?thesis using write_plans_rows [OF plain(2) inv plain(3)] by simp
  next
    case (replay key a previous)
    then show ?thesis using assms(3) by (auto simp: replay_plans_def split: if_splits)
  next
    case (first key a receipt db1)
    then show ?thesis using write_plans_rows [OF first(5) inv first(6)] by (simp add: receipt_ids_def)
  qed
qed

definition demo_spec :: plan_spec where
  "demo_spec = \<lparr>ps_root = \<lparr>pn_content = ''p'', pn_taskname = ''t'', pn_scope = [], pn_tags = [], pn_ref = None\<rparr>, ps_parent = None,
     ps_todos = [\<lparr>pn_content = ''c'', pn_taskname = ''t'', pn_scope = [], pn_tags = [], pn_ref = None\<rparr>], ps_conv = 0,
     ps_entries = [(User, ''n'')], ps_nonce = ''@aaaa@'', ps_request = Some ''k'', ps_fingerprint = ''f'', ps_hint_paths = [],
     ps_hint_tags = [], ps_hint_content = ''p''\<rparr>"

lemma demo_items_value: "items_value [(User, ''n'')] = demo_note"
  by (simp add: items_value_def demo_note_def role_name_def)

lemma cc1_context: "context_entries cc1 = []" "entry_seq cc1 = 0" "context_plan_requests cc1 = []" "context_entry_paths cc1 = []"
proof -
  have "\<exists>r. create_conversation_tx id (PInt 0) demo_entries (Some (PStr ''k'')) (Some ''me'') ''@aaaa@'' 0 0 empty_ctx = Inr (r, cc1)"
    using cc1_tables(3) by (auto simp: create_conversation_def commit_Inr optional_def validate_actor_id_def validate_string_def
        strip_def lstrip_def is_space_def MAX_CONTEXT_ACTOR_ID_CHARS_def)
  then obtain r where "create_conversation_tx id (PInt 0) demo_entries (Some (PStr ''k'')) (Some ''me'') ''@aaaa@'' 0 0 empty_ctx = Inr (r, cc1)" ..
  from ctx_fields_more [OF create_conversation_more [OF this]]
  show "context_entries cc1 = []" "entry_seq cc1 = 0" "context_plan_requests cc1 = []" "context_entry_paths cc1 = []"
    by (simp_all add: empty_ctx_def)
qed

lemma demo_create: "\<exists>r db'. create_plans_tx demo_spec (Some ''me'') 5 5 cc1 = Inr (r, db') \<and> pr_replayed r = Some False"
proof -
  have a: "append_conversation_tx (PInt 0) (PStr ''@aaaa@'') (items_value [(User, ''n'')]) False 5 cc1 =
      Inr ([demo_conv_entry 3 5 User ''n''], cc1\<lparr>conversation_entries := conversation_entries cc1 @ [demo_conv_entry 3 5 User ''n'']\<rparr>)"
    unfolding demo_items_value by (rule demo_append)
  have v: "verify_writer_nonce (PInt (ps_conv demo_spec)) (PStr (ps_nonce demo_spec)) cc1 = Inr 0"
    by (simp add: demo_spec_def demo_verify)
  have p: "check_parent demo_spec 0 cc1 = Inr ()" by (simp add: check_parent_def demo_spec_def)
  have "\<exists>r db'. write_plans demo_spec 0 (Some ''me'') 5 5 cc1 = Inr (r, db')"
    unfolding write_plans_def p andThen_simps by (simp add: demo_spec_def a split: prod.splits)
  then obtain r db' where w: "write_plans demo_spec 0 (Some ''me'') 5 5 cc1 = Inr (r, db')" by blast
  have k: "ps_request demo_spec = Some ''k''" by (simp add: demo_spec_def)
  show ?thesis unfolding create_plans_tx_def v andThen_simps k
    by (simp add: cc1_context select_def MAX_PLAN_REQUESTS_def w Let_def)
qed

theorem create_plans_batch_witness:
  "\<exists>r db'. create_plans_tx demo_spec (Some ''me'') 5 5 cc1 = Inr (r, db') \<and> receipt_ids r = [1, 2]"
proof -
  obtain r db' where c: "create_plans_tx demo_spec (Some ''me'') 5 5 cc1 = Inr (r, db')" "pr_replayed r \<noteq> Some True"
    using demo_create by auto
  have "length (ps_todos demo_spec) = 1" by (simp add: demo_spec_def)
  then have "receipt_ids r = [1, 2]" using create_plans_batch [OF cc_reachable(1) c] by (simp add: cc1_context upt_rec)
  with c show ?thesis by blast
qed

text \<open>
  Plans are created once per request id.  After a creation under a request id has succeeded,
  whatever happens in between, another creation by the same actor under that id either fails or
  returns the first answer, marked as replayed, and changes nothing; a request with another
  fingerprint always fails.
\<close>

theorem plan_request_at_most_once:
  assumes "(ctx_step sha)\<^sup>*\<^sup>* empty_ctx db" "select plan_key (a, key) (context_plan_requests db) = None"
    and "ps_request spec = Some key" "create_plans_tx spec (Some a) t0 now db = Inr (r, db1)"
    and "(ctx_step sha)\<^sup>*\<^sup>* db1 db2"
    and "ps_request spec' = Some key" "create_plans_tx spec' (Some a) t0' now' db2 = Inr (r', db3)"
  shows "db3 = db2 \<and> r' = r\<lparr>pr_replayed := Some True\<rparr> \<and> ps_fingerprint spec' = ps_fingerprint spec"
proof -
  have none: "plan_receipt_of db (a, key) = None" using assms(2) by (simp add: plan_receipt_of_def)
  have "spec\<lparr>ps_request := Some key\<rparr> = spec" "spec'\<lparr>ps_request := Some key\<rparr> = spec'" using assms(3,6) by simp_all
  then have k: "keyed_plans (a, key) (spec, t0, now) db = Inr (r, db1)" "keyed_plans (a, key) (spec', t0', now') db2 = Inr (r', db3)"
    using assms(4,7) by (simp_all add: keyed_plans_def)
  have "ctx_inv db1"
    using create_plans_tx_moves [OF assms(4) ctx_reachable_inv [OF assms(1)]] by (simp add: ctx_moves_def)
  from plan_ledger.at_most_once [OF none k(1) ctx_inv_steps [OF assms(5) this] k(2)] show ?thesis by simp
qed

theorem plan_request_at_most_once_witness:
  "\<exists>r db1. create_plans_tx demo_spec (Some ''me'') 5 5 cc1 = Inr (r, db1) \<and>
    create_plans_tx demo_spec (Some ''me'') 9 9 db1 = Inr (r\<lparr>pr_replayed := Some True\<rparr>, db1)"
proof -
  obtain r db1 where c: "create_plans_tx demo_spec (Some ''me'') 5 5 cc1 = Inr (r, db1)" "pr_replayed r = Some False" using demo_create by blast
  have none: "select plan_key (''me'', ''k'') (context_plan_requests cc1) = None" by (simp add: cc1_context select_def)
  have req: "ps_request demo_spec = Some ''k''" by (simp add: demo_spec_def)
  note inv = ctx_reachable_inv [OF cc_reachable(1)]
  obtain receipt db0 where f: "write_plans demo_spec (ps_conv demo_spec) (Some ''me'') 5 5 cc1 = Inr (receipt, db0)"
    "ps_conv demo_spec \<in> cv_id ` set (conversations cc1)" "r = receipt\<lparr>pr_request := Some ''k'', pr_replayed := Some False\<rparr>"
    "db1 = db0\<lparr>context_plan_requests := context_plan_requests db0 @ [\<lparr>pq_actor = ''me'', pq_request = ''k'',
         pq_fingerprint = ps_fingerprint demo_spec, pq_created = 5, pq_response = r\<rparr>]\<rparr>"
    using c(1)
  proof (cases rule: create_plans_tx_cases)
    case (first key a receipt db0)
    have "key = ''k''" "a = ''me''" using first(1,2) req by simp_all
    with first(5-8) show thesis by (intro that) simp_all
  next
    case (replay key a previous)
    with req none show thesis by simp
  qed (use req in simp)
  have w: "context_plan_requests db0 = []" using write_plans_moves [OF f(1) inv f(2)] cc1_context by simp
  have inv1: "ctx_inv db1" using create_plans_tx_moves [OF c(1) inv] by (simp add: ctx_moves_def)
  have rows: "set (batch_rows demo_spec (Some ''me'') 5 0) \<subseteq> set (context_entries db1)"
    and ids: "receipt_ids r = [1, 2]"
    using write_plans_rows [OF f(1) inv f(2)] f(3,4) by (simp_all add: cc1_context demo_spec_def upt_rec receipt_ids_def)
  have retained: "length (filter (\<lambda>x. en_type x = Plan \<and> en_id x \<in> set (receipt_ids r)) (context_entries db1)) = length (receipt_ids r)"
  proof -
    let ?F = "filter (\<lambda>x. en_type x = Plan \<and> en_id x \<in> set (receipt_ids r)) (context_entries db1)"
    have "length ?F = card (en_id ` set ?F)"
      by (rule length_distinct_key [OF distinct_map_filter [OF ctx_invD(7) [OF inv1]]])
    also have "en_id ` set ?F = {1, 2}"
      using rows unfolding ids by (auto simp: batch_rows_def root_row_def child_rows_def new_plan_row_def demo_spec_def intro: rev_image_eqI)
    finally show ?thesis by (simp add: ids)
  qed
  have "prefix (conversations cc1) (conversations db1)"
    using create_plans_tx_moves [OF c(1) inv] by (simp add: ctx_moves_def ctx_later_def log_extends_def)
  then have "select cv_id 0 (conversations db1) = Some \<lparr>cv_id = 0, cv_created = 0, cv_nonce = ''@aaaa@''\<rparr>"
    by (rule select_prefix) (simp add: cc1_tables select_def)
  then have "verify_writer_nonce (PInt (ps_conv demo_spec)) (PStr (ps_nonce demo_spec)) db1 = Inr 0"
    by (simp add: verify_writer_nonce_def validate_conversation_id_def validate_writer_nonce_def valid_nonce_def ascii_alnum_def demo_spec_def)
  then have "\<exists>r'. create_plans_tx demo_spec (Some ''me'') 9 9 db1 = Inr (r', db1)"
    using retained by (simp add: create_plans_tx_def req f(4) w select_def plan_key_def replay_plans_def)
  then obtain r' where r': "create_plans_tx demo_spec (Some ''me'') 9 9 db1 = Inr (r', db1)" ..
  with c(1) plan_request_at_most_once [OF cc_reachable(1) none req c(1) rtranclp.rtrancl_refl req r'] show ?thesis by blast
qed

section \<open>Trimming\<close>

text \<open>
  What a trim may do to a table.  An entry is disposable unless it is one of the entries to keep or a
  plan another entry refers to.  A table within the limit is left as it is.  Of a larger one the rows
  that stay keep their order, 1000 rows go, or fewer when no disposable row is left, and each row
  that goes was disposable and older than every disposable row that stays.
\<close>

definition disposable :: "int list \<Rightarrow> entry list \<Rightarrow> entry \<Rightarrow> bool" where
  "disposable keep rows r \<longleftrightarrow> en_id r \<notin> set keep \<and> (en_type r = Plan \<longrightarrow> (\<forall>q \<in> set rows. en_plan q \<noteq> Some (en_id r)))"

definition trimmed :: "int list \<Rightarrow> entry list \<Rightarrow> entry list \<Rightarrow> bool" where
  "trimmed keep rows rows' \<longleftrightarrow>
     (if length rows \<le> 100000 then rows' = rows
      else (\<exists>P. rows' = filter P rows) \<and>
        (length rows = length rows' + 1000 \<or> length rows < length rows' + 1000 \<and> (\<forall>q \<in> set rows'. \<not> disposable keep rows q)) \<and>
        (\<forall>r \<in> set rows - set rows'. disposable keep rows r \<and> (\<forall>q \<in> set rows'. disposable keep rows q \<longrightarrow> en_id r < en_id q)))"

lemma candidate_disposable: "trim_candidate keep rows r \<longleftrightarrow> disposable keep rows r"
  by (auto simp: trim_candidate_def disposable_def has_dependent_def list_ex_iff)

lemma length_filter_mem:
  assumes "distinct (map key rows)" "set ids \<subseteq> key ` set rows" "distinct ids"
  shows "length (filter (\<lambda>r. key r \<in> set ids) rows) = length ids"
proof -
  have "key ` set (filter (\<lambda>r. key r \<in> set ids) rows) = set ids" using assms(2) by auto
  then show ?thesis
    using length_distinct_key [OF distinct_map_filter [OF assms(1), of "\<lambda>r. key r \<in> set ids"]] distinct_card [OF assms(3)] by simp
qed

lemma trim_trimmed:
  assumes "distinct (map en_id (context_entries db))"
  shows "trimmed keep (context_entries db) (context_entries (trim_if_needed keep db))"
proof (cases "length (context_entries db) > MAX_CONTEXT_ENTRIES")
  case True
  let ?rows = "context_entries db" and ?ids = "trimmed_ids keep (context_entries db)"
  let ?stay = "filter (\<lambda>r. en_id r \<notin> set ?ids) ?rows"
  let ?C = "sort (map en_id (filter (trim_candidate keep ?rows) ?rows))"
  have e: "context_entries (trim_if_needed keep db) = ?stay"
    using True by (simp add: trim_if_needed_def delete_entries_def delete_where_def Let_def)
  have C: "distinct ?C" "sorted_wrt (<) (take 1000 ?C @ drop 1000 ?C)" and sub: "set ?C \<subseteq> en_id ` set ?rows"
    using distinct_map_filter [OF assms] by (auto simp: strict_sorted_iff)
  have ids: "?ids = take 1000 ?C" by (simp add: trimmed_ids_def CONTEXT_TRIM_ENTRIES_def)
  have "set ?ids \<subseteq> en_id ` set ?rows" "distinct ?ids" unfolding ids using subset_trans [OF set_take_subset sub] distinct_take [OF C(1)] by blast+
  then have out: "length ?rows = length ?ids + length ?stay"
    using length_filter_mem [OF assms] sum_length_filter_compl [of "\<lambda>r. en_id r \<in> set ?ids" ?rows] by simp
  have rest: "en_id q \<in> set (drop 1000 ?C)" if "q \<in> set ?stay" "disposable keep ?rows q" for q
  proof -
    have "en_id q \<in> set ?C" using that by (simp add: candidate_disposable)
    then have "en_id q \<in> set (take 1000 ?C) \<union> set (drop 1000 ?C)" unfolding set_append [symmetric] append_take_drop_id .
    then show ?thesis using that(1) unfolding ids by simp
  qed
  have "length ?rows = length ?stay + 1000 \<or> length ?rows < length ?stay + 1000 \<and> (\<forall>q \<in> set ?stay. \<not> disposable keep ?rows q)"
  proof (cases "1000 \<le> length ?C")
    case False
    then have "length ?ids < 1000" "drop 1000 ?C = []" by (simp_all add: ids)
    with out rest show ?thesis by fastforce
  qed (use out ids in simp)
  moreover have "disposable keep ?rows r \<and> (\<forall>q \<in> set ?stay. disposable keep ?rows q \<longrightarrow> en_id r < en_id q)"
    if "r \<in> set ?rows - set ?stay" for r
  proof -
    have r: "r \<in> set ?rows" "en_id r \<in> set ?ids" using that by auto
    have "en_id r < en_id q" if "q \<in> set ?stay" "disposable keep ?rows q" for q
      using C(2) r(2) rest [OF that] unfolding ids sorted_wrt_append by blast
    then show ?thesis using trimmed_ids_candidate [OF assms r] candidate_disposable by blast
  qed
  ultimately show ?thesis using True unfolding e trimmed_def MAX_CONTEXT_ENTRIES_def by auto
qed (simp add: trim_if_needed_def trimmed_def MAX_CONTEXT_ENTRIES_def)

lemma insert_entry_distinct:
  assumes "ctx_inv db"
  shows "distinct (map en_id (context_entries db @ [row\<lparr>en_id := entry_seq db + 1\<rparr>]))"
  using ctx_invD(7) [OF assms] rows_okD(2) [OF ctx_invD(1) [OF assms]] by fastforce

lemma add_tx_trims:
  assumes "add_tx n now db = Inr (i, db')" "ctx_inv db"
  shows "\<exists>row plan. checked_new_entry n now = Inr row \<and>
    checked_plan_link (en_type row) (ne_plan n) (ne_require_in_progress n) db = Inr plan \<and>
    trimmed [] (context_entries db @ [row\<lparr>en_plan := plan, en_id := i\<rparr>]) (context_entries db')"
  using assms(1)
proof (cases rule: add_tx_cases)
  case (1 row plan)
  let ?mid = "insert_paths i (ne_request n) (snd (insert_entry (row\<lparr>en_plan := plan\<rparr>) db))"
  have e: "context_entries ?mid = context_entries db @ [row\<lparr>en_plan := plan, en_id := i\<rparr>]"
    by (simp add: insert_paths_def insert_entry_def Let_def 1(3))
  have "distinct (map en_id (context_entries ?mid))"
    using insert_entry_distinct [OF assms(2), of "row\<lparr>en_plan := plan\<rparr>"] unfolding e by (simp add: 1(3))
  from trim_trimmed [OF this, of "[]"] 1 show ?thesis unfolding e by blast
qed




text \<open>A full table: 100000 plans, and one entry more.\<close>

definition full_rows :: "nat \<Rightarrow> entry list" where
  "full_rows m = map (\<lambda>k. demo_row (int k + 1) None In_Progress 0 1) [0..<m]"

lemma full_rows_facts:
  "length (full_rows m) = m" "full_rows (Suc m) = full_rows m @ [demo_row (int m + 1) None In_Progress 0 1]" "full_rows 0 = []"
  "r \<in> set (full_rows m) \<Longrightarrow> en_plan r = None" "r \<in> set (full_rows m) \<Longrightarrow> en_id r \<le> int m"
  by (auto simp: full_rows_def)

lemma demo_add:
  "add_entry (demo_plan PNone) 0 (demo_db rows k) =
    (Inr (k + 1), trim_if_needed [] (demo_db (rows @ [demo_row (k + 1) None In_Progress 0 1]) (k + 1)))"
  unfolding add_entry_def commit_def add_tx_def demo_checked
  by (simp add: checked_plan_link_def demo_plan_def insert_entry_def Let_def)

lemma full_reachable: "m \<le> 100000 \<Longrightarrow> (ctx_step sha)\<^sup>*\<^sup>* empty_ctx (demo_db (full_rows m) (int m))"
proof (induction m)
  case 0
  have "empty_ctx = demo_db (full_rows 0) (int 0)" by (simp add: demo_db_def empty_ctx_def full_rows_facts)
  then show ?case by simp
next
  case (Suc m)
  have "snd (add_entry (demo_plan PNone) 0 (demo_db (full_rows m) (int m))) = demo_db (full_rows (Suc m)) (int (Suc m))"
    using Suc.prems by (simp add: demo_add trim_if_needed_def MAX_CONTEXT_ENTRIES_def full_rows_facts add.commute)
  then have "ctx_step sha (demo_db (full_rows m) (int m)) (demo_db (full_rows (Suc m)) (int (Suc m)))"
    using ctx_step.add [of sha "demo_db (full_rows m) (int m)" "demo_plan PNone" 0] by simp
  with Suc show ?case by (simp add: rtranclp.rtrancl_into_rtrancl)
qed

lemma full_trimmed:
  assumes "trimmed [] (full_rows 100000 @ [row]) rows'" "en_id row = 100001" "en_plan row = None"
  shows "length rows' = 99001 \<and> row \<in> set rows' \<and> set rows' \<subseteq> set (full_rows 100000 @ [row])"
proof -
  let ?rows = "full_rows 100000 @ [row]"
  have len: "length ?rows = 100001" by (simp add: full_rows_facts)
  have free: "disposable [] ?rows r" for r using assms(3) full_rows_facts(4) by (auto simp: disposable_def)
  have "\<not> length ?rows \<le> 100000" unfolding len by simp
  note cut = assms(1) [unfolded trimmed_def if_not_P [OF this]]
  obtain P where "rows' = filter P ?rows" using conjunct1 [OF cut] ..
  then have sub: "set rows' \<subseteq> set ?rows" by (simp only: filter_is_subset)
  have goes: "length ?rows = length rows' + 1000 \<or> length ?rows < length rows' + 1000 \<and> (\<forall>q \<in> set rows'. \<not> disposable [] ?rows q)"
    "\<forall>r \<in> set ?rows - set rows'. disposable [] ?rows r \<and> (\<forall>q \<in> set rows'. disposable [] ?rows q \<longrightarrow> en_id r < en_id q)"
    using conjunct2 [OF cut] by (rule conjunct1, rule conjunct2)
  have l: "length rows' = 99001"
  proof (rule ccontr)
    assume "length rows' \<noteq> 99001"
    then have "100001 < length rows' + 1000" "\<forall>q \<in> set rows'. \<not> disposable [] ?rows q" using goes(1) unfolding len by auto
    then show False using free by (cases rows') auto
  qed
  have "row \<in> set rows'"
  proof (rule ccontr)
    assume no: "row \<notin> set rows'"
    then have younger: "\<forall>q \<in> set rows'. en_id row < en_id q" using goes(2) free by simp
    have "hd rows' \<in> set rows'" using l by (cases rows') auto
    then have "en_id row < en_id (hd rows')" "hd rows' \<in> set (full_rows 100000)" using younger no sub by auto
    then show False using assms(2) full_rows_facts(5) [of "hd rows'" 100000] by simp
  qed
  with l sub show ?thesis by blast
qed


text \<open>
  The rule does not prefer operations and notes to plans.  On a full table of plans in progress that nothing
  refers to, the plans with the smallest ids go when an operation is added, and the operation stays.
\<close>

lemma trim_takes_plans:
  "\<exists>i db'. add_entry demo_operation 0 (demo_db (full_rows 100000) 100000) = (Inr i, db') \<and> length (context_entries db') = 99001 \<and>
    (\<exists>r \<in> set (context_entries db'). en_type r = Operation)"
proof -
  let ?db = "demo_db (full_rows 100000) 100000"
  obtain db' where a: "add_tx demo_operation 0 ?db = Inr (100001, db')"
    unfolding add_tx_def demo_operation_checked by (simp add: checked_plan_link_def demo_operation_def insert_entry_def)
  have "ctx_inv ?db" using ctx_reachable_inv [OF full_reachable [of 100000]] by simp
  from add_tx_trims [OF a this]
  have t: "trimmed [] (full_rows 100000 @ [demo_operation_row\<lparr>en_id := 100001\<rparr>]) (context_entries db')"
    by (simp add: demo_operation_checked checked_plan_link_def) (simp add: demo_operation_def demo_operation_row_def)
  have "length (context_entries db') = 99001 \<and> demo_operation_row\<lparr>en_id := 100001\<rparr> \<in> set (context_entries db')"
    using full_trimmed [OF t] by (simp add: demo_operation_row_def)
  moreover have "en_type (demo_operation_row\<lparr>en_id := 100001\<rparr>) = Operation" by (simp add: demo_operation_row_def)
  moreover have "add_entry demo_operation 0 ?db = (Inr 100001, db')" using a by (simp add: add_entry_def commit_def)
  ultimately show ?thesis by blast
qed

end
