(* ===== verification/Plan_Completion.thy ===== *)
theory Plan_Completion
  imports Context_Store Memory_Store
begin

text \<open>
  The completion of a plan, where the Context store and the Memory store meet:
  \<open>_apply_memory_debrief\<close> and what it calls in \<open>openkapsel/context/memory_handlers.py\<close>, and the
  completion branch of \<open>_handle_context_plan_update\<close> in \<open>openkapsel/server_runtime/context_http.py\<close>
  (the MCP tool \<open>context_plan_update\<close> runs the same branch).  The request is rehearsed in the open
  Context transaction, the debrief is written to the Memory database in a transaction of its own, and
  then the plan is updated for good.  The two databases commit one after the other; the state is the
  pair of both.

  The file system and the tables of mounts are parameters (\<open>scope_env\<close>); the clock and the random ids
  are arguments.  The two read-only checks of the Memory store run before its transaction begins, so
  another request may write in between: the tables they see are arguments, too.  The \<open>details\<close> field of an
  error answer is left out.
\<close>

section \<open>Where the work of a plan took place\<close>

fun extract_operation_paths :: "pyval \<Rightarrow> (string \<times> bool) list" where
  "extract_operation_paths (PDict d) =
     concat (map (\<lambda>(key, item).
       case item of
         PStr s \<Rightarrow>
           if key \<in> set [''path'', ''source'', ''destination'', ''cwd'']
           then [(s, key = ''cwd'' \<or> key = ''path'' \<and> dict_get d ''operation'' = PStr ''mkdir'')] else []
       | _ \<Rightarrow> extract_operation_paths item) d)"
| "extract_operation_paths (PList items) = concat (map extract_operation_paths items)"
| "extract_operation_paths _ = []"

text \<open>\<open>posixpath.dirname\<close>, and \<open>ntpath.dirname\<close> of a path that begins with a drive and a separator.\<close>

definition dirname :: "string \<Rightarrow> string" where
  "dirname s =
     (let head = rev (dropWhile (\<lambda>c. c \<noteq> CHR ''/'') (rev s))
      in if list_all (\<lambda>c. c = CHR ''/'') head then head else rstrip_slashes head)"

definition drive_dirname :: "string \<Rightarrow> string" where
  "drive_dirname s =
     (let head = rev (dropWhile (\<lambda>c. c \<noteq> CHR ''/'') (rev (drop 3 s))) in take 3 s @ rstrip_slashes head)"

definition mapping_scope :: "string \<Rightarrow> string \<Rightarrow> bool \<Rightarrow> string" where
  "mapping_scope mapping_id raw directory =
     (let slashed = replace_char (CHR 0x5C) ''/'' raw;
          path = (if slashed = [] then ''.'' else slashed);
          parent = (if drive_prefix path then drive_dirname path else dirname path);
          place = (if directory \<or> path = ''.'' then path else if parent = [] then ''.'' else parent)
      in ''mapping:'' @ mapping_id @ '':'' @ normpath place)"

text \<open>
  What \<open>_virtual_memory_scope\<close> asks of the host: the absolute path of a raw path below the exported
  root, its resolution through symbolic links (either can raise), and the mapping or the storage
  mount at a path, with its id and its place.  A path is the list of its components.
\<close>

record scope_env =
  se_root :: "string list"
  se_absolute :: "string \<Rightarrow> string list result"
  se_resolve :: "string list \<Rightarrow> string list result"
  se_mapping_at :: "string list \<Rightarrow> (string \<times> string list) option"
  se_storage_at :: "string list \<Rightarrow> (string \<times> string list) option"

definition relative_scope :: "string \<Rightarrow> string list \<Rightarrow> string list \<Rightarrow> bool \<Rightarrow> string" where
  "relative_scope label base path directory =
     (if take (length base) path \<noteq> base then ''server:.''
      else let rest = drop (length base) path;
               relative = (if rest = [] then ''.'' else join ''/'' rest);
               place = (if directory then relative else if dirname relative = [] then ''.'' else dirname relative)
           in label @ place)"

definition virtual_memory_scope :: "scope_env \<Rightarrow> string \<Rightarrow> bool \<Rightarrow> string result" where
  "virtual_memory_scope env raw directory =
     andThen (se_absolute env raw) (\<lambda>given.
     andThen (case se_mapping_at env given of
                Some m \<Rightarrow> Inr (given, Some m)
              | None \<Rightarrow> andThen (se_resolve env given) (\<lambda>resolved.
                  case se_mapping_at env resolved of Some m \<Rightarrow> Inr (resolved, Some m) | None \<Rightarrow> Inr (given, None))) (\<lambda>(path, mapping).
       case mapping of
         Some (mapping_id, place) \<Rightarrow> Inr (relative_scope (''mapping:'' @ mapping_id @ '':'') place path directory)
       | None \<Rightarrow>
           (case se_storage_at env path of
              Some (provider_id, place) \<Rightarrow> Inr (relative_scope (''storage:'' @ provider_id @ '':'') place path directory)
            | None \<Rightarrow> Inr (relative_scope ''server:'' (se_root env) path directory))))"

definition WRITE_OPERATIONS :: "string list" where
  "WRITE_OPERATIONS = [''fs.copy'', ''fs.content.put'', ''fs.mutate'', ''fs.large.replace'', ''fs.mkdir'', ''fs.move'',
     ''fs.transfer.control'', ''recycle.restore'', ''upload.commit'', ''shell.exec'', ''schedule.execute'', ''server.rpc'',
     ''mapping.rpc'']"

definition object_of :: "pyval option \<Rightarrow> (string \<times> pyval) list" where
  "object_of v = (case v of Some (PDict d) \<Rightarrow> d | _ \<Rightarrow> [])"

definition operation_candidates :: "payload \<Rightarrow> (string \<times> bool) list" where
  "operation_candidates e =
     (if pl_operation e = Some ''shell.exec''
      then [(case dict_get_default (object_of (pl_request e)) ''cwd'' (PStr ''.'') of PStr s \<Rightarrow> s | _ \<Rightarrow> ''.'', True)]
      else extract_operation_paths (PDict (object_of (pl_request e))) @ extract_operation_paths (PDict (object_of (pl_result e))))"

definition entry_scopes :: "scope_env \<Rightarrow> payload \<Rightarrow> string list result" where
  "entry_scopes env e =
     (case pl_operation e of
        None \<Rightarrow> Inr []
      | Some operation \<Rightarrow>
          if operation \<notin> set WRITE_OPERATIONS then Inr []
          else if operation = ''mapping.rpc''
          then (case dict_get (object_of (pl_request e)) ''mapping_id'' of
                  PStr mapping_id \<Rightarrow>
                    if mapping_id = [] then Inr [''server:.'']
                    else if operation_candidates e = [] then Inr [''mapping:'' @ mapping_id @ '':.'']
                    else Inr (map (\<lambda>(raw, directory). mapping_scope mapping_id raw directory) (operation_candidates e))
                | _ \<Rightarrow> Inr [''server:.''])
          else if operation = ''server.rpc'' \<and> operation_candidates e = [] then Inr [''server:.'']
          else map_result (\<lambda>(raw, directory). virtual_memory_scope env raw directory) (operation_candidates e))"

definition plan_operations_query :: "int \<Rightarrow> int option \<Rightarrow> context_query" where
  "plan_operations_query plan_id before_id =
     \<lparr>cqu_id = None, cqu_exclude = None, cqu_query = None, cqu_type = Some ''operation'', cqu_status = Some ''succeeded'',
      cqu_taskname = PNone, cqu_actor = PNone, cqu_path = PNone, cqu_plan = PInt plan_id, cqu_roots = False,
      cqu_before = before_id, cqu_limit = MAX_CONTEXT_QUERY_LIMIT\<rparr>"

text \<open>
  The loop over the pages of succeeded operations, newest first.  The fuel bounds the number of pages;
  a result \<open>None\<close> means that it was not enough.
\<close>

fun plan_scopes :: "nat \<Rightarrow> scope_env \<Rightarrow> int \<Rightarrow> int option \<Rightarrow> ctx_db \<Rightarrow> string list result option" where
  "plan_scopes 0 env plan_id before_id db = None"
| "plan_scopes (Suc fuel) env plan_id before_id db =
     (case fst (query_entries (plan_operations_query plan_id before_id) db) of
        Inl e \<Rightarrow> Some (Inl e)
      | Inr (entries, _) \<Rightarrow>
          (case map_result (entry_scopes env) entries of
             Inl e \<Rightarrow> Some (Inl e)
           | Inr found \<Rightarrow>
               if int (length entries) < MAX_CONTEXT_QUERY_LIMIT then Some (Inr (concat found))
               else map_option (\<lambda>r. andThen r (\<lambda>rest. Inr (concat found @ rest)))
                      (plan_scopes fuel env plan_id (Some (pl_id (last entries))) db)))"

text \<open>One page more than there are entries is always enough, see \<open>plan_scopes_total\<close>.\<close>

definition plan_memory_path :: "scope_env \<Rightarrow> int \<Rightarrow> ctx_db \<Rightarrow> string result" where
  "plan_memory_path env plan_id db =
     (case plan_scopes (length (context_entries db) + 1) env plan_id None db of
        None \<Rightarrow> Inl AssertionError
      | Some r \<Rightarrow> andThen r common_path)"

section \<open>The debrief of a request\<close>

definition debrief_error :: "string \<Rightarrow> pyerr" where
  "debrief_error message = ApiError 400 ''invalid_plan_debrief'' message"

text \<open>The errors of the Memory store that the handler turns into an answer; others pass through.\<close>

definition memory_error :: "pyerr \<Rightarrow> pyerr" where
  "memory_error e =
     (case e of
        KeyError m \<Rightarrow> ApiError 404 ''memory_not_found'' m
      | RuntimeError m \<Rightarrow> ApiError 412 ''memory_revision_conflict'' m
      | ValueError m \<Rightarrow> ApiError 400 ''invalid_memory'' m
      | _ \<Rightarrow> e)"

definition map_error :: "(pyerr \<Rightarrow> pyerr) \<Rightarrow> 'a result \<Rightarrow> 'a result" where
  "map_error f r = (case r of Inl e \<Rightarrow> Inl (f e) | Inr x \<Rightarrow> Inr x)"

lemma map_error_Inr [simp]: "map_error f r = Inr x \<longleftrightarrow> r = Inr x"
  by (cases r) (simp_all add: map_error_def)

fun completion_tags :: "nat \<Rightarrow> string list \<Rightarrow> pyval list \<Rightarrow> string list result" where
  "completion_tags index done [] = Inr done"
| "completion_tags index done (tag # tags) =
     (case tag of
        PStr s \<Rightarrow>
          if strip s = [] \<or> length (strip s) > 64
          then Inl (debrief_error (''debrief item '' @ show_nat index @ '' tags must be non-empty strings up to 64 characters''))
          else if strip s \<in> set done then Inl (debrief_error (''debrief item '' @ show_nat index @ '' tags must be unique''))
          else completion_tags index (done @ [strip s]) tags
      | _ \<Rightarrow> Inl (debrief_error (''debrief item '' @ show_nat index @ '' tags must be non-empty strings up to 64 characters'')))"

definition completion_item :: "nat \<Rightarrow> pyval \<Rightarrow> (string \<times> string list) result" where
  "completion_item index v =
     (case v of
        PDict d \<Rightarrow>
          (case dict_get d ''content'' of
             PStr content \<Rightarrow>
               if strip content = [] \<or> length (strip content) > 256
               then Inl (debrief_error (''debrief item '' @ show_nat index @ '' content must be 1-256 characters''))
               else (case dict_get d ''tags'' of
                  PList tags \<Rightarrow>
                    if tags = [] \<or> length tags > 32
                    then Inl (debrief_error (''debrief item '' @ show_nat index @ '' tags must contain 1-32 tags; prefer 4-16''))
                    else andThen (completion_tags index [] tags) (\<lambda>ts. Inr (strip content, ts))
                | _ \<Rightarrow> Inl (debrief_error (''debrief item '' @ show_nat index @ '' tags must contain 1-32 tags; prefer 4-16'')))
           | _ \<Rightarrow> Inl (debrief_error (''debrief item '' @ show_nat index @ '' content must be 1-256 characters'')))
      | _ \<Rightarrow> Inl (debrief_error (''debrief item '' @ show_nat index @ '' must be an object'')))"

fun completion_items :: "nat \<Rightarrow> pyval list \<Rightarrow> (string \<times> string list) list result" where
  "completion_items index [] = Inr []"
| "completion_items index (v # vs) =
     andThen (completion_item index v) (\<lambda>x. andThen (completion_items (index + 1) vs) (\<lambda>xs. Inr (x # xs)))"

text \<open>A field that must be an array of at most 20 elements, with the messages of the field.\<close>

definition bounded_array :: "string \<Rightarrow> string \<Rightarrow> pyval \<Rightarrow> pyval list result" where
  "bounded_array not_array too_long v =
     (case v of
        PList xs \<Rightarrow> if length xs > 20 then Inl (debrief_error too_long) else Inr xs
      | _ \<Rightarrow> Inl (debrief_error not_array))"

record debrief_request =
  dr_items :: "(string \<times> string list) list"
  dr_outcome :: string
  dr_actions :: "pyval list"
  dr_feedback :: "pyval list"
  dr_conflicts :: "pyval list"

definition completion_outcome :: "pyval \<Rightarrow> string result" where
  "completion_outcome v =
     (case v of
        PStr s \<Rightarrow> if s \<in> set [''succeeded'', ''partial'', ''no_change''] then Inr s
                  else Inl (debrief_error ''debrief.outcome must be succeeded, partial, or no_change'')
      | PList _ \<Rightarrow> Inl TypeError
      | PDict _ \<Rightarrow> Inl TypeError
      | _ \<Rightarrow> Inl (debrief_error ''debrief.outcome must be succeeded, partial, or no_change''))"

definition debrief_request :: "pyval \<Rightarrow> debrief_request result" where
  "debrief_request v =
     (case v of
        PDict d \<Rightarrow>
          andThen (bounded_array ''debrief.items must be an array'' ''debrief.items cannot contain more than 20 items''
             (dict_get d ''items'')) (\<lambda>raw.
          andThen (completion_items 0 raw) (\<lambda>items.
          andThen (completion_outcome (dict_get d ''outcome'')) (\<lambda>outcome.
          andThen (bounded_array ''debrief.memory_actions must be an array; use an empty array when no existing Memory needs mutation''
             ''debrief.memory_actions cannot contain more than 20 actions'' (dict_get d ''memory_actions'')) (\<lambda>actions.
          andThen (bounded_array ''debrief.memory_feedback must be an array; list only Memory that actually helped''
             ''debrief.memory_feedback cannot contain more than 20 items'' (dict_get d ''memory_feedback'')) (\<lambda>feedback.
          andThen (bounded_array ''debrief.memory_conflicts must be an array''
             ''debrief.memory_conflicts cannot contain more than 20 items'' (dict_get d ''memory_conflicts'')) (\<lambda>conflicts.
            Inr \<lparr>dr_items = items, dr_outcome = outcome, dr_actions = actions, dr_feedback = feedback, dr_conflicts = conflicts\<rparr>))))))
      | _ \<Rightarrow> Inl (ApiError 400 ''plan_completion_requires_debrief'' ''completing a plan requires a debrief object''))"

record conflict =
  cf_memory :: string
  cf_revision :: int
  cf_reason :: string

definition conflict_item :: "nat \<Rightarrow> string list \<Rightarrow> pyval \<Rightarrow> conflict result" where
  "conflict_item index seen v =
     (case v of
        PDict d \<Rightarrow>
          (case dict_get d ''memory_id'' of
             PStr i \<Rightarrow>
               if i = [] then Inl (debrief_error (''memory conflict '' @ show_nat index @ '' requires memory_id''))
               else (case dict_get d ''revision'' of
                  PInt r \<Rightarrow>
                    if r < 1 then Inl (debrief_error (''memory conflict '' @ show_nat index @ '' requires a positive revision''))
                    else (case dict_get d ''reason'' of
                       PStr reason \<Rightarrow>
                         if strip reason = [] \<or> length (strip reason) > 1000
                         then Inl (debrief_error (''memory conflict '' @ show_nat index @ '' requires a non-empty reason up to 1000 characters''))
                         else if i \<in> set seen then Inl (debrief_error (''memory_conflicts duplicates '' @ i))
                         else Inr \<lparr>cf_memory = i, cf_revision = r, cf_reason = strip reason\<rparr>
                     | _ \<Rightarrow> Inl (debrief_error (''memory conflict '' @ show_nat index @ '' requires a non-empty reason up to 1000 characters'')))
                | _ \<Rightarrow> Inl (debrief_error (''memory conflict '' @ show_nat index @ '' requires a positive revision'')))
           | _ \<Rightarrow> Inl (debrief_error (''memory conflict '' @ show_nat index @ '' requires memory_id'')))
      | _ \<Rightarrow> Inl (debrief_error (''memory conflict '' @ show_nat index @ '' must be an object'')))"

fun conflict_items :: "nat \<Rightarrow> string list \<Rightarrow> pyval list \<Rightarrow> conflict list result" where
  "conflict_items index seen [] = Inr []"
| "conflict_items index seen (v # vs) =
     andThen (conflict_item index seen v) (\<lambda>c.
       andThen (conflict_items (index + 1) (cf_memory c # seen) vs) (\<lambda>cs. Inr (c # cs)))"

text \<open>
  The actions that can resolve a conflict, by memory and expected revision; a later action replaces an
  earlier one.  An unhashable action name raises.
\<close>

fun conflict_handlers :: "pyval list \<Rightarrow> ((string \<times> int) \<times> (string \<times> pyval) list) list result" where
  "conflict_handlers [] = Inr []"
| "conflict_handlers (v # vs) =
     (case v of
        PDict d \<Rightarrow>
          (case dict_get d ''action'' of
             PList _ \<Rightarrow> Inl TypeError
           | PDict _ \<Rightarrow> Inl TypeError
           | action \<Rightarrow>
               andThen (conflict_handlers vs) (\<lambda>rest.
                 Inr (case (dict_get d ''memory_id'', dict_get d ''expected_revision'') of
                        (PStr i, PInt r) \<Rightarrow>
                          if action = PStr ''update'' \<or> action = PStr ''archive'' then rest @ [((i, r), d)] else rest
                      | _ \<Rightarrow> rest)))
      | _ \<Rightarrow> conflict_handlers vs)"

definition unresolved_conflict :: "((string \<times> int) \<times> (string \<times> pyval) list) list \<Rightarrow> conflict \<Rightarrow> bool" where
  "unresolved_conflict handlers c =
     (case map_of handlers (cf_memory c, cf_revision c) of
        None \<Rightarrow> True
      | Some d \<Rightarrow> dict_get d ''action'' = PStr ''update'' \<and> \<not> dict_has d ''content'')"

definition check_conflicts :: "(string \<times> int) list \<Rightarrow> conflict list \<Rightarrow> pyval list \<Rightarrow> unit result" where
  "check_conflicts feedback conflicts actions =
     (let both = sort (filter (\<lambda>i. i \<in> set (map cf_memory conflicts)) (remdups (map fst feedback)))
      in if both \<noteq> [] then Inl (debrief_error (''the same Memory cannot be both helpful and conflicting: '' @ join '', '' both))
         else andThen (conflict_handlers actions) (\<lambda>handlers.
           case find (unresolved_conflict handlers) conflicts of
             None \<Rightarrow> Inr ()
           | Some c \<Rightarrow> Inl (ApiError 400 ''unresolved_memory_conflict'' (''conflicting Memory '' @ cf_memory c @ '' revision '' @
               show_int (cf_revision c) @ '' must have its content updated or be archived''))))"

section \<open>The changes of the Memory store\<close>

text \<open>What the clock and the random generator deliver during the Memory transaction.\<close>

record tick_env =
  te_item_time :: "nat \<Rightarrow> instant"
  te_item_ids :: "nat \<Rightarrow> string list"
  te_action_time :: "nat \<Rightarrow> instant"
  te_feedback_time :: "nat \<Rightarrow> instant"

record memory_ref =
  mr_action :: string
  mr_memory :: string
  mr_revision :: int

definition ref_of :: "string \<Rightarrow> memory \<Rightarrow> memory_ref" where
  "ref_of action m = \<lparr>mr_action = action, mr_memory = mm_id m, mr_revision = mm_revision m\<rparr>"

fun create_items ::
  "tick_env \<Rightarrow> nat \<Rightarrow> int \<Rightarrow> string option \<Rightarrow> string \<Rightarrow> (string \<times> string list) list \<Rightarrow> (memory_db, memory_ref list) tx" where
  "create_items env k plan_id actor path [] db = Inr ([], db)"
| "create_items env k plan_id actor path ((content, tags) # items) db =
     andThen (map_error memory_error (memory_create_tx (PStr content) (PList (map PStr tags)) (PStr path) (PInt plan_id) actor
         (PStr (''Plan '' @ show_int plan_id @ '' debrief memory'')) (te_item_time env k) (te_item_ids env k) db)) (\<lambda>(entry, db1).
       andThen (create_items env (k + 1) plan_id actor path items db1) (\<lambda>(refs, db2).
         Inr (ref_of ''create'' entry # refs, db2)))"

definition apply_action ::
  "int \<Rightarrow> string option \<Rightarrow> instant \<Rightarrow> (string \<times> pyval) list \<Rightarrow> (memory_db, memory_ref) tx" where
  "apply_action plan_id actor now d db =
     (let message = PStr (''Plan '' @ show_int plan_id @ '' completion'')
      in if dict_get d ''action'' = PStr ''update''
         then (case dict_get d ''memory_id'' of
                 PStr i \<Rightarrow>
                   if i = [] then Inl (ValueError ''memory_id is required for update'')
                   else andThen (memory_update_tx i (action_changes d) (dict_get d ''expected_revision'') (PInt plan_id) actor message now db)
                          (\<lambda>(entry, db1). Inr (ref_of ''update'' entry, db1))
               | _ \<Rightarrow> Inl (ValueError ''memory_id is required for update''))
         else if dict_get d ''action'' = PStr ''archive''
         then (case dict_get d ''memory_id'' of
                 PStr i \<Rightarrow>
                   if i = [] then Inl (ValueError ''memory_id is required for archive'')
                   else andThen (memory_archive_tx i (dict_get d ''expected_revision'') (PInt plan_id) actor message now db)
                          (\<lambda>(entry, db1). Inr (ref_of ''archive'' entry, db1))
               | _ \<Rightarrow> Inl (ValueError ''memory_id is required for archive''))
         else Inl (ValueError ''memory action must be update or archive''))"

fun apply_actions ::
  "tick_env \<Rightarrow> nat \<Rightarrow> int \<Rightarrow> string option \<Rightarrow> pyval list \<Rightarrow> (memory_db, memory_ref list) tx" where
  "apply_actions env k plan_id actor [] db = Inr ([], db)"
| "apply_actions env k plan_id actor (v # vs) db =
     (case v of
        PDict d \<Rightarrow>
          andThen (map_error memory_error (apply_action plan_id actor (te_action_time env k) d db)) (\<lambda>(ref, db1).
            andThen (apply_actions env (k + 1) plan_id actor vs db1) (\<lambda>(refs, db2). Inr (ref # refs, db2)))
      | _ \<Rightarrow> Inl (debrief_error (''memory action '' @ show_nat k @ '' must be an object'')))"

text \<open>The debrief that is stored with the plan.\<close>

definition ref_value :: "memory_ref \<Rightarrow> pyval" where
  "ref_value r = PDict [(''action'', PStr (mr_action r)), (''memory_id'', PStr (mr_memory r)), (''revision'', PInt (mr_revision r))]"

definition feedback_value :: "string \<times> int \<times> instant \<Rightarrow> pyval" where
  "feedback_value f = (case f of (i, r, t) \<Rightarrow>
     PDict [(''memory_id'', PStr i), (''revision'', PInt r), (''helpful_at'', PStr (iso_utc t))])"

definition conflict_value :: "conflict \<Rightarrow> pyval" where
  "conflict_value c =
     PDict [(''memory_id'', PStr (cf_memory c)), (''revision'', PInt (cf_revision c)), (''reason'', PStr (cf_reason c))]"

definition item_value :: "string \<times> string list \<Rightarrow> pyval" where
  "item_value x = PDict [(''content'', PStr (fst x)), (''tags'', PList (map PStr (snd x)))]"

definition debrief_value ::
  "debrief_request \<Rightarrow> memory_ref list \<Rightarrow> (string \<times> int \<times> instant) list \<Rightarrow> conflict list \<Rightarrow> pyval" where
  "debrief_value q refs feedback conflicts =
     PDict [(''items'', PList (map item_value (dr_items q))), (''outcome'', PStr (dr_outcome q)),
            (''memory_refs'', PList (map ref_value refs)), (''memory_feedback'', PList (map feedback_value feedback)),
            (''memory_conflicts'', PList (map conflict_value conflicts))]"

text \<open>The body of the Memory transaction.\<close>

definition memory_changes ::
  "tick_env \<Rightarrow> int \<Rightarrow> string option \<Rightarrow> string \<Rightarrow> debrief_request \<Rightarrow> (string \<times> int) list \<Rightarrow>
   (memory_db, memory_ref list \<times> (string \<times> int \<times> instant) list) tx" where
  "memory_changes env plan_id actor path q feedback db =
     andThen (create_items env 0 plan_id actor path (dr_items q) db) (\<lambda>(created, db1).
     andThen (apply_actions env 0 plan_id actor (dr_actions q) db1) (\<lambda>(changed, db2).
     andThen (map_error memory_error (record_helpful_feedback_tx (PInt plan_id) feedback actor (te_feedback_time env) db2)) (\<lambda>(recorded, db3).
       Inr ((created @ changed, recorded), db3))))"

text \<open>\<open>seen_feedback\<close> and \<open>seen_actions\<close> are the Memory tables as the two checks before the transaction find them.\<close>

definition apply_memory_debrief ::
  "scope_env \<Rightarrow> tick_env \<Rightarrow> int \<Rightarrow> string option \<Rightarrow> pyval \<Rightarrow> ctx_db \<Rightarrow> memory_db \<Rightarrow> memory_db \<Rightarrow> (memory_db, pyval) tx" where
  "apply_memory_debrief senv env plan_id actor v ctx seen_feedback seen_actions db =
     andThen (debrief_request v) (\<lambda>q.
     andThen (map_error memory_error (validate_helpful_feedback (PList (dr_feedback q)) seen_feedback)) (\<lambda>feedback.
     andThen (conflict_items 0 [] (dr_conflicts q)) (\<lambda>conflicts.
     andThen (check_conflicts feedback conflicts (dr_actions q)) (\<lambda>_.
     andThen (map_error memory_error (preflight_actions (PList (dr_actions q)) seen_actions)) (\<lambda>_.
     andThen (plan_memory_path senv plan_id ctx) (\<lambda>path.
     andThen (memory_changes env plan_id actor path q feedback db) (\<lambda>((refs, recorded), db1).
       Inr (debrief_value q refs recorded conflicts, db1))))))))"

section \<open>The completion of a plan\<close>

text \<open>
  A first part that is rehearsed in an open transaction, a second part with a transaction of its own,
  and the first part for good.  When the last step raises, the second part has been committed.  Beside
  the errors of the requests themselves a database can fail (a full disk, a lock that times out, a
  process that ends): while the first transaction is opened and rehearsed, in the second one, or in the
  final write and commit of the first.
\<close>

datatype db_fault = At_Rehearsal pyerr | At_Second pyerr | At_Commit pyerr

definition two_phase ::
  "db_fault option \<Rightarrow> ('s \<Rightarrow> 'x result) \<Rightarrow> ('s \<Rightarrow> ('m, 'd) tx) \<Rightarrow> ('d \<Rightarrow> ('s, 'a) tx) \<Rightarrow> ('s \<times> 'm, 'd \<times> 'a) op" where
  "two_phase fault rehearse second final st =
     (case (case fault of Some (At_Rehearsal e) \<Rightarrow> Inl e | _ \<Rightarrow> rehearse (fst st)) of
        Inl e \<Rightarrow> (Inl e, st)
      | Inr _ \<Rightarrow>
          (case (case fault of Some (At_Second e) \<Rightarrow> Inl e | _ \<Rightarrow> second (fst st) (snd st)) of
             Inl e \<Rightarrow> (Inl e, st)
           | Inr (d, m) \<Rightarrow>
               (case (case fault of Some (At_Commit e) \<Rightarrow> Inl e | _ \<Rightarrow> final d (fst st)) of
                  Inl e \<Rightarrow> (Inl e, (fst st, m))
                | Inr (x, s) \<Rightarrow> (Inr (d, x), (s, m)))))"

text \<open>A transaction on one database fails as a whole.\<close>

definition one_phase :: "db_fault option \<Rightarrow> ('s, 'a) op \<Rightarrow> ('s, 'a) op" where
  "one_phase fault run st =
     (case fault of None \<Rightarrow> run st | Some (At_Rehearsal e) \<Rightarrow> (Inl e, st) | Some (At_Second e) \<Rightarrow> (Inl e, st) | Some (At_Commit e) \<Rightarrow> (Inl e, st))"

definition no_change_debrief :: pyval where
  "no_change_debrief = PDict [(''items'', PList []), (''outcome'', PStr ''no_change''), (''memory_refs'', PList []),
     (''memory_feedback'', PList []), (''memory_conflicts'', PList [])]"

text \<open>
  The checks on entering the completion transaction, and the rehearsal.  \<open>u\<close> holds the arguments of
  the request for \<open>update_plan\<close>, without a debrief.
\<close>

definition rehearse_completion ::
  "int \<Rightarrow> plan_update \<Rightarrow> string \<Rightarrow> instant \<Rightarrow> instant \<Rightarrow> instant \<Rightarrow> ctx_db \<Rightarrow> updated_plan result" where
  "rehearse_completion i u actor t0 t1 t2 db =
     andThen (fst (plan_completion_transaction i (pu_expected u) (\<lambda>existing db. Inr (existing, db)) db)) (\<lambda>existing.
       if pl_status existing = Some ''completed'' then Inl (ValueError ''plan is already completed'')
       else andThen (update_plan_tx i (u\<lparr>pu_debrief := no_change_debrief, pu_actor := PStr actor\<rparr>) True t0 t1 t2 db)
              (\<lambda>(payload, _). Inr payload))"

definition complete_plan ::
  "db_fault option \<Rightarrow> scope_env \<Rightarrow> tick_env \<Rightarrow> int \<Rightarrow> plan_update \<Rightarrow> string \<Rightarrow> pyval \<Rightarrow> memory_db \<Rightarrow> memory_db \<Rightarrow>
   (nat \<Rightarrow> instant) \<Rightarrow> (ctx_db \<times> memory_db, pyval \<times> updated_plan) op" where
  "complete_plan fault senv env i u actor v seen_feedback seen_actions t st =
     two_phase fault (rehearse_completion i u actor (t 0) (t 1) (t 2))
       (\<lambda>ctx. apply_memory_debrief senv env i (Some actor) v ctx seen_feedback seen_actions)
       (\<lambda>debrief. update_plan_tx i (u\<lparr>pu_debrief := debrief, pu_actor := PStr actor\<rparr>) False (t 3) (t 4) (t 5)) st"

section \<open>The request\<close>

definition required_string :: "(string \<times> pyval) list \<Rightarrow> string \<Rightarrow> string result" where
  "required_string body key =
     (case dict_get body key of
        PStr s \<Rightarrow> if s = [] then Inl (ApiError 400 ''invalid_request'' (key @ '' must be a non-empty string'')) else Inr s
      | _ \<Rightarrow> Inl (ApiError 400 ''invalid_request'' (key @ '' must be a non-empty string'')))"

definition parse_conversation_id :: "string \<Rightarrow> int result" where
  "parse_conversation_id s =
     (case int_of_text s of
        Some i \<Rightarrow> if i < 0 then Inl (ApiError 400 ''invalid_conversation_id'' ''conversation id must be a non-negative integer'') else Inr i
      | None \<Rightarrow> Inl (ApiError 400 ''invalid_conversation_id'' ''conversation id must be a non-negative integer''))"

text \<open>
  \<open>str\<close> of a decoded JSON value, as far as it matters here: of a value that is neither a string nor an
  integer it is text that is no number and no writer nonce.
\<close>

definition str_of :: "pyval \<Rightarrow> string" where
  "str_of v = (case v of PStr s \<Rightarrow> s | PInt i \<Rightarrow> show_int i | _ \<Rightarrow> ''?'')"

definition plan_update_args :: "(string \<times> pyval) list \<Rightarrow> plan_update result" where
  "plan_update_args body =
     (if dict_has body ''plan_id''
      then Inl (ApiError 400 ''invalid_context_entry'' ''plan_id is fixed at Plan creation and cannot be updated'')
      else andThen (required_string body ''taskname'') (\<lambda>taskname.
        andThen (case dict_get body ''expected_revision'' of
                   PInt r \<Rightarrow> if r < 1 then Inl (ApiError 428 ''context_plan_revision_required''
                                ''expected_revision must be the current positive Plan revision'') else Inr r
                 | _ \<Rightarrow> Inl (ApiError 428 ''context_plan_revision_required''
                                ''expected_revision must be the current positive Plan revision'')) (\<lambda>expected.
        andThen (if dict_has body ''content'' then andThen (required_string body ''content'') (\<lambda>s. Inr (PStr s)) else Inr PNone) (\<lambda>content.
        andThen (case dict_get body ''status'' of
                   PNone \<Rightarrow> Inr None | PStr s \<Rightarrow> Inr (Some s)
                 | _ \<Rightarrow> Inl (ApiError 400 ''invalid_context_entry'' ''status must be a string'')) (\<lambda>status.
        andThen (if dict_has body ''conversation_id''
                 then andThen (parse_conversation_id (str_of (dict_get body ''conversation_id''))) (\<lambda>i. Inr (PInt i)) else Inr PNone) (\<lambda>conv.
          Inr \<lparr>pu_expected = PInt expected, pu_taskname = PStr taskname, pu_content = content, pu_status = status,
            pu_debrief = PNone, pu_actor = PNone, pu_conv = conv,
            pu_nonce = (if dict_has body ''writer_nonce'' then PStr (str_of (dict_get body ''writer_nonce'')) else PNone),
            pu_entries = dict_get body ''conversation_entries'', pu_require = True\<rparr>))))))"

definition plan_update_error :: "pyerr \<Rightarrow> pyerr" where
  "plan_update_error e =
     (case e of
        KeyError m \<Rightarrow> ApiError 404 ''context_not_found'' m
      | PermissionError m \<Rightarrow> ApiError 403 ''conversation_writer_nonce_mismatch'' m
      | RuntimeError m \<Rightarrow> ApiError 412 ''context_plan_revision_conflict'' m
      | ValueError m \<Rightarrow> ApiError 400 ''invalid_context_entry'' m
      | _ \<Rightarrow> e)"

definition map_answer :: "('a \<Rightarrow> 'b) \<Rightarrow> ('s, 'a) op \<Rightarrow> ('s, 'b) op" where
  "map_answer f run st = (case run st of (Inl e, st') \<Rightarrow> (Inl (plan_update_error e), st') | (Inr x, st') \<Rightarrow> (Inr (f x), st'))"

text \<open>The handler: the answer is the updated plan, with the debrief that was stored when it was completed.\<close>

definition handle_plan_update ::
  "db_fault option \<Rightarrow> scope_env \<Rightarrow> tick_env \<Rightarrow> int \<Rightarrow> (string \<times> pyval) list \<Rightarrow> string \<Rightarrow> memory_db \<Rightarrow> memory_db \<Rightarrow> (nat \<Rightarrow> instant) \<Rightarrow>
   (ctx_db \<times> memory_db, pyval option \<times> updated_plan) op" where
  "handle_plan_update fault senv env i body actor seen_feedback seen_actions t st =
     (case plan_update_args body of
        Inl e \<Rightarrow> (Inl e, st)
      | Inr u \<Rightarrow>
          if pu_status u = Some ''completed''
          then map_answer (\<lambda>(debrief, p). (Some debrief, p))
                 (complete_plan fault senv env i u actor (dict_get body ''debrief'') seen_feedback seen_actions t) st
          else if dict_has body ''debrief''
          then (Inl (plan_update_error (ValueError ''plan debrief is only valid when status is completed'')), st)
          else map_answer (\<lambda>p. (None, p))
                 (\<lambda>st. case one_phase fault (update_plan i u (t 0) (t 1) (t 2)) (fst st) of (r, ctx) \<Rightarrow> (r, (ctx, snd st))) st)"

end
