(* ===== verification/Memory_Safety.thy ===== *)
theory Memory_Safety
  imports Memory_Store
begin

text \<open>
  The state of the project memory over time.  The invariant ties the four tables together: the
  history of a memory is numbered without gaps and ends in a snapshot of the row, the tag table
  repeats the tags of the row, and the counter of a memory is the number of its feedback rows.  The
  relation \<open>mem_later\<close> says what an operation may change.  Both are established for the whole store
  by an interpretation of \<open>evolving\<close>.
\<close>

section \<open>Tags\<close>

definition tags_ok :: "string list \<Rightarrow> bool" where
  "tags_ok ts \<longleftrightarrow> ts \<noteq> [] \<and> distinct ts \<and> length ts \<le> MAX_MEMORY_TAGS \<and>
     (\<forall>t \<in> set ts. strip t = t \<and> t \<noteq> [] \<and> length t \<le> MAX_MEMORY_TAG_CHARS)"

lemma required_text_Inr: "required_text name n v = Inr s \<longleftrightarrow> (\<exists>t. v = PStr t \<and> s = strip t \<and> s \<noteq> [] \<and> length s \<le> n)"
  by (cases v) (auto simp: required_text_def validate_string_def)

lemma tags_loop_Inr:
  "tags_loop acc items = Inr ts \<Longrightarrow> distinct acc \<Longrightarrow>
   distinct ts \<and> prefix acc ts \<and> length ts \<le> length acc + length items \<and>
   (\<forall>t \<in> set ts. t \<in> set acc \<or> strip t = t \<and> t \<noteq> [] \<and> length t \<le> MAX_MEMORY_TAG_CHARS)"
proof (induction items arbitrary: acc)
  case (Cons item items)
  from Cons.prems(1) obtain tag where tag: "required_text ''tag'' MAX_MEMORY_TAG_CHARS item = Inr tag"
    and loop: "tags_loop (if tag \<in> set acc then acc else acc @ [tag]) items = Inr ts" by auto
  from tag have t: "strip tag = tag" "tag \<noteq> []" "length tag \<le> MAX_MEMORY_TAG_CHARS" by (auto simp: required_text_Inr)
  have "distinct (if tag \<in> set acc then acc else acc @ [tag])" using Cons.prems(2) by simp
  from Cons.IH [OF loop this] t show ?case by (auto split: if_splits dest: append_prefixD)
qed simp

lemma validate_tags_Inr: "validate_tags True v = Inr ts \<Longrightarrow> tags_ok ts"
  using tags_loop_Inr [of "[]"] by (cases v) (fastforce simp: validate_tags_def tags_ok_def split: if_splits)+

lemma tags_loop_stable:
  "distinct (acc @ ts) \<Longrightarrow> \<forall>t \<in> set ts. strip t = t \<and> t \<noteq> [] \<and> length t \<le> MAX_MEMORY_TAG_CHARS \<Longrightarrow>
   tags_loop acc (map PStr ts) = Inr (acc @ ts)"
proof (induction ts arbitrary: acc)
  case (Cons t ts)
  then have "required_text ''tag'' MAX_MEMORY_TAG_CHARS (PStr t) = Inr t" by (auto simp: required_text_Inr)
  moreover have "tags_loop (acc @ [t]) (map PStr ts) = Inr ((acc @ [t]) @ ts)" using Cons.prems by (intro Cons.IH) auto
  ultimately show ?case using Cons.prems(1) by simp
qed simp

text \<open>Stored tags are accepted again as they are.\<close>

lemma validate_tags_stable: "tags_ok ts \<Longrightarrow> validate_tags True (PList (map PStr ts)) = Inr ts"
  using tags_loop_stable [of "[]" ts] by (simp add: validate_tags_def tags_ok_def)

section \<open>The invariant\<close>

definition history :: "memory_db \<Rightarrow> string \<Rightarrow> revision list" where
  "history db i = filter (\<lambda>r. rv_memory r = i) (memory_revisions db)"

definition tags_of :: "memory_db \<Rightarrow> string \<Rightarrow> string list" where
  "tags_of db i = map snd (filter (\<lambda>(j, t). j = i) (memory_tags db))"

definition feedback_count :: "memory_db \<Rightarrow> string \<Rightarrow> nat" where
  "feedback_count db i = length (filter (\<lambda>f. fb_memory f = i) (memory_feedback db))"

definition memory_ok :: "memory_db \<Rightarrow> memory \<Rightarrow> bool" where
  "memory_ok db m \<longleftrightarrow> 1 \<le> mm_revision m \<and>
     map rv_revision (history db (mm_id m)) = map int [1..<Suc (nat (mm_revision m))] \<and>
     (\<exists>view. serialize_memory m = Inr view \<and> rv_snapshot (last (history db (mm_id m))) = snapshot_of view) \<and>
     tags_ok (mm_tags m) \<and> tags_of db (mm_id m) = mm_tags m \<and> mm_helpful m = int (feedback_count db (mm_id m))"

definition memory_refs_ok :: "memory_db \<Rightarrow> bool" where
  "memory_refs_ok db \<longleftrightarrow> rv_memory ` set (memory_revisions db) \<union> fst ` set (memory_tags db) \<union> fb_memory ` set (memory_feedback db)
     \<subseteq> mm_id ` set (memories db)"

definition mem_inv :: "memory_db \<Rightarrow> bool" where
  "mem_inv db \<longleftrightarrow> distinct (map mm_id (memories db)) \<and> distinct (map (\<lambda>f. (fb_plan f, fb_memory f)) (memory_feedback db)) \<and>
     memory_refs_ok db \<and> (\<forall>m \<in> set (memories db). memory_ok db m)"

lemma empty_memory_inv: "mem_inv empty_memory"
  by (simp add: mem_inv_def memory_refs_ok_def empty_memory_def)

section \<open>What a memory may become\<close>

text \<open>
  A memory keeps its id, its origin and its place in the table; a change of anything but the feedback
  fields raises the revision, and an archived memory has no further revision.
\<close>

definition memory_core :: "memory \<Rightarrow> memory" where
  "memory_core m = m\<lparr>mm_helpful := 0, mm_helpful_at := None\<rparr>"

lemma memory_core_eq:
  assumes "memory_core m' = memory_core m"
  shows "mm_revision m' = mm_revision m" "mm_archived m' = mm_archived m" "mm_content m' = mm_content m" "mm_tags m' = mm_tags m"
    "mm_path m' = mm_path m" "mm_updated m' = mm_updated m" "mm_last_plan m' = mm_last_plan m"
  using assms by (cases m; cases m'; simp add: memory_core_def)+

definition memory_later :: "memory \<Rightarrow> memory \<Rightarrow> bool" where
  "memory_later m m' \<longleftrightarrow> mm_id m' = mm_id m \<and> mm_created m' = mm_created m \<and> mm_source_plan m' = mm_source_plan m \<and>
     mm_revision m \<le> mm_revision m' \<and> mm_helpful m \<le> mm_helpful m' \<and>
     (mm_revision m' = mm_revision m \<or> mm_archived m \<noteq> None \<longrightarrow> memory_core m' = memory_core m)"

lemma memory_later_refl [simp]: "memory_later m m"
  by (simp add: memory_later_def)

lemma memory_later_trans:
  assumes "memory_later a b" "memory_later b c"
  shows "memory_later a c"
proof -
  have "memory_core c = memory_core a" if h: "mm_revision c = mm_revision a \<or> mm_archived a \<noteq> None"
  proof -
    from h assms have "mm_revision b = mm_revision a \<or> mm_archived a \<noteq> None" by (auto simp: memory_later_def)
    with assms(1) have b: "memory_core b = memory_core a" by (auto simp: memory_later_def)
    with h memory_core_eq(1,2) [OF b] have "mm_revision c = mm_revision b \<or> mm_archived b \<noteq> None" by simp
    with assms(2) b show ?thesis by (auto simp: memory_later_def)
  qed
  with assms show ?thesis by (auto simp: memory_later_def)
qed

definition mem_later :: "memory_db \<Rightarrow> memory_db \<Rightarrow> bool" where
  "mem_later db db' \<longleftrightarrow> prefix (memory_revisions db) (memory_revisions db') \<and> prefix (memory_feedback db) (memory_feedback db') \<and>
     (\<forall>m \<in> set (memories db). \<exists>m' \<in> set (memories db'). memory_later m m')"

lemma mem_later_refl [simp]: "mem_later db db"
  unfolding mem_later_def using memory_later_refl by blast

lemma mem_later_trans:
  assumes "mem_later a b" "mem_later b c"
  shows "mem_later a c"
  unfolding mem_later_def
proof (intro conjI ballI)
  show "prefix (memory_revisions a) (memory_revisions c)" "prefix (memory_feedback a) (memory_feedback c)"
    using assms unfolding mem_later_def by (auto intro: prefix_order.trans)
  fix m assume "m \<in> set (memories a)"
  with assms obtain m' m'' where "memory_later m m'" "m'' \<in> set (memories c)" "memory_later m' m''"
    unfolding mem_later_def by meson
  then show "\<exists>m' \<in> set (memories c). memory_later m m'" using memory_later_trans by blast
qed

definition mem_moves :: "memory_db \<Rightarrow> memory_db \<Rightarrow> bool" where
  "mem_moves db db' \<longleftrightarrow> mem_inv db' \<and> mem_later db db'"

lemma mem_moves_trans: "mem_moves a b \<Longrightarrow> mem_moves b c \<Longrightarrow> mem_moves a c"
  unfolding mem_moves_def using mem_later_trans by blast

section \<open>Revisions\<close>

lemma serialize_memory_Inr: "serialize_memory m = Inr v \<longleftrightarrow> (\<exists>p. memory_path (PStr (mm_path m)) = Inr p \<and> v = m\<lparr>mm_path := p\<rparr>)"
  by (auto simp: serialize_memory_def)

lemma add_revision_Inr:
  "add_revision row now actor plan message db = Inr (v, db') \<longleftrightarrow> serialize_memory row = Inr v \<and>
     db' = db\<lparr>memory_revisions := memory_revisions db @
       [\<lparr>rv_memory = mm_id row, rv_revision = mm_revision row, rv_changed = now, rv_actor = actor, rv_plan = plan,
         rv_message = message, rv_snapshot = snapshot_of v\<rparr>]\<rparr>"
  by (auto simp: add_revision_def)

lemma live_memory_Inr: "live_memory i db = Inr row \<longleftrightarrow> select mm_id i (memories db) = Some row \<and> mm_archived row = None"
  by (auto simp: live_memory_def split: option.splits if_splits)

lemma memory_core_snapshot:
  assumes "memory_core m' = memory_core m" "mm_id m' = mm_id m" "serialize_memory m = Inr v"
  obtains v' where "serialize_memory m' = Inr v'" "snapshot_of v' = snapshot_of v"
proof -
  from assms(3) obtain p where p: "memory_path (PStr (mm_path m)) = Inr p" "v = m\<lparr>mm_path := p\<rparr>" by (auto simp: serialize_memory_Inr)
  have "snapshot_of (m'\<lparr>mm_path := p\<rparr>) = snapshot_of v" using assms(1) unfolding p(2)
    by (cases m; cases m') (simp add: memory_core_def snapshot_of_def)
  moreover have "serialize_memory m' = Inr (m'\<lparr>mm_path := p\<rparr>)" using p(1) memory_core_eq(5) [OF assms(1)] by (simp add: serialize_memory_Inr)
  ultimately show ?thesis using that by blast
qed

text \<open>
  The common part of creation, update and archiving: the row gets its next revision, and nothing of
  another memory is touched.
\<close>

lemma memory_ok_append:
  assumes "map rv_revision (history db (mm_id m)) = map int [1..<n]" "mm_revision m = int n" "1 \<le> n"
    "rv_memory r = mm_id m" "rv_revision r = mm_revision m" "serialize_memory m = Inr v" "rv_snapshot r = snapshot_of v"
    "memory_revisions db' = memory_revisions db @ [r]" "tags_ok (mm_tags m)" "tags_of db' (mm_id m) = mm_tags m"
    "mm_helpful m = int (feedback_count db' (mm_id m))"
  shows "memory_ok db' m"
proof -
  have h: "history db' (mm_id m) = history db (mm_id m) @ [r]" using assms(4,8) by (simp add: history_def)
  have "map rv_revision (history db' (mm_id m)) = map int [1..<Suc (nat (mm_revision m))]"
    unfolding h using assms(1-3,5) by simp
  with h assms show ?thesis by (simp add: memory_ok_def)
qed

lemma memory_ok_cong:
  assumes "memory_ok db m" "history db' (mm_id m) = history db (mm_id m)" "tags_of db' (mm_id m) = tags_of db (mm_id m)"
    "feedback_count db' (mm_id m) = feedback_count db (mm_id m)"
  shows "memory_ok db' m"
  using assms by (simp add: memory_ok_def)

lemma history_snoc: "memory_revisions db' = memory_revisions db @ [r] \<Longrightarrow> rv_memory r \<noteq> i \<Longrightarrow> history db' i = history db i"
  by (simp add: history_def)

lemma tags_of_replace:
  assumes "memory_tags db' = delete_where (\<lambda>(m, t). m = i) (memory_tags db) @ map (\<lambda>t. (i, t)) ts"
  shows "tags_of db' j = (if j = i then ts else tags_of db j)"
proof -
  have "filter (\<lambda>(m, t). m = j) (delete_where (\<lambda>(m, t). m = i) xs) = (if j = i then [] else filter (\<lambda>(m, t). m = j) xs)"
    for xs :: "(string \<times> string) list"
    by (induction xs) (auto simp: delete_where_def)
  moreover have "filter (\<lambda>(m, t). m = j) (map (\<lambda>t. (i, t)) ts) = (if j = i then map (\<lambda>t. (i, t)) ts else [])" by (induction ts) auto
  ultimately show ?thesis by (simp add: tags_of_def assms comp_def)
qed

section \<open>Every operation preserves the invariant\<close>

lemma memory_create_Inr:
  assumes "memory_create_tx content tags path plan_id actor message now ids db = Inr (v, db')"
  obtains i row plan msg where "i \<notin> mm_id ` set (memories db)"
    "mm_id row = i" "mm_revision row = 1" "mm_helpful row = 0" "mm_archived row = None" "tags_ok (mm_tags row)" "serialize_memory row = Inr v"
    "db' = db\<lparr>memories := memories db @ [row], memory_tags := memory_tags db @ map (\<lambda>t. (i, t)) (mm_tags row),
       memory_revisions := memory_revisions db @ [\<lparr>rv_memory = i, rv_revision = 1, rv_changed = now, rv_actor = actor, rv_plan = plan,
         rv_message = msg, rv_snapshot = snapshot_of v\<rparr>]\<rparr>"
proof -
  from assms obtain content' tags' path' plan msg i row where
    "validate_tags True tags = Inr tags'" "find (\<lambda>i. i \<notin> set (map mm_id (memories db))) (take 8 ids) = Some i"
    and row: "row = \<lparr>mm_id = i, mm_created = now, mm_updated = now, mm_content = content', mm_tags = tags', mm_path = path',
          mm_revision = 1, mm_source_plan = plan, mm_last_plan = plan, mm_helpful = 0, mm_helpful_at = None,
          mm_actor = actor, mm_archived = None\<rparr>"
      "add_revision row now actor plan msg
         (db\<lparr>memories := memories db @ [row], memory_tags := memory_tags db @ map (\<lambda>t. (i, t)) tags'\<rparr>) = Inr (v, db')"
    by (auto simp: memory_create_tx_def Let_def split: option.splits)
  moreover from calculation have "tags_ok tags'" "i \<notin> mm_id ` set (memories db)" by (auto intro: validate_tags_Inr dest: find_Some_mem)
  ultimately show ?thesis by (intro that [of i row plan msg]) (simp_all add: add_revision_Inr)
qed

lemma no_memory_no_rows:
  assumes "memory_refs_ok db" "i \<notin> mm_id ` set (memories db)"
  shows "history db i = []" "tags_of db i = []" "feedback_count db i = 0"
proof -
  have "rv_memory r \<noteq> i" if "r \<in> set (memory_revisions db)" for r using assms that by (auto simp: memory_refs_ok_def)
  then show "history db i = []" by (simp add: history_def filter_empty_conv)
  have "j \<noteq> i" if "(j, t) \<in> set (memory_tags db)" for j t using assms that by (force simp: memory_refs_ok_def)
  then show "tags_of db i = []" by (auto simp: tags_of_def filter_empty_conv)
  have "fb_memory f \<noteq> i" if "f \<in> set (memory_feedback db)" for f using assms that by (auto simp: memory_refs_ok_def)
  then show "feedback_count db i = 0" by (simp add: feedback_count_def filter_empty_conv)
qed

lemma memory_create_moves:
  assumes "memory_create_tx content tags path plan_id actor message now ids db = Inr (v, db')" "mem_inv db"
  shows "mem_moves db db'"
proof (rule memory_create_Inr [OF assms(1)])
  fix i row plan msg
  assume c: "i \<notin> mm_id ` set (memories db)"
    "mm_id row = i" "mm_revision row = 1" "mm_helpful row = 0" "mm_archived row = None" "tags_ok (mm_tags row)" "serialize_memory row = Inr v"
    "db' = db\<lparr>memories := memories db @ [row], memory_tags := memory_tags db @ map (\<lambda>t. (i, t)) (mm_tags row),
       memory_revisions := memory_revisions db @ [\<lparr>rv_memory = i, rv_revision = 1, rv_changed = now, rv_actor = actor, rv_plan = plan,
         rv_message = msg, rv_snapshot = snapshot_of v\<rparr>]\<rparr>"
  from assms(2) have inv: "distinct (map mm_id (memories db))" "memory_refs_ok db" "\<And>m. m \<in> set (memories db) \<Longrightarrow> memory_ok db m"
    by (auto simp: mem_inv_def)
  note none = no_memory_no_rows [OF inv(2) c(1)]
  have "delete_where (\<lambda>(m, t). m = i) (memory_tags db) = memory_tags db"
    using none(2) by (auto simp: delete_where_def tags_of_def filter_empty_conv intro!: filter_True)
  then have tags: "tags_of db' j = (if j = i then mm_tags row else tags_of db j)" for j
    using tags_of_replace [of db' i db "mm_tags row"] by (simp add: c(8))
  have fb: "feedback_count db' j = feedback_count db j" for j by (simp add: feedback_count_def c(8))
  have "memory_ok db' row"
    by (rule memory_ok_append [of db row 1]) (use c none tags fb in simp_all)
  moreover have "memory_ok db' m" if h: "m \<in> set (memories db)" for m
  proof (rule memory_ok_cong [OF inv(3) [OF h]])
    from h c(1) have "mm_id m \<noteq> i" by auto
    then show "history db' (mm_id m) = history db (mm_id m)" by (simp add: history_def c(8))
    show "tags_of db' (mm_id m) = tags_of db (mm_id m)" using \<open>mm_id m \<noteq> i\<close> by (simp add: tags)
  qed (rule fb)
  moreover have "memory_refs_ok db'" using inv(2) c(2) by (auto simp: memory_refs_ok_def c(8))
  ultimately have "mem_inv db'" using assms(2) c(1,2) by (auto simp: mem_inv_def c(8))
  moreover have "set (memories db) \<subseteq> set (memories db')" "prefix (memory_revisions db) (memory_revisions db')"
    "memory_feedback db' = memory_feedback db" by (auto simp: c(8))
  ultimately show ?thesis unfolding mem_moves_def mem_later_def using memory_later_refl by (metis prefix_order.refl subsetD)
qed

text \<open>The write of an update or an archiving: the selected live row is replaced by \<open>u\<close>.\<close>

lemma write_memory_moves:
  assumes "mem_inv db" "select mm_id i (memories db) = Some row" "mm_archived row = None"
    and u: "mm_id u = i" "mm_created u = mm_created row" "mm_source_plan u = mm_source_plan row" "mm_revision u = mm_revision row + 1"
      "mm_helpful u = mm_helpful row" "tags_ok (mm_tags u)" "serialize_memory u = Inr v"
    and r: "rv_memory r = i" "rv_revision r = mm_revision u" "rv_snapshot r = snapshot_of v"
    and db': "memories db' = memories (write_memory i (mm_revision row) (\<lambda>_. u) db)" "memory_revisions db' = memory_revisions db @ [r]"
      "memory_feedback db' = memory_feedback db" "fst ` set (memory_tags db') \<subseteq> mm_id ` set (memories db)"
      "\<And>j. tags_of db' j = (if j = i then mm_tags u else tags_of db j)"
  shows "mem_moves db db'"
proof -
  from assms(1) have inv: "distinct (map mm_id (memories db))" "memory_refs_ok db" "\<And>m. m \<in> set (memories db) \<Longrightarrow> memory_ok db m"
    by (auto simp: mem_inv_def)
  from select_Some [OF assms(2)] have row: "row \<in> set (memories db)" "mm_id row = i" by simp_all
  have "(if mm_id m = i \<and> mm_revision m = mm_revision row \<and> mm_archived m = None then u else m) = (if mm_id m = i then u else m)"
    if h: "m \<in> set (memories db)" for m
    using key_unique [OF inv(1) h row(1)] row(2) assms(3) by auto
  then have mems: "memories db' = map (\<lambda>m. if mm_id m = i then u else m) (memories db)"
    unfolding db'(1) write_memory_def update_where_def by (simp cong: map_cong)
  have ids: "map mm_id (memories db') = map mm_id (memories db)" by (simp add: mems u(1))
  have fb: "feedback_count db' j = feedback_count db j" for j by (simp add: feedback_count_def db'(3))
  have ok: "memory_ok db row" by (rule inv(3) [OF row(1)])
  have "memory_ok db' u"
  proof (rule memory_ok_append [OF _ _ _ _ _ u(7) _ db'(2) u(6)])
    show "map rv_revision (history db (mm_id u)) = map int [1..<Suc (nat (mm_revision row))]"
      "mm_revision u = int (Suc (nat (mm_revision row)))" "1 \<le> Suc (nat (mm_revision row))"
      using ok u(1,4) row(2) by (simp_all add: memory_ok_def)
    show "tags_of db' (mm_id u) = mm_tags u" using db'(5) u(1) by simp
    show "mm_helpful u = int (feedback_count db' (mm_id u))" using ok u(1,5) row(2) by (simp add: memory_ok_def fb)
  qed (use r u in simp_all)
  moreover have "memory_ok db' m" if h: "m \<in> set (memories db)" "mm_id m \<noteq> i" for m
    by (rule memory_ok_cong [OF inv(3) [OF h(1)] history_snoc [OF db'(2)] _ fb]) (use h(2) r(1) db'(5) in simp_all)
  moreover have "memory_refs_ok db'"
    using inv(2) r(1) row db'(4) arg_cong [OF ids, of set] imageI [OF row(1), of mm_id]
    by (auto simp: memory_refs_ok_def db'(2,3))
  ultimately have "mem_inv db'" using assms(1) unfolding mem_inv_def ids db'(3) by (auto simp: mems)
  moreover have "memory_later row u" using u assms(3) row(2) by (simp add: memory_later_def)
  then have "\<exists>m' \<in> set (memories db'). memory_later m m'" if h: "m \<in> set (memories db)" for m
    using h key_unique [OF inv(1) h row(1)] row(2) by (cases "mm_id m = i") (force simp: mems)+
  ultimately show ?thesis unfolding mem_moves_def mem_later_def by (simp add: db'(2,3))
qed

lemma save_update_Inr:
  "save_update u expected now actor plan message db = Inr (v, db') \<longleftrightarrow> serialize_memory u = Inr v \<and>
     db' = (write_memory (mm_id u) expected (\<lambda>_. u) db)\<lparr>
       memory_tags := delete_where (\<lambda>(m, t). m = mm_id u) (memory_tags db) @ map (\<lambda>t. (mm_id u, t)) (mm_tags u),
       memory_revisions := memory_revisions db @
         [\<lparr>rv_memory = mm_id u, rv_revision = mm_revision u, rv_changed = now, rv_actor = actor, rv_plan = plan,
           rv_message = message, rv_snapshot = snapshot_of v\<rparr>]\<rparr>"
  by (simp add: save_update_def add_revision_Inr Let_def write_memory_def)

lemma memory_update_Inr:
  assumes "memory_update_tx i changes expected_revision plan_id actor message now db = Inr (v, db')"
  obtains expected plan msg row content tags path where
    "select mm_id i (memories db) = Some row" "mm_archived row = None" "mm_revision row = expected"
    "changed_content changes row = Inr content" "changed_path changes row = Inr path"
    "validate_tags True (dict_get_default changes ''tags'' (PList (map PStr (mm_tags row)))) = Inr tags"
    "save_update (row\<lparr>mm_updated := now, mm_content := content, mm_tags := tags, mm_path := path, mm_revision := expected + 1,
       mm_last_plan := plan, mm_actor := actor\<rparr>) expected now actor plan msg db = Inr (v, db')"
  using assms by (auto simp: memory_update_tx_def live_memory_Inr split: if_splits)

lemma memory_update_moves:
  assumes "memory_update_tx i changes expected_revision plan_id actor message now db = Inr (v, db')" "mem_inv db"
  shows "mem_moves db db'"
proof (rule memory_update_Inr [OF assms(1)])
  fix expected plan msg content tags path and row :: memory
  define u where "u = row\<lparr>mm_updated := now, mm_content := content, mm_tags := tags, mm_path := path, mm_revision := expected + 1,
       mm_last_plan := plan, mm_actor := actor\<rparr>"
  assume row: "select mm_id i (memories db) = Some row" "mm_archived row = None" "mm_revision row = expected"
    and tags: "validate_tags True (dict_get_default changes ''tags'' (PList (map PStr (mm_tags row)))) = Inr tags"
    and "save_update (row\<lparr>mm_updated := now, mm_content := content, mm_tags := tags, mm_path := path, mm_revision := expected + 1,
       mm_last_plan := plan, mm_actor := actor\<rparr>) expected now actor plan msg db = Inr (v, db')"
  then have "save_update u expected now actor plan msg db = Inr (v, db')" by (simp add: u_def)
  note db' = this [unfolded save_update_Inr]
  have i: "mm_id row = i" "row \<in> set (memories db)" "mm_id u = i" using select_Some [OF row(1)] by (simp_all add: u_def)
  have old: "fst ` set (memory_tags db) \<subseteq> mm_id ` set (memories db)" using assms(2) by (auto simp: mem_inv_def memory_refs_ok_def)
  have tg: "memory_tags db' = delete_where (\<lambda>(m, t). m = i) (memory_tags db) @ map (\<lambda>t. (i, t)) (mm_tags u)"
    using db' by (simp add: i)
  show ?thesis
  proof (rule write_memory_moves [OF assms(2) row(1,2), of u v])
    show "tags_ok (mm_tags u)" using validate_tags_Inr [OF tags] by (simp add: u_def)
    show "fst ` set (memory_tags db') \<subseteq> mm_id ` set (memories db)"
      using old i by (auto simp: tg delete_where_def)
    show "tags_of db' j = (if j = i then mm_tags u else tags_of db j)" for j by (rule tags_of_replace [OF tg])
    show "memories db' = memories (write_memory i (mm_revision row) (\<lambda>_. u) db)" using db' row(3) i by simp
    show "memory_feedback db' = memory_feedback db" using db' by (simp add: write_memory_def)
    show "serialize_memory u = Inr v" using db' by simp
    show "memory_revisions db' = memory_revisions db @
        [\<lparr>rv_memory = mm_id u, rv_revision = mm_revision u, rv_changed = now, rv_actor = actor, rv_plan = plan,
          rv_message = msg, rv_snapshot = snapshot_of v\<rparr>]" using db' by simp
  qed (simp_all add: u_def i row(3))
qed

lemma memory_archive_moves:
  assumes "memory_archive_tx i expected_revision plan_id actor message now db = Inr (v, db')" "mem_inv db"
  shows "mem_moves db db'"
proof -
  from assms(1) obtain expected plan msg row u where
    row: "select mm_id i (memories db) = Some row" "mm_archived row = None" "mm_revision row = expected"
    and u: "u = row\<lparr>mm_updated := now, mm_archived := Some now, mm_revision := expected + 1, mm_last_plan := plan, mm_actor := actor\<rparr>"
    and rev_row: "add_revision u now actor plan msg (write_memory i expected (\<lambda>_. u) db) = Inr (v, db')"
    by (auto simp: memory_archive_tx_def Let_def live_memory_Inr split: if_splits)
  have i: "mm_id row = i" "row \<in> set (memories db)" using select_Some [OF row(1)] by simp_all
  note db' = rev_row [unfolded add_revision_Inr]
  have ok: "memory_ok db row" and old: "fst ` set (memory_tags db) \<subseteq> mm_id ` set (memories db)"
    using assms(2) i(2) by (auto simp: mem_inv_def memory_refs_ok_def)
  have tg: "memory_tags db' = memory_tags db" using db' by (simp add: write_memory_def)
  show ?thesis
  proof (rule write_memory_moves [OF assms(2) row(1,2), of u v])
    show "tags_ok (mm_tags u)" using ok by (simp add: u memory_ok_def)
    show "fst ` set (memory_tags db') \<subseteq> mm_id ` set (memories db)" using old by (simp add: tg)
    show "tags_of db' j = (if j = i then mm_tags u else tags_of db j)" for j using ok i(1) by (simp add: tags_of_def tg u memory_ok_def)
    show "memories db' = memories (write_memory i (mm_revision row) (\<lambda>_. u) db)" using db' row(3) by simp
    show "memory_feedback db' = memory_feedback db" using db' by (simp add: write_memory_def)
    show "serialize_memory u = Inr v" using db' by simp
    show "memory_revisions db' = memory_revisions db @
        [\<lparr>rv_memory = mm_id u, rv_revision = mm_revision u, rv_changed = now, rv_actor = actor, rv_plan = plan,
          rv_message = msg, rv_snapshot = snapshot_of v\<rparr>]" using db' by (simp add: write_memory_def)
  qed (simp_all add: u i row(3))
qed

lemma record_feedback_moves:
  assumes "record_feedback plan actor now (i, r) db = Inr (x, db')" "mem_inv db"
  shows "mem_moves db db'"
proof (cases "find (\<lambda>f. fb_plan f = plan \<and> fb_memory f = i) (memory_feedback db)")
  case (Some existing)
  with assms show ?thesis by (auto simp: record_feedback_def mem_moves_def split: if_splits)
next
  case None
  define g where "g m = (if mm_id m = i then m\<lparr>mm_helpful := mm_helpful m + 1, mm_helpful_at := Some now\<rparr> else m)" for m :: memory
  have "update_where (\<lambda>m. mm_id m = i) (\<lambda>m. m\<lparr>mm_helpful := mm_helpful m + 1, mm_helpful_at := Some now\<rparr>) xs = map g xs" for xs
    by (simp add: update_where_def g_def)
  note upd = this
  define f where "f = \<lparr>fb_plan = plan, fb_memory = i, fb_revision = r, fb_actor = actor, fb_created = now\<rparr>"
  have i: "i \<in> mm_id ` set (memories db)" and db': "db' = db\<lparr>memory_feedback := memory_feedback db @ [f], memories := map g (memories db)\<rparr>"
    using assms(1) None by (auto simp: record_feedback_def upd memory_revision_def f_def split: if_splits)
  have f: "fb_plan f = plan" "fb_memory f = i" by (simp_all add: f_def)
  have fresh: "(plan, i) \<notin> (\<lambda>f. (fb_plan f, fb_memory f)) ` set (memory_feedback db)" using None by (auto simp: find_None_iff)
  have core: "memory_core (g m) = memory_core m" "mm_id (g m) = mm_id m" "mm_created (g m) = mm_created m"
      "mm_source_plan (g m) = mm_source_plan m" for m
    by (simp_all add: g_def memory_core_def)
  have ok: "memory_ok db' (g m)" if h: "m \<in> set (memories db)" for m
  proof -
    have m: "memory_ok db m" using assms(2) h by (simp add: mem_inv_def)
    then obtain v where v: "serialize_memory m = Inr v" "rv_snapshot (last (history db (mm_id m))) = snapshot_of v"
      by (auto simp: memory_ok_def)
    obtain v' where "serialize_memory (g m) = Inr v'" "snapshot_of v' = snapshot_of v"
      by (rule memory_core_snapshot [OF core(1,2) v(1)])
    moreover have "mm_helpful (g m) = int (feedback_count db' (mm_id m))"
      using m f(2) by (simp add: memory_ok_def g_def feedback_count_def db')
    moreover have "history db' (mm_id m) = history db (mm_id m)" "tags_of db' (mm_id m) = tags_of db (mm_id m)"
      by (simp_all add: history_def tags_of_def db')
    ultimately show ?thesis
      using m v(2) memory_core_eq(1,4) [OF core(1) [of m]] by (auto simp: memory_ok_def core(2))
  qed
  have ids: "map mm_id (map g (memories db)) = map mm_id (memories db)" by (simp add: core(2) comp_def)
  have "memory_refs_ok db'" using assms(2) i f(2) by (auto simp: mem_inv_def memory_refs_ok_def db' image_image core(2))
  then have "mem_inv db'" using assms(2) ok fresh f by (simp add: mem_inv_def db' core(2) comp_def)
  moreover have "memory_later m (g m)" for m
    using core [of m] memory_core_eq(1) [OF core(1) [of m]] by (simp add: memory_later_def g_def)
  ultimately show ?thesis by (auto simp: mem_moves_def mem_later_def db')
qed

lemma record_feedback_loop_moves:
  "record_feedback_loop plan actor clock k items db = Inr (xs, db') \<Longrightarrow> mem_inv db \<Longrightarrow> mem_moves db db'"
proof (induction items arbitrary: k db xs)
  case (Cons item items)
  from Cons.prems(1) obtain x ys db1 where "record_feedback plan actor (clock k) item db = Inr (x, db1)"
    and loop: "record_feedback_loop plan actor clock (k + 1) items db1 = Inr (ys, db')" by auto
  with Cons.prems(2) have "mem_moves db db1" by (cases item) (simp add: record_feedback_moves)
  moreover from this Cons.IH [OF loop] have "mem_moves db1 db'" by (simp add: mem_moves_def)
  ultimately show ?case by (rule mem_moves_trans)
qed (simp add: mem_moves_def)

section \<open>The store as a state machine\<close>

inductive mem_step :: "memory_db \<Rightarrow> memory_db \<Rightarrow> bool" where
  create: "mem_step db (snd (commit (memory_create_tx content tags path plan_v actor message now ids) db))"
| update: "mem_step db (snd (commit (memory_update_tx i changes expected plan_v actor message now) db))"
| archive: "mem_step db (snd (commit (memory_archive_tx i expected plan_v actor message now) db))"
| feedback: "mem_step db (snd (commit (record_helpful_feedback_tx plan_v items actor clock) db))"

lemma mem_step_tx:
  "memory_create_tx content tags path plan_v actor message now ids db = Inr (x, db') \<Longrightarrow> mem_step db db'"
  "memory_update_tx i changes expected plan_v actor message now db = Inr (x, db') \<Longrightarrow> mem_step db db'"
  "memory_archive_tx i expected plan_v actor message now db = Inr (x, db') \<Longrightarrow> mem_step db db'"
  "record_helpful_feedback_tx plan_v items actor clock db = Inr (y, db') \<Longrightarrow> mem_step db db'"
  using mem_step.create [of db content tags path plan_v actor message now ids]
    mem_step.update [of db i changes expected plan_v actor message now]
    mem_step.archive [of db i expected plan_v actor message now] mem_step.feedback [of db plan_v items actor clock]
  by (simp_all add: commit_snd)

lemma mem_step_moves:
  assumes "mem_step db db'" "mem_inv db"
  shows "mem_moves db db'"
proof -
  have same: "mem_moves db db" using assms(2) by (simp add: mem_moves_def)
  have fb: "mem_moves db s" if "record_helpful_feedback_tx plan_v items actor clock db = Inr (x, s)" for plan_v items actor clock x s
    using that assms(2) by (auto simp: record_helpful_feedback_tx_def intro: record_feedback_loop_moves split: if_splits)
  from assms show ?thesis
    by cases (metis same snd_commit memory_create_moves memory_update_moves memory_archive_moves fb)+
qed

interpretation mem: evolving "\<lambda>db. db = empty_memory" mem_step mem_inv mem_later
  by unfold_locales (auto simp: empty_memory_inv mem_moves_def dest: mem_step_moves intro: mem_later_trans)

end
