(* ===== verification/Completion_Safety.thy ===== *)
theory Completion_Safety
  imports Plan_Completion Context_Lifecycle Memory_Safety
begin

text \<open>
  Why the completion of a plan is all or nothing although it commits to two databases, unless a
  database fails in its last step: the rehearsal accepts exactly what the final update needs, so the
  final update is not refused.  The locale
  \<open>rehearsed_commit\<close> is the contract between the two stores and the handler; the interpretation at the
  end discharges it for the Context and the Memory store.
\<close>

section \<open>The contract\<close>

locale rehearsed_commit =
  fixes rehearse :: "'s \<Rightarrow> 'x result" and second :: "'s \<Rightarrow> ('m, 'd) tx" and final :: "'d \<Rightarrow> ('s, 'a) tx"
  assumes rehearsed: "rehearse s = Inr x \<Longrightarrow> second s m = Inr (d, m') \<Longrightarrow> \<exists>y s'. final d s = Inr (y, s')"
begin

lemma all_or_nothing:
  assumes "two_phase fault rehearse second final (s, m) = (Inl e, (s', m'))"
  shows "s' = s \<and> (m' = m \<or> fault = Some (At_Commit e) \<and> (\<exists>d. second s m = Inr (d, m')))"
  using assms rehearsed by (fastforce simp: two_phase_def split: sum.splits prod.splits option.splits db_fault.splits)

lemma both_or_nothing:
  "two_phase fault rehearse second final (s, m) = (Inr (d, y), (s', m')) \<Longrightarrow> second s m = Inr (d, m') \<and> final d s = Inr (y, s')"
  by (auto simp: two_phase_def split: sum.splits option.splits db_fault.splits)

end

section \<open>The time does not decide\<close>

lemma append_items_time: "append_items cid t items last_id count latest = Inr rows \<Longrightarrow> \<exists>rows'. append_items cid t' items last_id count latest = Inr rows'"
proof (induction cid t items last_id count latest arbitrary: rows rule: append_items.induct)
  case (2 cid now role content items last_id count latest)
  then show ?case by (auto simp: Let_def split: if_splits)
qed simp

lemma append_conversation_time:
  assumes "append_conversation_tx v n es ai t db = Inr (rows, db1)"
  shows "\<exists>rows' db1'. append_conversation_tx v n es ai t' db = Inr (rows', db1') \<and> conv_db.more db1' = conv_db.more db"
  using assms append_items_time [of _ t _ _ _ _ _ t'] by (fastforce simp: append_conversation_tx_def append_locked_def Let_def)

text \<open>What an update depends on, beside the debrief and the clock.\<close>

definition same_update :: "plan_update \<Rightarrow> checked_update \<Rightarrow> plan_update \<Rightarrow> checked_update \<Rightarrow> bool" where
  "same_update u c u' c' \<longleftrightarrow> pu_conv u' = pu_conv u \<and> pu_nonce u' = pu_nonce u \<and> pu_entries u' = pu_entries u \<and>
     cu_expected c' = cu_expected c \<and> cu_status c' = cu_status c \<and> cu_append c' = cu_append c \<and>
     (cu_debrief c' = None \<longleftrightarrow> cu_debrief c = None)"

lemma update_conversation_time:
  assumes "update_conversation u c row t db = Inr (x, db1)" "same_update u c u' c'"
  shows "\<exists>conv appended db1'. update_conversation u' c' row t' db = Inr ((conv, appended), db1') \<and> conv_db.more db1' = conv_db.more db"
proof (cases "cu_append c")
  case True
  with assms(1) obtain k rows where k: "validate_conversation_id (pu_conv u) = Inr k" "\<not> (en_conv row \<noteq> None \<and> en_conv row \<noteq> Some k)"
    and a: "append_conversation_tx (PInt k) (pu_nonce u) (pu_entries u) (cu_status c = Some Plan_Completed) t db = Inr (rows, db1)"
    by (auto simp: update_conversation_def split: if_splits)
  from append_conversation_time [OF a] k True assms(2) show ?thesis
    unfolding update_conversation_def same_update_def by fastforce
next
  case False
  with assms(2) show ?thesis by (simp add: update_conversation_def same_update_def)
qed

lemma write_update_total:
  fixes db :: "'z ctx_db_scheme"
  assumes "length (filter (\<lambda>r. en_id r = i \<and> en_type r = Plan \<and> en_revision r = cu_expected c) (context_entries db)) = 1"
  shows "\<exists>p db'. write_update c i conv appended t1 t2 db = Inr (p, db')"
proof -
  let ?P = "\<lambda>r. en_id r = i \<and> en_type r = Plan \<and> en_revision r = cu_expected c"
  from assms have "filter ?P (context_entries db) \<noteq> []" by auto
  then have "i \<in> en_id ` set (context_entries db)" by (auto simp: filter_empty_conv)
  then have "i \<in> set (map en_id (update_where ?P (updated_row c conv t1) (context_entries db)))"
    by (subst map_update_where) (simp_all add: updated_row_def)
  then have "i \<in> en_id ` set (update_where ?P (updated_row c conv t1) (context_entries db))" by simp
  then obtain r where r: "select en_id i (update_where ?P (updated_row c conv t1) (context_entries db)) = Some r"
    by (cases "select en_id i (update_where ?P (updated_row c conv t1) (context_entries db))") (simp_all add: select_None)
  show ?thesis using assms by (cases "cu_debrief c") (simp_all add: write_update_def Let_def r)
qed

lemma write_update_one:
  "write_update c i conv appended t1 t2 db = Inr (p, db') \<Longrightarrow>
   length (filter (\<lambda>r. en_id r = i \<and> en_type r = Plan \<and> en_revision r = cu_expected c) (context_entries db)) = 1"
  by (auto simp: write_update_def Let_def split: if_splits)

lemma update_plan_apply_rehearsed:
  fixes db :: "'z ctx_db_scheme"
  assumes "update_plan_apply i u c t0 t1 t2 db = Inr (p, db')" "same_update u c u' c'"
  shows "\<exists>p' db''. update_plan_apply i u' c' t0' t1' t2' db = Inr (p', db'')"
  using assms(1)
proof (cases rule: update_plan_apply_cases)
  case (1 row conv appended db1)
  obtain conv' appended' db1' where uc: "update_conversation u' c' row t0' db = Inr ((conv', appended'), db1')"
    and more: "conv_db.more db1' = conv_db.more db"
    using update_conversation_time [OF 1(6) assms(2)] by blast
  obtain x y dbx where "update_conversation u c row t0 db = Inr ((x, y), dbx)" "conv_db.more dbx = conv_db.more db"
    using update_conversation_time [OF 1(6), of u c t0] by (auto simp: same_update_def)
  with 1(6) have "conv_db.more db1 = conv_db.more db" by simp
  with more have "context_entries db1' = context_entries db1" using ctx_fields_more by metis
  with write_update_one [OF 1(7)] assms(2)
  have "length (filter (\<lambda>r. en_id r = i \<and> en_type r = Plan \<and> en_revision r = cu_expected c') (context_entries db1')) = 1"
    by (simp add: same_update_def)
  then obtain p' db'' where "write_update c' i conv' appended' t1' t2' db1' = Inr (p', db'')" using write_update_total by blast
  with 1 uc assms(2) select_Some [OF 1(1)] show ?thesis by (auto simp: update_plan_apply_def same_update_def closed_for_good_def)
qed

section \<open>The debrief that the handler builds is accepted\<close>

lemma completion_tags_Inr:
  assumes "completion_tags index done tags = Inr ts"
  shows "\<exists>new. ts = done @ new \<and> length new = length tags \<and>
    (distinct done \<longrightarrow> distinct ts) \<and> (\<forall>t \<in> set new. strip t = t \<and> t \<noteq> [] \<and> length t \<le> 64)"
  using assms
proof (induction index "done" tags arbitrary: ts rule: completion_tags.induct)
  case (2 index "done" tag tags)
  from "2.prems" obtain s where s: "tag = PStr s" "strip s \<noteq> []" "length (strip s) \<le> 64" "strip s \<notin> set done"
    and rest: "completion_tags index (done @ [strip s]) tags = Inr ts"
    by (auto split: pyval.splits if_splits)
  from "2.IH" [OF s(1) _ _ rest] s(2-4) obtain new where "ts = (done @ [strip s]) @ new" "length new = length tags"
    "distinct (done @ [strip s]) \<longrightarrow> distinct ts" "\<forall>t \<in> set new. strip t = t \<and> t \<noteq> [] \<and> length t \<le> 64" by auto
  with s show ?case by (intro exI [of _ "strip s # new"]) auto
qed simp

lemma validate_tags_loop_stable:
  "distinct (done @ ts) \<Longrightarrow> \<forall>t \<in> set ts. strip t = t \<and> t \<noteq> [] \<and> length t \<le> 64 \<Longrightarrow>
   validate_tags_loop index done (map PStr ts) = Inr (done @ ts)"
proof (induction ts arbitrary: "done")
  case (Cons t ts)
  then have "validate_tags_loop index (done @ [t]) (map PStr ts) = Inr ((done @ [t]) @ ts)" by (intro Cons.IH) auto
  with Cons.prems show ?case by simp
qed simp

lemma completion_item_accepted:
  assumes "completion_item index v = Inr x"
  shows "validate_debrief_item j (item_value x) = Inr x"
proof -
  from assms obtain d content tags ts where v: "v = PDict d" "dict_get d ''content'' = PStr content" "dict_get d ''tags'' = PList tags"
    "strip content \<noteq> []" "length (strip content) \<le> 256" "tags \<noteq> []" "length tags \<le> 32" "completion_tags index [] tags = Inr ts"
    "x = (strip content, ts)"
    by (auto simp: completion_item_def split: pyval.splits if_splits)
  from completion_tags_Inr [OF v(8)] have ts: "length ts = length tags" "distinct ts" "\<forall>t \<in> set ts. strip t = t \<and> t \<noteq> [] \<and> length t \<le> 64" by auto
  with v(6,7) have "ts \<noteq> []" "length ts \<le> 32" by auto
  with ts validate_tags_loop_stable [of "[]" ts j] v(4,5,9) show ?thesis
    by (simp add: validate_debrief_item_def item_value_def dict_get_def)
qed

lemma completion_items_accepted:
  "completion_items k vs = Inr xs \<Longrightarrow> length xs = length vs \<and> validate_debrief_loop j (map item_value xs) = Inr xs"
proof (induction vs arbitrary: k j xs)
  case (Cons v vs)
  then obtain x ys where x: "completion_item k v = Inr x" and ys: "completion_items (k + 1) vs = Inr ys" "xs = x # ys" by auto
  with Cons.IH [OF ys(1), of "j + 1"] completion_item_accepted [OF x, of j] show ?case by simp
qed simp

text \<open>A debrief value that \<open>update_plan\<close> takes.\<close>

definition accepted_debrief :: "pyval \<Rightarrow> bool" where
  "accepted_debrief v \<longleftrightarrow> (\<exists>d items outcome refs feedback conflicts. v = PDict d \<and> validate_debrief_items (dict_get d ''items'') = Inr items \<and>
     debrief_outcome (dict_get d ''outcome'') = Inr outcome \<and> array_field d ''memory_refs'' = Inr refs \<and>
     array_field d ''memory_feedback'' = Inr feedback \<and> array_field d ''memory_conflicts'' = Inr conflicts)"

lemma debrief_value_accepted:
  assumes "debrief_request v = Inr q"
  shows "accepted_debrief (debrief_value q refs feedback conflicts)"
proof -
  from assms obtain raw where raw: "\<not> 20 < length raw" "completion_items 0 raw = Inr (dr_items q)"
    and "dr_outcome q \<in> set [''succeeded'', ''partial'', ''no_change'']"
    by (auto simp: debrief_request_def bounded_array_def completion_outcome_def split: pyval.splits if_splits)
  then have "debrief_outcome (PStr (dr_outcome q)) = Inr (dr_outcome q)" by (auto simp: debrief_outcome_def)
  moreover have "validate_debrief_items (PList (map item_value (dr_items q))) = Inr (dr_items q)"
    using raw(1) completion_items_accepted [OF raw(2), of 0] by (simp add: validate_debrief_items_def)
  ultimately show ?thesis
    by (simp add: accepted_debrief_def debrief_value_def dict_get_def array_field_def dict_get_default_def)
qed

lemma apply_memory_debrief_accepted:
  "apply_memory_debrief senv env i actor v ctx sf sa db = Inr (d, db') \<Longrightarrow> accepted_debrief d"
  by (auto simp: apply_memory_debrief_def debrief_value_accepted)

lemma checked_update_rehearsed:
  assumes "checked_update (u\<lparr>pu_debrief := no_change_debrief, pu_actor := a\<rparr>) = Inr c" "accepted_debrief d"
  shows "\<exists>x. checked_update (u\<lparr>pu_debrief := d, pu_actor := a\<rparr>) = Inr (c\<lparr>cu_debrief := Some x\<rparr>) \<and> cu_debrief c \<noteq> None"
proof -
  from assms(2) obtain fields where d: "d = PDict fields" by (auto simp: accepted_debrief_def)
  from assms(1) obtain c0 where c0: "checked_debrief (u\<lparr>pu_debrief := no_change_debrief, pu_actor := a\<rparr>) = Inr c0" "cu_debrief c = c0"
    by (auto simp: checked_update_def Let_def split: if_splits)
  from c0(1) have ok: "pu_status u = Some ''completed''" "\<exists>actor. optional validate_actor_id a = Inr actor" "c0 \<noteq> None"
    by (auto simp: checked_debrief_def no_change_debrief_def split: if_splits)
  with assms(2) obtain x where "checked_debrief (u\<lparr>pu_debrief := d, pu_actor := a\<rparr>) = Inr (Some x)"
    by (auto simp: checked_debrief_def accepted_debrief_def)
  with assms(1) c0 ok show ?thesis
    by (auto simp: checked_update_def Let_def no_change_debrief_def d split: if_splits)
qed

lemma update_rehearsed:
  fixes db :: ctx_db
  assumes "update_plan_tx i (u\<lparr>pu_debrief := no_change_debrief, pu_actor := a\<rparr>) True t0 t1 t2 db = Inr x" "accepted_debrief d"
  shows "\<exists>p db'. update_plan_tx i (u\<lparr>pu_debrief := d, pu_actor := a\<rparr>) False t0' t1' t2' db = Inr (p, db')"
proof -
  let ?u = "u\<lparr>pu_debrief := no_change_debrief, pu_actor := a\<rparr>" and ?v = "u\<lparr>pu_debrief := d, pu_actor := a\<rparr>"
  from assms(1) obtain c p db' where c: "checked_update ?u = Inr c" and ap: "update_plan_apply i ?u c t0 t1 t2 db = Inr (p, db')"
    by (auto simp: update_plan_tx_def)
  from checked_update_rehearsed [OF c assms(2)] obtain y where y: "checked_update ?v = Inr (c\<lparr>cu_debrief := Some y\<rparr>)" "cu_debrief c \<noteq> None" by blast
  then have "same_update ?u c ?v (c\<lparr>cu_debrief := Some y\<rparr>)" by (simp add: same_update_def)
  from update_plan_apply_rehearsed [OF ap this] y(1) show ?thesis by (simp add: update_plan_tx_def)
qed

interpretation completion: rehearsed_commit "rehearse_completion i u actor t0 t1 t2"
  "\<lambda>ctx. apply_memory_debrief senv env i (Some actor) v ctx seen_feedback seen_actions"
  "\<lambda>debrief. update_plan_tx i (u\<lparr>pu_debrief := debrief, pu_actor := PStr actor\<rparr>) False t3 t4 t5"
  for i u actor t0 t1 t2 senv env v seen_feedback seen_actions t3 t4 t5
proof unfold_locales
  fix s x m d m'
  assume "rehearse_completion i u actor t0 t1 t2 s = Inr x"
    and d: "apply_memory_debrief senv env i (Some actor) v s seen_feedback seen_actions m = Inr (d, m')"
  then obtain y where "update_plan_tx i (u\<lparr>pu_debrief := no_change_debrief, pu_actor := PStr actor\<rparr>) True t0 t1 t2 s = Inr y"
    by (auto simp: rehearse_completion_def split: if_splits)
  from update_rehearsed [OF this apply_memory_debrief_accepted [OF d]]
  show "\<exists>y s'. update_plan_tx i (u\<lparr>pu_debrief := d, pu_actor := PStr actor\<rparr>) False t3 t4 t5 s = Inr (y, s')" .
qed

end
