(* ===== verification/Preflight_Safety.thy ===== *)
theory Preflight_Safety
  imports Plan_Completion Memory_Safety
begin

text \<open>
  The preflight of a batch of memory actions simulates the batch on revision numbers only.  This
  theory relates the simulation to the tables: while every path is stable under normalization, a batch
  that passes the preflight is applied without an error, also after the debrief items of the same
  completion have been created.
\<close>

section \<open>Checks\<close>

lemma length_show_nat: "n < 10 ^ k \<Longrightarrow> 0 < k \<Longrightarrow> length (show_nat n) \<le> k"
proof (induction n arbitrary: k rule: show_nat.induct)
  case (1 n)
  show ?case
  proof (cases "n < 10")
    case True
    with "1.prems" show ?thesis by (simp add: show_nat.simps [of n])
  next
    case False
    from False "1.prems" obtain j where j: "k = Suc j" "0 < j" by (cases k; cases "k - 1") auto
    then have "n div 10 < 10 ^ j" using "1.prems" by auto
    from "1.IH" [OF False this j(2)] j False show ?thesis by (simp add: show_nat.simps [of n])
  qed
qed

lemma strip_keeps: "s \<noteq> [] \<Longrightarrow> \<not> is_space (hd s) \<Longrightarrow> strip s \<noteq> []"
proof -
  assume "s \<noteq> []" "\<not> is_space (hd s)"
  then obtain c cs where "s = c # cs" "\<not> is_space c" by (cases s) auto
  then show "strip s \<noteq> []" by (auto simp: strip_def lstrip_def)
qed

lemma plan_message:
  assumes "1 \<le> plan_id" "plan_id < 2 ^ 63" "length what \<le> 100"
  shows "\<exists>m. required_text ''change message'' MAX_MEMORY_CHANGE_MESSAGE_CHARS (PStr (''Plan '' @ show_int plan_id @ what)) = Inr m"
proof -
  let ?s = "''Plan '' @ show_int plan_id @ what"
  have "nat plan_id < 10 ^ 19" using assms(2) by simp
  then have "length (show_int plan_id) \<le> 19" using assms(1) length_show_nat [of "nat plan_id" 19] by (simp add: show_int_def)
  then have "length ?s \<le> 200" using assms(3) by simp
  then have "length (strip ?s) \<le> 200" using length_strip_le [of ?s] by linarith
  moreover have "strip ?s \<noteq> []" by (rule strip_keeps) (simp_all add: is_space_def)
  ultimately show ?thesis by (simp add: required_text_Inr MAX_MEMORY_CHANGE_MESSAGE_CHARS_def)
qed

lemma unknown_fields_Inr: "unknown_fields label allowed d = Inr u \<longleftrightarrow> fst ` set d \<subseteq> set allowed"
proof -
  have "sort (filter (\<lambda>k. k \<notin> set allowed) (remdups (map fst d))) = [] \<longleftrightarrow> fst ` set d \<subseteq> set allowed"
    unfolding sort_key_Nil by (auto simp: filter_empty_conv)
  then show ?thesis by (simp add: unknown_fields_def Let_def)
qed

lemma dict_has_default: "dict_has d k \<Longrightarrow> dict_get_default d k v = dict_get d k"
  by (auto simp: dict_has_def dict_get_default_def dict_get_def split: option.splits dest!: map_of_eq_None_iff [THEN iffD1])

lemma dict_get_absent: "\<not> dict_has d k \<Longrightarrow> dict_get_default d k v = v"
  by (simp add: dict_has_def dict_get_default_def map_of_eq_None_iff [symmetric])

section \<open>Stable paths\<close>

text \<open>A stored path that normalizes to itself.  Not every accepted path does: see \<open>preflight_gap\<close>.\<close>

definition stable_path :: "string \<Rightarrow> bool" where
  "stable_path p \<longleftrightarrow> memory_path (PStr p) = Inr p"

definition paths_stable :: "memory_db \<Rightarrow> bool" where
  "paths_stable db \<longleftrightarrow> (\<forall>m \<in> set (memories db). stable_path (mm_path m))"

definition action_stable :: "pyval \<Rightarrow> bool" where
  "action_stable v =
     (case v of PDict d \<Rightarrow> (case memory_path (dict_get d ''path'') of Inr p \<Rightarrow> stable_path p | Inl _ \<Rightarrow> True) | _ \<Rightarrow> True)"

lemma serialize_stable: "stable_path (mm_path m) \<Longrightarrow> serialize_memory m = Inr m"
  by (simp add: serialize_memory_def stable_path_def)

lemma write_memory_select:
  assumes "mem_inv db" "select mm_id i (memories db) = Some row" "mm_archived row = None" "mm_id u = i"
  shows "select mm_id j (memories (write_memory i (mm_revision row) (\<lambda>_. u) db)) = (if j = i then Some u else select mm_id j (memories db))"
proof -
  have "select mm_id j (memories (write_memory i (mm_revision row) (\<lambda>_. u) db)) =
      map_option (\<lambda>r. if mm_id r = i \<and> mm_revision r = mm_revision row \<and> mm_archived r = None then u else r) (select mm_id j (memories db))"
    unfolding write_memory_def by (simp, rule select_update_where) (simp add: assms(4))
  also have "\<dots> = (if j = i then Some u else select mm_id j (memories db))"
  proof (cases "select mm_id j (memories db)")
    case None
    with assms(2) show ?thesis by auto
  next
    case (Some r)
    from select_Some [OF this] have "mm_id r = j" by simp
    moreover have "mm_id row = i" using select_Some [OF assms(2)] by simp
    moreover have "r = row" if "j = i" using that Some assms(2) by simp
    ultimately show ?thesis using Some assms(3) by (cases "j = i") simp_all
  qed
  finally show ?thesis .
qed

lemma write_memory_stable:
  "paths_stable db \<Longrightarrow> stable_path (mm_path u) \<Longrightarrow> memories db' = memories (write_memory i r (\<lambda>_. u) db) \<Longrightarrow> paths_stable db'"
  by (auto simp: paths_stable_def write_memory_def set_update_where)

section \<open>One action\<close>

lemma update_succeeds:
  assumes "mem_inv db" "paths_stable db" "select mm_id i (memories db) = Some row" "mm_archived row = None"
    "memory_revision expected = Inr (mm_revision row)" "memory_plan_id True plan_v = Inr plan"
    "required_text ''change message'' MAX_MEMORY_CHANGE_MESSAGE_CHARS message = Inr msg"
    "fst ` set changes \<subseteq> set [''content'', ''tags'', ''path'']" "check_changes changes = Inr u0"
    "\<And>p. dict_has changes ''path'' \<Longrightarrow> memory_path (dict_get changes ''path'') = Inr p \<Longrightarrow> stable_path p"
  shows "\<exists>u db'. memory_update_tx i changes expected plan_v actor message now db = Inr (u, db') \<and> paths_stable db' \<and>
    mm_id u = i \<and> mm_revision u = mm_revision row + 1 \<and> mm_archived u = None \<and>
    (\<forall>j. select mm_id j (memories db') = (if j = i then Some u else select mm_id j (memories db)))"
proof -
  have row: "row \<in> set (memories db)" "mm_id row = i" using select_Some [OF assms(3)] by simp_all
  have path_ok: "stable_path (mm_path row)" using assms(2) row(1) by (simp add: paths_stable_def)
  have "tags_ok (mm_tags row)" using assms(1) row(1) by (auto simp: mem_inv_def memory_ok_def)
  note stored = validate_tags_stable [OF this]
  from assms(9) have ne: "changes \<noteq> []" by (auto simp: check_changes_def)
  from assms(9) obtain content where content: "changed_content changes row = Inr content"
    by (auto simp: check_changes_def changed_content_def split: if_splits)
  from assms(9) obtain tags where tags: "validate_tags True (dict_get_default changes ''tags'' (PList (map PStr (mm_tags row)))) = Inr tags"
    using stored by (cases "dict_has changes ''tags''") (auto simp: check_changes_def dict_has_default dict_get_absent split: if_splits)
  from assms(9) path_ok assms(10) obtain path where path: "changed_path changes row = Inr path" "stable_path path"
    by (cases "dict_has changes ''path''") (auto simp: check_changes_def changed_path_def stable_path_def split: if_splits)
  define u where "u = row\<lparr>mm_updated := now, mm_content := content, mm_tags := tags, mm_path := path,
    mm_revision := mm_revision row + 1, mm_last_plan := plan, mm_actor := actor\<rparr>"
  have u: "mm_id u = i" "mm_revision u = mm_revision row + 1" "mm_archived u = None" "stable_path (mm_path u)"
    using row(2) assms(4) path(2) by (simp_all add: u_def)
  define db' where "db' = (write_memory (mm_id u) (mm_revision row) (\<lambda>_. u) db)\<lparr>
       memory_tags := delete_where (\<lambda>(m, t). m = mm_id u) (memory_tags db) @ map (\<lambda>t. (mm_id u, t)) (mm_tags u),
       memory_revisions := memory_revisions db @
         [\<lparr>rv_memory = mm_id u, rv_revision = mm_revision u, rv_changed = now, rv_actor = actor, rv_plan = plan,
           rv_message = msg, rv_snapshot = snapshot_of u\<rparr>]\<rparr>"
  have "save_update u (mm_revision row) now actor plan msg db = Inr (u, db')"
    unfolding save_update_Inr db'_def using serialize_stable [OF u(4)] by simp
  then have "memory_update_tx i changes expected plan_v actor message now db = Inr (u, db')"
    using assms(3-8) ne content tags path(1) unfolding u_def
    by (simp add: memory_update_tx_def unknown_fields_Inr live_memory_Inr [THEN iffD2])
  moreover have mems: "memories db' = memories (write_memory i (mm_revision row) (\<lambda>_. u) db)" by (simp add: db'_def u(1))
  moreover have "paths_stable db'" by (rule write_memory_stable [OF assms(2) u(4) mems])
  ultimately show ?thesis using u write_memory_select [OF assms(1,3,4) u(1)] by auto
qed

lemma archive_succeeds:
  assumes "mem_inv db" "paths_stable db" "select mm_id i (memories db) = Some row" "mm_archived row = None"
    "memory_revision expected = Inr (mm_revision row)" "memory_plan_id True plan_v = Inr plan"
    "required_text ''change message'' MAX_MEMORY_CHANGE_MESSAGE_CHARS message = Inr msg"
  shows "\<exists>u db'. memory_archive_tx i expected plan_v actor message now db = Inr (u, db') \<and> paths_stable db' \<and>
    mm_id u = i \<and> mm_revision u = mm_revision row + 1 \<and> mm_archived u \<noteq> None \<and>
    (\<forall>j. select mm_id j (memories db') = (if j = i then Some u else select mm_id j (memories db)))"
proof -
  have row: "row \<in> set (memories db)" "mm_id row = i" using select_Some [OF assms(3)] by simp_all
  define u where "u = row\<lparr>mm_updated := now, mm_archived := Some now, mm_revision := mm_revision row + 1,
    mm_last_plan := plan, mm_actor := actor\<rparr>"
  have u: "mm_id u = i" "mm_revision u = mm_revision row + 1" "mm_archived u \<noteq> None" "stable_path (mm_path u)"
    using row assms(2) by (simp_all add: u_def paths_stable_def)
  define db' where "db' = (write_memory i (mm_revision row) (\<lambda>_. u) db)\<lparr>
       memory_revisions := memory_revisions (write_memory i (mm_revision row) (\<lambda>_. u) db) @
         [\<lparr>rv_memory = mm_id u, rv_revision = mm_revision u, rv_changed = now, rv_actor = actor, rv_plan = plan,
           rv_message = msg, rv_snapshot = snapshot_of u\<rparr>]\<rparr>"
  have "add_revision u now actor plan msg (write_memory i (mm_revision row) (\<lambda>_. u) db) = Inr (u, db')"
    unfolding add_revision_Inr db'_def using serialize_stable [OF u(4)] by simp
  then have "memory_archive_tx i expected plan_v actor message now db = Inr (u, db')"
    using assms(3-7) unfolding u_def by (simp add: memory_archive_tx_def live_memory_Inr [THEN iffD2] Let_def)
  moreover have mems: "memories db' = memories (write_memory i (mm_revision row) (\<lambda>_. u) db)" by (simp add: db'_def)
  moreover have "paths_stable db'" by (rule write_memory_stable [OF assms(2) u(4) mems])
  ultimately show ?thesis using u write_memory_select [OF assms(1,3,4) u(1)] by auto
qed

section \<open>The simulation\<close>

text \<open>
  The simulated state of a memory is the state of its row; a memory that the batch has not touched yet
  is live exactly as the preflight saw it.
\<close>

definition simulates :: "simulation \<Rightarrow> memory_db \<Rightarrow> memory_db \<Rightarrow> bool" where
  "simulates sim db0 db \<longleftrightarrow>
     (\<forall>i. case map_of sim i of
        Some (r, archived) \<Rightarrow> (\<exists>m. select mm_id i (memories db) = Some m \<and> mm_revision m = r \<and> (mm_archived m \<noteq> None \<longleftrightarrow> archived))
      | None \<Rightarrow> (\<forall>m. live_memory i db0 = Inr m \<longrightarrow> live_memory i db = Inr m))"

lemma simulates_live:
  assumes "simulates sim db0 db" "simulated_state i sim db0 = Inr (r, False)"
  obtains m where "select mm_id i (memories db) = Some m" "mm_archived m = None" "mm_revision m = r"
proof (cases "map_of sim i")
  case None
  with assms show ?thesis using that by (auto simp: simulates_def simulated_state_def live_memory_Inr split: option.splits dest!: spec [of _ i])
next
  case (Some st)
  with assms show ?thesis using that by (auto simp: simulates_def simulated_state_def dest!: spec [of _ i])
qed

lemma simulates_step:
  assumes "simulates sim db0 db" "mm_revision u = r" "mm_archived u \<noteq> None \<longleftrightarrow> archived"
    "\<And>j. select mm_id j (memories db') = (if j = i then Some u else select mm_id j (memories db))"
  shows "simulates ((i, r, archived) # sim) db0 db'"
  unfolding simulates_def
proof
  fix j
  show "case map_of ((i, r, archived) # sim) j of
        Some (r, archived) \<Rightarrow> (\<exists>m. select mm_id j (memories db') = Some m \<and> mm_revision m = r \<and> (mm_archived m \<noteq> None \<longleftrightarrow> archived))
      | None \<Rightarrow> (\<forall>m. live_memory j db0 = Inr m \<longrightarrow> live_memory j db' = Inr m)"
  proof (cases "j = i")
    case True
    with assms(2-4) show ?thesis by simp
  next
    case False
    with assms(1,4) show ?thesis by (auto simp: simulates_def live_memory_Inr split: option.splits dest!: spec [of _ j])
  qed
qed

lemma action_changes_get: "k \<notin> set [''action'', ''memory_id'', ''expected_revision''] \<Longrightarrow> dict_get (action_changes d) k = dict_get d k"
proof -
  assume "k \<notin> set [''action'', ''memory_id'', ''expected_revision'']"
  then have "map_of (action_changes d) k = map_of d k" unfolding action_changes_def by (induction d) auto
  then show ?thesis by (simp add: dict_get_def)
qed

lemma preflight_action_applies:
  assumes "preflight_action k v sim db0 = Inr sim'" "simulates sim db0 db" "mem_inv db" "paths_stable db" "action_stable v"
    and plan: "1 \<le> plan_id" "plan_id < 2 ^ 63"
  shows "\<exists>d ref db'. v = PDict d \<and> apply_action plan_id actor now d db = Inr (ref, db') \<and> simulates sim' db0 db' \<and> mem_inv db' \<and> paths_stable db'"
proof -
  from assms(1) obtain d i expected where d: "v = PDict d" "dict_get d ''memory_id'' = PStr i" "i \<noteq> []"
    and rev_no: "memory_revision (dict_get d ''expected_revision'') = Inr expected" and st: "simulated_state i sim db0 = Inr (expected, False)"
    by (auto simp: preflight_action_def split: pyval.splits if_splits)
  obtain m where m: "select mm_id i (memories db) = Some m" "mm_archived m = None" "mm_revision m = expected"
    by (rule simulates_live [OF assms(2) st])
  have pid: "memory_plan_id True (PInt plan_id) = Inr (Some plan_id)" using plan(1) by (simp add: memory_plan_id_def)
  obtain msg where msg: "required_text ''change message'' MAX_MEMORY_CHANGE_MESSAGE_CHARS (PStr (''Plan '' @ show_int plan_id @ '' completion'')) = Inr msg"
    using plan_message [OF plan, of "'' completion''"] by auto
  consider (update) "dict_get d ''action'' = PStr ''update''" | (archive) "dict_get d ''action'' = PStr ''archive''"
    using assms(1) d rev_no st by (auto simp: preflight_action_def split: if_splits)
  then show ?thesis
  proof cases
    case update
    from assms(1) d rev_no st update obtain u0 where keys: "fst ` set d \<subseteq> set [''action'', ''memory_id'', ''expected_revision'', ''content'', ''tags'', ''path'']"
      and changes: "check_changes (action_changes d) = Inr u0" and sim': "sim' = (i, expected + 1, False) # sim"
      by (auto simp: preflight_action_def unknown_fields_Inr)
    have keys': "fst ` set (action_changes d) \<subseteq> set [''content'', ''tags'', ''path'']" using keys by (auto simp: action_changes_def)
    have path: "stable_path p" if "memory_path (dict_get (action_changes d) ''path'') = Inr p" for p
      using that assms(5) by (simp add: action_changes_get d(1) action_stable_def)
    obtain u db' where ok: "memory_update_tx i (action_changes d) (dict_get d ''expected_revision'') (PInt plan_id) actor
        (PStr (''Plan '' @ show_int plan_id @ '' completion'')) now db = Inr (u, db')" "paths_stable db'"
      "mm_revision u = mm_revision m + 1" "mm_archived u = None"
      "\<forall>j. select mm_id j (memories db') = (if j = i then Some u else select mm_id j (memories db))"
      using update_succeeds [OF assms(3,4) m(1,2) _ pid msg keys' changes path] rev_no m(3) by blast
    have "simulates sim' db0 db'" unfolding sim' by (rule simulates_step [OF assms(2), of u]) (use ok m(3) in simp_all)
    moreover have "mem_inv db'" using memory_update_moves [OF ok(1) assms(3)] by (simp add: mem_moves_def)
    moreover have "apply_action plan_id actor now d db = Inr (ref_of ''update'' u, db')" using d update ok(1) by (simp add: apply_action_def Let_def)
    ultimately show ?thesis using d(1) ok(2) by blast
  next
    case archive
    from assms(1) d rev_no st archive have sim': "sim' = (i, expected + 1, True) # sim" by (auto simp: preflight_action_def)
    obtain u db' where ok: "memory_archive_tx i (dict_get d ''expected_revision'') (PInt plan_id) actor
        (PStr (''Plan '' @ show_int plan_id @ '' completion'')) now db = Inr (u, db')" "paths_stable db'"
      "mm_revision u = mm_revision m + 1" "mm_archived u \<noteq> None"
      "\<forall>j. select mm_id j (memories db') = (if j = i then Some u else select mm_id j (memories db))"
      using archive_succeeds [OF assms(3,4) m(1,2) _ pid msg] rev_no m(3) by blast
    have "simulates sim' db0 db'" unfolding sim' by (rule simulates_step [OF assms(2), of u]) (use ok m(3) in simp_all)
    moreover have "mem_inv db'" using memory_archive_moves [OF ok(1) assms(3)] by (simp add: mem_moves_def)
    moreover have "apply_action plan_id actor now d db = Inr (ref_of ''archive'' u, db')" using d archive ok(1) by (simp add: apply_action_def Let_def)
    ultimately show ?thesis using d(1) ok(2) by blast
  qed
qed

lemma preflight_loop_applies:
  assumes "preflight_loop k vs sim db0 = Inr sim'" "simulates sim db0 db" "mem_inv db" "paths_stable db" "list_all action_stable vs"
    "1 \<le> plan_id" "plan_id < 2 ^ 63"
  shows "\<exists>refs db'. apply_actions env n plan_id actor vs db = Inr (refs, db')"
  using assms
proof (induction vs arbitrary: k n sim db)
  case (Cons v vs)
  from Cons.prems(1) obtain sim1 where s1: "preflight_action k v sim db0 = Inr sim1" and rest: "preflight_loop (k + 1) vs sim1 db0 = Inr sim'" by auto
  from Cons.prems(5) have st: "action_stable v" "list_all action_stable vs" by simp_all
  obtain d ref db1 where d: "v = PDict d" "apply_action plan_id actor (te_action_time env n) d db = Inr (ref, db1)"
    "simulates sim1 db0 db1" "mem_inv db1" "paths_stable db1"
    using preflight_action_applies [OF s1 Cons.prems(2-4) st(1) Cons.prems(6,7)] by blast
  from Cons.IH [OF rest d(3-5) st(2) Cons.prems(6,7), of "n + 1"] d(1,2) show ?case by (auto simp: map_error_def)
qed simp

section \<open>After the debrief items\<close>

lemma create_items_keep:
  assumes "create_items env k plan_id actor path items db = Inr (refs, db')" "mem_inv db" "paths_stable db" "stable_path path"
  shows "mem_inv db' \<and> paths_stable db' \<and> (\<forall>i m. live_memory i db = Inr m \<longrightarrow> live_memory i db' = Inr m)"
  using assms
proof (induction items arbitrary: k db refs)
  case (Cons item items)
  obtain content tags where item: "item = (content, tags)" by (cases item)
  from Cons.prems(1) obtain entry db1 refs' where
    c: "memory_create_tx (PStr content) (PList (map PStr tags)) (PStr path) (PInt plan_id) actor
         (PStr (''Plan '' @ show_int plan_id @ '' debrief memory'')) (te_item_time env k) (te_item_ids env k) db = Inr (entry, db1)"
    and rest: "create_items env (k + 1) plan_id actor path items db1 = Inr (refs', db')"
    by (auto simp: item map_error_def split: sum.splits)
  have inv: "mem_inv db1" using memory_create_moves [OF c Cons.prems(2)] by (simp add: mem_moves_def)
  obtain row where row: "memories db1 = memories db @ [row]" "mm_path row = path"
    using c Cons.prems(4) by (auto simp: memory_create_tx_def Let_def add_revision_Inr stable_path_def split: option.splits)
  have "paths_stable db1" using Cons.prems(3,4) by (auto simp: paths_stable_def row(1,2))
  moreover have "live_memory i db1 = Inr m" if "live_memory i db = Inr m" for i m
    using that by (simp add: live_memory_Inr row(1) select_append)
  ultimately show ?case using Cons.IH [OF rest inv _ Cons.prems(4)] by auto
qed simp

end
