(* ===== verification/Plan_Scopes.thy ===== *)
theory Plan_Scopes
  imports Plan_Completion Context_Lifecycle
begin

text \<open>
  The loop over the pages of a plan's operations ends, and reads every succeeded operation of the plan
  exactly once, newest first.
\<close>

section \<open>One page\<close>

definition plan_operation :: "int \<Rightarrow> int option \<Rightarrow> entry \<Rightarrow> bool" where
  "plan_operation plan_id before_id r \<longleftrightarrow> en_type r = Operation \<and> en_status r = Some Op_Succeeded \<and> en_plan r = Some plan_id \<and>
     (case before_id of None \<Rightarrow> True | Some b \<Rightarrow> en_id r < b)"

definition plan_operations :: "int \<Rightarrow> int option \<Rightarrow> entry list \<Rightarrow> entry list" where
  "plan_operations plan_id before_id rows = rev (filter (plan_operation plan_id before_id) rows)"

lemma sorted_filter_id:
  assumes "sorted_wrt (<) (map en_id rows)"
  shows "sort_key en_id (filter P rows) = filter P rows"
proof (rule sort_key_id_if_sorted)
  from assms have "sorted (map en_id rows)" by (simp add: strict_sorted_iff)
  then show "sorted (map en_id (filter P rows))" by (rule sorted_filter)
qed

lemma attach_no_plans: "\<forall>r \<in> set rows. en_type r \<noteq> Plan \<Longrightarrow> attach_debriefs db (map serialize rows) = map serialize rows"
  by (auto simp: attach_debriefs_def serialize_def intro!: map_idI)

lemma operations_page:
  assumes "ctx_inv db" "1 \<le> plan_id" "\<forall>b. before_id = Some b \<longrightarrow> 1 \<le> b"
  shows "\<exists>total. fst (query_entries (plan_operations_query plan_id before_id) db) =
    Inr (map serialize (take 200 (plan_operations plan_id before_id (context_entries db))), total)"
proof -
  let ?q = "plan_operations_query plan_id before_id"
  let ?k = "\<lparr>ck_taskname = None, ck_actor = None, ck_path = None, ck_plan = Some plan_id, ck_query = []\<rparr>"
  have k: "checked_query ?q = Inr ?k"
    using assms(2,3) by (cases before_id) (simp_all add: checked_query_def plan_operations_query_def MAX_CONTEXT_QUERY_LIMIT_def positive_opt_def
        optional_def validate_plan_id_value_def entry_type_of_def check_status_filter_def op_status_of_def plan_status_of_def Let_def strip_def lstrip_def)
  have m: "matches ?q ?k db r = plan_operation plan_id before_id r" for r
    by (cases "en_status r"; cases "the (en_status r)"; cases before_id; cases "en_type r")
      (auto simp: matches_def plan_operations_query_def plan_operation_def entry_type_of_def row_status_def op_status_name_def)
  have sorted: "sorted_wrt (<) (map en_id (context_entries db))" using ctx_invD(1) [OF assms(1)] by (simp add: rows_ok_def)
  have "attach_debriefs db (map serialize (take 200 (plan_operations plan_id before_id (context_entries db)))) =
      map serialize (take 200 (plan_operations plan_id before_id (context_entries db)))"
    by (rule attach_no_plans) (auto simp: plan_operations_def plan_operation_def dest!: in_set_takeD)
  then show ?thesis
    unfolding query_entries_def k andThen_simps Let_def fst_conv m sorted_filter_id [OF sorted]
    by (simp add: plan_operations_def plan_operations_query_def MAX_CONTEXT_QUERY_LIMIT_def)
qed

section \<open>All pages\<close>

lemma filter_below:
  assumes "sorted_wrt (<) (map en_id rows)" "k < length rows"
  shows "filter (\<lambda>r. en_id r < en_id (rows ! k)) rows = take k rows"
proof -
  have lt: "en_id (rows ! i) < en_id (rows ! j)" if "i < j" "j < length rows" for i j
    using sorted_wrt_nth_less [OF assms(1)] that by simp
  have "filter (\<lambda>r. en_id r < en_id (rows ! k)) (take k rows @ drop k rows) = take k rows"
    unfolding filter_append
  proof -
    have "filter (\<lambda>r. en_id r < en_id (rows ! k)) (take k rows) = take k rows"
      by (rule filter_True) (use lt assms(2) in \<open>auto simp: in_set_conv_nth\<close>)
    moreover have "\<not> en_id r < en_id (rows ! k)" if "r \<in> set (drop k rows)" for r
    proof -
      from that obtain j where "r = rows ! (k + j)" "k + j < length rows" by (auto simp: in_set_conv_nth)
      with lt [of k "k + j"] show ?thesis by (cases j) auto
    qed
    ultimately show "filter (\<lambda>r. en_id r < en_id (rows ! k)) (take k rows) @ filter (\<lambda>r. en_id r < en_id (rows ! k)) (drop k rows) = take k rows"
      by (simp add: filter_False)
  qed
  then show ?thesis by simp
qed

lemma next_page:
  assumes "ctx_inv db" "200 \<le> length (plan_operations plan_id before_id (context_entries db))"
  defines "ops \<equiv> plan_operations plan_id before_id (context_entries db)"
  shows "plan_operations plan_id (Some (en_id (last (take 200 ops)))) (context_entries db) = drop 200 ops"
proof -
  let ?F = "filter (plan_operation plan_id before_id) (context_entries db)"
  let ?k = "length ?F - 200"
  have len: "200 \<le> length ?F" using assms(2) by (simp add: plan_operations_def)
  have "sorted_wrt (<) (map en_id (context_entries db))" using ctx_invD(1) [OF assms(1)] by (simp add: rows_ok_def)
  then have sorted: "sorted_wrt (<) (map en_id ?F)" by (simp add: sorted_wrt_map sorted_wrt_filter)
  have "length ops \<ge> 200" using len by (simp add: ops_def plan_operations_def)
  then have "take 200 ops \<noteq> []" "length (take 200 ops) = 200" by auto
  then have "last (take 200 ops) = ops ! 199" using last_conv_nth [of "take 200 ops"] by simp
  also have "\<dots> = ?F ! ?k" using len by (simp add: ops_def plan_operations_def rev_nth)
  finally have b: "last (take 200 ops) = ?F ! ?k" .
  have k: "?k < length ?F" using len by simp
  have below: "en_id (?F ! ?k) \<le> c" if "before_id = Some c" for c
    using nth_mem [OF k] that by (auto simp: plan_operation_def)
  have "filter (plan_operation plan_id (Some (en_id (?F ! ?k)))) (context_entries db) = filter (\<lambda>r. en_id r < en_id (?F ! ?k)) ?F"
    unfolding filter_filter using below
    by (intro filter_cong refl) (fastforce simp: plan_operation_def split: option.splits)
  also have "\<dots> = take ?k ?F" by (rule filter_below [OF sorted k])
  finally show ?thesis unfolding b using len by (simp add: plan_operations_def ops_def rev_take)
qed

lemma map_result_append:
  "map_result f (xs @ ys) = andThen (map_result f xs) (\<lambda>a. andThen (map_result f ys) (\<lambda>b. Inr (a @ b)))"
proof (induction xs)
  case Nil
  show ?case by (cases "map_result f ys") simp_all
next
  case (Cons x xs)
  then show ?case by (cases "f x"; cases "map_result f xs"; cases "map_result f ys") simp_all
qed

definition all_scopes :: "scope_env \<Rightarrow> entry list \<Rightarrow> string list result" where
  "all_scopes env ops = andThen (map_result (entry_scopes env) (map serialize ops)) (\<lambda>found. Inr (concat found))"

lemma plan_scopes_all_pages:
  assumes "ctx_inv db" "1 \<le> plan_id" "\<forall>b. before_id = Some b \<longrightarrow> 1 \<le> b"
    "length (plan_operations plan_id before_id (context_entries db)) < fuel"
  shows "plan_scopes fuel env plan_id before_id db = Some (all_scopes env (plan_operations plan_id before_id (context_entries db)))"
  using assms(3,4)
proof (induction fuel arbitrary: before_id)
  case (Suc fuel)
  let ?ops = "plan_operations plan_id before_id (context_entries db)"
  obtain total where page: "fst (query_entries (plan_operations_query plan_id before_id) db) = Inr (map serialize (take 200 ?ops), total)"
    using operations_page [OF assms(1,2) Suc.prems(1)] by blast
  show ?case
  proof (cases "length ?ops < 200")
    case True
    then show ?thesis
      by (cases "map_result (entry_scopes env) (map serialize ?ops)")
        (simp_all add: page all_scopes_def MAX_CONTEXT_QUERY_LIMIT_def)
  next
    case False
    then have len: "200 \<le> length ?ops" by simp
    let ?b = "en_id (last (take 200 ?ops))"
    have ne: "take 200 ?ops \<noteq> []" using len by auto
    have "last (take 200 ?ops) \<in> set ?ops" using last_in_set [OF ne] by (rule in_set_takeD)
    then have "last (take 200 ?ops) \<in> set (context_entries db)" by (simp add: plan_operations_def)
    then have b: "1 \<le> ?b" using rows_okD(1) [OF ctx_invD(1) [OF assms(1)]] by blast
    note np = next_page [OF assms(1) len]
    have "length (drop 200 ?ops) < fuel" using Suc.prems(2) len by simp
    with Suc.IH [of "Some ?b"] b np have rest: "plan_scopes fuel env plan_id (Some ?b) db = Some (all_scopes env (drop 200 ?ops))" by simp
    have last_id: "pl_id (last (map serialize (take 200 ?ops))) = ?b" using ne by (simp add: last_map serialize_def)
    have "map serialize ?ops = map serialize (take 200 ?ops) @ map serialize (drop 200 ?ops)" by (metis append_take_drop_id map_append)
    then have "all_scopes env ?ops = andThen (map_result (entry_scopes env) (map serialize (take 200 ?ops))) (\<lambda>found.
        andThen (all_scopes env (drop 200 ?ops)) (\<lambda>rest. Inr (concat found @ rest)))"
      by (simp add: all_scopes_def map_result_append andThen_assoc)
    then show ?thesis using len
      by (cases "map_result (entry_scopes env) (map serialize (take 200 ?ops))")
        (simp_all add: page rest last_id MAX_CONTEXT_QUERY_LIMIT_def min_absorb2)
  qed
qed simp

lemma plan_scopes_total:
  "ctx_inv db \<Longrightarrow> 1 \<le> plan_id \<Longrightarrow> plan_scopes (length (context_entries db) + 1) env plan_id None db =
     Some (all_scopes env (plan_operations plan_id None (context_entries db)))"
  by (rule plan_scopes_all_pages) (simp_all add: plan_operations_def le_imp_less_Suc)

end
