(* ===== verification/Completion_Properties.thy ===== *)
theory Completion_Properties
  imports Completion_Safety Preflight_Safety Plan_Scopes Context_Properties
begin

text \<open>
  The properties of the project memory and of the completion of a plan, which writes to the Context and
  the Memory database, each with a small state on which it is applied.
\<close>

section \<open>Search\<close>

text \<open>
  The text search of the Context and the Memory store finds exactly the texts that contain the
  query: the pattern built from a query, with its wildcards and escape characters quoted, matches a
  text if and only if the query is a contiguous part of it, up to the case of ASCII letters.
\<close>

theorem search_finds_substrings:
  "like (like_pattern q) s \<longleftrightarrow> sublist (map ascii_lower q) (map ascii_lower s)"
  by (rule like_pattern_sublist)

section \<open>The memory of a workspace\<close>

definition mm1 :: memory_db where
  "mm1 = snd (commit (memory_create_tx (PStr ''fact'') (PList [PStr ''t'']) PNone PNone None (PStr ''new'') 0 [''m'']) empty_memory)"

definition mm2 :: memory_db where
  "mm2 = snd (commit (memory_archive_tx ''m'' (PInt 1) (PInt 1) None (PStr ''old'') 1) mm1)"

lemma mm_reachable: "mem_step\<^sup>*\<^sup>* empty_memory mm1" "mem_step\<^sup>*\<^sup>* mm1 mm2" "mem_step\<^sup>*\<^sup>* empty_memory mm2"
proof -
  have "mem_step empty_memory mm1" unfolding mm1_def by (rule mem_step.create)
  moreover have "mem_step mm1 mm2" unfolding mm2_def by (rule mem_step.archive)
  ultimately show "mem_step\<^sup>*\<^sup>* empty_memory mm1" "mem_step\<^sup>*\<^sup>* mm1 mm2" "mem_step\<^sup>*\<^sup>* empty_memory mm2" by auto
qed

definition demo_memory :: "instant \<Rightarrow> int \<Rightarrow> int option \<Rightarrow> instant option \<Rightarrow> memory" where
  "demo_memory updated rev_no plan archived = \<lparr>mm_id = ''m'', mm_created = 0, mm_updated = updated, mm_content = ''fact'', mm_tags = [''t''],
     mm_path = ''server:.'', mm_revision = rev_no, mm_source_plan = None, mm_last_plan = plan, mm_helpful = 0, mm_helpful_at = None,
     mm_actor = None, mm_archived = archived\<rparr>"

lemma demo_path: "memory_path (PStr ''server:.'') = Inr ''server:.''"
  by code_simp

lemma demo_memory_texts:
  "required_text ''content'' MAX_MEMORY_CONTENT_CHARS (PStr ''fact'') = Inr ''fact''"
  "required_text ''change message'' MAX_MEMORY_CHANGE_MESSAGE_CHARS (PStr ''new'') = Inr ''new''"
  "required_text ''change message'' MAX_MEMORY_CHANGE_MESSAGE_CHARS (PStr ''old'') = Inr ''old''"
  "validate_tags True (PList [PStr ''t'']) = Inr [''t'']"
  by code_simp+

lemma mm1_value: "memories mm1 = [demo_memory 0 1 None None]" "map rv_revision (memory_revisions mm1) = [1]"
  unfolding mm1_def memory_create_tx_def demo_memory_texts commit_def
  by (simp_all add: demo_memory_texts demo_path memory_plan_id_def empty_memory_def add_revision_def serialize_memory_def demo_memory_def)

lemma mm2_value: "memories mm2 = [demo_memory 1 2 (Some 1) (Some 1)]"
  unfolding mm2_def memory_archive_tx_def demo_memory_texts commit_def
  by (simp add: memory_revision_def memory_plan_id_def live_memory_def mm1_value select_def Let_def add_revision_def serialize_memory_def
      write_memory_def update_where_def demo_memory_def demo_path)

lemma distinct_feedback_plans:
  "distinct (map (\<lambda>f. (fb_plan f, fb_memory f)) fs) \<Longrightarrow> distinct (map fb_plan (filter (\<lambda>f. fb_memory f = i) fs))"
  by (induction fs) auto

text \<open>
  C23: In every reachable state of the Memory store the history of a memory is complete: its revisions
  are numbered 1, 2, 3 and so on up to the revision of the row, and the snapshot of the last one is
  what the store answers for the memory.  The tag table repeats the tags of the row, which are
  distinct and not empty, and the helpful counter is the number of plans that gave feedback.
\<close>

theorem memory_history_complete:
  assumes "mem_step\<^sup>*\<^sup>* empty_memory db" "m \<in> set (memories db)"
  defines "hist \<equiv> filter (\<lambda>r. rv_memory r = mm_id m) (memory_revisions db)"
  shows "map rv_revision hist = map int [1..<Suc (nat (mm_revision m))] \<and>
    (\<exists>view. fst (memory_get (mm_id m) True db) = Inr view \<and> rv_snapshot (last hist) = snapshot_of view) \<and>
    map snd (filter (\<lambda>(i, t). i = mm_id m) (memory_tags db)) = mm_tags m \<and> mm_tags m \<noteq> [] \<and> distinct (mm_tags m) \<and>
    mm_helpful m = int (card {fb_plan f | f. f \<in> set (memory_feedback db) \<and> fb_memory f = mm_id m})"
proof -
  have inv: "mem_inv db" using mem.reachable_inv [OF refl assms(1)] .
  then have ok: "memory_ok db m" and d: "distinct (map (\<lambda>f. (fb_plan f, fb_memory f)) (memory_feedback db))"
    using assms(2) by (simp_all add: mem_inv_def)
  have "select mm_id (mm_id m) (memories db) = Some m" using inv assms(2) by (auto simp: mem_inv_def intro: select_in)
  then have get: "fst (memory_get (mm_id m) True db) = serialize_memory m" by (simp add: memory_get_def)
  let ?F = "filter (\<lambda>f. fb_memory f = mm_id m) (memory_feedback db)"
  have "distinct (map fb_plan ?F)" by (rule distinct_feedback_plans [OF d])
  then have "card (set (map fb_plan ?F)) = length ?F" by (metis distinct_card length_map)
  moreover have "set (map fb_plan ?F) = {fb_plan f | f. f \<in> set (memory_feedback db) \<and> fb_memory f = mm_id m}" by auto
  ultimately have "mm_helpful m = int (card {fb_plan f | f. f \<in> set (memory_feedback db) \<and> fb_memory f = mm_id m})"
    using ok by (simp add: memory_ok_def feedback_count_def)
  with ok get show ?thesis by (auto simp: memory_ok_def hist_def history_def tags_of_def tags_ok_def)
qed

theorem memory_history_complete_witness:
  "demo_memory 0 1 None None \<in> set (memories mm1) \<and>
   map rv_revision (filter (\<lambda>r. rv_memory r = ''m'') (memory_revisions mm1)) = [1]"
  using memory_history_complete [OF mm_reachable(1), of "demo_memory 0 1 None None"] by (simp add: mm1_value) (simp add: demo_memory_def)

text \<open>
  C24: Archiving is final, and nothing changes without a revision.  Between two reachable states every
  memory is kept; if it was archived in the first, or its revision is the same in both, then only the
  feedback fields of its row can differ.
\<close>

theorem memory_changes_revisioned:
  assumes "mem_step\<^sup>*\<^sup>* empty_memory db" "mem_step\<^sup>*\<^sup>* db db'" "m \<in> set (memories db)"
  shows "\<exists>m' \<in> set (memories db'). mm_id m' = mm_id m \<and> mm_revision m \<le> mm_revision m' \<and>
    (mm_archived m \<noteq> None \<or> mm_revision m' = mm_revision m \<longrightarrow>
       m' = m\<lparr>mm_helpful := mm_helpful m', mm_helpful_at := mm_helpful_at m'\<rparr>)"
proof -
  have "mem_later db db'" using mem.reachable_later [OF refl assms(1,2)] .
  with assms(3) obtain m' where m': "m' \<in> set (memories db')" "memory_later m m'" unfolding mem_later_def by blast
  have "m' = m\<lparr>mm_helpful := mm_helpful m', mm_helpful_at := mm_helpful_at m'\<rparr>" if "memory_core m' = memory_core m"
    using that by (cases m; cases m') (simp add: memory_core_def)
  with m' show ?thesis by (intro bexI [of _ m']) (auto simp: memory_later_def)
qed

theorem memory_changes_revisioned_witness:
  "\<exists>m' \<in> set (memories mm2). mm_id m' = ''m'' \<and> 1 \<le> mm_revision m'"
  using memory_changes_revisioned [OF mm_reachable(1,2), of "demo_memory 0 1 None None"]
  by (auto simp: mm1_value) (auto simp: demo_memory_def)

section \<open>Preflight\<close>

text \<open>
  C22: The preflight of memory actions is sound.  When every stored path and every path of the actions
  normalizes to itself, a batch that passes \<open>preflight_actions\<close> is applied without an error, also after
  the debrief items of the same completion have been created: no update or archive of the batch finds
  a missing memory, a stale revision or an invalid field.
\<close>

theorem preflight_sound:
  assumes "mem_step\<^sup>*\<^sup>* empty_memory db" "paths_stable db" "list_all action_stable actions" "stable_path path"
    and "1 \<le> plan_id" "plan_id < 2 ^ 63" "preflight_actions (PList actions) db = Inr ()"
    and "create_items env 0 plan_id actor path items db = Inr (created, db1)"
  shows "\<exists>changed db2. apply_actions env 0 plan_id actor actions db1 = Inr (changed, db2)"
proof -
  have "mem_inv db" using mem.reachable_inv [OF refl assms(1)] .
  with create_items_keep [OF assms(8) _ assms(2,4)]
  have keep: "mem_inv db1" "paths_stable db1" "\<And>i m. live_memory i db = Inr m \<Longrightarrow> live_memory i db1 = Inr m" by blast+
  from assms(7) obtain sim where "preflight_loop 0 actions [] db = Inr sim" by (auto simp: preflight_actions_def)
  moreover have "simulates [] db db1" using keep(3) by (simp add: simulates_def)
  ultimately show ?thesis using preflight_loop_applies keep(1,2) assms(3,5,6) by blast
qed

definition demo_action :: pyval where
  "demo_action = PDict [(''action'', PStr ''archive''), (''memory_id'', PStr ''m''), (''expected_revision'', PInt 1)]"

definition demo_ticks :: tick_env where
  "demo_ticks = \<lparr>te_item_time = (\<lambda>_. 1), te_item_ids = (\<lambda>k. [''n'']), te_action_time = (\<lambda>_. 1), te_feedback_time = (\<lambda>_. 1)\<rparr>"

lemma demo_preflight: "preflight_actions (PList [demo_action]) mm1 = Inr ()" "action_stable demo_action"
proof -
  have "simulated_state ''m'' [] mm1 = Inr (1, False)"
    by (simp add: simulated_state_def live_memory_def mm1_value select_def) (simp add: demo_memory_def)
  then show "preflight_actions (PList [demo_action]) mm1 = Inr ()"
    by (simp add: preflight_actions_def preflight_action_def demo_action_def dict_get_def memory_revision_def unknown_fields_def)
  show "action_stable demo_action" by (simp add: action_stable_def demo_action_def dict_get_def memory_path_def)
qed

theorem preflight_sound_witness:
  "\<exists>changed db2. apply_actions demo_ticks 0 1 None [demo_action] mm1 = Inr (changed, db2)"
proof -
  have "paths_stable mm1" by (simp add: paths_stable_def mm1_value stable_path_def) (simp add: demo_memory_def demo_path)
  moreover have "stable_path ''server:.''" by (simp add: stable_path_def demo_path)
  ultimately show ?thesis
    using preflight_sound [OF mm_reachable(1), of "[demo_action]" "''server:.''" 1 demo_ticks None "[]" "[]" mm1] demo_preflight by simp
qed

text \<open>
  C0: Without stable paths the preflight promises too much.  The path \<open>.. /\<close> passes it, because its
  one component is not \<open>..\<close>, but its normal form ends in a space; when the updated row is read back the
  space is stripped and the path is refused.  So the preflight of an update with this path succeeds and
  the update raises.
\<close>

definition gap_action :: "(string \<times> pyval) list" where
  "gap_action = [(''action'', PStr ''update''), (''memory_id'', PStr ''m''), (''expected_revision'', PInt 1), (''path'', PStr ''.. /'')]"

lemma gap_paths:
  "memory_path (PStr ''.. /'') = Inr ''server:.. ''"
  "memory_path (PStr ''server:.. '') = Inl (ValueError ''server memory paths must stay inside the workspace root'')"
  by code_simp+

lemma demo_messages: "required_text ''change message'' MAX_MEMORY_CHANGE_MESSAGE_CHARS (PStr (''Plan '' @ show_int 1 @ '' completion'')) = Inr ''Plan 1 completion''"
  by code_simp

theorem preflight_gap:
  "preflight_actions (PList [PDict gap_action]) mm1 = Inr () \<and>
   apply_action 1 None 1 gap_action mm1 = Inl (ValueError ''server memory paths must stay inside the workspace root'')"
proof
  have sim: "simulated_state ''m'' [] mm1 = Inr (1, False)"
    by (simp add: simulated_state_def live_memory_def mm1_value select_def) (simp add: demo_memory_def)
  show "preflight_actions (PList [PDict gap_action]) mm1 = Inr ()"
    using sim by (simp add: preflight_actions_def preflight_action_def gap_action_def dict_get_def memory_revision_def unknown_fields_def
        check_changes_def action_changes_def dict_has_def gap_paths)
  have "live_memory ''m'' mm1 = Inr (demo_memory 0 1 None None)"
    by (simp add: live_memory_def mm1_value select_def) (simp add: demo_memory_def)
  then show "apply_action 1 None 1 gap_action mm1 = Inl (ValueError ''server memory paths must stay inside the workspace root'')"
    by (simp add: apply_action_def gap_action_def dict_get_def memory_update_tx_def memory_revision_def memory_plan_id_def demo_messages [simplified]
        action_changes_def unknown_fields_def changed_content_def changed_path_def dict_has_def gap_paths dict_get_default_def demo_memory_def
        demo_memory_texts save_update_def add_revision_def serialize_memory_def Let_def)
qed

section \<open>The completion of a plan\<close>

lemma create_items_steps: "create_items env k plan_id actor path items db = Inr (refs, db') \<Longrightarrow> mem_step\<^sup>*\<^sup>* db db'"
proof (induction items arbitrary: k db refs)
  case (Cons item items)
  obtain content tags where item: "item = (content, tags)" by (cases item)
  from Cons.prems obtain entry db1 refs' where
    c: "memory_create_tx (PStr content) (PList (map PStr tags)) (PStr path) (PInt plan_id) actor
         (PStr (''Plan '' @ show_int plan_id @ '' debrief memory'')) (te_item_time env k) (te_item_ids env k) db = Inr (entry, db1)"
    and rest: "create_items env (k + 1) plan_id actor path items db1 = Inr (refs', db')"
    by (auto simp: item)
  from mem_step_tx(1) [OF c] Cons.IH [OF rest] show ?case by simp
qed simp

lemma apply_action_step: "apply_action plan_id actor now d db = Inr (ref, db') \<Longrightarrow> mem_step db db'"
  by (auto simp: apply_action_def Let_def split: if_splits pyval.splits intro: mem_step_tx(2,3))

lemma apply_actions_steps: "apply_actions env k plan_id actor vs db = Inr (refs, db') \<Longrightarrow> mem_step\<^sup>*\<^sup>* db db'"
proof (induction vs arbitrary: k db refs)
  case (Cons v vs)
  then obtain d ref db1 refs' where d: "v = PDict d" "apply_action plan_id actor (te_action_time env k) d db = Inr (ref, db1)"
    "apply_actions env (k + 1) plan_id actor vs db1 = Inr (refs', db')"
    by (cases v) auto
  from apply_action_step [OF d(2)] Cons.IH [OF d(3)] show ?case by simp
qed simp

lemma completion_memory_steps:
  assumes "apply_memory_debrief senv env plan_id actor v ctx sf sa db = Inr (d, db')"
  shows "mem_step\<^sup>*\<^sup>* db db'"
proof -
  from assms obtain path feedback created db1 changed db2 recorded and q :: debrief_request where
    s: "create_items env 0 plan_id actor path (dr_items q) db = Inr (created, db1)"
      "apply_actions env 0 plan_id actor (dr_actions q) db1 = Inr (changed, db2)"
      "record_helpful_feedback_tx (PInt plan_id) feedback actor (te_feedback_time env) db2 = Inr (recorded, db')"
    by (auto simp: apply_memory_debrief_def memory_changes_def)
  from mem_step_tx(4) [OF s(3)] create_items_steps [OF s(1)] apply_actions_steps [OF s(2)] show ?thesis by (meson rtranclp.rtrancl_into_rtrancl rtranclp_trans)
qed

lemma completed_update:
  assumes "update_plan_tx i u False t0 t1 t2 db = Inr (p, db')" "pu_debrief u \<noteq> PNone"
  shows "\<exists>row b. select en_id i (context_entries db') = Some row \<and> en_plan_status row = Some Plan_Completed \<and> select db_plan i (plan_debriefs db') = Some b"
proof -
  from assms(1) obtain c where c: "checked_update u = Inr c" and ap: "update_plan_apply i u c t0 t1 t2 db = Inr (p, db')"
    by (auto simp: update_plan_tx_def)
  from c assms(2) have d: "cu_debrief c \<noteq> None" "cu_status c = Some Plan_Completed"
    by (auto simp: checked_update_def checked_debrief_def Let_def plan_status_of_def split: if_splits pyval.splits)
  from ap show ?thesis
  proof (cases rule: update_plan_apply_cases)
    case (1 row conv appended db1)
    let ?P = "\<lambda>r. en_id r = i \<and> en_type r = Plan \<and> en_revision r = cu_expected c"
    note db' = write_update_Inr [OF 1(7)]
    obtain x y dbx where "update_conversation u c row t0 db = Inr ((x, y), dbx)" "conv_db.more dbx = conv_db.more db"
      using update_conversation_time [OF 1(6), of u c t0] by (auto simp: same_update_def)
    with 1(6) have "conv_db.more db1 = conv_db.more db" by simp
    from ctx_fields_more(1) [OF this] 1(1) have sel: "select en_id i (context_entries db1) = Some row" by simp
    have "select en_id i (update_where ?P (updated_row c conv t1) (context_entries db1)) = Some (updated_row c conv t1 row)"
      using sel 1(2,3) select_Some [OF sel] by (subst select_update_where) (simp_all add: updated_row_def)
    moreover have "en_plan_status (updated_row c conv t1 row) = Some Plan_Completed" using d(2) by (simp add: updated_row_def)
    moreover have "select db_plan i (plan_debriefs db') \<noteq> None" using d(1) by (auto simp: db' select_None debrief_row_def)
    ultimately show ?thesis by (simp add: db')
  qed
qed

text \<open>
  C21: What an update of a plan leaves behind, although a completion commits to two databases one after
  the other.  A request that is refused, for whatever reason and at whatever point, has changed neither the
  Context nor the Memory database; nor has one that fails because a database does, with one exception:
  when the last write or the commit of the Context database fails, the Context is unchanged but the
  steps of an accepted debrief remain in the Memory database.  When a completion succeeds, the plan is
  completed and has its debrief, and the Memory database has made the steps of the debrief; an update that is
  no completion leaves the Memory database alone.
\<close>

theorem plan_update_all_or_nothing:
  "case handle_plan_update fault senv env i body actor seen_feedback seen_actions t (ctx, mem) of
     (Inl e, (ctx', mem')) \<Rightarrow> ctx' = ctx \<and>
       (mem' = mem \<or>
        (\<exists>e0 debrief. fault = Some (At_Commit e0) \<and> e = plan_update_error e0 \<and>
           apply_memory_debrief senv env i (Some actor) (dict_get body ''debrief'') ctx seen_feedback seen_actions mem = Inr (debrief, mem') \<and>
           mem_step\<^sup>*\<^sup>* mem mem'))
   | (Inr (Some debrief, p), (ctx', mem')) \<Rightarrow>
       (\<exists>row b. select en_id i (context_entries ctx') = Some row \<and> en_plan_status row = Some Plan_Completed \<and>
          select db_plan i (plan_debriefs ctx') = Some b) \<and>
       apply_memory_debrief senv env i (Some actor) (dict_get body ''debrief'') ctx seen_feedback seen_actions mem = Inr (debrief, mem') \<and>
       mem_step\<^sup>*\<^sup>* mem mem'
   | (Inr (None, p), (ctx', mem')) \<Rightarrow> mem' = mem"
proof (cases "plan_update_args body")
  case (Inl e)
  then show ?thesis by (simp add: handle_plan_update_def)
next
  case (Inr u)
  show ?thesis
  proof (cases "pu_status u = Some ''completed''")
    case False
    show ?thesis
    proof (cases "one_phase fault (update_plan i u (t 0) (t 1) (t 2)) ctx")
      case (Pair r ctx')
      then have "ctx' = ctx" if "r = Inl e" for e
        using that by (auto simp: one_phase_def update_plan_def commit_Inl split: option.splits db_fault.splits)
      with Pair Inr False show ?thesis by (cases r) (simp_all add: handle_plan_update_def map_answer_def)
    qed
  next
    case True
    let ?second = "\<lambda>m. apply_memory_debrief senv env i (Some actor) (dict_get body ''debrief'') ctx seen_feedback seen_actions m"
    obtain r ctx' mem' where run:
        "complete_plan fault senv env i u actor (dict_get body ''debrief'') seen_feedback seen_actions t (ctx, mem) = (r, (ctx', mem'))"
      by (metis prod.exhaust)
    show ?thesis
    proof (cases r)
      case (Inl e)
      have "ctx' = ctx \<and> (mem' = mem \<or> fault = Some (At_Commit e) \<and> (\<exists>d. ?second mem = Inr (d, mem')))"
        by (rule completion.all_or_nothing [OF run [unfolded complete_plan_def Inl]])
      with Inl run Inr True completion_memory_steps show ?thesis by (auto simp: handle_plan_update_def map_answer_def)
    next
      case ok: (Inr x)
      obtain d p where x: "x = (d, p)" by (cases x)
      have both: "?second mem = Inr (d, mem')"
        "update_plan_tx i (u\<lparr>pu_debrief := d, pu_actor := PStr actor\<rparr>) False (t 3) (t 4) (t 5) ctx = Inr (p, ctx')"
        using completion.both_or_nothing [OF run [unfolded complete_plan_def ok x]] by blast+
      from apply_memory_debrief_accepted [OF both(1)] have "pu_debrief (u\<lparr>pu_debrief := d, pu_actor := PStr actor\<rparr>) \<noteq> PNone"
        by (auto simp: accepted_debrief_def)
      from completed_update [OF both(2) this] both(1) completion_memory_steps [OF both(1)] run ok x Inr True show ?thesis
        by (simp add: handle_plan_update_def map_answer_def)
    qed
  qed
qed

text \<open>
  C25: The place a plan worked in is computed from all its operations.  In every reachable state the loop
  of \<open>_plan_memory_path\<close> over the pages of the query ends within as many rounds as there are entries, and
  its result is the one of a single pass over all succeeded operations of the plan, newest first.
\<close>

theorem plan_scopes_every_operation:
  assumes "(ctx_step sha)\<^sup>*\<^sup>* empty_ctx db" "1 \<le> plan_id"
  shows "plan_scopes (length (context_entries db) + 1) env plan_id None db =
    Some (andThen (map_result (entry_scopes env) (map serialize (rev (filter (\<lambda>r.
      en_type r = Operation \<and> en_status r = Some Op_Succeeded \<and> en_plan r = Some plan_id) (context_entries db)))))
      (\<lambda>found. Inr (concat found)))"
  using plan_scopes_total [OF ctx_reachable_inv [OF assms(1)] assms(2)]
  by (simp del: plan_scopes.simps add: all_scopes_def plan_operations_def plan_operation_def [abs_def])

theorem plan_scopes_every_operation_witness:
  "plan_scopes 2 \<lparr>se_root = [], se_absolute = (\<lambda>s. Inr [s]), se_resolve = Inr, se_mapping_at = (\<lambda>_. None), se_storage_at = (\<lambda>_. None)\<rparr> 1 None cx1 = Some (Inr [])"
  using plan_scopes_every_operation [OF cx_reachable(1), of 1] by (simp del: plan_scopes.simps add: cx1_value numeral_2_eq_2)

end
