(* ===== verification/Password_Hash.thy ===== *)
theory Password_Hash
  imports Text_Tools
begin

text \<open>
  The password hashes of \<open>openkapsel/auth/security.py\<close>: the text form of a salted PBKDF2 digest, its
  parser and the comparison.  A Python \<open>bytes\<close> value is a list of characters, one per byte.  PBKDF2
  itself is a parameter: password, salt, number of iterations and length of the key give the key.
\<close>

type_synonym bytes = string

type_synonym kdf = "string \<Rightarrow> bytes \<Rightarrow> int \<Rightarrow> nat \<Rightarrow> bytes"

definition PASSWORD_HASH_ALGORITHM :: string where "PASSWORD_HASH_ALGORITHM = ''pbkdf2_sha256''"
definition PASSWORD_HASH_ITERATIONS :: nat where "PASSWORD_HASH_ITERATIONS = 600000"
definition PASSWORD_SALT_BYTES :: nat where "PASSWORD_SALT_BYTES = 16"
definition PASSWORD_DIGEST_BYTES :: nat where "PASSWORD_DIGEST_BYTES = 32"

section \<open>URL-safe base 64 without padding\<close>

definition b64_alphabet :: string where
  "b64_alphabet = ''ABCDEFGHIJKLMNOPQRSTUVWXYZabcdefghijklmnopqrstuvwxyz0123456789-_''"

definition b64_char :: "nat \<Rightarrow> char" where
  "b64_char k = b64_alphabet ! k"

text \<open>\<open>base64.urlsafe_b64encode(value).rstrip(b"=")\<close>.\<close>

fun encode :: "bytes \<Rightarrow> string" where
  "encode [] = []"
| "encode [a] = (let x = of_char a in [b64_char (x div 4), b64_char (x mod 4 * 16)])"
| "encode [a, b] =
     (let x = of_char a; y = of_char b
      in [b64_char (x div 4), b64_char (x mod 4 * 16 + y div 16), b64_char (y mod 16 * 4)])"
| "encode (a # b # c # rest) =
     (let x = of_char a; y = of_char b; z = of_char c
      in b64_char (x div 4) # b64_char (x mod 4 * 16 + y div 16) # b64_char (y mod 16 * 4 + z div 64) #
         b64_char (z mod 64) # encode rest)"

text \<open>
  \<open>base64.b64decode\<close> with \<open>altchars\<close> first translates \<open>-\<close> and \<open>_\<close>, so the standard spellings \<open>+\<close> and \<open>/\<close> are
  accepted too.
\<close>

definition b64_value :: "char \<Rightarrow> nat option" where
  "b64_value c =
     (if c = CHR ''+'' then Some 62 else if c = CHR ''/'' then Some 63
      else map_of (zip b64_alphabet [0..<64]) c)"

fun decode_sextets :: "nat list \<Rightarrow> bytes" where
  "decode_sextets (p # q # r # s # rest) =
     char_of (p * 4 + q div 16) # char_of (q mod 16 * 16 + r div 4) # char_of (r mod 4 * 64 + s) # decode_sextets rest"
| "decode_sextets [p, q, r] = [char_of (p * 4 + q div 16), char_of (q mod 16 * 16 + r div 4)]"
| "decode_sextets [p, q] = [char_of (p * 4 + q div 16)]"
| "decode_sextets _ = []"

text \<open>
  The text is padded to a multiple of four; validation wants characters of the alphabet and at most
  two padding characters behind them.  A remainder of one character would need three.
\<close>

definition decode :: "string \<Rightarrow> bytes option" where
  "decode v =
     (let s = v @ replicate ((4 - length v mod 4) mod 4) (CHR ''='');
          digits = takeWhile (\<lambda>c. c \<noteq> CHR ''='') s; pads = drop (length digits) s
      in if list_all (\<lambda>c. b64_value c \<noteq> None) digits \<and> list_all (\<lambda>c. c = CHR ''='') pads \<and> length pads \<le> 2
         then Some (decode_sextets (map (the \<circ> b64_value) digits)) else None)"

section \<open>Hashes\<close>

definition parse_pbkdf2 :: "string \<Rightarrow> (int \<times> bytes \<times> bytes) option" where
  "parse_pbkdf2 encoded =
     (case split_on (CHR ''$'') encoded of
        [algorithm, iterations, salt, digest] \<Rightarrow>
          if algorithm \<noteq> PASSWORD_HASH_ALGORITHM then None
          else (case (int_of_text iterations, decode salt, decode digest) of
                  (Some n, Some s, Some d) \<Rightarrow>
                    if \<not> (1 \<le> n \<and> n \<le> 10000000) then None
                    else if length s < PASSWORD_SALT_BYTES \<or> length d \<noteq> PASSWORD_DIGEST_BYTES then None
                    else Some (n, s, d)
                | _ \<Rightarrow> None)
      | _ \<Rightarrow> None)"

definition is_password_hash_supported :: "string \<Rightarrow> bool" where
  "is_password_hash_supported encoded \<longleftrightarrow> parse_pbkdf2 encoded \<noteq> None"

definition password_hash_needs_upgrade :: "string \<Rightarrow> bool" where
  "password_hash_needs_upgrade encoded \<longleftrightarrow>
     (case parse_pbkdf2 encoded of None \<Rightarrow> True | Some (n, _, _) \<Rightarrow> n < int PASSWORD_HASH_ITERATIONS)"

definition hash_password :: "kdf \<Rightarrow> bytes \<Rightarrow> nat \<Rightarrow> string \<Rightarrow> string result" where
  "hash_password kdf salt min_length password =
     (if length password < min_length
      then Inl (ValueError (''password must contain at least '' @ show_nat min_length @ '' characters''))
      else let digest = kdf password salt (int PASSWORD_HASH_ITERATIONS) PASSWORD_DIGEST_BYTES
           in Inr (join ''$'' [PASSWORD_HASH_ALGORITHM, show_nat PASSWORD_HASH_ITERATIONS, encode salt, encode digest]))"

text \<open>The hash computed for an unreadable entry only takes time.\<close>

definition verify_password :: "kdf \<Rightarrow> string \<Rightarrow> string \<Rightarrow> bool" where
  "verify_password kdf password expected_hash =
     (case parse_pbkdf2 expected_hash of
        Some (iterations, salt, expected) \<Rightarrow> kdf password salt iterations (length expected) = expected
      | None \<Rightarrow> False)"

section \<open>Decoding undoes encoding\<close>

lemma b64_char_value: "k < 64 \<Longrightarrow> b64_value (b64_char k) = Some k"
proof -
  have "list_all (\<lambda>k. b64_value (b64_char k) = Some k) [0..<64]" by code_simp
  then show "k < 64 \<Longrightarrow> b64_value (b64_char k) = Some k" by (simp add: list_all_iff)
qed

lemma b64_char_plain: "k < 64 \<Longrightarrow> b64_char k \<noteq> CHR ''='' \<and> b64_char k \<noteq> CHR ''$''"
proof -
  have "list_all (\<lambda>k. b64_char k \<noteq> CHR ''='' \<and> b64_char k \<noteq> CHR ''$'') [0..<64]" by code_simp
  then show "k < 64 \<Longrightarrow> b64_char k \<noteq> CHR ''='' \<and> b64_char k \<noteq> CHR ''$''" by (simp add: list_all_iff)
qed

lemma of_char_bound: "(of_char c :: nat) < 256"
  by (metis of_char_mod_256 mod_less_divisor zero_less_numeral)

text \<open>The sextets that \<open>encode\<close> writes.\<close>

fun sextets :: "bytes \<Rightarrow> nat list" where
  "sextets [] = []"
| "sextets [a] = (let x = of_char a in [x div 4, x mod 4 * 16])"
| "sextets [a, b] = (let x = of_char a; y = of_char b in [x div 4, x mod 4 * 16 + y div 16, y mod 16 * 4])"
| "sextets (a # b # c # rest) =
     (let x = of_char a; y = of_char b; z = of_char c
      in (x div 4) # (x mod 4 * 16 + y div 16) # (y mod 16 * 4 + z div 64) # (z mod 64) # sextets rest)"

lemma encode_sextets: "encode bs = map b64_char (sextets bs)"
  by (induction bs rule: sextets.induct) (simp_all add: Let_def)

lemma sextet_bounds:
  fixes x y z :: nat
  assumes "x < 256" "y < 256" "z < 256"
  shows "x div 4 < 64" "x mod 4 * 16 < 64" "x mod 4 * 16 + y div 16 < 64" "y mod 16 * 4 < 64" "y mod 16 * 4 + z div 64 < 64"
  using assms by linarith+

lemma sextets_bound: "list_all (\<lambda>k. k < 64) (sextets bs)"
  by (induction bs rule: sextets.induct) (simp_all add: Let_def sextet_bounds [OF of_char_bound of_char_bound of_char_bound])

lemma char_of_parts:
  "char_of ((of_char a :: nat) div 4 * 4 + (of_char a mod 4 * 16 + of_char b div 16) div 16) = a"
  "char_of ((of_char a mod 4 * 16 + (of_char b :: nat) div 16) mod 16 * 16 + (of_char b mod 16 * 4 + of_char c div 64) div 4) = b"
  "char_of ((of_char b mod 16 * 4 + (of_char c :: nat) div 64) mod 4 * 64 + of_char c mod 64) = c"
proof -
  note ab = of_char_bound [of a] of_char_bound [of b] of_char_bound [of c]
  have "(of_char b :: nat) div 16 < 16" "(of_char c :: nat) div 64 < 4" using ab by linarith+
  then have "(of_char a mod 4 * 16 + (of_char b :: nat) div 16) div 16 = of_char a mod 4"
    "(of_char a mod 4 * 16 + (of_char b :: nat) div 16) mod 16 = of_char b div 16"
    "(of_char b mod 16 * 4 + (of_char c :: nat) div 64) div 4 = of_char b mod 16"
    "(of_char b mod 16 * 4 + (of_char c :: nat) div 64) mod 4 = of_char c div 64" by simp_all
  then show "char_of ((of_char a :: nat) div 4 * 4 + (of_char a mod 4 * 16 + of_char b div 16) div 16) = a"
    "char_of ((of_char a mod 4 * 16 + (of_char b :: nat) div 16) mod 16 * 16 + (of_char b mod 16 * 4 + of_char c div 64) div 4) = b"
    "char_of ((of_char b mod 16 * 4 + (of_char c :: nat) div 64) mod 4 * 64 + of_char c mod 64) = c"
    by (simp_all only: div_mult_mod_eq char_of_char)
qed

lemma decode_sextets_sextets: "decode_sextets (sextets bs) = bs"
proof (induction bs rule: sextets.induct)
  case (2 a)
  show ?case using char_of_parts(1) [of a "CHR 0x00"] by (simp add: Let_def)
next
  case (3 a b)
  show ?case using char_of_parts(1) [of a b] char_of_parts(2) [of a b "CHR 0x00"] by (simp add: Let_def)
next
  case (4 a b c rest)
  then show ?case using char_of_parts(1) [of a b] char_of_parts(2) [of a b c] char_of_parts(3) [of b c] by (simp add: Let_def)
qed simp

lemma length_sextets: "length (sextets bs) mod 4 \<noteq> 1"
proof (induction bs rule: sextets.induct)
  case (4 a b c rest)
  have "length (sextets (a # b # c # rest)) = length (sextets rest) + 4" by (simp add: Let_def)
  with 4 show ?case by simp
qed (simp_all add: Let_def)

lemma pad_le_2: "m mod 4 \<noteq> 1 \<Longrightarrow> (4 - m mod 4) mod 4 \<le> (2::nat)"
proof -
  have "m mod 4 \<in> {0, 1, 2, 3}" by (simp, linarith)
  then show "m mod 4 \<noteq> 1 \<Longrightarrow> (4 - m mod 4) mod 4 \<le> (2::nat)" by auto
qed

lemma encode_chars:
  assumes "c \<in> set (encode bs)"
  shows "c \<noteq> CHR ''='' \<and> c \<noteq> CHR ''$'' \<and> b64_value c \<noteq> None"
proof -
  from assms obtain k where "c = b64_char k" "k < 64" using sextets_bound [of bs] by (auto simp: encode_sextets list_all_iff)
  then show ?thesis using b64_char_plain [of k] b64_char_value [of k] by simp
qed

lemma decode_encode [simp]: "decode (encode bs) = Some bs"
proof -
  let ?v = "encode bs" let ?n = "(4 - length ?v mod 4) mod 4"
  have plain: "\<And>c. c \<in> set ?v \<Longrightarrow> c \<noteq> CHR ''='' \<and> b64_value c \<noteq> None"
    using encode_chars by blast
  have "takeWhile (\<lambda>c. c \<noteq> CHR ''='') (?v @ replicate ?n (CHR ''='')) = ?v"
    using plain by (subst takeWhile_append2) auto
  moreover have "list_all (\<lambda>c. b64_value c \<noteq> None) ?v" using plain by (simp add: list_all_iff)
  moreover have "list_all (\<lambda>c. c = CHR ''='') (replicate ?n (CHR ''=''))" by (simp add: list_all_iff)
  moreover have "?n \<le> 2" using pad_le_2 [of "length ?v"] length_sextets [of bs] by (simp add: encode_sextets)
  moreover have "map (the \<circ> b64_value) ?v = sextets bs"
  proof -
    have "map (the \<circ> b64_value \<circ> b64_char) (sextets bs) = map id (sextets bs)"
      using sextets_bound [of bs] by (intro map_cong) (auto simp: list_all_iff b64_char_value)
    then show ?thesis by (simp add: encode_sextets)
  qed
  ultimately show ?thesis unfolding decode_def Let_def by (simp add: decode_sextets_sextets del: takeWhile_append1)
qed

lemma encode_no_dollar: "CHR ''$'' \<notin> set (encode bs)"
  using encode_chars by blast

section \<open>Stored hashes are read back\<close>

lemma show_iterations: "show_nat PASSWORD_HASH_ITERATIONS = ''600000''"
  by (simp add: PASSWORD_HASH_ITERATIONS_def show_nat.simps digit_def)

lemma int_iterations: "int_of_text ''600000'' = Some (int PASSWORD_HASH_ITERATIONS)"
  unfolding PASSWORD_HASH_ITERATIONS_def
  by (simp add: int_of_text_def strip_def lstrip_def is_space_def ascii_digit_def digits_value_def digit_value_def)

lemma parse_written:
  assumes "length salt = PASSWORD_SALT_BYTES" "length digest = PASSWORD_DIGEST_BYTES"
  shows "parse_pbkdf2 (join ''$'' [PASSWORD_HASH_ALGORITHM, show_nat PASSWORD_HASH_ITERATIONS, encode salt, encode digest]) =
    Some (int PASSWORD_HASH_ITERATIONS, salt, digest)"
proof -
  let ?ws = "[PASSWORD_HASH_ALGORITHM, show_nat PASSWORD_HASH_ITERATIONS, encode salt, encode digest]"
  have "\<forall>w \<in> set ?ws. CHR ''$'' \<notin> set w"
    using encode_no_dollar by (auto simp: show_iterations PASSWORD_HASH_ALGORITHM_def)
  then have "split_on (CHR ''$'') (join ''$'' ?ws) = ?ws" by (intro split_on_join) simp
  then show ?thesis using assms
    unfolding parse_pbkdf2_def by (simp add: show_iterations int_iterations del: join.simps) (simp add: PASSWORD_HASH_ITERATIONS_def)
qed

lemma hash_password_Inr:
  assumes "\<And>p s i n. length (kdf p s i n) = n" "length salt = PASSWORD_SALT_BYTES" "hash_password kdf salt m p = Inr h"
  shows "parse_pbkdf2 h =
    Some (int PASSWORD_HASH_ITERATIONS, salt, kdf p salt (int PASSWORD_HASH_ITERATIONS) PASSWORD_DIGEST_BYTES)"
  using assms parse_written [OF assms(2), of "kdf p salt (int PASSWORD_HASH_ITERATIONS) PASSWORD_DIGEST_BYTES"]
  by (auto simp: hash_password_def Let_def split: if_splits)

end
