(* ===== verification/Capability_Grants.thy ===== *)
theory Capability_Grants
  imports Password_Hash Path_Access "HOL-Library.AList"
begin

text \<open>
  Workspace passwords and the temporary grants of privileged capabilities:
  \<open>openkapsel/auth/capability_grants.py\<close>.  A request for a capability is a pending ticket; the user who
  opens its link types the workspace password, and the capability is granted to one conversation and
  target for a limited time.  The file scopes of a grant are confirmed in a second step by the browser
  that gave the password.

  A Python dictionary is an association list in insertion order.  Only \<open>token_passwords\<close> is a table of
  the database; the other fields live in the process.  \<open>time.monotonic()\<close> is a rational number of
  seconds, passed to the operations; sums of clock readings are exact.  The HMAC of the browser proof
  (with the key of the process) is the parameter \<open>hmac_hex\<close>, PBKDF2 the parameter \<open>kdf_of\<close>.
\<close>

type_synonym monotonic = rat

definition CAPABILITIES :: "string list" where
  "CAPABILITIES = [''shell.unsandboxed'', ''files.read'', ''files.write'']"

definition FILE_CAPABILITIES :: "string list" where
  "FILE_CAPABILITIES = [''files.read'', ''files.write'']"

definition PENDING_SECONDS :: int where "PENDING_SECONDS = 30 * 60"
definition MAX_SECONDS :: int where "MAX_SECONDS = 24 * 3600"
definition MAX_PENDING_PER_TOKEN :: nat where "MAX_PENDING_PER_TOKEN = 32"
definition MAX_APPROVAL_REASON_CHARS :: nat where "MAX_APPROVAL_REASON_CHARS = 500"
definition MAX_ATTEMPTS :: nat where "MAX_ATTEMPTS = 5"
definition PASSWORD_SETUP_SECONDS :: int where "PASSWORD_SETUP_SECONDS = 15 * 60"

record approval =
  ap_workspace :: string
  ap_conversation :: int
  ap_target :: string
  ap_capability :: string
  ap_deadline :: monotonic
  ap_path :: string
  ap_reason :: string
  ap_original :: string
  ap_resolved :: string
  ap_directory :: bool
  ap_cookie :: string
  ap_seconds :: int
  ap_attempts :: nat

text \<open>Workspace, conversation, target, capability and path.\<close>

type_synonym grant_key = "string \<times> int \<times> string \<times> string \<times> string"

record cap_env =
  kdf_of :: kdf
  hmac_hex :: "string \<Rightarrow> string"

record cap_store =
  token_passwords :: "(string \<times> string) list"
  password_setup_links :: "(string \<times> string \<times> monotonic) list"
  pending_requests :: "(string \<times> approval) list"
  active_grants :: "(grant_key \<times> monotonic) list"

definition empty_caps :: cap_store where
  "empty_caps = \<lparr>token_passwords = [], password_setup_links = [], pending_requests = [], active_grants = []\<rparr>"

section \<open>Passwords\<close>

definition configured :: "string \<Rightarrow> 'z cap_store_scheme \<Rightarrow> bool" where
  "configured w st \<longleftrightarrow> map_of (token_passwords st) w \<noteq> None"

text \<open>
  \<open>revoke_workspace\<close>; the hook it calls, when the server has set one, revokes the function grants of
  the workspace, which are another store.
\<close>

definition revoke_workspace :: "string \<Rightarrow> 'z cap_store_scheme \<Rightarrow> 'z cap_store_scheme" where
  "revoke_workspace w st =
     st\<lparr>active_grants := filter (\<lambda>((owner, _), _). owner \<noteq> w) (active_grants st),
        pending_requests := filter (\<lambda>(_, item). ap_workspace item \<noteq> w) (pending_requests st),
        password_setup_links := filter (\<lambda>(_, owner, _). owner \<noteq> w) (password_setup_links st)\<rparr>"

definition set_password :: "cap_env \<Rightarrow> string \<Rightarrow> string \<Rightarrow> bytes \<Rightarrow> ('z cap_store_scheme, unit) op" where
  "set_password env w password salt st =
     (if \<not> (6 \<le> length password \<and> length password \<le> 1024)
      then (Inl (ValueError ''workspace password must contain 6-1024 characters''), st)
      else case hash_password (kdf_of env) salt 6 password of
        Inl e \<Rightarrow> (Inl e, st)
      | Inr encoded \<Rightarrow>
          (Inr (), revoke_workspace w (st\<lparr>token_passwords := AList.update w encoded (token_passwords st)\<rparr>)))"

definition create_password_setup_link :: "string \<Rightarrow> string \<Rightarrow> monotonic \<Rightarrow> ('z cap_store_scheme, string) op" where
  "create_password_setup_link w ticket now st =
     (if w = [] then (Inl (ValueError ''invalid Token Workspace''), st)
      else (Inr ticket, st\<lparr>password_setup_links :=
              AList.update ticket (w, now + of_int PASSWORD_SETUP_SECONDS)
                (filter (\<lambda>(_, owner, expires). expires > now \<and> owner \<noteq> w) (password_setup_links st))\<rparr>))"

definition password_setup_workspace :: "string \<Rightarrow> monotonic \<Rightarrow> 'z cap_store_scheme \<Rightarrow> string option \<times> 'z cap_store_scheme" where
  "password_setup_workspace ticket now st =
     (case map_of (password_setup_links st) ticket of
        None \<Rightarrow> (None, st)
      | Some (owner, expires) \<Rightarrow>
          if expires \<le> now then (None, st\<lparr>password_setup_links := AList.delete ticket (password_setup_links st)\<rparr>)
          else (Some owner, st))"

definition consume_password_setup_link ::
  "cap_env \<Rightarrow> string \<Rightarrow> string \<Rightarrow> string \<Rightarrow> bytes \<Rightarrow> monotonic \<Rightarrow> ('z cap_store_scheme, string) op" where
  "consume_password_setup_link env ticket password confirmation salt now st =
     (if password \<noteq> confirmation then (Inl (ValueError ''passwords do not match''), st)
      else case password_setup_workspace ticket now st of
        (None, st1) \<Rightarrow> (Inl (ValueError ''password setup link is expired or already used''), st1)
      | (Some w, st1) \<Rightarrow>
          (case set_password env w password salt st1 of
             (Inl e, st2) \<Rightarrow> (Inl e, st2)
           | (Inr _, st2) \<Rightarrow> (Inr w, st2)))"

definition check_password :: "cap_env \<Rightarrow> string \<Rightarrow> string \<Rightarrow> 'z cap_store_scheme \<Rightarrow> bool" where
  "check_password env w password st \<longleftrightarrow>
     length password \<le> 1024 \<and>
     (case map_of (token_passwords st) w of None \<Rightarrow> False | Some h \<Rightarrow> verify_password (kdf_of env) password h)"

definition verify_workspace_password :: "cap_env \<Rightarrow> string \<Rightarrow> string \<Rightarrow> 'z cap_store_scheme \<Rightarrow> bool" where
  "verify_workspace_password = check_password"

section \<open>Requests\<close>

definition expire :: "monotonic \<Rightarrow> 'z cap_store_scheme \<Rightarrow> 'z cap_store_scheme" where
  "expire now st =
     st\<lparr>pending_requests := filter (\<lambda>(_, item). ap_deadline item > now) (pending_requests st),
        active_grants := filter (\<lambda>(_, end_time). end_time > now) (active_grants st)\<rparr>"

text \<open>
  The literals of the path test of \<open>request\<close> and \<open>granted_path\<close> are written with doubled backslashes: they
  are the four characters \<open>\x00\<close> and two backslashes.
\<close>

definition literal_nul :: string where
  "literal_nul = [CHR 0x5C, CHR ''x'', CHR ''0'', CHR ''0'']"

definition odd_path :: "string \<Rightarrow> bool" where
  "odd_path path \<longleftrightarrow> ''..'' \<in> set (split_on (CHR ''/'') path) \<or> contains path literal_nul \<or>
     contains path [CHR 0x5C, CHR 0x5C]"

definition bad_shown_path :: "string \<Rightarrow> bool" where
  "bad_shown_path path \<longleftrightarrow> length path > 4096 \<or>
     path \<noteq> [] \<and> (\<not> startswith path ''/'' \<or> ''..'' \<in> set (split_on (CHR ''/'') path) \<or>
       CHR 0x00 \<in> set path \<or> CHR 0x5C \<in> set path)"

text \<open>The literal \<open>"\\n\\r\\t"\<close> holds a backslash and the letters n, r and t.\<close>

definition odd_reason :: "string \<Rightarrow> bool" where
  "odd_reason reason \<longleftrightarrow> length reason > MAX_APPROVAL_REASON_CHARS \<or>
     list_ex (\<lambda>c. (of_char c :: nat) < 32 \<and> c \<notin> set [CHR 0x5C, CHR ''n'', CHR 0x5C, CHR ''r'', CHR 0x5C, CHR ''t'']) reason"

record approval_args =
  aa_workspace :: string
  aa_conversation :: int
  aa_target :: string
  aa_capability :: string
  aa_path :: string
  aa_reason :: string
  aa_original :: string
  aa_resolved :: string
  aa_directory :: bool

definition request_error :: "approval_args \<Rightarrow> pyerr option" where
  "request_error a =
     (if aa_target a = [] \<or> aa_capability a \<notin> set CAPABILITIES
      then Some (ValueError ''invalid capability approval request'')
      else if aa_path a \<noteq> [] \<and> (aa_capability a \<notin> set FILE_CAPABILITIES \<or> \<not> startswith (aa_path a) ''/'' \<or> odd_path (aa_path a))
      then Some (ValueError ''invalid approval path'')
      else if bad_shown_path (aa_original a) then Some (ValueError ''invalid approval original path'')
      else if bad_shown_path (aa_resolved a) then Some (ValueError ''invalid resolved approval path'')
      else if odd_reason (aa_reason a)
      then Some (ValueError ''reason must be a bounded text description (maximum 500 characters)'')
      else if aa_conversation a < 0 then Some (ValueError ''invalid conversation id'')
      else None)"

definition new_approval :: "approval_args \<Rightarrow> monotonic \<Rightarrow> approval" where
  "new_approval a now =
     \<lparr>ap_workspace = aa_workspace a, ap_conversation = aa_conversation a, ap_target = aa_target a,
      ap_capability = aa_capability a, ap_deadline = now + of_int PENDING_SECONDS, ap_path = aa_path a,
      ap_reason = aa_reason a, ap_original = aa_original a, ap_resolved = aa_resolved a,
      ap_directory = aa_directory a, ap_cookie = [], ap_seconds = 0, ap_attempts = 0\<rparr>"

definition request_approval :: "approval_args \<Rightarrow> string \<Rightarrow> monotonic \<Rightarrow> ('z cap_store_scheme, string) op" where
  "request_approval a ticket now st =
     (case request_error a of
        Some e \<Rightarrow> (Inl e, st)
      | None \<Rightarrow>
          let st1 = expire now st
          in if length (filter (\<lambda>(_, item). ap_workspace item = aa_workspace a) (pending_requests st1)) \<ge> MAX_PENDING_PER_TOKEN
             then (Inl (RuntimeError ''too many pending capability approvals for token''), st1)
             else (Inr ticket, st1\<lparr>pending_requests := AList.update ticket (new_approval a now) (pending_requests st1)\<rparr>))"

definition pending :: "string \<Rightarrow> monotonic \<Rightarrow> 'z cap_store_scheme \<Rightarrow> approval option \<times> 'z cap_store_scheme" where
  "pending ticket now st = (let st1 = expire now st in (map_of (pending_requests st1) ticket, st1))"

section \<open>Grants\<close>

definition granted :: "grant_key \<Rightarrow> monotonic \<Rightarrow> 'z cap_store_scheme \<Rightarrow> bool \<times> 'z cap_store_scheme" where
  "granted k now st =
     (let st1 = expire now st
      in ((case map_of (active_grants st1) k of None \<Rightarrow> 0 | Some e \<Rightarrow> e) > now, st1))"

text \<open>\<open>max(scopes, key=len)\<close>: the first of the longest.\<close>

fun longest :: "string list \<Rightarrow> string option" where
  "longest [] = None"
| "longest (s # rest) = (case longest rest of None \<Rightarrow> Some s | Some r \<Rightarrow> if length r > length s then Some r else Some s)"

definition granted_path ::
  "string \<Rightarrow> int \<Rightarrow> string \<Rightarrow> string \<Rightarrow> string \<Rightarrow> monotonic \<Rightarrow> 'z cap_store_scheme \<Rightarrow> string option \<times> 'z cap_store_scheme" where
  "granted_path w conv target capability path now st =
     (if \<not> startswith path ''/'' \<or> odd_path path then (None, st)
      else let st1 = expire now st; candidate = parse_path path;
             scopes = map (\<lambda>((_, _, _, _, scope), _). scope)
               (filter (\<lambda>((owner, c, dest, permission, scope), expiry).
                   owner = w \<and> c = conv \<and> dest = target \<and> permission = capability \<and> scope \<noteq> [] \<and> expiry > now \<and>
                   (candidate = parse_path scope \<or> parse_path scope \<in> set (path_parents candidate))) (active_grants st1))
           in (longest scopes, st1))"

definition has_scoped_grant ::
  "string \<Rightarrow> int \<Rightarrow> string \<Rightarrow> string \<Rightarrow> monotonic \<Rightarrow> 'z cap_store_scheme \<Rightarrow> bool \<times> 'z cap_store_scheme" where
  "has_scoped_grant w conv target capability now st =
     (let st1 = expire now st
      in (list_ex (\<lambda>((owner, c, dest, permission, scope), deadline).
            owner = w \<and> c = conv \<and> dest = target \<and> permission = capability \<and> scope \<noteq> [] \<and> deadline > now) (active_grants st1), st1))"

definition drop_pending :: "string \<Rightarrow> 'z cap_store_scheme \<Rightarrow> 'z cap_store_scheme" where
  "drop_pending ticket st = st\<lparr>pending_requests := AList.delete ticket (pending_requests st)\<rparr>"

definition set_pending :: "string \<Rightarrow> approval \<Rightarrow> 'z cap_store_scheme \<Rightarrow> 'z cap_store_scheme" where
  "set_pending ticket item st = st\<lparr>pending_requests := AList.update ticket item (pending_requests st)\<rparr>"

definition key_of :: "approval \<Rightarrow> grant_key" where
  "key_of item = (ap_workspace item, ap_conversation item, ap_target item, ap_capability item, ap_path item)"

definition activate :: "approval \<Rightarrow> monotonic \<Rightarrow> 'z cap_store_scheme \<Rightarrow> 'z cap_store_scheme" where
  "activate item end_time st = st\<lparr>active_grants := AList.update (key_of item) end_time (active_grants st)\<rparr>"

definition DURATION_ERROR :: pyerr where
  "DURATION_ERROR = ValueError ''grant duration must be 1 to 1440 minutes''"

text \<open>A failed attempt is counted, and the last one removes the ticket.\<close>

definition count_attempt :: "string \<Rightarrow> approval \<Rightarrow> 'z cap_store_scheme \<Rightarrow> 'z cap_store_scheme" where
  "count_attempt ticket item st =
     (if ap_attempts item + 1 \<ge> MAX_ATTEMPTS then drop_pending ticket st
      else set_pending ticket (item\<lparr>ap_attempts := ap_attempts item + 1\<rparr>) st)"

text \<open>\<open>now\<close> is the reading on entry, \<open>later\<close> the one after the password is checked.\<close>

definition approve ::
  "cap_env \<Rightarrow> string \<Rightarrow> string \<Rightarrow> int \<Rightarrow> monotonic \<Rightarrow> monotonic \<Rightarrow> ('z cap_store_scheme, approval) op" where
  "approve env ticket password seconds now later st =
     (if \<not> (60 \<le> seconds \<and> seconds \<le> MAX_SECONDS) then (Inl DURATION_ERROR, st)
      else let st1 = expire now st in
        case map_of (pending_requests st1) ticket of
          None \<Rightarrow> (Inl (ValueError ''approval expired or already used''), st1)
        | Some item \<Rightarrow>
            if ap_attempts item \<ge> MAX_ATTEMPTS
            then (Inl (PermissionError ''approval attempts exhausted''), drop_pending ticket st1)
            else if \<not> check_password env (ap_workspace item) password st1
            then (Inl (PermissionError ''workspace password incorrect''), count_attempt ticket item st1)
            else if ap_deadline item \<le> later
            then (Inl (ValueError ''approval expired or already used''), drop_pending ticket st1)
            else (Inr (item\<lparr>ap_attempts := ap_attempts item + 1\<rparr>),
                  drop_pending ticket (activate item (later + of_int seconds) st1)))"

definition authenticate_file ::
  "cap_env \<Rightarrow> string \<Rightarrow> string \<Rightarrow> int \<Rightarrow> monotonic \<Rightarrow> ('z cap_store_scheme, approval) op" where
  "authenticate_file env ticket password seconds now st =
     (if \<not> (60 \<le> seconds \<and> seconds \<le> MAX_SECONDS) then (Inl DURATION_ERROR, st)
      else let st1 = expire now st in
        case map_of (pending_requests st1) ticket of
          None \<Rightarrow> (Inl (ValueError ''approval expired or not a scoped File request''), st1)
        | Some item \<Rightarrow>
            if ap_path item = [] \<or> ap_capability item \<notin> set FILE_CAPABILITIES
            then (Inl (ValueError ''approval expired or not a scoped File request''), st1)
            else if ap_attempts item \<ge> MAX_ATTEMPTS
            then (Inl (PermissionError ''approval attempts exhausted''), drop_pending ticket st1)
            else if \<not> check_password env (ap_workspace item) password st1
            then (Inl (PermissionError ''workspace password incorrect''), count_attempt ticket item st1)
            else (Inr item, st1))"

definition browser_proof :: "cap_env \<Rightarrow> string \<Rightarrow> string \<Rightarrow> string" where
  "browser_proof env ticket cookie = hmac_hex env (ticket @ '':'' @ cookie)"

definition prepare_file_confirmation ::
  "cap_env \<Rightarrow> string \<Rightarrow> string \<Rightarrow> string \<Rightarrow> string \<Rightarrow> int \<Rightarrow> monotonic \<Rightarrow> ('z cap_store_scheme, unit) op" where
  "prepare_file_confirmation env ticket cookie path resolved_path seconds now st =
     (let st1 = expire now st in
        case map_of (pending_requests st1) ticket of
          None \<Rightarrow> (Inl (ValueError ''approval expired''), st1)
        | Some item \<Rightarrow>
            if \<not> startswith path ''/'' \<or> ''..'' \<in> set (split_on (CHR ''/'') path) \<or>
               \<not> startswith resolved_path ''/'' \<or> ''..'' \<in> set (split_on (CHR ''/'') resolved_path)
            then (Inl (ValueError ''invalid resolved approval directory''), st1)
            else (Inr (), set_pending ticket
                    (item\<lparr>ap_original := (if ap_original item = [] then ap_path item else ap_original item), ap_path := path,
                       ap_resolved := resolved_path, ap_seconds := seconds, ap_cookie := browser_proof env ticket cookie\<rparr>) st1))"

definition confirmed_browser :: "cap_env \<Rightarrow> string \<Rightarrow> string \<Rightarrow> approval \<Rightarrow> bool" where
  "confirmed_browser env ticket cookie item \<longleftrightarrow> ap_cookie item \<noteq> [] \<and> ap_cookie item = browser_proof env ticket cookie"

definition verify_file_confirmation_browser ::
  "cap_env \<Rightarrow> string \<Rightarrow> string \<Rightarrow> monotonic \<Rightarrow> 'z cap_store_scheme \<Rightarrow> bool \<times> 'z cap_store_scheme" where
  "verify_file_confirmation_browser env ticket cookie now st =
     (let st1 = expire now st
      in (case map_of (pending_requests st1) ticket of None \<Rightarrow> False | Some item \<Rightarrow> confirmed_browser env ticket cookie item, st1))"

definition confirm_file :: "cap_env \<Rightarrow> string \<Rightarrow> string \<Rightarrow> monotonic \<Rightarrow> ('z cap_store_scheme, approval) op" where
  "confirm_file env ticket cookie now st =
     (let st1 = expire now st in
        case map_of (pending_requests st1) ticket of
          None \<Rightarrow> (Inl (PermissionError ''file confirmation requires the authenticated browser''), st1)
        | Some item \<Rightarrow>
            if \<not> confirmed_browser env ticket cookie item
            then (Inl (PermissionError ''file confirmation requires the authenticated browser''), st1)
            else (Inr item, drop_pending ticket (activate item (now + of_int (ap_seconds item)) st1)))"

definition revoke :: "grant_key \<Rightarrow> 'z cap_store_scheme \<Rightarrow> 'z cap_store_scheme" where
  "revoke k st = st\<lparr>active_grants := AList.delete k (active_grants st)\<rparr>"

definition list_grants :: "string \<Rightarrow> monotonic \<Rightarrow> 'z cap_store_scheme \<Rightarrow> (int \<times> string \<times> string \<times> string \<times> int) list \<times> 'z cap_store_scheme" where
  "list_grants w now st =
     (let st1 = expire now st
      in (map (\<lambda>((_, conv, target, capability, path), expiry). (conv, target, capability, path, max 0 \<lfloor>expiry - now\<rfloor>))
            (filter (\<lambda>((scope, _), _). scope = w) (active_grants st1)), st1))"

definition remove_workspace :: "string \<Rightarrow> 'z cap_store_scheme \<Rightarrow> 'z cap_store_scheme" where
  "remove_workspace w st = revoke_workspace w (st\<lparr>token_passwords := AList.delete w (token_passwords st)\<rparr>)"

definition hex_char :: "char \<Rightarrow> bool" where
  "hex_char c \<longleftrightarrow> c \<in> set ''0123456789abcdef''"

definition verify_browser :: "cap_env \<Rightarrow> string \<Rightarrow> string option \<Rightarrow> string \<Rightarrow> bool" where
  "verify_browser env ticket cookie proof_text \<longleftrightarrow>
     (case cookie of None \<Rightarrow> False | Some c \<Rightarrow>
        c \<noteq> [] \<and> length proof_text = 64 \<and> list_all hex_char proof_text \<and> browser_proof env ticket c = proof_text)"

end
