(* ===== verification/Function_Grants.thy ===== *)
theory Function_Grants
  imports Capability_Grants
begin

text \<open>
  Authorizations owned by a function: \<open>openkapsel/auth/function_grants.py\<close>.  The provider of a function
  answers an approval with a JSON value that holds a list of grants with an expiry each; the server
  keeps it as it is, for one workspace, conversation, target and function, and forgets the items whose
  own deadline, on the server's clock, has passed.

  The provider is the parameter \<open>grant\<close> of the operations: from the authorization it gave before, the
  request and the duration it computes the new authorization, or fails.  \<open>json_bytes\<close> is the length of
  the JSON text of a value, \<open>None\<close> where \<open>json.dumps\<close> refuses the value (a float that is not finite).
\<close>

definition SERVER_EXPIRY_GRACE_SECONDS :: int where "SERVER_EXPIRY_GRACE_SECONDS = 60"

section \<open>Values\<close>

text \<open>Python's equality: numbers by value (\<open>True\<close> is 1), dictionaries without regard to order.\<close>

definition number_of :: "pyval \<Rightarrow> rat option" where
  "number_of v = (case v of PBool b \<Rightarrow> Some (if b then 1 else 0) | PInt i \<Rightarrow> Some (of_int i) | PFloat (Fin r) \<Rightarrow> Some r | _ \<Rightarrow> None)"

lemma zip_size [termination_simp]: "(x, y) \<in> set (zip xs ys) \<Longrightarrow> size x < Suc (size_list size xs)"
  using size_list_estimation' [of x xs "size x" size] by (auto dest: set_zip_leftD)

fun py_eq :: "pyval \<Rightarrow> pyval \<Rightarrow> bool" where
  "py_eq (PList xs) (PList ys) = (length xs = length ys \<and> list_all (\<lambda>(x, y). py_eq x y) (zip xs ys))"
| "py_eq (PDict d) (PDict d') = (length d = length d' \<and> list_all (\<lambda>(k, v). list_ex (\<lambda>(k', v'). k = k' \<and> py_eq v v') d') d)"
| "py_eq (PStr s) (PStr t) = (s = t)"
| "py_eq PNone PNone = True"
| "py_eq (PFloat PosInf) (PFloat PosInf) = True"
| "py_eq (PFloat NegInf) (PFloat NegInf) = True"
| "py_eq v w = (case (number_of v, number_of w) of (Some a, Some b) \<Rightarrow> a = b | _ \<Rightarrow> False)"

text \<open>
  \<open>_json_copy\<close>: the copy of a JSON value is the value.  (A value is never shared in the model.)
\<close>

definition json_copy :: "(pyval \<Rightarrow> nat option) \<Rightarrow> pyval \<Rightarrow> pyval result" where
  "json_copy json_bytes v =
     (case json_bytes v of
        None \<Rightarrow> Inl (ValueError ''Out of range float values are not JSON compliant'')
      | Some n \<Rightarrow> if n > 128 * 1024 then Inl (ValueError ''approval data exceeds 128 KiB'') else Inr v)"

definition grant_items :: "pyval \<Rightarrow> pyval list" where
  "grant_items auth = (case auth of PDict d \<Rightarrow> (case dict_get d ''grants'' of PList items \<Rightarrow> items | _ \<Rightarrow> []) | _ \<Rightarrow> [])"

definition set_item :: "(string \<times> pyval) list \<Rightarrow> string \<Rightarrow> pyval \<Rightarrow> (string \<times> pyval) list" where
  "set_item d k v = AList.update k v d"

definition with_grants :: "pyval \<Rightarrow> pyval list \<Rightarrow> pyval" where
  "with_grants auth items = (case auth of PDict d \<Rightarrow> PDict (set_item d ''grants'' (PList items)) | v \<Rightarrow> v)"

text \<open>The \<open>expires_at\<close> of an item, where it is one that \<open>_validated_auth\<close> accepts.\<close>

definition expires_at :: "pyval \<Rightarrow> rat option" where
  "expires_at item =
     (case item of
        PDict d \<Rightarrow>
          (case map_of d ''expires_at'' of
             Some (PInt i) \<Rightarrow> if 0 \<le> i \<and> i \<le> 10 ^ 13 then Some (of_int i) else None
           | Some (PFloat (Fin r)) \<Rightarrow> if 0 \<le> r \<and> r \<le> 10 ^ 13 then Some r else None
           | _ \<Rightarrow> None)
      | _ \<Rightarrow> None)"

definition validated_auth :: "pyval \<Rightarrow> pyval result" where
  "validated_auth auth =
     (case auth of
        PDict d \<Rightarrow>
          (case dict_get d ''grants'' of
             PList items \<Rightarrow>
               if list_ex (\<lambda>item. expires_at item = None) items
               then Inl (ValueError ''each grant requires a finite numeric expires_at'') else Inr auth
           | _ \<Rightarrow> Inl (ValueError ''function auth requires a grants list''))
      | _ \<Rightarrow> Inl (ValueError ''function auth requires a grants list''))"

definition semantic_auth :: "pyval \<Rightarrow> pyval" where
  "semantic_auth auth =
     with_grants auth (map (\<lambda>item. case item of PDict d \<Rightarrow> PDict (filter (\<lambda>(k, _). k \<noteq> ''expires_at'') d) | v \<Rightarrow> v) (grant_items auth))"

section \<open>The store\<close>

record fun_request =
  fr_workspace :: string
  fr_conversation :: int
  fr_target :: string
  fr_function :: string
  fr_request :: pyval
  fr_display :: pyval
  fr_deadline :: monotonic
  fr_reason :: string
  fr_attempts :: nat

record fun_auth =
  fa_auth :: pyval
  fa_deadlines :: "monotonic list"
  fa_revision :: nat

type_synonym fun_key = "string \<times> int \<times> string \<times> string"

text \<open>The staged proposal of a ticket: browser, authorization, duration and the revision it replaces.\<close>

type_synonym staged = "string \<times> pyval \<times> int \<times> nat"

record grants_store = cap_store +
  fun_pending :: "(string \<times> fun_request) list"
  fun_active :: "(fun_key \<times> fun_auth) list"
  confirmations :: "(string \<times> staged) list"

definition empty_grants :: grants_store where
  "empty_grants = cap_store.extend empty_caps \<lparr>fun_pending = [], fun_active = [], confirmations = []\<rparr>"

definition fun_key_of :: "fun_request \<Rightarrow> fun_key" where
  "fun_key_of r = (fr_workspace r, fr_conversation r, fr_target r, fr_function r)"

text \<open>The items of an authorization whose deadline is ahead.\<close>

definition live_auth :: "monotonic \<Rightarrow> fun_auth \<Rightarrow> fun_auth option" where
  "live_auth now a =
     (let keep = filter (\<lambda>(_, d). d > now) (zip (grant_items (fa_auth a)) (fa_deadlines a));
          ahead = filter (\<lambda>d. d > now) (fa_deadlines a)
      in if length ahead = length (fa_deadlines a) then Some a
         else if ahead = [] then None
         else Some (a\<lparr>fa_auth := with_grants (fa_auth a) (map fst keep), fa_deadlines := ahead\<rparr>))"

definition prune_active :: "monotonic \<Rightarrow> (fun_key \<times> fun_auth) list \<Rightarrow> (fun_key \<times> fun_auth) list" where
  "prune_active now rows = concat (map (\<lambda>(k, a). case live_auth now a of None \<Rightarrow> [] | Some b \<Rightarrow> [(k, b)]) rows)"

definition drop_stale :: "'z grants_store_scheme \<Rightarrow> 'z grants_store_scheme" where
  "drop_stale st = st\<lparr>confirmations := filter (\<lambda>(k, _). k \<in> fst ` set (fun_pending st)) (confirmations st)\<rparr>"

definition fun_prune :: "monotonic \<Rightarrow> 'z grants_store_scheme \<Rightarrow> 'z grants_store_scheme" where
  "fun_prune now st =
     drop_stale (st\<lparr>fun_pending := filter (\<lambda>(_, r). fr_deadline r > now) (fun_pending st),
       fun_active := prune_active now (fun_active st)\<rparr>)"

definition fun_ask ::
  "(pyval \<Rightarrow> nat option) \<Rightarrow> fun_key \<Rightarrow> pyval \<Rightarrow> pyval \<Rightarrow> string \<Rightarrow> string \<Rightarrow> monotonic \<Rightarrow> ('z grants_store_scheme, string) op" where
  "fun_ask json_bytes k request display reason ticket now st =
     (case k of (w, conv, target, function) \<Rightarrow>
        if w = [] \<or> target = [] \<or> function = [] \<or> conv < 0
        then (Inl (ValueError ''invalid function approval binding''), st)
        else attempt (andThen (json_copy json_bytes request) (\<lambda>requested.
                      andThen (json_copy json_bytes display) (\<lambda>displayed. Inr (requested, displayed))))
          (\<lambda>(requested, displayed) st.
             let st1 = fun_prune now st
             in if length (filter (\<lambda>(_, r). fr_workspace r = w) (fun_pending st1)) \<ge> 32
                then (Inl (ValueError ''too many pending function approvals''), st1)
                else (Inr ticket, st1\<lparr>fun_pending := AList.update ticket
                        \<lparr>fr_workspace = w, fr_conversation = conv, fr_target = target, fr_function = function,
                         fr_request = requested, fr_display = displayed, fr_deadline = now + of_int PENDING_SECONDS,
                         fr_reason = reason, fr_attempts = 0\<rparr> (fun_pending st1)\<rparr>)) st)"

definition fun_pending_request :: "string \<Rightarrow> monotonic \<Rightarrow> 'z grants_store_scheme \<Rightarrow> fun_request option \<times> 'z grants_store_scheme" where
  "fun_pending_request ticket now st = (let st1 = fun_prune now st in (map_of (fun_pending st1) ticket, st1))"

definition fun_current ::
  "(pyval \<Rightarrow> nat option) \<Rightarrow> fun_key \<Rightarrow> monotonic \<Rightarrow> ('z grants_store_scheme, pyval option) op" where
  "fun_current json_bytes k now st =
     (let st1 = fun_prune now st
      in case map_of (fun_active st1) k of
           None \<Rightarrow> (Inr None, st1)
         | Some a \<Rightarrow> attempt (json_copy json_bytes (fa_auth a)) (\<lambda>v st. (Inr (Some v), st)) st1)"

text \<open>
  The password is verified without the lock of this store.  In between, another request can remove the
  ticket; here the two parts follow each other.
\<close>

definition password_attempt ::
  "string \<Rightarrow> (string \<Rightarrow> bool) \<Rightarrow> monotonic \<Rightarrow> monotonic \<Rightarrow> ('z grants_store_scheme, bool) op" where
  "password_attempt ticket verify now later st =
     (let st1 = fun_prune now st
      in case map_of (fun_pending st1) ticket of
           None \<Rightarrow> (Inl (ValueError ''function approval expired or used''), st1)
         | Some r \<Rightarrow>
             let valid = verify (fr_workspace r); st2 = fun_prune later st1
             in case map_of (fun_pending st2) ticket of
                  None \<Rightarrow> (Inl (ValueError ''function approval expired or revoked''), st2)
                | Some current \<Rightarrow>
                    if valid then (Inr True, st2)
                    else if fr_attempts current + 1 \<ge> 5
                    then (Inr False, st2\<lparr>fun_pending := AList.delete ticket (fun_pending st2)\<rparr>)
                    else (Inr False, st2\<lparr>fun_pending :=
                            AList.update ticket (current\<lparr>fr_attempts := fr_attempts current + 1\<rparr>) (fun_pending st2)\<rparr>))"

section \<open>Deadlines\<close>

text \<open>
  \<open>_deadlines\<close>: an item that was there before keeps its deadline (each earlier item is used once);
  \<open>None\<close> marks a fresh item.
\<close>

fun take_match :: "pyval \<Rightarrow> (pyval \<times> monotonic) list \<Rightarrow> (monotonic \<times> (pyval \<times> monotonic) list) option" where
  "take_match item [] = None"
| "take_match item ((p, d) # old) =
     (if py_eq p item then Some (d, old) else map_option (\<lambda>(d', old'). (d', (p, d) # old')) (take_match item old))"

fun match_items :: "pyval list \<Rightarrow> (pyval \<times> monotonic) list \<Rightarrow> monotonic option list" where
  "match_items [] old = []"
| "match_items (item # items) old =
     (case take_match item old of None \<Rightarrow> None # match_items items old | Some (d, old') \<Rightarrow> Some d # match_items items old')"

definition expiry :: "pyval \<Rightarrow> rat" where
  "expiry item = (case expires_at item of None \<Rightarrow> 0 | Some e \<Rightarrow> e)"

definition deadlines :: "fun_auth option \<Rightarrow> pyval list \<Rightarrow> monotonic \<Rightarrow> int \<Rightarrow> monotonic list" where
  "deadlines previous items started seconds =
     (let old = (case previous of None \<Rightarrow> [] | Some a \<Rightarrow> zip (grant_items (fa_auth a)) (fa_deadlines a));
          matched = match_items items old;
          fresh = map fst (filter (\<lambda>(_, m). m = None) (zip items matched));
          client_now = Max (set (map expiry fresh)) - of_int seconds
      in map (\<lambda>(item, m). case m of Some d \<Rightarrow> d
                | None \<Rightarrow> started + expiry item - client_now + of_int SERVER_EXPIRY_GRACE_SECONDS) (zip items matched))"

type_synonym provider = "pyval option \<Rightarrow> pyval \<Rightarrow> int \<Rightarrow> pyval result"

text \<open>
  \<open>_candidate\<close> at the clock readings \<open>started\<close> (before the provider is called) and \<open>finished\<close>.  (The
  program reads the clock once per deadline in the last test.)
\<close>

definition candidate ::
  "(pyval \<Rightarrow> nat option) \<Rightarrow> provider \<Rightarrow> fun_request \<Rightarrow> int \<Rightarrow> monotonic \<Rightarrow> monotonic \<Rightarrow> 'z grants_store_scheme \<Rightarrow>
   (fun_auth option \<times> pyval \<times> monotonic list) result" where
  "candidate json_bytes grant r seconds started finished st =
     (let previous = map_of (fun_active st) (fun_key_of r)
      in andThen (case previous of None \<Rightarrow> Inr None | Some a \<Rightarrow> andThen (json_copy json_bytes (fa_auth a)) (\<lambda>v. Inr (Some v))) (\<lambda>old_auth.
         andThen (json_copy json_bytes (fr_request r)) (\<lambda>request.
         andThen (grant old_auth request seconds) (\<lambda>answer.
         andThen (json_copy json_bytes answer) (\<lambda>copied.
         andThen (validated_auth copied) (\<lambda>updated.
           let ds = deadlines previous (grant_items updated) started seconds
           in if list_all (\<lambda>d. d \<le> finished) ds then Inl (ValueError ''function grant has no active authorization'')
              else Inr (previous, updated, ds)))))))"

definition revision_of :: "fun_auth option \<Rightarrow> nat" where
  "revision_of a = (case a of None \<Rightarrow> 0 | Some x \<Rightarrow> fa_revision x)"

text \<open>The confirmation of a ticket is not, or no longer, the one that the browser has seen.\<close>

definition confirmation_changed ::
  "string option \<Rightarrow> string \<Rightarrow> int \<Rightarrow> fun_auth option \<Rightarrow> pyval \<Rightarrow> 'z grants_store_scheme \<Rightarrow> bool" where
  "confirmation_changed browser ticket seconds previous updated st =
     (case browser of
        None \<Rightarrow> False
      | Some b \<Rightarrow>
          (case map_of (confirmations st) ticket of
             None \<Rightarrow> True
           | Some (b', proposed, s', rv) \<Rightarrow>
               b' \<noteq> b \<or> s' \<noteq> seconds \<or> rv \<noteq> revision_of previous \<or> \<not> py_eq (semantic_auth proposed) (semantic_auth updated)))"

definition publish :: "string \<Rightarrow> fun_key \<Rightarrow> fun_auth \<Rightarrow> 'z grants_store_scheme \<Rightarrow> 'z grants_store_scheme" where
  "publish ticket k a st =
     st\<lparr>fun_active := AList.update k a (fun_active st), fun_pending := AList.delete ticket (fun_pending st),
        confirmations := AList.delete ticket (confirmations st)\<rparr>"

definition stage :: "string \<Rightarrow> staged \<Rightarrow> 'z grants_store_scheme \<Rightarrow> 'z grants_store_scheme" where
  "stage ticket c st = st\<lparr>confirmations := AList.update ticket c (confirmations st)\<rparr>"

text \<open>\<open>t\<close> gives the clock readings of one call in their order.\<close>

definition fun_approve ::
  "(pyval \<Rightarrow> nat option) \<Rightarrow> provider \<Rightarrow> string \<Rightarrow> int \<Rightarrow> string option \<Rightarrow> (nat \<Rightarrow> monotonic) \<Rightarrow> ('z grants_store_scheme, pyval option) op" where
  "fun_approve json_bytes grant ticket seconds browser t st =
     (if \<not> (60 \<le> seconds \<and> seconds \<le> MAX_SECONDS) then (Inl (ValueError ''invalid function approval duration''), st)
      else let st1 = fun_prune (t 0) st in
        case map_of (fun_pending st1) ticket of
          None \<Rightarrow> (Inl (ValueError ''function approval expired or used''), st1)
        | Some r \<Rightarrow>
            (case candidate json_bytes grant r seconds (t 1) (t 2) st1 of
               Inl e \<Rightarrow> (Inl e, st1)
             | Inr (previous, updated, ds) \<Rightarrow>
                 let st2 = fun_prune (t 3) st1 in
                 if map_of (fun_pending st2) ticket \<noteq> Some r \<or> fr_deadline r \<le> t 3
                 then (Inl (ValueError ''function approval expired or revoked''), st2)
                 else if confirmation_changed browser ticket seconds previous updated st2
                 then (Inl (ValueError ''approval changed; request a new confirmation''), st2)
                 else let st3 = fun_prune (t 4) (publish ticket (fun_key_of r)
                            \<lparr>fa_auth = updated, fa_deadlines = ds, fa_revision = revision_of previous + 1\<rparr> st2)
                      in (case map_of (fun_active st3) (fun_key_of r) of
                            None \<Rightarrow> Inr None
                          | Some a \<Rightarrow> andThen (json_copy json_bytes (fa_auth a)) (\<lambda>v. Inr (Some v)), st3)))"

definition prepare_confirmation ::
  "(pyval \<Rightarrow> nat option) \<Rightarrow> provider \<Rightarrow> string \<Rightarrow> string \<Rightarrow> int \<Rightarrow> (nat \<Rightarrow> monotonic) \<Rightarrow> ('z grants_store_scheme, pyval) op" where
  "prepare_confirmation json_bytes grant ticket browser seconds t st =
     (if \<not> (60 \<le> seconds \<and> seconds \<le> MAX_SECONDS) then (Inl (ValueError ''invalid function approval duration''), st)
      else let st1 = fun_prune (t 0) st in
        case map_of (fun_pending st1) ticket of
          None \<Rightarrow> (Inl (ValueError ''function approval expired or used''), st1)
        | Some r \<Rightarrow>
            (case candidate json_bytes grant r seconds (t 1) (t 2) st1 of
               Inl e \<Rightarrow> (Inl e, st1)
             | Inr (previous, updated, _) \<Rightarrow>
                 if fr_deadline r \<le> t 3 then (Inl (ValueError ''function approval expired or revoked''), st1)
                 else (json_copy json_bytes updated, stage ticket (browser, updated, seconds, revision_of previous) st1)))"

definition fun_confirmation ::
  "(pyval \<Rightarrow> nat option) \<Rightarrow> string \<Rightarrow> string \<Rightarrow> monotonic \<Rightarrow> ('z grants_store_scheme, (pyval \<times> int) option) op" where
  "fun_confirmation json_bytes ticket browser now st =
     (let st1 = fun_prune now st
      in case map_of (confirmations st1) ticket of
           None \<Rightarrow> (Inr None, st1)
         | Some (b, proposed, seconds, _) \<Rightarrow>
             if b = browser then attempt (json_copy json_bytes proposed) (\<lambda>v st. (Inr (Some (v, seconds)), st)) st1 else (Inr None, st1))"

definition fun_revoke :: "fun_key \<Rightarrow> 'z grants_store_scheme \<Rightarrow> 'z grants_store_scheme" where
  "fun_revoke k st =
     drop_stale (st\<lparr>fun_active := AList.delete k (fun_active st),
       fun_pending := filter (\<lambda>(_, r). fun_key_of r \<noteq> k) (fun_pending st)\<rparr>)"

definition fun_list_grants :: "string \<Rightarrow> monotonic \<Rightarrow> 'z grants_store_scheme \<Rightarrow> (int \<times> string \<times> string \<times> int) list \<times> 'z grants_store_scheme" where
  "fun_list_grants w now st =
     (let st1 = fun_prune now st
      in (map (\<lambda>((_, conv, target, function), a). (conv, target, function, max 0 \<lfloor>Max (set (fa_deadlines a)) - now\<rfloor>))
            (filter (\<lambda>((owner, _), _). owner = w) (fun_active st1)), st1))"

definition fun_revoke_workspace :: "string \<Rightarrow> 'z grants_store_scheme \<Rightarrow> 'z grants_store_scheme" where
  "fun_revoke_workspace w st =
     drop_stale (st\<lparr>fun_active := filter (\<lambda>((owner, _), _). owner \<noteq> w) (fun_active st),
       fun_pending := filter (\<lambda>(_, r). fr_workspace r \<noteq> w) (fun_pending st)\<rparr>)"

end
