(* ===== verification/Attempt_Limits.thy ===== *)
theory Attempt_Limits
  imports Password_Hash "HOL-Library.AList"
begin

text \<open>
  Limits on guessing: the login limiter and the sessions of the administrator
  (\<open>openkapsel/server_runtime/admin_sessions.py\<close>), the login handler that uses them, section by section
  (\<open>_handle_admin_login\<close> of \<open>openkapsel/auth/admin_handlers.py\<close>), and the window budgets of consent and
  approval forms (\<open>ConsentLimiter\<close> of \<open>openkapsel/auth/oauth_consent.py\<close>).  Clock readings are rational
  seconds and sums of them are exact; dictionaries are association lists in insertion order.
\<close>

type_synonym seconds = rat

section \<open>Administrator sessions\<close>

record admin_session =
  as_id :: string
  as_csrf :: string
  as_expires :: seconds

type_synonym sessions = "(string \<times> admin_session) list"

definition prune_sessions :: "seconds \<Rightarrow> sessions \<Rightarrow> sessions" where
  "prune_sessions now ss = filter (\<lambda>(_, s). as_expires s > now) ss"

definition session_create :: "string \<Rightarrow> string \<Rightarrow> seconds \<Rightarrow> seconds \<Rightarrow> sessions \<Rightarrow> admin_session \<times> sessions" where
  "session_create sid csrf now later ss =
     (let s = \<lparr>as_id = sid, as_csrf = csrf, as_expires = now + 12 * 60 * 60\<rparr>
      in (s, AList.update sid s (prune_sessions later ss)))"

definition session_get :: "string option \<Rightarrow> seconds \<Rightarrow> sessions \<Rightarrow> admin_session option \<times> sessions" where
  "session_get sid now ss =
     (case sid of
        None \<Rightarrow> (None, ss)
      | Some i \<Rightarrow>
          if i = [] then (None, ss)
          else case map_of ss i of
            None \<Rightarrow> (None, AList.delete i ss)
          | Some s \<Rightarrow> if as_expires s \<le> now then (None, AList.delete i ss) else (Some s, ss))"

definition session_delete :: "string \<Rightarrow> sessions \<Rightarrow> sessions" where
  "session_delete sid ss = AList.delete sid ss"

definition session_delete_others :: "string \<Rightarrow> sessions \<Rightarrow> sessions" where
  "session_delete_others keep ss = filter (\<lambda>(i, _). i = keep) ss"

section \<open>The login limiter\<close>

definition RETENTION_SECONDS :: rat where "RETENTION_SECONDS = 24 * 60 * 60"
definition INITIAL_FAILURES :: nat where "INITIAL_FAILURES = 3"
definition WINDOW_STEP_SECONDS :: rat where "WINDOW_STEP_SECONDS = 60"

text \<open>The double written \<open>0.999\<close>.\<close>

definition ROUND_UP :: rat where "ROUND_UP = 8998192055486251 / 9007199254740992"

type_synonym failures = "(string \<times> seconds list) list"

definition attempts_of :: "string \<Rightarrow> failures \<Rightarrow> seconds list" where
  "attempts_of address fs = (case map_of fs address of None \<Rightarrow> [] | Some ts \<Rightarrow> ts)"

definition recent_locked :: "string \<Rightarrow> seconds \<Rightarrow> failures \<Rightarrow> seconds list \<times> failures" where
  "recent_locked address now fs =
     (let attempts = filter (\<lambda>t. t \<ge> now - RETENTION_SECONDS) (attempts_of address fs)
      in (attempts, if attempts \<noteq> [] then AList.update address attempts fs else AList.delete address fs))"

text \<open>\<open>attempts[-count]\<close> is the element \<open>count - 1\<close> of the reversed list.\<close>

definition blocked_until :: "seconds list \<Rightarrow> seconds" where
  "blocked_until attempts =
     foldl (\<lambda>b count. max b (rev attempts ! (count - 1) + of_nat (count - INITIAL_FAILURES + 1) * WINDOW_STEP_SECONDS))
       0 [INITIAL_FAILURES..<length attempts + 1]"

definition retry_after :: "string \<Rightarrow> seconds \<Rightarrow> failures \<Rightarrow> int \<times> failures" where
  "retry_after address now fs =
     (case recent_locked address now fs of (attempts, fs1) \<Rightarrow>
        let b = blocked_until attempts in (if b \<le> now then 0 else max 1 \<lfloor>b - now + ROUND_UP\<rfloor>, fs1))"

definition allowed :: "string \<Rightarrow> seconds \<Rightarrow> failures \<Rightarrow> bool \<times> failures" where
  "allowed address now fs = (case retry_after address now fs of (n, fs1) \<Rightarrow> (n = 0, fs1))"

definition failed :: "string \<Rightarrow> seconds \<Rightarrow> failures \<Rightarrow> failures" where
  "failed address now fs =
     (case recent_locked address now fs of (attempts, fs1) \<Rightarrow> AList.update address (attempts @ [now]) fs1)"

definition succeeded :: "string \<Rightarrow> failures \<Rightarrow> failures" where
  "succeeded address fs = AList.delete address fs"

section \<open>Logging in\<close>

text \<open>
  The server handles requests in parallel: \<open>_handle_admin_login\<close> asks the limiter, verifies the password,
  and records the outcome in sections that other requests can come between.  The state holds the posts in
  flight, each with the section it has reached; one step carries out one section of one post, at the
  time it reads from the clock.
\<close>

record login_post =
  lp_address :: string
  lp_username :: string
  lp_password :: string
  lp_ids :: "string \<times> string"
  lp_salt :: bytes
  lp_saved :: bool

datatype login_section = Verify | Fail | Upgrade | Succeed | Enter

record login_server =
  ls_failures :: failures
  ls_sessions :: sessions
  ls_hash :: string
  ls_flight :: "(login_post \<times> login_section) list"

datatype login_outcome =
    Blocked int | LetTry | Short | Crashed | WrongPassword | Refused | RightPassword | Upgraded | Cleared | Welcome admin_session

text \<open>
  \<open>hmac.compare_digest\<close> raises \<open>TypeError\<close> on text that is not ASCII.  \<open>lp_saved\<close> says whether an upgraded
  hash could be written to the configuration file; \<open>hash_password\<close> wants twelve characters there.
\<close>

definition ascii :: "string \<Rightarrow> bool" where
  "ascii s \<longleftrightarrow> list_all (\<lambda>c. (of_char c :: nat) < 128) s"

definition upgrade_admin_password_hash :: "kdf \<Rightarrow> login_post \<Rightarrow> string \<Rightarrow> string" where
  "upgrade_admin_password_hash kdf p h =
     (if password_hash_needs_upgrade h \<and> verify_password kdf (lp_password p) h \<and> lp_saved p
      then (case hash_password kdf (lp_salt p) 12 (lp_password p) of Inl _ \<Rightarrow> h | Inr h' \<Rightarrow> h') else h)"

definition login_arrive :: "login_post \<Rightarrow> seconds \<Rightarrow> login_server \<Rightarrow> login_outcome \<times> login_server" where
  "login_arrive p now s =
     (case retry_after (lp_address p) now (ls_failures s) of (retry, fs) \<Rightarrow>
        if retry \<noteq> 0 then (Blocked retry, s\<lparr>ls_failures := fs\<rparr>)
        else (LetTry, s\<lparr>ls_failures := fs, ls_flight := ls_flight s @ [(p, Verify)]\<rparr>))"

text \<open>One section of a post in flight: what happens, and the section that comes next if there is one.\<close>

definition login_advance ::
  "kdf \<Rightarrow> string \<Rightarrow> login_post \<Rightarrow> login_section \<Rightarrow> seconds \<Rightarrow> seconds \<Rightarrow> login_server \<Rightarrow>
   login_outcome \<times> login_section option \<times> login_server" where
  "login_advance kdf admin p at_section now later s =
     (case at_section of
        Verify \<Rightarrow>
          if length (lp_password p) < 8 then (Short, None, s)
          else if \<not> ascii (lp_username p) \<or> \<not> ascii admin then (Crashed, None, s)
          else if lp_username p \<noteq> admin \<or> \<not> verify_password kdf (lp_password p) (ls_hash s) then (WrongPassword, Some Fail, s)
          else (RightPassword, Some (if password_hash_needs_upgrade (ls_hash s) then Upgrade else Succeed), s)
      | Fail \<Rightarrow> (Refused, None, s\<lparr>ls_failures := failed (lp_address p) now (ls_failures s)\<rparr>)
      | Upgrade \<Rightarrow> (Upgraded, Some Succeed, s\<lparr>ls_hash := upgrade_admin_password_hash kdf p (ls_hash s)\<rparr>)
      | Succeed \<Rightarrow> (Cleared, Some Enter, s\<lparr>ls_failures := succeeded (lp_address p) (ls_failures s)\<rparr>)
      | Enter \<Rightarrow>
          (case session_create (fst (lp_ids p)) (snd (lp_ids p)) now later (ls_sessions s) of
             (sess, ss) \<Rightarrow> (Welcome sess, None, s\<lparr>ls_sessions := ss\<rparr>)))"

text \<open>
  The steps of the server: a post arrives, the post at a position in flight goes on, or the password is
  changed elsewhere.
\<close>

datatype login_event = LArrive login_post seconds | LAdvance nat seconds seconds | LPassword string

fun login_step :: "kdf \<Rightarrow> string \<Rightarrow> login_event \<Rightarrow> login_server \<Rightarrow> (string \<times> login_outcome) option \<times> login_server" where
  "login_step kdf admin (LArrive p now) s = (case login_arrive p now s of (out, s') \<Rightarrow> (Some (lp_address p, out), s'))"
| "login_step kdf admin (LAdvance i now later) s =
     (if i < length (ls_flight s)
      then case ls_flight s ! i of (p, at_section) \<Rightarrow>
             (case login_advance kdf admin p at_section now later s of
                (out, None, s') \<Rightarrow> (Some (lp_address p, out), s'\<lparr>ls_flight := take i (ls_flight s) @ drop (Suc i) (ls_flight s)\<rparr>)
              | (out, Some later_section, s') \<Rightarrow>
                  (Some (lp_address p, out), s'\<lparr>ls_flight := (ls_flight s)[i := (p, later_section)]\<rparr>))
      else (None, s))"
| "login_step kdf admin (LPassword h) s = (None, s\<lparr>ls_hash := h\<rparr>)"

text \<open>A run: for every event what happened and the state after it.\<close>

fun login_run :: "kdf \<Rightarrow> string \<Rightarrow> login_event list \<Rightarrow> login_server \<Rightarrow>
  (login_event \<times> (string \<times> login_outcome) option \<times> login_server) list" where
  "login_run kdf admin [] s = []"
| "login_run kdf admin (e # es) s =
     (case login_step kdf admin e s of (out, s') \<Rightarrow> (e, out, s') # login_run kdf admin es s')"

section \<open>Window budgets\<close>

definition CONSENT_WINDOW_SECONDS :: rat where "CONSENT_WINDOW_SECONDS = 60"
definition CONSENT_ADDRESS_ATTEMPTS :: nat where "CONSENT_ADDRESS_ATTEMPTS = 10"
definition CONSENT_REQUEST_ATTEMPTS :: nat where "CONSENT_REQUEST_ATTEMPTS = 5"
definition MAX_CONSENT_BUCKETS :: nat where "MAX_CONSENT_BUCKETS = 4096"

type_synonym buckets = "((string \<times> string) \<times> seconds \<times> nat) list"

definition bucket :: "string \<times> string \<Rightarrow> seconds \<Rightarrow> buckets \<Rightarrow> seconds \<times> nat" where
  "bucket k now bs = (case map_of bs k of None \<Rightarrow> (now + CONSENT_WINDOW_SECONDS, 0) | Some b \<Rightarrow> b)"

definition spend :: "string \<times> string \<Rightarrow> seconds \<Rightarrow> buckets \<Rightarrow> buckets" where
  "spend k now bs = (case bucket k now bs of (until, count) \<Rightarrow> AList.update k (until, count + 1) bs)"

definition wait :: "string \<times> string \<Rightarrow> nat \<Rightarrow> seconds \<Rightarrow> buckets \<Rightarrow> int" where
  "wait k limit now bs =
     (case bucket k now bs of (until, count) \<Rightarrow> if count \<ge> limit then max 1 \<lfloor>until - now + ROUND_UP\<rfloor> else 0)"

definition take_attempt :: "string \<Rightarrow> string \<Rightarrow> seconds \<Rightarrow> buckets \<Rightarrow> int \<times> buckets" where
  "take_attempt address request_id now bs =
     (let bs1 = filter (\<lambda>(_, until, _). until > now) bs;
          a = (''address'', address); r = (''request'', request_id);
          missing = length (filter (\<lambda>k. k \<notin> fst ` set bs1) [a, r])
      in if length bs1 + missing > MAX_CONSENT_BUCKETS then (\<lfloor>CONSENT_WINDOW_SECONDS\<rfloor>, bs1)
         else let retry = max (wait a CONSENT_ADDRESS_ATTEMPTS now bs1) (wait r CONSENT_REQUEST_ATTEMPTS now bs1)
              in if retry \<noteq> 0 then (retry, bs1) else (0, spend r now (spend a now bs1)))"

fun take_run :: "(string \<times> string \<times> seconds) list \<Rightarrow> buckets \<Rightarrow> int list" where
  "take_run [] bs = []"
| "take_run ((address, request_id, now) # rest) bs =
     (case take_attempt address request_id now bs of (retry, bs') \<Rightarrow> retry # take_run rest bs')"

end
