(* ===== verification/Approval_Pages.thy ===== *)
theory Approval_Pages
  imports Function_Grants Attempt_Limits
begin

text \<open>
  The form behind an approval link: \<open>_handle_capability_approval\<close> of
  \<open>openkapsel/auth/capability_handlers.py\<close> and \<open>_handle_function_approval\<close> of
  \<open>openkapsel/auth/function_handlers.py\<close>, for a POST.  They are where the two grant stores, the password
  store and the attempt budgets meet.  What a request brings along is the record \<open>post_world\<close>: the form,
  the cookie, the checks on transport, origin and target whose result does not depend on the stores, the
  resolution of a path on the target (\<open>None\<close> where it fails), the provider of the function and the clock
  readings in their order.

  A call of the server on these stores is an \<open>approval_call\<close>, and \<open>run\<close> the stores after a list of calls.
\<close>

record approval_state = grants_store +
  approval_buckets :: buckets

record approval_env = cap_env +
  json_bytes :: "pyval \<Rightarrow> nat option"

definition empty_approvals :: approval_state where
  "empty_approvals = grants_store.extend empty_grants \<lparr>approval_buckets = []\<rparr>"

record post_world =
  pw_secure :: bool
  pw_cookie :: "string option"
  pw_form :: "(string \<times> string list) list"
  pw_too_large :: bool
  pw_same_origin :: bool
  pw_address :: string
  pw_bound :: bool
  pw_still_bound :: bool
  pw_resolve :: "approval \<Rightarrow> string option"
  pw_grant :: provider
  pw_clock :: "nat \<Rightarrow> monotonic"

datatype page = Page nat | Raised pyerr

definition form_one :: "(string \<times> string list) list \<Rightarrow> string \<Rightarrow> string" where
  "form_one form key = (case map_of form key of None \<Rightarrow> [] | Some [] \<Rightarrow> [] | Some (v # _) \<Rightarrow> v)"

definition approval_form_ok :: "(string \<times> string list) list \<Rightarrow> bool" where
  "approval_form_ok form \<longleftrightarrow>
     list_all (\<lambda>(k, vs). length vs = 1 \<and> k \<in> set [''csrf'', ''password'', ''minutes'', ''confirm'']) form"

definition ticket_char :: "char \<Rightarrow> bool" where
  "ticket_char c \<longleftrightarrow> c \<in> set b64_alphabet"

text \<open>\<open>int(self._form_one(form, "minutes") or "10")\<close>, one of the durations the page offers, in seconds.\<close>

definition form_seconds :: "(string \<times> string list) list \<Rightarrow> int result" where
  "form_seconds form =
     (let raw = form_one form ''minutes''
      in case int_of_text (if raw = [] then ''10'' else raw) of
           None \<Rightarrow> Inl (ValueError ''invalid literal for int()'')
         | Some minutes \<Rightarrow>
             if minutes \<in> set [10, 30, 120, 360, 1440] then Inr (minutes * 60) else Inl (ValueError ''Invalid approval duration''))"

section \<open>Directories\<close>

text \<open>\<open>str(Path(s).parent)\<close>.\<close>

definition show_path :: "path \<Rightarrow> string" where
  "show_path p =
     (case p of [] \<Rightarrow> ''.'' | r # rest \<Rightarrow> if is_root_part r then r @ join ''/'' rest else join ''/'' p)"

definition parent_text :: "string \<Rightarrow> string" where
  "parent_text s = (let p = parse_path s in show_path (if length p \<le> 1 \<and> list_all is_root_part p then p else butlast p))"

definition external_directory :: "string \<Rightarrow> string option" where
  "external_directory value =
     (if \<not> startswith value ''/'' \<or> CHR 0x00 \<in> set value \<or> CHR 0x5C \<in> set value \<or>
         list_ex (\<lambda>part. part = ''..'' \<or> is_private_name part) (split_on (CHR ''/'') value) then None
      else let normalized = normpath value in if normalized = ''/'' then None else Some normalized)"

section \<open>A capability ticket\<close>

text \<open>\<open>PermissionError\<close> shows the form again; \<open>ValueError\<close> and \<open>KeyError\<close> are an error page.\<close>

definition approval_page :: "'a result \<Rightarrow> page" where
  "approval_page r =
     (case r of
        Inr _ \<Rightarrow> Page 200
      | Inl (PermissionError _) \<Rightarrow> Page 403
      | Inl (ValueError _) \<Rightarrow> Page 400
      | Inl (KeyError _) \<Rightarrow> Page 400
      | Inl e \<Rightarrow> Raised e)"

definition confirm_post :: "'z cap_env_scheme \<Rightarrow> post_world \<Rightarrow> string \<Rightarrow> string \<Rightarrow> approval \<Rightarrow> ('y cap_store_scheme, unit) op" where
  "confirm_post env wd ticket cookie item st =
     (if form_one (pw_form wd) ''confirm'' \<noteq> ''actual_path'' then (Inl (ValueError ''Invalid confirmation''), st)
      else case verify_file_confirmation_browser (cap_env.truncate env) ticket cookie (pw_clock wd 3) st of
        (False, st1) \<Rightarrow> (Inl (PermissionError ''File confirmation requires password-verified browser''), st1)
      | (True, st1) \<Rightarrow>
          if pw_resolve wd item \<noteq> Some (ap_resolved item)
          then (Inl (ValueError ''Approval path changed; request a new approval''), st1)
          else case confirm_file (cap_env.truncate env) ticket cookie (pw_clock wd 4) st1 of
            (Inl e, st2) \<Rightarrow> (Inl e, st2)
          | (Inr _, st2) \<Rightarrow> (Inr (), st2))"

definition file_password_post :: "'z cap_env_scheme \<Rightarrow> post_world \<Rightarrow> string \<Rightarrow> string \<Rightarrow> approval \<Rightarrow> ('y cap_store_scheme, unit) op" where
  "file_password_post env wd ticket cookie item st =
     attempt (form_seconds (pw_form wd)) (\<lambda>seconds st.
       case authenticate_file (cap_env.truncate env) ticket (form_one (pw_form wd) ''password'') seconds (pw_clock wd 3) st of
         (Inl e, st1) \<Rightarrow> (Inl e, st1)
       | (Inr _, st1) \<Rightarrow>
           (case pw_resolve wd item of
              None \<Rightarrow> (Inl (ValueError ''Approval path is unavailable''), st1)
            | Some actual \<Rightarrow>
                (case external_directory (if ap_directory item then actual else parent_text actual) of
                   None \<Rightarrow> (Inl (ValueError ''Approval path is unavailable''), st1)
                 | Some scope \<Rightarrow>
                     prepare_file_confirmation (cap_env.truncate env) ticket cookie scope actual seconds (pw_clock wd 4) st1))) st"

definition password_post :: "'z cap_env_scheme \<Rightarrow> post_world \<Rightarrow> string \<Rightarrow> ('y cap_store_scheme, unit) op" where
  "password_post env wd ticket st =
     attempt (form_seconds (pw_form wd)) (\<lambda>seconds st.
       case approve (cap_env.truncate env) ticket (form_one (pw_form wd) ''password'') seconds (pw_clock wd 3) (pw_clock wd 4) st of
         (Inl e, st1) \<Rightarrow> (Inl e, st1)
       | (Inr _, st1) \<Rightarrow> (Inr (), st1)) st"

definition take_approval_attempt :: "string \<Rightarrow> string \<Rightarrow> monotonic \<Rightarrow> 'z approval_state_scheme \<Rightarrow> int \<times> 'z approval_state_scheme" where
  "take_approval_attempt address w now st =
     (case take_attempt address (''workspace:'' @ w) now (approval_buckets st) of (retry, bs) \<Rightarrow> (retry, st\<lparr>approval_buckets := bs\<rparr>))"

text \<open>The form once the browser is verified, under the administration lock.\<close>

definition capability_form_post ::
  "'z cap_env_scheme \<Rightarrow> post_world \<Rightarrow> string \<Rightarrow> string \<Rightarrow> approval \<Rightarrow> ('y cap_store_scheme, unit) op" where
  "capability_form_post env wd ticket cookie item st =
     (if form_one (pw_form wd) ''confirm'' \<noteq> [] then confirm_post env wd ticket cookie item st
      else if ap_path item \<noteq> [] \<and> ap_capability item \<in> set FILE_CAPABILITIES
      then file_password_post env wd ticket cookie item st
      else password_post env wd ticket st)"

definition handle_capability_post :: "'z cap_env_scheme \<Rightarrow> post_world \<Rightarrow> string \<Rightarrow> approval_state \<Rightarrow> page \<times> approval_state" where
  "handle_capability_post env wd ticket st =
     (if \<not> pw_secure wd then (Raised (ApiError 403 ''https_required'' []), st)
      else if \<not> (length ticket = 32 \<and> list_all ticket_char ticket) then (Page 400, st)
      else case pending ticket (pw_clock wd 1) st of
        (None, st1) \<Rightarrow> (Page 400, st1)
      | (Some item, st1) \<Rightarrow>
          if \<not> pw_bound wd then (Page 409, st1)
          else if pw_too_large wd \<or> \<not> approval_form_ok (pw_form wd) then (Page 400, st1)
          else if \<not> pw_same_origin wd then (Raised (ApiError 403 ''csrf_failed'' []), st1)
          else if \<not> verify_browser (cap_env.truncate env) ticket (pw_cookie wd) (form_one (pw_form wd) ''csrf'')
          then (Raised (ApiError 403 ''csrf_failed'' []), st1)
          else case (if form_one (pw_form wd) ''confirm'' \<noteq> [] then (0, st1)
                     else take_approval_attempt (pw_address wd) (ap_workspace item) (pw_clock wd 2) st1) of
            (retry, st2) \<Rightarrow>
              if retry \<noteq> 0 then (Page 429, st2)
              else if \<not> pw_still_bound wd then (Page 400, st2)
              else case capability_form_post env wd ticket (the (pw_cookie wd)) item st2 of (r, st3) \<Rightarrow> (approval_page r, st3))"

section \<open>A function ticket\<close>

definition function_page :: "'a result \<Rightarrow> page" where
  "function_page r =
     (case r of
        Inr _ \<Rightarrow> Page 200
      | Inl (ValueError _) \<Rightarrow> Raised (ApiError 400 ''approval_unavailable'' [])
      | Inl TypeError \<Rightarrow> Raised (ApiError 400 ''approval_unavailable'' [])
      | Inl e \<Rightarrow> Raised e)"

definition fun_confirm_post :: "'z approval_env_scheme \<Rightarrow> post_world \<Rightarrow> string \<Rightarrow> string \<Rightarrow> ('y grants_store_scheme, unit) op" where
  "fun_confirm_post env wd ticket proof_text st =
     (case fun_confirmation (json_bytes env) ticket proof_text (pw_clock wd 3) st of
        (Inl e, st1) \<Rightarrow> (Inl e, st1)
      | (Inr found, st1) \<Rightarrow>
          (case (if form_one (pw_form wd) ''confirm'' = ''actual_path'' then found else None) of
             None \<Rightarrow> (Inl (ApiError 403 ''csrf_failed'' []), st1)
           | Some (_, seconds) \<Rightarrow>
               (case fun_approve (json_bytes env) (pw_grant wd) ticket seconds (Some proof_text) (\<lambda>i. pw_clock wd (i + 4)) st1 of
                  (Inl e, st2) \<Rightarrow> (Inl e, st2)
                | (Inr _, st2) \<Rightarrow> (Inr (), st2))))"

definition wants_confirmation :: "fun_request \<Rightarrow> bool" where
  "wants_confirmation r = (case fr_display r of PDict d \<Rightarrow> dict_get d ''confirmation_required'' = PBool True | _ \<Rightarrow> False)"

definition fun_password_post ::
  "'z approval_env_scheme \<Rightarrow> post_world \<Rightarrow> string \<Rightarrow> string \<Rightarrow> fun_request \<Rightarrow> ('y grants_store_scheme, unit) op" where
  "fun_password_post env wd ticket proof_text r st =
     (case password_attempt ticket (\<lambda>owner. verify_workspace_password (cap_env.truncate env) owner (form_one (pw_form wd) ''password'') st)
             (pw_clock wd 3) (pw_clock wd 4) st of
        (Inl e, st1) \<Rightarrow> (Inl e, st1)
      | (Inr False, st1) \<Rightarrow> (Inl (ApiError 403 ''password_incorrect'' []), st1)
      | (Inr True, st1) \<Rightarrow>
          attempt (form_seconds (pw_form wd)) (\<lambda>seconds st.
            if wants_confirmation r
            then (case prepare_confirmation (json_bytes env) (pw_grant wd) ticket proof_text seconds (\<lambda>i. pw_clock wd (i + 5)) st of
                    (Inl e, st2) \<Rightarrow> (Inl e, st2)
                  | (Inr _, st2) \<Rightarrow> (Inr (), st2))
            else (case fun_approve (json_bytes env) (pw_grant wd) ticket seconds None (\<lambda>i. pw_clock wd (i + 5)) st of
                    (Inl e, st2) \<Rightarrow> (Inl e, st2)
                  | (Inr _, st2) \<Rightarrow> (Inr (), st2))) st1)"

definition handle_function_post :: "'z approval_env_scheme \<Rightarrow> post_world \<Rightarrow> string \<Rightarrow> approval_state \<Rightarrow> page \<times> approval_state" where
  "handle_function_post env wd ticket st =
     (case fun_pending_request ticket (pw_clock wd 1) st of
        (None, st1) \<Rightarrow> (Raised (ApiError 400 ''approval_unavailable'' []), st1)
      | (Some r, st1) \<Rightarrow>
          if \<not> pw_secure wd then (Raised (ApiError 403 ''https_required'' []), st1)
          else if \<not> pw_bound wd then (Raised (ApiError 409 ''approval_target_unavailable'' []), st1)
          else if pw_too_large wd then (Raised (ApiError 413 ''approval_too_large'' []), st1)
          else if \<not> approval_form_ok (pw_form wd) then (Raised (ApiError 400 ''invalid_request'' []), st1)
          else if \<not> pw_same_origin wd then (Raised (ApiError 403 ''csrf_failed'' []), st1)
          else if \<not> verify_browser (cap_env.truncate env) ticket (pw_cookie wd) (form_one (pw_form wd) ''csrf'')
          then (Raised (ApiError 403 ''csrf_failed'' []), st1)
          else if \<not> pw_still_bound wd then (Raised (ApiError 409 ''approval_target_unavailable'' []), st1)
          else let proof_text = browser_proof (cap_env.truncate env) ticket (the (pw_cookie wd)) in
            if form_one (pw_form wd) ''confirm'' \<noteq> []
            then (case fun_confirm_post env wd ticket proof_text st1 of (out, st2) \<Rightarrow> (function_page out, st2))
            else case take_approval_attempt (pw_address wd) (fr_workspace r) (pw_clock wd 2) st1 of
              (retry, st2) \<Rightarrow>
                if retry \<noteq> 0 then (Raised (ApiError 429 ''too_many_attempts'' []), st2)
                else case fun_password_post env wd ticket proof_text r st2 of (out, st3) \<Rightarrow> (function_page out, st3))"

definition handle_approval_post :: "'z approval_env_scheme \<Rightarrow> post_world \<Rightarrow> string \<Rightarrow> approval_state \<Rightarrow> page \<times> approval_state" where
  "handle_approval_post env wd ticket st =
     (case fun_pending_request ticket (pw_clock wd 0) st of
        (Some _, st1) \<Rightarrow> handle_function_post env wd ticket st1
      | (None, st1) \<Rightarrow> handle_capability_post env wd ticket st1)"

section \<open>Calls\<close>

text \<open>
  What reaches the stores: the administrator (passwords, links, revocations), the workspace's clients
  (requests and queries), the browser of the user (forms), and a restart of the process, which keeps
  only the password table.
\<close>

datatype approval_call =
    SetPassword string string bytes
  | CreateLink string string monotonic
  | LinkWorkspace string monotonic
  | ConsumeLink string string string bytes monotonic
  | RequestCapability approval_args string monotonic
  | RequestFunction fun_key pyval pyval string string monotonic
  | Post string post_world
  | LookCapabilities monotonic
  | LookFunctions monotonic
  | RevokeCapability grant_key
  | RevokeFunction fun_key
  | RevokeWorkspace string
  | RemoveWorkspace string
  | Restart

text \<open>The server sets the revocation hook of the password store to \<open>revoke_workspace\<close> of the function grants.\<close>

definition perform :: "approval_env \<Rightarrow> approval_call \<Rightarrow> approval_state \<Rightarrow> approval_state" where
  "perform env c st =
     (case c of
        SetPassword w password salt \<Rightarrow>
          (case set_password (cap_env.truncate env) w password salt st of (Inl _, st1) \<Rightarrow> st1 | (Inr _, st1) \<Rightarrow> fun_revoke_workspace w st1)
      | CreateLink w ticket now \<Rightarrow> snd (create_password_setup_link w ticket now st)
      | LinkWorkspace ticket now \<Rightarrow> snd (password_setup_workspace ticket now st)
      | ConsumeLink ticket password confirmation salt now \<Rightarrow>
          (case consume_password_setup_link (cap_env.truncate env) ticket password confirmation salt now st of
             (Inl _, st1) \<Rightarrow> st1 | (Inr w, st1) \<Rightarrow> fun_revoke_workspace w st1)
      | RequestCapability a ticket now \<Rightarrow> snd (request_approval a ticket now st)
      | RequestFunction k request display reason ticket now \<Rightarrow> snd (fun_ask (json_bytes env) k request display reason ticket now st)
      | Post ticket wd \<Rightarrow> snd (handle_approval_post env wd ticket st)
      | LookCapabilities now \<Rightarrow> expire now st
      | LookFunctions now \<Rightarrow> fun_prune now st
      | RevokeCapability k \<Rightarrow> revoke k st
      | RevokeFunction k \<Rightarrow> fun_revoke k st
      | RevokeWorkspace w \<Rightarrow> fun_revoke_workspace w (revoke_workspace w st)
      | RemoveWorkspace w \<Rightarrow> fun_revoke_workspace w (remove_workspace w st)
      | Restart \<Rightarrow> empty_approvals\<lparr>token_passwords := token_passwords st\<rparr>)"

definition run :: "approval_env \<Rightarrow> approval_call list \<Rightarrow> approval_state" where
  "run env calls = foldl (\<lambda>st c. perform env c st) empty_approvals calls"

end
