(* ===== verification/Approval_Safety.thy ===== *)
theory Approval_Safety
  imports Approval_Pages
begin

text \<open>
  Where a grant comes from.  \<open>vouched\<close> is what the capability store takes as approved: the active grants
  and the tickets that wait for the confirmation of a browser; \<open>fun_vouched\<close> is the same of the function
  grants.  No operation adds to them except a form with the password of the workspace, and every change
  of the password clears what it vouched for.
\<close>

section \<open>Dictionaries\<close>

lemma AList_set_update: "x \<in> set (AList.update k v xs) \<Longrightarrow> x = (k, v) \<or> x \<in> set xs"
  by (induction xs) (auto split: if_splits)

lemma AList_set_delete: "set (AList.delete k xs) = {x \<in> set xs. fst x \<noteq> k}"
  by (induction xs) auto

lemma map_of_mem: "map_of xs k = Some v \<Longrightarrow> (k, v) \<in> set xs"
  by (rule map_of_SomeD)

section \<open>Capabilities\<close>

type_synonym fields = "string \<times> int \<times> string \<times> string"

definition fields_of :: "approval \<Rightarrow> fields" where
  "fields_of i = (ap_workspace i, ap_conversation i, ap_target i, ap_capability i)"

definition key_fields :: "grant_key \<Rightarrow> fields" where
  "key_fields = (\<lambda>(w, c, t, p, _). (w, c, t, p))"

definition vouched :: "'z cap_store_scheme \<Rightarrow> fields set" where
  "vouched st = (\<lambda>(k, _). key_fields k) ` set (active_grants st) \<union>
     (\<lambda>(_, i). fields_of i) ` {x \<in> set (pending_requests st). ap_cookie (snd x) \<noteq> []}"

lemma vouchedI:
  "(k, e) \<in> set (active_grants st) \<Longrightarrow> key_fields k \<in> vouched st"
  "(t, i) \<in> set (pending_requests st) \<Longrightarrow> ap_cookie i \<noteq> [] \<Longrightarrow> fields_of i \<in> vouched st"
  by (force simp: vouched_def)+

lemma vouched_subsetI:
  assumes "\<And>k e. (k, e) \<in> set (active_grants st) \<Longrightarrow> key_fields k \<in> S"
    and "\<And>t i. (t, i) \<in> set (pending_requests st) \<Longrightarrow> ap_cookie i \<noteq> [] \<Longrightarrow> fields_of i \<in> S"
  shows "vouched st \<subseteq> S"
  using assms by (force simp: vouched_def)

lemma vouched_mono:
  "set (active_grants st') \<subseteq> set (active_grants st) \<Longrightarrow> set (pending_requests st') \<subseteq> set (pending_requests st) \<Longrightarrow>
   vouched st' \<subseteq> vouched st"
  by (rule vouched_subsetI) (auto intro: vouchedI)

lemma key_fields_of [simp]: "key_fields (key_of i) = fields_of i"
  by (simp add: key_fields_def key_of_def fields_of_def)

lemma fields_of_update [simp]:
  "fields_of (i\<lparr>ap_attempts := n\<rparr>) = fields_of i" "fields_of (i\<lparr>ap_path := p\<rparr>) = fields_of i"
  "fields_of (i\<lparr>ap_original := p\<rparr>) = fields_of i" "fields_of (i\<lparr>ap_resolved := p\<rparr>) = fields_of i"
  "fields_of (i\<lparr>ap_seconds := s\<rparr>) = fields_of i" "fields_of (i\<lparr>ap_cookie := c\<rparr>) = fields_of i"
  by (simp_all add: fields_of_def)

text \<open>The parts of the store an operation leaves alone.\<close>

lemma cap_frame [simp]:
  "token_passwords (expire now st) = token_passwords st" "token_passwords (drop_pending t st) = token_passwords st"
  "token_passwords (set_pending t i st) = token_passwords st" "token_passwords (activate i e st) = token_passwords st"
  "token_passwords (count_attempt t i st) = token_passwords st" "token_passwords (revoke_workspace w st) = token_passwords st"
  "token_passwords (revoke k st) = token_passwords st"
  "cap_store.more (expire now st) = cap_store.more st" "cap_store.more (drop_pending t st) = cap_store.more st"
  "cap_store.more (set_pending t i st) = cap_store.more st" "cap_store.more (activate i e st) = cap_store.more st"
  "cap_store.more (count_attempt t i st) = cap_store.more st" "cap_store.more (revoke_workspace w st) = cap_store.more st"
  "cap_store.more (revoke k st) = cap_store.more st"
  by (simp_all add: expire_def drop_pending_def set_pending_def activate_def count_attempt_def revoke_workspace_def revoke_def)

lemma check_password_cong: "token_passwords st' = token_passwords st \<Longrightarrow> check_password env w p st' = check_password env w p st"
  by (simp add: check_password_def)

lemma expire_vouched: "vouched (expire now st) \<subseteq> vouched st"
  by (rule vouched_mono) (auto simp: expire_def)

lemma drop_pending_vouched: "vouched (drop_pending t st) \<subseteq> vouched st"
  by (rule vouched_mono) (auto simp: drop_pending_def AList_set_delete)

lemma set_pending_vouched:
  assumes "(t, i) \<in> set (pending_requests st)" "fields_of i' = fields_of i" "ap_cookie i' = ap_cookie i"
  shows "vouched (set_pending t i' st) \<subseteq> vouched st"
proof (rule vouched_subsetI)
  fix t2 i2 assume "(t2, i2) \<in> set (pending_requests (set_pending t i' st))" "ap_cookie i2 \<noteq> []"
  then show "fields_of i2 \<in> vouched st"
    using AList_set_update [of "(t2, i2)" t i' "pending_requests st"] assms vouchedI(2) [of _ _ st] by (auto simp: set_pending_def)
qed (auto simp: set_pending_def intro: vouchedI)

lemma set_pending_vouched_new: "vouched (set_pending t i st) \<subseteq> insert (fields_of i) (vouched st)"
  by (rule vouched_subsetI) (auto simp: set_pending_def intro: vouchedI dest!: AList_set_update)

lemma count_attempt_vouched: "(t, i) \<in> set (pending_requests st) \<Longrightarrow> vouched (count_attempt t i st) \<subseteq> vouched st"
  unfolding count_attempt_def using drop_pending_vouched set_pending_vouched [of t i st "i\<lparr>ap_attempts := ap_attempts i + 1\<rparr>"] by auto

lemma activate_vouched: "vouched (activate i e st) \<subseteq> insert (fields_of i) (vouched st)"
  by (rule vouched_subsetI) (auto simp: activate_def intro: vouchedI dest!: AList_set_update)

text \<open>Tickets are keys of the dictionary, so what an expired store holds for a ticket is what the store held.\<close>

definition cap_distinct :: "'z cap_store_scheme \<Rightarrow> bool" where
  "cap_distinct st \<longleftrightarrow> distinct (map fst (pending_requests st)) \<and> distinct (map fst (active_grants st))"

lemma expire_lookup:
  "cap_distinct st \<Longrightarrow> map_of (pending_requests (expire now st)) t = Some i \<Longrightarrow> map_of (pending_requests st) t = Some i \<and> ap_deadline i > now"
  by (auto simp: expire_def cap_distinct_def lookup_filtered split: option.splits if_splits)

lemma cap_distinct_frame [simp]:
  "cap_distinct st \<Longrightarrow> cap_distinct (expire now st)" "cap_distinct st \<Longrightarrow> cap_distinct (drop_pending t st)"
  "cap_distinct st \<Longrightarrow> cap_distinct (set_pending t i st)" "cap_distinct st \<Longrightarrow> cap_distinct (activate i e st)"
  "cap_distinct st \<Longrightarrow> cap_distinct (count_attempt t i st)" "cap_distinct st \<Longrightarrow> cap_distinct (revoke_workspace w st)"
  "cap_distinct st \<Longrightarrow> cap_distinct (revoke k st)"
  by (auto simp: cap_distinct_def expire_def drop_pending_def set_pending_def activate_def count_attempt_def revoke_workspace_def revoke_def
      distinct_update distinct_delete intro: distinct_map_filter)

lemma approve_vouched:
  assumes "cap_distinct st" "approve env t p s now later st = (r, st')"
  shows "vouched st' \<subseteq> vouched st \<union> {fields_of i | i. map_of (pending_requests st) t = Some i \<and> check_password env (ap_workspace i) p st}"
    "token_passwords st' = token_passwords st" "cap_distinct st'" "cap_store.more st' = cap_store.more st"
proof -
  let ?st1 = "expire now st"
  have le: "vouched ?st1 \<subseteq> vouched st" by (rule expire_vouched)
  have check: "check_password env w p ?st1 = check_password env w p st" for w by (rule check_password_cong) simp
  show "token_passwords st' = token_passwords st" "cap_distinct st'" "cap_store.more st' = cap_store.more st"
    using assms by (auto simp: approve_def Let_def split: if_splits option.splits)
  show "vouched st' \<subseteq> vouched st \<union> {fields_of i | i. map_of (pending_requests st) t = Some i \<and> check_password env (ap_workspace i) p st}"
  proof (cases "map_of (pending_requests ?st1) t")
    case None
    then show ?thesis using assms(2) le by (auto simp: approve_def Let_def split: if_splits)
  next
    case (Some i)
    note i = expire_lookup [OF assms(1) Some] map_of_mem [OF Some]
    consider "st' = st" | "st' = drop_pending t ?st1" | "st' = count_attempt t i ?st1"
      | "st' = drop_pending t (activate i (later + of_int s) ?st1)" "check_password env (ap_workspace i) p st"
      using assms(2) Some by (auto simp: approve_def Let_def check split: if_splits)
    then show ?thesis
    proof cases
      case 4
      have "vouched st' \<subseteq> insert (fields_of i) (vouched st)"
        unfolding 4(1) using drop_pending_vouched activate_vouched le by blast
      then show ?thesis using i 4(2) by blast
    qed (use le drop_pending_vouched count_attempt_vouched [OF i(2)] in blast)+
  qed
qed

lemma authenticate_file_vouched:
  assumes "cap_distinct st" "authenticate_file env t p s now st = (r, st')"
  shows "vouched st' \<subseteq> vouched st" "token_passwords st' = token_passwords st" "cap_distinct st'"
    "cap_store.more st' = cap_store.more st"
    "\<And>i. r = Inr i \<Longrightarrow> st' = expire now st \<and> map_of (pending_requests st) t = Some i \<and> check_password env (ap_workspace i) p st"
proof -
  let ?st1 = "expire now st"
  have check: "check_password env w p ?st1 = check_password env w p st" for w by (rule check_password_cong) simp
  show "token_passwords st' = token_passwords st" "cap_distinct st'" "cap_store.more st' = cap_store.more st"
    using assms by (auto simp: authenticate_file_def Let_def split: if_splits option.splits)
  show "st' = expire now st \<and> map_of (pending_requests st) t = Some i \<and> check_password env (ap_workspace i) p st" if "r = Inr i" for i
    using assms that expire_lookup [OF assms(1)] by (auto simp: authenticate_file_def Let_def check split: if_splits option.splits)
  show "vouched st' \<subseteq> vouched st"
    using assms(2) expire_vouched [of now st] drop_pending_vouched [of t ?st1] count_attempt_vouched [OF map_of_mem, of ?st1 t]
    by (auto simp: authenticate_file_def Let_def split: if_splits option.splits)
qed

lemma prepare_file_vouched:
  assumes "cap_distinct st" "prepare_file_confirmation env t c p q s now st = (r, st')"
  shows "vouched st' \<subseteq> vouched st \<union> {fields_of i | i. map_of (pending_requests st) t = Some i}"
    "token_passwords st' = token_passwords st" "cap_distinct st'" "cap_store.more st' = cap_store.more st"
proof -
  show "token_passwords st' = token_passwords st" "cap_distinct st'" "cap_store.more st' = cap_store.more st"
    using assms by (auto simp: prepare_file_confirmation_def Let_def split: if_splits option.splits)
  show "vouched st' \<subseteq> vouched st \<union> {fields_of i | i. map_of (pending_requests st) t = Some i}"
  proof (cases "st' = expire now st")
    case True
    then show ?thesis using expire_vouched by blast
  next
    case False
    then obtain i i' where "map_of (pending_requests (expire now st)) t = Some i" "st' = set_pending t i' (expire now st)" "fields_of i' = fields_of i"
      using assms(2) by (auto simp: prepare_file_confirmation_def Let_def split: if_splits option.splits)
    then show ?thesis using set_pending_vouched_new [of t i' "expire now st"] expire_vouched [of now st] expire_lookup [OF assms(1)] by fastforce
  qed
qed

lemma confirm_file_vouched:
  assumes "cap_distinct st" "confirm_file env t c now st = (r, st')"
  shows "vouched st' \<subseteq> vouched st" "token_passwords st' = token_passwords st" "cap_distinct st'"
    "cap_store.more st' = cap_store.more st"
proof -
  show "token_passwords st' = token_passwords st" "cap_distinct st'" "cap_store.more st' = cap_store.more st"
    using assms by (auto simp: confirm_file_def Let_def split: if_splits option.splits)
  show "vouched st' \<subseteq> vouched st"
  proof (cases "st' = expire now st")
    case True
    then show ?thesis using expire_vouched by blast
  next
    case False
    then obtain i where i: "map_of (pending_requests (expire now st)) t = Some i" "ap_cookie i \<noteq> []"
      "st' = drop_pending t (activate i (now + of_int (ap_seconds i)) (expire now st))"
      using assms(2) by (auto simp: confirm_file_def confirmed_browser_def Let_def split: if_splits option.splits)
    have "fields_of i \<in> vouched (expire now st)" by (rule vouchedI(2) [OF map_of_mem [OF i(1)] i(2)])
    then show ?thesis unfolding i(3) using drop_pending_vouched activate_vouched expire_vouched by blast
  qed
qed

section \<open>A form for a capability\<close>

definition proven :: "cap_env \<Rightarrow> string \<Rightarrow> string \<Rightarrow> 'z cap_store_scheme \<Rightarrow> fields set" where
  "proven env ticket password st =
     {fields_of i | i. map_of (pending_requests st) ticket = Some i \<and> check_password env (ap_workspace i) password st}"

lemma provenI: "map_of (pending_requests st) t = Some i \<Longrightarrow> check_password env (ap_workspace i) p st \<Longrightarrow> fields_of i \<in> proven env t p st"
  by (auto simp: proven_def)

lemma proven_expire: "cap_distinct st \<Longrightarrow> proven env t p (expire now st) \<subseteq> proven env t p st"
  unfolding proven_def using expire_lookup check_password_cong [of "expire now st" st] by fastforce

text \<open>What a step on the capability store may do for the owner of the password \<open>p\<close> who has the ticket \<open>t\<close>.\<close>

definition sound_step :: "cap_env \<Rightarrow> string \<Rightarrow> string \<Rightarrow> 'z cap_store_scheme \<Rightarrow> 'z cap_store_scheme \<Rightarrow> bool" where
  "sound_step env t p st st' \<longleftrightarrow>
     vouched st' \<subseteq> vouched st \<union> proven env t p st \<and> token_passwords st' = token_passwords st \<and> cap_distinct st' \<and>
     cap_store.more st' = cap_store.more st"

lemma sound_refl: "cap_distinct st \<Longrightarrow> sound_step env t p st st"
  by (simp add: sound_step_def)

lemma sound_expire: "cap_distinct st \<Longrightarrow> sound_step env t p st (expire now st)"
  using expire_vouched by (auto simp: sound_step_def)

lemma sound_after_expire:
  assumes "cap_distinct st" "sound_step env t p (expire now st) st'"
  shows "sound_step env t p st st'"
  using assms expire_vouched [of now st] proven_expire [OF assms(1), of env t p now] by (auto simp: sound_step_def)

lemma password_post_sound:
  assumes "cap_distinct st" "password_post env wd t st = (r, st')"
  shows "sound_step (cap_env.truncate env) t (form_one (pw_form wd) ''password'') st st'"
proof (cases "form_seconds (pw_form wd)")
  case (Inl e)
  then show ?thesis using assms by (simp add: password_post_def sound_refl)
next
  case (Inr s)
  obtain r1 where "approve (cap_env.truncate env) t (form_one (pw_form wd) ''password'') s (pw_clock wd 3) (pw_clock wd 4) st = (r1, st')"
    using assms(2) Inr by (auto simp: password_post_def split: prod.splits sum.splits)
  from approve_vouched [OF assms(1) this] show ?thesis by (auto simp: sound_step_def proven_def)
qed

lemma confirm_post_sound:
  assumes "cap_distinct st" "confirm_post env wd t c item st = (r, st')"
  shows "sound_step (cap_env.truncate env) t p st st'"
proof -
  consider "st' = st" | "st' = expire (pw_clock wd 3) st"
    | r1 where "confirm_file (cap_env.truncate env) t c (pw_clock wd 4) (expire (pw_clock wd 3) st) = (r1, st')"
    using assms(2) by (auto simp: confirm_post_def verify_file_confirmation_browser_def Let_def split: if_splits prod.splits sum.splits bool.splits option.splits)
  then show ?thesis
  proof cases
    case 3
    have "sound_step (cap_env.truncate env) t p (expire (pw_clock wd 3) st) st'"
      using confirm_file_vouched [OF _ 3] assms(1) by (auto simp: sound_step_def)
    then show ?thesis by (rule sound_after_expire [OF assms(1)])
  qed (use assms(1) sound_refl sound_expire in blast)+
qed

lemma file_password_post_sound:
  assumes "cap_distinct st" "file_password_post env wd t c item st = (r, st')"
  shows "sound_step (cap_env.truncate env) t (form_one (pw_form wd) ''password'') st st'"
proof (cases "form_seconds (pw_form wd)")
  case (Inl e)
  then show ?thesis using assms by (simp add: file_password_post_def sound_refl)
next
  case (Inr s)
  let ?env = "cap_env.truncate env" and ?p = "form_one (pw_form wd) ''password''"
  obtain r1 st1 where auth: "authenticate_file ?env t ?p s (pw_clock wd 3) st = (r1, st1)" by force
  note a = authenticate_file_vouched [OF assms(1) auth]
  have 1: "sound_step ?env t ?p st st1" using a by (auto simp: sound_step_def)
  show ?thesis
  proof (cases "st' = st1")
    case True
    with 1 show ?thesis by simp
  next
    case False
    then obtain i scope actual r2 where i: "r1 = Inr i"
      and prep: "prepare_file_confirmation ?env t c scope actual s (pw_clock wd 4) st1 = (r2, st')"
      using assms(2) Inr auth by (auto simp: file_password_post_def split: sum.splits option.splits)
    from a(5) [OF i] have st1: "st1 = expire (pw_clock wd 3) st" and look: "map_of (pending_requests st) t = Some i"
      and check: "check_password ?env (ap_workspace i) ?p st" by blast+
    have "fields_of j \<in> proven ?env t ?p st" if "map_of (pending_requests st1) t = Some j" for j
      using expire_lookup [OF assms(1), of "pw_clock wd 3" t j] that look check unfolding st1 by (auto intro: provenI)
    with prepare_file_vouched [OF a(3) prep] 1 show ?thesis unfolding sound_step_def by fastforce
  qed
qed

section \<open>Functions\<close>

definition fun_vouched :: "'z grants_store_scheme \<Rightarrow> fun_key set" where
  "fun_vouched st = fst ` set (fun_active st) \<union>
     (\<lambda>(_, r). fun_key_of r) ` {x \<in> set (fun_pending st). fst x \<in> fst ` set (confirmations st)}"

definition fun_tickets :: "'z grants_store_scheme \<Rightarrow> string set" where
  "fun_tickets st = fst ` set (fun_pending st) \<union> fst ` set (confirmations st)"

definition fun_distinct :: "'z grants_store_scheme \<Rightarrow> bool" where
  "fun_distinct st \<longleftrightarrow> distinct (map fst (fun_pending st)) \<and> distinct (map fst (fun_active st)) \<and> distinct (map fst (confirmations st))"

lemma fun_vouchedI:
  "(k, a) \<in> set (fun_active st) \<Longrightarrow> k \<in> fun_vouched st"
  "(t, r) \<in> set (fun_pending st) \<Longrightarrow> t \<in> fst ` set (confirmations st) \<Longrightarrow> fun_key_of r \<in> fun_vouched st"
  by (force simp: fun_vouched_def)+

lemma fun_vouched_subsetI:
  assumes "\<And>k a. (k, a) \<in> set (fun_active st) \<Longrightarrow> k \<in> S"
    and "\<And>t r. (t, r) \<in> set (fun_pending st) \<Longrightarrow> t \<in> fst ` set (confirmations st) \<Longrightarrow> fun_key_of r \<in> S"
  shows "fun_vouched st \<subseteq> S"
proof
  fix x assume "x \<in> fun_vouched st"
  then consider y where "y \<in> set (fun_active st)" "x = fst y"
    | y where "y \<in> set (fun_pending st)" "fst y \<in> fst ` set (confirmations st)" "x = fun_key_of (snd y)"
    unfolding fun_vouched_def Un_iff case_prod_unfold by blast
  then show "x \<in> S"
  proof cases
    case (1 y)
    then show ?thesis using assms(1) [of "fst y" "snd y"] by simp
  next
    case (2 y)
    then show ?thesis using assms(2) [of "fst y" "snd y"] by simp
  qed
qed

text \<open>What a step on the function grants may do when \<open>N\<close> are the keys it may add.\<close>

definition fun_step :: "fun_key set \<Rightarrow> 'z grants_store_scheme \<Rightarrow> 'z grants_store_scheme \<Rightarrow> bool" where
  "fun_step N st st' \<longleftrightarrow>
     fun_vouched st' \<subseteq> fun_vouched st \<union> N \<and> fun_distinct st' \<and> fun_tickets st' \<subseteq> fun_tickets st \<and>
     cap_store.truncate st' = cap_store.truncate st \<and> grants_store.more st' = grants_store.more st"

lemma fun_step_refl: "fun_distinct st \<Longrightarrow> fun_step N st st"
  by (simp add: fun_step_def)

lemma fun_step_trans:
  assumes "fun_step N st st1" "fun_step N st1 st2"
  shows "fun_step N st st2"
proof -
  have "fun_vouched st2 \<subseteq> fun_vouched st1 \<union> N" "fun_vouched st1 \<subseteq> fun_vouched st \<union> N"
    "fun_tickets st2 \<subseteq> fun_tickets st1" "fun_tickets st1 \<subseteq> fun_tickets st"
    using assms by (simp_all add: fun_step_def)
  then have "fun_vouched st2 \<subseteq> fun_vouched st \<union> N" "fun_tickets st2 \<subseteq> fun_tickets st" by blast+
  then show ?thesis using assms by (simp add: fun_step_def)
qed

lemma fun_step_mono: "fun_step N st st' \<Longrightarrow> N \<subseteq> M \<Longrightarrow> fun_step M st st'"
  unfolding fun_step_def by blast

lemma fun_stepI:
  assumes "\<And>k a. (k, a) \<in> set (fun_active st') \<Longrightarrow> k \<in> fun_vouched st \<union> N"
    and "\<And>t r. (t, r) \<in> set (fun_pending st') \<Longrightarrow> t \<in> fst ` set (confirmations st') \<Longrightarrow> fun_key_of r \<in> fun_vouched st \<union> N"
    and "fun_distinct st'" "fun_tickets st' \<subseteq> fun_tickets st"
    and "cap_store.truncate st' = cap_store.truncate st" "grants_store.more st' = grants_store.more st"
  shows "fun_step N st st'"
  using assms fun_vouched_subsetI [of st' "fun_vouched st \<union> N"] by (simp add: fun_step_def)

lemma prune_active_keys: "x \<in> set (prune_active now rows) \<Longrightarrow> fst x \<in> fst ` set rows"
  by (force simp: prune_active_def split: option.splits)

lemma prune_active_distinct: "distinct (map fst rows) \<Longrightarrow> distinct (map fst (prune_active now rows))"
proof (induction rows)
  case (Cons x rows)
  have "fst x \<notin> fst ` set (prune_active now rows)" using Cons.prems prune_active_keys [of _ now rows] by fastforce
  moreover have "prune_active now (x # rows) = (case live_auth now (snd x) of None \<Rightarrow> [] | Some b \<Rightarrow> [(fst x, b)]) @ prune_active now rows"
    by (simp add: prune_active_def case_prod_unfold)
  ultimately show ?case using Cons by (auto split: option.splits)
qed (simp add: prune_active_def)

lemma drop_stale_step: "fun_distinct st \<Longrightarrow> fun_step {} st (drop_stale st)"
  by (rule fun_stepI)
    (auto simp: drop_stale_def fun_distinct_def fun_tickets_def cap_store.truncate_def intro: fun_vouchedI distinct_map_filter)

lemma fun_prune_step:
  assumes "fun_distinct st"
  shows "fun_step {} st (fun_prune now st)"
proof -
  let ?mid = "st\<lparr>fun_pending := filter (\<lambda>(_, r). fr_deadline r > now) (fun_pending st), fun_active := prune_active now (fun_active st)\<rparr>"
  have d: "fun_distinct ?mid" using assms by (auto simp: fun_distinct_def intro: distinct_map_filter prune_active_distinct)
  have "fun_step {} st ?mid"
  proof (rule fun_stepI [OF _ _ d])
    show "k \<in> fun_vouched st \<union> {}" if "(k, a) \<in> set (fun_active ?mid)" for k a
      using prune_active_keys [of "(k, a)" now "fun_active st"] that by (auto intro: fun_vouchedI)
  qed (auto simp: fun_tickets_def cap_store.truncate_def intro: fun_vouchedI)
  then show ?thesis unfolding fun_prune_def using fun_step_trans [OF _ drop_stale_step [OF d]] by blast
qed

lemma fun_prune_lookup:
  "fun_distinct st \<Longrightarrow> map_of (fun_pending (fun_prune now st)) t = Some r \<Longrightarrow> map_of (fun_pending st) t = Some r"
  by (auto simp: fun_prune_def drop_stale_def fun_distinct_def lookup_filtered split: option.splits if_splits)

lemma fun_distinct_updates:
  assumes "fun_distinct st"
  shows "fun_distinct (st\<lparr>fun_pending := AList.update t r (fun_pending st)\<rparr>)"
    "fun_distinct (st\<lparr>fun_pending := AList.delete t (fun_pending st)\<rparr>)"
    "fun_distinct (st\<lparr>confirmations := AList.update t c (confirmations st)\<rparr>)"
    "fun_distinct (st\<lparr>fun_active := AList.update k a (fun_active st), fun_pending := AList.delete t (fun_pending st),
       confirmations := AList.delete t (confirmations st)\<rparr>)"
  using assms by (auto simp: fun_distinct_def distinct_update distinct_delete)

lemma password_attempt_step:
  assumes "fun_distinct st" "password_attempt t verify now later st = (r, st')"
  shows "fun_step {} st st'"
    "r = Inr True \<Longrightarrow> st' = fun_prune later (fun_prune now st) \<and> (\<exists>q. map_of (fun_pending st) t = Some q \<and> verify (fr_workspace q))"
proof -
  let ?st1 = "fun_prune now st" let ?st2 = "fun_prune later ?st1"
  have 1: "fun_step {} st ?st1" by (rule fun_prune_step [OF assms(1)])
  then have d1: "fun_distinct ?st1" by (simp add: fun_step_def)
  have 2: "fun_step {} st ?st2" by (rule fun_step_trans [OF 1 fun_prune_step [OF d1]])
  then have d2: "fun_distinct ?st2" by (simp add: fun_step_def)
  have del: "fun_step {} ?st2 (?st2\<lparr>fun_pending := AList.delete t (fun_pending ?st2)\<rparr>)"
    by (rule fun_stepI [OF _ _ fun_distinct_updates(2) [OF d2]])
      (auto simp: AList_set_delete fun_tickets_def cap_store.truncate_def intro: fun_vouchedI)
  have upd: "fun_step {} ?st2 (?st2\<lparr>fun_pending := AList.update t (q\<lparr>fr_attempts := n\<rparr>) (fun_pending ?st2)\<rparr>)"
    if "map_of (fun_pending ?st2) t = Some q" for q n
  proof (rule fun_stepI [OF _ _ fun_distinct_updates(1) [OF d2]])
    have q: "fun_key_of (q\<lparr>fr_attempts := n\<rparr>) = fun_key_of q" by (simp add: fun_key_of_def)
    show "fun_key_of r' \<in> fun_vouched ?st2 \<union> {}"
      if "(t', r') \<in> set (fun_pending (?st2\<lparr>fun_pending := AList.update t (q\<lparr>fr_attempts := n\<rparr>) (fun_pending ?st2)\<rparr>))"
        "t' \<in> fst ` set (confirmations (?st2\<lparr>fun_pending := AList.update t (q\<lparr>fr_attempts := n\<rparr>) (fun_pending ?st2)\<rparr>))" for t' r'
    proof -
      have "(t', r') = (t, q\<lparr>fr_attempts := n\<rparr>) \<or> (t', r') \<in> set (fun_pending ?st2)"
        using AList_set_update that(1) by fastforce
      moreover have "t' \<in> fst ` set (confirmations ?st2)" using that(2) by simp
      ultimately show ?thesis using q fun_vouchedI(2) [of t' _ ?st2] map_of_mem [OF \<open>map_of (fun_pending ?st2) t = Some q\<close>]
        by (elim disjE) simp_all
    qed
    show "fun_tickets (?st2\<lparr>fun_pending := AList.update t (q\<lparr>fr_attempts := n\<rparr>) (fun_pending ?st2)\<rparr>) \<subseteq> fun_tickets ?st2"
      using map_of_mem [OF that] by (force simp: fun_tickets_def dest!: AList_set_update)
  qed (auto simp: cap_store.truncate_def intro: fun_vouchedI)
  show "fun_step {} st st'"
    using assms(2) 1 2 fun_step_trans [OF 2 del] fun_step_trans [OF 2 upd]
    by (auto simp: password_attempt_def Let_def split: option.splits if_splits)
  show "st' = fun_prune later (fun_prune now st) \<and> (\<exists>q. map_of (fun_pending st) t = Some q \<and> verify (fr_workspace q))" if "r = Inr True"
    using assms(2) that fun_prune_lookup [OF assms(1)] by (fastforce simp: password_attempt_def Let_def split: option.splits if_splits)
qed

lemma fun_prune_confirmed: "t \<in> fst ` set (confirmations (fun_prune now st)) \<Longrightarrow> t \<in> fst ` set (confirmations st)"
  by (auto simp: fun_prune_def drop_stale_def)

lemma publish_step:
  assumes "fun_distinct st"
  shows "fun_step {k} st (publish t k a st)"
proof (rule fun_stepI)
  show "fun_distinct (publish t k a st)" using fun_distinct_updates(4) [OF assms] by (simp add: publish_def)
  show "k' \<in> fun_vouched st \<union> {k}" if "(k', b) \<in> set (fun_active (publish t k a st))" for k' b
    using AList_set_update [of "(k', b)" k a "fun_active st"] that by (auto simp: publish_def intro: fun_vouchedI)
  show "fun_key_of r \<in> fun_vouched st \<union> {k}"
    if "(t', r) \<in> set (fun_pending (publish t k a st))" "t' \<in> fst ` set (confirmations (publish t k a st))" for t' r
  proof -
    have "(t', r) \<in> set (fun_pending st)" "t' \<in> fst ` set (confirmations st)"
      using that by (simp_all add: publish_def AList_set_delete) blast
    then show ?thesis by (simp add: fun_vouchedI)
  qed
  show "fun_tickets (publish t k a st) \<subseteq> fun_tickets st" by (auto simp: publish_def fun_tickets_def AList_set_delete)
qed (simp_all add: publish_def cap_store.truncate_def)

lemma fun_approve_step:
  assumes "fun_distinct st" "fun_approve js g t s browser clk st = (out, st')"
    and "\<And>r. map_of (fun_pending st) t = Some r \<Longrightarrow> browser = None \<Longrightarrow> fun_key_of r \<in> N"
  shows "fun_step N st st'"
proof -
  let ?st1 = "fun_prune (clk 0) st" let ?st2 = "fun_prune (clk 3) ?st1"
  have 1: "fun_step N st ?st1" by (rule fun_step_mono [OF fun_prune_step [OF assms(1)]]) simp
  then have d1: "fun_distinct ?st1" by (simp add: fun_step_def)
  have 2: "fun_step N st ?st2" by (rule fun_step_trans [OF 1 fun_step_mono [OF fun_prune_step [OF d1]]]) simp
  then have d2: "fun_distinct ?st2" by (simp add: fun_step_def)
  show ?thesis
  proof (cases "map_of (fun_pending ?st1) t")
    case None
    then show ?thesis using assms(1,2) 1 fun_step_refl by (auto simp: fun_approve_def Let_def split: if_splits)
  next
    case (Some r)
    note look = Some
    have r: "map_of (fun_pending st) t = Some r" by (rule fun_prune_lookup [OF assms(1) look])
    show ?thesis
    proof (cases "candidate js g r s (clk 1) (clk 2) ?st1")
      case (Inl e)
      then show ?thesis using assms(1,2) 1 look fun_step_refl by (auto simp: fun_approve_def Let_def split: if_splits)
    next
      case (Inr c)
      then obtain previous updated ds where c: "candidate js g r s (clk 1) (clk 2) ?st1 = Inr (previous, updated, ds)"
        by (cases c) auto
      define a where "a = \<lparr>fa_auth = updated, fa_deadlines = ds, fa_revision = revision_of previous + 1\<rparr>"
      define st3 where "st3 = fun_prune (clk 4) (publish t (fun_key_of r) a ?st2)"
      consider "st' = st" | "st' = ?st2" | "st' = st3" "\<not> confirmation_changed browser t s previous updated ?st2"
        using assms(2) look c unfolding a_def st3_def by (auto simp: fun_approve_def Let_def split: if_splits)
      then show ?thesis
      proof cases
        case 3
        have key: "fun_key_of r \<in> fun_vouched st \<union> N"
        proof (cases browser)
          case None
          then show ?thesis using assms(3) [OF r] by simp
        next
          case (Some b)
          then obtain v where "map_of (confirmations ?st2) t = Some v"
            using 3(2) by (auto simp: confirmation_changed_def split: option.splits)
          then have "t \<in> fst ` set (confirmations ?st2)" by (metis map_of_mem fst_conv image_eqI)
          then have "t \<in> fst ` set (confirmations st)" using fun_prune_confirmed by blast
          then show ?thesis using fun_vouchedI(2) [OF map_of_mem [OF r]] by simp
        qed
        have "fun_step (insert (fun_key_of r) N) st (publish t (fun_key_of r) a ?st2)"
          by (rule fun_step_trans [OF fun_step_mono [OF 2] fun_step_mono [OF publish_step [OF d2]]]) auto
        with key have 4: "fun_step N st (publish t (fun_key_of r) a ?st2)" unfolding fun_step_def by blast
        then have "fun_distinct (publish t (fun_key_of r) a ?st2)" by (simp add: fun_step_def)
        from fun_step_trans [OF 4 fun_step_mono [OF fun_prune_step [OF this]]] show ?thesis unfolding 3(1) st3_def by simp
      qed (use 2 fun_step_refl [OF assms(1)] in simp_all)
    qed
  qed
qed

lemma prepare_confirmation_step:
  assumes "fun_distinct st" "prepare_confirmation js g t browser s clk st = (out, st')"
    and "\<And>r. map_of (fun_pending st) t = Some r \<Longrightarrow> fun_key_of r \<in> N"
  shows "fun_step N st st'"
proof -
  let ?st1 = "fun_prune (clk 0) st"
  have 1: "fun_step N st ?st1" by (rule fun_step_mono [OF fun_prune_step [OF assms(1)]]) simp
  then have d1: "fun_distinct ?st1" by (simp add: fun_step_def)
  have staged: "fun_step N st (stage t c ?st1)" if look: "map_of (fun_pending ?st1) t = Some r" for r c
  proof -
    have r: "fun_key_of r \<in> N" by (rule assms(3) [OF fun_prune_lookup [OF assms(1) look]])
    have "fun_step N ?st1 (stage t c ?st1)"
    proof (rule fun_stepI)
      show "fun_key_of q \<in> fun_vouched ?st1 \<union> N"
        if "(t', q) \<in> set (fun_pending (stage t c ?st1))" "t' \<in> fst ` set (confirmations (stage t c ?st1))" for t' q
      proof (cases "t' = t")
        case True
        have "(t', q) \<in> set (fun_pending ?st1)" using that(1) by (simp add: stage_def)
        then have "map_of (fun_pending ?st1) t' = Some q" using d1 by (simp add: fun_distinct_def)
        then show ?thesis using True look r by simp
      next
        case False
        then have "t' \<in> fst ` set (confirmations ?st1)" using that(2) AList_set_update unfolding stage_def by fastforce
        then show ?thesis using that(1) by (simp add: fun_vouchedI stage_def)
      qed
      show "fun_tickets (stage t c ?st1) \<subseteq> fun_tickets ?st1"
      proof -
        have "t \<in> fst ` set (fun_pending ?st1)" using map_of_mem [OF look] by (metis fst_conv image_eqI)
        moreover have "fst ` set (AList.update t c (confirmations ?st1)) \<subseteq> insert t (fst ` set (confirmations ?st1))"
          using AList_set_update by fastforce
        ultimately show ?thesis unfolding stage_def fun_tickets_def by auto
      qed
    qed (use fun_distinct_updates(3) [OF d1] in \<open>auto simp: stage_def cap_store.truncate_def intro: fun_vouchedI\<close>)
    then show ?thesis by (rule fun_step_trans [OF 1])
  qed
  show ?thesis
  proof (cases "map_of (fun_pending ?st1) t")
    case None
    then show ?thesis using assms(1,2) 1 fun_step_refl by (auto simp: prepare_confirmation_def Let_def split: if_splits)
  next
    case (Some r)
    note look = Some
    show ?thesis
    proof (cases "candidate js g r s (clk 1) (clk 2) ?st1")
      case (Inl e)
      then show ?thesis using assms(1,2) 1 look fun_step_refl by (auto simp: prepare_confirmation_def Let_def split: if_splits)
    next
      case (Inr c)
      then obtain previous updated ds where c: "candidate js g r s (clk 1) (clk 2) ?st1 = Inr (previous, updated, ds)"
        by (cases c) auto
      then have "st' = st \<or> st' = ?st1 \<or> st' = stage t (browser, updated, s, revision_of previous) ?st1"
        using assms(2) look by (auto simp: prepare_confirmation_def Let_def split: if_splits)
      then show ?thesis using 1 staged [OF look] fun_step_refl [OF assms(1)] by (elim disjE) simp_all
    qed
  qed
qed

section \<open>A form for a function\<close>

definition fun_proven :: "cap_env \<Rightarrow> string \<Rightarrow> string \<Rightarrow> 'z grants_store_scheme \<Rightarrow> fun_key set" where
  "fun_proven env ticket password st =
     {fun_key_of r | r. map_of (fun_pending st) ticket = Some r \<and> check_password env (fr_workspace r) password st}"

lemma fun_confirm_post_step:
  assumes "fun_distinct st" "fun_confirm_post env wd t pf st = (out, st')"
  shows "fun_step N st st'"
proof -
  let ?st1 = "fun_prune (pw_clock wd 3) st"
  have 1: "fun_step N st ?st1" by (rule fun_step_mono [OF fun_prune_step [OF assms(1)]]) simp
  then have d1: "fun_distinct ?st1" by (simp add: fun_step_def)
  obtain found st1 where f: "fun_confirmation (json_bytes env) t pf (pw_clock wd 3) st = (found, st1)" by force
  then have st1: "st1 = ?st1"
    by (auto simp: fun_confirmation_def Let_def attempt_def split: option.splits if_splits sum.splits prod.splits)
  show ?thesis
  proof (cases "st' = ?st1")
    case True
    with 1 show ?thesis by simp
  next
    case False
    then obtain s r1 where "fun_approve (json_bytes env) (pw_grant wd) t s (Some pf) (\<lambda>i. pw_clock wd (i + 4)) ?st1 = (r1, st')"
      using assms(2) f st1 by (auto simp: fun_confirm_post_def split: sum.splits option.splits prod.splits if_splits)
    from fun_approve_step [OF d1 this] have "fun_step N ?st1 st'" by blast
    then show ?thesis by (rule fun_step_trans [OF 1])
  qed
qed

lemma fun_password_post_step:
  assumes "fun_distinct st" "fun_password_post env wd t pf r st = (out, st')"
  shows "fun_step (fun_proven (cap_env.truncate env) t (form_one (pw_form wd) ''password'') st) st st'"
proof -
  let ?N = "fun_proven (cap_env.truncate env) t (form_one (pw_form wd) ''password'') st"
  obtain ok st1 where a: "password_attempt t (\<lambda>owner. verify_workspace_password (cap_env.truncate env) owner (form_one (pw_form wd) ''password'') st)
      (pw_clock wd 3) (pw_clock wd 4) st = (ok, st1)" by force
  have 1: "fun_step ?N st st1" by (rule fun_step_mono [OF password_attempt_step(1) [OF assms(1) a]]) simp
  then have d1: "fun_distinct st1" by (simp add: fun_step_def)
  show ?thesis
  proof (cases "ok = Inr True \<and> (\<exists>s. form_seconds (pw_form wd) = Inr s)")
    case False
    then have "st' = st1" using assms(2) a
      by (auto simp: fun_password_post_def attempt_def split: sum.splits bool.splits prod.splits)
    with 1 show ?thesis by simp
  next
    case True
    then obtain s where s: "form_seconds (pw_form wd) = Inr s" by blast
    from password_attempt_step(2) [OF assms(1) a] True
    have st1: "st1 = fun_prune (pw_clock wd 4) (fun_prune (pw_clock wd 3) st)"
      and "\<exists>q. map_of (fun_pending st) t = Some q \<and> check_password (cap_env.truncate env) (fr_workspace q) (form_one (pw_form wd) ''password'') st"
      by (auto simp: verify_workspace_password_def)
    then obtain q where q: "map_of (fun_pending st) t = Some q" "fun_key_of q \<in> ?N" by (auto simp: fun_proven_def)
    have "fun_distinct (fun_prune (pw_clock wd 3) st)" using fun_prune_step [OF assms(1), of "pw_clock wd 3"] by (simp add: fun_step_def)
    then have "map_of (fun_pending st) t = Some x" if "map_of (fun_pending st1) t = Some x" for x
      using that fun_prune_lookup [OF assms(1)] fun_prune_lookup [of "fun_prune (pw_clock wd 3) st"] unfolding st1 by blast
    with q have N: "fun_key_of x \<in> ?N" if "map_of (fun_pending st1) t = Some x" for x using that by fastforce
    have "fun_step ?N st1 st'"
    proof (cases "wants_confirmation r")
      case True
      then obtain out2 where "prepare_confirmation (json_bytes env) (pw_grant wd) t pf s (\<lambda>i. pw_clock wd (i + 5)) st1 = (out2, st')"
        using assms(2) a s \<open>ok = Inr True \<and> _\<close> by (auto simp: fun_password_post_def split: prod.splits sum.splits)
      from prepare_confirmation_step [OF d1 this] N show ?thesis by blast
    next
      case False
      then obtain out2 where "fun_approve (json_bytes env) (pw_grant wd) t s None (\<lambda>i. pw_clock wd (i + 5)) st1 = (out2, st')"
        using assms(2) a s \<open>ok = Inr True \<and> _\<close> by (auto simp: fun_password_post_def split: prod.splits sum.splits)
      from fun_approve_step [OF d1 this] N show ?thesis by blast
    qed
    then show ?thesis by (rule fun_step_trans [OF 1])
  qed
qed

section \<open>A form\<close>

definition wf_approvals :: "'z grants_store_scheme \<Rightarrow> bool" where
  "wf_approvals st \<longleftrightarrow> cap_distinct st \<and> fun_distinct st"

text \<open>What any step with the ticket \<open>t\<close> and the password \<open>p\<close> may do to both stores.\<close>

definition good_step :: "cap_env \<Rightarrow> string \<Rightarrow> string \<Rightarrow> 'z grants_store_scheme \<Rightarrow> 'z grants_store_scheme \<Rightarrow> bool" where
  "good_step env t p st st' \<longleftrightarrow>
     vouched st' \<subseteq> vouched st \<union> proven env t p st \<and> fun_vouched st' \<subseteq> fun_vouched st \<union> fun_proven env t p st \<and>
     token_passwords st' = token_passwords st \<and> wf_approvals st' \<and> fun_tickets st' \<subseteq> fun_tickets st"

text \<open>A step that only forgets.\<close>

definition quiet :: "'z grants_store_scheme \<Rightarrow> 'z grants_store_scheme \<Rightarrow> bool" where
  "quiet st st' \<longleftrightarrow>
     vouched st' \<subseteq> vouched st \<and> fun_vouched st' \<subseteq> fun_vouched st \<and> token_passwords st' = token_passwords st \<and>
     wf_approvals st' \<and> fun_tickets st' \<subseteq> fun_tickets st \<and>
     (\<forall>t i. map_of (pending_requests st') t = Some i \<longrightarrow> map_of (pending_requests st) t = Some i) \<and>
     (\<forall>t r. map_of (fun_pending st') t = Some r \<longrightarrow> map_of (fun_pending st) t = Some r)"

lemma quiet_refl: "wf_approvals st \<Longrightarrow> quiet st st"
  by (simp add: quiet_def)

lemma quiet_trans: "quiet st st1 \<Longrightarrow> quiet st1 st2 \<Longrightarrow> quiet st st2"
  unfolding quiet_def by (metis order_trans)

lemma quiet_good: "quiet st st' \<Longrightarrow> good_step env t p st st'"
  unfolding quiet_def good_step_def by blast

lemma quiet_then_good:
  assumes "quiet st st1" "good_step env t p st1 st2"
  shows "good_step env t p st st2"
proof -
  have q: "vouched st1 \<subseteq> vouched st" "fun_vouched st1 \<subseteq> fun_vouched st" "token_passwords st1 = token_passwords st"
    "fun_tickets st1 \<subseteq> fun_tickets st" using assms(1) by (simp_all add: quiet_def)
  have "proven env t p st1 \<subseteq> proven env t p st" "fun_proven env t p st1 \<subseteq> fun_proven env t p st"
    using assms(1) check_password_cong [OF q(3)] unfolding proven_def fun_proven_def quiet_def by blast+
  then show ?thesis using assms(2) q unfolding good_step_def by (metis (no_types, lifting) Un_mono order_trans)
qed

lemma fun_parts_of_more:
  assumes "cap_store.more st' = cap_store.more (st :: 'z grants_store_scheme)"
  shows "fun_pending st' = fun_pending st" "fun_active st' = fun_active st" "confirmations st' = confirmations st"
  using assms by (cases st; cases st'; simp)+

lemma sound_good:
  assumes "wf_approvals st" "sound_step env t p st (st' :: 'z grants_store_scheme)"
  shows "good_step env t p st st'"
proof -
  have "cap_store.more st' = cap_store.more st" using assms(2) by (simp add: sound_step_def)
  note f = fun_parts_of_more [OF this]
  have "fun_vouched st' = fun_vouched st" "fun_tickets st' = fun_tickets st" "fun_distinct st' = fun_distinct st"
    by (simp_all add: fun_vouched_def fun_tickets_def fun_distinct_def f)
  then show ?thesis using assms by (auto simp: good_step_def sound_step_def wf_approvals_def)
qed

lemma cap_parts_of_truncate:
  assumes "cap_store.truncate st' = cap_store.truncate st"
  shows "pending_requests st' = pending_requests st" "active_grants st' = active_grants st" "token_passwords st' = token_passwords st"
  using assms by (simp_all add: cap_store.truncate_def)

lemma fun_good:
  assumes "wf_approvals st" "fun_step (fun_proven env t p st) st st'"
  shows "good_step env t p st st'"
proof -
  have "cap_store.truncate st' = cap_store.truncate st" using assms(2) by (simp add: fun_step_def)
  note c = cap_parts_of_truncate [OF this]
  have "vouched st' = vouched st" "cap_distinct st' = cap_distinct st" by (simp_all add: vouched_def cap_distinct_def c)
  then show ?thesis using assms c(3) by (auto simp: good_step_def fun_step_def wf_approvals_def)
qed

lemma quiet_expire:
  assumes "wf_approvals st"
  shows "quiet st (expire now st)"
proof -
  note f = fun_parts_of_more [of "expire now st" st, OF cap_frame(8)]
  have "fun_vouched (expire now st) = fun_vouched st" "fun_tickets (expire now st) = fun_tickets st" "fun_distinct (expire now st) = fun_distinct st"
    by (simp_all add: fun_vouched_def fun_tickets_def fun_distinct_def f)
  then show ?thesis using assms expire_vouched [of now st] expire_lookup [of st now] f
    by (auto simp: quiet_def wf_approvals_def)
qed

lemma quiet_prune:
  assumes "wf_approvals st"
  shows "quiet st (fun_prune now st)"
proof -
  have d: "fun_distinct st" using assms by (simp add: wf_approvals_def)
  note s = fun_prune_step [OF d, of now]
  have "cap_store.truncate (fun_prune now st) = cap_store.truncate st" using s by (simp add: fun_step_def)
  note c = cap_parts_of_truncate [OF this]
  have "vouched (fun_prune now st) = vouched st" "cap_distinct (fun_prune now st) = cap_distinct st"
    by (simp_all add: vouched_def cap_distinct_def c)
  then show ?thesis using assms s c fun_prune_lookup [OF d] by (auto simp: quiet_def fun_step_def wf_approvals_def)
qed

lemma quiet_buckets: "wf_approvals st \<Longrightarrow> quiet st (st\<lparr>approval_buckets := bs\<rparr>)"
  by (simp add: quiet_def wf_approvals_def vouched_def fun_vouched_def fun_tickets_def cap_distinct_def fun_distinct_def)

end
