(* ===== verification/Approval_Lifecycle.thy ===== *)
theory Approval_Lifecycle
  imports Approval_Safety
begin

text \<open>
  The approvals of a server over its lifetime: after any list of calls, everything that is vouched for
  goes back to a form with the password of its workspace, a password that is still the workspace's.
\<close>

section \<open>Forms\<close>

lemma wf_capD: "wf_approvals st \<Longrightarrow> cap_distinct st" and wf_funD: "wf_approvals st \<Longrightarrow> fun_distinct st"
  by (simp_all add: wf_approvals_def)

lemma quiet_wf: "quiet st st' \<Longrightarrow> wf_approvals st'"
  by (simp add: quiet_def)

lemma take_quiet: "wf_approvals st \<Longrightarrow> take_approval_attempt a w now st = (n, st') \<Longrightarrow> quiet st st'"
  by (auto simp: take_approval_attempt_def split: prod.splits intro: quiet_buckets)

lemma capability_form_good:
  assumes "wf_approvals st" "capability_form_post env wd t c i st = (r, st')"
  shows "good_step (cap_env.truncate env) t (form_one (pw_form wd) ''password'') st st'"
  using assms(2) confirm_post_sound [OF wf_capD [OF assms(1)], of env wd t c i r st'] file_password_post_sound [OF wf_capD [OF assms(1)], of env wd t c i r st']
    password_post_sound [OF wf_capD [OF assms(1)], of env wd t r st']
  by (auto simp: capability_form_post_def intro!: sound_good [OF assms(1)] split: if_splits)

lemma capability_post_good:
  assumes "wf_approvals st" "handle_capability_post env wd t st = (out, st')"
  shows "good_step (cap_env.truncate env) t (form_one (pw_form wd) ''password'') st st'"
proof -
  let ?st1 = "expire (pw_clock wd 1) st"
  note q1 = quiet_expire [OF assms(1), of "pw_clock wd 1"]
  note w1 = quiet_wf [OF q1]
  consider "st' = st" | "quiet ?st1 st'"
    | (post) st2 r i where "quiet ?st1 st2" "capability_form_post env wd t (the (pw_cookie wd)) i st2 = (r, st')"
    using assms(2) take_quiet [OF w1] quiet_refl [OF w1]
    by (auto simp: handle_capability_post_def pending_def Let_def split: if_splits option.splits prod.splits) blast
  then show ?thesis
  proof cases
    case 1
    then show ?thesis using quiet_good [OF quiet_refl [OF assms(1)]] by simp
  next
    case 2
    then show ?thesis by (rule quiet_good [OF quiet_trans [OF q1]])
  next
    case post
    show ?thesis by (rule quiet_then_good [OF quiet_trans [OF q1 post(1)] capability_form_good [OF quiet_wf [OF post(1)] post(2)]])
  qed
qed

lemma function_post_good:
  assumes "wf_approvals st" "handle_function_post env wd t st = (out, st')"
  shows "good_step (cap_env.truncate env) t (form_one (pw_form wd) ''password'') st st'"
proof -
  let ?st1 = "fun_prune (pw_clock wd 1) st"
  note q1 = quiet_prune [OF assms(1), of "pw_clock wd 1"]
  note w1 = quiet_wf [OF q1]
  consider "quiet ?st1 st'"
    | (confirm) r where "fun_confirm_post env wd t (browser_proof (cap_env.truncate env) t (the (pw_cookie wd))) ?st1 = (r, st')"
    | (password) st2 r i where "quiet ?st1 st2" "fun_password_post env wd t (browser_proof (cap_env.truncate env) t (the (pw_cookie wd))) i st2 = (r, st')"
    using assms(2) take_quiet [OF w1] quiet_refl [OF w1]
    by (auto simp: handle_function_post_def fun_pending_request_def Let_def split: if_splits option.splits prod.splits) blast
  then show ?thesis
  proof cases
    case 1
    then show ?thesis by (rule quiet_good [OF quiet_trans [OF q1]])
  next
    case confirm
    show ?thesis by (rule quiet_then_good [OF q1 fun_good [OF w1 fun_confirm_post_step [OF wf_funD [OF w1] confirm]]])
  next
    case password
    note w2 = quiet_wf [OF password(1)]
    show ?thesis by (rule quiet_then_good [OF quiet_trans [OF q1 password(1)] fun_good [OF w2 fun_password_post_step [OF wf_funD [OF w2] password(2)]]])
  qed
qed

lemma approval_post_good:
  assumes "wf_approvals st"
  shows "good_step (cap_env.truncate env) t (form_one (pw_form wd) ''password'') st (snd (handle_approval_post env wd t st))"
proof -
  note q = quiet_prune [OF assms, of "pw_clock wd 0"]
  show ?thesis
    using quiet_then_good [OF q function_post_good [OF quiet_wf [OF q], of env wd t]] quiet_then_good [OF q capability_post_good [OF quiet_wf [OF q], of env wd t]]
    by (auto simp: handle_approval_post_def fun_pending_request_def Let_def split: option.splits) (metis prod.collapse)+
qed

section \<open>The other calls\<close>

definition forgets :: "'z grants_store_scheme \<Rightarrow> 'z grants_store_scheme \<Rightarrow> bool" where
  "forgets st st' \<longleftrightarrow> vouched st' \<subseteq> vouched st \<and> fun_vouched st' \<subseteq> fun_vouched st \<and> wf_approvals st' \<and> fun_tickets st' \<subseteq> fun_tickets st"

definition cleared :: "string \<Rightarrow> 'z grants_store_scheme \<Rightarrow> bool" where
  "cleared w st \<longleftrightarrow> (\<forall>f \<in> vouched st. fst f \<noteq> w) \<and> (\<forall>f \<in> fun_vouched st. fst f \<noteq> w)"

lemma quiet_forgets: "quiet st st' \<Longrightarrow> forgets st st'"
  by (simp add: quiet_def forgets_def)

lemma forgets_trans: "forgets st st1 \<Longrightarrow> forgets st1 st2 \<Longrightarrow> forgets st st2"
  unfolding forgets_def by (metis order_trans)

lemma revoke_workspace_vouched: "f \<in> vouched (revoke_workspace w st) \<Longrightarrow> f \<in> vouched st \<and> fst f \<noteq> w"
  by (auto simp: vouched_def revoke_workspace_def key_fields_def fields_of_def) (force simp: image_iff)+

lemma wf_cap_step: "wf_approvals st \<Longrightarrow> cap_distinct st' \<Longrightarrow> cap_store.more st' = cap_store.more st \<Longrightarrow> wf_approvals st'"
  using fun_parts_of_more [of st' st] by (simp add: wf_approvals_def fun_distinct_def)

lemma forgets_cap:
  assumes "wf_approvals st" "cap_distinct st'" "cap_store.more st' = cap_store.more st" "vouched st' \<subseteq> vouched st"
  shows "forgets st st'"
  using wf_cap_step [OF assms(1-3)] fun_parts_of_more [OF assms(3)] assms(4)
  by (simp add: forgets_def fun_vouched_def fun_tickets_def)

lemma fun_step_forgets:
  assumes "wf_approvals st" "fun_step {} st st'"
  shows "forgets st st'" "token_passwords st' = token_passwords st" "vouched st' = vouched st"
proof -
  have "cap_store.truncate st' = cap_store.truncate st" using assms(2) by (simp add: fun_step_def)
  note c = cap_parts_of_truncate [OF this]
  show v: "vouched st' = vouched st" "token_passwords st' = token_passwords st" using c by (simp_all add: vouched_def)
  show "forgets st st'" using assms c v by (auto simp: forgets_def fun_step_def wf_approvals_def cap_distinct_def)
qed

lemma fun_revoke_workspace_step:
  assumes "fun_distinct st"
  shows "fun_step {} st (fun_revoke_workspace w st)" "f \<in> fun_vouched (fun_revoke_workspace w st) \<Longrightarrow> fst f \<noteq> w"
proof -
  let ?mid = "st\<lparr>fun_active := filter (\<lambda>((owner, _), _). owner \<noteq> w) (fun_active st), fun_pending := filter (\<lambda>(_, r). fr_workspace r \<noteq> w) (fun_pending st)\<rparr>"
  have d: "fun_distinct ?mid" using assms by (auto simp: fun_distinct_def intro: distinct_map_filter)
  have "fun_step {} st ?mid"
    by (rule fun_stepI [OF _ _ d]) (auto simp: fun_tickets_def cap_store.truncate_def intro: fun_vouchedI)
  then show "fun_step {} st (fun_revoke_workspace w st)"
    unfolding fun_revoke_workspace_def by (rule fun_step_trans [OF _ drop_stale_step [OF d]])
  have "fun_vouched (fun_revoke_workspace w st) \<subseteq> {f. fst f \<noteq> w}"
    by (rule fun_vouched_subsetI) (auto simp: fun_revoke_workspace_def drop_stale_def fun_key_of_def)
  then show "f \<in> fun_vouched (fun_revoke_workspace w st) \<Longrightarrow> fst f \<noteq> w" by blast
qed

lemma revoke_both:
  assumes "wf_approvals st"
  shows "forgets st (fun_revoke_workspace w (revoke_workspace w st))" "cleared w (fun_revoke_workspace w (revoke_workspace w st))"
    "token_passwords (fun_revoke_workspace w (revoke_workspace w st)) = token_passwords st"
proof -
  let ?st1 = "revoke_workspace w st"
  have "vouched ?st1 \<subseteq> vouched st" using revoke_workspace_vouched by blast
  then have 1: "forgets st ?st1" using wf_capD [OF assms] by (intro forgets_cap [OF assms]) simp_all
  then have w1: "wf_approvals ?st1" by (simp add: forgets_def)
  note s = fun_revoke_workspace_step [OF wf_funD [OF w1], where w = w]
  note f = fun_step_forgets [OF w1 s(1)]
  show "forgets st (fun_revoke_workspace w ?st1)" by (rule forgets_trans [OF 1 f(1)])
  show "token_passwords (fun_revoke_workspace w ?st1) = token_passwords st" using f(2) by simp
  show "cleared w (fun_revoke_workspace w ?st1)"
    using s(2) revoke_workspace_vouched unfolding cleared_def f(3) by blast
qed

lemma forgets_passwords:
  assumes "wf_approvals st"
  shows "forgets st (st\<lparr>token_passwords := ps\<rparr>)" "wf_approvals (st\<lparr>token_passwords := ps\<rparr>)"
  using assms by (simp_all add: forgets_def wf_approvals_def vouched_def fun_vouched_def fun_tickets_def cap_distinct_def fun_distinct_def)

text \<open>A change of the password of \<open>w\<close>.\<close>

definition rekeyed :: "string \<Rightarrow> 'z grants_store_scheme \<Rightarrow> 'z grants_store_scheme \<Rightarrow> bool" where
  "rekeyed w st st' \<longleftrightarrow> forgets st st' \<and>
     (\<forall>v. map_of (token_passwords st') v = map_of (token_passwords st) v \<or> v = w \<and> cleared v st')"

lemma rekeyed_revoke:
  assumes "wf_approvals st" "\<And>v. v \<noteq> w \<Longrightarrow> map_of ps v = map_of (token_passwords st) v"
  shows "rekeyed w st (fun_revoke_workspace w (revoke_workspace w (st\<lparr>token_passwords := ps\<rparr>)))"
proof -
  let ?st' = "fun_revoke_workspace w (revoke_workspace w (st\<lparr>token_passwords := ps\<rparr>))"
  note r = revoke_both [OF forgets_passwords(2) [OF assms(1), of ps], of w]
  have "forgets st ?st'" by (rule forgets_trans [OF forgets_passwords(1) [OF assms(1), of ps] r(1)])
  moreover have "token_passwords ?st' = ps" using r(3) by simp
  moreover have "map_of ps v = map_of (token_passwords st) v \<or> v = w \<and> cleared v ?st'" for v
    using assms(2) r(2) by (cases "v = w") simp_all
  ultimately show ?thesis unfolding rekeyed_def by simp
qed

lemma forgets_rekeyed: "forgets st st' \<Longrightarrow> token_passwords st' = token_passwords st \<Longrightarrow> rekeyed w st st'"
  by (simp add: rekeyed_def)

lemma forgets_then_rekeyed:
  assumes "forgets st st1" "token_passwords st1 = token_passwords st" "rekeyed w st1 st2"
  shows "rekeyed w st st2"
  using assms(3) forgets_trans [OF assms(1), of st2] unfolding rekeyed_def assms(2) by simp

lemma forgets_links: "wf_approvals st \<Longrightarrow> forgets st (st\<lparr>password_setup_links := ls\<rparr>) \<and> wf_approvals (st\<lparr>password_setup_links := ls\<rparr>)"
  by (simp add: forgets_def wf_approvals_def vouched_def fun_vouched_def fun_tickets_def cap_distinct_def fun_distinct_def)

lemma set_password_rekeyed:
  assumes "wf_approvals st"
  shows "rekeyed w st (case set_password env w p salt st of (Inl _, st1) \<Rightarrow> st1 | (Inr _, st1) \<Rightarrow> fun_revoke_workspace w st1)"
proof -
  have refl: "rekeyed w st st" by (rule forgets_rekeyed [OF quiet_forgets [OF quiet_refl [OF assms]]]) simp
  moreover have "rekeyed w st (fun_revoke_workspace w (revoke_workspace w (st\<lparr>token_passwords := AList.update w h (token_passwords st)\<rparr>)))" for h
    by (rule rekeyed_revoke [OF assms]) (simp add: update_conv')
  ultimately show ?thesis by (auto simp: set_password_def split: sum.splits)
qed

lemma setup_link_forgets:
  assumes "wf_approvals st" "password_setup_workspace t now st = (r, st')"
  shows "forgets st st' \<and> token_passwords st' = token_passwords st"
  using assms(2) forgets_links [OF assms(1)] quiet_forgets [OF quiet_refl [OF assms(1)]]
  by (auto simp: password_setup_workspace_def split: option.splits if_splits)

lemma consume_link_rekeyed:
  assumes "wf_approvals st"
  shows "\<exists>w. rekeyed w st (case consume_password_setup_link env t p c salt now st of (Inl _, st1) \<Rightarrow> st1 | (Inr w, st1) \<Rightarrow> fun_revoke_workspace w st1)"
proof (cases "p = c")
  case False
  then show ?thesis using forgets_rekeyed [OF quiet_forgets [OF quiet_refl [OF assms]]] by (simp add: consume_password_setup_link_def)
next
  case True
  obtain r st1 where l: "password_setup_workspace t now st = (r, st1)" by force
  note f = setup_link_forgets [OF assms l]
  show ?thesis
  proof (cases r)
    case None
    then show ?thesis using True l f by (auto simp: consume_password_setup_link_def forgets_rekeyed)
  next
    case (Some w)
    have "rekeyed w st1 (case set_password env w p salt st1 of (Inl _, st2) \<Rightarrow> st2 | (Inr _, st2) \<Rightarrow> fun_revoke_workspace w st2)"
      by (rule set_password_rekeyed) (use f in \<open>simp add: forgets_def\<close>)
    then have "rekeyed w st (case set_password env w p salt st1 of (Inl _, st2) \<Rightarrow> st2 | (Inr _, st2) \<Rightarrow> fun_revoke_workspace w st2)"
      using f forgets_then_rekeyed by blast
    moreover have "(case consume_password_setup_link env t p c salt now st of (Inl _, s) \<Rightarrow> s | (Inr w, s) \<Rightarrow> fun_revoke_workspace w s) =
        (case set_password env w p salt st1 of (Inl _, st2) \<Rightarrow> st2 | (Inr _, st2) \<Rightarrow> fun_revoke_workspace w st2)"
      using True l Some by (cases "fst (set_password env w p salt st1)"; cases "set_password env w p salt st1")
        (simp_all add: consume_password_setup_link_def)
    ultimately show ?thesis by metis
  qed
qed

lemma request_approval_forgets:
  assumes "wf_approvals st"
  shows "forgets st (snd (request_approval a t now st)) \<and> token_passwords (snd (request_approval a t now st)) = token_passwords st"
proof -
  let ?st1 = "expire now st" let ?new = "?st1\<lparr>pending_requests := AList.update t (new_approval a now) (pending_requests ?st1)\<rparr>"
  note q = quiet_expire [OF assms, of now]
  have "vouched ?new \<subseteq> vouched ?st1"
    by (rule vouched_subsetI) (auto simp: new_approval_def intro: vouchedI dest!: AList_set_update)
  moreover have "cap_distinct ?new" using wf_capD [OF quiet_wf [OF q]] by (auto simp: cap_distinct_def distinct_update)
  ultimately have "forgets ?st1 ?new" by (intro forgets_cap [OF quiet_wf [OF q]]) simp_all
  then have "forgets st ?new" by (rule forgets_trans [OF quiet_forgets [OF q]])
  then show ?thesis using quiet_forgets [OF q] quiet_forgets [OF quiet_refl [OF assms]]
    by (auto simp: request_approval_def Let_def split: option.splits)
qed

text \<open>A function request under a ticket that is not in use adds nothing that is vouched for.\<close>

lemma fun_request_effect:
  assumes "wf_approvals st" "st' = snd (fun_ask js k rq dp rs t now st)"
  shows "vouched st' = vouched st" "token_passwords st' = token_passwords st" "wf_approvals st'"
    "fun_tickets st' \<subseteq> insert t (fun_tickets st)" "t \<notin> fun_tickets st \<Longrightarrow> fun_vouched st' \<subseteq> fun_vouched st"
proof -
  let ?st1 = "fun_prune now st"
  note q = quiet_prune [OF assms(1), of now]
  note s = fun_step_forgets [OF assms(1) fun_prune_step [OF wf_funD [OF assms(1)], of now]]
  consider "st' = st" | "st' = ?st1" | r where "st' = ?st1\<lparr>fun_pending := AList.update t r (fun_pending ?st1)\<rparr>"
    using assms(2) by (auto simp: fun_ask_def attempt_def Let_def split: prod.splits sum.splits if_splits)
  then have "vouched st' = vouched st \<and> token_passwords st' = token_passwords st \<and> wf_approvals st' \<and>
     fun_tickets st' \<subseteq> insert t (fun_tickets st) \<and> (t \<notin> fun_tickets st \<longrightarrow> fun_vouched st' \<subseteq> fun_vouched st)"
  proof cases
    case 2
    then show ?thesis using s q by (auto simp: quiet_def)
  next
    case (3 r)
    have v: "vouched st' = vouched ?st1" and d: "wf_approvals st'" and c: "confirmations st' = confirmations ?st1" "fun_active st' = fun_active ?st1"
      using quiet_wf [OF q] unfolding 3 by (auto simp: vouched_def wf_approvals_def cap_distinct_def fun_distinct_def distinct_update)
    have p: "(t', x) = (t, r) \<or> (t', x) \<in> set (fun_pending ?st1)" if "(t', x) \<in> set (fun_pending st')" for t' x
      using AList_set_update that unfolding 3 by fastforce
    have "fst ` set (fun_pending st') \<subseteq> insert t (fst ` set (fun_pending ?st1))" using p by fastforce
    then have "fun_tickets st' \<subseteq> insert t (fun_tickets ?st1)" unfolding fun_tickets_def c by auto
    moreover have "fun_vouched st' \<subseteq> fun_vouched ?st1" if "t \<notin> fun_tickets ?st1"
    proof (rule fun_vouched_subsetI)
      show "k' \<in> fun_vouched ?st1" if "(k', a) \<in> set (fun_active st')" for k' a using that by (simp add: c fun_vouchedI)
      show "fun_key_of x \<in> fun_vouched ?st1" if "(t', x) \<in> set (fun_pending st')" "t' \<in> fst ` set (confirmations st')" for t' x
      proof -
        have "t' \<noteq> t" using that(2) \<open>t \<notin> fun_tickets ?st1\<close> unfolding c fun_tickets_def by blast
        then show ?thesis using p [OF that(1)] that(2) fun_vouchedI(2) unfolding c by blast
      qed
    qed
    moreover have "token_passwords st' = token_passwords st" using s(2) unfolding 3 by simp
    moreover have "fun_tickets ?st1 \<subseteq> fun_tickets st" "fun_vouched ?st1 \<subseteq> fun_vouched st" using q by (simp_all add: quiet_def)
    ultimately have "fun_tickets st' \<subseteq> insert t (fun_tickets st)" "token_passwords st' = token_passwords st"
      "t \<notin> fun_tickets st \<longrightarrow> fun_vouched st' \<subseteq> fun_vouched st" by (blast, simp, blast)
    then show ?thesis using v s(3) d by simp
  qed (use assms(1) in \<open>simp add: subset_insertI\<close>)
  then show "vouched st' = vouched st" "token_passwords st' = token_passwords st" "wf_approvals st'"
    "fun_tickets st' \<subseteq> insert t (fun_tickets st)" "t \<notin> fun_tickets st \<Longrightarrow> fun_vouched st' \<subseteq> fun_vouched st" by blast+
qed

lemma revoke_forgets:
  assumes "wf_approvals st"
  shows "forgets st (revoke k st)"
proof (rule forgets_cap [OF assms])
  show "vouched (revoke k st) \<subseteq> vouched st" by (rule vouched_mono) (auto simp: revoke_def AList_set_delete)
qed (use wf_capD [OF assms] in simp_all)

lemma fun_revoke_step:
  assumes "fun_distinct st"
  shows "fun_step {} st (fun_revoke k st)"
proof -
  let ?mid = "st\<lparr>fun_active := AList.delete k (fun_active st), fun_pending := filter (\<lambda>(_, r). fun_key_of r \<noteq> k) (fun_pending st)\<rparr>"
  have d: "fun_distinct ?mid" using assms by (auto simp: fun_distinct_def distinct_delete intro: distinct_map_filter)
  have "fun_step {} st ?mid"
    by (rule fun_stepI [OF _ _ d]) (auto simp: AList_set_delete fun_tickets_def cap_store.truncate_def intro: fun_vouchedI)
  then show ?thesis unfolding fun_revoke_def by (rule fun_step_trans [OF _ drop_stale_step [OF d]])
qed

lemma restart_rekeyed: "rekeyed w st (empty_approvals\<lparr>token_passwords := token_passwords st\<rparr>)"
  by (simp add: rekeyed_def forgets_def wf_approvals_def vouched_def fun_vouched_def fun_tickets_def cap_distinct_def fun_distinct_def
      empty_approvals_def empty_grants_def empty_caps_def grants_store.extend_def cap_store.extend_def)

section \<open>Any call\<close>

definition issued :: "approval_call \<Rightarrow> string list" where
  "issued c = (case c of RequestFunction _ _ _ _ t _ \<Rightarrow> [t] | RequestCapability _ t _ \<Rightarrow> [t] | _ \<Rightarrow> [])"

definition fun_issued :: "approval_call \<Rightarrow> string set" where
  "fun_issued c = (case c of RequestFunction _ _ _ _ t _ \<Rightarrow> {t} | _ \<Rightarrow> {})"

definition shown :: "approval_env \<Rightarrow> approval_call \<Rightarrow> approval_state \<Rightarrow> fields set" where
  "shown env c st = (case c of Post t wd \<Rightarrow> proven (cap_env.truncate env) t (form_one (pw_form wd) ''password'') st | _ \<Rightarrow> {})"

definition fun_shown :: "approval_env \<Rightarrow> approval_call \<Rightarrow> approval_state \<Rightarrow> fun_key set" where
  "fun_shown env c st = (case c of Post t wd \<Rightarrow> fun_proven (cap_env.truncate env) t (form_one (pw_form wd) ''password'') st | _ \<Rightarrow> {})"

definition effect :: "approval_env \<Rightarrow> approval_call \<Rightarrow> approval_state \<Rightarrow> approval_state \<Rightarrow> bool" where
  "effect env c st st' \<longleftrightarrow>
     vouched st' \<subseteq> vouched st \<union> shown env c st \<and>
     (fun_issued c \<inter> fun_tickets st = {} \<longrightarrow> fun_vouched st' \<subseteq> fun_vouched st \<union> fun_shown env c st) \<and>
     wf_approvals st' \<and> fun_tickets st' \<subseteq> fun_tickets st \<union> fun_issued c \<and>
     (\<forall>w. map_of (token_passwords st') w = map_of (token_passwords st) w \<or> cleared w st')"

lemma rekeyed_effect: "rekeyed w st st' \<Longrightarrow> effect env c st st'"
  unfolding rekeyed_def forgets_def effect_def by blast

lemma forgets_effect: "forgets st st' \<Longrightarrow> token_passwords st' = token_passwords st \<Longrightarrow> effect env c st st'"
  by (rule rekeyed_effect [OF forgets_rekeyed])

lemma perform_effect:
  assumes "wf_approvals st"
  shows "effect env c st (perform env c st)"
proof (cases c)
  case (SetPassword w p salt)
  then show ?thesis using rekeyed_effect [OF set_password_rekeyed [OF assms]] by (simp add: perform_def)
next
  case (CreateLink w t now)
  then show ?thesis using forgets_links [OF assms] quiet_forgets [OF quiet_refl [OF assms]]
    by (auto simp: perform_def create_password_setup_link_def intro!: forgets_effect)
next
  case (LinkWorkspace t now)
  then show ?thesis using setup_link_forgets [OF assms, of t now] by (auto simp: perform_def prod_eq_iff intro!: forgets_effect)
next
  case (ConsumeLink t p c' salt now)
  obtain w where "rekeyed w st (perform env c st)"
    using consume_link_rekeyed [OF assms, of "cap_env.truncate env" t p c' salt now] by (auto simp: ConsumeLink perform_def)
  then show ?thesis by (rule rekeyed_effect)
next
  case (RequestCapability a t now)
  then show ?thesis using request_approval_forgets [OF assms] by (auto simp: perform_def intro!: forgets_effect)
next
  case (RequestFunction k rq dp rs t now)
  note f = fun_request_effect [OF assms refl, where js = "json_bytes env" and k = k and rq = rq and dp = dp and rs = rs and t = t and now = now]
  show ?thesis using f by (auto simp: RequestFunction perform_def effect_def fun_issued_def)
next
  case (Post t wd)
  have "good_step (cap_env.truncate env) t (form_one (pw_form wd) ''password'') st (perform env c st)"
    using approval_post_good [OF assms] by (simp add: Post perform_def)
  then show ?thesis unfolding good_step_def effect_def Post shown_def fun_shown_def by auto
next
  case (LookCapabilities now)
  then show ?thesis using quiet_expire [OF assms, of now] by (auto simp: perform_def quiet_def forgets_def intro!: forgets_effect)
next
  case (LookFunctions now)
  then show ?thesis using quiet_prune [OF assms, of now] by (auto simp: perform_def quiet_def forgets_def intro!: forgets_effect)
next
  case (RevokeCapability k)
  then show ?thesis using revoke_forgets [OF assms, of k] by (auto simp: perform_def intro!: forgets_effect)
next
  case (RevokeFunction k)
  then show ?thesis using fun_step_forgets [OF assms fun_revoke_step [OF wf_funD [OF assms], of k]]
    by (auto simp: perform_def intro!: forgets_effect)
next
  case (RevokeWorkspace w)
  then show ?thesis using revoke_both [OF assms, of w] by (auto simp: perform_def intro!: forgets_effect)
next
  case (RemoveWorkspace w)
  have "rekeyed w st (perform env c st)"
    unfolding RemoveWorkspace perform_def remove_workspace_def approval_call.case
    by (rule rekeyed_revoke [OF assms]) (simp add: delete_conv')
  then show ?thesis by (rule rekeyed_effect)
next
  case Restart
  then show ?thesis using rekeyed_effect [OF restart_rekeyed] by (simp add: perform_def)
qed

section \<open>Where grants come from\<close>

lemma run_Nil [simp]: "run env [] = empty_approvals"
  by (simp add: run_def)

lemma run_snoc [simp]: "run env (calls @ [c]) = perform env c (run env calls)"
  by (simp add: run_def)

lemma empty_approvals_simps [simp]:
  "token_passwords empty_approvals = []" "pending_requests empty_approvals = []" "active_grants empty_approvals = []"
  "fun_pending empty_approvals = []" "fun_active empty_approvals = []" "confirmations empty_approvals = []"
  "approval_buckets empty_approvals = []" "password_setup_links empty_approvals = []"
  by (simp_all add: empty_approvals_def empty_grants_def empty_caps_def grants_store.extend_def cap_store.extend_def)

lemma run_wf: "wf_approvals (run env calls)"
proof (induction calls rule: rev_induct)
  case Nil
  show ?case by (simp add: wf_approvals_def cap_distinct_def fun_distinct_def)
next
  case (snoc c calls)
  then show ?case using perform_effect [of "run env calls" env c] by (simp add: effect_def)
qed

lemma run_effect: "effect env c (run env calls) (run env (calls @ [c]))"
  using perform_effect [OF run_wf] by simp

lemma check_password_lookup:
  "map_of (token_passwords st') w = map_of (token_passwords st) w \<Longrightarrow> check_password env w p st' = check_password env w p st"
  by (simp add: check_password_def)

text \<open>
  A form with the password of the workspace was posted to a ticket for exactly this capability, and the
  password has not been changed since.
\<close>

definition evidence :: "approval_env \<Rightarrow> approval_call list \<Rightarrow> fields \<Rightarrow> bool" where
  "evidence env calls f \<longleftrightarrow>
     (\<exists>pre t wd post i. calls = pre @ Post t wd # post \<and> map_of (pending_requests (run env pre)) t = Some i \<and> fields_of i = f \<and>
        check_password (cap_env.truncate env) (fst f) (form_one (pw_form wd) ''password'') (run env pre) \<and>
        check_password (cap_env.truncate env) (fst f) (form_one (pw_form wd) ''password'') (run env calls))"

definition fun_evidence :: "approval_env \<Rightarrow> approval_call list \<Rightarrow> fun_key \<Rightarrow> bool" where
  "fun_evidence env calls f \<longleftrightarrow>
     (\<exists>pre t wd post r. calls = pre @ Post t wd # post \<and> map_of (fun_pending (run env pre)) t = Some r \<and> fun_key_of r = f \<and>
        check_password (cap_env.truncate env) (fst f) (form_one (pw_form wd) ''password'') (run env pre) \<and>
        check_password (cap_env.truncate env) (fst f) (form_one (pw_form wd) ''password'') (run env calls))"

lemma evidence_step:
  assumes "map_of (token_passwords (run env (calls @ [c]))) (fst f) = map_of (token_passwords (run env calls)) (fst f)"
  shows "evidence env calls f \<Longrightarrow> evidence env (calls @ [c]) f" "fun_evidence env calls f \<Longrightarrow> fun_evidence env (calls @ [c]) f"
    "f \<in> shown env c (run env calls) \<Longrightarrow> evidence env (calls @ [c]) f"
    "f \<in> fun_shown env c (run env calls) \<Longrightarrow> fun_evidence env (calls @ [c]) f"
proof -
  note check = check_password_lookup [OF assms]
  show "evidence env calls f \<Longrightarrow> evidence env (calls @ [c]) f" "fun_evidence env calls f \<Longrightarrow> fun_evidence env (calls @ [c]) f"
    unfolding evidence_def fun_evidence_def check by (metis append_Cons append_assoc)+
  show "evidence env (calls @ [c]) f" if "f \<in> shown env c (run env calls)"
  proof -
    from that obtain t wd i where c: "c = Post t wd" and i: "map_of (pending_requests (run env calls)) t = Some i" "f = fields_of i"
      "check_password (cap_env.truncate env) (ap_workspace i) (form_one (pw_form wd) ''password'') (run env calls)"
      by (cases c) (auto simp: shown_def proven_def)
    then show ?thesis unfolding evidence_def check
      by (intro exI [of _ calls] exI [of _ t] exI [of _ wd] exI [of _ "[]"] exI [of _ i]) (simp add: fields_of_def)
  qed
  show "fun_evidence env (calls @ [c]) f" if "f \<in> fun_shown env c (run env calls)"
  proof -
    from that obtain t wd i where c: "c = Post t wd" and i: "map_of (fun_pending (run env calls)) t = Some i" "f = fun_key_of i"
      "check_password (cap_env.truncate env) (fr_workspace i) (form_one (pw_form wd) ''password'') (run env calls)"
      by (cases c) (auto simp: fun_shown_def fun_proven_def)
    then show ?thesis unfolding fun_evidence_def check
      by (intro exI [of _ calls] exI [of _ t] exI [of _ wd] exI [of _ "[]"] exI [of _ i]) (simp add: fun_key_of_def)
  qed
qed

lemma vouched_evidence: "f \<in> vouched (run env calls) \<Longrightarrow> evidence env calls f"
proof (induction calls rule: rev_induct)
  case Nil
  then show ?case by (simp add: vouched_def)
next
  case (snoc c calls)
  note e = run_effect [of env c calls]
  from snoc.prems e have same: "map_of (token_passwords (run env (calls @ [c]))) (fst f) = map_of (token_passwords (run env calls)) (fst f)"
    unfolding effect_def cleared_def by blast
  from snoc.prems e have "f \<in> vouched (run env calls) \<or> f \<in> shown env c (run env calls)" unfolding effect_def by blast
  then show ?case using evidence_step(1,3) [OF same] snoc.IH by blast
qed

lemma fun_tickets_issued: "fun_tickets (run env calls) \<subseteq> set (concat (map issued calls))"
proof (induction calls rule: rev_induct)
  case Nil
  then show ?case by (simp add: fun_tickets_def)
next
  case (snoc c calls)
  moreover have "fun_issued c \<subseteq> set (issued c)" by (cases c) (auto simp: fun_issued_def issued_def)
  ultimately show ?case using run_effect [of env c calls] unfolding effect_def by (auto simp del: run_snoc)
qed

lemma fun_vouched_evidence:
  "distinct (concat (map issued calls)) \<Longrightarrow> f \<in> fun_vouched (run env calls) \<Longrightarrow> fun_evidence env calls f"
proof (induction calls rule: rev_induct)
  case Nil
  then show ?case by (simp add: fun_vouched_def)
next
  case (snoc c calls)
  note e = run_effect [of env c calls]
  have "fun_issued c \<subseteq> set (issued c)" by (cases c) (auto simp: fun_issued_def issued_def)
  moreover have "set (issued c) \<inter> set (concat (map issued calls)) = {}" "distinct (concat (map issued calls))" using snoc.prems(1) by auto
  ultimately have fresh: "fun_issued c \<inter> fun_tickets (run env calls) = {}" using fun_tickets_issued [of env calls] by blast
  from snoc.prems(2) e have same: "map_of (token_passwords (run env (calls @ [c]))) (fst f) = map_of (token_passwords (run env calls)) (fst f)"
    unfolding effect_def cleared_def by blast
  from snoc.prems(2) e fresh have "f \<in> fun_vouched (run env calls) \<or> f \<in> fun_shown env c (run env calls)" unfolding effect_def by blast
  then show ?case using evidence_step(2,4) [OF same] snoc.IH [OF \<open>distinct (concat (map issued calls))\<close>] by blast
qed

end
