(* ===== verification/Limit_Safety.thy ===== *)
theory Limit_Safety
  imports Attempt_Limits
begin

text \<open>
  Both limiters bound the rate of guesses.  A window budget lets through at most twice its limit in any
  window of its length, whatever the position of the window; the login limiter lets an address with
  at most \<open>k\<close> posts in flight fail at most \<open>j + 1 + k\<close> times in any \<open>j\<close> minutes of a day.
\<close>

section \<open>Window budgets\<close>

definition uses :: "string \<times> string \<Rightarrow> string \<times> string \<times> seconds \<Rightarrow> bool" where
  "uses k = (\<lambda>(a, r, _). k = (''address'', a) \<or> k = (''request'', r))"

definition limit_of :: "string \<times> string \<Rightarrow> nat" where
  "limit_of k = (if fst k = ''address'' then CONSENT_ADDRESS_ATTEMPTS else CONSENT_REQUEST_ATTEMPTS)"

definition passed :: "string \<times> string \<Rightarrow> rat \<Rightarrow> (string \<times> string \<times> seconds) list \<Rightarrow> buckets \<Rightarrow> nat" where
  "passed k T calls bs =
     length (filter (\<lambda>(c, out). out = 0 \<and> uses k c \<and> T \<le> snd (snd c) \<and> snd (snd c) < T + CONSENT_WINDOW_SECONDS)
       (zip calls (take_run calls bs)))"

definition live :: "string \<times> string \<Rightarrow> seconds \<Rightarrow> buckets \<Rightarrow> (seconds \<times> nat) option" where
  "live k now bs = (case map_of bs k of None \<Rightarrow> None | Some (u, c) \<Rightarrow> if u > now then Some (u, c) else None)"

definition counted :: "(seconds \<times> nat) option \<Rightarrow> nat" where
  "counted b = (case b of None \<Rightarrow> 0 | Some (_, c) \<Rightarrow> c)"

lemma live_filter: "distinct (map fst bs) \<Longrightarrow> map_of (filter (\<lambda>(_, u, _). u > now) bs) k = live k now bs"
  by (auto simp: live_def lookup_filtered split: option.splits)

text \<open>What an attempt leaves in the bucket of a key.\<close>

lemma take_attempt_bucket:
  assumes "distinct (map fst bs)" "take_attempt a r now bs = (out, bs')"
  shows "map_of bs' k =
      (if out = 0 \<and> uses k (a, r, now)
       then Some (case live k now bs of None \<Rightarrow> (now + CONSENT_WINDOW_SECONDS, 1) | Some (u, c) \<Rightarrow> (u, c + 1))
       else live k now bs)" (is ?goal)
    and "out = 0 \<Longrightarrow> uses k (a, r, now) \<Longrightarrow> counted (live k now bs) < limit_of k"
    and "distinct (map fst bs')"
proof -
  let ?bs1 = "filter (\<lambda>(_, u, _). u > now) bs" and ?ka = "(''address'', a)" and ?kr = "(''request'', r)"
  have d1: "distinct (map fst ?bs1)" using assms(1) by (rule distinct_map_filter)
  have live: "\<And>k. map_of ?bs1 k = live k now bs" using live_filter [OF assms(1)] by blast
  have spend: "map_of (spend k' now xs) k = (if k = k' then Some (case bucket k' now xs of (u, c) \<Rightarrow> (u, c + 1)) else map_of xs k)"
    for k k' xs by (auto simp: spend_def update_conv' split: prod.splits)
  show "distinct (map fst bs')" using assms(2) d1
    by (auto simp: take_attempt_def Let_def spend_def distinct_update split: if_splits prod.splits)
  have zero: "bs' = spend ?kr now (spend ?ka now ?bs1)" "wait ?ka CONSENT_ADDRESS_ATTEMPTS now ?bs1 \<le> 0"
    "wait ?kr CONSENT_REQUEST_ATTEMPTS now ?bs1 \<le> 0" if "out = 0"
    using assms(2) that by (auto simp: take_attempt_def Let_def CONSENT_WINDOW_SECONDS_def split: if_splits)
  have other: "bs' = ?bs1" if "out \<noteq> 0"
    using assms(2) that by (auto simp: take_attempt_def Let_def split: if_splits)
  have count: "wait k l now ?bs1 \<le> 0 \<Longrightarrow> 0 < l \<Longrightarrow> counted (live k now bs) < l" for k l
    by (auto simp: wait_def bucket_def live counted_def split: if_splits option.splits)
  show "out = 0 \<Longrightarrow> uses k (a, r, now) \<Longrightarrow> counted (live k now bs) < limit_of k"
    using count [OF zero(2)] count [OF zero(3)]
    by (auto simp: uses_def limit_of_def CONSENT_ADDRESS_ATTEMPTS_def CONSENT_REQUEST_ATTEMPTS_def)
  show ?goal
  proof (cases "out = 0")
    case True
    show ?thesis unfolding zero(1) [OF True] spend bucket_def
      by (auto simp: uses_def live True split: option.splits prod.splits)
  next
    case False
    then show ?thesis using other live by simp
  qed
qed

lemma passed_Nil [simp]: "passed k T [] bs = 0"
  by (simp add: passed_def)

lemma passed_Cons:
  "take_attempt a r now bs = (out, bs') \<Longrightarrow>
   passed k T ((a, r, now) # calls) bs =
     (if out = 0 \<and> uses k (a, r, now) \<and> T \<le> now \<and> now < T + CONSENT_WINDOW_SECONDS then 1 else 0) + passed k T calls bs'"
  by (simp add: passed_def)

lemma passed_late: "\<forall>c \<in> set calls. T + CONSENT_WINDOW_SECONDS \<le> snd (snd c) \<Longrightarrow> passed k T calls bs = 0"
proof (induction calls arbitrary: bs)
  case (Cons c calls)
  obtain a r t where c: "c = (a, r, t)" by (metis prod.exhaust)
  obtain out bs' where "take_attempt a r t bs = (out, bs')" by force
  with Cons c show ?case by (simp add: passed_Cons)
qed simp

text \<open>From the start of the window on, a bucket that outlives the window is the last one.\<close>

lemma passed_last_bucket:
  assumes "sorted (map (\<lambda>c. snd (snd c)) calls)" "\<forall>c \<in> set calls. T \<le> snd (snd c)" "distinct (map fst bs)"
    and "counted (map_of bs k) \<le> limit_of k" "\<And>u c. map_of bs k = Some (u, c) \<Longrightarrow> T + CONSENT_WINDOW_SECONDS \<le> u"
  shows "passed k T calls bs + counted (map_of bs k) \<le> limit_of k"
  using assms
proof (induction calls arbitrary: bs)
  case (Cons x calls)
  obtain a r t where x: "x = (a, r, t)" by (metis prod.exhaust)
  obtain out bs' where step: "take_attempt a r t bs = (out, bs')" by force
  note b = take_attempt_bucket(1,2) [OF Cons.prems(3) step, where k = k] take_attempt_bucket(3) [OF Cons.prems(3) step]
  show ?case
  proof (cases "t < T + CONSENT_WINDOW_SECONDS")
    case True
    have live: "live k t bs = map_of bs k"
      using Cons.prems(5) True by (cases "map_of bs k") (auto simp: live_def)
    have 1: "counted (map_of bs' k) = counted (map_of bs k) + (if out = 0 \<and> uses k x then 1 else 0)"
      unfolding b(1) live x by (auto simp: counted_def split: option.splits)
    have "T + CONSENT_WINDOW_SECONDS \<le> u" if "map_of bs' k = Some (u, c)" for u c
      using that Cons.prems(2,5) unfolding b(1) live x by (auto split: if_splits option.splits)
    moreover have "counted (map_of bs' k) \<le> limit_of k"
      using 1 b(2) Cons.prems(4) unfolding live x by auto
    ultimately have "passed k T calls bs' + counted (map_of bs' k) \<le> limit_of k"
      using Cons.IH [of bs'] Cons.prems(1,2) b(3) by simp
    with 1 show ?thesis using Cons.prems(2) unfolding x passed_Cons [OF step] by (auto split: if_splits)
  next
    case False
    then have "passed k T (x # calls) bs = 0" using Cons.prems(1) x by (intro passed_late) auto
    with Cons.prems(4) show ?thesis by simp
  qed
qed simp

lemma passed_window:
  assumes "sorted (map (\<lambda>c. snd (snd c)) calls)" "\<forall>c \<in> set calls. T \<le> snd (snd c)" "distinct (map fst bs)"
    and "counted (map_of bs k) \<le> limit_of k"
  shows "passed k T calls bs + counted (map_of bs k) \<le> 2 * limit_of k"
  using assms
proof (induction calls arbitrary: bs)
  case (Cons x calls)
  obtain a r t where x: "x = (a, r, t)" by (metis prod.exhaust)
  obtain out bs' where step: "take_attempt a r t bs = (out, bs')" by force
  note b = take_attempt_bucket(1,2) [OF Cons.prems(3) step, where k = k] take_attempt_bucket(3) [OF Cons.prems(3) step]
  show ?case
  proof (cases "live k t bs = map_of bs k")
    case True
    have 1: "counted (map_of bs' k) = counted (map_of bs k) + (if out = 0 \<and> uses k x then 1 else 0)"
      unfolding b(1) True x by (auto simp: counted_def split: option.splits)
    moreover have "counted (map_of bs' k) \<le> limit_of k" using 1 b(2) Cons.prems(4) unfolding True x by auto
    ultimately have "passed k T calls bs' + counted (map_of bs' k) \<le> 2 * limit_of k"
      using Cons.IH [of bs'] Cons.prems(1,2) b(3) by simp
    with 1 show ?thesis using Cons.prems(2) unfolding x passed_Cons [OF step] by (auto split: if_splits)
  next
    case False
    then have dead: "live k t bs = None" by (auto simp: live_def split: option.splits if_splits)
    have "passed k T (x # calls) bs \<le> passed k T calls bs' + counted (map_of bs' k)"
      unfolding x passed_Cons [OF step] b(1) dead by (simp add: counted_def)
    also have "\<dots> \<le> limit_of k"
    proof (rule passed_last_bucket)
      show "counted (map_of bs' k) \<le> limit_of k"
        unfolding b(1) dead by (simp add: counted_def limit_of_def CONSENT_ADDRESS_ATTEMPTS_def CONSENT_REQUEST_ATTEMPTS_def)
      show "T + CONSENT_WINDOW_SECONDS \<le> u" if "map_of bs' k = Some (u, c)" for u c
        using that Cons.prems(2) unfolding b(1) dead x by (auto split: if_splits)
    qed (use Cons.prems b(3) in auto)
    finally show ?thesis using Cons.prems(4) by simp
  qed
qed simp

lemma passed_any_window:
  assumes "sorted (map (\<lambda>c. snd (snd c)) calls)" "distinct (map fst bs)" "counted (map_of bs k) \<le> limit_of k"
  shows "passed k T calls bs \<le> 2 * limit_of k"
  using assms
proof (induction calls arbitrary: bs)
  case (Cons x calls)
  obtain a r t where x: "x = (a, r, t)" by (metis prod.exhaust)
  obtain out bs' where step: "take_attempt a r t bs = (out, bs')" by force
  note b = take_attempt_bucket(1,2) [OF Cons.prems(2) step, where k = k] take_attempt_bucket(3) [OF Cons.prems(2) step]
  show ?case
  proof (cases "T \<le> t")
    case True
    then have "\<forall>c \<in> set (x # calls). T \<le> snd (snd c)" using Cons.prems(1) x by auto
    with passed_window [OF Cons.prems(1) _ Cons.prems(2,3)] show ?thesis by fastforce
  next
    case False
    have "counted (live k t bs) \<le> limit_of k" using Cons.prems(3) by (auto simp: live_def counted_def split: option.splits)
    then have "counted (map_of bs' k) \<le> limit_of k"
      using b(2) unfolding b(1) x
      by (auto simp: counted_def limit_of_def CONSENT_ADDRESS_ATTEMPTS_def CONSENT_REQUEST_ATTEMPTS_def split: option.splits)
    with Cons.IH [of bs'] Cons.prems(1) b(3) False show ?thesis unfolding x passed_Cons [OF step] by simp
  qed
qed simp

section \<open>The login limiter\<close>

lemma foldl_max_ge: "foldl (\<lambda>b k. max b (f k)) b0 ks \<le> (x :: rat) \<longleftrightarrow> b0 \<le> x \<and> (\<forall>k \<in> set ks. f k \<le> x)"
  by (induction ks arbitrary: b0) auto

lemma blocked_until_le:
  assumes "blocked_until ts \<le> now" "1 \<le> j" "j + 2 \<le> length ts"
  shows "rev ts ! (j + 1) + of_nat j * 60 \<le> now"
proof -
  have "j + 2 \<in> set [INITIAL_FAILURES..<length ts + 1]" using assms(2,3) by (auto simp: INITIAL_FAILURES_def)
  then have "rev ts ! (j + 2 - 1) + of_nat (j + 2 - INITIAL_FAILURES + 1) * WINDOW_STEP_SECONDS \<le> now"
    using assms(1) unfolding blocked_until_def foldl_max_ge by blast
  then show ?thesis using assms(2) by (simp add: INITIAL_FAILURES_def WINDOW_STEP_SECONDS_def Suc_diff_le numeral_3_eq_3)
qed

lemma rev_nth_greater: "sorted ts \<Longrightarrow> n < length (filter (\<lambda>t. x < t) ts) \<Longrightarrow> x < rev ts ! n" for x :: rat
proof (induction ts)
  case (Cons t ts)
  show ?case
  proof (cases "x < t")
    case True
    have "n < length (t # ts)" using Cons.prems(2) by (meson length_filter_le less_le_trans)
    then have "rev (t # ts) ! n \<in> set (rev (t # ts))" by (intro nth_mem) simp
    with True Cons.prems(1) show ?thesis by auto
  next
    case False
    with Cons.prems have "n < length (filter (\<lambda>t. x < t) ts)" by simp
    moreover from this have "n < length ts" by (meson length_filter_le less_le_trans)
    ultimately show ?thesis using Cons.IH Cons.prems(1) by (simp add: nth_append)
  qed
qed simp

text \<open>An address that may try has failed at most \<open>j + 1\<close> times in the last \<open>j\<close> minutes.\<close>

lemma allowed_few:
  assumes "sorted hist" "blocked_until (filter (\<lambda>t. t \<ge> t0 - RETENTION_SECONDS) hist) \<le> t0"
    and "1 \<le> j" "of_nat j * 60 \<le> RETENTION_SECONDS" "t0 \<le> T"
  shows "length (filter (\<lambda>t. T - of_nat j * 60 < t) hist) \<le> j + 1"
proof (rule ccontr)
  let ?L = "filter (\<lambda>t. t \<ge> t0 - RETENTION_SECONDS) hist"
  have same: "filter (\<lambda>t. T - of_nat j * 60 < t) ?L = filter (\<lambda>t. T - of_nat j * 60 < t) hist"
    using assms(4,5) by (auto intro: filter_cong)
  assume "\<not> ?thesis"
  then have n: "j + 1 < length (filter (\<lambda>t. T - of_nat j * 60 < t) ?L)" unfolding same by simp
  then have "j + 2 \<le> length ?L" using length_filter_le [of "\<lambda>t. T - of_nat j * 60 < t" ?L] by simp
  moreover have "T - of_nat j * 60 < rev ?L ! (j + 1)" using rev_nth_greater [OF _ n] assms(1) by (simp add: sorted_wrt_filter)
  ultimately show False using blocked_until_le [OF assms(2,3)] assms(5) by simp
qed

text \<open>The stored failures of an address are the recent part of all its failures.\<close>

definition recalls :: "string \<Rightarrow> failures \<Rightarrow> seconds list \<Rightarrow> seconds \<Rightarrow> bool" where
  "recalls a fs hist now \<longleftrightarrow>
     (\<exists>c \<le> now - RETENTION_SECONDS. attempts_of a fs = filter (\<lambda>t. t \<ge> c) hist) \<and> sorted hist \<and> (\<forall>t \<in> set hist. t \<le> now)"

lemma attempts_of_update: "attempts_of a (AList.update b ts fs) = (if a = b then ts else attempts_of a fs)"
  by (simp add: attempts_of_def update_conv')

lemma attempts_of_delete: "attempts_of a (AList.delete b fs) = (if a = b then [] else attempts_of a fs)"
  by (simp add: attempts_of_def delete_conv')

lemma recent_recalls:
  assumes "recalls a fs hist now" "now \<le> t" "recent_locked b t fs = (ts, fs')"
  shows "recalls a fs' hist t" "a = b \<Longrightarrow> ts = filter (\<lambda>x. x \<ge> t - RETENTION_SECONDS) hist"
    "a = b \<Longrightarrow> attempts_of a fs' = ts"
proof -
  obtain c where c: "c \<le> now - RETENTION_SECONDS" "attempts_of a fs = filter (\<lambda>t. t \<ge> c) hist"
    using assms(1) unfolding recalls_def by blast
  have ts: "ts = filter (\<lambda>x. x \<ge> t - RETENTION_SECONDS) (attempts_of b fs)" "attempts_of b fs' = ts"
    "\<And>x. x \<noteq> b \<Longrightarrow> attempts_of x fs' = attempts_of x fs"
    using assms(3) by (auto simp: recent_locked_def Let_def attempts_of_update attempts_of_delete split: if_splits)
  show eq: "ts = filter (\<lambda>x. x \<ge> t - RETENTION_SECONDS) hist" if "a = b"
    using ts(1) c assms(2) that by (auto intro: filter_cong)
  show "attempts_of a fs' = ts" if "a = b" using ts(2) that by simp
  have "c \<le> t - RETENTION_SECONDS" using c(1) assms(2) by simp
  then have "\<exists>c \<le> t - RETENTION_SECONDS. attempts_of a fs' = filter (\<lambda>x. x \<ge> c) hist"
    using c(2) ts(2,3) eq by (cases "a = b") auto
  with assms(1,2) show "recalls a fs' hist t" unfolding recalls_def by fastforce
qed

lemma recalls_later: "recalls a fs hist now \<Longrightarrow> now \<le> t \<Longrightarrow> recalls a fs hist t"
  unfolding recalls_def by (meson diff_right_mono order_trans)

lemma failed_recalls:
  assumes "recalls a fs hist now" "now \<le> t"
  shows "recalls a (failed b t fs) (if a = b then hist @ [t] else hist) t"
proof -
  obtain ts fs' where r: "recent_locked b t fs = (ts, fs')" by force
  note rec = recent_recalls [OF assms r]
  show ?thesis
  proof (cases "a = b")
    case True
    have "filter (\<lambda>x. x \<ge> t - RETENTION_SECONDS) (hist @ [t]) = ts @ [t]"
      using rec(2) True by (simp add: RETENTION_SECONDS_def)
    moreover have "sorted (hist @ [t])" "\<forall>x \<in> set (hist @ [t]). x \<le> t"
      using assms unfolding recalls_def by (auto simp: sorted_append)
    ultimately show ?thesis using True unfolding recalls_def failed_def r by (auto simp: attempts_of_update)
  next
    case False
    then show ?thesis using rec(1) unfolding recalls_def failed_def r by (simp add: attempts_of_update)
  qed
qed

section \<open>Logins in parallel\<close>

fun event_clock :: "login_event \<Rightarrow> seconds option" where
  "event_clock (LArrive p now) = Some now"
| "event_clock (LAdvance i now later) = Some now"
| "event_clock (LPassword h) = None"

definition clock_readings :: "login_event list \<Rightarrow> seconds list" where
  "clock_readings es = List.map_filter event_clock es"

text \<open>The times at which wrong passwords of an address were recorded.\<close>

fun refusal :: "string \<Rightarrow> login_event \<times> (string \<times> login_outcome) option \<times> login_server \<Rightarrow> seconds option" where
  "refusal a (e, out, s) = (if out = Some (a, Refused) then event_clock e else None)"

definition refusals :: "string \<Rightarrow> (login_event \<times> (string \<times> login_outcome) option \<times> login_server) list \<Rightarrow> seconds list" where
  "refusals a run = List.map_filter (refusal a) run"

definition in_flight :: "string \<Rightarrow> login_server \<Rightarrow> nat" where
  "in_flight a s = length (filter (\<lambda>(p, _). lp_address p = a) (ls_flight s))"

text \<open>An address that has not logged in, with at most a number of posts in flight at any moment.\<close>

definition outside :: "string \<Rightarrow> nat \<Rightarrow> (login_event \<times> (string \<times> login_outcome) option \<times> login_server) list \<Rightarrow> bool" where
  "outside a k run \<longleftrightarrow> (\<forall>(e, out, s) \<in> set run. in_flight a s \<le> k \<and> out \<noteq> Some (a, Cleared))"

definition in_window :: "seconds \<Rightarrow> nat \<Rightarrow> seconds list \<Rightarrow> nat" where
  "in_window T j ts = length (filter (\<lambda>t. T - of_nat j * 60 < t \<and> t \<le> T) ts)"

lemma in_window_snoc: "in_window T j (ts @ [t]) = in_window T j ts + (if T - of_nat j * 60 < t \<and> t \<le> T then 1 else 0)"
  by (simp add: in_window_def)

lemma in_window_le: "in_window T j ts \<le> length (filter (\<lambda>t. T - of_nat j * 60 < t) ts)"
  unfolding in_window_def by (induction ts) auto

lemma flight_split: "i < length xs \<Longrightarrow> length (filter Q xs) = length (filter Q (take i xs @ drop (Suc i) xs)) + (if Q (xs ! i) then 1 else 0)"
proof -
  assume "i < length xs"
  then have "filter Q xs = filter Q (take i xs) @ filter Q (xs ! i # drop (Suc i) xs)"
    using arg_cong [OF id_take_nth_drop [of i xs], of "filter Q"] by simp
  then show ?thesis by simp
qed

lemma in_flight_removed:
  assumes "i < length (ls_flight s)" "ls_flight s ! i = (p, x)" "ls_flight s' = take i (ls_flight s) @ drop (Suc i) (ls_flight s)"
  shows "in_flight a s = in_flight a s' + (if lp_address p = a then 1 else 0)"
  using flight_split [OF assms(1), of "\<lambda>(p, _). lp_address p = a"] assms(2,3) by (simp add: in_flight_def)

lemma in_flight_moved:
  assumes "i < length (ls_flight s)" "ls_flight s ! i = (p, x)" "ls_flight s' = (ls_flight s)[i := (p, y)]"
  shows "in_flight a s' = in_flight a s"
proof -
  have "map fst (ls_flight s') = map fst (ls_flight s)"
    using assms by (metis fst_conv list_update_id map_update)
  moreover have "in_flight a u = length (filter (\<lambda>p. lp_address p = a) (map fst (ls_flight u)))" for u
    unfolding in_flight_def case_prod_beta' by (simp add: filter_map comp_def)
  ultimately show ?thesis by metis
qed

text \<open>
  The invariant: the failures remembered are the recent part of the history, and up to the end of the
  window the failures in it and the posts that may still fail are within the bound.
\<close>

definition within_limit :: "string \<Rightarrow> nat \<Rightarrow> seconds \<Rightarrow> nat \<Rightarrow> login_server \<Rightarrow> seconds list \<Rightarrow> seconds \<Rightarrow> bool" where
  "within_limit a k T j s hist now \<longleftrightarrow> recalls a (ls_failures s) hist now \<and> in_window T j hist \<le> j + 1 + k \<and>
     (now \<le> T \<longrightarrow> in_window T j hist + in_flight a s \<le> j + 1 + k)"

lemma within_limit_later: "within_limit a k T j s hist now \<Longrightarrow> now \<le> t \<Longrightarrow> within_limit a k T j s hist t"
  using recalls_later unfolding within_limit_def by (meson order_trans)

lemma within_limit_arrive:
  assumes w: "within_limit a k T j s hist now" "now \<le> t" and h: "login_arrive p t s = (out, s')"
    and j: "1 \<le> j" "of_nat j * 60 \<le> RETENTION_SECONDS" and few: "in_flight a s' \<le> k"
  shows "within_limit a k T j s' hist t"
proof -
  obtain retry fs where r: "retry_after (lp_address p) t (ls_failures s) = (retry, fs)" by force
  then obtain ts where ts: "recent_locked (lp_address p) t (ls_failures s) = (ts, fs)" "retry = 0 \<longrightarrow> blocked_until ts \<le> t"
    by (auto simp: retry_after_def Let_def split: prod.splits if_splits)
  have old: "recalls a (ls_failures s) hist now" "in_window T j hist \<le> j + 1 + k" using w(1) by (simp_all add: within_limit_def)
  note rec = recent_recalls [OF old(1) w(2) ts(1)]
  have fs: "ls_failures s' = fs" using h r by (auto simp: login_arrive_def split: if_splits)
  have "in_window T j hist + in_flight a s' \<le> j + 1 + k" if "t \<le> T"
  proof (cases "retry = 0 \<and> lp_address p = a")
    case True
    then have "length (filter (\<lambda>x. T - of_nat j * 60 < x) hist) \<le> j + 1"
      using allowed_few [OF _ _ j that, of hist] rec(1,2) ts(2) by (simp add: recalls_def)
    with in_window_le [of T j hist] few show ?thesis by simp
  next
    case False
    then have "in_flight a s' = in_flight a s" using h r by (auto simp: login_arrive_def in_flight_def split: if_splits)
    with w that show ?thesis by (auto simp: within_limit_def)
  qed
  with rec(1) old(2) fs show ?thesis by (simp add: within_limit_def)
qed

text \<open>A section of a post in flight either records a failure, clears the failures, or leaves them alone.\<close>

lemma advance_cases:
  assumes "login_step kdf admin (LAdvance i t later) s = (out, s')"
  obtains (idle) "ls_failures s' = ls_failures s" "in_flight a s' \<le> in_flight a s" "\<And>b. out \<noteq> Some (b, Refused)"
    | (refused) b where "out = Some (b, Refused)" "ls_failures s' = failed b t (ls_failures s)"
        "in_flight a s = in_flight a s' + (if b = a then 1 else 0)"
    | (cleared) b where "out = Some (b, Cleared)" "ls_failures s' = succeeded b (ls_failures s)" "in_flight a s' \<le> in_flight a s"
proof (cases "i < length (ls_flight s)")
  case False
  with assms show ?thesis by (intro idle) auto
next
  case True
  obtain p x where px: "ls_flight s ! i = (p, x)" by force
  obtain o' n s1 where adv: "login_advance kdf admin p x t later s = (o', n, s1)" by (cases "login_advance kdf admin p x t later s")
  have out: "out = Some (lp_address p, o')" and fails: "ls_failures s' = ls_failures s1"
    using assms True px adv by (auto split: option.splits)
  have gone: "in_flight a s = in_flight a s' + (if lp_address p = a then 1 else 0)" if "n = None"
    using assms True px adv that by (intro in_flight_removed [OF True px]) auto
  have moved: "in_flight a s' = in_flight a s" if "n = Some y" for y
    using assms True px adv that by (intro in_flight_moved [OF True px, where y = y]) auto
  have le: "in_flight a s' \<le> in_flight a s" using gone moved by (cases n) auto
  show ?thesis
  proof (cases x)
    case Verify
    then show ?thesis using adv out fails le by (intro idle) (auto simp: login_advance_def split: if_splits)
  next
    case Fail
    then show ?thesis using adv out fails gone by (intro refused) (auto simp: login_advance_def)
  next
    case Upgrade
    then show ?thesis using adv out fails le by (intro idle) (auto simp: login_advance_def)
  next
    case Succeed
    then show ?thesis using adv out fails le by (intro cleared) (auto simp: login_advance_def)
  next
    case Enter
    then show ?thesis using adv out fails le by (intro idle) (auto simp: login_advance_def split: prod.splits)
  qed
qed

lemma within_limit_advance:
  assumes w: "within_limit a k T j s hist now" "now \<le> t" and h: "login_step kdf admin (LAdvance i t later) s = (out, s')"
    and n: "out \<noteq> Some (a, Cleared)"
  shows "within_limit a k T j s' (if out = Some (a, Refused) then hist @ [t] else hist) t"
proof -
  have w': "within_limit a k T j s hist t" by (rule within_limit_later [OF w])
  show ?thesis
    using h
  proof (cases rule: advance_cases [where a = a])
    case idle
    then show ?thesis using w' by (auto simp: within_limit_def)
  next
    case (refused b)
    have "recalls a (ls_failures s') (if a = b then hist @ [t] else hist) t"
      using failed_recalls [of a "ls_failures s" hist t t b] w' refused(2) by (simp add: within_limit_def)
    then show ?thesis using w' refused(1,3) by (auto simp: within_limit_def in_window_snoc)
  next
    case (cleared b)
    then have "attempts_of a (ls_failures s') = attempts_of a (ls_failures s)" using n by (simp add: succeeded_def attempts_of_delete)
    then have "recalls a (ls_failures s') hist t" using w' by (simp add: within_limit_def recalls_def)
    then show ?thesis using w' cleared(1,3) by (auto simp: within_limit_def)
  qed
qed

lemma login_run_limit:
  assumes "within_limit a k T j s hist now" "sorted (now # clock_readings es)" "outside a k (login_run kdf admin es s)"
    and "1 \<le> j" "of_nat j * 60 \<le> RETENTION_SECONDS"
  shows "in_window T j (hist @ refusals a (login_run kdf admin es s)) \<le> j + 1 + k"
  using assms
proof (induction es arbitrary: s hist now)
  case Nil
  then show ?case by (simp add: refusals_def within_limit_def)
next
  case (Cons e es)
  obtain out s' where h: "login_step kdf admin e s = (out, s')" by force
  have o: "in_flight a s' \<le> k" "out \<noteq> Some (a, Cleared)" "outside a k (login_run kdf admin es s')"
    using Cons.prems(3) h by (auto simp: outside_def)
  have run: "refusals a (login_run kdf admin (e # es) s) = refusals a [(e, out, s')] @ refusals a (login_run kdf admin es s')"
    using h by (simp add: refusals_def List.map_filter_def)
  show ?case
  proof (cases e)
    case (LArrive p t)
    have t: "now \<le> t" "sorted (t # clock_readings es)" using Cons.prems(2) by (auto simp: LArrive clock_readings_def)
    obtain out1 where a: "login_arrive p t s = (out1, s')" "out = Some (lp_address p, out1)" using h LArrive by (auto split: prod.splits)
    then have "out1 \<noteq> Refused" by (auto simp: login_arrive_def split: prod.splits if_splits)
    then have "refusals a [(e, out, s')] = []" using a(2) by (simp add: refusals_def)
    with Cons.IH [OF within_limit_arrive [OF Cons.prems(1) t(1) a(1) Cons.prems(4,5) o(1)] t(2) o(3) Cons.prems(4,5)] run
    show ?thesis by simp
  next
    case (LAdvance i t later)
    have t: "now \<le> t" "sorted (t # clock_readings es)" using Cons.prems(2) by (auto simp: LAdvance clock_readings_def)
    have "refusals a [(e, out, s')] = (if out = Some (a, Refused) then [t] else [])" by (simp add: refusals_def LAdvance)
    with Cons.IH [OF within_limit_advance [OF Cons.prems(1) t(1) h [unfolded LAdvance] o(2)] t(2) o(3) Cons.prems(4,5)] run
    show ?thesis by (auto split: if_splits)
  next
    case (LPassword pw)
    then have s': "s' = s\<lparr>ls_hash := pw\<rparr>" "out = None" using h by auto
    have "within_limit a k T j s' hist now" using Cons.prems(1) by (simp add: s' within_limit_def in_flight_def)
    moreover have "refusals a [(e, out, s')] = []" by (simp add: s' refusals_def)
    ultimately show ?thesis using Cons.IH [OF _ _ o(3) Cons.prems(4,5)] Cons.prems(2) run by (simp add: LPassword clock_readings_def)
  qed
qed

end
