(* ===== verification/Approval_Properties.thy ===== *)
theory Approval_Properties
  imports Approval_Lifecycle Limit_Safety
begin

text \<open>
  The properties of passwords, attempt limits and approvals, with a short history (a password is set,
  an unsandboxed Shell is requested, the form is posted) on which they are applied.
\<close>

section \<open>Passwords and attempts\<close>

text \<open>
  C14: A stored password hash is read back.  When PBKDF2 gives keys of the requested length, the
  text that \<open>hash_password\<close> writes for a password is a supported hash that needs no upgrade, and another
  password verifies against it exactly when PBKDF2 gives the same key for it under the stored salt.
\<close>

theorem password_hash_round_trip:
  assumes "\<And>p s i n. length (kdf p s i n) = n" "length salt = PASSWORD_SALT_BYTES" "min_length \<le> length password"
  shows "\<exists>h. hash_password kdf salt min_length password = Inr h \<and> is_password_hash_supported h \<and>
    \<not> password_hash_needs_upgrade h \<and>
    (\<forall>q. verify_password kdf q h \<longleftrightarrow> kdf q salt 600000 32 = kdf password salt 600000 32)"
proof -
  obtain h where h: "hash_password kdf salt min_length password = Inr h" using assms(3) by (simp add: hash_password_def Let_def)
  from hash_password_Inr [OF assms(1,2) h] show ?thesis
    unfolding h using assms(1) [of password salt 600000 32]
    by (simp add: is_password_hash_supported_def password_hash_needs_upgrade_def verify_password_def
        PASSWORD_HASH_ITERATIONS_def PASSWORD_DIGEST_BYTES_def)
qed

definition demo_kdf :: kdf where
  "demo_kdf p s i n = take n (p @ replicate n (CHR ''x''))"

lemma length_demo_kdf: "length (demo_kdf p s i n) = n"
  by (simp add: demo_kdf_def)

theorem password_hash_round_trip_witness:
  "\<exists>h. hash_password demo_kdf (replicate 16 (CHR ''s'')) 6 ''secret'' = Inr h \<and>
    verify_password demo_kdf ''secret'' h \<and> \<not> verify_password demo_kdf ''guess!'' h"
proof -
  have "length (replicate 16 (CHR ''s'')) = PASSWORD_SALT_BYTES" "6 \<le> length ''secret''" by (simp_all add: PASSWORD_SALT_BYTES_def)
  from password_hash_round_trip [of demo_kdf, OF length_demo_kdf this]
  obtain h where h: "hash_password demo_kdf (replicate 16 (CHR ''s'')) 6 ''secret'' = Inr h"
    "\<And>q. verify_password demo_kdf q h \<longleftrightarrow> demo_kdf q (replicate 16 (CHR ''s'')) 600000 32 = demo_kdf ''secret'' (replicate 16 (CHR ''s'')) 600000 32"
    by blast
  have "demo_kdf ''guess!'' (replicate 16 (CHR ''s'')) 600000 32 \<noteq> demo_kdf ''secret'' (replicate 16 (CHR ''s'')) 600000 32"
    by (simp add: demo_kdf_def)
  with h show ?thesis by blast
qed


definition demo_post :: login_post where
  "demo_post = \<lparr>lp_address = ''1.2.3.4'', lp_username = ''root'', lp_password = ''password'', lp_ids = (''s'', ''c''),
     lp_salt = [], lp_saved = False\<rparr>"

definition demo_login :: login_server where
  "demo_login = \<lparr>ls_failures = [], ls_sessions = [], ls_hash = [], ls_flight = []\<rparr>"





text \<open>The bound has to grow with the posts in flight: five posts that arrive together are all checked, although three failures are meant to block.\<close>

definition demo_parallel :: "login_event list" where
  "demo_parallel = replicate 5 (LArrive demo_post 0) @ concat (replicate 5 [LAdvance 0 1 1, LAdvance 0 1 1])"

lemma parallel_logins_checked:
  "refusals ''1.2.3.4'' (login_run demo_kdf ''admin'' demo_parallel demo_login) = [1, 1, 1, 1, 1]"
  by code_simp

text \<open>
  The attempt budget of approval and consent forms.  In any window of 60 seconds at most 10
  attempts for one workspace or request, and at most 20 of one address, are let through.
\<close>

theorem consent_attempts_bounded:
  assumes "sorted (map (\<lambda>(_, _, t). t) calls)"
  shows "length (filter (\<lambda>((_, r, t), out). out = 0 \<and> rid = r \<and> T \<le> t \<and> t < T + 60) (zip calls (take_run calls []))) \<le> 10 \<and>
    length (filter (\<lambda>((a, _, t), out). out = 0 \<and> address = a \<and> T \<le> t \<and> t < T + 60) (zip calls (take_run calls []))) \<le> 20"
proof -
  have s: "sorted (map (\<lambda>c. snd (snd c)) calls)" using assms by (simp add: case_prod_unfold)
  have "passed (''request'', rid) T calls [] \<le> 10" "passed (''address'', address) T calls [] \<le> 20"
    using passed_any_window [OF s, of "[]" "(''request'', rid)" T] passed_any_window [OF s, of "[]" "(''address'', address)" T]
    by (simp_all add: counted_def limit_of_def CONSENT_ADDRESS_ATTEMPTS_def CONSENT_REQUEST_ATTEMPTS_def)
  then show ?thesis unfolding passed_def
    by (simp add: uses_def case_prod_unfold CONSENT_WINDOW_SECONDS_def)
qed

theorem consent_attempts_bounded_witness:
  "take_run (replicate 6 (''a'', ''r'', 0 :: rat)) [] = [0, 0, 0, 0, 0, 60] \<and>
   length (filter (\<lambda>((_, r, t), out). out = 0 \<and> ''r'' = r \<and> 0 \<le> t \<and> t < 0 + 60)
     (zip (replicate 6 (''a'', ''r'', 0 :: rat)) (take_run (replicate 6 (''a'', ''r'', 0 :: rat)) []))) \<le> 10"
proof
  show "take_run (replicate 6 (''a'', ''r'', 0 :: rat)) [] = [0, 0, 0, 0, 0, 60]" by code_simp
  have "sorted (map (\<lambda>(_, _, t). t) (replicate 6 (''a'', ''r'', 0 :: rat)))" by simp
  from consent_attempts_bounded [OF this]
  show "length (filter (\<lambda>((_, r, t), out). out = 0 \<and> ''r'' = r \<and> 0 \<le> t \<and> t < 0 + 60)
     (zip (replicate 6 (''a'', ''r'', 0 :: rat)) (take_run (replicate 6 (''a'', ''r'', 0 :: rat)) []))) \<le> 10" by blast
qed

section \<open>Approvals\<close>

text \<open>
  C11: A temporary capability exists only by the password of its workspace.  Whenever, after any
  sequence of requests, forms, queries, revocations, password changes and restarts, \<open>granted\<close> answers
  yes for a workspace, conversation, target, capability and path, there was a form posted to a ticket
  that was pending for exactly this workspace, conversation, target and capability, the form carried
  the workspace password of that moment, and that password is still the one of the workspace.
\<close>

theorem capability_grant_needs_password:
  assumes "fst (granted (w, conversation, target, capability, path) now (run env calls))" "0 \<le> now"
  shows "\<exists>pre ticket wd post item. calls = pre @ Post ticket wd # post \<and>
    map_of (pending_requests (run env pre)) ticket = Some item \<and> ap_workspace item = w \<and> ap_conversation item = conversation \<and>
    ap_target item = target \<and> ap_capability item = capability \<and>
    check_password (cap_env.truncate env) w (form_one (pw_form wd) ''password'') (run env pre) \<and>
    check_password (cap_env.truncate env) w (form_one (pw_form wd) ''password'') (run env calls)"
proof -
  let ?k = "(w, conversation, target, capability, path)"
  from assms have "map_of (active_grants (expire now (run env calls))) ?k \<noteq> None"
    by (auto simp: granted_def Let_def split: option.splits)
  then obtain e where "(?k, e) \<in> set (active_grants (run env calls))" using map_of_mem by (fastforce simp: expire_def)
  then have "(w, conversation, target, capability) \<in> vouched (run env calls)" using vouchedI(1) by (fastforce simp: key_fields_def)
  then have "evidence env calls (w, conversation, target, capability)" by (rule vouched_evidence)
  then show ?thesis unfolding evidence_def fields_of_def by auto
qed

definition demo_env :: approval_env where
  "demo_env = \<lparr>kdf_of = demo_kdf, hmac_hex = (\<lambda>_. replicate 64 (CHR ''a'')), json_bytes = (\<lambda>_. Some 100)\<rparr>"

definition demo_args :: approval_args where
  "demo_args = \<lparr>aa_workspace = ''w'', aa_conversation = 1, aa_target = ''server'', aa_capability = ''shell.unsandboxed'',
     aa_path = [], aa_reason = ''why'', aa_original = [], aa_resolved = [], aa_directory = True\<rparr>"

definition demo_ticket :: string where
  "demo_ticket = replicate 32 (CHR ''t'')"

definition demo_world :: post_world where
  "demo_world = \<lparr>pw_secure = True, pw_cookie = Some ''c'',
     pw_form = [(''csrf'', [replicate 64 (CHR ''a'')]), (''password'', [''secret'']), (''minutes'', [''10''])],
     pw_too_large = False, pw_same_origin = True, pw_address = ''1.2.3.4'', pw_bound = True, pw_still_bound = True,
     pw_resolve = (\<lambda>_. None), pw_grant = (\<lambda>_ _ _. Inl OSError), pw_clock = (\<lambda>i. 10 + of_nat i)\<rparr>"

definition demo_calls :: "approval_call list" where
  "demo_calls = [SetPassword ''w'' ''secret'' (replicate 16 (CHR ''s'')), RequestCapability demo_args demo_ticket 5, Post demo_ticket demo_world]"

definition demo_hash :: string where
  "demo_hash = (case hash_password demo_kdf (replicate 16 (CHR ''s'')) 6 ''secret'' of Inl _ \<Rightarrow> [] | Inr h \<Rightarrow> h)"

lemma demo_hash: "hash_password demo_kdf (replicate 16 (CHR ''s'')) 6 ''secret'' = Inr demo_hash" "verify_password demo_kdf ''secret'' demo_hash"
proof -
  obtain h where h: "hash_password demo_kdf (replicate 16 (CHR ''s'')) 6 ''secret'' = Inr h" by (simp add: hash_password_def Let_def)
  then show 1: "hash_password demo_kdf (replicate 16 (CHR ''s'')) 6 ''secret'' = Inr demo_hash" by (simp add: demo_hash_def)
  from hash_password_Inr [OF length_demo_kdf _ 1] show "verify_password demo_kdf ''secret'' demo_hash"
    by (simp add: PASSWORD_SALT_BYTES_def verify_password_def length_demo_kdf)
qed

definition demo_requested :: approval_state where
  "demo_requested = empty_approvals\<lparr>token_passwords := [(''w'', demo_hash)], pending_requests := [(demo_ticket, new_approval demo_args 5)]\<rparr>"

lemma demo_run_requested:
  "run demo_env [SetPassword ''w'' ''secret'' (replicate 16 (CHR ''s'')), RequestCapability demo_args demo_ticket 5] = demo_requested"
proof -
  have 1: "perform demo_env (SetPassword ''w'' ''secret'' (replicate 16 (CHR ''s''))) empty_approvals = empty_approvals\<lparr>token_passwords := [(''w'', demo_hash)]\<rparr>"
    by (simp add: perform_def set_password_def demo_env_def cap_env.truncate_def demo_hash(1) revoke_workspace_def fun_revoke_workspace_def drop_stale_def)
  have "request_error demo_args = None"
    by (simp add: request_error_def demo_args_def CAPABILITIES_def bad_shown_path_def odd_reason_def MAX_APPROVAL_REASON_CHARS_def)
  then have 2: "perform demo_env (RequestCapability demo_args demo_ticket 5) (empty_approvals\<lparr>token_passwords := [(''w'', demo_hash)]\<rparr>) = demo_requested"
    by (simp add: perform_def request_approval_def expire_def Let_def MAX_PENDING_PER_TOKEN_def demo_requested_def)
  show ?thesis by (simp add: run_def 1 2)
qed

lemma demo_form:
  "form_one (pw_form demo_world) ''password'' = ''secret''" "form_one (pw_form demo_world) ''confirm'' = []"
  "form_one (pw_form demo_world) ''csrf'' = replicate 64 (CHR ''a'')" "form_seconds (pw_form demo_world) = Inr 600"
  "approval_form_ok (pw_form demo_world)"
  by (simp_all add: demo_world_def form_one_def form_seconds_def approval_form_ok_def int_of_text_def strip_def lstrip_def is_space_def
      ascii_digit_def digits_value_def digit_value_def)

lemma demo_browser: "verify_browser (cap_env.truncate demo_env) demo_ticket (pw_cookie demo_world) (replicate 64 (CHR ''a''))"
  by (simp add: verify_browser_def demo_world_def demo_env_def browser_proof_def cap_env.truncate_def list_all_iff hex_char_def)

lemma demo_ticket_ok: "length demo_ticket = 32 \<and> list_all ticket_char demo_ticket"
  by (simp add: demo_ticket_def list_all_iff ticket_char_def b64_alphabet_def)

lemma demo_take: "take_approval_attempt ''1.2.3.4'' ''w'' 12 demo_requested =
    (0, demo_requested\<lparr>approval_buckets := [((''address'', ''1.2.3.4''), 72, 1), ((''request'', ''workspace:w''), 72, 1)]\<rparr>)"
  by (simp add: take_approval_attempt_def take_attempt_def demo_requested_def Let_def wait_def bucket_def spend_def
      CONSENT_WINDOW_SECONDS_def MAX_CONSENT_BUCKETS_def CONSENT_ADDRESS_ATTEMPTS_def CONSENT_REQUEST_ATTEMPTS_def)

definition demo_approved :: approval_state where
  "demo_approved = demo_requested\<lparr>pending_requests := [], active_grants := [((''w'', 1, ''server'', ''shell.unsandboxed'', []), 614)],
     approval_buckets := [((''address'', ''1.2.3.4''), 72, 1), ((''request'', ''workspace:w''), 72, 1)]\<rparr>"

lemma demo_item: "ap_workspace (new_approval demo_args 5) = ''w''" "ap_path (new_approval demo_args 5) = []"
  "ap_deadline (new_approval demo_args 5) = 1805" "ap_attempts (new_approval demo_args 5) = 0"
  "key_of (new_approval demo_args 5) = (''w'', 1, ''server'', ''shell.unsandboxed'', [])"
  by (simp_all add: new_approval_def demo_args_def key_of_def PENDING_SECONDS_def)

lemma demo_expire: "now < 1805 \<Longrightarrow> expire now (demo_requested\<lparr>approval_buckets := bs\<rparr>) = demo_requested\<lparr>approval_buckets := bs\<rparr>"
  "now < 1805 \<Longrightarrow> expire now demo_requested = demo_requested"
  by (simp_all add: expire_def demo_requested_def demo_item)

lemma demo_clock: "pw_clock demo_world i = 10 + of_nat i"
  by (simp add: demo_world_def)

lemma demo_password_post:
  "capability_form_post demo_env demo_world demo_ticket c (new_approval demo_args 5)
     (demo_requested\<lparr>approval_buckets := [((''address'', ''1.2.3.4''), 72, 1), ((''request'', ''workspace:w''), 72, 1)]\<rparr>) = (Inr (), demo_approved)"
proof -
  have "check_password (cap_env.truncate demo_env) ''w'' ''secret'' (demo_requested\<lparr>approval_buckets := bs\<rparr>)" for bs
    by (simp add: check_password_def demo_requested_def demo_env_def cap_env.truncate_def demo_hash(2))
  moreover have "pending_requests (demo_requested\<lparr>approval_buckets := bs\<rparr>) = [(demo_ticket, new_approval demo_args 5)]" for bs
    by (simp add: demo_requested_def)
  ultimately show ?thesis
    by (simp add: capability_form_post_def demo_form demo_item password_post_def approve_def Let_def demo_clock demo_expire MAX_SECONDS_def MAX_ATTEMPTS_def)
      (simp add: demo_requested_def demo_approved_def demo_item activate_def drop_pending_def)
qed

lemma demo_post_approved: "handle_approval_post demo_env demo_world demo_ticket demo_requested = (Page 200, demo_approved)"
proof -
  have prune: "fun_prune now demo_requested = demo_requested" for now
    by (simp add: fun_prune_def drop_stale_def prune_active_def demo_requested_def)
  have pend: "fun_pending demo_requested = []" "pending_requests demo_requested = [(demo_ticket, new_approval demo_args 5)]"
    by (simp_all add: demo_requested_def)
  have world: "pw_secure demo_world" "pw_bound demo_world" "\<not> pw_too_large demo_world" "pw_same_origin demo_world" "pw_still_bound demo_world"
    "pw_address demo_world = ''1.2.3.4''" by (simp_all add: demo_world_def)
  show ?thesis
    by (simp add: handle_approval_post_def fun_pending_request_def prune pend handle_capability_post_def world demo_ticket_ok pending_def
        demo_clock demo_expire demo_form demo_browser demo_item demo_take demo_password_post approval_page_def del: One_nat_def)
qed

lemma demo_granted: "fst (granted (''w'', 1, ''server'', ''shell.unsandboxed'', []) 100 (run demo_env demo_calls))"
proof -
  have "run demo_env demo_calls = perform demo_env (Post demo_ticket demo_world) demo_requested"
    using run_snoc [of demo_env "[SetPassword ''w'' ''secret'' (replicate 16 (CHR ''s'')), RequestCapability demo_args demo_ticket 5]" "Post demo_ticket demo_world"]
    unfolding demo_run_requested by (simp add: demo_calls_def del: run_snoc)
  also have "\<dots> = demo_approved" by (simp add: perform_def demo_post_approved)
  finally show ?thesis by (simp add: granted_def expire_def demo_approved_def)
qed

theorem capability_grant_needs_password_witness:
  "\<exists>pre wd post. demo_calls = pre @ Post demo_ticket wd # post \<and>
    check_password (cap_env.truncate demo_env) ''w'' (form_one (pw_form wd) ''password'') (run demo_env pre)"
proof -
  from capability_grant_needs_password [OF demo_granted] obtain pre ticket wd post where
    "demo_calls = pre @ Post ticket wd # post" "check_password (cap_env.truncate demo_env) ''w'' (form_one (pw_form wd) ''password'') (run demo_env pre)"
    by auto
  moreover from this have "ticket = demo_ticket"
    by (auto simp: demo_calls_def Cons_eq_append_conv)
  ultimately show ?thesis by blast
qed

text \<open>
  C12: The same holds of the authorization of a function, provided the server never issues one
  ticket twice: while \<open>current\<close> answers an authorization for a workspace, conversation, target and
  function, a form was posted to a ticket pending for exactly these, with the workspace password of
  that moment, which is still the password of the workspace.
\<close>

theorem function_grant_needs_password:
  assumes "distinct (concat (map issued calls))"
    and "fst (fun_current (json_bytes env) (w, conversation, target, function) now (run env calls)) = Inr (Some auth)"
  shows "\<exists>pre ticket wd post r. calls = pre @ Post ticket wd # post \<and>
    map_of (fun_pending (run env pre)) ticket = Some r \<and> fr_workspace r = w \<and> fr_conversation r = conversation \<and>
    fr_target r = target \<and> fr_function r = function \<and>
    check_password (cap_env.truncate env) w (form_one (pw_form wd) ''password'') (run env pre) \<and>
    check_password (cap_env.truncate env) w (form_one (pw_form wd) ''password'') (run env calls)"
proof -
  let ?k = "(w, conversation, target, function)"
  from assms(2) obtain a where "map_of (fun_active (fun_prune now (run env calls))) ?k = Some a"
    by (auto simp: fun_current_def Let_def split: option.splits)
  then have "(?k, a) \<in> set (prune_active now (fun_active (run env calls)))" using map_of_mem by (fastforce simp: fun_prune_def drop_stale_def)
  then have "?k \<in> fst ` set (fun_active (run env calls))" using prune_active_keys by fastforce
  then have "?k \<in> fun_vouched (run env calls)" by (simp add: fun_vouched_def)
  then have "fun_evidence env calls ?k" by (rule fun_vouched_evidence [OF assms(1)])
  then show ?thesis unfolding fun_evidence_def fun_key_of_def by auto
qed

definition demo_auth :: pyval where
  "demo_auth = PDict [(''grants'', PList [PDict [(''expires_at'', PInt 1000)]])]"

definition demo_fun_world :: post_world where
  "demo_fun_world = demo_world\<lparr>pw_grant := (\<lambda>_ _ _. Inr demo_auth)\<rparr>"

definition demo_fun_request :: fun_request where
  "demo_fun_request = \<lparr>fr_workspace = ''w'', fr_conversation = 1, fr_target = ''server'', fr_function = ''shell.exec'', fr_request = PNone,
     fr_display = PNone, fr_deadline = 1805, fr_reason = ''why'', fr_attempts = 0\<rparr>"

definition demo_fun_calls :: "approval_call list" where
  "demo_fun_calls = [SetPassword ''w'' ''secret'' (replicate 16 (CHR ''s'')),
     RequestFunction (''w'', 1, ''server'', ''shell.exec'') PNone PNone ''why'' demo_ticket 5, Post demo_ticket demo_fun_world]"

definition demo_fun_requested :: approval_state where
  "demo_fun_requested = empty_approvals\<lparr>token_passwords := [(''w'', demo_hash)], fun_pending := [(demo_ticket, demo_fun_request)]\<rparr>"

definition demo_fun_approved :: approval_state where
  "demo_fun_approved = demo_fun_requested\<lparr>fun_pending := [],
     fun_active := [((''w'', 1, ''server'', ''shell.exec''), \<lparr>fa_auth = demo_auth, fa_deadlines = [676], fa_revision = 1\<rparr>)],
     approval_buckets := [((''address'', ''1.2.3.4''), 72, 1), ((''request'', ''workspace:w''), 72, 1)]\<rparr>"

lemma demo_fun_run_requested:
  "run demo_env (take 2 demo_fun_calls) = demo_fun_requested"
proof -
  have 1: "perform demo_env (SetPassword ''w'' ''secret'' (replicate 16 (CHR ''s''))) empty_approvals = empty_approvals\<lparr>token_passwords := [(''w'', demo_hash)]\<rparr>"
    by (simp add: perform_def set_password_def demo_env_def cap_env.truncate_def demo_hash(1) revoke_workspace_def fun_revoke_workspace_def drop_stale_def)
  have "perform demo_env (RequestFunction (''w'', 1, ''server'', ''shell.exec'') PNone PNone ''why'' demo_ticket 5)
      (empty_approvals\<lparr>token_passwords := [(''w'', demo_hash)]\<rparr>) = demo_fun_requested"
    by (simp add: perform_def fun_ask_def json_copy_def demo_env_def fun_prune_def drop_stale_def prune_active_def Let_def
        demo_fun_requested_def demo_fun_request_def PENDING_SECONDS_def)
  with 1 show ?thesis by (simp add: run_def demo_fun_calls_def)
qed

lemma demo_fun_prune:
  "now < 1805 \<Longrightarrow> fun_prune now (demo_fun_requested\<lparr>approval_buckets := bs\<rparr>) = demo_fun_requested\<lparr>approval_buckets := bs\<rparr>"
  "now < 1805 \<Longrightarrow> fun_prune now demo_fun_requested = demo_fun_requested"
  "now < 676 \<Longrightarrow> fun_prune now demo_fun_approved = demo_fun_approved"
  by (simp_all add: fun_prune_def drop_stale_def prune_active_def demo_fun_requested_def demo_fun_approved_def demo_fun_request_def live_auth_def
      grant_items_def demo_auth_def dict_get_def)

lemma demo_candidate:
  "candidate (json_bytes demo_env) (\<lambda>_ _ _. Inr demo_auth) demo_fun_request 600 16 17 (demo_fun_requested\<lparr>approval_buckets := bs\<rparr>) =
    Inr (None, demo_auth, [676])"
proof -
  have "validated_auth demo_auth = Inr demo_auth"
    by (simp add: validated_auth_def demo_auth_def dict_get_def expires_at_def)
  moreover have "deadlines None (grant_items demo_auth) 16 600 = [676]"
    by code_simp
  moreover have "fun_active (demo_fun_requested\<lparr>approval_buckets := bs\<rparr>) = []" by (simp add: demo_fun_requested_def)
  moreover have "json_copy (json_bytes demo_env) v = Inr v" for v by (simp add: json_copy_def demo_env_def)
  ultimately show ?thesis by (simp add: candidate_def Let_def)
qed

lemma demo_fun_post_approved: "handle_approval_post demo_env demo_fun_world demo_ticket demo_fun_requested = (Page 200, demo_fun_approved)"
proof -
  let ?bs = "[((''address'', ''1.2.3.4''), 72, 1), ((''request'', ''workspace:w''), 72, 1)]"
  let ?st = "demo_fun_requested\<lparr>approval_buckets := ?bs\<rparr>"
  have look: "map_of (fun_pending demo_fun_requested) demo_ticket = Some demo_fun_request" "map_of (fun_pending ?st) demo_ticket = Some demo_fun_request"
    by (simp_all add: demo_fun_requested_def)
  have world: "pw_secure demo_fun_world" "pw_bound demo_fun_world" "\<not> pw_too_large demo_fun_world" "pw_same_origin demo_fun_world"
    "pw_still_bound demo_fun_world" "pw_address demo_fun_world = ''1.2.3.4''" "pw_form demo_fun_world = pw_form demo_world"
    "pw_cookie demo_fun_world = pw_cookie demo_world" "\<And>i. pw_clock demo_fun_world i = 10 + of_nat i" "pw_grant demo_fun_world = (\<lambda>_ _ _. Inr demo_auth)"
    by (simp_all add: demo_fun_world_def demo_world_def)
  have req: "fr_workspace demo_fun_request = ''w''" "fr_deadline demo_fun_request = 1805" "\<not> wants_confirmation demo_fun_request"
    "fun_key_of demo_fun_request = (''w'', 1, ''server'', ''shell.exec'')"
    by (simp_all add: demo_fun_request_def wants_confirmation_def fun_key_of_def)
  have taken: "take_approval_attempt ''1.2.3.4'' ''w'' 12 demo_fun_requested = (0, ?st)"
    by (simp add: take_approval_attempt_def take_attempt_def demo_fun_requested_def Let_def wait_def bucket_def spend_def
        CONSENT_WINDOW_SECONDS_def MAX_CONSENT_BUCKETS_def CONSENT_ADDRESS_ATTEMPTS_def CONSENT_REQUEST_ATTEMPTS_def)
  have check: "check_password (cap_env.truncate demo_env) ''w'' ''secret'' ?st"
    by (simp add: check_password_def demo_fun_requested_def demo_env_def cap_env.truncate_def demo_hash(2))
  have attempted: "password_attempt demo_ticket (\<lambda>owner. verify_workspace_password (cap_env.truncate demo_env) owner ''secret'' ?st) 13 14 ?st = (Inr True, ?st)"
    using check by (simp add: password_attempt_def demo_fun_prune look req verify_workspace_password_def del: One_nat_def)
  have published: "publish demo_ticket (''w'', 1, ''server'', ''shell.exec'') \<lparr>fa_auth = demo_auth, fa_deadlines = [676], fa_revision = 1\<rparr> ?st = demo_fun_approved"
    by (simp add: publish_def demo_fun_requested_def demo_fun_approved_def)
  have "fun_approve (json_bytes demo_env) (\<lambda>_ _ _. Inr demo_auth) demo_ticket 600 None (\<lambda>i. 15 + of_nat i) ?st = (Inr (Some demo_auth), demo_fun_approved)"
    by (simp add: fun_approve_def MAX_SECONDS_def demo_fun_prune look req demo_candidate confirmation_changed_def revision_of_def published del: One_nat_def)
      (simp add: demo_fun_approved_def json_copy_def demo_env_def)
  then have "fun_password_post demo_env demo_fun_world demo_ticket pf demo_fun_request ?st = (Inr (), demo_fun_approved)" for pf
    using attempted by (simp add: fun_password_post_def world demo_form req algebra_simps del: One_nat_def)
  then show ?thesis
    by (simp add: handle_approval_post_def handle_function_post_def fun_pending_request_def demo_fun_prune look world demo_form demo_browser req taken
        function_page_def del: One_nat_def)
qed

lemma demo_fun_granted:
  "fst (fun_current (json_bytes demo_env) (''w'', 1, ''server'', ''shell.exec'') 100 (run demo_env demo_fun_calls)) = Inr (Some demo_auth)"
proof -
  have "demo_fun_calls = take 2 demo_fun_calls @ [Post demo_ticket demo_fun_world]" by (simp add: demo_fun_calls_def)
  then have "run demo_env demo_fun_calls = perform demo_env (Post demo_ticket demo_fun_world) demo_fun_requested"
    using run_snoc demo_fun_run_requested by metis
  also have "\<dots> = demo_fun_approved" by (simp add: perform_def demo_fun_post_approved)
  finally show ?thesis
    by (simp add: fun_current_def demo_fun_prune) (simp add: demo_fun_approved_def json_copy_def demo_env_def)
qed

theorem function_grant_needs_password_witness:
  "\<exists>pre wd post. demo_fun_calls = pre @ Post demo_ticket wd # post \<and>
    check_password (cap_env.truncate demo_env) ''w'' (form_one (pw_form wd) ''password'') (run demo_env demo_fun_calls)"
proof -
  have "distinct (concat (map issued demo_fun_calls))" by (simp add: demo_fun_calls_def issued_def)
  from function_grant_needs_password [OF this demo_fun_granted] obtain pre ticket wd post where
    "demo_fun_calls = pre @ Post ticket wd # post" "check_password (cap_env.truncate demo_env) ''w'' (form_one (pw_form wd) ''password'') (run demo_env demo_fun_calls)"
    by auto
  moreover from this have "ticket = demo_ticket"
    by (auto simp: demo_fun_calls_def Cons_eq_append_conv)
  ultimately show ?thesis by blast
qed

section \<open>What the checks of a request do not do\<close>

text \<open>
  The characters that the test of a reason exempts are a backslash and three letters, so a reason with
  a line break or a tab is refused, although the error text and the sibling test for function requests
  mean to allow it; a NUL character or a single backslash in a path is accepted.
\<close>

lemma reason_control_refused: "c \<in> set reason \<Longrightarrow> (of_char c :: nat) < 32 \<Longrightarrow> odd_reason reason"
  by (auto simp: odd_reason_def list_ex_iff)

lemma nul_path_accepted: "\<not> odd_path [CHR ''/'', CHR 0x00, CHR 0x5C, CHR ''a'']"
  by code_simp

text \<open>Exactly two slashes are not taken for the host root.\<close>

lemma double_slash_directory: "external_directory ''//'' = Some ''//''"
  by code_simp

text \<open>A user name with a character outside ASCII ends the login in an exception, not in a refusal.\<close>

lemma login_unicode_crash:
  "fst (login_advance demo_kdf ''admin'' (demo_post\<lparr>lp_username := [CHR 0xE9]\<rparr>) Verify 0 0 demo_login) = Crashed"
  by code_simp

end
