(* ===== verification/Upload_Registry.thy ===== *)
theory Upload_Registry
  imports Civil_Time Password_Hash "HOL-Library.AList"
begin

text \<open>
  Resumable uploads: \<open>UploadRegistry\<close> of \<open>openkapsel/files/uploads.py\<close>.  An upload has a record in the
  registry and, in the state directory, a temporary file with the bytes received so far and a metadata
  file with the record as it was last saved.  The directory survives a restart, the registry is read
  back from it.

  The directory is part of the state: \<open>temps\<close> are the temporary files by path, \<open>metas\<close> the metadata files
  by the id they are named after.  Operations of the operating system that can fail take an argument
  that says how far they get.  Times are instants (the records hold their ISO text), SHA-256 is a
  parameter.
\<close>

record temp_file =
  tf_device :: int
  tf_inode :: int
  tf_regular :: bool
  tf_bytes :: bytes

record upload =
  ul_id :: string
  ul_owner :: string
  ul_target :: string
  ul_temp :: string
  ul_device :: int
  ul_inode :: int
  ul_size :: int
  ul_sha :: "string option"
  ul_offset :: int
  ul_parents :: bool
  ul_created :: instant
  ul_expires :: instant
  ul_mapping :: "string option"

record upload_config =
  state_dir :: string
  ttl_seconds :: int
  max_file_bytes :: int
  max_incomplete_bytes :: int
  sha256_hex :: "bytes \<Rightarrow> string"

record uploads =
  records :: "(string \<times> upload) list"
  temps :: "(string \<times> temp_file) list"
  metas :: "(string \<times> upload) list"

definition no_uploads :: uploads where
  "no_uploads = \<lparr>records = [], temps = [], metas = []\<rparr>"

definition owner_hash :: "upload_config \<Rightarrow> string \<Rightarrow> string" where
  "owner_hash cfg token = sha256_hex cfg token"

definition hex_digit_any :: "char \<Rightarrow> bool" where
  "hex_digit_any c \<longleftrightarrow> c \<in> set ''0123456789abcdefABCDEF''"

definition valid_sha256 :: "string \<Rightarrow> bool" where
  "valid_sha256 s \<longleftrightarrow> length s = 64 \<and> list_all hex_digit_any s"

definition lower :: "string \<Rightarrow> string" where
  "lower s = map (\<lambda>c. if 65 \<le> (of_char c :: nat) \<and> (of_char c :: nat) \<le> 90 then char_of (of_char c + (32 :: nat)) else c) s"

section \<open>The state directory\<close>

definition part_path :: "upload_config \<Rightarrow> string \<Rightarrow> string" where
  "part_path cfg i = state_dir cfg @ ''/.'' @ i @ ''.part''"

definition remove_upload :: "upload \<Rightarrow> uploads \<Rightarrow> uploads" where
  "remove_upload r st =
     st\<lparr>records := AList.delete (ul_id r) (records st), temps := AList.delete (ul_temp r) (temps st),
        metas := AList.delete (ul_id r) (metas st)\<rparr>"

definition purge_expired :: "instant \<Rightarrow> uploads \<Rightarrow> uploads" where
  "purge_expired now st =
     fold (\<lambda>(_, r) s. if ul_expires r \<le> now then remove_upload r s else s) (records st) st"

text \<open>\<open>_open_temp\<close>: the file of the path, when it is still the one that was created.\<close>

definition open_temp :: "upload \<Rightarrow> uploads \<Rightarrow> temp_file result" where
  "open_temp r st =
     (case map_of (temps st) (ul_temp r) of
        None \<Rightarrow> Inl (UploadError 409 ''upload_temp_changed'')
      | Some f \<Rightarrow>
          if \<not> tf_regular f \<or> tf_device f \<noteq> ul_device r \<or> tf_inode f \<noteq> ul_inode r
          then Inl (UploadError 409 ''upload_temp_changed'') else Inr f)"

definition save_upload :: "upload \<Rightarrow> uploads \<Rightarrow> uploads" where
  "save_upload r st = st\<lparr>metas := AList.update (ul_id r) r (metas st)\<rparr>"

definition set_record :: "upload \<Rightarrow> uploads \<Rightarrow> uploads" where
  "set_record r st = st\<lparr>records := AList.update (ul_id r) r (records st)\<rparr>"

definition set_bytes :: "upload \<Rightarrow> temp_file \<Rightarrow> bytes \<Rightarrow> uploads \<Rightarrow> uploads" where
  "set_bytes r f bs st = st\<lparr>temps := AList.update (ul_temp r) (f\<lparr>tf_bytes := bs\<rparr>) (temps st)\<rparr>"

text \<open>Writing at a position beyond the end leaves a hole of zero bytes, and so does truncating upwards.\<close>

definition padded :: "nat \<Rightarrow> bytes \<Rightarrow> bytes" where
  "padded n bs = bs @ replicate (n - length bs) (CHR 0x00)"

definition write_at :: "nat \<Rightarrow> bytes \<Rightarrow> bytes \<Rightarrow> bytes" where
  "write_at n chunk bs = take n (padded n bs) @ chunk @ drop (n + length chunk) bs"

definition truncate_at :: "nat \<Rightarrow> bytes \<Rightarrow> bytes" where
  "truncate_at n bs = take n (padded n bs)"

section \<open>Operations\<close>

datatype create_io = Created "int \<times> int" | TempFails | TempLeft "int \<times> int" | CreateSaveFails

text \<open>
  \<open>ids\<close> are the identifiers in the order they are drawn; the loop takes the first that is not in use.
  (Where the list has none, the drawing would go on.)
\<close>

definition new_upload ::
  "upload_config \<Rightarrow> string \<Rightarrow> string \<Rightarrow> string \<Rightarrow> int \<Rightarrow> string option \<Rightarrow> bool \<Rightarrow> string option \<Rightarrow> instant \<Rightarrow> int \<times> int \<Rightarrow> upload" where
  "new_upload cfg i token target expected_size sha parents mapping now file =
     \<lparr>ul_id = i, ul_owner = owner_hash cfg token, ul_target = target, ul_temp = part_path cfg i,
      ul_device = fst file, ul_inode = snd file, ul_size = expected_size,
      ul_sha = (case sha of None \<Rightarrow> None | Some s \<Rightarrow> if s = [] then None else Some (lower s)), ul_offset = 0, ul_parents = parents,
      ul_created = now, ul_expires = now + seconds_us (ttl_seconds cfg), ul_mapping = mapping\<rparr>"

definition empty_file :: "int \<times> int \<Rightarrow> temp_file" where
  "empty_file file = \<lparr>tf_device = fst file, tf_inode = snd file, tf_regular = True, tf_bytes = []\<rparr>"

definition upload_create ::
  "upload_config \<Rightarrow> string \<Rightarrow> string \<Rightarrow> int \<Rightarrow> string option \<Rightarrow> bool \<Rightarrow> string option \<Rightarrow> string list \<Rightarrow> create_io \<Rightarrow> instant \<Rightarrow> instant \<Rightarrow>
   (uploads, upload) op" where
  "upload_create cfg token target expected_size sha parents mapping ids io t0 t1 st =
     (if expected_size < 0 then (Inl (UploadError 400 ''invalid_size''), st)
      else if expected_size > max_file_bytes cfg then (Inl (UploadError 413 ''file_too_large''), st)
      else if (case sha of None \<Rightarrow> False | Some s \<Rightarrow> \<not> valid_sha256 s) then (Inl (UploadError 400 ''invalid_sha256''), st)
      else let st1 = purge_expired t0 st in
        if sum_list (map (\<lambda>(_, r). ul_size r) (records st1)) + expected_size > max_incomplete_bytes cfg
        then (Inl (UploadError 507 ''upload_quota_exceeded''), st1)
        else case find (\<lambda>i. i \<notin> fst ` set (records st1)) ids of
          None \<Rightarrow> (Inl (RuntimeError ''no identifier drawn''), st1)
        | Some i \<Rightarrow>
            let temp = part_path cfg i in
            if temp \<in> fst ` set (temps st1) then (Inl (UploadError 500 ''upload_create_failed''), st1)
            else case io of
              TempFails \<Rightarrow> (Inl (UploadError 500 ''upload_create_failed''), st1)
            | Created file \<Rightarrow>
                let r = new_upload cfg i token target expected_size sha parents mapping t1 file
                in (Inr r, save_upload r (set_record r (st1\<lparr>temps := AList.update temp (empty_file file) (temps st1)\<rparr>)))
            | TempLeft file \<Rightarrow>
                (Inl (UploadError 500 ''upload_create_failed''), st1\<lparr>temps := AList.update temp (empty_file file) (temps st1)\<rparr>)
            | CreateSaveFails \<Rightarrow> (Inl OSError, st1))"

definition upload_get :: "upload_config \<Rightarrow> string \<Rightarrow> string \<Rightarrow> instant \<Rightarrow> (uploads, upload) op" where
  "upload_get cfg i token now st =
     (let st1 = purge_expired now st in
        case map_of (records st1) i of
          None \<Rightarrow> (Inl (UploadError 404 ''upload_not_found''), st1)
        | Some r \<Rightarrow> if ul_owner r \<noteq> owner_hash cfg token then (Inl (UploadError 404 ''upload_not_found''), st1) else (Inr r, st1))"

definition CHUNK :: nat where "CHUNK = 1024 * 1024"

text \<open>
  The copy loop of \<open>append\<close>: what it has written when it ends, and whether the body was long enough.
  \<open>stream.read(n)\<close> gives the next \<open>n\<close> bytes, or fewer at the end.
\<close>

function read_body :: "nat \<Rightarrow> bytes \<Rightarrow> bytes \<times> bool" where
  "read_body remaining stream =
     (if remaining = 0 then ([], True)
      else let chunk = take (min remaining CHUNK) stream in
        if chunk = [] then ([], False)
        else case read_body (remaining - length chunk) (drop (length chunk) stream) of (rest, ok) \<Rightarrow> (chunk @ rest, ok))"
  by pat_completeness auto
termination
proof (relation "measure fst", goal_cases)
  case (2 remaining stream chunk)
  then have "0 < length chunk" by simp
  with 2 show ?case by (simp del: length_greater_0_conv)
qed simp

declare read_body.simps [simp del]

datatype append_io = Appended | WriteFails nat | SaveFails

text \<open>
  What \<open>append\<close> does once the temporary file is open.  With \<open>WriteFails k\<close> the operating system reports an
  error after the first \<open>k\<close> bytes of the body are in the file.
\<close>

definition append_chunk ::
  "upload \<Rightarrow> temp_file \<Rightarrow> bytes \<Rightarrow> int \<Rightarrow> append_io \<Rightarrow> (uploads, upload) op" where
  "append_chunk r f stream len io st =
     (let n = nat (ul_offset r);
          chunk = fst (read_body (nat len) stream);
          whole = snd (read_body (nat len) stream);
          r1 = r\<lparr>ul_offset := ul_offset r + len\<rparr>;
          st2 = set_record r1 (set_bytes r f (write_at n chunk (tf_bytes f)) st)
      in case io of
           WriteFails k \<Rightarrow>
             (Inl (UploadError 500 ''upload_write_failed''), set_bytes r f (write_at n (take k chunk) (tf_bytes f)) st)
         | Appended \<Rightarrow>
             if \<not> whole then (Inl (UploadError 400 ''incomplete_body''), set_bytes r f (truncate_at n (write_at n chunk (tf_bytes f))) st)
             else (Inr r1, save_upload r1 st2)
         | SaveFails \<Rightarrow>
             if \<not> whole then (Inl (UploadError 400 ''incomplete_body''), set_bytes r f (truncate_at n (write_at n chunk (tf_bytes f))) st)
             else (Inl OSError, st2))"

definition upload_append ::
  "upload_config \<Rightarrow> string \<Rightarrow> string \<Rightarrow> int \<Rightarrow> bytes \<Rightarrow> int \<Rightarrow> append_io \<Rightarrow> instant \<Rightarrow> (uploads, upload) op" where
  "upload_append cfg i token offset stream len io now st =
     (if len < 0 then (Inl (UploadError 400 ''invalid_length''), st)
      else case upload_get cfg i token now st of
        (Inl e, st1) \<Rightarrow> (Inl e, st1)
      | (Inr r, st1) \<Rightarrow>
          if offset \<noteq> ul_offset r then (Inl (UploadError 409 ''upload_offset_mismatch''), st1)
          else if ul_offset r + len > ul_size r then (Inl (UploadError 413 ''upload_too_large''), st1)
          else case open_temp r st1 of
            Inl e \<Rightarrow> (Inl e, st1)
          | Inr f \<Rightarrow> append_chunk r f stream len io st1)"

text \<open>Reading the file back may fail part of the way through: \<open>readable\<close> says that it does not.\<close>

definition upload_verify :: "upload_config \<Rightarrow> string \<Rightarrow> string \<Rightarrow> bool \<Rightarrow> instant \<Rightarrow> (uploads, upload \<times> string) op" where
  "upload_verify cfg i token readable now st =
     (case upload_get cfg i token now st of
        (Inl e, st1) \<Rightarrow> (Inl e, st1)
      | (Inr r, st1) \<Rightarrow>
          if ul_offset r \<noteq> ul_size r then (Inl (UploadError 409 ''upload_incomplete''), st1)
          else case open_temp r st1 of
            Inl e \<Rightarrow> (Inl e, st1)
          | Inr f \<Rightarrow>
              let actual = sha256_hex cfg (tf_bytes f)
              in if \<not> readable then (Inl (UploadError 500 ''upload_read_failed''), st1)
                 else if ul_sha r \<noteq> None \<and> ul_sha r \<noteq> Some actual then (Inl (UploadError 422 ''checksum_mismatch''), st1)
                 else (Inr (r, actual), st1))"

text \<open>The bytes written to the destination come with the outcome; \<open>copied\<close> counts them.\<close>

definition upload_copy_to :: "upload_config \<Rightarrow> string \<Rightarrow> string \<Rightarrow> bool \<Rightarrow> instant \<Rightarrow> (uploads, upload \<times> bytes) op" where
  "upload_copy_to cfg i token readable now st =
     (case upload_get cfg i token now st of
        (Inl e, st1) \<Rightarrow> (Inl e, st1)
      | (Inr r, st1) \<Rightarrow>
          if ul_offset r \<noteq> ul_size r then (Inl (UploadError 409 ''upload_incomplete''), st1)
          else case open_temp r st1 of
            Inl e \<Rightarrow> (Inl e, st1)
          | Inr f \<Rightarrow>
              if \<not> readable then (Inl (UploadError 500 ''upload_read_failed''), st1)
              else if int (length (tf_bytes f)) \<noteq> ul_size r then (Inl (UploadError 409 ''upload_temp_changed''), st1)
              else (Inr (r, tf_bytes f), st1))"

definition assert_temp_unchanged :: "upload_config \<Rightarrow> string \<Rightarrow> string \<Rightarrow> instant \<Rightarrow> (uploads, upload) op" where
  "assert_temp_unchanged cfg i token now st =
     (case upload_get cfg i token now st of
        (Inl e, st1) \<Rightarrow> (Inl e, st1)
      | (Inr r, st1) \<Rightarrow> (case open_temp r st1 of Inl e \<Rightarrow> (Inl e, st1) | Inr _ \<Rightarrow> (Inr r, st1)))"

definition upload_finish :: "upload_config \<Rightarrow> string \<Rightarrow> string \<Rightarrow> (uploads, unit) op" where
  "upload_finish cfg i token st =
     (case map_of (records st) i of
        None \<Rightarrow> (Inl (UploadError 404 ''upload_not_found''), st)
      | Some r \<Rightarrow>
          if ul_owner r \<noteq> owner_hash cfg token then (Inl (UploadError 404 ''upload_not_found''), st)
          else (Inr (), remove_upload r st))"

definition upload_cancel :: "upload_config \<Rightarrow> string \<Rightarrow> string \<Rightarrow> instant \<Rightarrow> (uploads, upload) op" where
  "upload_cancel cfg i token now st =
     (case upload_get cfg i token now st of
        (Inl e, st1) \<Rightarrow> (Inl e, st1)
      | (Inr r, st1) \<Rightarrow> (Inr r, remove_upload r st1))"

section \<open>Restart\<close>

text \<open>
  One metadata file: a record that fits its file name and temporary file is taken over, with the file
  cut back to the saved offset; otherwise the metadata file is deleted.
\<close>

definition loadable :: "string \<Rightarrow> upload \<Rightarrow> uploads \<Rightarrow> temp_file option" where
  "loadable name r st =
     (case map_of (temps st) (ul_temp r) of
        None \<Rightarrow> None
      | Some f \<Rightarrow>
          if ul_id r \<noteq> name \<or> \<not> tf_regular f \<or> tf_device f \<noteq> ul_device r \<or> tf_inode f \<noteq> ul_inode r \<or>
             ul_offset r < 0 \<or> ul_offset r > ul_size r \<or> int (length (tf_bytes f)) < ul_offset r
          then None else Some f)"

definition load_one :: "string \<times> upload \<Rightarrow> uploads \<Rightarrow> uploads" where
  "load_one m st =
     (case m of (name, r) \<Rightarrow>
        case loadable name r st of
          None \<Rightarrow> st\<lparr>metas := AList.delete name (metas st)\<rparr>
        | Some f \<Rightarrow> set_record r (if int (length (tf_bytes f)) > ul_offset r then set_bytes r f (take (nat (ul_offset r)) (tf_bytes f)) st else st))"

definition load_uploads :: "instant \<Rightarrow> uploads \<Rightarrow> uploads" where
  "load_uploads now st = purge_expired now (fold load_one (metas st) (st\<lparr>records := []\<rparr>))"

end
