(* ===== verification/Upload_Safety.thy ===== *)
theory Upload_Safety
  imports Upload_Registry
begin

text \<open>
  What holds of the upload registry and its state directory in every state that requests, failed
  writes, crashes and restarts can lead to.  The state is read through three finite maps, the records,
  the temporary files and the metadata files; the loops over them (purging, loading) are characterised
  pointwise.
\<close>

section \<open>Generic facts\<close>

lemma read_body_eq [code]: "read_body n bs = (take n bs, n \<le> length bs)"
proof (induction n bs rule: read_body.induct)
  case (1 n bs)
  show ?case
  proof (cases "n = 0 \<or> bs = []")
    case True
    then show ?thesis by (subst read_body.simps) (auto simp: CHUNK_def)
  next
    case False
    define k where "k = length (take (min n CHUNK) bs)"
    have k: "take (min n CHUNK) bs = take k bs" "0 < k" "k \<le> n" "k \<le> length bs"
      using False by (auto simp: k_def CHUNK_def min_def)
    then have "take (min n CHUNK) bs \<noteq> []" by (cases bs) auto
    with 1 False have "read_body (n - k) (drop k bs) = (take (n - k) (drop k bs), n - k \<le> length (drop k bs))"
      unfolding k_def by simp
    with False k show ?thesis
      by (subst read_body.simps) (auto simp: Let_def take_add [symmetric] min_def)
  qed
qed

lemma length_write_at: "length (write_at n c bs) = max (n + length c) (length bs)"
  by (auto simp: write_at_def padded_def)

lemma take_write_at: "n \<le> length bs \<Longrightarrow> m \<le> n \<Longrightarrow> take m (write_at n c bs) = take m bs"
  by (auto simp: write_at_def padded_def min_def)

lemma take_write_at_end: "n \<le> length bs \<Longrightarrow> take (n + length c) (write_at n c bs) = take n bs @ c"
  by (simp add: write_at_def padded_def)

lemma truncate_write_at: "n \<le> length bs \<Longrightarrow> truncate_at n (write_at n c bs) = take n bs"
  by (simp add: truncate_at_def padded_def length_write_at take_write_at)

lemma part_path_inject [simp]: "part_path cfg i = part_path cfg j \<longleftrightarrow> i = j"
  by (simp add: part_path_def)

lemma map_of_updates:
  "map_of (AList.update k v al) = (map_of al)(k \<mapsto> v)"
  "map_of (AList.delete k al) = (map_of al)(k := None)"
  by (simp_all add: update_conv' delete_conv')

abbreviation record_of :: "uploads \<Rightarrow> string \<Rightarrow> upload option" where
  "record_of st \<equiv> map_of (records st)"

abbreviation file_of :: "uploads \<Rightarrow> string \<Rightarrow> temp_file option" where
  "file_of st \<equiv> map_of (temps st)"

abbreviation meta_of :: "uploads \<Rightarrow> string \<Rightarrow> upload option" where
  "meta_of st \<equiv> map_of (metas st)"

definition keyed :: "uploads \<Rightarrow> bool" where
  "keyed st \<longleftrightarrow> distinct (map fst (records st)) \<and> distinct (map fst (temps st)) \<and> distinct (map fst (metas st))"

lemma updates_simps [simp]:
  "record_of (remove_upload r st) = (record_of st)(ul_id r := None)"
  "file_of (remove_upload r st) = (file_of st)(ul_temp r := None)"
  "meta_of (remove_upload r st) = (meta_of st)(ul_id r := None)"
  "record_of (save_upload r st) = record_of st" "file_of (save_upload r st) = file_of st"
  "meta_of (save_upload r st) = (meta_of st)(ul_id r \<mapsto> r)"
  "record_of (set_record r st) = (record_of st)(ul_id r \<mapsto> r)" "file_of (set_record r st) = file_of st"
  "meta_of (set_record r st) = meta_of st"
  "record_of (set_bytes r f bs st) = record_of st" "meta_of (set_bytes r f bs st) = meta_of st"
  "file_of (set_bytes r f bs st) = (file_of st)(ul_temp r \<mapsto> f\<lparr>tf_bytes := bs\<rparr>)"
  by (simp_all add: remove_upload_def save_upload_def set_record_def set_bytes_def map_of_updates)

lemma keyed_updates [simp]:
  "keyed st \<Longrightarrow> keyed (remove_upload r st)" "keyed st \<Longrightarrow> keyed (save_upload r st)"
  "keyed st \<Longrightarrow> keyed (set_record r st)" "keyed st \<Longrightarrow> keyed (set_bytes r f bs st)"
  "keyed st \<Longrightarrow> keyed (st\<lparr>temps := AList.update p f (temps st)\<rparr>)"
  "keyed st \<Longrightarrow> keyed (st\<lparr>metas := AList.delete i (metas st)\<rparr>)"
  "keyed st \<Longrightarrow> keyed (st\<lparr>records := []\<rparr>)"
  by (simp_all add: keyed_def remove_upload_def save_upload_def set_record_def set_bytes_def
      distinct_update distinct_delete)

section \<open>The loops over the directory\<close>

text \<open>Where a record belongs: it is stored under its id and its file has the name made from it.\<close>

definition placed :: "upload_config \<Rightarrow> (string \<times> upload) list \<Rightarrow> bool" where
  "placed cfg rs \<longleftrightarrow> distinct (map fst rs) \<and> (\<forall>(i, r) \<in> set rs. ul_id r = i \<and> ul_temp r = part_path cfg i)"

lemma placed_simps [simp]:
  "placed cfg []"
  "placed cfg ((i, r) # rs) \<longleftrightarrow> i \<notin> fst ` set rs \<and> ul_id r = i \<and> ul_temp r = part_path cfg i \<and> placed cfg rs"
  by (auto simp: placed_def)

definition due :: "instant \<Rightarrow> upload option \<Rightarrow> bool" where
  "due now v \<longleftrightarrow> (case v of None \<Rightarrow> False | Some r \<Rightarrow> ul_expires r \<le> now)"

lemma due_simps [simp]: "\<not> due now None" "due now (Some r) \<longleftrightarrow> ul_expires r \<le> now"
  by (simp_all add: due_def)

definition sweep :: "instant \<Rightarrow> (string \<times> upload) list \<Rightarrow> uploads \<Rightarrow> uploads" where
  "sweep now rs st = fold (\<lambda>(_, r) s. if ul_expires r \<le> now then remove_upload r s else s) rs st"

lemma sweep_maps:
  "placed cfg rs \<Longrightarrow>
     (\<forall>i. record_of (sweep now rs st) i = (if due now (map_of rs i) then None else record_of st i) \<and>
          meta_of (sweep now rs st) i = (if due now (map_of rs i) then None else meta_of st i) \<and>
          file_of (sweep now rs st) (part_path cfg i) =
            (if due now (map_of rs i) then None else file_of st (part_path cfg i))) \<and>
     (\<forall>p. p \<notin> range (part_path cfg) \<longrightarrow> file_of (sweep now rs st) p = file_of st p) \<and>
     (keyed st \<longrightarrow> keyed (sweep now rs st))"
proof (induction rs arbitrary: st)
  case Nil
  then show ?case by (simp add: sweep_def due_def)
next
  case (Cons a rs)
  obtain i r where a: "a = (i, r)" by (cases a)
  have *: "sweep now (a # rs) st = sweep now rs (if ul_expires r \<le> now then remove_upload r st else st)"
    by (simp add: sweep_def a)
  have r: "ul_id r = i" "ul_temp r = part_path cfg i" "placed cfg rs" "map_of rs i = None"
    using Cons.prems by (auto simp: a map_of_eq_None_iff)
  show ?case
  proof (cases "ul_expires r \<le> now")
    case True
    then show ?thesis using Cons.IH [OF r(3), of "remove_upload r st"] r unfolding * by (auto simp: a)
  next
    case False
    then show ?thesis using Cons.IH [OF r(3), of st] r unfolding * by (auto simp: a)
  qed
qed

lemma purge_is_sweep: "purge_expired now st = sweep now (records st) st"
  by (simp add: purge_expired_def sweep_def)

definition restored :: "upload option \<Rightarrow> temp_file option \<Rightarrow> bool" where
  "restored m f \<longleftrightarrow> (case (m, f) of (Some r, Some f) \<Rightarrow>
     tf_regular f \<and> tf_device f = ul_device r \<and> tf_inode f = ul_inode r \<and>
     0 \<le> ul_offset r \<and> ul_offset r \<le> ul_size r \<and> ul_offset r \<le> int (length (tf_bytes f)) | _ \<Rightarrow> False)"

definition cut_back :: "upload \<Rightarrow> temp_file \<Rightarrow> temp_file" where
  "cut_back r f = f\<lparr>tf_bytes := take (nat (ul_offset r)) (tf_bytes f)\<rparr>"

lemma loadable_restored:
  "ul_id r = i \<Longrightarrow> loadable i r st =
     (if restored (Some r) (file_of st (ul_temp r)) then file_of st (ul_temp r) else None)"
  by (auto simp: loadable_def restored_def split: option.splits)

lemma load_one_maps:
  assumes "ul_id r = i" "ul_temp r = part_path cfg i"
  shows "record_of (load_one (i, r) st) =
           (if restored (Some r) (file_of st (part_path cfg i)) then (record_of st)(i \<mapsto> r) else record_of st)"
    and "meta_of (load_one (i, r) st) =
           (if restored (Some r) (file_of st (part_path cfg i)) then meta_of st else (meta_of st)(i := None))"
    and "file_of (load_one (i, r) st) =
           (if restored (Some r) (file_of st (part_path cfg i))
            then (file_of st)(part_path cfg i := map_option (cut_back r) (file_of st (part_path cfg i))) else file_of st)"
    and "keyed st \<Longrightarrow> keyed (load_one (i, r) st)"
proof -
  consider (no) "loadable i r st = None" "\<not> restored (Some r) (file_of st (part_path cfg i))"
    | (yes) f where "loadable i r st = Some f" "file_of st (part_path cfg i) = Some f" "restored (Some r) (Some f)"
    using loadable_restored [OF assms(1), of st] assms(2)
    by (cases "restored (Some r) (file_of st (part_path cfg i))"; cases "file_of st (part_path cfg i)")
      (auto simp: restored_def)
  note c = this
  show "record_of (load_one (i, r) st) =
           (if restored (Some r) (file_of st (part_path cfg i)) then (record_of st)(i \<mapsto> r) else record_of st)"
    by (cases rule: c) (simp_all add: load_one_def assms)
  show "meta_of (load_one (i, r) st) =
           (if restored (Some r) (file_of st (part_path cfg i)) then meta_of st else (meta_of st)(i := None))"
    by (cases rule: c) (simp_all add: load_one_def assms map_of_updates)
  show "file_of (load_one (i, r) st) =
           (if restored (Some r) (file_of st (part_path cfg i))
            then (file_of st)(part_path cfg i := map_option (cut_back r) (file_of st (part_path cfg i))) else file_of st)"
  proof (cases rule: c)
    case no
    then show ?thesis by (simp add: load_one_def)
  next
    case (yes f)
    moreover have "cut_back r f = f" if "\<not> ul_offset r < int (length (tf_bytes f))"
      using that yes(3) by (simp add: cut_back_def restored_def)
    ultimately show ?thesis by (auto simp: load_one_def assms cut_back_def)
  qed
  show "keyed (load_one (i, r) st)" if "keyed st"
    using that by (cases rule: c) (simp_all add: load_one_def)
qed

lemma load_maps:
  "placed cfg ms \<Longrightarrow>
     (\<forall>i. record_of (fold load_one ms st) i =
            (if restored (map_of ms i) (file_of st (part_path cfg i)) then map_of ms i else record_of st i) \<and>
          meta_of (fold load_one ms st) i =
            (if map_of ms i \<noteq> None \<and> \<not> restored (map_of ms i) (file_of st (part_path cfg i)) then None else meta_of st i) \<and>
          file_of (fold load_one ms st) (part_path cfg i) =
            (if restored (map_of ms i) (file_of st (part_path cfg i))
             then map_option (cut_back (the (map_of ms i))) (file_of st (part_path cfg i)) else file_of st (part_path cfg i))) \<and>
     (\<forall>p. p \<notin> range (part_path cfg) \<longrightarrow> file_of (fold load_one ms st) p = file_of st p) \<and>
     (keyed st \<longrightarrow> keyed (fold load_one ms st))"
proof (induction ms arbitrary: st)
  case Nil
  then show ?case by (simp add: restored_def)
next
  case (Cons a ms)
  obtain i r where a: "a = (i, r)" by (cases a)
  have r: "ul_id r = i" "ul_temp r = part_path cfg i" "placed cfg ms" "map_of ms i = None"
    using Cons.prems by (auto simp: a map_of_eq_None_iff)
  note one = load_one_maps [OF r(1,2), of st]
  have none: "\<not> restored None v" for v by (simp add: restored_def)
  show ?case using Cons.IH [OF r(3), of "load_one a st"] r(4) one
    by (auto simp: a none)
qed

section \<open>The invariant\<close>

text \<open>A file fits a record when it is the record's file and holds the accepted bytes, and no more than declared.\<close>

definition fits :: "upload \<Rightarrow> temp_file \<Rightarrow> bool" where
  "fits r f \<longleftrightarrow> tf_regular f \<and> tf_device f = ul_device r \<and> tf_inode f = ul_inode r \<and>
     0 \<le> ul_offset r \<and> ul_offset r \<le> ul_size r \<and>
     ul_offset r \<le> int (length (tf_bytes f)) \<and> int (length (tf_bytes f)) \<le> ul_size r"

text \<open>The saved form of a record is the record itself, at the same or an earlier offset.\<close>

definition saved_form :: "upload \<Rightarrow> upload \<Rightarrow> bool" where
  "saved_form m r \<longleftrightarrow> m\<lparr>ul_offset := ul_offset r\<rparr> = r \<and> 0 \<le> ul_offset m \<and> ul_offset m \<le> ul_offset r"

lemma saved_form_fields:
  "saved_form m r \<Longrightarrow> ul_id m = ul_id r \<and> ul_temp m = ul_temp r \<and> ul_size m = ul_size r \<and> ul_owner m = ul_owner r \<and>
     ul_device m = ul_device r \<and> ul_inode m = ul_inode r \<and> ul_sha m = ul_sha r \<and> ul_expires m = ul_expires r \<and>
     0 \<le> ul_offset m \<and> ul_offset m \<le> ul_offset r"
  by (cases m; cases r) (simp add: saved_form_def)

lemma saved_form_refl: "0 \<le> ul_offset r \<Longrightarrow> saved_form r r"
  by (simp add: saved_form_def)

lemma saved_form_advance: "saved_form m r \<Longrightarrow> 0 \<le> k \<Longrightarrow> saved_form m (r\<lparr>ul_offset := ul_offset r + k\<rparr>)"
  by (cases m; cases r) (simp add: saved_form_def)

fun entry_ok :: "upload_config \<Rightarrow> string \<Rightarrow> upload option \<Rightarrow> temp_file option \<Rightarrow> upload option \<Rightarrow> bool" where
  "entry_ok cfg i None f m \<longleftrightarrow> m = None \<and> (\<forall>g. f = Some g \<longrightarrow> tf_bytes g = [])"
| "entry_ok cfg i (Some r) f m \<longleftrightarrow>
     ul_id r = i \<and> ul_temp r = part_path cfg i \<and> (\<exists>g. f = Some g \<and> fits r g) \<and> (\<exists>q. m = Some q \<and> saved_form q r)"

definition reserved :: "(string \<rightharpoonup> upload) \<Rightarrow> int" where
  "reserved m = (\<Sum>i \<in> dom m. ul_size (the (m i)))"

definition uploads_ok :: "upload_config \<Rightarrow> uploads \<Rightarrow> bool" where
  "uploads_ok cfg st \<longleftrightarrow> keyed st \<and>
     (\<forall>i. entry_ok cfg i (record_of st i) (file_of st (part_path cfg i)) (meta_of st i)) \<and>
     (\<forall>p. p \<notin> range (part_path cfg) \<longrightarrow> file_of st p = None) \<and>
     reserved (record_of st) \<le> max_incomplete_bytes cfg"

lemma uploads_okD:
  assumes "uploads_ok cfg st"
  shows "keyed st" "entry_ok cfg i (record_of st i) (file_of st (part_path cfg i)) (meta_of st i)"
    "p \<notin> range (part_path cfg) \<Longrightarrow> file_of st p = None" "reserved (record_of st) \<le> max_incomplete_bytes cfg"
  using assms by (auto simp: uploads_ok_def)

lemma record_okD:
  assumes "uploads_ok cfg st" "record_of st i = Some r"
  obtains f m where "ul_id r = i" "ul_temp r = part_path cfg i" "file_of st (part_path cfg i) = Some f" "fits r f"
    "meta_of st i = Some m" "saved_form m r"
  using uploads_okD(2) [OF assms(1), of i] assms(2) by auto

lemma ok_placed: "uploads_ok cfg st \<Longrightarrow> placed cfg (records st)"
proof -
  assume ok: "uploads_ok cfg st"
  then have d: "distinct (map fst (records st))" by (simp add: uploads_ok_def keyed_def)
  have "ul_id r = i \<and> ul_temp r = part_path cfg i" if "(i, r) \<in> set (records st)" for i r
    using ok map_of_is_SomeI [OF d that] by (auto elim: record_okD)
  with d show ?thesis by (auto simp: placed_def)
qed

lemma reserved_insert: "finite (dom m) \<Longrightarrow> m i = None \<Longrightarrow> reserved (m(i \<mapsto> r)) = reserved m + ul_size r"
proof -
  assume m: "finite (dom m)" "m i = None"
  have "(\<Sum>j \<in> dom m. ul_size (the ((m(i \<mapsto> r)) j))) = reserved m"
    unfolding reserved_def using m by (intro sum.cong) auto
  with m show ?thesis by (simp add: reserved_def domIff)
qed

text \<open>The sum in the code runs over the list of records; it is the sum over the map.\<close>

lemma reserved_list:
  "distinct (map fst rs) \<Longrightarrow> sum_list (map (\<lambda>(_, r). ul_size r) rs) = reserved (map_of rs)"
proof (induction rs)
  case Nil
  then show ?case by (simp add: reserved_def)
next
  case (Cons a rs)
  obtain i r where a: "a = (i, r)" by (cases a)
  have "map_of rs i = None" using Cons.prems by (auto simp: a map_of_eq_None_iff)
  then have "reserved ((map_of rs)(i \<mapsto> r)) = reserved (map_of rs) + ul_size r"
    by (rule reserved_insert [OF finite_dom_map_of])
  with Cons show ?case by (simp add: a fun_upd_def)
qed

lemma reserved_mono:
  assumes "finite (dom m)" "\<And>i r. m i = Some r \<Longrightarrow> 0 \<le> ul_size r"
    and "\<And>i r'. m' i = Some r' \<Longrightarrow> \<exists>r. m i = Some r \<and> ul_size r = ul_size r'"
  shows "reserved m' \<le> reserved m"
proof -
  have sub: "dom m' \<subseteq> dom m" using assms(3) by fastforce
  have "reserved m' = (\<Sum>i \<in> dom m'. ul_size (the (m i)))"
    unfolding reserved_def using assms(3) by (intro sum.cong) fastforce+
  also have "\<dots> \<le> reserved m"
    unfolding reserved_def using sub assms(1,2) by (intro sum_mono2) auto
  finally show ?thesis .
qed

lemma ok_sizes: "uploads_ok cfg st \<Longrightarrow> record_of st i = Some r \<Longrightarrow> 0 \<le> ul_size r"
  by (erule (1) record_okD) (auto simp: fits_def)

text \<open>Every change touches one upload: an entry that stays in order is all there is to show.\<close>

lemma ok_change:
  assumes "uploads_ok cfg st" "keyed st'" "entry_ok cfg i (record_of st' i) (file_of st' (part_path cfg i)) (meta_of st' i)"
    and "\<And>j. j \<noteq> i \<Longrightarrow> record_of st' j = record_of st j \<and> file_of st' (part_path cfg j) = file_of st (part_path cfg j) \<and>
           meta_of st' j = meta_of st j"
    and "\<And>p. p \<notin> range (part_path cfg) \<Longrightarrow> file_of st' p = file_of st p"
    and "reserved (record_of st') \<le> max_incomplete_bytes cfg"
  shows "uploads_ok cfg st'"
proof -
  have "entry_ok cfg j (record_of st' j) (file_of st' (part_path cfg j)) (meta_of st' j)" for j
    using assms(3,4) uploads_okD(2) [OF assms(1), of j] by (cases "j = i") auto
  moreover have "file_of st' p = None" if "p \<notin> range (part_path cfg)" for p
    using assms(5) [OF that] uploads_okD(3) [OF assms(1) that] by simp
  ultimately show ?thesis using assms(2,6) by (simp add: uploads_ok_def)
qed

section \<open>Operations keep the invariant\<close>

lemma purge_maps:
  assumes "uploads_ok cfg st"
  shows "record_of (purge_expired now st) i = (if due now (record_of st i) then None else record_of st i)"
    and "meta_of (purge_expired now st) i = (if due now (record_of st i) then None else meta_of st i)"
    and "file_of (purge_expired now st) (part_path cfg i) =
           (if due now (record_of st i) then None else file_of st (part_path cfg i))"
    and "p \<notin> range (part_path cfg) \<Longrightarrow> file_of (purge_expired now st) p = file_of st p"
    and "keyed (purge_expired now st)"
  using sweep_maps [OF ok_placed [OF assms], of now st] uploads_okD(1) [OF assms]
  by (simp_all add: purge_is_sweep)

lemma purge_ok: "uploads_ok cfg st \<Longrightarrow> uploads_ok cfg (purge_expired now st)"
proof -
  assume ok: "uploads_ok cfg st"
  have "reserved (record_of (purge_expired now st)) \<le> reserved (record_of st)"
    by (rule reserved_mono) (auto simp: finite_dom_map_of purge_maps [OF ok] ok_sizes [OF ok] split: if_splits)
  moreover have "entry_ok cfg i (record_of (purge_expired now st) i) (file_of (purge_expired now st) (part_path cfg i))
      (meta_of (purge_expired now st) i)" for i
    using uploads_okD(2) [OF ok, of i] by (simp add: purge_maps [OF ok])
  ultimately show ?thesis
    using uploads_okD(3,4) [OF ok] by (auto simp: uploads_ok_def purge_maps [OF ok])
qed

lemma upload_get_state: "snd (upload_get cfg i token now st) = purge_expired now st"
  by (simp add: upload_get_def Let_def split: option.split)

lemma upload_get_result:
  "fst (upload_get cfg i token now st) = Inr r \<longleftrightarrow>
     record_of (purge_expired now st) i = Some r \<and> ul_owner r = owner_hash cfg token"
  by (auto simp: upload_get_def Let_def split: option.split)

lemma upload_get_cases:
  obtains (fail) e where "upload_get cfg i token now st = (Inl e, purge_expired now st)" "e \<noteq> OSError"
    | (found) r where "upload_get cfg i token now st = (Inr r, purge_expired now st)"
        "record_of (purge_expired now st) i = Some r" "ul_owner r = owner_hash cfg token"
proof (cases "fst (upload_get cfg i token now st)")
  case (Inl e)
  moreover have "e \<noteq> OSError" using Inl by (auto simp: upload_get_def Let_def split: option.splits if_splits)
  ultimately show ?thesis using that(1) [of e] upload_get_state [of cfg i token now st] by (metis prod.collapse)
next
  case (Inr r)
  then show ?thesis
    using that(2) [of r] upload_get_state [of cfg i token now st] upload_get_result [of cfg i token now st r]
    by (metis prod.collapse)
qed

lemma open_temp_ok:
  assumes "uploads_ok cfg st" "record_of st i = Some r" "open_temp r st = Inr f"
  shows "file_of st (part_path cfg i) = Some f" "fits r f"
  using assms by (auto simp: open_temp_def split: option.splits if_splits elim!: record_okD)

lemma open_temp_works:
  assumes "uploads_ok cfg st" "record_of st i = Some r"
  obtains f where "open_temp r st = Inr f"
  using assms by (auto simp: open_temp_def fits_def elim!: record_okD)

lemma remove_ok:
  assumes ok: "uploads_ok cfg st" and r: "record_of st i = Some r"
  shows "uploads_ok cfg (remove_upload r st)"
proof -
  have id: "ul_id r = i" "ul_temp r = part_path cfg i" using record_okD [OF assms] by blast+
  have "reserved (record_of (remove_upload r st)) \<le> reserved (record_of st)"
    by (rule reserved_mono) (auto simp: finite_dom_map_of ok_sizes [OF ok] id split: if_splits)
  with uploads_okD(4) [OF ok] have q: "reserved (record_of (remove_upload r st)) \<le> max_incomplete_bytes cfg" by simp
  show ?thesis
    by (rule ok_change [OF ok _ _ _ _ q, of i]) (auto simp: id uploads_okD(1) [OF ok])
qed

lemma set_bytes_ok:
  assumes ok: "uploads_ok cfg st" and r: "record_of st i = Some r" and f: "open_temp r st = Inr f"
    and bs: "ul_offset r \<le> int (length bs)" "int (length bs) \<le> ul_size r"
  shows "uploads_ok cfg (set_bytes r f bs st)"
proof -
  obtain m where id: "ul_id r = i" "ul_temp r = part_path cfg i" "meta_of st i = Some m" "saved_form m r"
    using record_okD [OF ok r] by blast
  have "fits r (f\<lparr>tf_bytes := bs\<rparr>)" using open_temp_ok(2) [OF ok r f] bs by (simp add: fits_def)
  then show ?thesis
    by (intro ok_change [OF ok, of _ i]) (auto simp: id uploads_okD(1,4) [OF ok] r)
qed

lemma advance_ok:
  assumes ok: "uploads_ok cfg st" and r: "record_of st i = Some r" and g: "file_of st (part_path cfg i) = Some g"
    and k: "0 \<le> k" "ul_offset r + k \<le> int (length (tf_bytes g))"
  shows "uploads_ok cfg (set_record (r\<lparr>ul_offset := ul_offset r + k\<rparr>) st)"
    and "uploads_ok cfg (save_upload (r\<lparr>ul_offset := ul_offset r + k\<rparr>) (set_record (r\<lparr>ul_offset := ul_offset r + k\<rparr>) st))"
proof -
  let ?r = "r\<lparr>ul_offset := ul_offset r + k\<rparr>"
  obtain m where id: "ul_id r = i" "ul_temp r = part_path cfg i" "meta_of st i = Some m" "saved_form m r" "fits r g"
    using record_okD [OF ok r] g by auto
  have fit: "fits ?r g" using id(5) k by (simp add: fits_def)
  have sv: "saved_form m ?r" by (rule saved_form_advance [OF id(4) k(1)])
  have rf: "saved_form ?r ?r" using fit by (intro saved_form_refl) (simp add: fits_def)
  have "reserved ((record_of st)(i \<mapsto> ?r)) \<le> reserved (record_of st)"
    by (rule reserved_mono) (auto simp: finite_dom_map_of ok_sizes [OF ok] r split: if_splits)
  with uploads_okD(4) [OF ok] have q: "reserved ((record_of st)(i \<mapsto> ?r)) \<le> max_incomplete_bytes cfg" by simp
  show "uploads_ok cfg (set_record ?r st)"
    by (rule ok_change [OF ok, of _ i]) (use fit sv q in \<open>simp_all add: id g uploads_okD(1) [OF ok]\<close>)
  show "uploads_ok cfg (save_upload ?r (set_record ?r st))"
    by (rule ok_change [OF ok, of _ i]) (use fit rf q in \<open>simp_all add: id g uploads_okD(1) [OF ok]\<close>)
qed

lemma append_chunk_ok:
  assumes ok: "uploads_ok cfg st" and r: "record_of st i = Some r" and f: "open_temp r st = Inr f"
    and len: "0 \<le> len" "ul_offset r + len \<le> ul_size r"
  shows "uploads_ok cfg (snd (append_chunk r f stream len io st))"
proof -
  define n where "n = nat (ul_offset r)"
  have fit: "fits r f" by (rule open_temp_ok(2) [OF ok r f])
  have id: "ul_temp r = part_path cfg i" using record_okD [OF ok r] by blast
  have n: "n \<le> length (tf_bytes f)" "int n = ul_offset r" using fit by (auto simp: n_def fits_def)
  have written: "ul_offset r \<le> int (length (write_at n c (tf_bytes f)))" "int (length (write_at n c (tf_bytes f))) \<le> ul_size r"
    if "length c \<le> nat len" for c
    using that fit n len by (auto simp: length_write_at fits_def)
  have body: "length (take k (take (nat len) stream)) \<le> nat len" for k by simp
  have a: "uploads_ok cfg (set_bytes r f (write_at n (take k (take (nat len) stream)) (tf_bytes f)) st)" for k
    by (rule set_bytes_ok [OF ok r f written(1) [OF body] written(2) [OF body]])
  have b: "uploads_ok cfg (set_bytes r f (truncate_at n (write_at n c (tf_bytes f))) st)" for c
    using n fit by (intro set_bytes_ok [OF ok r f]) (auto simp: truncate_write_at fits_def)
  let ?g = "f\<lparr>tf_bytes := write_at n (take (nat len) stream) (tf_bytes f)\<rparr>"
  let ?st = "set_bytes r f (write_at n (take (nat len) stream) (tf_bytes f)) st"
  have okn: "uploads_ok cfg ?st"
    using a [of "nat len"] by simp
  have g: "file_of ?st (part_path cfg i) = Some ?g" "record_of ?st i = Some r" by (simp_all add: id r)
  have "ul_offset r + len \<le> int (length (tf_bytes ?g))" if "nat len \<le> length stream"
    using that len(1) n by (auto simp: length_write_at)
  note c = advance_ok [OF okn g(2,1) len(1) this]
  show ?thesis
    using a b c by (cases io) (simp_all add: append_chunk_def read_body_eq Let_def n_def del: take_take)
qed

lemma append_ok: "uploads_ok cfg st \<Longrightarrow> uploads_ok cfg (snd (upload_append cfg i token offset stream len io now st))"
proof -
  assume "uploads_ok cfg st"
  then have ok: "uploads_ok cfg (purge_expired now st)" by (rule purge_ok)
  show ?thesis
  proof (cases rule: upload_get_cases [of cfg i token now st])
    case (fail e)
    with ok \<open>uploads_ok cfg st\<close> show ?thesis by (simp add: upload_append_def)
  next
    case (found r)
    show ?thesis
    proof (cases "len < 0 \<or> offset \<noteq> ul_offset r \<or> ul_offset r + len > ul_size r")
      case True
      with ok found \<open>uploads_ok cfg st\<close> show ?thesis by (auto simp: upload_append_def)
    next
      case False
      obtain f where f: "open_temp r (purge_expired now st) = Inr f"
        using open_temp_works [OF ok found(2)] by blast
      have "uploads_ok cfg (snd (append_chunk r f stream len io (purge_expired now st)))"
        by (rule append_chunk_ok [OF ok found(2) f]) (use False in auto)
      with False found(1) f show ?thesis by (simp add: upload_append_def)
    qed
  qed
qed

lemma new_upload_fields [simp]:
  "ul_id (new_upload cfg i token target n sha parents mapping now fid) = i"
  "ul_temp (new_upload cfg i token target n sha parents mapping now fid) = part_path cfg i"
  "ul_size (new_upload cfg i token target n sha parents mapping now fid) = n"
  "ul_offset (new_upload cfg i token target n sha parents mapping now fid) = 0"
  "ul_owner (new_upload cfg i token target n sha parents mapping now fid) = owner_hash cfg token"
  by (simp_all add: new_upload_def)

lemma create_entry_ok:
  fixes fid :: "int \<times> int"
  assumes ok: "uploads_ok cfg st" and i: "record_of st i = None" and free: "file_of st (part_path cfg i) = None"
    and n: "0 \<le> n" "reserved (record_of st) + n \<le> max_incomplete_bytes cfg"
  defines "st1 \<equiv> st\<lparr>temps := AList.update (part_path cfg i) (empty_file fid) (temps st)\<rparr>"
  shows "uploads_ok cfg st1"
    and "uploads_ok cfg (save_upload (new_upload cfg i token target n sha parents mapping now fid)
           (set_record (new_upload cfg i token target n sha parents mapping now fid) st1))"
proof -
  let ?r = "new_upload cfg i token target n sha parents mapping now fid"
  have maps: "record_of st1 = record_of st" "meta_of st1 = meta_of st"
      "file_of st1 = (file_of st)(part_path cfg i \<mapsto> empty_file fid)" "keyed st1"
    using uploads_okD(1) [OF ok] by (simp_all add: st1_def map_of_updates)
  have none: "meta_of st i = None" using uploads_okD(2) [OF ok, of i] i by simp
  show ok1: "uploads_ok cfg st1"
    by (rule ok_change [OF ok, of _ i]) (use uploads_okD(4) [OF ok] in \<open>auto simp: maps i none empty_file_def\<close>)
  have fit: "fits ?r (empty_file fid)" using n(1) by (simp add: fits_def empty_file_def new_upload_def)
  have q: "reserved ((record_of st)(i \<mapsto> ?r)) \<le> max_incomplete_bytes cfg"
    using n(2) by (simp add: reserved_insert [OF finite_dom_map_of i])
  show "uploads_ok cfg (save_upload ?r (set_record ?r st1))"
    by (rule ok_change [OF ok1, of _ i]) (use fit q saved_form_refl [of ?r] in \<open>simp_all add: maps\<close>)
qed

text \<open>What \<open>create\<close> can leave: nothing new, an empty file without a record, or the new upload.\<close>

lemma create_cases:
  fixes t0 :: instant
  assumes ok0: "uploads_ok cfg st"
  defines "s \<equiv> purge_expired t0 st"
  obtains (refused) e where "upload_create cfg token target n sha parents mapping ids io t0 t1 st = (Inl e, st)"
    | (failed) e where "upload_create cfg token target n sha parents mapping ids io t0 t1 st = (Inl e, s)"
    | (leaked) e i fid where "record_of s i = None" "file_of s (part_path cfg i) = None" "0 \<le> n"
        "reserved (record_of s) + n \<le> max_incomplete_bytes cfg"
        "upload_create cfg token target n sha parents mapping ids io t0 t1 st =
           (Inl e, s\<lparr>temps := AList.update (part_path cfg i) (empty_file fid) (temps s)\<rparr>)"
    | (made) i fid where "record_of s i = None" "file_of s (part_path cfg i) = None" "0 \<le> n"
        "reserved (record_of s) + n \<le> max_incomplete_bytes cfg"
        "upload_create cfg token target n sha parents mapping ids io t0 t1 st =
           (Inr (new_upload cfg i token target n sha parents mapping t1 fid),
            save_upload (new_upload cfg i token target n sha parents mapping t1 fid)
              (set_record (new_upload cfg i token target n sha parents mapping t1 fid)
                (s\<lparr>temps := AList.update (part_path cfg i) (empty_file fid) (temps s)\<rparr>)))"
proof -
  have ok: "uploads_ok cfg s" using purge_ok [OF ok0] by (simp add: s_def)
  have sum: "sum_list (map (\<lambda>(_, r). ul_size r) (records s)) = reserved (record_of s)"
    using uploads_okD(1) [OF ok] by (intro reserved_list) (simp add: keyed_def)
  note def = upload_create_def Let_def s_def [symmetric] sum
  show thesis
  proof (cases "n < 0 \<or> n > max_file_bytes cfg \<or> (case sha of None \<Rightarrow> False | Some x \<Rightarrow> \<not> valid_sha256 x)")
    case True
    then have "\<exists>e. upload_create cfg token target n sha parents mapping ids io t0 t1 st = (Inl e, st)" by (auto simp: def)
    then show ?thesis by (blast intro: refused)
  next
    case ok1: False
    show ?thesis
    proof (cases "reserved (record_of s) + n > max_incomplete_bytes cfg \<or> find (\<lambda>i. i \<notin> fst ` set (records s)) ids = None")
      case True
      with ok1 have "\<exists>e. upload_create cfg token target n sha parents mapping ids io t0 t1 st = (Inl e, s)" by (auto simp: def)
      then show ?thesis by (blast intro: failed)
    next
      case False
      then obtain i where i: "find (\<lambda>i. i \<notin> fst ` set (records s)) ids = Some i" by blast
      then have none: "record_of s i = None" by (auto simp: find_Some_iff map_of_eq_None_iff)
      show ?thesis
      proof (cases "file_of s (part_path cfg i)")
        case (Some f)
        then have "part_path cfg i \<in> fst ` set (temps s)" by (force dest: map_of_SomeD)
        with i ok1 False have "\<exists>e. upload_create cfg token target n sha parents mapping ids io t0 t1 st = (Inl e, s)"
          by (auto simp: def)
        then show ?thesis by (blast intro: failed)
      next
        case None
        then have free: "part_path cfg i \<notin> fst ` set (temps s)" by (simp add: map_of_eq_None_iff)
        show ?thesis
        proof (cases io)
          case (Created fid)
          with free i ok1 False show ?thesis by (intro made [OF none None, of fid]) (auto simp: def)
        next
          case (TempLeft fid)
          with free i ok1 False show ?thesis by (intro leaked [OF none None, where fid = fid]) (auto simp: def)
        next
          case TempFails
          with free i ok1 False show ?thesis by (intro failed) (auto simp: def)
        next
          case CreateSaveFails
          with free i ok1 False show ?thesis by (intro failed) (auto simp: def)
        qed
      qed
    qed
  qed
qed

lemma create_ok:
  assumes ok: "uploads_ok cfg st"
  shows "uploads_ok cfg (snd (upload_create cfg token target n sha parents mapping ids io t0 t1 st))"
  using ok
proof (cases rule: create_cases [where token = token and target = target and n = n and sha = sha and parents = parents and
      mapping = mapping and ids = ids and io = io and ?t0.0 = t0 and ?t1.0 = t1])
  case (leaked e i fid)
  then show ?thesis using create_entry_ok(1) [OF purge_ok [OF ok] leaked(1-4), of fid] by (simp only: snd_conv)
next
  case (made i fid)
  then show ?thesis
    using create_entry_ok(2) [OF purge_ok [OF ok] made(1-4), of token target sha parents mapping t1 fid] by (simp only: snd_conv)
qed (simp_all add: ok purge_ok)

lemma finish_ok: "uploads_ok cfg st \<Longrightarrow> uploads_ok cfg (snd (upload_finish cfg i token st))"
  by (auto simp: upload_finish_def remove_ok split: option.split)

lemma cancel_ok: "uploads_ok cfg st \<Longrightarrow> uploads_ok cfg (snd (upload_cancel cfg i token now st))"
  by (cases rule: upload_get_cases [of cfg i token now st])
    (auto simp: upload_cancel_def purge_ok remove_ok)

text \<open>The reading operations leave what the purge leaves.\<close>

lemma reading_state:
  "snd (upload_verify cfg i token readable now st) = purge_expired now st"
  "snd (upload_copy_to cfg i token readable now st) = purge_expired now st"
  "snd (assert_temp_unchanged cfg i token now st) = purge_expired now st"
  by (cases rule: upload_get_cases [of cfg i token now st];
      auto simp: upload_verify_def upload_copy_to_def assert_temp_unchanged_def Let_def split: sum.split)+

end
