(* ===== verification/Upload_Lifecycle.thy ===== *)
theory Upload_Lifecycle
  imports Upload_Safety
begin

text \<open>
  The registry over its lifetime: requests in any order, from any token, with failing writes, and
  crashes after which the registry is loaded again.  The client's view is an abstract upload that only
  grows: the bytes accepted so far.
\<close>

section \<open>Events\<close>

datatype upload_event =
    ECreate string string int "string option" bool "string option" "string list" create_io instant instant
  | EGet string string instant
  | EAppend string string int bytes int append_io instant
  | EVerify string string bool instant
  | ECopy string string bool instant
  | EAssert string string instant
  | EFinish string string
  | ECancel string string instant
  | ERestart "string list" instant

text \<open>
  A crash may come between the two deletions of a removal, when the temporary file is gone and the
  metadata file is not; \<open>lost\<close> are the uploads that this happened to.
\<close>

definition crash :: "upload_config \<Rightarrow> string list \<Rightarrow> uploads \<Rightarrow> uploads" where
  "crash cfg lost st = st\<lparr>records := [], temps := filter (\<lambda>(p, _). p \<notin> part_path cfg ` set lost) (temps st)\<rparr>"

fun upload_step :: "upload_config \<Rightarrow> upload_event \<Rightarrow> uploads \<Rightarrow> uploads" where
  "upload_step cfg (ECreate token target n sha parents mapping ids io t0 t1) st =
     snd (upload_create cfg token target n sha parents mapping ids io t0 t1 st)"
| "upload_step cfg (EGet i token now) st = snd (upload_get cfg i token now st)"
| "upload_step cfg (EAppend i token offset stream len io now) st =
     snd (upload_append cfg i token offset stream len io now st)"
| "upload_step cfg (EVerify i token readable now) st = snd (upload_verify cfg i token readable now st)"
| "upload_step cfg (ECopy i token readable now) st = snd (upload_copy_to cfg i token readable now st)"
| "upload_step cfg (EAssert i token now) st = snd (assert_temp_unchanged cfg i token now st)"
| "upload_step cfg (EFinish i token) st = snd (upload_finish cfg i token st)"
| "upload_step cfg (ECancel i token now) st = snd (upload_cancel cfg i token now st)"
| "upload_step cfg (ERestart lost now) st = load_uploads now (crash cfg lost st)"

definition run_uploads :: "upload_config \<Rightarrow> upload_event list \<Rightarrow> uploads" where
  "run_uploads cfg es = fold (upload_step cfg) es no_uploads"

section \<open>Loading the directory\<close>

lemma map_of_filter_key: "map_of (filter (\<lambda>(k, _). P k) al) k = (if P k then map_of al k else None)"
  by (induction al) auto

lemma crash_maps:
  "record_of (crash cfg lost st) = Map.empty"
  "meta_of (crash cfg lost st) = meta_of st"
  "file_of (crash cfg lost st) p = (if p \<in> part_path cfg ` set lost then None else file_of st p)"
  "keyed st \<Longrightarrow> keyed (crash cfg lost st)"
proof -
  show "file_of (crash cfg lost st) p = (if p \<in> part_path cfg ` set lost then None else file_of st p)"
    using map_of_filter_key [of "\<lambda>p. p \<notin> part_path cfg ` set lost" "temps st" p] by (simp add: crash_def)
  show "keyed st \<Longrightarrow> keyed (crash cfg lost st)"
    by (simp add: crash_def keyed_def distinct_map_filter)
qed (simp_all add: crash_def)

text \<open>A restart brings back every upload whose file is there, at the saved offset.\<close>

definition reloaded :: "upload_config \<Rightarrow> string list \<Rightarrow> uploads \<Rightarrow> uploads" where
  "reloaded cfg lost st = fold load_one (metas st) (crash cfg lost st)"

lemma load_is_reload: "load_uploads now (crash cfg lost st) = purge_expired now (reloaded cfg lost st)"
proof -
  have "(crash cfg lost st)\<lparr>records := []\<rparr> = crash cfg lost st" "metas (crash cfg lost st) = metas st"
    by (cases st; simp add: crash_def)+
  then show ?thesis by (simp only: load_uploads_def reloaded_def)
qed

lemma meta_placed: "uploads_ok cfg st \<Longrightarrow> placed cfg (metas st)"
proof -
  assume ok: "uploads_ok cfg st"
  have d: "distinct (map fst (metas st))" using uploads_okD(1) [OF ok] by (simp add: keyed_def)
  have "ul_id m = i \<and> ul_temp m = part_path cfg i" if "(i, m) \<in> set (metas st)" for i m
  proof (cases "record_of st i")
    case None
    then show ?thesis using uploads_okD(2) [OF ok, of i] map_of_is_SomeI [OF d that] by simp
  next
    case (Some r)
    then show ?thesis using map_of_is_SomeI [OF d that]
      by (auto elim!: record_okD [OF ok] dest: saved_form_fields)
  qed
  with d show ?thesis by (auto simp: placed_def)
qed

lemma reloaded_entry:
  assumes ok: "uploads_ok cfg st"
  obtains (gone) "record_of (reloaded cfg lost st) i = None" "meta_of (reloaded cfg lost st) i = None"
      "file_of (reloaded cfg lost st) (part_path cfg i) =
         (if i \<in> set lost then None else file_of st (part_path cfg i))" "record_of st i = None \<or> i \<in> set lost"
    | (kept) r m f where "record_of st i = Some r" "meta_of st i = Some m" "saved_form m r" "i \<notin> set lost"
      "file_of st (part_path cfg i) = Some f" "fits r f" "fits m (cut_back m f)"
      "record_of (reloaded cfg lost st) i = Some m" "meta_of (reloaded cfg lost st) i = Some m"
      "file_of (reloaded cfg lost st) (part_path cfg i) = Some (cut_back m f)"
proof -
  note L = load_maps [OF meta_placed [OF ok], of "crash cfg lost st", folded reloaded_def, unfolded crash_maps]
  show thesis
  proof (cases "record_of st i")
    case None
    then have "meta_of st i = None" using uploads_okD(2) [OF ok, of i] by simp
    with L None show ?thesis by (intro gone) (auto simp: restored_def)
  next
    case (Some r)
    from record_okD [OF ok Some] obtain f m where e: "ul_id r = i" "file_of st (part_path cfg i) = Some f" "fits r f"
      "meta_of st i = Some m" "saved_form m r" "ul_temp r = part_path cfg i" by metis
    show ?thesis
    proof (cases "i \<in> set lost")
      case True
      with L e show ?thesis by (intro gone) (auto simp: restored_def)
    next
      case False
      have m: "fits m (cut_back m f)" "restored (Some m) (Some f)"
        using e(3) saved_form_fields [OF e(5)] by (auto simp: fits_def cut_back_def restored_def)
      with L e False Some show ?thesis by (intro kept [of r m f]) auto
    qed
  qed
qed

lemma reloaded_ok: "uploads_ok cfg st \<Longrightarrow> uploads_ok cfg (reloaded cfg lost st)"
proof -
  assume ok: "uploads_ok cfg st"
  note L = load_maps [OF meta_placed [OF ok], of "crash cfg lost st", folded reloaded_def, unfolded crash_maps]
  have "entry_ok cfg i (record_of (reloaded cfg lost st) i) (file_of (reloaded cfg lost st) (part_path cfg i))
      (meta_of (reloaded cfg lost st) i)" for i
    using ok
  proof (cases rule: reloaded_entry [where lost = lost and i = i])
    case gone
    then show ?thesis using uploads_okD(2) [OF ok, of i] by auto
  next
    case (kept r m f)
    then have "ul_id m = i" "ul_temp m = part_path cfg i" "saved_form m m"
      using saved_form_fields [OF kept(3)] saved_form_refl [of m] record_okD [OF ok kept(1)] by metis+
    with kept show ?thesis by simp
  qed
  moreover have "reserved (record_of (reloaded cfg lost st)) \<le> reserved (record_of st)"
  proof (rule reserved_mono)
    fix i r' assume "record_of (reloaded cfg lost st) i = Some r'"
    with ok show "\<exists>r. record_of st i = Some r \<and> ul_size r = ul_size r'"
      by (cases rule: reloaded_entry [where lost = lost and i = i]) (auto dest: saved_form_fields)
  qed (auto simp: finite_dom_map_of ok_sizes [OF ok])
  moreover have "keyed (reloaded cfg lost st)"
    using L crash_maps(4) [OF uploads_okD(1) [OF ok]] by blast
  moreover have "file_of (reloaded cfg lost st) p = None" if "p \<notin> range (part_path cfg)" for p
    using L that uploads_okD(3) [OF ok that] by auto
  ultimately show ?thesis using uploads_okD(4) [OF ok] by (simp add: uploads_ok_def)
qed

lemma event_ok: "uploads_ok cfg st \<Longrightarrow> uploads_ok cfg (upload_step cfg e st)"
  by (cases e) (simp_all add: create_ok upload_get_state purge_ok append_ok reading_state finish_ok cancel_ok
      load_is_reload reloaded_ok)

lemma no_uploads_ok: "0 \<le> max_incomplete_bytes cfg \<Longrightarrow> uploads_ok cfg no_uploads"
  by (simp add: uploads_ok_def no_uploads_def keyed_def reserved_def)

interpretation registry: state_machine "\<lambda>st. st = no_uploads \<and> 0 \<le> max_incomplete_bytes cfg"
    "\<lambda>st st'. \<exists>e. st' = upload_step cfg e st" "uploads_ok cfg" for cfg
  by unfold_locales (auto simp: no_uploads_ok event_ok)

lemma run_steps: "(\<lambda>st st'. \<exists>e. st' = upload_step cfg e st)\<^sup>*\<^sup>* st (fold (upload_step cfg) es st)"
  by (induction es arbitrary: st) (auto intro: converse_rtranclp_into_rtranclp)

lemma run_ok: "0 \<le> max_incomplete_bytes cfg \<Longrightarrow> uploads_ok cfg (run_uploads cfg es)"
  unfolding run_uploads_def by (rule registry.reachable_inv [OF _ run_steps]) simp

section \<open>What an append does to the accepted bytes\<close>

definition contents :: "upload_config \<Rightarrow> uploads \<Rightarrow> string \<Rightarrow> bytes option" where
  "contents cfg st i =
     (case (record_of st i, file_of st (part_path cfg i)) of
        (Some r, Some f) \<Rightarrow> Some (take (nat (ul_offset r)) (tf_bytes f))
      | _ \<Rightarrow> None)"

lemma contents_Some:
  "uploads_ok cfg st \<Longrightarrow> record_of st i = Some r \<Longrightarrow> \<exists>bs. contents cfg st i = Some bs \<and> int (length bs) = ul_offset r"
  by (erule (1) record_okD) (auto simp: contents_def fits_def)

lemma contents_same:
  "record_of st' i = record_of st i \<Longrightarrow> file_of st' (part_path cfg i) = file_of st (part_path cfg i) \<Longrightarrow>
   contents cfg st' i = contents cfg st i"
  by (simp add: contents_def)

lemma append_chunk_effect:
  assumes ok: "uploads_ok cfg st" and r: "record_of st i = Some r" and f: "open_temp r st = Inr f" and len: "0 \<le> len"
  obtains (kept) e st' where "append_chunk r f stream len io st = (Inl e, st')" "e \<noteq> OSError"
      "record_of st' = record_of st" "contents cfg st' i = contents cfg st i"
      "\<forall>j. j \<noteq> i \<longrightarrow> file_of st' (part_path cfg j) = file_of st (part_path cfg j)"
      "io \<noteq> Appended \<or> length stream < nat len"
    | (grown) res st' where "append_chunk r f stream len io st = (res, st')"
      "res = (if io = Appended then Inr (r\<lparr>ul_offset := ul_offset r + len\<rparr>) else Inl OSError)"
      "record_of st' = (record_of st)(i \<mapsto> r\<lparr>ul_offset := ul_offset r + len\<rparr>)"
      "contents cfg st' i = Some (the (contents cfg st i) @ take (nat len) stream)"
      "\<forall>j. j \<noteq> i \<longrightarrow> file_of st' (part_path cfg j) = file_of st (part_path cfg j)"
      "nat len \<le> length stream" "io = Appended \<or> io = SaveFails"
proof -
  define n where "n = nat (ul_offset r)"
  have ff: "file_of st (part_path cfg i) = Some f" "fits r f" using open_temp_ok [OF ok r f] by auto
  have id: "ul_temp r = part_path cfg i" "ul_id r = i" using record_okD [OF ok r] by blast+
  have n: "n \<le> length (tf_bytes f)" "nat (ul_offset r + len) = n + nat len" using ff(2) len by (auto simp: n_def fits_def)
  have old: "contents cfg st i = Some (take n (tf_bytes f))" by (simp add: contents_def r ff n_def)
  have same: "contents cfg (set_bytes r f bs st) i = contents cfg st i" if "take n bs = take n (tf_bytes f)" for bs
    using that by (simp add: contents_def r id ff n_def)
  let ?bs = "write_at n (take (nat len) stream) (tf_bytes f)"
  let ?st = "set_record (r\<lparr>ul_offset := ul_offset r + len\<rparr>) (set_bytes r f ?bs st)"
  have new: "contents cfg ?st i = Some (the (contents cfg st i) @ take (nat len) stream)"
      "contents cfg (save_upload q ?st) i = contents cfg ?st i" if "nat len \<le> length stream" for q
    using take_write_at_end [OF n(1), of "take (nat len) stream"] that
    by (simp_all add: contents_def id r ff n n_def [symmetric] min_absorb2)
  note def = append_chunk_def [of r f stream len, unfolded Let_def, folded n_def] read_body_eq
  show thesis
  proof (cases io)
    case (WriteFails k)
    show ?thesis
      by (rule kept [of "UploadError 500 ''upload_write_failed''" "set_bytes r f (write_at n (take k (take (nat len) stream)) (tf_bytes f)) st"])
        (use n in \<open>simp_all add: WriteFails def same take_write_at id\<close>)
  next
    case Appended
    show ?thesis
    proof (cases "nat len \<le> length stream")
      case True
      then show ?thesis
        by (intro grown [of _ "save_upload (r\<lparr>ul_offset := ul_offset r + len\<rparr>) ?st"])
          (simp_all add: Appended def new id)
    next
      case False
      then show ?thesis
        by (intro kept [of "UploadError 400 ''incomplete_body''" "set_bytes r f (truncate_at n ?bs) st"])
          (use n in \<open>simp_all add: Appended def same truncate_write_at id\<close>)
    qed
  next
    case SaveFails
    show ?thesis
    proof (cases "nat len \<le> length stream")
      case True
      then show ?thesis by (intro grown [of _ ?st]) (simp_all add: SaveFails def new id)
    next
      case False
      then show ?thesis
        by (intro kept [of "UploadError 400 ''incomplete_body''" "set_bytes r f (truncate_at n ?bs) st"])
          (use n in \<open>simp_all add: SaveFails def same truncate_write_at id\<close>)
    qed
  qed
qed

text \<open>
  A whole append: either it fails, and the accepted bytes of every upload are those that the purge
  leaves, or the body is appended to the upload (when only the final save fails, the caller sees an
  error and the bytes are accepted none the less).
\<close>

lemma append_effect:
  fixes now :: instant
  assumes "uploads_ok cfg st"
  defines "s \<equiv> purge_expired now st"
  obtains (refused) e where "upload_append cfg i token offset stream len io now st = (Inl e, st)" "len < 0" "e \<noteq> OSError"
    | (kept) e st' where "upload_append cfg i token offset stream len io now st = (Inl e, st')" "e \<noteq> OSError"
      "record_of st' = record_of s" "\<forall>j. contents cfg st' j = contents cfg s j"
    | (grown) res st' r where "upload_append cfg i token offset stream len io now st = (res, st')"
      "res = (if io = Appended then Inr (r\<lparr>ul_offset := ul_offset r + len\<rparr>) else Inl OSError)"
      "io = Appended \<or> io = SaveFails"
      "record_of s i = Some r" "ul_owner r = owner_hash cfg token" "offset = ul_offset r" "0 \<le> len"
      "nat len \<le> length stream" "ul_offset r + len \<le> ul_size r"
      "record_of st' = (record_of s)(i \<mapsto> r\<lparr>ul_offset := ul_offset r + len\<rparr>)"
      "contents cfg st' i = Some (the (contents cfg s i) @ take (nat len) stream)"
      "\<forall>j. j \<noteq> i \<longrightarrow> contents cfg st' j = contents cfg s j"
proof -
  have ok: "uploads_ok cfg s" using purge_ok [OF assms(1)] by (simp add: s_def)
  show thesis
  proof (cases "len < 0")
    case True
    then show ?thesis by (intro refused) (auto simp: upload_append_def)
  next
    case len: False
    show ?thesis
    proof (cases rule: upload_get_cases [of cfg i token now st])
      case (fail e)
      with len show ?thesis by (intro kept [of e s]) (simp_all add: upload_append_def s_def)
    next
      case (found r)
      note r = found [folded s_def]
      obtain f where f: "open_temp r s = Inr f" using open_temp_works [OF ok r(2)] by blast
      have eq: "upload_append cfg i token offset stream len io now st =
        (if offset \<noteq> ul_offset r then (Inl (UploadError 409 ''upload_offset_mismatch''), s)
         else if ul_offset r + len > ul_size r then (Inl (UploadError 413 ''upload_too_large''), s)
         else append_chunk r f stream len io s)"
        using len r f by (simp add: upload_append_def)
      show ?thesis
      proof (cases "offset = ul_offset r \<and> ul_offset r + len \<le> ul_size r")
        case False
        then have "\<exists>e. upload_append cfg i token offset stream len io now st = (Inl e, s) \<and> e \<noteq> OSError" by (auto simp: eq)
        then show ?thesis by (blast intro: kept)
      next
        case True
        then have eqT: "upload_append cfg i token offset stream len io now st = append_chunk r f stream len io s"
          unfolding eq by simp
        have "0 \<le> len" using len by simp
        with ok r(2) f show ?thesis
        proof (cases rule: append_chunk_effect [where stream = stream and io = io])
          case (kept e st')
          have "contents cfg st' j = contents cfg s j" for j
            using kept(3-5) by (cases "j = i") (auto intro: contents_same)
          with kept(1-3) show ?thesis by (intro that(2) [of e st']) (simp_all only: eqT, simp_all)
        next
          case (grown res st')
          then have "\<forall>j. j \<noteq> i \<longrightarrow> contents cfg st' j = contents cfg s j"
            by (auto intro: contents_same)
          then show ?thesis
            by (rule that(3) [OF trans [OF eqT grown(1)] grown(2,7) r(2,3) conjunct1 [OF True] \<open>0 \<le> len\<close>
                grown(6) conjunct2 [OF True] grown(3,4)])
        qed
      qed
    qed
  qed
qed

section \<open>A client that sends one file\<close>

fun honest :: "upload_config \<Rightarrow> string \<Rightarrow> string \<Rightarrow> bytes \<Rightarrow> upload_event \<Rightarrow> bool" where
  "honest cfg i h data (EAppend j token offset stream len io now) \<longleftrightarrow>
     (j = i \<and> owner_hash cfg token = h \<longrightarrow> prefix (take (nat len) stream) (drop (nat offset) data))"
| "honest cfg i h data _ \<longleftrightarrow> True"

definition tracks :: "upload_config \<Rightarrow> string \<Rightarrow> string \<Rightarrow> bytes \<Rightarrow> uploads \<Rightarrow> bool" where
  "tracks cfg i h data st \<longleftrightarrow>
     (\<forall>r bs. record_of st i = Some r \<longrightarrow> ul_owner r = h \<longrightarrow> contents cfg st i = Some bs \<longrightarrow> prefix bs data)"

lemma tracks_mono:
  assumes "tracks cfg i h data st"
    and "\<And>r' bs'. record_of st' i = Some r' \<Longrightarrow> contents cfg st' i = Some bs' \<Longrightarrow> bs' \<noteq> [] \<Longrightarrow>
           \<exists>r bs. record_of st i = Some r \<and> ul_owner r = ul_owner r' \<and> contents cfg st i = Some bs \<and> prefix bs' bs"
  shows "tracks cfg i h data st'"
  unfolding tracks_def
proof (intro allI impI)
  fix r' bs' assume a: "record_of st' i = Some r'" "ul_owner r' = h" "contents cfg st' i = Some bs'"
  show "prefix bs' data"
  proof (cases "bs' = []")
    case False
    from assms(2) [OF a(1,3) False] obtain r bs where "record_of st i = Some r" "ul_owner r = h"
      "contents cfg st i = Some bs" "prefix bs' bs" using a(2) by auto
    with assms(1) show ?thesis unfolding tracks_def by (blast intro: prefix_order.trans)
  qed simp
qed

lemma contents_purge:
  "uploads_ok cfg st \<Longrightarrow>
   contents cfg (purge_expired now st) i = (if due now (record_of st i) then None else contents cfg st i)"
  by (auto simp: contents_def purge_maps)

lemma tracks_purge: "uploads_ok cfg st \<Longrightarrow> tracks cfg i h data st \<Longrightarrow> tracks cfg i h data (purge_expired now st)"
  by (erule tracks_mono) (auto simp: contents_purge purge_maps split: if_splits)

lemma tracks_remove:
  assumes "uploads_ok cfg st" "record_of st j = Some r" "tracks cfg i h data st"
  shows "tracks cfg i h data (remove_upload r st)"
proof -
  have "ul_id r = j" "ul_temp r = part_path cfg j" using record_okD [OF assms(1,2)] by blast+
  then show ?thesis
    by (intro tracks_mono [OF assms(3)]) (auto simp: contents_def split: if_splits)
qed

lemma tracks_reloaded:
  assumes ok: "uploads_ok cfg st" and t: "tracks cfg i h data st"
  shows "tracks cfg i h data (reloaded cfg lost st)"
proof (rule tracks_mono [OF t])
  fix r' bs'
  assume a: "record_of (reloaded cfg lost st) i = Some r'" "contents cfg (reloaded cfg lost st) i = Some bs'"
  from ok show "\<exists>r bs. record_of st i = Some r \<and> ul_owner r = ul_owner r' \<and> contents cfg st i = Some bs \<and> prefix bs' bs"
  proof (cases rule: reloaded_entry [where lost = lost and i = i])
    case gone
    with a show ?thesis by simp
  next
    case (kept r m f)
    note m = saved_form_fields [OF kept(3)]
    have "bs' = take (nat (ul_offset m)) (tf_bytes f)" using a kept by (simp add: contents_def cut_back_def)
    then have "prefix bs' (take (nat (ul_offset r)) (tf_bytes f))"
      using m by (metis min.absorb1 nat_mono take_is_prefix take_take)
    with a kept m show ?thesis by (simp add: contents_def)
  qed
qed

lemma prefix_extend: "prefix bs data \<Longrightarrow> prefix c (drop (length bs) data) \<Longrightarrow> prefix (bs @ c) data"
  by (auto simp: prefix_def)

lemma tracks_append:
  assumes ok: "uploads_ok cfg st" and t: "tracks cfg i h data st"
    and hon: "honest cfg i h data (EAppend j token offset stream len io now)"
  shows "tracks cfg i h data (snd (upload_append cfg j token offset stream len io now st))"
  using ok
proof (cases rule: append_effect [where i = j and token = token and offset = offset and stream = stream and
      len = len and io = io and now = now])
  case (kept e st')
  then show ?thesis using tracks_purge [OF ok t, of now] by (simp add: tracks_def)
next
  case (grown res st' r)
  have pt: "tracks cfg i h data (purge_expired now st)" by (rule tracks_purge [OF ok t])
  show ?thesis
  proof (cases "i = j \<and> ul_owner r = h")
    case True
    obtain bs where bs: "contents cfg (purge_expired now st) i = Some bs" "int (length bs) = ul_offset r"
      using contents_Some [OF purge_ok [OF ok]] grown(4) True by blast
    then have "prefix bs data" using pt grown(4) True by (simp add: tracks_def)
    moreover have "prefix (take (nat len) stream) (drop (length bs) data)"
    proof -
      have "nat (ul_offset r) = length bs" using bs(2) by linarith
      then show ?thesis using hon True grown(5,6) by simp
    qed
    ultimately show ?thesis using grown True bs(1) prefix_extend [of bs data "take (nat len) stream"] by (simp add: tracks_def)
  next
    case False
    then show ?thesis using pt grown by (auto simp: tracks_def)
  qed
qed (simp add: t)

lemma tracks_create:
  assumes ok: "uploads_ok cfg st" and t: "tracks cfg i h data st"
  shows "tracks cfg i h data (snd (upload_create cfg token target n sha parents mapping ids io t0 t1 st))"
  using ok
proof (cases rule: create_cases [where token = token and target = target and n = n and sha = sha and parents = parents and
      mapping = mapping and ids = ids and io = io and ?t0.0 = t0 and ?t1.0 = t1])
  case (leaked e j fid)
  then show ?thesis
    by (intro tracks_mono [OF tracks_purge [OF ok t, of t0]]) (auto simp: contents_def map_of_updates split: if_splits)
next
  case (made j fid)
  then show ?thesis
    by (intro tracks_mono [OF tracks_purge [OF ok t, of t0]]) (auto simp: contents_def map_of_updates split: if_splits)
qed (simp_all add: t tracks_purge [OF ok])

lemma tracks_step:
  assumes ok: "uploads_ok cfg st" and t: "tracks cfg i h data st" and hon: "honest cfg i h data e"
  shows "tracks cfg i h data (upload_step cfg e st)"
proof (cases e)
  case (EAppend j token offset stream len io now)
  then show ?thesis using tracks_append [OF ok t] hon by simp
next
  case (EFinish j token)
  then show ?thesis using t by (auto simp: upload_finish_def tracks_remove [OF ok] split: option.split)
next
  case (ECancel j token now)
  then show ?thesis using tracks_remove [OF purge_ok [OF ok] _ tracks_purge [OF ok t]] tracks_purge [OF ok t]
    by (cases rule: upload_get_cases [of cfg j token now st]) (simp_all add: upload_cancel_def)
qed (simp_all add: tracks_create tracks_purge tracks_reloaded ok t upload_get_state reading_state load_is_reload
    reloaded_ok)

lemma run_tracks:
  assumes "0 \<le> max_incomplete_bytes cfg" "list_all (honest cfg i h data) es"
  shows "tracks cfg i h data (run_uploads cfg es)"
  using assms(2)
proof (induction es rule: rev_induct)
  case Nil
  then show ?case by (simp add: run_uploads_def no_uploads_def tracks_def)
next
  case (snoc e es)
  then show ?case using tracks_step [OF run_ok [OF assms(1), of es]] by (simp add: run_uploads_def)
qed

text \<open>A finished upload is read back as accepted.\<close>

lemma copied_contents:
  assumes ok: "uploads_ok cfg st" and c: "fst (upload_copy_to cfg i token readable now st) = Inr (r, bs)"
  shows "record_of (purge_expired now st) i = Some r" "ul_owner r = owner_hash cfg token"
    "contents cfg (purge_expired now st) i = Some bs" "int (length bs) = ul_size r"
proof -
  let ?s = "purge_expired now st"
  have oks: "uploads_ok cfg ?s" by (rule purge_ok [OF ok])
  have "record_of ?s i = Some r \<and> ul_owner r = owner_hash cfg token \<and> contents cfg ?s i = Some bs \<and> int (length bs) = ul_size r"
  proof (cases rule: upload_get_cases [of cfg i token now st])
    case (fail e)
    then show ?thesis using c by (simp add: upload_copy_to_def)
  next
    case (found q)
    obtain f where f: "open_temp q ?s = Inr f" using open_temp_works [OF oks found(2)] by blast
    have "q = r" "bs = tf_bytes f" "ul_offset r = ul_size r" "int (length bs) = ul_size r"
      using c found(1) f by (simp_all add: upload_copy_to_def split: if_splits)
    then show ?thesis using found open_temp_ok [OF oks found(2) f] by (auto simp: contents_def fits_def)
  qed
  then show "record_of ?s i = Some r" "ul_owner r = owner_hash cfg token"
    "contents cfg ?s i = Some bs" "int (length bs) = ul_size r" by simp_all
qed

section \<open>The space the directory takes\<close>

definition disk_usage :: "uploads \<Rightarrow> int" where
  "disk_usage st = sum_list (map (\<lambda>(_, f). int (length (tf_bytes f))) (temps st))"

lemma disk_usage_map:
  "distinct (map fst fs) \<Longrightarrow>
     sum_list (map (\<lambda>(_, f). int (length (tf_bytes f))) fs) = (\<Sum>p \<in> dom (map_of fs). int (length (tf_bytes (the (map_of fs p)))))"
proof (induction fs)
  case (Cons a fs)
  obtain p f where a: "a = (p, f)" by (cases a)
  let ?g = "\<lambda>m q. int (length (tf_bytes (the (m q))))"
  have p: "p \<notin> dom (map_of fs)" using Cons.prems by (auto simp: a dom_map_of_conv_image_fst)
  have "(\<Sum>q \<in> dom (map_of fs). ?g ((map_of fs)(p \<mapsto> f)) q) = (\<Sum>q \<in> dom (map_of fs). ?g (map_of fs) q)"
    using p by (intro sum.cong) auto
  moreover have "(\<Sum>q \<in> dom ((map_of fs)(p \<mapsto> f)). ?g ((map_of fs)(p \<mapsto> f)) q) =
      int (length (tf_bytes f)) + (\<Sum>q \<in> dom (map_of fs). ?g ((map_of fs)(p \<mapsto> f)) q)"
    using p by (simp add: finite_dom_map_of del: fun_upd_apply) simp
  ultimately show ?case using Cons by (simp add: a fun_upd_def)
qed simp

lemma disk_usage_reserved: "uploads_ok cfg st \<Longrightarrow> disk_usage st \<le> reserved (record_of st)"
proof -
  assume ok: "uploads_ok cfg st"
  let ?n = "\<lambda>p. int (length (tf_bytes (the (file_of st p))))"
  let ?P = "part_path cfg ` dom (record_of st)"
  have fin: "finite (dom (file_of st))" "finite ?P" by (simp_all add: finite_dom_map_of)
  have sub: "?P \<subseteq> dom (file_of st)" using record_okD [OF ok] by (auto elim: record_okD [OF ok])
  have zero: "?n p = 0" if p: "p \<in> dom (file_of st) - ?P" for p
  proof -
    obtain i where "p = part_path cfg i" using p uploads_okD(3) [OF ok, of p] by fastforce
    moreover from this have "record_of st i = None" using p by auto
    ultimately show ?thesis using p uploads_okD(2) [OF ok, of i] by auto
  qed
  have "disk_usage st = (\<Sum>p \<in> dom (file_of st). ?n p)"
    unfolding disk_usage_def using uploads_okD(1) [OF ok] by (intro disk_usage_map) (simp add: keyed_def)
  also have "\<dots> = (\<Sum>p \<in> ?P. ?n p)" using fin sub zero by (intro sum.mono_neutral_right) auto
  also have "\<dots> = (\<Sum>i \<in> dom (record_of st). ?n (part_path cfg i))" by (subst sum.reindex) (auto simp: inj_on_def)
  also have "\<dots> \<le> reserved (record_of st)"
    unfolding reserved_def
  proof (rule sum_mono)
    fix i assume "i \<in> dom (record_of st)"
    then obtain r where r: "record_of st i = Some r" by blast
    show "?n (part_path cfg i) \<le> ul_size (the (record_of st i))"
      using r by (rule record_okD [OF ok]) (simp add: r fits_def)
  qed
  finally show ?thesis .
qed

section \<open>Resuming\<close>

text \<open>A client that sends the rest in chunks, each at its own time, at the offset it was told last.\<close>

fun send_chunks :: "upload_config \<Rightarrow> string \<Rightarrow> string \<Rightarrow> int \<Rightarrow> (instant \<times> bytes) list \<Rightarrow> (uploads, unit) op" where
  "send_chunks cfg i token offset [] st = (Inr (), st)"
| "send_chunks cfg i token offset ((t, c) # cs) st =
     (case upload_append cfg i token offset c (int (length c)) Appended t st of
        (Inl e, st1) \<Rightarrow> (Inl e, st1)
      | (Inr r, st1) \<Rightarrow> send_chunks cfg i token (ul_offset r) cs st1)"

lemma append_succeeds:
  assumes ok: "uploads_ok cfg st" and r: "record_of st i = Some r" "ul_owner r = owner_hash cfg token" "now < ul_expires r"
    and c: "contents cfg st i = Some bs" and fit: "int (length bs) + int (length chunk) \<le> ul_size r"
  obtains st' where "upload_append cfg i token (int (length bs)) chunk (int (length chunk)) Appended now st =
      (Inr (r\<lparr>ul_offset := int (length bs) + int (length chunk)\<rparr>), st')"
    "uploads_ok cfg st'" "record_of st' i = Some (r\<lparr>ul_offset := int (length bs) + int (length chunk)\<rparr>)"
    "contents cfg st' i = Some (bs @ chunk)"
proof -
  let ?s = "purge_expired now st"
  have oks: "uploads_ok cfg ?s" by (rule purge_ok [OF ok])
  have rs: "record_of ?s i = Some r" "contents cfg ?s i = Some bs"
    using r c by (simp_all add: purge_maps [OF ok] contents_purge [OF ok])
  have off: "ul_offset r = int (length bs)" using contents_Some [OF oks rs(1)] rs(2) by auto
  obtain f where f: "open_temp r ?s = Inr f" using open_temp_works [OF oks rs(1)] by blast
  have "fst (upload_get cfg i token now st) = Inr r" using upload_get_result rs(1) r(2) by blast
  then have "upload_get cfg i token now st = (Inr r, ?s)"
    using upload_get_state [of cfg i token now st] by (metis prod.collapse)
  with f off fit have eq: "upload_append cfg i token (int (length bs)) chunk (int (length chunk)) Appended now st =
      append_chunk r f chunk (int (length chunk)) Appended ?s"
    by (simp add: upload_append_def)
  have "uploads_ok cfg (snd (append_chunk r f chunk (int (length chunk)) Appended ?s))"
    by (rule append_chunk_ok [OF oks rs(1) f]) (use off fit in auto)
  moreover have "0 \<le> int (length chunk)" by simp
  with oks rs(1) f show thesis
  proof (cases rule: append_chunk_effect [where stream = chunk and io = Appended])
    case (grown res st')
    with calculation show ?thesis by (intro that [of st']) (simp_all add: eq off rs(2))
  qed simp
qed

lemma send_chunks_complete:
  assumes "uploads_ok cfg st" "record_of st i = Some r" "ul_owner r = owner_hash cfg token"
    and "contents cfg st i = Some bs" "bs @ concat (map snd chunks) = data" "int (length data) = ul_size r"
    and "list_all (\<lambda>(t, _). t < ul_expires r) chunks"
  shows "\<exists>st' r'. send_chunks cfg i token (int (length bs)) chunks st = (Inr (), st') \<and> uploads_ok cfg st' \<and>
           record_of st' i = Some r' \<and> ul_owner r' = ul_owner r \<and> ul_expires r' = ul_expires r \<and> ul_size r' = ul_size r \<and>
           ul_sha r' = ul_sha r \<and> contents cfg st' i = Some data"
  using assms
proof (induction chunks arbitrary: st r bs)
  case (Cons x chunks)
  obtain t c where x: "x = (t, c)" by (cases x)
  have t: "t < ul_expires r" and fit: "int (length bs) + int (length c) \<le> ul_size r"
    using Cons.prems(5-7) by (auto simp: x)
  obtain st1 where s1: "upload_append cfg i token (int (length bs)) c (int (length c)) Appended t st =
      (Inr (r\<lparr>ul_offset := int (length bs) + int (length c)\<rparr>), st1)" "uploads_ok cfg st1"
      "record_of st1 i = Some (r\<lparr>ul_offset := int (length bs) + int (length c)\<rparr>)" "contents cfg st1 i = Some (bs @ c)"
    by (rule append_succeeds [OF Cons.prems(1-3) t Cons.prems(4) fit])
  show ?case
    using Cons.IH [OF s1(2,3) _ s1(4)] Cons.prems(3,5-7) s1(1) by (simp add: x)
qed auto

lemma copy_succeeds:
  assumes ok: "uploads_ok cfg st" and r: "record_of st i = Some r" "ul_owner r = owner_hash cfg token" "now < ul_expires r"
    and c: "contents cfg st i = Some data" "int (length data) = ul_size r"
  shows "fst (upload_copy_to cfg i token True now st) = Inr (r, data)"
proof -
  let ?s = "purge_expired now st"
  have oks: "uploads_ok cfg ?s" by (rule purge_ok [OF ok])
  have rs: "record_of ?s i = Some r" "contents cfg ?s i = Some data"
    using r c by (simp_all add: purge_maps [OF ok] contents_purge [OF ok])
  obtain f where f: "open_temp r ?s = Inr f" using open_temp_works [OF oks rs(1)] by blast
  have "fst (upload_get cfg i token now st) = Inr r" using upload_get_result rs(1) r(2) by blast
  then have g: "upload_get cfg i token now st = (Inr r, ?s)"
    using upload_get_state [of cfg i token now st] by (metis prod.collapse)
  have off: "ul_offset r = ul_size r" using contents_Some [OF oks rs(1)] rs(2) c(2) by auto
  have "int (length (tf_bytes f)) = ul_size r" "data = tf_bytes f"
    using open_temp_ok [OF oks rs(1) f] rs(2) off rs(1) by (auto simp: fits_def contents_def)
  with g f off show ?thesis by (simp add: upload_copy_to_def)
qed

end
