(* ===== verification/Upload_Properties.thy ===== *)
theory Upload_Properties
  imports Upload_Lifecycle
begin

text \<open>The properties of resumable uploads.\<close>

section \<open>A small registry for the witnesses\<close>

definition demo_cfg :: upload_config where
  "demo_cfg = \<lparr>state_dir = ''/s'', ttl_seconds = 60, max_file_bytes = 10, max_incomplete_bytes = 10,
     sha256_hex = (\<lambda>bs. bs)\<rparr>"

definition demo_id :: string where
  "demo_id = ''upload_a''"

text \<open>
  The file \<open>hello\<close>, with a write that fails half way, a body that is cut off, a save that fails and a
  restart that loses the unsaved bytes.
\<close>

definition demo_events :: "upload_event list" where
  "demo_events =
     [ECreate ''tok'' ''/w/f'' 5 None False None [demo_id] (Created (1, 2)) 0 0,
      EAppend demo_id ''tok'' 0 ''he'' 2 Appended 1,
      EAppend demo_id ''tok'' 2 ''llo'' 3 (WriteFails 2) 2,
      EAppend demo_id ''tok'' 2 ''l'' 3 Appended 3,
      EAppend demo_id ''tok'' 2 ''l'' 1 SaveFails 4,
      EAppend demo_id ''spy'' 3 ''xx'' 2 Appended 5,
      ERestart [] 6]"

lemmas demo_defs = run_uploads_def demo_events_def demo_cfg_def demo_id_def no_uploads_def

lemma demo_run:
  "run_uploads demo_cfg demo_events =
     (let r = \<lparr>ul_id = demo_id, ul_owner = ''tok'', ul_target = ''/w/f'', ul_temp = part_path demo_cfg demo_id, ul_device = 1,
        ul_inode = 2, ul_size = 5, ul_sha = None, ul_offset = 2, ul_parents = False, ul_created = 0,
        ul_expires = 60000000, ul_mapping = None\<rparr>
      in \<lparr>records = [(demo_id, r)],
          temps = [(part_path demo_cfg demo_id, \<lparr>tf_device = 1, tf_inode = 2, tf_regular = True, tf_bytes = ''he''\<rparr>)],
          metas = [(demo_id, r)]\<rparr>)"
  by code_simp

section \<open>Delivery\<close>

text \<open>
  C33: Every client gets its own file through.  Let all that the owner of an upload ever sends to it be
  pieces of one file, each the piece at the offset it names, while other tokens send what they like, writes
  fail, bodies are cut off, saves fail and the server crashes and restarts.  Then what is copied out of a
  complete upload is the beginning of that file of the declared length, so the file itself when the
  declared size is the size of the file.
\<close>

theorem upload_delivers_file:
  assumes "0 \<le> max_incomplete_bytes cfg"
    and "list_all (honest cfg i (owner_hash cfg token) data) es"
    and "fst (upload_copy_to cfg i token readable now (run_uploads cfg es)) = Inr (r, bs)"
  shows "prefix bs data \<and> int (length bs) = ul_size r \<and> (ul_size r = int (length data) \<longrightarrow> bs = data)"
proof -
  note ok = run_ok [OF assms(1), of es]
  note c = copied_contents [OF ok assms(3)]
  have "prefix bs data"
    using tracks_purge [OF ok run_tracks [OF assms(1,2)], of now] c(1-3) by (simp add: tracks_def)
  with c(4) show ?thesis by (auto simp: prefix_def)
qed

theorem upload_delivers_file_witness:
  "prefix ''hello'' ''hello'' \<and> int (length ''hello'') = 5"
proof -
  let ?es = "demo_events @ [EAppend demo_id ''tok'' 2 ''llo'' 3 Appended 7]"
  have "\<exists>r. fst (upload_copy_to demo_cfg demo_id ''tok'' True 8 (run_uploads demo_cfg ?es)) = Inr (r, ''hello'') \<and> ul_size r = 5"
    by (rule exI [where x = "\<lparr>ul_id = demo_id, ul_owner = ''tok'', ul_target = ''/w/f'',
        ul_temp = part_path demo_cfg demo_id, ul_device = 1,
        ul_inode = 2, ul_size = 5, ul_sha = None, ul_offset = 5, ul_parents = False, ul_created = 0,
        ul_expires = 60000000, ul_mapping = None\<rparr>"]) code_simp
  then obtain r where r: "fst (upload_copy_to demo_cfg demo_id ''tok'' True 8 (run_uploads demo_cfg ?es)) = Inr (r, ''hello'')"
    "ul_size r = 5" by blast
  have "list_all (honest demo_cfg demo_id (owner_hash demo_cfg ''tok'') ''hello'') ?es"
    by code_simp
  from upload_delivers_file [OF _ this r(1)] r(2) show ?thesis by (simp add: demo_cfg_def)
qed

text \<open>
  C35: An append refines the abstract operation that extends the accepted bytes.  When it succeeds, the body
  was there in full and has been added to what was accepted before; when it fails, unless the failure is
  that of the final save, nothing has changed.  Apart from uploads that have expired no other upload is
  touched.
\<close>

theorem upload_append_refines:
  assumes "0 \<le> max_incomplete_bytes cfg"
    and "upload_append cfg i token offset stream len io now (run_uploads cfg es) = (res, st')"
    and "\<not> due now (record_of (run_uploads cfg es) j)"
  shows "contents cfg st' j =
     (if j = i \<and> (\<forall>e. res = Inl e \<longrightarrow> e = OSError)
      then Some (the (contents cfg (run_uploads cfg es) i) @ take (nat len) stream)
      else contents cfg (run_uploads cfg es) j) \<and>
     (\<forall>r. res = Inr r \<longrightarrow> record_of st' i = Some r \<and> ul_offset r = offset + len \<and> nat len \<le> length stream)"
proof -
  note ok = run_ok [OF assms(1), of es]
  have p: "contents cfg (purge_expired now (run_uploads cfg es)) j = contents cfg (run_uploads cfg es) j"
    using assms(3) by (simp add: contents_purge [OF ok])
  from ok show ?thesis
  proof (cases rule: append_effect [where i = i and token = token and offset = offset and stream = stream and
        len = len and io = io and now = now])
    case (refused e)
    with assms(2) show ?thesis by auto
  next
    case (kept e st1)
    with assms(2) p show ?thesis by auto
  next
    case (grown res1 st1 r)
    with assms(2) have s: "st1 = st'" "res1 = res" by auto
    note g = grown [unfolded s]
    have "\<forall>e. res = Inl e \<longrightarrow> e = OSError" using g(2) by simp
    moreover have "record_of st' i = Some q \<and> ul_offset q = offset + len \<and> nat len \<le> length stream" if "res = Inr q" for q
    proof -
      have "io = Appended" "q = r\<lparr>ul_offset := ul_offset r + len\<rparr>" using that g(2) by (auto split: if_splits)
      then show ?thesis using g(6,8,10) by simp
    qed
    ultimately show ?thesis using g(11,12) p by (cases "j = i") simp_all
  qed
qed

theorem upload_append_refines_witness:
  "contents demo_cfg (snd (upload_append demo_cfg demo_id ''tok'' 2 ''llo'' 3 Appended 7 (run_uploads demo_cfg demo_events)))
     demo_id = Some ''hello''"
proof -
  let ?run = "run_uploads demo_cfg demo_events"
  let ?out = "upload_append demo_cfg demo_id ''tok'' 2 ''llo'' 3 Appended 7 ?run"
  have "\<not> due 7 (record_of ?run demo_id)" "contents demo_cfg ?run demo_id = Some ''he''"
    by (simp_all add: demo_run Let_def contents_def)
  moreover have "\<not> isl (fst ?out)" by code_simp
  then obtain r where "?out = (Inr r, snd ?out)" by (cases "fst ?out") (auto simp: prod_eq_iff)
  moreover have "0 \<le> max_incomplete_bytes demo_cfg" by (simp add: demo_cfg_def)
  ultimately show ?thesis
    using upload_append_refines [of demo_cfg demo_id "''tok''" 2 "''llo''" 3 Appended 7 demo_events "Inr r" "snd ?out" demo_id]
    by simp
qed

text \<open>
  C34: Uploads can be resumed to the end.  After any history in which the owner has sent only pieces of one
  file, a client whose upload is still there can send the rest from the offset it is told, in chunks
  of any lengths, and as long as it does so before the upload expires and the disk works, every chunk is
  accepted and the complete file can be copied out.
\<close>

theorem upload_resumes:
  assumes "0 \<le> max_incomplete_bytes cfg"
    and "list_all (honest cfg i (owner_hash cfg token) data) es"
    and "fst (upload_get cfg i token t0 (run_uploads cfg es)) = Inr r" and "ul_size r = int (length data)"
    and "concat (map snd chunks) = drop (nat (ul_offset r)) data"
    and "list_all (\<lambda>(t, _). t < ul_expires r) chunks" and "t1 < ul_expires r"
  shows "\<exists>st' r'. send_chunks cfg i token (ul_offset r) chunks (snd (upload_get cfg i token t0 (run_uploads cfg es))) = (Inr (), st') \<and>
           fst (upload_copy_to cfg i token True t1 st') = Inr (r', data)"
proof -
  let ?s = "purge_expired t0 (run_uploads cfg es)"
  have ok: "uploads_ok cfg ?s" by (intro purge_ok run_ok assms(1))
  have t: "tracks cfg i (owner_hash cfg token) data ?s"
    by (intro tracks_purge run_ok run_tracks assms(1,2))
  have r: "record_of ?s i = Some r" "ul_owner r = owner_hash cfg token"
    using assms(3) by (simp_all add: upload_get_result)
  obtain bs where bs: "contents cfg ?s i = Some bs" "int (length bs) = ul_offset r"
    using contents_Some [OF ok r(1)] by blast
  then have "prefix bs data" "nat (ul_offset r) = length bs" using t r by (auto simp: tracks_def)
  then have "bs @ concat (map snd chunks) = data" using assms(5) by (auto simp: prefix_def)
  from send_chunks_complete [OF ok r bs(1) this assms(4) [symmetric] assms(6)]
  obtain st' r' where "send_chunks cfg i token (ul_offset r) chunks ?s = (Inr (), st')" "uploads_ok cfg st'"
    "record_of st' i = Some r'" "ul_owner r' = owner_hash cfg token" "ul_expires r' = ul_expires r" "ul_size r' = ul_size r"
    "contents cfg st' i = Some data" using r(2) bs(2) by auto
  with copy_succeeds [of cfg st' i r' token t1 data] assms(4,7) show ?thesis by (auto simp: upload_get_state)
qed

theorem upload_resumes_witness:
  "\<exists>st' r'. send_chunks demo_cfg demo_id ''tok'' 2 [(9, ''l''), (10, []), (12, ''lo'')]
       (snd (upload_get demo_cfg demo_id ''tok'' 8 (run_uploads demo_cfg demo_events))) = (Inr (), st') \<and>
     fst (upload_copy_to demo_cfg demo_id ''tok'' True 20 st') = Inr (r', ''hello'')"
proof -
  define r where "r = \<lparr>ul_id = demo_id, ul_owner = ''tok'', ul_target = ''/w/f'', ul_temp = part_path demo_cfg demo_id,
    ul_device = 1, ul_inode = 2, ul_size = 5, ul_sha = None, ul_offset = 2, ul_parents = False, ul_created = 0,
    ul_expires = 60000000, ul_mapping = None\<rparr>"
  have r: "ul_size r = int (length ''hello'')" "ul_offset r = 2" "ul_expires r = 60000000" by (simp_all add: r_def)
  have "fst (upload_get demo_cfg demo_id ''tok'' 8 (run_uploads demo_cfg demo_events)) = Inr r"
    unfolding r_def by code_simp
  moreover have "list_all (honest demo_cfg demo_id (owner_hash demo_cfg ''tok'') ''hello'') demo_events" by code_simp
  moreover have "0 \<le> max_incomplete_bytes demo_cfg" by (simp add: demo_cfg_def)
  ultimately show ?thesis
    using upload_resumes [of demo_cfg demo_id "''tok''" "''hello''" demo_events 8 r "[(9, ''l''), (10, []), (12, ''lo'')]" 20]
    by (simp add: r)
qed

section \<open>The directory\<close>

text \<open>
  The quota bounds the space that incomplete uploads take.  Whatever requests, failures and restarts
  there have been, the temporary files together never hold more bytes than are reserved for the uploads
  on record, and these never exceed the configured limit.
\<close>

theorem upload_disk_bounded:
  assumes "0 \<le> max_incomplete_bytes cfg"
  shows "disk_usage (run_uploads cfg es) \<le> sum_list (map (\<lambda>(_, r). ul_size r) (records (run_uploads cfg es))) \<and>
    sum_list (map (\<lambda>(_, r). ul_size r) (records (run_uploads cfg es))) \<le> max_incomplete_bytes cfg"
proof -
  note ok = run_ok [OF assms, of es]
  have "sum_list (map (\<lambda>(_, r). ul_size r) (records (run_uploads cfg es))) = reserved (record_of (run_uploads cfg es))"
    using uploads_okD(1) [OF ok] by (intro reserved_list) (simp add: keyed_def)
  then show ?thesis using disk_usage_reserved [OF ok] uploads_okD(4) [OF ok] by simp
qed

theorem upload_disk_bounded_witness: "disk_usage (run_uploads demo_cfg demo_events) \<le> 10"
  using upload_disk_bounded [of demo_cfg demo_events] by (simp add: demo_cfg_def)

text \<open>
  C36: A restart keeps every upload that has not expired and whose file was not being deleted: the record
  is the one last saved, and the accepted bytes are those up to its offset.  When the last save
  succeeded the upload is exactly as before.
\<close>

theorem upload_survives_restart:
  assumes "0 \<le> max_incomplete_bytes cfg"
    and "record_of (run_uploads cfg es) i = Some r" and "i \<notin> set lost" and "now < ul_expires r"
  shows "\<exists>m bs. meta_of (run_uploads cfg es) i = Some m \<and> contents cfg (run_uploads cfg es) i = Some bs \<and>
    record_of (run_uploads cfg (es @ [ERestart lost now])) i = Some m \<and>
    m\<lparr>ul_offset := ul_offset r\<rparr> = r \<and> ul_offset m \<le> ul_offset r \<and>
    contents cfg (run_uploads cfg (es @ [ERestart lost now])) i = Some (take (nat (ul_offset m)) bs)"
proof -
  let ?st = "run_uploads cfg es"
  let ?new = "reloaded cfg lost ?st"
  have ok: "uploads_ok cfg ?st" by (rule run_ok [OF assms(1)])
  have run: "run_uploads cfg (es @ [ERestart lost now]) = purge_expired now ?new"
    by (simp add: run_uploads_def load_is_reload)
  from ok show ?thesis
  proof (cases rule: reloaded_entry [where lost = lost and i = i])
    case gone
    with assms(2,3) show ?thesis by simp
  next
    case (kept q m f)
    note m = saved_form_fields [OF kept(3)]
    have q: "q = r" using kept(1) assms(2) by simp
    with m assms(4) have live: "\<not> due now (record_of ?new i)" by (simp add: kept(8))
    have "contents cfg ?new i = Some (take (nat (ul_offset m)) (take (nat (ul_offset r)) (tf_bytes f)))"
      using kept m q nat_mono [of "ul_offset m" "ul_offset r"] by (simp add: contents_def cut_back_def min_absorb1)
    moreover have "contents cfg ?st i = Some (take (nat (ul_offset r)) (tf_bytes f))"
      using kept q by (simp add: contents_def)
    ultimately show ?thesis
      using live kept m q
      by (simp add: run purge_maps [OF reloaded_ok [OF ok]] contents_purge [OF reloaded_ok [OF ok]] saved_form_def)
  qed
qed

theorem upload_survives_restart_witness:
  "contents demo_cfg (run_uploads demo_cfg (demo_events @ [ERestart [] 7])) demo_id = Some ''he''"
proof -
  have "\<exists>r. record_of (run_uploads demo_cfg demo_events) demo_id = Some r \<and> 7 < ul_expires r \<and>
      meta_of (run_uploads demo_cfg demo_events) demo_id = Some r \<and> ul_offset r = 2"
    by (simp add: demo_run Let_def)
  then obtain r where r: "record_of (run_uploads demo_cfg demo_events) demo_id = Some r" "7 < ul_expires r"
      "meta_of (run_uploads demo_cfg demo_events) demo_id = Some r" "ul_offset r = 2" by blast
  moreover have "contents demo_cfg (run_uploads demo_cfg demo_events) demo_id = Some ''he''"
    by (simp add: demo_run Let_def contents_def)
  moreover have "0 \<le> max_incomplete_bytes demo_cfg" by (simp add: demo_cfg_def)
  ultimately show ?thesis
    using upload_survives_restart [of demo_cfg demo_events demo_id r "[]" 7] by auto
qed

end
