(* ===== verification/Network_Rules.thy ===== *)
theory Network_Rules
  imports Kapsel_Prelude
begin

text \<open>
  The domain rules of restricted networks: \<open>normalize_domain_rule\<close>, \<open>normalize_domain_rules\<close> and
  \<open>domain_allowed\<close> of \<open>openkapsel/execution/network_proxy.py\<close>.

  \<open>str.encode("idna")\<close> checks an ASCII name label by label and returns it as it is; for other names it
  applies the nameprep profile, which is the parameter \<open>toascii\<close>.
\<close>

section \<open>Text\<close>

definition lower_char :: "char \<Rightarrow> char" where
  "lower_char c =
     (let n = (of_char c :: nat) in if (65 \<le> n \<and> n \<le> 90) \<or> (192 \<le> n \<and> n \<le> 222 \<and> n \<noteq> 215) then char_of (n + 32) else c)"

definition str_lower :: "string \<Rightarrow> string" where
  "str_lower s = map lower_char s"

definition rstrip_char :: "char \<Rightarrow> string \<Rightarrow> string" where
  "rstrip_char c s = rev (dropWhile (\<lambda>x. x = c) (rev s))"

definition is_ascii :: "string \<Rightarrow> bool" where
  "is_ascii s \<longleftrightarrow> list_all (\<lambda>c. (of_char c :: nat) < 128) s"

definition idna :: "(string \<Rightarrow> string option) \<Rightarrow> string \<Rightarrow> string option" where
  "idna toascii s =
     (if s = [] then Some []
      else if is_ascii s then
        (let labels = split_on (CHR ''.'') s
         in if list_all (\<lambda>l. 0 < length l \<and> length l < 64) (butlast labels) \<and> length (last labels) < 64 then Some s else None)
      else toascii s)"

section \<open>Rules\<close>

definition NETWORK_MODES :: "string list" where
  "NETWORK_MODES = [''none'', ''domain_allowlist'', ''full'']"

definition domain_char :: "char \<Rightarrow> bool" where
  "domain_char c \<longleftrightarrow> ascii_digit c \<or> c \<in> set ''abcdefghijklmnopqrstuvwxyz''"

text \<open>The full match of \<open>_DOMAIN_LABEL\<close>.\<close>

definition domain_label :: "string \<Rightarrow> bool" where
  "domain_label l \<longleftrightarrow> l \<noteq> [] \<and> length l \<le> 63 \<and> domain_char (hd l) \<and> domain_char (last l) \<and>
     list_all (\<lambda>c. domain_char c \<or> c = CHR ''-'') l"

definition normalize_domain_rule :: "(string \<Rightarrow> string option) \<Rightarrow> string \<Rightarrow> string result" where
  "normalize_domain_rule toascii v =
     (let raw = rstrip_char (CHR ''.'') (str_lower (strip v)); suffix = startswith raw ''.'';
          name = (if suffix then drop 1 raw else raw); bad = Inl (ValueError ''invalid network domain'')
      in if name = [] \<or> length name > 253 \<or> CHR '':'' \<in> set name \<or> CHR ''/'' \<in> set name then bad
         else case idna toascii name of
                None \<Rightarrow> bad
              | Some ascii_name \<Rightarrow>
                  if \<not> list_all domain_label (split_on (CHR ''.'') ascii_name) then bad
                  else Inr (if suffix then CHR ''.'' # ascii_name else ascii_name))"

fun normalize_domain_rules :: "(string \<Rightarrow> string option) \<Rightarrow> string list \<Rightarrow> string list \<Rightarrow> string list result" where
  "normalize_domain_rules toascii [] acc = Inr acc"
| "normalize_domain_rules toascii (v # vs) acc =
     andThen (normalize_domain_rule toascii v)
       (\<lambda>r. normalize_domain_rules toascii vs (if r \<in> set acc then acc else acc @ [r]))"

definition rule_allows :: "string \<Rightarrow> string \<Rightarrow> bool" where
  "rule_allows host rule \<longleftrightarrow>
     (if startswith rule ''.'' then host = drop 1 rule \<or> endswith host rule else host = rule)"

definition domain_allowed :: "(string \<Rightarrow> string option) \<Rightarrow> string \<Rightarrow> string list \<Rightarrow> bool" where
  "domain_allowed toascii hostname rules \<longleftrightarrow>
     (case idna toascii (rstrip_char (CHR ''.'') hostname) of
        None \<Rightarrow> False
      | Some h \<Rightarrow> list_ex (rule_allows (str_lower h)) rules)"

section \<open>What the rules allow\<close>

lemma startswith_iff: "startswith s p \<longleftrightarrow> (\<exists>t. s = p @ t)"
  unfolding startswith_def by (metis append_eq_conv_conj append_take_drop_id)

lemma endswith_iff: "endswith s p \<longleftrightarrow> (\<exists>t. s = t @ p)"
proof -
  have "endswith s p \<longleftrightarrow> (\<exists>t. rev s = rev p @ t)" by (simp add: endswith_def startswith_iff)
  also have "\<dots> \<longleftrightarrow> (\<exists>t. s = t @ p)" by (metis rev_append rev_rev_ident)
  finally show ?thesis .
qed

lemma split_on_dot_append:
  "split_on c (s @ c # t) = split_on c s @ split_on c t"
  by (induction s) (auto split: list.splits)

lemma split_on_inject: "split_on c s = split_on c t \<Longrightarrow> s = t"
proof (induction s arbitrary: t)
  case Nil
  then show ?case using split_on_not_Nil [THEN not_sym] by (cases t) (auto split: if_splits list.splits)
next
  case (Cons x s)
  then show ?case using split_on_not_Nil [THEN not_sym]
    by (cases t) (auto split: if_splits list.splits)
qed

text \<open>
  A leading-dot rule is about labels: it allows exactly the hosts whose last labels are those of the
  domain, so a name that merely ends in the same characters is not allowed.
\<close>

lemma rule_allows_labels:
  "rule_allows host (CHR ''.'' # d) \<longleftrightarrow> suffix (split_on (CHR ''.'') d) (split_on (CHR ''.'') host)"
proof
  assume "rule_allows host (CHR ''.'' # d)"
  then consider "host = d" | t where "host = t @ CHR ''.'' # d"
    by (auto simp: rule_allows_def startswith_iff endswith_iff)
  then show "suffix (split_on (CHR ''.'') d) (split_on (CHR ''.'') host)"
    by cases (auto simp: split_on_dot_append suffix_def)
next
  assume "suffix (split_on (CHR ''.'') d) (split_on (CHR ''.'') host)"
  then obtain ws where ws: "split_on (CHR ''.'') host = ws @ split_on (CHR ''.'') d" by (auto simp: suffix_def)
  show "rule_allows host (CHR ''.'' # d)"
  proof (cases "ws = []")
    case True
    with ws have "host = d" by (auto dest: split_on_inject)
    then show ?thesis by (simp add: rule_allows_def startswith_iff)
  next
    case False
    have "\<forall>w \<in> set ws. CHR ''.'' \<notin> set w"
    proof -
      have "\<forall>w \<in> set (split_on c s). c \<notin> set w" for c s by (induction s) (auto split: list.splits)
      from this [of "CHR ''.''" host] show ?thesis by (simp add: ws)
    qed
    with False have "split_on (CHR ''.'') (join ''.'' ws) = ws" by (intro split_on_join) auto
    with ws have "split_on (CHR ''.'') (join ''.'' ws @ CHR ''.'' # d) = split_on (CHR ''.'') host"
      by (simp add: split_on_dot_append)
    then have "host = join ''.'' ws @ CHR ''.'' # d" by (auto dest: split_on_inject)
    then show ?thesis by (auto simp: rule_allows_def startswith_iff endswith_iff)
  qed
qed

text \<open>
  C20: The allow list is about labels, not characters.  A host is allowed exactly when its IDNA form, in
  lower case and without trailing dots, is one of the plain rules or ends in the labels of a
  leading-dot rule; so a rule for a domain says nothing of a name that merely ends in the same
  characters.
\<close>

theorem domain_allowed_labels:
  "domain_allowed toascii host rules \<longleftrightarrow>
     (\<exists>h. idna toascii (rstrip_char (CHR ''.'') host) = Some h \<and>
        (str_lower h \<in> set (filter (\<lambda>rule. \<not> startswith rule ''.'') rules) \<or>
         (\<exists>d. CHR ''.'' # d \<in> set rules \<and> suffix (split_on (CHR ''.'') d) (split_on (CHR ''.'') (str_lower h)))))"
proof -
  have plain: "rule_allows x rule \<longleftrightarrow> x = rule" if "\<not> startswith rule ''.''" for x rule
    using that by (simp add: rule_allows_def)
  have dotted: "startswith rule ''.'' \<longleftrightarrow> (\<exists>d. rule = CHR ''.'' # d)" for rule
    by (cases rule) (auto simp: startswith_iff)
  have "list_ex (rule_allows x) rules \<longleftrightarrow> x \<in> set (filter (\<lambda>rule. \<not> startswith rule ''.'') rules) \<or>
      (\<exists>d. CHR ''.'' # d \<in> set rules \<and> rule_allows x (CHR ''.'' # d))" for x
  proof (induction rules)
    case (Cons rule rules)
    show ?case
    proof (cases "startswith rule ''.''")
      case True
      then obtain d where "rule = CHR ''.'' # d" using dotted by blast
      with Cons True show ?thesis by auto
    next
      case False
      then have "rule \<noteq> CHR ''.'' # d" for d using dotted by blast
      with Cons False plain [OF False] show ?thesis by auto
    qed
  qed simp
  then show ?thesis by (simp add: domain_allowed_def rule_allows_labels split: option.split)
qed

end
