(* ===== verification/Token_Store.thy ===== *)
theory Token_Store
  imports Network_Rules Path_Access Cron_Expression "HOL-Library.AList" "HOL-Library.Product_Lexorder"
begin

text \<open>
  The registry of workspace tokens: \<open>TokenRecord\<close> and \<open>TokenStore\<close> of \<open>openkapsel/auth/tokens.py\<close>.  A
  record carries three credentials: the read token of the workspace URL, the control token and the
  preview token.  The store keeps one dictionary for each kind, the records by read token in the order
  of insertion, and the nonces of signed requests; it is written to a data file after every change.

  Times in a record are ISO texts; \<open>_validate\<close> replaces them by the text of an instant, so a date is either
  the text that was supplied or an instant.  The file system, \<open>datetime.fromisoformat\<close> and the random
  generator are parameters; a draw takes the first candidate of a list that is not in use.  Saving the
  data file can fail.
\<close>

section \<open>Records\<close>

datatype stamp = Raw string | At instant

record token_rec =
  tk_token :: string
  tk_name :: string
  tk_created :: string
  tk_preview :: string
  tk_control :: string
  tk_app :: string
  tk_expires :: "stamp option"
  tk_cred_expires :: "stamp option"
  tk_enabled :: bool
  tk_prefix :: string
  tk_image :: "string option"
  tk_read :: bool
  tk_write :: bool
  tk_can_preview :: bool
  tk_schedule :: bool
  tk_shell :: string
  tk_backend :: string
  tk_sandbox_image :: "string option"
  tk_network :: string
  tk_domains :: "string list"
  tk_paths :: "grant list"
  tk_procs :: int
  tk_memory :: int
  tk_cpu :: int

record token_env =
  te_root :: path
  te_fs :: fs
  te_exists :: "path \<Rightarrow> bool"
  te_is_file :: "path \<Rightarrow> bool"
  te_is_symlink :: "path \<Rightarrow> bool"
  te_clock :: clock_env
  te_toascii :: "string \<Rightarrow> string option"

definition SHELL_MODES :: "string list" where
  "SHELL_MODES = [''none'', ''restricted'', ''full'']"

definition SANDBOX_BACKENDS :: "string list" where
  "SANDBOX_BACKENDS = [''auto'', ''bubblewrap'', ''podman'']"

definition CONTROL_TOKEN_PREFIX :: string where
  "CONTROL_TOKEN_PREFIX = ''ks-''"

definition PREVIEW_TOKEN_LENGTH :: nat where
  "PREVIEW_TOKEN_LENGTH = 16"

definition DEFAULT_CREDENTIAL_TTL_DAYS :: int where
  "DEFAULT_CREDENTIAL_TTL_DAYS = 3"

definition MAX_CREDENTIAL_TTL_DAYS :: int where
  "MAX_CREDENTIAL_TTL_DAYS = 30"

definition SELF_RENEWAL_WINDOW :: int where
  "SELF_RENEWAL_WINDOW = days_us 2"

definition token_datetime :: "clock_env \<Rightarrow> string \<Rightarrow> instant result" where
  "token_datetime env v =
     (let text = strip v; text = (if endswith text ''Z'' then butlast text @ ''+00:00'' else text)
      in case fromisoformat env text of
           None \<Rightarrow> Inl (ValueError ''Invalid isoformat string'')
         | Some (naive, None) \<Rightarrow> Inr naive
         | Some (naive, Some offset) \<Rightarrow> add_delta naive (- offset))"

definition stamp_of :: "clock_env \<Rightarrow> stamp option \<Rightarrow> stamp option result" where
  "stamp_of env v =
     (case v of
        None \<Rightarrow> Inr None
      | Some (At t) \<Rightarrow> Inr (Some (At t))
      | Some (Raw s) \<Rightarrow> if s = [] then Inr None else andThen (token_datetime env s) (\<lambda>t. Inr (Some (At t))))"

definition credential_expiry :: "int \<Rightarrow> instant \<Rightarrow> stamp option result" where
  "credential_expiry ttl now =
     (if ttl < 1 \<or> ttl > MAX_CREDENTIAL_TTL_DAYS then Inl (ValueError ''credential lifetime must be between 1 and 30 days'')
      else Inr (Some (At (now + days_us ttl))))"

text \<open>Whether a date has passed.  A stored record never has a date that is not parsed.\<close>

definition past :: "instant \<Rightarrow> stamp option \<Rightarrow> bool" where
  "past now v \<longleftrightarrow> (case v of Some (At t) \<Rightarrow> t \<le> now | _ \<Rightarrow> False)"

definition token_valid :: "instant \<Rightarrow> token_rec \<Rightarrow> bool" where
  "token_valid now r \<longleftrightarrow> tk_enabled r \<and> \<not> past now (tk_expires r)"

definition credentials_valid :: "instant \<Rightarrow> token_rec \<Rightarrow> bool" where
  "credentials_valid now r \<longleftrightarrow> token_valid now r \<and> \<not> past now (tk_cred_expires r)"

section \<open>Validation\<close>

definition path_str :: "path \<Rightarrow> string" where
  "path_str p =
     (case p of [] \<Rightarrow> ''.'' | r # ws \<Rightarrow> if is_root_part r then r @ join ''/'' ws else join ''/'' p)"

definition image_char :: "char \<Rightarrow> bool" where
  "image_char c \<longleftrightarrow> url_char c \<or> c \<in> set ''./@:+''"

definition alnum_char :: "char \<Rightarrow> bool" where
  "alnum_char c \<longleftrightarrow> url_char c \<and> c \<notin> set ''_-''"

definition container_image :: "string \<Rightarrow> bool" where
  "container_image s \<longleftrightarrow> s \<noteq> [] \<and> length s \<le> 512 \<and> alnum_char (hd s) \<and> list_all image_char s"

definition url16 :: "string \<Rightarrow> bool" where
  "url16 s \<longleftrightarrow> length s = 16 \<and> list_all url_char s"

definition image_name :: "string \<Rightarrow> bool" where
  "image_name s \<longleftrightarrow> s \<noteq> [] \<and> length s \<le> 64 \<and> alnum_char (hd s) \<and> list_all url_char s"

definition identity_error :: "token_rec \<Rightarrow> string option" where
  "identity_error r =
     (if tk_token r = [] \<or> CHR ''/'' \<in> set (tk_token r) then Some ''token must be non-empty and must not contain /''
      else if \<not> url16 (tk_preview r) then Some ''preview token must contain 16 URL-safe characters''
      else if tk_control r = [] \<or> CHR ''/'' \<in> set (tk_control r) then Some ''control token must be non-empty and must not contain /''
      else if \<not> url16 (tk_app r) then Some ''app id must contain 16 URL-safe characters''
      else if \<not> distinct [tk_token r, tk_preview r, tk_control r] then Some ''read, control, and preview tokens must be independent''
      else None)"

definition sandbox_image_of :: "token_rec \<Rightarrow> string option" where
  "sandbox_image_of r =
     (case tk_sandbox_image r of None \<Rightarrow> None | Some s \<Rightarrow> if strip s = [] then None else Some (strip s))"

definition settings_error :: "token_rec \<Rightarrow> string option" where
  "settings_error r =
     (if strip (tk_name r) = [] \<or> length (strip (tk_name r)) > 200 then Some ''token name must contain 1 to 200 characters''
      else if tk_shell r \<notin> set SHELL_MODES then Some ''invalid shell mode''
      else if tk_schedule r \<and> tk_shell r = ''none'' then Some ''scheduled tasks require Shell permission''
      else if tk_backend r \<notin> set SANDBOX_BACKENDS then Some ''invalid sandbox backend''
      else if (case sandbox_image_of r of None \<Rightarrow> False | Some s \<Rightarrow> \<not> container_image s) then Some ''invalid sandbox container image''
      else if sandbox_image_of r \<noteq> None \<and> tk_backend r \<noteq> ''podman'' then Some ''a sandbox container image requires the Podman backend''
      else if tk_network r \<notin> set NETWORK_MODES then Some ''invalid network mode''
      else None)"

definition limits_error :: "token_rec \<Rightarrow> string option" where
  "limits_error r =
     (if \<not> (1 \<le> tk_procs r \<and> tk_procs r \<le> 4096) then Some ''sandbox process/thread limit must be between 1 and 4096''
      else if \<not> (16 \<le> tk_memory r \<and> tk_memory r \<le> 1048576) then Some ''sandbox memory limit must be between 16 and 1048576 MiB''
      else if \<not> (1 \<le> tk_cpu r \<and> tk_cpu r \<le> 4096) then Some ''sandbox CPU limit must be between 1% and 4096%''
      else None)"

definition checked :: "string option \<Rightarrow> 'a result \<Rightarrow> 'a result" where
  "checked err res = (case err of None \<Rightarrow> res | Some m \<Rightarrow> Inl (ValueError m))"

text \<open>The directory of the token, relative to the root.\<close>

definition scope_of :: "token_env \<Rightarrow> string \<Rightarrow> (path \<times> path) result" where
  "scope_of env scope =
     (let p = parse_path (if scope = [] then ''.'' else scope) in
        if path_root (if scope = [] then ''.'' else scope) \<noteq> [] then Inl (ValueError ''path scope must be relative to workspace root'')
        else let scoped = resolve (te_fs env) (te_root env @ p) in
          if take (length (te_root env)) scoped \<noteq> te_root env then Inl (ValueError ''path scope escapes workspace root'')
          else if \<not> is_dir (te_fs env) scoped then Inl (ValueError ''path scope must be an existing directory'')
          else Inr (scoped, drop (length (te_root env)) scoped))"

definition merge_grant :: "grant \<Rightarrow> grant list \<Rightarrow> grant list" where
  "merge_grant g gs =
     (if g_path g \<notin> g_path ` set gs then gs @ [g]
      else map (\<lambda>x. if g_path x = g_path g \<and> weight (g_access x) < weight (g_access g) then g else x) gs)"

definition grant_target ::
  "token_env \<Rightarrow> grant \<Rightarrow> bool \<Rightarrow> string \<Rightarrow> (string \<times> path list) result" where
  "grant_target env g directory target =
     (let candidate = parse_path target; resolved = resolve (te_fs env) candidate;
          legacy = (\<not> directory \<and> \<not> g_strict_file g \<and> g_legacy_directory g \<and> is_dir (te_fs env) candidate);
          permits = (g_access g = RW \<or> g_access g = RO)
      in if length resolved \<le> 1 then Inl (ValueError ''the filesystem root cannot be a sandbox path'')
         else if (directory \<or> legacy) \<and> te_exists env resolved \<and> \<not> is_dir (te_fs env) resolved
         then Inl (ValueError ''sandbox directory rule is a file'')
         else if \<not> (directory \<or> legacy) \<and> te_exists env resolved \<and> \<not> te_is_file env resolved
         then Inl (ValueError ''sandbox file rule is a directory'')
         else if permits \<and> resolved \<in> set (self_and_parents (te_root env))
         then Inl (ValueError ''extra accessible paths cannot contain Workspace Root'')
         else Inr (path_str resolved @ (if directory then ''/'' else []), if permits then [resolved] else []))"

fun norm_grants :: "token_env \<Rightarrow> grant list \<Rightarrow> grant list \<Rightarrow> path list \<Rightarrow> (grant list \<times> path list) result" where
  "norm_grants env [] allowed previous = Inr (allowed, previous)"
| "norm_grants env (g # gs) allowed previous =
     (let cleaned = strip (g_path g) in
        if cleaned = [] then norm_grants env gs allowed previous
        else andThen (rule_parts cleaned) (\<lambda>(any_prefix, directory, target).
          andThen (if any_prefix then Inr (cleaned, []) else grant_target env g directory target) (\<lambda>(normalized, permits).
            norm_grants env gs (merge_grant (g\<lparr>g_path := normalized\<rparr>) allowed) (previous @ permits))))"

definition restricts :: "access \<Rightarrow> bool" where
  "restricts a \<longleftrightarrow> a = Protect \<or> a = Deny"

definition literal_path :: "grant \<Rightarrow> path" where
  "literal_path g = parse_path (rstrip_slash (g_path g))"

definition is_literal :: "grant \<Rightarrow> bool" where
  "is_literal g \<longleftrightarrow> \<not> startswith (g_path g) ''*/''"

definition deny_error :: "path \<Rightarrow> grant list \<Rightarrow> path list \<Rightarrow> grant \<Rightarrow> string option" where
  "deny_error scoped allowed previous g =
     (let p = literal_path g;
          extra = map literal_path (filter (\<lambda>x. \<not> restricts (g_access x) \<and> is_literal x) allowed)
      in if \<not> is_literal g \<or> \<not> restricts (g_access g) then None
         else if \<not> (list_ex (\<lambda>base. base \<in> set (self_and_parents p)) (scoped # extra) \<or>
                    list_ex (\<lambda>base. p \<in> set (path_parents base)) extra \<or>
                    list_ex (\<lambda>old. p \<in> set (self_and_parents old)) previous)
         then Some ''deny paths must lie within workspace or an allowed directory''
         else if p \<in> set (self_and_parents scoped) then Some ''cannot deny the workspace root or its ancestors''
         else None)"

definition grants_error :: "path \<Rightarrow> grant list \<Rightarrow> path list \<Rightarrow> string option" where
  "grants_error scoped allowed previous =
     (case List.map_filter (deny_error scoped allowed previous) allowed of [] \<Rightarrow> None | m # _ \<Rightarrow> Some m)"

definition image_error :: "token_rec \<Rightarrow> path \<Rightarrow> string option" where
  "image_error r relative =
     (case tk_image r of
        None \<Rightarrow> None
      | Some s \<Rightarrow> if \<not> image_name s then Some ''invalid workspace image name''
          else if s \<noteq> path_str relative then Some ''workspace image must match the token workspace directory'' else None)"

definition token_validate :: "token_env \<Rightarrow> token_rec \<Rightarrow> token_rec result" where
  "token_validate env r =
     checked (identity_error r) (
     checked (settings_error r) (
     andThen (normalize_domain_rules (te_toascii env) (tk_domains r) []) (\<lambda>domains.
     checked (if tk_network r = ''domain_allowlist'' \<and> domains = []
              then Some ''domain allowlist network mode requires at least one domain'' else None) (
     checked (limits_error r) (
     andThen (stamp_of (te_clock env) (tk_expires r)) (\<lambda>expires.
     andThen (stamp_of (te_clock env) (tk_cred_expires r)) (\<lambda>cred_expires.
     andThen (scope_of env (tk_prefix r)) (\<lambda>(scoped, relative).
     checked (image_error r relative) (
     andThen (norm_grants env (tk_paths r) [] []) (\<lambda>(allowed, previous).
     checked (grants_error scoped allowed previous) (
     checked (if tk_shell r = ''full'' \<and> list_ex (\<lambda>g. restricts (g_access g)) allowed
              then Some ''protect/deny paths require restricted Shell; full Shell can bypass sandbox rules'' else None) (
     Inr (r\<lparr>tk_name := strip (tk_name r), tk_expires := expires, tk_cred_expires := cred_expires,
            tk_prefix := path_str relative, tk_sandbox_image := sandbox_image_of r, tk_domains := domains,
            tk_paths := allowed\<rparr>)))))))))))))"

section \<open>The store\<close>

record token_store =
  ts_records :: "(string \<times> token_rec) list"
  ts_previews :: "(string \<times> token_rec) list"
  ts_controls :: "(string \<times> token_rec) list"
  ts_nonces :: "((string \<times> string) \<times> int) list"
  ts_has_file :: bool
  ts_disk :: "token_rec list option"

definition new_store :: "bool \<Rightarrow> token_store" where
  "new_store has_file = \<lparr>ts_records = [], ts_previews = [], ts_controls = [], ts_nonces = [], ts_has_file = has_file, ts_disk = None\<rparr>"

definition in_use :: "token_store \<Rightarrow> string \<Rightarrow> bool" where
  "in_use st x \<longleftrightarrow> x \<in> fst ` set (ts_records st) \<or> x \<in> fst ` set (ts_previews st) \<or> x \<in> fst ` set (ts_controls st)"

definition NO_DRAW :: pyerr where
  "NO_DRAW = RuntimeError ''no identifier drawn''"

definition draw :: "(string \<Rightarrow> bool) \<Rightarrow> string list \<Rightarrow> string result" where
  "draw taken candidates = (case find (\<lambda>x. \<not> taken x) candidates of None \<Rightarrow> Inl NO_DRAW | Some x \<Rightarrow> Inr x)"

definition new_token :: "string list \<Rightarrow> string list \<Rightarrow> token_store \<Rightarrow> string result" where
  "new_token candidates excluded st = draw (\<lambda>x. x \<in> set excluded \<or> in_use st x) candidates"

definition new_control_token :: "string list \<Rightarrow> string list \<Rightarrow> token_store \<Rightarrow> string result" where
  "new_control_token candidates excluded st = new_token (map (\<lambda>x. CONTROL_TOKEN_PREFIX @ x) candidates) excluded st"

definition new_app_id :: "string list \<Rightarrow> token_store \<Rightarrow> string result" where
  "new_app_id candidates st = draw (\<lambda>x. x \<in> (tk_app \<circ> snd) ` set (ts_records st)) candidates"

definition save_tokens :: "bool \<Rightarrow> token_store \<Rightarrow> token_store result" where
  "save_tokens works st =
     (if \<not> ts_has_file st then Inr st
      else if works then Inr (st\<lparr>ts_disk := Some (map snd (ts_records st))\<rparr>) else Inl OSError)"

definition put_record :: "token_rec \<Rightarrow> token_store \<Rightarrow> token_store" where
  "put_record r st =
     st\<lparr>ts_records := AList.update (tk_token r) r (ts_records st), ts_previews := AList.update (tk_preview r) r (ts_previews st),
        ts_controls := AList.update (tk_control r) r (ts_controls st)\<rparr>"

definition drop_read :: "string \<Rightarrow> token_store \<Rightarrow> token_store" where
  "drop_read x st = st\<lparr>ts_records := AList.delete x (ts_records st)\<rparr>"

definition drop_preview :: "string \<Rightarrow> token_store \<Rightarrow> token_store" where
  "drop_preview x st = st\<lparr>ts_previews := AList.delete x (ts_previews st)\<rparr>"

definition drop_control :: "string \<Rightarrow> token_store \<Rightarrow> token_store" where
  "drop_control x st = st\<lparr>ts_controls := AList.delete x (ts_controls st)\<rparr>"

definition saved_or :: "bool \<Rightarrow> 'a \<Rightarrow> token_store \<Rightarrow> token_store \<Rightarrow> 'a result \<times> token_store" where
  "saved_or works v st undone = (case save_tokens works st of Inl e \<Rightarrow> (Inl e, undone) | Inr st1 \<Rightarrow> (Inr v, st1))"

definition token_get :: "string \<Rightarrow> token_store \<Rightarrow> token_rec result" where
  "token_get token st =
     (case map_of (ts_records st) token of None \<Rightarrow> Inl (KeyError ''token does not exist'') | Some r \<Rightarrow> Inr r)"

section \<open>Workspaces\<close>

definition child_name_ok :: "string \<Rightarrow> bool" where
  "child_name_ok name \<longleftrightarrow>
     \<not> (name = [] \<or> casefold name \<in> set [''.'', ''..'', ''.recycle'', ''.sql'', ''.context'', ''.openkapsel''] \<or>
        startswith (casefold name) ''.openkapsel-'' \<or> path_root name \<noteq> [] \<or> length (parse_path name) \<noteq> 1 \<or>
        CHR ''/'' \<in> set name \<or> CHR 0x5C \<in> set name)"

text \<open>
  \<open>_prepare_child_workspace\<close> checks the name and creates the directory and its layout where they are
  missing; \<open>layout\<close> is the outcome of doing so.  Afterwards the directory exists.
\<close>

definition prepare_child_workspace :: "token_env \<Rightarrow> unit result \<Rightarrow> string \<Rightarrow> string result" where
  "prepare_child_workspace env layout v =
     (let name = strip v; workspace = te_root env @ [name] in
        if \<not> child_name_ok name then Inl (ValueError ''workspace path must be a direct child directory name'')
        else if te_is_symlink env workspace then Inl (ValueError ''workspace directory must not be a symbolic link'')
        else if te_exists env workspace \<and> \<not> is_dir (te_fs env) workspace
        then Inl (ValueError ''the workspace path already exists and is not a directory'')
        else andThen layout (\<lambda>_. Inr name))"

definition with_workspace :: "token_env \<Rightarrow> string \<Rightarrow> token_env" where
  "with_workspace env name =
     env\<lparr>te_fs := (te_fs env)\<lparr>is_dir := (is_dir (te_fs env))(te_root env @ [name] := True)\<rparr>\<rparr>"

section \<open>Operations\<close>

record draws =
  dr_read :: "string list"
  dr_preview :: "string list"
  dr_control :: "string list"
  dr_app :: "string list"

text \<open>The settings of a new token are those of \<open>settings\<close>, whose credentials and dates are replaced.\<close>

definition fresh_record ::
  "token_rec \<Rightarrow> string \<Rightarrow> string \<Rightarrow> string \<Rightarrow> string \<Rightarrow> string \<Rightarrow> stamp option \<Rightarrow> string \<Rightarrow> token_rec" where
  "fresh_record settings token preview control app created cred_expires scope =
     settings\<lparr>tk_token := token, tk_preview := preview, tk_control := control, tk_app := app, tk_created := created,
              tk_cred_expires := cred_expires, tk_enabled := True, tk_prefix := scope\<rparr>"

definition token_create ::
  "token_env \<Rightarrow> draws \<Rightarrow> token_rec \<Rightarrow> unit result \<Rightarrow> bool \<Rightarrow> instant \<Rightarrow> (token_store, token_rec) op" where
  "token_create env dr settings layout works now st =
     attempt (prepare_child_workspace env layout (tk_prefix settings)) (\<lambda>scope.
     attempt (new_token (dr_read dr) [] st) (\<lambda>token.
     attempt (new_token (dr_preview dr) [token] st) (\<lambda>preview.
     attempt (new_control_token (dr_control dr) [token, preview] st) (\<lambda>control.
     attempt (new_app_id (dr_app dr) st) (\<lambda>app.
     attempt (credential_expiry DEFAULT_CREDENTIAL_TTL_DAYS now) (\<lambda>expires.
     attempt (token_validate (with_workspace env scope)
       (fresh_record settings token preview control app (iso_utc now) expires scope)) (\<lambda>r st.
       saved_or works r (put_record r st) (put_record r st)))))))) st"

definition rotate_read_token :: "token_env \<Rightarrow> draws \<Rightarrow> string \<Rightarrow> bool \<Rightarrow> (token_store, token_rec) op" where
  "rotate_read_token env dr token works st =
     attempt (token_get token st) (\<lambda>current.
     attempt (new_token (dr_read dr) [] st) (\<lambda>fresh.
     attempt (token_validate env (current\<lparr>tk_token := fresh\<rparr>)) (\<lambda>r st.
       saved_or works r (put_record r (drop_read token st))
         (put_record current (drop_read fresh (put_record r (drop_read token st))))))) st"

definition rotate_control_token :: "token_env \<Rightarrow> draws \<Rightarrow> string \<Rightarrow> bool \<Rightarrow> (token_store, token_rec) op" where
  "rotate_control_token env dr token works st =
     attempt (token_get token st) (\<lambda>current.
     attempt (new_control_token (dr_control dr) [] st) (\<lambda>fresh.
     attempt (token_validate env (current\<lparr>tk_control := fresh\<rparr>)) (\<lambda>r st.
       saved_or works r (put_record r (drop_control (tk_control current) st))
         (put_record current (drop_control fresh (put_record r (drop_control (tk_control current) st))))))) st"

definition replace_credentials ::
  "token_env \<Rightarrow> draws \<Rightarrow> token_rec \<Rightarrow> stamp option \<Rightarrow> bool \<Rightarrow> (token_store, token_rec) op" where
  "replace_credentials env dr current expires works st =
     attempt (new_token (dr_read dr) [] st) (\<lambda>fresh.
     attempt (new_control_token (dr_control dr) [fresh, tk_preview current] st) (\<lambda>control.
     attempt (token_validate env (current\<lparr>tk_token := fresh, tk_control := control, tk_cred_expires := expires\<rparr>)) (\<lambda>r st.
       saved_or works r (put_record r (drop_control (tk_control current) (drop_read (tk_token current) st)))
         (put_record current (drop_control control (drop_read fresh
           (put_record r (drop_control (tk_control current) (drop_read (tk_token current) st))))))))) st"

definition renew_credentials ::
  "token_env \<Rightarrow> draws \<Rightarrow> string \<Rightarrow> int \<Rightarrow> bool \<Rightarrow> instant \<Rightarrow> (token_store, token_rec) op" where
  "renew_credentials env dr token ttl works now st =
     attempt (credential_expiry ttl now) (\<lambda>expires.
     attempt (token_get token st) (\<lambda>current. replace_credentials env dr current expires works)) st"

definition renewal_due :: "instant \<Rightarrow> token_rec \<Rightarrow> unit result" where
  "renewal_due now r =
     (case tk_cred_expires r of
        Some (At t) \<Rightarrow>
          if t - now \<ge> SELF_RENEWAL_WINDOW then Inl (ValueError ''credentials can be renewed only when less than two days remain'')
          else if t - now \<le> 0 then Inl (ValueError ''expired credentials must be renewed by an administrator'')
          else Inr ()
      | _ \<Rightarrow> Inl (ValueError ''credentials do not have a renewable short expiration''))"

definition renew_credentials_if_due ::
  "token_env \<Rightarrow> draws \<Rightarrow> string \<Rightarrow> bool \<Rightarrow> instant \<Rightarrow> (token_store, token_rec) op" where
  "renew_credentials_if_due env dr token works now st =
     attempt (token_get token st) (\<lambda>current.
     attempt (renewal_due now current) (\<lambda>_.
       replace_credentials env dr current (Some (At (now + days_us DEFAULT_CREDENTIAL_TTL_DAYS))) works)) st"

definition get_by_app_id :: "string \<Rightarrow> token_store \<Rightarrow> token_rec option" where
  "get_by_app_id app st = find (\<lambda>r. tk_app r = app) (map snd (ts_records st))"

definition renew_credentials_for_app_if_due ::
  "token_env \<Rightarrow> draws \<Rightarrow> string \<Rightarrow> string \<Rightarrow> bool \<Rightarrow> instant \<Rightarrow> (token_store, token_rec) op" where
  "renew_credentials_for_app_if_due env dr app workspace works now st =
     (case get_by_app_id app st of
        None \<Rightarrow> (Inl (ValueError ''linked workspace configuration is unavailable or changed''), st)
      | Some r \<Rightarrow>
          if \<not> token_valid now r \<or> tk_prefix r \<noteq> workspace
          then (Inl (ValueError ''linked workspace configuration is unavailable or changed''), st)
          else renew_credentials_if_due env dr (tk_token r) works now st)"

definition rotate_preview_token :: "token_env \<Rightarrow> draws \<Rightarrow> string \<Rightarrow> bool \<Rightarrow> (token_store, token_rec) op" where
  "rotate_preview_token env dr token works st =
     attempt (token_get token st) (\<lambda>current.
     attempt (new_token (dr_preview dr) [] st) (\<lambda>fresh.
     attempt (token_validate env (current\<lparr>tk_preview := fresh\<rparr>)) (\<lambda>r st.
       saved_or works r (put_record r (drop_preview (tk_preview current) st))
         (put_record r (drop_preview (tk_preview current) st))))) st"

text \<open>
  The keyword arguments of \<open>update\<close>; \<open>tc_secret\<close> says that one of the credentials or the app id is among
  them, which is refused.
\<close>

record token_changes =
  tc_secret :: bool
  tc_name :: "string option"
  tc_created :: "string option"
  tc_expires :: "stamp option option"
  tc_cred_expires :: "stamp option option"
  tc_enabled :: "bool option"
  tc_prefix :: "string option"
  tc_image :: "string option option"
  tc_read :: "bool option"
  tc_write :: "bool option"
  tc_can_preview :: "bool option"
  tc_schedule :: "bool option"
  tc_shell :: "string option"
  tc_backend :: "string option"
  tc_sandbox_image :: "string option option"
  tc_network :: "string option"
  tc_domains :: "string list option"
  tc_paths :: "grant list option"
  tc_procs :: "int option"
  tc_memory :: "int option"
  tc_cpu :: "int option"

definition or_else :: "'a option \<Rightarrow> 'a \<Rightarrow> 'a" where
  "or_else v d = (case v of None \<Rightarrow> d | Some x \<Rightarrow> x)"

definition apply_token_changes :: "token_changes \<Rightarrow> string option \<Rightarrow> token_rec \<Rightarrow> token_rec" where
  "apply_token_changes c scope r =
     r\<lparr>tk_name := or_else (tc_name c) (tk_name r), tk_created := or_else (tc_created c) (tk_created r),
       tk_expires := or_else (tc_expires c) (tk_expires r), tk_cred_expires := or_else (tc_cred_expires c) (tk_cred_expires r),
       tk_enabled := or_else (tc_enabled c) (tk_enabled r), tk_prefix := or_else scope (tk_prefix r),
       tk_image := or_else (tc_image c) (tk_image r), tk_read := or_else (tc_read c) (tk_read r),
       tk_write := or_else (tc_write c) (tk_write r), tk_can_preview := or_else (tc_can_preview c) (tk_can_preview r),
       tk_schedule := or_else (tc_schedule c) (tk_schedule r), tk_shell := or_else (tc_shell c) (tk_shell r),
       tk_backend := or_else (tc_backend c) (tk_backend r),
       tk_sandbox_image := or_else (tc_sandbox_image c) (tk_sandbox_image r),
       tk_network := or_else (tc_network c) (tk_network r), tk_domains := or_else (tc_domains c) (tk_domains r),
       tk_paths := or_else (tc_paths c) (tk_paths r), tk_procs := or_else (tc_procs c) (tk_procs r),
       tk_memory := or_else (tc_memory c) (tk_memory r), tk_cpu := or_else (tc_cpu c) (tk_cpu r)\<rparr>"

definition changed_prefix :: "token_env \<Rightarrow> unit result \<Rightarrow> token_changes \<Rightarrow> string option result" where
  "changed_prefix env layout c =
     (case tc_prefix c of None \<Rightarrow> Inr None | Some v \<Rightarrow> andThen (prepare_child_workspace env layout v) (\<lambda>name. Inr (Some name)))"

definition token_update ::
  "token_env \<Rightarrow> string \<Rightarrow> token_changes \<Rightarrow> unit result \<Rightarrow> bool \<Rightarrow> (token_store, token_rec) op" where
  "token_update env token c layout works st =
     attempt (token_get token st) (\<lambda>current.
     attempt (if tc_secret c then Inl (ValueError ''tokens cannot be changed through update'') else Inr ()) (\<lambda>_.
     attempt (changed_prefix env layout c) (\<lambda>scope.
     attempt (token_validate (case scope of None \<Rightarrow> env | Some name \<Rightarrow> with_workspace env name)
       (apply_token_changes c scope current)) (\<lambda>r st.
       saved_or works r (put_record r st) (put_record r st))))) st"

text \<open>\<open>delete\<close> first removes the environment file of the app, with the outcome \<open>cleared\<close>.\<close>

definition token_delete :: "string \<Rightarrow> unit result \<Rightarrow> bool \<Rightarrow> (token_store, unit) op" where
  "token_delete token cleared works st =
     attempt (token_get token st) (\<lambda>r.
     attempt cleared (\<lambda>_ st.
       (let st1 = drop_control (tk_control r) (drop_preview (tk_preview r) (drop_read token st))
        in saved_or works () st1 st1))) st"

section \<open>Authentication\<close>

text \<open>\<open>secrets.compare_digest\<close> on two texts raises \<open>TypeError\<close> when one of them is not ASCII.\<close>

definition compare_digest :: "string \<Rightarrow> string \<Rightarrow> bool result" where
  "compare_digest a b = (if is_ascii a \<and> is_ascii b then Inr (a = b) else Inl TypeError)"

fun scan_digest :: "string \<Rightarrow> (string \<times> token_rec) list \<Rightarrow> token_rec option \<Rightarrow> token_rec option result" where
  "scan_digest supplied [] found = Inr found"
| "scan_digest supplied ((k, r) # rs) found =
     andThen (compare_digest supplied k) (\<lambda>same. scan_digest supplied rs (if same then Some r else found))"

definition if_credentials_valid :: "instant \<Rightarrow> token_rec option \<Rightarrow> token_rec option" where
  "if_credentials_valid now v = (case v of None \<Rightarrow> None | Some r \<Rightarrow> if credentials_valid now r then Some r else None)"

definition authenticate :: "instant \<Rightarrow> string \<Rightarrow> token_store \<Rightarrow> token_rec option result" where
  "authenticate now supplied st =
     andThen (scan_digest supplied (ts_records st) None) (\<lambda>v. Inr (if_credentials_valid now v))"

definition authenticate_preview :: "instant \<Rightarrow> string \<Rightarrow> token_store \<Rightarrow> token_rec option" where
  "authenticate_preview now supplied st =
     (if length supplied \<noteq> PREVIEW_TOKEN_LENGTH then None
      else case map_of (ts_previews st) supplied of
        None \<Rightarrow> None
      | Some r \<Rightarrow> if token_valid now r then Some r else None)"

definition authenticate_control :: "instant \<Rightarrow> string \<Rightarrow> token_store \<Rightarrow> token_rec option result" where
  "authenticate_control now supplied st =
     andThen (scan_digest supplied (ts_controls st) None) (\<lambda>v. Inr (if_credentials_valid now v))"

text \<open>A pasted text must contain the control token of exactly one record.\<close>

fun scan_pasted :: "string \<Rightarrow> (string \<times> token_rec) list \<Rightarrow> token_rec option \<Rightarrow> token_rec option" where
  "scan_pasted supplied [] found = found"
| "scan_pasted supplied ((k, r) # rs) found =
     (if contains supplied k
      then (case found of
              None \<Rightarrow> scan_pasted supplied rs (Some r)
            | Some q \<Rightarrow> if q \<noteq> r then None else scan_pasted supplied rs (Some r))
      else scan_pasted supplied rs found)"

definition control_authorization :: "instant \<Rightarrow> string \<Rightarrow> token_store \<Rightarrow> token_rec option" where
  "control_authorization now supplied st = if_credentials_valid now (scan_pasted supplied (ts_controls st) None)"

definition app_authorization :: "instant \<Rightarrow> string \<Rightarrow> token_store \<Rightarrow> token_rec option" where
  "app_authorization now app st =
     (case get_by_app_id app st of None \<Rightarrow> None | Some r \<Rightarrow> if token_valid now r then Some r else None)"

text \<open>\<open>sorted(..., reverse=True)\<close> keeps the order of records with equal keys.\<close>

definition token_list :: "instant \<Rightarrow> token_store \<Rightarrow> token_rec list" where
  "token_list now st =
     rev (sort_key (\<lambda>r. (credentials_valid now r, token_valid now r, tk_created r)) (rev (map snd (ts_records st))))"

definition token_scope_root :: "token_env \<Rightarrow> token_rec \<Rightarrow> path result" where
  "token_scope_root env r =
     (let scoped = resolve (te_fs env) (te_root env @ parse_path (tk_prefix r)) in
        if take (length (te_root env)) scoped \<noteq> te_root env then Inl (ValueError ''token path scope escapes workspace root'')
        else if \<not> is_dir (te_fs env) scoped then Inl (ValueError ''token path scope is not an existing directory'')
        else Inr scoped)"

definition live_nonces :: "int \<Rightarrow> token_store \<Rightarrow> ((string \<times> string) \<times> int) list" where
  "live_nonces now st = filter (\<lambda>(_, expires). \<not> expires \<le> now) (ts_nonces st)"

definition consume_signed_nonce :: "string \<Rightarrow> string \<Rightarrow> int \<Rightarrow> int \<Rightarrow> token_store \<Rightarrow> bool \<times> token_store" where
  "consume_signed_nonce identity nonce now ttl st =
     (if (identity, nonce) \<in> fst ` set (live_nonces now st) then (False, st\<lparr>ts_nonces := live_nonces now st\<rparr>)
      else (True, st\<lparr>ts_nonces := AList.update (identity, nonce) (now + ttl) (live_nonces now st)\<rparr>))"

section \<open>Start\<close>

text \<open>
  An entry of the data file: the fields as \<open>from_dict\<close> reads them, with the empty text where a credential
  is missing, whether it has an expiry of the credentials, and whether it has all the newer fields and
  none of the retired ones.  Reading an access rule sets its legacy flag from the strict flag.
\<close>

record stored_token =
  sd_rec :: token_rec
  sd_cred :: bool
  sd_current :: bool

definition read_back :: "token_rec \<Rightarrow> token_rec" where
  "read_back r = r\<lparr>tk_paths := map (\<lambda>g. g\<lparr>g_legacy_directory := \<not> g_strict_file g\<rparr>) (tk_paths r)\<rparr>"

definition fill_preview :: "draws \<Rightarrow> token_store \<Rightarrow> token_rec \<Rightarrow> token_rec result" where
  "fill_preview dr st r =
     (if tk_preview r \<noteq> [] then Inr r
      else andThen (new_token (dr_preview dr) [tk_token r, tk_control r] st) (\<lambda>x. Inr (r\<lparr>tk_preview := x\<rparr>)))"

definition fill_control :: "draws \<Rightarrow> token_store \<Rightarrow> token_rec \<Rightarrow> token_rec result" where
  "fill_control dr st r =
     (if tk_control r \<noteq> [] then Inr r
      else andThen (new_control_token (dr_control dr) [tk_token r, tk_preview r] st) (\<lambda>x. Inr (r\<lparr>tk_control := x\<rparr>)))"

definition fill_app :: "draws \<Rightarrow> token_store \<Rightarrow> token_rec \<Rightarrow> token_rec result" where
  "fill_app dr st r = (if tk_app r \<noteq> [] then Inr r else andThen (new_app_id (dr_app dr) st) (\<lambda>x. Inr (r\<lparr>tk_app := x\<rparr>)))"

definition load_conflict :: "token_store \<Rightarrow> token_rec \<Rightarrow> string option" where
  "load_conflict st r =
     (if tk_token r \<in> fst ` set (ts_records st) then Some ''duplicate token in data file''
      else if tk_preview r \<in> fst ` set (ts_previews st) then Some ''duplicate preview token in data file''
      else if tk_control r \<in> fst ` set (ts_controls st) then Some ''duplicate control token in data file''
      else if in_use st (tk_token r) \<or> in_use st (tk_preview r) \<or> in_use st (tk_control r)
      then Some ''read, control, and preview token namespaces conflict'' else None)"

definition load_token :: "token_env \<Rightarrow> draws \<Rightarrow> instant \<Rightarrow> stored_token \<Rightarrow> token_store \<Rightarrow> token_store result" where
  "load_token env dr now item st =
     (let r = read_back (sd_rec item);
          r = (if sd_cred item then r else r\<lparr>tk_cred_expires := Some (At (now + days_us DEFAULT_CREDENTIAL_TTL_DAYS))\<rparr>)
      in andThen (fill_preview dr st r) (\<lambda>r. andThen (fill_control dr st r) (\<lambda>r. andThen (fill_app dr st r) (\<lambda>r.
         andThen (token_validate env r) (\<lambda>r. checked (load_conflict st r) (Inr (put_record r st)))))))"

fun load_tokens :: "token_env \<Rightarrow> draws \<Rightarrow> instant \<Rightarrow> stored_token list \<Rightarrow> token_store \<Rightarrow> token_store result" where
  "load_tokens env dr now [] st = Inr st"
| "load_tokens env dr now (item # items) st = andThen (load_token env dr now item st) (load_tokens env dr now items)"

definition needs_migration :: "stored_token \<Rightarrow> bool" where
  "needs_migration item \<longleftrightarrow> \<not> sd_current item \<or> \<not> sd_cred item \<or>
     tk_preview (sd_rec item) = [] \<or> tk_control (sd_rec item) = [] \<or> tk_app (sd_rec item) = []"

definition load_store ::
  "token_env \<Rightarrow> draws \<Rightarrow> instant \<Rightarrow> stored_token list \<Rightarrow> bool \<Rightarrow> token_store result" where
  "load_store env dr now items works =
     andThen (load_tokens env dr now items ((new_store True)\<lparr>ts_disk := Some (map sd_rec items)\<rparr>)) (\<lambda>st.
       if list_ex needs_migration items then save_tokens works st else Inr st)"

definition default_settings :: token_rec where
  "default_settings =
     \<lparr>tk_token = [], tk_name = ''Bootstrap token'', tk_created = [], tk_preview = [], tk_control = [], tk_app = [],
      tk_expires = None, tk_cred_expires = None, tk_enabled = True, tk_prefix = ''.'', tk_image = None, tk_read = True,
      tk_write = True, tk_can_preview = False, tk_schedule = False, tk_shell = ''full'', tk_backend = ''auto'',
      tk_sandbox_image = None, tk_network = ''none'', tk_domains = [], tk_paths = [], tk_procs = 64, tk_memory = 256,
      tk_cpu = 100\<rparr>"

definition bootstrap_store ::
  "token_env \<Rightarrow> draws \<Rightarrow> string \<Rightarrow> bool \<Rightarrow> instant \<Rightarrow> token_store \<Rightarrow> token_store result" where
  "bootstrap_store env dr token works now st =
     (if token = [] \<or> token \<in> fst ` set (ts_records st) then Inr st
      else if in_use st token then Inl (ValueError ''bootstrap token conflicts with an existing credential'')
      else andThen (new_token (dr_preview dr) [token] st) (\<lambda>preview.
           andThen (new_control_token (dr_control dr) [token, preview] st) (\<lambda>control.
           andThen (new_app_id (dr_app dr) st) (\<lambda>app.
           andThen (credential_expiry DEFAULT_CREDENTIAL_TTL_DAYS now) (\<lambda>expires.
           andThen (token_validate env (fresh_record default_settings token preview control app (iso_utc now) expires ''.'')) (\<lambda>r.
             save_tokens works (put_record r st)))))))"

definition open_tokens ::
  "token_env \<Rightarrow> draws \<Rightarrow> bool \<Rightarrow> stored_token list option \<Rightarrow> string \<Rightarrow> bool \<Rightarrow> instant \<Rightarrow> token_store result" where
  "open_tokens env dr has_file items bootstrap works now =
     andThen (case items of
                None \<Rightarrow> Inr (new_store has_file)
              | Some xs \<Rightarrow> if has_file then load_store env dr now xs works else Inr (new_store has_file))
       (bootstrap_store env dr bootstrap works now)"

text \<open>
  A restart reads what the last save left in the data file.  An entry written by \<open>to_dict\<close> has every
  newer field; only an empty creation date is read as the present.  Nonces are not in the file.
\<close>

definition stored_entry :: "instant \<Rightarrow> token_rec \<Rightarrow> stored_token" where
  "stored_entry now r =
     \<lparr>sd_rec = (if tk_created r = [] then r\<lparr>tk_created := iso_utc now\<rparr> else r), sd_cred = True, sd_current = True\<rparr>"

definition restart_tokens ::
  "token_env \<Rightarrow> draws \<Rightarrow> string \<Rightarrow> bool \<Rightarrow> instant \<Rightarrow> token_store \<Rightarrow> token_store result" where
  "restart_tokens env dr bootstrap works now st =
     open_tokens env dr (ts_has_file st) (map_option (map (stored_entry now)) (ts_disk st)) bootstrap works now"

end
