(* ===== verification/Token_Safety.thy ===== *)
theory Token_Safety
  imports Token_Store
begin

text \<open>
  The invariant of the token registry: every record is well-formed, the three dictionaries agree, and no
  text is a credential of two kinds or of two records.  It is kept by every operation, also when the
  data file cannot be written.
\<close>

section \<open>Validated records\<close>

definition parsed :: "stamp option \<Rightarrow> bool" where
  "parsed v \<longleftrightarrow> (case v of Some (Raw _) \<Rightarrow> False | _ \<Rightarrow> True)"

definition well_formed :: "token_rec \<Rightarrow> bool" where
  "well_formed r \<longleftrightarrow> identity_error r = None \<and> settings_error r = None \<and> limits_error r = None \<and>
     parsed (tk_expires r) \<and> parsed (tk_cred_expires r) \<and> strip (tk_name r) = tk_name r \<and>
     (tk_network r = ''domain_allowlist'' \<longrightarrow> tk_domains r \<noteq> []) \<and>
     (tk_shell r = ''full'' \<longrightarrow> list_all (\<lambda>g. \<not> restricts (g_access g)) (tk_paths r))"

lemma checked_Inr [simp]: "checked err res = Inr x \<longleftrightarrow> err = None \<and> res = Inr x"
  by (simp add: checked_def split: option.split)

lemma if_Some_None: "(if b then Some m else None) = None \<longleftrightarrow> \<not> b"
  by simp

lemma stamp_of_parsed: "stamp_of env v = Inr w \<Longrightarrow> parsed w"
  by (auto simp: stamp_of_def parsed_def split: option.splits stamp.splits if_splits)

lemma stamp_of_self: "parsed v \<Longrightarrow> stamp_of env v = Inr w \<Longrightarrow> w = v"
  by (auto simp: stamp_of_def parsed_def split: option.splits stamp.splits if_splits)

text \<open>What validation keeps and what it establishes.\<close>

lemma validated:
  assumes "token_validate env r = Inr q"
  shows "well_formed q" "tk_token q = tk_token r" "tk_preview q = tk_preview r" "tk_control q = tk_control r"
    "tk_app q = tk_app r" "tk_created q = tk_created r" "stamp_of (te_clock env) (tk_cred_expires r) = Inr (tk_cred_expires q)"
proof -
  from assms have "\<exists>domains expires cred sc gp.
      identity_error r = None \<and> settings_error r = None \<and> limits_error r = None \<and>
      \<not> (tk_network r = ''domain_allowlist'' \<and> domains = []) \<and>
      stamp_of (te_clock env) (tk_expires r) = Inr expires \<and> stamp_of (te_clock env) (tk_cred_expires r) = Inr cred \<and>
      scope_of env (tk_prefix r) = Inr sc \<and> norm_grants env (tk_paths r) [] [] = Inr gp \<and>
      \<not> (tk_shell r = ''full'' \<and> list_ex (\<lambda>g. restricts (g_access g)) (fst gp)) \<and>
      r\<lparr>tk_name := strip (tk_name r), tk_expires := expires, tk_cred_expires := cred, tk_prefix := path_str (snd sc),
         tk_sandbox_image := sandbox_image_of r, tk_domains := domains, tk_paths := fst gp\<rparr> = q"
    unfolding token_validate_def checked_Inr andThen_eq_Inr if_Some_None case_prod_beta sum.inject
    by (elim conjE exE) (intro exI conjI, assumption+)
  then obtain domains expires cred sc gp where v:
    "identity_error r = None" "settings_error r = None" "limits_error r = None"
    "\<not> (tk_network r = ''domain_allowlist'' \<and> domains = [])"
    "stamp_of (te_clock env) (tk_expires r) = Inr expires" "stamp_of (te_clock env) (tk_cred_expires r) = Inr cred"
    "scope_of env (tk_prefix r) = Inr sc" "norm_grants env (tk_paths r) [] [] = Inr gp"
    "\<not> (tk_shell r = ''full'' \<and> list_ex (\<lambda>g. restricts (g_access g)) (fst gp))"
    "q = r\<lparr>tk_name := strip (tk_name r), tk_expires := expires, tk_cred_expires := cred,
            tk_prefix := path_str (snd sc), tk_sandbox_image := sandbox_image_of r, tk_domains := domains,
            tk_paths := fst gp\<rparr>"
    by (elim exE conjE) (rule that, (assumption | erule sym)+)
  have img: "sandbox_image_of q = sandbox_image_of r"
    by (auto simp: v(10) sandbox_image_of_def split: option.splits)
  have "identity_error q = identity_error r" "limits_error q = limits_error r"
    by (simp_all add: v(10) identity_error_def limits_error_def)
  moreover have "settings_error q = settings_error r"
    unfolding settings_error_def img by (simp add: v(10))
  ultimately show "well_formed q"
    using v stamp_of_parsed [OF v(5)] stamp_of_parsed [OF v(6)]
    by (auto simp: well_formed_def v(10) list_ex_iff list_all_iff)
  show "tk_token q = tk_token r" "tk_preview q = tk_preview r" "tk_control q = tk_control r" "tk_app q = tk_app r"
    "tk_created q = tk_created r" "stamp_of (te_clock env) (tk_cred_expires r) = Inr (tk_cred_expires q)"
    by (simp_all add: v)
qed

lemma identity_distinct: "well_formed r \<Longrightarrow> distinct [tk_token r, tk_preview r, tk_control r]"
  by (auto simp: well_formed_def identity_error_def split: if_splits)

section \<open>The invariant\<close>

abbreviation recs :: "token_store \<Rightarrow> string \<Rightarrow> token_rec option" where
  "recs st \<equiv> map_of (ts_records st)"

abbreviation prevs :: "token_store \<Rightarrow> string \<Rightarrow> token_rec option" where
  "prevs st \<equiv> map_of (ts_previews st)"

abbreviation ctrls :: "token_store \<Rightarrow> string \<Rightarrow> token_rec option" where
  "ctrls st \<equiv> map_of (ts_controls st)"

definition tables_keyed :: "token_store \<Rightarrow> bool" where
  "tables_keyed st \<longleftrightarrow> distinct (map fst (ts_records st)) \<and> distinct (map fst (ts_previews st)) \<and> distinct (map fst (ts_controls st))"

definition maps_ok :: "(string \<rightharpoonup> token_rec) \<Rightarrow> (string \<rightharpoonup> token_rec) \<Rightarrow> (string \<rightharpoonup> token_rec) \<Rightarrow> bool" where
  "maps_ok R P C \<longleftrightarrow>
     (\<forall>x r. R x = Some r \<longrightarrow> tk_token r = x \<and> well_formed r \<and> P (tk_preview r) = Some r \<and> C (tk_control r) = Some r) \<and>
     (\<forall>x r. P x = Some r \<longrightarrow> tk_preview r = x \<and> R (tk_token r) = Some r) \<and>
     (\<forall>x r. C x = Some r \<longrightarrow> tk_control r = x \<and> R (tk_token r) = Some r) \<and>
     dom R \<inter> dom P = {} \<and> dom R \<inter> dom C = {} \<and> dom P \<inter> dom C = {}"

definition tokens_ok :: "token_store \<Rightarrow> bool" where
  "tokens_ok st \<longleftrightarrow> tables_keyed st \<and> maps_ok (recs st) (prevs st) (ctrls st)"

lemma in_use_iff: "in_use st x \<longleftrightarrow> recs st x \<noteq> None \<or> prevs st x \<noteq> None \<or> ctrls st x \<noteq> None"
  by (simp add: in_use_def map_of_eq_None_iff)

lemma updates_token_maps [simp]:
  "recs (put_record r st) = (recs st)(tk_token r \<mapsto> r)" "prevs (put_record r st) = (prevs st)(tk_preview r \<mapsto> r)"
  "ctrls (put_record r st) = (ctrls st)(tk_control r \<mapsto> r)"
  "recs (drop_read x st) = (recs st)(x := None)" "prevs (drop_read x st) = prevs st" "ctrls (drop_read x st) = ctrls st"
  "recs (drop_preview x st) = recs st" "prevs (drop_preview x st) = (prevs st)(x := None)" "ctrls (drop_preview x st) = ctrls st"
  "recs (drop_control x st) = recs st" "prevs (drop_control x st) = prevs st" "ctrls (drop_control x st) = (ctrls st)(x := None)"
  by (simp_all add: put_record_def drop_read_def drop_preview_def drop_control_def update_conv' delete_conv')

lemma updates_keyed [simp]:
  "tables_keyed st \<Longrightarrow> tables_keyed (put_record r st)" "tables_keyed st \<Longrightarrow> tables_keyed (drop_read x st)"
  "tables_keyed st \<Longrightarrow> tables_keyed (drop_preview x st)" "tables_keyed st \<Longrightarrow> tables_keyed (drop_control x st)"
  by (simp_all add: tables_keyed_def put_record_def drop_read_def drop_preview_def drop_control_def
      distinct_update distinct_delete)

text \<open>Removing one record from the three maps, and putting a record in whose credentials are free.\<close>

lemma maps_ok_remove:
  assumes "maps_ok R P C" "R x = Some r"
  shows "maps_ok (R(x := None)) (P(tk_preview r := None)) (C(tk_control r := None))"
proof -
  have r: "tk_token r = x" "P (tk_preview r) = Some r" "C (tk_control r) = Some r" using assms by (auto simp: maps_ok_def)
  have other: "tk_preview q \<noteq> tk_preview r \<and> tk_control q \<noteq> tk_control r" if "R y = Some q" "y \<noteq> x" for y q
    using assms that r unfolding maps_ok_def by (metis option.inject)
  have "tk_token q \<noteq> x" if "P y = Some q" "y \<noteq> tk_preview r" for y q
    using assms that r unfolding maps_ok_def by (metis option.inject)
  moreover have "tk_token q \<noteq> x" if "C y = Some q" "y \<noteq> tk_control r" for y q
    using assms that r unfolding maps_ok_def by (metis option.inject)
  ultimately show ?thesis
    using assms(1) other unfolding maps_ok_def by (auto simp: dom_def split: if_splits)
qed

definition unused :: "(string \<rightharpoonup> token_rec) \<Rightarrow> (string \<rightharpoonup> token_rec) \<Rightarrow> (string \<rightharpoonup> token_rec) \<Rightarrow> string \<Rightarrow> bool" where
  "unused R P C x \<longleftrightarrow> R x = None \<and> P x = None \<and> C x = None"

lemma maps_ok_insert:
  assumes "maps_ok R P C" "well_formed r" "unused R P C (tk_token r)" "unused R P C (tk_preview r)" "unused R P C (tk_control r)"
  shows "maps_ok (R(tk_token r \<mapsto> r)) (P(tk_preview r \<mapsto> r)) (C(tk_control r \<mapsto> r))"
proof -
  have d: "tk_token r \<noteq> tk_preview r" "tk_token r \<noteq> tk_control r" "tk_preview r \<noteq> tk_control r"
    using identity_distinct [OF assms(2)] by auto
  have "tk_preview q \<noteq> tk_preview r \<and> tk_control q \<noteq> tk_control r" if "R y = Some q" for y q
    using assms(1,4,5) that unfolding maps_ok_def unused_def by (metis option.distinct(1))
  moreover have "tk_token q \<noteq> tk_token r" if "P y = Some q \<or> C y = Some q" for y q
    using assms(1,3) that unfolding maps_ok_def unused_def by (metis option.distinct(1))
  ultimately show ?thesis
    using assms d unfolding maps_ok_def unused_def by (auto simp: dom_def split: if_splits)
qed

text \<open>
  The general form of a change of one record: each credential stays or is replaced by a text that is not
  in use.
\<close>

lemma maps_ok_replace:
  assumes ok: "maps_ok R P C" and cur: "R x = Some cur" and wf: "well_formed r"
    and t: "tk_token r = x \<or> unused R P C (tk_token r)"
    and p: "tk_preview r = tk_preview cur \<or> unused R P C (tk_preview r)"
    and c: "tk_control r = tk_control cur \<or> unused R P C (tk_control r)"
  shows "maps_ok ((R(x := None))(tk_token r \<mapsto> r)) ((P(tk_preview cur := None))(tk_preview r \<mapsto> r))
    ((C(tk_control cur := None))(tk_control r \<mapsto> r))"
proof -
  have r: "tk_token cur = x" "P (tk_preview cur) = Some cur" "C (tk_control cur) = Some cur"
    using ok cur by (auto simp: maps_ok_def)
  have dis: "R y = None \<or> P y = None" "R y = None \<or> C y = None" "P y = None \<or> C y = None" for y
    using ok by (auto simp: maps_ok_def)
  have "unused (R(x := None)) (P(tk_preview cur := None)) (C(tk_control cur := None)) (tk_token r)"
    using t dis [of x] cur by (auto simp: unused_def)
  moreover have "unused (R(x := None)) (P(tk_preview cur := None)) (C(tk_control cur := None)) (tk_preview r)"
    using p dis [of "tk_preview cur"] r by (auto simp: unused_def)
  moreover have "unused (R(x := None)) (P(tk_preview cur := None)) (C(tk_control cur := None)) (tk_control r)"
    using c dis [of "tk_control cur"] r by (auto simp: unused_def)
  ultimately show ?thesis
    by (intro maps_ok_insert [OF maps_ok_remove [OF ok cur] wf])
qed

section \<open>Outcomes of the operations\<close>

lemma attempt_Inr: "attempt v f s = (Inr y, s') \<longleftrightarrow> (\<exists>x. v = Inr x \<and> f x s = (Inr y, s'))"
  by (cases v) auto

lemma drawn:
  "new_token xs ex st = Inr x \<Longrightarrow> \<not> in_use st x \<and> x \<notin> set ex"
  "new_control_token xs ex st = Inr x \<Longrightarrow> \<not> in_use st x \<and> x \<notin> set ex"
  "new_app_id xs st = Inr x \<Longrightarrow> x \<notin> (tk_app \<circ> snd) ` set (ts_records st)"
  by (auto simp: new_token_def new_control_token_def new_app_id_def draw_def find_Some_iff split: option.splits)

definition same_tokens :: "token_store \<Rightarrow> token_store \<Rightarrow> bool" where
  "same_tokens st' st \<longleftrightarrow> recs st' = recs st \<and> prevs st' = prevs st \<and> ctrls st' = ctrls st \<and> tables_keyed st'"

definition replaced :: "token_rec \<Rightarrow> token_rec \<Rightarrow> token_store \<Rightarrow> token_store \<Rightarrow> bool" where
  "replaced cur r st st' \<longleftrightarrow> tables_keyed st' \<and>
     recs st' = (recs st)(tk_token cur := None, tk_token r \<mapsto> r) \<and>
     prevs st' = (prevs st)(tk_preview cur := None, tk_preview r \<mapsto> r) \<and>
     ctrls st' = (ctrls st)(tk_control cur := None, tk_control r \<mapsto> r)"

definition kept_or_free :: "(stamp option \<Rightarrow> bool) \<Rightarrow> token_store \<Rightarrow> token_rec \<Rightarrow> token_rec \<Rightarrow> bool" where
  "kept_or_free E st cur r \<longleftrightarrow> well_formed r \<and> tk_app r = tk_app cur \<and>
     (tk_cred_expires r = tk_cred_expires cur \<or> E (tk_cred_expires r)) \<and>
     (tk_token r = tk_token cur \<or> \<not> in_use st (tk_token r)) \<and>
     (tk_preview r = tk_preview cur \<or> \<not> in_use st (tk_preview r)) \<and>
     (tk_control r = tk_control cur \<or> \<not> in_use st (tk_control r))"

lemma same_tokens_ok: "tokens_ok st \<Longrightarrow> same_tokens st' st \<Longrightarrow> tokens_ok st'"
  by (simp add: tokens_ok_def same_tokens_def)

lemma same_tokens_refl: "tokens_ok st \<Longrightarrow> same_tokens st st"
  by (simp add: tokens_ok_def same_tokens_def)

lemma replaced_ok:
  "tokens_ok st \<Longrightarrow> recs st (tk_token cur) = Some cur \<Longrightarrow> kept_or_free E st cur r \<Longrightarrow> replaced cur r st st' \<Longrightarrow> tokens_ok st'"
  unfolding tokens_ok_def replaced_def kept_or_free_def in_use_iff
  by (simp add: maps_ok_replace unused_def)

lemma recs_own: "tokens_ok st \<Longrightarrow> recs st x = Some r \<Longrightarrow>
    tk_token r = x \<and> well_formed r \<and> prevs st (tk_preview r) = Some r \<and> ctrls st (tk_control r) = Some r"
  by (simp add: tokens_ok_def maps_ok_def)

lemma saved_or_cases:
  obtains (written) st1 where "saved_or works v st undone = (Inr v, st1)" "same_tokens st1 st \<or> \<not> tables_keyed st"
      "ts_has_file st \<Longrightarrow> ts_disk st1 = Some (map snd (ts_records st))"
      "ts_records st1 = ts_records st" "ts_nonces st1 = ts_nonces st" "ts_has_file st1 = ts_has_file st"
    | (lost) "saved_or works v st undone = (Inl OSError, undone)" "\<not> works"
proof (cases "ts_has_file st \<and> \<not> works")
  case True
  then show ?thesis by (intro lost) (simp_all add: saved_or_def save_tokens_def)
next
  case False
  define st1 where "st1 = (if ts_has_file st then st\<lparr>ts_disk := Some (map snd (ts_records st))\<rparr> else st)"
  show ?thesis
    by (rule written [of st1])
      (use False in \<open>simp_all add: st1_def saved_or_def save_tokens_def same_tokens_def tables_keyed_def\<close>)
qed

lemma saved_or_Inr: "saved_or works v st undone = (Inr y, s') \<Longrightarrow> y = v"
  by (auto simp: saved_or_def split: sum.splits)

lemma token_get_Inr: "token_get x st = Inr r \<longleftrightarrow> recs st x = Some r"
  by (simp add: token_get_def split: option.split)

text \<open>
  The three ways an operation on one record can end: an error that changes nothing; success; or, for the
  operations that do not undo, the change with an error from saving.
\<close>

definition one_record_op :: "bool \<Rightarrow> (stamp option \<Rightarrow> bool) \<Rightarrow> token_store \<Rightarrow> string \<Rightarrow> token_rec result \<times> token_store \<Rightarrow> bool" where
  "one_record_op undoes E st x out \<longleftrightarrow>
     (\<exists>e. fst out = Inl e) \<and> same_tokens (snd out) st \<or>
     (\<exists>cur r. recs st x = Some cur \<and> kept_or_free E st cur r \<and> replaced cur r st (snd out) \<and>
        (fst out = Inr r \<or> fst out = Inl OSError \<and> \<not> undoes))"

lemma one_record_ok: "tokens_ok st \<Longrightarrow> one_record_op u E st x out \<Longrightarrow> tokens_ok (snd out)"
  unfolding one_record_op_def using same_tokens_ok replaced_ok recs_own by metis

lemma one_record_unchanged: "tokens_ok st \<Longrightarrow> one_record_op u E st x (Inl e, st)"
  by (simp add: one_record_op_def same_tokens_refl)

lemma one_record_attempt:
  "tokens_ok st \<Longrightarrow> (\<And>y. v = Inr y \<Longrightarrow> one_record_op u E st x (f y st)) \<Longrightarrow> one_record_op u E st x (attempt v f st)"
  by (cases v) (auto simp: one_record_unchanged)

lemma one_record_saved:
  assumes "tokens_ok st" "recs st x = Some cur" "kept_or_free E st cur r" "replaced cur r st st1"
    and "if u then same_tokens undone st else undone = st1"
  shows "one_record_op u E st x (saved_or works r st1 undone)"
proof (cases rule: saved_or_cases [of works r st1 undone])
  case (written st2)
  then have "replaced cur r st st2" using assms(4) by (auto simp: replaced_def same_tokens_def)
  with written assms(2,3) show ?thesis by (auto simp: one_record_op_def)
next
  case lost
  with assms show ?thesis by (cases u) (auto simp: one_record_op_def)
qed

lemma rotate_read_outcome: "tokens_ok st \<Longrightarrow> one_record_op True E st x (rotate_read_token env dr x works st)"
  unfolding rotate_read_token_def
proof (intro one_record_attempt one_record_saved; (assumption)?)
  fix cur f r
  assume ok: "tokens_ok st" and a: "token_get x st = Inr cur" "new_token (dr_read dr) [] st = Inr f"
    "token_validate env (cur\<lparr>tk_token := f\<rparr>) = Inr r"
  have cur: "recs st x = Some cur" using a(1) by (simp add: token_get_Inr)
  note own = recs_own [OF ok cur] and v = validated [OF a(3)] and d = drawn(1) [OF a(2)]
  show "recs st x = Some cur" by (rule cur)
  show "kept_or_free E st cur r"
    using v d own stamp_of_self [of "tk_cred_expires cur" _ "tk_cred_expires r"] by (auto simp: kept_or_free_def well_formed_def)
  show "replaced cur r st (put_record r (drop_read x st))"
    using own v ok by (auto simp: replaced_def tokens_ok_def)
  show "if True then same_tokens (put_record cur (drop_read f (put_record r (drop_read x st)))) st
      else put_record cur (drop_read f (put_record r (drop_read x st))) = put_record r (drop_read x st)"
    using own v d ok cur by (auto simp: same_tokens_def tokens_ok_def in_use_iff fun_eq_iff)
qed

lemma rotate_control_outcome: "tokens_ok st \<Longrightarrow> one_record_op True E st x (rotate_control_token env dr x works st)"
  unfolding rotate_control_token_def
proof (intro one_record_attempt one_record_saved; (assumption)?)
  fix cur f r
  assume ok: "tokens_ok st" and a: "token_get x st = Inr cur" "new_control_token (dr_control dr) [] st = Inr f"
    "token_validate env (cur\<lparr>tk_control := f\<rparr>) = Inr r"
  have cur: "recs st x = Some cur" using a(1) by (simp add: token_get_Inr)
  note own = recs_own [OF ok cur] and v = validated [OF a(3)] and d = drawn(2) [OF a(2)]
  show "recs st x = Some cur" by (rule cur)
  show "kept_or_free E st cur r"
    using v d own stamp_of_self [of "tk_cred_expires cur" _ "tk_cred_expires r"] by (auto simp: kept_or_free_def well_formed_def)
  show "replaced cur r st (put_record r (drop_control (tk_control cur) st))"
    using own v ok by (auto simp: replaced_def tokens_ok_def)
  show "if True then same_tokens (put_record cur (drop_control f (put_record r (drop_control (tk_control cur) st)))) st
      else put_record cur (drop_control f (put_record r (drop_control (tk_control cur) st))) =
        put_record r (drop_control (tk_control cur) st)"
    using own v d ok cur by (auto simp: same_tokens_def tokens_ok_def in_use_iff fun_eq_iff)
qed

lemma replace_credentials_outcome:
  assumes ok: "tokens_ok st" and cur: "recs st x = Some cur" and E: "E expires" "parsed expires"
  shows "one_record_op True E st x (replace_credentials env dr cur expires works st)"
  unfolding replace_credentials_def
proof (intro one_record_attempt one_record_saved ok cur)
  fix f g r
  assume a: "new_token (dr_read dr) [] st = Inr f" "new_control_token (dr_control dr) [f, tk_preview cur] st = Inr g"
    "token_validate env (cur\<lparr>tk_token := f, tk_control := g, tk_cred_expires := expires\<rparr>) = Inr r"
  note own = recs_own [OF ok cur] and v = validated [OF a(3)] and d = drawn(1) [OF a(1)] and c = drawn(2) [OF a(2)]
  let ?st = "put_record r (drop_control (tk_control cur) (drop_read (tk_token cur) st))"
  show "recs st x = Some cur" by (rule cur)
  show "kept_or_free E st cur r"
    using v d c E stamp_of_self [OF E(2), of "te_clock env" "tk_cred_expires r"] by (simp add: kept_or_free_def)
  show "replaced cur r st ?st" using own v ok by (auto simp: replaced_def tokens_ok_def)
  show "if True then same_tokens (put_record cur (drop_control g (drop_read f ?st))) st
      else put_record cur (drop_control g (drop_read f ?st)) = ?st"
    using own v d c ok cur by (auto simp: same_tokens_def tokens_ok_def in_use_iff fun_eq_iff)
qed

lemma renew_outcome:
  assumes "tokens_ok st" "\<And>v. credential_expiry ttl now = Inr v \<Longrightarrow> E v"
  shows "one_record_op True E st x (renew_credentials env dr x ttl works now st)"
  unfolding renew_credentials_def
  by (intro one_record_attempt replace_credentials_outcome assms)
    (auto simp: token_get_Inr credential_expiry_def parsed_def split: if_splits)

lemma renew_if_due_outcome:
  assumes "tokens_ok st" "E (Some (At (now + days_us DEFAULT_CREDENTIAL_TTL_DAYS)))"
  shows "one_record_op True E st x (renew_credentials_if_due env dr x works now st)"
  unfolding renew_credentials_if_due_def
  by (intro one_record_attempt replace_credentials_outcome assms) (auto simp: token_get_Inr parsed_def)

lemma rotate_preview_outcome: "tokens_ok st \<Longrightarrow> one_record_op False E st x (rotate_preview_token env dr x works st)"
  unfolding rotate_preview_token_def
proof (intro one_record_attempt one_record_saved; (assumption)?)
  fix cur f r
  assume ok: "tokens_ok st" and a: "token_get x st = Inr cur" "new_token (dr_preview dr) [] st = Inr f"
    "token_validate env (cur\<lparr>tk_preview := f\<rparr>) = Inr r"
  have cur: "recs st x = Some cur" using a(1) by (simp add: token_get_Inr)
  note own = recs_own [OF ok cur] and v = validated [OF a(3)] and d = drawn(1) [OF a(2)]
  show "recs st x = Some cur" by (rule cur)
  show "kept_or_free E st cur r"
    using v d own stamp_of_self [of "tk_cred_expires cur" _ "tk_cred_expires r"] by (auto simp: kept_or_free_def well_formed_def)
  show "replaced cur r st (put_record r (drop_preview (tk_preview cur) st))"
    using own v ok by (auto simp: replaced_def tokens_ok_def)
qed simp

lemma update_outcome: "tokens_ok st \<Longrightarrow> one_record_op False (\<lambda>_. True) st x (token_update env x c layout works st)"
  unfolding token_update_def
proof (intro one_record_attempt one_record_saved; (assumption)?)
  fix cur pre r
  assume ok: "tokens_ok st" and a: "token_get x st = Inr cur"
    "token_validate (case pre of None \<Rightarrow> env | Some name \<Rightarrow> with_workspace env name) (apply_token_changes c pre cur) = Inr r"
  have cur: "recs st x = Some cur" using a(1) by (simp add: token_get_Inr)
  note own = recs_own [OF ok cur] and v = validated [OF a(2)]
  show "recs st x = Some cur" by (rule cur)
  show "kept_or_free (\<lambda>_. True) st cur r"
    using v own by (simp add: kept_or_free_def apply_token_changes_def)
  show "replaced cur r st (put_record r st)"
    using own v ok by (auto simp: replaced_def tokens_ok_def apply_token_changes_def)
qed simp

lemma insert_ok:
  assumes "tokens_ok st" "well_formed r" "\<not> in_use st (tk_token r)" "\<not> in_use st (tk_preview r)" "\<not> in_use st (tk_control r)"
  shows "tokens_ok (put_record r st)"
  using assms maps_ok_insert [of "recs st" "prevs st" "ctrls st" r]
  by (simp add: tokens_ok_def in_use_iff unused_def)

lemma saved_or_ok: "tokens_ok st \<Longrightarrow> tokens_ok (snd (saved_or works v st st))"
  by (cases rule: saved_or_cases [of works v st st]) (auto simp: tokens_ok_def same_tokens_def)

lemma attempt_ok: "tokens_ok st \<Longrightarrow> (\<And>x. v = Inr x \<Longrightarrow> tokens_ok (snd (f x st))) \<Longrightarrow> tokens_ok (snd (attempt v f st))"
  by (cases v) auto

lemma create_tokens_ok: "tokens_ok st \<Longrightarrow> tokens_ok (snd (token_create env dr s layout works now st))"
  unfolding token_create_def
proof (intro attempt_ok saved_or_ok; (assumption)?)
  fix ws t p c a e r
  assume ok: "tokens_ok st" and d: "new_token (dr_read dr) [] st = Inr t" "new_token (dr_preview dr) [t] st = Inr p"
    "new_control_token (dr_control dr) [t, p] st = Inr c"
    and v: "token_validate (with_workspace env ws) (fresh_record s t p c a (iso_utc now) e ws) = Inr r"
  show "tokens_ok (put_record r st)"
    using validated [OF v] drawn(1) [OF d(1)] drawn(1) [OF d(2)] drawn(2) [OF d(3)]
    by (intro insert_ok [OF ok]) (simp_all add: fresh_record_def)
qed

lemma delete_tokens_ok: "tokens_ok st \<Longrightarrow> tokens_ok (snd (token_delete x cleared works st))"
  unfolding token_delete_def Let_def
proof (intro attempt_ok saved_or_ok; (assumption)?)
  fix r assume ok: "tokens_ok st" and "token_get x st = Inr r"
  then have r: "recs st x = Some r" by (simp add: token_get_Inr)
  from ok r maps_ok_remove [of "recs st" "prevs st" "ctrls st" x r]
  show "tokens_ok (drop_control (tk_control r) (drop_preview (tk_preview r) (drop_read x st)))"
    by (simp add: tokens_ok_def)
qed

lemma save_ok: "tokens_ok st \<Longrightarrow> save_tokens works st = Inr st' \<Longrightarrow> tokens_ok st'"
  by (auto simp: save_tokens_def tokens_ok_def tables_keyed_def split: if_splits)

lemma load_token_ok:
  assumes ok: "tokens_ok st" and l: "load_token env dr now item st = Inr st'"
  shows "tokens_ok st'"
proof -
  from l obtain r q where v: "token_validate env q = Inr r" "load_conflict st r = None" "st' = put_record r st"
    unfolding load_token_def Let_def andThen_eq_Inr checked_Inr sum.inject by (elim exE conjE) (erule that, assumption, erule sym)
  then show ?thesis
    using validated(1) [OF v(1)] by (auto simp: load_conflict_def intro!: insert_ok [OF ok] split: if_splits)
qed

lemma load_tokens_ok: "tokens_ok st \<Longrightarrow> load_tokens env dr now items st = Inr st' \<Longrightarrow> tokens_ok st'"
  by (induction items arbitrary: st) (auto intro: load_token_ok)

lemma new_store_ok: "tokens_ok (new_store f)" "tokens_ok ((new_store f)\<lparr>ts_disk := d\<rparr>)"
  by (simp_all add: new_store_def tokens_ok_def tables_keyed_def maps_ok_def)

lemma load_store_ok: "load_store env dr now items works = Inr st \<Longrightarrow> tokens_ok st"
  unfolding load_store_def andThen_eq_Inr
  using load_tokens_ok [OF new_store_ok(2)] save_ok by (metis sum.inject(2))

lemma bootstrap_ok: "tokens_ok st \<Longrightarrow> bootstrap_store env dr token works now st = Inr st' \<Longrightarrow> tokens_ok st'"
proof -
  assume ok: "tokens_ok st" and b: "bootstrap_store env dr token works now st = Inr st'"
  show ?thesis
  proof (cases "token = [] \<or> token \<in> fst ` set (ts_records st)")
    case True
    with b ok show ?thesis by (simp add: bootstrap_store_def)
  next
    case False
    have free: "\<not> in_use st token" using b False by (auto simp: bootstrap_store_def)
    with b False obtain p c a e r where r: "new_token (dr_preview dr) [token] st = Inr p"
      "new_control_token (dr_control dr) [token, p] st = Inr c"
      "token_validate env (fresh_record default_settings token p c a (iso_utc now) e ''.'') = Inr r"
      "save_tokens works (put_record r st) = Inr st'"
      by (simp only: bootstrap_store_def if_False andThen_eq_Inr) (elim exE conjE, rule that)
    have "tokens_ok (put_record r st)"
      using validated [OF r(3)] drawn(1) [OF r(1)] drawn(2) [OF r(2)] free
      by (intro insert_ok [OF ok]) (simp_all add: fresh_record_def)
    then show ?thesis by (rule save_ok [OF _ r(4)])
  qed
qed

lemma open_tokens_ok: "open_tokens env dr has_file items bootstrap works now = Inr st \<Longrightarrow> tokens_ok st"
  by (auto simp: open_tokens_def intro: bootstrap_ok load_store_ok new_store_ok split: option.splits if_splits)

lemma restart_ok: "restart_tokens env dr bootstrap works now st = Inr st' \<Longrightarrow> tokens_ok st'"
  unfolding restart_tokens_def by (rule open_tokens_ok)

text \<open>A credential belongs to one record only.\<close>

lemma credential_owner:
  assumes "tokens_ok st" "q \<in> snd ` set (ts_records st)"
  shows "recs st (tk_token q) = Some q \<and> prevs st (tk_preview q) = Some q \<and> ctrls st (tk_control q) = Some q"
proof -
  from assms(2) obtain t where "(t, q) \<in> set (ts_records st)" by auto
  then have "recs st t = Some q" using assms(1) by (auto simp: tokens_ok_def tables_keyed_def intro: map_of_is_SomeI)
  with recs_own [OF assms(1) this] show ?thesis by auto
qed

lemma nonce_ok: "tokens_ok st \<Longrightarrow> tokens_ok (snd (consume_signed_nonce i n now ttl st))"
  by (simp add: consume_signed_nonce_def tokens_ok_def tables_keyed_def)

section \<open>Authentication\<close>

lemma ascii_credentials:
  "scan_digest supplied rs found = Inr v \<Longrightarrow> distinct (map fst rs) \<Longrightarrow>
     v = (case map_of rs supplied of None \<Rightarrow> found | Some r \<Rightarrow> Some r)"
proof (induction rs arbitrary: found)
  case (Cons a rs)
  obtain k r where a: "a = (k, r)" by (cases a)
  from Cons.prems(1) obtain same where c: "compare_digest supplied k = Inr same"
      "scan_digest supplied rs (if same then Some r else found) = Inr v" unfolding a by auto
  from c(1) have same: "same \<longleftrightarrow> supplied = k" by (simp add: compare_digest_def split: if_splits)
  have d: "distinct (map fst rs)" "k \<notin> fst ` set rs" using Cons.prems(2) by (simp_all add: a)
  note v = Cons.IH [OF c(2) d(1)]
  show ?case
  proof (cases "supplied = k")
    case True
    with d(2) have "map_of rs supplied = None" by (simp add: map_of_eq_None_iff)
    with v same True show ?thesis by (simp add: a)
  next
    case False
    with v same show ?thesis by (simp add: a)
  qed
qed simp

lemma scan_valid:
  assumes "distinct (map fst rs)" "andThen (scan_digest x rs None) (\<lambda>v. Inr (if_credentials_valid now v)) = Inr (Some r)"
  shows "map_of rs x = Some r" "credentials_valid now r"
proof -
  from assms(2) obtain v where v: "scan_digest x rs None = Inr v" "if_credentials_valid now v = Some r" by auto
  from v(2) have "v = Some r" "credentials_valid now r"
    by (auto simp: if_credentials_valid_def split: option.splits if_splits)
  with ascii_credentials [OF v(1) assms(1)] show "map_of rs x = Some r" "credentials_valid now r"
    by (auto split: option.splits)
qed

lemma authenticate_Some:
  "tokens_ok st \<Longrightarrow> authenticate now x st = Inr (Some r) \<Longrightarrow> recs st x = Some r \<and> credentials_valid now r"
  unfolding authenticate_def tokens_ok_def tables_keyed_def using scan_valid by blast

lemma authenticate_control_Some:
  assumes "tokens_ok st" "authenticate_control now x st = Inr (Some r)"
  shows "ctrls st x = Some r \<and> tk_control r = x \<and> recs st (tk_token r) = Some r \<and> credentials_valid now r"
proof -
  have "ctrls st x = Some r" "credentials_valid now r"
    using assms scan_valid [of "ts_controls st" x now r] by (simp_all add: authenticate_control_def tokens_ok_def tables_keyed_def)
  then show ?thesis using assms(1) by (simp add: tokens_ok_def maps_ok_def)
qed

lemma authenticate_preview_Some:
  "tokens_ok st \<Longrightarrow> authenticate_preview now x st = Some r \<Longrightarrow>
   prevs st x = Some r \<and> tk_preview r = x \<and> recs st (tk_token r) = Some r \<and> token_valid now r"
  by (auto simp: authenticate_preview_def tokens_ok_def maps_ok_def split: option.splits if_splits)

lemma scan_pasted_Some:
  "scan_pasted s rs found = Some r \<Longrightarrow> found = Some r \<or> (\<exists>k. (k, r) \<in> set rs \<and> contains s k)"
  by (induction s rs found rule: scan_pasted.induct) (auto split: if_splits option.splits)

lemma control_authorization_Some:
  "tokens_ok st \<Longrightarrow> control_authorization now s st = Some r \<Longrightarrow>
   contains s (tk_control r) \<and> recs st (tk_token r) = Some r \<and> credentials_valid now r"
proof -
  assume ok: "tokens_ok st" and c: "control_authorization now s st = Some r"
  then have "scan_pasted s (ts_controls st) None = Some r" "credentials_valid now r"
    by (auto simp: control_authorization_def if_credentials_valid_def split: option.splits if_splits)
  moreover from this(1) obtain k where k: "(k, r) \<in> set (ts_controls st)" "contains s k"
    by (auto dest: scan_pasted_Some)
  then have "ctrls st k = Some r" using ok by (auto simp: tokens_ok_def tables_keyed_def intro: map_of_is_SomeI)
  ultimately show ?thesis using ok k(2) by (auto simp: tokens_ok_def maps_ok_def)
qed

end
