(* ===== verification/Static_Mcp.thy ===== *)
theory Static_Mcp
  imports OAuth_Store
begin

text \<open>
  The connections for MCP clients with a fixed secret: \<open>StaticMcpStore\<close> of \<open>openkapsel/auth/static_mcp.py\<close>.
  It inherits \<open>get\<close>, \<open>delete\<close> and \<open>touch\<close> from the OAuth store but has one table only.  A number of days is
  what \<open>int\<close> made of the text of a form, nothing where it raised.
\<close>

record mcp_connection =
  sm_id :: string
  sm_app :: string
  sm_workspace :: string
  sm_comment :: string
  sm_created :: timestamp
  sm_used :: "timestamp option"
  sm_secret :: string
  sm_expires :: timestamp

type_synonym static_store = "mcp_connection list"

definition EXPIRY_DAYS :: "int list" where
  "EXPIRY_DAYS = [30, 91, 182, 365, 730]"

definition STATIC_MCP_SECRET_PREFIX :: string where
  "STATIC_MCP_SECRET_PREFIX = ''ksm-''"

definition static_connection :: "string \<Rightarrow> static_store \<Rightarrow> mcp_connection result" where
  "static_connection cid st =
     (case select sm_id cid st of None \<Rightarrow> Inl (OAuthError ''invalid_request'' 404) | Some c \<Rightarrow> Inr c)"

definition static_list :: "(static_store, mcp_connection list) op" where
  "static_list st = (Inr (sort_key (\<lambda>c. - sm_created c) st), st)"

definition static_expiry :: "int option \<Rightarrow> timestamp \<Rightarrow> timestamp result" where
  "static_expiry days now =
     (case days of
        None \<Rightarrow> Inl (OAuthError ''invalid_request'' 400)
      | Some d \<Rightarrow> if d \<notin> set EXPIRY_DAYS then Inl (OAuthError ''invalid_request'' 400) else Inr (now + of_int d * 86400))"

definition static_create ::
  "string \<Rightarrow> string \<Rightarrow> string \<Rightarrow> int option \<Rightarrow> string \<Rightarrow> string \<Rightarrow> timestamp \<Rightarrow> timestamp \<Rightarrow> (static_store, mcp_connection) op" where
  "static_create app workspace comment days cid random t0 now =
     attempt (static_expiry days t0) (\<lambda>expiry.
     attempt (valid_comment comment) (\<lambda>c st.
       if cid \<in> sm_id ` set st then (Inl IntegrityError, st)
       else let row = \<lparr>sm_id = cid, sm_app = app, sm_workspace = workspace, sm_comment = c, sm_created = now, sm_used = None,
                       sm_secret = STATIC_MCP_SECRET_PREFIX @ random, sm_expires = expiry\<rparr>
            in (Inr row, st @ [row])))"

definition static_get :: "string \<Rightarrow> (static_store, mcp_connection) op" where
  "static_get cid st = (static_connection cid st, st)"

definition sql_coalesce :: "'a option \<Rightarrow> 'a \<Rightarrow> 'a" where
  "sql_coalesce v d = (case v of None \<Rightarrow> d | Some x \<Rightarrow> x)"

definition static_update ::
  "string \<Rightarrow> string \<Rightarrow> int option option \<Rightarrow> string option \<Rightarrow> string option \<Rightarrow> timestamp \<Rightarrow> (static_store, unit) op" where
  "static_update cid comment days app workspace now =
     attempt (case days of None \<Rightarrow> Inr None | Some d \<Rightarrow> andThen (static_expiry d now) (\<lambda>e. Inr (Some e))) (\<lambda>expiry.
     attempt (valid_comment comment) (\<lambda>c st.
     attempt (static_connection cid st) (\<lambda>_ st.
       (Inr (), update_where (\<lambda>x. sm_id x = cid)
          (\<lambda>x. x\<lparr>sm_comment := c, sm_expires := sql_coalesce expiry (sm_expires x), sm_app := sql_coalesce app (sm_app x),
                 sm_workspace := sql_coalesce workspace (sm_workspace x)\<rparr>) st)) st))"

definition static_delete :: "string \<Rightarrow> (static_store, unit) op" where
  "static_delete cid st =
     attempt (static_connection cid st) (\<lambda>_ st. (Inr (), delete_where (\<lambda>x. sm_id x = cid) st)) st"

definition static_authenticate :: "oauth_env \<Rightarrow> string \<Rightarrow> string \<Rightarrow> timestamp \<Rightarrow> static_store \<Rightarrow> mcp_connection result" where
  "static_authenticate env cid secret now st =
     andThen (static_connection cid st) (\<lambda>c.
       if sm_expires c \<le> now \<or> digest env secret \<noteq> digest env (sm_secret c)
       then Inl (OAuthError ''invalid_token'' 401) else Inr c)"

definition static_touch :: "string \<Rightarrow> timestamp \<Rightarrow> timestamp \<Rightarrow> (static_store, unit) op" where
  "static_touch cid t1 t2 st =
     (Inr (), update_where (\<lambda>c. sm_id c = cid \<and> (case sm_used c of None \<Rightarrow> True | Some u \<Rightarrow> u < t2 - 60))
        (\<lambda>c. c\<lparr>sm_used := Some t1\<rparr>) st)"

end
