(* ===== verification/Request_Auth.thy ===== *)
theory Request_Auth
  imports Token_Safety Static_Mcp
begin

text \<open>
  The authentication layer of the server: \<open>_authenticate_request\<close> of
  \<open>openkapsel/server_runtime/dispatch.py\<close> with the four entrances it knows: the dedicated preview host,
  the OAuth connections (\<open>_oauth_authenticated_route\<close> of \<open>openkapsel/auth/oauth_handlers.py\<close>), the static MCP
  connections (\<open>_static_mcp_authenticated_route\<close> of \<open>openkapsel/auth/static_mcp.py\<close>) and the workspace URLs
  below \<open>/w/\<close>, where the token in the URL gives read access and control authority takes the control
  token, as a Bearer credential or as the key of a signed query.

  Percent-decoding, the host of a \<open>Host\<close> header, HMAC-SHA256 (with its base 64 text) and SHA-256 are
  parameters.  The readings of the clock are arguments: the time that expiry dates are compared with,
  the same in whole Unix seconds, and the readings of the connection stores.  An error of the OAuth store
  has no message in the model, so neither has the answer made of it.
\<close>

record http_request =
  rq_method :: string
  rq_path :: string
  rq_query :: string
  rq_host :: "string list"
  rq_authorization :: "string list"
  rq_transfer :: "string list"
  rq_lengths :: "string list"
  rq_body :: string

text \<open>
  The configuration: the host name of \<open>preview_base_url\<close>, and scheme and host name of \<open>public_base_url\<close>, where
  they are configured.  \<open>ac_host\<close> is the host name in a \<open>Host\<close> header; the outer option is \<open>None\<close> where \<open>urlsplit\<close> raises.
\<close>

record auth_config =
  ac_preview :: "string option option"
  ac_public :: "(string \<times> string option) option"
  ac_host :: "string \<Rightarrow> string option option"
  ac_oauth :: oauth_env
  ac_max_body :: nat
  ac_unquote :: "string \<Rightarrow> string"
  ac_strict :: "string \<Rightarrow> string option"
  ac_lenient :: "string \<Rightarrow> string"
  ac_hmac :: "string \<Rightarrow> string \<Rightarrow> string"
  ac_sha256 :: "string \<Rightarrow> string"

type_synonym query = "(string \<times> string) list"

definition NOT_FOUND :: pyerr where
  "NOT_FOUND = ApiError 404 ''not_found'' ''endpoint does not exist''"

definition SIGNED_GET_WINDOW_SECONDS :: int where
  "SIGNED_GET_WINDOW_SECONDS = 300"

definition SIGNED_GET_METHODS :: "string list" where
  "SIGNED_GET_METHODS = [''GET'', ''HEAD'', ''POST'', ''PUT'', ''PATCH'', ''DELETE'']"

definition SIGNED_GET_RESERVED_QUERY :: "string list" where
  "SIGNED_GET_RESERVED_QUERY = [''req'', ''timestamp'', ''nonce'', ''body'', ''http_method'', ''signature'']"

text \<open>UTF-8 below code point 256.\<close>

definition utf8 :: "string \<Rightarrow> string" where
  "utf8 s = concat (map (\<lambda>c. let n = (of_char c :: nat) in if n < 128 then [c] else [char_of (192 + n div 64), char_of (128 + n mod 64)]) s)"

section \<open>Query strings\<close>

text \<open>\<open>parse_qsl(..., strict_parsing=True, max_num_fields=256)\<close>: every field has an equals sign and decodes.\<close>

definition decode_field :: "auth_config \<Rightarrow> string \<Rightarrow> (string \<times> string) option" where
  "decode_field cfg f =
     (case partition_on (CHR ''='') f of (k, sep, v) \<Rightarrow>
        if \<not> sep then None
        else case (ac_strict cfg k, ac_strict cfg v) of (Some k', Some v') \<Rightarrow> Some (k', v') | _ \<Rightarrow> None)"

fun decode_fields :: "auth_config \<Rightarrow> string list \<Rightarrow> query option" where
  "decode_fields cfg [] = Some []"
| "decode_fields cfg (f # fs) =
     (case decode_field cfg f of None \<Rightarrow> None | Some kv \<Rightarrow> map_option (\<lambda>rest. kv # rest) (decode_fields cfg fs))"

definition parse_qsl_strict :: "auth_config \<Rightarrow> string \<Rightarrow> query option" where
  "parse_qsl_strict cfg raw =
     (let fs = split_on (CHR ''&'') raw in if length fs > 256 then None else decode_fields cfg fs)"

text \<open>\<open>parse_qs(..., keep_blank_values=True)\<close>: fields without an equals sign have an empty value, empty fields are skipped.\<close>

definition parse_qs :: "auth_config \<Rightarrow> string \<Rightarrow> query" where
  "parse_qs cfg raw =
     map (\<lambda>f. case partition_on (CHR ''='') f of (k, _, v) \<Rightarrow> (ac_lenient cfg k, ac_lenient cfg v))
       (filter (\<lambda>f. f \<noteq> []) (split_on (CHR ''&'') raw))"

definition query_values :: "string \<Rightarrow> query \<Rightarrow> string list" where
  "query_values k q = map snd (filter (\<lambda>(k', _). k' = k) q)"

definition without :: "string list \<Rightarrow> query \<Rightarrow> query" where
  "without ks q = filter (\<lambda>(k, _). k \<notin> set ks) q"

definition query_ends_with_signature :: "string \<Rightarrow> bool" where
  "query_ends_with_signature raw \<longleftrightarrow>
     raw \<noteq> [] \<and> (case partition_on (CHR ''='') (last (split_on (CHR ''&'') raw)) of (k, sep, _) \<Rightarrow> sep \<and> k = ''signature'')"

definition route_from_req :: "string \<Rightarrow> string result" where
  "route_from_req v =
     (if v = [] \<or> length v > 512 \<or> startswith v ''/'' \<or> v \<noteq> strip v \<or>
         CHR 0x00 \<in> set v \<or> CHR ''?'' \<in> set v \<or> CHR ''#'' \<in> set v \<or> CHR 0x5C \<in> set v
      then Inl (ApiError 400 ''invalid_req_route'' ''req must be a non-empty relative route without a leading slash'')
      else Inr (''/'' @ v))"

definition decode_query_route :: "query \<Rightarrow> (string \<times> query) result" where
  "decode_query_route q =
     (case query_values ''req'' q of
        [v] \<Rightarrow>
          if list_ex (\<lambda>(k, _). k \<in> set SIGNED_GET_RESERVED_QUERY \<and> k \<noteq> ''req'') q
          then Inl (ApiError 400 ''signed_envelope_required'' ''signed-envelope parameters require a final signature parameter'')
          else andThen (route_from_req v) (\<lambda>route. Inr (route, without [''req''] q))
      | _ \<Rightarrow> Inl (ApiError 400 ''invalid_req_route'' ''req must appear exactly once''))"

section \<open>Request bodies\<close>

definition request_content_length :: "http_request \<Rightarrow> nat result" where
  "request_content_length q =
     (if rq_transfer q \<noteq> [] then Inl (ApiError 501 ''unsupported_transfer_encoding'' ''send Content-Length'')
      else case map strip (concat (map (split_on (CHR '','')) (rq_lengths q))) of
             [] \<Rightarrow> Inr 0
           | [v] \<Rightarrow> if isdigit v then py_int v
                  else Inl (ApiError 400 ''invalid_length'' ''Content-Length must be one non-negative decimal integer'')
           | _ \<Rightarrow> Inl (ApiError 400 ''invalid_length'' ''Content-Length must be one non-negative decimal integer''))"

definition read_signed_body :: "auth_config \<Rightarrow> http_request \<Rightarrow> string result" where
  "read_signed_body cfg q =
     andThen (request_content_length q) (\<lambda>n.
       if n > ac_max_body cfg then Inl (ApiError 413 ''body_too_large'' ''request body is too large'')
       else if length (take n (rq_body q)) \<noteq> n then Inl (ApiError 400 ''invalid_length'' ''request body is incomplete'')
       else Inr (take n (rq_body q)))"

section \<open>Signed queries\<close>

definition bad_envelope :: "string \<Rightarrow> 'a result" where
  "bad_envelope m = Inl (ApiError 400 ''invalid_signed_envelope'' m)"

definition require :: "bool \<Rightarrow> pyerr \<Rightarrow> unit result" where
  "require b e = (if b then Inr () else Inl e)"

definition ascii_alnum :: "char \<Rightarrow> bool" where
  "ascii_alnum c \<longleftrightarrow> url_char c \<and> c \<noteq> CHR ''_'' \<and> c \<noteq> CHR ''-''"

text \<open>The shape of the raw query and its fields: a GET envelope names its method, a native request does not.\<close>

definition field_key :: "string \<Rightarrow> bool \<times> string" where
  "field_key f = (case partition_on (CHR ''='') f of (k, sep, _) \<Rightarrow> (sep, k))"

definition envelope_shape :: "auth_config \<Rightarrow> http_request \<Rightarrow> query result" where
  "envelope_shape cfg q =
     (let fields = split_on (CHR ''&'') (rq_query q); native = (rq_method q \<noteq> ''GET'') in
      andThen (require (is_ascii (rq_query q)) (ApiError 400 ''invalid_signed_envelope'' ''parameters must use ASCII URL encoding'')) (\<lambda>_.
      andThen (require (rq_method q \<in> set SIGNED_GET_METHODS) (ApiError 400 ''invalid_signed_method'' ''unsupported HTTP method'')) (\<lambda>_.
      andThen (if native then Inr 0 else request_content_length q) (\<lambda>n.
      andThen (require (n = 0) (ApiError 400 ''signed_envelope_transport_body'' ''signed GET envelopes carry JSON through body'')) (\<lambda>_.
      andThen (require (length fields \<ge> 2 \<and> field_key (last fields) = (True, ''signature''))
        (ApiError 400 ''invalid_signed_envelope'' ''signature must be final'')) (\<lambda>_.
      andThen (require (native \<or> field_key (fields ! (length fields - 2)) = (True, ''http_method''))
        (ApiError 400 ''invalid_signed_envelope'' ''http_method must be penultimate and signature must be final'')) (\<lambda>_.
      case parse_qsl_strict cfg (rq_query q) of
        None \<Rightarrow> bad_envelope ''signed envelope query parameters are malformed''
      | Some pairs \<Rightarrow> Inr pairs)))))))"

definition envelope_fields :: "http_request \<Rightarrow> query \<Rightarrow> string result" where
  "envelope_fields q pairs =
     (let native = (rq_method q \<noteq> ''GET'');
          needed = (if native then [''req'', ''timestamp'', ''nonce'', ''signature'']
                    else [''req'', ''timestamp'', ''nonce'', ''http_method'', ''signature'']) in
      andThen (require (list_all (\<lambda>k. length (query_values k pairs) = 1) needed)
        (ApiError 400 ''invalid_signed_envelope'' ''a field must appear exactly once'')) (\<lambda>_.
      andThen (require (length (query_values ''body'' pairs) \<le> 1)
        (ApiError 400 ''invalid_signed_envelope'' ''body must appear at most once'')) (\<lambda>_.
      if native then
        andThen (require (query_values ''http_method'' pairs = [])
          (ApiError 400 ''signed_envelope_get_required'' ''http_method is only valid with a signed GET envelope'')) (\<lambda>_.
        andThen (require (query_values ''body'' pairs = [])
          (ApiError 400 ''signed_envelope_transport_body'' ''native signed requests must send the body as HTTP request bytes'')) (\<lambda>_.
        Inr (rq_method q)))
      else
        andThen (require (fst (last pairs) = ''signature'' \<and> fst (pairs ! (length pairs - 2)) = ''http_method'')
          (ApiError 400 ''invalid_signed_envelope'' ''http_method must be penultimate and signature must be final'')) (\<lambda>_.
        andThen (require (hd (query_values ''http_method'' pairs) \<in> set SIGNED_GET_METHODS)
          (ApiError 400 ''invalid_signed_method'' ''http_method is not supported'')) (\<lambda>_.
        Inr (hd (query_values ''http_method'' pairs)))))))"

definition envelope_time :: "int \<Rightarrow> query \<Rightarrow> (int \<times> string) result" where
  "envelope_time clock pairs =
     (let text = hd (query_values ''timestamp'' pairs); nonce = hd (query_values ''nonce'' pairs) in
      andThen (require (text \<noteq> [] \<and> length text \<le> 12 \<and> list_all ascii_digit text)
        (ApiError 400 ''invalid_signed_timestamp'' ''timestamp must be Unix time in whole seconds'')) (\<lambda>_.
      let timestamp = int (digits_value text) in
      andThen (require (\<bar>clock - timestamp\<bar> \<le> SIGNED_GET_WINDOW_SECONDS)
        (ApiError 401 ''signed_envelope_expired'' ''timestamp is outside the acceptance window'')) (\<lambda>_.
      andThen (require (length nonce = 8 \<and> list_all ascii_alnum nonce)
        (ApiError 400 ''invalid_signed_nonce'' ''nonce must be exactly 8 ASCII letters or digits'')) (\<lambda>_.
      Inr (timestamp, nonce)))))"

definition INVALID_SIGNATURE :: pyerr where
  "INVALID_SIGNATURE = ApiError 401 ''invalid_signed_signature'' ''signature is invalid''"

definition signed_part :: "http_request \<Rightarrow> string" where
  "signed_part q = join ''&'' (butlast (split_on (CHR ''&'') (rq_query q)))"

text \<open>The body that was read to check a signature in the legacy form, if it was.\<close>

definition check_signature :: "auth_config \<Rightarrow> http_request \<Rightarrow> token_rec \<Rightarrow> query \<Rightarrow> string option result" where
  "check_signature cfg q r pairs =
     (let supplied = hd (query_values ''signature'' pairs); key = utf8 (tk_control r);
          native = (rq_method q \<noteq> ''GET'');
          signed = (if native then rq_method q @ ''/'' @ signed_part q else signed_part q) in
      andThen (require (length supplied = 43 \<and> list_all url_char supplied) INVALID_SIGNATURE) (\<lambda>_.
      if supplied = ac_hmac cfg key signed then Inr None
      else if \<not> native then Inl INVALID_SIGNATURE
      else andThen (read_signed_body cfg q) (\<lambda>body.
           if supplied = ac_hmac cfg key (signed @ [CHR 0x0A] @ ac_sha256 cfg body) then Inr (Some body)
           else Inl INVALID_SIGNATURE)))"

record envelope =
  en_method :: string
  en_route :: string
  en_query :: query
  en_body :: "string option"

definition envelope_result :: "auth_config \<Rightarrow> string \<Rightarrow> query \<Rightarrow> string option \<Rightarrow> envelope result" where
  "envelope_result cfg meth pairs read =
     andThen (route_from_req (hd (query_values ''req'' pairs))) (\<lambda>route.
     andThen (case query_values ''body'' pairs of
                [] \<Rightarrow> Inr read
              | b # _ \<Rightarrow> if length (utf8 b) > ac_max_body cfg
                        then Inl (ApiError 413 ''body_too_large'' ''signed-envelope body is too large'') else Inr (Some (utf8 b))) (\<lambda>body.
     Inr \<lparr>en_method = meth, en_route = route, en_query = without SIGNED_GET_RESERVED_QUERY pairs, en_body = body\<rparr>))"

definition checked_envelope :: "auth_config \<Rightarrow> http_request \<Rightarrow> token_rec \<Rightarrow> int \<Rightarrow> (query \<times> string \<times> int \<times> string \<times> string option) result" where
  "checked_envelope cfg q r clock =
     andThen (envelope_shape cfg q) (\<lambda>pairs.
     andThen (envelope_fields q pairs) (\<lambda>meth.
     andThen (envelope_time clock pairs) (\<lambda>(timestamp, nonce).
     andThen (check_signature cfg q r pairs) (\<lambda>body. Inr (pairs, meth, timestamp, nonce, body)))))"

definition identity_of :: "token_rec \<Rightarrow> string" where
  "identity_of r = (if tk_app r = [] then tk_token r else tk_app r)"

definition decode_signed_envelope ::
  "auth_config \<Rightarrow> http_request \<Rightarrow> token_rec \<Rightarrow> int \<Rightarrow> (token_store, envelope) op" where
  "decode_signed_envelope cfg q r clock st =
     (case checked_envelope cfg q r clock of
        Inl e \<Rightarrow> (Inl e, st)
      | Inr (pairs, meth, timestamp, nonce, body) \<Rightarrow>
          (case consume_signed_nonce (identity_of r) nonce clock (max 1 (timestamp + SIGNED_GET_WINDOW_SECONDS - clock)) st of
             (fresh, st1) \<Rightarrow>
               if \<not> fresh then (Inl (ApiError 409 ''signed_envelope_replay'' ''nonce has already been used within the acceptance window''), st1)
               else (envelope_result cfg meth pairs body, st1)))"

section \<open>The workspace entrance\<close>

text \<open>The record that the token of a URL names, the route below it, and whether it is a preview token.\<close>

definition named_record :: "auth_config \<Rightarrow> string \<Rightarrow> string \<Rightarrow> instant \<Rightarrow> token_store \<Rightarrow> (token_rec option \<times> string \<times> bool) result" where
  "named_record cfg supplied route now st =
     (case if ac_preview cfg \<noteq> None then None else authenticate_preview now supplied st of
        Some r \<Rightarrow> Inr (Some r, ''/web'' @ route, True)
      | None \<Rightarrow> andThen (authenticate now supplied st) (\<lambda>v.
          Inr (if route = ''/web'' \<or> startswith route ''/web/'' then None else v, route, False)))"

definition scope_or_not_found :: "path result \<Rightarrow> path result" where
  "scope_or_not_found v = (case v of Inl (ValueError _) \<Rightarrow> Inl NOT_FOUND | _ \<Rightarrow> v)"

definition identify_workspace_token ::
  "auth_config \<Rightarrow> token_env \<Rightarrow> string \<Rightarrow> instant \<Rightarrow> token_store \<Rightarrow> (token_rec \<times> path \<times> string \<times> bool) result" where
  "identify_workspace_token cfg env p now st =
     (let parts = split_on (CHR ''/'') p in
        if length parts < 3 \<or> parts ! 1 \<noteq> ''w'' then Inl NOT_FOUND
        else
          andThen (named_record cfg (ac_unquote cfg (parts ! 2))
              (if length parts > 3 then ''/'' @ join ''/'' (drop 3 parts) else []) now st) (\<lambda>(v, route, preview).
            case v of
              None \<Rightarrow> Inl NOT_FOUND
            | Some r \<Rightarrow> andThen (scope_or_not_found (token_scope_root env r)) (\<lambda>scoped. Inr (r, scoped, route, preview))))"

definition INVALID_CONTROL :: pyerr where
  "INVALID_CONTROL = ApiError 401 ''invalid_control_token'' ''the Bearer control token is invalid or expired''"

text \<open>A Bearer credential has to be the control token of the record that the URL names.\<close>

definition bound_control :: "string \<Rightarrow> token_rec \<Rightarrow> instant \<Rightarrow> token_store \<Rightarrow> bool result" where
  "bound_control credential r now st =
     andThen (authenticate_control now credential st) (\<lambda>found.
       case found of
         None \<Rightarrow> Inl INVALID_CONTROL
       | Some c \<Rightarrow> andThen (compare_digest (tk_token c) (tk_token r)) (\<lambda>same.
           if same then Inr True
           else Inl (ApiError 403 ''token_binding_mismatch'' ''the Bearer token does not belong to this workspace URL'')))"

definition verify_bearer_control :: "http_request \<Rightarrow> token_rec \<Rightarrow> instant \<Rightarrow> token_store \<Rightarrow> bool result" where
  "verify_bearer_control q r now st =
     (case rq_authorization q of
        [] \<Rightarrow> Inr False
      | [v] \<Rightarrow>
          (case partition_on (CHR '' '') v of (scheme, sep, credential) \<Rightarrow>
             if \<not> sep \<or> str_lower scheme \<noteq> ''bearer'' \<or> credential = [] \<or> credential \<noteq> strip credential \<or> list_ex is_space credential
             then Inl INVALID_CONTROL
             else bound_control credential r now st)
      | _ \<Rightarrow> Inl INVALID_CONTROL)"

record principal =
  pr_record :: token_rec
  pr_scope :: path
  pr_control :: bool
  pr_method :: string
  pr_connection :: "string option"

record authenticated =
  au_principal :: principal
  au_entry :: string
  au_route :: string
  au_method :: string
  au_query :: query
  au_routed :: bool

definition workspace_entrance ::
  "auth_config \<Rightarrow> token_env \<Rightarrow> http_request \<Rightarrow> instant \<Rightarrow> int \<Rightarrow> (token_store, authenticated) op" where
  "workspace_entrance cfg env q now clock st =
     attempt (identify_workspace_token cfg env (rq_path q) now st) (\<lambda>(r, scoped, entry, preview).
     attempt (verify_bearer_control q r now st) (\<lambda>control.
     attempt (require (rstrip_slash entry \<noteq> ''/mcp'') (ApiError 404 ''not_found'' ''Create an MCP connection in administration'')) (\<lambda>_ st.
       let pr = \<lparr>pr_record = r, pr_scope = scoped, pr_control = control,
                 pr_method = (if control then ''bearer_control'' else if preview then ''preview'' else ''url_token''), pr_connection = None\<rparr>;
           plain = \<lparr>au_principal = pr, au_entry = entry, au_route = entry, au_method = rq_method q,
                    au_query = parse_qs cfg (rq_query q), au_routed = False\<rparr> in
       if entry \<noteq> [] \<and> entry \<noteq> ''/'' then (Inr plain, st)
       else if query_ends_with_signature (rq_query q) then
         (case decode_signed_envelope cfg q r clock st of
            (Inl e, st1) \<Rightarrow> (Inl e, st1)
          | (Inr en, st1) \<Rightarrow>
              (Inr (plain\<lparr>au_principal := pr\<lparr>pr_control := True, pr_method := (if rq_method q = ''GET'' then ''signed_get'' else ''signed_native'')\<rparr>,
                          au_route := en_route en, au_method := en_method en, au_query := en_query en, au_routed := True\<rparr>), st1))
       else if query_values ''req'' (parse_qs cfg (rq_query q)) \<noteq> [] then
         attempt (decode_query_route (parse_qs cfg (rq_query q))) (\<lambda>(route, rest) st.
           (Inr (plain\<lparr>au_route := route, au_query := rest, au_routed := True\<rparr>), st)) st
       else (Inr plain, st)))) st"

section \<open>The preview host\<close>

definition is_dedicated_preview_request :: "auth_config \<Rightarrow> http_request \<Rightarrow> bool result" where
  "is_dedicated_preview_request cfg q =
     (case ac_preview cfg of
        None \<Rightarrow> Inr False
      | Some expected \<Rightarrow>
          (case (ac_host cfg (case rq_host q of [] \<Rightarrow> [] | h # _ \<Rightarrow> h), expected) of
             (Some (Some h), Some e) \<Rightarrow> if h = [] \<or> e = [] then Inr False else compare_digest (str_lower h) (str_lower e)
           | _ \<Rightarrow> Inr False))"

text \<open>What an entrance other than a workspace URL answers: the route is the one it names, the query is the query string.\<close>

definition entered :: "auth_config \<Rightarrow> http_request \<Rightarrow> principal \<Rightarrow> string \<Rightarrow> authenticated" where
  "entered cfg q pr route =
     \<lparr>au_principal = pr, au_entry = route, au_route = route, au_method = rq_method q, au_query = parse_qs cfg (rq_query q),
      au_routed = False\<rparr>"

definition preview_entrance :: "auth_config \<Rightarrow> token_env \<Rightarrow> http_request \<Rightarrow> instant \<Rightarrow> token_store \<Rightarrow> authenticated result" where
  "preview_entrance cfg env q now st =
     (let parts = split_on (CHR ''/'') (rq_path q) in
        if length parts < 2 \<or> parts ! 0 \<noteq> [] \<or> parts ! 1 = [] then Inl NOT_FOUND
        else case authenticate_preview now (ac_unquote cfg (parts ! 1)) st of
               None \<Rightarrow> Inl NOT_FOUND
             | Some r \<Rightarrow> andThen (scope_or_not_found (token_scope_root env r)) (\<lambda>scoped.
                 Inr (entered cfg q
                   \<lparr>pr_record = r, pr_scope = scoped, pr_control = False, pr_method = ''preview'', pr_connection = None\<rparr>
                   (''/web'' @ (if length parts > 2 then ''/'' @ join ''/'' (drop 2 parts) else [])))))"

section \<open>The connections\<close>

text \<open>\<open>CONNECTION_ROUTE_PATTERN\<close>: the routes that a connection may name, and the route inside the server.\<close>

definition connection_route :: "string list \<Rightarrow> string option" where
  "connection_route parts =
     (if parts = [''mcp''] then Some ''/mcp''
      else if parts = [''transfer'', ''fs'', ''content''] then Some ''/fs/content''
      else if length parts = 4 \<and> take 2 parts = [''transfer'', ''upload''] \<and>
              parts ! 2 \<in> set [''status'', ''chunk'', ''commit'', ''cancel''] \<and> parts ! 3 \<noteq> []
      then Some (''/'' @ join ''/'' (drop 1 parts)) else None)"

definition connection_path :: "string \<Rightarrow> string \<Rightarrow> (string \<times> string) result" where
  "connection_path entrance p =
     (let parts = split_on (CHR ''/'') p in
        if length parts < 4 \<or> parts ! 0 \<noteq> [] \<or> parts ! 1 \<noteq> entrance \<or> length (parts ! 2) \<noteq> 32 \<or> \<not> list_all word_char (parts ! 2)
        then Inl NOT_FOUND
        else case connection_route (drop 3 parts) of None \<Rightarrow> Inl NOT_FOUND | Some route \<Rightarrow> Inr (parts ! 2, route))"

definition connection_bearer :: "http_request \<Rightarrow> string result" where
  "connection_bearer q =
     (case rq_authorization q of
        [v] \<Rightarrow> (case partition_on (CHR '' '') v of (scheme, _, credential) \<Rightarrow>
                 if str_lower scheme \<noteq> ''bearer'' \<or> length credential \<noteq> 43 \<or> \<not> list_all word_char credential
                 then Inl (OAuthError ''invalid_token'' 401) else Inr credential)
      | _ \<Rightarrow> Inl (OAuthError ''invalid_token'' 401))"

definition linked_record :: "string \<Rightarrow> string \<Rightarrow> instant \<Rightarrow> token_store \<Rightarrow> token_rec result" where
  "linked_record app workspace now st =
     (case get_by_app_id app st of
        None \<Rightarrow> Inl (OAuthError ''access_denied'' 403)
      | Some r \<Rightarrow> if \<not> token_valid now r \<or> tk_prefix r \<noteq> workspace then Inl (OAuthError ''access_denied'' 403) else Inr r)"

definition oauth_base :: "auth_config \<Rightarrow> unit result" where
  "oauth_base cfg =
     (case ac_public cfg of
        None \<Rightarrow> Inl (OAuthError ''temporarily_unavailable'' 503)
      | Some (scheme, host) \<Rightarrow>
          if scheme \<noteq> ''https'' \<and> \<not> (scheme = ''http'' \<and> host \<in> set (map Some [''127.0.0.1'', ''::1'', ''localhost'']))
          then Inl (OAuthError ''temporarily_unavailable'' 503) else Inr ())"

definition as_api_error :: "pyerr \<Rightarrow> pyerr" where
  "as_api_error e =
     (case e of
        OAuthError code status \<Rightarrow> ApiError status code []
      | ValueError _ \<Rightarrow> ApiError 403 ''access_denied'' ''Workspace directory is unavailable''
      | _ \<Rightarrow> e)"

definition answered :: "'a result \<Rightarrow> 'a result" where
  "answered v = (case v of Inl e \<Rightarrow> Inl (as_api_error e) | Inr x \<Rightarrow> Inr x)"

definition connected :: "token_rec \<Rightarrow> path \<Rightarrow> string \<Rightarrow> string \<Rightarrow> principal" where
  "connected r scoped meth cid =
     \<lparr>pr_record = r, pr_scope = scoped, pr_control = True, pr_method = meth, pr_connection = Some cid\<rparr>"

record clock_reads =
  ck_now :: instant
  ck_unix :: int
  ck_first :: timestamp
  ck_second :: timestamp
  ck_third :: timestamp
  ck_fourth :: timestamp

record gateway =
  gw_tokens :: token_store
  gw_oauth :: oauth_store
  gw_static :: static_store

definition oauth_principal ::
  "auth_config \<Rightarrow> token_env \<Rightarrow> http_request \<Rightarrow> string \<Rightarrow> clock_reads \<Rightarrow> gateway \<Rightarrow> principal result" where
  "oauth_principal cfg env q cid ck gw =
     andThen (the_connection cid (gw_oauth gw)) (\<lambda>conn.
     andThen (linked_record (cn_app conn) (cn_workspace conn) (ck_now ck) (gw_tokens gw)) (\<lambda>r.
     andThen (oauth_base cfg) (\<lambda>_.
     andThen (connection_bearer q) (\<lambda>access.
     andThen (fst (oauth_authenticate (ac_oauth cfg) cid access (ck_first ck) (ck_second ck) (gw_oauth gw))) (\<lambda>_.
     andThen (token_scope_root env r) (\<lambda>scoped. Inr (connected r scoped ''oauth'' cid)))))))"

definition oauth_authenticated_route ::
  "auth_config \<Rightarrow> token_env \<Rightarrow> http_request \<Rightarrow> clock_reads \<Rightarrow> (gateway, authenticated) op" where
  "oauth_authenticated_route cfg env q ck gw =
     attempt (connection_path ''connect'' (rq_path q)) (\<lambda>(cid, route).
     attempt (answered (oauth_principal cfg env q cid ck gw)) (\<lambda>pr gw.
       (Inr (entered cfg q pr route), gw\<lparr>gw_oauth := snd (oauth_touch cid (ck_third ck) (ck_fourth ck) (gw_oauth gw))\<rparr>))) gw"

definition static_principal ::
  "auth_config \<Rightarrow> token_env \<Rightarrow> http_request \<Rightarrow> string \<Rightarrow> clock_reads \<Rightarrow> gateway \<Rightarrow> principal result" where
  "static_principal cfg env q cid ck gw =
     andThen (connection_bearer q) (\<lambda>secret.
     andThen (static_authenticate (ac_oauth cfg) cid secret (ck_first ck) (gw_static gw)) (\<lambda>conn.
     andThen (linked_record (sm_app conn) (sm_workspace conn) (ck_now ck) (gw_tokens gw)) (\<lambda>r.
     andThen (token_scope_root env r) (\<lambda>scoped. Inr (connected r scoped ''static_mcp'' cid)))))"

definition static_mcp_authenticated_route ::
  "auth_config \<Rightarrow> token_env \<Rightarrow> http_request \<Rightarrow> clock_reads \<Rightarrow> (gateway, authenticated) op" where
  "static_mcp_authenticated_route cfg env q ck gw =
     attempt (connection_path ''mcp-connect'' (rq_path q)) (\<lambda>(cid, route).
     attempt (answered (static_principal cfg env q cid ck gw)) (\<lambda>pr gw.
       (Inr (entered cfg q pr route), gw\<lparr>gw_static := snd (static_touch cid (ck_third ck) (ck_fourth ck) (gw_static gw))\<rparr>))) gw"

section \<open>Every request\<close>

definition authenticate_request ::
  "auth_config \<Rightarrow> token_env \<Rightarrow> http_request \<Rightarrow> clock_reads \<Rightarrow> (gateway, authenticated) op" where
  "authenticate_request cfg env q ck gw =
     attempt (is_dedicated_preview_request cfg q) (\<lambda>dedicated gw.
       if dedicated then (preview_entrance cfg env q (ck_now ck) (gw_tokens gw), gw)
       else if startswith (rq_path q) ''/connect/'' then oauth_authenticated_route cfg env q ck gw
       else if startswith (rq_path q) ''/mcp-connect/'' then static_mcp_authenticated_route cfg env q ck gw
       else (case workspace_entrance cfg env q (ck_now ck) (ck_unix ck) (gw_tokens gw) of
               (v, st) \<Rightarrow> (v, gw\<lparr>gw_tokens := st\<rparr>))) gw"

end
