(* ===== verification/Token_Properties.thy ===== *)
theory Token_Properties
  imports Token_Safety
begin

text \<open>
  The token registry over its lifetime, and the properties of its credentials.
\<close>

section \<open>Runs\<close>

text \<open>The operations that give a record new credentials.\<close>

datatype rotation = RotateRead | RotateControl | RotatePreview | Renew int | RenewIfDue

definition credential_op ::
  "rotation \<Rightarrow> token_env \<Rightarrow> draws \<Rightarrow> string \<Rightarrow> bool \<Rightarrow> instant \<Rightarrow> (token_store, token_rec) op" where
  "credential_op k env dr x works now =
     (case k of
        RotateRead \<Rightarrow> rotate_read_token env dr x works
      | RotateControl \<Rightarrow> rotate_control_token env dr x works
      | RotatePreview \<Rightarrow> rotate_preview_token env dr x works
      | Renew ttl \<Rightarrow> renew_credentials env dr x ttl works now
      | RenewIfDue \<Rightarrow> renew_credentials_if_due env dr x works now)"

datatype token_event =
    TCreate token_env draws token_rec "unit result" bool instant
  | TRotate rotation token_env draws string bool instant
  | TRenewApp token_env draws string string bool instant
  | TUpdate token_env string token_changes "unit result" bool
  | TDelete string "unit result" bool
  | TNonce string string int int
  | TRestart token_env draws string bool instant

text \<open>A restart that fails leaves no server behind: the run goes on with the start that succeeds.\<close>

fun token_step :: "token_event \<Rightarrow> token_store \<Rightarrow> token_store" where
  "token_step (TCreate env dr s layout works now) st = snd (token_create env dr s layout works now st)"
| "token_step (TRotate k env dr x works now) st = snd (credential_op k env dr x works now st)"
| "token_step (TRenewApp env dr app ws works now) st = snd (renew_credentials_for_app_if_due env dr app ws works now st)"
| "token_step (TUpdate env x c layout works) st = snd (token_update env x c layout works st)"
| "token_step (TDelete x cleared works) st = snd (token_delete x cleared works st)"
| "token_step (TNonce i n now ttl) st = snd (consume_signed_nonce i n now ttl st)"
| "token_step (TRestart env dr bootstrap works now) st =
     (case restart_tokens env dr bootstrap works now st of Inl _ \<Rightarrow> st | Inr st' \<Rightarrow> st')"

definition opened :: "token_store \<Rightarrow> bool" where
  "opened st \<longleftrightarrow> (\<exists>env dr has_file items bootstrap works now. open_tokens env dr has_file items bootstrap works now = Inr st)"

definition reachable_tokens :: "token_store \<Rightarrow> bool" where
  "reachable_tokens st \<longleftrightarrow> (\<exists>s es. opened s \<and> st = fold token_step es s)"

text \<open>The expiry that a renewal at a time gives: at most thirty days later.\<close>

definition renewed_until :: "instant \<Rightarrow> stamp option \<Rightarrow> bool" where
  "renewed_until now v \<longleftrightarrow> (\<exists>t. v = Some (At t) \<and> t \<le> now + days_us MAX_CREDENTIAL_TTL_DAYS)"

lemma credential_expiry_until: "credential_expiry ttl now = Inr v \<Longrightarrow> renewed_until now v"
  by (auto simp: credential_expiry_def renewed_until_def days_us_def DAY_US_def split: if_splits)

lemma default_until: "renewed_until now (Some (At (now + days_us DEFAULT_CREDENTIAL_TTL_DAYS)))"
  by (simp add: renewed_until_def days_us_def DAY_US_def DEFAULT_CREDENTIAL_TTL_DAYS_def MAX_CREDENTIAL_TTL_DAYS_def)

lemma credential_op_outcome:
  "tokens_ok st \<Longrightarrow> one_record_op (k \<noteq> RotatePreview) (renewed_until now) st x (credential_op k env dr x works now st)"
  by (cases k) (simp_all add: credential_op_def rotate_read_outcome rotate_control_outcome rotate_preview_outcome
      renew_outcome renew_if_due_outcome credential_expiry_until default_until)

lemma renew_if_due_until:
  "tokens_ok st \<Longrightarrow> one_record_op True (renewed_until now) st x (renew_credentials_if_due env dr x works now st)"
  by (rule renew_if_due_outcome) (simp_all add: default_until)

lemma renew_app_cases:
  obtains e where "renew_credentials_for_app_if_due env dr app ws works now st = (Inl e, st)"
  | r where "renew_credentials_for_app_if_due env dr app ws works now st = renew_credentials_if_due env dr (tk_token r) works now st"
      "get_by_app_id app st = Some r"
proof (cases "get_by_app_id app st")
  case None
  then show ?thesis using that(1) by (simp add: renew_credentials_for_app_if_due_def)
next
  case (Some r)
  show ?thesis
  proof (cases "\<not> token_valid now r \<or> tk_prefix r \<noteq> ws")
    case True
    with Some show ?thesis using that(1) by (simp add: renew_credentials_for_app_if_due_def)
  next
    case False
    with Some show ?thesis using that(2) by (simp add: renew_credentials_for_app_if_due_def)
  qed
qed

lemma token_step_ok: "tokens_ok st \<Longrightarrow> tokens_ok (token_step e st)"
proof (cases e)
  case (TRenewApp env dr app ws works now)
  assume "tokens_ok st"
  then show ?thesis unfolding TRenewApp token_step.simps
    by (cases rule: renew_app_cases [of env dr app ws works now st]) (auto intro: one_record_ok renew_if_due_until)
qed (auto intro: one_record_ok create_tokens_ok credential_op_outcome update_outcome delete_tokens_ok nonce_ok restart_ok split: sum.split)

interpretation tokens: state_machine opened "\<lambda>st st'. \<exists>e. st' = token_step e st" tokens_ok
  by unfold_locales (auto simp: opened_def intro: open_tokens_ok token_step_ok)

lemma fold_steps: "(\<lambda>st st'. \<exists>e. st' = token_step e st)\<^sup>*\<^sup>* st (fold token_step es st)"
  by (induction es arbitrary: st) (auto intro: converse_rtranclp_into_rtranclp)

lemma reachable_tokens_ok: "reachable_tokens st \<Longrightarrow> tokens_ok st"
  unfolding reachable_tokens_def using tokens.reachable_inv [OF _ fold_steps] by blast

section \<open>Credentials\<close>

definition credentials_of :: "token_rec \<Rightarrow> string set" where
  "credentials_of r = {tk_token r, tk_preview r, tk_control r}"

text \<open>The only record that a text is a credential of.\<close>

definition sole_owner :: "token_store \<Rightarrow> string \<Rightarrow> token_rec \<Rightarrow> bool" where
  "sole_owner st x r \<longleftrightarrow> (\<forall>q \<in> snd ` set (ts_records st). x \<in> credentials_of q \<longleftrightarrow> q = r) \<and> r \<in> snd ` set (ts_records st)"

lemma sole_ownerI:
  assumes ok: "tokens_ok st" and r: "recs st (tk_token r) = Some r" "x \<in> credentials_of r"
  shows "sole_owner st x r"
proof -
  have rin: "r \<in> snd ` set (ts_records st)" using map_of_SomeD [OF r(1)] by force
  have "q = r" if qin: "q \<in> snd ` set (ts_records st)" and xq: "x \<in> credentials_of q" for q
  proof -
    have dis: "recs st x = None \<or> prevs st x = None" "recs st x = None \<or> ctrls st x = None" "prevs st x = None \<or> ctrls st x = None"
      using ok by (auto simp: tokens_ok_def maps_ok_def)
    have found: "recs st x = Some p \<or> prevs st x = Some p \<or> ctrls st x = Some p"
      if "p \<in> snd ` set (ts_records st)" "x \<in> credentials_of p" for p
      using credential_owner [OF ok that(1)] that(2) unfolding credentials_of_def by blast
    show ?thesis
      using found [OF qin xq] found [OF rin r(2)] dis by (elim disjE) (simp_all del: split_paired_Ex)
  qed
  with r(2) rin show ?thesis unfolding sole_owner_def by blast
qed

text \<open>
  C17: The three kinds of credentials are never confused.  Whatever the data file held at the start and
  whatever has happened since, restarts included, every record is well-formed; a text that
  authenticates as a read, control or preview credential is that credential of the record found, it is
  no credential of any other record, and it never authenticates as another kind.
\<close>

theorem token_kinds_separate:
  assumes "reachable_tokens st"
  shows "(\<forall>r \<in> snd ` set (ts_records st). well_formed r) \<and>
    (\<forall>r. authenticate now x st = Inr (Some r) \<longrightarrow>
       tk_token r = x \<and> sole_owner st x r \<and>
       authenticate_preview now' x st = None \<and> (\<forall>q. authenticate_control now' x st \<noteq> Inr (Some q))) \<and>
    (\<forall>r. authenticate_control now x st = Inr (Some r) \<longrightarrow>
       tk_control r = x \<and> sole_owner st x r \<and>
       authenticate_preview now' x st = None \<and> (\<forall>q. authenticate now' x st \<noteq> Inr (Some q))) \<and>
    (\<forall>r. authenticate_preview now x st = Some r \<longrightarrow>
       tk_preview r = x \<and> sole_owner st x r \<and>
       (\<forall>q. authenticate now' x st \<noteq> Inr (Some q) \<and> authenticate_control now' x st \<noteq> Inr (Some q)))"
proof -
  have ok: "tokens_ok st" by (rule reachable_tokens_ok [OF assms])
  then have dis: "recs st x = None \<or> prevs st x = None" "recs st x = None \<or> ctrls st x = None" "prevs st x = None \<or> ctrls st x = None"
    by (auto simp: tokens_ok_def maps_ok_def)
  have p: "authenticate_preview now' x st = None" if "prevs st x = None"
    using that by (simp add: authenticate_preview_def)
  have c: "authenticate_control now' x st \<noteq> Inr (Some q)" if "ctrls st x = None" for q
    using authenticate_control_Some [OF ok, of now' x q] that by auto
  have a: "authenticate now' x st \<noteq> Inr (Some q)" if "recs st x = None" for q
    using authenticate_Some [OF ok, of now' x q] that by auto
  have "well_formed r" if "r \<in> snd ` set (ts_records st)" for r
    using credential_owner [OF ok that] recs_own [OF ok] by blast
  moreover have "tk_token r = x \<and> sole_owner st x r \<and>
       authenticate_preview now' x st = None \<and> (\<forall>q. authenticate_control now' x st \<noteq> Inr (Some q))"
    if "authenticate now x st = Inr (Some r)" for r
    using authenticate_Some [OF ok that] recs_own [OF ok, of x r] dis p c sole_ownerI [OF ok, of r x] by (auto simp: credentials_of_def)
  moreover have "tk_control r = x \<and> sole_owner st x r \<and>
       authenticate_preview now' x st = None \<and> (\<forall>q. authenticate now' x st \<noteq> Inr (Some q))"
    if "authenticate_control now x st = Inr (Some r)" for r
    using authenticate_control_Some [OF ok that] dis p a sole_ownerI [OF ok, of r x] by (auto simp: credentials_of_def)
  moreover have "tk_preview r = x \<and> sole_owner st x r \<and>
       (\<forall>q. authenticate now' x st \<noteq> Inr (Some q) \<and> authenticate_control now' x st \<noteq> Inr (Some q))"
    if "authenticate_preview now x st = Some r" for r
    using authenticate_preview_Some [OF ok that] dis c a sole_ownerI [OF ok, of r x] by (auto simp: credentials_of_def)
  ultimately show ?thesis by blast
qed

text \<open>
  C18: A replaced credential is dead at once.  When a rotation or a renewal succeeds, every credential of
  the old record that the new one does not have is unknown, the credentials of the new record lead to
  it, the identity of the app is kept, and no other record is affected.
\<close>

theorem replaced_credentials_dead:
  assumes "reachable_tokens st" and "credential_op k env dr x works now st = (Inr r, st')"
  shows "\<exists>cur. recs st x = Some cur \<and> tk_app r = tk_app cur \<and>
    (\<forall>y \<in> {tk_token cur, tk_preview cur, tk_control cur} - {tk_token r, tk_preview r, tk_control r}.
       \<not> in_use st' y \<and> (\<forall>t q. authenticate t y st' \<noteq> Inr (Some q) \<and> authenticate_control t y st' \<noteq> Inr (Some q) \<and>
         authenticate_preview t y st' \<noteq> Some q)) \<and>
    recs st' (tk_token r) = Some r \<and> prevs st' (tk_preview r) = Some r \<and> ctrls st' (tk_control r) = Some r \<and>
    (\<forall>y q. recs st y = Some q \<longrightarrow> y \<noteq> x \<longrightarrow>
       recs st' y = Some q \<and> prevs st' (tk_preview q) = Some q \<and> ctrls st' (tk_control q) = Some q)"
proof -
  have ok: "tokens_ok st" by (rule reachable_tokens_ok [OF assms(1)])
  from credential_op_outcome [OF ok, where k = k and x = x and env = env and dr = dr and works = works and now = now] obtain cur where
    cur: "recs st x = Some cur" and r: "kept_or_free (renewed_until now) st cur r" "replaced cur r st st'"
    by (auto simp: one_record_op_def assms(2))
  have own: "tk_token cur = x" "prevs st (tk_preview cur) = Some cur" "ctrls st (tk_control cur) = Some cur"
    using recs_own [OF ok cur] by auto
  have ok': "tokens_ok st'" using replaced_ok [OF ok _ r] cur own(1) by simp
  have dis: "recs st y = None \<or> prevs st y = None" "recs st y = None \<or> ctrls st y = None" "prevs st y = None \<or> ctrls st y = None" for y
    using ok by (auto simp: tokens_ok_def maps_ok_def)
  have dead: "\<not> in_use st' y" if "y \<in> {tk_token cur, tk_preview cur, tk_control cur}" "y \<notin> {tk_token r, tk_preview r, tk_control r}" for y
  proof -
    have "recs st' y = None"
      using that r(2) dis [of y] own by (cases "y = tk_token cur") (auto simp: replaced_def)
    moreover have "prevs st' y = None"
      using that r(2) dis [of y] own cur by (cases "y = tk_preview cur") (auto simp: replaced_def)
    moreover have "ctrls st' y = None"
      using that r(2) dis [of y] own cur by (cases "y = tk_control cur") (auto simp: replaced_def)
    ultimately show ?thesis by (simp add: in_use_iff)
  qed
  have "authenticate t y st' \<noteq> Inr (Some q) \<and> authenticate_control t y st' \<noteq> Inr (Some q) \<and> authenticate_preview t y st' \<noteq> Some q"
    if "\<not> in_use st' y" for t y q
    using that authenticate_Some [OF ok', of t y q] authenticate_control_Some [OF ok', of t y q]
      authenticate_preview_Some [OF ok', of t y q] by (auto simp: in_use_iff)
  moreover have "recs st' y = Some q \<and> prevs st' (tk_preview q) = Some q \<and> ctrls st' (tk_control q) = Some q"
    if "recs st y = Some q" "y \<noteq> x" for y q
  proof -
    have "recs st' y = Some q" using that r own by (auto simp: replaced_def kept_or_free_def in_use_iff)
    with recs_own [OF ok'] show ?thesis by blast
  qed
  moreover have "recs st' (tk_token r) = Some r" "prevs st' (tk_preview r) = Some r" "ctrls st' (tk_control r) = Some r"
    using r(2) by (auto simp: replaced_def)
  ultimately show ?thesis using cur r(1) dead by (auto simp: kept_or_free_def)
qed

text \<open>What a failed operation leaves in the data file.\<close>

definition file_kept :: "token_store \<Rightarrow> 'a result \<times> token_store \<Rightarrow> bool" where
  "file_kept st out \<longleftrightarrow> (\<forall>e. fst out = Inl e \<longrightarrow> ts_disk (snd out) = ts_disk st)"

lemma file_kept_attempt: "(\<And>x. file_kept st (f x st)) \<Longrightarrow> file_kept st (attempt v f st)"
  by (cases v) (simp_all add: file_kept_def)

lemma file_kept_saved: "ts_disk undone = ts_disk st \<Longrightarrow> file_kept st (saved_or works v st1 undone)"
  by (cases rule: saved_or_cases [of works v st1 undone]) (simp_all add: file_kept_def)

lemma file_kept_tables [simp]:
  "ts_disk (put_record r st) = ts_disk st" "ts_disk (drop_read x st) = ts_disk st" "ts_disk (drop_preview x st) = ts_disk st"
  "ts_disk (drop_control x st) = ts_disk st"
  by (simp_all add: put_record_def drop_read_def drop_preview_def drop_control_def)

lemma file_kept_replace: "file_kept st (replace_credentials env dr cur expires works st)"
  unfolding replace_credentials_def by (intro file_kept_attempt file_kept_saved) simp

lemma file_kept_rotation: "file_kept st (credential_op k env dr x works now st)"
  by (cases k)
    (simp_all add: credential_op_def rotate_read_token_def rotate_control_token_def rotate_preview_token_def
      renew_credentials_def renew_credentials_if_due_def file_kept_attempt file_kept_saved file_kept_replace)

text \<open>The preview token is the one credential whose rotation is not taken back.\<close>

definition preview_replaced :: "string \<Rightarrow> token_store \<Rightarrow> token_store \<Rightarrow> bool" where
  "preview_replaced x st st' \<longleftrightarrow>
     (\<exists>cur r. recs st x = Some cur \<and> tk_token r = x \<and> tk_control r = tk_control cur \<and> \<not> in_use st (tk_preview r) \<and>
        recs st' = (recs st)(x \<mapsto> r) \<and> ctrls st' = (ctrls st)(tk_control cur \<mapsto> r) \<and>
        prevs st' = (prevs st)(tk_preview cur := None, tk_preview r \<mapsto> r))"

lemma attempt_Inl: "attempt v f s = (Inl e, s') \<longleftrightarrow> v = Inl e \<and> s' = s \<or> (\<exists>x. v = Inr x \<and> f x s = (Inl e, s'))"
  by (cases v) auto

lemma saved_or_Inl: "saved_or works v st undone = (Inl e, s') \<Longrightarrow> s' = undone \<and> e = OSError \<and> ts_has_file st \<and> \<not> works"
  by (auto simp: saved_or_def save_tokens_def split: sum.splits if_splits)

lemma rotate_preview_failed:
  assumes ok: "tokens_ok st" and f: "rotate_preview_token env dr x works st = (Inl e, st')"
  shows "st' = st \<or> e = OSError \<and> ts_has_file st \<and> \<not> works \<and> preview_replaced x st st'"
proof (cases "st' = st")
  case False
  with f obtain cur p r where a: "token_get x st = Inr cur" "new_token (dr_preview dr) [] st = Inr p"
      "token_validate env (cur\<lparr>tk_preview := p\<rparr>) = Inr r"
      and s: "saved_or works r (put_record r (drop_preview (tk_preview cur) st)) (put_record r (drop_preview (tk_preview cur) st)) = (Inl e, st')"
    unfolding rotate_preview_token_def attempt_Inl by blast
  have cur: "recs st x = Some cur" using a(1) by (simp add: token_get_Inr)
  note own = recs_own [OF ok cur] and v = validated [OF a(3)] and d = drawn(1) [OF a(2)] and l = saved_or_Inl [OF s]
  have "preview_replaced x st st'"
    unfolding preview_replaced_def using own v d l cur by (intro exI [of _ cur] exI [of _ r]) simp
  moreover have "ts_has_file st" using l by (simp add: put_record_def drop_preview_def)
  ultimately show ?thesis using l by blast
qed simp

text \<open>
  C19: What a failed rotation or renewal leaves.  The data file is as it was, and so is every credential
  in memory, with one exception: when the data file cannot be written, the rotation of a preview token
  is reported as failed but stays in force until the next start, with the old preview token dead and
  the read and control token untouched.
\<close>

theorem failed_rotation_undone:
  assumes "reachable_tokens st" and "credential_op k env dr x works now st = (Inl e, st')"
  shows "ts_disk st' = ts_disk st \<and>
    (recs st' = recs st \<and> prevs st' = prevs st \<and> ctrls st' = ctrls st \<or>
     k = RotatePreview \<and> e = OSError \<and> ts_has_file st \<and> \<not> works \<and> preview_replaced x st st')"
proof -
  have ok: "tokens_ok st" by (rule reachable_tokens_ok [OF assms(1)])
  have disk: "ts_disk st' = ts_disk st"
    using file_kept_rotation [of st k env dr x works now] assms(2) by (simp add: file_kept_def)
  show ?thesis
  proof (cases "k = RotatePreview")
    case True
    with assms(2) have "rotate_preview_token env dr x works st = (Inl e, st')" by (simp add: credential_op_def)
    from rotate_preview_failed [OF ok this] True disk show ?thesis by blast
  next
    case False
    with credential_op_outcome [OF ok, where k = k and x = x and env = env and dr = dr and works = works and now = now] assms(2) disk
    show ?thesis by (auto simp: one_record_op_def same_tokens_def)
  qed
qed

section \<open>How long credentials live\<close>

lemma replaced_expiry:
  "replace_credentials env dr cur (Some (At t)) works st = (Inr r, st') \<Longrightarrow> tk_cred_expires r = Some (At t)"
proof -
  assume "replace_credentials env dr cur (Some (At t)) works st = (Inr r, st')"
  then obtain f g where "token_validate env (cur\<lparr>tk_token := f, tk_control := g, tk_cred_expires := Some (At t)\<rparr>) = Inr r"
    unfolding replace_credentials_def attempt_Inr by (auto dest: saved_or_Inr)
  from validated(7) [OF this] show ?thesis by (simp add: stamp_of_def)
qed

lemma rotated_expiry:
  assumes "tokens_ok st" "k = RotateRead \<or> k = RotateControl \<or> k = RotatePreview" "credential_op k env dr x works now st = (Inr r, st')"
  obtains cur where "recs st x = Some cur" "tk_cred_expires r = tk_cred_expires cur"
proof -
  have "one_record_op (k \<noteq> RotatePreview) (\<lambda>_. False) st x (credential_op k env dr x works now st)"
    using assms(1,2) by (auto simp: credential_op_def rotate_read_outcome rotate_control_outcome rotate_preview_outcome)
  then show ?thesis using that assms(3) by (auto simp: one_record_op_def kept_or_free_def)
qed

text \<open>
  How long new credentials live.  Replacing one credential keeps the expiry date of the record.  An
  administrator renews for one to thirty days from now.  A workspace that renews its own credentials gets
  three days from now, and only while the old ones are still valid and have less than two days left: once
  they have expired it cannot bring itself back.
\<close>

theorem credential_lifetimes:
  assumes "reachable_tokens st" and "credential_op k env dr x works now st = (Inr r, st')"
  shows "\<exists>cur. recs st x = Some cur \<and>
    (case k of
       Renew ttl \<Rightarrow> 1 \<le> ttl \<and> ttl \<le> 30 \<and> tk_cred_expires r = Some (At (now + days_us ttl))
     | RenewIfDue \<Rightarrow> (\<exists>t. tk_cred_expires cur = Some (At t) \<and> now < t \<and> t < now + days_us 2) \<and>
         tk_cred_expires r = Some (At (now + days_us 3))
     | _ \<Rightarrow> tk_cred_expires r = tk_cred_expires cur)"
proof -
  have ok: "tokens_ok st" by (rule reachable_tokens_ok [OF assms(1)])
  consider "k = RotateRead \<or> k = RotateControl \<or> k = RotatePreview" | ttl where "k = Renew ttl" | "k = RenewIfDue" by (cases k) auto
  then show ?thesis
  proof cases
    case 1
    obtain cur where "recs st x = Some cur" "tk_cred_expires r = tk_cred_expires cur" by (rule rotated_expiry [OF ok 1 assms(2)])
    with 1 show ?thesis by auto
  next
    case (2 ttl)
    then obtain expires cur where e: "credential_expiry ttl now = Inr expires" "recs st x = Some cur"
        and r: "replace_credentials env dr cur expires works st = (Inr r, st')"
      using assms(2) unfolding credential_op_def by (auto simp: renew_credentials_def attempt_Inr token_get_Inr)
    from e(1) have "expires = Some (At (now + days_us ttl))" "1 \<le> ttl" "ttl \<le> 30"
      by (auto simp: credential_expiry_def MAX_CREDENTIAL_TTL_DAYS_def split: if_splits)
    with e(2) r 2 replaced_expiry show ?thesis by auto
  next
    case 3
    then obtain cur where e: "recs st x = Some cur" "renewal_due now cur = Inr ()"
        and r: "replace_credentials env dr cur (Some (At (now + days_us DEFAULT_CREDENTIAL_TTL_DAYS))) works st = (Inr r, st')"
      using assms(2) unfolding credential_op_def by (auto simp: renew_credentials_if_due_def attempt_Inr token_get_Inr)
    from e(2) have "\<exists>t. tk_cred_expires cur = Some (At t) \<and> now < t \<and> t < now + days_us 2"
      by (auto simp: renewal_due_def SELF_RENEWAL_WINDOW_def split: option.splits stamp.splits if_splits)
    with e(1) 3 replaced_expiry [OF r] show ?thesis by (simp add: DEFAULT_CREDENTIAL_TTL_DAYS_def)
  qed
qed

section \<open>A small registry for the witnesses\<close>

definition demo_token_env :: token_env where
  "demo_token_env =
     \<lparr>te_root = [''/'', ''r''], te_fs = \<lparr>is_dir = (\<lambda>_. True), resolve = (\<lambda>p. p), abspath = (\<lambda>p. p)\<rparr>,
      te_exists = (\<lambda>_. True), te_is_file = (\<lambda>_. False), te_is_symlink = (\<lambda>_. False),
      te_clock = \<lparr>zone_info = (\<lambda>_. ZoneNotFound), fromisoformat = (\<lambda>_. None)\<rparr>, te_toascii = (\<lambda>_. None)\<rparr>"

definition demo_draws :: draws where
  "demo_draws = \<lparr>dr_read = [''r1'', ''r2''], dr_preview = [''p_aaaaaaaaaaaaaa'', ''p_bbbbbbbbbbbbbb''], dr_control = [''c1'', ''c2''],
     dr_app = [''0123456789abcdef'']\<rparr>"

definition demo_created :: token_event where
  "demo_created = TCreate demo_token_env demo_draws (default_settings\<lparr>tk_prefix := ''ws''\<rparr>) (Inr ()) True 0"

definition demo_tokens :: token_store where
  "demo_tokens = token_step demo_created (new_store True)"

definition demo_record :: token_rec where
  "demo_record = default_settings\<lparr>tk_token := ''r1'', tk_created := iso_utc 0, tk_preview := ''p_aaaaaaaaaaaaaa'',
     tk_control := ''ks-c1'', tk_app := ''0123456789abcdef'', tk_cred_expires := Some (At 259200000000), tk_prefix := ''ws''\<rparr>"

lemma demo_tokens_value:
  "ts_records demo_tokens = [(''r1'', demo_record)]" "ts_previews demo_tokens = [(''p_aaaaaaaaaaaaaa'', demo_record)]"
  "ts_controls demo_tokens = [(''ks-c1'', demo_record)]" "ts_has_file demo_tokens" "ts_disk demo_tokens = Some [demo_record]"
  by code_simp+

lemma demo_reachable: "reachable_tokens demo_tokens"
proof -
  have "open_tokens demo_token_env demo_draws True None [] True 0 = Inr (new_store True)"
    by (simp add: open_tokens_def bootstrap_store_def)
  then have "opened (new_store True)" unfolding opened_def by blast
  moreover have "demo_tokens = fold token_step [demo_created] (new_store True)" by (simp add: demo_tokens_def)
  ultimately show ?thesis unfolding reachable_tokens_def by blast
qed

theorem token_kinds_separate_witness:
  "well_formed demo_record \<and> sole_owner demo_tokens ''r1'' demo_record \<and> authenticate_preview 5 ''r1'' demo_tokens = None \<and>
   authenticate_control 5 ''r1'' demo_tokens \<noteq> Inr (Some demo_record)"
proof -
  have a: "authenticate 5 ''r1'' demo_tokens = Inr (Some demo_record)" by code_simp
  note sep = token_kinds_separate [OF demo_reachable, of 5 "''r1''" 5]
  have "well_formed demo_record" using conjunct1 [OF sep] by (simp add: demo_tokens_value)
  then show ?thesis using a sep by blast
qed

theorem replaced_credentials_dead_witness:
  "\<exists>r st'. credential_op RenewIfDue demo_token_env demo_draws ''r1'' True 172800000000 demo_tokens = (Inr r, st') \<and>
     tk_app r = ''0123456789abcdef'' \<and> recs st' (tk_token r) = Some r \<and> tk_token r = ''r2''"
proof -
  let ?out = "credential_op RenewIfDue demo_token_env demo_draws ''r1'' True 172800000000 demo_tokens"
  have "\<not> isl (fst ?out)" "tk_token (projr (fst ?out)) = ''r2''" by code_simp+
  then obtain r st' where out: "?out = (Inr r, st')" "tk_token r = ''r2''" by (cases "fst ?out"; cases ?out) auto
  from replaced_credentials_dead [OF demo_reachable out(1)] have "tk_app r = ''0123456789abcdef''" "recs st' (tk_token r) = Some r"
    by (auto simp: demo_tokens_value demo_record_def)
  with out show ?thesis by blast
qed

theorem failed_rotation_undone_witness:
  "recs (snd (credential_op (Renew 7) demo_token_env demo_draws ''r1'' False 5 demo_tokens)) = recs demo_tokens \<and>
   fst (credential_op (Renew 7) demo_token_env demo_draws ''r1'' False 5 demo_tokens) = Inl OSError"
proof -
  let ?out = "credential_op (Renew 7) demo_token_env demo_draws ''r1'' False 5 demo_tokens"
  have e: "fst ?out = Inl OSError" by code_simp
  then have "?out = (Inl OSError, snd ?out)" by (simp add: prod_eq_iff)
  from failed_rotation_undone [OF demo_reachable this] e show ?thesis by simp
qed

text \<open>The exception happens: the preview token is replaced in memory although the caller is told that it was not.\<close>

lemma failed_preview_rotation_stays:
  "fst (credential_op RotatePreview demo_token_env demo_draws ''r1'' False 5 demo_tokens) = Inl OSError"
  "authenticate_preview 6 ''p_aaaaaaaaaaaaaa'' (snd (credential_op RotatePreview demo_token_env demo_draws ''r1'' False 5 demo_tokens)) = None"
  "map tk_preview (map snd (ts_records (snd (credential_op RotatePreview demo_token_env demo_draws ''r1'' False 5 demo_tokens)))) = [''p_bbbbbbbbbbbbbb'']"
  by code_simp+

theorem credential_lifetimes_witness:
  "\<exists>r st'. credential_op RenewIfDue demo_token_env demo_draws ''r1'' True 172800000000 demo_tokens = (Inr r, st') \<and>
     tk_cred_expires r = Some (At (172800000000 + days_us 3))"
proof -
  let ?out = "credential_op RenewIfDue demo_token_env demo_draws ''r1'' True 172800000000 demo_tokens"
  have "\<not> isl (fst ?out)" by code_simp
  then obtain r st' where out: "?out = (Inr r, st')" by (cases "fst ?out"; cases ?out) auto
  from credential_lifetimes [OF demo_reachable out] out show ?thesis by auto
qed

text \<open>
  The other operations do not undo: when the data file cannot be written, a deleted token is gone from
  memory but not from the file, and it is back after a restart.
\<close>

lemma deleted_token_returns:
  "fst (token_delete ''r1'' (Inr ()) False demo_tokens) = Inl OSError"
  "ts_records (snd (token_delete ''r1'' (Inr ()) False demo_tokens)) = []"
  "ts_disk (snd (token_delete ''r1'' (Inr ()) False demo_tokens)) = Some [demo_record]"
  "\<exists>st. load_store demo_token_env demo_draws 9 [\<lparr>sd_rec = demo_record, sd_cred = True, sd_current = True\<rparr>] True = Inr st \<and>
     authenticate_control 10 ''ks-c1'' st = Inr (Some demo_record)"
proof -
  show "fst (token_delete ''r1'' (Inr ()) False demo_tokens) = Inl OSError" by code_simp
  show "ts_records (snd (token_delete ''r1'' (Inr ()) False demo_tokens)) = []" by code_simp
  show "ts_disk (snd (token_delete ''r1'' (Inr ()) False demo_tokens)) = Some [demo_record]" by code_simp
  let ?l = "load_store demo_token_env demo_draws 9 [\<lparr>sd_rec = demo_record, sd_cred = True, sd_current = True\<rparr>] True"
  have "\<not> isl ?l" "authenticate_control 10 ''ks-c1'' (projr ?l) = Inr (Some demo_record)" by code_simp+
  then show "\<exists>st. ?l = Inr st \<and> authenticate_control 10 ''ks-c1'' st = Inr (Some demo_record)"
    by (cases ?l) auto
qed

end
