(* ===== verification/Request_Properties.thy ===== *)
theory Request_Properties
  imports Request_Auth Token_Properties
begin

text \<open>
  What a request has to prove before it is given control authority, and how long a signed request can be
  used.
\<close>

section \<open>Accepted envelopes\<close>

lemma require_Inr [simp]: "require b e = Inr u \<longleftrightarrow> b"
  by (simp add: require_def)

text \<open>The texts that a signature may cover, given the bytes of the request.\<close>

definition signable :: "auth_config \<Rightarrow> http_request \<Rightarrow> string set" where
  "signable cfg q =
     (if rq_method q = ''GET'' then {signed_part q}
      else {rq_method q @ ''/'' @ signed_part q} \<union>
        {rq_method q @ ''/'' @ signed_part q @ [CHR 0x0A] @ ac_sha256 cfg (take n (rq_body q)) | n.
           request_content_length q = Inr n \<and> n \<le> ac_max_body cfg \<and> n \<le> length (rq_body q)})"

definition timestamp_of :: "query \<Rightarrow> int" where
  "timestamp_of pairs = int (digits_value (hd (query_values ''timestamp'' pairs)))"

definition nonce_of :: "query \<Rightarrow> string" where
  "nonce_of pairs = hd (query_values ''nonce'' pairs)"

text \<open>A query that carries a signature with the control token of a record, made at most five minutes ago.\<close>

definition signed_with :: "auth_config \<Rightarrow> http_request \<Rightarrow> string \<Rightarrow> int \<Rightarrow> query \<Rightarrow> bool" where
  "signed_with cfg q key clock pairs \<longleftrightarrow>
     parse_qsl_strict cfg (rq_query q) = Some pairs \<and>
     query_values ''signature'' pairs \<in> (\<lambda>m. [ac_hmac cfg (utf8 key) m]) ` signable cfg q \<and>
     \<bar>clock - timestamp_of pairs\<bar> \<le> 300"

lemma single: "length xs = Suc 0 \<longleftrightarrow> (\<exists>x. xs = [x])"
  by (cases xs) auto

lemma shape_pairs: "envelope_shape cfg q = Inr pairs \<Longrightarrow> parse_qsl_strict cfg (rq_query q) = Some pairs"
  unfolding envelope_shape_def Let_def andThen_eq_Inr
  by (elim exE conjE) (simp add: bad_envelope_def split: option.splits)

lemma fields_signature: "envelope_fields q pairs = Inr m \<Longrightarrow> \<exists>s. query_values ''signature'' pairs = [s]"
  unfolding envelope_fields_def Let_def andThen_eq_Inr
  by (elim exE conjE) (simp add: single split: if_splits)

lemma time_fields:
  "envelope_time clock pairs = Inr (t, n) \<Longrightarrow> t = timestamp_of pairs \<and> n = nonce_of pairs \<and> \<bar>clock - t\<bar> \<le> 300"
  by (auto simp: envelope_time_def Let_def timestamp_of_def nonce_of_def SIGNED_GET_WINDOW_SECONDS_def)

lemma read_body_taken:
  "read_signed_body cfg q = Inr b \<Longrightarrow>
   \<exists>n. b = take n (rq_body q) \<and> request_content_length q = Inr n \<and> n \<le> ac_max_body cfg \<and> n \<le> length (rq_body q)"
  by (auto simp: read_signed_body_def split: if_splits)

lemma signature_covers:
  assumes "check_signature cfg q r pairs = Inr b"
  shows "hd (query_values ''signature'' pairs) \<in> ac_hmac cfg (utf8 (tk_control r)) ` signable cfg q"
proof (cases "rq_method q = ''GET''")
  case True
  then show ?thesis using assms by (auto simp: check_signature_def Let_def signable_def split: if_splits)
next
  case False
  then show ?thesis using assms
    by (auto simp: check_signature_def Let_def signable_def split: if_splits dest!: read_body_taken)
qed

lemma checked_envelope_signed:
  assumes "checked_envelope cfg q r clock = Inr (pairs, m, t, n, b)"
  shows "signed_with cfg q (tk_control r) clock pairs \<and> t = timestamp_of pairs \<and> n = nonce_of pairs"
proof -
  have s: "envelope_shape cfg q = Inr pairs" "envelope_fields q pairs = Inr m" "envelope_time clock pairs = Inr (t, n)"
    "check_signature cfg q r pairs = Inr b"
    using assms by (auto simp: checked_envelope_def)
  from fields_signature [OF s(2)] signature_covers [OF s(4)] show ?thesis
    using shape_pairs [OF s(1)] time_fields [OF s(3)] by (auto simp: signed_with_def)
qed

lemma decoded_envelope:
  assumes "decode_signed_envelope cfg q r clock st = (Inr en, st')"
  obtains pairs where "signed_with cfg q (tk_control r) clock pairs"
    "consume_signed_nonce (identity_of r) (nonce_of pairs) clock (max 1 (timestamp_of pairs + 300 - clock)) st = (True, st')"
proof -
  from assms obtain pairs m t n b where c: "checked_envelope cfg q r clock = Inr (pairs, m, t, n, b)"
    by (auto simp: decode_signed_envelope_def split: sum.splits prod.splits)
  with assms have "consume_signed_nonce (identity_of r) n clock (max 1 (t + 300 - clock)) st = (True, st')"
    by (simp add: decode_signed_envelope_def SIGNED_GET_WINDOW_SECONDS_def split: prod.splits if_splits)
  with checked_envelope_signed [OF c] show ?thesis using that by blast
qed

section \<open>Who is let in\<close>

definition url_token :: "auth_config \<Rightarrow> http_request \<Rightarrow> string" where
  "url_token cfg q = ac_unquote cfg (split_on (CHR ''/'') (rq_path q) ! 2)"

text \<open>The record that the URL names: with its read token, or through the preview entrance.\<close>

definition url_names :: "auth_config \<Rightarrow> http_request \<Rightarrow> instant \<Rightarrow> token_rec \<Rightarrow> bool \<Rightarrow> bool" where
  "url_names cfg q now r preview \<longleftrightarrow>
     (if preview then url_token cfg q = tk_preview r \<and> token_valid now r \<and> ac_preview cfg = None
      else url_token cfg q = tk_token r \<and> credentials_valid now r)"

lemma scope_or_not_found_Inr [simp]: "scope_or_not_found v = Inr s \<longleftrightarrow> v = Inr s"
  by (cases v) (simp_all add: scope_or_not_found_def split: pyerr.splits)

lemma named_record_Some:
  assumes "tokens_ok st" "named_record cfg x route now st = Inr (Some r, entry, preview)"
  shows "recs st (tk_token r) = Some r \<and> (preview \<longrightarrow> startswith entry ''/web'') \<and>
    (if preview then x = tk_preview r \<and> token_valid now r \<and> ac_preview cfg = None else x = tk_token r \<and> credentials_valid now r)"
proof (cases "if ac_preview cfg \<noteq> None then None else authenticate_preview now x st")
  case None
  then have v: "authenticate now x st = Inr (Some r)" "\<not> preview"
    using assms(2) by (auto simp: named_record_def split: if_splits)
  have "recs st x = Some r" "credentials_valid now r" using authenticate_Some [OF assms(1) v(1)] by auto
  then show ?thesis using recs_own [OF assms(1)] v(2) by auto
next
  case (Some p)
  then have v: "authenticate_preview now x st = Some p" "ac_preview cfg = None" by (auto split: if_splits)
  then have "p = r" "preview" "entry = ''/web'' @ route" using assms(2) by (auto simp: named_record_def)
  then show ?thesis using authenticate_preview_Some [OF assms(1) v(1)] v(2) by (auto simp: startswith_def)
qed

lemma identified:
  assumes "tokens_ok st" "identify_workspace_token cfg env (rq_path q) now st = Inr (r, scoped, entry, preview)"
  shows "recs st (tk_token r) = Some r \<and> url_names cfg q now r preview \<and> (preview \<longrightarrow> startswith entry ''/web'') \<and>
    token_scope_root env r = Inr scoped"
proof -
  from assms(2) obtain route where "named_record cfg (url_token cfg q) route now st = Inr (Some r, entry, preview)"
      "token_scope_root env r = Inr scoped"
    by (auto simp: identify_workspace_token_def Let_def url_token_def split: if_splits option.splits)
  with named_record_Some [OF assms(1)] show ?thesis unfolding url_names_def by blast
qed

definition bearer_of :: "http_request \<Rightarrow> string \<Rightarrow> bool" where
  "bearer_of q key \<longleftrightarrow> (\<exists>scheme. rq_authorization q = [scheme @ '' '' @ key] \<and> str_lower scheme = ''bearer'')"

lemma partition_on_join: "partition_on c s = (a, True, b) \<Longrightarrow> s = a @ [c] @ b"
proof -
  assume h: "partition_on c s = (a, True, b)"
  then have "dropWhile (\<lambda>x. x \<noteq> c) s \<noteq> []" by (auto simp: partition_on_def)
  then obtain y ys where d: "dropWhile (\<lambda>x. x \<noteq> c) s = y # ys" by (cases "dropWhile (\<lambda>x. x \<noteq> c) s") auto
  then have "y = c" using hd_dropWhile [of "\<lambda>x. x \<noteq> c" s] by simp
  then show ?thesis using h d takeWhile_dropWhile_id [of "\<lambda>x. x \<noteq> c" s] by (auto simp: partition_on_def)
qed

lemma bearer_verified:
  assumes ok: "tokens_ok st" and r: "recs st (tk_token r) = Some r" and v: "verify_bearer_control q r now st = Inr True"
  shows "bearer_of q (tk_control r) \<and> credentials_valid now r"
proof -
  obtain x where x: "rq_authorization q = [x]"
    using v by (cases "rq_authorization q"; cases "tl (rq_authorization q)") (simp_all add: verify_bearer_control_def)
  obtain scheme sep key where p: "partition_on (CHR '' '') x = (scheme, sep, key)" by (cases "partition_on (CHR '' '') x") auto
  have q: "sep" "str_lower scheme = ''bearer''" and a: "bound_control key r now st = Inr True"
    using v unfolding verify_bearer_control_def x p list.case prod.case by (simp_all split: if_splits)
  from a obtain c where c: "authenticate_control now key st = Inr (Some c)" "tk_token c = tk_token r"
    by (auto simp: bound_control_def compare_digest_def split: option.splits if_splits)
  note k = authenticate_control_Some [OF ok c(1)]
  have "c = r" using k r unfolding c(2) by simp
  then have "tk_control r = key" "credentials_valid now r" using k by blast+
  with q partition_on_join [of "CHR '' ''" x scheme key] p x show ?thesis by (simp add: bearer_of_def)
qed

lemma startswith_not_empty: "startswith e ''/web'' \<Longrightarrow> e \<noteq> [] \<and> e \<noteq> ''/''"
  by (auto simp: startswith_def)

text \<open>The ways through the workspace entrance.\<close>

lemma workspace_entrance_cases:
  assumes "workspace_entrance cfg env q now clock st = (Inr a, st')"
  obtains r scoped entry preview control where
      "identify_workspace_token cfg env (rq_path q) now st = Inr (r, scoped, entry, preview)"
      "verify_bearer_control q r now st = Inr control"
      "pr_record (au_principal a) = r" "pr_scope (au_principal a) = scoped"
      "pr_control (au_principal a) = control \<and> st' = st \<or>
       (entry = [] \<or> entry = ''/'') \<and> query_ends_with_signature (rq_query q) \<and>
         (\<exists>en. decode_signed_envelope cfg q r clock st = (Inr en, st'))"
proof -
  from assms obtain r scoped entry preview control where
    i: "identify_workspace_token cfg env (rq_path q) now st = Inr (r, scoped, entry, preview)"
    and v: "verify_bearer_control q r now st = Inr control"
    by (auto simp: workspace_entrance_def attempt_Inr)
  show ?thesis
  proof (rule that [OF i v])
    show "pr_record (au_principal a) = r" "pr_scope (au_principal a) = scoped"
      "pr_control (au_principal a) = control \<and> st' = st \<or>
       (entry = [] \<or> entry = ''/'') \<and> query_ends_with_signature (rq_query q) \<and>
         (\<exists>en. decode_signed_envelope cfg q r clock st = (Inr en, st'))"
      using assms i v unfolding workspace_entrance_def attempt_Inr
      by (auto simp: Let_def attempt_Inr split: if_splits prod.splits sum.splits)
  qed
qed

text \<open>What a request shows at each entrance.\<close>

definition on_preview_host :: "auth_config \<Rightarrow> http_request \<Rightarrow> instant \<Rightarrow> token_rec \<Rightarrow> bool" where
  "on_preview_host cfg q now r \<longleftrightarrow>
     is_dedicated_preview_request cfg q = Inr True \<and> ac_unquote cfg (split_on (CHR ''/'') (rq_path q) ! 1) = tk_preview r \<and> token_valid now r"

definition shows_control_token :: "auth_config \<Rightarrow> http_request \<Rightarrow> clock_reads \<Rightarrow> token_rec \<Rightarrow> bool" where
  "shows_control_token cfg q ck r \<longleftrightarrow>
     (\<exists>preview. url_names cfg q (ck_now ck) r preview) \<and> credentials_valid (ck_now ck) r \<and>
     (bearer_of q (tk_control r) \<or> (\<exists>pairs. signed_with cfg q (tk_control r) (ck_unix ck) pairs))"

definition shows_access_token :: "auth_config \<Rightarrow> http_request \<Rightarrow> clock_reads \<Rightarrow> oauth_store \<Rightarrow> token_rec \<Rightarrow> bool" where
  "shows_access_token cfg q ck st r \<longleftrightarrow>
     (\<exists>conn \<in> set (connections st). \<exists>c \<in> set (credentials st). \<exists>g \<in> set (grants st). \<exists>access.
        startswith (rq_path q) ''/connect/'' \<and> split_on (CHR ''/'') (rq_path q) ! 2 = cn_id conn \<and>
        cn_app conn = tk_app r \<and> cn_workspace conn = tk_prefix r \<and>
        bearer_of q access \<and> cr_hash c = digest (ac_oauth cfg) access \<and> cr_kind c = Access \<and> ck_first ck < cr_expires c \<and>
        gr_id g = cr_grant c \<and> gr_connection g = cn_id conn \<and> \<not> gr_revoked g \<and> ck_second ck < gr_expires g)"

definition shows_static_secret :: "auth_config \<Rightarrow> http_request \<Rightarrow> clock_reads \<Rightarrow> static_store \<Rightarrow> token_rec \<Rightarrow> bool" where
  "shows_static_secret cfg q ck st r \<longleftrightarrow>
     (\<exists>conn \<in> set st. \<exists>secret.
        startswith (rq_path q) ''/mcp-connect/'' \<and> split_on (CHR ''/'') (rq_path q) ! 2 = sm_id conn \<and>
        sm_app conn = tk_app r \<and> sm_workspace conn = tk_prefix r \<and> ck_first ck < sm_expires conn \<and>
        bearer_of q secret \<and> digest (ac_oauth cfg) secret = digest (ac_oauth cfg) (sm_secret conn))"

lemma connection_path_Inr: "connection_path entrance p = Inr (cid, route) \<Longrightarrow> split_on (CHR ''/'') p ! 2 = cid"
  by (auto simp: connection_path_def Let_def split: if_splits option.splits)

lemma connection_bearer_Inr: "connection_bearer q = Inr x \<Longrightarrow> bearer_of q x"
proof -
  assume h: "connection_bearer q = Inr x"
  then obtain v where v: "rq_authorization q = [v]"
    by (cases "rq_authorization q"; cases "tl (rq_authorization q)") (simp_all add: connection_bearer_def)
  obtain scheme sep key where p: "partition_on (CHR '' '') v = (scheme, sep, key)" by (cases "partition_on (CHR '' '') v") auto
  have q: "str_lower scheme = ''bearer''" "length key = 43" "key = x"
    using h unfolding connection_bearer_def v list.case p prod.case by (auto split: if_splits)
  have "sep"
  proof (rule ccontr)
    assume "\<not> sep"
    then have "CHR '' '' \<notin> set v" using p by (simp add: partition_on_def)
    then have "dropWhile (\<lambda>c. c \<noteq> CHR '' '') v = []" unfolding dropWhile_eq_Nil_conv by metis
    then have "snd (snd (partition_on (CHR '' '') v)) = []" by (simp only: partition_on_def snd_conv drop_Nil)
    with p have "key = []" by simp
    with q(2) show False by simp
  qed
  with q partition_on_join [of "CHR '' ''" v scheme key] p v show ?thesis by (simp add: bearer_of_def)
qed

lemma linked_record_Inr:
  assumes "tokens_ok st" "linked_record app ws now st = Inr r"
  shows "recs st (tk_token r) = Some r \<and> tk_app r = app \<and> tk_prefix r = ws \<and> token_valid now r"
proof -
  have g: "get_by_app_id app st = Some r" "token_valid now r" "tk_prefix r = ws"
    using assms(2) by (auto simp: linked_record_def split: option.splits if_splits)
  from g(1) have "r \<in> snd ` set (ts_records st)" "tk_app r = app"
    unfolding get_by_app_id_def by (auto dest: find_Some_mem)
  with credential_owner [OF assms(1)] g show ?thesis by blast
qed

lemma answered_Inr [simp]: "answered v = Inr x \<longleftrightarrow> v = Inr x"
  by (cases v) (simp_all add: answered_def)

definition known_principal :: "token_env \<Rightarrow> instant \<Rightarrow> token_store \<Rightarrow> principal \<Rightarrow> bool" where
  "known_principal env now st pr \<longleftrightarrow> recs st (tk_token (pr_record pr)) = Some (pr_record pr) \<and> token_valid now (pr_record pr) \<and>
     token_scope_root env (pr_record pr) = Inr (pr_scope pr)"

lemma oauth_entered:
  assumes ok: "tokens_ok (gw_tokens gw)" and path: "startswith (rq_path q) ''/connect/''"
    and e: "oauth_authenticated_route cfg env q ck gw = (Inr a, gw')"
  shows "known_principal env (ck_now ck) (gw_tokens gw) (au_principal a) \<and>
    shows_access_token cfg q ck (gw_oauth gw) (pr_record (au_principal a)) \<and> pr_control (au_principal a)"
proof -
  from e obtain cid route pr where p: "connection_path ''connect'' (rq_path q) = Inr (cid, route)"
      "oauth_principal cfg env q cid ck gw = Inr pr" "au_principal a = pr"
    unfolding oauth_authenticated_route_def attempt_Inr by (auto simp: entered_def attempt_Inr)
  from p(2) obtain conn r access x scoped where o: "the_connection cid (gw_oauth gw) = Inr conn"
      "linked_record (cn_app conn) (cn_workspace conn) (ck_now ck) (gw_tokens gw) = Inr r" "connection_bearer q = Inr access"
      "fst (oauth_authenticate (ac_oauth cfg) cid access (ck_first ck) (ck_second ck) (gw_oauth gw)) = Inr x"
      "token_scope_root env r = Inr scoped" "pr = connected r scoped ''oauth'' cid"
    unfolding oauth_principal_def andThen_eq_Inr by auto
  have conn: "conn \<in> set (connections (gw_oauth gw))" "cn_id conn = cid"
    using o(1) by (auto simp: the_connection_def dest: select_Some split: option.splits)
  have "\<exists>c \<in> set (credentials (gw_oauth gw)). \<exists>g \<in> set (grants (gw_oauth gw)). gr_id g = cr_grant c \<and>
      cr_hash c = digest (ac_oauth cfg) access \<and> cr_kind c = Access \<and> cr_expires c > ck_first ck \<and> gr_expires g > ck_second ck \<and>
      \<not> gr_revoked g \<and> gr_connection g = cid"
    using o(4) unfolding oauth_authenticate_def by (simp split: if_splits)
  with conn linked_record_Inr [OF ok o(2)] connection_bearer_Inr [OF o(3)] path connection_path_Inr [OF p(1)]
  have "shows_access_token cfg q ck (gw_oauth gw) r" unfolding shows_access_token_def by metis
  then show ?thesis using linked_record_Inr [OF ok o(2)] o(5,6) p(3) by (simp add: known_principal_def connected_def)
qed

lemma static_entered:
  assumes ok: "tokens_ok (gw_tokens gw)" and path: "startswith (rq_path q) ''/mcp-connect/''"
    and e: "static_mcp_authenticated_route cfg env q ck gw = (Inr a, gw')"
  shows "known_principal env (ck_now ck) (gw_tokens gw) (au_principal a) \<and>
    shows_static_secret cfg q ck (gw_static gw) (pr_record (au_principal a)) \<and> pr_control (au_principal a)"
proof -
  from e obtain cid route pr where p: "connection_path ''mcp-connect'' (rq_path q) = Inr (cid, route)"
      "static_principal cfg env q cid ck gw = Inr pr" "au_principal a = pr"
    unfolding static_mcp_authenticated_route_def attempt_Inr by (auto simp: entered_def attempt_Inr)
  from p(2) obtain secret conn r scoped where o: "connection_bearer q = Inr secret"
      "static_authenticate (ac_oauth cfg) cid secret (ck_first ck) (gw_static gw) = Inr conn"
      "linked_record (sm_app conn) (sm_workspace conn) (ck_now ck) (gw_tokens gw) = Inr r"
      "token_scope_root env r = Inr scoped" "pr = connected r scoped ''static_mcp'' cid"
    unfolding static_principal_def andThen_eq_Inr by auto
  from o(2) have conn: "conn \<in> set (gw_static gw)" "sm_id conn = cid" "ck_first ck < sm_expires conn"
      "digest (ac_oauth cfg) secret = digest (ac_oauth cfg) (sm_secret conn)"
    by (auto simp: static_authenticate_def static_connection_def dest: select_Some split: option.splits if_splits)
  with linked_record_Inr [OF ok o(3)] connection_bearer_Inr [OF o(1)] path connection_path_Inr [OF p(1)]
  have "shows_static_secret cfg q ck (gw_static gw) r" unfolding shows_static_secret_def by metis
  then show ?thesis using linked_record_Inr [OF ok o(3)] o(4,5) p(3) by (simp add: known_principal_def connected_def)
qed

lemma preview_entered:
  assumes ok: "tokens_ok st" and ded: "is_dedicated_preview_request cfg q = Inr True" and e: "preview_entrance cfg env q now st = Inr a"
  shows "known_principal env now st (au_principal a) \<and> on_preview_host cfg q now (pr_record (au_principal a)) \<and>
    \<not> pr_control (au_principal a)"
proof -
  from e obtain r scoped where r: "authenticate_preview now (ac_unquote cfg (split_on (CHR ''/'') (rq_path q) ! 1)) st = Some r"
      "token_scope_root env r = Inr scoped" "pr_record (au_principal a) = r" "pr_scope (au_principal a) = scoped" "\<not> pr_control (au_principal a)"
    unfolding preview_entrance_def Let_def by (auto simp: entered_def split: if_splits option.splits)
  with authenticate_preview_Some [OF ok r(1)] ded show ?thesis by (simp add: known_principal_def on_preview_host_def)
qed

lemma workspace_entered:
  assumes ok: "tokens_ok st" and e: "workspace_entrance cfg env q (ck_now ck) (ck_unix ck) st = (Inr a, st')"
  shows "known_principal env (ck_now ck) st (au_principal a) \<and> (\<exists>preview. url_names cfg q (ck_now ck) (pr_record (au_principal a)) preview) \<and>
    (pr_control (au_principal a) \<longrightarrow> shows_control_token cfg q ck (pr_record (au_principal a)))"
  using e
proof (cases rule: workspace_entrance_cases)
  case (1 r scoped entry preview control)
  note i = identified [OF ok 1(1)]
  have "credentials_valid (ck_now ck) r \<and>
      (bearer_of q (tk_control r) \<or> (\<exists>pairs. signed_with cfg q (tk_control r) (ck_unix ck) pairs))"
    if p: "pr_control (au_principal a)"
    using 1(5)
  proof
    assume "pr_control (au_principal a) = control \<and> st' = st"
    then show ?thesis using bearer_verified [OF ok _ ] 1(2) i p by auto
  next
    assume s: "(entry = [] \<or> entry = ''/'') \<and> query_ends_with_signature (rq_query q) \<and>
         (\<exists>en. decode_signed_envelope cfg q r (ck_unix ck) st = (Inr en, st'))"
    then have "\<not> preview" using i startswith_not_empty by blast
    then show ?thesis using s i by (auto simp: url_names_def elim: decoded_envelope)
  qed
  moreover have "token_valid (ck_now ck) r" using i by (auto simp: url_names_def credentials_valid_def split: if_splits)
  ultimately show ?thesis using i 1(3,4) by (auto simp: known_principal_def shows_control_token_def)
qed

text \<open>
  C15: Control authority takes a secret.  A request that is let in, by whichever entrance, acts for a
  valid record of the registry with that record's scope.  It has control authority only when it showed
  one of three secrets: at a workspace URL that names the record, the control token of this same record,
  as the one Bearer credential or as the key that signed its query, while the record's credentials are
  valid; at the address of an OAuth connection bound to the record's app and directory, an unexpired
  access token of an unrevoked grant of that connection; at the address of a static connection bound to
  them, the secret of that connection before it expires.  Without control authority it was named by its URL or
  by a preview token on the preview host, which never gives control authority.
\<close>

theorem control_needs_secret:
  assumes "reachable_tokens (gw_tokens gw)" and "authenticate_request cfg env q ck gw = (Inr a, gw')"
  shows "let r = pr_record (au_principal a) in
    recs (gw_tokens gw) (tk_token r) = Some r \<and> token_valid (ck_now ck) r \<and>
    token_scope_root env r = Inr (pr_scope (au_principal a)) \<and>
    (if pr_control (au_principal a)
     then shows_control_token cfg q ck r \<or> shows_access_token cfg q ck (gw_oauth gw) r \<or> shows_static_secret cfg q ck (gw_static gw) r
     else (\<exists>preview. url_names cfg q (ck_now ck) r preview) \<or> on_preview_host cfg q (ck_now ck) r)"
proof -
  have ok: "tokens_ok (gw_tokens gw)" by (rule reachable_tokens_ok [OF assms(1)])
  from assms(2) obtain ded where d: "is_dedicated_preview_request cfg q = Inr ded"
      and e: "(if ded then (preview_entrance cfg env q (ck_now ck) (gw_tokens gw), gw)
       else if startswith (rq_path q) ''/connect/'' then oauth_authenticated_route cfg env q ck gw
       else if startswith (rq_path q) ''/mcp-connect/'' then static_mcp_authenticated_route cfg env q ck gw
       else (case workspace_entrance cfg env q (ck_now ck) (ck_unix ck) (gw_tokens gw) of
               (v, st) \<Rightarrow> (v, gw\<lparr>gw_tokens := st\<rparr>))) = (Inr a, gw')"
    unfolding authenticate_request_def attempt_Inr by blast
  consider "ded" | "\<not> ded" "startswith (rq_path q) ''/connect/''"
    | "\<not> ded" "\<not> startswith (rq_path q) ''/connect/''" "startswith (rq_path q) ''/mcp-connect/''"
    | "\<not> ded" "\<not> startswith (rq_path q) ''/connect/''" "\<not> startswith (rq_path q) ''/mcp-connect/''" by blast
  then show ?thesis
  proof cases
    case 1
    then have "preview_entrance cfg env q (ck_now ck) (gw_tokens gw) = Inr a" "is_dedicated_preview_request cfg q = Inr True"
      using d e by auto
    from preview_entered [OF ok this(2,1)] show ?thesis by (simp add: known_principal_def Let_def)
  next
    case 2
    with e oauth_entered [OF ok, of q cfg env ck a gw'] show ?thesis
      by (simp add: known_principal_def Let_def)
  next
    case 3
    with e static_entered [OF ok, of q cfg env ck a gw'] show ?thesis
      by (simp add: known_principal_def Let_def)
  next
    case 4
    with e obtain st' where "workspace_entrance cfg env q (ck_now ck) (ck_unix ck) (gw_tokens gw) = (Inr a, st')"
      by (auto split: prod.splits)
    from workspace_entered [OF ok this] show ?thesis by (simp add: known_principal_def Let_def)
  qed
qed

section \<open>Used once\<close>

text \<open>Only \<open>consume_signed_nonce\<close> and a restart touch the nonces.\<close>

definition nonces_kept :: "token_store \<Rightarrow> token_store \<Rightarrow> bool" where
  "nonces_kept st st' \<longleftrightarrow> ts_nonces st' = ts_nonces st"

lemma nonces_kept_attempt: "(\<And>x. nonces_kept st (snd (f x st))) \<Longrightarrow> nonces_kept st (snd (attempt v f st))"
  by (cases v) (simp_all add: nonces_kept_def)

lemma nonces_kept_saved: "nonces_kept st st1 \<Longrightarrow> nonces_kept st undone \<Longrightarrow> nonces_kept st (snd (saved_or works v st1 undone))"
  by (cases rule: saved_or_cases [of works v st1 undone]) (simp_all add: nonces_kept_def)

lemma nonces_kept_tables:
  "nonces_kept st st" "nonces_kept st st' \<Longrightarrow> nonces_kept st (put_record r st')" "nonces_kept st st' \<Longrightarrow> nonces_kept st (drop_read x st')"
  "nonces_kept st st' \<Longrightarrow> nonces_kept st (drop_preview x st')" "nonces_kept st st' \<Longrightarrow> nonces_kept st (drop_control x st')"
  by (simp_all add: nonces_kept_def put_record_def drop_read_def drop_preview_def drop_control_def)

lemmas nonces_kept_intros = nonces_kept_attempt nonces_kept_saved nonces_kept_tables

lemma nonces_kept_replace: "nonces_kept st (snd (replace_credentials env dr cur expires works st))"
  unfolding replace_credentials_def by (intro nonces_kept_intros)

lemma nonces_kept_if_due: "nonces_kept st (snd (renew_credentials_if_due env dr x works now st))"
  unfolding renew_credentials_if_due_def by (intro nonces_kept_intros nonces_kept_replace)

lemma nonces_kept_rotation: "nonces_kept st (snd (credential_op k env dr x works now st))"
proof (cases k)
  case RotateRead
  then show ?thesis by (simp add: credential_op_def rotate_read_token_def) (intro nonces_kept_intros)
next
  case RotateControl
  then show ?thesis by (simp add: credential_op_def rotate_control_token_def) (intro nonces_kept_intros)
next
  case RotatePreview
  then show ?thesis by (simp add: credential_op_def rotate_preview_token_def) (intro nonces_kept_intros)
next
  case (Renew ttl)
  then show ?thesis by (simp add: credential_op_def renew_credentials_def) (intro nonces_kept_intros nonces_kept_replace)
qed (simp add: credential_op_def nonces_kept_if_due)

lemma token_step_nonces:
  assumes "\<And>i n now ttl. e \<noteq> TNonce i n now ttl" "\<And>env dr b works now. e \<noteq> TRestart env dr b works now"
  shows "ts_nonces (token_step e st) = ts_nonces st"
  unfolding nonces_kept_def [symmetric]
proof (cases e)
  case (TCreate env dr s layout works now)
  then show "nonces_kept st (token_step e st)" by (simp add: token_create_def) (intro nonces_kept_intros)
next
  case (TRotate k env dr x works now)
  then show "nonces_kept st (token_step e st)" by (simp add: nonces_kept_rotation)
next
  case (TRenewApp env dr app ws works now)
  then show "nonces_kept st (token_step e st)"
    by (cases rule: renew_app_cases [of env dr app ws works now st]) (simp_all add: nonces_kept_if_due nonces_kept_tables)
next
  case (TUpdate env x c layout works)
  then show "nonces_kept st (token_step e st)" unfolding TUpdate token_step.simps token_update_def by (intro nonces_kept_intros)
next
  case (TDelete x cleared works)
  then show "nonces_kept st (token_step e st)" by (simp add: token_delete_def Let_def) (intro nonces_kept_intros)
next
  case (TNonce i n now ttl)
  with assms show "nonces_kept st (token_step e st)" by blast
next
  case (TRestart env dr bootstrap works now)
  with assms show "nonces_kept st (token_step e st)" by blast
qed

text \<open>A nonce is remembered while no clock has reached its expiry.\<close>

lemma update_keeps_entry: "x \<in> set al \<Longrightarrow> fst x \<noteq> k \<Longrightarrow> x \<in> set (AList.update k v al)"
  by (induction al) auto

lemma consume_keeps:
  "((i, n), E) \<in> set (ts_nonces st) \<Longrightarrow> now < E \<Longrightarrow> ((i, n), E) \<in> set (ts_nonces (snd (consume_signed_nonce i' n' now ttl st)))"
  by (cases "(i', n') \<in> fst ` set (live_nonces now st)")
    (force simp: consume_signed_nonce_def live_nonces_def intro: update_keeps_entry)+

fun nonce_clock :: "token_event \<Rightarrow> int option" where
  "nonce_clock (TNonce i n now ttl) = Some now"
| "nonce_clock _ = None"

fun is_restart :: "token_event \<Rightarrow> bool" where
  "is_restart (TRestart env dr bootstrap works now) \<longleftrightarrow> True"
| "is_restart _ \<longleftrightarrow> False"

lemma nonces_remembered:
  "\<forall>e \<in> set es. \<not> is_restart e \<Longrightarrow> \<forall>e \<in> set es. \<forall>t. nonce_clock e = Some t \<longrightarrow> t < E \<Longrightarrow> ((i, n), E) \<in> set (ts_nonces st) \<Longrightarrow>
   ((i, n), E) \<in> set (ts_nonces (fold token_step es st))"
proof (induction es arbitrary: st)
  case (Cons e es)
  have "((i, n), E) \<in> set (ts_nonces (token_step e st))"
  proof (cases "nonce_clock e")
    case None
    then have "ts_nonces (token_step e st) = ts_nonces st" using Cons.prems(1) by (intro token_step_nonces) auto
    with Cons.prems show ?thesis by simp
  next
    case (Some t)
    then obtain i' n' ttl where "e = TNonce i' n' t ttl" by (cases e) auto
    then show ?thesis using consume_keeps Cons.prems by simp
  qed
  with Cons show ?case by simp
qed simp

lemma consume_stores:
  "consume_signed_nonce i n now ttl st = (True, st') \<Longrightarrow> ((i, n), now + ttl) \<in> set (ts_nonces st')"
proof -
  assume c: "consume_signed_nonce i n now ttl st = (True, st')"
  then have "ts_nonces st' = AList.update (i, n) (now + ttl) (live_nonces now st)" "(i, n) \<notin> fst ` set (live_nonces now st)"
    by (auto simp: consume_signed_nonce_def split: if_splits)
  then have "map_of (ts_nonces st') (i, n) = Some (now + ttl)" by (simp add: update_conv)
  then show ?thesis by (rule map_of_SomeD)
qed

lemma consume_refused:
  "consume_signed_nonce i n now ttl st = (True, st') \<Longrightarrow> ((i, n), E) \<in> set (ts_nonces st) \<Longrightarrow> E \<le> now"
  by (force simp: consume_signed_nonce_def live_nonces_def split: if_splits)

text \<open>The signed requests that were let in, and the app they acted for.\<close>

definition let_in :: "auth_config \<Rightarrow> http_request \<Rightarrow> string \<Rightarrow> int \<Rightarrow> token_store \<Rightarrow> token_store \<Rightarrow> bool" where
  "let_in cfg q identity clock st st' \<longleftrightarrow>
     (\<exists>r en. decode_signed_envelope cfg q r clock st = (Inr en, st') \<and> identity_of r = identity)"

text \<open>
  C16: A signed request works once within one run of the server.  After it was let in, the same signed
  query is refused for the same app at every moment but one, whatever operations on the registry and
  whatever other signed requests come in between, as long as the server is not restarted and no reading of
  the clock in between is later than the last one: the one moment is the last second of its five minutes,
  when its nonce is forgotten and its timestamp not yet too old.
\<close>

theorem signed_request_once:
  assumes "let_in cfg q identity t1 st st1" and "let_in cfg q' identity t2 (fold token_step es st1) st2"
    and "rq_query q' = rq_query q" and "\<forall>e \<in> set es. \<not> is_restart e"
    and "\<forall>e \<in> set es. \<forall>t. nonce_clock e = Some t \<longrightarrow> t \<le> t2"
  shows "\<exists>pairs. parse_qsl_strict cfg (rq_query q) = Some pairs \<and> t2 = timestamp_of pairs + 300 \<and> t1 < t2"
proof -
  from assms(1) obtain r en where d: "decode_signed_envelope cfg q r t1 st = (Inr en, st1)" "identity_of r = identity"
    unfolding let_in_def by blast
  from assms(2) obtain r' en' where d': "decode_signed_envelope cfg q' r' t2 (fold token_step es st1) = (Inr en', st2)" "identity_of r' = identity"
    unfolding let_in_def by blast
  from d(1) obtain pairs where s: "signed_with cfg q (tk_control r) t1 pairs"
      and c: "consume_signed_nonce (identity_of r) (nonce_of pairs) t1 (max 1 (timestamp_of pairs + 300 - t1)) st = (True, st1)"
    by (rule decoded_envelope)
  from d'(1) obtain pairs' where s': "signed_with cfg q' (tk_control r') t2 pairs'"
      and c': "consume_signed_nonce (identity_of r') (nonce_of pairs') t2 (max 1 (timestamp_of pairs' + 300 - t2)) (fold token_step es st1) = (True, st2)"
    by (rule decoded_envelope)
  have p: "pairs' = pairs" using s s' assms(3) by (simp add: signed_with_def)
  define E where "E = t1 + max 1 (timestamp_of pairs + 300 - t1)"
  have entry: "((identity, nonce_of pairs), E) \<in> set (ts_nonces st1)" using consume_stores [OF c] d(2) by (simp add: E_def)
  have "E \<le> t2"
  proof (rule ccontr)
    assume "\<not> E \<le> t2"
    then have "\<forall>e \<in> set es. \<forall>t. nonce_clock e = Some t \<longrightarrow> t < E" using assms(5) by fastforce
    from consume_refused [OF c'] nonces_remembered [OF assms(4) this entry] d'(2) p \<open>\<not> E \<le> t2\<close> show False by simp
  qed
  moreover have "t2 \<le> timestamp_of pairs + 300" using s' unfolding p signed_with_def by linarith
  ultimately have "t2 = timestamp_of pairs + 300 \<and> t1 < t2" by (simp add: E_def max_def split: if_splits)
  with s show ?thesis by (auto simp: signed_with_def)
qed

section \<open>A small configuration for the witnesses\<close>

text \<open>Percent-decoding that leaves its input alone, and an HMAC that repeats the first letter of its message.\<close>

definition demo_auth :: auth_config where
  "demo_auth = \<lparr>ac_preview = None, ac_public = Some (''https'', Some ''kapsel''), ac_host = (\<lambda>h. Some (Some h)),
     ac_oauth = \<lparr>digest = (\<lambda>s. s), challenge = (\<lambda>s. s), urlsplit = (\<lambda>_. None)\<rparr>,
     ac_max_body = 100, ac_unquote = (\<lambda>s. s), ac_strict = Some, ac_lenient = (\<lambda>s. s),
     ac_hmac = (\<lambda>k m. replicate 43 (hd m)), ac_sha256 = (\<lambda>b. b)\<rparr>"

definition demo_signed :: http_request where
  "demo_signed = \<lparr>rq_method = ''GET'', rq_path = ''/w/r1'',
     rq_query = ''req=plans&timestamp=1000&nonce=abcdEF12&http_method=POST&signature='' @ replicate 43 (CHR ''r''),
     rq_host = [''kapsel''], rq_authorization = [], rq_transfer = [], rq_lengths = [], rq_body = []\<rparr>"

definition demo_clock :: clock_reads where
  "demo_clock = \<lparr>ck_now = 5, ck_unix = 900, ck_first = 900, ck_second = 900, ck_third = 900, ck_fourth = 900\<rparr>"

definition demo_static :: mcp_connection where
  "demo_static = \<lparr>sm_id = replicate 32 (CHR ''c''), sm_app = ''0123456789abcdef'', sm_workspace = ''ws'', sm_comment = ''mine'', sm_created = 0,
     sm_used = None, sm_secret = ''ksm-'' @ replicate 39 (CHR ''s''), sm_expires = 1000\<rparr>"

definition demo_gateway :: gateway where
  "demo_gateway = \<lparr>gw_tokens = demo_tokens, gw_oauth = empty_oauth, gw_static = [demo_static]\<rparr>"

definition demo_first :: "authenticated result \<times> gateway" where
  "demo_first = authenticate_request demo_auth demo_token_env demo_signed demo_clock demo_gateway"

lemma demo_gateway_reachable: "reachable_tokens (gw_tokens demo_gateway)"
  by (simp add: demo_gateway_def demo_reachable)

theorem control_needs_secret_witness:
  "\<exists>a gw'. demo_first = (Inr a, gw') \<and> pr_control (au_principal a) \<and> tk_token (pr_record (au_principal a)) = ''r1'' \<and>
     (\<exists>pairs. signed_with demo_auth demo_signed ''ks-c1'' 900 pairs)"
proof -
  have f: "\<not> isl (fst demo_first)" "pr_control (au_principal (projr (fst demo_first)))"
    "pr_record (au_principal (projr (fst demo_first))) = demo_record" by code_simp+
  then obtain a gw' where a: "demo_first = (Inr a, gw')" "pr_control (au_principal a)" "pr_record (au_principal a) = demo_record"
    by (cases demo_first; cases "fst demo_first") (simp, metis fst_conv sum.sel(2))
  have n: "\<not> startswith (rq_path demo_signed) ''/connect/''" "\<not> startswith (rq_path demo_signed) ''/mcp-connect/''" by code_simp+
  from control_needs_secret [OF demo_gateway_reachable a(1) [unfolded demo_first_def]] a(2,3) n
  have "bearer_of demo_signed ''ks-c1'' \<or> (\<exists>pairs. signed_with demo_auth demo_signed ''ks-c1'' 900 pairs)"
    by (simp add: Let_def demo_record_def shows_access_token_def shows_static_secret_def shows_control_token_def demo_clock_def)
  with a show ?thesis by (auto simp: bearer_of_def demo_signed_def demo_record_def)
qed

text \<open>The other way in: the secret of a static connection, without any token of the record.\<close>

lemma static_connection_controls:
  "pr_control (au_principal (projr (fst (authenticate_request demo_auth demo_token_env
     (demo_signed\<lparr>rq_path := ''/mcp-connect/'' @ replicate 32 (CHR ''c'') @ ''/mcp'',
        rq_authorization := [''Bearer ksm-'' @ replicate 39 (CHR ''s'')]\<rparr>) demo_clock demo_gateway))))"
  by code_simp

definition demo_let_in :: "int \<Rightarrow> token_store \<Rightarrow> envelope result \<times> token_store" where
  "demo_let_in clock st = decode_signed_envelope demo_auth demo_signed demo_record clock st"

text \<open>The remaining moment is real: a request first let in at 900 is let in again at 1300, the last second.\<close>

lemma signed_request_twice:
  "\<not> isl (fst (demo_let_in 900 demo_tokens))" "\<not> isl (fst (demo_let_in 1300 (snd (demo_let_in 900 demo_tokens))))"
  "fst (demo_let_in 1299 (snd (demo_let_in 900 demo_tokens))) =
     Inl (ApiError 409 ''signed_envelope_replay'' ''nonce has already been used within the acceptance window'')"
  by code_simp+

lemma demo_let_in_ok: "\<not> isl (fst (demo_let_in t st)) \<Longrightarrow> let_in demo_auth demo_signed ''0123456789abcdef'' t st (snd (demo_let_in t st))"
proof -
  assume "\<not> isl (fst (demo_let_in t st))"
  then obtain en where "demo_let_in t st = (Inr en, snd (demo_let_in t st))" by (cases "demo_let_in t st"; cases "fst (demo_let_in t st)") auto
  moreover have "identity_of demo_record = ''0123456789abcdef''" by code_simp
  ultimately show ?thesis unfolding let_in_def demo_let_in_def by metis
qed

theorem signed_request_once_witness:
  "\<exists>pairs. parse_qsl_strict demo_auth (rq_query demo_signed) = Some pairs \<and> 1300 = timestamp_of pairs + 300 \<and> (900::int) < 1300"
  using signed_request_once [where es = "[]", unfolded fold_simps, OF demo_let_in_ok [OF signed_request_twice(1)]
      demo_let_in_ok [OF signed_request_twice(2)]] by simp

text \<open>A restart forgets the nonces: the same request is let in again 50 seconds later.\<close>

lemma signed_request_after_restart:
  "\<not> isl (fst (demo_let_in 950 (token_step (TRestart demo_token_env demo_draws [] True 50) (snd (demo_let_in 900 demo_tokens)))))"
  by code_simp

text \<open>
  Two errors are answered as failures of the server: a URL token that is not ASCII, and a length given in
  superscript digits.
\<close>

lemma non_ascii_token_error:
  "identify_workspace_token demo_auth demo_token_env (''/w/'' @ [CHR 0xE9]) 5 demo_tokens = Inl TypeError"
  by code_simp

lemma superscript_length_error:
  "request_content_length (demo_signed\<lparr>rq_lengths := [[CHR 0xB2]]\<rparr>) = Inl (ValueError ''invalid literal for int() with base 10'')"
  by code_simp

end
