(* ===== verification/Text_Edits.thy ===== *)
theory Text_Edits
  imports Kapsel_Prelude "HOL-Library.Product_Lexorder"
begin

text \<open>
  The text edits of a file mutation: the functions from \<open>_line_starts\<close> to \<open>_apply_text_insertion\<close> in
  \<open>openkapsel/files/mutation.py\<close>.  An edit names a window of the text, by lines or by texts that occur
  once, and replaces or extends the exact matches in it, whose number the client has to know.

  An argument that is missing is \<open>PNone\<close>.  The errors carry their status and code; the dictionaries of
  details and the item number in their messages are left out.
\<close>

section \<open>Python's searches\<close>

text \<open>\<open>s.find(sub, start)\<close>, with \<open>None\<close> for -1.\<close>

definition str_find :: "string \<Rightarrow> string \<Rightarrow> nat \<Rightarrow> nat option" where
  "str_find s sub start = List.find (\<lambda>k. startswith (drop k s) sub) [start..<Suc (length s)]"

text \<open>
  The matches of a text that is not empty, from left to right without overlaps; the second number is how
  many characters of the last match are still to be skipped.
\<close>

fun matches_from :: "string \<Rightarrow> nat \<Rightarrow> nat \<Rightarrow> string \<Rightarrow> nat list" where
  "matches_from sub i skip [] = []"
| "matches_from sub i (Suc k) (c # s) = matches_from sub (Suc i) k s"
| "matches_from sub i 0 (c # s) =
     (if startswith (c # s) sub then i # matches_from sub (Suc i) (length sub - 1) s
      else matches_from sub (Suc i) 0 s)"

definition str_count :: "string \<Rightarrow> string \<Rightarrow> nat" where
  "str_count s sub = length (matches_from sub 0 0 s)"

definition slice :: "string \<Rightarrow> nat \<Rightarrow> nat \<Rightarrow> string" where
  "slice s a b = take (b - a) (drop a s)"

section \<open>Lines\<close>

text \<open>The ends of the matches of \<open>\r\n|\r|\n\<close>.\<close>

fun line_ends :: "nat \<Rightarrow> string \<Rightarrow> nat list" where
  "line_ends i [] = []"
| "line_ends i (c # s) =
     (if c = CHR 0x0D then
        (case s of
           [] \<Rightarrow> [Suc i]
         | d # s' \<Rightarrow> if d = CHR 0x0A then Suc (Suc i) # line_ends (Suc (Suc i)) s' else Suc i # line_ends (Suc i) s)
      else if c = CHR 0x0A then Suc i # line_ends (Suc i) s
      else line_ends (Suc i) s)"

definition line_starts :: "string \<Rightarrow> nat list" where
  "line_starts s = 0 # line_ends 0 s"

definition line_index :: "string \<Rightarrow> nat list \<Rightarrow> pyval \<Rightarrow> nat result" where
  "line_index field starts line =
     (case line of
        PInt i \<Rightarrow>
          if i < 0 then Inl (ApiError 400 ''invalid_line_range'' (field @ '' must be a non-negative integer''))
          else if i \<ge> int (length starts) then Inl (ApiError 400 ''invalid_line_range'' (field @ '' is outside the file''))
          else Inr (nat i)
      | _ \<Rightarrow> Inl (ApiError 400 ''invalid_line_range'' (field @ '' must be a non-negative integer'')))"

definition line_start_offset :: "nat list \<Rightarrow> pyval \<Rightarrow> (nat \<times> nat) result" where
  "line_start_offset starts line =
     andThen (line_index ''start_line'' starts line) (\<lambda>i. Inr (starts ! i, i))"

definition line_end_offset :: "string \<Rightarrow> nat list \<Rightarrow> pyval \<Rightarrow> (nat \<times> nat) result" where
  "line_end_offset s starts line =
     andThen (line_index ''end_line'' starts line) (\<lambda>i.
       Inr (if Suc i < length starts then starts ! Suc i else length s, i))"

section \<open>Windows\<close>

definition unique_text_marker :: "string \<Rightarrow> pyval \<Rightarrow> string \<Rightarrow> (nat \<times> nat) result" where
  "unique_text_marker s marker field =
     (case marker of
        PStr m \<Rightarrow>
          if m = [] then Inl (ApiError 400 ''invalid_text_marker'' (field @ '' must be a non-empty string''))
          else (case str_find s m 0 of
                  None \<Rightarrow> Inl (ApiError 409 ''text_marker_not_unique'' (field @ '' must occur exactly once in the full file; found 0 matches''))
                | Some first \<Rightarrow>
                    if str_find s m (Suc first) \<noteq> None
                    then Inl (ApiError 409 ''text_marker_not_unique'' (field @ '' must occur exactly once in the full file; found multiple matches''))
                    else Inr (first, first + length m))
      | _ \<Rightarrow> Inl (ApiError 400 ''invalid_text_marker'' (field @ '' must be a non-empty string'')))"

text \<open>The four selectors of a window: \<open>start_line\<close>, \<open>end_line\<close>, \<open>start_text\<close> and \<open>end_text\<close>.\<close>

record window =
  wn_start_line :: pyval
  wn_end_line :: pyval
  wn_start_text :: pyval
  wn_end_text :: pyval

definition window_start :: "string \<Rightarrow> window \<Rightarrow> (nat \<times> nat option) result" where
  "window_start s w =
     (if wn_start_text w \<noteq> PNone
      then andThen (unique_text_marker s (wn_start_text w) ''start_text'') (\<lambda>(first, _). Inr (first, None))
      else andThen (line_start_offset (line_starts s) (if wn_start_line w = PNone then PInt 0 else wn_start_line w))
             (\<lambda>(offset, i). Inr (offset, Some i)))"

definition window_end :: "string \<Rightarrow> window \<Rightarrow> (nat \<times> nat option) result" where
  "window_end s w =
     (if wn_end_text w \<noteq> PNone
      then andThen (unique_text_marker s (wn_end_text w) ''end_text'') (\<lambda>(_, end). Inr (end, None))
      else andThen (line_end_offset s (line_starts s)
                      (if wn_end_line w = PNone then PInt (int (length (line_starts s)) - 1) else wn_end_line w))
             (\<lambda>(offset, i). Inr (offset, Some i)))"

definition text_window :: "string \<Rightarrow> window \<Rightarrow> (nat \<times> nat) result" where
  "text_window s w =
     (if wn_start_text w \<noteq> PNone \<and> wn_start_line w \<noteq> PNone
      then Inl (ApiError 400 ''text_range_selector_conflict'' ''cannot specify both start_line and start_text'')
      else if wn_end_text w \<noteq> PNone \<and> wn_end_line w \<noteq> PNone
      then Inl (ApiError 400 ''text_range_selector_conflict'' ''cannot specify both end_line and end_text'')
      else andThen (window_start s w) (\<lambda>(a, first_line).
           andThen (window_end s w) (\<lambda>(b, last_line).
             if (case (first_line, last_line) of (Some i, Some j) \<Rightarrow> j < i | _ \<Rightarrow> False)
             then Inl (ApiError 400 ''invalid_line_range'' ''end_line must not be before start_line'')
             else if a > b then Inl (ApiError 400 ''invalid_text_range'' ''resolved text range starts after it ends'')
             else Inr (a, b))))"

section \<open>Replacements\<close>

definition expected_match_count :: "pyval \<Rightarrow> nat result" where
  "expected_match_count v =
     (case v of
        PInt n \<Rightarrow> if n < 1 then Inl (ApiError 400 ''invalid_request'' ''expected_count must be a positive integer'') else Inr (nat n)
      | _ \<Rightarrow> Inl (ApiError 400 ''invalid_request'' ''expected_count must be a positive integer''))"

text \<open>A replacement that was read: old text, new text, expected and actual number of matches.\<close>

type_synonym parsed_edit = "string \<times> string \<times> nat \<times> nat"

definition parse_replacement :: "string \<Rightarrow> pyval \<Rightarrow> parsed_edit result" where
  "parse_replacement selected v =
     (case v of
        PDict d \<Rightarrow>
          (case dict_get d ''old'' of
             PStr old \<Rightarrow>
               if old = [] then Inl (ApiError 400 ''invalid_request'' ''replacement old must be a non-empty string'')
               else (case dict_get d ''new'' of
                       PStr new \<Rightarrow> andThen (expected_match_count (dict_get_default d ''expected_count'' (PInt 1)))
                         (\<lambda>n. Inr (old, new, n, str_count selected old))
                     | _ \<Rightarrow> Inl (ApiError 400 ''invalid_request'' ''replacement new must be a string''))
           | _ \<Rightarrow> Inl (ApiError 400 ''invalid_request'' ''replacement old must be a non-empty string''))
      | _ \<Rightarrow> Inl (ApiError 400 ''invalid_request'' ''replacements must be objects''))"

fun parse_replacements :: "string \<Rightarrow> pyval list \<Rightarrow> parsed_edit list result" where
  "parse_replacements selected [] = Inr []"
| "parse_replacements selected (v # vs) =
     andThen (parse_replacement selected v) (\<lambda>p. andThen (parse_replacements selected vs) (\<lambda>ps. Inr (p # ps)))"

definition MISMATCH :: pyerr where
  "MISMATCH = ApiError 409 ''match_count_mismatch'' ''the number of exact matches is not the expected one''"

text \<open>The loop that finds as many matches as were counted.\<close>

fun find_matches :: "nat \<Rightarrow> string \<Rightarrow> string \<Rightarrow> nat \<Rightarrow> nat list" where
  "find_matches 0 s sub cursor = []"
| "find_matches (Suc n) s sub cursor =
     (case str_find s sub cursor of None \<Rightarrow> [] | Some k \<Rightarrow> k # find_matches n s sub (k + length sub))"

text \<open>A source range with its replacement text and the number of the replacement.\<close>

type_synonym span = "nat \<times> nat \<times> string \<times> nat"

definition edit_spans :: "string \<Rightarrow> nat \<Rightarrow> nat \<times> parsed_edit \<Rightarrow> span list" where
  "edit_spans selected a e =
     (case e of (index, old, new, _, actual) \<Rightarrow>
        map (\<lambda>k. (a + k, a + k + length old, new, index)) (find_matches actual selected old 0))"

definition span_key :: "span \<Rightarrow> nat \<times> nat \<times> nat" where
  "span_key sp = (case sp of (start, stop, new, index) \<Rightarrow> (start, stop, index))"

fun spans_overlap :: "span list \<Rightarrow> bool" where
  "spans_overlap (p # q # rest) = (fst q < fst (snd p) \<or> spans_overlap (q # rest))"
| "spans_overlap _ = False"

fun splice_spans :: "string \<Rightarrow> nat \<Rightarrow> span list \<Rightarrow> string" where
  "splice_spans s cursor [] = drop cursor s"
| "splice_spans s cursor ((start, stop, new, index) # rest) = slice s cursor start @ new @ splice_spans s stop rest"

definition edit_text :: "string \<Rightarrow> nat \<Rightarrow> nat \<Rightarrow> parsed_edit list \<Rightarrow> (string \<times> nat) result" where
  "edit_text s a b ps =
     (if list_ex (\<lambda>(_, _, expected, actual). actual \<noteq> expected) ps then Inl MISMATCH
      else
        let spans = sort_key span_key (concat (map (edit_spans (slice s a b) a) (enumerate 0 ps)))
        in if spans_overlap spans
           then Inl (ApiError 400 ''overlapping_replacements'' ''replacement source ranges must not overlap'')
           else Inr (splice_spans s 0 spans, sum_list (map (\<lambda>(_, _, _, actual). actual) ps)))"

definition apply_text_replacements :: "string \<Rightarrow> pyval \<Rightarrow> window \<Rightarrow> (string \<times> nat) result" where
  "apply_text_replacements s replacements w =
     (case replacements of
        PList (v # vs) \<Rightarrow>
          andThen (text_window s w) (\<lambda>(a, b).
          andThen (parse_replacements (slice s a b) (v # vs)) (edit_text s a b))
      | _ \<Rightarrow> Inl (ApiError 400 ''invalid_request'' ''replacements must be a non-empty array''))"

section \<open>Insertions\<close>

fun insert_at :: "string \<Rightarrow> string \<Rightarrow> nat \<Rightarrow> nat list \<Rightarrow> string" where
  "insert_at s content cursor [] = drop cursor s"
| "insert_at s content cursor (p # ps) = slice s cursor p @ content @ insert_at s content p ps"

definition item_window :: "(string \<times> pyval) list \<Rightarrow> window" where
  "item_window item = \<lparr>wn_start_line = dict_get item ''start_line'', wn_end_line = dict_get item ''end_line'',
     wn_start_text = dict_get item ''start_text'', wn_end_text = dict_get item ''end_text''\<rparr>"

definition insert_matches :: "string \<Rightarrow> nat \<Rightarrow> nat \<Rightarrow> string \<Rightarrow> string \<Rightarrow> nat \<Rightarrow> bool \<Rightarrow> (string \<times> nat) result" where
  "insert_matches s a b m content expected after =
     (let selected = slice s a b; actual = str_count selected m in
        if actual \<noteq> expected then Inl MISMATCH
        else Inr (insert_at s content 0
               (map (\<lambda>k. if after then a + k + length m else a + k) (find_matches actual selected m 0)), actual))"

definition apply_text_insertion :: "string \<Rightarrow> (string \<times> pyval) list \<Rightarrow> bool \<Rightarrow> (string \<times> nat) result" where
  "apply_text_insertion s item after =
     (case dict_get item ''match'' of
        PStr m \<Rightarrow>
          if m = [] then Inl (ApiError 400 ''invalid_request'' ''match must be a non-empty string'')
          else (case dict_get item ''content'' of
                  PStr content \<Rightarrow>
                    andThen (expected_match_count (dict_get_default item ''expected_count'' (PInt 1))) (\<lambda>expected.
                    andThen (text_window s (item_window item)) (\<lambda>(a, b). insert_matches s a b m content expected after))
                | _ \<Rightarrow> Inl (ApiError 400 ''invalid_request'' ''content must be a string''))
      | _ \<Rightarrow> Inl (ApiError 400 ''invalid_request'' ''match must be a non-empty string''))"

end
