(* ===== verification/Text_Edit_Properties.thy ===== *)
theory Text_Edit_Properties
  imports Text_Edits "HOL-Library.Multiset"
begin

text \<open>
  What the text edits do, against plain definitions: replacing is Python's \<open>str.replace\<close> in the window,
  several replacements happen at once, an insertion is a replacement that keeps the match, and a
  window of lines is made of whole lines.
\<close>

section \<open>Matches\<close>

lemma starts_iff: "startswith s p \<longleftrightarrow> (\<exists>t. s = p @ t)"
  by (metis append_eq_conv_conj append_take_drop_id startswith_def)

lemma matches_from_skip: "matches_from sub i k s = matches_from sub (i + k) 0 (drop k s)"
proof (induction k arbitrary: i s)
  case (Suc k)
  show ?case
  proof (cases s)
    case (Cons c s')
    with Suc [of "Suc i" s'] show ?thesis by simp
  qed simp
qed simp

abbreviation matches_at :: "string \<Rightarrow> string \<Rightarrow> nat \<Rightarrow> nat list" where
  "matches_at sub s i \<equiv> matches_from sub i 0 (drop i s)"

lemma matches_at_end: "length s \<le> i \<Longrightarrow> matches_at sub s i = []"
  by simp

lemma matches_at_match:
  assumes "sub \<noteq> []" "i < length s" "startswith (drop i s) sub"
  shows "matches_at sub s i = i # matches_at sub s (i + length sub)"
proof -
  have "matches_at sub s i = i # matches_from sub (Suc i) (length sub - 1) (drop (Suc i) s)"
    using assms Cons_nth_drop_Suc [of i s] by (cases "drop i s") (simp_all add: drop_Suc drop_tl)
  moreover have "matches_from sub (Suc i) (length sub - 1) (drop (Suc i) s) = matches_at sub s (i + length sub)"
    using assms(1) by (subst matches_from_skip) (cases sub, simp_all add: add.commute)
  ultimately show ?thesis by simp
qed

lemma matches_at_other:
  assumes "i < length s" "\<not> startswith (drop i s) sub"
  shows "matches_at sub s i = matches_at sub s (Suc i)"
  using assms Cons_nth_drop_Suc [of i s] by (cases "drop i s") (simp_all add: drop_Suc drop_tl)

text \<open>Induction along the matches.\<close>

lemma scan_induct [consumes 1, case_names at_end match other]:
  assumes "sub \<noteq> []" and "\<And>i. length s \<le> i \<Longrightarrow> P i"
    and "\<And>i. i < length s \<Longrightarrow> startswith (drop i s) sub \<Longrightarrow> i + length sub \<le> length s \<Longrightarrow> P (i + length sub) \<Longrightarrow> P i"
    and "\<And>i. i < length s \<Longrightarrow> \<not> startswith (drop i s) sub \<Longrightarrow> P (Suc i) \<Longrightarrow> P i"
  shows "P i"
proof (induction "length s - i" arbitrary: i rule: less_induct)
  case less
  show ?case
  proof (cases "i < length s")
    case True
    show ?thesis
    proof (cases "startswith (drop i s) sub")
      case match: True
      then have "length sub \<le> length (drop i s)" by (metis starts_iff length_append le_add1)
      then have "i + length sub \<le> length s" using True by simp
      moreover have "P (i + length sub)" using assms(1) True by (intro less) (cases sub, simp_all)
      ultimately show ?thesis by (intro assms(3) [OF True match])
    next
      case False
      moreover have "P (Suc i)" using True by (intro less) simp
      ultimately show ?thesis by (intro assms(4) [OF True])
    qed
  qed (simp add: assms(2))
qed

lemma str_find_match: "startswith (drop i s) sub \<Longrightarrow> i \<le> length s \<Longrightarrow> str_find s sub i = Some i"
  unfolding str_find_def by (subst upt_conv_Cons) simp_all

lemma str_find_other: "\<not> startswith (drop i s) sub \<Longrightarrow> i \<le> length s \<Longrightarrow> str_find s sub i = str_find s sub (Suc i)"
  unfolding str_find_def by (subst upt_conv_Cons) simp_all

text \<open>The loop finds the matches that \<open>count\<close> has counted.\<close>

lemma find_matches_count:
  assumes "sub \<noteq> []"
  shows "find_matches (length (matches_at sub s i)) s sub i = matches_at sub s i"
  using assms
proof (induction i rule: scan_induct [where s = s])
  case (match i)
  then show ?case using assms by (simp add: matches_at_match str_find_match)
next
  case (other i)
  have "find_matches n s sub i = find_matches n s sub (Suc i)" for n
    using other by (cases n) (simp_all add: str_find_other)
  with other show ?case by (simp add: matches_at_other)
qed simp

lemma find_all: "sub \<noteq> [] \<Longrightarrow> find_matches (str_count s sub) s sub 0 = matches_from sub 0 0 s"
  using find_matches_count [where i = 0 and s = s] by (simp add: str_count_def)

lemma matches_bounds:
  assumes "sub \<noteq> []"
  shows "sorted_wrt (\<lambda>j k. j + length sub \<le> k) (matches_at sub s i) \<and>
     (\<forall>k \<in> set (matches_at sub s i). i \<le> k \<and> k + length sub \<le> length s \<and> startswith (drop k s) sub)"
  using assms
proof (induction i rule: scan_induct [where s = s])
  case (match i)
  then show ?case using assms by (fastforce simp: matches_at_match)
next
  case (other i)
  then show ?case by (fastforce simp: matches_at_other)
qed simp

section \<open>Splicing\<close>

lemma slice_append: "a \<le> b \<Longrightarrow> b \<le> c \<Longrightarrow> slice s a c = slice s a b @ slice s b c"
  using take_add [of "b - a" "c - b" "drop a s"] by (simp add: slice_def)

lemma drop_slice: "a \<le> b \<Longrightarrow> drop a s = slice s a b @ drop b s"
  unfolding slice_def by (metis append_take_drop_id drop_drop le_add_diff_inverse2)

lemma slice_0: "slice s 0 b = take b s"
  by (simp add: slice_def)

lemma slice_same [simp]: "slice s a a = []"
  by (simp add: slice_def)

lemma splice_from: "a \<le> b \<Longrightarrow> \<forall>sp \<in> set sps. b \<le> fst sp \<Longrightarrow> splice_spans s a sps = slice s a b @ splice_spans s b sps"
proof (cases sps)
  case Nil
  then show "a \<le> b \<Longrightarrow> ?thesis" by (simp add: drop_slice [symmetric])
next
  case (Cons sp rest)
  obtain x y new i where sp: "sp = (x, y, new, i)" by (cases sp) auto
  show "a \<le> b \<Longrightarrow> \<forall>sp \<in> set sps. b \<le> fst sp \<Longrightarrow> ?thesis"
    unfolding Cons sp by (simp add: slice_append [of a b x])
qed

lemma insert_from: "a \<le> b \<Longrightarrow> \<forall>p \<in> set ps. b \<le> p \<Longrightarrow> insert_at s c a ps = slice s a b @ insert_at s c b ps"
proof (cases ps)
  case Nil
  then show "a \<le> b \<Longrightarrow> ?thesis" by (simp add: drop_slice [symmetric])
next
  case (Cons p rest)
  show "a \<le> b \<Longrightarrow> \<forall>p \<in> set ps. b \<le> p \<Longrightarrow> ?thesis"
    unfolding Cons by (simp add: slice_append [of a b p])
qed

text \<open>Python's \<open>str.replace\<close>, for a text that is not empty.\<close>

fun replaced_from :: "string \<Rightarrow> string \<Rightarrow> nat \<Rightarrow> string \<Rightarrow> string" where
  "replaced_from old new skip [] = []"
| "replaced_from old new (Suc k) (c # s) = replaced_from old new k s"
| "replaced_from old new 0 (c # s) =
     (if startswith (c # s) old then new @ replaced_from old new (length old - 1) s else c # replaced_from old new 0 s)"

definition str_replace :: "string \<Rightarrow> string \<Rightarrow> string \<Rightarrow> string" where
  "str_replace s old new = replaced_from old new 0 s"

lemma replaced_skip: "replaced_from old new k s = replaced_from old new 0 (drop k s)"
proof (induction k arbitrary: s)
  case (Suc k)
  then show ?case by (cases s) auto
qed simp

lemma replaced_match:
  assumes "old \<noteq> []" "startswith s old"
  shows "replaced_from old new 0 s = new @ replaced_from old new 0 (drop (length old) s)"
proof -
  obtain c s' where s: "s = c # s'" using assms by (cases s) (auto simp: starts_iff)
  then have "replaced_from old new 0 s = new @ replaced_from old new (length old - 1) s'" using assms by simp
  also have "replaced_from old new (length old - 1) s' = replaced_from old new 0 (drop (length old) s)"
    using assms(1) s by (subst replaced_skip) (cases old, simp_all)
  finally show ?thesis .
qed

definition spans_at :: "nat \<Rightarrow> nat \<Rightarrow> string \<Rightarrow> nat \<Rightarrow> nat list \<Rightarrow> span list" where
  "spans_at a n new index ks = map (\<lambda>k. (a + k, a + k + n, new, index)) ks"

lemma spans_at_start: "old \<noteq> [] \<Longrightarrow> \<forall>sp \<in> set (spans_at a (length old) new index (matches_at old s i)). a + i \<le> fst sp"
  using matches_bounds [where s = s and i = i] by (auto simp: spans_at_def)

lemma slice_char: "a \<le> b \<Longrightarrow> b \<le> length s \<Longrightarrow> i < length (slice s a b) \<Longrightarrow> slice s (a + i) (a + Suc i) = [slice s a b ! i]"
  by (simp add: slice_def take_Suc_conv_app_nth)

lemma splice_replaces:
  assumes "old \<noteq> []" "a \<le> b" "b \<le> length s" "i \<le> length (slice s a b)"
  shows "splice_spans s (a + i) (spans_at a (length old) new index (matches_at old (slice s a b) i)) =
    str_replace (drop i (slice s a b)) old new @ drop b s"
  using assms(1,4)
proof (induction i rule: scan_induct [where s = "slice s a b"])
  case (at_end i)
  then have "a + i = b" using assms(2,3) by (simp add: slice_def)
  with at_end show ?case by (simp add: spans_at_def str_replace_def slice_def assms(2))
next
  case (match i)
  have "str_replace (drop i (slice s a b)) old new = new @ str_replace (drop (i + length old) (slice s a b)) old new"
    unfolding str_replace_def using replaced_match [OF assms(1) match(2)] by (simp add: add.commute)
  with match assms(1) show ?case by (simp add: matches_at_match spans_at_def add.assoc)
next
  case (other i)
  have "drop i (slice s a b) = slice s a b ! i # drop (Suc i) (slice s a b)" using other(1) by (simp add: Cons_nth_drop_Suc)
  then have "str_replace (drop i (slice s a b)) old new = slice s a b ! i # str_replace (drop (Suc i) (slice s a b)) old new"
    unfolding str_replace_def using other(2) by simp
  moreover have "splice_spans s (a + i) (spans_at a (length old) new index (matches_at old (slice s a b) (Suc i))) =
      slice s (a + i) (a + Suc i) @ splice_spans s (a + Suc i) (spans_at a (length old) new index (matches_at old (slice s a b) (Suc i)))"
    using spans_at_start [OF assms(1), of a new index "Suc i" "slice s a b"] by (intro splice_from) simp_all
  ultimately show ?case
    using other slice_char [OF assms(2,3) other(1)] by (simp add: matches_at_other)
qed

lemma splice_window:
  assumes "old \<noteq> []" "a \<le> b" "b \<le> length s"
  shows "splice_spans s 0 (spans_at a (length old) new index (matches_from old 0 0 (slice s a b))) =
    take a s @ str_replace (slice s a b) old new @ drop b s"
proof -
  have "splice_spans s 0 (spans_at a (length old) new index (matches_at old (slice s a b) 0)) =
      slice s 0 a @ splice_spans s a (spans_at a (length old) new index (matches_at old (slice s a b) 0))"
    using spans_at_start [OF assms(1), of a new index 0 "slice s a b"] by (intro splice_from) simp_all
  with splice_replaces [OF assms, of 0] show ?thesis by (simp add: slice_0)
qed

section \<open>Windows lie in the text\<close>

lemma line_ends_single:
  assumes "c = CHR 0x0D \<or> c = CHR 0x0A" "\<not> (c = CHR 0x0D \<and> take 1 t = [CHR 0x0A])"
  shows "line_ends i (c # t) = Suc i # line_ends (Suc i) t"
proof (cases t)
  case (Cons d u)
  then show ?thesis using assms by (simp only: line_ends.simps(2) [of i c t] Cons list.case) auto
qed (use assms in auto)

lemma line_break_cases:
  obtains (empty) "s = []" | (crlf) t where "s = CHR 0x0D # CHR 0x0A # t"
  | (single) c t where "s = c # t" "c = CHR 0x0D \<or> c = CHR 0x0A" "\<And>i. line_ends i s = Suc i # line_ends (Suc i) t"
      "c = CHR 0x0D \<Longrightarrow> take 1 t \<noteq> [CHR 0x0A]"
  | (char) c t where "s = c # t" "c \<noteq> CHR 0x0D" "c \<noteq> CHR 0x0A"
proof (cases s)
  case (Cons c t)
  show ?thesis
  proof (cases "c = CHR 0x0D \<and> take 1 t = [CHR 0x0A]")
    case True
    then show ?thesis using crlf Cons by (cases t) auto
  next
    case False
    show ?thesis
    proof (cases "c = CHR 0x0D \<or> c = CHR 0x0A")
      case True
      show ?thesis by (rule single [OF Cons True]) (use line_ends_single [OF True False] False Cons in simp_all)
    next
      case False
      then show ?thesis by (intro char [OF Cons]) simp_all
    qed
  qed
qed (simp add: empty)

lemma line_ends_bounds: "e \<in> set (line_ends i s) \<Longrightarrow> i < e \<and> e \<le> i + length s"
proof (induction "length s" arbitrary: i s rule: less_induct)
  case less
  show ?case
  proof (cases rule: line_break_cases [of s])
    case empty
    with less.prems show ?thesis by simp
  next
    case (crlf t)
    then show ?thesis using less.prems less.hyps [of t "Suc (Suc i)"] by auto
  next
    case (single c t)
    then show ?thesis using less.prems less.hyps [of t "Suc i"] by auto
  next
    case (char c t)
    then show ?thesis using less.prems less.hyps [of t "Suc i"] by auto
  qed
qed

lemma line_starts_bounds: "e \<in> set (line_starts s) \<Longrightarrow> e \<le> length s"
  using line_ends_bounds [of e 0 s] by (auto simp: line_starts_def)

lemma line_index_Inr: "line_index f starts v = Inr i \<longleftrightarrow> v = PInt (int i) \<and> i < length starts"
  by (auto simp: line_index_def split: pyval.splits)

lemma str_find_Some: "str_find s sub i = Some k \<Longrightarrow> startswith (drop k s) sub \<and> i \<le> k \<and> k \<le> length s"
proof -
  have "List.find P xs = Some k \<Longrightarrow> P k \<and> k \<in> set xs" for P and xs :: "nat list"
    by (induction xs) (auto split: if_splits)
  then show "str_find s sub i = Some k \<Longrightarrow> ?thesis" unfolding str_find_def by force
qed

lemma unique_marker_bounds: "unique_text_marker s v f = Inr (a, b) \<Longrightarrow> a \<le> b \<and> b \<le> length s"
  by (fastforce simp: unique_text_marker_def starts_iff dest!: str_find_Some dest: arg_cong [where f = length]
      split: pyval.splits if_splits option.splits)

lemma text_window_bounds:
  assumes "text_window s w = Inr (a, b)"
  shows "a \<le> b \<and> b \<le> length s"
proof -
  from assms obtain x y where "window_start s w = Inr x" and y: "window_end s w = Inr y" and
    r: "(if (case (snd x, snd y) of (Some i, Some j) \<Rightarrow> j < i | _ \<Rightarrow> False)
       then Inl (ApiError 400 ''invalid_line_range'' ''end_line must not be before start_line'')
       else if fst x > fst y then Inl (ApiError 400 ''invalid_text_range'' ''resolved text range starts after it ends'')
       else Inr (fst x, fst y)) = Inr (a, b)"
    unfolding text_window_def andThen_eq_Inr case_prod_beta by (auto split: if_splits)
  then obtain l where e: "window_end s w = Inr (b, l)" and "a \<le> b"
    by (cases y) (simp split: if_splits)
  moreover have "b \<le> length s"
    using e line_starts_bounds [of _ s] unique_marker_bounds
    by (fastforce simp: window_end_def line_end_offset_def line_index_Inr split: if_splits)
  ultimately show ?thesis by blast
qed

section \<open>One replacement\<close>

lemma edit_spans_matches:
  "old \<noteq> [] \<Longrightarrow> edit_spans sel a (index, old, new, n, str_count sel old) = spans_at a (length old) new index (matches_from old 0 0 sel)"
  by (simp add: edit_spans_def spans_at_def find_all)

lemma not_overlapping: "sorted_wrt (\<lambda>p q. fst (snd p) \<le> fst q) sps \<Longrightarrow> \<not> spans_overlap sps"
  by (induction sps rule: spans_overlap.induct) auto

lemma spans_at_apart:
  assumes "old \<noteq> []"
  shows "sorted_wrt (\<lambda>p q. fst (snd p) \<le> fst q) (spans_at a (length old) new index (matches_from old 0 0 sel))"
  using matches_bounds [OF assms, of 0 sel] by (simp add: spans_at_def sorted_wrt_map)

lemma spans_sorted:
  assumes "sorted_wrt (\<lambda>p q. fst (snd p) \<le> fst q) sps" "\<forall>sp \<in> set sps. fst sp < fst (snd sp)"
  shows "sort_key span_key sps = sps"
proof (rule sort_key_id_if_sorted)
  have "sorted_wrt (\<lambda>p q. span_key p \<le> span_key q) sps"
  proof (rule sorted_wrt_mono_rel [OF _ assms(1)])
    fix p q :: span
    assume "p \<in> set sps" "q \<in> set sps" "fst (snd p) \<le> fst q"
    then have "fst p < fst q" using assms(2) by fastforce
    then show "span_key p \<le> span_key q" by (auto simp: span_key_def less_eq_prod_def split: prod.splits)
  qed
  then show "sorted (map span_key sps)" by (simp add: sorted_map)
qed

lemma edit_one:
  assumes "old \<noteq> []" "a \<le> b" "b \<le> length s"
  shows "edit_text s a b [(old, new, n, str_count (slice s a b) old)] =
    (if str_count (slice s a b) old = n then Inr (take a s @ str_replace (slice s a b) old new @ drop b s, n) else Inl MISMATCH)"
proof -
  let ?sps = "spans_at a (length old) new 0 (matches_from old 0 0 (slice s a b))"
  have "\<forall>sp \<in> set ?sps. fst sp < fst (snd sp)" using assms(1) by (auto simp: spans_at_def)
  then have "sort_key span_key ?sps = ?sps" "\<not> spans_overlap ?sps"
    using spans_sorted not_overlapping spans_at_apart [OF assms(1)] by blast+
  then have "edit_text s a b [(old, new, m, m)] = Inr (take a s @ str_replace (slice s a b) old new @ drop b s, m)"
    if "m = str_count (slice s a b) old" for m
    using splice_window [OF assms] edit_spans_matches [OF assms(1), of "slice s a b" a 0 new m] that
    by (simp add: edit_text_def Let_def)
  then show ?thesis by (cases "str_count (slice s a b) old = n") (simp, simp add: edit_text_def)
qed

abbreviation replacement :: "string \<Rightarrow> string \<Rightarrow> nat \<Rightarrow> pyval" where
  "replacement old new n \<equiv> PDict [(''old'', PStr old), (''new'', PStr new), (''expected_count'', PInt (int n))]"

lemma parse_one:
  "old \<noteq> [] \<Longrightarrow> 0 < n \<Longrightarrow> parse_replacement sel (replacement old new n) = Inr (old, new, n, str_count sel old)"
  by (simp add: parse_replacement_def dict_get_def dict_get_default_def expected_match_count_def)

text \<open>
  C37: A replacement is \<open>str.replace\<close> in its window.  With the expected number of matches the old text is
  replaced exactly as Python's own method does, and everything outside the window is as it was; with any
  other number nothing is done.
\<close>

theorem replacement_in_window:
  assumes "text_window s w = Inr (a, b)" and "old \<noteq> []" and "0 < n"
  shows "apply_text_replacements s (PList [replacement old new n]) w =
    (if str_count (slice s a b) old = n then Inr (take a s @ str_replace (slice s a b) old new @ drop b s, n)
     else Inl MISMATCH)"
  using text_window_bounds [OF assms(1)] assms by (simp add: apply_text_replacements_def parse_one edit_one)

section \<open>Insertions\<close>

lemma insert_splice:
  assumes "m \<noteq> []" "\<forall>k \<in> set ks. cur \<le> a + k \<and> slice s (a + k) (a + k + length m) = m"
    "sorted_wrt (\<lambda>j k. j + length m \<le> k) ks"
  shows "insert_at s c cur (map (\<lambda>k. if after then a + k + length m else a + k) ks) =
    splice_spans s cur (spans_at a (length m) (if after then m @ c else c @ m) 0 ks)"
  using assms(2,3)
proof (induction ks arbitrary: cur)
  case (Cons k ks)
  let ?p = "a + k + length m"
  have IH: "insert_at s c ?p (map (\<lambda>k. if after then a + k + length m else a + k) ks) =
      splice_spans s ?p (spans_at a (length m) (if after then m @ c else c @ m) 0 ks)"
    using Cons.prems by (intro Cons.IH) auto
  have m: "slice s (a + k) ?p = m" and cur: "cur \<le> a + k" using Cons.prems by auto
  have later: "\<forall>p \<in> set (map (\<lambda>k. if after then a + k + length m else a + k) ks). ?p \<le> p" using Cons.prems by auto
  show ?case
  proof (cases after)
    case True
    have "slice s cur ?p = slice s cur (a + k) @ m" using slice_append [OF cur, of ?p s] m by simp
    then show ?thesis using True IH by (simp add: spans_at_def)
  next
    case False
    have "insert_at s c (a + k) (map (\<lambda>k. if after then a + k + length m else a + k) ks) =
        m @ insert_at s c ?p (map (\<lambda>k. if after then a + k + length m else a + k) ks)"
      using insert_from [OF _ later, of "a + k" s c] m by simp
    then show ?thesis using False IH by (simp add: spans_at_def)
  qed
qed (simp add: spans_at_def)

lemma slice_slice: "b \<le> length s \<Longrightarrow> k + n \<le> b - a \<Longrightarrow> slice s (a + k) (a + k + n) = take n (drop k (slice s a b))"
  by (simp add: slice_def drop_take min_def add.commute)

lemma insert_is_edit:
  assumes "m \<noteq> []" "a \<le> b" "b \<le> length s"
  shows "insert_matches s a b m c n after = edit_text s a b [(m, if after then m @ c else c @ m, n, str_count (slice s a b) m)]"
proof -
  let ?sel = "slice s a b" let ?new = "if after then m @ c else c @ m"
  let ?ks = "matches_from m 0 0 ?sel" let ?sps = "spans_at a (length m) ?new 0 ?ks"
  note b = matches_bounds [OF assms(1), of 0 ?sel]
  have "slice s (a + k) (a + k + length m) = m" if "k \<in> set ?ks" for k
  proof -
    have "k + length m \<le> length ?sel" "startswith (drop k ?sel) m" using b that by auto
    then show ?thesis using slice_slice [OF assms(3), of k "length m" a] assms(2,3) by (simp add: slice_def startswith_def)
  qed
  then have "insert_at s c 0 (map (\<lambda>k. if after then a + k + length m else a + k) ?ks) = splice_spans s 0 ?sps"
    using b by (intro insert_splice [OF assms(1)]) auto
  moreover have "\<forall>sp \<in> set ?sps. fst sp < fst (snd sp)" using assms(1) by (auto simp: spans_at_def)
  then have "sort_key span_key ?sps = ?sps" "\<not> spans_overlap ?sps"
    using spans_sorted not_overlapping spans_at_apart [OF assms(1)] by blast+
  ultimately have "Inr (insert_at s c 0 (map (\<lambda>k. if after then a + k + length m else a + k) (find_matches i ?sel m 0)), i) =
      edit_text s a b [(m, ?new, i, i)]" if "i = str_count ?sel m" for i
    using find_all [OF assms(1), of ?sel] edit_spans_matches [OF assms(1), of ?sel a 0 ?new i] that
    by (simp add: edit_text_def Let_def)
  then show ?thesis by (cases "str_count ?sel m = n") (simp add: insert_matches_def Let_def, simp add: insert_matches_def Let_def edit_text_def)
qed

text \<open>
  An insertion before or after a text is the replacement of that text by itself with the
  content in front of it or behind it.
\<close>

theorem insertion_is_replacement:
  assumes "m \<noteq> []" and "0 < n"
  shows "apply_text_insertion s ([(''match'', PStr m), (''content'', PStr c), (''expected_count'', PInt (int n))] @
      [(''start_line'', wn_start_line w), (''end_line'', wn_end_line w), (''start_text'', wn_start_text w), (''end_text'', wn_end_text w)]) after =
    apply_text_replacements s (PList [replacement m (if after then m @ c else c @ m) n]) w"
proof -
  obtain p q x y where w: "w = \<lparr>wn_start_line = p, wn_end_line = q, wn_start_text = x, wn_end_text = y\<rparr>" by (cases w)
  note defs = apply_text_insertion_def apply_text_replacements_def item_window_def dict_get_def dict_get_default_def
    expected_match_count_def parse_replacement_def
  show ?thesis
  proof (cases "text_window s w")
    case (Inl e)
    then show ?thesis using assms unfolding w by (simp add: defs)
  next
    case (Inr ab)
    obtain a b where ab: "ab = (a, b)" by (cases ab)
    from insert_is_edit [OF assms(1)] text_window_bounds [OF Inr [unfolded ab]] Inr ab assms show ?thesis
      unfolding w by (simp add: defs)
  qed
qed

section \<open>Several replacements at once\<close>

abbreviation apart :: "span list \<Rightarrow> bool" where
  "apart sps \<equiv> sorted_wrt (\<lambda>p q. fst (snd p) \<le> fst q) sps"

lemma apart_iff: "\<forall>sp \<in> set sps. fst sp < fst (snd sp) \<Longrightarrow> \<not> spans_overlap sps \<longleftrightarrow> apart sps"
proof (induction sps rule: spans_overlap.induct)
  case (1 p q rest)
  then show ?case by fastforce
qed auto

definition bare :: "span \<Rightarrow> nat \<times> nat \<times> string" where
  "bare sp = (case sp of (start, stop, new, index) \<Rightarrow> (start, stop, new))"

lemma splice_bare: "map bare xs = map bare ys \<Longrightarrow> splice_spans s cur xs = splice_spans s cur ys"
proof (induction xs arbitrary: ys cur)
  case (Cons x xs)
  then obtain y ys' where "ys = y # ys'" "bare x = bare y" "map bare xs = map bare ys'" by auto
  moreover obtain a b c i where "x = (a, b, c, i)" by (cases x)
  moreover from calculation obtain j where "y = (a, b, c, j)" by (cases y) (auto simp: bare_def)
  ultimately show ?case using Cons.IH [of ys' b] by simp
qed simp

lemma apart_bare: "map bare xs = map bare ys \<Longrightarrow> apart xs \<Longrightarrow> apart ys"
proof -
  have f: "fst (snd (bare p)) = fst (snd p) \<and> fst (bare p) = fst p" for p by (cases p) (simp add: bare_def)
  have "apart zs \<longleftrightarrow> sorted_wrt (\<lambda>p q. fst (snd p) \<le> fst q) (map bare zs)" for zs
    by (simp add: sorted_wrt_map f)
  then show "map bare xs = map bare ys \<Longrightarrow> apart xs \<Longrightarrow> apart ys" by simp
qed

text \<open>Lists that are strictly sorted by their first component are determined by their elements.\<close>

lemma strictly_sorted_unique:
  fixes xs ys :: "(nat \<times> 'a) list"
  shows "sorted_wrt (\<lambda>p q. fst p < fst q) xs \<Longrightarrow> sorted_wrt (\<lambda>p q. fst p < fst q) ys \<Longrightarrow> set xs = set ys \<Longrightarrow> xs = ys"
proof (induction xs arbitrary: ys)
  case (Cons x xs)
  then obtain y ys' where ys: "ys = y # ys'" by (cases ys) auto
  have "x = y"
  proof (rule ccontr)
    assume "x \<noteq> y"
    then have "x \<in> set ys'" "y \<in> set xs" using Cons.prems(3) ys by auto
    then have "fst y < fst x" "fst x < fst y" using Cons.prems(1,2) ys by auto
    then show False by simp
  qed
  moreover have "x \<notin> set xs" "y \<notin> set ys'" using Cons.prems(1,2) ys by auto
  ultimately have "set xs = set ys'" using Cons.prems(3) ys by (simp add: insert_ident)
  then show ?case using Cons ys \<open>x = y\<close> by simp
qed simp

lemma sorted_apart:
  assumes pos: "\<forall>sp \<in> set xs. fst sp < fst (snd sp)" and "apart (sort_key span_key xs)" and same: "mset (map bare ys) = mset (map bare xs)"
  shows "map bare (sort_key span_key ys) = map bare (sort_key span_key xs)"
proof (rule strictly_sorted_unique)
  let ?X = "sort_key span_key xs" and ?Y = "sort_key span_key ys"
  have f: "fst (bare p) = fst p" for p by (cases p) (simp add: bare_def)
  have X0: "sorted_wrt (\<lambda>p q. fst p < fst q) ?X"
    by (rule sorted_wrt_mono_rel [OF _ assms(2)]) (use pos in fastforce)
  show "sorted_wrt (\<lambda>p q. fst p < fst q) (map bare ?X)" using X0 by (simp add: sorted_wrt_map f)
  have "mset (map fst ys) = mset (map fst xs)"
    using arg_cong [OF same, of "image_mset fst"] by (simp add: f o_def flip: mset_map)
  then have m: "mset (map fst ?Y) = mset (map fst ?X)" by simp
  have "sorted (map span_key ?Y)" by simp
  then have "sorted (map fst ?Y)"
    by (simp add: sorted_map) (erule sorted_wrt_mono_rel [rotated], auto simp: span_key_def less_eq_prod_def split: prod.splits)
  moreover have "sorted_wrt (<) (map fst ?X)" using X0 by (simp add: sorted_wrt_map)
  then have "distinct (map fst ?X)" by (simp add: strict_sorted_iff)
  then have "distinct (map fst ?Y)" using mset_eq_imp_distinct_iff [OF m] by simp
  ultimately have "sorted_wrt (<) (map fst ?Y)" by (simp add: strict_sorted_iff)
  then show "sorted_wrt (\<lambda>p q. fst p < fst q) (map bare ?Y)" by (simp add: sorted_wrt_map f)
  show "set (map bare ?Y) = set (map bare ?X)" using mset_eq_setD [OF same] by simp
qed

lemma edit_span_pos:
  "\<forall>p \<in> set ps. fst p \<noteq> [] \<Longrightarrow> sp \<in> set (concat (map (edit_spans sel a) (enumerate i ps))) \<Longrightarrow> fst sp < fst (snd sp)"
proof -
  assume old: "\<forall>p \<in> set ps. fst p \<noteq> []" and "sp \<in> set (concat (map (edit_spans sel a) (enumerate i ps)))"
  then obtain e where e: "e \<in> set (enumerate i ps)" "sp \<in> set (edit_spans sel a e)" by auto
  from e(1) have "snd e \<in> snd ` set (enumerate i ps)" by blast
  then have "snd e \<in> set ps" by (metis map_snd_enumerate set_map)
  with old e(2) show "fst sp < fst (snd sp)" by (auto simp: edit_spans_def split: prod.splits)
qed

lemma edit_spans_bare:
  "map bare (concat (map (edit_spans sel a) (enumerate i ps))) = concat (map (\<lambda>p. map bare (edit_spans sel a (0, p))) ps)"
proof -
  have same: "map bare (edit_spans sel a (i, p)) = map bare (edit_spans sel a (0, p))" for i p
    by (cases p) (simp add: edit_spans_def bare_def)
  show ?thesis
  proof (induction ps arbitrary: i)
    case (Cons p ps)
    then show ?case using same [of i p] by simp
  qed simp
qed

lemma mset_concat_map: "mset xs = mset ys \<Longrightarrow> mset (concat (map f xs)) = mset (concat (map f ys))"
  by (simp add: mset_concat) (metis mset_map sum_mset_sum_list)

lemma edit_text_mset:
  assumes "mset ps' = mset ps" "\<forall>p \<in> set ps. fst p \<noteq> []" and e: "edit_text s a b ps = Inr r"
  shows "edit_text s a b ps' = Inr r"
proof -
  let ?x = "concat (map (edit_spans (slice s a b) a) (enumerate 0 ps))"
  let ?y = "concat (map (edit_spans (slice s a b) a) (enumerate 0 ps'))"
  have set: "set ps' = set ps" using mset_eq_setD [OF assms(1)] .
  have px: "\<forall>sp \<in> set ?x. fst sp < fst (snd sp)" and py: "\<forall>sp \<in> set ?y. fst sp < fst (snd sp)"
    using edit_span_pos [of ps] edit_span_pos [of ps'] assms(2) set by blast+
  have c: "list_ex (\<lambda>(_, _, expected, actual). actual \<noteq> expected) ps' = list_ex (\<lambda>(_, _, expected, actual). actual \<noteq> expected) ps"
    by (simp add: list_ex_iff set)
  have x: "\<not> spans_overlap (sort_key span_key ?x)" using e by (auto simp: edit_text_def Let_def split: if_splits)
  then have ax: "apart (sort_key span_key ?x)" using apart_iff [of "sort_key span_key ?x"] px by simp
  have "mset (map bare ?y) = mset (map bare ?x)"
    unfolding edit_spans_bare using assms(1) by (rule mset_concat_map)
  note m = sorted_apart [OF px ax this]
  have "\<not> spans_overlap (sort_key span_key ?y)"
    using apart_bare [OF m [symmetric] ax] apart_iff [of "sort_key span_key ?y"] py by simp
  moreover have "sum_list (map (\<lambda>(_, _, _, actual). actual) ps') = sum_list (map (\<lambda>(_, _, _, actual). actual) ps)"
    using assms(1) by (metis mset_map sum_mset_sum_list)
  ultimately show ?thesis using e x c splice_bare [OF m, of s 0] by (simp add: edit_text_def Let_def split: if_splits)
qed

lemma parse_replacements_mset:
  assumes "mset vs' = mset vs" "parse_replacements sel vs = Inr ps"
  obtains ps' where "parse_replacements sel vs' = Inr ps'" "mset ps' = mset ps"
proof -
  let ?f = "\<lambda>v. projr (parse_replacement sel v)"
  have ps: "ps = map ?f vs" "\<forall>v \<in> set vs. \<exists>p. parse_replacement sel v = Inr p"
    using assms(2) by (induction vs arbitrary: ps) auto
  have "\<forall>v \<in> set vs'. \<exists>p. parse_replacement sel v = Inr p" using ps(2) mset_eq_setD [OF assms(1)] by simp
  then have "parse_replacements sel vs' = Inr (map ?f vs')" by (induction vs') auto
  moreover have "mset (map ?f vs') = mset ps" using assms(1) ps(1) by simp
  ultimately show ?thesis by (rule that)
qed

lemma parsed_old: "parse_replacements sel vs = Inr ps \<Longrightarrow> \<forall>p \<in> set ps. fst p \<noteq> []"
proof (induction vs arbitrary: ps)
  case (Cons v vs)
  have "parse_replacement sel v = Inr p \<Longrightarrow> fst p \<noteq> []" for p
    by (auto simp: parse_replacement_def split: pyval.splits if_splits)
  with Cons show ?case by fastforce
qed simp

text \<open>
  C38: Several replacements happen at once.  They are all matched against the text as it was, so that
  the outcome does not depend on the order in which they are listed.
\<close>

theorem replacements_at_once:
  assumes "mset vs' = mset vs"
  shows "apply_text_replacements s (PList vs') w = Inr r \<longleftrightarrow> apply_text_replacements s (PList vs) w = Inr r"
proof -
  have "apply_text_replacements s (PList us') w = Inr r"
    if m: "mset us' = mset us" and r: "apply_text_replacements s (PList us) w = Inr r" for us us'
  proof -
    from r obtain a b ps where w: "text_window s w = Inr (a, b)" and ps: "parse_replacements (slice s a b) us = Inr ps"
        and e: "edit_text s a b ps = Inr r" and "us \<noteq> []"
      by (cases us) (auto simp: apply_text_replacements_def simp del: parse_replacements.simps)
    then have "us' \<noteq> []" using m by auto
    from parse_replacements_mset [OF m ps] obtain ps' where ps': "parse_replacements (slice s a b) us' = Inr ps'" "mset ps' = mset ps" .
    from edit_text_mset [OF ps'(2) parsed_old [OF ps] e] ps'(1) w \<open>us' \<noteq> []\<close> show ?thesis
      by (cases us') (auto simp: apply_text_replacements_def simp del: parse_replacements.simps)
  qed
  from this [OF assms] this [OF assms [symmetric]] show ?thesis by blast
qed

section \<open>Lines\<close>

text \<open>The lines of a text with their line breaks; the last one has none and may be empty.\<close>

fun text_lines :: "string \<Rightarrow> string list" where
  "text_lines [] = [[]]"
| "text_lines (c # s) =
     (if c = CHR 0x0D then
        (case s of
           [] \<Rightarrow> [[c], []]
         | d # s' \<Rightarrow> if d = CHR 0x0A then [c, d] # text_lines s' else [c] # text_lines s)
      else if c = CHR 0x0A then [c] # text_lines s
      else (c # hd (text_lines s)) # tl (text_lines s))"

lemma text_lines_not_Nil [simp]: "text_lines s \<noteq> []"
  by (cases s) (auto split: list.split)

lemma text_lines_single:
  assumes "c = CHR 0x0D \<or> c = CHR 0x0A" "c = CHR 0x0D \<Longrightarrow> take 1 t \<noteq> [CHR 0x0A]"
  shows "text_lines (c # t) = [c] # text_lines t"
  using assms by (cases t) (auto simp del: text_lines.simps(2) simp: text_lines.simps(2) [of c])

lemma map_from_one: "0 < n \<Longrightarrow> map f [1..<Suc n] = f 1 # map (\<lambda>k. f (Suc k)) [1..<n]"
  by (subst upt_conv_Cons) (simp_all add: map_Suc_upt [symmetric] del: upt_Suc map_Suc_upt)

lemma offsets_Cons:
  assumes "L \<noteq> []"
  shows "map (\<lambda>k. i + length (concat (take k (l # L)))) [1..<length (l # L)] =
    (i + length l) # map (\<lambda>k. i + length l + length (concat (take k L))) [1..<length L]"
proof -
  have "0 < length L" using assms by simp
  from map_from_one [OF this, of "\<lambda>k. i + length (concat (take k (l # L)))"] show ?thesis
    unfolding length_Cons by (simp add: add.assoc)
qed

lemma text_lines_offsets:
  "concat (text_lines s) = s \<and> line_ends i s = map (\<lambda>k. i + length (concat (take k (text_lines s)))) [1..<length (text_lines s)]"
proof (induction "length s" arbitrary: i s rule: less_induct)
  case less
  show ?case
  proof (cases rule: line_break_cases [of s])
    case empty
    then show ?thesis by simp
  next
    case (crlf t)
    then have l: "text_lines s = [CHR 0x0D, CHR 0x0A] # text_lines t" by simp
    from crlf less.hyps [of t "Suc (Suc i)"] show ?thesis
      unfolding l offsets_Cons [OF text_lines_not_Nil] by simp
  next
    case (single c t)
    then have l: "text_lines s = [c] # text_lines t" using text_lines_single by blast
    from single less.hyps [of t "Suc i"] show ?thesis
      unfolding l offsets_Cons [OF text_lines_not_Nil] single(3) by (simp del: line_ends.simps)
  next
    case (char c t)
    obtain w ws where t: "text_lines t = w # ws" by (cases "text_lines t") simp_all
    with char have l: "text_lines s = (c # w) # ws" by simp
    have "concat (take k (text_lines s)) = c # concat (take k (text_lines t))" if "1 \<le> k" for k
      using that by (cases k) (simp_all add: l t)
    then have "map (\<lambda>k. i + length (concat (take k (text_lines s)))) [1..<n] =
        map (\<lambda>k. Suc i + length (concat (take k (text_lines t)))) [1..<n]" for n
      by (intro map_cong) simp_all
    from this [of "length (text_lines t)"] have "map (\<lambda>k. i + length (concat (take k (text_lines s)))) [1..<length (text_lines s)] =
        map (\<lambda>k. Suc i + length (concat (take k (text_lines t)))) [1..<length (text_lines t)]"
      by (simp add: l t)
    with char less.hyps [of t "Suc i"] show ?thesis by (simp add: l t)
  qed
qed

lemma line_starts_lines:
  "length (line_starts s) = length (text_lines s)"
  "k < length (text_lines s) \<Longrightarrow> line_starts s ! k = length (concat (take k (text_lines s)))"
proof -
  have "line_starts s = map (\<lambda>k. length (concat (take k (text_lines s)))) [0..<length (text_lines s)]"
    using text_lines_offsets [of s 0] by (simp add: line_starts_def upt_conv_Cons)
  then show "length (line_starts s) = length (text_lines s)"
    "k < length (text_lines s) \<Longrightarrow> line_starts s ! k = length (concat (take k (text_lines s)))" by simp_all
qed

lemma slice_concat:
  "i \<le> j \<Longrightarrow> slice (concat ls) (length (concat (take i ls))) (length (concat (take j ls))) = concat (take (j - i) (drop i ls))"
proof -
  assume "i \<le> j"
  then have "take j ls = take i ls @ take (j - i) (drop i ls)" using take_add [of i "j - i" ls] by simp
  moreover have "concat ls = concat (take i ls) @ concat (take (j - i) (drop i ls)) @ concat (drop j ls)"
    using calculation by (metis append.assoc append_take_drop_id concat_append)
  ultimately show ?thesis by (simp add: slice_def)
qed

lemma slice_backwards: "j \<le> i \<Longrightarrow> slice s (length (concat (take i ls))) (length (concat (take j ls))) = []"
proof -
  assume "j \<le> i"
  then have "take i ls = take j ls @ take (i - j) (drop j ls)" using take_add [of j "i - j" ls] by simp
  then show ?thesis by (simp add: slice_def)
qed

text \<open>
  C39: A window of lines is exactly those lines.  A text is cut into lines at \<open>CR LF\<close>, \<open>CR\<close> or \<open>LF\<close> without
  losing a character, and the window from one line to another selects these lines and the ones between
  them with their line breaks; a number past the last line is refused.
\<close>

theorem line_window_exact:
  "concat (text_lines s) = s \<and>
   text_window s \<lparr>wn_start_line = PInt (int i), wn_end_line = PInt (int j), wn_start_text = PNone, wn_end_text = PNone\<rparr> =
     (let before = concat (take i (text_lines s)); selected = concat (take (Suc j - i) (drop i (text_lines s)))
      in if length (text_lines s) \<le> i then Inl (ApiError 400 ''invalid_line_range'' ''start_line is outside the file'')
         else if length (text_lines s) \<le> j then Inl (ApiError 400 ''invalid_line_range'' ''end_line is outside the file'')
         else if j < i then Inl (ApiError 400 ''invalid_line_range'' ''end_line must not be before start_line'')
         else Inr (length before, length before + length selected)) \<and>
   slice s (length (concat (take i (text_lines s)))) (length (concat (take (Suc j) (text_lines s)))) =
     concat (take (Suc j - i) (drop i (text_lines s)))"
proof -
  let ?L = "text_lines s"
  have c: "concat ?L = s" using text_lines_offsets by blast
  have last: "(if Suc j < length (line_starts s) then line_starts s ! Suc j else length s) = length (concat (take (Suc j) ?L))"
    if "j < length ?L"
    using that line_starts_lines(2) [of "Suc j" s] c by (cases "Suc j < length ?L") (simp_all add: line_starts_lines(1) del: take_Suc)
  have split: "length (concat (take (Suc j) ?L)) = length (concat (take i ?L)) + length (concat (take (Suc j - i) (drop i ?L)))" if "i \<le> j"
    using take_add [of i "Suc j - i" ?L] that by (simp add: Suc_diff_le)
  have w: "text_window s \<lparr>wn_start_line = PInt (int i), wn_end_line = PInt (int j), wn_start_text = PNone, wn_end_text = PNone\<rparr> =
     (if length ?L \<le> i then Inl (ApiError 400 ''invalid_line_range'' ''start_line is outside the file'')
      else if length ?L \<le> j then Inl (ApiError 400 ''invalid_line_range'' ''end_line is outside the file'')
      else if j < i then Inl (ApiError 400 ''invalid_line_range'' ''end_line must not be before start_line'')
      else Inr (length (concat (take i ?L)), length (concat (take (Suc j) ?L))))"
    using last split by (simp add: text_window_def window_start_def window_end_def line_start_offset_def line_end_offset_def
        line_index_def line_starts_lines)
  show ?thesis
  proof (intro conjI c)
    show "slice s (length (concat (take i ?L))) (length (concat (take (Suc j) ?L))) = concat (take (Suc j - i) (drop i ?L))"
      using slice_concat [of i "Suc j" ?L] slice_backwards [of "Suc j" i s ?L] unfolding c by (cases "i \<le> Suc j") simp_all
  qed (use split in \<open>simp add: w Let_def\<close>)
qed

section \<open>Witnesses\<close>

abbreviation whole_text :: window where
  "whole_text \<equiv> \<lparr>wn_start_line = PNone, wn_end_line = PNone, wn_start_text = PNone, wn_end_text = PNone\<rparr>"

theorem replacement_in_window_witness:
  "apply_text_replacements ''one two one'' (PList [replacement ''one'' ''1'' 2]) whole_text = Inr (''1 two 1'', 2)"
proof -
  have "text_window ''one two one'' whole_text = Inr (0, 11)" by code_simp
  from replacement_in_window [OF this, of "''one''" 2 "''1''"] show ?thesis
    by (simp, code_simp)
qed

theorem insertion_is_replacement_witness:
  "apply_text_insertion ''a-b'' [(''match'', PStr ''b''), (''content'', PStr ''x''), (''expected_count'', PInt 1),
      (''start_line'', PNone), (''end_line'', PNone), (''start_text'', PNone), (''end_text'', PNone)] False =
   apply_text_replacements ''a-b'' (PList [PDict [(''old'', PStr ''b''), (''new'', PStr ''xb''), (''expected_count'', PInt 1)]]) whole_text"
  using insertion_is_replacement [of "''b''" 1 "''a-b''" "''x''" whole_text False] by simp

theorem replacements_at_once_witness:
  "apply_text_replacements ''a b'' (PList [replacement ''b'' ''a'' 1, replacement ''a'' ''b'' 1]) whole_text = Inr (''b a'', 2) \<longleftrightarrow>
   apply_text_replacements ''a b'' (PList [replacement ''a'' ''b'' 1, replacement ''b'' ''a'' 1]) whole_text = Inr (''b a'', 2)"
  by (rule replacements_at_once) simp

end
