(* ===== verification/File_Tree.thy ===== *)
theory File_Tree
  imports Path_Access
begin

text \<open>
  The file system as the file operations see it: a tree of nodes, the system calls that change it, and
  \<open>SafePathAccess.rename\<close> of \<open>openkapsel/files/safe_paths.py\<close>.

  Every system call takes a turn: it works, it fails and changes nothing, or other programs change the tree before
  it.  The turns are data, so that a failure at any moment and any interleaving with other programs is a list
  of turns.  An entity tag is the hash of device, inode, size and modification time of a node; it is a field of
  the node here.
\<close>

datatype kind = Regular | Directory | Special

record node =
  nd_kind :: kind
  nd_etag :: string
  nd_data :: string
  nd_mode :: nat

type_synonym tree = "path \<Rightarrow> node option"

datatype turn = Works | Fails | Others "tree \<Rightarrow> tree"

text \<open>An entry of the recycle bin: where the item was, relative to the workspace, and the item.\<close>

record bin_entry =
  be_original :: path
  be_kind :: kind
  be_stored :: "tree option"

record disk =
  dk_tree :: tree
  dk_turns :: "turn list"
  dk_bin :: "(string \<times> bin_entry) list"

section \<open>Steps\<close>

definition then_do :: "('s, 'a) op \<Rightarrow> ('a \<Rightarrow> ('s, 'b) op) \<Rightarrow> ('s, 'b) op" where
  "then_do m f s = (case m s of (Inl e, s1) \<Rightarrow> (Inl e, s1) | (Inr x, s1) \<Rightarrow> f x s1)"

definition give :: "'a \<Rightarrow> ('s, 'a) op" where
  "give x s = (Inr x, s)"

definition fail_with :: "pyerr \<Rightarrow> ('s, 'a) op" where
  "fail_with e s = (Inl e, s)"

fun take_turn :: "turn list \<Rightarrow> tree \<Rightarrow> bool \<times> turn list \<times> tree" where
  "take_turn [] t = (True, [], t)"
| "take_turn (Works # ts) t = (True, ts, t)"
| "take_turn (Fails # ts) t = (False, ts, t)"
| "take_turn (Others f # ts) t = take_turn ts (f t)"

text \<open>A system call: when its turn is a failure it raises the error, otherwise it acts on the tree.\<close>

definition syscall :: "pyerr \<Rightarrow> (tree \<Rightarrow> ('a \<times> tree) result) \<Rightarrow> (disk, 'a) op" where
  "syscall e f d =
     (case take_turn (dk_turns d) (dk_tree d) of (works, ts, t) \<Rightarrow>
        let d1 = d\<lparr>dk_tree := t, dk_turns := ts\<rparr> in
        if \<not> works then (Inl e, d1)
        else case f t of Inl e' \<Rightarrow> (Inl e', d1) | Inr (x, t') \<Rightarrow> (Inr x, d1\<lparr>dk_tree := t'\<rparr>))"

section \<open>Calls\<close>

definition parent_of :: "path \<Rightarrow> path" where
  "parent_of p = butlast p"

definition is_directory :: "tree \<Rightarrow> path \<Rightarrow> bool" where
  "is_directory t p \<longleftrightarrow> (case t p of None \<Rightarrow> False | Some n \<Rightarrow> nd_kind n = Directory)"

text \<open>\<open>handler._file_stat\<close>.\<close>

definition NO_PATH :: pyerr where
  "NO_PATH = ApiError 404 ''path_not_found'' ''path does not exist''"

definition IO_ERROR :: pyerr where
  "IO_ERROR = ApiError 409 ''path_changed'' ''path changed while the operation was being authorized''"

definition file_stat :: "path \<Rightarrow> (disk, node) op" where
  "file_stat p = syscall IO_ERROR (\<lambda>t. case t p of None \<Rightarrow> Inl NO_PATH | Some n \<Rightarrow> Inr (n, t))"

text \<open>
  \<open>os.rename\<close>: it replaces a file by a file.  (That it may replace an empty directory by a directory is left
  out: this takes another program that creates the directory at this moment.)  On the mount of a storage
  provider the moved nodes may get other tags, which the relabelling does.
\<close>

definition moved :: "(node \<Rightarrow> node) \<Rightarrow> path \<Rightarrow> path \<Rightarrow> tree \<Rightarrow> tree" where
  "moved relabel src dst t =
     (\<lambda>p. if take (length dst) p = dst then map_option relabel (t (src @ drop (length dst) p))
          else if take (length src) p = src then None else t p)"

definition replaceable :: "node \<Rightarrow> node option \<Rightarrow> bool" where
  "replaceable n old =
     (case old of None \<Rightarrow> True | Some m \<Rightarrow> nd_kind n \<noteq> Directory \<and> nd_kind m \<noteq> Directory)"

definition os_rename :: "(node \<Rightarrow> node) \<Rightarrow> path \<Rightarrow> path \<Rightarrow> tree \<Rightarrow> (unit \<times> tree) result" where
  "os_rename relabel src dst t =
     (case t src of
        None \<Rightarrow> Inl OSError
      | Some n \<Rightarrow>
          if \<not> is_directory t (parent_of dst) \<or> \<not> replaceable n (t dst) \<or> take (length src) dst = src \<and> src \<noteq> dst then Inl OSError
          else Inr ((), if src = dst then t else moved relabel src dst t))"

text \<open>
  \<open>SafePathAccess.rename(source, destination, overwrite=False, create_parents=False)\<close>: it looks whether the
  destination is free, and then renames.
\<close>

definition safe_rename :: "(node \<Rightarrow> node) \<Rightarrow> path \<Rightarrow> path \<Rightarrow> (disk, unit) op" where
  "safe_rename relabel src dst =
     then_do (syscall OSError (\<lambda>t.
       if t src = None \<or> \<not> is_directory t (parent_of dst) \<or> t dst \<noteq> None then Inl OSError else Inr ((), t)))
     (\<lambda>_. syscall OSError (os_rename relabel src dst))"

text \<open>\<open>_cleanup\<close>: a missing file is fine.\<close>

definition cleanup :: "path option \<Rightarrow> (disk, unit) op" where
  "cleanup v =
     (case v of
        None \<Rightarrow> give ()
      | Some p \<Rightarrow> syscall OSError (\<lambda>t.
          case t p of
            None \<Rightarrow> Inr ((), t)
          | Some n \<Rightarrow> if nd_kind n = Directory then Inl OSError else Inr ((), t(p := None))))"

section \<open>Subtrees\<close>

definition sub :: "tree \<Rightarrow> path \<Rightarrow> tree" where
  "sub t p = (\<lambda>q. t (p @ q))"

definition apart_paths :: "path \<Rightarrow> path \<Rightarrow> bool" where
  "apart_paths p q \<longleftrightarrow> take (length p) q \<noteq> p \<and> take (length q) p \<noteq> q"

lemma apart_sym: "apart_paths p q \<Longrightarrow> apart_paths q p"
  by (simp add: apart_paths_def)

lemma under: "take (length p) q = p \<longleftrightarrow> (\<exists>r. q = p @ r)"
  by (metis append_eq_conv_conj append_take_drop_id)

lemma apart_extend: "apart_paths p q \<Longrightarrow> take (length p) (q @ r) \<noteq> p"
proof
  assume a: "apart_paths p q" and "take (length p) (q @ r) = p"
  then obtain s where "q @ r = p @ s" unfolding under by blast
  then have "(\<exists>u. q = p @ u) \<or> (\<exists>u. p = q @ u)" by (auto simp: append_eq_append_conv2)
  with a show False by (auto simp: apart_paths_def)
qed

lemma sub_moved_dst: "apart_paths src dst \<Longrightarrow> sub (moved relabel src dst t) dst = (\<lambda>q. map_option relabel (sub t src q))"
  by (simp add: sub_def moved_def)

lemma sub_moved_src: "apart_paths src dst \<Longrightarrow> sub (moved relabel src dst t) src = (\<lambda>q. None)"
  using apart_extend [of dst src] by (auto simp: sub_def moved_def apart_sym)

lemma sub_moved_other: "apart_paths p src \<Longrightarrow> apart_paths p dst \<Longrightarrow> sub (moved relabel src dst t) p = sub t p"
  using apart_extend [of dst p] apart_extend [of src p] by (auto simp: sub_def moved_def apart_sym)

lemma moved_outside: "take (length src) p \<noteq> src \<Longrightarrow> take (length dst) p \<noteq> dst \<Longrightarrow> moved relabel src dst t p = t p"
  by (simp add: moved_def)

end
