(* ===== verification/Recycle_Bin.thy ===== *)
theory Recycle_Bin
  imports File_Tree
begin

text \<open>
  The recycle bin of a workspace: \<open>RecycleBin\<close> of \<open>openkapsel/files/recycle.py\<close>.  Its private directory is
  the field \<open>dk_bin\<close> of the disk; an entry whose item is missing is what a move that failed leaves behind.
  Identifiers are arguments, because they are made of the time and random digits, and so is the resolution of
  symbolic links; the JSON text of the metadata is left out.  A \<open>RecycleError\<close> is an \<open>ApiError\<close>, as its only
  callers turn it into one.
\<close>

record bin_env =
  rb_root :: path
  rb_resolve :: "path \<Rightarrow> path"
  rb_dir_etag :: "path \<Rightarrow> string"

definition UNAVAILABLE :: pyerr where
  "UNAVAILABLE = ApiError 409 ''recycle_unavailable'' ''must be a real directory, not a file or symlink''"

definition PATH_CHANGED :: pyerr where
  "PATH_CHANGED = ApiError 409 ''path_changed'' ''path changed during the operation''"

definition RECYCLE_FAILED :: pyerr where
  "RECYCLE_FAILED = ApiError 409 ''recycle_failed'' []"

definition RESTORE_FAILED :: pyerr where
  "RESTORE_FAILED = ApiError 409 ''restore_failed'' []"

definition PURGE_FAILED :: pyerr where
  "PURGE_FAILED = ApiError 409 ''purge_failed'' []"

definition NOT_IN_BIN :: pyerr where
  "NOT_IN_BIN = ApiError 404 ''recycle_not_found'' ''recycle item does not exist''"

definition lower_hex :: "char \<Rightarrow> bool" where
  "lower_hex c \<longleftrightarrow> c \<in> set ''0123456789abcdef''"

text \<open>\<open>RECYCLE_ID_PATTERN\<close>: date, time with microseconds, and eight hexadecimal digits.\<close>

definition recycle_id_ok :: "string \<Rightarrow> bool" where
  "recycle_id_ok s \<longleftrightarrow>
     length s = 31 \<and> list_all ascii_digit (take 8 s) \<and> s ! 8 = CHR ''T'' \<and> list_all ascii_digit (take 6 (drop 9 s)) \<and>
     s ! 15 = CHR ''.'' \<and> list_all ascii_digit (take 6 (drop 16 s)) \<and> s ! 22 = CHR ''Z'' \<and> s ! 23 = CHR ''-'' \<and>
     list_all lower_hex (drop 24 s)"

definition relative_to_workspace :: "bin_env \<Rightarrow> path \<Rightarrow> path result" where
  "relative_to_workspace env p =
     (let q = rb_resolve env p in
        if take (length (rb_root env)) q = rb_root env then Inr (drop (length (rb_root env)) q)
        else Inl (ApiError 403 ''path_outside_root'' ''path escapes workspace root''))"

definition touch :: "pyerr \<Rightarrow> (disk, unit) op" where
  "touch e = syscall e (\<lambda>t. Inr ((), t))"

section \<open>Moving an item in\<close>

definition new_bin_entry :: "string \<Rightarrow> path \<Rightarrow> kind \<Rightarrow> (disk, unit) op" where
  "new_bin_entry rid original k d =
     (case touch RECYCLE_FAILED d of
        (Inl e, d1) \<Rightarrow> (Inl e, d1)
      | (Inr _, d1) \<Rightarrow>
          if rid \<in> fst ` set (dk_bin d1) then (Inl RECYCLE_FAILED, d1)
          else (Inr (), d1\<lparr>dk_bin := (rid, \<lparr>be_original = original, be_kind = k, be_stored = None\<rparr>) # dk_bin d1\<rparr>))"

definition set_stored :: "string \<Rightarrow> tree option \<Rightarrow> (string \<times> bin_entry) list \<Rightarrow> (string \<times> bin_entry) list" where
  "set_stored rid v bin = map (\<lambda>(i, e). (i, if i = rid then e\<lparr>be_stored := v\<rparr> else e)) bin"

definition detach :: "path \<Rightarrow> tree \<Rightarrow> tree" where
  "detach p t = (\<lambda>q. if take (length p) q = p then None else t q)"

definition store_item :: "string \<Rightarrow> path \<Rightarrow> (disk, unit) op" where
  "store_item rid p d =
     (case syscall RECYCLE_FAILED (\<lambda>t. if t p = None then Inl RECYCLE_FAILED else Inr (sub t p, detach p t)) d of
        (Inl e, d1) \<Rightarrow> (Inl e, d1)
      | (Inr item, d1) \<Rightarrow> (Inr (), d1\<lparr>dk_bin := set_stored rid (Some item) (dk_bin d1)\<rparr>))"

definition recycle :: "bin_env \<Rightarrow> string \<Rightarrow> path \<Rightarrow> path \<Rightarrow> (disk, string) op" where
  "recycle env rid p original =
     attempt (relative_to_workspace env original) (\<lambda>rel.
       if rel = [] then fail_with (ApiError 403 ''root_protected'' ''the token workspace root cannot be deleted'')
       else
         then_do (touch UNAVAILABLE) (\<lambda>_.
         then_do (syscall PATH_CHANGED (\<lambda>t. case t p of None \<Rightarrow> Inl NO_PATH | Some n \<Rightarrow> Inr (nd_kind n, t))) (\<lambda>k.
         then_do (new_bin_entry rid rel k) (\<lambda>_.
         then_do (touch RECYCLE_FAILED) (\<lambda>_.
         then_do (store_item rid p) (\<lambda>_. give rid))))))"

section \<open>Moving it back\<close>

definition directories_to :: "path \<Rightarrow> path \<Rightarrow> path list" where
  "directories_to base rel = map (\<lambda>k. base @ take k rel) [1..<length rel]"

definition new_directory :: "bin_env \<Rightarrow> path \<Rightarrow> node" where
  "new_directory env p = \<lparr>nd_kind = Directory, nd_etag = rb_dir_etag env p, nd_data = [], nd_mode = 448\<rparr>"

definition make_directories :: "bin_env \<Rightarrow> path \<Rightarrow> tree \<Rightarrow> (unit \<times> tree) result" where
  "make_directories env rel t =
     (let ps = directories_to (rb_root env) rel in
        if list_ex (\<lambda>p. t p \<noteq> None \<and> \<not> is_directory t p) ps then Inl PATH_CHANGED
        else Inr ((), fold (\<lambda>p t. if t p = None then t(p := Some (new_directory env p)) else t) ps t))"

definition attach :: "path \<Rightarrow> tree \<Rightarrow> tree \<Rightarrow> tree" where
  "attach p item t = (\<lambda>q. if take (length p) q = p then item (drop (length p) q) else t q)"

definition take_back :: "string \<Rightarrow> path \<Rightarrow> tree \<Rightarrow> (disk, unit) op" where
  "take_back rid target item d =
     (case syscall RESTORE_FAILED (\<lambda>t.
             case item [] of
               None \<Rightarrow> Inl RESTORE_FAILED
             | Some n \<Rightarrow> if \<not> replaceable n (t target) then Inl RESTORE_FAILED else Inr ((), attach target item t)) d of
        (Inl e, d1) \<Rightarrow> (Inl e, d1)
      | (Inr _, d1) \<Rightarrow> (Inr (), d1\<lparr>dk_bin := set_stored rid None (dk_bin d1)\<rparr>))"

text \<open>\<open>_remove_tree\<close> of an entry.\<close>

definition remove_entry :: "pyerr \<Rightarrow> string \<Rightarrow> (disk, unit) op" where
  "remove_entry e rid d =
     (case touch e d of
        (Inl e', d1) \<Rightarrow> (Inl e', d1)
      | (Inr _, d1) \<Rightarrow> (Inr (), d1\<lparr>dk_bin := filter (\<lambda>(i, _). i \<noteq> rid) (dk_bin d1)\<rparr>))"

definition restore_entry :: "bin_env \<Rightarrow> string \<Rightarrow> bin_entry \<Rightarrow> (disk, path) op" where
  "restore_entry env rid e =
     (case be_stored e of
        None \<Rightarrow> fail_with NOT_IN_BIN
      | Some item \<Rightarrow>
          let target = rb_root env @ be_original e in
          then_do (syscall PATH_CHANGED (make_directories env (be_original e))) (\<lambda>_.
          then_do (syscall RESTORE_FAILED (\<lambda>t.
            if t target \<noteq> None then Inl (ApiError 409 ''restore_target_exists'' ''the original path already exists; move it before restoring'')
            else Inr ((), t))) (\<lambda>_.
          then_do (take_back rid target item) (\<lambda>_.
          then_do (remove_entry RESTORE_FAILED rid) (\<lambda>_. give target)))))"

definition bin_restore :: "bin_env \<Rightarrow> string \<Rightarrow> (disk, path) op" where
  "bin_restore env rid =
     (if \<not> recycle_id_ok rid then fail_with NOT_IN_BIN
      else then_do (touch UNAVAILABLE) (\<lambda>_. then_do (touch NOT_IN_BIN) (\<lambda>_ d.
        case map_of (dk_bin d) rid of None \<Rightarrow> (Inl NOT_IN_BIN, d) | Some e \<Rightarrow> restore_entry env rid e d)))"

section \<open>Listing and purging\<close>

text \<open>Entries without their item are skipped; the newest come first.\<close>

definition list_items :: "nat \<Rightarrow> nat \<Rightarrow> (disk, (string \<times> bin_entry) list \<times> nat) op" where
  "list_items offset limit =
     then_do (touch UNAVAILABLE) (\<lambda>_ d.
       let names = filter recycle_id_ok (rev (sort (map fst (dk_bin d))));
           records = List.map_filter (\<lambda>i. case map_of (dk_bin d) i of
                       None \<Rightarrow> None | Some e \<Rightarrow> map_option (\<lambda>_. (i, e)) (be_stored e)) names
       in (Inr (take limit (drop offset records), length records), d))"

definition purge :: "string \<Rightarrow> (disk, string) op" where
  "purge rid =
     (if \<not> recycle_id_ok rid then fail_with NOT_IN_BIN
      else then_do (touch UNAVAILABLE) (\<lambda>_. then_do (touch PURGE_FAILED) (\<lambda>_ d.
        case map_of (dk_bin d) rid of
          None \<Rightarrow> (Inl PURGE_FAILED, d)
        | Some e \<Rightarrow> then_do (remove_entry PURGE_FAILED rid) (\<lambda>_. give rid) d)))"

end
