(* ===== verification/Mutation.thy ===== *)
theory Mutation
  imports Text_Edits Recycle_Bin Network_Rules
begin

text \<open>
  Transactions over several files: \<open>execute_mutation\<close> of \<open>openkapsel/files/mutation.py\<close> and what it calls.  A
  request lists edits; each is planned against the tag of the file it was made for, the new contents are
  written to stage files next to their targets, every file is checked again, and then each original is
  moved to a backup name and the stage file moved to its place.  When a step fails, the steps are undone in
  reverse order.

  The parameters are what is decided elsewhere: authorisation and resolution of paths, codecs, SHA-256,
  the patches of structured documents, the tags of new files, and the random identifiers.  The bin of a
  storage provider is chosen by the path; looking it up again by its name when an item is restored is left
  out.
\<close>

record mutation_env =
  me_bin :: "path \<Rightarrow> bin_env"
  me_scope :: path
  me_resolve :: "string \<Rightarrow> path result"
  me_domain :: "path \<Rightarrow> path result"
  me_external :: "path \<Rightarrow> bool"
  me_mapping_root :: "path \<Rightarrow> bool"
  me_remote :: "path \<Rightarrow> bool"
  me_relabel :: "node \<Rightarrow> node"
  me_sha :: "string \<Rightarrow> string"
  me_etag :: "path \<Rightarrow> string"
  me_codec :: "string \<Rightarrow> string option"
  me_encode :: "string \<Rightarrow> string \<Rightarrow> string option"
  me_decode :: "string \<Rightarrow> string \<Rightarrow> string option"
  me_patch :: "string \<Rightarrow> path \<Rightarrow> (string \<times> pyval) list \<Rightarrow> string result"
  me_max_batch :: nat
  me_tx :: string
  me_rid :: "nat \<Rightarrow> string"

record plan =
  pl_index :: nat
  pl_requested :: string
  pl_path :: path
  pl_op :: string
  pl_expected :: "string option"
  pl_data :: string
  pl_mode :: nat
  pl_stage :: "path option"
  pl_backup :: "path option"
  pl_count :: nat
  pl_changed :: bool
  pl_deleted :: bool
  pl_published :: bool
  pl_published_etag :: "string option"
  pl_backed_up :: bool
  pl_recycle :: "string option"
  pl_moved_from :: "(kind \<times> nat \<times> string option) option"

definition STANDARD_FILE_MAX_BYTES :: int where
  "STANDARD_FILE_MAX_BYTES = 33554432"

definition MUTATION_MAX_STAGED_BYTES :: int where
  "MUTATION_MAX_STAGED_BYTES = 268435456"

definition MUTATION_MAX_ITEMS :: int where
  "MUTATION_MAX_ITEMS = 1000"

definition MUTATION_OPERATIONS :: "string list" where
  "MUTATION_OPERATIONS =
     [''text.replace'', ''text.insert_before'', ''text.insert_after'', ''structured.patch'', ''file.create'', ''file.replace'', ''path.delete'']"

definition ENCODINGS :: "string list" where
  "ENCODINGS = [''utf-8'', ''utf-8-sig'', ''utf-16-le'', ''utf-16-be'', ''ascii'', ''iso8859-1'', ''cp1252'', ''gbk'', ''gb18030'', ''big5'', ''shift_jis'']"

definition bad_request :: "string \<Rightarrow> pyerr" where
  "bad_request m = ApiError 400 ''invalid_request'' m"

section \<open>Planning\<close>

definition text_encoding :: "mutation_env \<Rightarrow> pyval \<Rightarrow> string result" where
  "text_encoding env v =
     (case (case v of PStr s \<Rightarrow> if length s \<le> 64 \<and> is_ascii s then me_codec env s else None | _ \<Rightarrow> None) of
        Some e \<Rightarrow> if e \<in> set ENCODINGS then Inr e else Inl (ApiError 400 ''invalid_encoding'' ''choose a supported explicit text encoding'')
      | None \<Rightarrow> Inl (ApiError 400 ''invalid_encoding'' ''choose a supported explicit text encoding''))"

definition encode_text :: "mutation_env \<Rightarrow> string \<Rightarrow> string \<Rightarrow> string result" where
  "encode_text env content enc =
     (case me_encode env enc content of
        None \<Rightarrow> Inl (ApiError 400 ''text_encode_error'' ''content cannot be represented in the requested encoding'')
      | Some data \<Rightarrow> Inr data)"

definition required_exact_etag :: "(string \<times> pyval) list \<Rightarrow> string result" where
  "required_exact_etag item =
     (case dict_get item ''expected_etag'' of
        PStr v \<Rightarrow>
          if v = [] \<or> v = ''*'' \<or> list_ex (\<lambda>c. c \<in> set [CHR 0x0D, CHR 0x0A, CHR '','']) v
          then Inl (bad_request ''expected_etag must be the exact ETag returned by a prior read; wildcard and null are not allowed'')
          else Inr v
      | _ \<Rightarrow> Inl (bad_request ''expected_etag must be the exact ETag returned by a prior read; wildcard and null are not allowed''))"

text \<open>\<open>hmac.compare_digest\<close> raises for a text that is not ASCII; tags are.\<close>

definition check_expected_etag :: "string \<Rightarrow> string \<Rightarrow> unit result" where
  "check_expected_etag supplied current =
     (if \<not> is_ascii supplied then Inl TypeError
      else if supplied = current then Inr ()
      else Inl (ApiError 412 ''etag_mismatch'' ''expected_etag does not match the current file''))"

definition path_missing :: "path \<Rightarrow> (disk, bool) op" where
  "path_missing p d =
     (case file_stat p d of
        (Inl e, d1) \<Rightarrow> if e = NO_PATH then (Inr True, d1) else (Inl e, d1)
      | (Inr n, d1) \<Rightarrow> (Inr False, d1))"

text \<open>
  A file is read under its tag, which stands for one version of its content: a change while it is being
  read is noticed by the last check.
\<close>

definition read_regular_bytes :: "path \<Rightarrow> string \<Rightarrow> (disk, string \<times> node) op" where
  "read_regular_bytes p expected =
     then_do (file_stat p) (\<lambda>before.
       if nd_kind before \<noteq> Regular then fail_with (ApiError 400 ''not_a_file'' ''mutation target is not a regular file'')
       else if int (length (nd_data before)) > STANDARD_FILE_MAX_BYTES
       then fail_with (ApiError 413 ''large_file_api_required'' ''transactional mutation is limited to standard files'')
       else attempt (check_expected_etag expected (nd_etag before)) (\<lambda>_.
         then_do (touch IO_ERROR) (\<lambda>_.
         then_do (file_stat p) (\<lambda>current.
         attempt (check_expected_etag expected (nd_etag current)) (\<lambda>_. give (nd_data before, current))))))"

definition new_plan :: "nat \<Rightarrow> string \<Rightarrow> path \<Rightarrow> string \<Rightarrow> string option \<Rightarrow> string \<Rightarrow> nat \<Rightarrow> plan" where
  "new_plan i requested p operation expected data mode =
     \<lparr>pl_index = i, pl_requested = requested, pl_path = p, pl_op = operation, pl_expected = expected, pl_data = data, pl_mode = mode,
      pl_stage = None, pl_backup = None, pl_count = 0, pl_changed = True, pl_deleted = False, pl_published = False,
      pl_published_etag = None, pl_backed_up = False, pl_recycle = None, pl_moved_from = None\<rparr>"

definition encoded_content :: "mutation_env \<Rightarrow> (string \<times> pyval) list \<Rightarrow> string result" where
  "encoded_content env item =
     (case dict_get item ''content'' of
        PStr content \<Rightarrow> andThen (text_encoding env (dict_get_default item ''encoding'' (PStr ''utf-8''))) (encode_text env content)
      | _ \<Rightarrow> Inl (bad_request ''content must be a string''))"

text \<open>\<open>item.get("create_parents") in {None, False}\<close>: zero equals false, and a list has no hash.\<close>

definition no_parents_asked :: "pyval \<Rightarrow> bool result" where
  "no_parents_asked v =
     (case v of
        PList _ \<Rightarrow> Inl TypeError
      | PDict _ \<Rightarrow> Inl TypeError
      | _ \<Rightarrow> Inr (v \<in> set [PNone, PBool False, PInt 0, PFloat (Fin 0)]))"

definition plan_create :: "mutation_env \<Rightarrow> (string \<times> pyval) list \<Rightarrow> nat \<Rightarrow> string \<Rightarrow> path \<Rightarrow> (disk, plan) op" where
  "plan_create env item i requested p =
     attempt (no_parents_asked (dict_get item ''create_parents'')) (\<lambda>none.
      if \<not> none
      then fail_with (bad_request ''transactional file.create does not create parent directories; create them explicitly first'')
      else then_do (\<lambda>d. case file_stat (parent_of p) d of
                      (Inl e, d1) \<Rightarrow> (Inl (if e = NO_PATH then ApiError 400 ''parent_not_found'' ''parent directory does not exist'' else e), d1)
                    | (Inr n, d1) \<Rightarrow> (Inr n, d1)) (\<lambda>parent.
        if nd_kind parent \<noteq> Directory then fail_with (ApiError 400 ''not_a_directory'' ''parent path is not a directory'')
        else then_do (path_missing p) (\<lambda>missing.
          if \<not> missing then fail_with (ApiError 409 ''path_exists'' ''create target already exists'')
          else attempt (encoded_content env item) (\<lambda>data.
            if int (length data) > STANDARD_FILE_MAX_BYTES
            then fail_with (ApiError 413 ''large_file_api_required'' ''created standard files may not exceed 32 MiB'')
            else give (new_plan i requested p ''file.create'' None data 384)))))"

definition plan_delete :: "mutation_env \<Rightarrow> nat \<Rightarrow> string \<Rightarrow> path \<Rightarrow> string \<Rightarrow> (disk, plan) op" where
  "plan_delete env i requested p expected =
     (if take (length (me_scope env)) p \<noteq> me_scope env \<and> \<not> me_external env p
      then fail_with (ApiError 403 ''outside_delete_not_supported'' ''recoverable delete is only available inside the token workspace'')
      else if p = me_scope env then fail_with (ApiError 403 ''root_protected'' ''the workspace root cannot be deleted'')
      else if me_mapping_root env p
      then fail_with (ApiError 403 ''storage_mapping_root_protected'' ''a Storage Provider mapping root cannot be deleted'')
      else then_do (file_stat p) (\<lambda>n.
        if nd_kind n = Special then fail_with (ApiError 400 ''unsupported_path_type'' ''transactional delete supports regular files and directories'')
        else attempt (check_expected_etag expected (nd_etag n)) (\<lambda>_.
          give ((new_plan i requested p ''path.delete'' (Some expected) [] (nd_mode n))\<lparr>pl_deleted := True\<rparr>))))"

text \<open>The new bytes of a file and the number of edits in it.\<close>

definition edited_text :: "mutation_env \<Rightarrow> string \<Rightarrow> (string \<times> pyval) list \<Rightarrow> string \<Rightarrow> (string \<times> nat) result" where
  "edited_text env operation item raw =
     andThen (text_encoding env (dict_get_default item ''encoding'' (PStr ''utf-8''))) (\<lambda>enc.
     case me_decode env enc raw of
       None \<Rightarrow> Inl (ApiError 415 (if enc = ''utf-8'' then ''not_utf8_text'' else ''text_decode_error'') ''file is not valid text in the requested encoding'')
     | Some s \<Rightarrow>
         andThen (if operation = ''text.replace'' then apply_text_replacements s (dict_get item ''replacements'') (item_window item)
                  else apply_text_insertion s item (operation = ''text.insert_after'')) (\<lambda>(updated, count).
         andThen (encode_text env updated enc) (\<lambda>data. Inr (data, count))))"

definition patched_text :: "mutation_env \<Rightarrow> path \<Rightarrow> (string \<times> pyval) list \<Rightarrow> string \<Rightarrow> (string \<times> nat) result" where
  "patched_text env p item raw =
     (case me_decode env ''utf-8'' raw of
        None \<Rightarrow> Inl (ApiError 415 ''structured_encoding'' ''structured files must be UTF-8'')
      | Some s \<Rightarrow>
          andThen (me_patch env s p item) (\<lambda>updated.
          case me_encode env ''utf-8'' updated of
            None \<Rightarrow> Inl (ValueError ''surrogates not allowed'')
          | Some data \<Rightarrow> Inr (data, case dict_get item ''operations'' of PList xs \<Rightarrow> length xs | _ \<Rightarrow> 0)))"

definition new_content :: "mutation_env \<Rightarrow> string \<Rightarrow> path \<Rightarrow> (string \<times> pyval) list \<Rightarrow> string \<Rightarrow> (string \<times> nat) result" where
  "new_content env operation p item raw =
     (if operation = ''file.replace'' then andThen (encoded_content env item) (\<lambda>data. Inr (data, 0))
      else if operation \<in> set [''text.replace'', ''text.insert_before'', ''text.insert_after''] then edited_text env operation item raw
      else patched_text env p item raw)"

definition plan_edit :: "mutation_env \<Rightarrow> (string \<times> pyval) list \<Rightarrow> nat \<Rightarrow> string \<Rightarrow> path \<Rightarrow> string \<Rightarrow> string \<Rightarrow> (disk, plan) op" where
  "plan_edit env item i requested p operation expected =
     then_do (read_regular_bytes p expected) (\<lambda>(raw, n).
     attempt (new_content env operation p item raw) (\<lambda>(data, count).
       if int (length data) > STANDARD_FILE_MAX_BYTES
       then fail_with (ApiError 413 ''large_file_api_required'' ''transactional mutation cannot grow a standard file beyond 32 MiB'')
       else give ((new_plan i requested p operation (Some expected) data (nd_mode n))\<lparr>pl_count := count, pl_changed := (data \<noteq> raw)\<rparr>)))"

definition plan_item :: "mutation_env \<Rightarrow> pyval \<Rightarrow> nat \<Rightarrow> (disk, plan) op" where
  "plan_item env v i =
     (case v of
        PDict item \<Rightarrow>
          (case dict_get item ''path'' of
             PStr requested \<Rightarrow>
               if requested = [] then fail_with (bad_request ''path must be a non-empty string'')
               else (case dict_get item ''op'' of
                       PStr operation \<Rightarrow>
                         if operation \<notin> set MUTATION_OPERATIONS then fail_with (bad_request ''op is not supported'')
                         else attempt (me_resolve env requested) (\<lambda>p.
                           if operation = ''file.create'' then plan_create env item i requested p
                           else attempt (required_exact_etag item) (\<lambda>expected.
                             if operation = ''path.delete'' then plan_delete env i requested p expected
                             else plan_edit env item i requested p operation expected))
                     | _ \<Rightarrow> fail_with (bad_request ''op is not supported''))
           | _ \<Rightarrow> fail_with (bad_request ''path must be a non-empty string''))
      | _ \<Rightarrow> fail_with (bad_request ''items must be objects''))"

text \<open>The checks of a plan against the ones before it.\<close>

definition overlapping :: "plan \<Rightarrow> plan \<Rightarrow> bool" where
  "overlapping a b \<longleftrightarrow> (pl_deleted a \<or> pl_deleted b) \<and> (pl_path a \<in> set (path_parents (pl_path b)) \<or> pl_path b \<in> set (path_parents (pl_path a)))"

definition admit :: "mutation_env \<Rightarrow> path option \<Rightarrow> plan list \<Rightarrow> int \<Rightarrow> plan \<Rightarrow> (path \<times> int) result" where
  "admit env domain plans staged pl =
     andThen (me_domain env (pl_path pl)) (\<lambda>own.
       if (case domain of None \<Rightarrow> False | Some first \<Rightarrow> own \<noteq> first)
       then Inl (ApiError 409 ''transaction_domain_mismatch'' ''one mutation request cannot span multiple authorized filesystem roots'')
       else if pl_path pl \<in> pl_path ` set plans then Inl (ApiError 400 ''duplicate_path'' ''resolves to a duplicate path'')
       else if list_ex (overlapping pl) plans
       then Inl (ApiError 400 ''overlapping_paths'' ''transactional delete paths may not contain another mutation path'')
       else if staged + int (length (pl_data pl)) > MUTATION_MAX_STAGED_BYTES
       then Inl (ApiError 413 ''mutation_too_large'' ''transaction after-images exceed the 256 MiB staging limit'')
       else Inr (own, staged + int (length (pl_data pl))))"

definition DEADLINE :: pyerr where
  "DEADLINE = ApiError 504 ''client_rpc_timeout'' ''Client RPC execution time limit exceeded''"

fun plan_items :: "mutation_env \<Rightarrow> nat \<Rightarrow> pyval list \<Rightarrow> path option \<Rightarrow> plan list \<Rightarrow> int \<Rightarrow> (disk, plan list) op" where
  "plan_items env i [] domain plans staged = give plans"
| "plan_items env i (v # vs) domain plans staged =
     then_do (touch DEADLINE) (\<lambda>_. then_do (plan_item env v i) (\<lambda>pl.
       attempt (admit env domain plans staged pl) (\<lambda>(own, staged').
         plan_items env (Suc i) vs (Some own) (plans @ [pl]) staged')))"

section \<open>The transaction\<close>

record txn =
  tx_disk :: disk
  tx_plans :: "plan list"

definition on_disk :: "(disk, 'a) op \<Rightarrow> (txn, 'a) op" where
  "on_disk f s = (case f (tx_disk s) of (r, d) \<Rightarrow> (r, s\<lparr>tx_disk := d\<rparr>))"

definition with_plan :: "nat \<Rightarrow> (plan \<Rightarrow> (txn, 'a) op) \<Rightarrow> (txn, 'a) op" where
  "with_plan i f s = f (tx_plans s ! i) s"

definition set_plan :: "nat \<Rightarrow> (plan \<Rightarrow> plan) \<Rightarrow> (txn, unit) op" where
  "set_plan i f s = (Inr (), s\<lparr>tx_plans := (tx_plans s)[i := f (tx_plans s ! i)]\<rparr>)"

fun for_each :: "nat list \<Rightarrow> (nat \<Rightarrow> (txn, unit) op) \<Rightarrow> (txn, unit) op" where
  "for_each [] f = give ()"
| "for_each (i # js) f = then_do (f i) (\<lambda>_. for_each js f)"

definition artifact :: "string \<Rightarrow> mutation_env \<Rightarrow> plan \<Rightarrow> path" where
  "artifact mark env pl =
     parent_of (pl_path pl) @ [''.'' @ last (pl_path pl) @ mark @ me_tx env @ ''-'' @ show_nat (pl_index pl)]"

definition stage_path :: "mutation_env \<Rightarrow> plan \<Rightarrow> path" where
  "stage_path env pl = artifact ''.openkapsel-put-txn-'' env pl"

definition backup_path :: "mutation_env \<Rightarrow> plan \<Rightarrow> path" where
  "backup_path env pl = artifact ''.openkapsel-transfer-txn-'' env pl"

definition stage_node :: "mutation_env \<Rightarrow> plan \<Rightarrow> node" where
  "stage_node env pl = \<lparr>nd_kind = Regular, nd_etag = me_etag env (stage_path env pl), nd_data = pl_data pl, nd_mode = pl_mode pl\<rparr>"

text \<open>
  \<open>_stage_bytes\<close> creates the stage file and fills it; it is remembered in the plan only when it is complete.  A failing
  \<open>fchmod\<close>, which the source ignores, is left out: the file has the mode of the original.
\<close>

definition stage_bytes :: "mutation_env \<Rightarrow> nat \<Rightarrow> (txn, unit) op" where
  "stage_bytes env i =
     with_plan i (\<lambda>pl.
       then_do (on_disk (syscall OSError (\<lambda>t.
         if t (stage_path env pl) \<noteq> None \<or> \<not> is_directory t (parent_of (stage_path env pl)) then Inl OSError
         else Inr ((), t(stage_path env pl \<mapsto> (stage_node env pl)\<lparr>nd_data := [], nd_mode := 384\<rparr>))))) (\<lambda>_.
       then_do (on_disk (syscall OSError (\<lambda>t. Inr ((), t(stage_path env pl \<mapsto> stage_node env pl))))) (\<lambda>_.
       set_plan i (\<lambda>pl. pl\<lparr>pl_stage := Some (stage_path env pl),
         pl_backup := (if pl_expected pl \<noteq> None then Some (backup_path env pl) else pl_backup pl)\<rparr>))))"

definition stage_plan :: "mutation_env \<Rightarrow> nat \<Rightarrow> (txn, unit) op" where
  "stage_plan env i =
     then_do (on_disk (touch DEADLINE)) (\<lambda>_.
     with_plan i (\<lambda>pl.
       if pl_deleted pl then set_plan i (\<lambda>pl. pl\<lparr>pl_backup := Some (backup_path env pl)\<rparr>)
       else if pl_changed pl \<or> pl_expected pl = None then stage_bytes env i
       else give ()))"

definition PRECONDITION :: "string \<Rightarrow> pyerr" where
  "PRECONDITION m = ApiError 409 ''mutation_precondition_failed'' m"

definition revalidate_plan :: "plan \<Rightarrow> (disk, unit) op" where
  "revalidate_plan pl =
     (case pl_expected pl of
        None \<Rightarrow> then_do (path_missing (pl_path pl)) (\<lambda>missing.
          if missing then give () else fail_with (PRECONDITION ''no files were changed because a create target now exists''))
      | Some expected \<Rightarrow> then_do (file_stat (pl_path pl)) (\<lambda>n.
          if nd_etag n \<noteq> expected then fail_with (PRECONDITION ''no files were changed because a source changed after preflight'')
          else give ()))"

fun revalidate :: "plan list \<Rightarrow> (disk, unit) op" where
  "revalidate [] = give ()"
| "revalidate (pl # pls) = then_do (revalidate_plan pl) (\<lambda>_. revalidate pls)"

definition relabel :: "mutation_env \<Rightarrow> path \<Rightarrow> node \<Rightarrow> node" where
  "relabel env p = (if me_remote env p then me_relabel env else (\<lambda>n. n))"

text \<open>\<open>_digest_path\<close>: the hash of a file's bytes.\<close>

definition digest_path :: "mutation_env \<Rightarrow> path \<Rightarrow> (disk, string) op" where
  "digest_path env p = syscall IO_ERROR (\<lambda>t. case t p of None \<Rightarrow> Inl NO_PATH | Some n \<Rightarrow> Inr (me_sha env (nd_data n), t))"

definition relocation_verified :: "mutation_env \<Rightarrow> plan \<Rightarrow> path \<Rightarrow> node \<Rightarrow> (disk, bool) op" where
  "relocation_verified env pl destination n =
     (case pl_moved_from pl of
        None \<Rightarrow> give False
      | Some (k, len, digest) \<Rightarrow>
          if k \<noteq> nd_kind n then give False
          else (case digest of
                  None \<Rightarrow> give (nd_kind n = Directory)
                | Some h \<Rightarrow> if length (nd_data n) \<noteq> len then give False else then_do (digest_path env destination) (\<lambda>h'. give (h' = h))))"

text \<open>What is noted of an original on a storage provider before it is moved.\<close>

definition note_original :: "mutation_env \<Rightarrow> nat \<Rightarrow> plan \<Rightarrow> (txn, unit) op" where
  "note_original env i pl =
     (if \<not> me_remote env (pl_path pl) then give ()
      else then_do (on_disk (file_stat (pl_path pl))) (\<lambda>n.
        then_do (if nd_kind n = Regular then then_do (on_disk (digest_path env (pl_path pl))) (\<lambda>h. give (Some h)) else give None) (\<lambda>h.
        set_plan i (\<lambda>pl. pl\<lparr>pl_moved_from := Some (nd_kind n, length (nd_data n), h)\<rparr>))))"

definition source_unchanged :: "mutation_env \<Rightarrow> plan \<Rightarrow> path \<Rightarrow> string \<Rightarrow> (disk, bool) op" where
  "source_unchanged env pl backup expected =
     then_do (file_stat backup) (\<lambda>n.
       if me_remote env (pl_path pl) then relocation_verified env pl backup n else give (nd_etag n = expected))"

definition move_aside :: "mutation_env \<Rightarrow> nat \<Rightarrow> plan \<Rightarrow> string \<Rightarrow> path \<Rightarrow> (txn, unit) op" where
  "move_aside env i pl expected backup =
     then_do (note_original env i pl) (\<lambda>_.
     then_do (on_disk (safe_rename (relabel env (pl_path pl)) (pl_path pl) backup)) (\<lambda>_.
     then_do (set_plan i (\<lambda>pl. pl\<lparr>pl_backed_up := True\<rparr>)) (\<lambda>_.
     with_plan i (\<lambda>pl.
     then_do (on_disk (source_unchanged env pl backup expected)) (\<lambda>same.
       if same then give () else fail_with (PRECONDITION ''source changed during commit; transaction was rolled back''))))))"

definition back_up :: "mutation_env \<Rightarrow> nat \<Rightarrow> (txn, unit) op" where
  "back_up env i =
     with_plan i (\<lambda>pl.
       case pl_expected pl of
         None \<Rightarrow> give ()
       | Some expected \<Rightarrow>
           (case pl_backup pl of None \<Rightarrow> fail_with AssertionError | Some backup \<Rightarrow> move_aside env i pl expected backup))"

definition publish_stage :: "mutation_env \<Rightarrow> nat \<Rightarrow> (txn, unit) op" where
  "publish_stage env i =
     with_plan i (\<lambda>pl.
       if pl_deleted pl then set_plan i (\<lambda>pl. pl\<lparr>pl_published := True\<rparr>)
       else case pl_stage pl of
         None \<Rightarrow> fail_with AssertionError
       | Some stage \<Rightarrow>
           then_do (on_disk (file_stat stage)) (\<lambda>n.
           then_do (on_disk (safe_rename (relabel env (pl_path pl)) stage (pl_path pl))) (\<lambda>_.
           set_plan i (\<lambda>pl. pl\<lparr>pl_published := True, pl_published_etag := Some (nd_etag n)\<rparr>))))"

definition commit_plan :: "mutation_env \<Rightarrow> nat \<Rightarrow> (txn, unit) op" where
  "commit_plan env i =
     with_plan i (\<lambda>pl.
       if \<not> pl_changed pl \<and> pl_expected pl \<noteq> None then give ()
       else then_do (back_up env i) (\<lambda>_. publish_stage env i))"

definition recycle_plan :: "mutation_env \<Rightarrow> nat \<Rightarrow> (txn, unit) op" where
  "recycle_plan env i =
     with_plan i (\<lambda>pl.
       if \<not> pl_deleted pl then give ()
       else case pl_backup pl of
         None \<Rightarrow> fail_with AssertionError
       | Some backup \<Rightarrow>
           then_do (on_disk (recycle (me_bin env (pl_path pl)) (me_rid env (pl_index pl)) backup (pl_path pl))) (\<lambda>rid.
             if rid = [] then fail_with (ApiError 500 ''invalid_recycle_result'' ''transactional delete did not return a recycle id'')
             else set_plan i (\<lambda>pl. pl\<lparr>pl_recycle := Some rid, pl_backed_up := False\<rparr>)))"

definition commit_plans :: "mutation_env \<Rightarrow> (txn, unit) op" where
  "commit_plans env s =
     then_do (for_each [0..<length (tx_plans s)] (commit_plan env)) (\<lambda>_.
       for_each [0..<length (tx_plans s)] (recycle_plan env)) s"

section \<open>Rollback\<close>

text \<open>Whether the published file is still the one that was staged.\<close>

definition still_ours :: "mutation_env \<Rightarrow> plan \<Rightarrow> (disk, bool) op" where
  "still_ours env pl =
     then_do (file_stat (pl_path pl)) (\<lambda>n.
       if me_remote env (pl_path pl) \<and> nd_kind n = Regular
       then then_do (digest_path env (pl_path pl)) (\<lambda>h. give (h = me_sha env (pl_data pl)))
       else give (pl_published_etag pl = Some (nd_etag n)))"

text \<open>One plan: whether it was undone; a file that someone else has changed is left alone.\<close>

definition unpublish :: "mutation_env \<Rightarrow> nat \<Rightarrow> (txn, bool) op" where
  "unpublish env i =
     with_plan i (\<lambda>pl.
       case (pl_published pl, pl_stage pl) of
         (True, Some stage) \<Rightarrow>
           then_do (on_disk (still_ours env pl)) (\<lambda>same.
             if \<not> same then give False
             else then_do (on_disk (safe_rename (relabel env (pl_path pl)) (pl_path pl) stage)) (\<lambda>_.
               then_do (set_plan i (\<lambda>pl. pl\<lparr>pl_published := False\<rparr>)) (\<lambda>_. give True)))
       | _ \<Rightarrow> give True)"

definition put_back :: "mutation_env \<Rightarrow> nat \<Rightarrow> (txn, bool) op" where
  "put_back env i =
     with_plan i (\<lambda>pl.
       case (pl_backed_up pl, pl_backup pl) of
         (True, Some backup) \<Rightarrow>
           then_do (on_disk (safe_rename (relabel env (pl_path pl)) backup (pl_path pl))) (\<lambda>_.
           then_do (set_plan i (\<lambda>pl. pl\<lparr>pl_backed_up := False, pl_published := False\<rparr>)) (\<lambda>_. give True))
       | _ \<Rightarrow> give True)"

definition undo_plan :: "mutation_env \<Rightarrow> nat \<Rightarrow> (txn, bool) op" where
  "undo_plan env i =
     with_plan i (\<lambda>pl.
       case (pl_deleted pl, pl_recycle pl) of
         (True, Some rid) \<Rightarrow>
           then_do (on_disk (bin_restore (me_bin env (pl_path pl)) rid)) (\<lambda>_.
           then_do (set_plan i (\<lambda>pl. pl\<lparr>pl_recycle := None, pl_published := False, pl_backed_up := False\<rparr>)) (\<lambda>_. give True))
       | _ \<Rightarrow> then_do (unpublish env i) (\<lambda>free. if free then put_back env i else give False))"

text \<open>Every plan is tried; an exception counts as a failure.\<close>

fun undo_plans :: "mutation_env \<Rightarrow> nat list \<Rightarrow> txn \<Rightarrow> bool \<times> txn" where
  "undo_plans env [] s = (True, s)"
| "undo_plans env (i # js) s =
     (case undo_plan env i s of (r, s1) \<Rightarrow>
        (case undo_plans env js s1 of (ok, s2) \<Rightarrow> (ok \<and> r = Inr True, s2)))"

definition ROLLBACK_FAILED :: pyerr where
  "ROLLBACK_FAILED = ApiError 500 ''mutation_rollback_failed''
     ''transaction rollback refused to overwrite a concurrently changed path or could not restore an original; recovery artifacts were preserved''"

definition commit_or_undo :: "mutation_env \<Rightarrow> (txn, unit) op" where
  "commit_or_undo env s =
     (case commit_plans env s of
        (Inr _, s1) \<Rightarrow> (Inr (), s1)
      | (Inl e, s1) \<Rightarrow>
          (case undo_plans env (rev [0..<length (tx_plans s1)]) s1 of
             (True, s2) \<Rightarrow> (Inl e, s2)
           | (False, s2) \<Rightarrow> (Inl ROLLBACK_FAILED, s2)))"

section \<open>The request\<close>

fun cleanup_plans :: "plan list \<Rightarrow> (disk, unit) op" where
  "cleanup_plans [] = give ()"
| "cleanup_plans (pl # pls) = then_do (cleanup (pl_stage pl)) (\<lambda>_. then_do (cleanup (pl_backup pl)) (\<lambda>_. cleanup_plans pls))"

fun final_etags :: "plan list \<Rightarrow> (disk, string option list) op" where
  "final_etags [] = give []"
| "final_etags (pl # pls) =
     then_do (if pl_deleted pl then give None else then_do (file_stat (pl_path pl)) (\<lambda>n. give (Some (nd_etag n)))) (\<lambda>e.
     then_do (final_etags pls) (\<lambda>es. give (e # es)))"

text \<open>Staging, the second check and the commit, up to the answer.\<close>

definition transact :: "mutation_env \<Rightarrow> (txn, string option list) op" where
  "transact env s =
     then_do (for_each [0..<length (tx_plans s)] (stage_plan env)) (\<lambda>_.
     then_do (\<lambda>s. on_disk (revalidate (tx_plans s)) s) (\<lambda>_.
     then_do (on_disk (touch DEADLINE)) (\<lambda>_.
     then_do (commit_or_undo env) (\<lambda>_ s. on_disk (final_etags (tx_plans s)) s)))) s"

text \<open>The \<open>finally\<close> clause: artifacts are kept only after a failed rollback, and an error while they are removed replaces the outcome.\<close>

definition transact_clean :: "mutation_env \<Rightarrow> (txn, string option list) op" where
  "transact_clean env s =
     (case transact env s of (r, s1) \<Rightarrow>
        if r = Inl ROLLBACK_FAILED then (r, s1)
        else (case on_disk (cleanup_plans (tx_plans s1)) s1 of (Inl e, s2) \<Rightarrow> (Inl e, s2) | (Inr _, s2) \<Rightarrow> (r, s2)))"

record mutation_result =
  mr_committed :: bool
  mr_plans :: "plan list"
  mr_etags :: "string option list"

definition run_plans :: "mutation_env \<Rightarrow> bool \<Rightarrow> plan list \<Rightarrow> (disk, mutation_result) op" where
  "run_plans env dry_run plans d =
     (if dry_run then
        then_do (revalidate plans) (\<lambda>_. give \<lparr>mr_committed = False, mr_plans = plans, mr_etags = []\<rparr>) d
      else case transact_clean env \<lparr>tx_disk = d, tx_plans = plans\<rparr> of
          (Inl e, s) \<Rightarrow> (Inl e, tx_disk s)
        | (Inr etags, s) \<Rightarrow> (Inr \<lparr>mr_committed = True, mr_plans = tx_plans s, mr_etags = etags\<rparr>, tx_disk s))"

definition execute_mutation :: "mutation_env \<Rightarrow> (string \<times> pyval) list \<Rightarrow> (disk, mutation_result) op" where
  "execute_mutation env body =
     (case dict_get body ''items'' of
        PList (v # vs) \<Rightarrow>
          if int (length (v # vs)) > min MUTATION_MAX_ITEMS (int (me_max_batch env))
          then fail_with (ApiError 400 ''batch_too_large'' ''transaction contains too many file items'')
          else (case dict_get_default body ''dry_run'' (PBool False) of
                  PBool dry_run \<Rightarrow> then_do (plan_items env 0 (v # vs) None [] 0) (run_plans env dry_run)
                | _ \<Rightarrow> fail_with (bad_request ''dry_run must be boolean''))
      | _ \<Rightarrow> fail_with (bad_request ''items must be a non-empty array''))"

end
