(* ===== verification/File_Logic.thy ===== *)
theory File_Logic
  imports Recycle_Bin
begin

text \<open>
  A small Hoare logic for operations that can raise, and the rules for the system calls, the renames and the
  recycle bin when no other program interferes: a call does its work, or raises and changes nothing.
\<close>

section \<open>Triples with two outcomes\<close>

definition triple :: "('s \<Rightarrow> bool) \<Rightarrow> ('s, 'a) op \<Rightarrow> ('a \<Rightarrow> 's \<Rightarrow> bool) \<Rightarrow> ('s \<Rightarrow> bool) \<Rightarrow> bool" where
  "triple P m Q E \<longleftrightarrow> (\<forall>s. P s \<longrightarrow> (case m s of (Inr x, s') \<Rightarrow> Q x s' | (Inl e, s') \<Rightarrow> E s'))"

lemma tripleI:
  "(\<And>s x s'. P s \<Longrightarrow> m s = (Inr x, s') \<Longrightarrow> Q x s') \<Longrightarrow> (\<And>s e s'. P s \<Longrightarrow> m s = (Inl e, s') \<Longrightarrow> E s') \<Longrightarrow> triple P m Q E"
  unfolding triple_def by (auto split: prod.split sum.split)

lemma triple_Inr: "triple P m Q E \<Longrightarrow> P s \<Longrightarrow> m s = (Inr x, s') \<Longrightarrow> Q x s'"
  unfolding triple_def by fastforce

lemma triple_Inl: "triple P m Q E \<Longrightarrow> P s \<Longrightarrow> m s = (Inl e, s') \<Longrightarrow> E s'"
  unfolding triple_def by fastforce

lemma triple_then [intro]:
  assumes "triple P m R E" "\<And>x. triple (R x) (f x) Q E"
  shows "triple P (then_do m f) Q E"
  using assms unfolding triple_def then_do_def by (fastforce split: prod.splits sum.splits)

lemma triple_weaken:
  "triple P m Q E \<Longrightarrow> (\<And>s. P' s \<Longrightarrow> P s) \<Longrightarrow> (\<And>x s. Q x s \<Longrightarrow> Q' x s) \<Longrightarrow> (\<And>s. E s \<Longrightarrow> E' s) \<Longrightarrow> triple P' m Q' E'"
  unfolding triple_def by (fastforce split: prod.splits sum.splits)

lemma triple_pre: "triple P m Q E \<Longrightarrow> (\<And>s. P' s \<Longrightarrow> P s) \<Longrightarrow> triple P' m Q E"
  by (erule triple_weaken)

lemma triple_give: "(\<And>s. P s \<Longrightarrow> Q x s) \<Longrightarrow> triple P (give x) Q E"
  by (simp add: triple_def give_def)

lemma triple_fail: "(\<And>s. P s \<Longrightarrow> E s) \<Longrightarrow> triple P (fail_with e) Q E"
  by (simp add: triple_def fail_with_def)

lemma triple_attempt:
  "(\<And>s. P s \<Longrightarrow> E s) \<Longrightarrow> (\<And>x. v = Inr x \<Longrightarrow> triple P (f x) Q E) \<Longrightarrow> triple P (attempt v f) Q E"
  by (cases v) (simp_all add: triple_def)

lemma triple_if: "(b \<Longrightarrow> triple P m Q E) \<Longrightarrow> (\<not> b \<Longrightarrow> triple P n Q E) \<Longrightarrow> triple P (if b then m else n) Q E"
  by simp

section \<open>System calls\<close>

definition undisturbed :: "disk \<Rightarrow> bool" where
  "undisturbed d \<longleftrightarrow> list_all (\<lambda>u. case u of Others _ \<Rightarrow> False | _ \<Rightarrow> True) (dk_turns d)"

text \<open>A disk with a given tree and bin, and no interference to come.\<close>

definition disk_is :: "tree \<Rightarrow> (string \<times> bin_entry) list \<Rightarrow> disk \<Rightarrow> bool" where
  "disk_is t b d \<longleftrightarrow> dk_tree d = t \<and> dk_bin d = b \<and> undisturbed d"

lemma take_turn_undisturbed:
  "list_all (\<lambda>u. case u of Others _ \<Rightarrow> False | _ \<Rightarrow> True) ts \<Longrightarrow>
   \<exists>works ts'. take_turn ts t = (works, ts', t) \<and> list_all (\<lambda>u. case u of Others _ \<Rightarrow> False | _ \<Rightarrow> True) ts'"
  by (cases "(ts, t)" rule: take_turn.cases) auto

lemma triple_syscall:
  "triple (disk_is t b) (syscall e f) (\<lambda>x d. \<exists>t'. f t = Inr (x, t') \<and> disk_is t' b d) (disk_is t b)"
proof (rule tripleI)
  fix d x d'
  assume "disk_is t b d" "syscall e f d = (Inr x, d')"
  then show "\<exists>t'. f t = Inr (x, t') \<and> disk_is t' b d'"
    using take_turn_undisturbed [of "dk_turns d" t]
    by (auto simp: disk_is_def undisturbed_def syscall_def Let_def split: if_splits sum.splits)
next
  fix d e' d'
  assume "disk_is t b d" "syscall e f d = (Inl e', d')"
  then show "disk_is t b d'"
    using take_turn_undisturbed [of "dk_turns d" t]
    by (auto simp: disk_is_def undisturbed_def syscall_def Let_def split: if_splits sum.splits)
qed

lemma triple_touch: "triple (disk_is t b) (touch e) (\<lambda>_. disk_is t b) (disk_is t b)"
  unfolding touch_def by (rule triple_weaken [OF triple_syscall]) auto

lemma triple_file_stat: "triple (disk_is t b) (file_stat p) (\<lambda>n d. t p = Some n \<and> disk_is t b d) (disk_is t b)"
  unfolding file_stat_def by (rule triple_weaken [OF triple_syscall]) (auto split: option.splits)

lemma triple_safe_rename:
  assumes "src \<noteq> dst"
  shows "triple (disk_is t b) (safe_rename r src dst)
     (\<lambda>_ d. disk_is (moved r src dst t) b d \<and> t src \<noteq> None \<and> t dst = None) (disk_is t b)"
  unfolding safe_rename_def
proof (rule triple_then)
  show "triple (disk_is t b) (syscall OSError (\<lambda>t. if t src = None \<or> \<not> is_directory t (parent_of dst) \<or> t dst \<noteq> None then Inl OSError else Inr ((), t)))
      (\<lambda>_ d. disk_is t b d \<and> t src \<noteq> None \<and> t dst = None) (disk_is t b)"
    by (rule triple_weaken [OF triple_syscall]) (auto split: if_splits)
  fix x :: unit
  show "triple (\<lambda>d. disk_is t b d \<and> t src \<noteq> None \<and> t dst = None) (syscall OSError (os_rename r src dst))
      (\<lambda>_ d. disk_is (moved r src dst t) b d \<and> t src \<noteq> None \<and> t dst = None) (disk_is t b)"
  proof (rule tripleI)
    fix d x d'
    assume d: "disk_is t b d \<and> t src \<noteq> None \<and> t dst = None" "syscall OSError (os_rename r src dst) d = (Inr x, d')"
    then obtain t' where "os_rename r src dst t = Inr (x, t')" "disk_is t' b d'"
      using triple_Inr [OF triple_syscall _ d(2), of t b] by blast
    then show "disk_is (moved r src dst t) b d' \<and> t src \<noteq> None \<and> t dst = None"
      using d(1) assms by (auto simp: os_rename_def split: option.splits if_splits)
  qed (use triple_Inl [OF triple_syscall, of t b] in blast)
qed

lemma triple_cleanup:
  "triple (disk_is t b) (cleanup v) (\<lambda>_. disk_is (case v of None \<Rightarrow> t | Some p \<Rightarrow> t(p := None)) b) (disk_is t b)"
proof (cases v)
  case None
  then show ?thesis by (simp add: cleanup_def triple_give)
next
  case (Some p)
  show ?thesis unfolding Some cleanup_def option.case
    by (rule triple_weaken [OF triple_syscall]) (auto split: option.splits if_splits simp: fun_upd_idem)
qed

section \<open>The recycle bin\<close>

definition entry_of :: "path \<Rightarrow> kind \<Rightarrow> tree option \<Rightarrow> bin_entry" where
  "entry_of rel k v = \<lparr>be_original = rel, be_kind = k, be_stored = v\<rparr>"

lemma triple_new_bin_entry:
  "triple (disk_is t b) (new_bin_entry rid rel k)
     (\<lambda>_ d. disk_is t ((rid, entry_of rel k None) # b) d \<and> rid \<notin> fst ` set b) (disk_is t b)"
proof (rule tripleI)
  fix d x d'
  assume d: "disk_is t b d" "new_bin_entry rid rel k d = (Inr x, d')"
  then show "disk_is t ((rid, entry_of rel k None) # b) d' \<and> rid \<notin> fst ` set b"
    using triple_Inr [OF triple_touch [where e = RECYCLE_FAILED] d(1)]
    by (auto simp: new_bin_entry_def disk_is_def undisturbed_def entry_of_def split: prod.splits sum.splits if_splits)
next
  fix d e d'
  assume d: "disk_is t b d" "new_bin_entry rid rel k d = (Inl e, d')"
  then show "disk_is t b d'"
    using triple_Inr [OF triple_touch [where e = RECYCLE_FAILED] d(1)] triple_Inl [OF triple_touch [where e = RECYCLE_FAILED] d(1)]
    by (auto simp: new_bin_entry_def split: prod.splits sum.splits if_splits)
qed

lemma set_stored_Cons: "rid \<notin> fst ` set b \<Longrightarrow> set_stored rid v ((rid, e) # b) = (rid, e\<lparr>be_stored := v\<rparr>) # b"
  unfolding set_stored_def by (auto intro!: map_idI) (metis fst_conv image_eqI)

lemma triple_store_item:
  assumes "rid \<notin> fst ` set b"
  shows "triple (disk_is t ((rid, entry_of rel k None) # b)) (store_item rid p)
     (\<lambda>_ d. t p \<noteq> None \<and> disk_is (detach p t) ((rid, entry_of rel k (Some (sub t p))) # b) d)
     (disk_is t ((rid, entry_of rel k None) # b))"
proof (rule tripleI)
  let ?f = "\<lambda>t. if t p = None then Inl RECYCLE_FAILED else Inr (sub t p, detach p t)"
  let ?b = "(rid, entry_of rel k None) # b"
  fix d x d'
  assume d: "disk_is t ?b d" "store_item rid p d = (Inr x, d')"
  then obtain item d1 where s: "syscall RECYCLE_FAILED ?f d = (Inr item, d1)" "d' = d1\<lparr>dk_bin := set_stored rid (Some item) (dk_bin d1)\<rparr>"
    unfolding store_item_def by (auto split: prod.splits sum.splits)
  from triple_Inr [OF triple_syscall d(1) s(1)] have "t p \<noteq> None" "item = sub t p" "disk_is (detach p t) ?b d1"
    by (auto split: if_splits)
  then show "t p \<noteq> None \<and> disk_is (detach p t) ((rid, entry_of rel k (Some (sub t p))) # b) d'"
    using s(2) set_stored_Cons [OF assms] by (simp add: disk_is_def undisturbed_def entry_of_def)
next
  let ?f = "\<lambda>t. if t p = None then Inl RECYCLE_FAILED else Inr (sub t p, detach p t)"
  fix d e d'
  assume d: "disk_is t ((rid, entry_of rel k None) # b) d" "store_item rid p d = (Inl e, d')"
  then have "syscall RECYCLE_FAILED ?f d = (Inl e, d')" unfolding store_item_def by (auto split: prod.splits sum.splits)
  from triple_Inl [OF triple_syscall d(1) this] show "disk_is t ((rid, entry_of rel k None) # b) d'" .
qed

text \<open>What a recycling that failed may leave: an entry without its item.\<close>

definition unstored :: "tree \<Rightarrow> (string \<times> bin_entry) list \<Rightarrow> string \<Rightarrow> disk \<Rightarrow> bool" where
  "unstored t b rid d \<longleftrightarrow> disk_is t b d \<or> (\<exists>rel k. disk_is t ((rid, entry_of rel k None) # b) d \<and> rid \<notin> fst ` set b)"

lemma triple_recycle:
  "triple (disk_is t b) (recycle env rid p original)
     (\<lambda>r d. r = rid \<and> t p \<noteq> None \<and> rid \<notin> fst ` set b \<and>
        (\<exists>rel k. relative_to_workspace env original = Inr rel \<and> disk_is (detach p t) ((rid, entry_of rel k (Some (sub t p))) # b) d))
     (unstored t b rid)"
  unfolding recycle_def
proof (intro triple_attempt triple_if triple_fail)
  fix rel
  assume rel: "relative_to_workspace env original = Inr rel"
  have kind: "triple (disk_is t b) (syscall PATH_CHANGED (\<lambda>t. case t p of None \<Rightarrow> Inl NO_PATH | Some n \<Rightarrow> Inr (nd_kind n, t)))
      (\<lambda>_. disk_is t b) (unstored t b rid)"
    by (rule triple_weaken [OF triple_syscall]) (auto simp: unstored_def split: option.splits)
  have store: "triple (\<lambda>d. disk_is t ((rid, entry_of rel k None) # b) d \<and> rid \<notin> fst ` set b) (store_item rid p)
      (\<lambda>_ d. rid \<notin> fst ` set b \<and> t p \<noteq> None \<and> disk_is (detach p t) ((rid, entry_of rel k (Some (sub t p))) # b) d) (unstored t b rid)" for k
  proof (cases "rid \<in> fst ` set b")
    case True
    then show ?thesis by (simp add: triple_def)
  next
    case False
    show ?thesis by (rule triple_weaken [OF triple_store_item [OF False]]) (auto simp: unstored_def False)
  qed
  have meta: "triple (\<lambda>d. disk_is t ((rid, entry_of rel k None) # b) d \<and> rid \<notin> fst ` set b) (touch RECYCLE_FAILED)
      (\<lambda>_ d. disk_is t ((rid, entry_of rel k None) # b) d \<and> rid \<notin> fst ` set b) (unstored t b rid)" for k
  proof (rule tripleI)
    fix s x s'
    assume "disk_is t ((rid, entry_of rel k None) # b) s \<and> rid \<notin> fst ` set b" "touch RECYCLE_FAILED s = (Inr x, s')"
    then show "disk_is t ((rid, entry_of rel k None) # b) s' \<and> rid \<notin> fst ` set b" using triple_Inr [OF triple_touch] by blast
  next
    fix s x s'
    assume "disk_is t ((rid, entry_of rel k None) # b) s \<and> rid \<notin> fst ` set b" "touch RECYCLE_FAILED s = (Inl x, s')"
    then show "unstored t b rid s'" using triple_Inl [OF triple_touch] unfolding unstored_def by blast
  qed
  show "triple (disk_is t b) (then_do (touch UNAVAILABLE) (\<lambda>_.
         then_do (syscall PATH_CHANGED (\<lambda>t. case t p of None \<Rightarrow> Inl NO_PATH | Some n \<Rightarrow> Inr (nd_kind n, t))) (\<lambda>k.
         then_do (new_bin_entry rid rel k) (\<lambda>_.
         then_do (touch RECYCLE_FAILED) (\<lambda>_.
         then_do (store_item rid p) (\<lambda>_. give rid))))))
     (\<lambda>r d. r = rid \<and> t p \<noteq> None \<and> rid \<notin> fst ` set b \<and>
        (\<exists>rel k. relative_to_workspace env original = Inr rel \<and> disk_is (detach p t) ((rid, entry_of rel k (Some (sub t p))) # b) d))
     (unstored t b rid)"
    by (rule triple_then [OF triple_weaken [OF triple_touch] triple_then [OF kind triple_then [OF triple_weaken [OF triple_new_bin_entry]
          triple_then [OF meta triple_then [OF store triple_give]]]]])
      (auto simp: unstored_def rel)
qed (auto simp: unstored_def)

text \<open>Restoring, when the directories above the target exist.\<close>

lemma made_directories:
  "\<forall>p \<in> set (directories_to (rb_root env) rel). t p \<noteq> None \<Longrightarrow> make_directories env rel t = Inr (x, t') \<Longrightarrow> t' = t"
proof -
  assume all: "\<forall>p \<in> set (directories_to (rb_root env) rel). t p \<noteq> None" and m: "make_directories env rel t = Inr (x, t')"
  have "fold (\<lambda>p t. if t p = None then t(p := Some (new_directory env p)) else t) ps t = t" if "\<forall>p \<in> set ps. t p \<noteq> None" for ps
    using that by (induction ps) auto
  with all m show "t' = t" by (auto simp: make_directories_def Let_def split: if_splits)
qed

definition half_restored :: "path \<Rightarrow> tree \<Rightarrow> string \<Rightarrow> tree \<Rightarrow> (string \<times> bin_entry) list \<Rightarrow> disk \<Rightarrow> bool" where
  "half_restored target item rid t b d \<longleftrightarrow> disk_is t b d \<or> disk_is (attach target item t) (set_stored rid None b) d"

lemma triple_take_back:
  "triple (disk_is t b) (take_back rid target item) (\<lambda>_. disk_is (attach target item t) (set_stored rid None b)) (disk_is t b)"
proof (rule tripleI)
  let ?f = "\<lambda>t. case item [] of None \<Rightarrow> Inl RESTORE_FAILED
             | Some n \<Rightarrow> if \<not> replaceable n (t target) then Inl RESTORE_FAILED else Inr ((), attach target item t)"
  fix d x d'
  assume d: "disk_is t b d" "take_back rid target item d = (Inr x, d')"
  then obtain d1 where s: "syscall RESTORE_FAILED ?f d = (Inr (), d1)" "d' = d1\<lparr>dk_bin := set_stored rid None (dk_bin d1)\<rparr>"
    unfolding take_back_def by (auto split: prod.splits sum.splits)
  from triple_Inr [OF triple_syscall d(1) s(1)] have "disk_is (attach target item t) b d1" by (auto split: option.splits if_splits)
  then show "disk_is (attach target item t) (set_stored rid None b) d'" using s(2) by (simp add: disk_is_def undisturbed_def)
next
  let ?f = "\<lambda>t. case item [] of None \<Rightarrow> Inl RESTORE_FAILED
             | Some n \<Rightarrow> if \<not> replaceable n (t target) then Inl RESTORE_FAILED else Inr ((), attach target item t)"
  fix d e d'
  assume d: "disk_is t b d" "take_back rid target item d = (Inl e, d')"
  then have "syscall RESTORE_FAILED ?f d = (Inl e, d')" unfolding take_back_def by (auto split: prod.splits sum.splits)
  from triple_Inl [OF triple_syscall d(1) this] show "disk_is t b d'" .
qed

lemma filter_set_stored: "filter (\<lambda>(i, _). i \<noteq> rid) (set_stored rid v b) = filter (\<lambda>(i, _). i \<noteq> rid) b"
  by (induction b) (auto simp: set_stored_def)

lemma triple_remove_entry:
  "triple (disk_is t b) (remove_entry e rid) (\<lambda>_. disk_is t (filter (\<lambda>(i, _). i \<noteq> rid) b)) (disk_is t b)"
proof (rule tripleI)
  fix d x d'
  assume d: "disk_is t b d" "remove_entry e rid d = (Inr x, d')"
  then show "disk_is t (filter (\<lambda>(i, _). i \<noteq> rid) b) d'"
    using triple_Inr [OF triple_touch [where e = e] d(1)]
    by (auto simp: remove_entry_def disk_is_def undisturbed_def split: prod.splits sum.splits)
next
  fix d e' d'
  assume d: "disk_is t b d" "remove_entry e rid d = (Inl e', d')"
  then show "disk_is t b d'" using triple_Inl [OF triple_touch [where e = e] d(1)] by (auto simp: remove_entry_def split: prod.splits sum.splits)
qed

lemma triple_restore:
  assumes e: "map_of b rid = Some e" "be_stored e = Some item"
    and dirs: "\<forall>p \<in> set (directories_to (rb_root env) (be_original e)). t p \<noteq> None"
  shows "triple (disk_is t b) (bin_restore env rid)
     (\<lambda>_ d. t (rb_root env @ be_original e) = None \<and>
        disk_is (attach (rb_root env @ be_original e) item t) (filter (\<lambda>(i, _). i \<noteq> rid) b) d)
     (half_restored (rb_root env @ be_original e) item rid t b)"
proof -
  let ?target = "rb_root env @ be_original e"
  note weak = half_restored_def
  have touch: "triple (disk_is t b) (touch x) (\<lambda>_. disk_is t b) (half_restored ?target item rid t b)" for x
    by (rule triple_weaken [OF triple_touch]) (auto simp: weak)
  have dirs: "triple (disk_is t b) (syscall PATH_CHANGED (make_directories env (be_original e))) (\<lambda>_. disk_is t b) (half_restored ?target item rid t b)"
    by (rule triple_weaken [OF triple_syscall]) (auto simp: weak dest!: made_directories [OF dirs])
  have free: "triple (disk_is t b) (syscall RESTORE_FAILED (\<lambda>t.
      if t ?target \<noteq> None then Inl (ApiError 409 ''restore_target_exists'' ''the original path already exists; move it before restoring'')
      else Inr ((), t))) (\<lambda>_ d. t ?target = None \<and> disk_is t b d) (half_restored ?target item rid t b)"
    by (rule triple_weaken [OF triple_syscall]) (auto simp: weak split: if_splits)
  have retaken: "triple (\<lambda>d. t ?target = None \<and> disk_is t b d) (take_back rid ?target item)
      (\<lambda>_ d. t ?target = None \<and> disk_is (attach ?target item t) (set_stored rid None b) d) (half_restored ?target item rid t b)"
    using triple_take_back [of t b rid ?target item] by (auto simp: weak triple_def split: prod.splits sum.splits)
  have gone: "triple (\<lambda>d. t ?target = None \<and> disk_is (attach ?target item t) (set_stored rid None b) d) (remove_entry RESTORE_FAILED rid)
      (\<lambda>_ d. t ?target = None \<and> disk_is (attach ?target item t) (filter (\<lambda>(i, _). i \<noteq> rid) b) d) (half_restored ?target item rid t b)"
    using triple_remove_entry [of "attach ?target item t" "set_stored rid None b" RESTORE_FAILED rid]
    by (auto simp: weak triple_def filter_set_stored split: prod.splits sum.splits)
  have "triple (disk_is t b) (restore_entry env rid e)
     (\<lambda>_ d. t ?target = None \<and> disk_is (attach ?target item t) (filter (\<lambda>(i, _). i \<noteq> rid) b) d) (half_restored ?target item rid t b)"
    unfolding restore_entry_def e option.case Let_def
    by (rule triple_then [OF dirs triple_then [OF free triple_then [OF retaken triple_then [OF gone triple_give]]]])
  then have entry: "triple (disk_is t b) (\<lambda>d. case map_of (dk_bin d) rid of None \<Rightarrow> (Inl NOT_IN_BIN, d) | Some e \<Rightarrow> restore_entry env rid e d)
     (\<lambda>_ d. t ?target = None \<and> disk_is (attach ?target item t) (filter (\<lambda>(i, _). i \<noteq> rid) b) d) (half_restored ?target item rid t b)"
    using e(1) by (auto simp: triple_def disk_is_def)
  show ?thesis unfolding bin_restore_def
    by (intro triple_if triple_fail triple_then [OF touch triple_then [OF touch entry]]) (simp add: weak)
qed

end
