(* ===== verification/Mutation_Safety.thy ===== *)
theory Mutation_Safety
  imports Mutation File_Logic
begin

text \<open>
  The invariant of a transaction.  Each plan owns three places, its path, its stage file and its backup; which of them
  holds what follows from the marks of the plan.  The steps of the commit and of the rollback keep this
  relation, and touch nothing outside the places.  Contents are compared up to the tags, which a storage
  provider may change when it moves a file.
\<close>

section \<open>Places\<close>

definition untag :: "node \<Rightarrow> node" where
  "untag n = n\<lparr>nd_etag := []\<rparr>"

definition content_at :: "tree \<Rightarrow> path \<Rightarrow> tree" where
  "content_at t p = (\<lambda>q. map_option untag (t (p @ q)))"

abbreviation nothing :: tree where
  "nothing \<equiv> (\<lambda>q. None)"

definition single_file :: "node \<Rightarrow> tree" where
  "single_file n = (\<lambda>q. if q = [] then Some n else None)"

datatype place = AtPath nat | AtStage nat | AtBackup nat

fun place_index :: "place \<Rightarrow> nat" where
  "place_index (AtPath i) = i"
| "place_index (AtStage i) = i"
| "place_index (AtBackup i) = i"

fun slot :: "mutation_env \<Rightarrow> plan list \<Rightarrow> place \<Rightarrow> path" where
  "slot env pls (AtPath i) = pl_path (pls ! i)"
| "slot env pls (AtStage i) = stage_path env (pls ! i)"
| "slot env pls (AtBackup i) = backup_path env (pls ! i)"

abbreviation valid_place :: "plan list \<Rightarrow> place \<Rightarrow> bool" where
  "valid_place pls x \<equiv> place_index x < length pls"

definition separate :: "mutation_env \<Rightarrow> plan list \<Rightarrow> bool" where
  "separate env pls \<longleftrightarrow>
     (\<forall>x y. valid_place pls x \<longrightarrow> valid_place pls y \<longrightarrow> x \<noteq> y \<longrightarrow> apart_paths (slot env pls x) (slot env pls y))"

definition outside :: "mutation_env \<Rightarrow> plan list \<Rightarrow> path \<Rightarrow> bool" where
  "outside env pls q \<longleftrightarrow> (\<forall>x. valid_place pls x \<longrightarrow> take (length (slot env pls x)) q \<noteq> slot env pls x)"

definition shape :: "mutation_env \<Rightarrow> plan list \<Rightarrow> tree \<Rightarrow> place \<Rightarrow> tree" where
  "shape env pls t x = content_at t (slot env pls x)"

definition keeps_content :: "mutation_env \<Rightarrow> bool" where
  "keeps_content env \<longleftrightarrow> (\<forall>n. untag (me_relabel env n) = untag n)"

lemma relabel_untag: "keeps_content env \<Longrightarrow> untag (relabel env p n) = untag n"
  by (simp add: keeps_content_def relabel_def)

lemma content_moved:
  assumes "keeps_content env" "apart_paths src dst"
  shows "content_at (moved (relabel env p) src dst t) dst = content_at t src"
    "content_at (moved (relabel env p) src dst t) src = nothing"
    "apart_paths q src \<Longrightarrow> apart_paths q dst \<Longrightarrow> content_at (moved (relabel env p) src dst t) q = content_at t q"
proof -
  show "content_at (moved (relabel env p) src dst t) dst = content_at t src"
    using fun_cong [OF sub_moved_dst [OF assms(2)]]
    by (auto simp: content_at_def sub_def option.map_comp o_def relabel_untag [OF assms(1)])
  show "content_at (moved (relabel env p) src dst t) src = nothing"
    using fun_cong [OF sub_moved_src [OF assms(2)]] by (simp add: content_at_def sub_def)
  show "apart_paths q src \<Longrightarrow> apart_paths q dst \<Longrightarrow> content_at (moved (relabel env p) src dst t) q = content_at t q"
    using fun_cong [OF sub_moved_other] by (simp add: content_at_def sub_def)
qed

lemma shape_moved:
  assumes "separate env pls" "keeps_content env" "x \<noteq> y" "valid_place pls x" "valid_place pls y" "valid_place pls z"
  shows "shape env pls (moved (relabel env p) (slot env pls x) (slot env pls y) t) z =
    (if z = y then shape env pls t x else if z = x then nothing else shape env pls t z)"
proof -
  have a: "apart_paths (slot env pls x) (slot env pls y)"
    "z \<noteq> x \<Longrightarrow> apart_paths (slot env pls z) (slot env pls x)" "z \<noteq> y \<Longrightarrow> apart_paths (slot env pls z) (slot env pls y)"
    using assms unfolding separate_def by blast+
  show ?thesis using content_moved [OF assms(2) a(1)] a(2,3) by (simp add: shape_def)
qed

lemma outside_moved:
  assumes "valid_place pls x" "valid_place pls y" "outside env pls q"
  shows "moved r (slot env pls x) (slot env pls y) t q = t q"
  using assms unfolding outside_def by (intro moved_outside) blast+

section \<open>The invariant\<close>

text \<open>What a plan fixes when it is made.\<close>

definition fixed :: "plan \<Rightarrow> nat \<times> path \<times> string option \<times> string \<times> nat \<times> bool \<times> bool" where
  "fixed pl = (pl_index pl, pl_path pl, pl_expected pl, pl_data pl, pl_mode pl, pl_changed pl, pl_deleted pl)"

definition staged :: "mutation_env \<Rightarrow> plan \<Rightarrow> tree" where
  "staged env pl = single_file (untag (stage_node env pl))"

text \<open>An item of the bin that belongs to a plan, with its content.\<close>

definition binned :: "mutation_env \<Rightarrow> plan \<Rightarrow> (string \<times> bin_entry) list \<Rightarrow> string \<Rightarrow> tree \<Rightarrow> bool" where
  "binned env pl b r orig \<longleftrightarrow>
     (\<exists>e item. map_of b r = Some e \<and> be_stored e = Some item \<and> content_at item [] = orig \<and> item [] \<noteq> None \<and>
        rb_root (me_bin env (pl_path pl)) @ be_original e = pl_path pl)"

definition marks_ok :: "mutation_env \<Rightarrow> plan \<Rightarrow> bool" where
  "marks_ok env pl \<longleftrightarrow>
     pl_stage pl \<in> {None, Some (stage_path env pl)} \<and> pl_backup pl \<in> {None, Some (backup_path env pl)} \<and>
     (pl_backed_up pl \<longrightarrow> pl_backup pl \<noteq> None \<and> pl_recycle pl = None \<and> pl_expected pl \<noteq> None) \<and>
     (pl_deleted pl \<longrightarrow> pl_stage pl = None \<and> pl_expected pl \<noteq> None) \<and> (pl_recycle pl \<noteq> None \<longrightarrow> pl_deleted pl) \<and>
     (pl_published pl \<and> pl_stage pl \<noteq> None \<longrightarrow> pl_backed_up pl \<or> pl_expected pl = None)"

definition placed_right :: "mutation_env \<Rightarrow> plan \<Rightarrow> tree \<Rightarrow> tree \<Rightarrow> tree \<Rightarrow> tree \<Rightarrow> bool" where
  "placed_right env pl orig at_path at_stage at_backup \<longleftrightarrow>
     at_path = (if pl_published pl \<and> pl_stage pl \<noteq> None then staged env pl
                else if pl_backed_up pl \<or> pl_recycle pl \<noteq> None then nothing else orig) \<and>
     at_stage = (if pl_stage pl = None \<or> pl_published pl then nothing else staged env pl) \<and>
     at_backup = (if pl_backed_up pl then orig else nothing)"

definition plan_ok :: "mutation_env \<Rightarrow> plan list \<Rightarrow> tree \<Rightarrow> tree \<Rightarrow> (string \<times> bin_entry) list \<Rightarrow> nat \<Rightarrow> plan \<Rightarrow> bool" where
  "plan_ok env pls t0 t b i pl \<longleftrightarrow>
     fixed pl = fixed (pls ! i) \<and> marks_ok env pl \<and>
     placed_right env pl (shape env pls t0 (AtPath i)) (shape env pls t (AtPath i)) (shape env pls t (AtStage i)) (shape env pls t (AtBackup i)) \<and>
     (\<forall>r. pl_recycle pl = Some r \<longrightarrow> binned env pl b r (shape env pls t0 (AtPath i)))"

text \<open>A plan that was given up: its original is kept at its path, at its backup or in the bin.\<close>

definition plan_kept :: "mutation_env \<Rightarrow> plan list \<Rightarrow> tree \<Rightarrow> tree \<Rightarrow> (string \<times> bin_entry) list \<Rightarrow> nat \<Rightarrow> plan \<Rightarrow> bool" where
  "plan_kept env pls t0 t b i pl \<longleftrightarrow>
     fixed pl = fixed (pls ! i) \<and>
     (shape env pls t (AtPath i) = shape env pls t0 (AtPath i) \<or> shape env pls t (AtBackup i) = shape env pls t0 (AtPath i) \<or>
      pl_expected pl = None \<or> (\<exists>r. pl_recycle pl = Some r \<and> binned env pl b r (shape env pls t0 (AtPath i))))"

definition bins_ok :: "(string \<times> bin_entry) list \<Rightarrow> (string \<times> bin_entry) list \<Rightarrow> plan list \<Rightarrow> bool" where
  "bins_ok b0 b ps \<longleftrightarrow>
     (\<forall>r. r \<in> fst ` set b0 \<longrightarrow> map_of b r = map_of b0 r) \<and>
     (\<forall>i r. i < length ps \<longrightarrow> pl_recycle (ps ! i) = Some r \<longrightarrow> r \<in> fst ` set b \<and> r \<notin> fst ` set b0) \<and>
     (\<forall>i j r. i < length ps \<longrightarrow> j < length ps \<longrightarrow> pl_recycle (ps ! i) = Some r \<longrightarrow> pl_recycle (ps ! j) = Some r \<longrightarrow> i = j)"

definition inv :: "mutation_env \<Rightarrow> plan list \<Rightarrow> tree \<Rightarrow> (string \<times> bin_entry) list \<Rightarrow> nat set \<Rightarrow> tree \<Rightarrow> (string \<times> bin_entry) list \<Rightarrow> plan list \<Rightarrow> bool" where
  "inv env pls t0 b0 given_up t b ps \<longleftrightarrow>
     length ps = length pls \<and> (\<forall>q. outside env pls q \<longrightarrow> t q = t0 q) \<and> bins_ok b0 b ps \<and>
     (\<forall>i < length pls. if i \<in> given_up then plan_kept env pls t0 t b i (ps ! i) else plan_ok env pls t0 t b i (ps ! i))"

lemma staged_fixed: "fixed pl = fixed pl' \<Longrightarrow> stage_path env pl = stage_path env pl' \<and> backup_path env pl = backup_path env pl' \<and> staged env pl = staged env pl'"
  by (auto simp: fixed_def stage_path_def backup_path_def artifact_def staged_def stage_node_def)

lemma ok_kept: "plan_ok env pls t0 t b i pl \<Longrightarrow> plan_kept env pls t0 t b i pl"
  by (auto simp: plan_ok_def plan_kept_def placed_right_def marks_ok_def)

text \<open>
  A step of one plan: the places of the other plans and the items they have in the bin are as before, so that only the plan itself
  has to be looked at.
\<close>

lemma inv_step:
  assumes inv: "inv env pls t0 b0 W t b ps" and i: "i < length pls"
    and out: "\<And>q. outside env pls q \<Longrightarrow> t' q = t q"
    and other: "\<And>z. valid_place pls z \<Longrightarrow> place_index z \<noteq> i \<Longrightarrow> shape env pls t' z = shape env pls t z"
    and bin: "\<And>j r. j < length pls \<Longrightarrow> j \<noteq> i \<Longrightarrow> pl_recycle (ps ! j) = Some r \<Longrightarrow> map_of b' r = map_of b r"
    and bins: "bins_ok b0 b' (ps[i := pl])"
    and own: "if i \<in> W' then plan_kept env pls t0 t' b' i pl else plan_ok env pls t0 t' b' i pl"
    and W: "\<And>j. j \<noteq> i \<Longrightarrow> j \<in> W' \<longleftrightarrow> j \<in> W"
  shows "inv env pls t0 b0 W' t' b' (ps[i := pl])"
proof -
  have len: "length ps = length pls" using inv by (simp add: inv_def)
  have "if j \<in> W' then plan_kept env pls t0 t' b' j (ps[i := pl] ! j) else plan_ok env pls t0 t' b' j (ps[i := pl] ! j)"
    if j: "j < length pls" for j
  proof (cases "j = i")
    case True
    then show ?thesis using own len i by simp
  next
    case False
    have "shape env pls t' (AtPath j) = shape env pls t (AtPath j)" "shape env pls t' (AtStage j) = shape env pls t (AtStage j)"
      "shape env pls t' (AtBackup j) = shape env pls t (AtBackup j)" using other False j by simp_all
    moreover have "binned env (ps ! j) b' r c = binned env (ps ! j) b r c" if "pl_recycle (ps ! j) = Some r" for r c
      using bin [OF j False that] by (simp add: binned_def)
    ultimately have kept: "plan_kept env pls t0 t b j (ps ! j) \<Longrightarrow> plan_kept env pls t0 t' b' j (ps ! j)"
        and ok: "plan_ok env pls t0 t b j (ps ! j) \<Longrightarrow> plan_ok env pls t0 t' b' j (ps ! j)"
      unfolding plan_kept_def plan_ok_def by (elim conjE disjE exE; simp)+
    have before: "if j \<in> W then plan_kept env pls t0 t b j (ps ! j) else plan_ok env pls t0 t b j (ps ! j)" using inv j by (simp add: inv_def)
    show ?thesis
    proof (cases "j \<in> W")
      case True
      with before have "plan_kept env pls t0 t b j (ps ! j)" by simp
      from kept [OF this] True False W [OF False] show ?thesis by simp
    next
      case notW: False
      with before have "plan_ok env pls t0 t b j (ps ! j)" by simp
      from ok [OF this] notW False W [OF False] show ?thesis by simp
    qed
  qed
  then show ?thesis using inv out bins len by (simp add: inv_def)
qed

lemma bins_ok_same:
  assumes "bins_ok b0 b ps" "pl_recycle pl = pl_recycle (ps ! i) \<or> pl_recycle pl = None"
  shows "bins_ok b0 b (ps[i := pl])"
proof -
  have "pl_recycle (ps ! j) = Some r" if "pl_recycle (ps[i := pl] ! j) = Some r" "j < length ps" for j r
    using that assms(2) by (cases "j = i") auto
  then show ?thesis using assms(1) unfolding bins_ok_def length_list_update by blast
qed

section \<open>Operations on the transaction\<close>

definition txn_is :: "tree \<Rightarrow> (string \<times> bin_entry) list \<Rightarrow> plan list \<Rightarrow> txn \<Rightarrow> bool" where
  "txn_is t b ps s \<longleftrightarrow> disk_is t b (tx_disk s) \<and> tx_plans s = ps"

lemma triple_on_disk:
  assumes "triple (disk_is t b) m Q E"
  shows "triple (txn_is t b ps) (on_disk m) (\<lambda>x s. Q x (tx_disk s) \<and> tx_plans s = ps) (\<lambda>s. E (tx_disk s) \<and> tx_plans s = ps)"
proof (rule tripleI)
  fix s x s'
  assume s: "txn_is t b ps s" "on_disk m s = (Inr x, s')"
  then obtain d where "m (tx_disk s) = (Inr x, d)" "s' = s\<lparr>tx_disk := d\<rparr>" by (cases "m (tx_disk s)") (auto simp: on_disk_def)
  with triple_Inr [OF assms, of "tx_disk s" x d] s(1) show "Q x (tx_disk s') \<and> tx_plans s' = ps" by (simp add: txn_is_def)
next
  fix s e s'
  assume s: "txn_is t b ps s" "on_disk m s = (Inl e, s')"
  then obtain d where "m (tx_disk s) = (Inl e, d)" "s' = s\<lparr>tx_disk := d\<rparr>" by (cases "m (tx_disk s)") (auto simp: on_disk_def)
  with triple_Inl [OF assms, of "tx_disk s" e d] s(1) show "E (tx_disk s') \<and> tx_plans s' = ps" by (simp add: txn_is_def)
qed

lemma triple_with_plan: "triple (txn_is t b ps) (f (ps ! i)) Q E \<Longrightarrow> triple (txn_is t b ps) (with_plan i f) Q E"
  unfolding triple_def with_plan_def txn_is_def by auto

lemma triple_set_plan: "triple (txn_is t b ps) (set_plan i f) (\<lambda>_. txn_is t b (ps[i := f (ps ! i)])) E"
  unfolding triple_def set_plan_def txn_is_def by simp

text \<open>Reading leaves the state alone.\<close>

definition reads :: "(disk, 'a) op \<Rightarrow> bool" where
  "reads m \<longleftrightarrow> (\<forall>t b. triple (disk_is t b) m (\<lambda>_. disk_is t b) (disk_is t b))"

lemma reads_file_stat: "reads (file_stat p)"
  unfolding reads_def by (intro allI triple_weaken [OF triple_file_stat]) auto

lemma reads_digest: "reads (digest_path env p)"
  unfolding reads_def digest_path_def by (intro allI triple_weaken [OF triple_syscall]) (auto split: option.splits)

lemma reads_touch: "reads (touch e)"
  unfolding reads_def using triple_touch by blast

lemma reads_give: "reads (give x)"
  unfolding reads_def by (simp add: triple_give)

lemma reads_fail: "reads (fail_with e)"
  unfolding reads_def by (simp add: triple_fail)

lemma reads_then: "reads m \<Longrightarrow> (\<And>x. reads (f x)) \<Longrightarrow> reads (then_do m f)"
  unfolding reads_def by (intro allI triple_then) blast+

lemma reads_if: "reads m \<Longrightarrow> reads n \<Longrightarrow> reads (if c then m else n)"
  by simp

lemmas reads_intros = reads_file_stat reads_digest reads_touch reads_give reads_fail reads_then reads_if

lemma reads_on_disk:
  assumes "reads m"
  shows "triple (txn_is t b ps) (on_disk m) (\<lambda>_. txn_is t b ps) (txn_is t b ps)"
  by (rule triple_weaken [OF triple_on_disk]) (use assms in \<open>auto simp: reads_def txn_is_def\<close>)

lemma reads_missing: "reads (path_missing p)"
proof -
  have "triple (disk_is t b) (path_missing p) (\<lambda>_. disk_is t b) (disk_is t b)" for t b
  proof (rule tripleI)
    fix d x d'
    assume d: "disk_is t b d" "path_missing p d = (Inr x, d')"
    then show "disk_is t b d'"
      using triple_Inr [OF triple_file_stat d(1), of p] triple_Inl [OF triple_file_stat d(1), of p]
      by (auto simp: path_missing_def split: prod.splits sum.splits if_splits)
  next
    fix d e d'
    assume d: "disk_is t b d" "path_missing p d = (Inl e, d')"
    then show "disk_is t b d'"
      using triple_Inl [OF triple_file_stat d(1), of p] by (auto simp: path_missing_def split: prod.splits sum.splits if_splits)
  qed
  then show ?thesis by (simp add: reads_def)
qed

lemma reads_revalidate_plan: "reads (revalidate_plan pl)"
  by (cases "pl_expected pl") (auto simp: revalidate_plan_def intro!: reads_intros reads_missing)

lemma reads_revalidate: "reads (revalidate pls)"
  by (induction pls) (auto intro!: reads_intros reads_revalidate_plan)

lemma reads_relocation: "reads (relocation_verified env pl p n)"
  unfolding relocation_verified_def by (auto split: option.splits intro!: reads_intros)

lemma reads_source: "reads (source_unchanged env pl p x)"
  unfolding source_unchanged_def by (intro reads_intros reads_relocation)

lemma reads_still_ours: "reads (still_ours env pl)"
  unfolding still_ours_def by (intro reads_intros)

lemma reads_final: "reads (final_etags pls)"
  by (induction pls) (auto intro!: reads_intros)

section \<open>Moving between the places of a plan\<close>

lemma inv_move:
  assumes "inv env pls t0 b0 W t b ps" "separate env pls" "keeps_content env" "i < length pls"
    and xy: "x \<noteq> y" "place_index x = i" "place_index y = i"
    and r: "pl_recycle pl = pl_recycle (ps ! i) \<or> pl_recycle pl = None"
    and own: "\<And>t'. (\<And>z. place_index z = i \<Longrightarrow> shape env pls t' z = (if z = y then shape env pls t x else if z = x then nothing else shape env pls t z)) \<Longrightarrow>
      plan_ok env pls t0 t' b i pl" and "i \<notin> W"
  shows "inv env pls t0 b0 W (moved (relabel env p) (slot env pls x) (slot env pls y) t) b (ps[i := pl])"
proof (rule inv_step [OF assms(1,4)])
  let ?t = "moved (relabel env p) (slot env pls x) (slot env pls y) t"
  have v: "valid_place pls x" "valid_place pls y" using assms(4) xy by simp_all
  note sh = shape_moved [OF assms(2,3) xy(1) v]
  show "?t q = t q" if "outside env pls q" for q by (rule outside_moved [OF v that])
  show "shape env pls ?t z = shape env pls t z" if "valid_place pls z" "place_index z \<noteq> i" for z
    using sh [OF that(1)] that(2) xy by auto
  show "bins_ok b0 b (ps[i := pl])" using assms(1) r by (auto simp: inv_def intro: bins_ok_same)
  have "plan_ok env pls t0 ?t b i pl"
    by (rule own) (use sh assms(4) in simp)
  then show "if i \<in> W then plan_kept env pls t0 ?t b i pl else plan_ok env pls t0 ?t b i pl" using assms(10) by simp
qed simp_all

lemma inv_marks:
  assumes "inv env pls t0 b0 W t b ps" "i < length pls" "i \<notin> W" "plan_ok env pls t0 t b i (ps ! i) \<Longrightarrow> plan_ok env pls t0 t b i pl"
    "pl_recycle pl = pl_recycle (ps ! i) \<or> pl_recycle pl = None"
  shows "inv env pls t0 b0 W t b (ps[i := pl])"
proof (rule inv_step [OF assms(1,2)])
  show "bins_ok b0 b (ps[i := pl])" using assms(1,5) by (auto simp: inv_def intro: bins_ok_same)
  have "plan_ok env pls t0 t b i (ps ! i)" using assms(1-3) by (simp add: inv_def)
  then show "if i \<in> W then plan_kept env pls t0 t b i pl else plan_ok env pls t0 t b i pl" using assms(3,4) by simp
qed simp_all

lemma inv_plan: "inv env pls t0 b0 W t b ps \<Longrightarrow> i < length pls \<Longrightarrow> i \<notin> W \<Longrightarrow> plan_ok env pls t0 t b i (ps ! i)"
  by (simp add: inv_def)

text \<open>What the marks of each plan are known to be.\<close>

definition each :: "plan list \<Rightarrow> (nat \<Rightarrow> plan \<Rightarrow> bool) \<Rightarrow> plan list \<Rightarrow> bool" where
  "each pls Pr ps \<longleftrightarrow> (\<forall>j < length pls. Pr j (ps ! j))"

lemma each_update: "each pls Pr ps \<Longrightarrow> length ps = length pls \<Longrightarrow> R x \<Longrightarrow> each pls (Pr(i := R)) (ps[i := x])"
  by (simp add: each_def nth_list_update)

lemma each_same: "each pls Pr ps \<Longrightarrow> R (ps ! i) \<Longrightarrow> each pls (Pr(i := R)) ps"
  by (simp add: each_def)

definition good :: "mutation_env \<Rightarrow> plan list \<Rightarrow> tree \<Rightarrow> (string \<times> bin_entry) list \<Rightarrow> nat set \<Rightarrow> (nat \<Rightarrow> plan \<Rightarrow> bool) \<Rightarrow> txn \<Rightarrow> bool" where
  "good env pls t0 b0 W Pr s \<longleftrightarrow>
     (\<exists>t b ps. inv env pls t0 b0 W t b ps \<and> each pls Pr ps \<and> txn_is t b ps s)"

lemma triple_good:
  assumes "\<And>t b ps. inv env pls t0 b0 W t b ps \<Longrightarrow> each pls Pr ps \<Longrightarrow> triple (txn_is t b ps) m Q E"
  shows "triple (good env pls t0 b0 W Pr) m Q E"
proof (rule tripleI)
  fix s x s'
  assume "good env pls t0 b0 W Pr s" "m s = (Inr x, s')"
  then show "Q x s'" using triple_Inr [OF assms] unfolding good_def by blast
next
  fix s e s'
  assume "good env pls t0 b0 W Pr s" "m s = (Inl e, s')"
  then show "E s'" using triple_Inl [OF assms] unfolding good_def by blast
qed

abbreviation anyhow :: "nat \<Rightarrow> plan \<Rightarrow> bool" where
  "anyhow \<equiv> \<lambda>_ _. True"

lemma goodI:
  "inv env pls t0 b0 W t b ps \<Longrightarrow> each pls Pr ps \<Longrightarrow> txn_is t b ps s \<Longrightarrow> good env pls t0 b0 W Pr s"
  unfolding good_def by blast

lemma each_anyhow [simp]: "each pls anyhow ps"
  by (simp add: each_def)

lemma good_anyhow: "good env pls t0 b0 W Pr s \<Longrightarrow> good env pls t0 b0 W anyhow s"
  unfolding good_def by fastforce

lemma triple_move:
  assumes "separate env pls" "x \<noteq> y" "valid_place pls x" "valid_place pls y"
  shows "triple (txn_is t b ps) (on_disk (safe_rename r (slot env pls x) (slot env pls y)))
     (\<lambda>_. txn_is (moved r (slot env pls x) (slot env pls y) t) b ps) (txn_is t b ps)"
proof -
  have "apart_paths (slot env pls x) (slot env pls y)" using assms by (simp add: separate_def)
  then have "slot env pls x \<noteq> slot env pls y" by (auto simp: apart_paths_def)
  from triple_on_disk [OF triple_safe_rename [OF this]] show ?thesis
    by (rule triple_weaken) (auto simp: txn_is_def)
qed

text \<open>The slots of a plan, as its fixed part gives them.\<close>

lemma plan_slots:
  assumes "fixed pl = fixed (pls ! i)"
  shows "pl_path pl = slot env pls (AtPath i)" "stage_path env pl = slot env pls (AtStage i)" "backup_path env pl = slot env pls (AtBackup i)"
  using assms staged_fixed [OF assms] by (simp_all add: fixed_def)

section \<open>The commit\<close>

definition untouched :: "plan \<Rightarrow> bool" where
  "untouched pl \<longleftrightarrow> \<not> pl_published pl \<and> \<not> pl_backed_up pl \<and> pl_recycle pl = None"

definition midway :: "plan \<Rightarrow> bool" where
  "midway pl \<longleftrightarrow> \<not> pl_published pl \<and> pl_recycle pl = None \<and> (pl_backed_up pl \<longleftrightarrow> pl_expected pl \<noteq> None)"

definition skipped :: "plan \<Rightarrow> bool" where
  "skipped pl \<longleftrightarrow> \<not> pl_changed pl \<and> pl_expected pl \<noteq> None"

definition committed :: "plan \<Rightarrow> bool" where
  "committed pl \<longleftrightarrow>
     (if skipped pl then untouched pl
      else pl_published pl \<and> (\<not> pl_deleted pl \<longrightarrow> pl_stage pl \<noteq> None) \<and> pl_recycle pl = None \<and> (pl_backed_up pl \<longleftrightarrow> pl_expected pl \<noteq> None))"

lemma fixed_same:
  "fixed pl' = fixed pl \<Longrightarrow> pl_path pl' = pl_path pl \<and> pl_expected pl' = pl_expected pl \<and> pl_deleted pl' = pl_deleted pl \<and>
     pl_changed pl' = pl_changed pl \<and> pl_index pl' = pl_index pl"
  by (simp add: fixed_def)

lemma binned_same: "pl_path pl' = pl_path pl \<Longrightarrow> binned env pl' b r orig = binned env pl b r orig"
  by (simp add: binned_def)

lemma plan_ok_cosmetic:
  assumes "plan_ok env pls t0 t b i pl" "fixed pl' = fixed pl" "pl_stage pl' = pl_stage pl" "pl_backup pl' = pl_backup pl"
    "pl_backed_up pl' = pl_backed_up pl" "pl_published pl' = pl_published pl" "pl_recycle pl' = pl_recycle pl"
  shows "plan_ok env pls t0 t b i pl'"
proof -
  note f = fixed_same [OF assms(2)] staged_fixed [OF assms(2), of env] binned_same [of pl' pl env b]
  have "marks_ok env pl' = marks_ok env pl" unfolding marks_ok_def using f assms(3-7) by simp
  moreover have "staged env pl' = staged env pl" using f by simp
  then have "placed_right env pl' = placed_right env pl" unfolding placed_right_def by (simp only: assms(3-7))
  ultimately show ?thesis using assms(1,2,7) f unfolding plan_ok_def by simp
qed

lemma triple_note:
  assumes "i < length ps"
  shows "triple (txn_is t b ps) (note_original env i pl) (\<lambda>_ s. \<exists>v. txn_is t b (ps[i := (ps ! i)\<lparr>pl_moved_from := v\<rparr>]) s) (txn_is t b ps)"
proof (cases "me_remote env (pl_path pl)")
  case False
  have "ps[i := (ps ! i)\<lparr>pl_moved_from := pl_moved_from (ps ! i)\<rparr>] = ps" by simp
  then have "\<exists>v. txn_is t b (ps[i := (ps ! i)\<lparr>pl_moved_from := v\<rparr>]) s" if "txn_is t b ps s" for s
    using that by (intro exI [of _ "pl_moved_from (ps ! i)"]) simp
  then show ?thesis using False unfolding note_original_def by (simp only: not_False_eq_True if_True) (rule triple_give)
next
  case True
  have stat: "triple (txn_is t b ps) (on_disk (file_stat (pl_path pl))) (\<lambda>_. txn_is t b ps) (txn_is t b ps)"
    by (rule reads_on_disk [OF reads_file_stat])
  have digest: "triple (txn_is t b ps) (on_disk (digest_path env (pl_path pl))) (\<lambda>_. txn_is t b ps) (txn_is t b ps)"
    by (rule reads_on_disk [OF reads_digest])
  have set: "triple (txn_is t b ps) (set_plan i (\<lambda>pl. pl\<lparr>pl_moved_from := v\<rparr>)) (\<lambda>_ s. \<exists>v. txn_is t b (ps[i := (ps ! i)\<lparr>pl_moved_from := v\<rparr>]) s) (txn_is t b ps)" for v
    by (rule triple_weaken [OF triple_set_plan]) auto
  have chosen: "triple (txn_is t b ps) (if nd_kind n = Regular then then_do (on_disk (digest_path env (pl_path pl))) (\<lambda>h. give (Some h)) else give None)
      (\<lambda>_. txn_is t b ps) (txn_is t b ps)" for n
    by (intro triple_if triple_then [OF digest triple_give] triple_give)
  show ?thesis using True unfolding note_original_def
    by (simp only: not_True_eq_False if_False) (rule triple_then [OF stat triple_then [OF chosen set]])
qed

end
