(* ===== verification/Mutation_Steps.thy ===== *)
theory Mutation_Steps
  imports Mutation_Safety
begin

text \<open>
  Every step of a commit keeps the invariant, whichever of its system calls fails.
\<close>

lemma triple_ex: "(\<And>v. triple (P v) m Q E) \<Longrightarrow> triple (\<lambda>s. \<exists>v. P v s) m Q E"
proof (rule tripleI)
  fix s x s'
  assume P: "\<And>v. triple (P v) m Q E" "\<exists>v. P v s" "m s = (Inr x, s')"
  then show "Q x s'" using triple_Inr by metis
next
  fix s e s'
  assume P: "\<And>v. triple (P v) m Q E" "\<exists>v. P v s" "m s = (Inl e, s')"
  then show "E s'" using triple_Inl by metis
qed

lemma ok_facts:
  assumes "plan_ok env pls t0 t b i pl"
  shows "fixed pl = fixed (pls ! i)" "marks_ok env pl"
    "placed_right env pl (shape env pls t0 (AtPath i)) (shape env pls t (AtPath i)) (shape env pls t (AtStage i)) (shape env pls t (AtBackup i))"
    "pl_recycle pl = Some r \<Longrightarrow> binned env pl b r (shape env pls t0 (AtPath i))"
  using assms by (simp_all add: plan_ok_def)

lemma stage_slot: "plan_ok env pls t0 t b i pl \<Longrightarrow> pl_stage pl = Some p \<Longrightarrow> p = slot env pls (AtStage i)"
  using plan_slots [OF ok_facts(1)] ok_facts(2) by (fastforce simp: marks_ok_def)

lemma backup_slot: "plan_ok env pls t0 t b i pl \<Longrightarrow> pl_backup pl = Some p \<Longrightarrow> p = slot env pls (AtBackup i)"
  using plan_slots [OF ok_facts(1)] ok_facts(2) by (fastforce simp: marks_ok_def)

text \<open>
  A plan whose marks change together with its places.
\<close>

lemma plan_ok_remark:
  assumes "plan_ok env pls t0 t b i pl" "fixed pl' = fixed pl" "marks_ok env pl'"
    "placed_right env pl' (shape env pls t0 (AtPath i)) (shape env pls t' (AtPath i)) (shape env pls t' (AtStage i)) (shape env pls t' (AtBackup i))"
    "\<And>r. pl_recycle pl' = Some r \<Longrightarrow> binned env pl' b' r (shape env pls t0 (AtPath i))"
  shows "plan_ok env pls t0 t' b' i pl'"
  using assms unfolding plan_ok_def by simp

lemma staged_marks: "fixed pl' = fixed pl \<Longrightarrow> staged env pl' = staged env pl" "fixed pl' = fixed pl \<Longrightarrow> stage_path env pl' = stage_path env pl"
  "fixed pl' = fixed pl \<Longrightarrow> backup_path env pl' = backup_path env pl"
  using staged_fixed by blast+

lemma fixed_marks [simp]:
  "fixed (pl\<lparr>pl_stage := a\<rparr>) = fixed pl" "fixed (pl\<lparr>pl_backup := a\<rparr>) = fixed pl" "fixed (pl\<lparr>pl_published := c\<rparr>) = fixed pl"
  "fixed (pl\<lparr>pl_published_etag := x\<rparr>) = fixed pl" "fixed (pl\<lparr>pl_backed_up := c\<rparr>) = fixed pl" "fixed (pl\<lparr>pl_recycle := x\<rparr>) = fixed pl"
  "fixed (pl\<lparr>pl_moved_from := y\<rparr>) = fixed pl"
  by (simp_all add: fixed_def)

lemma marked [simp]:
  "staged env (pl\<lparr>pl_published := c\<rparr>) = staged env pl" "staged env (pl\<lparr>pl_backed_up := c\<rparr>) = staged env pl" "staged env (pl\<lparr>pl_recycle := x\<rparr>) = staged env pl"
  "staged env (pl\<lparr>pl_published_etag := x\<rparr>) = staged env pl" "staged env (pl\<lparr>pl_stage := a\<rparr>) = staged env pl" "staged env (pl\<lparr>pl_backup := a\<rparr>) = staged env pl"
  "stage_path env (pl\<lparr>pl_published := c\<rparr>) = stage_path env pl" "stage_path env (pl\<lparr>pl_backed_up := c\<rparr>) = stage_path env pl"
  "stage_path env (pl\<lparr>pl_recycle := x\<rparr>) = stage_path env pl" "stage_path env (pl\<lparr>pl_published_etag := x\<rparr>) = stage_path env pl"
  "stage_path env (pl\<lparr>pl_stage := a\<rparr>) = stage_path env pl" "stage_path env (pl\<lparr>pl_backup := a\<rparr>) = stage_path env pl"
  "backup_path env (pl\<lparr>pl_published := c\<rparr>) = backup_path env pl" "backup_path env (pl\<lparr>pl_backed_up := c\<rparr>) = backup_path env pl"
  "backup_path env (pl\<lparr>pl_recycle := x\<rparr>) = backup_path env pl" "backup_path env (pl\<lparr>pl_published_etag := x\<rparr>) = backup_path env pl"
  "backup_path env (pl\<lparr>pl_stage := a\<rparr>) = backup_path env pl" "backup_path env (pl\<lparr>pl_backup := a\<rparr>) = backup_path env pl"
  by (simp_all add: staged_def stage_path_def backup_path_def artifact_def stage_node_def)

section \<open>Forward\<close>

lemma backed_up_ok:
  assumes "plan_ok env pls t0 t b i pl" "untouched pl" "pl_expected pl \<noteq> None" "pl_backup pl \<noteq> None"
    "\<And>z. place_index z = i \<Longrightarrow> shape env pls t' z = (if z = AtBackup i then shape env pls t (AtPath i) else if z = AtPath i then nothing else shape env pls t z)"
  shows "plan_ok env pls t0 t' b i (pl\<lparr>pl_backed_up := True\<rparr>)"
proof (rule plan_ok_remark [OF assms(1)])
  show "marks_ok env (pl\<lparr>pl_backed_up := True\<rparr>)"
    using ok_facts(2) [OF assms(1)] assms(2-4) by (simp add: marks_ok_def untouched_def)
  show "placed_right env (pl\<lparr>pl_backed_up := True\<rparr>) (shape env pls t0 (AtPath i)) (shape env pls t' (AtPath i)) (shape env pls t' (AtStage i)) (shape env pls t' (AtBackup i))"
    using ok_facts(3) [OF assms(1)] assms(2,5) by (simp add: placed_right_def untouched_def)
qed (use assms(2) in \<open>simp_all add: untouched_def\<close>)

lemma nth_update_at: "length ps = length pls \<Longrightarrow> i < length pls \<Longrightarrow> ps[i := x] ! i = x"
  by simp

lemma inv_length: "inv env pls t0 b0 W t b ps \<Longrightarrow> length ps = length pls"
  by (simp add: inv_def)

lemma triple_move_aside:
  assumes sep: "separate env pls" and keep: "keeps_content env" and i: "i < length pls"
    and inv: "inv env pls t0 b0 {} t b ps" and Pr: "each pls Pr ps" and un: "untouched (ps ! i)"
    and ex: "pl_expected (ps ! i) = Some ex" and bk: "pl_backup (ps ! i) = Some bk"
  shows "triple (txn_is t b ps) (move_aside env i (ps ! i) ex bk) (\<lambda>_. good env pls t0 b0 {} (Pr(i := midway))) (good env pls t0 b0 {} anyhow)"
proof -
  let ?pl = "ps ! i"
  note len = inv_length [OF inv]
  have ok: "plan_ok env pls t0 t b i ?pl" by (rule inv_plan [OF inv i]) simp
  have slots: "bk = slot env pls (AtBackup i)" "pl_path ?pl = slot env pls (AtPath i)"
    by (rule backup_slot [OF ok bk], rule plan_slots(1) [OF ok_facts(1) [OF ok]])
  let ?r = "relabel env (slot env pls (AtPath i))"
  let ?t = "moved ?r (slot env pls (AtPath i)) (slot env pls (AtBackup i)) t"
  let ?noted = "\<lambda>v. ps[i := ?pl\<lparr>pl_moved_from := v\<rparr>]"
  let ?aside = "\<lambda>v. ps[i := ?pl\<lparr>pl_moved_from := v, pl_backed_up := True\<rparr>]"
  have ok_v: "plan_ok env pls t0 t b i (?pl\<lparr>pl_moved_from := v\<rparr>)" for v by (rule plan_ok_cosmetic [OF ok]) simp_all
  have noted: "inv env pls t0 b0 {} t b (?noted v)" for v
    by (rule inv_marks [OF inv i]) (simp_all add: ok_v)
  have aside: "inv env pls t0 b0 {} ?t b (?aside v)" for v
  proof (rule inv_move [OF inv sep keep i])
    fix t'
    assume "\<And>z. place_index z = i \<Longrightarrow> shape env pls t' z =
      (if z = AtBackup i then shape env pls t (AtPath i) else if z = AtPath i then nothing else shape env pls t z)"
    then show "plan_ok env pls t0 t' b i (?pl\<lparr>pl_moved_from := v, pl_backed_up := True\<rparr>)"
      using backed_up_ok [OF ok_v [of v]] un bk ex by (simp add: untouched_def)
  qed simp_all
  have "midway (?pl\<lparr>pl_moved_from := v, pl_backed_up := True\<rparr>)" for v
    using un ex by (simp add: midway_def untouched_def)
  then have reached: "good env pls t0 b0 {} (Pr(i := midway)) s" if "txn_is ?t b (?aside v) s" for v s
    by (rule goodI [OF aside each_update [OF Pr len] that])
  have remember: "triple (txn_is t b ps) (note_original env i ?pl) (\<lambda>_ s. \<exists>v. txn_is t b (?noted v) s) (good env pls t0 b0 {} anyhow)"
    by (rule triple_weaken [OF triple_note]) (use i len goodI [OF inv, of anyhow] in auto)
  have rename: "triple (txn_is t b (?noted v)) (on_disk (safe_rename ?r (slot env pls (AtPath i)) (slot env pls (AtBackup i)))) (\<lambda>_. txn_is ?t b (?noted v))
      (good env pls t0 b0 {} anyhow)" for v
    by (rule triple_weaken [OF triple_move [OF sep]]) (use i goodI [OF noted [of v], of anyhow] in auto)
  have mark: "triple (txn_is ?t b (?noted v)) (set_plan i (\<lambda>pl. pl\<lparr>pl_backed_up := True\<rparr>)) (\<lambda>_. txn_is ?t b (?aside v)) (good env pls t0 b0 {} anyhow)" for v
    by (rule triple_weaken [OF triple_set_plan]) (use i len in auto)
  have check: "triple (txn_is ?t b (?aside v)) (on_disk (source_unchanged env pl bk ex)) (\<lambda>_. txn_is ?t b (?aside v)) (good env pls t0 b0 {} anyhow)" for v pl
    by (rule triple_weaken [OF reads_on_disk [OF reads_source]]) (auto intro: good_anyhow [OF reached])
  have verdict: "triple (txn_is ?t b (?aside v)) (if same then give () else fail_with (PRECONDITION ''source changed during commit; transaction was rolled back''))
      (\<lambda>_. good env pls t0 b0 {} (Pr(i := midway))) (good env pls t0 b0 {} anyhow)" for v same
    by (intro triple_if triple_give triple_fail good_anyhow [OF reached] reached)
  show ?thesis unfolding move_aside_def slots(2)
    by (rule triple_then [OF remember triple_ex]) (unfold slots(1), rule triple_then [OF rename triple_then [OF mark triple_with_plan [OF triple_then [OF check [unfolded slots(1)] verdict]]]])
qed

lemma triple_back_up:
  assumes "separate env pls" "keeps_content env" "i < length pls"
    and inv: "inv env pls t0 b0 {} t b ps" and Pr: "each pls Pr ps" and un: "untouched (ps ! i)"
  shows "triple (txn_is t b ps) (back_up env i) (\<lambda>_. good env pls t0 b0 {} (Pr(i := midway))) (good env pls t0 b0 {} anyhow)"
  unfolding back_up_def
proof (rule triple_with_plan, cases "pl_expected (ps ! i)")
  case None
  then have "each pls (Pr(i := midway)) ps" using un by (intro each_same [OF Pr]) (simp add: midway_def untouched_def)
  then show "triple (txn_is t b ps) (case pl_expected (ps ! i) of None \<Rightarrow> give ()
      | Some expected \<Rightarrow> (case pl_backup (ps ! i) of None \<Rightarrow> fail_with AssertionError | Some backup \<Rightarrow> move_aside env i (ps ! i) expected backup))
      (\<lambda>_. good env pls t0 b0 {} (Pr(i := midway))) (good env pls t0 b0 {} anyhow)"
    unfolding None option.case by (intro triple_give goodI [OF inv])
next
  case (Some ex)
  have "good env pls t0 b0 {} anyhow s" if "txn_is t b ps s" for s by (rule goodI [OF inv _ that]) simp
  then show "triple (txn_is t b ps) (case pl_expected (ps ! i) of None \<Rightarrow> give ()
      | Some expected \<Rightarrow> (case pl_backup (ps ! i) of None \<Rightarrow> fail_with AssertionError | Some backup \<Rightarrow> move_aside env i (ps ! i) expected backup))
      (\<lambda>_. good env pls t0 b0 {} (Pr(i := midway))) (good env pls t0 b0 {} anyhow)"
    using triple_move_aside [of env pls i t0 b0 t b ps Pr ex, OF assms Some] unfolding Some option.case by (cases "pl_backup (ps ! i)") (simp_all add: triple_fail)
qed

lemma deleted_published_ok:
  assumes "plan_ok env pls t0 t b i pl" "pl_deleted pl"
  shows "plan_ok env pls t0 t b i (pl\<lparr>pl_published := True\<rparr>)"
proof (rule plan_ok_remark [OF assms(1)])
  have none: "pl_stage pl = None" using ok_facts(2) [OF assms(1)] assms(2) by (simp add: marks_ok_def)
  show "marks_ok env (pl\<lparr>pl_published := True\<rparr>)"
    using ok_facts(2) [OF assms(1)] none by (simp add: marks_ok_def)
  show "placed_right env (pl\<lparr>pl_published := True\<rparr>) (shape env pls t0 (AtPath i)) (shape env pls t (AtPath i)) (shape env pls t (AtStage i)) (shape env pls t (AtBackup i))"
    using ok_facts(3) [OF assms(1)] none by (simp add: placed_right_def)
  show "binned env (pl\<lparr>pl_published := True\<rparr>) b r (shape env pls t0 (AtPath i))" if "pl_recycle (pl\<lparr>pl_published := True\<rparr>) = Some r" for r
    using ok_facts(4) [OF assms(1), of r] that by (simp add: binned_def)
qed simp

lemma published_ok:
  assumes "plan_ok env pls t0 t b i pl" "midway pl" "pl_stage pl \<noteq> None"
    "\<And>z. place_index z = i \<Longrightarrow> shape env pls t' z = (if z = AtPath i then shape env pls t (AtStage i) else if z = AtStage i then nothing else shape env pls t z)"
  shows "plan_ok env pls t0 t' b i (pl\<lparr>pl_published := True, pl_published_etag := x\<rparr>)"
proof (rule plan_ok_remark [OF assms(1)])
  show "marks_ok env (pl\<lparr>pl_published := True, pl_published_etag := x\<rparr>)"
    using ok_facts(2) [OF assms(1)] assms(2) by (auto simp: marks_ok_def midway_def)
  show "placed_right env (pl\<lparr>pl_published := True, pl_published_etag := x\<rparr>) (shape env pls t0 (AtPath i)) (shape env pls t' (AtPath i)) (shape env pls t' (AtStage i)) (shape env pls t' (AtBackup i))"
    using ok_facts(3) [OF assms(1)] assms(2-4) by (simp add: placed_right_def midway_def)
qed (use assms(2) in \<open>simp_all add: midway_def\<close>)

lemma triple_publish:
  assumes sep: "separate env pls" and keep: "keeps_content env" and i: "i < length pls"
    and inv: "inv env pls t0 b0 {} t b ps" and Pr: "each pls Pr ps" and mid: "midway (ps ! i)" and not: "\<not> skipped (ps ! i)"
  shows "triple (txn_is t b ps) (publish_stage env i) (\<lambda>_. good env pls t0 b0 {} (Pr(i := committed))) (good env pls t0 b0 {} anyhow)"
  unfolding publish_stage_def
proof (rule triple_with_plan, rule triple_if)
  let ?pl = "ps ! i"
  note len = inv_length [OF inv]
  have ok: "plan_ok env pls t0 t b i ?pl" by (rule inv_plan [OF inv i]) simp
  assume del: "pl_deleted ?pl"
  have "inv env pls t0 b0 {} t b (ps[i := ?pl\<lparr>pl_published := True\<rparr>])"
    by (rule inv_marks [OF inv i]) (simp_all add: deleted_published_ok [OF ok del])
  moreover have "committed (?pl\<lparr>pl_published := True\<rparr>)" using mid not del by (auto simp: committed_def skipped_def midway_def)
  ultimately have "good env pls t0 b0 {} (Pr(i := committed)) s" if "txn_is t b (ps[i := ?pl\<lparr>pl_published := True\<rparr>]) s" for s
    using goodI each_update [OF Pr len] that by blast
  then show "triple (txn_is t b ps) (set_plan i (\<lambda>pl. pl\<lparr>pl_published := True\<rparr>)) (\<lambda>_. good env pls t0 b0 {} (Pr(i := committed))) (good env pls t0 b0 {} anyhow)"
    by (intro triple_weaken [OF triple_set_plan]) auto
next
  let ?pl = "ps ! i"
  note len = inv_length [OF inv]
  have ok: "plan_ok env pls t0 t b i ?pl" by (rule inv_plan [OF inv i]) simp
  have bad: "good env pls t0 b0 {} anyhow s" if "txn_is t b ps s" for s by (rule goodI [OF inv _ that]) simp
  let ?r = "relabel env (slot env pls (AtPath i))"
  let ?t = "moved ?r (slot env pls (AtStage i)) (slot env pls (AtPath i)) t"
  let ?out = "\<lambda>x. ps[i := ?pl\<lparr>pl_published := True, pl_published_etag := x\<rparr>]"
  have path: "pl_path ?pl = slot env pls (AtPath i)" by (rule plan_slots(1) [OF ok_facts(1) [OF ok]])
  have stat: "triple (txn_is t b ps) (on_disk (file_stat p)) (\<lambda>_. txn_is t b ps) (good env pls t0 b0 {} anyhow)" for p
    by (rule triple_weaken [OF reads_on_disk [OF reads_file_stat]]) (auto intro: bad)
  have rename: "triple (txn_is t b ps) (on_disk (safe_rename ?r (slot env pls (AtStage i)) (slot env pls (AtPath i)))) (\<lambda>_. txn_is ?t b ps)
      (good env pls t0 b0 {} anyhow)"
    by (rule triple_weaken [OF triple_move [OF sep]]) (use i in \<open>auto intro: bad\<close>)
  assume del: "\<not> pl_deleted ?pl"
  have out: "inv env pls t0 b0 {} ?t b (?out x)" if st: "pl_stage ?pl \<noteq> None" for x
  proof (rule inv_move [OF inv sep keep i])
    fix t'
    assume "\<And>z. place_index z = i \<Longrightarrow> shape env pls t' z =
      (if z = AtPath i then shape env pls t (AtStage i) else if z = AtStage i then nothing else shape env pls t z)"
    then show "plan_ok env pls t0 t' b i (?pl\<lparr>pl_published := True, pl_published_etag := x\<rparr>)" by (rule published_ok [OF ok mid st])
  qed simp_all
  have "committed (?pl\<lparr>pl_published := True, pl_published_etag := x\<rparr>)" if "pl_stage ?pl \<noteq> None" for x
    using mid not that by (auto simp: committed_def skipped_def midway_def)
  then have reached: "good env pls t0 b0 {} (Pr(i := committed)) s" if "pl_stage ?pl \<noteq> None" "txn_is ?t b (?out x) s" for s x
    using goodI [OF out each_update [OF Pr len]] that by blast
  have mark: "triple (txn_is ?t b ps) (set_plan i (\<lambda>pl. pl\<lparr>pl_published := True, pl_published_etag := x\<rparr>)) (\<lambda>_. good env pls t0 b0 {} (Pr(i := committed)))
      (good env pls t0 b0 {} anyhow)" if "pl_stage ?pl \<noteq> None" for x
    by (rule triple_weaken [OF triple_set_plan]) (use reached [OF that] in auto)
  show "triple (txn_is t b ps) (case pl_stage ?pl of None \<Rightarrow> fail_with AssertionError
      | Some stage \<Rightarrow> then_do (on_disk (file_stat stage)) (\<lambda>n.
          then_do (on_disk (safe_rename (relabel env (pl_path ?pl)) stage (pl_path ?pl))) (\<lambda>_.
          set_plan i (\<lambda>pl. pl\<lparr>pl_published := True, pl_published_etag := Some (nd_etag n)\<rparr>))))
      (\<lambda>_. good env pls t0 b0 {} (Pr(i := committed))) (good env pls t0 b0 {} anyhow)"
  proof (cases "pl_stage ?pl")
    case None
    then show ?thesis by (simp add: triple_fail bad)
  next
    case (Some st)
    then have "pl_stage ?pl \<noteq> None" by simp
    note mark = mark [OF this]
    show ?thesis unfolding Some option.case path stage_slot [OF ok Some]
      by (rule triple_then [OF stat triple_then [OF rename mark]])
  qed
qed

lemma each_at: "each pls Pr ps \<Longrightarrow> i < length pls \<Longrightarrow> Pr i = R \<Longrightarrow> R (ps ! i)"
  by (metis each_def)

lemma skipped_fixed: "fixed pl' = fixed pl \<Longrightarrow> skipped pl' = skipped pl"
  using fixed_same [of pl' pl] by (simp add: skipped_def)

lemma inv_fixed:
  assumes "inv env pls t0 b0 W t b ps" "j < length pls"
  shows "fixed (ps ! j) = fixed (pls ! j)"
  using assms by (auto simp: inv_def plan_ok_def plan_kept_def split: if_splits)

lemma triple_commit_plan:
  assumes sep: "separate env pls" and keep: "keeps_content env" and i: "i < length pls" and un: "Pr i = untouched"
  shows "triple (good env pls t0 b0 {} Pr) (commit_plan env i) (\<lambda>_. good env pls t0 b0 {} (Pr(i := committed))) (good env pls t0 b0 {} anyhow)"
proof (rule triple_good)
  fix t b ps
  assume inv: "inv env pls t0 b0 {} t b ps" and Pr: "each pls Pr ps"
  have u: "untouched (ps ! i)" by (rule each_at [OF Pr i un])
  have skip: "good env pls t0 b0 {} (Pr(i := committed)) s" if "skipped (ps ! i)" "txn_is t b ps s" for s
    by (rule goodI [OF inv each_same [OF Pr] that(2)]) (simp add: committed_def that u)
  have publish: "triple (good env pls t0 b0 {} (Pr(i := midway))) (publish_stage env i) (\<lambda>_. good env pls t0 b0 {} (Pr(i := committed))) (good env pls t0 b0 {} anyhow)"
    if not: "\<not> skipped (ps ! i)"
  proof (rule triple_good)
    fix t' b' ps'
    assume inv': "inv env pls t0 b0 {} t' b' ps'" and Pr': "each pls (Pr(i := midway)) ps'"
    have "midway (ps' ! i)" by (rule each_at [OF Pr' i]) simp
    moreover have "\<not> skipped (ps' ! i)" using skipped_fixed inv_fixed [OF inv i] inv_fixed [OF inv' i] not by metis
    ultimately show "triple (txn_is t' b' ps') (publish_stage env i) (\<lambda>_. good env pls t0 b0 {} (Pr(i := committed))) (good env pls t0 b0 {} anyhow)"
      using triple_publish [OF sep keep i inv' Pr'] by simp
  qed
  show "triple (txn_is t b ps) (commit_plan env i) (\<lambda>_. good env pls t0 b0 {} (Pr(i := committed))) (good env pls t0 b0 {} anyhow)"
    unfolding commit_plan_def
    by (rule triple_with_plan, rule triple_if, rule triple_give)
      (use skip publish in \<open>auto simp: skipped_def intro!: triple_then [OF triple_back_up [OF sep keep i inv Pr u]]\<close>)
qed

lemma good_cong: "(\<And>j. j < length pls \<Longrightarrow> Pr j = Pr' j) \<Longrightarrow> good env pls t0 b0 W Pr s \<Longrightarrow> good env pls t0 b0 W Pr' s"
  unfolding good_def each_def by metis

text \<open>A loop that takes the plans one by one from one mark to another.\<close>

lemma triple_for_list:
  assumes "\<And>i Pr. i \<in> set js \<Longrightarrow> Pr i = A \<Longrightarrow> (\<And>j. Pr j = A \<or> Pr j = B) \<Longrightarrow>
      triple (good env pls t0 b0 W Pr) (f i) (\<lambda>_. good env pls t0 b0 W (Pr(i := B))) E"
    and "distinct js" "\<And>i. i \<in> set js \<Longrightarrow> Pr i = A" "\<And>j. Pr j = A \<or> Pr j = B"
  shows "triple (good env pls t0 b0 W Pr) (for_each js f) (\<lambda>_. good env pls t0 b0 W (\<lambda>j. if j \<in> set js then B else Pr j)) E"
  using assms
proof (induction js arbitrary: Pr)
  case Nil
  then show ?case by (simp add: triple_give)
next
  case (Cons i js)
  have first: "triple (good env pls t0 b0 W Pr) (f i) (\<lambda>_. good env pls t0 b0 W (Pr(i := B))) E" by (rule Cons.prems(1)) (use Cons.prems(3,4) in auto)
  have rest: "triple (good env pls t0 b0 W (Pr(i := B))) (for_each js f) (\<lambda>_. good env pls t0 b0 W (\<lambda>j. if j \<in> set js then B else (Pr(i := B)) j)) E"
    by (rule Cons.IH) (use Cons.prems in auto)
  have same: "(\<lambda>j. if j \<in> set js then B else (Pr(i := B)) j) = (\<lambda>j. if j \<in> set (i # js) then B else Pr j)" using Cons.prems(2) by auto
  show ?case unfolding for_each.simps same [symmetric] by (rule triple_then [OF first rest])
qed

lemma triple_for_each:
  assumes "\<And>i Pr. i < length pls \<Longrightarrow> Pr i = A \<Longrightarrow> (\<And>j. Pr j = A \<or> Pr j = B) \<Longrightarrow>
      triple (good env pls t0 b0 W Pr) (f i) (\<lambda>_. good env pls t0 b0 W (Pr(i := B))) E"
  shows "triple (good env pls t0 b0 W (\<lambda>_. A)) (for_each [0..<length pls] f) (\<lambda>_. good env pls t0 b0 W (\<lambda>_. B)) E"
  by (rule triple_weaken [OF triple_for_list [where A = A and B = B and Pr = "\<lambda>_. A"]]) (use assms in \<open>auto elim!: good_cong [rotated]\<close>)

section \<open>Into the bin\<close>

definition landed :: "plan \<Rightarrow> bool" where
  "landed pl \<longleftrightarrow> (if pl_deleted pl then pl_recycle pl \<noteq> None else committed pl)"

lemma content_detach: "apart_paths q p \<Longrightarrow> content_at (detach p t) q = content_at t q" "content_at (detach p t) p = nothing"
  using apart_extend [of p q] by (auto simp: content_at_def detach_def apart_sym)

lemma shape_detach:
  assumes "separate env pls" "valid_place pls y" "valid_place pls z"
  shows "shape env pls (detach (slot env pls y) t) z = (if z = y then nothing else shape env pls t z)"
  using assms content_detach by (simp add: shape_def separate_def)

lemma outside_detach: "valid_place pls y \<Longrightarrow> outside env pls q \<Longrightarrow> detach (slot env pls y) t q = t q"
  by (simp add: outside_def detach_def)

lemma bins_ok_entry:
  assumes "bins_ok b0 b ps" "r \<notin> fst ` set b" "pl_recycle pl \<in> {None, Some r}"
  shows "bins_ok b0 ((r, e) # b) (ps[i := pl])"
proof -
  have old: "r' \<in> fst ` set b" if "r' \<in> fst ` set b0" for r'
    using assms(1) that by (metis bins_ok_def map_of_eq_None_iff)
  have known: "r' \<in> fst ` set b \<and> r' \<notin> fst ` set b0" if "j < length ps" "pl_recycle (ps ! j) = Some r'" for j r'
    using assms(1) that unfolding bins_ok_def by blast
  have one: "j = k" if "j < length ps" "k < length ps" "pl_recycle (ps ! j) = Some r'" "pl_recycle (ps ! k) = Some r'" for j k r'
    using assms(1) that unfolding bins_ok_def by blast
  have at: "j = i \<and> r' = r \<or> j \<noteq> i \<and> pl_recycle (ps ! j) = Some r'" if "pl_recycle (ps[i := pl] ! j) = Some r'" "j < length ps" for j r'
    using that assms(3) by (cases "j = i") auto
  have "map_of ((r, e) # b) r' = map_of b0 r'" if "r' \<in> fst ` set b0" for r'
    using assms(1,2) old [OF that] that by (auto simp: bins_ok_def)
  moreover have "r' \<in> fst ` set ((r, e) # b) \<and> r' \<notin> fst ` set b0" if "j < length (ps[i := pl])" "pl_recycle (ps[i := pl] ! j) = Some r'" for j r'
    using at [OF that(2)] known [of j r'] that old assms(2) by auto
  moreover have "j = k" if "j < length (ps[i := pl])" "k < length (ps[i := pl])" "pl_recycle (ps[i := pl] ! j) = Some r'" "pl_recycle (ps[i := pl] ! k) = Some r'" for j k r'
    using at [OF that(3)] at [OF that(4)] that(1,2) one [of j k r'] known [of j r'] known [of k r'] assms(2) by auto
  ultimately show ?thesis unfolding bins_ok_def by blast
qed

lemma inv_entry:
  assumes "inv env pls t0 b0 {} t b ps" "r \<notin> fst ` set b" "i < length pls" "pl_recycle (ps ! i) = None"
  shows "inv env pls t0 b0 {} t ((r, e) # b) ps"
proof -
  have bins: "bins_ok b0 b ps" using assms(1) by (simp add: inv_def)
  have "inv env pls t0 b0 {} t ((r, e) # b) (ps[i := ps ! i])"
  proof (rule inv_step [OF assms(1,3)])
    show "map_of ((r, e) # b) r' = map_of b r'" if "j < length pls" "pl_recycle (ps ! j) = Some r'" for j r'
    proof -
      have "r' \<in> fst ` set b" using bins that inv_length [OF assms(1)] unfolding bins_ok_def by auto
      then show ?thesis using assms(2) by auto
    qed
    show "bins_ok b0 ((r, e) # b) (ps[i := ps ! i])" by (rule bins_ok_entry [OF bins assms(2)]) (simp add: assms(4))
    have "plan_ok env pls t0 t b i (ps ! i)" by (rule inv_plan [OF assms(1,3)]) simp
    then show "if i \<in> {} then plan_kept env pls t0 t ((r, e) # b) i (ps ! i) else plan_ok env pls t0 t ((r, e) # b) i (ps ! i)"
      using assms(4) by (simp add: plan_ok_def)
  qed simp_all
  then show ?thesis by simp
qed

text \<open>The paths of the plans are already resolved, and an identifier of the bin is never empty.\<close>

definition bins_fit :: "mutation_env \<Rightarrow> plan list \<Rightarrow> bool" where
  "bins_fit env pls \<longleftrightarrow>
     (\<forall>pl \<in> set pls. rb_resolve (me_bin env (pl_path pl)) (pl_path pl) = pl_path pl) \<and> (\<forall>i. me_rid env i \<noteq> [])"

lemma relative_back:
  "rb_resolve env p = p \<Longrightarrow> relative_to_workspace env p = Inr rel \<Longrightarrow> rb_root env @ rel = p"
  by (auto simp: relative_to_workspace_def Let_def split: if_splits) (metis append_take_drop_id)

lemma sub_content: "content_at (sub t p) [] = content_at t p"
  by (simp add: content_at_def sub_def)

lemma recycled_ok:
  assumes ok: "plan_ok env pls t0 t b i pl" and "pl_deleted pl" "pl_recycle pl = None"
    and here: "t (slot env pls (AtBackup i)) \<noteq> None" and root: "rb_root (me_bin env (pl_path pl)) @ rel = pl_path pl"
    and shapes: "\<And>z. place_index z = i \<Longrightarrow> shape env pls t' z = (if z = AtBackup i then nothing else shape env pls t z)"
  shows "plan_ok env pls t0 t' ((r, entry_of rel k (Some (sub t (slot env pls (AtBackup i))))) # b) i (pl\<lparr>pl_recycle := Some r, pl_backed_up := False\<rparr>)"
proof (rule plan_ok_remark [OF ok])
  have stage: "pl_stage pl = None" using ok_facts(2) [OF ok] assms(2) by (simp add: marks_ok_def)
  have "shape env pls t (AtBackup i) [] \<noteq> None" using here by (simp add: shape_def content_at_def)
  then have b: "pl_backed_up pl" "shape env pls t (AtBackup i) = shape env pls t0 (AtPath i)"
    using ok_facts(3) [OF ok] by (auto simp: placed_right_def split: if_splits)
  show "marks_ok env (pl\<lparr>pl_recycle := Some r, pl_backed_up := False\<rparr>)"
    using ok_facts(2) [OF ok] assms(2) stage by (simp add: marks_ok_def)
  show "placed_right env (pl\<lparr>pl_recycle := Some r, pl_backed_up := False\<rparr>) (shape env pls t0 (AtPath i)) (shape env pls t' (AtPath i)) (shape env pls t' (AtStage i)) (shape env pls t' (AtBackup i))"
    using ok_facts(3) [OF ok] stage b(1) shapes by (simp add: placed_right_def)
  show "binned env (pl\<lparr>pl_recycle := Some r, pl_backed_up := False\<rparr>) ((r, entry_of rel k (Some (sub t (slot env pls (AtBackup i))))) # b) r' (shape env pls t0 (AtPath i))"
    if "pl_recycle (pl\<lparr>pl_recycle := Some r, pl_backed_up := False\<rparr>) = Some r'" for r'
  proof -
    have "content_at (sub t (slot env pls (AtBackup i))) [] = shape env pls t0 (AtPath i)" using b(2) by (simp add: sub_content shape_def)
    moreover have "sub t (slot env pls (AtBackup i)) [] \<noteq> None" using here by (simp add: sub_def)
    ultimately show ?thesis using that root by (simp add: binned_def entry_of_def)
  qed
qed simp

lemma triple_recycle_plan:
  assumes sep: "separate env pls" and bins: "bins_fit env pls" and i: "i < length pls" and cm: "Pr i = committed"
  shows "triple (good env pls t0 b0 {} Pr) (recycle_plan env i) (\<lambda>_. good env pls t0 b0 {} (Pr(i := landed))) (good env pls t0 b0 {} anyhow)"
proof (rule triple_good)
  fix t b ps
  assume inv: "inv env pls t0 b0 {} t b ps" and Pr: "each pls Pr ps"
  let ?pl = "ps ! i"
  note len = inv_length [OF inv]
  have ok: "plan_ok env pls t0 t b i ?pl" by (rule inv_plan [OF inv i]) simp
  have c: "committed ?pl" by (rule each_at [OF Pr i cm])
  have none: "pl_recycle ?pl = None" using c by (auto simp: committed_def untouched_def split: if_splits)
  have bad: "good env pls t0 b0 {} anyhow s" if "txn_is t b ps s" for s by (rule goodI [OF inv _ that]) simp
  let ?rid = "me_rid env (pl_index ?pl)"
  let ?t = "detach (slot env pls (AtBackup i)) t"
  let ?b = "\<lambda>rel k. (?rid, entry_of rel k (Some (sub t (slot env pls (AtBackup i))))) # b"
  let ?done = "\<lambda>s. \<exists>rel k. rb_root (me_bin env (pl_path ?pl)) @ rel = pl_path ?pl \<and> t (slot env pls (AtBackup i)) \<noteq> None \<and> ?rid \<notin> fst ` set b \<and> txn_is ?t (?b rel k) ps s"
  have path: "pl_path ?pl = pl_path (pls ! i)" using fixed_same [OF ok_facts(1) [OF ok]] by simp
  have resolved: "rb_resolve (me_bin env (pl_path ?pl)) (pl_path ?pl) = pl_path ?pl" "?rid \<noteq> []"
    using bins i unfolding path bins_fit_def by simp_all
  have moved: "triple (txn_is t b ps) (on_disk (recycle (me_bin env (pl_path ?pl)) ?rid (slot env pls (AtBackup i)) (pl_path ?pl)))
      (\<lambda>r s. r = ?rid \<and> ?done s) (good env pls t0 b0 {} anyhow)"
  proof (rule triple_weaken [OF triple_on_disk [OF triple_recycle]])
    fix s :: txn
    assume s: "unstored t b ?rid (tx_disk s) \<and> tx_plans s = ps"
    show "good env pls t0 b0 {} anyhow s"
    proof (cases "disk_is t b (tx_disk s)")
      case True
      then show ?thesis using s bad by (simp add: txn_is_def)
    next
      case False
      then obtain rel k where e: "disk_is t ((?rid, entry_of rel k None) # b) (tx_disk s)" "?rid \<notin> fst ` set b" using s by (auto simp: unstored_def)
      show ?thesis by (rule goodI [OF inv_entry [OF inv e(2) i none]]) (use e(1) s in \<open>auto simp: txn_is_def\<close>)
    qed
  qed (use relative_back [OF resolved(1)] in \<open>auto simp: txn_is_def\<close>)
  have landing: "good env pls t0 b0 {} (Pr(i := landed)) s"
    if del: "pl_deleted ?pl" and r: "rb_root (me_bin env (pl_path ?pl)) @ rel = pl_path ?pl" "t (slot env pls (AtBackup i)) \<noteq> None" "?rid \<notin> fst ` set b"
      and s: "txn_is ?t (?b rel k) (ps[i := ?pl\<lparr>pl_recycle := Some ?rid, pl_backed_up := False\<rparr>]) s" for rel k s
  proof (rule goodI [OF _ each_update [OF Pr len] s])
    note sh = shape_detach [OF sep, of "AtBackup i"]
    show "inv env pls t0 b0 {} ?t (?b rel k) (ps[i := ?pl\<lparr>pl_recycle := Some ?rid, pl_backed_up := False\<rparr>])"
    proof (rule inv_step [OF inv i])
      show "?t q = t q" if "outside env pls q" for q by (rule outside_detach [OF _ that]) (simp add: i)
      show "shape env pls ?t z = shape env pls t z" if "valid_place pls z" "place_index z \<noteq> i" for z
        using sh [OF _ that(1)] that(2) i by auto
      show "map_of (?b rel k) r' = map_of b r'" if "j < length pls" "pl_recycle (ps ! j) = Some r'" for j r'
        using inv that r(3) len by (auto simp: inv_def bins_ok_def)
      show "bins_ok b0 (?b rel k) (ps[i := ?pl\<lparr>pl_recycle := Some ?rid, pl_backed_up := False\<rparr>])"
        by (rule bins_ok_entry [OF _ r(3)]) (use inv in \<open>simp_all add: inv_def\<close>)
      have "plan_ok env pls t0 ?t (?b rel k) i (?pl\<lparr>pl_recycle := Some ?rid, pl_backed_up := False\<rparr>)"
        by (rule recycled_ok [OF ok del none r(2,1)]) (use sh i in simp)
      then show "if i \<in> {} then plan_kept env pls t0 ?t (?b rel k) i (?pl\<lparr>pl_recycle := Some ?rid, pl_backed_up := False\<rparr>)
          else plan_ok env pls t0 ?t (?b rel k) i (?pl\<lparr>pl_recycle := Some ?rid, pl_backed_up := False\<rparr>)" by simp
    qed simp
    show "landed (?pl\<lparr>pl_recycle := Some ?rid, pl_backed_up := False\<rparr>)" using del by (simp add: landed_def)
  qed
  have mark: "triple (\<lambda>s. r = ?rid \<and> ?done s) (if r = [] then fail_with e else set_plan i (\<lambda>pl. pl\<lparr>pl_recycle := Some r, pl_backed_up := False\<rparr>))
      (\<lambda>_. good env pls t0 b0 {} (Pr(i := landed))) (good env pls t0 b0 {} anyhow)" if del: "pl_deleted ?pl" for r e
  proof (cases "r = ?rid")
    case True
    then show ?thesis using resolved(2) landing [OF del]
      by (auto simp: triple_def set_plan_def txn_is_def)
  next
    case False
    then show ?thesis by (simp add: triple_def)
  qed
  show "triple (txn_is t b ps) (recycle_plan env i) (\<lambda>_. good env pls t0 b0 {} (Pr(i := landed))) (good env pls t0 b0 {} anyhow)"
    unfolding recycle_plan_def
  proof (rule triple_with_plan, rule triple_if)
    assume "\<not> pl_deleted ?pl"
    then have "landed ?pl" using c by (simp add: landed_def)
    then show "triple (txn_is t b ps) (give ()) (\<lambda>_. good env pls t0 b0 {} (Pr(i := landed))) (good env pls t0 b0 {} anyhow)"
      by (intro triple_give goodI [OF inv each_same [OF Pr]])
  next
    assume del: "\<not> \<not> pl_deleted ?pl"
    show "triple (txn_is t b ps) (case pl_backup ?pl of None \<Rightarrow> fail_with AssertionError
        | Some backup \<Rightarrow> then_do (on_disk (recycle (me_bin env (pl_path ?pl)) ?rid backup (pl_path ?pl))) (\<lambda>rid.
             if rid = [] then fail_with (ApiError 500 ''invalid_recycle_result'' ''transactional delete did not return a recycle id'')
             else set_plan i (\<lambda>pl. pl\<lparr>pl_recycle := Some rid, pl_backed_up := False\<rparr>)))
        (\<lambda>_. good env pls t0 b0 {} (Pr(i := landed))) (good env pls t0 b0 {} anyhow)"
    proof (cases "pl_backup ?pl")
      case None
      then show ?thesis by (simp add: triple_fail bad)
    next
      case (Some bk)
      show ?thesis unfolding Some option.case backup_slot [OF ok Some]
        by (rule triple_then [OF moved mark]) (use del in simp)
    qed
  qed
qed

section \<open>The whole commit\<close>

lemma good_length: "good env pls t0 b0 W Pr s \<Longrightarrow> length (tx_plans s) = length pls"
  by (auto simp: good_def inv_def txn_is_def)

lemma triple_commit_plans:
  assumes sep: "separate env pls" and keep: "keeps_content env" and bins: "bins_fit env pls"
  shows "triple (good env pls t0 b0 {} (\<lambda>_. untouched)) (commit_plans env) (\<lambda>_. good env pls t0 b0 {} (\<lambda>_. landed)) (good env pls t0 b0 {} anyhow)"
proof -
  let ?n = "length pls"
  have one: "triple (good env pls t0 b0 {} (\<lambda>_. untouched)) (for_each [0..<?n] (commit_plan env)) (\<lambda>_. good env pls t0 b0 {} (\<lambda>_. committed)) (good env pls t0 b0 {} anyhow)"
    by (rule triple_for_each, rule triple_commit_plan [OF sep keep])
  have two: "triple (good env pls t0 b0 {} (\<lambda>_. committed)) (for_each [0..<?n] (recycle_plan env)) (\<lambda>_. good env pls t0 b0 {} (\<lambda>_. landed)) (good env pls t0 b0 {} anyhow)"
    by (rule triple_for_each, rule triple_recycle_plan [OF sep bins])
  note both = triple_then [OF one two]
  show ?thesis
  proof (rule tripleI)
    fix s x s'
    assume s: "good env pls t0 b0 {} (\<lambda>_. untouched) s" "commit_plans env s = (Inr x, s')"
    then show "good env pls t0 b0 {} (\<lambda>_. landed) s'" using triple_Inr [OF both s(1)] good_length [OF s(1)] by (simp add: commit_plans_def)
  next
    fix s e s'
    assume s: "good env pls t0 b0 {} (\<lambda>_. untouched) s" "commit_plans env s = (Inl e, s')"
    then show "good env pls t0 b0 {} anyhow s'" using triple_Inl [OF both s(1)] good_length [OF s(1)] by (simp add: commit_plans_def)
  qed
qed

end
