(* ===== verification/Mutation_Undo.thy ===== *)
theory Mutation_Undo
  imports Mutation_Steps
begin

text \<open>
  The rollback: each plan is undone, or given up with its original kept, and then nothing else of it is touched.
  \<open>commit_or_undo_good\<close> puts commit and rollback together.
\<close>

section \<open>One plan\<close>

definition undone :: "plan \<Rightarrow> bool" where
  "undone pl \<longleftrightarrow> \<not> pl_backed_up pl \<and> pl_recycle pl = None \<and> \<not> (pl_published pl \<and> pl_stage pl \<noteq> None)"

lemma content_attach: "content_at (attach p item t) p = content_at item []" "apart_paths q p \<Longrightarrow> content_at (attach p item t) q = content_at t q"
  using apart_extend [of p q] by (auto simp: content_at_def attach_def apart_sym)

lemma shape_attach:
  assumes "separate env pls" "valid_place pls y" "valid_place pls z"
  shows "shape env pls (attach (slot env pls y) item t) z = (if z = y then content_at item [] else shape env pls t z)"
  using assms content_attach by (simp add: shape_def separate_def)

lemma outside_attach: "valid_place pls y \<Longrightarrow> outside env pls q \<Longrightarrow> attach (slot env pls y) item t q = t q"
  by (simp add: outside_def attach_def)

text \<open>A node is only found below another one.\<close>

definition grounded :: "tree \<Rightarrow> bool" where
  "grounded t \<longleftrightarrow> (\<forall>p q. p \<noteq> [] \<longrightarrow> t (p @ q) \<noteq> None \<longrightarrow> t p \<noteq> None)"

lemma ancestor_outside:
  assumes "separate env pls" "i < length pls" "slot env pls (AtPath i) = p @ q" "q \<noteq> []"
  shows "outside env pls p"
  unfolding outside_def
proof (intro allI impI notI)
  fix x
  assume x: "valid_place pls x" "take (length (slot env pls x)) p = slot env pls x"
  then obtain r where r: "p = slot env pls x @ r" unfolding under by blast
  have "x \<noteq> AtPath i"
  proof
    assume "x = AtPath i"
    then have "length p = length (p @ q) + length r" using arg_cong [OF r, of length] assms(3) by (simp only: length_append)
    then show False using assms(4) by simp
  qed
  then have "apart_paths (slot env pls x) (slot env pls (AtPath i))" using assms(1,2) x(1) by (simp add: separate_def del: slot.simps)
  then show False using r assms(3) by (simp add: apart_paths_def)
qed

lemma directories_exist:
  assumes "inv env pls t0 b0 W t b ps" "separate env pls" "i < length pls" "grounded t0" "t0 (slot env pls (AtPath i)) \<noteq> None"
    and path: "root_dir @ rel = slot env pls (AtPath i)"
  shows "\<forall>p \<in> set (directories_to root_dir rel). t p \<noteq> None"
proof
  fix p
  assume "p \<in> set (directories_to root_dir rel)"
  then obtain k where k: "p = root_dir @ take k rel" "k < length rel" "0 < k" by (auto simp: directories_to_def)
  then have "p \<noteq> []" by auto
  have split: "slot env pls (AtPath i) = p @ drop k rel" "drop k rel \<noteq> []" using path k by (simp_all del: slot.simps)
  have "t p = t0 p" using ancestor_outside [OF assms(2,3) split] assms(1) by (simp add: inv_def)
  moreover have "t0 p \<noteq> None" using assms(4,5) \<open>p \<noteq> []\<close> unfolding split(1) grounded_def by blast
  ultimately show "t p \<noteq> None" by simp
qed

lemma map_of_without: "r' \<noteq> r \<Longrightarrow> map_of (filter (\<lambda>(i, _). i \<noteq> r) b) r' = map_of b r'"
  by (induction b) auto

lemma map_of_set_stored: "r' \<noteq> r \<Longrightarrow> map_of (set_stored r v b) r' = map_of b r'"
  by (induction b) (auto simp: set_stored_def)

lemma keys_set_stored: "fst ` set (set_stored r v b) = fst ` set b"
  by (force simp: set_stored_def)

lemma bins_ok_without:
  assumes "bins_ok b0 b ps" "i < length ps" "pl_recycle (ps ! i) = Some r" "pl_recycle pl = None"
    and same: "\<And>r'. r' \<noteq> r \<Longrightarrow> map_of b' r' = map_of b r'"
  shows "bins_ok b0 b' (ps[i := pl])"
proof -
  have old: "map_of b' r' = map_of b0 r'" if "r' \<in> fst ` set b0" for r'
  proof -
    have "r' \<noteq> r" using assms(1-3) that unfolding bins_ok_def by blast
    then show ?thesis using same assms(1) that by (simp add: bins_ok_def)
  qed
  have at: "j \<noteq> i \<and> pl_recycle (ps ! j) = Some r' \<and> r' \<noteq> r" if "pl_recycle (ps[i := pl] ! j) = Some r'" "j < length ps" for j r'
  proof -
    have j: "j \<noteq> i" "pl_recycle (ps ! j) = Some r'" using that assms(2,4) by (auto simp: nth_list_update split: if_splits)
    moreover have "r' \<noteq> r" using assms(1-3) j that(2) unfolding bins_ok_def by blast
    ultimately show ?thesis by simp
  qed
  have known: "r' \<in> fst ` set b' \<and> r' \<notin> fst ` set b0" if "pl_recycle (ps[i := pl] ! j) = Some r'" "j < length ps" for j r'
  proof -
    have "r' \<in> fst ` set b" "r' \<notin> fst ` set b0" using at [OF that] assms(1) that(2) unfolding bins_ok_def by blast+
    then show ?thesis using same at [OF that] by (metis map_of_eq_None_iff)
  qed
  have one: "j = k" if "pl_recycle (ps[i := pl] ! j) = Some r'" "pl_recycle (ps[i := pl] ! k) = Some r'" "j < length ps" "k < length ps" for j k r'
    using at [OF that(1,3)] at [OF that(2,4)] that(3,4) assms(1) unfolding bins_ok_def by blast
  show ?thesis unfolding bins_ok_def length_list_update using old known one by blast
qed

lemma bins_ok_unstored: "bins_ok b0 b ps \<Longrightarrow> i < length ps \<Longrightarrow> pl_recycle (ps ! i) = Some r \<Longrightarrow> bins_ok b0 (set_stored r v b) ps"
  unfolding bins_ok_def keys_set_stored by (metis map_of_set_stored)

lemma inv_give_up: "inv env pls t0 b0 W t b ps \<Longrightarrow> inv env pls t0 b0 (insert i W) t b ps"
  unfolding inv_def using ok_kept by (metis insert_iff)

lemma good_give_up: "good env pls t0 b0 W Pr s \<Longrightarrow> good env pls t0 b0 (insert i W) (Pr(i := \<lambda>_. True)) s"
proof -
  assume "good env pls t0 b0 W Pr s"
  then obtain t b ps where s: "inv env pls t0 b0 W t b ps" "each pls Pr ps" "txn_is t b ps s" unfolding good_def by blast
  show ?thesis by (rule goodI [OF inv_give_up [OF s(1)] each_same [OF s(2)] s(3)]) simp
qed

lemma restored_ok:
  assumes ok: "plan_ok env pls t0 t b i pl" and "pl_deleted pl" "pl_recycle pl \<noteq> None"
    and shapes: "\<And>z. place_index z = i \<Longrightarrow> shape env pls t' z = (if z = AtPath i then shape env pls t0 (AtPath i) else shape env pls t z)"
  shows "plan_ok env pls t0 t' b' i (pl\<lparr>pl_recycle := None, pl_published := False, pl_backed_up := False\<rparr>)"
proof (rule plan_ok_remark [OF ok])
  have m: "pl_stage pl = None" "\<not> pl_backed_up pl" using ok_facts(2) [OF ok] assms(2,3) by (auto simp: marks_ok_def)
  show "marks_ok env (pl\<lparr>pl_recycle := None, pl_published := False, pl_backed_up := False\<rparr>)"
    using ok_facts(2) [OF ok] by (simp add: marks_ok_def)
  show "placed_right env (pl\<lparr>pl_recycle := None, pl_published := False, pl_backed_up := False\<rparr>) (shape env pls t0 (AtPath i)) (shape env pls t' (AtPath i)) (shape env pls t' (AtStage i)) (shape env pls t' (AtBackup i))"
    using ok_facts(3) [OF ok] m shapes by (simp add: placed_right_def)
qed simp_all

lemma triple_unbin:
  assumes sep: "separate env pls" and g: "grounded t0" and i: "i < length pls" "i \<notin> W"
    and inv: "inv env pls t0 b0 W t b ps" and Pr: "each pls Pr ps" and del: "pl_deleted (ps ! i)" "pl_recycle (ps ! i) = Some r"
  shows "triple (txn_is t b ps) (on_disk (bin_restore (me_bin env (pl_path (ps ! i))) r))
     (\<lambda>_ s. \<exists>t' b'. inv env pls t0 b0 W t' b' (ps[i := (ps ! i)\<lparr>pl_recycle := None, pl_published := False, pl_backed_up := False\<rparr>]) \<and> txn_is t' b' ps s)
     (good env pls t0 b0 (insert i W) (Pr(i := \<lambda>_. True)))"
proof -
  let ?pl = "ps ! i"
  let ?env = "me_bin env (pl_path ?pl)"
  let ?pl' = "?pl\<lparr>pl_recycle := None, pl_published := False, pl_backed_up := False\<rparr>"
  note len = inv_length [OF inv]
  have ok: "plan_ok env pls t0 t b i ?pl" by (rule inv_plan [OF inv i])
  have path: "pl_path ?pl = slot env pls (AtPath i)" by (rule plan_slots(1) [OF ok_facts(1) [OF ok]])
  obtain e item where e: "map_of b r = Some e" "be_stored e = Some item" "content_at item [] = shape env pls t0 (AtPath i)" "item [] \<noteq> None"
    "rb_root ?env @ be_original e = slot env pls (AtPath i)"
    using ok_facts(4) [OF ok del(2)] unfolding binned_def path by blast
  have "t0 (slot env pls (AtPath i)) \<noteq> None" using fun_cong [OF e(3), of "[]"] e(4)
    by (cases "t0 (slot env pls (AtPath i))") (auto simp: shape_def content_at_def simp del: slot.simps)
  note dirs = directories_exist [OF inv sep i(1) g this e(5)]
  let ?t = "attach (slot env pls (AtPath i)) item t"
  note sh = shape_attach [OF sep, of "AtPath i" _ item t, unfolded e(3)]
  have bins: "bins_ok b0 b ps" using inv by (simp add: inv_def)
  have other: "r' \<noteq> r" if "j < length pls" "j \<noteq> i" "pl_recycle (ps ! j) = Some r'" for j r'
    using bins that del(2) i(1) len unfolding bins_ok_def by metis
  have done_: "inv env pls t0 b0 W ?t (filter (\<lambda>(i, _). i \<noteq> r) b) (ps[i := ?pl'])"
  proof (rule inv_step [OF inv i(1)])
    show "?t q = t q" if "outside env pls q" for q by (rule outside_attach [OF _ that]) (simp add: i)
    show "shape env pls ?t z = shape env pls t z" if "valid_place pls z" "place_index z \<noteq> i" for z
      using sh [OF _ that(1)] that(2) i by auto
    show "map_of (filter (\<lambda>(i, _). i \<noteq> r) b) r' = map_of b r'" if "j < length pls" "j \<noteq> i" "pl_recycle (ps ! j) = Some r'" for j r'
      by (rule map_of_without [OF other [OF that]])
    show "bins_ok b0 (filter (\<lambda>(i, _). i \<noteq> r) b) (ps[i := ?pl'])"
      by (rule bins_ok_without [OF bins _ del(2)]) (use i len in \<open>simp_all add: map_of_without\<close>)
    have "plan_ok env pls t0 ?t (filter (\<lambda>(i, _). i \<noteq> r) b) i ?pl'"
      by (rule restored_ok [OF ok del(1)]) (use del(2) sh i in simp_all)
    then show "if i \<in> W then plan_kept env pls t0 ?t (filter (\<lambda>(i, _). i \<noteq> r) b) i ?pl' else plan_ok env pls t0 ?t (filter (\<lambda>(i, _). i \<noteq> r) b) i ?pl'"
      using i(2) by simp
  qed simp
  have half: "inv env pls t0 b0 (insert i W) ?t (set_stored r None b) (ps[i := ?pl])"
  proof (rule inv_step [OF inv i(1)])
    show "?t q = t q" if "outside env pls q" for q by (rule outside_attach [OF _ that]) (simp add: i)
    show "shape env pls ?t z = shape env pls t z" if "valid_place pls z" "place_index z \<noteq> i" for z
      using sh [OF _ that(1)] that(2) i by auto
    show "map_of (set_stored r None b) r' = map_of b r'" if "j < length pls" "j \<noteq> i" "pl_recycle (ps ! j) = Some r'" for j r'
      by (rule map_of_set_stored [OF other [OF that]])
    show "bins_ok b0 (set_stored r None b) (ps[i := ?pl])" using bins_ok_unstored [OF bins _ del(2)] i len by simp
    have "plan_kept env pls t0 ?t (set_stored r None b) i ?pl"
      using ok_facts(1) [OF ok] sh [of "AtPath i"] i by (simp add: plan_kept_def)
    then show "if i \<in> insert i W then plan_kept env pls t0 ?t (set_stored r None b) i ?pl else plan_ok env pls t0 ?t (set_stored r None b) i ?pl" by simp
  qed simp
  have "each pls (Pr(i := \<lambda>_. True)) ps" by (rule each_same [OF Pr]) simp
  note failed = goodI [OF inv_give_up [OF inv] this] goodI [OF half [unfolded list_update_id] this]
  show ?thesis
    by (rule triple_weaken [OF triple_on_disk [OF triple_restore [OF e(1,2) dirs]]])
      (use done_ failed e(5) in \<open>auto simp: txn_is_def half_restored_def simp del: slot.simps\<close>)
qed

text \<open>Nothing is at the path of a file that is to be created.\<close>

definition creates_free :: "mutation_env \<Rightarrow> plan list \<Rightarrow> tree \<Rightarrow> bool" where
  "creates_free env pls t0 \<longleftrightarrow> (\<forall>i < length pls. pl_expected (pls ! i) = None \<longrightarrow> shape env pls t0 (AtPath i) = nothing)"

lemma unpublished_ok:
  assumes ok: "plan_ok env pls t0 t b i pl" and "pl_published pl" "pl_stage pl \<noteq> None" "pl_expected pl = None \<longrightarrow> shape env pls t0 (AtPath i) = nothing"
    and shapes: "\<And>z. place_index z = i \<Longrightarrow> shape env pls t' z = (if z = AtStage i then shape env pls t (AtPath i) else if z = AtPath i then nothing else shape env pls t z)"
  shows "plan_ok env pls t0 t' b i (pl\<lparr>pl_published := False\<rparr>)"
proof (rule plan_ok_remark [OF ok])
  have m: "pl_recycle pl = None" "pl_backed_up pl \<or> pl_expected pl = None" using ok_facts(2) [OF ok] assms(2,3) by (auto simp: marks_ok_def)
  show "marks_ok env (pl\<lparr>pl_published := False\<rparr>)" using ok_facts(2) [OF ok] by (simp add: marks_ok_def)
  show "placed_right env (pl\<lparr>pl_published := False\<rparr>) (shape env pls t0 (AtPath i)) (shape env pls t' (AtPath i)) (shape env pls t' (AtStage i)) (shape env pls t' (AtBackup i))"
    using ok_facts(3) [OF ok] assms(2-4) m shapes by (auto simp: placed_right_def)
  show "binned env (pl\<lparr>pl_published := False\<rparr>) b r (shape env pls t0 (AtPath i))" if "pl_recycle (pl\<lparr>pl_published := False\<rparr>) = Some r" for r
    using that m(1) by simp
qed simp

lemma put_back_ok:
  assumes ok: "plan_ok env pls t0 t b i pl" and "pl_backed_up pl" "\<not> (pl_published pl \<and> pl_stage pl \<noteq> None)"
    and shapes: "\<And>z. place_index z = i \<Longrightarrow> shape env pls t' z = (if z = AtPath i then shape env pls t (AtBackup i) else if z = AtBackup i then nothing else shape env pls t z)"
  shows "plan_ok env pls t0 t' b i (pl\<lparr>pl_backed_up := False, pl_published := False\<rparr>)"
proof (rule plan_ok_remark [OF ok])
  have m: "pl_recycle pl = None" using ok_facts(2) [OF ok] assms(2) by (auto simp: marks_ok_def)
  show "marks_ok env (pl\<lparr>pl_backed_up := False, pl_published := False\<rparr>)" using ok_facts(2) [OF ok] by (simp add: marks_ok_def)
  show "placed_right env (pl\<lparr>pl_backed_up := False, pl_published := False\<rparr>) (shape env pls t0 (AtPath i)) (shape env pls t' (AtPath i)) (shape env pls t' (AtStage i)) (shape env pls t' (AtBackup i))"
    using ok_facts(3) [OF ok] assms(2,3) m shapes by (auto simp: placed_right_def)
  show "binned env (pl\<lparr>pl_backed_up := False, pl_published := False\<rparr>) b r (shape env pls t0 (AtPath i))"
    if "pl_recycle (pl\<lparr>pl_backed_up := False, pl_published := False\<rparr>) = Some r" for r
    using that m by simp
qed simp

definition withdrawn :: "plan \<Rightarrow> bool" where
  "withdrawn pl \<longleftrightarrow> pl_recycle pl = None \<and> \<not> (pl_published pl \<and> pl_stage pl \<noteq> None)"

lemma triple_unpublish:
  assumes sep: "separate env pls" and keep: "keeps_content env" and free: "creates_free env pls t0" and i: "i < length pls" "i \<notin> W"
    and inv: "inv env pls t0 b0 W t b ps" and Pr: "each pls Pr ps" and r: "pl_recycle (ps ! i) = None"
  shows "triple (txn_is t b ps) (unpublish env i)
     (\<lambda>went s. if went then good env pls t0 b0 W (Pr(i := withdrawn)) s else good env pls t0 b0 (insert i W) (Pr(i := \<lambda>_. True)) s)
     (good env pls t0 b0 (insert i W) (Pr(i := \<lambda>_. True)))"
proof -
  let ?pl = "ps ! i"
  let ?E = "good env pls t0 b0 (insert i W) (Pr(i := \<lambda>_. True))"
  note len = inv_length [OF inv]
  have ok: "plan_ok env pls t0 t b i ?pl" by (rule inv_plan [OF inv i])
  have path: "pl_path ?pl = slot env pls (AtPath i)" by (rule plan_slots(1) [OF ok_facts(1) [OF ok]])
  have bad: "?E s" if "txn_is t b ps s" for s by (rule good_give_up [OF goodI [OF inv Pr that]])
  have same: "good env pls t0 b0 W (Pr(i := withdrawn)) s" if "\<not> (pl_published ?pl \<and> pl_stage ?pl \<noteq> None)" "txn_is t b ps s" for s
    by (rule goodI [OF inv each_same [OF Pr] that(2)]) (use that(1) r in \<open>simp add: withdrawn_def\<close>)
  let ?r = "relabel env (slot env pls (AtPath i))"
  let ?t = "moved ?r (slot env pls (AtPath i)) (slot env pls (AtStage i)) t"
  have look: "triple (txn_is t b ps) (on_disk (still_ours env ?pl)) (\<lambda>_. txn_is t b ps) ?E"
    by (rule triple_weaken [OF reads_on_disk [OF reads_still_ours]]) (auto intro: bad)
  have rename: "triple (txn_is t b ps) (on_disk (safe_rename ?r (slot env pls (AtPath i)) (slot env pls (AtStage i)))) (\<lambda>_. txn_is ?t b ps) ?E"
    by (rule triple_weaken [OF triple_move [OF sep]]) (use i in \<open>auto intro: bad\<close>)
  have reverted: "inv env pls t0 b0 W ?t b (ps[i := ?pl\<lparr>pl_published := False\<rparr>])" if p: "pl_published ?pl" "pl_stage ?pl \<noteq> None"
  proof (rule inv_move [OF inv sep keep i(1)])
    have none: "pl_expected ?pl = None \<longrightarrow> shape env pls t0 (AtPath i) = nothing"
      using free i(1) fixed_same [OF ok_facts(1) [OF ok]] by (simp add: creates_free_def)
    fix t'
    assume "\<And>z. place_index z = i \<Longrightarrow> shape env pls t' z =
      (if z = AtStage i then shape env pls t (AtPath i) else if z = AtPath i then nothing else shape env pls t z)"
    then show "plan_ok env pls t0 t' b i (?pl\<lparr>pl_published := False\<rparr>)" by (rule unpublished_ok [OF ok p none])
  qed (use i in simp_all)
  have mark: "triple (txn_is ?t b ps) (set_plan i (\<lambda>pl. pl\<lparr>pl_published := False\<rparr>)) (\<lambda>_. good env pls t0 b0 W (Pr(i := withdrawn))) ?E"
    if p: "pl_published ?pl" "pl_stage ?pl \<noteq> None"
    by (rule triple_weaken [OF triple_set_plan]) (use goodI [OF reverted [OF p] each_update [OF Pr len]] r in \<open>auto simp: withdrawn_def\<close>)
  show ?thesis unfolding unpublish_def
  proof (rule triple_with_plan, cases "pl_published ?pl \<and> pl_stage ?pl \<noteq> None")
    case False
    then show "triple (txn_is t b ps) (case (pl_published ?pl, pl_stage ?pl) of
         (True, Some stage) \<Rightarrow>
           then_do (on_disk (still_ours env ?pl)) (\<lambda>same.
             if \<not> same then give False
             else then_do (on_disk (safe_rename (relabel env (pl_path ?pl)) (pl_path ?pl) stage)) (\<lambda>_.
               then_do (set_plan i (\<lambda>pl. pl\<lparr>pl_published := False\<rparr>)) (\<lambda>_. give True)))
       | _ \<Rightarrow> give True) (\<lambda>went s. if went then good env pls t0 b0 W (Pr(i := withdrawn)) s else ?E s) ?E"
      using same [OF False] by (auto simp: triple_def give_def split: option.split bool.split)
  next
    case True
    then obtain st where st: "pl_published ?pl = True" "pl_stage ?pl = Some st" by auto
    have p: "pl_published ?pl" "pl_stage ?pl \<noteq> None" using True by simp_all
    show "triple (txn_is t b ps) (case (pl_published ?pl, pl_stage ?pl) of
         (True, Some stage) \<Rightarrow>
           then_do (on_disk (still_ours env ?pl)) (\<lambda>same.
             if \<not> same then give False
             else then_do (on_disk (safe_rename (relabel env (pl_path ?pl)) (pl_path ?pl) stage)) (\<lambda>_.
               then_do (set_plan i (\<lambda>pl. pl\<lparr>pl_published := False\<rparr>)) (\<lambda>_. give True)))
       | _ \<Rightarrow> give True) (\<lambda>went s. if went then good env pls t0 b0 W (Pr(i := withdrawn)) s else ?E s) ?E"
      unfolding st prod.case bool.case option.case path stage_slot [OF ok st(2)]
      by (rule triple_then [OF look], rule triple_if, rule triple_give, simp add: bad, rule triple_then [OF rename triple_then [OF mark [OF p] triple_give]]) simp
  qed
qed

lemma triple_put_back:
  assumes sep: "separate env pls" and keep: "keeps_content env" and i: "i < length pls" "i \<notin> W"
    and inv: "inv env pls t0 b0 W t b ps" and Pr: "each pls Pr ps" and w: "withdrawn (ps ! i)"
  shows "triple (txn_is t b ps) (put_back env i)
     (\<lambda>went s. if went then good env pls t0 b0 W (Pr(i := undone)) s else good env pls t0 b0 (insert i W) (Pr(i := \<lambda>_. True)) s)
     (good env pls t0 b0 (insert i W) (Pr(i := \<lambda>_. True)))"
proof -
  let ?pl = "ps ! i"
  let ?E = "good env pls t0 b0 (insert i W) (Pr(i := \<lambda>_. True))"
  let ?Q = "\<lambda>went s. if went then good env pls t0 b0 W (Pr(i := undone)) s else ?E s"
  note len = inv_length [OF inv]
  have ok: "plan_ok env pls t0 t b i ?pl" by (rule inv_plan [OF inv i])
  have path: "pl_path ?pl = slot env pls (AtPath i)" by (rule plan_slots(1) [OF ok_facts(1) [OF ok]])
  have bad: "?E s" if "txn_is t b ps s" for s by (rule good_give_up [OF goodI [OF inv Pr that]])
  let ?r = "relabel env (slot env pls (AtPath i))"
  let ?t = "moved ?r (slot env pls (AtBackup i)) (slot env pls (AtPath i)) t"
  let ?ps = "ps[i := ?pl\<lparr>pl_backed_up := False, pl_published := False\<rparr>]"
  have rename: "triple (txn_is t b ps) (on_disk (safe_rename ?r (slot env pls (AtBackup i)) (slot env pls (AtPath i)))) (\<lambda>_. txn_is ?t b ps) ?E"
    by (rule triple_weaken [OF triple_move [OF sep]]) (use i in \<open>auto intro: bad\<close>)
  have reverted: "inv env pls t0 b0 W ?t b ?ps" if b: "pl_backed_up ?pl"
  proof (rule inv_move [OF inv sep keep i(1)])
    fix t'
    assume "\<And>z. place_index z = i \<Longrightarrow> shape env pls t' z =
      (if z = AtPath i then shape env pls t (AtBackup i) else if z = AtBackup i then nothing else shape env pls t z)"
    then show "plan_ok env pls t0 t' b i (?pl\<lparr>pl_backed_up := False, pl_published := False\<rparr>)"
      using put_back_ok [OF ok b] w by (simp add: withdrawn_def)
  qed (use i in simp_all)
  have mark: "triple (txn_is ?t b ps) (set_plan i (\<lambda>pl. pl\<lparr>pl_backed_up := False, pl_published := False\<rparr>)) (\<lambda>_. good env pls t0 b0 W (Pr(i := undone))) ?E"
    if b: "pl_backed_up ?pl"
    by (rule triple_weaken [OF triple_set_plan]) (use goodI [OF reverted [OF b] each_update [OF Pr len]] w in \<open>auto simp: undone_def withdrawn_def\<close>)
  show ?thesis unfolding put_back_def
  proof (rule triple_with_plan, cases "pl_backed_up ?pl")
    case False
    have "good env pls t0 b0 W (Pr(i := undone)) s" if "txn_is t b ps s" for s
      by (rule goodI [OF inv each_same [OF Pr] that]) (use False w in \<open>simp add: undone_def withdrawn_def\<close>)
    then show "triple (txn_is t b ps) (case (pl_backed_up ?pl, pl_backup ?pl) of
         (True, Some backup) \<Rightarrow>
           then_do (on_disk (safe_rename (relabel env (pl_path ?pl)) backup (pl_path ?pl))) (\<lambda>_.
           then_do (set_plan i (\<lambda>pl. pl\<lparr>pl_backed_up := False, pl_published := False\<rparr>)) (\<lambda>_. give True))
       | _ \<Rightarrow> give True) ?Q ?E"
      using False by (simp add: triple_give)
  next
    case True
    then obtain bk where bk: "pl_backed_up ?pl = True" "pl_backup ?pl = Some bk" using ok_facts(2) [OF ok] by (auto simp: marks_ok_def)
    show "triple (txn_is t b ps) (case (pl_backed_up ?pl, pl_backup ?pl) of
         (True, Some backup) \<Rightarrow>
           then_do (on_disk (safe_rename (relabel env (pl_path ?pl)) backup (pl_path ?pl))) (\<lambda>_.
           then_do (set_plan i (\<lambda>pl. pl\<lparr>pl_backed_up := False, pl_published := False\<rparr>)) (\<lambda>_. give True))
       | _ \<Rightarrow> give True) ?Q ?E"
      unfolding bk prod.case bool.case option.case path backup_slot [OF ok bk(2)]
      by (rule triple_then [OF rename triple_then [OF mark [OF True] triple_give]]) simp
  qed
qed

lemma triple_undo_plan:
  assumes sep: "separate env pls" and keep: "keeps_content env" and free: "creates_free env pls t0" and g: "grounded t0" and i: "i < length pls" "i \<notin> W"
  shows "triple (good env pls t0 b0 W Pr) (undo_plan env i)
     (\<lambda>went s. if went then good env pls t0 b0 W (Pr(i := undone)) s else good env pls t0 b0 (insert i W) (Pr(i := \<lambda>_. True)) s)
     (good env pls t0 b0 (insert i W) (Pr(i := \<lambda>_. True)))"
proof (rule triple_good)
  fix t b ps
  assume inv: "inv env pls t0 b0 W t b ps" and Pr: "each pls Pr ps"
  let ?pl = "ps ! i"
  let ?pl' = "?pl\<lparr>pl_recycle := None, pl_published := False, pl_backed_up := False\<rparr>"
  let ?E = "good env pls t0 b0 (insert i W) (Pr(i := \<lambda>_. True))"
  let ?Q = "\<lambda>went s. if went then good env pls t0 b0 W (Pr(i := undone)) s else ?E s"
  have ok: "plan_ok env pls t0 t b i ?pl" by (rule inv_plan [OF inv i])
  have mark: "triple (\<lambda>s. \<exists>t' b'. inv env pls t0 b0 W t' b' (ps[i := ?pl']) \<and> txn_is t' b' ps s)
      (set_plan i (\<lambda>pl. pl\<lparr>pl_recycle := None, pl_published := False, pl_backed_up := False\<rparr>)) (\<lambda>_. good env pls t0 b0 W (Pr(i := undone))) ?E"
  proof -
    have "undone ?pl'" by (simp add: undone_def)
    then have "good env pls t0 b0 W (Pr(i := undone)) s" if "inv env pls t0 b0 W t' b' (ps[i := ?pl'])" "txn_is t' b' (ps[i := ?pl']) s" for t' b' s
      using goodI [OF that(1) each_update [OF Pr inv_length [OF inv]] that(2)] by blast
    then show ?thesis by (auto simp: triple_def set_plan_def txn_is_def)
  qed
  have second: "triple (\<lambda>s. if went then good env pls t0 b0 W (Pr(i := withdrawn)) s else ?E s) (if went then put_back env i else give False) ?Q ?E" for went
  proof (cases went)
    case True
    have "triple (good env pls t0 b0 W (Pr(i := withdrawn))) (put_back env i) ?Q ?E"
    proof (rule triple_good)
      fix t' b' ps'
      assume inv': "inv env pls t0 b0 W t' b' ps'" and Pr': "each pls (Pr(i := withdrawn)) ps'"
      have "withdrawn (ps' ! i)" by (rule each_at [OF Pr' i(1)]) simp
      from triple_put_back [OF sep keep i inv' Pr' this] show "triple (txn_is t' b' ps') (put_back env i) ?Q ?E" by (simp only: fun_upd_upd)
    qed
    then show ?thesis using True by simp
  qed (simp add: triple_give)
  show "triple (txn_is t b ps) (undo_plan env i) ?Q ?E" unfolding undo_plan_def
  proof (rule triple_with_plan, cases "pl_recycle ?pl")
    case (Some r)
    then have del: "pl_deleted ?pl = True" using ok_facts(2) [OF ok] by (simp add: marks_ok_def)
    show "triple (txn_is t b ps) (case (pl_deleted ?pl, pl_recycle ?pl) of
         (True, Some rid) \<Rightarrow>
           then_do (on_disk (bin_restore (me_bin env (pl_path ?pl)) rid)) (\<lambda>_.
           then_do (set_plan i (\<lambda>pl. pl\<lparr>pl_recycle := None, pl_published := False, pl_backed_up := False\<rparr>)) (\<lambda>_. give True))
       | _ \<Rightarrow> then_do (unpublish env i) (\<lambda>went. if went then put_back env i else give False)) ?Q ?E"
      unfolding del Some prod.case bool.case option.case
      by (rule triple_then [OF triple_unbin [OF sep g i inv Pr _ Some] triple_then [OF mark triple_give]]) (simp_all add: del)
  next
    case None
    have "triple (txn_is t b ps) (then_do (unpublish env i) (\<lambda>went. if went then put_back env i else give False)) ?Q ?E"
      by (rule triple_then [OF triple_unpublish [OF sep keep free i inv Pr None] second])
    then show "triple (txn_is t b ps) (case (pl_deleted ?pl, pl_recycle ?pl) of
         (True, Some rid) \<Rightarrow>
           then_do (on_disk (bin_restore (me_bin env (pl_path ?pl)) rid)) (\<lambda>_.
           then_do (set_plan i (\<lambda>pl. pl\<lparr>pl_recycle := None, pl_published := False, pl_backed_up := False\<rparr>)) (\<lambda>_. give True))
       | _ \<Rightarrow> then_do (unpublish env i) (\<lambda>went. if went then put_back env i else give False)) ?Q ?E"
      unfolding None by (cases "pl_deleted ?pl") (simp_all only: prod.case bool.case option.case)
  qed
qed

section \<open>All plans\<close>

text \<open>The loop over the plans: each is undone, or given up with its original kept.\<close>

lemma undo_plans_good:
  assumes sep: "separate env pls" and keep: "keeps_content env" and free: "creates_free env pls t0" and g: "grounded t0"
    and js: "distinct js" "\<And>i. i \<in> set js \<Longrightarrow> i < length pls \<and> i \<notin> W"
    and s: "good env pls t0 b0 W Pr s" "undo_plans env js s = (all, s')"
  shows "if all then good env pls t0 b0 W (\<lambda>j. if j \<in> set js then undone else Pr j) s' else (\<exists>W'. good env pls t0 b0 W' anyhow s')"
  using js s
proof (induction js arbitrary: W Pr s all)
  case Nil
  then show ?case by simp
next
  case (Cons i js)
  obtain r s1 where r: "undo_plan env i s = (r, s1)" by (cases "undo_plan env i s")
  obtain rest s2 where rest: "undo_plans env js s1 = (rest, s2)" by (cases "undo_plans env js s1")
  have out: "all = (rest \<and> r = Inr True)" "s2 = s'" using Cons.prems(4) r rest by simp_all
  note rest = rest [unfolded out(2)]
  have i: "i < length pls" "i \<notin> W" using Cons.prems(2) by simp_all
  note step = triple_undo_plan [OF sep keep free g i, of b0 Pr]
  show ?case
  proof (cases "r = Inr True")
    case True
    have "good env pls t0 b0 W (Pr(i := undone)) s1" using triple_Inr [OF step Cons.prems(3), of True s1] r True by simp
    from Cons.IH [OF _ _ this rest] Cons.prems(1,2)
    have IH: "if rest then good env pls t0 b0 W (\<lambda>j. if j \<in> set js then undone else (Pr(i := undone)) j) s' else (\<exists>W'. good env pls t0 b0 W' anyhow s')" by simp
    have same: "(\<lambda>j. if j \<in> set js then undone else (Pr(i := undone)) j) = (\<lambda>j. if j \<in> set (i # js) then undone else Pr j)" by auto
    have "all = rest" using out(1) True by simp
    then show ?thesis using IH unfolding same by (simp only:)
  next
    case False
    have "good env pls t0 b0 (insert i W) (Pr(i := \<lambda>_. True)) s1"
    proof (cases r)
      case (Inl e)
      then show ?thesis using triple_Inl [OF step Cons.prems(3), of e s1] r by simp
    next
      case (Inr went)
      then show ?thesis using triple_Inr [OF step Cons.prems(3), of went s1] r False by simp
    qed
    note given_up = this
    have "if rest then good env pls t0 b0 (insert i W) (\<lambda>j. if j \<in> set js then undone else (Pr(i := \<lambda>_. True)) j) s' else (\<exists>W'. good env pls t0 b0 W' anyhow s')"
      by (rule Cons.IH [OF _ _ given_up rest]) (use Cons.prems(1,2) in auto)
    then have "\<exists>W'. good env pls t0 b0 W' anyhow s'" by (cases rest) (simp_all only: if_True if_False, blast intro: good_anyhow)
    then show ?thesis using False out by simp
  qed
qed

text \<open>Commit or rollback: everything is new, everything is old, or the rollback failed and every original is kept.\<close>

lemma commit_or_undo_good:
  assumes sep: "separate env pls" and keep: "keeps_content env" and free: "creates_free env pls t0" and g: "grounded t0" and bins: "bins_fit env pls"
    and s: "good env pls t0 b0 {} (\<lambda>_. untouched) s" "commit_or_undo env s = (r, s')"
  shows "case r of Inr _ \<Rightarrow> good env pls t0 b0 {} (\<lambda>_. landed) s'
    | Inl e \<Rightarrow> good env pls t0 b0 {} (\<lambda>_. undone) s' \<or> e = ROLLBACK_FAILED \<and> (\<exists>W. good env pls t0 b0 W anyhow s')"
proof -
  note step = triple_commit_plans [OF sep keep bins, of t0 b0]
  obtain c s1 where c: "commit_plans env s = (c, s1)" by (cases "commit_plans env s")
  show ?thesis
  proof (cases c)
    case (Inr x)
    then show ?thesis using triple_Inr [OF step s(1), of x s1] c s(2) by (auto simp: commit_or_undo_def)
  next
    case (Inl e)
    have bad: "good env pls t0 b0 {} anyhow s1" using triple_Inl [OF step s(1), of e s1] c Inl by simp
    obtain all s2 where u: "undo_plans env (rev [0..<length (tx_plans s1)]) s1 = (all, s2)" by (cases "undo_plans env (rev [0..<length (tx_plans s1)]) s1")
    have r: "r = Inl (if all then e else ROLLBACK_FAILED)" "s' = s2" using s(2) c Inl u by (auto simp: commit_or_undo_def split: bool.splits)
    have "if all then good env pls t0 b0 {} (\<lambda>j. if j \<in> set (rev [0..<length (tx_plans s1)]) then undone else (\<lambda>_. True)) s2
        else (\<exists>W'. good env pls t0 b0 W' anyhow s2)"
      by (rule undo_plans_good [OF sep keep free g _ _ bad u]) (simp_all add: good_length [OF bad])
    then show ?thesis using r good_length [OF bad] by (auto elim!: good_cong [rotated] split: if_splits)
  qed
qed

end
