(* ===== verification/Mutation_Outcome.thy ===== *)
theory Mutation_Outcome
  imports Mutation_Undo
begin

text \<open>
  From staging to the final cleanup: what is visible at the paths of a request when it is over.
\<close>

section \<open>Outcomes\<close>

definition outcome ::
    "mutation_env \<Rightarrow> plan list \<Rightarrow> tree \<Rightarrow> (string \<times> bin_entry) list \<Rightarrow> (tree \<Rightarrow> (string \<times> bin_entry) list \<Rightarrow> nat \<Rightarrow> plan \<Rightarrow> bool) \<Rightarrow> txn \<Rightarrow> bool" where
  "outcome env pls t0 b0 V s \<longleftrightarrow>
     (\<exists>t b ps. txn_is t b ps s \<and> length ps = length pls \<and> (\<forall>q. outside env pls q \<longrightarrow> t q = t0 q) \<and> (\<forall>r \<in> fst ` set b0. map_of b r = map_of b0 r) \<and>
        (\<forall>i < length pls. pl_stage (ps ! i) \<in> {None, Some (slot env pls (AtStage i))} \<and> pl_backup (ps ! i) \<in> {None, Some (slot env pls (AtBackup i))} \<and> V t b i (ps ! i)))"

lemma outcomeI:
  "txn_is t b ps s \<Longrightarrow> length ps = length pls \<Longrightarrow> (\<And>q. outside env pls q \<Longrightarrow> t q = t0 q) \<Longrightarrow> (\<And>r. r \<in> fst ` set b0 \<Longrightarrow> map_of b r = map_of b0 r) \<Longrightarrow>
   (\<And>i. i < length pls \<Longrightarrow> pl_stage (ps ! i) \<in> {None, Some (slot env pls (AtStage i))} \<and> pl_backup (ps ! i) \<in> {None, Some (slot env pls (AtBackup i))} \<and> V t b i (ps ! i)) \<Longrightarrow>
   outcome env pls t0 b0 V s"
  unfolding outcome_def by blast

definition old_content :: "mutation_env \<Rightarrow> plan list \<Rightarrow> tree \<Rightarrow> tree \<Rightarrow> (string \<times> bin_entry) list \<Rightarrow> nat \<Rightarrow> plan \<Rightarrow> bool" where
  "old_content env pls t0 t b i pl \<longleftrightarrow> shape env pls t (AtPath i) = shape env pls t0 (AtPath i)"

definition new_shape :: "mutation_env \<Rightarrow> plan \<Rightarrow> tree \<Rightarrow> tree" where
  "new_shape env pl orig = (if pl_deleted pl then nothing else if skipped pl then orig else staged env pl)"

definition new_content_at :: "mutation_env \<Rightarrow> plan list \<Rightarrow> tree \<Rightarrow> tree \<Rightarrow> (string \<times> bin_entry) list \<Rightarrow> nat \<Rightarrow> plan \<Rightarrow> bool" where
  "new_content_at env pls t0 t b i pl \<longleftrightarrow>
     fixed pl = fixed (pls ! i) \<and> shape env pls t (AtPath i) = new_shape env pl (shape env pls t0 (AtPath i)) \<and>
     (pl_deleted pl \<longrightarrow> (\<exists>r. pl_recycle pl = Some r \<and> binned env pl b r (shape env pls t0 (AtPath i)))) \<and>
     (pl_stage pl = None \<longrightarrow> t (slot env pls (AtStage i)) = None) \<and> (pl_backup pl = None \<longrightarrow> t (slot env pls (AtBackup i)) = None)"

lemma shape_none:
  assumes "shape env pls t x = nothing"
  shows "t (slot env pls x) = None"
proof -
  have "shape env pls t x [] = None" using assms by simp
  then show ?thesis by (simp add: shape_def content_at_def)
qed

lemma landed_new:
  assumes ok: "plan_ok env pls t0 t b i pl" and l: "landed pl"
  shows "new_content_at env pls t0 t b i pl"
proof -
  note m = ok_facts(2) [OF ok, unfolded marks_ok_def] and p = ok_facts(3) [OF ok, unfolded placed_right_def]
  have stage: "pl_stage pl = None \<longrightarrow> shape env pls t (AtStage i) = nothing" using p by simp
  have path: "shape env pls t (AtPath i) = new_shape env pl (shape env pls t0 (AtPath i))"
  proof (cases "pl_deleted pl")
    case True
    then show ?thesis using l m p by (simp add: landed_def new_shape_def)
  next
    case False
    then show ?thesis using l p by (auto simp: landed_def committed_def new_shape_def untouched_def split: if_splits)
  qed
  have backup: "pl_backup pl = None \<longrightarrow> shape env pls t (AtBackup i) = nothing" using m p by auto
  show ?thesis unfolding new_content_at_def
    using ok_facts(1) [OF ok] ok_facts(4) [OF ok] stage path backup l by (auto simp: landed_def intro!: shape_none simp del: slot.simps)
qed

lemma undone_old: "plan_ok env pls t0 t b i pl \<Longrightarrow> undone pl \<Longrightarrow> old_content env pls t0 t b i pl"
  using ok_facts(3) [of env pls t0 t b i pl] by (auto simp: undone_def old_content_def placed_right_def)

lemma untouched_undone: "untouched pl \<Longrightarrow> undone pl"
  by (simp add: untouched_def undone_def)

lemma good_outcome:
  assumes "good env pls t0 b0 {} Pr s" "\<And>t b i pl. i < length pls \<Longrightarrow> plan_ok env pls t0 t b i pl \<Longrightarrow> Pr i pl \<Longrightarrow> V t b i pl"
  shows "outcome env pls t0 b0 V s"
proof -
  obtain t b ps where s: "inv env pls t0 b0 {} t b ps" "each pls Pr ps" "txn_is t b ps s" using assms(1) unfolding good_def by blast
  have ok: "plan_ok env pls t0 t b i (ps ! i)" if "i < length pls" for i by (rule inv_plan [OF s(1) that]) simp
  show ?thesis
  proof (rule outcomeI [OF s(3)])
    show "pl_stage (ps ! i) \<in> {None, Some (slot env pls (AtStage i))} \<and> pl_backup (ps ! i) \<in> {None, Some (slot env pls (AtBackup i))} \<and> V t b i (ps ! i)"
      if "i < length pls" for i
      using stage_slot [OF ok [OF that]] backup_slot [OF ok [OF that]] assms(2) [OF that ok [OF that]] s(2) that
      by (cases "pl_stage (ps ! i)"; cases "pl_backup (ps ! i)") (auto simp: each_def simp del: slot.simps)
  qed (use s(1) in \<open>simp_all add: inv_def bins_ok_def\<close>)
qed

section \<open>Staging\<close>

definition fresh_plan :: "plan \<Rightarrow> bool" where
  "fresh_plan pl \<longleftrightarrow> untouched pl \<and> pl_stage pl = None \<and> pl_backup pl = None"

lemma content_upd: "apart_paths q p \<Longrightarrow> content_at (t(p := v)) q = content_at t q"
  "content_at t p = nothing \<Longrightarrow> content_at (t(p \<mapsto> n)) p = single_file (untag n)"
proof -
  show "apart_paths q p \<Longrightarrow> content_at (t(p := v)) q = content_at t q"
    by (rule ext) (auto simp: content_at_def apart_paths_def)
  assume "content_at t p = nothing"
  then have "content_at t p r = None" for r by simp
  then have "t (p @ r) = None" for r by (simp add: content_at_def)
  then show "content_at (t(p \<mapsto> n)) p = single_file (untag n)" by (auto simp: content_at_def single_file_def)
qed

lemma shape_upd:
  assumes "separate env pls" "valid_place pls y" "valid_place pls z" "z \<noteq> y"
  shows "shape env pls (t(slot env pls y := v)) z = shape env pls t z"
  using assms content_upd(1) by (simp add: shape_def separate_def)

lemma outside_upd: "valid_place pls y \<Longrightarrow> outside env pls q \<Longrightarrow> (t(slot env pls y := v)) q = t q"
  by (auto simp: outside_def)

lemma stage_filled_ok:
  assumes ok: "plan_ok env pls t0 t b i pl" and f: "fresh_plan pl" and "\<not> pl_deleted pl" and sep: "separate env pls" and i: "i < length pls"
  shows "plan_ok env pls t0 (t(slot env pls (AtStage i) \<mapsto> stage_node env pl)) b i
     (pl\<lparr>pl_stage := Some (stage_path env pl), pl_backup := (if pl_expected pl \<noteq> None then Some (backup_path env pl) else pl_backup pl)\<rparr>)"
proof (rule plan_ok_remark [OF ok])
  let ?pl = "pl\<lparr>pl_stage := Some (stage_path env pl), pl_backup := (if pl_expected pl \<noteq> None then Some (backup_path env pl) else pl_backup pl)\<rparr>"
  let ?t = "t(slot env pls (AtStage i) \<mapsto> stage_node env pl)"
  show "marks_ok env ?pl" using ok_facts(2) [OF ok] f assms(3) by (simp add: marks_ok_def fresh_plan_def untouched_def)
  have "shape env pls t (AtStage i) = nothing" using ok_facts(3) [OF ok] f by (simp add: placed_right_def fresh_plan_def)
  then have "shape env pls ?t (AtStage i) = staged env pl" using content_upd(2) by (simp add: shape_def staged_def)
  moreover have "shape env pls ?t (AtPath i) = shape env pls t (AtPath i)" "shape env pls ?t (AtBackup i) = shape env pls t (AtBackup i)"
    by (rule shape_upd [OF sep]; simp add: i)+
  ultimately show "placed_right env ?pl (shape env pls t0 (AtPath i)) (shape env pls ?t (AtPath i)) (shape env pls ?t (AtStage i)) (shape env pls ?t (AtBackup i))"
    using ok_facts(3) [OF ok] f by (simp add: placed_right_def fresh_plan_def untouched_def)
qed (use f in \<open>simp_all add: fresh_plan_def untouched_def\<close>)

text \<open>A stage file that is not complete is in nobody's way.\<close>

lemma half_staged:
  assumes "inv env pls t0 b0 {} t b ps" "each pls (\<lambda>_. undone) ps" "separate env pls" "i < length pls" "txn_is (t(slot env pls (AtStage i) := v)) b ps s"
  shows "outcome env pls t0 b0 (old_content env pls t0) s"
proof (rule outcomeI [OF assms(5)])
  fix j
  assume j: "j < length pls"
  have ok: "plan_ok env pls t0 t b j (ps ! j)" by (rule inv_plan [OF assms(1) j]) simp
  have "old_content env pls t0 t b j (ps ! j)" using undone_old [OF ok] assms(2) j by (simp add: each_def)
  moreover have "shape env pls (t(slot env pls (AtStage i) := v)) (AtPath j) = shape env pls t (AtPath j)"
    by (rule shape_upd [OF assms(3)]) (use assms(4) j in simp_all)
  ultimately show "pl_stage (ps ! j) \<in> {None, Some (slot env pls (AtStage j))} \<and> pl_backup (ps ! j) \<in> {None, Some (slot env pls (AtBackup j))} \<and>
      old_content env pls t0 (t(slot env pls (AtStage i) := v)) b j (ps ! j)"
    using stage_slot [OF ok] backup_slot [OF ok] unfolding old_content_def
    by (cases "pl_stage (ps ! j)"; cases "pl_backup (ps ! j)") (auto simp del: slot.simps)
next
  show "(t(slot env pls (AtStage i) := v)) q = t0 q" if "outside env pls q" for q
    using outside_upd [OF _ that, of "AtStage i" t v] assms(1,4) that by (simp add: inv_def)
qed (use assms(1) in \<open>simp_all add: inv_def bins_ok_def\<close>)

lemma triple_stage_bytes:
  assumes sep: "separate env pls" and i: "i < length pls" and inv: "inv env pls t0 b0 {} t b ps" and Pr: "each pls Pr ps" and un: "each pls (\<lambda>_. undone) ps"
    and f: "fresh_plan (ps ! i)" and del: "\<not> pl_deleted (ps ! i)"
  shows "triple (txn_is t b ps) (stage_bytes env i) (\<lambda>_. good env pls t0 b0 {} (Pr(i := untouched))) (outcome env pls t0 b0 (old_content env pls t0))"
proof -
  let ?pl = "ps ! i"
  let ?E = "outcome env pls t0 b0 (old_content env pls t0)"
  let ?p = "slot env pls (AtStage i)"
  let ?full = "?pl\<lparr>pl_stage := Some (stage_path env ?pl), pl_backup := (if pl_expected ?pl \<noteq> None then Some (backup_path env ?pl) else pl_backup ?pl)\<rparr>"
  have ok: "plan_ok env pls t0 t b i ?pl" by (rule inv_plan [OF inv i]) simp
  have stage: "stage_path env ?pl = ?p" by (rule plan_slots(2) [OF ok_facts(1) [OF ok]])
  have bad: "?E s" if "txn_is (t(?p := v)) b ps s" for v s by (rule half_staged [OF inv un sep i that])
  have bad0: "?E s" if "txn_is t b ps s" for s using bad [of "t ?p"] that by simp
  have create: "triple (txn_is t b ps) (on_disk (syscall OSError (\<lambda>t. if t ?p \<noteq> None \<or> \<not> is_directory t (parent_of ?p) then Inl OSError else Inr ((), t(?p \<mapsto> n)))))
      (\<lambda>_. txn_is (t(?p \<mapsto> n)) b ps) ?E" for n
    by (rule triple_weaken [OF triple_on_disk [OF triple_syscall]]) (use bad0 in \<open>auto simp: txn_is_def fun_upd_def split: if_splits\<close>)
  have fill: "triple (txn_is (t(?p \<mapsto> n)) b ps) (on_disk (syscall OSError (\<lambda>t. Inr ((), t(?p \<mapsto> m))))) (\<lambda>_. txn_is (t(?p \<mapsto> m)) b ps) ?E" for n m
    by (rule triple_weaken [OF triple_on_disk [OF triple_syscall [where t = "t(?p \<mapsto> n)"]]]) (use bad in \<open>auto simp: txn_is_def\<close>)
  have "inv env pls t0 b0 {} (t(?p \<mapsto> stage_node env ?pl)) b (ps[i := ?full])"
  proof (rule inv_step [OF inv i])
    show "(t(?p \<mapsto> stage_node env ?pl)) q = t q" if "outside env pls q" for q by (rule outside_upd [OF _ that]) (simp add: i)
    show "shape env pls (t(?p \<mapsto> stage_node env ?pl)) z = shape env pls t z" if "valid_place pls z" "place_index z \<noteq> i" for z
      by (rule shape_upd [OF sep _ that(1)]) (use i that in auto)
    show "bins_ok b0 b (ps[i := ?full])" by (rule bins_ok_same) (use inv in \<open>simp_all add: inv_def\<close>)
    show "if i \<in> {} then plan_kept env pls t0 (t(?p \<mapsto> stage_node env ?pl)) b i ?full else plan_ok env pls t0 (t(?p \<mapsto> stage_node env ?pl)) b i ?full"
      using stage_filled_ok [OF ok f del sep i] by simp
  qed simp_all
  moreover have "untouched ?full" using f by (simp add: fresh_plan_def untouched_def)
  ultimately have "good env pls t0 b0 {} (Pr(i := untouched)) s" if "txn_is (t(?p \<mapsto> stage_node env ?pl)) b (ps[i := ?full]) s" for s
    using goodI each_update [OF Pr inv_length [OF inv]] that by blast
  then have mark: "triple (txn_is (t(?p \<mapsto> stage_node env ?pl)) b ps) (set_plan i (\<lambda>pl. pl\<lparr>pl_stage := Some (stage_path env pl),
         pl_backup := (if pl_expected pl \<noteq> None then Some (backup_path env pl) else pl_backup pl)\<rparr>)) (\<lambda>_. good env pls t0 b0 {} (Pr(i := untouched))) ?E"
    by (intro triple_weaken [OF triple_set_plan]) auto
  show ?thesis unfolding stage_bytes_def
    by (rule triple_with_plan, unfold stage, rule triple_then [OF create triple_then [OF fill mark]])
qed

lemma triple_stage_plan:
  assumes sep: "separate env pls" and i: "i < length pls" and fresh: "Pr i = fresh_plan" and two: "\<And>j. Pr j = fresh_plan \<or> Pr j = untouched"
  shows "triple (good env pls t0 b0 {} Pr) (stage_plan env i) (\<lambda>_. good env pls t0 b0 {} (Pr(i := untouched))) (outcome env pls t0 b0 (old_content env pls t0))"
proof (rule triple_good)
  fix t b ps
  assume inv: "inv env pls t0 b0 {} t b ps" and Pr: "each pls Pr ps"
  let ?pl = "ps ! i"
  let ?E = "outcome env pls t0 b0 (old_content env pls t0)"
  have un: "undone (ps ! j)" if "j < length pls" for j
    using Pr two [of j] that untouched_undone by (auto simp: each_def fresh_plan_def)
  then have each: "each pls (\<lambda>_. undone) ps" by (simp add: each_def)
  have f: "fresh_plan ?pl" by (rule each_at [OF Pr i fresh])
  have ok: "plan_ok env pls t0 t b i ?pl" by (rule inv_plan [OF inv i]) simp
  have bad: "?E s" if "txn_is t b ps s" for s
    by (rule good_outcome [OF goodI [OF inv each that]]) (rule undone_old)
  have deadline: "triple (txn_is t b ps) (on_disk (touch DEADLINE)) (\<lambda>_. txn_is t b ps) ?E"
    by (rule triple_weaken [OF reads_on_disk [OF reads_touch]]) (auto intro: bad)
  let ?set = "ps[i := ?pl\<lparr>pl_backup := Some (backup_path env ?pl)\<rparr>]"
  have "plan_ok env pls t0 t b i (?pl\<lparr>pl_backup := Some (backup_path env ?pl)\<rparr>)"
    by (rule plan_ok_remark [OF ok])
      (use ok_facts(2,3) [OF ok] f in \<open>auto simp: marks_ok_def placed_right_def fresh_plan_def untouched_def\<close>)
  then have "inv env pls t0 b0 {} t b ?set" by (intro inv_marks [OF inv i]) simp_all
  moreover have "untouched (?pl\<lparr>pl_backup := Some (backup_path env ?pl)\<rparr>)" using f by (simp add: fresh_plan_def untouched_def)
  ultimately have "good env pls t0 b0 {} (Pr(i := untouched)) s" if "txn_is t b ?set s" for s
    using goodI each_update [OF Pr inv_length [OF inv]] that by blast
  then have named: "triple (txn_is t b ps) (set_plan i (\<lambda>pl. pl\<lparr>pl_backup := Some (backup_path env pl)\<rparr>)) (\<lambda>_. good env pls t0 b0 {} (Pr(i := untouched))) ?E"
    by (intro triple_weaken [OF triple_set_plan]) auto
  have none: "good env pls t0 b0 {} (Pr(i := untouched)) s" if "txn_is t b ps s" for s
    by (rule goodI [OF inv each_same [OF Pr] that]) (use f in \<open>simp add: fresh_plan_def\<close>)
  show "triple (txn_is t b ps) (stage_plan env i) (\<lambda>_. good env pls t0 b0 {} (Pr(i := untouched))) ?E"
    unfolding stage_plan_def
    by (rule triple_then [OF deadline], rule triple_with_plan, intro triple_if named triple_give none triple_stage_bytes [OF sep i inv Pr each f])
qed

section \<open>The second check\<close>

lemma triple_missing: "triple (disk_is t b) (path_missing p) (\<lambda>m d. disk_is t b d \<and> (m \<longrightarrow> t p = None)) (disk_is t b)"
proof (rule tripleI)
  have stat: "triple (disk_is t b) (file_stat p) (\<lambda>_. disk_is t b) (disk_is t b)" using reads_file_stat by (simp add: reads_def)
  fix d m d'
  assume d: "disk_is t b d" "path_missing p d = (Inr m, d')"
  have "disk_is t b d'" using triple_Inr [OF reads_missing [unfolded reads_def, rule_format] d] .
  moreover have "t p = None" if m
  proof -
    have "file_stat p d = (Inl NO_PATH, d')" using d(2) that by (auto simp: path_missing_def split: prod.splits sum.splits if_splits)
    then show ?thesis using d(1) take_turn_undisturbed [of "dk_turns d" t]
      by (auto simp: file_stat_def syscall_def disk_is_def undisturbed_def Let_def NO_PATH_def IO_ERROR_def split: option.splits if_splits)
  qed
  ultimately show "disk_is t b d' \<and> (m \<longrightarrow> t p = None)" by simp
qed (use triple_Inl [OF reads_missing [unfolded reads_def, rule_format]] in blast)

lemma triple_revalidate:
  "triple (disk_is t b) (revalidate ps) (\<lambda>_ d. disk_is t b d \<and> (\<forall>pl \<in> set ps. pl_expected pl = None \<longrightarrow> t (pl_path pl) = None)) (disk_is t b)"
proof (induction ps)
  case Nil
  then show ?case by (simp add: triple_give)
next
  case (Cons pl ps)
  have one: "triple (disk_is t b) (revalidate_plan pl) (\<lambda>_ d. disk_is t b d \<and> (pl_expected pl = None \<longrightarrow> t (pl_path pl) = None)) (disk_is t b)"
  proof (cases "pl_expected pl")
    case None
    have "triple (\<lambda>d. disk_is t b d \<and> (m \<longrightarrow> t (pl_path pl) = None)) (if m then give () else fail_with e)
        (\<lambda>_ d. disk_is t b d \<and> (pl_expected pl = None \<longrightarrow> t (pl_path pl) = None)) (disk_is t b)" for m e
      by (intro triple_if triple_give triple_fail) auto
    then show ?thesis unfolding revalidate_plan_def None option.case by (rule triple_then [OF triple_missing])
  next
    case (Some x)
    then show ?thesis using reads_revalidate_plan [of pl] by (simp add: reads_def)
  qed
  have "triple (\<lambda>d. disk_is t b d \<and> (pl_expected pl = None \<longrightarrow> t (pl_path pl) = None)) (revalidate ps)
      (\<lambda>_ d. disk_is t b d \<and> (\<forall>pl \<in> set (pl # ps). pl_expected pl = None \<longrightarrow> t (pl_path pl) = None)) (disk_is t b)"
  proof (cases "pl_expected pl = None \<longrightarrow> t (pl_path pl) = None")
    case True
    then show ?thesis using Cons.IH by simp
  next
    case False
    then show ?thesis by (auto simp: triple_def)
  qed
  then show ?case unfolding revalidate.simps by (rule triple_then [OF one])
qed

lemma untouched_path: "plan_ok env pls t0 t b i pl \<Longrightarrow> untouched pl \<Longrightarrow> shape env pls t (AtPath i) = shape env pls t0 (AtPath i)"
  using undone_old [OF _ untouched_undone] by (simp add: old_content_def)

lemma slot_nonempty: "separate env pls \<Longrightarrow> i < length pls \<Longrightarrow> slot env pls (AtPath i) \<noteq> []"
  unfolding separate_def apart_paths_def by (metis list.size(3) place.distinct(1) place_index.simps(1,2) take_0)

lemma grounded_nothing: "grounded t \<Longrightarrow> p \<noteq> [] \<Longrightarrow> t p = None \<Longrightarrow> content_at t p = nothing"
  unfolding grounded_def content_at_def by (metis option.map_disc_iff)

lemma checked_free:
  assumes sep: "separate env pls" and inv: "inv env pls t0 b0 {} t b ps" and un: "each pls (\<lambda>_. untouched) ps" and g: "grounded t0"
    and none: "\<forall>pl \<in> set ps. pl_expected pl = None \<longrightarrow> t (pl_path pl) = None"
  shows "creates_free env pls t0"
  unfolding creates_free_def
proof (intro allI impI)
  fix i
  assume i: "i < length pls" "pl_expected (pls ! i) = None"
  have ok: "plan_ok env pls t0 t b i (ps ! i)" by (rule inv_plan [OF inv i(1)]) simp
  have same: "shape env pls t (AtPath i) = shape env pls t0 (AtPath i)" by (rule untouched_path [OF ok]) (use un i in \<open>simp add: each_def\<close>)
  have "ps ! i \<in> set ps" using inv_length [OF inv] i by simp
  moreover have "pl_expected (ps ! i) = None" "pl_path (ps ! i) = slot env pls (AtPath i)"
    using fixed_same [OF ok_facts(1) [OF ok]] i by simp_all
  ultimately have "t (slot env pls (AtPath i)) = None" using none by metis
  then have "shape env pls t (AtPath i) [] = None" by (simp add: shape_def content_at_def)
  then have "t0 (slot env pls (AtPath i)) = None" unfolding same by (simp add: shape_def content_at_def)
  from grounded_nothing [OF g slot_nonempty [OF sep i(1)] this] show "shape env pls t0 (AtPath i) = nothing" by (simp add: shape_def)
qed

lemma triple_second_check:
  assumes sep: "separate env pls" and g: "grounded t0"
  shows "triple (good env pls t0 b0 {} (\<lambda>_. untouched)) (\<lambda>s. on_disk (revalidate (tx_plans s)) s)
     (\<lambda>_ s. good env pls t0 b0 {} (\<lambda>_. untouched) s \<and> creates_free env pls t0) (outcome env pls t0 b0 (old_content env pls t0))"
proof (rule triple_good)
  fix t b ps
  assume inv: "inv env pls t0 b0 {} t b ps" and un: "each pls (\<lambda>_. untouched) ps"
  have bad: "outcome env pls t0 b0 (old_content env pls t0) s" if "txn_is t b ps s" for s
    by (rule good_outcome [OF goodI [OF inv un that]]) (auto intro: undone_old untouched_undone)
  have "triple (txn_is t b ps) (on_disk (revalidate ps))
      (\<lambda>_ s. good env pls t0 b0 {} (\<lambda>_. untouched) s \<and> creates_free env pls t0) (outcome env pls t0 b0 (old_content env pls t0))"
    by (rule triple_weaken [OF triple_on_disk [OF triple_revalidate]])
      (use goodI [OF inv un] checked_free [OF sep inv un g] bad in \<open>auto simp: txn_is_def\<close>)
  then show "triple (txn_is t b ps) (\<lambda>s. on_disk (revalidate (tx_plans s)) s)
      (\<lambda>_ s. good env pls t0 b0 {} (\<lambda>_. untouched) s \<and> creates_free env pls t0) (outcome env pls t0 b0 (old_content env pls t0))"
    unfolding triple_def txn_is_def by auto
qed

section \<open>The transaction\<close>

definition vacant :: "mutation_env \<Rightarrow> plan list \<Rightarrow> tree \<Rightarrow> bool" where
  "vacant env pls t \<longleftrightarrow> (\<forall>i < length pls. shape env pls t (AtStage i) = nothing \<and> shape env pls t (AtBackup i) = nothing)"

lemma started:
  assumes "vacant env pls t0" "\<forall>pl \<in> set pls. fresh_plan pl \<and> (pl_deleted pl \<longrightarrow> pl_expected pl \<noteq> None)" "disk_is t0 b0 d"
  shows "good env pls t0 b0 {} (\<lambda>_. fresh_plan) \<lparr>tx_disk = d, tx_plans = pls\<rparr>"
proof (rule goodI)
  have f: "fresh_plan (pls ! i)" "pl_deleted (pls ! i) \<longrightarrow> pl_expected (pls ! i) \<noteq> None" if "i < length pls" for i
    using assms(2) nth_mem [OF that] by auto
  have "plan_ok env pls t0 t0 b0 i (pls ! i)" if "i < length pls" for i
    using f [OF that] assms(1) that by (auto simp: plan_ok_def marks_ok_def placed_right_def vacant_def fresh_plan_def untouched_def)
  then show "inv env pls t0 b0 {} t0 b0 pls" using f by (auto simp: inv_def bins_ok_def fresh_plan_def untouched_def)
  show "each pls (\<lambda>_. fresh_plan) pls" using f by (simp add: each_def)
qed (use assms(3) in \<open>simp add: txn_is_def\<close>)

lemma outcome_reads:
  assumes "\<And>ps. reads (m ps)"
  shows "triple (outcome env pls t0 b0 V) (\<lambda>s. on_disk (m (tx_plans s)) s) (\<lambda>_. outcome env pls t0 b0 V) (outcome env pls t0 b0 V)"
proof -
  have same: "\<exists>t b ps. txn_is t b ps s \<and> txn_is t b ps s'" if "outcome env pls t0 b0 V s" "on_disk (m (tx_plans s)) s = (r, s')" for s r s'
  proof -
    obtain t b ps where s: "txn_is t b ps s" using \<open>outcome env pls t0 b0 V s\<close> unfolding outcome_def by blast
    then have "tx_plans s = ps" by (simp add: txn_is_def)
    then have "txn_is t b ps s'" using that(2) triple_Inr [OF reads_on_disk [OF assms] s] triple_Inl [OF reads_on_disk [OF assms] s] by (cases r) auto
    with s show ?thesis by blast
  qed
  have "outcome env pls t0 b0 V s'" if "outcome env pls t0 b0 V s" "txn_is t b ps s" "txn_is t b ps s'" for s s' t b ps
    using that unfolding outcome_def txn_is_def disk_is_def by metis
  then show ?thesis using same by (intro tripleI) blast+
qed

lemma then_do_cases:
  assumes "then_do m f s = (r, s')"
  obtains e where "m s = (Inl e, s')" "r = Inl e" | x s1 where "m s = (Inr x, s1)" "f x s1 = (r, s')"
  using assms by (cases "m s"; cases "fst (m s)") (auto simp: then_do_def)

definition ended :: "mutation_env \<Rightarrow> plan list \<Rightarrow> tree \<Rightarrow> (string \<times> bin_entry) list \<Rightarrow> 'a result \<Rightarrow> txn \<Rightarrow> bool" where
  "ended env pls t0 b0 r s \<longleftrightarrow>
     (case r of
        Inr _ \<Rightarrow> outcome env pls t0 b0 (new_content_at env pls t0) s
      | Inl e \<Rightarrow> outcome env pls t0 b0 (old_content env pls t0) s \<or> outcome env pls t0 b0 (new_content_at env pls t0) s \<or>
          e = ROLLBACK_FAILED \<and> (\<exists>W. good env pls t0 b0 W anyhow s))"

lemma transact_ended:
  assumes sep: "separate env pls" and keep: "keeps_content env" and g: "grounded t0" and bins: "bins_fit env pls"
    and s: "good env pls t0 b0 {} (\<lambda>_. fresh_plan) s" "transact env s = (r, s')"
  shows "ended env pls t0 b0 r s'"
proof -
  have loop: "triple (good env pls t0 b0 {} (\<lambda>_. fresh_plan)) (for_each [0..<length (tx_plans s)] (stage_plan env)) (\<lambda>_. good env pls t0 b0 {} (\<lambda>_. untouched))
      (outcome env pls t0 b0 (old_content env pls t0))"
    unfolding good_length [OF s(1)] by (rule triple_for_each, rule triple_stage_plan [OF sep])
  have deadline: "triple (\<lambda>s. good env pls t0 b0 {} (\<lambda>_. untouched) s \<and> creates_free env pls t0) (on_disk (touch DEADLINE))
      (\<lambda>_ s. good env pls t0 b0 {} (\<lambda>_. untouched) s \<and> creates_free env pls t0) (outcome env pls t0 b0 (old_content env pls t0))"
  proof (rule tripleI)
    fix s x s'
    assume "good env pls t0 b0 {} (\<lambda>_. untouched) s \<and> creates_free env pls t0" "on_disk (touch DEADLINE) s = (Inr x, s')"
    then show "good env pls t0 b0 {} (\<lambda>_. untouched) s' \<and> creates_free env pls t0"
      using triple_Inr [OF reads_on_disk [OF reads_touch]] unfolding good_def by blast
  next
    fix s e s'
    assume "good env pls t0 b0 {} (\<lambda>_. untouched) s \<and> creates_free env pls t0" "on_disk (touch DEADLINE) s = (Inl e, s')"
    then have "good env pls t0 b0 {} (\<lambda>_. untouched) s'" using triple_Inl [OF reads_on_disk [OF reads_touch]] unfolding good_def by blast
    then show "outcome env pls t0 b0 (old_content env pls t0) s'" by (rule good_outcome) (auto intro: undone_old untouched_undone)
  qed
  show ?thesis using s(2) unfolding transact_def
  proof (elim then_do_cases)
    fix e
    assume "for_each [0..<length (tx_plans s)] (stage_plan env) s = (Inl e, s')" "r = Inl e"
    then show ?thesis using triple_Inl [OF loop s(1)] by (simp add: ended_def)
  next
    fix x s1 e
    assume "for_each [0..<length (tx_plans s)] (stage_plan env) s = (Inr x, s1)" "on_disk (revalidate (tx_plans s1)) s1 = (Inl e, s')" "r = Inl e"
    then show ?thesis using triple_Inl [OF triple_second_check [OF sep g] triple_Inr [OF loop s(1)]] by (simp add: ended_def)
  next
    fix x s1 x2 s2 e
    assume "for_each [0..<length (tx_plans s)] (stage_plan env) s = (Inr x, s1)" "on_disk (revalidate (tx_plans s1)) s1 = (Inr x2, s2)"
      "on_disk (touch DEADLINE) s2 = (Inl e, s')" "r = Inl e"
    then show ?thesis using triple_Inl [OF deadline triple_Inr [OF triple_second_check [OF sep g] triple_Inr [OF loop s(1)]]] by (simp add: ended_def)
  next
    fix x s1 x2 s2 x3 s3 e
    assume a: "for_each [0..<length (tx_plans s)] (stage_plan env) s = (Inr x, s1)" "on_disk (revalidate (tx_plans s1)) s1 = (Inr x2, s2)"
      "on_disk (touch DEADLINE) s2 = (Inr x3, s3)" "commit_or_undo env s3 = (Inl e, s')" "r = Inl e"
    have "good env pls t0 b0 {} (\<lambda>_. untouched) s3" "creates_free env pls t0"
      using triple_Inr [OF deadline triple_Inr [OF triple_second_check [OF sep g] triple_Inr [OF loop s(1) a(1)] a(2)] a(3)] by simp_all
    from commit_or_undo_good [OF sep keep this(2) g bins this(1) a(4)]
    have "good env pls t0 b0 {} (\<lambda>_. undone) s' \<or> e = ROLLBACK_FAILED \<and> (\<exists>W. good env pls t0 b0 W anyhow s')" by simp
    then show ?thesis using a(5) good_outcome [of env pls t0 b0 "\<lambda>_. undone" s' "old_content env pls t0"] undone_old by (auto simp: ended_def)
  next
    fix x s1 x2 s2 x3 s3 x4 s4
    assume a: "for_each [0..<length (tx_plans s)] (stage_plan env) s = (Inr x, s1)" "on_disk (revalidate (tx_plans s1)) s1 = (Inr x2, s2)"
      "on_disk (touch DEADLINE) s2 = (Inr x3, s3)" "commit_or_undo env s3 = (Inr x4, s4)" "on_disk (final_etags (tx_plans s4)) s4 = (r, s')"
    have "good env pls t0 b0 {} (\<lambda>_. untouched) s3" "creates_free env pls t0"
      using triple_Inr [OF deadline triple_Inr [OF triple_second_check [OF sep g] triple_Inr [OF loop s(1) a(1)] a(2)] a(3)] by simp_all
    from commit_or_undo_good [OF sep keep this(2) g bins this(1) a(4)]
    have "good env pls t0 b0 {} (\<lambda>_. landed) s4" by simp
    then have new: "outcome env pls t0 b0 (new_content_at env pls t0) s4" by (rule good_outcome) (rule landed_new)
    note read = outcome_reads [of final_etags, OF reads_final, of env pls t0 b0 "new_content_at env pls t0"]
    show ?thesis using a(5) triple_Inr [OF read new] triple_Inl [OF read new] by (cases r) (auto simp: ended_def)
  qed
qed

section \<open>The cleanup\<close>

definition artifacts :: "plan list \<Rightarrow> path set" where
  "artifacts ps = {q. \<exists>pl \<in> set ps. pl_stage pl = Some q \<or> pl_backup pl = Some q}"

text \<open>A tree from which some of the files at given places have been removed.\<close>

definition thinned :: "path set \<Rightarrow> tree \<Rightarrow> tree \<Rightarrow> bool" where
  "thinned A t t' \<longleftrightarrow> (\<forall>q. t' q = t q \<or> q \<in> A \<and> t' q = None)"

lemma thinned_step: "thinned A t t' \<Longrightarrow> q \<in> A \<Longrightarrow> thinned A t (t'(q := None))"
  by (simp add: thinned_def)

lemma triple_cleanup_one:
  assumes "\<And>p. v = Some p \<Longrightarrow> p \<in> A"
  shows "triple (\<lambda>d. \<exists>t'. thinned A t t' \<and> (\<forall>q \<in> B. t' q = None) \<and> disk_is t' b d) (cleanup v)
     (\<lambda>_ d. \<exists>t'. thinned A t t' \<and> (\<forall>q \<in> B \<union> {q. v = Some q}. t' q = None) \<and> disk_is t' b d) (\<lambda>d. \<exists>t'. thinned A t t' \<and> disk_is t' b d)"
proof (rule triple_ex)
  fix t' :: tree
  let ?t = "case v of None \<Rightarrow> t' | Some p \<Rightarrow> t'(p := None)"
  show "triple (\<lambda>d. thinned A t t' \<and> (\<forall>q \<in> B. t' q = None) \<and> disk_is t' b d) (cleanup v)
     (\<lambda>_ d. \<exists>t'. thinned A t t' \<and> (\<forall>q \<in> B \<union> {q. v = Some q}. t' q = None) \<and> disk_is t' b d) (\<lambda>d. \<exists>t'. thinned A t t' \<and> disk_is t' b d)"
  proof (cases "thinned A t t' \<and> (\<forall>q \<in> B. t' q = None)")
    case True
    then have "thinned A t ?t" "\<forall>q \<in> B \<union> {q. v = Some q}. ?t q = None" using assms thinned_step by (cases v; auto)+
    then have after: "\<exists>t'. thinned A t t' \<and> (\<forall>q \<in> B \<union> {q. v = Some q}. t' q = None) \<and> disk_is t' b d" if "disk_is ?t b d" for d using that by blast
    have failed: "\<exists>t'. thinned A t t' \<and> disk_is t' b d" if "disk_is t' b d" for d using that True by blast
    show ?thesis by (rule triple_weaken [OF triple_cleanup _ after failed]) blast
  next
    case False
    then show ?thesis by (auto simp: triple_def)
  qed
qed

lemma triple_cleanup_plans:
  assumes "artifacts ps \<subseteq> A"
  shows "triple (\<lambda>d. \<exists>t'. thinned A t t' \<and> (\<forall>q \<in> B. t' q = None) \<and> disk_is t' b d) (cleanup_plans ps)
     (\<lambda>_ d. \<exists>t'. thinned A t t' \<and> (\<forall>q \<in> B \<union> artifacts ps. t' q = None) \<and> disk_is t' b d) (\<lambda>d. \<exists>t'. thinned A t t' \<and> disk_is t' b d)"
  using assms
proof (induction ps arbitrary: B)
  case Nil
  then show ?case by (simp add: triple_give artifacts_def)
next
  case (Cons pl ps)
  let ?B = "B \<union> {q. pl_stage pl = Some q}"
  have all: "B \<union> artifacts (pl # ps) = (?B \<union> {q. pl_backup pl = Some q}) \<union> artifacts ps" by (auto simp: artifacts_def)
  have one: "\<And>p. pl_stage pl = Some p \<Longrightarrow> p \<in> A" and two: "\<And>p. pl_backup pl = Some p \<Longrightarrow> p \<in> A" and rest: "artifacts ps \<subseteq> A"
    using Cons.prems by (auto simp: artifacts_def)
  show ?case unfolding cleanup_plans.simps all
    by (rule triple_then [OF triple_cleanup_one [OF one] triple_then [OF triple_cleanup_one [OF two] Cons.IH [OF rest]]])
qed

text \<open>Properties of an outcome that survive the removal of artifacts.\<close>

definition survives :: "mutation_env \<Rightarrow> plan list \<Rightarrow> (tree \<Rightarrow> (string \<times> bin_entry) list \<Rightarrow> nat \<Rightarrow> plan \<Rightarrow> bool) \<Rightarrow> bool" where
  "survives env pls V \<longleftrightarrow>
     (\<forall>t t' b i pl. V t b i pl \<longrightarrow> shape env pls t' (AtPath i) = shape env pls t (AtPath i) \<longrightarrow> (\<forall>q. t' q = t q \<or> t' q = None) \<longrightarrow> V t' b i pl)"

lemma survives_old: "survives env pls (old_content env pls t0)"
  by (simp add: survives_def old_content_def)

lemma survives_new: "survives env pls (new_content_at env pls t0)"
  unfolding survives_def new_content_at_def by metis

lemma shape_thinned:
  assumes "separate env pls" "thinned A t t'" "i < length pls"
    and A: "\<And>q. q \<in> A \<Longrightarrow> \<exists>x. valid_place pls x \<and> x \<noteq> AtPath i \<and> q = slot env pls x"
  shows "shape env pls t' (AtPath i) = shape env pls t (AtPath i)"
proof -
  have "slot env pls (AtPath i) @ r \<notin> A" for r
  proof
    assume "slot env pls (AtPath i) @ r \<in> A"
    then obtain x where x: "valid_place pls x" "x \<noteq> AtPath i" "slot env pls (AtPath i) @ r = slot env pls x" using A by blast
    then have "apart_paths (slot env pls (AtPath i)) (slot env pls x)" using assms(1,3) by (metis place_index.simps(1) separate_def)
    then show False unfolding x(3) [symmetric] by (simp add: apart_paths_def del: slot.simps)
  qed
  then show ?thesis using assms(2) unfolding shape_def content_at_def thinned_def by metis
qed

lemma cleanup_outcome:
  assumes sep: "separate env pls" and V: "survives env pls V" and o: "outcome env pls t0 b0 V s" and c: "on_disk (cleanup_plans (tx_plans s)) s = (r, s')"
  shows "outcome env pls t0 b0 V s'"
    "r = Inr x \<Longrightarrow> outcome env pls t0 b0 (\<lambda>t b i pl. V t b i pl \<and> (\<forall>q. pl_stage pl = Some q \<or> pl_backup pl = Some q \<longrightarrow> t q = None)) s'"
proof -
  obtain t b ps where s: "txn_is t b ps s" "length ps = length pls" and out: "\<forall>q. outside env pls q \<longrightarrow> t q = t0 q"
    and bin: "\<forall>r \<in> fst ` set b0. map_of b r = map_of b0 r"
    and plan: "\<forall>i < length pls. pl_stage (ps ! i) \<in> {None, Some (slot env pls (AtStage i))} \<and> pl_backup (ps ! i) \<in> {None, Some (slot env pls (AtBackup i))} \<and> V t b i (ps ! i)"
    using o unfolding outcome_def by (elim exE conjE) (rule that)
  have marks: "pl_stage (ps ! i) \<in> {None, Some (slot env pls (AtStage i))} \<and> pl_backup (ps ! i) \<in> {None, Some (slot env pls (AtBackup i))}" and v: "V t b i (ps ! i)"
    if "i < length pls" for i using plan that by blast+
  let ?A = "artifacts ps"
  have slots: "\<exists>j < length pls. q = slot env pls (AtStage j) \<or> q = slot env pls (AtBackup j)" if q: "q \<in> ?A" for q
  proof -
    obtain j where j: "j < length ps" "pl_stage (ps ! j) = Some q \<or> pl_backup (ps ! j) = Some q" using q unfolding artifacts_def by (auto simp: in_set_conv_nth)
    then show ?thesis using marks [of j] s(2) by (auto simp del: slot.simps)
  qed
  have away: "\<exists>x. valid_place pls x \<and> x \<noteq> AtPath i \<and> q = slot env pls x" if q: "q \<in> ?A" for q i
  proof -
    obtain j where j: "j < length pls" "q = slot env pls (AtStage j) \<or> q = slot env pls (AtBackup j)" using slots [OF q] by blast
    then have "valid_place pls (AtStage j)" "valid_place pls (AtBackup j)" by simp_all
    then show ?thesis using j(2) by (elim disjE) blast+
  qed
  have after: "outcome env pls t0 b0 (\<lambda>t' b i pl. V t' b i pl \<and> P t' pl) s'"
    if t': "thinned ?A t t'" "txn_is t' b ps s'" and P: "\<And>pl. pl \<in> set ps \<Longrightarrow> P t' pl" for t' P
  proof (rule outcomeI [OF t'(2) s(2)])
    show "t' q = t0 q" if "outside env pls q" for q
    proof -
      have "q \<notin> ?A" using away [of q] that unfolding outside_def by (metis take_all order_refl)
      then show ?thesis using t'(1) out that unfolding thinned_def by metis
    qed
    show "pl_stage (ps ! i) \<in> {None, Some (slot env pls (AtStage i))} \<and> pl_backup (ps ! i) \<in> {None, Some (slot env pls (AtBackup i))} \<and> V t' b i (ps ! i) \<and> P t' (ps ! i)"
      if i: "i < length pls" for i
    proof -
      have "shape env pls t' (AtPath i) = shape env pls t (AtPath i)" by (rule shape_thinned [OF sep t'(1) i away])
      moreover have "\<forall>q. t' q = t q \<or> t' q = None" using t'(1) by (auto simp: thinned_def)
      ultimately have "V t' b i (ps ! i)" using V v [OF i] unfolding survives_def by blast
      then show ?thesis using marks [OF i] P [of "ps ! i"] i s(2) by simp
    qed
  qed (use bin in blast)
  have plans: "tx_plans s = ps" "disk_is t b (tx_disk s)" using s(1) by (simp_all add: txn_is_def)
  obtain d where d: "cleanup_plans ps (tx_disk s) = (r, d)" "s' = s\<lparr>tx_disk := d\<rparr>" using c unfolding plans(1) by (cases "cleanup_plans ps (tx_disk s)") (auto simp: on_disk_def)
  have start: "\<exists>t'. thinned ?A t t' \<and> (\<forall>q \<in> {}. t' q = None) \<and> disk_is t' b (tx_disk s)" using plans(2) by (auto simp: thinned_def)
  note run = triple_cleanup_plans [OF order_refl, of ps t "{}" b]
  obtain t' where t': "thinned ?A t t'" "disk_is t' b d" and gone: "r = Inr x \<Longrightarrow> \<forall>q \<in> ?A. t' q = None" for x
    using triple_Inr [OF run start] triple_Inl [OF run start] d(1) by (cases r) auto
  have state: "txn_is t' b ps s'" using t'(2) d(2) plans(1) by (simp add: txn_is_def)
  show "outcome env pls t0 b0 V s'" using after [OF t'(1) state, of "\<lambda>_ _. True"] by simp
  show "outcome env pls t0 b0 (\<lambda>t b i pl. V t b i pl \<and> (\<forall>q. pl_stage pl = Some q \<or> pl_backup pl = Some q \<longrightarrow> t q = None)) s'" if "r = Inr x"
    by (rule after [OF t'(1) state]) (use gone [OF that] in \<open>auto simp: artifacts_def\<close>)
qed

section \<open>What is promised\<close>

definition all_old :: "plan list \<Rightarrow> disk \<Rightarrow> disk \<Rightarrow> bool" where
  "all_old pls d d' \<longleftrightarrow> (\<forall>pl \<in> set pls. content_at (dk_tree d') (pl_path pl) = content_at (dk_tree d) (pl_path pl))"

definition all_new :: "mutation_env \<Rightarrow> plan list \<Rightarrow> disk \<Rightarrow> disk \<Rightarrow> bool" where
  "all_new env pls d d' \<longleftrightarrow>
     (\<forall>pl \<in> set pls. content_at (dk_tree d') (pl_path pl) = new_shape env pl (content_at (dk_tree d) (pl_path pl)) \<and>
        (pl_deleted pl \<longrightarrow> (\<exists>r. binned env pl (dk_bin d') r (content_at (dk_tree d) (pl_path pl)))))"

definition no_artifacts :: "mutation_env \<Rightarrow> plan list \<Rightarrow> disk \<Rightarrow> bool" where
  "no_artifacts env pls d \<longleftrightarrow> (\<forall>pl \<in> set pls. dk_tree d (stage_path env pl) = None \<and> dk_tree d (backup_path env pl) = None)"

definition originals_kept :: "mutation_env \<Rightarrow> plan list \<Rightarrow> disk \<Rightarrow> disk \<Rightarrow> bool" where
  "originals_kept env pls d d' \<longleftrightarrow>
     (\<forall>pl \<in> set pls. pl_expected pl = None \<or>
        content_at (dk_tree d') (pl_path pl) = content_at (dk_tree d) (pl_path pl) \<or>
        content_at (dk_tree d') (backup_path env pl) = content_at (dk_tree d) (pl_path pl) \<or>
        (\<exists>r. binned env pl (dk_bin d') r (content_at (dk_tree d) (pl_path pl))))"

definition rest_untouched :: "mutation_env \<Rightarrow> plan list \<Rightarrow> disk \<Rightarrow> disk \<Rightarrow> bool" where
  "rest_untouched env pls d d' \<longleftrightarrow>
     (\<forall>q. outside env pls q \<longrightarrow> dk_tree d' q = dk_tree d q) \<and> (\<forall>r \<in> fst ` set (dk_bin d). map_of (dk_bin d') r = map_of (dk_bin d) r)"

definition atomic :: "mutation_env \<Rightarrow> plan list \<Rightarrow> disk \<Rightarrow> 'a result \<Rightarrow> disk \<Rightarrow> bool" where
  "atomic env pls d r d' \<longleftrightarrow>
     rest_untouched env pls d d' \<and>
     (case r of
        Inr _ \<Rightarrow> all_new env pls d d' \<and> no_artifacts env pls d'
      | Inl e \<Rightarrow> all_old pls d d' \<or> all_new env pls d d' \<or> e = ROLLBACK_FAILED \<and> originals_kept env pls d d')"

lemma outcome_rest: "outcome env pls (dk_tree d) (dk_bin d) V s \<Longrightarrow> rest_untouched env pls d (tx_disk s)"
  unfolding outcome_def rest_untouched_def txn_is_def disk_is_def by blast

lemma outcome_old: "outcome env pls (dk_tree d) (dk_bin d) (old_content env pls (dk_tree d)) s \<Longrightarrow> all_old pls d (tx_disk s)"
  unfolding outcome_def all_old_def txn_is_def disk_is_def by (auto simp: old_content_def shape_def in_set_conv_nth)

lemma new_here:
  assumes "new_content_at env pls t0 t b i pl"
  shows "content_at t (pl_path (pls ! i)) = new_shape env (pls ! i) (content_at t0 (pl_path (pls ! i)))"
    "pl_deleted (pls ! i) \<Longrightarrow> \<exists>r. binned env (pls ! i) b r (content_at t0 (pl_path (pls ! i)))"
proof -
  have f: "fixed pl = fixed (pls ! i)" using assms by (simp add: new_content_at_def)
  note same = fixed_same [OF f]
  have "new_shape env pl = new_shape env (pls ! i)" using same staged_fixed [OF f] skipped_fixed [OF f] by (simp add: new_shape_def fun_eq_iff)
  then show "content_at t (pl_path (pls ! i)) = new_shape env (pls ! i) (content_at t0 (pl_path (pls ! i)))" using assms by (simp add: new_content_at_def shape_def)
  show "pl_deleted (pls ! i) \<Longrightarrow> \<exists>r. binned env (pls ! i) b r (content_at t0 (pl_path (pls ! i)))"
    using assms same binned_same [of pl "pls ! i" env b] by (auto simp: new_content_at_def shape_def)
qed

lemma outcome_new:
  assumes "outcome env pls (dk_tree d) (dk_bin d) (\<lambda>t b i pl. new_content_at env pls (dk_tree d) t b i pl \<and> P t b i pl) s"
  shows "all_new env pls d (tx_disk s)"
proof -
  obtain ps where "\<forall>i < length pls. new_content_at env pls (dk_tree d) (dk_tree (tx_disk s)) (dk_bin (tx_disk s)) i (ps ! i)"
    using assms unfolding outcome_def txn_is_def disk_is_def by blast
  then show ?thesis unfolding all_new_def using new_here by (fastforce simp: in_set_conv_nth)
qed

lemma outcome_clean:
  assumes "outcome env pls (dk_tree d) (dk_bin d)
      (\<lambda>t b i pl. new_content_at env pls (dk_tree d) t b i pl \<and> (\<forall>q. pl_stage pl = Some q \<or> pl_backup pl = Some q \<longrightarrow> t q = None)) s"
  shows "no_artifacts env pls (tx_disk s)"
proof -
  obtain ps where ps: "\<forall>i < length pls. pl_stage (ps ! i) \<in> {None, Some (slot env pls (AtStage i))} \<and> pl_backup (ps ! i) \<in> {None, Some (slot env pls (AtBackup i))} \<and>
      new_content_at env pls (dk_tree d) (dk_tree (tx_disk s)) (dk_bin (tx_disk s)) i (ps ! i) \<and>
      (\<forall>q. pl_stage (ps ! i) = Some q \<or> pl_backup (ps ! i) = Some q \<longrightarrow> dk_tree (tx_disk s) q = None)"
    using assms unfolding outcome_def txn_is_def disk_is_def by blast
  have "dk_tree (tx_disk s) (stage_path env (pls ! i)) = None \<and> dk_tree (tx_disk s) (backup_path env (pls ! i)) = None" if "i < length pls" for i
    using ps [rule_format, OF that] by (auto simp: new_content_at_def)
  then show ?thesis unfolding no_artifacts_def by (auto simp: in_set_conv_nth)
qed

lemma kept_here:
  assumes "plan_kept env pls t0 t b i pl"
  shows "pl_expected (pls ! i) = None \<or> content_at t (pl_path (pls ! i)) = content_at t0 (pl_path (pls ! i)) \<or>
    content_at t (backup_path env (pls ! i)) = content_at t0 (pl_path (pls ! i)) \<or> (\<exists>r. binned env (pls ! i) b r (content_at t0 (pl_path (pls ! i))))"
proof -
  have f: "fixed pl = fixed (pls ! i)" using assms by (simp add: plan_kept_def)
  have "binned env pl b r c = binned env (pls ! i) b r c" for r c by (rule binned_same) (use fixed_same [OF f] in simp)
  then show ?thesis using assms fixed_same [OF f] unfolding plan_kept_def shape_def slot.simps by auto
qed

lemma good_kept:
  assumes "good env pls (dk_tree d) (dk_bin d) W anyhow s"
  shows "rest_untouched env pls d (tx_disk s)" "originals_kept env pls d (tx_disk s)"
proof -
  obtain t b ps where i: "inv env pls (dk_tree d) (dk_bin d) W t b ps" "txn_is t b ps s" using assms unfolding good_def by blast
  then have t: "dk_tree (tx_disk s) = t" "dk_bin (tx_disk s) = b" by (simp_all add: txn_is_def disk_is_def)
  show "rest_untouched env pls d (tx_disk s)" using i(1) by (simp add: t rest_untouched_def inv_def bins_ok_def)
  have "plan_kept env pls (dk_tree d) t b j (ps ! j)" if "j < length pls" for j
    using i(1) that ok_kept by (auto simp: inv_def split: if_splits)
  from kept_here [OF this] show "originals_kept env pls d (tx_disk s)" unfolding originals_kept_def t by (metis in_set_conv_nth)
qed

lemma run_plans_atomic:
  assumes d: "undisturbed d" and sep: "separate env pls" and v: "vacant env pls (dk_tree d)" and g: "grounded (dk_tree d)" and bins: "bins_fit env pls" and keep: "keeps_content env"
    and f: "\<forall>pl \<in> set pls. fresh_plan pl \<and> (pl_deleted pl \<longrightarrow> pl_expected pl \<noteq> None)" and run: "run_plans env False pls d = (r, d')"
  shows "atomic env pls d r d'"
proof -
  let ?s = "\<lparr>tx_disk = d, tx_plans = pls\<rparr>"
  have "disk_is (dk_tree d) (dk_bin d) d" using d by (simp add: disk_is_def)
  note s0 = started [OF v f this]
  obtain x s1 where x: "transact env ?s = (x, s1)" by (cases "transact env ?s")
  note e = transact_ended [OF sep keep g bins s0 x, unfolded ended_def]
  let ?old = "old_content env pls (dk_tree d)" and ?new = "new_content_at env pls (dk_tree d)"
  obtain y s2 where y: "on_disk (cleanup_plans (tx_plans s1)) s1 = (y, s2)" by (cases "on_disk (cleanup_plans (tx_plans s1)) s1")
  have old: "rest_untouched env pls d (tx_disk s) \<and> all_old pls d (tx_disk s)" if "outcome env pls (dk_tree d) (dk_bin d) ?old s" for s
    using outcome_rest [OF that] outcome_old [OF that] ..
  have new: "rest_untouched env pls d (tx_disk s) \<and> all_new env pls d (tx_disk s)" if "outcome env pls (dk_tree d) (dk_bin d) ?new s" for s
    using outcome_rest [OF that] outcome_new [of env pls d "\<lambda>_ _ _ _. True" s] that by simp
  note clean_old = cleanup_outcome(1) [OF sep survives_old _ y] and clean_new = cleanup_outcome [OF sep survives_new _ y]
  show ?thesis
  proof (cases "x = Inl ROLLBACK_FAILED")
    case True
    then have "r = Inl ROLLBACK_FAILED" "d' = tx_disk s1" using run x by (auto simp: run_plans_def transact_clean_def split: sum.splits)
    then show ?thesis using e True old [of s1] new [of s1] good_kept [of env pls d _ s1] by (auto simp: atomic_def)
  next
    case False
    have out: "d' = tx_disk s2 \<and> (case y of Inl e \<Rightarrow> r = Inl e | Inr _ \<Rightarrow> (case x of Inl e \<Rightarrow> r = Inl e | Inr _ \<Rightarrow> \<exists>z. r = Inr z))"
      using run x y False by (auto simp: run_plans_def transact_clean_def split: sum.splits)
    show ?thesis
    proof (cases x)
      case (Inl er)
      then have "outcome env pls (dk_tree d) (dk_bin d) ?old s1 \<or> outcome env pls (dk_tree d) (dk_bin d) ?new s1" using e False by auto
      then have "rest_untouched env pls d (tx_disk s2) \<and> (all_old pls d (tx_disk s2) \<or> all_new env pls d (tx_disk s2))"
        using clean_old clean_new(1) old [of s2] new [of s2] by blast
      then show ?thesis using out Inl by (auto simp: atomic_def split: sum.splits)
    next
      case (Inr es)
      then have s1: "outcome env pls (dk_tree d) (dk_bin d) ?new s1" using e by simp
      have n: "rest_untouched env pls d (tx_disk s2) \<and> all_new env pls d (tx_disk s2)" using clean_new(1) [OF s1] new by blast
      show ?thesis
      proof (cases y)
        case (Inl er)
        then show ?thesis using out n by (simp add: atomic_def)
      next
        case y: (Inr u)
        have "no_artifacts env pls (tx_disk s2)" by (rule outcome_clean [OF clean_new(2) [OF s1 y]])
        then show ?thesis using out n y Inr by (auto simp: atomic_def)
      qed
    qed
  qed
qed

end
