(* ===== verification/Mutation_Planning.thy ===== *)
theory Mutation_Planning
  imports Mutation_Outcome
begin

text \<open>
  What planning establishes: it changes nothing, and in a proper tree the paths of the plans and the names
  of their stage and backup files are apart, as long as the identifier of the transaction is new.
\<close>

section \<open>Plans that were made\<close>

definition planned :: "mutation_env \<Rightarrow> tree \<Rightarrow> plan \<Rightarrow> bool" where
  "planned env t pl \<longleftrightarrow>
     fresh_plan pl \<and> (\<exists>s. me_resolve env s = Inr (pl_path pl)) \<and> (pl_deleted pl \<longrightarrow> pl_expected pl \<noteq> None) \<and>
     (pl_deleted pl \<or>
      (if pl_expected pl = None then t (pl_path pl) = None \<and> is_directory t (parent_of (pl_path pl))
       else \<exists>n. t (pl_path pl) = Some n \<and> nd_kind n = Regular))"

abbreviation makes_plan :: "mutation_env \<Rightarrow> tree \<Rightarrow> (string \<times> bin_entry) list \<Rightarrow> nat \<Rightarrow> (disk, plan) op \<Rightarrow> bool" where
  "makes_plan env t b i m \<equiv> triple (disk_is t b) m (\<lambda>pl d. disk_is t b d \<and> planned env t pl \<and> pl_index pl = i) (disk_is t b)"

lemma triple_read_regular:
  "triple (disk_is t b) (read_regular_bytes p x) (\<lambda>_ d. disk_is t b d \<and> (\<exists>n. t p = Some n \<and> nd_kind n = Regular)) (disk_is t b)"
proof -
  let ?Q = "\<lambda>_ d. disk_is t b d \<and> (\<exists>n. t p = Some n \<and> nd_kind n = Regular)"
  have reads_rest: "reads (then_do (touch IO_ERROR) (\<lambda>_. then_do (file_stat p) (\<lambda>current. attempt (check_expected_etag x (nd_etag current)) (\<lambda>_. give (nd_data n, current)))))" for n
  proof (intro reads_then reads_touch reads_file_stat)
    show "reads (attempt (check_expected_etag x (nd_etag c)) (\<lambda>_. give (nd_data n, c)))" for c
      unfolding reads_def by (intro allI triple_attempt triple_give)
  qed
  have "triple (\<lambda>d. t p = Some n \<and> disk_is t b d)
       (if nd_kind n \<noteq> Regular then fail_with e1 else if c then fail_with e2
        else attempt v (\<lambda>_. then_do (touch IO_ERROR) (\<lambda>_. then_do (file_stat p) (\<lambda>current. attempt (check_expected_etag x (nd_etag current)) (\<lambda>_. give (nd_data n, current))))))
       ?Q (disk_is t b)" for n e1 e2 c v
  proof (intro triple_if triple_fail triple_attempt)
    assume "\<not> nd_kind n \<noteq> Regular"
    then show "triple (\<lambda>d. t p = Some n \<and> disk_is t b d)
        (then_do (touch IO_ERROR) (\<lambda>_. then_do (file_stat p) (\<lambda>current. attempt (check_expected_etag x (nd_etag current)) (\<lambda>_. give (nd_data n, current)))))
        ?Q (disk_is t b)"
      using reads_rest [of n] by (cases "t p = Some n") (auto simp: reads_def triple_def split: prod.splits sum.splits)
  qed auto
  then show ?thesis unfolding read_regular_bytes_def by (rule triple_then [OF triple_file_stat])
qed

lemma planned_new:
  "fresh_plan (new_plan i s p x e dat m)" "fresh_plan ((new_plan i s p x e dat m)\<lparr>pl_deleted := del\<rparr>)"
  "fresh_plan ((new_plan i s p x e dat m)\<lparr>pl_count := c, pl_changed := ch\<rparr>)"
  by (simp_all add: fresh_plan_def untouched_def new_plan_def)

lemma makes_edit:
  assumes "me_resolve env s = Inr p"
  shows "makes_plan env t b i (plan_edit env item i s p x expected)"
proof -
  have "triple (\<lambda>d. disk_is t b d \<and> (\<exists>n. t p = Some n \<and> nd_kind n = Regular))
      (attempt (new_content env x p item raw) (\<lambda>(dat, count).
         if int (length dat) > STANDARD_FILE_MAX_BYTES then fail_with err
         else give ((new_plan i s p x (Some expected) dat (nd_mode n))\<lparr>pl_count := count, pl_changed := (dat \<noteq> raw)\<rparr>)))
      (\<lambda>pl d. disk_is t b d \<and> planned env t pl \<and> pl_index pl = i) (disk_is t b)" for raw n err
  proof (rule triple_attempt)
    fix v
    assume "new_content env x p item raw = Inr v"
    show "triple (\<lambda>d. disk_is t b d \<and> (\<exists>n. t p = Some n \<and> nd_kind n = Regular)) (case v of (dat, count) \<Rightarrow>
         if int (length dat) > STANDARD_FILE_MAX_BYTES then fail_with err
         else give ((new_plan i s p x (Some expected) dat (nd_mode n))\<lparr>pl_count := count, pl_changed := (dat \<noteq> raw)\<rparr>))
      (\<lambda>pl d. disk_is t b d \<and> planned env t pl \<and> pl_index pl = i) (disk_is t b)"
      unfolding case_prod_unfold
      by (intro triple_if triple_fail triple_give) (use assms planned_new in \<open>auto simp: planned_def new_plan_def\<close>)
  qed simp
  then show ?thesis unfolding plan_edit_def by (intro triple_then [OF triple_read_regular]) (auto split: prod.split)
qed

lemma makes_delete:
  assumes "me_resolve env s = Inr p"
  shows "makes_plan env t b i (plan_delete env i s p expected)"
proof -
  have "triple (\<lambda>d. t p = Some n \<and> disk_is t b d) (attempt v (\<lambda>_. give ((new_plan i s p ''path.delete'' (Some expected) [] (nd_mode n))\<lparr>pl_deleted := True\<rparr>)))
      (\<lambda>pl d. disk_is t b d \<and> planned env t pl \<and> pl_index pl = i) (disk_is t b)" for n v
    by (intro triple_attempt triple_give) (use assms planned_new in \<open>auto simp: planned_def new_plan_def\<close>)
  then show ?thesis unfolding plan_delete_def by (intro triple_if triple_fail triple_then [OF triple_file_stat]) auto
qed

lemma triple_other_error: "triple P m Q E \<Longrightarrow> triple P (\<lambda>s. case m s of (Inl e, s1) \<Rightarrow> (Inl (g e), s1) | (Inr x, s1) \<Rightarrow> (Inr x, s1)) Q E"
  unfolding triple_def by (fastforce split: prod.splits sum.splits)

lemma triple_frame: "triple P m Q E \<Longrightarrow> triple (\<lambda>s. P s \<and> F) m (\<lambda>x s. Q x s \<and> F) E"
  by (cases F) (simp_all add: triple_def)

lemma makes_create:
  assumes "me_resolve env s = Inr p"
  shows "makes_plan env t b i (plan_create env item i s p)"
proof -
  let ?Q = "\<lambda>pl d. disk_is t b d \<and> planned env t pl \<and> pl_index pl = i"
  have parent: "triple (disk_is t b) (\<lambda>d. case file_stat (parent_of p) d of
        (Inl e, d1) \<Rightarrow> (Inl (if e = NO_PATH then ApiError 400 ''parent_not_found'' ''parent directory does not exist'' else e), d1)
      | (Inr n, d1) \<Rightarrow> (Inr n, d1)) (\<lambda>n d. t (parent_of p) = Some n \<and> disk_is t b d) (disk_is t b)"
    by (rule triple_other_error [OF triple_file_stat])
  have make: "triple (\<lambda>d. disk_is t b d \<and> t p = None \<and> is_directory t (parent_of p))
      (attempt v (\<lambda>dat. if int (length dat) > STANDARD_FILE_MAX_BYTES then fail_with e else give (new_plan i s p ''file.create'' None dat 384))) ?Q (disk_is t b)" for v e
    by (intro triple_attempt triple_if triple_fail triple_give) (use assms planned_new in \<open>auto simp: planned_def new_plan_def\<close>)
  have free: "triple (\<lambda>d. t (parent_of p) = Some n \<and> disk_is t b d) (path_missing p) (\<lambda>m d. disk_is t b d \<and> (m \<longrightarrow> t p = None) \<and> t (parent_of p) = Some n) (disk_is t b)" for n
    by (rule triple_weaken [OF triple_frame [OF triple_missing, where F = "t (parent_of p) = Some n"]]) auto
  have rest: "triple (\<lambda>d. disk_is t b d \<and> (m \<longrightarrow> t p = None) \<and> t (parent_of p) = Some n)
      (if \<not> m then fail_with e1 else attempt v (\<lambda>dat. if int (length dat) > STANDARD_FILE_MAX_BYTES then fail_with e2 else give (new_plan i s p ''file.create'' None dat 384)))
      ?Q (disk_is t b)" if "nd_kind n = Directory" for m n v e1 e2
    by (intro triple_if triple_fail triple_pre [OF make]) (use that in \<open>auto simp: is_directory_def\<close>)
  have "triple (\<lambda>d. t (parent_of p) = Some n \<and> disk_is t b d)
      (if nd_kind n \<noteq> Directory then fail_with e0 else then_do (path_missing p) (\<lambda>m.
         if \<not> m then fail_with e1 else attempt v (\<lambda>dat. if int (length dat) > STANDARD_FILE_MAX_BYTES then fail_with e2 else give (new_plan i s p ''file.create'' None dat 384))))
      ?Q (disk_is t b)" for n v e0 e1 e2
    by (rule triple_if, rule triple_fail, simp, rule triple_then [OF free rest]) simp
  from triple_then [OF parent this] show ?thesis unfolding plan_create_def by (intro triple_attempt triple_if triple_fail)
qed

lemma makes_item: "makes_plan env t b i (plan_item env v i)"
proof (cases v)
  case (PDict item)
  have p: "makes_plan env t b i (if x = ''file.create'' then plan_create env item i s p
       else attempt w (\<lambda>expected. if x = ''path.delete'' then plan_delete env i s p expected else plan_edit env item i s p x expected))"
    if "me_resolve env s = Inr p" for s p x w
    by (intro triple_if triple_attempt makes_create makes_delete makes_edit that)
  have "makes_plan env t b i (if x \<notin> set MUTATION_OPERATIONS then fail_with e
       else attempt (me_resolve env s) (\<lambda>p. if x = ''file.create'' then plan_create env item i s p
         else attempt (required_exact_etag item) (\<lambda>expected. if x = ''path.delete'' then plan_delete env i s p expected else plan_edit env item i s p x expected)))" for s x e
    by (intro triple_if triple_fail triple_attempt [where v = "me_resolve env s"] p)
  then show ?thesis unfolding plan_item_def PDict pyval.case
    by (cases "dict_get item ''path''"; cases "dict_get item ''op''") (auto intro!: triple_fail triple_if)
qed (simp_all add: plan_item_def triple_fail)

section \<open>All items\<close>

text \<open>The plans made so far.\<close>

definition compatible :: "plan list \<Rightarrow> bool" where
  "compatible ps \<longleftrightarrow> (\<forall>i j. i < j \<longrightarrow> j < length ps \<longrightarrow> pl_path (ps ! i) \<noteq> pl_path (ps ! j) \<and> \<not> overlapping (ps ! j) (ps ! i))"

definition numbered_plans :: "mutation_env \<Rightarrow> tree \<Rightarrow> plan list \<Rightarrow> bool" where
  "numbered_plans env t ps \<longleftrightarrow> (\<forall>i < length ps. planned env t (ps ! i) \<and> pl_index (ps ! i) = i) \<and> compatible ps"

lemma numbered_more:
  assumes "numbered_plans env t ps" "planned env t pl" "pl_index pl = length ps" "pl_path pl \<notin> pl_path ` set ps" "\<not> list_ex (overlapping pl) ps"
  shows "numbered_plans env t (ps @ [pl])"
proof -
  have "planned env t ((ps @ [pl]) ! i) \<and> pl_index ((ps @ [pl]) ! i) = i" if "i < length (ps @ [pl])" for i
    using that assms(1-3) by (cases "i = length ps") (auto simp: numbered_plans_def nth_append)
  moreover have "pl_path ((ps @ [pl]) ! i) \<noteq> pl_path ((ps @ [pl]) ! j) \<and> \<not> overlapping ((ps @ [pl]) ! j) ((ps @ [pl]) ! i)"
    if "i < j" "j < length (ps @ [pl])" for i j
  proof (cases "j = length ps")
    case True
    then show ?thesis using that(1) assms(4,5) nth_mem [of i ps] by (auto simp: nth_append list_ex_iff) (metis imageI nth_mem)
  next
    case False
    then show ?thesis using that assms(1) by (simp add: numbered_plans_def compatible_def nth_append)
  qed
  ultimately show ?thesis unfolding numbered_plans_def compatible_def by blast
qed

lemma admitted_facts:
  assumes "admit env domain ps n pl = Inr v"
  shows "pl_path pl \<notin> pl_path ` set ps" "\<not> list_ex (overlapping pl) ps"
  using assms by (auto simp: admit_def andThen_def split: sum.splits if_splits)

lemma triple_plan_items:
  assumes "numbered_plans env t ps"
  shows "triple (disk_is t b) (plan_items env (length ps) vs domain ps n) (\<lambda>pls d. disk_is t b d \<and> numbered_plans env t pls) (disk_is t b)"
  using assms
proof (induction vs arbitrary: ps domain n)
  case Nil
  then show ?case by (simp add: triple_give)
next
  case (Cons v vs)
  let ?Q = "\<lambda>pls d. disk_is t b d \<and> numbered_plans env t pls"
  have "triple (\<lambda>d. disk_is t b d \<and> planned env t pl \<and> pl_index pl = length ps)
      (attempt (admit env domain ps n pl) (\<lambda>(own, n'). plan_items env (Suc (length ps)) vs (Some own) (ps @ [pl]) n')) ?Q (disk_is t b)" for pl
  proof (cases "planned env t pl \<and> pl_index pl = length ps")
    case True
    show ?thesis
    proof (rule triple_attempt)
      fix w
      assume w: "admit env domain ps n pl = Inr w"
      have "numbered_plans env t (ps @ [pl])" by (rule numbered_more [OF Cons.prems]) (use True admitted_facts [OF w] in simp_all)
      from Cons.IH [OF this] show "triple (\<lambda>d. disk_is t b d \<and> planned env t pl \<and> pl_index pl = length ps)
          (case w of (own, n') \<Rightarrow> plan_items env (Suc (length ps)) vs (Some own) (ps @ [pl]) n') ?Q (disk_is t b)"
        by (auto simp: case_prod_unfold intro: triple_pre)
    qed simp
  next
    case False
    then show ?thesis by (auto simp: triple_def)
  qed
  then show ?case unfolding plan_items.simps by (intro triple_then [OF triple_touch] triple_then [OF makes_item])
qed

section \<open>Places that are apart\<close>

text \<open>Only directories have something below them.  (The empty list of parts is no path.)\<close>

definition proper_tree :: "tree \<Rightarrow> bool" where
  "proper_tree t \<longleftrightarrow> (\<forall>p x. p \<noteq> [] \<longrightarrow> t (p @ [x]) \<noteq> None \<longrightarrow> is_directory t p)"

lemma directory_there: "is_directory t p \<Longrightarrow> t p \<noteq> None"
  by (auto simp: is_directory_def split: option.splits)

lemma proper_above: "proper_tree t \<Longrightarrow> p \<noteq> [] \<Longrightarrow> t (p @ q) \<noteq> None \<Longrightarrow> q \<noteq> [] \<Longrightarrow> is_directory t p"
proof (induction q rule: rev_induct)
  case (snoc x q)
  have up: "is_directory t (p @ q)" using snoc.prems(1-3) unfolding proper_tree_def by (metis append.assoc append_is_Nil_conv)
  show ?case
  proof (cases "q = []")
    case False
    have "t (p @ q) \<noteq> None" using up by (rule directory_there)
    from snoc.IH [OF snoc.prems(1,2) this False] show ?thesis .
  qed (use up in simp)
qed simp

lemma proper_grounded: "proper_tree t \<Longrightarrow> grounded t"
  unfolding grounded_def
proof (intro allI impI)
  fix p q
  assume t: "proper_tree t" "p \<noteq> []" "t (p @ q) \<noteq> None"
  show "t p \<noteq> None"
  proof (cases "q = []")
    case False
    then show ?thesis by (rule directory_there [OF proper_above [OF t]])
  qed (use t in simp)
qed

definition mentions :: "string \<Rightarrow> path \<Rightarrow> bool" where
  "mentions w p \<longleftrightarrow> (\<exists>c \<in> set p. \<exists>u v. c = u @ w @ v)"

lemma in_parents: "p \<noteq> [] \<Longrightarrow> q \<noteq> [] \<Longrightarrow> p \<in> set (self_and_parents (p @ q))"
proof (induction q rule: rev_induct)
  case (snoc x q)
  have step: "self_and_parents (p @ q @ [x]) = (p @ q @ [x]) # self_and_parents (p @ q)"
    using snoc.prems(1) by (subst self_and_parents.simps) (simp add: butlast_append Suc_le_eq)
  show ?case
  proof (cases "q = []")
    case True
    then show ?thesis using step by (simp add: self_and_parents.simps [of p])
  next
    case False
    then show ?thesis using step snoc.IH [OF snoc.prems(1) False] by simp
  qed
qed simp

lemma strict_parent: "p \<noteq> [] \<Longrightarrow> q \<noteq> [] \<Longrightarrow> p \<in> set (path_parents (p @ q))"
proof -
  assume pq: "p \<noteq> []" "q \<noteq> []"
  obtain x r where q: "q = r @ [x]" using pq(2) by (metis rev_exhaust)
  have "path_parents (p @ q) = self_and_parents (p @ r)"
    using pq(1) unfolding path_parents_def q by (subst self_and_parents.simps) (simp add: butlast_append Suc_le_eq)
  moreover have "p \<in> set (self_and_parents (p @ r))"
    using in_parents [OF pq(1), of r] by (cases "r = []") (simp_all add: self_and_parents.simps [of p])
  ultimately show ?thesis by simp
qed

lemma planned_not_below:
  assumes "proper_tree t" "planned env t a" "planned env t b" "\<not> overlapping a b" "pl_path a \<noteq> []" "pl_path b = pl_path a @ q" "q \<noteq> []"
  shows False
proof -
  have "pl_path a \<in> set (path_parents (pl_path b))" unfolding assms(6) by (rule strict_parent [OF assms(5,7)])
  then have del: "\<not> pl_deleted a" "\<not> pl_deleted b" using assms(4) by (auto simp: overlapping_def)
  obtain x r where q: "q = r @ [x]" using assms(7) by (metis rev_exhaust)
  have "is_directory t (pl_path a @ r)"
  proof (cases "pl_expected b = None")
    case True
    then show ?thesis using assms(3) del(2) by (simp add: planned_def assms(6) q parent_of_def butlast_append)
  next
    case False
    then have "t ((pl_path a @ r) @ [x]) \<noteq> None" using assms(3) del(2) by (auto simp: planned_def assms(6) q)
    then show ?thesis using assms(1,5) unfolding proper_tree_def by blast
  qed
  then have "is_directory t (pl_path a)"
  proof (cases "r = []")
    case False
    assume "is_directory t (pl_path a @ r)"
    then have "t (pl_path a @ r) \<noteq> None" by (rule directory_there)
    from proper_above [OF assms(1,5) this False] show ?thesis .
  qed simp
  then show False using assms(2) del(1) by (auto simp: planned_def is_directory_def split: if_splits)
qed

lemma show_nat_tail: "u @ ''-'' @ show_nat i = v @ ''-'' @ show_nat j \<Longrightarrow> u = v \<and> i = j"
proof -
  assume eq: "u @ ''-'' @ show_nat i = v @ ''-'' @ show_nat j"
  have dash: "\<not> ascii_digit (CHR ''-'')" by (simp add: ascii_digit_def)
  have "list_all ascii_digit (show_nat k)" for k using show_nat_props by blast
  then have free: "CHR ''-'' \<notin> set (show_nat k)" for k using dash unfolding list_all_iff by metis
  have cut: "takeWhile (\<lambda>c. c \<noteq> CHR ''-'') (rev (w @ ''-'' @ show_nat k)) = rev (show_nat k)" for w k
  proof -
    have "\<And>c. c \<in> set (rev (show_nat k)) \<Longrightarrow> c \<noteq> CHR ''-''" using free [of k] by (metis set_rev)
    then show ?thesis unfolding rev_append append_assoc by (subst takeWhile_append2) simp_all
  qed
  have "show_nat i = show_nat j" using cut [of u i] cut [of v j] unfolding eq by simp
  then have "i = j" using show_nat_props by metis
  with eq show ?thesis by simp
qed

lemma artifact_mentions: "mentions (me_tx env) (artifact m env pl @ r)"
proof -
  let ?c = "''.'' @ last (pl_path pl) @ m @ me_tx env @ ''-'' @ show_nat (pl_index pl)"
  have "?c = (''.'' @ last (pl_path pl) @ m) @ me_tx env @ (''-'' @ show_nat (pl_index pl))" by simp
  moreover have "?c \<in> set (artifact m env pl @ r)" by (simp add: artifact_def)
  ultimately show ?thesis unfolding mentions_def by blast
qed

lemma artifacts_differ:
  assumes "artifact m env a @ r = artifact m' env b" "\<not> mentions (me_tx env) (pl_path b)" "pl_path b \<noteq> []"
  shows "pl_index a = pl_index b \<and> last (pl_path a) @ m = last (pl_path b) @ m'"
proof (cases "r = []")
  case True
  then have "(''.'' @ last (pl_path a) @ m @ me_tx env) @ ''-'' @ show_nat (pl_index a) = (''.'' @ last (pl_path b) @ m' @ me_tx env) @ ''-'' @ show_nat (pl_index b)"
    using assms(1) by (simp add: artifact_def)
  from show_nat_tail [OF this] show ?thesis by simp
next
  case False
  then have "parent_of (pl_path b) = artifact m env a @ butlast r" using assms(1) unfolding artifact_def by (metis butlast_append butlast_snoc)
  then have "pl_path b = artifact m env a @ butlast r @ [last (pl_path b)]" using assms(3) unfolding parent_of_def by (metis append.assoc append_butlast_last_id)
  then have "mentions (me_tx env) (pl_path b)" using artifact_mentions by metis
  with assms(2) show ?thesis ..
qed

lemma path_above_artifact:
  assumes "artifact m env a = p @ r" "\<not> mentions (me_tx env) p" "pl_path a \<noteq> []"
  shows "\<exists>q. q \<noteq> [] \<and> pl_path a = p @ q"
proof -
  have "r \<noteq> []" using assms(1,2) artifact_mentions [of env m a "[]"] by auto
  then have "parent_of (pl_path a) = p @ butlast r" using assms(1) unfolding artifact_def by (metis butlast_append butlast_snoc)
  then have "pl_path a = p @ (butlast r @ [last (pl_path a)])" using assms(3) unfolding parent_of_def by (metis append.assoc append_butlast_last_id)
  then show ?thesis by blast
qed

text \<open>What the surroundings of a request provide: paths are resolved, and the random identifier of the transaction is new.\<close>

definition request_fits :: "mutation_env \<Rightarrow> tree \<Rightarrow> bool" where
  "request_fits env t \<longleftrightarrow>
     keeps_content env \<and> (\<forall>i. me_rid env i \<noteq> []) \<and>
     (\<forall>s p. me_resolve env s = Inr p \<longrightarrow> p \<noteq> [] \<and> rb_resolve (me_bin env p) p = p \<and> \<not> mentions (me_tx env) p) \<and>
     (\<forall>p. t p \<noteq> None \<longrightarrow> \<not> mentions (me_tx env) p)"

lemma planned_path: "request_fits env t \<Longrightarrow> planned env t pl \<Longrightarrow> pl_path pl \<noteq> [] \<and> \<not> mentions (me_tx env) (pl_path pl) \<and>
    rb_resolve (me_bin env (pl_path pl)) (pl_path pl) = pl_path pl"
  unfolding request_fits_def planned_def by blast

lemma overlapping_sym: "overlapping a b = overlapping b a"
  by (auto simp: overlapping_def)

lemma numbered_apart:
  assumes "numbered_plans env t pls" "i < length pls" "j < length pls" "i \<noteq> j"
  shows "pl_path (pls ! i) \<noteq> pl_path (pls ! j)" "\<not> overlapping (pls ! i) (pls ! j)"
  using assms unfolding numbered_plans_def compatible_def by (metis linorder_neqE_nat overlapping_sym)+

lemma paths_below:
  assumes t: "proper_tree t" "request_fits env t" and n: "numbered_plans env t pls" "i < length pls" "j < length pls" and q: "pl_path (pls ! j) = pl_path (pls ! i) @ q"
  shows "i = j"
proof (rule ccontr)
  assume ij: "i \<noteq> j"
  have p: "planned env t (pls ! i)" "planned env t (pls ! j)" using n by (simp_all add: numbered_plans_def)
  have "q \<noteq> []" using numbered_apart(1) [OF n ij] q by auto
  then show False using planned_not_below [OF t(1) p numbered_apart(2) [OF n ij] _ q] planned_path [OF t(2) p(1)] by blast
qed

text \<open>The three places of every plan are apart.\<close>

fun place_mark :: "place \<Rightarrow> string" where
  "place_mark (AtPath i) = []"
| "place_mark (AtStage i) = ''.openkapsel-put-txn-''"
| "place_mark (AtBackup i) = ''.openkapsel-transfer-txn-''"

abbreviation is_path :: "place \<Rightarrow> bool" where
  "is_path x \<equiv> place_mark x = []"

lemma slot_cases:
  "is_path x \<Longrightarrow> x = AtPath (place_index x) \<and> slot env pls x = pl_path (pls ! place_index x)"
  "\<not> is_path x \<Longrightarrow> slot env pls x = artifact (place_mark x) env (pls ! place_index x)"
  by (cases x; simp add: stage_path_def backup_path_def)+

lemma same_place: "place_index x = place_index y \<Longrightarrow> place_mark x = place_mark y \<Longrightarrow> x = y"
  by (cases x; cases y) simp_all

lemma slot_not_below:
  assumes t: "proper_tree t" "request_fits env t" and n: "numbered_plans env t pls" and xy: "valid_place pls x" "valid_place pls y" "slot env pls y = slot env pls x @ q"
  shows "x = y"
proof -
  let ?i = "place_index x" and ?j = "place_index y"
  have p: "planned env t (pls ! ?i)" "planned env t (pls ! ?j)" and k: "pl_index (pls ! ?i) = ?i" "pl_index (pls ! ?j) = ?j" using n xy by (simp_all add: numbered_plans_def)
  note px = planned_path [OF t(2) p(1)] and py = planned_path [OF t(2) p(2)]
  consider "is_path x" "is_path y" | "is_path x" "\<not> is_path y" | "\<not> is_path x" "is_path y" | "\<not> is_path x" "\<not> is_path y" by blast
  then show ?thesis
  proof cases
    case 1
    then have "?i = ?j" using paths_below [OF t n xy(1,2)] xy(3) slot_cases(1) by metis
    then show ?thesis using 1 by (intro same_place) simp_all
  next
    case 2
    then have "artifact (place_mark y) env (pls ! ?j) = pl_path (pls ! ?i) @ q" using xy(3) slot_cases by metis
    then obtain r where r: "r \<noteq> []" "pl_path (pls ! ?j) = pl_path (pls ! ?i) @ r" using path_above_artifact px py by metis
    then have "?i = ?j" using paths_below [OF t n xy(1,2)] by blast
    then show ?thesis using r by simp
  next
    case 3
    then have "pl_path (pls ! ?j) = artifact (place_mark x) env (pls ! ?i) @ q" using xy(3) slot_cases by metis
    then show ?thesis using py artifact_mentions by metis
  next
    case 4
    then have "artifact (place_mark x) env (pls ! ?i) @ q = artifact (place_mark y) env (pls ! ?j)" using xy(3) slot_cases by metis
    from artifacts_differ [OF this] py have both: "pl_index (pls ! ?i) = pl_index (pls ! ?j)" "last (pl_path (pls ! ?i)) @ place_mark x = last (pl_path (pls ! ?j)) @ place_mark y"
      by blast+
    have index: "?i = ?j" using both(1) unfolding k .
    have "place_mark x = place_mark y" using both(2) unfolding index by simp
    with index show ?thesis by (rule same_place)
  qed
qed

lemma planned_separate:
  assumes "proper_tree t" "request_fits env t" "numbered_plans env t pls"
  shows "separate env pls"
  unfolding separate_def apart_paths_def under
proof (intro allI impI conjI notI)
  fix x y
  assume xy: "valid_place pls x" "valid_place pls y" "x \<noteq> y"
  show False if "\<exists>r. slot env pls y = slot env pls x @ r" using slot_not_below [OF assms xy(1,2)] xy(3) that by blast
  show False if "\<exists>r. slot env pls x = slot env pls y @ r" using slot_not_below [OF assms xy(2,1)] xy(3) that by blast
qed

lemma planned_vacant:
  assumes "request_fits env t" "numbered_plans env t pls"
  shows "vacant env pls t"
proof -
  have "t (artifact m env pl @ q) = None" for m pl q using assms(1) artifact_mentions unfolding request_fits_def by metis
  then show ?thesis by (simp add: vacant_def shape_def content_at_def stage_path_def backup_path_def)
qed

lemma planned_bins: "request_fits env t \<Longrightarrow> numbered_plans env t pls \<Longrightarrow> bins_fit env pls"
  using planned_path unfolding bins_fit_def request_fits_def numbered_plans_def by (metis in_set_conv_nth)

lemma planned_run:
  assumes t: "proper_tree (dk_tree d)" "request_fits env (dk_tree d)" and n: "numbered_plans env (dk_tree d) pls" and d: "undisturbed d"
    and run: "run_plans env False pls d = (r, d')"
  shows "atomic env pls d r d'"
proof (rule run_plans_atomic [OF d planned_separate [OF t n] planned_vacant [OF t(2) n] proper_grounded [OF t(1)] planned_bins [OF t(2) n] _ _ run])
  show "keeps_content env" using t(2) by (simp add: request_fits_def)
  show "\<forall>pl \<in> set pls. fresh_plan pl \<and> (pl_deleted pl \<longrightarrow> pl_expected pl \<noteq> None)"
    using n by (auto simp: numbered_plans_def planned_def in_set_conv_nth)
qed

end
