(* ===== verification/Mutation_Properties.thy ===== *)
theory Mutation_Properties
  imports Mutation_Planning
begin

text \<open>
  The promise of a file transaction: whatever system call fails, the files of a request are all old or all
  new, or the rollback itself failed and every original is still there.
\<close>

section \<open>All or nothing\<close>

lemma atomic_start: "dk_tree d1 = dk_tree d \<Longrightarrow> dk_bin d1 = dk_bin d \<Longrightarrow> atomic env pls d1 r d' = atomic env pls d r d'"
  unfolding atomic_def rest_untouched_def all_old_def all_new_def originals_kept_def by (simp split: sum.split)

definition nothing_done :: "disk \<Rightarrow> mutation_result result \<Rightarrow> disk \<Rightarrow> bool" where
  "nothing_done d r d' \<longleftrightarrow>
     dk_tree d' = dk_tree d \<and> dk_bin d' = dk_bin d \<and> (case r of Inl _ \<Rightarrow> True | Inr res \<Rightarrow> \<not> mr_committed res)"

lemma planned_dry:
  assumes "undisturbed d" "run_plans env True pls d = (r, d')"
  shows "nothing_done d r d'"
proof -
  have d: "disk_is (dk_tree d) (dk_bin d) d" using assms(1) by (simp add: disk_is_def)
  note check = triple_revalidate [of "dk_tree d" "dk_bin d" pls]
  have "then_do (revalidate pls) (\<lambda>_. give \<lparr>mr_committed = False, mr_plans = pls, mr_etags = []\<rparr>) d = (r, d')" using assms(2) by (simp add: run_plans_def)
  then show ?thesis
  proof (cases rule: then_do_cases)
    case (1 e)
    then show ?thesis using triple_Inl [OF check d] by (simp add: nothing_done_def disk_is_def)
  next
    case (2 x s1)
    then show ?thesis using triple_Inr [OF check d] by (auto simp: nothing_done_def disk_is_def give_def)
  qed
qed

lemma planned_any:
  assumes t: "proper_tree (dk_tree d)" "request_fits env (dk_tree d)" and d: "undisturbed d"
    and run: "then_do (plan_items env 0 vs None [] 0) (run_plans env dry) d = (r, d')"
  shows "nothing_done d r d' \<or> (\<exists>pls d1. plan_items env 0 vs None [] 0 d = (Inr pls, d1) \<and> atomic env pls d r d')"
proof -
  have d0: "disk_is (dk_tree d) (dk_bin d) d" using d by (simp add: disk_is_def)
  have none: "numbered_plans env (dk_tree d) []" by (simp add: numbered_plans_def compatible_def)
  note plan = triple_plan_items [OF none, of "dk_bin d" vs None 0, simplified]
  from run show ?thesis
  proof (cases rule: then_do_cases)
    case (1 e)
    then show ?thesis using triple_Inl [OF plan d0] by (simp add: nothing_done_def disk_is_def)
  next
    case (2 pls d1)
    have "disk_is (dk_tree d) (dk_bin d) d1" and n: "numbered_plans env (dk_tree d) pls" using triple_Inr [OF plan d0 2(1)] by blast+
    then have d1: "dk_tree d1 = dk_tree d" "dk_bin d1 = dk_bin d" "undisturbed d1" by (simp_all add: disk_is_def)
    show ?thesis
    proof (cases dry)
      case True
      then show ?thesis using planned_dry [OF d1(3)] 2(2) by (simp add: nothing_done_def d1)
    next
      case False
      have "atomic env pls d1 r d'" by (rule planned_run) (use t n d1 2(2) False in simp_all)
      then show ?thesis using 2(1) atomic_start [OF d1(1,2)] by blast
    qed
  qed
qed

text \<open>
  A file transaction is all or nothing.  A request is refused with nothing done, or is made into plans, and
  then, whichever system calls fail: with an answer, every file has its new content, every deleted path is
  in the bin, and no stage or backup file is left; with an error, all files are old, or all are new, or
  the rollback failed and each original is at its path, at its backup or in the bin.  Nothing else on the
  disk changes, and no earlier item of the bin.
\<close>

theorem mutation_all_or_nothing:
  assumes "undisturbed d" and "proper_tree (dk_tree d)" and "request_fits env (dk_tree d)" and "execute_mutation env body d = (r, d')"
  shows "nothing_done d r d' \<or>
    (\<exists>items pls d1. dict_get body ''items'' = PList items \<and> plan_items env 0 items None [] 0 d = (Inr pls, d1) \<and> atomic env pls d r d')"
proof -
  have refused: "nothing_done d r d'" if "fail_with e d = (r, d')" for e
    using that by (auto simp: fail_with_def nothing_done_def)
  show ?thesis
  proof (cases "dict_get body ''items''")
    case (PList items)
    show ?thesis
    proof (cases items)
      case Nil
      then show ?thesis using assms(4) PList refused by (simp add: execute_mutation_def)
    next
      case (Cons v vs)
      show ?thesis
      proof (cases "int (length (v # vs)) > min MUTATION_MAX_ITEMS (int (me_max_batch env))")
        case True
        then show ?thesis using assms(4) PList Cons refused by (simp add: execute_mutation_def)
      next
        case False
        show ?thesis
        proof (cases "dict_get_default body ''dry_run'' (PBool False)")
          case (PBool dry)
          then have "then_do (plan_items env 0 items None [] 0) (run_plans env dry) d = (r, d')"
            using assms(4) PList Cons False unfolding execute_mutation_def by (simp del: plan_items.simps)
          from planned_any [OF assms(2,3,1) this] PList show ?thesis by blast
        qed (use assms(4) PList Cons False refused in \<open>simp_all add: execute_mutation_def\<close>)
      qed
    qed
  qed (use assms(4) refused in \<open>simp_all add: execute_mutation_def\<close>)
qed

end
