(* ===== verification/Spec2Isabelle.thy ===== *)
theory Spec2Isabelle
  imports Schedule_Properties Path_Access OAuth_Properties Context_Properties Completion_Properties Approval_Properties Upload_Properties Request_Properties Text_Edit_Properties Mutation_Properties
begin

text \<open>
  OpenKapsel: a verification library for the stores and rules at the core of the server.

  \<^bold>\<open>The program.\<close>  OpenKapsel serves workspaces to AI clients over HTTP.  A request is authenticated
  (by a token, or over OAuth for a remote MCP client), its path is judged by the path policy, and it
  reads or changes one of the stores of the workspace: the schedules of Shell commands, the Context (an
  event log with a tree of plans and a conversation log) and the Memory (long-term notes with a
  history).  Every state change belongs to a plan of the Context; completing a plan writes a debrief to
  the Context database and the lessons learned to the Memory database.  The stores are SQLite databases
  behind a lock; their rules (quotas, revisions, ledgers of requests, state machines) are what this
  library is about.

  \<^bold>\<open>Common ground.\<close>
  \<^item> \<open>Kapsel_Prelude\<close>: Python values (\<open>pyval\<close>), exceptions (\<open>pyerr\<close>), results (\<open>pyerr + 'a\<close>, written
    \<open>result\<close>, with \<open>andThen\<close> for sequencing), tables as lists of records (\<open>select\<close>, \<open>update_where\<close>,
    \<open>delete_where\<close>) and the string operations the sources use.
  \<^item> \<open>Transactions\<close>: functions inside a transaction (\<open>tx\<close>), committed operations (\<open>op\<close>), and the locales
    for a keyed request ledger and for an evolving store (an invariant and a \<open>later\<close> relation that every
    step keeps).
  \<^item> \<open>Text_Tools\<close>: \<open>normpath\<close>, the LIKE operator of SQLite and argument checks.

  \<^bold>\<open>Schedules\<close> (\<open>openkapsel/execution/scheduler_store.py\<close>).  \<open>Civil_Time\<close> is the calendar and ISO text,
  \<open>Cron_Expression\<close> the six-field cron language with its search for the next instant, \<open>Schedule_Store\<close>
  the two tables and every operation, \<open>Schedule_Lifecycle\<close> the step relation \<open>store_step\<close>, and
  \<open>Schedule_Properties\<close> the properties: no overlapping runs, the running marker, at most one claim per
  occurrence, the next instant of a cron expression is the least match, quotas, isolation of
  applications, optimistic updates, bounded history.

  \<^bold>\<open>Access\<close> (\<open>openkapsel/auth/path_access.py\<close>, \<open>oauth_store.py\<close>).  \<open>Path_Access\<close> is the effective access of a
  path under the built-in and explicit rules; \<open>OAuth_Store\<close>, \<open>OAuth_Safety\<close> and \<open>OAuth_Properties\<close> are the
  OAuth tables, their invariant, and the protocol properties (single use of codes, rotation and reuse
  detection of refresh tokens, one live grant, permanent client binding).

  \<^bold>\<open>Context\<close> (\<open>openkapsel/context/context_store.py\<close>, \<open>conversation.py\<close>, \<open>context_plans.py\<close>).
  \<open>Conversation_Log\<close> and \<open>Conversation_Safety\<close> are the append-only conversation log, \<open>Context_Store\<close> the
  entries, plans and debriefs, \<open>Context_Plans\<close> the atomic creation of a plan with children and its request
  ledger, \<open>Context_Lifecycle\<close> the step relation \<open>ctx_step\<close> and its invariant, \<open>Context_Properties\<close> the
  properties: references stay valid under trimming, completed plans are final, completion requires closed
  descendants, optimistic updates, at-most-once creation per request key, well-formed conversations.

  \<^bold>\<open>Memory and plan completion\<close> (\<open>openkapsel/context/memory_store.py\<close>, \<open>memory_handlers.py\<close>,
  \<open>server_runtime/context_http.py\<close>).  \<open>Memory_Store\<close> and \<open>Memory_Safety\<close> are the four memory tables and
  their invariant; \<open>Plan_Completion\<close> the handler that completes a plan, with \<open>Completion_Safety\<close> (the
  locale \<open>rehearsed_commit\<close>: a dry run in one database makes the commit to two databases all or nothing),
  \<open>Preflight_Safety\<close> (the simulation of memory actions) and \<open>Plan_Scopes\<close> (the paging loop over the
  operations of a plan); \<open>Completion_Properties\<close> states the properties.

  \<^bold>\<open>Parameters.\<close>  The clock readings, random identifiers, SHA-256, the PKCE challenge, the URL parser, the
  time-zone database, the file system seen by the path policy, and mapping lookups are arguments of the
  definitions.  No law of them is assumed except where a property names it as a hypothesis.

  \<^bold>\<open>Bounds and fuel.\<close>  Loops are structural or have a termination proof.  The walk to the root of a plan and
  the paging loop take fuel; \<open>plan_root_total\<close> and \<open>plan_scopes_every_operation\<close> show that the fuel the
  model passes (the number of entries, plus one) always gives the result.  Strings are lists of
  characters with code points below 256; integers are unbounded as in Python, with the 64-bit range of
  SQLite columns checked where the source meets it.  Finite floats are exact rationals.

  \<^bold>\<open>Not modelled.\<close>  HTTP parsing and dispatch, HTML pages, Discovery documents and MCP schemas (text without
  state); processes, sandboxes, cgroups, FUSE, rclone and ext4 images (operating-system effects); the
  client runtime and RPC plugins (adapters to such effects); migration of old databases.
\<close>

end
